(* ===== verification/Prelude.thy ===== *)
theory Prelude
  imports Main "HOL-Library.Word"
begin

unbundle bit_operations_syntax

text \<open>
  Shared vocabulary of the development: the machine types of
  \<^verbatim>\<open>StormancerTypes.h\<close>, the exceptions the SDK throws as a datatype, results as
  \<^typ>\<open>'e + 'a\<close>, and generic facts about lists, maps and words that the components
  share. The collections \<^verbatim>\<open>state_simps\<close> and \<^verbatim>\<open>inv_intros\<close> gather the unfolding
  equations and the preservation lemmas that the component proofs run on.
\<close>

named_theorems state_simps "unfolding equations of the operations"
named_theorems inv_intros "preservation lemmas for component invariants"

section \<open>Machine types\<close>

type_synonym byte = "8 word"
type_synonym u16 = "16 word"
type_synonym u32 = "32 word"
type_synonym u64 = "64 word"

text \<open>The narrowing cast \<^verbatim>\<open>(int)x\<close> of a 64-bit signed offset.\<close>

definition to_int32 :: "int \<Rightarrow> int" where
  "to_int32 x = signed_take_bit 31 x"

lemma to_int32_small [simp]: "0 \<le> x \<Longrightarrow> x < 2147483648 \<Longrightarrow> to_int32 x = x"
  by (simp add: to_int32_def signed_take_bit_int_eq_self)

section \<open>Exceptions and results\<close>

text \<open>
  The C++ exception classes the modelled code throws, with the message as the payload.
  An operation that may throw returns \<^typ>\<open>'e + 'a\<close>: \<^const>\<open>Inl\<close> is the exception.
\<close>

datatype storm_exn =
    RuntimeError string
  | InvalidArgument string
  | OverflowError string
  | LogicError string
  | OutOfRange string
  | PointerDeleted string
  | DependencyResolution string
  | TaskCanceled

type_synonym 'a res = "storm_exn + 'a"

fun bind_res :: "'a res \<Rightarrow> ('a \<Rightarrow> 'b res) \<Rightarrow> 'b res" where
  "bind_res (Inl e) f = Inl e"
| "bind_res (Inr a) f = f a"

fun what :: "storm_exn \<Rightarrow> string" where
  "what (RuntimeError s) = s"
| "what (InvalidArgument s) = s"
| "what (OverflowError s) = s"
| "what (LogicError s) = s"
| "what (OutOfRange s) = s"
| "what (PointerDeleted s) = s"
| "what (DependencyResolution s) = s"
| "what TaskCanceled = ''''"

lemma bind_res_Inr_iff [simp]:
  "bind_res r f = Inr b \<longleftrightarrow> (\<exists>a. r = Inr a \<and> f a = Inr b)"
  by (cases r) auto

lemma bind_res_assoc: "bind_res (bind_res r f) g = bind_res r (\<lambda>a. bind_res (f a) g)"
  by (cases r) auto

section \<open>Asynchronous results\<close>

text \<open>
  A \<^verbatim>\<open>pplx::task\<close> seen from outside: not finished, finished with a value, finished with
  an exception, or canceled (its completion event was destroyed before it was set).
\<close>

datatype 'a task = Pending | Done 'a | Failed storm_exn | Canceled

definition is_done :: "'a task \<Rightarrow> bool" where
  "is_done t \<longleftrightarrow> t \<noteq> Pending"

text \<open>A completion event that is set after its task has ended has no effect on the task.\<close>

definition tce_set :: "'a task \<Rightarrow> 'a task \<Rightarrow> 'a task" where
  "tce_set v t = (if t = Pending then v else t)"

fun task_get :: "'a task \<Rightarrow> 'a res option" where
  "task_get Pending = None"
| "task_get (Done a) = Some (Inr a)"
| "task_get (Failed e) = Some (Inl e)"
| "task_get Canceled = Some (Inl TaskCanceled)"

lemma task_get_None_iff [simp]: "task_get t = None \<longleftrightarrow> t = Pending"
  by (cases t) auto

section \<open>Lists\<close>

lemma take_append_drop_same: "n \<le> length xs \<Longrightarrow> take n (take n xs @ ys) = take n xs"
  by simp

lemma nat_int_add: "0 \<le> a \<Longrightarrow> 0 \<le> b \<Longrightarrow> nat (a + b) = nat a + nat b"
  by (rule nat_add_distrib)

text \<open>Overwriting part of a list, as \<^verbatim>\<open>memcpy\<close> does.\<close>

definition overwrite :: "nat \<Rightarrow> 'a list \<Rightarrow> 'a list \<Rightarrow> 'a list" where
  "overwrite i ys xs = take i xs @ ys @ drop (i + length ys) xs"

lemma length_overwrite [simp]:
  "i + length ys \<le> length xs \<Longrightarrow> length (overwrite i ys xs) = length xs"
  by (simp add: overwrite_def)

lemma take_overwrite_upto:
  "i \<le> length xs \<Longrightarrow> take (i + length ys) (overwrite i ys xs) = take i xs @ ys"
  by (simp add: overwrite_def)

lemma take_overwrite_before: "n \<le> i \<Longrightarrow> i \<le> length xs \<Longrightarrow> take n (overwrite i ys xs) = take n xs"
  by (simp add: overwrite_def)

lemma overwrite_Nil [simp]: "i \<le> length xs \<Longrightarrow> overwrite i [] xs = xs"
  by (simp add: overwrite_def)

lemma overwrite_all: "length ys = length xs \<Longrightarrow> overwrite 0 ys xs = ys"
  by (simp add: overwrite_def)

section \<open>Maps\<close>

lemma dom_map_upd_fresh: "m k = None \<Longrightarrow> finite (dom m) \<Longrightarrow> card (dom (m(k \<mapsto> v))) = Suc (card (dom m))"
  by (simp add: domIff)

lemma card_dom_delete: "m k = Some v \<Longrightarrow> finite (dom m) \<Longrightarrow> card (dom (m(k := None))) = card (dom m) - 1"
  by (simp add: card_Diff_singleton domI)

lemma finite_dom_delete [simp, intro]: "finite (dom m) \<Longrightarrow> finite (dom (m(k := None)))"
  by simp

text \<open>\<^verbatim>\<open>std::unordered_map::emplace\<close> and \<^verbatim>\<open>insert\<close> leave an existing entry alone.\<close>

definition emplace :: "'k \<Rightarrow> 'v \<Rightarrow> ('k \<rightharpoonup> 'v) \<Rightarrow> ('k \<rightharpoonup> 'v)" where
  "emplace k v m = (case m k of None \<Rightarrow> m(k \<mapsto> v) | Some _ \<Rightarrow> m)"

lemma emplace_fresh [simp]: "m k = None \<Longrightarrow> emplace k v m = m(k \<mapsto> v)"
  by (simp add: emplace_def)

lemma emplace_present [simp]: "m k = Some w \<Longrightarrow> emplace k v m = m"
  by (simp add: emplace_def)

lemma emplace_other: "k \<noteq> k' \<Longrightarrow> emplace k v m k' = m k'"
  by (simp add: emplace_def split: option.splits)

lemma dom_emplace [simp]: "dom (emplace k v m) = insert k (dom m)"
  by (auto simp: emplace_def split: option.splits)

end
