(* ===== verification/ByteStreamBuf.thy ===== *)
theory ByteStreamBuf
  imports Prelude
begin

text \<open>
  The stream buffer \<^verbatim>\<open>bytestreambuf\<close> (\<^verbatim>\<open>src/Streams/bytestreambuf.cpp\<close>): six pointers
  into one block of bytes, a mode bitmask, and the virtual functions the standard streams
  call. A pointer is \<^typ>\<open>int option\<close>: \<^const>\<open>None\<close> is \<^verbatim>\<open>nullptr\<close> and \<^term>\<open>Some i\<close> is
  the address of the block plus \<^term>\<open>i\<close>. Two fields are kept for the proofs and are written
  where the code allocates, frees or touches memory: \<^verbatim>\<open>bs_live\<close> counts the blocks obtained
  with \<^verbatim>\<open>new[]\<close> and not yet deleted, \<^verbatim>\<open>bs_fault\<close> records an access outside of the block.
  The lemmas show memory safety of every operation under the representation invariant
  \<^verbatim>\<open>bsb_at\<close>, and that writing appends and reading consumes.
\<close>

section \<open>State\<close>

type_synonym ptr = "int option"

record bsb =
  bs_mem :: "byte list"
  eback :: ptr
  gptr :: ptr
  egptr :: ptr
  pbase :: ptr
  pptr :: ptr
  epptr :: ptr
  bs_mode :: u32
  bs_live :: nat
  bs_fault :: bool

definition Read :: u32 where "Read = 1"
definition Write :: u32 where "Write = 2"
definition Dynamic :: u32 where "Dynamic = 4"
definition Allocated :: u32 where "Allocated = 8"

lemmas mode_defs = Read_def Write_def Dynamic_def Allocated_def

definition has :: "bsb \<Rightarrow> u32 \<Rightarrow> bool" where
  "has b k \<longleftrightarrow> bs_mode b AND k \<noteq> 0"

subsection \<open>Pointers and the block\<close>

definition addr :: "ptr \<Rightarrow> int" where
  "addr p = (case p of None \<Rightarrow> 0 | Some a \<Rightarrow> a)"

definition pdiff :: "ptr \<Rightarrow> ptr \<Rightarrow> int" where
  "pdiff p q = addr p - addr q"

definition padd :: "ptr \<Rightarrow> int \<Rightarrow> ptr" where
  "padd p k = map_option (\<lambda>a. a + k) p"

definition in_block :: "bsb \<Rightarrow> ptr \<Rightarrow> int \<Rightarrow> bool" where
  "in_block b p n = (case p of None \<Rightarrow> n = 0
     | Some a \<Rightarrow> 0 \<le> n \<and> 0 \<le> a \<and> a + n \<le> int (length (bs_mem b)))"

lemma addr_simps [simp]: "addr None = 0" "addr (Some a) = a"
  by (simp_all add: addr_def)

lemma pdiff_Some [simp]: "pdiff (Some a) (Some c) = a - c"
  by (simp add: pdiff_def)

lemma pdiff_None [simp]: "pdiff None None = 0"
  by (simp add: pdiff_def)

lemma padd_simps [simp]: "padd None k = None" "padd (Some a) k = Some (a + k)"
  by (simp_all add: padd_def)

text \<open>Reading and writing \<^term>\<open>n\<close> bytes at a pointer: \<^verbatim>\<open>memcpy\<close> and single accesses.\<close>

definition load :: "bsb \<Rightarrow> ptr \<Rightarrow> int \<Rightarrow> byte list" where
  "load b p n = take (nat n) (drop (nat (addr p)) (bs_mem b))"

definition touch :: "ptr \<Rightarrow> int \<Rightarrow> bsb \<Rightarrow> bsb" where
  "touch p n b = (if in_block b p n then b else b\<lparr>bs_fault := True\<rparr>)"

definition store :: "ptr \<Rightarrow> byte list \<Rightarrow> bsb \<Rightarrow> bsb" where
  "store p xs b = (if in_block b p (int (length xs))
     then b\<lparr>bs_mem := overwrite (nat (addr p)) xs (bs_mem b)\<rparr>
     else b\<lparr>bs_fault := True\<rparr>)"

subsection \<open>The pointer setters of \<^verbatim>\<open>std::basic_streambuf\<close>\<close>

definition setg :: "ptr \<Rightarrow> ptr \<Rightarrow> ptr \<Rightarrow> bsb \<Rightarrow> bsb" where
  "setg a n e b = b\<lparr>eback := a, gptr := n, egptr := e\<rparr>"

definition setp :: "ptr \<Rightarrow> ptr \<Rightarrow> bsb \<Rightarrow> bsb" where
  "setp a e b = b\<lparr>pbase := a, pptr := a, epptr := e\<rparr>"

definition pbump :: "int \<Rightarrow> bsb \<Rightarrow> bsb" where
  "pbump k b = b\<lparr>pptr := padd (pptr b) k\<rparr>"

section \<open>Operations\<close>

text \<open>\<^verbatim>\<open>reset\<close>, \<^verbatim>\<open>tidy\<close> (the destructor's body) and \<^verbatim>\<open>init\<close>.\<close>

definition bsb_reset :: "bsb \<Rightarrow> bsb" where
  "bsb_reset b = (setp None None (setg None None None b))\<lparr>bs_mode := 0\<rparr>"

definition bsb_tidy :: "bsb \<Rightarrow> bsb" where
  "bsb_tidy b =
     (let b1 =
        (if has b Allocated then
           let p = (if pbase b = None then eback b else pbase b)
           in if p \<noteq> None then b\<lparr>bs_mem := [], bs_live := bs_live b - 1\<rparr> else b
         else b)
      in bsb_reset b1)"

definition bsb_init :: "int \<Rightarrow> bsb \<Rightarrow> bsb" where
  "bsb_init n b =
     (let (b1, ptr, ptrWriteLast) =
        (if n > 0
         then (b\<lparr>bs_mem := replicate (nat (take_bit 32 n)) 0, bs_live := Suc (bs_live b)\<rparr>,
               Some 0, Some n)
         else (b\<lparr>bs_mem := []\<rparr>, None, None));
        b2 = setg ptr ptr ptr b1;
        b3 = setp ptr ptrWriteLast b2
      in b3\<lparr>bs_mode := Read OR Write OR Dynamic OR Allocated\<rparr>)"

text \<open>Memory before the constructor body has run: no block, null pointers, \<^verbatim>\<open>_mode = 0\<close>.\<close>

definition raw_bsb :: bsb where
  "raw_bsb = \<lparr>bs_mem = [], eback = None, gptr = None, egptr = None,
     pbase = None, pptr = None, epptr = None, bs_mode = 0, bs_live = 0, bs_fault = False\<rparr>"

definition bytestreambuf0 :: bsb where
  "bytestreambuf0 = bsb_init 0 raw_bsb"

definition dynamic :: "bool \<Rightarrow> bsb \<Rightarrow> bsb" where
  "dynamic dyn b = (if dyn then b\<lparr>bs_mode := bs_mode b OR Dynamic\<rparr>
     else b\<lparr>bs_mode := bs_mode b AND NOT Dynamic\<rparr>)"

text \<open>
  \<^verbatim>\<open>setbuf(s, size)\<close>: the argument is the caller's block, \<^const>\<open>None\<close> for a null
  pointer. The model holds a copy of it, which is the same as the original for a buffer that
  is only read.
\<close>

definition setbuf :: "byte list option \<Rightarrow> bsb \<Rightarrow> bsb" where
  "setbuf s b =
     (let b1 = bsb_tidy b;
          p = map_option (\<lambda>_. 0) s;
          n = (case s of None \<Rightarrow> 0 | Some xs \<Rightarrow> int (length xs));
          b2 = b1\<lparr>bs_mem := (case s of None \<Rightarrow> [] | Some xs \<Rightarrow> xs)\<rparr>;
          b3 = setg p p (padd p n) b2;
          b4 = setp p (padd p n) b3
      in b4\<lparr>bs_mode := Read OR Write\<rparr>)"

definition bytestreambuf_of :: "byte list option \<Rightarrow> bool \<Rightarrow> bsb" where
  "bytestreambuf_of data isDynamic =
     (let b = bsb_init 0 raw_bsb;
          b1 = (case data of None \<Rightarrow> b | Some xs \<Rightarrow> if xs = [] then b else setbuf (Some xs) b)
      in dynamic isDynamic b1)"

text \<open>Sizes and positions.\<close>

definition bsb_size :: "bsb \<Rightarrow> int" where
  "bsb_size b = (if has b Write then
       (if eback b \<noteq> None \<and> egptr b \<noteq> None then pdiff (egptr b) (eback b) else 0)
     else if has b Read then
       (if pbase b \<noteq> None \<and> epptr b \<noteq> None then pdiff (epptr b) (pbase b) else 0)
     else 0)"

definition currentReadPosition :: "bsb \<Rightarrow> int" where
  "currentReadPosition b =
     (if eback b \<noteq> None \<and> gptr b \<noteq> None then pdiff (gptr b) (eback b) else 0)"

definition currentWritePosition :: "bsb \<Rightarrow> int" where
  "currentWritePosition b =
     (if pbase b \<noteq> None \<and> pptr b \<noteq> None then pdiff (pptr b) (pbase b) else 0)"

text \<open>Seeking. \<^verbatim>\<open>pos_type(off_type(-1))\<close> is the result \<^term>\<open>-1\<close>.\<close>

datatype seekdir = SeekBeg | SeekCur | SeekEnd

definition setgIfValid :: "ptr \<Rightarrow> ptr \<Rightarrow> ptr \<Rightarrow> bsb \<Rightarrow> bsb option" where
  "setgIfValid first nxt lst b =
     (if addr first \<le> addr nxt \<and> addr nxt \<le> addr lst
      then Some (setg first nxt lst b) else None)"

definition setpIfValid :: "ptr \<Rightarrow> ptr \<Rightarrow> ptr \<Rightarrow> bsb \<Rightarrow> bsb option" where
  "setpIfValid first nxt lst b =
     (if addr first \<le> addr nxt \<and> addr nxt \<le> addr lst
      then Some (pbump (to_int32 (pdiff nxt first)) (setp first lst b)) else None)"

text \<open>The base offset of \<^verbatim>\<open>seekoff\<close>: \<^const>\<open>None\<close> where the code returns \<^verbatim>\<open>-1\<close>.\<close>

definition seek_base :: "seekdir \<Rightarrow> ptr \<Rightarrow> ptr \<Rightarrow> ptr \<Rightarrow> int option" where
  "seek_base way first nxt lst = (case way of
       SeekBeg \<Rightarrow> if first = None then None else Some 0
     | SeekCur \<Rightarrow> Some (pdiff nxt first)
     | SeekEnd \<Rightarrow> if lst = None then None else Some (pdiff lst first))"

definition seekoff_in :: "int \<Rightarrow> seekdir \<Rightarrow> bsb \<Rightarrow> (int \<times> bsb) option" where
  "seekoff_in off way b =
     (if gptr b = None then None
      else case seek_base way (eback b) (gptr b) (egptr b) of
        None \<Rightarrow> None
      | Some newoff \<Rightarrow>
          (let finaloff = newoff + off
           in if finaloff < 0 \<or> finaloff > pdiff (egptr b) (eback b) then None
              else map_option (Pair newoff)
                (setgIfValid (eback b) (padd (eback b) finaloff) (egptr b) b)))"

definition seekoff_out :: "int \<Rightarrow> seekdir \<Rightarrow> bsb \<Rightarrow> (int \<times> bsb) option" where
  "seekoff_out off way b =
     (if pptr b = None then None
      else case seek_base way (pbase b) (pptr b) (epptr b) of
        None \<Rightarrow> None
      | Some newoff \<Rightarrow>
          (let finaloff = newoff + off
           in if finaloff < 0 \<or> finaloff > pdiff (epptr b) (pbase b) then None
              else map_option (Pair newoff)
                (setpIfValid (pbase b) (padd (pbase b) finaloff) (epptr b) b)))"

definition seekoff :: "int \<Rightarrow> seekdir \<Rightarrow> bool \<Rightarrow> bool \<Rightarrow> bsb \<Rightarrow> int \<times> bsb" where
  "seekoff off way w_in w_out b =
     (if w_in \<and> w_out \<and> way \<noteq> SeekBeg \<and> way \<noteq> SeekEnd then (-1, b)
      else case (if has b Read \<and> w_in then seekoff_in off way b else Some (0, b)) of
        None \<Rightarrow> (-1, b)
      | Some (newoff, b1) \<Rightarrow>
          (case (if has b1 Write \<and> w_out then seekoff_out off way b1 else Some (newoff, b1)) of
             None \<Rightarrow> (-1, b1)
           | Some (newoff', b2) \<Rightarrow> (newoff', b2)))"

definition seekpos :: "int \<Rightarrow> bool \<Rightarrow> bool \<Rightarrow> bsb \<Rightarrow> int \<times> bsb" where
  "seekpos pos w_in w_out b =
     (case (if has b Read \<and> w_in
            then (if gptr b = None \<or> pos < 0 then None
                  else setgIfValid (eback b) (padd (eback b) pos) (egptr b) b)
            else Some b) of
        None \<Rightarrow> (-1, b)
      | Some b1 \<Rightarrow>
          (case (if has b1 Write \<and> w_out
                 then (if pptr b1 = None \<or> pos < 0 then None
                       else setpIfValid (pbase b1) (padd (pbase b1) pos) (epptr b1) b1)
                 else Some b1) of
             None \<Rightarrow> (-1, b1)
           | Some b2 \<Rightarrow> (pos, b2)))"

subsection \<open>Reading\<close>

text \<open>
  An \<^verbatim>\<open>int_type\<close> is a byte or \<^verbatim>\<open>eof\<close> (\<^const>\<open>None\<close>); \<^verbatim>\<open>(byte)eof()\<close> is \<^verbatim>\<open>0xFF\<close>
  and \<^verbatim>\<open>not_eof(eof())\<close> is a value other than \<^verbatim>\<open>eof\<close>.
\<close>

type_synonym int_type = "byte option"

definition to_byte :: "int_type \<Rightarrow> byte" where
  "to_byte c = (case c of None \<Rightarrow> 255 | Some x \<Rightarrow> x)"

definition not_eof :: "int_type \<Rightarrow> int_type" where
  "not_eof c = (case c of None \<Rightarrow> Some 0 | Some x \<Rightarrow> Some x)"

definition showmanyc :: "bsb \<Rightarrow> int" where
  "showmanyc b =
     (if has b Read then
        (if gptr b \<noteq> egptr b then pdiff (egptr b) (gptr b)
         else if has b Write then 0 else -1)
      else -1)"

text \<open>
  \<^verbatim>\<open>xsgetn(s, n)\<close> into a non-null destination: the bytes copied, the returned count and
  the buffer. \<^verbatim>\<open>static_cast<size_t>\<close> of a negative count is a copy far beyond the block,
  which \<^const>\<open>touch\<close> records as a fault.
\<close>

definition xsgetn :: "int \<Rightarrow> bsb \<Rightarrow> byte list \<times> int \<times> bsb" where
  "xsgetn n b =
     (if has b Read then
        (let sz = min (showmanyc b) n;
             b1 = touch (gptr b) sz b
         in (load b (gptr b) sz, sz, setg (eback b) (padd (gptr b) sz) (egptr b) b1))
      else ([], 0, b))"

definition underflow :: "bsb \<Rightarrow> int_type \<times> bsb" where
  "underflow b =
     (if has b Read \<and> gptr b \<noteq> egptr b
      then (Some (hd (load b (gptr b) 1 @ [0])), touch (gptr b) 1 b)
      else (None, b))"

definition uflow :: "bsb \<Rightarrow> int_type \<times> bsb" where
  "uflow b =
     (if has b Read \<and> gptr b \<noteq> egptr b
      then (Some (hd (load b (gptr b) 1 @ [0])),
            setg (eback b) (padd (gptr b) 1) (egptr b) (touch (gptr b) 1 b))
      else (None, b))"

definition pbackfail :: "int_type \<Rightarrow> bsb \<Rightarrow> int_type \<times> bsb" where
  "pbackfail c b =
     (if has b Read \<and> addr (gptr b) > addr (eback b) then
        (let next = padd (gptr b) (-1) in
         if has b Write then
           (not_eof c, setg (eback b) next (egptr b) (store next [to_byte c] b))
         else if hd (load b next 1 @ [0]) \<noteq> to_byte c then (None, touch next 1 b)
         else (not_eof c, setg (eback b) next (egptr b) (touch next 1 b)))
      else (None, b))"

text \<open>The public wrappers of the base class that the SDK calls.\<close>

definition in_avail :: "bsb \<Rightarrow> int" where
  "in_avail b = (if gptr b \<noteq> None \<and> addr (gptr b) < addr (egptr b)
     then pdiff (egptr b) (gptr b) else showmanyc b)"

definition sgetc :: "bsb \<Rightarrow> int_type \<times> bsb" where
  "sgetc b = (if gptr b \<noteq> None \<and> addr (gptr b) < addr (egptr b)
     then (Some (hd (load b (gptr b) 1 @ [0])), touch (gptr b) 1 b) else underflow b)"

subsection \<open>Writing\<close>

definition updateReadAfterWrite :: "bsb \<Rightarrow> bsb" where
  "updateReadAfterWrite b =
     (if has b Write \<and> has b Read then setg (eback b) (gptr b) (pptr b) b else b)"

text \<open>
  The doubling loop of \<^verbatim>\<open>grow\<close>. It starts from a positive size (the old size or 32), which
  the second conjunct of the guard makes visible to the termination proof.
\<close>

function grow_size :: "int \<Rightarrow> int \<Rightarrow> int" where
  "grow_size newSize minSize =
     (if newSize < minSize \<and> 0 < newSize then grow_size (newSize * 2) minSize else newSize)"
  by pat_completeness auto
termination
  by (relation "measure (\<lambda>(newSize, minSize). nat (minSize - newSize))") auto

declare grow_size.simps [simp del]

definition grow :: "int \<Rightarrow> bsb \<Rightarrow> bsb" where
  "grow minSize b =
     (if minSize > 0 \<and> has b Dynamic then
        (let oldMode = bs_mode b;
             oldSize = (if pbase b \<noteq> None \<and> epptr b \<noteq> None then pdiff (epptr b) (pbase b) else 0);
             newSize = grow_size (if oldSize > 0 then oldSize else 32) minSize;
             b0 = (if oldSize > 0 then touch (pbase b) oldSize b else b);
             b1 = bsb_init newSize (bsb_reset b0);
             b2 = b1\<lparr>bs_mode := oldMode\<rparr>;
             b3 =
               (if oldSize > 0 then
                  (let writeFirst = pbase b2;
                       b4 = store writeFirst (load b (pbase b) oldSize) b2;
                       b5 = pbump (to_int32 (pdiff (pptr b) (pbase b))) (setp writeFirst (epptr b2) b4);
                       readFirst = (if eback b \<noteq> None then writeFirst else None);
                       readNext = (if gptr b \<noteq> None
                         then padd writeFirst (pdiff (gptr b) (eback b)) else None);
                       readLast = (if egptr b \<noteq> None then epptr b2 else None)
                   in setg readFirst readNext readLast b5)
                else b2)
         in if oldMode AND Allocated \<noteq> 0 \<and> pbase b \<noteq> None
            then b3\<lparr>bs_live := bs_live b3 - 1\<rparr> else b3)
      else b)"

definition xsputn :: "byte list option \<Rightarrow> int \<Rightarrow> bsb \<Rightarrow> int \<times> bsb" where
  "xsputn s n b = (case s of
      None \<Rightarrow> (0, b)
    | Some xs \<Rightarrow>
        (if n > 0 \<and> has b Write then
           (let avail0 = (if pbase b \<noteq> None \<and> pptr b \<noteq> None \<and> epptr b \<noteq> None
                          then pdiff (epptr b) (pptr b) else 0);
                (b1, avail) =
                  (if avail0 < n \<and> has b Dynamic then
                     (let targetSize = n + (if pptr b \<noteq> None \<and> pbase b \<noteq> None
                                            then pdiff (pptr b) (pbase b) else 0);
                          g = grow targetSize b
                      in (g, pdiff (epptr g) (pptr g)))
                   else (b, avail0));
                sz = min avail n
            in if sz > 0 then
                 (let next = padd (pptr b1) sz;
                      b2 = store (pptr b1) (take (nat sz) xs) b1;
                      b3 = setp (pbase b1) (epptr b1) b2;
                      b4 = pbump (to_int32 (pdiff next (pbase b1))) b3
                  in (sz, updateReadAfterWrite b4))
               else (0, b1))
         else (0, b)))"

definition overflow :: "int_type \<Rightarrow> bsb \<Rightarrow> int_type \<times> bsb" where
  "overflow c b =
     (if has b Write then
        (let b1 = (if pptr b \<noteq> None \<and> pptr b \<noteq> epptr b then store (pptr b) [to_byte c] b else b)
         in (None, updateReadAfterWrite b1))
      else (None, b))"

text \<open>
  \<^verbatim>\<open>sputc\<close> of the base class writes at \<^verbatim>\<open>pptr\<close> itself when there is room and calls
  \<^verbatim>\<open>overflow\<close> otherwise.
\<close>

definition sputc :: "byte \<Rightarrow> bsb \<Rightarrow> int_type \<times> bsb" where
  "sputc c b = (if pptr b \<noteq> None \<and> addr (pptr b) < addr (epptr b)
     then (Some c, pbump 1 (store (pptr b) [c] b)) else overflow (Some c) b)"

section \<open>Mode flags\<close>

lemma has_cong [simp]:
  "has (b\<lparr>bs_mem := m\<rparr>) k = has b k" "has (b\<lparr>bs_live := l\<rparr>) k = has b k"
  "has (b\<lparr>bs_fault := f\<rparr>) k = has b k" "has (b\<lparr>pptr := p\<rparr>) k = has b k"
  "has (setg x y z b) k = has b k" "has (setp x z b) k = has b k"
  "has (pbump d b) k = has b k"
  by (simp_all add: has_def setg_def setp_def pbump_def)

lemma has_touch [simp]: "has (touch p n b) k = has b k"
  by (simp add: touch_def)

lemma has_store [simp]: "has (store p xs b) k = has b k"
  by (simp add: store_def)

lemma has_init [simp]:
  "has (bsb_init n b) Read" "has (bsb_init n b) Write"
  "has (bsb_init n b) Dynamic" "has (bsb_init n b) Allocated"
  by (simp_all add: bsb_init_def has_def mode_defs Let_def split: prod.splits)

lemma has_reset [simp]: "\<not> has (bsb_reset b) k"
  by (simp add: bsb_reset_def has_def)

lemma has_setbuf [simp]:
  "has (setbuf s b) Read" "has (setbuf s b) Write"
  "\<not> has (setbuf s b) Dynamic" "\<not> has (setbuf s b) Allocated"
  by (simp_all add: setbuf_def has_def mode_defs Let_def)

lemma has_dynamic:
  "has (dynamic d b) Read = has b Read" "has (dynamic d b) Write = has b Write"
  "has (dynamic d b) Allocated = has b Allocated" "has (dynamic d b) Dynamic = d"
  by (simp_all add: dynamic_def has_def mode_defs bit.conj_disj_distrib2 and.assoc)

section \<open>Representation invariant\<close>

text \<open>
  \<^term>\<open>bsb_at b m g e p\<close>: the block of \<^term>\<open>b\<close> is \<^term>\<open>m\<close>, unread bytes lie
  between the offsets \<^term>\<open>g\<close> and \<^term>\<open>e\<close>, and \<^term>\<open>p\<close> is the write position.
  Sizes stay below \<^verbatim>\<open>2^31\<close>, the range of the \<^verbatim>\<open>(int)\<close> casts in the code.
\<close>

definition bsb_at :: "bsb \<Rightarrow> byte list \<Rightarrow> int \<Rightarrow> int \<Rightarrow> int \<Rightarrow> bool" where
  "bsb_at b m g e p \<longleftrightarrow>
     bs_mem b = m \<and> eback b = Some 0 \<and> gptr b = Some g \<and> egptr b = Some e \<and>
     pbase b = Some 0 \<and> pptr b = Some p \<and> epptr b = Some (int (length m)) \<and>
     0 \<le> g \<and> g \<le> e \<and> e \<le> int (length m) \<and> 0 \<le> p \<and> p \<le> int (length m) \<and>
     int (length m) < 2147483648 \<and> \<not> bs_fault b \<and> has b Read \<and> has b Write"

text \<open>The state before anything was allocated or attached.\<close>

definition bsb_empty :: "bsb \<Rightarrow> bool" where
  "bsb_empty b \<longleftrightarrow>
     bs_mem b = [] \<and> eback b = None \<and> gptr b = None \<and> egptr b = None \<and>
     pbase b = None \<and> pptr b = None \<and> epptr b = None \<and>
     \<not> bs_fault b \<and> has b Read \<and> has b Write"

definition bsb_wf :: "bsb \<Rightarrow> bool" where
  "bsb_wf b \<longleftrightarrow> bsb_empty b \<or> (\<exists>m g e p. bsb_at b m g e p)"

text \<open>What a buffer means: the bytes left to read and the bytes written.\<close>

definition unread :: "bsb \<Rightarrow> byte list" where
  "unread b = load b (gptr b) (pdiff (egptr b) (gptr b))"

definition written :: "bsb \<Rightarrow> byte list" where
  "written b = load b (pbase b) (pdiff (pptr b) (pbase b))"

lemma unread_at: "bsb_at b m g e p \<Longrightarrow> unread b = take (nat (e - g)) (drop (nat g) m)"
  by (simp add: unread_def load_def bsb_at_def)

lemma written_at: "bsb_at b m g e p \<Longrightarrow> written b = take (nat p) m"
  by (simp add: written_def load_def bsb_at_def)

lemma at_nat:
  assumes "bsb_at b m g e p"
  shows "nat p \<le> length m" "nat g \<le> length m" "0 \<le> p" "0 \<le> g"
  using assms unfolding bsb_at_def by linarith+

lemma unread_empty [simp]: "bsb_empty b \<Longrightarrow> unread b = []"
  by (simp add: unread_def load_def bsb_empty_def)

lemma written_empty [simp]: "bsb_empty b \<Longrightarrow> written b = []"
  by (simp add: written_def load_def bsb_empty_def)

lemma bsb_wf_at: "bsb_at b m g e p \<Longrightarrow> bsb_wf b"
  by (auto simp: bsb_wf_def)

lemma length_unread_at: "bsb_at b m g e p \<Longrightarrow> int (length (unread b)) = e - g"
  by (simp add: unread_at) (unfold bsb_at_def, linarith)

lemma length_written_at: "bsb_at b m g e p \<Longrightarrow> int (length (written b)) = p"
  by (simp add: written_at) (unfold bsb_at_def, linarith)

lemma bsb_wf_no_fault: "bsb_wf b \<Longrightarrow> \<not> bs_fault b"
  by (auto simp: bsb_wf_def bsb_empty_def bsb_at_def)

lemma bsb_empty_ctor: "bsb_empty bytestreambuf0"
proof -
  have "has bytestreambuf0 Read" "has bytestreambuf0 Write"
    by (simp_all add: bytestreambuf0_def)
  then show ?thesis
    by (simp add: bsb_empty_def) (simp add: bytestreambuf0_def bsb_init_def raw_bsb_def setg_def setp_def)
qed

lemma has_ctor [simp]: "has bytestreambuf0 Dynamic" "has bytestreambuf0 Allocated"
  by (simp_all add: bytestreambuf0_def)

lemma setbuf_at:
  assumes "int (length xs) < 2147483648" "\<not> bs_fault b"
  shows "bsb_at (setbuf (Some xs) b) xs 0 (int (length xs)) 0"
proof -
  have "has (setbuf (Some xs) b) Read" "has (setbuf (Some xs) b) Write"
    by simp_all
  moreover have "\<not> bs_fault (setbuf (Some xs) b)"
    using assms by (simp add: setbuf_def setg_def setp_def bsb_tidy_def bsb_reset_def Let_def)
  ultimately show ?thesis
    using assms(1) by (simp add: bsb_at_def) (simp add: setbuf_def setg_def setp_def Let_def)
qed

lemma setbuf_null_empty: "\<not> bs_fault b \<Longrightarrow> bsb_empty (setbuf None b)"
proof -
  assume f: "\<not> bs_fault b"
  have "has (setbuf None b) Read" "has (setbuf None b) Write"
    by simp_all
  moreover have "\<not> bs_fault (setbuf None b)"
    using f by (simp add: setbuf_def setg_def setp_def bsb_tidy_def bsb_reset_def Let_def)
  ultimately show ?thesis
    by (simp add: bsb_empty_def) (simp add: setbuf_def setg_def setp_def Let_def)
qed

lemma unread_setbuf: "int (length xs) < 2147483648 \<Longrightarrow> \<not> bs_fault b \<Longrightarrow> unread (setbuf (Some xs) b) = xs"
  by (drule (1) setbuf_at) (simp add: unread_at)

section \<open>Reading consumes\<close>

lemma showmanyc_at: "bsb_at b m g e p \<Longrightarrow> showmanyc b = e - g"
  by (simp add: showmanyc_def bsb_at_def)

lemma showmanyc_empty: "bsb_empty b \<Longrightarrow> showmanyc b = 0"
  by (simp add: showmanyc_def bsb_empty_def)

lemma showmanyc_wf: "bsb_wf b \<Longrightarrow> showmanyc b = int (length (unread b))"
  by (auto simp: bsb_wf_def length_unread_at showmanyc_at showmanyc_empty)

lemma in_avail_wf: "bsb_wf b \<Longrightarrow> in_avail b = int (length (unread b))"
proof (cases "gptr b \<noteq> None \<and> addr (gptr b) < addr (egptr b)")
  case True
  assume "bsb_wf b"
  then obtain m g e p where "bsb_at b m g e p"
    using True by (auto simp: bsb_wf_def bsb_empty_def)
  then show ?thesis
    using True by (simp add: in_avail_def length_unread_at) (simp add: bsb_at_def)
next
  case False
  assume "bsb_wf b"
  with False show ?thesis by (simp only: in_avail_def if_not_P showmanyc_wf) simp
qed

lemma xsgetn_at:
  assumes "bsb_at b m g e p" "0 \<le> n"
  defines "k \<equiv> min (e - g) n"
  shows "xsgetn n b = (take (nat k) (drop (nat g) m), k, setg (Some 0) (Some (g + k)) (Some e) b)"
    and "bsb_at (setg (Some 0) (Some (g + k)) (Some e) b) m (g + k) e p"
proof -
  have b: "has b Read" "bsb_wf b" "showmanyc b = e - g"
    using assms(1) by (simp_all add: bsb_wf_at showmanyc_at) (simp add: bsb_at_def)
  have "in_block b (Some g) k"
    using assms by (auto simp: in_block_def bsb_at_def)
  then show "xsgetn n b = (take (nat k) (drop (nat g) m), k, setg (Some 0) (Some (g + k)) (Some e) b)"
    using assms b by (simp add: xsgetn_def touch_def load_def bsb_at_def Let_def)
  show "bsb_at (setg (Some 0) (Some (g + k)) (Some e) b) m (g + k) e p"
    using assms unfolding bsb_at_def k_def by (simp, simp add: setg_def)
qed

lemma xsgetn_empty:
  assumes "bsb_empty b" "0 \<le> n"
  shows "xsgetn n b = ([], 0, b)"
  using assms by (simp add: xsgetn_def showmanyc_def touch_def load_def in_block_def setg_def bsb_empty_def)

text \<open>Reading \<^term>\<open>n\<close> bytes takes them off the front of the unread bytes, safely.\<close>

lemma xsgetn_wf:
  assumes "bsb_wf b" "0 \<le> n" "xsgetn n b = (xs, k, b')"
  shows "xs = take (nat n) (unread b)" "k = int (length xs)"
    "unread b' = drop (nat n) (unread b)" "bsb_wf b'"
proof -
  consider (e) "bsb_empty b" | (a) m g e p where "bsb_at b m g e p"
    using assms(1) by (auto simp: bsb_wf_def)
  then have "xs = take (nat n) (unread b) \<and> k = int (length xs) \<and>
    unread b' = drop (nat n) (unread b) \<and> bsb_wf b'"
  proof cases
    case e
    then show ?thesis using assms xsgetn_empty [OF e assms(2)] by simp
  next
    case a
    note at = xsgetn_at [OF a assms(2)]
    have le: "0 \<le> g" "g \<le> e" "e \<le> int (length m)"
      using a by (simp_all add: bsb_at_def)
    have r: "xs = take (nat (min (e - g) n)) (drop (nat g) m)" "k = min (e - g) n"
        "b' = setg (Some 0) (Some (g + min (e - g) n)) (Some e) b"
      using assms(3) unfolding at(1) by auto
    have m: "nat (min (e - g) n) = min (nat (e - g)) (nat n)"
      using le assms(2) by linarith
    have "unread b' = take (nat (e - (g + min (e - g) n))) (drop (nat (g + min (e - g) n)) m)"
      using at(2) r(3) by (simp add: unread_at)
    moreover have "nat (e - (g + min (e - g) n)) = nat (e - g) - nat n"
      using le assms(2) by linarith
    moreover have "nat (g + min (e - g) n) = nat g + min (nat (e - g)) (nat n)"
      using le assms(2) by linarith
    ultimately have u: "unread b' = drop (nat n) (unread b)"
      by (simp add: unread_at [OF a] drop_take min_def add.commute)
    have "xs = take (nat n) (unread b)"
      unfolding r(1) m unread_at [OF a] by (simp add: min.commute)
    moreover have "k = int (length xs)"
      using r le assms(2) by simp
    ultimately show ?thesis
      using u at(2) r(3) by (auto intro: bsb_wf_at)
  qed
  then show "xs = take (nat n) (unread b)" "k = int (length xs)"
    "unread b' = drop (nat n) (unread b)" "bsb_wf b'" by blast+
qed

section \<open>Growing\<close>

text \<open>The loop stops at the first doubling that is large enough.\<close>

lemma grow_size_ge: "0 < s \<Longrightarrow> t \<le> grow_size s t \<and> s \<le> grow_size s t"
proof (induction s t rule: grow_size.induct)
  case (1 s t)
  show ?case
  proof (cases "s < t")
    case True
    with "1" have "t \<le> grow_size (s * 2) t \<and> s * 2 \<le> grow_size (s * 2) t" by simp
    with True "1.prems" show ?thesis by (simp add: grow_size.simps [of s t])
  next
    case False
    then show ?thesis by (simp add: grow_size.simps [of s t])
  qed
qed

lemma grow_size_less: "0 < s \<Longrightarrow> grow_size s t \<le> max s (2 * t)"
proof (induction s t rule: grow_size.induct)
  case (1 s t)
  show ?case
  proof (cases "s < t")
    case True
    with "1" have "grow_size (s * 2) t \<le> max (s * 2) (2 * t)" by simp
    with True "1.prems" show ?thesis by (simp add: grow_size.simps [of s t])
  next
    case False
    then show ?thesis by (simp add: grow_size.simps [of s t])
  qed
qed

lemma grow_size_pow: "0 < s \<Longrightarrow> \<exists>k. grow_size s t = s * 2 ^ k"
proof (induction s t rule: grow_size.induct)
  case (1 s t)
  show ?case
  proof (cases "s < t")
    case True
    with "1" obtain k where "grow_size (s * 2) t = s * 2 * 2 ^ k" by auto
    with True "1.prems" have "grow_size s t = s * 2 ^ Suc k" by (simp add: grow_size.simps [of s t])
    then show ?thesis ..
  next
    case False
    then have "grow_size s t = s * 2 ^ 0" by (simp add: grow_size.simps [of s t])
    then show ?thesis ..
  qed
qed

lemma bs_fields_touch [simp]:
  "bs_mem (touch p n b) = bs_mem b" "bs_live (touch p n b) = bs_live b"
  "bs_mode (touch p n b) = bs_mode b"
  by (simp_all add: touch_def)

lemma take_bit_32_small: "0 \<le> x \<Longrightarrow> x < 2147483648 \<Longrightarrow> take_bit 32 x = (x :: int)"
  by (simp add: take_bit_int_eq_self)

text \<open>Growing a buffer without a block, or with an empty one, gives a block of at least 32 bytes.\<close>

lemma grow_empty:
  assumes b: "bsb_empty b \<or> bsb_at b [] g e p" and dyn: "has b Dynamic"
    and t: "0 < t" "grow_size 32 t < 2147483648"
  shows "bsb_at (grow t b) (replicate (nat (grow_size 32 t)) 0) 0 0 0"
    and "has (grow t b) Dynamic" and "has (grow t b) Allocated = has b Allocated"
proof -
  define N where "N = grow_size 32 t"
  have N: "0 < N" "N < 2147483648" "32 \<le> N"
    using grow_size_ge [of 32 t] t by (simp_all add: N_def)
  have old: "(if pbase b \<noteq> None \<and> epptr b \<noteq> None then pdiff (epptr b) (pbase b) else 0) = 0"
    using b by (auto simp: bsb_empty_def bsb_at_def)
  define c where "c = (bsb_init N (bsb_reset b))\<lparr>bs_mode := bs_mode b\<rparr>"
  have g: "grow t b = (if has b Allocated \<and> pbase b \<noteq> None then c\<lparr>bs_live := bs_live c - 1\<rparr> else c)"
    unfolding grow_def Let_def old
    using dyn t by (simp add: N_def [symmetric] c_def has_def)
  have rw: "has b Read" "has b Write" "\<not> bs_fault b"
    using b by (auto simp: bsb_empty_def bsb_at_def)
  have c: "bsb_at c (replicate (nat N) 0) 0 0 0" "has c Dynamic" "has c Allocated = has b Allocated"
    using rw N dyn
    by (simp_all add: c_def bsb_at_def bsb_init_def bsb_reset_def setg_def setp_def has_def
        take_bit_32_small)
  show "bsb_at (grow t b) (replicate (nat (grow_size 32 t)) 0) 0 0 0"
    using c(1) unfolding g N_def [symmetric] by (simp add: bsb_at_def)
  show "has (grow t b) Dynamic" "has (grow t b) Allocated = has b Allocated"
    using c(2,3) unfolding g by simp_all
qed

text \<open>Growing a block keeps its contents and both positions.\<close>

lemma grow_at:
  assumes "bsb_at b m g e p" "has b Dynamic" "0 < t" "m \<noteq> []"
    "grow_size (int (length m)) t < 2147483648"
  defines "N \<equiv> grow_size (int (length m)) t"
  shows "bsb_at (grow t b) (m @ replicate (nat N - length m) 0) g N p"
    and "has (grow t b) Dynamic" and "has (grow t b) Allocated = has b Allocated"
proof -
  have len: "0 < int (length m)" using assms(4) by simp
  have N1: "int (length m) \<le> N" "N < 2147483648"
    using grow_size_ge [OF len, of t] assms(5) by (simp_all add: N_def)
  moreover have "0 < N" using N1(1) len by linarith
  ultimately have N: "int (length m) \<le> N" "N < 2147483648" "0 < N" by blast+
  have rp: "overwrite 0 m (replicate (nat N) 0) = m @ replicate (nat N - length m) 0"
    by (simp add: overwrite_def)
  define b2 where "b2 = (bsb_init N (bsb_reset b))\<lparr>bs_mode := bs_mode b\<rparr>"
  have b2: "bs_mem b2 = replicate (nat N) 0" "pbase b2 = Some 0" "epptr b2 = Some N"
      "bs_mode b2 = bs_mode b" "bs_fault b2 = bs_fault b"
    using N by (simp_all add: b2_def bsb_init_def bsb_reset_def setg_def setp_def take_bit_32_small)
  have t: "touch (Some 0) (int (length m)) b = b" "load b (Some 0) (int (length m)) = m"
    using assms(1) by (simp_all add: touch_def in_block_def load_def bsb_at_def)
  have st: "store (Some 0) m b2 = b2\<lparr>bs_mem := m @ replicate (nat N - length m) 0\<rparr>"
    using N by (simp add: store_def in_block_def b2 rp)
  define c where "c = setg (Some 0) (Some g) (Some N)
     (pbump p (setp (Some 0) (Some N) (b2\<lparr>bs_mem := m @ replicate (nat N - length m) 0\<rparr>)))"
  have "grow t b = (if has b Allocated then c\<lparr>bs_live := bs_live c - 1\<rparr> else c)"
    using assms(1,2,3,4) t st
    by (simp add: grow_def bsb_at_def N_def [symmetric] b2_def [symmetric] b2 c_def Let_def has_def)
  then have gr: "bs_mem (grow t b) = bs_mem c" "eback (grow t b) = eback c" "gptr (grow t b) = gptr c"
      "egptr (grow t b) = egptr c" "pbase (grow t b) = pbase c" "pptr (grow t b) = pptr c"
      "epptr (grow t b) = epptr c" "bs_fault (grow t b) = bs_fault c" "bs_mode (grow t b) = bs_mode c"
    by simp_all
  have md: "bs_mode c = bs_mode b" "bs_fault c = bs_fault b"
    by (simp_all add: c_def setg_def setp_def pbump_def b2)
  show "bsb_at (grow t b) (m @ replicate (nat N - length m) 0) g N p"
    using assms(1) N
    by (simp add: bsb_at_def gr has_def md) (simp add: c_def setg_def setp_def pbump_def)
  show "has (grow t b) Dynamic" "has (grow t b) Allocated = has b Allocated"
    using assms(2) by (simp_all add: has_def gr md)
qed

section \<open>Writing appends\<close>

lemma load_store:
  assumes "in_block b (Some p) (int (length xs))"
  shows "bs_mem (store (Some p) xs b) = overwrite (nat p) xs (bs_mem b)"
  using assms by (simp add: store_def)

text \<open>Writing where there is room: the block is overwritten at the write position.\<close>

lemma xsputn_room:
  assumes at: "bsb_at b m g e p" and n: "n = int (length xs)" "xs \<noteq> []"
    and room: "p + n \<le> int (length m)" and gp: "g \<le> p"
  shows "fst (xsputn (Some xs) n b) = n"
    and "bsb_at (snd (xsputn (Some xs) n b)) (overwrite (nat p) xs m) g (p + n) (p + n)"
    and "has (snd (xsputn (Some xs) n b)) k = has b k"
proof -
  have npos: "0 < n" using n by simp
  have inb: "in_block b (Some p) n"
    using at room npos by (simp add: in_block_def bsb_at_def)
  have pl: "p < int (length m)" using room npos by linarith
  define b2 where "b2 = b\<lparr>bs_mem := overwrite (nat p) xs m\<rparr>"
  define b4 where "b4 = pbump (p + n) (setp (Some 0) (Some (int (length m))) b2)"
  have i32: "to_int32 (p + n) = p + n"
    using at room npos by (intro to_int32_small) (simp_all add: bsb_at_def)
  have hw: "has b4 Write" "has b4 Read"
    using at by (simp_all add: b4_def b2_def bsb_at_def)
  have "xsputn (Some xs) n b = (n, updateReadAfterWrite b4)"
    using at room npos inb n i32 pl
    by (simp add: xsputn_def bsb_at_def Let_def store_def b4_def b2_def)
  moreover have "updateReadAfterWrite b4 = setg (Some 0) (Some g) (Some (p + n)) b4"
    using at hw by (simp add: updateReadAfterWrite_def) (simp add: b4_def b2_def bsb_at_def pbump_def setp_def)
  ultimately have x: "xsputn (Some xs) n b = (n, setg (Some 0) (Some g) (Some (p + n)) b4)"
    by simp
  show "fst (xsputn (Some xs) n b) = n" by (simp add: x)
  show "has (snd (xsputn (Some xs) n b)) k = has b k"
    by (simp add: x b4_def b2_def)
  have lo: "length (overwrite (nat p) xs m) = length m"
    using at room n by (intro length_overwrite) (simp add: bsb_at_def, linarith)
  show "bsb_at (snd (xsputn (Some xs) n b)) (overwrite (nat p) xs m) g (p + n) (p + n)"
    using at hw room npos gp
    by (simp add: x bsb_at_def lo) (simp add: b4_def b2_def setg_def setp_def pbump_def)
qed

text \<open>
  A buffer one can append to: no unread byte lies behind the write position. Streams that
  are only written, and streams that were filled from the start, satisfy it.
\<close>

definition appendable :: "bsb \<Rightarrow> bool" where
  "appendable b \<longleftrightarrow> bsb_empty b \<or> (\<exists>m g e p. bsb_at b m g e p \<and> g \<le> p)"

lemma appendable_wf: "appendable b \<Longrightarrow> bsb_wf b"
  by (auto simp: appendable_def bsb_wf_def)

lemma appendable_ctor: "appendable bytestreambuf0"
  by (simp add: appendable_def bsb_empty_ctor)

lemma written_room:
  assumes "bsb_at b m g e p" "p + int (length xs) \<le> int (length m)"
    "bsb_at b' (overwrite (nat p) xs m) g e' (p + int (length xs))"
  shows "written b' = written b @ xs"
proof -
  note p = at_nat(3,1) [OF assms(1)]
  have "written b' = take (nat (p + int (length xs))) (overwrite (nat p) xs m)"
    by (rule written_at [OF assms(3)])
  also have "nat (p + int (length xs)) = nat p + length xs"
    using p by (simp add: nat_add_distrib)
  also have "take (nat p + length xs) (overwrite (nat p) xs m) = take (nat p) m @ xs"
    by (rule take_overwrite_upto [OF p(2)])
  finally show ?thesis by (simp add: written_at [OF assms(1)])
qed

text \<open>
  When the room is short on a dynamic buffer, writing is growing followed by the write of
  the first case.
\<close>

lemma xsputn_grow:
  assumes "n > 0" "has b Write" "has b Dynamic"
    and "(if pbase b \<noteq> None \<and> pptr b \<noteq> None \<and> epptr b \<noteq> None
          then pdiff (epptr b) (pptr b) else 0) < n"
    and "t = n + (if pptr b \<noteq> None \<and> pbase b \<noteq> None then pdiff (pptr b) (pbase b) else 0)"
    and "bsb_at (grow t b) m g e p" "p + n \<le> int (length m)"
  shows "xsputn (Some xs) n b = xsputn (Some xs) n (grow t b)"
proof -
  have av: "pdiff (epptr (grow t b)) (pptr (grow t b)) = int (length m) - p"
    using assms(6) by (simp add: bsb_at_def)
  have nn: "has (grow t b) Write" "pbase (grow t b) \<noteq> None" "pptr (grow t b) \<noteq> None"
      "epptr (grow t b) \<noteq> None"
    using assms(6) by (simp_all add: bsb_at_def)
  have le: "\<not> int (length m) - p < n" using assms(7) by linarith
  show ?thesis
    unfolding xsputn_def option.case Let_def assms(5) [symmetric]
    using assms(1,2,3,4) nn le av by (simp split del: if_split cong: if_cong)
qed

lemma written_grow_at:
  assumes "bsb_at b m g e p" "bsb_at b' (m @ r) g' e' p"
  shows "written b' = written b"
proof -
  have "nat p \<le> length m" by (rule at_nat(1) [OF assms(1)])
  then show ?thesis by (simp add: written_at [OF assms(1)] written_at [OF assms(2)])
qed

text \<open>
  Writing to a dynamic buffer always writes everything, keeps the invariant and appends.
\<close>

theorem xsputn_appends:
  assumes ap: "appendable b" and dyn: "has b Dynamic" and ne: "xs \<noteq> []"
    and small: "length (written b) + length xs < 1073741824"
  defines "r \<equiv> xsputn (Some xs) (int (length xs)) b"
  shows "fst r = int (length xs) \<and> appendable (snd r) \<and> written (snd r) = written b @ xs \<and>
    has (snd r) Dynamic \<and> has (snd r) Allocated = has b Allocated"
proof -
  let ?n = "int (length xs)"
  have n: "?n > 0" using ne by simp
  have room: ?thesis if "r = xsputn (Some xs) ?n c" "bsb_at c m g e p" "g \<le> p"
      "p + ?n \<le> int (length m)" "written c = written b" "has c Dynamic"
      "has c Allocated = has b Allocated" for c m g e p
  proof -
    note x = xsputn_room [OF that(2) refl ne that(4,3)]
    have "appendable (snd r)"
      using x(2) that(1,3) n by (auto simp: appendable_def intro!: exI)
    moreover have "written (snd r) = written c @ xs"
      using written_room [OF that(2,4)] x(2) that(1) by simp
    ultimately show ?thesis
      using x(1,3) that by simp
  qed
  have small': "int (length (written b)) + ?n < 1073741824" using small by linarith
  \<comment> \<open>growing from nothing, or from an empty block\<close>
  have zero: ?thesis if z: "bsb_empty b \<or> bsb_at b [] 0 e 0" for e
  proof -
    have w: "written b = []" using z by (auto simp: written_at)
    have pos: "(if pptr b \<noteq> None \<and> pbase b \<noteq> None then pdiff (pptr b) (pbase b) else 0) = 0"
      using z by (auto simp: bsb_empty_def bsb_at_def)
    have sz: "grow_size 32 ?n < 2147483648"
      using grow_size_less [of 32 ?n] small' by linarith
    note gr = grow_empty [OF z dyn n sz]
    have "?n \<le> grow_size 32 ?n" using grow_size_ge [of 32 ?n] by simp
    then have fits: "0 + ?n \<le> int (length (replicate (nat (grow_size 32 ?n)) (0::byte)))" by simp
    have "r = xsputn (Some xs) ?n (grow ?n b)"
      unfolding r_def
      by (rule xsputn_grow [OF n _ dyn _ _ gr(1) fits])
        (use z n pos in \<open>auto simp: bsb_empty_def bsb_at_def\<close>)
    then show ?thesis
      by (rule room [OF _ gr(1) order_refl fits]) (use gr w in \<open>simp_all add: written_at\<close>)
  qed
  consider (e) "bsb_empty b" | (a) m g e p where "bsb_at b m g e p" "g \<le> p"
    using ap by (auto simp: appendable_def)
  then show ?thesis
  proof cases
    case e
    then show ?thesis using zero by blast
  next
    case a
    have wl: "int (length (written b)) = p" by (rule length_written_at [OF a(1)])
    have p0: "0 \<le> p" by (rule at_nat(3) [OF a(1)])
    show ?thesis
    proof (cases "p + ?n \<le> int (length m)")
      case True
      then show ?thesis using room [OF _ a True refl dyn refl] by (simp add: r_def)
    next
      case False
      show ?thesis
      proof (cases "m = []")
        case True
        then have "bsb_at b [] 0 e 0" using a by (simp add: bsb_at_def)
        then show ?thesis using zero by blast
      next
        case ne': False
        let ?N = "grow_size (int (length m)) (?n + p)"
        have lm: "int (length m) < 2147483648" "0 < int (length m)"
          using a(1) ne' by (simp_all add: bsb_at_def)
        have "2 * (?n + p) < 2147483648" using small' unfolding wl by simp
        then have sz: "?N < 2147483648"
          using lm(1) grow_size_less [OF lm(2), of "?n + p"] by (rule_tac le_less_trans) (assumption, simp)
        have t: "0 < ?n + p" using n p0 by linarith
        note gr = grow_at [OF a(1) dyn t ne' sz]
        have "?n + p \<le> ?N" "int (length m) \<le> ?N" using grow_size_ge [OF lm(2)] by blast+
        then have fits: "p + ?n \<le> int (length (m @ replicate (nat ?N - length m) (0::byte)))"
          using p0 by simp
        have "r = xsputn (Some xs) ?n (grow (?n + p) b)"
          unfolding r_def
          by (rule xsputn_grow [OF n _ dyn _ _ gr(1) fits])
            (use a(1) False n in \<open>simp_all add: bsb_at_def\<close>)
        then show ?thesis
          by (rule room [OF _ gr(1) a(2) fits])
            (use gr a(1) in \<open>simp_all add: written_grow_at [OF a(1)]\<close>)
      qed
    qed
  qed
qed
end
