(* ===== verification/ByteStreams.thy ===== *)
theory ByteStreams
  imports ByteStreamBuf
begin

text \<open>
  The input and output streams over \<^verbatim>\<open>bytestreambuf\<close> (\<^verbatim>\<open>src/Streams/ibytestream.cpp\<close>,
  \<^verbatim>\<open>src/Streams/obytestream.cpp\<close>): the state bits of \<^verbatim>\<open>std::basic_ios\<close>, the
  unformatted \<^verbatim>\<open>read\<close> and \<^verbatim>\<open>write\<close> of the standard streams, and the typed operators,
  which copy the object representation of an integer (little-endian on the platforms the
  SDK builds for). The locale \<^verbatim>\<open>fixed_codec\<close> states what an integer representation
  promises; the streams' round trip is proved once inside it and interpreted for the four
  unsigned widths.
\<close>

section \<open>Object representation of integers\<close>

definition word_bytes :: "'a::len word \<Rightarrow> byte list" where
  "word_bytes w = map (\<lambda>i. ucast (drop_bit (8 * i) w)) [0..<LENGTH('a) div 8]"

fun bytes_word :: "byte list \<Rightarrow> 'a::len word" where
  "bytes_word [] = 0"
| "bytes_word (b # bs) = ucast b OR push_bit 8 (bytes_word bs)"

lemma bit_bytes_word:
  "bit (bytes_word bs :: 'a::len word) n \<longleftrightarrow>
     n < LENGTH('a) \<and> n div 8 < length bs \<and> bit (bs ! (n div 8)) (n mod 8)"
proof (induction bs arbitrary: n)
  case Nil
  then show ?case by simp
next
  case (Cons b bs)
  show ?case
  proof (cases "n < 8")
    case True
    then show ?thesis
      by (auto simp: bit_or_iff bit_ucast_iff bit_push_bit_iff)
  next
    case False
    then have "n div 8 = Suc ((n - 8) div 8)" "n mod 8 = (n - 8) mod 8"
      by (simp_all add: le_div_geq le_mod_geq)
    moreover have "\<not> bit b n"
      using False bit_imp_le_length [of b n] by auto
    ultimately show ?thesis
      using False by (auto simp: bit_or_iff bit_ucast_iff bit_push_bit_iff Cons.IH)
  qed
qed

lemma length_word_bytes [simp]: "length (word_bytes (w :: 'a::len word)) = LENGTH('a) div 8"
  by (simp add: word_bytes_def)

lemma bytes_word_word_bytes:
  assumes "8 dvd LENGTH('a)"
  shows "bytes_word (word_bytes w) = (w :: 'a::len word)"
proof (rule bit_word_eqI)
  fix n assume n: "n < LENGTH('a)"
  then have k: "n div 8 < LENGTH('a) div 8"
    using assms by (auto simp: less_mult_imp_div_less elim!: dvdE)
  then show "bit (bytes_word (word_bytes w) :: 'a word) n = bit w n"
    using n by (simp add: bit_bytes_word word_bytes_def bit_ucast_iff bit_drop_bit_eq)
qed

section \<open>Input streams\<close>

record istr =
  ibuf :: bsb
  i_eof :: bool
  i_fail :: bool
  i_bad :: bool

definition igood :: "istr \<Rightarrow> bool" where
  "igood s \<longleftrightarrow> \<not> i_eof s \<and> \<not> i_fail s \<and> \<not> i_bad s"

definition ibytestream0 :: istr where
  "ibytestream0 = \<lparr>ibuf = bytestreambuf0, i_eof = False, i_fail = False, i_bad = False\<rparr>"

definition ibytestream_of :: "byte list option \<Rightarrow> istr" where
  "ibytestream_of data =
     \<lparr>ibuf = bytestreambuf_of data False, i_eof = False, i_fail = False, i_bad = False\<rparr>"

text \<open>\<^verbatim>\<open>std::basic_istream::read\<close>: a short count sets \<^verbatim>\<open>eofbit\<close> and \<^verbatim>\<open>failbit\<close>.\<close>

definition iread :: "int \<Rightarrow> istr \<Rightarrow> byte list \<times> istr" where
  "iread n s =
     (if \<not> igood s then ([], s\<lparr>i_fail := True\<rparr>)
      else case xsgetn n (ibuf s) of (xs, k, b) \<Rightarrow>
        (xs, if k = n then s\<lparr>ibuf := b\<rparr> else s\<lparr>ibuf := b, i_eof := True, i_fail := True\<rparr>))"

text \<open>
  \<^verbatim>\<open>deserialize(T& value)\<close>: the bytes read replace the front of the variable, so a failed
  read leaves the rest of its old value in place.
\<close>

definition deserialize :: "'a::len word \<Rightarrow> istr \<Rightarrow> 'a word \<times> istr" where
  "deserialize old s =
     (if igood s then
        (case iread (int (LENGTH('a) div 8)) s of (xs, s') \<Rightarrow>
           (bytes_word (overwrite 0 xs (word_bytes old)), s'))
      else (old, s))"

text \<open>\<^verbatim>\<open>operator>>(std::vector<byte>&)\<close> takes everything that is left.\<close>

definition read_vector :: "byte list \<Rightarrow> istr \<Rightarrow> byte list \<times> istr" where
  "read_vector old s =
     (let sz = in_avail (ibuf s) in
      if sz > 0 then
        (case iread sz s of (xs, s') \<Rightarrow> (overwrite 0 xs (take (nat sz) (old @ replicate (nat sz) 0)), s'))
      else (old, s))"

definition ibytes :: "istr \<Rightarrow> byte list" where
  "ibytes s = (if igood s then load (ibuf s) (eback (ibuf s)) (bsb_size (ibuf s)) else [])"

definition itotalSize :: "istr \<Rightarrow> int" where
  "itotalSize s = bsb_size (ibuf s)"

definition iavailableSize :: "istr \<Rightarrow> int" where
  "iavailableSize s = in_avail (ibuf s)"

definition icurrentPosition :: "istr \<Rightarrow> int" where
  "icurrentPosition s = currentReadPosition (ibuf s)"

text \<open>\<^verbatim>\<open>seekg(off, cur)\<close> of the base class.\<close>

definition iseekg_cur :: "int \<Rightarrow> istr \<Rightarrow> istr" where
  "iseekg_cur off s =
     (let s1 = s\<lparr>i_eof := False\<rparr> in
      if i_fail s1 \<or> i_bad s1 then s1
      else case seekoff off SeekCur True False (ibuf s1) of
        (r, b) \<Rightarrow> if r = -1 then s1\<lparr>ibuf := b, i_fail := True\<rparr> else s1\<lparr>ibuf := b\<rparr>)"

section \<open>Output streams\<close>

record ostr =
  obuf :: bsb
  o_bad :: bool

definition ogood :: "ostr \<Rightarrow> bool" where
  "ogood s \<longleftrightarrow> \<not> o_bad s"

definition obytestream0 :: ostr where
  "obytestream0 = \<lparr>obuf = bytestreambuf0, o_bad = False\<rparr>"

definition obytestream_of :: "byte list option \<Rightarrow> bool \<Rightarrow> ostr" where
  "obytestream_of data allowExtend = \<lparr>obuf = bytestreambuf_of data allowExtend, o_bad = False\<rparr>"

text \<open>\<^verbatim>\<open>std::basic_ostream::write\<close>: a short count sets \<^verbatim>\<open>badbit\<close>.\<close>

definition owrite :: "byte list \<Rightarrow> ostr \<Rightarrow> ostr" where
  "owrite xs s =
     (if \<not> ogood s then s
      else case xsputn (Some xs) (int (length xs)) (obuf s) of (k, b) \<Rightarrow>
        if k = int (length xs) then s\<lparr>obuf := b\<rparr> else s\<lparr>obuf := b, o_bad := True\<rparr>)"

definition serialize :: "'a::len word \<Rightarrow> ostr \<Rightarrow> ostr" where
  "serialize v s = (if ogood s then owrite (word_bytes v) s else s)"

definition write_vector :: "byte list \<Rightarrow> ostr \<Rightarrow> ostr" where
  "write_vector xs s = (if ogood s then owrite xs s else s)"

text \<open>\<^verbatim>\<open>operator<<(ibytestream&)\<close> copies the unread bytes and skips them in the input.\<close>

definition write_istream :: "istr \<Rightarrow> ostr \<Rightarrow> ostr \<times> istr" where
  "write_istream i s =
     (owrite (load (ibuf i) (gptr (ibuf i)) (iavailableSize i)) s, iseekg_cur (iavailableSize i) i)"

definition ocurrentPosition :: "ostr \<Rightarrow> int" where
  "ocurrentPosition s = currentWritePosition (obuf s)"

definition obytes :: "ostr \<Rightarrow> byte list" where
  "obytes s = (if ogood s then load (obuf s) (pbase (obuf s)) (ocurrentPosition s) else [])"

definition ototalSize :: "ostr \<Rightarrow> int" where
  "ototalSize s = bsb_size (obuf s)"

definition oavailableSize :: "ostr \<Rightarrow> int" where
  "oavailableSize s = in_avail (obuf s)"

definition odynamic :: "bool \<Rightarrow> ostr \<Rightarrow> ostr" where
  "odynamic d s = s\<lparr>obuf := dynamic d (obuf s)\<rparr>"

section \<open>Invariants and views\<close>

definition istr_wf :: "istr \<Rightarrow> bool" where
  "istr_wf s \<longleftrightarrow> bsb_wf (ibuf s)"

definition remaining :: "istr \<Rightarrow> byte list" where
  "remaining s = unread (ibuf s)"

definition ostr_wf :: "ostr \<Rightarrow> bool" where
  "ostr_wf s \<longleftrightarrow> appendable (obuf s) \<and> has (obuf s) Dynamic"

lemma obytes_written: "ogood s \<Longrightarrow> ostr_wf s \<Longrightarrow> obytes s = written (obuf s)"
  by (auto simp: obytes_def written_def ocurrentPosition_def currentWritePosition_def ostr_wf_def
      appendable_def bsb_empty_def bsb_at_def load_def)

lemma ostr_wf_ctor: "ostr_wf obytestream0" "ogood obytestream0" "obytes obytestream0 = []"
proof -
  show w: "ostr_wf obytestream0" "ogood obytestream0"
    by (simp_all add: ostr_wf_def obytestream0_def appendable_ctor ogood_def)
  show "obytes obytestream0 = []"
    using w by (simp add: obytes_written) (simp add: obytestream0_def bsb_empty_ctor)
qed

lemma owrite_append:
  assumes "ostr_wf s" "ogood s" "length (obytes s) + length xs < 1073741824"
  shows "ostr_wf (owrite xs s)" "ogood (owrite xs s)" "obytes (owrite xs s) = obytes s @ xs"
proof -
  have "ostr_wf (owrite xs s) \<and> ogood (owrite xs s) \<and> obytes (owrite xs s) = obytes s @ xs"
  proof (cases "xs = []")
    case True
    then have "owrite xs s = s"
      using assms(2) by (simp add: owrite_def xsputn_def)
    then show ?thesis using assms True by simp
  next
    case False
    note o = obytes_written [OF assms(2,1)]
    obtain k b where kb: "xsputn (Some xs) (int (length xs)) (obuf s) = (k, b)" by fastforce
    have "k = int (length xs)" "appendable b" "written b = obytes s @ xs" "has b Dynamic"
      using xsputn_appends [of "obuf s" xs] assms False kb by (simp_all add: ostr_wf_def o)
    moreover from this have "owrite xs s = s\<lparr>obuf := b\<rparr>"
      using assms(2) kb by (simp add: owrite_def)
    moreover from this have "ogood (owrite xs s)" using assms(2) by (simp add: ogood_def)
    ultimately show ?thesis by (simp add: obytes_written ostr_wf_def)
  qed
  then show "ostr_wf (owrite xs s)" "ogood (owrite xs s)" "obytes (owrite xs s) = obytes s @ xs"
    by blast+
qed

lemma iread_wf:
  assumes "istr_wf s" "igood s" "0 \<le> n" "iread n s = (xs, s')"
  shows "xs = take (nat n) (remaining s)" "remaining s' = drop (nat n) (remaining s)" "istr_wf s'"
    "igood s' \<longleftrightarrow> nat n \<le> length (remaining s)"
proof -
  obtain ys k b where x: "xsgetn n (ibuf s) = (ys, k, b)" by (cases "xsgetn n (ibuf s)") auto
  note w = xsgetn_wf [OF assms(1) [unfolded istr_wf_def] assms(3) x]
  have s': "xs = ys" "ibuf s' = b"
    using assms(2,4) x by (auto simp: iread_def split: if_splits)
  show "xs = take (nat n) (remaining s)" "remaining s' = drop (nat n) (remaining s)" "istr_wf s'"
    using w s' by (simp_all add: remaining_def istr_wf_def)
  have k: "k = n \<longleftrightarrow> nat n \<le> length (remaining s)"
    using w(1,2) assms(3) by (auto simp: remaining_def)
  show "igood s' \<longleftrightarrow> nat n \<le> length (remaining s)"
    using assms(2,4) x k by (auto simp: iread_def igood_def split: if_splits)
qed

section \<open>The interface of a fixed-size representation\<close>

text \<open>
  What the typed operators rely on: an encoding of constant width that its decoder inverts.
  Whatever has such a representation survives the passage through an output stream and an
  input stream.
\<close>

locale fixed_codec =
  fixes enc :: "'v \<Rightarrow> byte list"
    and dec :: "byte list \<Rightarrow> 'v"
    and width :: nat
  assumes enc_length: "length (enc v) = width"
    and dec_enc: "dec (enc v) = v"
begin

lemma read_back:
  assumes "istr_wf s" "igood s" "remaining s = enc v @ rest" "iread (int width) s = (xs, s')"
  shows "xs = enc v" "dec xs = v" "remaining s' = rest" "istr_wf s'" "igood s'"
proof -
  note r = iread_wf [OF assms(1,2) _ assms(4)]
  show "xs = enc v" using r(1) assms(3) by (simp add: enc_length)
  then show "dec xs = v" by (simp add: dec_enc)
  show "remaining s' = rest" "istr_wf s'" "igood s'"
    using r(2,3,4) assms(3) by (simp_all add: enc_length)
qed

lemma write_back:
  assumes "ostr_wf s" "ogood s" "length (obytes s) + width < 1073741824"
  shows "obytes (owrite (enc v) s) = obytes s @ enc v" "ostr_wf (owrite (enc v) s)"
    "ogood (owrite (enc v) s)"
  using owrite_append [OF assms(1,2), of "enc v"] assms(3) by (simp_all add: enc_length)

end

interpretation u8_codec: fixed_codec "word_bytes :: byte \<Rightarrow> byte list" bytes_word 1
  by unfold_locales (simp_all add: bytes_word_word_bytes)

interpretation u16_codec: fixed_codec "word_bytes :: u16 \<Rightarrow> byte list" bytes_word 2
  by unfold_locales (simp_all add: bytes_word_word_bytes)

interpretation u32_codec: fixed_codec "word_bytes :: u32 \<Rightarrow> byte list" bytes_word 4
  by unfold_locales (simp_all add: bytes_word_word_bytes)

interpretation u64_codec: fixed_codec "word_bytes :: u64 \<Rightarrow> byte list" bytes_word 8
  by unfold_locales (simp_all add: bytes_word_word_bytes)

lemma ibytestream_of_wf:
  assumes "length xs < 2147483648"
  shows "istr_wf (ibytestream_of (Some xs))" "igood (ibytestream_of (Some xs))"
    "remaining (ibytestream_of (Some xs)) = xs"
proof -
  let ?b = "bytestreambuf_of (Some xs) False"
  have nf: "\<not> bs_fault (bsb_init 0 raw_bsb)"
    by (simp add: bsb_init_def raw_bsb_def setg_def setp_def)
  have "bsb_wf ?b \<and> unread ?b = xs"
  proof (cases "xs = []")
    case True
    have "bsb_empty (dynamic False bytestreambuf0)"
      using bsb_empty_ctor by (simp add: bsb_empty_def has_dynamic) (simp add: dynamic_def)
    then show ?thesis
      using True by (simp add: bytestreambuf_of_def bytestreambuf0_def Let_def bsb_wf_def)
  next
    case False
    have "bsb_at (setbuf (Some xs) (bsb_init 0 raw_bsb)) xs 0 (int (length xs)) 0"
      using setbuf_at [OF _ nf, of xs] assms by simp
    then have "bsb_at (dynamic False (setbuf (Some xs) (bsb_init 0 raw_bsb))) xs 0 (int (length xs)) 0"
      by (simp add: bsb_at_def has_dynamic) (simp add: dynamic_def)
    then show ?thesis
      using False unread_at by (fastforce simp: bytestreambuf_of_def Let_def intro: bsb_wf_at)
  qed
  then show "istr_wf (ibytestream_of (Some xs))" "igood (ibytestream_of (Some xs))"
    "remaining (ibytestream_of (Some xs)) = xs"
    by (simp_all add: istr_wf_def ibytestream_of_def igood_def remaining_def)
qed

text \<open>The typed operators over the raw ones.\<close>

lemma deserialize_iread:
  assumes "igood s" "iread (int (LENGTH('a) div 8)) s = (xs, s')" "length xs = LENGTH('a) div 8"
  shows "deserialize (old :: 'a::len word) s = (bytes_word xs, s')"
  using assms by (simp add: deserialize_def overwrite_all)

lemma deserialize_bad [simp]: "\<not> igood s \<Longrightarrow> deserialize old s = (old, s)"
  by (simp add: deserialize_def)

lemma deserialize_word:
  assumes "istr_wf s" "igood s" "remaining s = word_bytes v @ rest" "8 dvd LENGTH('a)"
  obtains s' where "deserialize (old :: 'a::len word) s = (v, s')"
    "remaining s' = rest" "istr_wf s'" "igood s'"
proof -
  obtain xs s' where r: "iread (int (LENGTH('a) div 8)) s = (xs, s')" by fastforce
  note w = iread_wf [OF assms(1,2) _ r]
  have xs: "xs = word_bytes v" using w(1) assms(3) by simp
  have "deserialize old s = (v, s')"
    using deserialize_iread [OF assms(2) r, of old] assms(4) by (simp add: xs bytes_word_word_bytes)
  moreover have "remaining s' = rest" "istr_wf s'" "igood s'"
    using w(2,3,4) assms(3) by simp_all
  ultimately show ?thesis by (rule that)
qed

section \<open>Messages of typed fields\<close>

text \<open>
  The SDK builds every message as a sequence of typed writes and takes it apart with the
  same sequence of typed reads. \<^verbatim>\<open>put_field\<close> and \<^verbatim>\<open>get_field\<close> choose the operator by the
  field's type.
\<close>

datatype field = F8 byte | F16 u16 | F32 u32 | F64 u64

fun field_bytes :: "field \<Rightarrow> byte list" where
  "field_bytes (F8 v) = word_bytes v"
| "field_bytes (F16 v) = word_bytes v"
| "field_bytes (F32 v) = word_bytes v"
| "field_bytes (F64 v) = word_bytes v"

fun put_field :: "field \<Rightarrow> ostr \<Rightarrow> ostr" where
  "put_field (F8 v) s = serialize v s"
| "put_field (F16 v) s = serialize v s"
| "put_field (F32 v) s = serialize v s"
| "put_field (F64 v) s = serialize v s"

text \<open>The read is given a field of the same type, whose value it overwrites.\<close>

fun get_field :: "field \<Rightarrow> istr \<Rightarrow> field \<times> istr" where
  "get_field (F8 old) s = map_prod F8 id (deserialize old s)"
| "get_field (F16 old) s = map_prod F16 id (deserialize old s)"
| "get_field (F32 old) s = map_prod F32 id (deserialize old s)"
| "get_field (F64 old) s = map_prod F64 id (deserialize old s)"

fun same_type :: "field \<Rightarrow> field \<Rightarrow> bool" where
  "same_type (F8 _) (F8 _) = True"
| "same_type (F16 _) (F16 _) = True"
| "same_type (F32 _) (F32 _) = True"
| "same_type (F64 _) (F64 _) = True"
| "same_type _ _ = False"

fun get_fields :: "field list \<Rightarrow> istr \<Rightarrow> field list \<times> istr" where
  "get_fields [] s = ([], s)"
| "get_fields (f # fs) s = (case get_field f s of (v, s1) \<Rightarrow>
     (case get_fields fs s1 of (vs, s2) \<Rightarrow> (v # vs, s2)))"

lemma put_field_write: "ogood s \<Longrightarrow> put_field f s = owrite (field_bytes f) s"
  by (cases f) (simp_all add: serialize_def)

lemma put_fields_bytes:
  assumes "ostr_wf s" "ogood s" "length (obytes s) + length (concat (map field_bytes fs)) < 1073741824"
  shows "obytes (fold put_field fs s) = obytes s @ concat (map field_bytes fs) \<and>
    ostr_wf (fold put_field fs s) \<and> ogood (fold put_field fs s)"
  using assms
proof (induction fs arbitrary: s)
  case Nil
  then show ?case by simp
next
  case (Cons f fs)
  note w = owrite_append [OF Cons.prems(1,2), of "field_bytes f"]
  have "length (obytes s) + length (field_bytes f) < 1073741824" using Cons.prems(3) by simp
  note w' = w(1,2,3) [OF this]
  show ?case
    using Cons.IH [OF w'(1,2)] Cons.prems w'(3) by (simp add: put_field_write)
qed

lemma get_field_back:
  assumes "istr_wf s" "igood s" "remaining s = field_bytes f @ rest" "same_type g f"
  shows "\<exists>s'. get_field g s = (f, s') \<and> remaining s' = rest \<and> istr_wf s' \<and> igood s'"
proof (cases f)
  case (F8 v)
  then obtain old where g: "g = F8 old" using assms(4) by (cases g) auto
  from assms(3) F8 have "remaining s = word_bytes v @ rest" by simp
  from deserialize_word [OF assms(1,2) this, of old] show ?thesis using F8 g by force
next
  case (F16 v)
  then obtain old where g: "g = F16 old" using assms(4) by (cases g) auto
  from assms(3) F16 have "remaining s = word_bytes v @ rest" by simp
  from deserialize_word [OF assms(1,2) this, of old] show ?thesis using F16 g by force
next
  case (F32 v)
  then obtain old where g: "g = F32 old" using assms(4) by (cases g) auto
  from assms(3) F32 have "remaining s = word_bytes v @ rest" by simp
  from deserialize_word [OF assms(1,2) this, of old] show ?thesis using F32 g by force
next
  case (F64 v)
  then obtain old where g: "g = F64 old" using assms(4) by (cases g) auto
  from assms(3) F64 have "remaining s = word_bytes v @ rest" by simp
  from deserialize_word [OF assms(1,2) this, of old] show ?thesis using F64 g by force
qed

lemma get_fields_back:
  assumes "istr_wf s" "igood s" "remaining s = concat (map field_bytes fs) @ rest"
    "list_all2 same_type gs fs"
  shows "\<exists>s'. get_fields gs s = (fs, s') \<and> remaining s' = rest \<and> istr_wf s' \<and> igood s'"
  using assms(4,1,2,3)
proof (induction gs fs arbitrary: s rule: list_all2_induct)
  case Nil
  then show ?case by simp
next
  case (Cons g gs f fs)
  have "remaining s = field_bytes f @ (concat (map field_bytes fs) @ rest)"
    using Cons.prems(3) by simp
  from get_field_back [OF Cons.prems(1,2) this Cons.hyps(1)] obtain s1 where
    s1: "get_field g s = (f, s1)" "remaining s1 = concat (map field_bytes fs) @ rest"
      "istr_wf s1" "igood s1" by blast
  from Cons.IH [OF s1(3,4,2)] obtain s2 where "get_fields gs s1 = (fs, s2)"
    "remaining s2 = rest" "istr_wf s2" "igood s2" by blast
  with s1(1) show ?case by simp
qed

section \<open>Ownership of the block\<close>

text \<open>
  \<^verbatim>\<open>bs_live\<close> counts the blocks obtained and not deleted. A buffer that owns its block has
  exactly one, and none before the first write.
\<close>

definition owned :: "bsb \<Rightarrow> bool" where
  "owned b \<longleftrightarrow> has b Allocated \<and> bs_live b = (if pbase b = None then 0 else 1)"

lemma bs_live_frame [simp]:
  "bs_live (setg x y z b) = bs_live b" "bs_live (setp x z b) = bs_live b"
  "bs_live (pbump d b) = bs_live b" "bs_live (store q xs b) = bs_live b"
  "bs_live (updateReadAfterWrite b) = bs_live b" "bs_live (bsb_reset b) = bs_live b"
  by (simp_all add: setg_def setp_def pbump_def store_def updateReadAfterWrite_def bsb_reset_def)

lemma bs_live_init: "bs_live (bsb_init n b) = (if n > 0 then Suc (bs_live b) else bs_live b)"
  by (simp add: bsb_init_def)

lemma bs_live_grow:
  assumes "t > 0" "has b Dynamic"
  shows "bs_live (grow t b) = (if has b Allocated \<and> pbase b \<noteq> None then bs_live b else Suc (bs_live b))"
proof -
  define s where "s = (if pbase b \<noteq> None \<and> epptr b \<noteq> None then pdiff (epptr b) (pbase b) else 0)"
  have init: "bs_live (bsb_init (grow_size z t) c) = Suc (bs_live c)" if "0 < z" for z c
    using grow_size_ge [OF that, of t] assms(1) by (simp add: bs_live_init)
  show ?thesis
  proof (cases "0 < s")
    case True
    then show ?thesis
      unfolding grow_def Let_def s_def [symmetric] using assms init [of s] by (simp add: has_def)
  next
    case False
    then show ?thesis
      unfolding grow_def Let_def s_def [symmetric] using assms init [of 32] by (simp add: has_def)
  qed
qed

lemma bs_live_xsputn:
  assumes "n > 0" "has b Write"
  shows "bs_live (snd (xsputn (Some xs) n b)) =
    (if (if pbase b \<noteq> None \<and> pptr b \<noteq> None \<and> epptr b \<noteq> None
         then pdiff (epptr b) (pptr b) else 0) < n \<and> has b Dynamic
     then bs_live (grow (n + (if pptr b \<noteq> None \<and> pbase b \<noteq> None
                              then pdiff (pptr b) (pbase b) else 0)) b)
     else bs_live b)"
proof -
  define av where "av = (if pbase b \<noteq> None \<and> pptr b \<noteq> None \<and> epptr b \<noteq> None
    then pdiff (epptr b) (pptr b) else 0)"
  define pos where "pos = (if pptr b \<noteq> None \<and> pbase b \<noteq> None then pdiff (pptr b) (pbase b) else 0)"
  show ?thesis
    unfolding xsputn_def option.case Let_def av_def [symmetric] pos_def [symmetric]
    using assms by (cases "av < n"; cases "has b Dynamic") simp_all
qed

lemma owned_write:
  assumes "appendable b" "has b Dynamic" "owned b" "length (written b) + length xs < 1073741824"
    "xsputn (Some xs) (int (length xs)) b = (k, b')"
  shows "owned b'"
proof (cases "xs = []")
  case True
  then show ?thesis using assms by (simp add: xsputn_def)
next
  case False
  note x = xsputn_appends [OF assms(1,2) False assms(4), unfolded assms(5)]
  have n: "0 < int (length xs)" and hw: "has b Write"
    using False assms(1) by (auto simp: appendable_def bsb_empty_def bsb_at_def)
  have pos: "0 \<le> (if pptr b \<noteq> None \<and> pbase b \<noteq> None then pdiff (pptr b) (pbase b) else 0)" (is "0 \<le> ?p")
    using assms(1) by (auto simp: appendable_def bsb_empty_def bsb_at_def)
  have pb: "pbase b' \<noteq> None"
    using x False by (auto simp: appendable_def bsb_at_def bsb_empty_def)
  have short: "pbase b = None \<Longrightarrow> (if pbase b \<noteq> None \<and> pptr b \<noteq> None \<and> epptr b \<noteq> None
         then pdiff (epptr b) (pptr b) else 0) < int (length xs)"
    using n by simp
  have t: "0 < int (length xs) + ?p" using n pos by linarith
  have "bs_live b' = bs_live b \<and> pbase b \<noteq> None \<or> bs_live b' = bs_live (grow (int (length xs) + ?p) b)"
    using bs_live_xsputn [OF n hw, of xs] short assms(2)
    unfolding assms(5) snd_conv by (metis (no_types, lifting))
  then show ?thesis
    using x assms(2,3) pb bs_live_grow [OF t assms(2)] by (auto simp: owned_def split: if_splits)
qed

lemma owned_tidy: "owned b \<Longrightarrow> bsb_wf b \<Longrightarrow> bs_live (bsb_tidy b) = 0"
  by (auto simp: owned_def bsb_tidy_def Let_def bsb_wf_def bsb_empty_def)

lemma owned_ctor: "owned bytestreambuf0"
  by (simp add: owned_def) (simp add: bytestreambuf0_def bsb_init_def raw_bsb_def setg_def setp_def)

lemma owned_writes:
  assumes "ostr_wf s" "ogood s" "owned (obuf s)"
    "length (obytes s) + length (concat (map field_bytes fs)) < 1073741824"
  shows "owned (obuf (fold put_field fs s))"
  using assms
proof (induction fs arbitrary: s)
  case Nil
  then show ?case by simp
next
  case (Cons f fs)
  note o = obytes_written [OF Cons.prems(2,1)]
  have l: "length (obytes s) + length (field_bytes f) < 1073741824" using Cons.prems(4) by simp
  note w = owrite_append [OF Cons.prems(1,2) l]
  obtain k b' where x: "xsputn (Some (field_bytes f)) (int (length (field_bytes f))) (obuf s) = (k, b')"
    by fastforce
  have "owned b'"
    by (rule owned_write [OF _ _ Cons.prems(3) _ x]) (use Cons.prems(1) l o in \<open>simp_all add: ostr_wf_def\<close>)
  moreover have "obuf (owrite (field_bytes f) s) = b'"
    using x Cons.prems(2) by (simp add: owrite_def)
  ultimately show ?case
    using Cons.IH [OF w(1,2)] Cons.prems w(3) by (simp add: put_field_write)
qed

lemma external_ctor:
  assumes "xs \<noteq> []" "length xs < 2147483648"
  shows "bsb_at (bytestreambuf_of (Some xs) True) xs 0 (int (length xs)) 0"
    "has (bytestreambuf_of (Some xs) True) Dynamic" "\<not> has (bytestreambuf_of (Some xs) True) Allocated"
    "bs_live (bytestreambuf_of (Some xs) True) = 0"
proof -
  define i where "i = bsb_init 0 raw_bsb"
  have nf: "\<not> bs_fault i" "bs_live i = 0"
    by (simp_all add: i_def bsb_init_def raw_bsb_def setg_def setp_def)
  have b: "bytestreambuf_of (Some xs) True = dynamic True (setbuf (Some xs) i)"
    using assms by (simp add: bytestreambuf_of_def i_def)
  have "bsb_at (setbuf (Some xs) i) xs 0 (int (length xs)) 0"
    using setbuf_at [OF _ nf(1), of xs] assms by simp
  then show "bsb_at (bytestreambuf_of (Some xs) True) xs 0 (int (length xs)) 0"
    unfolding b by (simp add: bsb_at_def has_dynamic) (simp add: dynamic_def)
  show "has (bytestreambuf_of (Some xs) True) Dynamic" "\<not> has (bytestreambuf_of (Some xs) True) Allocated"
    unfolding b by (simp_all add: has_dynamic)
  show "bs_live (bytestreambuf_of (Some xs) True) = 0"
    unfolding b using nf(2)
    by (simp add: dynamic_def setbuf_def Let_def bsb_tidy_def)
qed

lemma seekoff_cur_at:
  assumes "bsb_at b m g e p" "0 \<le> g + off" "g + off \<le> e"
  shows "seekoff off SeekCur True False b = (g, setg (Some 0) (Some (g + off)) (Some e) b)"
    "bsb_at (setg (Some 0) (Some (g + off)) (Some e) b) m (g + off) e p"
  using assms
  by (simp_all add: seekoff_def seekoff_in_def seek_base_def setgIfValid_def bsb_at_def Let_def)
    (simp add: setg_def)

section \<open>Properties\<close>

text \<open>
  Writing a non-empty run of bytes into a growing stream buffer writes all of
  it, at the end of what was written before, and leaves the buffer ready for the next write
  without an access outside of its block.
\<close>

theorem write_appends:
  assumes "appendable b" "has b Dynamic" "xs \<noteq> []"
    and "length (written b) + length xs < 1073741824"
    and "xsputn (Some xs) (int (length xs)) b = (k, b')"
  shows "k = int (length xs) \<and> written b' = written b @ xs \<and> appendable b' \<and> \<not> bs_fault b'"
  using xsputn_appends [OF assms(1-4)] assms(5)
  by (auto dest: appendable_wf bsb_wf_no_fault)

text \<open>
  Property C4. A message built by any sequence of typed writes on a fresh output stream is
  taken apart by the same sequence of typed reads: the input stream over its bytes gives
  back every value, stays good and is exhausted.
\<close>

theorem message_roundtrip:
  assumes "length (concat (map field_bytes fs)) < 1073741824"
    and "list_all2 same_type gs fs"
  shows "\<exists>s. get_fields gs (ibytestream_of (Some (obytes (fold put_field fs obytestream0)))) = (fs, s) \<and>
    remaining s = [] \<and> igood s"
proof -
  have o: "obytes (fold put_field fs obytestream0) = concat (map field_bytes fs)"
    using put_fields_bytes [OF ostr_wf_ctor(1,2)] assms(1) by (simp add: ostr_wf_ctor(3))
  have l: "length (concat (map field_bytes fs)) < 2147483648" using assms(1) by linarith
  note i = ibytestream_of_wf [OF l]
  show ?thesis
    unfolding o using get_fields_back [OF i(1,2) _ assms(2), of "[]"] i(3) by auto
qed

text \<open>
  Reading is exact: \<^term>\<open>n\<close> bytes come off the front of the unread bytes, the
  rest stays, and the stream stays good exactly if there were enough of them.
\<close>

theorem read_exact:
  assumes "istr_wf s" "igood s" "0 \<le> n" "iread n s = (xs, s')"
  shows "xs = take (nat n) (remaining s) \<and> remaining s' = drop (nat n) (remaining s) \<and>
    istr_wf s' \<and> (igood s' \<longleftrightarrow> nat n \<le> length (remaining s)) \<and> \<not> bs_fault (ibuf s')"
  using iread_wf [OF assms] by (auto simp: istr_wf_def dest: bsb_wf_no_fault)

text \<open>
  An output stream that allocates its own block never leaks it: after any
  sequence of typed writes the destructor's \<^verbatim>\<open>tidy\<close> has deleted every block obtained.
\<close>

theorem owned_stream_frees:
  assumes "length (concat (map field_bytes fs)) < 1073741824"
  shows "bs_live (bsb_tidy (obuf (fold put_field fs obytestream0))) = 0"
proof -
  have l: "length (obytes obytestream0) + length (concat (map field_bytes fs)) < 1073741824"
    using assms by (simp add: ostr_wf_ctor(3))
  have "owned (obuf obytestream0)" by (simp add: obytestream0_def owned_ctor)
  then have "owned (obuf (fold put_field fs obytestream0))"
    by (rule owned_writes [OF ostr_wf_ctor(1,2) _ l])
  moreover have "bsb_wf (obuf (fold put_field fs obytestream0))"
    using put_fields_bytes [OF ostr_wf_ctor(1,2) l] by (simp add: ostr_wf_def appendable_wf)
  ultimately show ?thesis by (rule owned_tidy)
qed

text \<open>
  A stream over the caller's memory that may extend (\<^verbatim>\<open>allowExtend\<close>) leaks: a
  write larger than the memory moves the contents to a new block, but \<^verbatim>\<open>grow\<close> restores the
  old mode without the \<^verbatim>\<open>Allocated\<close> flag, so the destructor leaves that block behind.
\<close>

theorem extended_stream_leaks:
  assumes "xs \<noteq> []" "length xs < length ys" "length ys < 1073741824"
    and "xsputn (Some ys) (int (length ys)) (bytestreambuf_of (Some xs) True) = (k, b')"
  shows "written b' = ys \<and> bs_live (bsb_tidy b') = 1"
proof -
  let ?b = "bytestreambuf_of (Some xs) True"
  have l: "length xs < 2147483648" using assms(2,3) by linarith
  note b = external_ctor [OF assms(1) l]
  have w: "written ?b = []" using b(1) by (simp add: written_at)
  have ap: "appendable ?b" using b(1) by (auto simp: appendable_def)
  have ne: "ys \<noteq> []" using assms(2) by auto
  note x = xsputn_appends [OF ap b(2) ne, unfolded assms(4) w]
  have "bs_live b' = bs_live (grow (int (length ys)) ?b)"
    using b(1,2) assms(2) assms(4)
    by (auto simp: xsputn_def bsb_at_def Let_def split: if_splits)
  then have "bs_live b' = 1"
    using b(3,4) ne by (simp add: bs_live_grow [OF _ b(2)])
  then show ?thesis
    using x assms(3) b(3) by (simp add: bsb_tidy_def)
qed

text \<open>
  A relative seek in the input area moves the read position to where it was
  told, but returns the position it started from: the result is the base offset and not the
  new position that the contract of \<^verbatim>\<open>seekoff\<close> asks for.
\<close>

theorem seekoff_returns_old_position:
  assumes "bsb_at b m g e p" "0 \<le> g + off" "g + off \<le> e"
    and "seekoff off SeekCur True False b = (r, b')"
  shows "currentReadPosition b' = g + off \<and> r = g"
  using seekoff_cur_at [OF assms(1-3)] assms(4)
  by (auto simp: currentReadPosition_def bsb_at_def)

section \<open>Witnesses\<close>

theorem write_appends_witness:
  "written (snd (xsputn (Some [1, 2, 3]) 3 bytestreambuf0)) = [1, 2, 3]"
proof -
  obtain k b' where r: "xsputn (Some [1, 2, 3]) (int (length [1 :: byte, 2, 3])) bytestreambuf0 = (k, b')"
    by fastforce
  have w: "written bytestreambuf0 = []" using bsb_empty_ctor by simp
  from write_appends [OF appendable_ctor _ _ _ r] show ?thesis
    using r by (simp add: w)
qed

theorem message_roundtrip_witness:
  "\<exists>s. get_fields [F8 0, F16 0] (ibytestream_of (Some (obytes (fold put_field [F8 134, F16 515] obytestream0)))) =
     ([F8 134, F16 515], s) \<and> remaining s = [] \<and> igood s"
  by (rule message_roundtrip) simp_all

theorem read_exact_witness:
  "fst (iread 2 (ibytestream_of (Some [7, 8, 9]))) = [7, 8]"
proof -
  obtain xs s' where r: "iread 2 (ibytestream_of (Some [7, 8, 9 :: byte])) = (xs, s')" by fastforce
  have l: "length [7, 8, 9 :: byte] < 2147483648" by simp
  from read_exact [OF ibytestream_of_wf(1,2) [OF l] _ r] show ?thesis
    using r by (simp add: ibytestream_of_wf(3) [OF l] numeral_2_eq_2)
qed

theorem owned_stream_frees_witness:
  "bs_live (bsb_tidy (obuf (fold put_field [F32 7, F8 1] obytestream0))) = 0"
  by (rule owned_stream_frees) simp

theorem extended_stream_leaks_witness:
  "bs_live (bsb_tidy (snd (xsputn (Some [1, 2]) 2 (bytestreambuf_of (Some [0]) True)))) = 1"
proof -
  obtain k b' where r: "xsputn (Some [1, 2 :: byte]) (int (length [1 :: byte, 2])) (bytestreambuf_of (Some [0]) True) = (k, b')"
    by fastforce
  from extended_stream_leaks [OF _ _ _ r] show ?thesis using r by simp
qed

theorem seekoff_returns_old_position_witness:
  "fst (seekoff 2 SeekCur True False (setbuf (Some [1, 2, 3]) bytestreambuf0)) = 0"
proof -
  have "\<not> bs_fault bytestreambuf0" using bsb_empty_ctor by (simp add: bsb_empty_def)
  then have b: "bsb_at (setbuf (Some [1, 2, 3]) bytestreambuf0) [1, 2, 3] 0 3 0"
    using setbuf_at [of "[1, 2, 3]" bytestreambuf0] by simp
  obtain r b' where s: "seekoff 2 SeekCur True False (setbuf (Some [1, 2, 3]) bytestreambuf0) = (r, b')"
    by fastforce
  from seekoff_returns_old_position [OF b _ _ s] show ?thesis using s by simp
qed

end
