(* ===== verification/PacketDispatch.thy ===== *)
theory PacketDispatch
  imports ByteStreams
begin

text \<open>
  Packets and their dispatch by message id: \<^verbatim>\<open>Packet.h\<close>, \<^verbatim>\<open>MessageIDTypes.h\<close>,
  \<^verbatim>\<open>PacketProcessorConfig.cpp\<close> and \<^verbatim>\<open>DefaultPacketDispatcher.cpp\<close>. A handler is a
  function on the packet and the rest of the client, \<^typ>\<open>'w\<close>, which the dispatcher never
  looks at. The lemmas show which handlers a packet reaches and that one packet runs at most
  \<^verbatim>\<open>_maxLayerCount\<close> of them.
\<close>

section \<open>Packets\<close>

text \<open>\<^verbatim>\<open>p_conn\<close> names the connection object the packet came from.\<close>

record packet =
  p_conn :: nat
  p_stream :: istr
  p_meta :: "string \<rightharpoonup> string"

definition make_packet :: "nat \<Rightarrow> byte list \<Rightarrow> (string \<rightharpoonup> string) \<Rightarrow> packet" where
  "make_packet source data meta =
     \<lparr>p_conn = source, p_stream = ibytestream_of (Some data), p_meta = meta\<rparr>"

definition set_meta :: "string \<Rightarrow> string \<Rightarrow> packet \<Rightarrow> packet" where
  "set_meta k v p = p\<lparr>p_meta := (p_meta p)(k \<mapsto> v)\<rparr>"

text \<open>\<^verbatim>\<open>packet->stream >> value\<close>.\<close>

definition p_read :: "'a::len word \<Rightarrow> packet \<Rightarrow> 'a word \<times> packet" where
  "p_read old p = (case deserialize old (p_stream p) of (v, s) \<Rightarrow> (v, p\<lparr>p_stream := s\<rparr>))"

definition p_ok :: "packet \<Rightarrow> bool" where
  "p_ok p \<longleftrightarrow> istr_wf (p_stream p) \<and> igood (p_stream p)"

definition p_rest :: "packet \<Rightarrow> byte list" where
  "p_rest p = remaining (p_stream p)"

lemma p_read_word:
  assumes "p_ok p" "p_rest p = word_bytes v @ rest" "8 dvd LENGTH('a)"
  obtains p' where "p_read (old :: 'a::len word) p = (v, p')" "p_ok p'" "p_rest p' = rest"
    "p_conn p' = p_conn p" "p_meta p' = p_meta p"
proof -
  obtain s' where "deserialize old (p_stream p) = (v, s')" "remaining s' = rest" "istr_wf s'" "igood s'"
    using deserialize_word [OF _ _ _ assms(3)] assms(1,2) unfolding p_ok_def p_rest_def by metis
  then show ?thesis
    by (intro that [of "p\<lparr>p_stream := s'\<rparr>"]) (simp_all add: p_read_def p_ok_def p_rest_def)
qed

lemma make_packet_ok:
  "length data < 2147483648 \<Longrightarrow> p_ok (make_packet c data m) \<and> p_rest (make_packet c data m) = data"
  by (simp add: make_packet_def p_ok_def p_rest_def ibytestream_of_wf)

section \<open>Message ids\<close>

definition ID_ADVERTISE_PEERID :: byte where "ID_ADVERTISE_PEERID = 48"
definition ID_P2P_RELAY :: byte where "ID_P2P_RELAY = 58"
definition ID_P2P_TUNNEL :: byte where "ID_P2P_TUNNEL = 59"
definition ID_CLOSE_REASON :: byte where "ID_CLOSE_REASON = 115"
definition ID_SYSTEM_REQUEST :: byte where "ID_SYSTEM_REQUEST = 134"
definition ID_ENCRYPTED :: byte where "ID_ENCRYPTED = 135"
definition ID_REQUEST_RESPONSE_MSG :: byte where "ID_REQUEST_RESPONSE_MSG = 137"
definition ID_REQUEST_RESPONSE_COMPLETE :: byte where "ID_REQUEST_RESPONSE_COMPLETE = 138"
definition ID_REQUEST_RESPONSE_ERROR :: byte where "ID_REQUEST_RESPONSE_ERROR = 139"
definition ID_CONNECTION_RESULT :: byte where "ID_CONNECTION_RESULT = 140"
definition ID_SCENES :: byte where "ID_SCENES = 141"

lemmas message_ids = ID_ADVERTISE_PEERID_def ID_P2P_RELAY_def ID_P2P_TUNNEL_def ID_CLOSE_REASON_def
  ID_SYSTEM_REQUEST_def ID_ENCRYPTED_def ID_REQUEST_RESPONSE_MSG_def
  ID_REQUEST_RESPONSE_COMPLETE_def ID_REQUEST_RESPONSE_ERROR_def ID_CONNECTION_RESULT_def ID_SCENES_def

text \<open>System request ids (\<^verbatim>\<open>SystemRequestIDTypes.h\<close>).\<close>

definition ID_SET_METADATA :: byte where "ID_SET_METADATA = 0"
definition ID_SCENE_READY :: byte where "ID_SCENE_READY = 1"
definition ID_PING :: byte where "ID_PING = 2"
definition ID_P2P_CREATE_SESSION :: byte where "ID_P2P_CREATE_SESSION = 3"
definition ID_P2P_CLOSE_SESSION :: byte where "ID_P2P_CLOSE_SESSION = 4"
definition ID_P2P_GATHER_IP :: byte where "ID_P2P_GATHER_IP = 5"
definition ID_P2P_CLOSE_TUNNEL :: byte where "ID_P2P_CLOSE_TUNNEL = 10"
definition ID_P2P_OPEN_TUNNEL :: byte where "ID_P2P_OPEN_TUNNEL = 11"
definition ID_JOIN_SESSION :: byte where "ID_JOIN_SESSION = 14"
definition ID_CONNECT_TO_SCENE :: byte where "ID_CONNECT_TO_SCENE = 134"
definition ID_DISCONNECT_FROM_SCENE :: byte where "ID_DISCONNECT_FROM_SCENE = 135"
definition ID_GET_SCENE_INFOS :: byte where "ID_GET_SCENE_INFOS = 136"
definition ID_CONNECTED_TO_SCENE :: byte where "ID_CONNECTED_TO_SCENE = 137"

section \<open>Registration\<close>

text \<open>
  \<^verbatim>\<open>HandlerFunction\<close> and \<^verbatim>\<open>ProcessorFunction\<close>: the answer says whether the packet was
  processed, \<^const>\<open>Inl\<close> is an exception leaving the handler.
\<close>

type_synonym 'w handler = "packet \<Rightarrow> 'w \<Rightarrow> bool res \<times> packet \<times> 'w"
type_synonym 'w processor = "byte \<Rightarrow> packet \<Rightarrow> 'w \<Rightarrow> bool res \<times> packet \<times> 'w"

record 'w dispatcher =
  d_handlers :: "byte \<rightharpoonup> 'w handler"
  d_defaults :: "'w processor list"
  d_maxLayerCount :: nat

definition DefaultPacketDispatcher :: "'w dispatcher" where
  "DefaultPacketDispatcher = \<lparr>d_handlers = Map.empty, d_defaults = [], d_maxLayerCount = 40\<rparr>"

text \<open>
  \<^verbatim>\<open>PacketProcessorConfig::addProcessor\<close>. The message of the exception carries the id in
  decimal, produced by \<^verbatim>\<open>std::to_string\<close>; the model keeps its fixed part.
\<close>

definition addProcessor :: "byte \<Rightarrow> 'w handler \<Rightarrow> 'w dispatcher \<Rightarrow> ('w dispatcher) res" where
  "addProcessor msgId h d =
     (if d_handlers d msgId \<noteq> None
      then Inl (InvalidArgument ''An handler is already registered for id '')
      else Inr (d\<lparr>d_handlers := (d_handlers d)(msgId \<mapsto> h)\<rparr>))"

definition addCatchAllProcessor :: "'w processor \<Rightarrow> 'w dispatcher \<Rightarrow> 'w dispatcher" where
  "addCatchAllProcessor f d = d\<lparr>d_defaults := d_defaults d @ [f]\<rparr>"

section \<open>Dispatch\<close>

text \<open>
  The loop of \<^verbatim>\<open>dispatchImpl\<close>: the first argument is \<^verbatim>\<open>_maxLayerCount - count\<close>. The message
  id read last is part of the result because the catch-all processors get it. A read on an
  exhausted stream leaves the id of the previous round in place.
\<close>

fun dispatch_layers ::
  "nat \<Rightarrow> (byte \<rightharpoonup> 'w handler) \<Rightarrow> byte \<Rightarrow> packet \<Rightarrow> 'w \<Rightarrow> (bool \<times> byte) res \<times> packet \<times> 'w" where
  "dispatch_layers 0 H msgType p w = (Inr (False, msgType), p, w)"
| "dispatch_layers (Suc n) H msgType p w =
     (case p_read msgType p of (msgType', p1) \<Rightarrow>
        (case H msgType' of
           None \<Rightarrow> (Inr (False, msgType'), p1, w)
         | Some h \<Rightarrow>
             (case h p1 w of (r, p2, w2) \<Rightarrow>
                (case r of
                   Inl e \<Rightarrow> (Inl e, p2, w2)
                 | Inr processed \<Rightarrow>
                     if processed then (Inr (True, msgType'), p2, w2)
                     else dispatch_layers n H msgType' p2 w2))))"

fun dispatch_defaults ::
  "'w processor list \<Rightarrow> byte \<Rightarrow> packet \<Rightarrow> 'w \<Rightarrow> bool res \<times> packet \<times> 'w" where
  "dispatch_defaults [] msgType p w = (Inr False, p, w)"
| "dispatch_defaults (f # fs) msgType p w =
     (case f msgType p w of (r, p1, w1) \<Rightarrow>
        (case r of
           Inl e \<Rightarrow> (Inl e, p1, w1)
         | Inr processed \<Rightarrow>
             if processed then (Inr True, p1, w1) else dispatch_defaults fs msgType p1 w1))"

text \<open>
  \<^verbatim>\<open>dispatchImpl\<close>: the answer says whether the packet was processed; the code logs a
  warning when it was not.
\<close>

definition dispatchImpl :: "'w dispatcher \<Rightarrow> packet \<Rightarrow> 'w \<Rightarrow> bool res \<times> packet \<times> 'w" where
  "dispatchImpl d p w =
     (case dispatch_layers (d_maxLayerCount d) (d_handlers d) 0 p w of (r, p1, w1) \<Rightarrow>
        (case r of
           Inl e \<Rightarrow> (Inl e, p1, w1)
         | Inr (processed, msgType) \<Rightarrow>
             (case dispatch_defaults (d_defaults d) msgType p1 w1 of (r', p2, w2) \<Rightarrow>
                (case r' of
                   Inl e \<Rightarrow> (Inl e, p2, w2)
                 | Inr b \<Rightarrow> (Inr (processed \<or> b), p2, w2)))))"

text \<open>
  \<^verbatim>\<open>dispatchPacket\<close> chains the packets: each runs after the one before, and an exception ends
  the packet it belongs to, not the chain. The list is the order of arrival.
\<close>

fun dispatchPackets :: "'w dispatcher \<Rightarrow> packet list \<Rightarrow> 'w \<Rightarrow> 'w" where
  "dispatchPackets d [] w = w"
| "dispatchPackets d (p # ps) w = dispatchPackets d ps (snd (snd (dispatchImpl d p w)))"

section \<open>Which handlers run\<close>

text \<open>A measure of work that every handler raises by at most one.\<close>

definition costs_one :: "('w \<Rightarrow> nat) \<Rightarrow> (byte \<rightharpoonup> 'w handler) \<Rightarrow> bool" where
  "costs_one f H \<longleftrightarrow> (\<forall>i h p w. H i = Some h \<longrightarrow> f (snd (snd (h p w))) \<le> Suc (f w))"

lemma dispatch_layers_cost:
  assumes "costs_one f H"
  shows "f (snd (snd (dispatch_layers n H mt p w))) \<le> n + f w"
  using assms
proof (induction n H mt p w rule: dispatch_layers.induct)
  case (1 H mt p w)
  then show ?case by simp
next
  case (2 n H mt p w)
  obtain mt' p1 where r: "p_read mt p = (mt', p1)" by fastforce
  show ?case
  proof (cases "H mt'")
    case None
    then show ?thesis by (simp add: r)
  next
    case (Some h)
    obtain b p2 w2 where h: "h p1 w = (b, p2, w2)" by (cases "h p1 w") auto
    have one: "f w2 \<le> Suc (f w)"
      using "2.prems" [unfolded costs_one_def, rule_format, OF Some, of p1 w] by (simp add: h)
    show ?thesis
    proof (cases b)
      case (Inl e)
      then show ?thesis using one by (simp add: r Some h)
    next
      case (Inr pr)
      then show ?thesis using one "2.IH" [OF r [symmetric] Some h [symmetric] refl Inr] "2.prems"
        by (cases pr) (simp_all add: r Some h)
    qed
  qed
qed

lemma dvd_len8: "8 dvd LENGTH(8)"
  by simp

lemma first_layer:
  assumes "p_ok p" "p_rest p = word_bytes mt @ rest"
  obtains p1 where "p_read (0 :: byte) p = (mt, p1)" "p_ok p1" "p_rest p1 = rest"
    "p_conn p1 = p_conn p" "p_meta p1 = p_meta p"
  using p_read_word [OF assms dvd_len8, of 0] by metis

lemma dispatch_layers_processed:
  assumes "p_read mt0 p = (mt, p1)" "H mt = Some h" "h p1 w = (Inr True, p2, w2)" "0 < n"
  shows "dispatch_layers n H mt0 p w = (Inr (True, mt), p2, w2)"
  using assms by (cases n) simp_all

lemma dispatch_layers_failed:
  assumes "p_read mt0 p = (mt, p1)" "H mt = Some h" "h p1 w = (Inl e, p2, w2)" "0 < n"
  shows "dispatch_layers n H mt0 p w = (Inl e, p2, w2)"
  using assms by (cases n) simp_all

lemma dispatchImpl_processed:
  assumes "p_read 0 p = (mt, p1)" "d_handlers d mt = Some h" "h p1 w = (Inr True, p2, w2)"
    and "0 < d_maxLayerCount d"
  shows "dispatchImpl d p w =
    (case dispatch_defaults (d_defaults d) mt p2 w2 of
       (Inl e, p3, w3) \<Rightarrow> (Inl e, p3, w3) | (Inr b, p3, w3) \<Rightarrow> (Inr True, p3, w3))"
  by (simp add: dispatchImpl_def dispatch_layers_processed [where H = "d_handlers d", OF assms] split: prod.splits sum.splits)

lemma dispatchPackets_append:
  "dispatchPackets d (ps @ qs) w = dispatchPackets d qs (dispatchPackets d ps w)"
  by (induction ps arbitrary: w) simp_all

lemma dispatchPackets_invariant:
  assumes "\<And>p w. I w \<Longrightarrow> I (snd (snd (dispatchImpl d p w)))" "I w"
  shows "I (dispatchPackets d ps w)"
  using assms(2) by (induction ps arbitrary: w) (simp_all add: assms(1))

section \<open>Properties\<close>

text \<open>
  One packet runs at most \<^verbatim>\<open>_maxLayerCount\<close> message handlers, whatever they
  answer: nested messages cannot keep the dispatcher in its loop.
\<close>

theorem layers_bounded:
  assumes "costs_one f (d_handlers d)"
    and "dispatch_layers (d_maxLayerCount d) (d_handlers d) 0 p w = (r, p', w')"
  shows "f w' \<le> d_maxLayerCount d + f w"
  using dispatch_layers_cost [OF assms(1), of "d_maxLayerCount d" 0 p w] assms(2) by simp

text \<open>
  A message id has at most one handler: a second registration is refused with
  an exception, and a successful one changes the handler of no other id.
\<close>

theorem processor_registered_once:
  "case addProcessor i h d of
     Inl e \<Rightarrow> d_handlers d i \<noteq> None
   | Inr d' \<Rightarrow> d_handlers d i = None \<and> d_handlers d' = (d_handlers d)(i \<mapsto> h) \<and>
       d_defaults d' = d_defaults d \<and> isl (addProcessor i h' d')"
  by (simp add: addProcessor_def)

text \<open>
  A packet that its handler has processed is still offered to the catch-all
  processors, with the id of its message: the code does not leave \<^verbatim>\<open>dispatchImpl\<close> after the
  loop.
\<close>

theorem processed_packet_reaches_defaults:
  assumes "p_ok p" "p_rest p = word_bytes mt @ rest" "d_handlers d mt = Some h"
    and "d_maxLayerCount d > 0"
    and "h = (\<lambda>q u. (Inr True, q, g u))"
    and "d_defaults d = [f]" "f = (\<lambda>i q u. (Inr b, q, g' i u))"
  shows "snd (snd (dispatchImpl d p w)) = g' mt (g w)"
proof -
  obtain p1 where p1: "p_read 0 p = (mt, p1)"
    using first_layer [OF assms(1,2)] by metis
  have "h p1 w = (Inr True, p1, g w)"
    unfolding assms(5) ..
  from dispatchImpl_processed [OF p1 assms(3) this assms(4)] show ?thesis
    unfolding assms(6) assms(7) by (cases b) simp_all
qed

section \<open>Witnesses\<close>

definition demo_world_handler :: "nat handler" where
  "demo_world_handler p n = (Inr False, p, Suc n)"

theorem layers_bounded_witness:
  "snd (snd (dispatch_layers 40 [0 \<mapsto> demo_world_handler] 0 (make_packet 1 [0, 0, 0] Map.empty) 0)) \<le> 40"
proof -
  let ?d = "(DefaultPacketDispatcher :: nat dispatcher)\<lparr>d_handlers := [0 \<mapsto> demo_world_handler]\<rparr>"
  have c: "costs_one id (d_handlers ?d)"
    by (auto simp: costs_one_def demo_world_handler_def split: if_splits)
  obtain r p' w' where "dispatch_layers (d_maxLayerCount ?d) (d_handlers ?d) 0
      (make_packet 1 [0, 0, 0] Map.empty) 0 = (r, p', w')"
    by (cases "dispatch_layers (d_maxLayerCount ?d) (d_handlers ?d) 0 (make_packet 1 [0, 0, 0] Map.empty) 0") auto
  from layers_bounded [OF c this] this show ?thesis by (simp add: DefaultPacketDispatcher_def)
qed

theorem processed_packet_reaches_defaults_witness:
  "snd (snd (dispatchImpl
     (DefaultPacketDispatcher\<lparr>d_handlers := [5 \<mapsto> (\<lambda>q u. (Inr True, q, Suc u))],
        d_defaults := [\<lambda>i q u. (Inr False, q, u + 10)]\<rparr>)
     (make_packet 1 [5, 9] Map.empty) (0 :: nat))) = 11"
proof -
  have "p_ok (make_packet 1 [5, 9] Map.empty)"
    "p_rest (make_packet 1 [5, 9] Map.empty) = word_bytes (5 :: byte) @ [9]"
    using make_packet_ok [of "[5, 9]" 1 Map.empty] by (simp_all add: word_bytes_def)
  from processed_packet_reaches_defaults [where mt = 5 and w = 0 and g = Suc and g' = "\<lambda>i u. u + 10" and b = False
      and d = "DefaultPacketDispatcher\<lparr>d_handlers := [5 \<mapsto> (\<lambda>q u. (Inr True, q, Suc u))],
        d_defaults := [\<lambda>i q u. (Inr False, q, u + 10)]\<rparr>", OF this _ _ refl _ refl]
  show ?thesis by (simp add: DefaultPacketDispatcher_def)
qed

end
