(* ===== verification/Network.thy ===== *)
theory Network
  imports PacketDispatch
begin

text \<open>
  One network connection and the encryption of what it sends:
  \<^verbatim>\<open>ConnectionState.cpp\<close>, \<^verbatim>\<open>KeyStore.h\<close>, \<^verbatim>\<open>AES_windows.cpp\<close>,
  \<^verbatim>\<open>AESEncryptStream.cpp\<close>, \<^verbatim>\<open>AESDecryptStream.cpp\<close>, \<^verbatim>\<open>AESPacketTransform.cpp\<close>
  and \<^verbatim>\<open>RakNetConnection.cpp\<close>. The cipher of the operating system and RakNet's \<^verbatim>\<open>Send\<close> are
  arguments of the definitions. The lemmas show that an encrypted message decrypts to what was
  written, what happens to a key that is first used for decryption, and how the state of a
  connection moves.
\<close>

section \<open>Connection states\<close>

datatype conn_kind = Disconnected | Connecting | Connected | Disconnecting

record ConnectionState =
  cs_state :: conn_kind
  cs_reason :: string

definition conn_state :: "conn_kind \<Rightarrow> ConnectionState" where
  "conn_state k = \<lparr>cs_state = k, cs_reason = ''''\<rparr>"

definition conn_state_because :: "conn_kind \<Rightarrow> string \<Rightarrow> ConnectionState" where
  "conn_state_because k r = \<lparr>cs_state = k, cs_reason = r\<rparr>"

text \<open>\<^verbatim>\<open>operator==\<close> ignores the reason.\<close>

definition cs_eq :: "ConnectionState \<Rightarrow> ConnectionState \<Rightarrow> bool" where
  "cs_eq a b \<longleftrightarrow> cs_state a = cs_state b"

text \<open>\<^verbatim>\<open>operator=(State)\<close> keeps the old reason.\<close>

definition cs_assign :: "conn_kind \<Rightarrow> ConnectionState \<Rightarrow> ConnectionState" where
  "cs_assign k c = c\<lparr>cs_state := k\<rparr>"

fun conn_int :: "conn_kind \<Rightarrow> int" where
  "conn_int Disconnected = 0"
| "conn_int Connecting = 1"
| "conn_int Connected = 2"
| "conn_int Disconnecting = 3"

section \<open>Keys and the AES cipher\<close>

definition getKey :: "u64 \<Rightarrow> (u64 \<rightharpoonup> byte list) \<Rightarrow> byte list res" where
  "getKey keyId keys =
     (case keys keyId of None \<Rightarrow> Inl (RuntimeError ''Key not found'') | Some k \<Rightarrow> Inr k)"

definition deleteKey :: "u64 \<Rightarrow> (u64 \<rightharpoonup> byte list) \<Rightarrow> (u64 \<rightharpoonup> byte list)" where
  "deleteKey keyId keys = keys(keyId := None)"

text \<open>
  The \<^verbatim>\<open>BCrypt\<close> functions the code calls: opening and configuring the provider, making a key
  handle from 32 bytes, GCM encryption (ciphertext and tag) and decryption. Handle 0 is the
  null handle that \<^verbatim>\<open>_keyHandles[keyId]\<close> inserts for a missing key.
\<close>

record bcrypt =
  bc_open :: "unit res"
  bc_generate :: "byte list \<Rightarrow> nat res"
  bc_encrypt :: "nat \<Rightarrow> byte list \<Rightarrow> byte list \<Rightarrow> (byte list \<times> byte list) res"
  bc_decrypt :: "nat \<Rightarrow> byte list \<Rightarrow> byte list \<Rightarrow> byte list \<Rightarrow> byte list res"

record aeswin =
  aw_keys :: "u64 \<rightharpoonup> byte list"
  aw_handles :: "u64 \<rightharpoonup> nat"

definition ivSize :: nat where
  "ivSize = 96 div 8"

definition tagSize :: nat where
  "tagSize = 12"

text \<open>
  \<^verbatim>\<open>initAES\<close>: the key is looked up first; \<^verbatim>\<open>&_keyHandles[keyId]\<close> puts a null handle in the
  map before the key is generated, and that entry stays when the generation fails.
\<close>

definition initAES :: "bcrypt \<Rightarrow> u64 \<Rightarrow> aeswin \<Rightarrow> unit res \<times> aeswin" where
  "initAES bc keyId a =
     (if aw_handles a keyId \<noteq> None then (Inr (), a)
      else case getKey keyId (aw_keys a) of
        Inl e \<Rightarrow> (Inl e, a)
      | Inr key \<Rightarrow>
          (case bc_open bc of
             Inl e \<Rightarrow> (Inl e, a)
           | Inr _ \<Rightarrow>
               (case bc_generate bc (take 32 key) of
                  Inl e \<Rightarrow> (Inl e, a\<lparr>aw_handles := (aw_handles a)(keyId \<mapsto> 0)\<rparr>)
                | Inr h \<Rightarrow> (Inr (), a\<lparr>aw_handles := (aw_handles a)(keyId \<mapsto> h)\<rparr>))))"

definition key_handle :: "u64 \<Rightarrow> aeswin \<Rightarrow> nat" where
  "key_handle keyId a = (case aw_handles a keyId of None \<Rightarrow> 0 | Some h \<Rightarrow> h)"

definition aes_encrypt ::
  "bcrypt \<Rightarrow> byte list \<Rightarrow> byte list \<Rightarrow> ostr \<Rightarrow> u64 \<Rightarrow> aeswin \<Rightarrow> ostr res \<times> aeswin" where
  "aes_encrypt bc data iv out keyId a =
     (case initAES bc keyId a of (r, a1) \<Rightarrow>
        (case r of
           Inl e \<Rightarrow> (Inl e, a1)
         | Inr _ \<Rightarrow>
             (case bc_encrypt bc (key_handle keyId a1) iv data of
                Inl e \<Rightarrow> (Inl e, a1)
              | Inr (cipher, tag) \<Rightarrow> (Inr (owrite tag (owrite cipher (owrite iv out))), a1))))"

text \<open>
  \<^verbatim>\<open>decrypt\<close> does not call \<^verbatim>\<open>initAES\<close>: it indexes \<^verbatim>\<open>_keyHandles\<close>, which inserts a null handle
  for a key that was not used before. The data holds at least the tag: the code does not check it, and
  for less its unsigned difference wraps to a size of nearly four gigabytes, where the model has none.
\<close>

definition aes_decrypt ::
  "bcrypt \<Rightarrow> byte list \<Rightarrow> byte list \<Rightarrow> ostr \<Rightarrow> u64 \<Rightarrow> aeswin \<Rightarrow> ostr res \<times> aeswin" where
  "aes_decrypt bc data iv out keyId a =
     (let h = key_handle keyId a;
          a1 = a\<lparr>aw_handles := (aw_handles a)(keyId \<mapsto> h)\<rparr> in
      case bc_decrypt bc h iv (take (length data - tagSize) data) (drop (length data - tagSize) data) of
        Inl e \<Rightarrow> (Inl e, a1)
      | Inr plain \<Rightarrow> (Inr (owrite plain out), a1))"

section \<open>The packet transform\<close>

text \<open>
  A \<^verbatim>\<open>StreamWriter\<close> may throw; \<^const>\<open>None\<close> is the empty \<^verbatim>\<open>std::function\<close>. The data of a
  stream is what \<^verbatim>\<open>startPtr()\<close> and \<^verbatim>\<open>currentPosition()\<close> delimit, whatever the stream's state.
\<close>

type_synonym writer = "(ostr \<Rightarrow> ostr res) option"

definition run_writer :: "writer \<Rightarrow> ostr \<Rightarrow> ostr res" where
  "run_writer w s = (case w of None \<Rightarrow> Inr s | Some f \<Rightarrow> f s)"

definition out_data :: "ostr \<Rightarrow> byte list" where
  "out_data s = load (obuf s) (pbase (obuf s)) (ocurrentPosition s)"

definition encrypt_stream ::
  "bcrypt \<Rightarrow> byte list \<Rightarrow> u64 \<Rightarrow> ostr \<Rightarrow> ostr \<Rightarrow> aeswin \<Rightarrow> ostr res \<times> aeswin" where
  "encrypt_stream bc rnd keyId self out a =
     (if ocurrentPosition self > 0 then aes_encrypt bc (out_data self) (take ivSize rnd) out keyId a
      else (Inr out, a))"

definition decrypt_stream ::
  "bcrypt \<Rightarrow> byte list \<Rightarrow> u64 \<Rightarrow> ostr \<Rightarrow> aeswin \<Rightarrow> ostr res \<times> aeswin" where
  "decrypt_stream bc data keyId out a =
     (if data \<noteq> [] then
        (let ibs = ibytestream_of (Some data);
             (iv, ibs1) = iread (int ivSize) ibs in
         aes_decrypt bc (take (nat (iavailableSize ibs1)) (drop ivSize data)) iv out keyId a)
      else (Inr out, a))"

text \<open>\<^verbatim>\<open>onSend\<close>: the writer that replaces the caller's when encryption is on.\<close>

definition onSend ::
  "bcrypt \<Rightarrow> byte list \<Rightarrow> bool \<Rightarrow> bool \<Rightarrow> u64 \<Rightarrow> writer \<Rightarrow> ostr \<Rightarrow> aeswin \<Rightarrow> ostr res \<times> aeswin" where
  "onSend bc rnd enabled dontEncrypt peerId w s a =
     (if enabled \<and> \<not> dontEncrypt then
        (let s1 = serialize ID_ENCRYPTED s in
         case run_writer w obytestream0 of
           Inl e \<Rightarrow> (Inl e, a)
         | Inr inner \<Rightarrow> encrypt_stream bc rnd peerId inner s1 a)
      else (run_writer w s, a))"

text \<open>
  \<^verbatim>\<open>onReceive\<close>: the data starts one byte after the start of the packet's buffer, whatever the
  read position is; the decrypted bytes become the packet's stream.
\<close>

definition onReceive :: "bcrypt \<Rightarrow> u64 \<Rightarrow> istr \<Rightarrow> aeswin \<Rightarrow> istr res \<times> aeswin" where
  "onReceive bc peerId s a =
     (case sgetc (ibuf s) of (c, b) \<Rightarrow>
        if c = None then (Inr (s\<lparr>ibuf := b\<rparr>), a)
        else
          (let data = load b (padd (eback b) 1) (in_avail b) in
           case decrypt_stream bc data peerId obytestream0 a of (r, a1) \<Rightarrow>
             (case r of
                Inl e \<Rightarrow> (Inl e, a1)
              | Inr os \<Rightarrow> (Inr (s\<lparr>ibuf := setbuf (Some (out_data os)) b\<rparr>), a1))))"

section \<open>Encrypted messages\<close>

lemma owrite_data:
  assumes "ostr_wf s" "ogood s" "length (out_data s) + length xs < 1073741824"
  shows "out_data (owrite xs s) = out_data s @ xs \<and> ostr_wf (owrite xs s) \<and> ogood (owrite xs s)"
  using owrite_append [OF assms(1,2), of xs] assms(2,3) by (simp add: obytes_def out_data_def)

lemma out_data_ctor [simp]: "out_data obytestream0 = []"
  using ostr_wf_ctor by (simp add: obytes_def out_data_def)

lemma ocurrentPosition_data:
  assumes "ostr_wf s" "ogood s"
  shows "ocurrentPosition s = int (length (out_data s))"
proof -
  have "out_data s = written (obuf s)"
    using obytes_written [OF assms(2,1)] assms(2) by (simp add: obytes_def out_data_def)
  moreover have "ocurrentPosition s = int (length (written (obuf s)))"
    using assms(1)
    by (auto simp: ostr_wf_def appendable_def bsb_empty_def written_def load_def ocurrentPosition_def
        currentWritePosition_def length_written_at bsb_at_def)
  ultimately show ?thesis by simp
qed

lemma initAES_ready: "aw_handles a k \<noteq> None \<Longrightarrow> initAES bc k a = (Inr (), a)"
  by (simp add: initAES_def)

lemma aes_encrypt_data:
  assumes "aw_handles a k = Some h" "bc_encrypt bc h iv data = Inr (cipher, tag)"
    and "ostr_wf out" "ogood out"
    and "length (out_data out) + length iv + length cipher + length tag < 1073741824"
  obtains out' where "aes_encrypt bc data iv out k a = (Inr out', a)"
    "out_data out' = out_data out @ iv @ cipher @ tag" "ostr_wf out'" "ogood out'"
proof -
  note w1 = owrite_data [OF assms(3,4), of iv]
  note w2 = owrite_data [of "owrite iv out" cipher]
  note w3 = owrite_data [of "owrite cipher (owrite iv out)" tag]
  show ?thesis
    by (rule that [of "owrite tag (owrite cipher (owrite iv out))"])
      (use w1 w2 w3 assms in \<open>simp_all add: aes_encrypt_def initAES_ready key_handle_def\<close>)
qed

text \<open>Reading the message id leaves the packet's buffer one byte in.\<close>

lemma after_id:
  assumes "length data < 2147483647"
  obtains b where "deserialize (0 :: byte) (ibytestream_of (Some (i # data))) =
      (i, \<lparr>ibuf = b, i_eof = False, i_fail = False, i_bad = False\<rparr>)"
    "bsb_at b (i # data) 1 (int (length data) + 1) 0"
proof -
  let ?b = "bytestreambuf_of (Some (i # data)) False"
  have nf: "\<not> bs_fault (bsb_init 0 raw_bsb)"
    by (simp add: bsb_init_def raw_bsb_def setg_def setp_def)
  have "bsb_at (setbuf (Some (i # data)) (bsb_init 0 raw_bsb)) (i # data) 0 (int (length data) + 1) 0"
    using setbuf_at [OF _ nf, of "i # data"] assms by (simp add: algebra_simps)
  then have at0: "bsb_at ?b (i # data) 0 (int (length data) + 1) 0"
    by (simp add: bytestreambuf_of_def Let_def bsb_at_def has_dynamic) (simp add: dynamic_def)
  note x = xsgetn_at [OF at0, of 1]
  have "xsgetn 1 ?b = ([i], 1, setg (Some 0) (Some 1) (Some (int (length data) + 1)) ?b)"
    using x(1) by simp
  then have "deserialize (0 :: byte) (ibytestream_of (Some (i # data))) =
      (i, \<lparr>ibuf = setg (Some 0) (Some 1) (Some (int (length data) + 1)) ?b,
           i_eof = False, i_fail = False, i_bad = False\<rparr>)"
    by (simp add: deserialize_def iread_def ibytestream_of_def igood_def overwrite_def)
  with x(2) show ?thesis by (intro that) simp_all
qed

lemma onReceive_at:
  assumes "bsb_at b (i # data) 1 (int (length data) + 1) 0" "data \<noteq> []"
    and "decrypt_stream bc data k obytestream0 a = (Inr os, a1)"
  shows "onReceive bc k \<lparr>ibuf = b, i_eof = x, i_fail = y, i_bad = z\<rparr> a =
     (Inr \<lparr>ibuf = setbuf (Some (out_data os)) b, i_eof = x, i_fail = y, i_bad = z\<rparr>, a1)"
proof -
  have s: "sgetc b = (Some (hd data), b)"
    using assms(1,2) by (cases data) (auto simp: sgetc_def bsb_at_def load_def touch_def in_block_def)
  have l: "load b (padd (eback b) 1) (in_avail b) = data"
    using assms(1) in_avail_wf [OF bsb_wf_at [OF assms(1)]] unread_at [OF assms(1)]
    by (simp add: load_def bsb_at_def)
  show ?thesis
    by (simp add: onReceive_def s l assms(3))
qed

lemma decrypt_stream_data:
  assumes "aw_handles a k = Some h" "length iv = ivSize" "length tag = tagSize"
    and "bc_decrypt bc h iv cipher tag = Inr plain"
    and "length cipher < 1000000000" "length plain < 1000000000"
  obtains os where "decrypt_stream bc (iv @ cipher @ tag) k obytestream0 a =
      (Inr os, a\<lparr>aw_handles := (aw_handles a)(k \<mapsto> h)\<rparr>)"
    "out_data os = plain"
proof -
  let ?d = "iv @ cipher @ tag"
  have len: "length ?d < 2147483648"
    using assms(2,3,5) by (simp add: ivSize_def tagSize_def)
  obtain xs s1 where r: "iread (int ivSize) (ibytestream_of (Some ?d)) = (xs, s1)" by fastforce
  note w = iread_wf [OF ibytestream_of_wf(1,2) [OF len] _ r, unfolded ibytestream_of_wf(3) [OF len]]
  have xs: "xs = iv" and rest: "remaining s1 = cipher @ tag" "istr_wf s1"
    using w(1,2,3) assms(2) by simp_all
  have av: "iavailableSize s1 = int (length (cipher @ tag))"
    using rest by (simp add: iavailableSize_def istr_wf_def in_avail_wf remaining_def)
  have ne: "tag \<noteq> []"
    using assms(3) by (auto simp: tagSize_def)
  note o = owrite_data [OF ostr_wf_ctor(1,2), of plain]
  show ?thesis
    by (rule that [of "owrite plain obytestream0"])
      (use o assms ne in \<open>simp_all add: decrypt_stream_def r xs av aes_decrypt_def key_handle_def Let_def\<close>)
qed

section \<open>The connection\<close>

record transmission =
  t_data :: "byte list"
  t_priority :: nat
  t_reliability :: nat
  t_channel :: int

text \<open>
  \<^verbatim>\<open>c_peer\<close> says whether the weak pointer to RakNet's peer still locks, \<^verbatim>\<open>c_wire\<close> is what
  RakNet has accepted, \<^verbatim>\<open>c_published\<close> what the subscribers of the state observable have
  received, \<^verbatim>\<open>c_completed\<close> that the observable has completed, and \<^verbatim>\<open>c_onClose\<close> the
  invocations of the \<^verbatim>\<open>onClose\<close> event.
\<close>

record rnconn =
  c_id :: u64
  c_key :: string
  c_guid :: u64
  c_account :: string
  c_application :: string
  c_sessionId :: string
  c_metadata :: "string \<rightharpoonup> string"
  c_state :: ConnectionState
  c_closeReason :: string
  c_peer :: bool
  c_wire :: "transmission list"
  c_published :: "ConnectionState list"
  c_completed :: bool
  c_onClose :: "string list"

definition RakNetConnection :: "u64 \<Rightarrow> u64 \<Rightarrow> string \<Rightarrow> bool \<Rightarrow> rnconn" where
  "RakNetConnection guid cid key peer =
     \<lparr>c_id = cid, c_key = key, c_guid = guid, c_account = '''', c_application = '''',
      c_sessionId = '''', c_metadata = Map.empty, c_state = conn_state Disconnected,
      c_closeReason = '''', c_peer = peer, c_wire = [], c_published = [], c_completed = False,
      c_onClose = []\<rparr>"

definition conn_metadata :: "string \<Rightarrow> rnconn \<Rightarrow> string" where
  "conn_metadata k c = (case c_metadata c k of None \<Rightarrow> '''' | Some v \<Rightarrow> v)"

definition setMetadata :: "string \<Rightarrow> string \<Rightarrow> rnconn \<Rightarrow> rnconn" where
  "setMetadata k v c = c\<lparr>c_metadata := (c_metadata c)(k \<mapsto> v)\<rparr>"

definition setApplication :: "string \<Rightarrow> string \<Rightarrow> rnconn \<Rightarrow> rnconn" where
  "setApplication account application c =
     (if length account > 0 then c\<lparr>c_account := account, c_application := application\<rparr> else c)"

text \<open>
  \<^verbatim>\<open>setConnectionState\<close> publishes a change; after \<^verbatim>\<open>on_completed\<close> the subject drops what it
  is given. The constructor's own subscriber stores the value it receives, which is the value
  already stored.
\<close>

definition setConnectionState :: "ConnectionState \<Rightarrow> rnconn \<Rightarrow> rnconn" where
  "setConnectionState s c =
     (if cs_eq (c_state c) s then c
      else
        (let c1 = c\<lparr>c_state := s\<rparr>;
             c2 = (if c_completed c1 then c1 else c1\<lparr>c_published := c_published c1 @ [s]\<rparr>)
         in if cs_state s = Disconnected then c2\<lparr>c_completed := True\<rparr> else c2))"

definition fire_onClose :: "string \<Rightarrow> rnconn \<Rightarrow> rnconn" where
  "fire_onClose reason c = c\<lparr>c_onClose := c_onClose c @ [reason]\<rparr>"

definition close_connection :: "string \<Rightarrow> rnconn \<Rightarrow> rnconn" where
  "close_connection reason c =
     (if cs_state (c_state c) = Connected \<or> cs_state (c_state c) = Connecting then
        setConnectionState (conn_state_because Disconnected reason)
          (fire_onClose reason
            (setConnectionState (conn_state_because Disconnecting reason) c))
      else c)"

text \<open>\<^verbatim>\<open>channelUid % 16\<close> of a signed integer truncates towards zero.\<close>

definition orderingChannel :: "int \<Rightarrow> int" where
  "orderingChannel uid = (if uid \<ge> 0 then uid mod 16 else - ((- uid) mod 16))"

text \<open>
  \<^verbatim>\<open>send\<close>: \<^term>\<open>rak\<close> is the answer of RakNet's \<^verbatim>\<open>Send\<close> (zero is failure), \<^term>\<open>rnd\<close>
  the random bytes for the nonce, \<^term>\<open>enabled\<close> the configuration's \<^verbatim>\<open>encryptionEnabled\<close>.
\<close>

definition conn_send ::
  "(transmission \<Rightarrow> nat) \<Rightarrow> bcrypt \<Rightarrow> byte list \<Rightarrow> bool \<Rightarrow> writer \<Rightarrow> int \<Rightarrow> nat \<Rightarrow> nat \<Rightarrow> bool \<Rightarrow>
   rnconn \<Rightarrow> aeswin \<Rightarrow> unit res \<times> rnconn \<times> aeswin" where
  "conn_send rak bc rnd enabled w channelUid priority reliability dontEncrypt c a =
     (case (if conn_metadata ''type'' c \<noteq> ''p2p''
            then onSend bc rnd enabled dontEncrypt (c_id c) w obytestream0 a
            else (run_writer w obytestream0, a)) of (r, a1) \<Rightarrow>
        (case r of
           Inl e \<Rightarrow> (Inl e, c, a1)
         | Inr stream \<Rightarrow>
             if c_peer c then
               (let t = \<lparr>t_data = out_data stream, t_priority = priority, t_reliability = reliability,
                         t_channel = orderingChannel channelUid\<rparr> in
                if rak t = 0 then (Inl (RuntimeError ''Raknet failed to send the message.''), c, a1)
                else (Inr (), c\<lparr>c_wire := c_wire c @ [t]\<rparr>, a1))
             else (Inl (RuntimeError ''RakNet::RakPeerInterface has been destroyed.''), c, a1)))"

text \<open>
  \<^verbatim>\<open>setTimeout\<close> up to the metadata update: \<^const>\<open>Inr\<close> \<^const>\<open>True\<close> when it goes on to
  \<^verbatim>\<open>updatePeerMetadata\<close>. \<^verbatim>\<open>RakNet::TimeMS\<close> is a 32-bit unsigned integer; \<^term>\<open>shw\<close> is
  \<^verbatim>\<open>std::to_string\<close>.
\<close>

definition conn_setTimeout :: "(int \<Rightarrow> string) \<Rightarrow> int \<Rightarrow> rnconn \<Rightarrow> bool res \<times> rnconn" where
  "conn_setTimeout shw totalMs c =
     (if totalMs > 4294967295 \<or> totalMs < 0
      then (Inl (OutOfRange ''timeout value doesn't fit in RakNet::TimeMS''), c)
      else if cs_state (c_state c) \<noteq> Connected then (Inr False, c)
      else (let c1 = setMetadata ''timeout'' (shw totalMs) c in
            if c_peer c1 then (Inr True, c1) else (Inl (PointerDeleted ''peer''), c1)))"

section \<open>The state of a connection\<close>

text \<open>
  What the subscribers see: a sequence of changes, no two neighbours equal, that ends with
  \<^const>\<open>Disconnected\<close> when the observable has completed and does not contain it before.
\<close>

definition rn_wf :: "rnconn \<Rightarrow> bool" where
  "rn_wf c \<longleftrightarrow>
     successively (\<lambda>a b. \<not> cs_eq a b) (c_published c) \<and>
     (if c_completed c
      then c_published c \<noteq> [] \<and> cs_state (last (c_published c)) = Disconnected \<and>
        (\<forall>s \<in> set (butlast (c_published c)). cs_state s \<noteq> Disconnected)
      else (if c_published c = [] then cs_state (c_state c) = Disconnected
            else last (c_published c) = c_state c \<and>
              (\<forall>s \<in> set (c_published c). cs_state s \<noteq> Disconnected)))"

lemma rn_wf_new: "rn_wf (RakNetConnection g i k p)"
  by (simp add: rn_wf_def RakNetConnection_def conn_state_def)

lemma successively_snoc:
  "successively P (xs @ [x]) \<longleftrightarrow> successively P xs \<and> (xs = [] \<or> P (last xs) x)"
  by (auto simp: successively_append_iff)

lemma rn_wf_set [inv_intros]:
  assumes "rn_wf c"
  shows "rn_wf (setConnectionState s c)"
proof (cases "cs_eq (c_state c) s")
  case True
  then show ?thesis using assms by (simp add: setConnectionState_def)
next
  case False
  then have ne: "cs_state (c_state c) \<noteq> cs_state s" by (simp add: cs_eq_def)
  show ?thesis
  proof (cases "c_completed c")
    case True
    then show ?thesis using assms False by (simp add: setConnectionState_def rn_wf_def Let_def)
  next
    case nc: False
    then show ?thesis
      using assms False ne
      by (auto simp: setConnectionState_def rn_wf_def Let_def successively_snoc cs_eq_def
          split: if_splits)
  qed
qed

lemma rn_wf_fields [simp]:
  "rn_wf (c\<lparr>c_onClose := x\<rparr>) = rn_wf c" "rn_wf (c\<lparr>c_wire := w\<rparr>) = rn_wf c"
  "rn_wf (c\<lparr>c_metadata := m\<rparr>) = rn_wf c" "rn_wf (c\<lparr>c_closeReason := r\<rparr>) = rn_wf c"
  "rn_wf (c\<lparr>c_sessionId := i\<rparr>) = rn_wf c" "rn_wf (c\<lparr>c_peer := b\<rparr>) = rn_wf c"
  by (simp_all add: rn_wf_def)

lemma rn_wf_fire [inv_intros]: "rn_wf c \<Longrightarrow> rn_wf (fire_onClose r c)"
  by (simp add: fire_onClose_def)

lemma rn_wf_close [inv_intros]: "rn_wf c \<Longrightarrow> rn_wf (close_connection r c)"
  by (simp add: close_connection_def inv_intros)

lemma rn_wf_send:
  "rn_wf c \<Longrightarrow> rn_wf (fst (snd (conn_send rak bc rnd en w ch pr rel d c a)))"
  by (simp add: conn_send_def Let_def split: prod.splits sum.splits)

lemma rn_wf_timeout: "rn_wf c \<Longrightarrow> rn_wf (snd (conn_setTimeout sh t c))"
  by (simp add: conn_setTimeout_def setMetadata_def Let_def)

text \<open>What can happen to a connection after its construction.\<close>

inductive conn_reach :: "rnconn \<Rightarrow> bool" where
  new: "conn_reach (RakNetConnection g i k p)"
| set_state: "conn_reach c \<Longrightarrow> conn_reach (setConnectionState s c)"
| close: "conn_reach c \<Longrightarrow> conn_reach (close_connection r c)"
| fire: "conn_reach c \<Longrightarrow> conn_reach (fire_onClose r c)"
| send: "conn_reach c \<Longrightarrow> conn_reach (fst (snd (conn_send rak bc rnd en w ch pr rel d c a)))"
| timeout: "conn_reach c \<Longrightarrow> conn_reach (snd (conn_setTimeout sh t c))"
| peer_gone: "conn_reach c \<Longrightarrow> conn_reach (c\<lparr>c_peer := False\<rparr>)"

lemma conn_reach_wf: "conn_reach c \<Longrightarrow> rn_wf c"
  by (induction rule: conn_reach.induct)
    (simp_all add: rn_wf_new rn_wf_send rn_wf_timeout inv_intros)

lemma close_connection_open:
  assumes "cs_state (c_state c) = Connected \<or> cs_state (c_state c) = Connecting" "\<not> c_completed c"
  shows "close_connection r c =
    c\<lparr>c_state := conn_state_because Disconnected r, c_completed := True,
      c_published := c_published c @ [conn_state_because Disconnecting r, conn_state_because Disconnected r],
      c_onClose := c_onClose c @ [r]\<rparr>"
proof -
  have ne: "cs_state (c_state c) \<noteq> Disconnecting" using assms(1) by auto
  have 1: "setConnectionState (conn_state_because Disconnecting r) c =
      c\<lparr>c_state := conn_state_because Disconnecting r,
        c_published := c_published c @ [conn_state_because Disconnecting r]\<rparr>"
    using ne assms(2) by (simp add: setConnectionState_def cs_eq_def conn_state_because_def)
  show ?thesis
    by (simp only: close_connection_def assms(1) if_True 1)
      (simp add: setConnectionState_def fire_onClose_def cs_eq_def conn_state_because_def assms(2))
qed

section \<open>Properties\<close>

text \<open>
  Property C5. A message sent with encryption on comes back as it was written: the receiver
  that holds the key reads the message id \<^verbatim>\<open>ID_ENCRYPTED\<close>, and the transform then replaces
  the packet's stream by one whose unread bytes are exactly what the writer wrote. The
  cipher's correctness (decryption inverts encryption and keeps the length) is the
  hypothesis.
\<close>

theorem encrypted_message_roundtrip:
  assumes "aw_handles a k = Some h" "aw_handles a' k = Some h'"
    and "run_writer w obytestream0 = Inr inner" "ostr_wf inner" "ogood inner"
    and "out_data inner = plain" "plain \<noteq> []" "length plain < 1000000"
    and "bc_encrypt bc h (take ivSize rnd) plain = Inr (cipher, tag)" "ivSize \<le> length rnd"
    and "length cipher = length plain" "length tag = tagSize"
    and "bc_decrypt bc h' (take ivSize rnd) cipher tag = Inr plain"
  shows "case onSend bc rnd True False k w obytestream0 a of (r, _) \<Rightarrow>
     (case r of Inl e \<Rightarrow> False
      | Inr s \<Rightarrow>
          (case deserialize 0 (ibytestream_of (Some (out_data s))) of (i, s1) \<Rightarrow>
             i = ID_ENCRYPTED \<and>
             (case fst (onReceive bc k s1 a') of
                Inl e \<Rightarrow> False
              | Inr s2 \<Rightarrow> istr_wf s2 \<and> igood s2 \<and> remaining s2 = plain)))"
proof -
  let ?iv = "take ivSize rnd"
  note w = owrite_data [OF ostr_wf_ctor(1,2), of "word_bytes ID_ENCRYPTED"]
  have sw: "serialize ID_ENCRYPTED obytestream0 = owrite (word_bytes ID_ENCRYPTED) obytestream0"
    using ostr_wf_ctor(2) by (simp add: serialize_def)
  have one: "word_bytes (i :: byte) = [i]" for i
    by (simp add: word_bytes_def)
  have pos: "ocurrentPosition inner > 0"
    using ocurrentPosition_data [OF assms(4,5)] assms(6,7) by simp
  obtain out where out: "aes_encrypt bc plain ?iv (serialize ID_ENCRYPTED obytestream0) k a = (Inr out, a)"
      "out_data out = ID_ENCRYPTED # ?iv @ cipher @ tag"
    using aes_encrypt_data [OF assms(1) assms(9), of "serialize ID_ENCRYPTED obytestream0"]
      w assms(8,10,11,12) by (auto simp: sw one tagSize_def ivSize_def)
  have send: "onSend bc rnd True False k w obytestream0 a = (Inr out, a)"
    using pos out(1) by (simp add: onSend_def assms(3,6) encrypt_stream_def Let_def)
  obtain os where os: "decrypt_stream bc (?iv @ cipher @ tag) k obytestream0 a' =
      (Inr os, a'\<lparr>aw_handles := (aw_handles a')(k \<mapsto> h')\<rparr>)" "out_data os = plain"
    using decrypt_stream_data [OF assms(2) _ assms(12,13)] assms(8,10,11) by auto
  have len: "length (?iv @ cipher @ tag) < 2147483647"
    using assms(8,11,12) by (simp add: ivSize_def tagSize_def)
  obtain b where b: "deserialize (0 :: byte) (ibytestream_of (Some (ID_ENCRYPTED # ?iv @ cipher @ tag))) =
      (ID_ENCRYPTED, \<lparr>ibuf = b, i_eof = False, i_fail = False, i_bad = False\<rparr>)"
    "bsb_at b (ID_ENCRYPTED # ?iv @ cipher @ tag) 1 (int (length (?iv @ cipher @ tag)) + 1) 0"
    using after_id [OF len, of ID_ENCRYPTED] by metis
  have ne: "?iv @ cipher @ tag \<noteq> []" using assms(7,11) by auto
  note rc = onReceive_at [OF b(2) ne os(1)]
  have nf: "\<not> bs_fault b" using b(2) by (simp add: bsb_at_def)
  have "bsb_at (setbuf (Some plain) b) plain 0 (int (length plain)) 0"
    using setbuf_at [OF _ nf, of plain] assms(8) by simp
  then have "bsb_wf (setbuf (Some plain) b)" "unread (setbuf (Some plain) b) = plain"
    by (auto simp: unread_at intro: bsb_wf_at)
  then show ?thesis
    using rc by (simp add: send out(2) b(1) os(2) istr_wf_def igood_def remaining_def)
qed

text \<open>
  The subscribers of a connection's state see no repetition, see
  \<^const>\<open>Disconnected\<close> exactly when the stream of states has completed, and see nothing after
  it, whatever sequence of operations the connection went through.
\<close>

theorem connection_states_published:
  assumes "conn_reach c"
  shows "successively (\<lambda>a b. cs_state a \<noteq> cs_state b) (c_published c) \<and>
    (c_completed c \<longleftrightarrow> Disconnected \<in> set (map cs_state (c_published c))) \<and>
    Disconnected \<notin> set (map cs_state (butlast (c_published c)))"
proof -
  have wf: "rn_wf c" using conn_reach_wf [OF assms] .
  have "successively (\<lambda>a b. cs_state a \<noteq> cs_state b) (c_published c)"
    using wf by (simp add: rn_wf_def cs_eq_def)
  moreover have "c_completed c \<longleftrightarrow> Disconnected \<in> set (map cs_state (c_published c))"
    using wf by (force simp: rn_wf_def dest: last_in_set split: if_splits)
  moreover have "Disconnected \<notin> set (map cs_state (butlast (c_published c)))"
    using wf by (force simp: rn_wf_def dest: in_set_butlastD split: if_splits)
  ultimately show ?thesis by blast
qed

theorem connection_states_published_witness:
  "Disconnected \<notin> set (map cs_state (butlast (c_published
     (close_connection ''bye'' (setConnectionState (conn_state Connecting) (RakNetConnection 1 2 ''k'' True))))))"
  by (rule connection_states_published [THEN conjunct2, THEN conjunct2]) (intro conn_reach.intros)

text \<open>
  Closing a connection that is open publishes \<^const>\<open>Disconnecting\<close> and then
  \<^const>\<open>Disconnected\<close> with the reason and runs the \<^verbatim>\<open>onClose\<close> event once; closing it again
  does nothing.
\<close>

theorem close_runs_once:
  assumes "conn_reach c" "cs_state (c_state c) = Connected"
  shows "close_connection r' (close_connection r c) = close_connection r c \<and>
    c_onClose (close_connection r c) = c_onClose c @ [r] \<and>
    (\<not> c_completed c \<longrightarrow> map cs_state (c_published (close_connection r c)) =
       map cs_state (c_published c) @ [Disconnecting, Disconnected])"
proof -
  have "cs_state (c_state (close_connection r c)) = Disconnected"
    using assms(2)
    by (simp add: close_connection_def setConnectionState_def cs_eq_def conn_state_because_def
        fire_onClose_def Let_def)
  then have "close_connection r' (close_connection r c) = close_connection r c"
    by (simp add: close_connection_def [of r'])
  moreover have "c_onClose (close_connection r c) = c_onClose c @ [r]"
    using assms(2)
    by (simp add: close_connection_def setConnectionState_def cs_eq_def conn_state_because_def
        fire_onClose_def Let_def)
  moreover have "\<not> c_completed c \<Longrightarrow> map cs_state (c_published (close_connection r c)) =
       map cs_state (c_published c) @ [Disconnecting, Disconnected]"
    using assms(2) by (simp add: close_connection_open conn_state_because_def)
  ultimately show ?thesis by blast
qed

theorem close_runs_once_witness:
  "c_onClose (close_connection ''bye'' (setConnectionState (conn_state Connected)
     (RakNetConnection 1 2 ''k'' True))) = [''bye'']"
proof -
  let ?c = "setConnectionState (conn_state Connected) (RakNetConnection 1 2 ''k'' True)"
  have "conn_reach ?c" by (intro conn_reach.intros)
  moreover have "cs_state (c_state ?c) = Connected" "c_onClose ?c = []"
    by (simp_all add: setConnectionState_def RakNetConnection_def cs_eq_def conn_state_def Let_def)
  ultimately show ?thesis
    using close_runs_once [of ?c "''x''" "''bye''"] by simp
qed

text \<open>
  A key that is used for decryption before any encryption can never be used
  again: \<^verbatim>\<open>decrypt\<close> leaves a null handle in \<^verbatim>\<open>_keyHandles\<close>, which \<^verbatim>\<open>initAES\<close> then takes
  for an initialised key. The hypothesis is what \<^verbatim>\<open>BCryptEncrypt\<close> documents for an invalid
  handle.
\<close>

theorem early_decrypt_blocks_key:
  assumes "aw_handles a k = None" "\<And>iv d. bc_encrypt bc 0 iv d = Inl e"
  shows "fst (aes_encrypt bc d iv out k (snd (aes_decrypt bc d' iv' out' k a))) = Inl e"
  using assms
  by (simp add: aes_decrypt_def aes_encrypt_def initAES_def key_handle_def Let_def
      split: sum.splits)

definition xor_bcrypt :: bcrypt where
  "xor_bcrypt = \<lparr>bc_open = Inr (), bc_generate = (\<lambda>k. Inr 1),
     bc_encrypt = (\<lambda>h iv d. if h = 0 then Inl (RuntimeError ''BCryptEncrypt'')
        else Inr (map (\<lambda>x. x XOR 90) d, replicate tagSize 7)),
     bc_decrypt = (\<lambda>h iv d t. if h = 0 then Inl (RuntimeError ''BCryptDecrypt'')
        else Inr (map (\<lambda>x. x XOR 90) d))\<rparr>"

theorem early_decrypt_blocks_key_witness:
  "fst (aes_encrypt xor_bcrypt [1] [] obytestream0 5 (snd (aes_decrypt xor_bcrypt [1] [] obytestream0 5
     \<lparr>aw_keys = [5 \<mapsto> replicate 32 1], aw_handles = Map.empty\<rparr>))) = Inl (RuntimeError ''BCryptEncrypt'')"
  by (rule early_decrypt_blocks_key) (simp_all add: xor_bcrypt_def)

theorem encrypted_message_roundtrip_witness:
  "case onSend xor_bcrypt (replicate 12 3) True False 5 (Some (\<lambda>s. Inr (owrite [1, 2, 3] s))) obytestream0
      \<lparr>aw_keys = Map.empty, aw_handles = [5 \<mapsto> 1]\<rparr> of (r, _) \<Rightarrow>
     (case r of Inl e \<Rightarrow> False
      | Inr s \<Rightarrow>
          (case deserialize 0 (ibytestream_of (Some (out_data s))) of (i, s1) \<Rightarrow>
             i = ID_ENCRYPTED \<and>
             (case fst (onReceive xor_bcrypt 5 s1 \<lparr>aw_keys = Map.empty, aw_handles = [5 \<mapsto> 2]\<rparr>) of
                Inl e \<Rightarrow> False
              | Inr s2 \<Rightarrow> istr_wf s2 \<and> igood s2 \<and> remaining s2 = [1, 2, 3])))"
proof -
  note w = owrite_data [OF ostr_wf_ctor(1,2), of "[1, 2, 3]"]
  show ?thesis
    by (rule encrypted_message_roundtrip [where h = 1 and h' = 2 and inner = "owrite [1, 2, 3] obytestream0"
          and cipher = "map (\<lambda>x. x XOR 90) [1, 2, 3]" and tag = "replicate tagSize 7"])
      (use w in \<open>simp_all add: run_writer_def xor_bcrypt_def ivSize_def\<close>)
qed

end
