(* ===== verification/IdPool.thy ===== *)
theory IdPool
  imports Prelude
begin

text \<open>
  Request ids. \<^verbatim>\<open>RequestProcessor::reserveRequestSlot\<close> and \<^verbatim>\<open>RpcService::reserveId\<close> look
  for a free 16-bit id with the same loop: the counter is incremented (and wraps), at most
  65536 times, until an id is found that is not in the map of pending requests. This theory
  holds the loop, the proof that it finds an id exactly when one is free, and the contract
  of a table of pending requests as the locale \<^verbatim>\<open>slot_table\<close>, which both services
  interpret.
\<close>

section \<open>The search\<close>

text \<open>The answer is the id found, if any, and the counter after the loop.\<close>

fun reserve_loop :: "nat \<Rightarrow> u16 \<Rightarrow> (u16 \<Rightarrow> bool) \<Rightarrow> u16 option \<times> u16" where
  "reserve_loop 0 counter used = (None, counter)"
| "reserve_loop (Suc n) counter used =
     (let i = counter + 1 in
      if \<not> used i then (Some i, i) else reserve_loop n i used)"

lemma reserve_loop_Some:
  "reserve_loop n c used = (Some i, c') \<Longrightarrow>
     \<not> used i \<and> c' = i \<and> (\<exists>k < n. i = c + of_nat (Suc k) \<and> (\<forall>j < k. used (c + of_nat (Suc j))))"
proof (induction n arbitrary: c)
  case 0
  then show ?case by simp
next
  case (Suc n)
  show ?case
  proof (cases "used (c + 1)")
    case False
    then show ?thesis using Suc.prems by (auto simp: Let_def intro!: exI [of _ "0 :: nat"])
  next
    case True
    with Suc.prems have "reserve_loop n (c + 1) used = (Some i, c')" by (simp add: Let_def)
    from Suc.IH [OF this] obtain k where k: "\<not> used i" "c' = i" "k < n"
      "i = c + 1 + of_nat (Suc k)" "\<forall>j < k. used (c + 1 + of_nat (Suc j))" by blast
    have "used (c + of_nat (Suc j))" if "j < Suc k" for j
    proof (cases j)
      case 0
      then show ?thesis using True by simp
    next
      case (Suc m)
      then show ?thesis using k(5) that by (simp add: algebra_simps)
    qed
    with k show ?thesis
      by (intro conjI exI [of _ "Suc k"]) (simp_all add: algebra_simps)
  qed
qed

lemma reserve_loop_None:
  "reserve_loop n c used = (None, c') \<Longrightarrow> k < n \<Longrightarrow> used (c + of_nat (Suc k))"
proof (induction n arbitrary: c k)
  case 0
  then show ?case by simp
next
  case (Suc n)
  then have u: "used (c + 1)" and r: "reserve_loop n (c + 1) used = (None, c')"
    by (auto simp: Let_def split: if_splits)
  show ?case
  proof (cases k)
    case 0
    then show ?thesis using u by simp
  next
    case (Suc m)
    then show ?thesis using Suc.IH [OF r, of m] Suc.prems by (simp add: algebra_simps)
  qed
qed

lemma u16_offset: "\<exists>k < 65536. (i :: u16) = c + of_nat (Suc k)"
proof (intro exI conjI)
  show "unat (i - c - 1) < 65536"
    using unsigned_less [of "i - c - 1"] by simp
  show "i = c + of_nat (Suc (unat (i - c - 1)))" by (simp add: unat_of_nat)
qed

text \<open>65536 rounds visit every id, so the search fails only when all are taken.\<close>

lemma reserve_loop_full:
  "fst (reserve_loop 65536 c used) = None \<longleftrightarrow> (\<forall>i. used i)"
proof
  assume "fst (reserve_loop 65536 c used) = None"
  then obtain c' where r: "reserve_loop 65536 c used = (None, c')"
    by (cases "reserve_loop 65536 c used") auto
  show "\<forall>i. used i"
  proof
    fix i
    obtain k where "k < 65536" "i = c + of_nat (Suc k)" using u16_offset by blast
    then show "used i" using reserve_loop_None [OF r] by simp
  qed
next
  assume "\<forall>i. used i"
  then show "fst (reserve_loop 65536 c used) = None"
    using reserve_loop_Some [of 65536 c used] by (cases "reserve_loop 65536 c used") (metis fst_conv not_None_eq)
qed

lemma reserve_loop_next [simp]: "\<not> used (c + 1) \<Longrightarrow> reserve_loop (Suc n) c used = (Some (c + 1), c + 1)"
  by (simp add: Let_def)

section \<open>The contract of a table of pending requests\<close>

text \<open>
  \<^term>\<open>lookup\<close> is the map of pending requests, \<^term>\<open>reserve\<close> takes a free id and puts the
  request there, \<^const>\<open>None\<close> is the exception, and \<^term>\<open>release\<close> empties a slot.
\<close>

locale slot_table =
  fixes lookup :: "'s \<Rightarrow> u16 \<rightharpoonup> 'v"
    and reserve :: "'a \<Rightarrow> 's \<Rightarrow> (u16 \<times> 's) option"
    and release :: "u16 \<Rightarrow> 's \<Rightarrow> 's"
  assumes reserve_fresh: "reserve a s = Some (i, s') \<Longrightarrow> lookup s i = None"
    and reserve_stored: "reserve a s = Some (i, s') \<Longrightarrow> i \<in> dom (lookup s')"
    and reserve_others: "reserve a s = Some (i, s') \<Longrightarrow> j \<noteq> i \<Longrightarrow> lookup s' j = lookup s j"
    and reserve_full: "reserve a s = None \<longleftrightarrow> dom (lookup s) = UNIV"
    and release_lookup: "lookup (release i s) = (lookup s)(i := None)"
begin

lemma reserve_dom:
  assumes "reserve a s = Some (i, s')"
  shows "dom (lookup s') = insert i (dom (lookup s))" "i \<notin> dom (lookup s)"
proof -
  show "i \<notin> dom (lookup s)" using reserve_fresh [OF assms] by auto
  show "dom (lookup s') = insert i (dom (lookup s))"
  proof (rule set_eqI)
    fix j
    show "j \<in> dom (lookup s') \<longleftrightarrow> j \<in> insert i (dom (lookup s))"
      using reserve_stored [OF assms] reserve_others [OF assms, of j]
      by (cases "j = i") (auto simp: domIff)
  qed
qed

text \<open>The ids of the requests that are pending at the same time are distinct.\<close>

fun reserve_all :: "'a list \<Rightarrow> 's \<Rightarrow> (u16 list \<times> 's) option" where
  "reserve_all [] s = Some ([], s)"
| "reserve_all (a # as) s =
     (case reserve a s of None \<Rightarrow> None
      | Some (i, s') \<Rightarrow> (case reserve_all as s' of None \<Rightarrow> None
         | Some (ids, s'') \<Rightarrow> Some (i # ids, s'')))"

lemma reserve_all_dom:
  "reserve_all as s = Some (ids, s') \<Longrightarrow>
     distinct ids \<and> set ids \<inter> dom (lookup s) = {} \<and> dom (lookup s') = dom (lookup s) \<union> set ids \<and>
     length ids = length as"
proof (induction as arbitrary: s ids)
  case Nil
  then show ?case by simp
next
  case (Cons a as)
  from Cons.prems obtain i s1 ids' where r: "reserve a s = Some (i, s1)"
    "reserve_all as s1 = Some (ids', s')" "ids = i # ids'"
    by (auto split: option.splits)
  note d = reserve_dom [OF r(1)] and IH = Cons.IH [OF r(2)]
  from IH d show ?case using r(3) by auto
qed

lemma reserve_all_succeeds:
  assumes "length as + card (dom (lookup s)) \<le> 65536"
  shows "reserve_all as s \<noteq> None"
  using assms
proof (induction as arbitrary: s)
  case Nil
  then show ?case by simp
next
  case (Cons a as)
  have card: "card (UNIV :: u16 set) = 65536" by (simp add: card_word)
  have "dom (lookup s) \<noteq> UNIV"
    using Cons.prems card by auto
  then obtain i s1 where r: "reserve a s = Some (i, s1)"
    using reserve_full [of a s] by (cases "reserve a s") auto
  note d = reserve_dom [OF r]
  have "card (dom (lookup s1)) = Suc (card (dom (lookup s)))"
    using d by simp
  then have "reserve_all as s1 \<noteq> None" using Cons.IH Cons.prems by simp
  then show ?case by (auto simp: r)
qed

lemma reserve_after_release:
  assumes "i \<in> dom (lookup s)"
  shows "reserve a (release i s) \<noteq> None"
  using reserve_full [of a "release i s"] by (auto simp: release_lookup)

lemma release_idem: "lookup (release i (release i s)) = lookup (release i s)"
  by (simp add: release_lookup)

end

end
