(* ===== verification/SystemRequests.thy ===== *)
theory SystemRequests
  imports Network IdPool
begin

text \<open>
  System requests: \<^verbatim>\<open>SystemRequest.cpp\<close>, \<^verbatim>\<open>RequestContext.cpp\<close> and
  \<^verbatim>\<open>RequestProcessor.cpp\<close>. The connections are an argument \<^term>\<open>send\<close> on a state
  \<^typ>\<open>'c\<close>; what a connection promises is the locale \<^verbatim>\<open>connection\<close>, interpreted on
  \<^const>\<open>conn_send\<close>. Requests live in a heap, the map of pending requests holds references
  into it, and a request that loses its last reference before it is completed cancels its
  task. The lemmas show that ids of pending requests are distinct, that a response reaches
  the request it answers and no other, and that a request completes at most once.
\<close>

section \<open>Connections as an interface\<close>

type_synonym 'c send_fun = "nat \<Rightarrow> writer \<Rightarrow> 'c \<Rightarrow> unit res \<times> 'c"

text \<open>
  A successful \<^verbatim>\<open>send\<close> transmits exactly what the writer wrote, on the connection it was
  called on; a failed one transmits nothing.
\<close>

locale connection =
  fixes send :: "'c send_fun"
    and sent :: "nat \<Rightarrow> 'c \<Rightarrow> byte list list"
  assumes send_ok: "send k w c = (Inr (), c') \<Longrightarrow> run_writer w obytestream0 = Inr s \<Longrightarrow>
      sent k c' = sent k c @ [out_data s]"
    and send_ok_writer: "send k w c = (Inr (), c') \<Longrightarrow> \<exists>s. run_writer w obytestream0 = Inr s"
    and send_fails: "send k w c = (Inl e, c') \<Longrightarrow> sent k c' = sent k c"
    and send_other: "j \<noteq> k \<Longrightarrow> send k w c = (r, c') \<Longrightarrow> sent j c' = sent j c"
begin

lemma send_prefix: "send k w c = (r, c') \<Longrightarrow> \<exists>ys. sent j c' = sent j c @ ys \<and> length ys \<le> 1"
proof (cases "j = k")
  case False
  assume "send k w c = (r, c')"
  with False show ?thesis using send_other by simp
next
  case True
  assume s: "send k w c = (r, c')"
  show ?thesis
  proof (cases r)
    case (Inl e)
    then show ?thesis using s send_fails True by simp
  next
    case (Inr u)
    then have ok: "send k w c = (Inr (), c')" using s by simp
    from send_ok_writer [OF ok] obtain t where "run_writer w obytestream0 = Inr t" ..
    from send_ok [OF ok this] show ?thesis using True by simp
  qed
qed

end

text \<open>The connections of the client, without encryption.\<close>

definition clear_send ::
  "(transmission \<Rightarrow> nat) \<Rightarrow> bcrypt \<Rightarrow> aeswin \<Rightarrow> (nat \<Rightarrow> rnconn) send_fun" where
  "clear_send rak bc a k w cs =
     (case conn_send rak bc [] False w 0 2 2 False (cs k) a of (r, c', _) \<Rightarrow> (r, cs(k := c')))"

definition clear_sent :: "nat \<Rightarrow> (nat \<Rightarrow> rnconn) \<Rightarrow> byte list list" where
  "clear_sent k cs = map t_data (c_wire (cs k))"

lemma conn_send_clear:
  "conn_send rak bc rnd False w ch pr rel d c a =
     (case run_writer w obytestream0 of
        Inl e \<Rightarrow> (Inl e, c, a)
      | Inr s \<Rightarrow>
          if c_peer c then
            (let t = \<lparr>t_data = out_data s, t_priority = pr, t_reliability = rel,
                      t_channel = orderingChannel ch\<rparr> in
             if rak t = 0 then (Inl (RuntimeError ''Raknet failed to send the message.''), c, a)
             else (Inr (), c\<lparr>c_wire := c_wire c @ [t]\<rparr>, a))
          else (Inl (RuntimeError ''RakNet::RakPeerInterface has been destroyed.''), c, a))"
  by (simp add: conn_send_def onSend_def)

interpretation clear: connection "clear_send rak bc a" clear_sent
proof unfold_locales
  fix k w c c' s
  assume "clear_send rak bc a k w c = (Inr (), c')" "run_writer w obytestream0 = Inr s"
  then show "clear_sent k c' = clear_sent k c @ [out_data s]"
    by (auto simp: clear_send_def clear_sent_def conn_send_clear Let_def split: if_splits)
next
  fix k w c c'
  assume "clear_send rak bc a k w c = (Inr (), c')"
  then show "\<exists>s. run_writer w obytestream0 = Inr s"
    by (auto simp: clear_send_def conn_send_clear split: sum.splits)
next
  fix k w c e c'
  assume "clear_send rak bc a k w c = (Inl e, c')"
  then show "clear_sent k c' = clear_sent k c"
    by (auto simp: clear_send_def clear_sent_def conn_send_clear Let_def split: if_splits sum.splits)
next
  fix j k w c r c'
  assume "j \<noteq> k" "clear_send rak bc a k w c = (r, c')"
  then show "clear_sent j c' = clear_sent j c"
    by (auto simp: clear_send_def clear_sent_def split: prod.splits)
qed

section \<open>A system request\<close>

text \<open>
  \<^verbatim>\<open>sr_task\<close> is the task of the completion event; its value is the answer's packet, or
  \<^const>\<open>None\<close> for a request that returned nothing.
\<close>

record system_request =
  sr_id :: u16
  sr_msgId :: byte
  sr_complete :: bool
  sr_lastRefresh :: nat
  sr_task :: "packet option task"

definition SystemRequest :: "byte \<Rightarrow> u16 \<Rightarrow> system_request" where
  "SystemRequest msgId i = \<lparr>sr_id = i, sr_msgId = msgId, sr_complete = False, sr_lastRefresh = 0,
     sr_task = Pending\<rparr>"


definition trySet :: "packet option \<Rightarrow> system_request \<Rightarrow> bool \<times> system_request" where
  "trySet p r = (if \<not> sr_complete r
     then (True, r\<lparr>sr_complete := True, sr_task := tce_set (Done p) (sr_task r)\<rparr>) else (False, r))"

definition trySetException :: "storm_exn \<Rightarrow> system_request \<Rightarrow> bool \<times> system_request" where
  "trySetException e r = (if \<not> sr_complete r
     then (True, r\<lparr>sr_complete := True, sr_task := tce_set (Failed e) (sr_task r)\<rparr>) else (False, r))"

text \<open>The last reference goes away, or the user's token is canceled.\<close>

definition drop_request :: "system_request \<Rightarrow> system_request" where
  "drop_request r = r\<lparr>sr_task := tce_set Canceled (sr_task r)\<rparr>"

section \<open>The context of an incoming request\<close>

record request_context =
  rc_packet :: packet
  rc_stream :: istr
  rc_requestId :: u16
  rc_didSendValues :: bool
  rc_isComplete :: bool

definition RequestContext :: "u16 \<Rightarrow> packet \<Rightarrow> request_context" where
  "RequestContext junk p =
     (case p_read junk p of (i, p1) \<Rightarrow>
        (let b = ibuf (p_stream p1);
             data = map_option (\<lambda>_. load b (gptr b) (in_avail b)) (gptr b) in
         \<lparr>rc_packet = p1, rc_stream = ibytestream0\<lparr>ibuf := setbuf data (ibuf ibytestream0)\<rparr>,
          rc_requestId = i, rc_didSendValues = False, rc_isComplete = False\<rparr>))"

definition put_bytes :: "byte list \<Rightarrow> writer" where
  "put_bytes xs = Some (\<lambda>s. Inr (owrite xs s))"

text \<open>The writers built by the lambdas: a message id, the request id, then the caller's part.\<close>

definition response_writer :: "byte \<Rightarrow> u16 \<Rightarrow> writer \<Rightarrow> writer" where
  "response_writer msg i w = Some (\<lambda>s. run_writer w (serialize i (serialize msg s)))"

definition context_send ::
  "'c send_fun \<Rightarrow> writer \<Rightarrow> request_context \<Rightarrow> 'c \<Rightarrow> unit res \<times> request_context \<times> 'c" where
  "context_send send w ctx c =
     (if rc_isComplete ctx then (Inl (RuntimeError ''The request is already completed.''), ctx, c)
      else
        (let ctx1 = ctx\<lparr>rc_didSendValues := True\<rparr> in
         case send (p_conn (rc_packet ctx))
             (response_writer ID_REQUEST_RESPONSE_MSG (rc_requestId ctx) w) c of
           (r, c1) \<Rightarrow> (r, ctx1, c1)))"

definition context_complete ::
  "'c send_fun \<Rightarrow> request_context \<Rightarrow> 'c \<Rightarrow> unit res \<times> request_context \<times> 'c" where
  "context_complete send ctx c =
     (let ctx1 = ctx\<lparr>rc_isComplete := True\<rparr> in
      case send (p_conn (rc_packet ctx))
          (response_writer ID_REQUEST_RESPONSE_COMPLETE (rc_requestId ctx)
             (put_bytes [if rc_didSendValues ctx then 1 else 0])) c of
        (r, c1) \<Rightarrow> (r, ctx1, c1))"

definition context_error ::
  "'c send_fun \<Rightarrow> writer \<Rightarrow> request_context \<Rightarrow> 'c \<Rightarrow> unit res \<times> request_context \<times> 'c" where
  "context_error send w ctx c =
     (case send (p_conn (rc_packet ctx))
         (response_writer ID_REQUEST_RESPONSE_ERROR (rc_requestId ctx) w) c of
        (r, c1) \<Rightarrow> (r, ctx, c1))"

section \<open>The request processor\<close>

text \<open>
  A handler runs on the context and the connections; its answer is the outcome of the task
  it returns (an exception thrown by the handler itself is wrapped into the task by
  \<^verbatim>\<open>invokeWrapping\<close>).
\<close>

type_synonym 'c req_handler = "request_context \<Rightarrow> 'c \<Rightarrow> unit res \<times> request_context \<times> 'c"

record 'c request_processor =
  rp_alive :: bool
  rp_heap :: "system_request list"
  rp_pending :: "u16 \<rightharpoonup> nat"
  rp_counter :: u16
  rp_handlers :: "byte \<rightharpoonup> 'c req_handler"
  rp_isRegistered :: bool
  rp_conns :: 'c

definition RequestProcessor :: "'c \<Rightarrow> 'c request_processor" where
  "RequestProcessor c = \<lparr>rp_alive = True, rp_heap = [], rp_pending = Map.empty, rp_counter = 0,
     rp_handlers = Map.empty, rp_isRegistered = False, rp_conns = c\<rparr>"

definition addSystemRequestHandler ::
  "byte \<Rightarrow> 'c req_handler \<Rightarrow> 'c request_processor \<Rightarrow> 'c request_processor res" where
  "addSystemRequestHandler msgId h rp =
     (if rp_isRegistered rp
      then Inl (RuntimeError ''Can only add handler before 'RegisterProcessor' is called.'')
      else Inr (rp\<lparr>rp_handlers := emplace msgId h (rp_handlers rp)\<rparr>))"

text \<open>A module is the list of services it registers.\<close>

fun register_modules ::
  "(byte \<times> 'c req_handler) list \<Rightarrow> 'c request_processor \<Rightarrow> 'c request_processor res" where
  "register_modules [] rp = Inr rp"
| "register_modules ((i, h) # ms) rp =
     bind_res (addSystemRequestHandler i h rp) (register_modules ms)"

definition reserveRequestSlot ::
  "nat \<Rightarrow> byte \<Rightarrow> 'c request_processor \<Rightarrow> nat res \<times> 'c request_processor" where
  "reserveRequestSlot now msgId rp =
     (case reserve_loop 65536 (rp_counter rp) (\<lambda>i. rp_pending rp i \<noteq> None) of (r, counter) \<Rightarrow>
        (case r of
           None \<Rightarrow> (Inl (OverflowError ''Unable to create a new request: Too many pending requests.''),
                    rp\<lparr>rp_counter := counter\<rparr>)
         | Some i \<Rightarrow>
             (let ref = length (rp_heap rp) in
              (Inr ref, rp\<lparr>rp_counter := counter,
                 rp_heap := rp_heap rp @ [(SystemRequest msgId i)\<lparr>sr_lastRefresh := now\<rparr>],
                 rp_pending := (rp_pending rp)(i \<mapsto> ref)\<rparr>))))"

definition freeRequestSlot ::
  "u16 \<Rightarrow> 'c request_processor \<Rightarrow> nat option \<times> 'c request_processor" where
  "freeRequestSlot i rp =
     (case rp_pending rp i of
        None \<Rightarrow> (None, rp)
      | Some ref \<Rightarrow> (Some ref, rp\<lparr>rp_pending := (rp_pending rp)(i := None)\<rparr>))"

definition upd_request ::
  "nat \<Rightarrow> (system_request \<Rightarrow> system_request) \<Rightarrow> 'c request_processor \<Rightarrow> 'c request_processor" where
  "upd_request ref f rp = rp\<lparr>rp_heap := (rp_heap rp)[ref := f (rp_heap rp ! ref)]\<rparr>"

text \<open>
  The callback registered on the caller's token frees the slot of the request's id; the
  request that was there is released, which cancels its task.
\<close>

definition cancel_callback :: "u16 \<Rightarrow> 'c request_processor \<Rightarrow> 'c request_processor" where
  "cancel_callback i rp =
     (if \<not> rp_alive rp then rp
      else case freeRequestSlot i rp of (r, rp1) \<Rightarrow>
        (case r of None \<Rightarrow> rp1 | Some ref \<Rightarrow> upd_request ref drop_request rp1))"

definition request_writer :: "byte \<Rightarrow> u16 \<Rightarrow> writer \<Rightarrow> writer" where
  "request_writer msgId i w =
     Some (\<lambda>s. run_writer w (serialize i (serialize msgId (serialize ID_SYSTEM_REQUEST s))))"

text \<open>
  \<^verbatim>\<open>sendSystemRequest\<close>: the answer is the task handed out, failed at once for a null peer or
  the task of a request. An exception of \<^verbatim>\<open>reserveRequestSlot\<close> leaves the function. The flag
  \<^term>\<open>canceled\<close> says that the token is canceled already, in which case the callback runs
  when it is registered, before the message is sent.
\<close>

datatype issued = FailedTask storm_exn | Issued nat

definition sendSystemRequest ::
  "'c send_fun \<Rightarrow> nat \<Rightarrow> nat option \<Rightarrow> byte \<Rightarrow> writer \<Rightarrow> bool \<Rightarrow>
   'c request_processor \<Rightarrow> issued res \<times> 'c request_processor" where
  "sendSystemRequest send now peer msgId w canceled rp =
     (case peer of
        None \<Rightarrow> (Inr (FailedTask (InvalidArgument ''peer should not be nullptr'')), rp)
      | Some k \<Rightarrow>
          (case reserveRequestSlot now msgId rp of (r, rp1) \<Rightarrow>
             (case r of
                Inl e \<Rightarrow> (Inl e, rp1)
              | Inr ref \<Rightarrow>
                  (let i = sr_id (rp_heap rp1 ! ref);
                       rp2 = (if canceled then cancel_callback i rp1 else rp1) in
                   case send k (request_writer msgId i w) (rp_conns rp2) of (s, c) \<Rightarrow>
                     (let rp3 = rp2\<lparr>rp_conns := c\<rparr> in
                      (Inr (Issued ref),
                       case s of
                         Inr _ \<Rightarrow> rp3
                       | Inl e \<Rightarrow> upd_request ref (\<lambda>q. snd (trySetException e q)) rp3))))))"

section \<open>Incoming messages\<close>

text \<open>What follows the task of a system request handler.\<close>

definition finish_request ::
  "'c send_fun \<Rightarrow> (string \<Rightarrow> byte list) \<Rightarrow> unit res \<Rightarrow> request_context \<Rightarrow> 'c \<Rightarrow>
   unit res \<times> request_context \<times> 'c" where
  "finish_request send ser r ctx c =
     (case r of
        Inl e \<Rightarrow>
          if \<not> rc_isComplete ctx
          then context_error send (put_bytes (ser (''An error occured on the server. '' @ what e))) ctx c
          else (Inr (), ctx, c)
      | Inr _ \<Rightarrow> if \<not> rc_isComplete ctx then context_complete send ctx c else (Inr (), ctx, c))"

definition on_system_request ::
  "'c send_fun \<Rightarrow> (string \<Rightarrow> byte list) \<Rightarrow> byte \<Rightarrow> u16 \<Rightarrow> 'c request_processor handler" where
  "on_system_request send ser junk8 junk16 p rp =
     (if \<not> rp_alive rp then (Inr False, p, rp)
      else case p_read junk8 p of (sysRequestId, p1) \<Rightarrow>
        (let ctx = RequestContext junk16 p1 in
         case rp_handlers rp sysRequestId of
           None \<Rightarrow>
             (case context_error send (put_bytes (ser ''No system request handler found.'')) ctx (rp_conns rp) of
                (r, ctx1, c1) \<Rightarrow>
                  (case r of Inl e \<Rightarrow> Inl e | Inr _ \<Rightarrow> Inr True, rc_packet ctx1, rp\<lparr>rp_conns := c1\<rparr>))
         | Some h \<Rightarrow>
             (case h ctx (rp_conns rp) of (t, ctx1, c1) \<Rightarrow>
                (case finish_request send ser t ctx1 c1 of (_, ctx2, c2) \<Rightarrow>
                   (Inr True, rc_packet ctx2, rp\<lparr>rp_conns := c2\<rparr>)))))"

text \<open>\<^verbatim>\<open>shw\<close> is \<^verbatim>\<open>std::to_string\<close>; \<^verbatim>\<open>junk\<close> the value of a variable before it is read.\<close>

definition on_response_msg ::
  "(u16 \<Rightarrow> string) \<Rightarrow> nat \<Rightarrow> u16 \<Rightarrow> 'c request_processor handler" where
  "on_response_msg shw now junk p rp =
     (if \<not> rp_alive rp then (Inr False, p, rp)
      else case p_read junk p of (i, p1) \<Rightarrow>
        (case freeRequestSlot i rp of (r, rp1) \<Rightarrow>
           (case r of
              None \<Rightarrow> (Inr True, p1, rp1)
            | Some ref \<Rightarrow>
                (let p2 = set_meta ''request'' (shw i) p1 in
                 (Inr True, p2,
                  upd_request ref (\<lambda>q. snd (trySet (Some p2) (q\<lparr>sr_lastRefresh := now\<rparr>))) rp1)))))"

definition on_response_complete ::
  "(u16 \<Rightarrow> string) \<Rightarrow> u16 \<Rightarrow> byte \<Rightarrow> 'c request_processor handler" where
  "on_response_complete shw junk16 junk8 p rp =
     (if \<not> rp_alive rp then (Inr False, p, rp)
      else case p_read junk16 p of (i, p1) \<Rightarrow>
        (case p_read junk8 p1 of (hasValuesData, p2) \<Rightarrow>
           if hasValuesData \<noteq> 0 then (Inr True, p2, rp)
           else
             (case freeRequestSlot i rp of (r, rp1) \<Rightarrow>
                (case r of
                   None \<Rightarrow> (Inr True, p2, rp1)
                 | Some ref \<Rightarrow>
                     (Inr True, set_meta ''request'' (shw i) p2,
                      upd_request ref (\<lambda>q. snd (trySet None q)) rp1)))))"

text \<open>
  \<^verbatim>\<open>de\<close> is the deserializer: the bytes left in the stream to the string, or the exception it
  throws. When it throws, the request has left the map already and dies with the handler.
  \<^verbatim>\<open>msg.c_str()\<close> stops at the first NUL.
\<close>

definition on_response_error ::
  "(u16 \<Rightarrow> string) \<Rightarrow> (byte list \<Rightarrow> (string \<times> nat) res) \<Rightarrow> u16 \<Rightarrow> 'c request_processor handler" where
  "on_response_error shw de junk p rp =
     (if \<not> rp_alive rp then (Inr False, p, rp)
      else case p_read junk p of (i, p1) \<Rightarrow>
        (case freeRequestSlot i rp of (r, rp1) \<Rightarrow>
           (case r of
              None \<Rightarrow> (Inr True, p1, rp1)
            | Some ref \<Rightarrow>
                (let p2 = set_meta ''request'' (shw i) p1 in
                 case de (p_rest p2) of
                   Inl e \<Rightarrow> (Inl e, p2, upd_request ref drop_request rp1)
                 | Inr (msg, n) \<Rightarrow>
                     (Inr True, p2\<lparr>p_stream := snd (iread (int n) (p_stream p2))\<rparr>,
                      upd_request ref
                        (\<lambda>q. snd (trySetException (RuntimeError (takeWhile (\<lambda>ch. ch \<noteq> CHR 0x00) msg)) q))
                        rp1)))))"

record codec_env =
  ce_ser :: "string \<Rightarrow> byte list"
  ce_de :: "byte list \<Rightarrow> (string \<times> nat) res"
  ce_show16 :: "u16 \<Rightarrow> string"
  ce_now :: nat
  ce_junk8 :: byte
  ce_junk16 :: u16

definition registerProcessor ::
  "'c send_fun \<Rightarrow> codec_env \<Rightarrow> 'c request_processor \<Rightarrow> ('c request_processor) dispatcher \<Rightarrow>
   ('c request_processor) dispatcher res \<times> 'c request_processor" where
  "registerProcessor send env rp d =
     (bind_res (addProcessor ID_SYSTEM_REQUEST
          (on_system_request send (ce_ser env) (ce_junk8 env) (ce_junk16 env)) d)
       (\<lambda>d1. bind_res (addProcessor ID_REQUEST_RESPONSE_MSG
          (on_response_msg (ce_show16 env) (ce_now env) (ce_junk16 env)) d1)
       (\<lambda>d2. bind_res (addProcessor ID_REQUEST_RESPONSE_COMPLETE
          (on_response_complete (ce_show16 env) (ce_junk16 env) (ce_junk8 env)) d2)
       (\<lambda>d3. addProcessor ID_REQUEST_RESPONSE_ERROR
          (on_response_error (ce_show16 env) (ce_de env) (ce_junk16 env)) d3))),
      rp\<lparr>rp_isRegistered := True\<rparr>)"

section \<open>Requests: at most one completion\<close>

lemma trySet_complete [simp]: "sr_complete r \<Longrightarrow> trySet p r = (False, r)"
  by (simp add: trySet_def)

lemma trySetException_complete [simp]: "sr_complete r \<Longrightarrow> trySetException e r = (False, r)"
  by (simp add: trySetException_def)

lemma sr_id_ops [simp]:
  "sr_id (snd (trySet p r)) = sr_id r" "sr_id (snd (trySetException e r)) = sr_id r"
  "sr_id (drop_request r) = sr_id r"
  by (simp_all add: trySet_def trySetException_def drop_request_def)

text \<open>A request object: completed means that its task is not pending.\<close>

definition sr_ok :: "system_request \<Rightarrow> bool" where
  "sr_ok r \<longleftrightarrow> (sr_complete r \<longrightarrow> sr_task r \<noteq> Pending)"

lemma sr_ok_ops [simp]:
  "sr_ok r \<Longrightarrow> sr_ok (snd (trySet p r))" "sr_ok r \<Longrightarrow> sr_ok (snd (trySetException e r))"
  "sr_ok r \<Longrightarrow> sr_ok (drop_request r)" "sr_ok (SystemRequest m i)"
  "sr_ok (r\<lparr>sr_lastRefresh := t\<rparr>) = sr_ok r"
  by (simp_all add: sr_ok_def trySet_def trySetException_def drop_request_def tce_set_def SystemRequest_def)

lemma settled_ops [simp]:
  "sr_ok r \<Longrightarrow> sr_task (snd (trySet p r)) \<noteq> Pending"
  "sr_ok r \<Longrightarrow> sr_task (snd (trySetException e r)) \<noteq> Pending"
  "sr_task (drop_request r) \<noteq> Pending"
  by (simp_all add: sr_ok_def trySet_def trySetException_def drop_request_def tce_set_def)

section \<open>The invariant of the request processor\<close>

text \<open>
  The map and the heap agree on ids, and a request whose task is still pending is in the
  map: every task handed out stays reachable for an answer.
\<close>

definition rp_wf :: "'c request_processor \<Rightarrow> bool" where
  "rp_wf rp \<longleftrightarrow>
     (\<forall>i ref. rp_pending rp i = Some ref \<longrightarrow> ref < length (rp_heap rp) \<and> sr_id (rp_heap rp ! ref) = i) \<and>
     (\<forall>ref < length (rp_heap rp). sr_ok (rp_heap rp ! ref) \<and>
        (sr_task (rp_heap rp ! ref) = Pending \<longrightarrow> rp_pending rp (sr_id (rp_heap rp ! ref)) = Some ref))"

lemma rp_wf_pending:
  assumes "rp_wf rp" "ref < length (rp_heap rp)" "sr_task (rp_heap rp ! ref) = Pending"
  shows "rp_pending rp (sr_id (rp_heap rp ! ref)) = Some ref" "\<not> sr_complete (rp_heap rp ! ref)"
  using assms by (simp_all add: rp_wf_def sr_ok_def) blast

lemma RequestProcessor_sel [simp]:
  "rp_alive (RequestProcessor c)" "rp_heap (RequestProcessor c) = []"
  "rp_pending (RequestProcessor c) = Map.empty" "rp_counter (RequestProcessor c) = 0"
  "rp_handlers (RequestProcessor c) = Map.empty" "\<not> rp_isRegistered (RequestProcessor c)"
  "rp_conns (RequestProcessor c) = c"
  by (simp_all add: RequestProcessor_def)

lemma rp_wf_init: "rp_wf (RequestProcessor c)"
  by (simp add: rp_wf_def)

lemma rp_wf_fields [simp]:
  "rp_wf (rp\<lparr>rp_conns := c\<rparr>) = rp_wf rp" "rp_wf (rp\<lparr>rp_counter := k\<rparr>) = rp_wf rp"
  "rp_wf (rp\<lparr>rp_handlers := h\<rparr>) = rp_wf rp" "rp_wf (rp\<lparr>rp_isRegistered := b\<rparr>) = rp_wf rp"
  "rp_wf (rp\<lparr>rp_alive := b\<rparr>) = rp_wf rp"
  by (simp_all add: rp_wf_def)

lemma reserve_cases:
  assumes "reserveRequestSlot now m rp = (r, rp')"
  obtains (full) c where "r = Inl (OverflowError ''Unable to create a new request: Too many pending requests.'')"
      "rp' = rp\<lparr>rp_counter := c\<rparr>" "\<forall>i. rp_pending rp i \<noteq> None"
  | (found) i where "r = Inr (length (rp_heap rp))" "rp_pending rp i = None"
      "rp' = rp\<lparr>rp_counter := i, rp_heap := rp_heap rp @ [(SystemRequest m i)\<lparr>sr_lastRefresh := now\<rparr>],
                rp_pending := (rp_pending rp)(i \<mapsto> length (rp_heap rp))\<rparr>"
proof -
  obtain q c where rl: "reserve_loop 65536 (rp_counter rp) (\<lambda>i. rp_pending rp i \<noteq> None) = (q, c)"
    by fastforce
  show ?thesis
  proof (cases q)
    case None
    then show ?thesis
      using assms rl reserve_loop_full [of "rp_counter rp" "\<lambda>i. rp_pending rp i \<noteq> None"]
      by (intro full [of c]) (simp_all add: reserveRequestSlot_def)
  next
    case (Some i)
    then show ?thesis
      using assms rl reserve_loop_Some [of 65536 "rp_counter rp" "\<lambda>i. rp_pending rp i \<noteq> None" i c]
      by (intro found [of i]) (simp_all add: reserveRequestSlot_def Let_def)
  qed
qed

lemma rp_wf_reserve [inv_intros]:
  assumes "rp_wf rp" "reserveRequestSlot now m rp = (r, rp')"
  shows "rp_wf rp'"
  using assms(2)
proof (cases rule: reserve_cases)
  case (full c)
  then show ?thesis using assms(1) by simp
next
  case (found i)
  have old: "sr_id (rp_heap rp ! ref) \<noteq> i"
    if "ref < length (rp_heap rp)" "sr_task (rp_heap rp ! ref) = Pending" for ref
    using assms(1) that found(2) by (auto simp: rp_wf_def)
  show ?thesis
    using assms(1) old unfolding found(3) rp_wf_def
    by (auto simp: nth_append SystemRequest_def sr_ok_def less_Suc_eq split: if_splits)
qed

text \<open>Removing the slot of a request and settling its task keeps the invariant.\<close>

lemma rp_wf_settle [inv_intros]:
  assumes "rp_wf rp" "freeRequestSlot i rp = (Some ref, rp1)"
    and "sr_id (f (rp_heap rp ! ref)) = i" "sr_ok (f (rp_heap rp ! ref))"
    and "sr_task (f (rp_heap rp ! ref)) \<noteq> Pending"
  shows "rp_wf (upd_request ref f rp1)"
proof -
  have p: "rp_pending rp i = Some ref" and rp1: "rp1 = rp\<lparr>rp_pending := (rp_pending rp)(i := None)\<rparr>"
    using assms(2) by (auto simp: freeRequestSlot_def split: option.splits)
  have ref: "ref < length (rp_heap rp)" "sr_id (rp_heap rp ! ref) = i"
    using assms(1) p by (auto simp: rp_wf_def)
  have other: "ref' \<noteq> ref" if "rp_pending rp j = Some ref'" "j \<noteq> i" for j ref'
    using assms(1) that ref(2) by (auto simp: rp_wf_def)
  have same: "ref' = ref"
    if "ref' < length (rp_heap rp)" "sr_task (rp_heap rp ! ref') = Pending" "sr_id (rp_heap rp ! ref') = i" for ref'
    using assms(1) that p by (auto simp: rp_wf_def)
  show ?thesis
    unfolding rp_wf_def rp1
    using assms(1,3,4,5) ref other same
    by (auto simp: upd_request_def nth_list_update rp_wf_def split: if_splits)
qed

text \<open>Settling a request that stays in the map.\<close>

lemma rp_wf_upd:
  assumes "rp_wf rp" "ref < length (rp_heap rp)" "sr_id (f (rp_heap rp ! ref)) = sr_id (rp_heap rp ! ref)"
    and "sr_ok (f (rp_heap rp ! ref))" "sr_task (f (rp_heap rp ! ref)) \<noteq> Pending"
  shows "rp_wf (upd_request ref f rp)"
  using assms by (auto simp: rp_wf_def upd_request_def nth_list_update split: if_splits)

lemma free_cases:
  assumes "rp_wf rp"
  obtains "freeRequestSlot i rp = (None, rp)"
  | ref where "freeRequestSlot i rp = (Some ref, rp\<lparr>rp_pending := (rp_pending rp)(i := None)\<rparr>)"
      "ref < length (rp_heap rp)" "sr_id (rp_heap rp ! ref) = i" "sr_ok (rp_heap rp ! ref)"
proof (cases "rp_pending rp i")
  case None
  then show ?thesis using that(1) by (simp add: freeRequestSlot_def)
next
  case (Some ref)
  then show ?thesis using assms that(2) [of ref] by (simp add: freeRequestSlot_def rp_wf_def)
qed

lemma rp_wf_cancel [inv_intros]: "rp_wf rp \<Longrightarrow> rp_wf (cancel_callback i rp)"
proof -
  assume wf: "rp_wf rp"
  show ?thesis
  proof (cases rule: free_cases [OF wf, of i])
    case 1
    then show ?thesis using wf by (simp add: cancel_callback_def)
  next
    case (2 ref)
    then show ?thesis using wf rp_wf_settle [OF wf 2(1)] by (simp add: cancel_callback_def)
  qed
qed

lemma rp_wf_msg [inv_intros]:
  assumes "rp_wf rp"
  shows "rp_wf (snd (snd (on_response_msg sh now j p rp)))"
proof -
  obtain i p1 where r: "p_read j p = (i, p1)" by fastforce
  show ?thesis
  proof (cases rule: free_cases [OF assms, of i])
    case 1
    then show ?thesis using assms by (simp add: on_response_msg_def r)
  next
    case (2 ref)
    then show ?thesis using assms
      by (simp add: on_response_msg_def r Let_def rp_wf_settle [OF assms 2(1)])
  qed
qed

lemma rp_wf_complete [inv_intros]:
  assumes "rp_wf rp"
  shows "rp_wf (snd (snd (on_response_complete sh j k p rp)))"
proof -
  obtain i p1 where r: "p_read j p = (i, p1)" by fastforce
  obtain h p2 where r2: "p_read k p1 = (h, p2)" by fastforce
  show ?thesis
  proof (cases rule: free_cases [OF assms, of i])
    case 1
    then show ?thesis using assms by (simp add: on_response_complete_def r r2)
  next
    case (2 ref)
    then show ?thesis using assms
      by (simp add: on_response_complete_def r r2 Let_def rp_wf_settle [OF assms 2(1)])
  qed
qed

lemma rp_wf_error [inv_intros]:
  assumes "rp_wf rp"
  shows "rp_wf (snd (snd (on_response_error sh de j p rp)))"
proof -
  obtain i p1 where r: "p_read j p = (i, p1)" by fastforce
  show ?thesis
  proof (cases rule: free_cases [OF assms, of i])
    case 1
    then show ?thesis using assms by (simp add: on_response_error_def r)
  next
    case (2 ref)
    then show ?thesis using assms
      by (simp add: on_response_error_def r Let_def rp_wf_settle [OF assms 2(1)] split: sum.splits prod.splits)
  qed
qed

lemma rp_wf_system [inv_intros]:
  "rp_wf rp \<Longrightarrow> rp_wf (snd (snd (on_system_request send ser j k p rp)))"
  by (simp add: on_system_request_def Let_def split: prod.splits option.splits)

lemma rp_wf_send [inv_intros]:
  assumes "rp_wf rp"
  shows "rp_wf (snd (sendSystemRequest send now peer m w canceled rp))"
proof (cases peer)
  case None
  then show ?thesis using assms by (simp add: sendSystemRequest_def)
next
  case (Some k)
  obtain r rp1 where r: "reserveRequestSlot now m rp = (r, rp1)" by fastforce
  have wf1: "rp_wf rp1" using assms r by (rule rp_wf_reserve)
  show ?thesis
  proof (cases r)
    case (Inl e)
    then show ?thesis using wf1 by (simp add: sendSystemRequest_def Some r)
  next
    case (Inr ref)
    let ?rp2 = "if canceled then cancel_callback (sr_id (rp_heap rp1 ! ref)) rp1 else rp1"
    have wf2: "rp_wf ?rp2" using wf1 by (simp add: inv_intros)
    obtain s c where s: "send k (request_writer m (sr_id (rp_heap rp1 ! ref)) w) (rp_conns ?rp2) = (s, c)"
      by fastforce
    have len: "length (rp_heap (cancel_callback i rp1)) = length (rp_heap rp1)" for i
      by (simp add: cancel_callback_def freeRequestSlot_def upd_request_def split: option.splits)
    have "ref < length (rp_heap rp1)"
      using r Inr by (cases rule: reserve_cases) simp_all
    then have ref: "ref < length (rp_heap ?rp2)" using len by simp
    then have ok: "sr_ok (rp_heap ?rp2 ! ref)" using wf2 by (simp add: rp_wf_def)
    have "rp_wf (upd_request ref (\<lambda>q. snd (trySetException e q)) (?rp2\<lparr>rp_conns := c\<rparr>))" for e
      by (rule rp_wf_upd) (use wf2 ref ok in simp_all)
    then show ?thesis using wf2
      by (cases s) (simp_all add: sendSystemRequest_def Some r Inr Let_def s del: if_split)
  qed
qed

text \<open>Everything that can happen to a request processor.\<close>

inductive rp_reach :: "'c send_fun \<Rightarrow> codec_env \<Rightarrow> 'c request_processor \<Rightarrow> bool"
  for send :: "'c send_fun" and env :: codec_env where
  init: "rp_reach send env (RequestProcessor c)"
| issue: "rp_reach send env rp \<Longrightarrow>
    rp_reach send env (snd (sendSystemRequest send (ce_now env) peer m w canceled rp))"
| cancel: "rp_reach send env rp \<Longrightarrow> rp_reach send env (cancel_callback i rp)"
| incoming: "rp_reach send env rp \<Longrightarrow>
    rp_reach send env (snd (snd (on_system_request send (ce_ser env) (ce_junk8 env) (ce_junk16 env) p rp)))"
| response: "rp_reach send env rp \<Longrightarrow>
    rp_reach send env (snd (snd (on_response_msg (ce_show16 env) (ce_now env) (ce_junk16 env) p rp)))"
| complete: "rp_reach send env rp \<Longrightarrow>
    rp_reach send env (snd (snd (on_response_complete (ce_show16 env) (ce_junk16 env) (ce_junk8 env) p rp)))"
| error: "rp_reach send env rp \<Longrightarrow>
    rp_reach send env (snd (snd (on_response_error (ce_show16 env) (ce_de env) (ce_junk16 env) p rp)))"
| handler: "rp_reach send env rp \<Longrightarrow> addSystemRequestHandler i h rp = Inr rp' \<Longrightarrow> rp_reach send env rp'"
| registered: "rp_reach send env rp \<Longrightarrow> rp_reach send env (snd (registerProcessor send env rp d))"
| destroyed: "rp_reach send env rp \<Longrightarrow> rp_reach send env (rp\<lparr>rp_alive := False\<rparr>)"
| network: "rp_reach send env rp \<Longrightarrow> rp_reach send env (rp\<lparr>rp_conns := c\<rparr>)"

lemma rp_reach_wf: "rp_reach send env rp \<Longrightarrow> rp_wf rp"
proof (induction rule: rp_reach.induct)
  case (handler rp i h rp')
  then show ?case by (auto simp: addSystemRequestHandler_def split: if_splits)
qed (simp_all add: rp_wf_init inv_intros registerProcessor_def)

section \<open>The table of pending requests\<close>

definition rp_reserve :: "nat \<times> byte \<Rightarrow> 'c request_processor \<Rightarrow> (u16 \<times> 'c request_processor) option" where
  "rp_reserve a rp = (case reserveRequestSlot (fst a) (snd a) rp of (r, rp') \<Rightarrow>
     (case r of Inl e \<Rightarrow> None | Inr ref \<Rightarrow> Some (sr_id (rp_heap rp' ! ref), rp')))"

definition rp_release :: "u16 \<Rightarrow> 'c request_processor \<Rightarrow> 'c request_processor" where
  "rp_release i rp = snd (freeRequestSlot i rp)"

lemma rp_reserve_found:
  assumes "rp_reserve a rp = Some (i, rp')"
  shows "rp_pending rp i = None" "rp_pending rp' = (rp_pending rp)(i \<mapsto> length (rp_heap rp))"
proof -
  obtain r rp1 where r: "reserveRequestSlot (fst a) (snd a) rp = (r, rp1)" by fastforce
  from r have "rp_pending rp i = None \<and> rp_pending rp' = (rp_pending rp)(i \<mapsto> length (rp_heap rp))"
  proof (cases rule: reserve_cases)
    case (full c)
    then show ?thesis using assms r by (simp add: rp_reserve_def)
  next
    case (found j)
    then show ?thesis using assms r by (auto simp: rp_reserve_def SystemRequest_def)
  qed
  then show "rp_pending rp i = None" "rp_pending rp' = (rp_pending rp)(i \<mapsto> length (rp_heap rp))"
    by simp_all
qed

lemma rp_reserve_None: "rp_reserve a rp = None \<longleftrightarrow> dom (rp_pending rp) = UNIV"
proof -
  obtain r rp1 where r: "reserveRequestSlot (fst a) (snd a) rp = (r, rp1)" by fastforce
  then show ?thesis
  proof (cases rule: reserve_cases)
    case (full c)
    then show ?thesis using r by (auto simp: rp_reserve_def dom_def)
  next
    case (found j)
    then have "j \<notin> dom (rp_pending rp)" by auto
    then have "dom (rp_pending rp) \<noteq> UNIV" by auto
    then show ?thesis using r found(1) by (simp add: rp_reserve_def)
  qed
qed

interpretation rps: slot_table rp_pending rp_reserve rp_release
proof unfold_locales
  fix a :: "nat \<times> byte" and s s' :: "'c request_processor" and i j :: u16
  show "rp_pending (rp_release i s) = (rp_pending s)(i := None)"
    by (auto simp: rp_release_def freeRequestSlot_def split: option.splits)
  show "rp_reserve a s = None \<longleftrightarrow> dom (rp_pending s) = UNIV" by (rule rp_reserve_None)
  assume r: "rp_reserve a s = Some (i, s')"
  show "rp_pending s i = None" "i \<in> dom (rp_pending s')"
    using rp_reserve_found [OF r] by simp_all
  show "j \<noteq> i \<Longrightarrow> rp_pending s' j = rp_pending s j"
    using rp_reserve_found [OF r] by simp
qed

section \<open>Answers\<close>

lemma dvd_len16: "8 dvd LENGTH(16)"
  by simp

lemma read_id:
  assumes "p_ok p" "p_rest p = word_bytes (i :: u16) @ rest"
  obtains p1 where "p_read junk p = (i, p1)" "p_ok p1" "p_rest p1 = rest" "p_conn p1 = p_conn p"
    "p_meta p1 = p_meta p"
  using p_read_word [OF assms dvd_len16, of junk] by metis

lemma read_byte:
  assumes "p_ok p" "p_rest p = word_bytes (b :: byte) @ rest"
  obtains p1 where "p_read junk p = (b, p1)" "p_ok p1" "p_rest p1 = rest" "p_conn p1 = p_conn p"
    "p_meta p1 = p_meta p"
  using p_read_word [OF assms dvd_len8, of junk] by metis

lemma p_rest_meta [simp]: "p_rest (set_meta k v p) = p_rest p" "p_ok (set_meta k v p) = p_ok p"
  by (simp_all add: set_meta_def p_rest_def p_ok_def)

lemma heap_upd [simp]:
  "ref < length (rp_heap rp) \<Longrightarrow> rp_heap (upd_request ref f rp) = (rp_heap rp)[ref := f (rp_heap rp ! ref)]"
  "rp_pending (upd_request ref f rp) = rp_pending rp"
  "rp_conns (upd_request ref f rp) = rp_conns rp"
  by (simp_all add: upd_request_def)

lemma response_msg_effect:
  assumes "rp_alive rp" "p_ok p" "p_rest p = word_bytes i @ rest" "rp_pending rp i = Some ref"
    and "ref < length (rp_heap rp)" "\<not> sr_complete (rp_heap rp ! ref)" "sr_task (rp_heap rp ! ref) = Pending"
  obtains p' rp' q where "on_response_msg sh now junk p rp = (Inr True, p', rp')"
    "rp_pending rp' = (rp_pending rp)(i := None)" "rp_heap rp' = (rp_heap rp)[ref := q]"
    "sr_complete q" "sr_task q = Done (Some p')" "p_rest p' = rest" "p_ok p'" "rp_conns rp' = rp_conns rp"
proof -
  obtain p1 where p1: "p_read junk p = (i, p1)" "p_ok p1" "p_rest p1 = rest"
    using read_id [OF assms(2,3)] by metis
  have f: "freeRequestSlot i rp = (Some ref, rp\<lparr>rp_pending := (rp_pending rp)(i := None)\<rparr>)"
    using assms(4) by (simp add: freeRequestSlot_def)
  let ?p2 = "set_meta ''request'' (sh i) p1"
  let ?q = "(rp_heap rp ! ref)\<lparr>sr_lastRefresh := now, sr_complete := True, sr_task := Done (Some ?p2)\<rparr>"
  have t: "trySet (Some ?p2) ((rp_heap rp ! ref)\<lparr>sr_lastRefresh := now\<rparr>) = (True, ?q)"
    using assms(6,7) by (simp add: trySet_def tce_set_def)
  have "on_response_msg sh now junk p rp = (Inr True, ?p2, upd_request ref
      (\<lambda>q. snd (trySet (Some ?p2) (q\<lparr>sr_lastRefresh := now\<rparr>))) (rp\<lparr>rp_pending := (rp_pending rp)(i := None)\<rparr>))"
    by (simp add: on_response_msg_def assms(1) p1(1) f Let_def)
  then show ?thesis
    by (rule that [where q = ?q]) (use assms(5) p1(2,3) in \<open>simp_all add: t\<close>)
qed

section \<open>What a writer writes\<close>

definition writes :: "writer \<Rightarrow> byte list \<Rightarrow> bool" where
  "writes w xs \<longleftrightarrow> (\<forall>s. ostr_wf s \<longrightarrow> ogood s \<longrightarrow> length (out_data s) + length xs < 1073741824 \<longrightarrow>
     (\<exists>s'. run_writer w s = Inr s' \<and> ostr_wf s' \<and> ogood s' \<and> out_data s' = out_data s @ xs))"

lemma writesD:
  assumes "writes w xs" "ostr_wf s" "ogood s" "length (out_data s) + length xs < 1073741824"
  obtains s' where "run_writer w s = Inr s'" "ostr_wf s'" "ogood s'" "out_data s' = out_data s @ xs"
  using assms unfolding writes_def by blast

lemma writes_put [simp]: "writes (put_bytes xs) xs"
  unfolding writes_def put_bytes_def run_writer_def using owrite_data [of _ xs] by fastforce

lemma writes_empty [simp]: "writes None []"
  by (simp add: writes_def run_writer_def)

lemma serialize_data:
  assumes "ostr_wf s" "ogood s" "length (out_data s) + LENGTH('a) div 8 < 1073741824"
  shows "ostr_wf (serialize (v :: 'a::len word) s)" "ogood (serialize v s)"
    "out_data (serialize v s) = out_data s @ word_bytes v"
  using owrite_data [OF assms(1,2), of "word_bytes v"] assms(2,3) by (simp_all add: serialize_def)

lemma writes_response:
  assumes "writes w xs"
  shows "writes (response_writer msg i w) (word_bytes msg @ word_bytes i @ xs)"
  unfolding writes_def
proof (intro allI impI)
  fix s assume s: "ostr_wf s" "ogood s"
    and l: "length (out_data s) + length (word_bytes msg @ word_bytes i @ xs) < 1073741824"
  note s1 = serialize_data [OF s, of msg]
  note s2 = serialize_data [OF s1(1,2), of i]
  have "length (out_data (serialize i (serialize msg s))) + length xs < 1073741824"
    using l s1(3) s2(3) by simp
  from writesD [OF assms s2(1,2) this] l s1 s2 obtain s'
    where "run_writer w (serialize i (serialize msg s)) = Inr s'" "ostr_wf s'" "ogood s'"
      "out_data s' = out_data s @ word_bytes msg @ word_bytes i @ xs" by auto
  then show "\<exists>s'. run_writer (response_writer msg i w) s = Inr s' \<and> ostr_wf s' \<and> ogood s' \<and>
      out_data s' = out_data s @ word_bytes msg @ word_bytes i @ xs"
    by (simp add: response_writer_def run_writer_def)
qed

lemma writes_request:
  assumes "writes w xs"
  shows "writes (request_writer m i w) (word_bytes ID_SYSTEM_REQUEST @ word_bytes m @ word_bytes i @ xs)"
  unfolding writes_def
proof (intro allI impI)
  fix s assume s: "ostr_wf s" "ogood s"
    and l: "length (out_data s) + length (word_bytes ID_SYSTEM_REQUEST @ word_bytes m @ word_bytes i @ xs) < 1073741824"
  note s0 = serialize_data [OF s, of ID_SYSTEM_REQUEST]
  have "length (out_data (serialize ID_SYSTEM_REQUEST s)) + length (word_bytes m @ word_bytes i @ xs) < 1073741824"
    using l s0(3) by simp
  from writesD [OF writes_response [OF assms, of m i] s0(1,2) this] l s0 obtain s'
    where "run_writer (response_writer m i w) (serialize ID_SYSTEM_REQUEST s) = Inr s'" "ostr_wf s'" "ogood s'"
      "out_data s' = out_data s @ word_bytes ID_SYSTEM_REQUEST @ word_bytes m @ word_bytes i @ xs" by auto
  then show "\<exists>s'. run_writer (request_writer m i w) s = Inr s' \<and> ostr_wf s' \<and> ogood s' \<and>
      out_data s' = out_data s @ word_bytes ID_SYSTEM_REQUEST @ word_bytes m @ word_bytes i @ xs"
    by (simp add: response_writer_def request_writer_def run_writer_def)
qed

text \<open>A writer run on a new stream.\<close>

lemma writes_new:
  assumes "writes w xs" "length xs < 1073741824"
  obtains s where "run_writer w obytestream0 = Inr s" "out_data s = xs"
  using writesD [OF assms(1) ostr_wf_ctor(1,2)] assms(2) by auto

lemma clear_send_writes:
  assumes "writes w xs" "length xs < 1073741824" "\<And>t. rak t \<noteq> 0" "c_peer (cs k)"
  shows "fst (clear_send rak bc a k w cs) = Inr ()"
    "clear_sent k (snd (clear_send rak bc a k w cs)) = clear_sent k cs @ [xs]"
    "j \<noteq> k \<Longrightarrow> snd (clear_send rak bc a k w cs) j = cs j"
proof -
  obtain s where "run_writer w obytestream0 = Inr s" "out_data s = xs"
    using writes_new [OF assms(1,2)] .
  then show "fst (clear_send rak bc a k w cs) = Inr ()"
    "clear_sent k (snd (clear_send rak bc a k w cs)) = clear_sent k cs @ [xs]"
    "j \<noteq> k \<Longrightarrow> snd (clear_send rak bc a k w cs) j = cs j"
    using assms(3,4) by (simp_all add: clear_send_def clear_sent_def conn_send_clear Let_def)
qed

section \<open>The context of a request\<close>

lemma context_of_request:
  assumes "p_ok p" "p_rest p = word_bytes (i :: u16) @ payload" "length payload < 1000000000"
  shows "rc_requestId (RequestContext junk p) = i \<and>
    istr_wf (rc_stream (RequestContext junk p)) \<and> igood (rc_stream (RequestContext junk p)) \<and>
    remaining (rc_stream (RequestContext junk p)) = payload \<and>
    p_conn (rc_packet (RequestContext junk p)) = p_conn p \<and>
    \<not> rc_isComplete (RequestContext junk p) \<and> \<not> rc_didSendValues (RequestContext junk p)"
proof -
  obtain p1 where p1: "p_read junk p = (i, p1)" "p_ok p1" "p_rest p1 = payload" "p_conn p1 = p_conn p"
    using read_id [OF assms(1,2)] by metis
  let ?b = "ibuf (p_stream p1)" and ?d = "\<lambda>b. map_option (\<lambda>_. load b (gptr b) (in_avail b)) (gptr b)"
  have wf: "bsb_wf ?b" "unread ?b = payload"
    using p1(2,3) by (simp_all add: p_ok_def p_rest_def istr_wf_def remaining_def)
  have "\<not> bs_fault (ibuf ibytestream0)"
    using bsb_empty_ctor by (simp add: ibytestream0_def bsb_empty_def)
  moreover have "?d ?b = Some payload \<or> (?d ?b = None \<and> payload = [])"
  proof (cases "gptr ?b")
    case None
    then show ?thesis using wf by (auto simp: bsb_wf_def bsb_at_def)
  next
    case (Some g)
    then have "load ?b (gptr ?b) (in_avail ?b) = unread ?b"
      using wf(1) in_avail_wf [OF wf(1)]
      by (auto simp: bsb_wf_def bsb_empty_def unread_def length_unread_at bsb_at_def load_def)
    then show ?thesis using Some wf(2) by simp
  qed
  ultimately have "bsb_wf (setbuf (?d ?b) (ibuf ibytestream0)) \<and>
      unread (setbuf (?d ?b) (ibuf ibytestream0)) = payload"
    using assms(3) setbuf_at [of payload "ibuf ibytestream0"] setbuf_null_empty [of "ibuf ibytestream0"]
    by (auto simp: unread_at bsb_wf_def)
  then show ?thesis
    using p1 by (simp add: RequestContext_def istr_wf_def remaining_def ibytestream0_def igood_def Let_def)
qed

section \<open>Properties\<close>

text \<open>
  Property C3. Every task that \<^verbatim>\<open>sendSystemRequest\<close> handed out and that is still pending
  belongs to a request in the map of pending requests, under its own id: no sequence of
  requests, answers, errors and cancellations loses one, and two pending requests never
  share an id.
\<close>

theorem pending_requests_reachable:
  assumes "rp_reach send env rp" "ref < length (rp_heap rp)" "sr_task (rp_heap rp ! ref) = Pending"
  shows "rp_pending rp (sr_id (rp_heap rp ! ref)) = Some ref \<and> \<not> sr_complete (rp_heap rp ! ref) \<and>
    (\<forall>ref' < length (rp_heap rp). ref' \<noteq> ref \<longrightarrow> sr_task (rp_heap rp ! ref') = Pending \<longrightarrow>
       sr_id (rp_heap rp ! ref') \<noteq> sr_id (rp_heap rp ! ref))"
proof -
  note wf = rp_reach_wf [OF assms(1)]
  note p = rp_wf_pending [OF wf assms(2,3)]
  moreover have "sr_id (rp_heap rp ! ref') \<noteq> sr_id (rp_heap rp ! ref)"
    if "ref' < length (rp_heap rp)" "ref' \<noteq> ref" "sr_task (rp_heap rp ! ref') = Pending" for ref'
  proof
    assume "sr_id (rp_heap rp ! ref') = sr_id (rp_heap rp ! ref)"
    moreover have "rp_pending rp (sr_id (rp_heap rp ! ref')) = Some ref'"
      using rp_wf_pending [OF wf] that by simp
    ultimately show False using p(1) that(2) by simp
  qed
  ultimately show ?thesis by blast
qed

text \<open>
  As long as fewer than 65536 requests are pending, as many more as fit get
  ids, all different and none of them in use; with all 65536 ids taken the reservation
  throws.
\<close>

theorem request_ids_distinct:
  fixes rp :: "'c request_processor"
  assumes "length as + card (dom (rp_pending rp)) \<le> 65536"
  shows "\<exists>ids rp'. rps.reserve_all as rp = Some (ids, rp') \<and> distinct ids \<and>
    set ids \<inter> dom (rp_pending rp) = {} \<and> length ids = length as \<and>
    (dom (rp_pending rp') = UNIV \<longrightarrow>
       fst (reserveRequestSlot now m rp') =
         Inl (OverflowError ''Unable to create a new request: Too many pending requests.''))"
proof -
  obtain ids rp' where r: "rps.reserve_all as rp = Some (ids, rp')"
    using rps.reserve_all_succeeds [OF assms] by auto
  have "fst (reserveRequestSlot now m rp') =
       Inl (OverflowError ''Unable to create a new request: Too many pending requests.'')"
    if "dom (rp_pending rp') = UNIV"
  proof -
    obtain q rp1 where q: "reserveRequestSlot now m rp' = (q, rp1)" by fastforce
    from q show ?thesis
    proof (cases rule: reserve_cases)
      case (full c)
      then show ?thesis using q by simp
    next
      case (found i)
      then have "i \<notin> dom (rp_pending rp')" by auto
      then show ?thesis using that by simp
    qed
  qed
  then show ?thesis using rps.reserve_all_dom [OF r] r by blast
qed

text \<open>
  Property C1. A system request reaches the handler registered for it on the other side, with
  its id and its parameters: when the peer dispatches the bytes that \<^verbatim>\<open>sendSystemRequest\<close>
  put on the wire, the handler runs on a context that has the request's id and an input
  stream holding exactly what the caller's writer wrote, and what the peer's connections
  are afterwards is what the handler and the completion that follows make of them.
\<close>

theorem request_reaches_handler:
  assumes "writes w payload" "length payload < 1000000" "\<And>t. rak t \<noteq> 0"
    and "c_peer (rp_conns rp k)" "rp_alive rp"
    and "sendSystemRequest (clear_send rak bc a) now (Some k) m w False rp = (Inr (Issued ref), rp')"
    and "rp_alive srv" "rp_handlers srv m = Some h" "d_maxLayerCount d > 0" "d_defaults d = []"
    and "d_handlers d ID_SYSTEM_REQUEST = Some (on_system_request snd' ser junk8 junk16)"
  shows "\<exists>data ctx. clear_sent k (rp_conns rp') = clear_sent k (rp_conns rp) @ [data] \<and>
     rc_requestId ctx = sr_id (rp_heap rp' ! ref) \<and> remaining (rc_stream ctx) = payload \<and>
     igood (rc_stream ctx) \<and> p_conn (rc_packet ctx) = k' \<and>
     snd (snd (dispatchImpl d (make_packet k' data meta) srv)) =
       (case h ctx (rp_conns srv) of (t, ctx1, c1) \<Rightarrow>
          srv\<lparr>rp_conns := snd (snd (finish_request snd' ser t ctx1 c1))\<rparr>)"
proof -
  obtain r rp1 where r: "reserveRequestSlot now m rp = (r, rp1)" by fastforce
  have r': "r = Inr ref"
    using assms(6) r by (auto simp: sendSystemRequest_def Let_def split: sum.splits prod.splits)
  let ?i = "sr_id (rp_heap rp1 ! ref)"
  let ?data = "word_bytes ID_SYSTEM_REQUEST @ word_bytes m @ word_bytes ?i @ payload"
  have conns: "rp_conns rp1 = rp_conns rp"
    using r by (cases rule: reserve_cases) simp_all
  note wr = writes_request [OF assms(1), of m ?i]
  have len: "length ?data < 1073741824" "length ?data < 2147483648" using assms(2) by simp_all
  note cs = clear_send_writes [where rak = rak and cs = "rp_conns rp1" and k = k and bc = bc and a = a,
    OF wr len(1) assms(3)]
  have peer: "c_peer (rp_conns rp1 k)" using assms(4) conns by simp
  obtain s c where sc: "clear_send rak bc a k (request_writer m ?i w) (rp_conns rp1) = (s, c)" by fastforce
  have s: "s = Inr ()" and c: "clear_sent k c = clear_sent k (rp_conns rp) @ [?data]"
    using cs(1,2) [OF peer] sc conns by simp_all
  have rp': "rp' = rp1\<lparr>rp_conns := c\<rparr>"
    using assms(6) by (simp add: sendSystemRequest_def r r' Let_def sc s)
  let ?p = "make_packet k' ?data meta"
  have p: "p_ok ?p" "p_rest ?p = word_bytes ID_SYSTEM_REQUEST @ word_bytes m @ word_bytes ?i @ payload"
    and pc: "p_conn ?p = k'"
    using make_packet_ok [OF len(2)] by (simp_all add: make_packet_def)
  obtain p1 where p1: "p_read (0 :: byte) ?p = (ID_SYSTEM_REQUEST, p1)" "p_ok p1"
      "p_rest p1 = word_bytes m @ word_bytes ?i @ payload" "p_conn p1 = k'"
    using first_layer [OF p] pc by metis
  obtain p2 where p2: "p_read junk8 p1 = (m, p2)" "p_ok p2" "p_rest p2 = word_bytes ?i @ payload"
      "p_conn p2 = k'"
    using read_byte [OF p1(2,3)] p1(4) by metis
  have len2: "length payload < 1000000000" using assms(2) by simp
  note ctx = context_of_request [OF p2(2,3) len2, of junk16]
  let ?ctx = "RequestContext junk16 p2"
  obtain t ctx1 c1 where h: "h ?ctx (rp_conns srv) = (t, ctx1, c1)" by (cases "h ?ctx (rp_conns srv)") auto
  obtain u ctx2 c2 where f: "finish_request snd' ser t ctx1 c1 = (u, ctx2, c2)"
    by (cases "finish_request snd' ser t ctx1 c1") auto
  have "on_system_request snd' ser junk8 junk16 p1 srv = (Inr True, rc_packet ctx2, srv\<lparr>rp_conns := c2\<rparr>)"
    by (simp add: on_system_request_def assms(7,8) p2(1) Let_def h f)
  from dispatchImpl_processed [OF p1(1) assms(11) this assms(9)]
  have "snd (snd (dispatchImpl d ?p srv)) = srv\<lparr>rp_conns := c2\<rparr>"
    by (simp add: assms(10))
  then show ?thesis
    using ctx c p2(4) by (intro exI [of _ ?data] exI [of _ ?ctx]) (simp add: rp' h f)
qed

text \<open>
  Property C2. The first message a handler sends back completes the request it answers: when
  the caller dispatches the bytes that \<^verbatim>\<open>RequestContext::send\<close> put on the wire, the task of
  the request with that id finishes with a packet whose unread bytes are the reply, its id is
  free again, and no other request changes.
\<close>

theorem reply_completes_request:
  assumes "writes w reply" "length reply < 1000000" "\<And>t. rak t \<noteq> 0"
    and "c_peer (cs (p_conn (rc_packet ctx)))" "\<not> rc_isComplete ctx"
    and "rp_reach send env rp" "rp_alive rp" "ref < length (rp_heap rp)"
    and "sr_task (rp_heap rp ! ref) = Pending" "sr_id (rp_heap rp ! ref) = rc_requestId ctx"
    and "d_maxLayerCount d > 0" "d_defaults d = []"
    and "d_handlers d ID_REQUEST_RESPONSE_MSG = Some (on_response_msg sh now junk)"
  shows "\<exists>data p q. clear_sent (p_conn (rc_packet ctx)) (snd (snd (context_send (clear_send rak bc a) w ctx cs)))
       = clear_sent (p_conn (rc_packet ctx)) cs @ [data] \<and>
     rp_heap (snd (snd (dispatchImpl d (make_packet k data meta) rp))) = (rp_heap rp)[ref := q] \<and>
     rp_pending (snd (snd (dispatchImpl d (make_packet k data meta) rp))) =
       (rp_pending rp)(rc_requestId ctx := None) \<and>
     sr_task q = Done (Some p) \<and> p_rest p = reply"
proof -
  let ?k = "p_conn (rc_packet ctx)" and ?i = "rc_requestId ctx"
  let ?data = "word_bytes ID_REQUEST_RESPONSE_MSG @ word_bytes ?i @ reply"
  have len: "length ?data < 1073741824" "length ?data < 2147483648" using assms(2) by simp_all
  have sent: "clear_sent ?k (snd (snd (context_send (clear_send rak bc a) w ctx cs))) = clear_sent ?k cs @ [?data]"
    using clear_send_writes(2) [where rak = rak and cs = cs, OF writes_response [OF assms(1)] len(1) assms(3,4)]
    by (simp add: context_send_def assms(5) Let_def case_prod_beta)
  note wf = rp_reach_wf [OF assms(6)]
  have pend: "rp_pending rp ?i = Some ref" "\<not> sr_complete (rp_heap rp ! ref)"
    using rp_wf_pending [OF wf assms(8,9)] assms(10) by simp_all
  let ?p = "make_packet k ?data meta"
  have p: "p_ok ?p" "p_rest ?p = word_bytes ID_REQUEST_RESPONSE_MSG @ word_bytes ?i @ reply"
    using make_packet_ok [OF len(2)] by simp_all
  obtain p1 where p1: "p_read (0 :: byte) ?p = (ID_REQUEST_RESPONSE_MSG, p1)" "p_ok p1"
      "p_rest p1 = word_bytes ?i @ reply"
    using first_layer [OF p] by metis
  obtain p2 rp2 q where e: "on_response_msg sh now junk p1 rp = (Inr True, p2, rp2)"
      "rp_pending rp2 = (rp_pending rp)(?i := None)" "rp_heap rp2 = (rp_heap rp)[ref := q]"
      "sr_task q = Done (Some p2)" "p_rest p2 = reply"
    using response_msg_effect [OF assms(7) p1(2,3) pend(1) assms(8) pend(2) assms(9)] by metis
  from dispatchImpl_processed [OF p1(1) assms(13) e(1) assms(11)]
  have "snd (snd (dispatchImpl d ?p rp)) = rp2" by (simp add: assms(12))
  then show ?thesis
    using sent e by (intro exI [of _ ?data] exI [of _ p2] exI [of _ q]) simp
qed

text \<open>
  A request whose transmission throws is answered with a failed task, and its
  id stays taken: the code completes the request but leaves it in the map, so only the
  peer, which never saw the request, or a cancellation could free the slot.
\<close>

theorem failed_send_keeps_slot:
  assumes "reserveRequestSlot now m rp = (Inr ref, rp1)" "rp_wf rp"
    and "send k (request_writer m (sr_id (rp_heap rp1 ! ref)) w) (rp_conns rp1) = (Inl e, c)"
  shows "case sendSystemRequest send now (Some k) m w False rp of (r, rp') \<Rightarrow>
     r = Inr (Issued ref) \<and> sr_task (rp_heap rp' ! ref) = Failed e \<and>
     rp_pending rp' (sr_id (rp_heap rp' ! ref)) = Some ref \<and>
     card (dom (rp_pending rp')) = Suc (card (dom (rp_pending rp)))"
  using assms(1)
proof (cases rule: reserve_cases)
  case (full c)
  then show ?thesis by simp
next
  case (found i)
  then have "i \<notin> dom (rp_pending rp)" by auto
  moreover have "ref = length (rp_heap rp)" using found by simp
  ultimately show ?thesis
    using assms(3) found(3)
    by (simp add: sendSystemRequest_def assms(1) Let_def trySetException_def tce_set_def SystemRequest_def)
qed

text \<open>
  \<^verbatim>\<open>RequestContext::error\<close> does not complete the context: after a handler that
  reports an error and returns normally, the processor also sends the completion message,
  although the header documents \<^verbatim>\<open>error\<close> as the operation that completes the request.
\<close>

theorem error_then_complete:
  fixes cs :: "nat \<Rightarrow> rnconn"
  assumes "writes w msg" "length msg < 1000000" "\<And>t. rak t \<noteq> 0"
    and "c_peer (cs (p_conn (rc_packet ctx)))" "\<not> rc_isComplete ctx" "\<not> rc_didSendValues ctx"
    and "context_error (clear_send rak bc a) w ctx cs = (r, ctx1, cs1)"
    and "finish_request (clear_send rak bc a) ser (Inr ()) ctx1 cs1 = (r', ctx2, cs2)"
  shows "clear_sent (p_conn (rc_packet ctx)) cs2 = clear_sent (p_conn (rc_packet ctx)) cs @
     [ID_REQUEST_RESPONSE_ERROR # word_bytes (rc_requestId ctx) @ msg,
      ID_REQUEST_RESPONSE_COMPLETE # word_bytes (rc_requestId ctx) @ [0]]"
proof -
  let ?k = "p_conn (rc_packet ctx)" and ?i = "rc_requestId ctx"
  have one: "word_bytes (x :: byte) = [x]" for x by (simp add: word_bytes_def)
  note w1 = writes_response [OF assms(1), of ID_REQUEST_RESPONSE_ERROR ?i]
  have l1: "length (word_bytes ID_REQUEST_RESPONSE_ERROR @ word_bytes ?i @ msg) < 1073741824"
    using assms(2) by simp
  note s1 = clear_send_writes [where rak = rak and cs = cs, OF w1 l1 assms(3,4)]
  have r1: "ctx1 = ctx" "cs1 = snd (clear_send rak bc a ?k (response_writer ID_REQUEST_RESPONSE_ERROR ?i w) cs)"
    using assms(7) by (auto simp: context_error_def case_prod_beta)
  have peer: "c_peer (cs1 ?k)"
    using assms(4) unfolding r1(2)
    by (simp add: clear_send_def conn_send_clear Let_def case_prod_beta split: sum.splits)
  note w2 = writes_response [OF writes_put [of "[0]"], of ID_REQUEST_RESPONSE_COMPLETE ?i]
  have l2: "length (word_bytes ID_REQUEST_RESPONSE_COMPLETE @ word_bytes ?i @ [0 :: byte]) < 1073741824"
    by simp
  note s2 = clear_send_writes [where rak = rak and cs = cs1, OF w2 l2 assms(3) peer]
  have "clear_sent ?k cs1 = clear_sent ?k cs @ [word_bytes ID_REQUEST_RESPONSE_ERROR @ word_bytes ?i @ msg]"
    using s1(2) r1(2) by simp
  moreover have "clear_sent ?k cs2 = clear_sent ?k cs1 @
      [word_bytes ID_REQUEST_RESPONSE_COMPLETE @ word_bytes ?i @ [0]]"
    using assms(8) s2(2) [of bc a]
    by (auto simp: finish_request_def r1(1) assms(5,6) context_complete_def Let_def case_prod_beta)
  ultimately show ?thesis by (simp add: one)
qed

text \<open>
  The cancellation callback frees a slot by id. When the token of an answered
  request is canceled after its id has been given out again, the new request, which has
  another token, is removed from the map and its task canceled.
\<close>

lemma stale_cancellation_hits_successor:
  assumes "rp_wf rp" "rp_alive rp" "rp_pending rp i = Some ref" "sr_task (rp_heap rp ! ref) = Pending"
  shows "rp_pending (cancel_callback i rp) i = None \<and>
    sr_task (rp_heap (cancel_callback i rp) ! ref) = Canceled"
proof -
  have "ref < length (rp_heap rp)" using assms(1,3) by (simp add: rp_wf_def)
  then show ?thesis
    using assms(2-4) by (simp add: cancel_callback_def freeRequestSlot_def upd_request_def
        drop_request_def tce_set_def)
qed

section \<open>Witnesses\<close>

definition demo_conns :: "nat \<Rightarrow> rnconn" where
  "demo_conns k = RakNetConnection 1 2 ''k'' True"

definition demo_aes :: aeswin where
  "demo_aes = \<lparr>aw_keys = Map.empty, aw_handles = Map.empty\<rparr>"

definition demo_send :: "(nat \<Rightarrow> rnconn) send_fun" where
  "demo_send = clear_send (\<lambda>_. 1) xor_bcrypt demo_aes"

lemma demo_peer [simp]: "c_peer (demo_conns k)"
  by (simp add: demo_conns_def RakNetConnection_def)

lemma reserve_loop_first:
  "\<not> used (c + 1) \<Longrightarrow> 0 < n \<Longrightarrow> reserve_loop n c used = (Some (c + 1), c + 1)"
  by (cases n) (simp_all add: Let_def)

lemma demo_reserve:
  "reserveRequestSlot now m (RequestProcessor c) = (Inr 0, (RequestProcessor c)\<lparr>rp_counter := 1,
     rp_heap := [(SystemRequest m 1)\<lparr>sr_lastRefresh := now\<rparr>], rp_pending := [1 \<mapsto> 0]\<rparr>)"
  by (simp add: reserveRequestSlot_def reserve_loop_first)

lemma demo_issue:
  "sendSystemRequest s now (Some k) m w False (RequestProcessor c) =
     (Inr (Issued 0), snd (sendSystemRequest s now (Some k) m w False (RequestProcessor c)))"
  by (simp add: sendSystemRequest_def demo_reserve Let_def case_prod_beta)

lemma demo_request:
  assumes "fst (s k (request_writer m 1 w) c) = Inr ()"
  shows "rp_heap (snd (sendSystemRequest s now (Some k) m w False (RequestProcessor c))) =
    [(SystemRequest m 1)\<lparr>sr_lastRefresh := now\<rparr>]"
  using assms
  by (cases "s k (request_writer m 1 w) c")
    (simp add: sendSystemRequest_def demo_reserve Let_def SystemRequest_def)

lemma demo_send_ok:
  assumes "length xs < 1000"
  shows "fst (demo_send k (request_writer m i (put_bytes xs)) demo_conns) = Inr ()"
  unfolding demo_send_def
  by (rule clear_send_writes(1) [OF writes_request [OF writes_put [of xs]]]) (use assms in simp_all)

definition demo_env :: codec_env where
  "demo_env = \<lparr>ce_ser = map (\<lambda>c. of_nat (of_char c)),
     ce_de = (\<lambda>xs. Inr (map (\<lambda>x. char_of (unat x)) xs, length xs)),
     ce_show16 = (\<lambda>_. ''id''), ce_now = 0, ce_junk8 = 0, ce_junk16 = 0\<rparr>"

definition demo_issued :: "(nat \<Rightarrow> rnconn) request_processor" where
  "demo_issued = snd (sendSystemRequest demo_send 0 (Some 3) 7 (put_bytes [1, 2]) False (RequestProcessor demo_conns))"

lemma demo_issued_reach: "rp_reach demo_send demo_env demo_issued"
proof -
  have "rp_reach demo_send demo_env
      (snd (sendSystemRequest demo_send (ce_now demo_env) (Some 3) 7 (put_bytes [1, 2]) False (RequestProcessor demo_conns)))"
    by (intro rp_reach.intros)
  then show ?thesis by (simp add: demo_issued_def demo_env_def)
qed

lemma demo_issued_heap: "rp_heap demo_issued = [SystemRequest 7 1]"
  using demo_request [of demo_send 3 7 "put_bytes [1, 2]" demo_conns 0] demo_send_ok [of "[1, 2]" 3 7 1]
  by (simp add: demo_issued_def SystemRequest_def)

lemma demo_issued_alive: "rp_alive demo_issued"
  by (simp add: demo_issued_def sendSystemRequest_def demo_reserve Let_def case_prod_beta upd_request_def
      split: sum.splits)

theorem pending_requests_reachable_witness: "rp_pending demo_issued 1 = Some 0"
  using pending_requests_reachable [OF demo_issued_reach, of 0]
  by (simp add: demo_issued_heap SystemRequest_def)

theorem request_ids_distinct_witness:
  "\<exists>ids rp'. rps.reserve_all [(0, 1), (0, 2)] (RequestProcessor demo_conns) = Some (ids, rp') \<and> distinct ids"
proof -
  have "length [(0 :: nat, 1 :: byte), (0, 2)] + card (dom (rp_pending (RequestProcessor demo_conns))) \<le> 65536"
    by simp
  from request_ids_distinct [OF this, of 0 0] show ?thesis by blast
qed

definition demo_handler :: "(nat \<Rightarrow> rnconn) req_handler" where
  "demo_handler ctx c = (Inr (), ctx, c)"

definition demo_server :: "(nat \<Rightarrow> rnconn) request_processor" where
  "demo_server = (RequestProcessor demo_conns)\<lparr>rp_handlers := [7 \<mapsto> demo_handler]\<rparr>"

definition demo_dispatcher :: "(nat \<Rightarrow> rnconn) request_processor dispatcher" where
  "demo_dispatcher = DefaultPacketDispatcher\<lparr>d_handlers :=
     [ID_SYSTEM_REQUEST \<mapsto> on_system_request demo_send (ce_ser demo_env) 0 0,
      ID_REQUEST_RESPONSE_MSG \<mapsto> on_response_msg (ce_show16 demo_env) 0 0]\<rparr>"

theorem request_reaches_handler_witness:
  "\<exists>data ctx. clear_sent 3 (rp_conns demo_issued) = clear_sent 3 demo_conns @ [data] \<and>
     remaining (rc_stream ctx) = [1, 2] \<and>
     snd (snd (dispatchImpl demo_dispatcher (make_packet 4 data Map.empty) demo_server)) =
       (case demo_handler ctx (rp_conns demo_server) of (t, ctx1, c1) \<Rightarrow>
          demo_server\<lparr>rp_conns := snd (snd (finish_request demo_send (ce_ser demo_env) t ctx1 c1))\<rparr>)"
proof -
  have c: "rp_conns (RequestProcessor demo_conns) = demo_conns" "rp_alive (RequestProcessor demo_conns)"
    by simp_all
  have s: "rp_alive demo_server" "rp_handlers demo_server 7 = Some demo_handler"
    by (simp_all add: demo_server_def)
  have d: "d_maxLayerCount demo_dispatcher > 0" "d_defaults demo_dispatcher = []"
    "d_handlers demo_dispatcher ID_SYSTEM_REQUEST = Some (on_system_request demo_send (ce_ser demo_env) 0 0)"
    by (simp_all add: demo_dispatcher_def DefaultPacketDispatcher_def message_ids)
  note i = demo_issue [of demo_send 0 3 7 "put_bytes [1, 2]" demo_conns, folded demo_issued_def,
      unfolded demo_send_def]
  have p: "c_peer (rp_conns (RequestProcessor demo_conns) 3)" by (simp add: c)
  show ?thesis
    using request_reaches_handler [OF writes_put [of "[1, 2]"] _ _ p c(2) i s d, of 4 Map.empty]
    by (simp add: c) blast
qed

theorem reply_completes_request_witness:
  "\<exists>data p q. rp_heap (snd (snd (dispatchImpl demo_dispatcher (make_packet 3 data Map.empty) demo_issued))) = [q] \<and>
     sr_task q = Done (Some p) \<and> p_rest p = [9]"
proof -
  let ?ctx = "(RequestContext 0 (make_packet 4 (word_bytes (1 :: u16)) Map.empty))"
  have "p_ok (make_packet 4 (word_bytes (1 :: u16)) Map.empty)"
    "p_rest (make_packet 4 (word_bytes (1 :: u16)) Map.empty) = word_bytes (1 :: u16) @ []"
    using make_packet_ok [of "word_bytes (1 :: u16)" 4 Map.empty] by simp_all
  from context_of_request [OF this, of 0]
  have ctx: "rc_requestId ?ctx = 1" "\<not> rc_isComplete ?ctx" by simp_all
  have d: "d_maxLayerCount demo_dispatcher > 0" "d_defaults demo_dispatcher = []"
    "d_handlers demo_dispatcher ID_REQUEST_RESPONSE_MSG = Some (on_response_msg (ce_show16 demo_env) 0 0)"
    by (simp_all add: demo_dispatcher_def DefaultPacketDispatcher_def message_ids)
  have r: "0 < length (rp_heap demo_issued)" "sr_task (rp_heap demo_issued ! 0) = Pending"
    "sr_id (rp_heap demo_issued ! 0) = rc_requestId ?ctx"
    by (simp_all add: demo_issued_heap SystemRequest_def ctx)
  have p: "c_peer (demo_conns (p_conn (rc_packet ?ctx)))" by simp
  show ?thesis
    using reply_completes_request [where rak = "\<lambda>_. 1" and cs = demo_conns,
        OF writes_put [of "[9]"] _ _ p ctx(2) demo_issued_reach demo_issued_alive r d, of xor_bcrypt demo_aes 3 Map.empty]
    by (simp add: demo_issued_heap) blast
qed

theorem failed_send_keeps_slot_witness:
  "case sendSystemRequest (\<lambda>k w c. (Inl (RuntimeError ''x''), c)) 0 (Some 3) 7 None False (RequestProcessor ()) of
     (r, rp') \<Rightarrow> sr_task (rp_heap rp' ! 0) = Failed (RuntimeError ''x'') \<and> rp_pending rp' 1 \<noteq> None"
  using failed_send_keeps_slot [where send = "\<lambda>k w c. (Inl (RuntimeError ''x''), c)" and k = 3 and w = None
      and e = "RuntimeError ''x''", OF demo_reserve [of 0 7 "()"] rp_wf_init refl]
  by (simp add: sendSystemRequest_def demo_reserve Let_def trySetException_def tce_set_def SystemRequest_def
      upd_request_def)

lemma surj3: "x = (fst x, fst (snd x), snd (snd x))"
  by simp

theorem error_then_complete_witness:
  "length (clear_sent 4 (snd (snd (finish_request demo_send (ce_ser demo_env) (Inr ())
     (fst (snd (context_error demo_send (put_bytes [8]) (RequestContext 0 (make_packet 4 [1, 0] Map.empty)) demo_conns)))
     (snd (snd (context_error demo_send (put_bytes [8]) (RequestContext 0 (make_packet 4 [1, 0] Map.empty)) demo_conns))))))) = 2"
proof -
  let ?ctx = "RequestContext 0 (make_packet 4 [1, 0] Map.empty)"
  have "p_ok (make_packet 4 [1, 0] Map.empty)"
    "p_rest (make_packet 4 [1, 0] Map.empty) = word_bytes (1 :: u16) @ []"
    using make_packet_ok [of "[1, 0]" 4 Map.empty] by (simp_all add: word_bytes_def upt_rec)
  from context_of_request [OF this, of 0]
  have ctx: "\<not> rc_isComplete ?ctx" "\<not> rc_didSendValues ?ctx" "p_conn (rc_packet ?ctx) = 4"
    by (simp_all add: make_packet_def)
  have p: "c_peer (demo_conns (p_conn (rc_packet ?ctx)))" by simp
  have "clear_sent 4 demo_conns = []"
    by (simp add: clear_sent_def demo_conns_def RakNetConnection_def)
  with error_then_complete [where rak = "\<lambda>_. 1" and cs = demo_conns and bc = xor_bcrypt and a = demo_aes
        and ser = "ce_ser demo_env", OF writes_put [of "[8]"] _ _ p ctx(1,2) surj3 surj3, folded demo_send_def]
  show ?thesis
    unfolding ctx(3) by (simp del: One_nat_def)
qed

end
