(* ===== verification/Connections.thy ===== *)
theory Connections
  imports Network
begin

text \<open>
  The repository of connections and the peer-to-peer sessions:
  \<^verbatim>\<open>P2P/ConnectionsRepository.cpp\<close> and \<^verbatim>\<open>P2P/P2PSessions.cpp\<close>. Connection objects
  live in a list and are named by their index; the two maps of the repository hold
  references to tasks, as the code's maps hold tasks that may still be running. What the
  sessions rely on is the locale \<^verbatim>\<open>connection_manager\<close>, interpreted on the repository.
\<close>

section \<open>The repository\<close>

text \<open>
  \<^verbatim>\<open>cr_tasks\<close> are the tasks of the maps (their value is a connection), \<^verbatim>\<open>cr_waiting\<close> the
  tasks handed out by \<^verbatim>\<open>addPendingConnection\<close>, \<^verbatim>\<open>cr_store\<close> the connection objects.
\<close>

record repository =
  cr_store :: "rnconn list"
  cr_tasks :: "nat task list"
  cr_connections :: "u64 \<rightharpoonup> nat"
  cr_connectionsByKey :: "string \<rightharpoonup> nat"
  cr_pendingP2P :: "u64 \<rightharpoonup> string \<times> nat"
  cr_waiting :: "nat task list"

definition ConnectionsRepository :: repository where
  "ConnectionsRepository = \<lparr>cr_store = [], cr_tasks = [], cr_connections = Map.empty,
     cr_connectionsByKey = Map.empty, cr_pendingP2P = Map.empty, cr_waiting = []\<rparr>"

text \<open>
  \<^verbatim>\<open>emplace\<close> keeps an entry that is there already; the completion event of the new one is
  then destroyed when the function returns, which cancels the task it hands out.
\<close>

definition addPendingConnection :: "u64 \<Rightarrow> string \<Rightarrow> repository \<Rightarrow> nat \<times> repository" where
  "addPendingConnection i sessionId r =
     (let t = length (cr_waiting r) in
      (t, r\<lparr>cr_waiting := cr_waiting r @ [if cr_pendingP2P r i = None then Pending else Canceled],
            cr_pendingP2P := emplace i (sessionId, t) (cr_pendingP2P r)\<rparr>))"

text \<open>
  \<^verbatim>\<open>newConnection\<close>: the argument is the index of the object, \<^const>\<open>None\<close> for a null
  pointer. The log line reads the connection before the null check, so a null pointer is
  dereferenced and never reaches the exception: the answer is \<^const>\<open>None\<close>.
\<close>

definition newConnection :: "nat option \<Rightarrow> repository \<Rightarrow> repository option" where
  "newConnection conn r =
     (case conn of
        None \<Rightarrow> None
      | Some c \<Rightarrow>
          (let i = c_id (cr_store r ! c);
               key = c_key (cr_store r ! c);
               t = length (cr_tasks r);
               r1 = r\<lparr>cr_tasks := cr_tasks r @ [Done c],
                      cr_connections := emplace i t (cr_connections r),
                      cr_connectionsByKey := emplace key t (cr_connectionsByKey r)\<rparr>
           in Some (case cr_pendingP2P r1 i of
                None \<Rightarrow> r1
              | Some (sessionId, w) \<Rightarrow>
                  r1\<lparr>cr_pendingP2P := (cr_pendingP2P r1)(i := None),
                     cr_store := (cr_store r1)[c := (cr_store r1 ! c)\<lparr>c_sessionId := sessionId\<rparr>],
                     cr_waiting := (cr_waiting r1)[w := Done c]\<rparr>)))"

text \<open>The subscription on \<^verbatim>\<open>onClose\<close> and \<^verbatim>\<open>closeConnection\<close> erase by id and by key.\<close>

definition forget :: "u64 \<Rightarrow> string \<Rightarrow> repository \<Rightarrow> repository" where
  "forget i key r = r\<lparr>cr_connections := (cr_connections r)(i := None),
     cr_connectionsByKey := (cr_connectionsByKey r)(key := None)\<rparr>"

definition closeConnection :: "nat \<Rightarrow> repository \<Rightarrow> repository" where
  "closeConnection c r = forget (c_id (cr_store r ! c)) (c_key (cr_store r ! c)) r"

text \<open>
  The lookups. A task that is not done gives a null pointer; \<^verbatim>\<open>get()\<close> on a task that
  failed throws.
\<close>

definition task_connection :: "nat task \<Rightarrow> nat option res" where
  "task_connection t = (case task_get t of None \<Rightarrow> Inr None | Some r \<Rightarrow> map_sum id Some r)"

definition getConnection_key :: "string \<Rightarrow> repository \<Rightarrow> nat option res" where
  "getConnection_key key r =
     (case cr_connectionsByKey r key of None \<Rightarrow> Inr None | Some t \<Rightarrow> task_connection (cr_tasks r ! t))"

definition getConnection_id :: "u64 \<Rightarrow> repository \<Rightarrow> nat option res" where
  "getConnection_id i r =
     (case cr_connections r i of None \<Rightarrow> Inr None | Some t \<Rightarrow> task_connection (cr_tasks r ! t))"

definition getConnectionCount :: "repository \<Rightarrow> int" where
  "getConnectionCount r = to_int32 (int (card (dom (cr_connections r))))"

subsection \<open>Connections made by a factory\<close>

text \<open>
  \<^verbatim>\<open>getConnection(id, factory)\<close> in its three steps: the call of the factory with the task
  of the continuation, the insertion of that task into the map, and the continuation, which
  runs when the factory's task is finished. The function holds the mutex for the first two;
  the continuation does not take it, so it may come before the insertion when the factory's
  task finishes early.
\<close>

definition create_begin :: "repository \<Rightarrow> nat \<times> repository" where
  "create_begin r = (length (cr_tasks r), r\<lparr>cr_tasks := cr_tasks r @ [Pending]\<rparr>)"

definition create_publish :: "string \<Rightarrow> nat \<Rightarrow> repository \<Rightarrow> repository" where
  "create_publish key t r = r\<lparr>cr_connectionsByKey := emplace key t (cr_connectionsByKey r)\<rparr>"

definition create_done :: "string \<Rightarrow> nat \<Rightarrow> nat res \<Rightarrow> repository \<Rightarrow> repository" where
  "create_done key t outcome r =
     (case outcome of
        Inr c \<Rightarrow>
          (let t' = length (cr_tasks r) in
           r\<lparr>cr_tasks := (cr_tasks r)[t := Done c] @ [Done c],
             cr_connections := emplace (c_id (cr_store r ! c)) t' (cr_connections r)\<rparr>)
      | Inl e \<Rightarrow>
          r\<lparr>cr_connectionsByKey := (cr_connectionsByKey r)(key := None),
            cr_tasks := (cr_tasks r)[t := Failed e]\<rparr>)"

text \<open>The answer tells whether the factory was called.\<close>

definition getConnection_factory :: "string \<Rightarrow> repository \<Rightarrow> bool \<times> nat \<times> repository" where
  "getConnection_factory key r =
     (case cr_connectionsByKey r key of
        Some t \<Rightarrow> (False, t, r)
      | None \<Rightarrow> (case create_begin r of (t, r1) \<Rightarrow> (True, t, create_publish key t r1)))"

subsection \<open>Closing\<close>

text \<open>
  Closing a connection object runs its \<^verbatim>\<open>onClose\<close> event, whose subscriber here is the
  repository's. The subscription lives in the container that the maps' tasks hold, so it is
  there as long as one of the maps refers to a task with this connection.
\<close>

definition subscribed :: "nat \<Rightarrow> repository \<Rightarrow> bool" where
  "subscribed c r \<longleftrightarrow>
     (case cr_connections r (c_id (cr_store r ! c)) of
        None \<Rightarrow> False | Some t \<Rightarrow> cr_tasks r ! t = Done c) \<or>
     (case cr_connectionsByKey r (c_key (cr_store r ! c)) of
        None \<Rightarrow> False | Some t \<Rightarrow> cr_tasks r ! t = Done c)"

definition close_object :: "string \<Rightarrow> nat \<Rightarrow> repository \<Rightarrow> repository" where
  "close_object reason c r =
     (let o0 = cr_store r ! c;
          o1 = close_connection reason o0;
          r1 = r\<lparr>cr_store := (cr_store r)[c := o1]\<rparr>
      in if length (c_onClose o1) = length (c_onClose o0) \<or> \<not> subscribed c r then r1
         else forget (c_id o0) (c_key o0) r1)"

text \<open>
  \<^verbatim>\<open>closeAllConnections\<close> walks over a copy of the map; \<^term>\<open>ids\<close> is the order of the
  hash table. A task that failed is skipped.
\<close>

fun close_each :: "string \<Rightarrow> nat task list \<Rightarrow> repository \<Rightarrow> repository" where
  "close_each reason [] r = r"
| "close_each reason (t # ts) r =
     close_each reason ts (case t of Done c \<Rightarrow> close_object reason c r | _ \<Rightarrow> r)"

definition closeAllConnections :: "u64 list \<Rightarrow> string \<Rightarrow> repository \<Rightarrow> repository" where
  "closeAllConnections ids reason r =
     close_each reason (map (\<lambda>i. cr_tasks r ! the (cr_connections r i)) ids) r"

section \<open>Peer-to-peer sessions\<close>

datatype P2PSessionState = SessionConnecting | SessionConnected | SessionClosing | SessionUnknown

record P2PSession =
  ps_sessionId :: "byte list"
  ps_remotePeerId :: u64
  ps_sceneId :: string
  ps_remoteSessionId :: string
  ps_owningSessionId :: string
  ps_status :: P2PSessionState

type_synonym sessions = "string \<rightharpoonup> P2PSession"

definition updateSessionState :: "string \<Rightarrow> P2PSessionState \<Rightarrow> sessions \<Rightarrow> bool \<times> sessions" where
  "updateSessionState i st ss =
     (case ss i of Some s \<Rightarrow> (True, ss(i \<mapsto> s\<lparr>ps_status := st\<rparr>)) | None \<Rightarrow> (False, ss))"

definition createSession :: "string \<Rightarrow> P2PSession \<Rightarrow> sessions \<Rightarrow> unit res \<times> sessions" where
  "createSession i s ss =
     (if ss i \<noteq> None then (Inl (RuntimeError ''Session already created.''), ss) else (Inr (), ss(i \<mapsto> s)))"

text \<open>
  \<^verbatim>\<open>closeSession\<close> looks the connection up before it erases the session and closes it after;
  an exception of the lookup leaves the session in place. \<^term>\<open>get\<close> and \<^term>\<open>close\<close> are
  the connection manager's.
\<close>

definition closeSession ::
  "(u64 \<Rightarrow> 'r \<Rightarrow> nat option res) \<Rightarrow> (nat \<Rightarrow> 'r \<Rightarrow> 'r) \<Rightarrow> string \<Rightarrow> sessions \<Rightarrow> 'r \<Rightarrow>
   bool res \<times> sessions \<times> 'r" where
  "closeSession get close i ss r =
     (case ss i of
        None \<Rightarrow> (Inr False, ss, r)
      | Some s \<Rightarrow>
          (case get (ps_remotePeerId s) r of
             Inl e \<Rightarrow> (Inl e, ss, r)
           | Inr None \<Rightarrow> (Inr False, ss(i := None), r)
           | Inr (Some c) \<Rightarrow> (Inr True, ss(i := None), close c r)))"

definition tryGetSession :: "string \<Rightarrow> P2PSession \<Rightarrow> sessions \<Rightarrow> bool \<times> P2PSession" where
  "tryGetSession i dummy ss = (case ss i of Some s \<Rightarrow> (True, s) | None \<Rightarrow> (False, dummy))"

section \<open>The invariant of the repository\<close>

text \<open>
  The maps refer to tasks that exist; an entry under an id holds a connection with that id.
  A waiting task that is pending belongs to exactly one entry of the pending map.
\<close>

definition maps_wf :: "repository \<Rightarrow> bool" where
  "maps_wf r \<longleftrightarrow>
     (\<forall>i t. cr_connections r i = Some t \<longrightarrow> t < length (cr_tasks r) \<and>
        (\<exists>c < length (cr_store r). cr_tasks r ! t = Done c \<and> c_id (cr_store r ! c) = i)) \<and>
     (\<forall>k t. cr_connectionsByKey r k = Some t \<longrightarrow> t < length (cr_tasks r)) \<and>
     (\<forall>t < length (cr_tasks r). \<forall>c. cr_tasks r ! t = Done c \<longrightarrow> c < length (cr_store r))"

definition waiting_wf :: "repository \<Rightarrow> bool" where
  "waiting_wf r \<longleftrightarrow>
     (\<forall>i s w. cr_pendingP2P r i = Some (s, w) \<longrightarrow> w < length (cr_waiting r) \<and> cr_waiting r ! w = Pending) \<and>
     (\<forall>i j s s' w. cr_pendingP2P r i = Some (s, w) \<longrightarrow> cr_pendingP2P r j = Some (s', w) \<longrightarrow> i = j) \<and>
     (\<forall>w < length (cr_waiting r). cr_waiting r ! w = Pending \<longrightarrow> (\<exists>i s. cr_pendingP2P r i = Some (s, w)))"

lemma repo_wf_new: "maps_wf ConnectionsRepository" "waiting_wf ConnectionsRepository"
  by (simp_all add: maps_wf_def waiting_wf_def ConnectionsRepository_def)

lemma maps_wf_frame [simp]:
  "maps_wf (r\<lparr>cr_pendingP2P := p\<rparr>) = maps_wf r" "maps_wf (r\<lparr>cr_waiting := w\<rparr>) = maps_wf r"
  by (simp_all add: maps_wf_def)

lemma waiting_wf_frame [simp]:
  "waiting_wf (r\<lparr>cr_store := s\<rparr>) = waiting_wf r" "waiting_wf (r\<lparr>cr_tasks := t\<rparr>) = waiting_wf r"
  "waiting_wf (r\<lparr>cr_connections := m\<rparr>) = waiting_wf r"
  "waiting_wf (r\<lparr>cr_connectionsByKey := k\<rparr>) = waiting_wf r"
  by (simp_all add: waiting_wf_def)

lemma pending_add_wf:
  assumes "addPendingConnection i s r = (w, r')"
  shows "maps_wf r \<Longrightarrow> maps_wf r'" "waiting_wf r \<Longrightarrow> waiting_wf r'"
proof -
  show "maps_wf r \<Longrightarrow> maps_wf r'"
    using assms by (auto simp: addPendingConnection_def Let_def)
  assume wf: "waiting_wf r"
  show "waiting_wf r'"
  proof (cases "cr_pendingP2P r i")
    case None
    have r': "r' = r\<lparr>cr_waiting := cr_waiting r @ [Pending],
        cr_pendingP2P := (cr_pendingP2P r)(i \<mapsto> (s, length (cr_waiting r)))\<rparr>"
      using assms None by (auto simp: addPendingConnection_def Let_def)
    have old: "v < length (cr_waiting r)" "cr_waiting r ! v = Pending" "j \<noteq> i"
      if "cr_pendingP2P r j = Some (s', v)" for j s' v
      using None that wf by (auto simp: waiting_wf_def)
    show ?thesis
      unfolding r' waiting_wf_def
      using wf old None by (auto simp: waiting_wf_def nth_append less_Suc_eq) metis+
  next
    case (Some x)
    have "r' = r\<lparr>cr_waiting := cr_waiting r @ [Canceled]\<rparr>"
      using assms Some by (auto simp: addPendingConnection_def Let_def)
    then show ?thesis
      using wf by (auto simp: waiting_wf_def nth_append less_Suc_eq)
  qed
qed

lemma store_upd_ids:
  assumes "c < length st" "c_id o1 = c_id (st ! c)" "c_key o1 = c_key (st ! c)"
  shows "c_id ((st[c := o1]) ! d) = c_id (st ! d)" "c_key ((st[c := o1]) ! d) = c_key (st ! d)"
  using assms by (cases "c = d"; simp)+

lemma maps_wf_store:
  assumes "maps_wf r" "c < length (cr_store r)" "c_id o1 = c_id (cr_store r ! c)" "c_key o1 = c_key (cr_store r ! c)"
  shows "maps_wf (r\<lparr>cr_store := (cr_store r)[c := o1]\<rparr>)"
  using assms(1) store_upd_ids [OF assms(2-4)] by (simp add: maps_wf_def)

lemma close_connection_ids [simp]:
  "c_id (close_connection s c) = c_id c" "c_key (close_connection s c) = c_key c"
  by (simp_all add: close_connection_def setConnectionState_def fire_onClose_def Let_def)

text \<open>The first part of \<^const>\<open>newConnection\<close>.\<close>

definition add_task :: "nat \<Rightarrow> repository \<Rightarrow> repository" where
  "add_task c r =
     (let t = length (cr_tasks r) in
      r\<lparr>cr_tasks := cr_tasks r @ [Done c],
        cr_connections := emplace (c_id (cr_store r ! c)) t (cr_connections r),
        cr_connectionsByKey := emplace (c_key (cr_store r ! c)) t (cr_connectionsByKey r)\<rparr>)"

lemma add_task_frame [simp]:
  "cr_store (add_task c r) = cr_store r" "cr_pendingP2P (add_task c r) = cr_pendingP2P r"
  "cr_waiting (add_task c r) = cr_waiting r" "waiting_wf (add_task c r) = waiting_wf r"
  by (simp_all add: add_task_def Let_def)

lemma emplace_cases: "emplace k v m j = Some x \<Longrightarrow> m j = Some x \<or> (j = k \<and> x = v \<and> m k = None)"
  by (auto simp: emplace_def split: option.splits if_splits)

lemma maps_wf_add_task:
  assumes "maps_wf r" "c < length (cr_store r)"
  shows "maps_wf (add_task c r)"
proof -
  let ?t = "length (cr_tasks r)"
  have 1: "t < Suc ?t \<and> (\<exists>d < length (cr_store r). (cr_tasks r @ [Done c]) ! t = Done d \<and> c_id (cr_store r ! d) = i)"
    if "emplace (c_id (cr_store r ! c)) ?t (cr_connections r) i = Some t" for i t
    using emplace_cases [OF that] assms by (fastforce simp: maps_wf_def nth_append)
  have 2: "t < Suc ?t" if "emplace (c_key (cr_store r ! c)) ?t (cr_connectionsByKey r) k = Some t" for k t
    using emplace_cases [OF that] assms by (auto simp: maps_wf_def less_Suc_eq)
  have 3: "d < length (cr_store r)" if "t < Suc ?t" "(cr_tasks r @ [Done c]) ! t = Done d" for t d
    using that assms by (auto simp: maps_wf_def nth_append less_Suc_eq split: if_splits)
  show ?thesis
    unfolding maps_wf_def using 1 2 3 by (simp add: add_task_def Let_def)
qed

lemma newConnection_add:
  "newConnection (Some c) r =
     (let r1 = add_task c r in
      Some (case cr_pendingP2P r (c_id (cr_store r ! c)) of
        None \<Rightarrow> r1
      | Some (sessionId, w) \<Rightarrow>
          r1\<lparr>cr_pendingP2P := (cr_pendingP2P r1)(c_id (cr_store r ! c) := None),
             cr_store := (cr_store r1)[c := (cr_store r1 ! c)\<lparr>c_sessionId := sessionId\<rparr>],
             cr_waiting := (cr_waiting r1)[w := Done c]\<rparr>))"
  by (simp add: newConnection_def add_task_def Let_def)

lemma newConnection_wf:
  assumes "c < length (cr_store r)" "newConnection (Some c) r = Some r'"
  shows "maps_wf r \<Longrightarrow> maps_wf r'" "waiting_wf r \<Longrightarrow> waiting_wf r'"
proof -
  let ?i = "c_id (cr_store r ! c)" and ?a = "add_task c r"
  show "maps_wf r'" if wf: "maps_wf r"
  proof -
    have m: "maps_wf ?a" by (rule maps_wf_add_task [OF wf assms(1)])
    have "maps_wf (?a\<lparr>cr_store := (cr_store ?a)[c := (cr_store ?a ! c)\<lparr>c_sessionId := s\<rparr>]\<rparr>)" for s
      by (rule maps_wf_store [OF m]) (simp_all add: assms(1))
    then have "maps_wf (?a\<lparr>cr_pendingP2P := p, cr_store := (cr_store r)[c := (cr_store r ! c)\<lparr>c_sessionId := s\<rparr>],
        cr_waiting := w\<rparr>)" for s p w
      using maps_wf_frame by (simp add: maps_wf_def)
    then show ?thesis
      using assms(2) m by (auto simp: newConnection_add Let_def split: option.splits)
  qed
  show "waiting_wf r'" if wf: "waiting_wf r"
  proof (cases "cr_pendingP2P r ?i")
    case None
    then show ?thesis using assms(2) wf by (auto simp: newConnection_add Let_def)
  next
    case (Some x)
    obtain s w where x: "x = (s, w)" by fastforce
    have r': "r' = ?a\<lparr>cr_pendingP2P := (cr_pendingP2P r)(?i := None),
             cr_store := (cr_store r)[c := (cr_store r ! c)\<lparr>c_sessionId := s\<rparr>],
             cr_waiting := (cr_waiting r)[w := Done c]\<rparr>"
      using assms(2) Some x by (simp add: newConnection_add Let_def)
    have other: "v \<noteq> w" if "cr_pendingP2P r j = Some (s', v)" "j \<noteq> ?i" for j s' v
      using that Some x wf unfolding waiting_wf_def by metis
    have w: "w < length (cr_waiting r)" using wf Some x by (auto simp: waiting_wf_def)
    have mine: "j \<noteq> ?i" if "cr_pendingP2P r j = Some (s', v)" "v \<noteq> w" for j s' v
      using that Some x by auto
    show ?thesis
      unfolding r' waiting_wf_def using wf other w mine
      by (auto simp: waiting_wf_def nth_list_update split: if_splits) metis+
  qed
qed

section \<open>The contract of a connection manager\<close>

text \<open>
  What the users of \<^verbatim>\<open>IConnectionManager\<close> rely on: a lookup by id does not throw and finds
  the connection registered first under that id, until it is removed.
\<close>

locale connection_manager =
  fixes inv :: "'r \<Rightarrow> bool"
    and valid :: "nat \<Rightarrow> 'r \<Rightarrow> bool"
    and cid :: "'r \<Rightarrow> nat \<Rightarrow> u64"
    and get :: "u64 \<Rightarrow> 'r \<Rightarrow> nat option res"
    and add :: "nat \<Rightarrow> 'r \<Rightarrow> 'r"
    and remove :: "nat \<Rightarrow> 'r \<Rightarrow> 'r"
  assumes get_total: "inv r \<Longrightarrow> \<exists>c. get i r = Inr c"
    and get_valid: "inv r \<Longrightarrow> get i r = Inr (Some c) \<Longrightarrow> valid c r \<and> cid r c = i"
    and add_inv: "inv r \<Longrightarrow> valid c r \<Longrightarrow> inv (add c r)"
    and add_frame: "valid d (add c r) = valid d r" "cid (add c r) d = cid r d"
    and add_get: "inv r \<Longrightarrow> valid c r \<Longrightarrow>
      get i (add c r) = (if i = cid r c \<and> get i r = Inr None then Inr (Some c) else get i r)"
    and remove_inv: "inv r \<Longrightarrow> inv (remove c r)"
    and remove_frame: "valid d (remove c r) = valid d r" "cid (remove c r) d = cid r d"
    and remove_get: "get i (remove c r) = (if i = cid r c then Inr None else get i r)"
begin

lemma add_all_inv: "inv r \<Longrightarrow> \<forall>c \<in> set cs. valid c r \<Longrightarrow> inv (fold add cs r)"
  by (induction cs arbitrary: r) (simp_all add: add_inv add_frame)

text \<open>Of several connections registered under one id the first wins.\<close>

lemma add_all_get:
  assumes "inv r" "\<forall>c \<in> set cs. valid c r"
  shows "get i (fold add cs r) =
    (case get i r of Inr None \<Rightarrow> Inr (find (\<lambda>c. cid r c = i) cs) | x \<Rightarrow> x)"
  using assms
proof (induction cs arbitrary: r)
  case Nil
  obtain x where "get i r = Inr x" using get_total [OF Nil.prems(1)] by blast
  then show ?case by (cases x) simp_all
next
  case (Cons c cs)
  have v: "inv (add c r)" "\<forall>d \<in> set cs. valid d (add c r)"
    using Cons.prems by (simp_all add: add_inv add_frame)
  have cid: "(\<lambda>d. cid (add c r) d = i) = (\<lambda>d. cid r d = i)" by (simp add: add_frame)
  obtain x where x: "get i r = Inr x" using get_total [OF Cons.prems(1)] by blast
  show ?case
    using Cons.IH [OF v] Cons.prems by (cases x) (auto simp: add_get cid x)
qed

lemma add_remove_get:
  assumes "inv r" "valid c r" "get (cid r c) r = Inr None"
  shows "get i (remove c (add c r)) = get i r"
  using assms by (simp add: remove_get add_get add_frame)

end

lemma maps_wfD:
  assumes "maps_wf r" "cr_connections r i = Some t"
  obtains c where "t < length (cr_tasks r)" "c < length (cr_store r)" "cr_tasks r ! t = Done c"
    "c_id (cr_store r ! c) = i"
proof -
  from assms(1) have "\<forall>i t. cr_connections r i = Some t \<longrightarrow> t < length (cr_tasks r) \<and>
        (\<exists>c < length (cr_store r). cr_tasks r ! t = Done c \<and> c_id (cr_store r ! c) = i)"
    by (simp add: maps_wf_def)
  with assms(2) that show ?thesis by blast
qed

lemma maps_wfI:
  assumes "\<And>i t. cr_connections r i = Some t \<Longrightarrow> t < length (cr_tasks r) \<and>
        (\<exists>c < length (cr_store r). cr_tasks r ! t = Done c \<and> c_id (cr_store r ! c) = i)"
    and "\<And>k t. cr_connectionsByKey r k = Some t \<Longrightarrow> t < length (cr_tasks r)"
    and "\<And>t c. t < length (cr_tasks r) \<Longrightarrow> cr_tasks r ! t = Done c \<Longrightarrow> c < length (cr_store r)"
  shows "maps_wf r"
  using assms by (simp add: maps_wf_def)

lemma getConnection_id_wf:
  assumes "maps_wf r"
  shows "getConnection_id i r = Inr None \<longleftrightarrow> cr_connections r i = None"
    "getConnection_id i r = Inr (Some c) \<longleftrightarrow> (\<exists>t. cr_connections r i = Some t \<and> cr_tasks r ! t = Done c)"
    "\<exists>x. getConnection_id i r = Inr x"
proof -
  consider "cr_connections r i = None" | t d where "cr_connections r i = Some t" "cr_tasks r ! t = Done d"
  proof (cases "cr_connections r i")
    case None
    then show ?thesis by (rule that(1))
  next
    case (Some t)
    from maps_wfD [OF assms Some] obtain d where "cr_tasks r ! t = Done d" by metis
    with Some show ?thesis by (rule that(2))
  qed
  then have "(getConnection_id i r = Inr None \<longleftrightarrow> cr_connections r i = None) \<and>
    (getConnection_id i r = Inr (Some c) \<longleftrightarrow> (\<exists>t. cr_connections r i = Some t \<and> cr_tasks r ! t = Done c)) \<and>
    (\<exists>x. getConnection_id i r = Inr x)"
    by cases (simp_all add: getConnection_id_def task_connection_def)
  then show "getConnection_id i r = Inr None \<longleftrightarrow> cr_connections r i = None"
    "getConnection_id i r = Inr (Some c) \<longleftrightarrow> (\<exists>t. cr_connections r i = Some t \<and> cr_tasks r ! t = Done c)"
    "\<exists>x. getConnection_id i r = Inr x" by blast+
qed

definition register :: "nat \<Rightarrow> repository \<Rightarrow> repository" where
  "register c r = (case newConnection (Some c) r of None \<Rightarrow> r | Some r' \<Rightarrow> r')"

lemma newConnection_some: "newConnection (Some c) r = Some (register c r)"
  by (simp add: register_def newConnection_def Let_def)

lemma register_fields:
  "cr_connections (register c r) = cr_connections (add_task c r)"
  "cr_connectionsByKey (register c r) = cr_connectionsByKey (add_task c r)"
  "cr_tasks (register c r) = cr_tasks (add_task c r)"
  "length (cr_store (register c r)) = length (cr_store r)"
  by (simp_all add: register_def newConnection_add Let_def split: option.splits)

lemma register_store:
  assumes "c < length (cr_store r)"
  shows "c_id (cr_store (register c r) ! d) = c_id (cr_store r ! d)"
    "c_key (cr_store (register c r) ! d) = c_key (cr_store r ! d)"
    "c_state (cr_store (register c r) ! d) = c_state (cr_store r ! d)"
  using assms
  by (cases "c = d"; auto simp: register_def newConnection_add Let_def split: option.splits)+

lemma register_maps_wf: "maps_wf r \<Longrightarrow> c < length (cr_store r) \<Longrightarrow> maps_wf (register c r)"
  using newConnection_wf(1) [OF _ newConnection_some] by blast

lemma register_get:
  assumes "maps_wf r" "c < length (cr_store r)"
  shows "getConnection_id i (register c r) =
    (if i = c_id (cr_store r ! c) \<and> getConnection_id i r = Inr None then Inr (Some c) else getConnection_id i r)"
proof -
  have new: "cr_connections (register c r) i =
      (if i = c_id (cr_store r ! c) \<and> cr_connections r i = None then Some (length (cr_tasks r)) else cr_connections r i)"
    unfolding register_fields by (auto simp: add_task_def Let_def emplace_def split: option.splits)
  have task: "cr_tasks (register c r) = cr_tasks r @ [Done c]"
    unfolding register_fields by (simp add: add_task_def Let_def)
  have old: "t < length (cr_tasks r)" if "cr_connections r i = Some t" for t
    using assms(1) that by (auto simp: maps_wf_def)
  show ?thesis
    using old getConnection_id_wf(1) [OF assms(1), of i]
    by (auto simp: getConnection_id_def new task nth_append task_connection_def split: option.splits)
qed

lemma forget_maps_wf: "maps_wf r \<Longrightarrow> maps_wf (forget i k r)"
  by (auto simp: maps_wf_def forget_def split: if_splits)

text \<open>
  The interface is stated for the objects of a repository whose index is in range; adding an
  index out of range leaves the repository alone.
\<close>

definition register_valid :: "nat \<Rightarrow> repository \<Rightarrow> repository" where
  "register_valid c r = (if c < length (cr_store r) then register c r else r)"

interpretation repo: connection_manager maps_wf "\<lambda>c r. c < length (cr_store r)"
  "\<lambda>r c. c_id (cr_store r ! c)" getConnection_id register_valid closeConnection
proof unfold_locales
  fix r :: repository and i :: u64 and c d :: nat
  show "maps_wf r \<Longrightarrow> \<exists>c. getConnection_id i r = Inr c" by (rule getConnection_id_wf(3))
  show "maps_wf r \<Longrightarrow> getConnection_id i r = Inr (Some c) \<Longrightarrow> c < length (cr_store r) \<and> c_id (cr_store r ! c) = i"
    by (auto simp: getConnection_id_wf(2) elim!: maps_wfD)
  show "maps_wf r \<Longrightarrow> c < length (cr_store r) \<Longrightarrow> maps_wf (register_valid c r)"
    by (simp add: register_valid_def register_maps_wf)
  show "(d < length (cr_store (register_valid c r))) = (d < length (cr_store r))"
    by (simp add: register_valid_def register_fields)
  show "c_id (cr_store (register_valid c r) ! d) = c_id (cr_store r ! d)"
    by (simp add: register_valid_def register_store)
  show "maps_wf r \<Longrightarrow> c < length (cr_store r) \<Longrightarrow> getConnection_id i (register_valid c r) =
      (if i = c_id (cr_store r ! c) \<and> getConnection_id i r = Inr None then Inr (Some c) else getConnection_id i r)"
    by (simp add: register_valid_def register_get)
  show "maps_wf r \<Longrightarrow> maps_wf (closeConnection c r)"
    by (simp add: closeConnection_def forget_maps_wf)
  show "(d < length (cr_store (closeConnection c r))) = (d < length (cr_store r))"
    "c_id (cr_store (closeConnection c r) ! d) = c_id (cr_store r ! d)"
    by (simp_all add: closeConnection_def forget_def)
  show "getConnection_id i (closeConnection c r) = (if i = c_id (cr_store r ! c) then Inr None else getConnection_id i r)"
    by (simp add: closeConnection_def forget_def getConnection_id_def split: option.splits)
qed

section \<open>Reachable repositories\<close>

lemma maps_wf_keyD: "maps_wf r \<Longrightarrow> cr_connectionsByKey r k = Some t \<Longrightarrow> t < length (cr_tasks r)"
  by (simp add: maps_wf_def)

lemma maps_wf_taskD:
  "maps_wf r \<Longrightarrow> t < length (cr_tasks r) \<Longrightarrow> cr_tasks r ! t = Done c \<Longrightarrow> c < length (cr_store r)"
  by (simp add: maps_wf_def)

lemma create_begin_wf:
  assumes "maps_wf r"
  shows "maps_wf (snd (create_begin r))"
proof (rule maps_wfI)
  fix i t assume "cr_connections (snd (create_begin r)) i = Some t"
  then have "cr_connections r i = Some t" by (simp add: create_begin_def)
  from maps_wfD [OF assms this] show "t < length (cr_tasks (snd (create_begin r))) \<and>
      (\<exists>c < length (cr_store (snd (create_begin r))).
        cr_tasks (snd (create_begin r)) ! t = Done c \<and> c_id (cr_store (snd (create_begin r)) ! c) = i)"
    by (simp add: create_begin_def nth_append less_SucI) metis
next
  fix k t assume "cr_connectionsByKey (snd (create_begin r)) k = Some t"
  then show "t < length (cr_tasks (snd (create_begin r)))"
    using maps_wf_keyD [OF assms, of k t] by (simp add: create_begin_def)
next
  fix t c assume "t < length (cr_tasks (snd (create_begin r)))" "cr_tasks (snd (create_begin r)) ! t = Done c"
  then show "c < length (cr_store (snd (create_begin r)))"
    using maps_wf_taskD [OF assms, of t c]
    by (cases "t = length (cr_tasks r)") (auto simp: create_begin_def nth_append)
qed

lemma create_publish_wf:
  assumes "maps_wf r" "t < length (cr_tasks r)"
  shows "maps_wf (create_publish k t r)"
proof -
  have "t' < length (cr_tasks r)" if "emplace k t (cr_connectionsByKey r) k' = Some t'" for k' t'
    using emplace_cases [OF that] maps_wf_keyD [OF assms(1)] assms(2) by blast
  with assms(1) show ?thesis by (simp add: maps_wf_def create_publish_def)
qed

lemma create_done_wf:
  assumes "maps_wf r" "t < length (cr_tasks r)" "cr_tasks r ! t = Pending"
    and "\<And>c. out = Inr c \<Longrightarrow> c < length (cr_store r)"
  shows "maps_wf (create_done k t out r)"
proof -
  have other: "t' \<noteq> t" if h: "cr_connections r i = Some t'" for i t'
  proof -
    obtain c where "cr_tasks r ! t' = Done c" using maps_wfD [OF assms(1) h] by metis
    then show ?thesis using assms(3) by auto
  qed
  note key = maps_wf_keyD [OF assms(1)] and dn = maps_wf_taskD [OF assms(1)]
  show ?thesis
  proof (cases out)
    case (Inl e)
    have 1: "t' < length (cr_tasks r) \<and> (\<exists>c < length (cr_store r).
        (cr_tasks r)[t := Failed e] ! t' = Done c \<and> c_id (cr_store r ! c) = i)"
      if "cr_connections r i = Some t'" for i t'
      using maps_wfD [OF assms(1) that] other [OF that] by (metis nth_list_update_neq)
    have 3: "d < length (cr_store r)"
      if "t' < length (cr_tasks r)" "(cr_tasks r)[t := Failed e] ! t' = Done d" for t' d
      using dn [of t' d] that by (cases "t' = t") auto
    show ?thesis
      by (rule maps_wfI) (use 1 3 key in \<open>simp_all add: create_done_def Inl split: if_splits\<close>)
  next
    case (Inr c)
    note c = assms(4) [OF Inr]
    let ?T = "(cr_tasks r)[t := Done c] @ [Done c]"
    have 1: "t' < Suc (length (cr_tasks r)) \<and> (\<exists>d < length (cr_store r). ?T ! t' = Done d \<and> c_id (cr_store r ! d) = i)"
      if "emplace (c_id (cr_store r ! c)) (length (cr_tasks r)) (cr_connections r) i = Some t'" for i t'
      using emplace_cases [OF that]
    proof
      assume a: "cr_connections r i = Some t'"
      from maps_wfD [OF assms(1) a] obtain d where d: "t' < length (cr_tasks r)" "d < length (cr_store r)"
        "cr_tasks r ! t' = Done d" "c_id (cr_store r ! d) = i" by metis
      then show ?thesis using other [OF a] by (auto simp: nth_append)
    next
      assume "i = c_id (cr_store r ! c) \<and> t' = length (cr_tasks r) \<and> cr_connections r (c_id (cr_store r ! c)) = None"
      then show ?thesis using c by (auto simp: nth_append)
    qed
    have 2: "t' < Suc (length (cr_tasks r))" if "cr_connectionsByKey r k' = Some t'" for k' t'
      using key [OF that] by simp
    have 3: "d < length (cr_store r)"
      if "t' < Suc (length (cr_tasks r))" "?T ! t' = Done d" for t' d
      using dn [of t' d] that c
      by (cases "t' = t"; cases "t' = length (cr_tasks r)") (auto simp: nth_append)
    show ?thesis
      by (rule maps_wfI) (use 1 2 3 in \<open>simp_all add: create_done_def Inr Let_def\<close>)
  qed
qed

lemma close_object_wf:
  assumes "maps_wf r" "c < length (cr_store r)"
  shows "maps_wf (close_object s c r)"
  using maps_wf_store [OF assms, of "close_connection s (cr_store r ! c)"]
  by (simp add: close_object_def Let_def forget_maps_wf)

lemma waiting_wf_forget [simp]: "waiting_wf (forget i k r) = waiting_wf r"
  by (simp add: forget_def waiting_wf_def)

inductive repo_reach :: "repository \<Rightarrow> bool" where
  new: "repo_reach ConnectionsRepository"
| object: "repo_reach r \<Longrightarrow> repo_reach (r\<lparr>cr_store := cr_store r @ [RakNetConnection g i k p]\<rparr>)"
| state: "repo_reach r \<Longrightarrow> c < length (cr_store r) \<Longrightarrow>
    repo_reach (r\<lparr>cr_store := (cr_store r)[c := setConnectionState s (cr_store r ! c)]\<rparr>)"
| expect: "repo_reach r \<Longrightarrow> repo_reach (snd (addPendingConnection i s r))"
| arrive: "repo_reach r \<Longrightarrow> c < length (cr_store r) \<Longrightarrow> newConnection (Some c) r = Some r' \<Longrightarrow> repo_reach r'"
| remove: "repo_reach r \<Longrightarrow> repo_reach (closeConnection c r)"
| close: "repo_reach r \<Longrightarrow> c < length (cr_store r) \<Longrightarrow> repo_reach (close_object s c r)"
| create: "repo_reach r \<Longrightarrow> repo_reach (snd (create_begin r))"
| publish: "repo_reach r \<Longrightarrow> t < length (cr_tasks r) \<Longrightarrow> repo_reach (create_publish k t r)"
| finish: "repo_reach r \<Longrightarrow> t < length (cr_tasks r) \<Longrightarrow> cr_tasks r ! t = Pending \<Longrightarrow>
    (\<forall>c. out = Inr c \<longrightarrow> c < length (cr_store r)) \<Longrightarrow> repo_reach (create_done k t out r)"

lemma repo_reach_wf: "repo_reach r \<Longrightarrow> maps_wf r \<and> waiting_wf r"
proof (induction rule: repo_reach.induct)
  case new
  then show ?case by (simp add: repo_wf_new)
next
  case (object r g i k p)
  then show ?case by (fastforce simp: maps_wf_def nth_append less_Suc_eq)
next
  case (state r c s)
  have "c_id (setConnectionState s d) = c_id d" "c_key (setConnectionState s d) = c_key d" for d
    by (simp_all add: setConnectionState_def Let_def)
  with state show ?case by (simp add: maps_wf_store)
next
  case (expect r i s)
  then show ?case using pending_add_wf [of i s r] by (metis surjective_pairing)
next
  case (arrive r c r')
  then show ?case using newConnection_wf by blast
next
  case (remove r c)
  then show ?case by (simp add: closeConnection_def forget_maps_wf)
next
  case (close r c s)
  then show ?case by (simp add: close_object_wf) (simp add: close_object_def Let_def)
next
  case (create r)
  then show ?case by (simp add: create_begin_wf) (simp add: create_begin_def)
next
  case (publish r t k)
  then show ?case by (simp add: create_publish_wf) (simp add: create_publish_def)
next
  case (finish r t out k)
  then show ?case by (simp add: create_done_wf) (cases out; simp add: create_done_def Let_def)
qed

section \<open>Properties\<close>

text \<open>
  In every reachable repository a lookup by id never throws and returns only a
  connection with that id; a connection registered under a free id is found by the next
  lookup, other ids are not affected, and removing it makes the lookup answer null again.
\<close>

theorem registered_connection_found:
  assumes "repo_reach r" "c < length (cr_store r)" "newConnection (Some c) r = Some r'"
    and "getConnection_id (c_id (cr_store r ! c)) r = Inr None"
  shows "getConnection_id (c_id (cr_store r ! c)) r' = Inr (Some c) \<and>
    (\<forall>i. i \<noteq> c_id (cr_store r ! c) \<longrightarrow> getConnection_id i r' = getConnection_id i r) \<and>
    (\<forall>i. getConnection_id i (closeConnection c r') = getConnection_id i r) \<and>
    (\<forall>i. case getConnection_id i r of Inl e \<Rightarrow> False
       | Inr x \<Rightarrow> (case x of None \<Rightarrow> True | Some d \<Rightarrow> c_id (cr_store r ! d) = i))"
proof -
  have wf: "maps_wf r" using repo_reach_wf [OF assms(1)] ..
  have r': "r' = register_valid c r"
    using assms(2,3) newConnection_some [of c r] by (simp add: register_valid_def)
  have "case getConnection_id i r of Inl e \<Rightarrow> False
       | Inr x \<Rightarrow> (case x of None \<Rightarrow> True | Some d \<Rightarrow> c_id (cr_store r ! d) = i)" for i
    using repo.get_total [OF wf, of i] repo.get_valid [OF wf, of i] by (auto split: option.splits)
  moreover have "getConnection_id i (closeConnection c r') = getConnection_id i r" for i
    unfolding r' using repo.add_remove_get [OF wf _ assms(4)] assms(2) by blast
  moreover have "getConnection_id (c_id (cr_store r ! c)) r' = Inr (Some c)"
    "i \<noteq> c_id (cr_store r ! c) \<Longrightarrow> getConnection_id i r' = getConnection_id i r" for i
    unfolding r' using repo.add_get [OF wf assms(2)] assms(4) by simp_all
  ultimately show ?thesis by blast
qed

text \<open>
  Nobody who waits for a peer-to-peer connection is forgotten: a task of
  \<^verbatim>\<open>addPendingConnection\<close> that is still pending has exactly one entry in the map of pending
  connections, and the arrival of a connection with that id completes it with the
  connection, gives the connection the session id that was announced, and clears the entry.
\<close>

theorem pending_connection_resolved:
  assumes "repo_reach r" "w < length (cr_waiting r)" "cr_waiting r ! w = Pending"
  shows "\<exists>i s. cr_pendingP2P r i = Some (s, w) \<and>
    (\<forall>j s'. cr_pendingP2P r j = Some (s', w) \<longrightarrow> j = i) \<and>
    (\<forall>c < length (cr_store r). c_id (cr_store r ! c) = i \<longrightarrow>
       (\<exists>r'. newConnection (Some c) r = Some r' \<and> cr_waiting r' ! w = Done c \<and>
          c_sessionId (cr_store r' ! c) = s \<and> cr_pendingP2P r' i = None))"
proof -
  have wf: "waiting_wf r" using repo_reach_wf [OF assms(1)] ..
  then obtain i s where p: "cr_pendingP2P r i = Some (s, w)"
    using assms(2,3) unfolding waiting_wf_def by blast
  have "\<forall>j s'. cr_pendingP2P r j = Some (s', w) \<longrightarrow> j = i"
    using wf p unfolding waiting_wf_def by metis
  then show ?thesis
    using p assms(2) by (intro exI [of _ i] exI [of _ s]) (simp add: newConnection_add Let_def)
qed

text \<open>
  A factory that fails frees its key, so the next lookup calls the factory
  again; but when the continuation runs before the repository has inserted the task, which
  nothing prevents, the failed task stays under the key: the lookup by key throws the old
  exception and the factory is never called for that key again.
\<close>

theorem early_failure_poisons_key:
  assumes "cr_connectionsByKey r key = None" "create_begin r = (t, r1)"
  shows "fst (getConnection_factory key (create_done key t (Inl e) (create_publish key t r1))) \<and>
    (case create_publish key t (create_done key t (Inl e) r1) of r2 \<Rightarrow>
       getConnection_factory key r2 = (False, t, r2) \<and> getConnection_key key r2 = Inl e)"
proof -
  have r1: "r1 = r\<lparr>cr_tasks := cr_tasks r @ [Pending]\<rparr>" "t = length (cr_tasks r)"
    using assms(2) by (auto simp: create_begin_def)
  then show ?thesis
    using assms(1)
    by (simp add: create_done_def create_publish_def getConnection_factory_def create_begin_def
        getConnection_key_def task_connection_def)
qed

text \<open>
  Closing a peer-to-peer session removes it, closes the connection to its peer
  when there is one and reports whether there was; the connection is then no longer found in
  the repository. Without a connection the session goes too, although the answer is false.
\<close>

theorem session_closed:
  assumes "repo_reach r" "ss i = Some s" "\<And>c. c < length (cr_store r) \<Longrightarrow> cs_state (c_state (cr_store r ! c)) = Connected"
    and "closeSession getConnection_id (close_object '''') i ss r = (b, ss', r')"
  shows "ss' = ss(i := None) \<and> getConnection_id (ps_remotePeerId s) r' = Inr None \<and>
    b = Inr (getConnection_id (ps_remotePeerId s) r \<noteq> Inr None) \<and>
    (\<forall>c. getConnection_id (ps_remotePeerId s) r = Inr (Some c) \<longrightarrow>
       cs_state (c_state (cr_store r' ! c)) = Disconnected)"
proof -
  let ?i = "ps_remotePeerId s"
  have wf: "maps_wf r" using repo_reach_wf [OF assms(1)] ..
  obtain x where x: "getConnection_id ?i r = Inr x" using repo.get_total [OF wf] by blast
  show ?thesis
  proof (cases x)
    case None
    then show ?thesis using assms(2,4) x by (simp add: closeSession_def)
  next
    case (Some c)
    have c: "c < length (cr_store r)" "c_id (cr_store r ! c) = ?i"
      using repo.get_valid [OF wf] x Some by blast+
    obtain t where t: "cr_connections r ?i = Some t" "cr_tasks r ! t = Done c"
      using x Some getConnection_id_wf(2) [OF wf] by metis
    have sub: "subscribed c r" using t c(2) by (simp add: subscribed_def)
    have fired: "length (c_onClose (close_connection '''' (cr_store r ! c))) \<noteq> length (c_onClose (cr_store r ! c))"
      "cs_state (c_state (close_connection '''' (cr_store r ! c))) = Disconnected"
      using assms(3) [OF c(1)]
      by (simp_all add: close_connection_def setConnectionState_def cs_eq_def fire_onClose_def
          conn_state_because_def Let_def)
    have co: "close_object '''' c r = forget ?i (c_key (cr_store r ! c))
        (r\<lparr>cr_store := (cr_store r)[c := close_connection '''' (cr_store r ! c)]\<rparr>)"
      using fired(1) sub c(2) by (simp add: close_object_def Let_def)
    have "b = Inr True" "ss' = ss(i := None)" "r' = close_object '''' c r"
      using assms(2,4) x Some by (auto simp: closeSession_def)
    moreover have "getConnection_id ?i (close_object '''' c r) = Inr None"
      unfolding co by (simp add: forget_def getConnection_id_def)
    moreover have "cs_state (c_state (cr_store (close_object '''' c r) ! c)) = Disconnected"
      unfolding co using c(1) fired(2) by (simp add: forget_def)
    ultimately show ?thesis using x Some by simp
  qed
qed

section \<open>Witnesses\<close>

definition demo_repo :: repository where
  "demo_repo = ConnectionsRepository\<lparr>cr_store := [setConnectionState (conn_state Connected) (RakNetConnection 9 5 ''k'' True)]\<rparr>"

lemma demo_repo_reach: "repo_reach demo_repo"
proof -
  have "repo_reach (ConnectionsRepository\<lparr>cr_store := [RakNetConnection 9 5 ''k'' True]\<rparr>)" (is "repo_reach ?r")
    using repo_reach.object [OF repo_reach.new, of 9 5 "''k''" True] by (simp add: ConnectionsRepository_def)
  from repo_reach.state [OF this, of 0 "conn_state Connected"] show ?thesis
    by (simp add: demo_repo_def)
qed

lemma demo_repo_simps:
  "length (cr_store demo_repo) = 1" "c_id (cr_store demo_repo ! 0) = 5"
  "cr_connections demo_repo = Map.empty" "cr_pendingP2P demo_repo = Map.empty" "cr_waiting demo_repo = []"
  by (simp_all add: demo_repo_def ConnectionsRepository_def setConnectionState_def RakNetConnection_def
      conn_state_def cs_eq_def Let_def)

theorem registered_connection_found_witness:
  "getConnection_id 5 (register 0 demo_repo) = Inr (Some 0)"
  using registered_connection_found [OF demo_repo_reach _ newConnection_some, of 0]
  by (simp add: demo_repo_simps getConnection_id_def)

theorem pending_connection_resolved_witness:
  "\<exists>s. cr_pendingP2P (snd (addPendingConnection 5 ''s'' demo_repo)) 5 = Some (s, 0)"
proof -
  have r: "repo_reach (snd (addPendingConnection 5 ''s'' demo_repo))"
    using demo_repo_reach by (rule repo_reach.expect)
  have p: "cr_waiting (snd (addPendingConnection 5 ''s'' demo_repo)) = [Pending]"
    "cr_pendingP2P (snd (addPendingConnection 5 ''s'' demo_repo)) = [5 \<mapsto> (''s'', 0)]"
    by (simp_all add: addPendingConnection_def Let_def demo_repo_simps)
  from pending_connection_resolved [OF r, of 0] show ?thesis
    by (auto simp: p split: if_splits)
qed

theorem early_failure_poisons_key_witness:
  "case create_publish ''k'' 0 (create_done ''k'' 0 (Inl TaskCanceled) (snd (create_begin ConnectionsRepository))) of r2 \<Rightarrow>
     getConnection_key ''k'' r2 = Inl TaskCanceled"
proof -
  have "cr_connectionsByKey ConnectionsRepository ''k'' = None" by (simp add: ConnectionsRepository_def)
  moreover have "create_begin ConnectionsRepository = (0, snd (create_begin ConnectionsRepository))"
    by (simp add: create_begin_def ConnectionsRepository_def)
  ultimately show ?thesis using early_failure_poisons_key by blast
qed

theorem session_closed_witness:
  "fst (closeSession getConnection_id (close_object '''') ''p''
     [''p'' \<mapsto> \<lparr>ps_sessionId = [], ps_remotePeerId = 5, ps_sceneId = '''', ps_remoteSessionId = '''',
        ps_owningSessionId = '''', ps_status = SessionConnected\<rparr>] (register 0 demo_repo)) = Inr True"
proof -
  let ?s = "\<lparr>ps_sessionId = [], ps_remotePeerId = 5, ps_sceneId = '''', ps_remoteSessionId = '''',
        ps_owningSessionId = '''', ps_status = SessionConnected\<rparr>"
  have r: "repo_reach (register 0 demo_repo)"
    by (rule repo_reach.arrive [OF demo_repo_reach _ newConnection_some]) (simp add: demo_repo_simps)
  have st: "cs_state (c_state (cr_store (register 0 demo_repo) ! c)) = Connected"
    if "c < length (cr_store (register 0 demo_repo))" for c
    using that by (simp add: register_fields demo_repo_simps register_store)
      (simp add: demo_repo_def ConnectionsRepository_def setConnectionState_def RakNetConnection_def
        conn_state_def cs_eq_def Let_def)
  have g: "getConnection_id 5 (register 0 demo_repo) = Inr (Some 0)"
    using repo.add_get [OF conjunct1 [OF repo_reach_wf [OF demo_repo_reach]], of 0 5]
    by (simp add: demo_repo_simps register_valid_def) (simp add: getConnection_id_def demo_repo_simps)
  obtain b ss' r' where e: "closeSession getConnection_id (close_object '''') ''p'' [''p'' \<mapsto> ?s] (register 0 demo_repo) = (b, ss', r')"
    by (cases "closeSession getConnection_id (close_object '''') ''p'' [''p'' \<mapsto> ?s] (register 0 demo_repo)") auto
  from session_closed [OF r _ st e, of ?s] show ?thesis
    by (simp add: e g)
qed

end
