(* ===== verification/Strings.thy ===== *)
theory Strings
  imports Prelude
begin

text \<open>
  \<^verbatim>\<open>Utilities/StringUtilities.cpp\<close>: joining, splitting and trimming strings. The narrow and
  the wide variants have the same code, so the definitions are polymorphic in the character.
  Splitting searches with \<^verbatim>\<open>std::string::find\<close> in a loop that does not end when the
  separator is empty; it is a partial function, and the lemmas show that it ends and inverts
  \<^verbatim>\<open>stringJoin\<close> for every other separator.
\<close>

section \<open>Numbers\<close>

text \<open>\<^verbatim>\<open>std::to_string\<close> of a number that is not negative.\<close>

fun digits :: "nat \<Rightarrow> string" where
  "digits n = (if n < 10 then [] else digits (n div 10)) @ [char_of (48 + n mod 10)]"

declare digits.simps [simp del]

section \<open>Joining and splitting\<close>

fun join_tail :: "'a list list \<Rightarrow> 'a list \<Rightarrow> 'a list" where
  "join_tail [] glue = []"
| "join_tail (x # xs) glue = glue @ x @ join_tail xs glue"

definition stringJoin :: "'a list list \<Rightarrow> 'a list \<Rightarrow> 'a list" where
  "stringJoin v glue = (case v of [] \<Rightarrow> [] | x # xs \<Rightarrow> x @ join_tail xs glue)"

text \<open>\<^verbatim>\<open>str.find(sep, pos)\<close> and \<^verbatim>\<open>str.substr(pos, n)\<close>.\<close>

definition occurs_at :: "'a list \<Rightarrow> 'a list \<Rightarrow> nat \<Rightarrow> bool" where
  "occurs_at s sep i \<longleftrightarrow> take (length sep) (drop i s) = sep"

definition str_find :: "'a list \<Rightarrow> 'a list \<Rightarrow> nat \<Rightarrow> nat option" where
  "str_find s sep pos = find (occurs_at s sep) [pos..<Suc (length s) - length sep]"

definition substr :: "'a list \<Rightarrow> nat \<Rightarrow> nat \<Rightarrow> 'a list" where
  "substr s pos n = take n (drop pos s)"

partial_function (option) split_loop ::
  "'a list \<Rightarrow> 'a list \<Rightarrow> nat \<Rightarrow> nat \<Rightarrow> 'a list list \<Rightarrow> 'a list list option" where
  "split_loop s sep cursor lastCursor splitted =
     (case str_find s sep cursor of
        None \<Rightarrow> Some (splitted @ [substr s lastCursor (length s - lastCursor)])
      | Some c \<Rightarrow>
          split_loop s sep (c + length sep) (c + length sep) (splitted @ [substr s lastCursor (c - lastCursor)]))"

definition stringSplit :: "'a list \<Rightarrow> 'a list \<Rightarrow> 'a list list option" where
  "stringSplit s sep = split_loop s sep 0 0 []"

definition stringTrim :: "'a list \<Rightarrow> 'a \<Rightarrow> 'a list" where
  "stringTrim s ch = rev (dropWhile (\<lambda>c. c = ch) (rev (dropWhile (\<lambda>c. c = ch) s)))"

section \<open>The search\<close>

lemma find_upt_Some:
  "find P [a..<b] = Some i \<Longrightarrow> a \<le> i \<and> i < b \<and> P i \<and> (\<forall>j. a \<le> j \<longrightarrow> j < i \<longrightarrow> \<not> P j)"
proof (induction "b - a" arbitrary: a)
  case 0
  then show ?case by simp
next
  case (Suc n)
  then have ab: "a < b" by simp
  show ?case
  proof (cases "P a")
    case True
    then show ?thesis using Suc.prems ab by (simp add: upt_rec)
  next
    case False
    then have "find P [Suc a..<b] = Some i" using Suc.prems ab by (simp add: upt_rec)
    with Suc.hyps(1) [of "Suc a"] Suc.hyps(2) have h: "Suc a \<le> i" "i < b" "P i" "\<forall>j. Suc a \<le> j \<longrightarrow> j < i \<longrightarrow> \<not> P j"
      by simp_all
    have "\<not> P j" if "a \<le> j" "j < i" for j
      using that False h(4) by (cases "j = a") simp_all
    then show ?thesis using h by simp
  qed
qed

lemma find_upt_None: "find P [a..<b] = None \<Longrightarrow> a \<le> j \<Longrightarrow> j < b \<Longrightarrow> \<not> P j"
  by (simp add: find_None_iff)

lemma str_find_Some:
  assumes "str_find s sep pos = Some c"
  shows "pos \<le> c" "c + length sep \<le> length s" "occurs_at s sep c"
    "\<And>j. pos \<le> j \<Longrightarrow> j < c \<Longrightarrow> \<not> occurs_at s sep j"
  using find_upt_Some [OF assms [unfolded str_find_def]] by auto

lemma str_find_None:
  assumes "str_find s sep pos = None" "pos \<le> j" "j + length sep \<le> length s"
  shows "\<not> occurs_at s sep j"
  using find_upt_None [OF assms(1) [unfolded str_find_def] assms(2)] assms(3) by simp

lemma occurs_split: "occurs_at s sep c \<Longrightarrow> drop c s = sep @ drop (c + length sep) s"
  unfolding occurs_at_def by (metis add.commute append_take_drop_id drop_drop)

section \<open>Splitting ends and is inverted by joining\<close>

lemma join_snoc:
  "stringJoin (xs @ [x]) g = (if xs = [] then x else stringJoin xs g @ g @ x)"
proof -
  have "join_tail (ys @ [x]) g = join_tail ys g @ g @ x" for ys
    by (induction ys) simp_all
  then show ?thesis by (cases xs) (simp_all add: stringJoin_def)
qed

lemma join_snoc2: "stringJoin (xs @ [y, x]) g = stringJoin (xs @ [y]) g @ g @ x"
  using join_snoc [of "xs @ [y]" x g] by simp

lemma split_loop_join:
  assumes "sep \<noteq> []" "l \<le> length s"
  shows "\<exists>r. split_loop s sep l l acc = Some (acc @ r) \<and> r \<noteq> [] \<and> stringJoin r sep = drop l s"
  using assms(2)
proof (induction "length s - l" arbitrary: l acc rule: less_induct)
  case less
  show ?case
  proof (cases "str_find s sep l")
    case None
    then show ?thesis
      by (subst split_loop.simps) (simp add: substr_def stringJoin_def)
  next
    case (Some c)
    note c = str_find_Some [OF Some]
    let ?l = "c + length sep"
    have lt: "length s - ?l < length s - l"
      using c(1,2) assms(1) by (cases sep) auto
    from less.hyps [OF lt c(2)] obtain r where r: "split_loop s sep ?l ?l (acc @ [substr s l (c - l)]) =
        Some ((acc @ [substr s l (c - l)]) @ r)" "r \<noteq> []" "stringJoin r sep = drop ?l s" by blast
    have "drop l s = substr s l (c - l) @ drop c s"
      unfolding substr_def using c(1) by (metis append_take_drop_id drop_drop le_add_diff_inverse2)
    then have "stringJoin (substr s l (c - l) # r) sep = drop l s"
      using r(2,3) occurs_split [OF c(3)] by (cases r) (auto simp: stringJoin_def)
    then show ?thesis
      using r(1) Some by (subst split_loop.simps) simp
  qed
qed

text \<open>A piece contains no occurrence of the separator.\<close>

definition sep_free :: "'a list \<Rightarrow> 'a list \<Rightarrow> bool" where
  "sep_free sep x \<longleftrightarrow> (\<forall>i. i + length sep \<le> length x \<longrightarrow> \<not> occurs_at x sep i)"

lemma split_loop_empty:
  assumes "split_loop s sep c l acc = Some r"
  shows "sep = [] \<longrightarrow> \<not> c \<le> length s"
proof (rule split_loop.raw_induct [where P = "\<lambda>s sep c l acc r. sep = [] \<longrightarrow> \<not> c \<le> length s", OF _ assms])
  fix f and s sep :: "'a list" and c l :: nat and acc r
  assume IH: "\<And>s sep c l acc r. f s sep c l acc = Some r \<Longrightarrow> sep = [] \<longrightarrow> \<not> c \<le> length s"
    and eq: "(case str_find s sep c of None \<Rightarrow> Some (acc @ [substr s l (length s - l)])
      | Some d \<Rightarrow> f s sep (d + length sep) (d + length sep) (acc @ [substr s l (d - l)])) = Some r"
  show "sep = [] \<longrightarrow> \<not> c \<le> length s"
  proof (intro impI notI)
    assume h: "sep = []" "c \<le> length s"
    have "str_find s [] c = Some c"
      using h(2) by (simp add: str_find_def occurs_at_def upt_rec)
    with eq h(1) have "f s [] c c (acc @ [substr s l (c - l)]) = Some r" by simp
    from IH [OF this] h(2) show False by simp
  qed
qed

lemma stringSplit_char_Nil: "stringSplit s [] = None"
proof (cases "stringSplit s []")
  case (Some r)
  then show ?thesis using split_loop_empty [of s "[]" 0 0 "[]" r] by (simp add: stringSplit_def)
qed

text \<open>Splitting at one character gives back the pieces of a join.\<close>

lemma occurs_char: "occurs_at s [c] i \<longleftrightarrow> i < length s \<and> s ! i = c"
proof (cases "i < length s")
  case True
  then show ?thesis by (simp add: occurs_at_def take_Suc hd_drop_conv_nth)
next
  case False
  then show ?thesis by (simp add: occurs_at_def)
qed

lemma str_find_charI:
  assumes "i < length s" "s ! i = c" "p \<le> i" "\<And>j. p \<le> j \<Longrightarrow> j < i \<Longrightarrow> s ! j \<noteq> c"
  shows "str_find s [c] p = Some i"
proof (cases "str_find s [c] p")
  case None
  from str_find_None [OF None assms(3)] assms(1,2) show ?thesis by (simp add: occurs_char)
next
  case (Some k)
  note k = str_find_Some [OF Some]
  have "\<not> k < i" using assms(4) [OF k(1)] k(3) by (auto simp: occurs_char)
  moreover have "\<not> i < k" using k(4) [OF assms(3)] assms(1,2) by (auto simp: occurs_char)
  ultimately show ?thesis using Some by simp
qed

lemma str_find_char_none:
  assumes "\<And>j. p \<le> j \<Longrightarrow> j < length s \<Longrightarrow> s ! j \<noteq> c"
  shows "str_find s [c] p = None"
proof (cases "str_find s [c] p")
  case (Some k)
  from str_find_Some [OF Some] assms show ?thesis by (auto simp: occurs_char)
qed simp

lemma split_loop_char:
  assumes "xs \<noteq> []" "\<forall>x \<in> set xs. c \<notin> set x"
  shows "split_loop (pre @ stringJoin xs [c]) [c] (length pre) (length pre) acc = Some (acc @ xs)"
  using assms
proof (induction xs arbitrary: pre acc)
  case Nil
  then show ?case by simp
next
  case (Cons x xs)
  let ?n = "length pre"
  show ?case
  proof (cases xs)
    case Nil
    let ?s = "pre @ x"
    have "?s ! j \<noteq> c" if h: "?n \<le> j" "j < length ?s" for j
    proof -
      have "?s ! j \<in> set x" using h by (simp add: nth_append)
      then show ?thesis using Cons.prems(2) by auto
    qed
    then have "str_find ?s [c] ?n = None" by (rule str_find_char_none)
    then show ?thesis by (subst split_loop.simps) (simp add: Nil stringJoin_def substr_def)
  next
    case (Cons y ys)
    have j: "pre @ stringJoin (x # xs) [c] = (pre @ x @ [c]) @ stringJoin xs [c]"
      by (simp add: Cons stringJoin_def)
    let ?s = "(pre @ x @ [c]) @ stringJoin xs [c]"
    have f: "str_find ?s [c] ?n = Some (?n + length x)"
    proof (rule str_find_charI)
      fix j assume h: "?n \<le> j" "j < ?n + length x"
      then have "j - ?n < length x" by linarith
      then have "?s ! j = x ! (j - ?n)" using h by (simp add: nth_append)
      moreover have "x ! (j - ?n) \<in> set x" using h by simp
      ultimately show "?s ! j \<noteq> c" using Cons.prems(2) by auto
    qed (simp_all add: nth_append)
    have "split_loop ?s [c] (length (pre @ x @ [c])) (length (pre @ x @ [c])) (acc @ [x]) = Some ((acc @ [x]) @ xs)"
      by (rule Cons.IH) (use Cons Cons.prems in simp_all)
    moreover have "substr ?s ?n (length x) = x" by (simp add: substr_def)
    moreover define z where "z = ?s"
    ultimately show ?thesis
      using f unfolding j z_def [symmetric] by (subst split_loop.simps) simp
  qed
qed

section \<open>Properties\<close>

text \<open>
  Splitting ends for every non-empty separator and loses nothing: joining the
  pieces with the separator gives the string back. A join of pieces without the separating
  character splits into these pieces. With an empty separator the loop does not end.
\<close>

theorem split_join_inverse:
  fixes s sep :: "'a list" and c :: 'a
  shows "(if sep = [] then stringSplit s sep = None
      else \<exists>r. stringSplit s sep = Some r \<and> r \<noteq> [] \<and> stringJoin r sep = s) \<and>
    (xs \<noteq> [] \<longrightarrow> (\<forall>x \<in> set xs. c \<notin> set x) \<longrightarrow> stringSplit (stringJoin xs [c]) [c] = Some xs)"
proof -
  have "\<exists>r. stringSplit s sep = Some r \<and> r \<noteq> [] \<and> stringJoin r sep = s" if "sep \<noteq> []"
    using split_loop_join [OF that, of 0 s "[]"] by (simp add: stringSplit_def)
  moreover have "stringSplit (stringJoin xs [c]) [c] = Some xs" if "xs \<noteq> []" "\<forall>x \<in> set xs. c \<notin> set x"
    using split_loop_char [OF that, of "[]" "[]"] by (simp add: stringSplit_def)
  ultimately show ?thesis by (simp add: stringSplit_char_Nil)
qed

theorem split_join_inverse_witness:
  "stringSplit ''127.0.0.1:30000'' '':'' = Some [''127.0.0.1'', ''30000'']"
  using split_join_inverse [where s = "[] :: string" and sep = "[]" and c = "CHR '':''" and xs = "[''127.0.0.1'', ''30000'']"]
  by (simp add: stringJoin_def)

end
