(* ===== verification/Transport.thy ===== *)
theory Transport
  imports Connections Strings
begin

text \<open>
  The RakNet transport (\<^verbatim>\<open>RakNet/RakNetTransport.cpp\<close>): the queue of connection requests,
  the packets of RakNet's peer, the table of connections by RakNet's guid, and pings. RakNet
  itself is outside: the answer of \<^verbatim>\<open>Connect\<close> is an argument, and the calls the code makes
  are recorded in \<^verbatim>\<open>tr_calls\<close>. The lemmas show how a connection request is started and
  finished, and the two ways in which the queue stops for good.
\<close>

section \<open>State\<close>

datatype rak_call =
    RakConnect string u16
  | RakCloseConnection u64 bool
  | RakSend u64 "byte list"
  | RakPing string u16
  | RakShutdown

record conn_request =
  cq_endpoint :: string
  cq_token :: nat
  cq_id :: string
  cq_parentId :: string
  cq_tce :: nat

definition isP2P :: "conn_request \<Rightarrow> bool" where
  "isP2P rq \<longleftrightarrow> cq_parentId rq \<noteq> ''''"

text \<open>
  \<^verbatim>\<open>tr_canceled\<close> says which cancellation tokens are canceled, \<^verbatim>\<open>tr_tces\<close> holds the tasks of
  the requests' completion events, \<^verbatim>\<open>tr_active\<close> is RakNet's \<^verbatim>\<open>IsActive\<close>, and
  \<^verbatim>\<open>tr_handler\<close> the connection manager with the connection objects.
\<close>

record transport =
  tr_isRunning :: bool
  tr_peer :: bool
  tr_active :: bool
  tr_connections :: "u64 \<rightharpoonup> nat"
  tr_pendingConnections :: "conn_request list"
  tr_tces :: "nat task list"
  tr_port :: u16
  tr_canceled :: "nat \<Rightarrow> bool"
  tr_pendingPings :: "string \<rightharpoonup> nat"
  tr_pings :: "int task list"
  tr_pendingPingsQueue :: "(string \<times> nat) list"
  tr_pingTces :: "bool task list"
  tr_calls :: "rak_call list"
  tr_handler :: repository

definition tr_set :: "nat \<Rightarrow> nat task \<Rightarrow> transport \<Rightarrow> transport" where
  "tr_set i v t = t\<lparr>tr_tces := (tr_tces t)[i := tce_set v (tr_tces t ! i)]\<rparr>"

definition tr_call :: "rak_call \<Rightarrow> transport \<Rightarrow> transport" where
  "tr_call c t = t\<lparr>tr_calls := tr_calls t @ [c]\<rparr>"

section \<open>Connecting\<close>

text \<open>\<^verbatim>\<open>std::atoi\<close>: blanks, a sign, digits; 0 when there are none.\<close>

definition is_blank :: "char \<Rightarrow> bool" where
  "is_blank c \<longleftrightarrow> c = CHR '' '' \<or> (9 \<le> (of_char c :: nat) \<and> (of_char c :: nat) \<le> 13)"

definition is_digit :: "char \<Rightarrow> bool" where
  "is_digit c \<longleftrightarrow> 48 \<le> (of_char c :: nat) \<and> (of_char c :: nat) \<le> 57"

definition digits_value :: "string \<Rightarrow> int" where
  "digits_value ds = foldl (\<lambda>n c. 10 * n + (of_char c - 48)) 0 (takeWhile is_digit ds)"

definition atoi :: "string \<Rightarrow> int" where
  "atoi s =
     (case dropWhile is_blank s of
        [] \<Rightarrow> 0
      | c # cs \<Rightarrow> if c = CHR ''-'' then - digits_value cs
                  else if c = CHR ''+'' then digits_value cs else digits_value (c # cs))"

text \<open>The part of \<^verbatim>\<open>startNextPendingConnections\<close> that follows the check of the token.\<close>

definition in_parens :: "string \<Rightarrow> string" where
  "in_parens s = '' ('' @ s @ '')''"

definition start_request :: "(string \<Rightarrow> u16 \<Rightarrow> nat) \<Rightarrow> conn_request \<Rightarrow> transport \<Rightarrow> transport" where
  "start_request rak rq t =
     (let endpoint = cq_endpoint rq;
          split = (case stringSplit endpoint '':'' of None \<Rightarrow> [] | Some xs \<Rightarrow> xs) in
      if length split < 2 then tr_set (cq_tce rq) (Failed (InvalidArgument (''Bad server endpoint, no port'' @ in_parens endpoint))) t
      else if length endpoint - 1 \<le> length (split ! 1)
      then tr_set (cq_tce rq) (Failed (InvalidArgument (''Bad server endpoint, no host'' @ in_parens endpoint))) t
      else
        (let t1 = t\<lparr>tr_port := word_of_int (atoi (split ! 1))\<rparr> in
         if tr_port t1 = 0
         then tr_set (cq_tce rq) (Failed (RuntimeError (''Server endpoint port should not be 0'' @ in_parens endpoint))) t1
         else if \<not> tr_peer t1 \<or> \<not> tr_active t1
         then tr_set (cq_tce rq) (Failed (RuntimeError ''Transport not started. Make sure you started it.'')) t1
         else
           (let t2 = tr_call (RakConnect (split ! 0) (tr_port t1)) t1 in
            if rak (split ! 0) (tr_port t1) \<noteq> 0
            then tr_set (cq_tce rq) (Failed (RuntimeError (''Bad RakNet connection attempt result'' @
                   in_parens (digits (rak (split ! 0) (tr_port t1)))))) t2
            else t2)))"

text \<open>
  \<^verbatim>\<open>startNextPendingConnections\<close>: a canceled request at the front is taken off the queue and
  the function calls itself, but there is no \<^verbatim>\<open>return\<close> after the call, so it goes on with the
  canceled request.
\<close>

function start_next :: "(string \<Rightarrow> u16 \<Rightarrow> nat) \<Rightarrow> transport \<Rightarrow> transport" where
  "start_next rak t =
     (case tr_pendingConnections t of
        [] \<Rightarrow> t
      | rq # rest \<Rightarrow>
          (if tr_canceled t (cq_token rq)
           then start_request rak rq (start_next rak (t\<lparr>tr_pendingConnections := rest\<rparr>))
           else start_request rak rq t))"
  by pat_completeness auto
termination
  by (relation "measure (\<lambda>(rak, t). length (tr_pendingConnections t))") auto

declare start_next.simps [simp del]

definition transport_connect ::
  "(string \<Rightarrow> u16 \<Rightarrow> nat) \<Rightarrow> string \<Rightarrow> string \<Rightarrow> string \<Rightarrow> nat \<Rightarrow> transport \<Rightarrow> nat \<times> transport" where
  "transport_connect rak endpoint i parentId ct t =
     (let shouldStart = (tr_pendingConnections t = []);
          tce = length (tr_tces t);
          rq = \<lparr>cq_endpoint = endpoint, cq_token = ct, cq_id = i, cq_parentId = parentId, cq_tce = tce\<rparr>;
          t1 = t\<lparr>tr_tces := tr_tces t @ [Pending],
                 tr_pendingConnections := tr_pendingConnections t @ [rq]\<rparr>
      in (tce, if shouldStart then start_next rak t1 else t1))"

section \<open>Connections\<close>

text \<open>
  \<^verbatim>\<open>createNewConnection\<close> and the two \<^verbatim>\<open>onConnection\<close>: the answer is the index of the new
  object. Without a peer there is no object and \<^verbatim>\<open>newConnection\<close> gets a null pointer.
\<close>

definition createNewConnection :: "u64 \<Rightarrow> u64 \<Rightarrow> string \<Rightarrow> transport \<Rightarrow> nat option \<times> transport" where
  "createNewConnection guid peerId key t =
     (if tr_peer t then
        (let c = length (cr_store (tr_handler t)) in
         (Some c, t\<lparr>tr_handler := (tr_handler t)\<lparr>cr_store := cr_store (tr_handler t) @ [RakNetConnection guid peerId key True]\<rparr>,
                    tr_connections := (tr_connections t)(guid \<mapsto> c)\<rparr>))
      else (None, t))"

definition set_conn_state :: "nat \<Rightarrow> ConnectionState \<Rightarrow> transport \<Rightarrow> transport" where
  "set_conn_state c s t = t\<lparr>tr_handler := (tr_handler t)\<lparr>cr_store :=
     (cr_store (tr_handler t))[c := setConnectionState s (cr_store (tr_handler t) ! c)]\<rparr>\<rparr>"

definition onConnection :: "u64 \<Rightarrow> u64 \<Rightarrow> string \<Rightarrow> transport \<Rightarrow> (nat \<times> transport) option" where
  "onConnection guid peerId key t =
     (case createNewConnection guid peerId key t of (c, t1) \<Rightarrow>
        (case newConnection c (tr_handler t1) of
           None \<Rightarrow> None
         | Some r \<Rightarrow>
             Some (the c, set_conn_state (the c) (conn_state Connected)
               (set_conn_state (the c) (conn_state Connecting) (t1\<lparr>tr_handler := r\<rparr>)))))"

definition onConnection_request ::
  "u64 \<Rightarrow> u64 \<Rightarrow> conn_request \<Rightarrow> transport \<Rightarrow> transport option" where
  "onConnection_request guid peerId rq t =
     (case onConnection guid peerId (cq_id rq) t of
        None \<Rightarrow> None
      | Some (c, t1) \<Rightarrow> Some (tr_set (cq_tce rq) (Done c) t1))"

definition removeConnection :: "u64 \<Rightarrow> transport \<Rightarrow> nat option \<times> transport" where
  "removeConnection guid t =
     (case tr_connections t guid of
        None \<Rightarrow> (None, t)
      | Some c \<Rightarrow> (Some c, t\<lparr>tr_connections := (tr_connections t)(guid := None)\<rparr>))"

text \<open>
  \<^verbatim>\<open>onDisconnection\<close>: the reason announced by the peer replaces the given one. The
  \<^verbatim>\<open>onClose\<close> event runs with the transport's own subscription gone (it lives in the container
  that \<^verbatim>\<open>removeConnection\<close> erased) and the repository's gone (\<^verbatim>\<open>closeConnection\<close> erased it).
\<close>

definition onDisconnection :: "u64 \<Rightarrow> string \<Rightarrow> transport \<Rightarrow> transport" where
  "onDisconnection guid reason t =
     (case removeConnection guid t of (conn, t1) \<Rightarrow>
        (case conn of
           None \<Rightarrow> t1
         | Some c \<Rightarrow>
             (let o0 = cr_store (tr_handler t1) ! c;
                  reason' = (if c_closeReason o0 \<noteq> '''' then c_closeReason o0 else reason);
                  r1 = closeConnection c (tr_handler t1);
                  t2 = t1\<lparr>tr_handler := r1\<lparr>cr_store := (cr_store r1)[c := fire_onClose reason' (cr_store r1 ! c)]\<rparr>\<rparr>
              in set_conn_state c (conn_state_because Disconnected reason')
                   (set_conn_state c (conn_state_because Disconnecting reason') t2))))"

text \<open>\<^verbatim>\<open>guids\<close> is the order of the hash table.\<close>

definition transport_stop :: "u64 list \<Rightarrow> transport \<Rightarrow> unit res \<times> transport" where
  "transport_stop guids t =
     (if \<not> tr_isRunning t then (Inl (RuntimeError ''RakNet transport is not started''), t)
      else
        (let t1 = fold (\<lambda>g. onDisconnection g ''CLIENT_TRANSPORT_STOPPED'') guids (t\<lparr>tr_isRunning := False\<rparr>);
             t2 = (if tr_peer t1 \<and> tr_active t1 then tr_call RakShutdown t1 else t1)
         in (Inr (), t2\<lparr>tr_peer := False\<rparr>)))"

section \<open>Packets of the peer\<close>

text \<open>
  The message ids of RakNet by name; every other id, the SDK's own among them, by value.
  \<^verbatim>\<open>fails\<close> are the three ids that end a connection attempt.
\<close>

datatype rak_id =
    RequestAccepted
  | AttemptFailed
  | DisconnectionNotification
  | ConnectionLost
  | UnconnectedPong int
  | OtherRak
  | MessageId byte

record rak_packet =
  rk_id :: rak_id
  rk_guid :: u64
  rk_address :: string
  rk_data :: "byte list"

record p2p_infos =
  pi_parentConnectionId :: u64
  pi_parentId :: string
  pi_id :: string
  pi_isRequest :: bool

text \<open>
  The serializer, an argument: the infos of a peer-to-peer connection and strings, with the
  exception the reader throws. \<^verbatim>\<open>te_now\<close> is \<^verbatim>\<open>RakNet::GetTimeMS()\<close>.
\<close>

record transport_env =
  te_rak :: "string \<Rightarrow> u16 \<Rightarrow> nat"
  te_ping :: "string \<Rightarrow> u16 \<Rightarrow> bool"
  te_ser :: "p2p_infos \<Rightarrow> byte list"
  te_de :: "byte list \<Rightarrow> p2p_infos res"
  te_string :: "byte list \<Rightarrow> string res"
  te_now :: int

text \<open>
  One packet in \<^verbatim>\<open>run\<close>. The answer is \<^const>\<open>None\<close> when the code dereferences a null pointer
  or takes the front of an empty queue, the flag tells whether the packet goes to
  \<^verbatim>\<open>onMessageReceived\<close>, \<^const>\<open>Inl\<close> is an exception, which the loop logs.
\<close>

definition parent_connection :: "string \<Rightarrow> transport \<Rightarrow> rnconn option" where
  "parent_connection parentId t =
     (case getConnection_key parentId (tr_handler t) of
        Inr (Some c) \<Rightarrow> Some (cr_store (tr_handler t) ! c)
      | _ \<Rightarrow> None)"

definition advertise :: "transport_env \<Rightarrow> u64 \<Rightarrow> p2p_infos \<Rightarrow> transport \<Rightarrow> transport" where
  "advertise env guid infos t = tr_call (RakSend guid (ID_ADVERTISE_PEERID # te_ser env infos)) t"

definition on_request_accepted :: "transport_env \<Rightarrow> rak_packet \<Rightarrow> transport \<Rightarrow> transport option" where
  "on_request_accepted env p t =
     (case tr_pendingConnections t of
        [] \<Rightarrow> Some t
      | rq # _ \<Rightarrow>
          if tr_canceled t (cq_token rq) then Some (tr_call (RakCloseConnection (rk_guid p) False) t)
          else if isP2P rq then
            (case parent_connection (cq_parentId rq) t of
               None \<Rightarrow> None
             | Some parent \<Rightarrow>
                 Some (advertise env (rk_guid p)
                   \<lparr>pi_parentConnectionId = c_id parent, pi_parentId = cq_parentId rq, pi_id = cq_id rq,
                    pi_isRequest = True\<rparr> t))
          else Some t)"

definition on_attempt_failed :: "transport_env \<Rightarrow> transport \<Rightarrow> transport" where
  "on_attempt_failed env t =
     (case tr_pendingConnections t of
        [] \<Rightarrow> t
      | rq # rest \<Rightarrow>
          (let t1 = t\<lparr>tr_pendingConnections := rest\<rparr>;
               t2 = (if \<not> tr_canceled t1 (cq_token rq)
                     then tr_set (cq_tce rq) (Failed (RuntimeError ''Connection attempt failed'')) t1 else t1)
           in start_next (te_rak env) t2))"

definition on_connection_result :: "transport_env \<Rightarrow> rak_packet \<Rightarrow> transport \<Rightarrow> transport option" where
  "on_connection_result env p t =
     (case tr_pendingConnections t of
        [] \<Rightarrow> Some t
      | rq # rest \<Rightarrow>
          map_option (start_next (te_rak env))
            (onConnection_request (rk_guid p) (bytes_word (take 8 (drop 1 (rk_data p)))) rq
              (t\<lparr>tr_pendingConnections := rest\<rparr>)))"

definition on_advertise :: "transport_env \<Rightarrow> rak_packet \<Rightarrow> transport \<Rightarrow> transport res option" where
  "on_advertise env p t =
     (case te_de env (drop 1 (rk_data p)) of
        Inl e \<Rightarrow> Some (Inl e)
      | Inr infos \<Rightarrow>
          if \<not> pi_isRequest infos then
            (case tr_pendingConnections t of
               [] \<Rightarrow> None
             | rq # rest \<Rightarrow>
                 (let t1 = t\<lparr>tr_pendingConnections := rest\<rparr> in
                  map_option (\<lambda>t2. Inr (start_next (te_rak env) t2))
                    (if tr_canceled t1 (cq_token rq)
                     then Some (tr_call (RakCloseConnection (rk_guid p) False) t1)
                     else onConnection_request (rk_guid p) (pi_parentConnectionId infos) rq t1)))
          else
            (case parent_connection (pi_parentId infos) t of
               None \<Rightarrow> None
             | Some parent \<Rightarrow>
                 map_option (Inr \<circ> snd)
                   (onConnection (rk_guid p) (pi_parentConnectionId infos) (pi_id infos)
                     (advertise env (rk_guid p)
                       (infos\<lparr>pi_parentConnectionId := c_id parent, pi_isRequest := False\<rparr>) t))))"

definition on_pong :: "transport_env \<Rightarrow> int \<Rightarrow> rak_packet \<Rightarrow> transport \<Rightarrow> transport" where
  "on_pong env sentOn p t =
     (case tr_pendingPings t (rk_address p) of
        None \<Rightarrow> t
      | Some i \<Rightarrow> t\<lparr>tr_pings := (tr_pings t)[i := tce_set (Done (take_bit 32 (te_now env - sentOn))) (tr_pings t ! i)]\<rparr>)"

definition on_close_reason :: "transport_env \<Rightarrow> rak_packet \<Rightarrow> transport \<Rightarrow> transport res" where
  "on_close_reason env p t =
     (case tr_connections t (rk_guid p) of
        None \<Rightarrow> Inr t
      | Some c \<Rightarrow>
          (case te_string env (drop 1 (rk_data p)) of
             Inl e \<Rightarrow> Inl e
           | Inr reason \<Rightarrow>
               Inr (t\<lparr>tr_handler := (tr_handler t)\<lparr>cr_store :=
                 (cr_store (tr_handler t))[c := (cr_store (tr_handler t) ! c)\<lparr>c_closeReason := reason\<rparr>]\<rparr>\<rparr>)))"

definition handle_packet ::
  "transport_env \<Rightarrow> rak_packet \<Rightarrow> transport \<Rightarrow> (bool \<times> transport) res option" where
  "handle_packet env p t =
     (case rk_id p of
        RequestAccepted \<Rightarrow> map_option (\<lambda>t'. Inr (False, t')) (on_request_accepted env p t)
      | AttemptFailed \<Rightarrow> Some (Inr (False, on_attempt_failed env t))
      | DisconnectionNotification \<Rightarrow> Some (Inr (False, onDisconnection (rk_guid p) ''CLIENT_DISCONNECTED'' t))
      | ConnectionLost \<Rightarrow> Some (Inr (False, onDisconnection (rk_guid p) ''CLIENT_CONNECTION_LOST'' t))
      | UnconnectedPong sentOn \<Rightarrow> Some (Inr (False, on_pong env sentOn p t))
      | OtherRak \<Rightarrow> Some (Inr (False, t))
      | MessageId i \<Rightarrow>
          if i = ID_CONNECTION_RESULT then map_option (\<lambda>t'. Inr (False, t')) (on_connection_result env p t)
          else if i = ID_CLOSE_REASON then Some (map_sum id (Pair False) (on_close_reason env p t))
          else if i = ID_ADVERTISE_PEERID then map_option (map_sum id (Pair False)) (on_advertise env p t)
          else Some (Inr (i \<ge> 134 \<or> (58 \<le> i \<and> i \<le> 59), t)))"

section \<open>Pings\<close>

definition sendPingImpl :: "transport_env \<Rightarrow> string \<Rightarrow> transport \<Rightarrow> bool \<times> transport" where
  "sendPingImpl env address t =
     (let els = (case stringSplit address '':'' of None \<Rightarrow> [] | Some xs \<Rightarrow> xs);
          port = word_of_int (atoi (els ! 1)) in
      if tr_peer t then (te_ping env (els ! 0) port, tr_call (RakPing (els ! 0) port) t) else (False, t))"

definition sendPingImplTask :: "string \<Rightarrow> transport \<Rightarrow> nat \<times> transport" where
  "sendPingImplTask address t =
     (length (tr_pingTces t), t\<lparr>tr_pingTces := tr_pingTces t @ [Pending],
        tr_pendingPingsQueue := tr_pendingPingsQueue t @ [(address, length (tr_pingTces t))]\<rparr>)"

text \<open>What \<^verbatim>\<open>run\<close> does after the packets: at most one ping per round.\<close>

definition run_pings :: "transport_env \<Rightarrow> transport \<Rightarrow> transport" where
  "run_pings env t =
     (case tr_pendingPingsQueue t of
        [] \<Rightarrow> t
      | (address, i) # rest \<Rightarrow>
          (case sendPingImpl env address t of (b, t1) \<Rightarrow>
             t1\<lparr>tr_pingTces := (tr_pingTces t1)[i := tce_set (Done b) (tr_pingTces t1 ! i)],
                tr_pendingPingsQueue := rest\<rparr>))"

section \<open>Endpoints\<close>

lemma split_endpoint:
  assumes "CHR '':'' \<notin> set host" "CHR '':'' \<notin> set port"
  shows "stringSplit (host @ CHR '':'' # port) '':'' = Some [host, port]"
  using split_loop_char [of "[host, port]" "CHR '':''" "[]" "[]"] assms
  by (simp add: stringSplit_def stringJoin_def)

lemma split_no_port: "CHR '':'' \<notin> set e \<Longrightarrow> stringSplit e '':'' = Some [e]"
  using split_loop_char [of "[e]" "CHR '':''" "[]" "[]"] by (simp add: stringSplit_def stringJoin_def)

lemma start_request_ok:
  assumes "cq_endpoint rq = host @ CHR '':'' # port" "CHR '':'' \<notin> set host" "CHR '':'' \<notin> set port"
    and "host \<noteq> []" "word_of_int (atoi port) \<noteq> (0 :: u16)" "tr_peer t" "tr_active t"
    and "\<And>h p. rak h p = 0"
  shows "start_request rak rq t =
    tr_call (RakConnect host (word_of_int (atoi port))) (t\<lparr>tr_port := word_of_int (atoi port)\<rparr>)"
proof -
  have "\<not> length (host @ CHR '':'' # port) - 1 \<le> length port"
    using assms(4) by (cases host) simp_all
  then show ?thesis
    using assms(5-8) by (simp add: start_request_def assms(1) split_endpoint [OF assms(2,3)] Let_def)
qed

lemma start_request_no_port:
  assumes "CHR '':'' \<notin> set (cq_endpoint rq)"
  shows "start_request rak rq t = tr_set (cq_tce rq) (Failed (InvalidArgument (''Bad server endpoint, no port'' @ in_parens (cq_endpoint rq)))) t"
  by (simp add: start_request_def split_no_port [OF assms])

lemma tr_set_frame [simp]:
  "tr_pendingConnections (tr_set i v t) = tr_pendingConnections t" "tr_calls (tr_set i v t) = tr_calls t"
  "tr_peer (tr_set i v t) = tr_peer t" "tr_active (tr_set i v t) = tr_active t"
  "tr_handler (tr_set i v t) = tr_handler t" "tr_connections (tr_set i v t) = tr_connections t"
  "tr_canceled (tr_set i v t) = tr_canceled t" "length (tr_tces (tr_set i v t)) = length (tr_tces t)"
  "tr_tces (tr_set i v t) = (tr_tces t)[i := tce_set v (tr_tces t ! i)]"
  by (simp_all add: tr_set_def)

lemma tr_call_frame [simp]:
  "tr_pendingConnections (tr_call c t) = tr_pendingConnections t" "tr_calls (tr_call c t) = tr_calls t @ [c]"
  "tr_peer (tr_call c t) = tr_peer t" "tr_active (tr_call c t) = tr_active t"
  "tr_handler (tr_call c t) = tr_handler t" "tr_connections (tr_call c t) = tr_connections t"
  "tr_canceled (tr_call c t) = tr_canceled t" "tr_tces (tr_call c t) = tr_tces t"
  by (simp_all add: tr_call_def)

text \<open>A connect on a queue that is not empty only waits.\<close>

lemma connect_waits:
  assumes "tr_pendingConnections t \<noteq> []" "transport_connect rak e i pid ct t = (n, t')"
  shows "tr_calls t' = tr_calls t" "n = length (tr_tces t)" "tr_tces t' = tr_tces t @ [Pending]"
    "tr_pendingConnections t' \<noteq> []"
  using assms by (auto simp: transport_connect_def Let_def)

fun connect_all ::
  "(string \<Rightarrow> u16 \<Rightarrow> nat) \<Rightarrow> (string \<times> string \<times> string \<times> nat) list \<Rightarrow> transport \<Rightarrow> transport" where
  "connect_all rak [] t = t"
| "connect_all rak ((e, i, pid, ct) # rs) t = connect_all rak rs (snd (transport_connect rak e i pid ct t))"

lemma connect_all_waits:
  assumes "tr_pendingConnections t \<noteq> []"
  shows "tr_calls (connect_all rak rs t) = tr_calls t \<and>
    tr_tces (connect_all rak rs t) = tr_tces t @ replicate (length rs) Pending \<and>
    tr_pendingConnections (connect_all rak rs t) \<noteq> []"
  using assms
proof (induction rs arbitrary: t)
  case Nil
  then show ?case by simp
next
  case (Cons r rs)
  obtain e i pid ct where r: "r = (e, i, pid, ct)" by (cases r) auto
  obtain n t1 where c: "transport_connect rak e i pid ct t = (n, t1)" by fastforce
  note w = connect_waits [OF Cons.prems c]
  show ?case
    using Cons.IH [OF w(4)] w by (simp add: r c replicate_append_same [symmetric])
qed

section \<open>Connections and the transport's tables\<close>

lemma setConnectionState_ids [simp]:
  "c_id (setConnectionState s c) = c_id c" "c_key (setConnectionState s c) = c_key c"
  "c_onClose (setConnectionState s c) = c_onClose c" "c_sessionId (setConnectionState s c) = c_sessionId c"
  "c_closeReason (setConnectionState s c) = c_closeReason c"
  by (simp_all add: setConnectionState_def Let_def)

lemma set_conn_state_frame [simp]:
  "tr_pendingConnections (set_conn_state c s t) = tr_pendingConnections t"
  "tr_calls (set_conn_state c s t) = tr_calls t" "tr_tces (set_conn_state c s t) = tr_tces t"
  "tr_connections (set_conn_state c s t) = tr_connections t"
  "cr_connections (tr_handler (set_conn_state c s t)) = cr_connections (tr_handler t)"
  "cr_connectionsByKey (tr_handler (set_conn_state c s t)) = cr_connectionsByKey (tr_handler t)"
  "cr_tasks (tr_handler (set_conn_state c s t)) = cr_tasks (tr_handler t)"
  "length (cr_store (tr_handler (set_conn_state c s t))) = length (cr_store (tr_handler t))"
  "getConnection_id i (tr_handler (set_conn_state c s t)) = getConnection_id i (tr_handler t)"
  by (simp_all add: set_conn_state_def getConnection_id_def split: option.splits)

lemma set_conn_state_store:
  "c < length (cr_store (tr_handler t)) \<Longrightarrow>
     cr_store (tr_handler (set_conn_state c s t)) ! c = setConnectionState s (cr_store (tr_handler t) ! c)"
  by (simp add: set_conn_state_def)

lemma RakNetConnection_sel [simp]:
  "c_id (RakNetConnection g i k p) = i" "c_key (RakNetConnection g i k p) = k"
  "c_state (RakNetConnection g i k p) = conn_state Disconnected"
  "c_published (RakNetConnection g i k p) = []" "\<not> c_completed (RakNetConnection g i k p)"
  by (simp_all add: RakNetConnection_def)

lemma getConnection_id_store [simp]: "getConnection_id i (r\<lparr>cr_store := s\<rparr>) = getConnection_id i r"
  by (simp add: getConnection_id_def split: option.splits)

lemma onConnection_effect:
  assumes "tr_peer t" "maps_wf (tr_handler t)" "getConnection_id pid (tr_handler t) = Inr None"
  obtains t' where "onConnection guid pid key t = Some (length (cr_store (tr_handler t)), t')"
    "getConnection_id pid (tr_handler t') = Inr (Some (length (cr_store (tr_handler t))))"
    "tr_connections t' = (tr_connections t)(guid \<mapsto> length (cr_store (tr_handler t)))"
    "c_id (cr_store (tr_handler t') ! length (cr_store (tr_handler t))) = pid"
    "c_key (cr_store (tr_handler t') ! length (cr_store (tr_handler t))) = key"
    "cs_state (c_state (cr_store (tr_handler t') ! length (cr_store (tr_handler t)))) = Connected"
    "map cs_state (c_published (cr_store (tr_handler t') ! length (cr_store (tr_handler t)))) = [Connecting, Connected]"
    "tr_tces t' = tr_tces t" "tr_pendingConnections t' = tr_pendingConnections t" "tr_calls t' = tr_calls t"
    "length (cr_store (tr_handler t')) = Suc (length (cr_store (tr_handler t)))"
proof -
  let ?c = "length (cr_store (tr_handler t))" and ?o = "RakNetConnection guid pid key True"
  let ?r = "(tr_handler t)\<lparr>cr_store := cr_store (tr_handler t) @ [?o]\<rparr>"
  let ?t1 = "t\<lparr>tr_handler := ?r, tr_connections := (tr_connections t)(guid \<mapsto> ?c)\<rparr>"
  let ?t2 = "?t1\<lparr>tr_handler := register ?c ?r\<rparr>"
  let ?t3 = "set_conn_state ?c (conn_state Connected) (set_conn_state ?c (conn_state Connecting) ?t2)"
  have wf: "maps_wf ?r"
  proof (rule maps_wfI)
    fix i u assume a: "cr_connections ?r i = Some u"
    then have "cr_connections (tr_handler t) i = Some u" by simp
    from maps_wfD [OF assms(2) this] show "u < length (cr_tasks ?r) \<and>
        (\<exists>d < length (cr_store ?r). cr_tasks ?r ! u = Done d \<and> c_id (cr_store ?r ! d) = i)"
      by (simp add: nth_append) (metis less_SucI)
  next
    fix k u assume "cr_connectionsByKey ?r k = Some u"
    then show "u < length (cr_tasks ?r)" using maps_wf_keyD [OF assms(2)] by simp
  next
    fix u d assume "u < length (cr_tasks ?r)" "cr_tasks ?r ! u = Done d"
    then show "d < length (cr_store ?r)" using maps_wf_taskD [OF assms(2), of u d] by simp
  qed
  have c: "?c < length (cr_store ?r)" by simp
  have e: "onConnection guid pid key t = Some (?c, ?t3)"
    using assms(1) by (simp add: onConnection_def createNewConnection_def newConnection_some Let_def)
  have st: "c_state (cr_store (register ?c ?r) ! ?c) = conn_state Disconnected"
    using register_store(3) [OF c, of ?c] by simp
  have pub: "c_published (cr_store (register ?c ?r) ! ?c) = [] \<and> \<not> c_completed (cr_store (register ?c ?r) ! ?c)"
    by (simp add: register_def newConnection_add Let_def split: option.splits)
  have g: "getConnection_id pid (register ?c ?r) = Inr (Some ?c)"
    using register_get [OF wf c, of pid] assms(3) by simp
  have len: "?c < length (cr_store (register ?c ?r))" by (simp add: register_fields)
  have s1: "cr_store (tr_handler ?t3) ! ?c =
      setConnectionState (conn_state Connected) (setConnectionState (conn_state Connecting) (cr_store (register ?c ?r) ! ?c))"
    using len by (simp add: set_conn_state_store)
  let ?o1 = "cr_store (register ?c ?r) ! ?c"
  have o1: "c_id ?o1 = pid" "c_key ?o1 = key"
    using register_store(1,2) [OF c, of ?c] by simp_all
  have fin: "cs_state (c_state (setConnectionState (conn_state Connected) (setConnectionState (conn_state Connecting) ?o1))) = Connected"
    "map cs_state (c_published (setConnectionState (conn_state Connected) (setConnectionState (conn_state Connecting) ?o1))) = [Connecting, Connected]"
    using st pub by (simp_all add: setConnectionState_def cs_eq_def conn_state_def Let_def)
  show ?thesis
    by (rule that [OF e]) (simp_all only: s1 fin, simp_all add: o1 g register_fields)
qed

section \<open>Properties\<close>

text \<open>
  Property C6. A connection attempt to a well-formed endpoint, made while no other is in the
  queue, asks RakNet once for that host and port; when the server's result arrives, the
  request's task ends with a connection that has the peer id of the result and the requested
  key, is connected, is found in the connection manager under its id, and the queue is empty
  again.
\<close>

theorem connect_and_result:
  assumes "tr_pendingConnections t = []" "tr_peer t" "tr_active t" "\<not> tr_canceled t ct"
    and "CHR '':'' \<notin> set host" "CHR '':'' \<notin> set port" "host \<noteq> []" "word_of_int (atoi port) \<noteq> (0 :: u16)"
    and "te_rak env = (\<lambda>_ _. 0)"
    and "transport_connect (te_rak env) (host @ CHR '':'' # port) key '''' ct t = (n, t1)"
    and "maps_wf (tr_handler t)" "getConnection_id pid (tr_handler t) = Inr None"
    and "rk_id p = MessageId ID_CONNECTION_RESULT" "take 8 (drop 1 (rk_data p)) = word_bytes pid"
  shows "tr_calls t1 = tr_calls t @ [RakConnect host (word_of_int (atoi port))] \<and> tr_tces t1 ! n = Pending \<and>
    (\<exists>t2 c. handle_packet env p t1 = Some (Inr (False, t2)) \<and> tr_tces t2 ! n = Done c \<and>
       c_id (cr_store (tr_handler t2) ! c) = pid \<and> c_key (cr_store (tr_handler t2) ! c) = key \<and>
       cs_state (c_state (cr_store (tr_handler t2) ! c)) = Connected \<and>
       getConnection_id pid (tr_handler t2) = Inr (Some c) \<and>
       tr_connections t2 (rk_guid p) = Some c \<and> tr_pendingConnections t2 = [])"
proof -
  let ?rq = "\<lparr>cq_endpoint = host @ CHR '':'' # port, cq_token = ct, cq_id = key, cq_parentId = '''',
      cq_tce = length (tr_tces t)\<rparr>"
  let ?t0 = "t\<lparr>tr_tces := tr_tces t @ [Pending], tr_pendingConnections := [?rq]\<rparr>"
  have sn: "start_next (te_rak env) ?t0 = start_request (te_rak env) ?rq ?t0"
    using assms(4) by (subst start_next.simps) simp
  have sr: "start_request (te_rak env) ?rq ?t0 =
      tr_call (RakConnect host (word_of_int (atoi port))) (?t0\<lparr>tr_port := word_of_int (atoi port)\<rparr>)"
    by (rule start_request_ok) (use assms in simp_all)
  have n: "n = length (tr_tces t)" and t1: "t1 = start_next (te_rak env) ?t0"
    using assms(1,10) by (auto simp: transport_connect_def Let_def)
  note t1' = t1 [unfolded sn sr]
  let ?t2 = "t1\<lparr>tr_pendingConnections := []\<rparr>"
  have pre: "tr_peer ?t2" "maps_wf (tr_handler ?t2)" "getConnection_id pid (tr_handler ?t2) = Inr None"
    using assms(2,11,12) unfolding t1' by simp_all
  obtain t3 where t3: "onConnection (rk_guid p) pid key ?t2 = Some (length (cr_store (tr_handler ?t2)), t3)"
    "getConnection_id pid (tr_handler t3) = Inr (Some (length (cr_store (tr_handler ?t2))))"
    "tr_connections t3 = (tr_connections ?t2)(rk_guid p \<mapsto> length (cr_store (tr_handler ?t2)))"
    "c_id (cr_store (tr_handler t3) ! length (cr_store (tr_handler ?t2))) = pid"
    "c_key (cr_store (tr_handler t3) ! length (cr_store (tr_handler ?t2))) = key"
    "cs_state (c_state (cr_store (tr_handler t3) ! length (cr_store (tr_handler ?t2)))) = Connected"
    "tr_tces t3 = tr_tces ?t2" "tr_pendingConnections t3 = tr_pendingConnections ?t2"
    using onConnection_effect [OF pre, of "rk_guid p" key] by metis
  let ?t4 = "tr_set n (Done (length (cr_store (tr_handler ?t2)))) t3"
  have e: "start_next (te_rak env) ?t4 = ?t4"
    using t3(8) by (subst start_next.simps) simp
  have q: "tr_pendingConnections t1 = [?rq]" "tr_tces t1 = tr_tces t @ [Pending]" "tr_calls t1 = tr_calls t @ [RakConnect host (word_of_int (atoi port))]"
    unfolding t1' by simp_all
  have rq: "onConnection_request (rk_guid p) pid ?rq ?t2 = Some ?t4"
    using t3(1) by (simp add: onConnection_request_def n)
  have "on_connection_result env p t1 = Some ?t4"
    using q(1) rq e by (simp add: on_connection_result_def assms(14) bytes_word_word_bytes del: One_nat_def)
  then have "handle_packet env p t1 = Some (Inr (False, ?t4))"
    by (simp add: handle_packet_def assms(13))
  moreover have "tr_tces ?t4 ! n = Done (length (cr_store (tr_handler ?t2)))"
    using t3(7) q(2) n by (simp add: tce_set_def)
  ultimately show ?thesis
    using q t3 n by (intro conjI exI [of _ ?t4] exI [of _ "length (cr_store (tr_handler ?t2))"]) simp_all
qed

text \<open>
  An endpoint without a port stops the transport for good: the attempt fails at
  once, but its request stays at the front of the queue, so no later attempt, however many
  there are, makes RakNet connect, and their tasks stay pending.
\<close>

theorem bad_endpoint_blocks_queue:
  assumes "tr_pendingConnections t = []" "\<not> tr_canceled t ct" "CHR '':'' \<notin> set e"
    and "transport_connect rak e i pid ct t = (n, t1)"
  shows "tr_tces t1 ! n = Failed (InvalidArgument (''Bad server endpoint, no port'' @ in_parens e)) \<and>
    tr_calls (connect_all rak rs t1) = tr_calls t \<and>
    drop (Suc n) (tr_tces (connect_all rak rs t1)) = replicate (length rs) Pending"
proof -
  let ?rq = "\<lparr>cq_endpoint = e, cq_token = ct, cq_id = i, cq_parentId = pid, cq_tce = length (tr_tces t)\<rparr>"
  let ?t0 = "t\<lparr>tr_tces := tr_tces t @ [Pending], tr_pendingConnections := [?rq]\<rparr>"
  have "start_next rak ?t0 = start_request rak ?rq ?t0"
    using assms(2) by (subst start_next.simps) simp
  also have "\<dots> = tr_set (length (tr_tces t)) (Failed (InvalidArgument (''Bad server endpoint, no port'' @ in_parens e))) ?t0"
    using assms(3) by (simp add: start_request_no_port)
  finally have t1: "n = length (tr_tces t)"
    "t1 = tr_set (length (tr_tces t)) (Failed (InvalidArgument (''Bad server endpoint, no port'' @ in_parens e))) ?t0"
    using assms(1,4) by (auto simp: transport_connect_def Let_def)
  have "tr_pendingConnections t1 \<noteq> []" using t1(2) by simp
  from connect_all_waits [OF this, of rak rs] t1 show ?thesis by (simp add: tce_set_def)
qed

text \<open>
  A canceled request is still connected: taken off the queue because its token
  is canceled, the request behind it is started, and then, as nothing returns, so is the
  canceled one; RakNet is asked for both hosts although one request is left.
\<close>

theorem canceled_request_connects:
  assumes "tr_pendingConnections t = [a, b]" "tr_canceled t (cq_token a)" "\<not> tr_canceled t (cq_token b)"
    and "tr_peer t" "tr_active t" "rak = (\<lambda>_ _. 0)"
    and "cq_endpoint a = ha @ CHR '':'' # pa" "CHR '':'' \<notin> set ha" "CHR '':'' \<notin> set pa" "ha \<noteq> []"
    and "cq_endpoint b = hb @ CHR '':'' # pb" "CHR '':'' \<notin> set hb" "CHR '':'' \<notin> set pb" "hb \<noteq> []"
    and "word_of_int (atoi pa) \<noteq> (0 :: u16)" "word_of_int (atoi pb) \<noteq> (0 :: u16)"
  shows "tr_calls (start_next rak t) = tr_calls t @
      [RakConnect hb (word_of_int (atoi pb)), RakConnect ha (word_of_int (atoi pa))] \<and>
    tr_pendingConnections (start_next rak t) = [b]"
proof -
  let ?t0 = "t\<lparr>tr_pendingConnections := [b]\<rparr>"
  have 1: "start_next rak ?t0 = start_request rak b ?t0"
    using assms(3) by (subst start_next.simps) simp
  have 2: "start_request rak b ?t0 =
      tr_call (RakConnect hb (word_of_int (atoi pb))) (?t0\<lparr>tr_port := word_of_int (atoi pb)\<rparr>)"
    by (rule start_request_ok) (use assms in simp_all)
  have 3: "start_request rak a u =
      tr_call (RakConnect ha (word_of_int (atoi pa))) (u\<lparr>tr_port := word_of_int (atoi pa)\<rparr>)"
    if "tr_peer u" "tr_active u" for u
    by (rule start_request_ok) (use assms that in simp_all)
  have "start_next rak t = start_request rak a (start_next rak ?t0)"
    using assms(1,2) by (subst start_next.simps) simp
  then show ?thesis
    unfolding 1 2 using 3 assms(4,5) by simp
qed

text \<open>
  A disconnection reported by RakNet removes the connection from the transport's
  table and from the connection manager, runs its \<^verbatim>\<open>onClose\<close> event once and leaves it
  disconnected, with the reason the peer had announced if there is one; for an unknown peer
  nothing happens.
\<close>

theorem disconnection_effect:
  assumes "maps_wf (tr_handler t)" "tr_connections t g = Some c" "c < length (cr_store (tr_handler t))"
    and "cs_state (c_state (cr_store (tr_handler t) ! c)) = Connected"
  shows "tr_connections (onDisconnection g reason t) g = None \<and>
    getConnection_id (c_id (cr_store (tr_handler t) ! c)) (tr_handler (onDisconnection g reason t)) = Inr None \<and>
    (let o0 = cr_store (tr_handler t) ! c; o1 = cr_store (tr_handler (onDisconnection g reason t)) ! c;
         why = (if c_closeReason o0 \<noteq> '''' then c_closeReason o0 else reason)
     in c_onClose o1 = c_onClose o0 @ [why] \<and> c_state o1 = conn_state_because Disconnected why) \<and>
    onDisconnection g reason (onDisconnection g reason t) = onDisconnection g reason t"
proof -
  let ?o = "cr_store (tr_handler t) ! c"
  let ?w = "if c_closeReason ?o \<noteq> '''' then c_closeReason ?o else reason"
  let ?r1 = "closeConnection c (tr_handler t)"
  let ?t1 = "t\<lparr>tr_connections := (tr_connections t)(g := None)\<rparr>"
  let ?t2 = "?t1\<lparr>tr_handler := ?r1\<lparr>cr_store := (cr_store ?r1)[c := fire_onClose ?w (cr_store ?r1 ! c)]\<rparr>\<rparr>"
  let ?t4 = "set_conn_state c (conn_state_because Disconnected ?w) (set_conn_state c (conn_state_because Disconnecting ?w) ?t2)"
  have e: "onDisconnection g reason t = ?t4"
    using assms(2) by (simp add: onDisconnection_def removeConnection_def Let_def)
  have store: "cr_store ?r1 = cr_store (tr_handler t)" by (simp add: closeConnection_def forget_def)
  have o1: "cr_store (tr_handler ?t4) ! c = setConnectionState (conn_state_because Disconnected ?w)
      (setConnectionState (conn_state_because Disconnecting ?w) (fire_onClose ?w ?o))"
    using assms(3) by (simp add: set_conn_state_store store)
  have s: "c_onClose (cr_store (tr_handler ?t4) ! c) = c_onClose ?o @ [?w]"
    "c_state (cr_store (tr_handler ?t4) ! c) = conn_state_because Disconnected ?w"
    unfolding o1 using assms(4)
    by (simp_all add: fire_onClose_def setConnectionState_def cs_eq_def conn_state_because_def Let_def)
  have g: "tr_connections ?t4 g = None"
    "getConnection_id (c_id ?o) (tr_handler ?t4) = Inr None"
    using repo.remove_get [of "c_id ?o" c "tr_handler t"] by simp_all
  have "onDisconnection g reason ?t4 = ?t4"
    using g(1) by (simp add: onDisconnection_def removeConnection_def)
  then show ?thesis unfolding e using s g by (simp add: Let_def)
qed

section \<open>Witnesses\<close>

definition demo_transport :: transport where
  "demo_transport = \<lparr>tr_isRunning = True, tr_peer = True, tr_active = True, tr_connections = Map.empty,
     tr_pendingConnections = [], tr_tces = [], tr_port = 0, tr_canceled = (\<lambda>n. n = 9),
     tr_pendingPings = Map.empty, tr_pings = [], tr_pendingPingsQueue = [], tr_pingTces = [],
     tr_calls = [], tr_handler = ConnectionsRepository\<rparr>"

definition demo_tenv :: transport_env where
  "demo_tenv = \<lparr>te_rak = (\<lambda>_ _. 0), te_ping = (\<lambda>_ _. True), te_ser = (\<lambda>_. []),
     te_de = (\<lambda>_. Inl TaskCanceled), te_string = (\<lambda>_. Inl TaskCanceled), te_now = 0\<rparr>"

lemma atoi_70: "atoi ''70'' = 70"
  by (simp add: atoi_def is_blank_def digits_value_def is_digit_def)

theorem connect_and_result_witness:
  "\<exists>t2. handle_packet demo_tenv
     \<lparr>rk_id = MessageId ID_CONNECTION_RESULT, rk_guid = 3, rk_address = '''', rk_data = 140 # word_bytes (77 :: u64)\<rparr>
     (snd (transport_connect (te_rak demo_tenv) (''h'' @ CHR '':'' # ''70'') ''k'' '''' 1 demo_transport)) =
       Some (Inr (False, t2)) \<and> tr_pendingConnections t2 = [] \<and>
     (\<exists>c. getConnection_id 77 (tr_handler t2) = Inr (Some c))"
proof -
  let ?p = "\<lparr>rk_id = MessageId ID_CONNECTION_RESULT, rk_guid = 3, rk_address = '''', rk_data = 140 # word_bytes (77 :: u64)\<rparr>"
  have c: "transport_connect (te_rak demo_tenv) (''h'' @ CHR '':'' # ''70'') ''k'' '''' 1 demo_transport =
      (0, snd (transport_connect (te_rak demo_tenv) (''h'' @ CHR '':'' # ''70'') ''k'' '''' 1 demo_transport))"
    by (simp add: transport_connect_def Let_def demo_transport_def)
  have d: "tr_pendingConnections demo_transport = []" "tr_peer demo_transport" "tr_active demo_transport"
    "\<not> tr_canceled demo_transport 1" "maps_wf (tr_handler demo_transport)"
    "getConnection_id 77 (tr_handler demo_transport) = Inr None"
    by (simp_all add: demo_transport_def repo_wf_new getConnection_id_def) (simp add: ConnectionsRepository_def)
  have r: "te_rak demo_tenv = (\<lambda>_ _. 0)" by (simp add: demo_tenv_def)
  have p: "rk_id ?p = MessageId ID_CONNECTION_RESULT" "take 8 (drop 1 (rk_data ?p)) = word_bytes (77 :: u64)"
    by simp_all
  from connect_and_result [OF d(1-4) _ _ _ _ r c d(5,6) p]
  show ?thesis by (auto simp: atoi_70)
qed

theorem bad_endpoint_blocks_queue_witness:
  "tr_calls (connect_all (\<lambda>_ _. 0) [(''h:70'', '''', '''', 1)]
     (snd (transport_connect (\<lambda>_ _. 0) ''nohost'' ''k'' '''' 1 demo_transport))) = []"
proof -
  have c: "transport_connect (\<lambda>_ _. 0) ''nohost'' ''k'' '''' 1 demo_transport =
      (0, snd (transport_connect (\<lambda>_ _. 0) ''nohost'' ''k'' '''' 1 demo_transport))"
    by (simp add: transport_connect_def Let_def demo_transport_def)
  from bad_endpoint_blocks_queue [OF _ _ _ c, of "[(''h:70'', '''', '''', 1)]"] show ?thesis
    by (simp add: demo_transport_def)
qed

theorem canceled_request_connects_witness:
  "tr_calls (start_next (\<lambda>_ _. 0) (demo_transport\<lparr>tr_pendingConnections :=
     [\<lparr>cq_endpoint = ''a'' @ CHR '':'' # ''70'', cq_token = 9, cq_id = '''', cq_parentId = '''', cq_tce = 0\<rparr>,
      \<lparr>cq_endpoint = ''b'' @ CHR '':'' # ''70'', cq_token = 1, cq_id = '''', cq_parentId = '''', cq_tce = 1\<rparr>]\<rparr>)) =
   [RakConnect ''b'' 70, RakConnect ''a'' 70]"
  using canceled_request_connects [where ha = "''a''" and pa = "''70''" and hb = "''b''" and pb = "''70''"
      and rak = "\<lambda>_ _. 0" and t = "demo_transport\<lparr>tr_pendingConnections :=
     [\<lparr>cq_endpoint = ''a'' @ CHR '':'' # ''70'', cq_token = 9, cq_id = '''', cq_parentId = '''', cq_tce = 0\<rparr>,
      \<lparr>cq_endpoint = ''b'' @ CHR '':'' # ''70'', cq_token = 1, cq_id = '''', cq_parentId = '''', cq_tce = 1\<rparr>]\<rparr>",
      OF _ _ _ _ _ refl]
  by (simp add: demo_transport_def atoi_70)

theorem disconnection_effect_witness:
  "tr_connections (onDisconnection 9 ''lost'' (demo_transport\<lparr>tr_handler := register 0 demo_repo,
     tr_connections := [9 \<mapsto> 0]\<rparr>)) 9 = None"
proof -
  let ?t = "demo_transport\<lparr>tr_handler := register 0 demo_repo, tr_connections := [9 \<mapsto> 0]\<rparr>"
  have "repo_reach (register 0 demo_repo)"
    by (rule repo_reach.arrive [OF demo_repo_reach _ newConnection_some]) (simp add: demo_repo_simps)
  then have 1: "maps_wf (tr_handler ?t)" using repo_reach_wf by simp
  have 2: "tr_connections ?t 9 = Some 0" "0 < length (cr_store (tr_handler ?t))"
    by (simp_all add: register_fields demo_repo_simps)
  have 3: "cs_state (c_state (cr_store (tr_handler ?t) ! 0)) = Connected"
    by (simp add: register_store demo_repo_simps)
      (simp add: demo_repo_def ConnectionsRepository_def setConnectionState_def conn_state_def cs_eq_def Let_def)
  from disconnection_effect [OF 1 2 3, of "''lost''"] show ?thesis by blast
qed

end
