(* ===== verification/ChannelUids.thy ===== *)
theory ChannelUids
  imports Prelude
begin

text \<open>
  Ordering channels: \<^verbatim>\<open>ChannelUidStore.cpp\<close>. A connection has 16 channels; a channel
  identifier keeps its channel until it is the least recently used one and another identifier
  needs a channel. Instants of the steady clock are arguments. The lemmas show that the loops
  find what they look for and that identifiers stay distinct; the property is the guarantee
  a sender relies on, that an identifier in use keeps its channel.
\<close>

section \<open>The store\<close>

record channel_info =
  ch_identifier :: string
  ch_lastUsed :: nat

definition channelUidsCount :: nat where
  "channelUidsCount = 16"

definition ChannelUidStore :: "nat \<Rightarrow> channel_info list" where
  "ChannelUidStore now = replicate channelUidsCount \<lparr>ch_identifier = '''', ch_lastUsed = now\<rparr>"

text \<open>The two loops, from index \<^term>\<open>i\<close> on; \<open>-1\<close> is \<^verbatim>\<open>not found\<close>.\<close>

fun reserved_from :: "string \<Rightarrow> nat \<Rightarrow> channel_info list \<Rightarrow> int" where
  "reserved_from x i [] = -1"
| "reserved_from x i (c # cs) = (if ch_identifier c = x then int i else reserved_from x (Suc i) cs)"

definition getReservedChannel :: "string \<Rightarrow> channel_info list \<Rightarrow> int" where
  "getReservedChannel x s = reserved_from x 0 s"

fun older_from :: "nat \<Rightarrow> int \<Rightarrow> nat \<Rightarrow> channel_info list \<Rightarrow> int" where
  "older_from minDate minUid i [] = minUid"
| "older_from minDate minUid i (c # cs) =
     (if ch_lastUsed c < minDate then older_from (ch_lastUsed c) (int i) (Suc i) cs
      else older_from minDate minUid (Suc i) cs)"

definition getOlderChannel :: "nat \<Rightarrow> channel_info list \<Rightarrow> int" where
  "getOlderChannel now s = older_from now (-1) 0 s"

text \<open>\<^term>\<open>t1\<close> is the time \<^verbatim>\<open>getOlderChannel\<close> starts from, \<^term>\<open>t2\<close> the one stored at the end.\<close>

definition getChannelUid ::
  "string \<Rightarrow> nat \<Rightarrow> nat \<Rightarrow> channel_info list \<Rightarrow> int res \<times> channel_info list" where
  "getChannelUid x t1 t2 s =
     (let u = getReservedChannel x s in
      if u = -1 then
        (let v = getOlderChannel t1 s in
         if v = -1 then (Inl (RuntimeError ''No channelUid available''), s)
         else (Inr v, s[nat v := \<lparr>ch_identifier = x, ch_lastUsed = t2\<rparr>]))
      else (Inr u, s[nat u := (s ! nat u)\<lparr>ch_lastUsed := t2\<rparr>]))"

section \<open>The loops\<close>

lemma reserved_from_cases:
  "(reserved_from x i s = -1 \<and> (\<forall>c \<in> set s. ch_identifier c \<noteq> x)) \<or>
   (\<exists>k < length s. reserved_from x i s = int (i + k) \<and> ch_identifier (s ! k) = x \<and>
      (\<forall>j < k. ch_identifier (s ! j) \<noteq> x))"
proof (induction s arbitrary: i)
  case Nil
  then show ?case by simp
next
  case (Cons c cs)
  show ?case
  proof (cases "ch_identifier c = x")
    case True
    then show ?thesis by (intro disjI2 exI [of _ 0]) simp
  next
    case False
    from Cons.IH [of "Suc i"] show ?thesis
    proof (elim disjE exE conjE)
      fix k
      assume "k < length cs" "reserved_from x (Suc i) cs = int (Suc i + k)"
        "ch_identifier (cs ! k) = x" "\<forall>j<k. ch_identifier (cs ! j) \<noteq> x"
      then show ?thesis
        using False by (intro disjI2 exI [of _ "Suc k"]) (auto simp: less_Suc_eq_0_disj)
    qed (use False in simp)
  qed
qed

lemma getReservedChannel_cases:
  obtains (free) "getReservedChannel x s = -1" "\<forall>c \<in> set s. ch_identifier c \<noteq> x"
  | (reserved) u where "getReservedChannel x s = int u" "u < length s" "ch_identifier (s ! u) = x"
  using reserved_from_cases [of x 0 s] unfolding getReservedChannel_def by auto

lemma older_from_cases:
  "(older_from m u i s = u \<and> (\<forall>c \<in> set s. m \<le> ch_lastUsed c)) \<or>
   (\<exists>k < length s. older_from m u i s = int (i + k) \<and> ch_lastUsed (s ! k) < m \<and>
      (\<forall>c \<in> set s. ch_lastUsed (s ! k) \<le> ch_lastUsed c))"
proof (induction s arbitrary: m u i)
  case Nil
  then show ?case by simp
next
  case (Cons c cs)
  show ?case
  proof (cases "ch_lastUsed c < m")
    case True
    from Cons.IH [of "ch_lastUsed c" "int i" "Suc i"] show ?thesis
    proof (elim disjE exE conjE)
      assume "older_from (ch_lastUsed c) (int i) (Suc i) cs = int i" "\<forall>d \<in> set cs. ch_lastUsed c \<le> ch_lastUsed d"
      then show ?thesis using True by (intro disjI2 exI [of _ 0]) simp
    next
      fix k
      assume "k < length cs" "older_from (ch_lastUsed c) (int i) (Suc i) cs = int (Suc i + k)"
        "ch_lastUsed (cs ! k) < ch_lastUsed c" "\<forall>d \<in> set cs. ch_lastUsed (cs ! k) \<le> ch_lastUsed d"
      then show ?thesis using True by (intro disjI2 exI [of _ "Suc k"]) auto
    qed
  next
    case False
    from Cons.IH [of m u "Suc i"] show ?thesis
    proof (elim disjE exE conjE)
      fix k
      assume "k < length cs" "older_from m u (Suc i) cs = int (Suc i + k)"
        "ch_lastUsed (cs ! k) < m" "\<forall>d \<in> set cs. ch_lastUsed (cs ! k) \<le> ch_lastUsed d"
      then show ?thesis using False by (intro disjI2 exI [of _ "Suc k"]) auto
    qed (use False in simp)
  qed
qed

lemma getOlderChannel_cases:
  obtains (none) "getOlderChannel now s = -1" "\<forall>c \<in> set s. now \<le> ch_lastUsed c"
  | (oldest) v where "getOlderChannel now s = int v" "v < length s" "ch_lastUsed (s ! v) < now"
      "\<forall>j < length s. ch_lastUsed (s ! v) \<le> ch_lastUsed (s ! j)"
  using older_from_cases [of now "-1" 0 s] unfolding getOlderChannel_def by auto

section \<open>Invariant\<close>

text \<open>
  Sixteen channels, reserved identifiers distinct, no time in the future. The empty identifier
  is the one of a free channel.
\<close>

definition chan_wf :: "nat \<Rightarrow> channel_info list \<Rightarrow> bool" where
  "chan_wf now s \<longleftrightarrow> length s = channelUidsCount \<and> (\<forall>c \<in> set s. ch_lastUsed c \<le> now) \<and>
     (\<forall>i < length s. \<forall>j < length s. ch_identifier (s ! i) = ch_identifier (s ! j) \<longrightarrow>
        ch_identifier (s ! i) \<noteq> '''' \<longrightarrow> i = j)"

lemma chan_wf_D:
  assumes "chan_wf now s"
  shows "length s = 16" "i < 16 \<Longrightarrow> ch_lastUsed (s ! i) \<le> now"
    "i < 16 \<Longrightarrow> j < 16 \<Longrightarrow> ch_identifier (s ! i) = ch_identifier (s ! j) \<Longrightarrow>
       ch_identifier (s ! i) \<noteq> '''' \<Longrightarrow> i = j"
  using assms by (auto simp: chan_wf_def channelUidsCount_def)

lemma chan_wf_new: "chan_wf now (ChannelUidStore now)"
  by (simp add: chan_wf_def ChannelUidStore_def)

text \<open>A call on a store whose times are all in the past succeeds, on one channel.\<close>

lemma getChannelUid_cases:
  assumes "chan_wf now s" "now < t1"
  obtains (reserved) u where "u < 16" "ch_identifier (s ! u) = x"
      "getChannelUid x t1 t2 s = (Inr (int u), s[u := \<lparr>ch_identifier = x, ch_lastUsed = t2\<rparr>])"
  | (taken) u where "u < 16" "\<forall>i < 16. ch_identifier (s ! i) \<noteq> x"
      "\<forall>i < 16. ch_lastUsed (s ! u) \<le> ch_lastUsed (s ! i)"
      "getChannelUid x t1 t2 s = (Inr (int u), s[u := \<lparr>ch_identifier = x, ch_lastUsed = t2\<rparr>])"
proof (cases rule: getReservedChannel_cases [of x s])
  case (reserved u)
  have e: "(s ! u)\<lparr>ch_lastUsed := t2\<rparr> = \<lparr>ch_identifier = x, ch_lastUsed = t2\<rparr>"
    using reserved(3) by (cases "s ! u") simp
  from reserved chan_wf_D(1) [OF assms(1)] show ?thesis
    by (intro that(1) [of u]) (simp_all add: getChannelUid_def e)
next
  case free
  show ?thesis
  proof (cases rule: getOlderChannel_cases [of t1 s])
    case none
    then show ?thesis using assms chan_wf_D [OF assms(1)] by (metis le_trans not_less nth_mem zero_less_numeral)
  next
    case (oldest v)
    then show ?thesis
      using that(2) [of v] free chan_wf_D(1) [OF assms(1)] by (simp add: getChannelUid_def)
  qed
qed

lemma chan_wf_update:
  assumes "chan_wf now s" "now < t2" "u < 16"
    and "\<forall>i < 16. ch_identifier (s ! i) = x \<longrightarrow> x \<noteq> '''' \<longrightarrow> i = u"
  shows "chan_wf t2 (s[u := \<lparr>ch_identifier = x, ch_lastUsed = t2\<rparr>])"
proof -
  note d = chan_wf_D [OF assms(1)]
  let ?s = "s[u := \<lparr>ch_identifier = x, ch_lastUsed = t2\<rparr>]"
  have "ch_lastUsed c \<le> t2" if "c \<in> set ?s" for c
  proof -
    have "c \<in> insert \<lparr>ch_identifier = x, ch_lastUsed = t2\<rparr> (set s)"
      using that set_update_subset_insert by (rule rev_subsetD)
    then show ?thesis using assms(1,2) unfolding chan_wf_def by (auto dest: bspec)
  qed
  moreover have "i = j" if "i < 16" "j < 16" "ch_identifier (?s ! i) = ch_identifier (?s ! j)"
    "ch_identifier (?s ! i) \<noteq> ''''" for i j
  proof (cases "i = u \<or> j = u")
    case True
    have k: "k = u" if "k < 16" "ch_identifier (s ! k) = x" "x \<noteq> ''''" for k
      using assms(4) that by blast
    from True show ?thesis
    proof
      assume iu: "i = u"
      then have "ch_identifier (?s ! j) = x" "x \<noteq> ''''" using that(3,4) assms(3) d(1) by simp_all
      then show ?thesis using iu k [OF that(2)] by (cases "j = u") simp_all
    next
      assume ju: "j = u"
      then have "ch_identifier (?s ! i) = x" "x \<noteq> ''''" using that(3,4) assms(3) d(1) by simp_all
      then show ?thesis using ju k [OF that(1)] by (cases "i = u") simp_all
    qed
  next
    case False
    then show ?thesis using that(3,4) d(3) [OF that(1,2)] by simp
  qed
  ultimately show ?thesis
    using d(1) by (simp add: chan_wf_def channelUidsCount_def)
qed

lemma getChannelUid_wf [inv_intros]:
  assumes "chan_wf now s" "now < t1" "t1 \<le> t2"
  shows "chan_wf t2 (snd (getChannelUid x t1 t2 s))"
  using assms(1,2)
proof (cases rule: getChannelUid_cases [where x = x and ?t2.0 = t2])
  case (reserved u)
  have "\<forall>i < 16. ch_identifier (s ! i) = x \<longrightarrow> x \<noteq> '''' \<longrightarrow> i = u"
    using chan_wf_D(3) [OF assms(1) _ reserved(1)] unfolding reserved(2) by simp
  then have "chan_wf t2 (s[u := \<lparr>ch_identifier = x, ch_lastUsed = t2\<rparr>])"
    using chan_wf_update [OF assms(1) _ reserved(1)] assms(2,3) by simp
  then show ?thesis by (simp add: reserved(3))
next
  case (taken u)
  have "\<forall>i < 16. ch_identifier (s ! i) = x \<longrightarrow> x \<noteq> '''' \<longrightarrow> i = u"
    using taken(2) by blast
  then have "chan_wf t2 (s[u := \<lparr>ch_identifier = x, ch_lastUsed = t2\<rparr>])"
    using chan_wf_update [OF assms(1) _ taken(1)] assms(2,3) by simp
  then show ?thesis by (simp add: taken(4))
qed

section \<open>Identifiers in use keep their channel\<close>

text \<open>A sequence of calls: identifier and the two instants of each.\<close>

fun uid_calls :: "(string \<times> nat \<times> nat) list \<Rightarrow> channel_info list \<Rightarrow> channel_info list" where
  "uid_calls [] s = s"
| "uid_calls ((x, t1, t2) # cs) s = uid_calls cs (snd (getChannelUid x t1 t2 s))"

text \<open>The clock advances between calls.\<close>

fun clock_ok :: "nat \<Rightarrow> (string \<times> nat \<times> nat) list \<Rightarrow> bool" where
  "clock_ok now [] \<longleftrightarrow> True"
| "clock_ok now ((x, t1, t2) # cs) \<longleftrightarrow> now < t1 \<and> t1 \<le> t2 \<and> clock_ok t2 cs"

fun last_time :: "nat \<Rightarrow> (string \<times> nat \<times> nat) list \<Rightarrow> nat" where
  "last_time now [] = now"
| "last_time now ((x, t1, t2) # cs) = last_time t2 cs"

lemma uid_calls_wf: "chan_wf now s \<Longrightarrow> clock_ok now cs \<Longrightarrow> chan_wf (last_time now cs) (uid_calls cs s)"
proof (induction cs arbitrary: s now)
  case (Cons c cs)
  obtain x t1 t2 where c: "c = (x, t1, t2)" by (cases c)
  have "chan_wf t2 (snd (getChannelUid x t1 t2 s))"
    using Cons.prems c getChannelUid_wf [of now s t1 t2 x] by simp
  with Cons show ?case by (simp add: c)
qed simp

text \<open>
  Channel \<^term>\<open>u\<close> holds \<^term>\<open>a\<close>, and the channels used since \<^term>\<open>a\<close> was used hold
  identifiers of a set \<^term>\<open>S\<close>.
\<close>

definition holds_since :: "string \<Rightarrow> nat \<Rightarrow> string set \<Rightarrow> channel_info list \<Rightarrow> bool" where
  "holds_since a u S s \<longleftrightarrow> u < 16 \<and> ch_identifier (s ! u) = a \<and>
     (\<forall>v < 16. v \<noteq> u \<longrightarrow> ch_lastUsed (s ! v) \<noteq> ch_lastUsed (s ! u) \<and>
        (ch_lastUsed (s ! u) < ch_lastUsed (s ! v) \<longrightarrow> ch_identifier (s ! v) \<in> S))"

lemma holds_since_use:
  assumes "chan_wf now s" "now < t2" "u < 16"
  shows "holds_since a u S (s[u := \<lparr>ch_identifier = a, ch_lastUsed = t2\<rparr>])"
  using assms chan_wf_D(1) [OF assms(1)] chan_wf_D(2) [OF assms(1)]
  by (fastforce simp: holds_since_def nth_list_update)

lemma holds_since_other:
  assumes "chan_wf now s" "now < t2" "v < 16" "v \<noteq> u" "x \<in> S" "holds_since a u S s"
  shows "holds_since a u S (s[v := \<lparr>ch_identifier = x, ch_lastUsed = t2\<rparr>])"
proof -
  have "ch_lastUsed (s ! u) < t2"
    using chan_wf_D(2) [OF assms(1), of u] assms(2,6) by (simp add: holds_since_def)
  then show ?thesis
    using assms(3-6) chan_wf_D(1) [OF assms(1)] by (simp add: holds_since_def nth_list_update)
qed

text \<open>The channel of \<^term>\<open>a\<close> is the oldest only when 15 identifiers were used since.\<close>

lemma oldest_crowded:
  assumes "chan_wf now s" "holds_since a u S s" "finite S" "'''' \<notin> S"
    and "\<forall>i < 16. ch_lastUsed (s ! u) \<le> ch_lastUsed (s ! i)" "\<forall>i < 16. ch_identifier (s ! i) \<noteq> x" "x \<in> S"
  shows "16 \<le> card S"
proof -
  let ?V = "{..<16} - {u}"
  have u: "u < 16" using assms(2) by (simp add: holds_since_def)
  have mem: "ch_identifier (s ! v) \<in> S" if "v < 16" "v \<noteq> u" for v
    using assms(2,5) that unfolding holds_since_def by (metis le_neq_implies_less)
  have inj: "inj_on (\<lambda>v. ch_identifier (s ! v)) ?V"
  proof (rule inj_onI)
    fix i j
    assume ij: "i \<in> ?V" "j \<in> ?V" "ch_identifier (s ! i) = ch_identifier (s ! j)"
    then have "ch_identifier (s ! i) \<noteq> ''''" using mem [of i] assms(4) by auto
    with ij show "i = j" using chan_wf_D(3) [OF assms(1), of i j] by simp
  qed
  have "card ?V = 15" using u by simp
  moreover have "(\<lambda>v. ch_identifier (s ! v)) ` ?V \<subseteq> S - {x}" using mem assms(6) by auto
  ultimately have "15 \<le> card (S - {x})"
    using inj card_inj_on_le [OF inj, of "S - {x}"] assms(3) by simp
  moreover have "card S = Suc (card (S - {x}))"
    using assms(3,7) by (rule card.remove)
  ultimately show ?thesis by simp
qed

lemma holds_since_call:
  assumes "chan_wf now s" "now < t1" "t1 \<le> t2" "holds_since a u S s" "a \<noteq> ''''"
    and "finite S" "'''' \<notin> S" "card S \<le> 15" "x = a \<or> x \<in> S"
  shows "holds_since a u S (snd (getChannelUid x t1 t2 s)) \<and>
    (x = a \<longrightarrow> fst (getChannelUid x t1 t2 s) = Inr (int u))"
proof -
  have t2: "now < t2" using assms(2,3) by simp
  have ua: "u < 16" "ch_identifier (s ! u) = a" using assms(4) by (simp_all add: holds_since_def)
  show ?thesis
    using assms(1,2)
  proof (cases rule: getChannelUid_cases [where x = x and ?t2.0 = t2])
    case (reserved v)
    show ?thesis
    proof (cases "x = a")
      case True
      then have "v = u" using chan_wf_D(3) [OF assms(1) reserved(1) ua(1)] reserved(2) ua(2) assms(5) by simp
      then show ?thesis using holds_since_use [OF assms(1) t2 ua(1)] reserved(3) True by simp
    next
      case False
      then have "v \<noteq> u" "x \<in> S" using reserved(2) ua(2) assms(9) by auto
      then show ?thesis using holds_since_other [OF assms(1) t2 reserved(1)] reserved(3) assms(4) False by simp
    qed
  next
    case (taken v)
    then have "x \<noteq> a" using ua by blast
    then have xS: "x \<in> S" using assms(9) by simp
    have "v \<noteq> u"
    proof
      assume "v = u"
      then have "16 \<le> card S" using oldest_crowded [OF assms(1,4,6,7)] taken(2,3) xS by simp
      then show False using assms(8) by simp
    qed
    then show ?thesis
      using holds_since_other [OF assms(1) t2 taken(1) _ xS assms(4)] taken(4) \<open>x \<noteq> a\<close> by simp
  qed
qed

lemma holds_since_calls:
  assumes "chan_wf now s" "clock_ok now cs" "holds_since a u S s" "a \<noteq> ''''"
    and "finite S" "'''' \<notin> S" "card S \<le> 15" "fst ` set cs \<subseteq> insert a S"
  shows "holds_since a u S (uid_calls cs s)"
  using assms
proof (induction cs arbitrary: s now)
  case (Cons c cs)
  obtain x t1 t2 where c: "c = (x, t1, t2)" by (cases c)
  have k: "now < t1" "t1 \<le> t2" "clock_ok t2 cs" "x = a \<or> x \<in> S" "fst ` set cs \<subseteq> insert a S"
    using Cons.prems(2,8) by (auto simp: c)
  have "holds_since a u S (snd (getChannelUid x t1 t2 s))"
    using holds_since_call [OF Cons.prems(1) k(1,2) Cons.prems(3-7) k(4)] by simp
  then show ?case
    using Cons.IH [OF getChannelUid_wf [OF Cons.prems(1) k(1,2)] k(3)] Cons.prems(4-7) k(5) by (simp add: c)
qed simp

text \<open>
  Property C7. An identifier that asked for a channel keeps it as long as at most 15 other
  identifiers ask for one: whatever their calls are, the next call for it returns the same
  channel, a number from 0 to 15. The clock has to advance between calls.
\<close>

theorem channel_uid_stable:
  assumes "chan_wf now s" "now < t1" "t1 \<le> t2" "getChannelUid a t1 t2 s = (r, s')" "a \<noteq> ''''"
    and "clock_ok t2 cs" "'''' \<notin> fst ` set cs" "card (fst ` set cs - {a}) \<le> 15"
    and "last_time t2 cs < t3" "t3 \<le> t4"
  shows "\<exists>u < 16. r = Inr (int u) \<and> fst (getChannelUid a t3 t4 (uid_calls cs s')) = Inr (int u)"
proof -
  let ?S = "fst ` set cs - {a}"
  have wf: "chan_wf t2 s'" using getChannelUid_wf [OF assms(1-3), of a] assms(4) by simp
  obtain u where u: "u < 16" "r = Inr (int u)" "s' = s[u := \<lparr>ch_identifier = a, ch_lastUsed = t2\<rparr>]"
    using getChannelUid_cases [OF assms(1,2), of a t2] assms(4) by (metis prod.inject)
  have "now < t2" using assms(2,3) by simp
  then have "holds_since a u ?S s'" unfolding u(3) by (rule holds_since_use [OF assms(1) _ u(1)])
  then have "holds_since a u ?S (uid_calls cs s')"
    by (rule holds_since_calls [OF wf assms(6) _ assms(5)]) (use assms(7,8) in auto)
  then have "fst (getChannelUid a t3 t4 (uid_calls cs s')) = Inr (int u)"
    using holds_since_call [OF uid_calls_wf [OF wf assms(6)] assms(9,10) _ assms(5), of u ?S a]
      assms(7,8) by simp
  with u show ?thesis by blast
qed

text \<open>
  While the clock shows the time at which the store was made, no channel is
  handed out for any identifier but the empty one: the search for an older channel wants one
  that was used strictly before now.
\<close>

theorem fresh_store_needs_a_tick:
  assumes "x \<noteq> ''''"
  shows "getChannelUid x now t2 (ChannelUidStore now) =
      (Inl (RuntimeError ''No channelUid available''), ChannelUidStore now) \<and>
    (now < t1 \<longrightarrow> fst (getChannelUid x t1 t2 (ChannelUidStore now)) = Inr 0)"
  using assms
  by (simp add: getChannelUid_def getReservedChannel_def getOlderChannel_def ChannelUidStore_def
      channelUidsCount_def numeral_eq_Suc)

section \<open>Witnesses\<close>

theorem channel_uid_stable_witness:
  "\<exists>u < 16. fst (getChannelUid ''a'' 1 1 (ChannelUidStore 0)) = Inr (int u) \<and>
     fst (getChannelUid ''a'' 5 6 (uid_calls [(''b'', 2, 2), (''c'', 3, 4)]
       (snd (getChannelUid ''a'' 1 1 (ChannelUidStore 0))))) = Inr (int u)"
  by (rule channel_uid_stable [where now = 0 and s = "ChannelUidStore 0" and ?t1.0 = 1 and ?t2.0 = 1])
    (simp_all add: chan_wf_new)

theorem fresh_store_needs_a_tick_witness:
  "fst (getChannelUid ''a'' 3 4 (ChannelUidStore 3)) = Inl (RuntimeError ''No channelUid available'')"
  using fresh_store_needs_a_tick [of "''a''" 3 4] by simp

end
