(* ===== verification/SceneTypes.thy ===== *)
theory SceneTypes
  imports ByteStreams
begin

text \<open>
  The values scenes are made of: \<^verbatim>\<open>Route.cpp\<close>, \<^verbatim>\<open>MessageOriginFilter.h\<close>,
  \<^verbatim>\<open>PeerFilter.cpp\<close>, \<^verbatim>\<open>RouteDto.h\<close> and the scene addresses of \<^verbatim>\<open>Scene.h\<close> and
  \<^verbatim>\<open>Client.cpp\<close>. Handlers of a route are subscriptions, named by numbers. The lemmas show
  that equality of peer filters is equality of type and of the sets of ids, and that an
  address survives being printed and parsed.
\<close>

section \<open>Routes\<close>

datatype MessageOriginFilter = FromHost | FromPeer | FromAll

fun origin_mask :: "MessageOriginFilter \<Rightarrow> u32" where
  "origin_mask FromHost = 1"
| "origin_mask FromPeer = 2"
| "origin_mask FromAll = 0xFF"

definition filter_admits :: "MessageOriginFilter \<Rightarrow> MessageOriginFilter \<Rightarrow> bool" where
  "filter_admits f origin \<longleftrightarrow> origin_mask f AND origin_mask origin \<noteq> 0"

lemma filter_admits_simps [simp]:
  "filter_admits FromHost FromHost" "\<not> filter_admits FromHost FromPeer"
  "filter_admits FromPeer FromPeer" "\<not> filter_admits FromPeer FromHost"
  "filter_admits FromAll FromHost" "filter_admits FromAll FromPeer"
  by (simp_all add: filter_admits_def)

record route =
  rt_name :: string
  rt_handle :: u16
  rt_filter :: MessageOriginFilter
  rt_metadata :: "string \<rightharpoonup> string"
  rt_handlers :: "nat list"

definition Route :: "string \<Rightarrow> u16 \<Rightarrow> MessageOriginFilter \<Rightarrow> (string \<rightharpoonup> string) \<Rightarrow> route" where
  "Route n h f m = \<lparr>rt_name = n, rt_handle = h, rt_filter = f, rt_metadata = m, rt_handlers = []\<rparr>"

definition setHandle :: "u16 \<Rightarrow> route \<Rightarrow> route" where
  "setHandle h r = r\<lparr>rt_handle := h\<rparr>"

lemma Route_sel [simp]:
  "rt_name (Route n h f m) = n" "rt_handle (Route n h f m) = h" "rt_filter (Route n h f m) = f"
  "rt_metadata (Route n h f m) = m" "rt_handlers (Route n h f m) = []"
  by (simp_all add: Route_def)

lemma setHandle_sel [simp]:
  "rt_name (setHandle h r) = rt_name r" "rt_handle (setHandle h r) = h" "rt_filter (setHandle h r) = rt_filter r"
  "rt_metadata (setHandle h r) = rt_metadata r" "rt_handlers (setHandle h r) = rt_handlers r"
  by (simp_all add: setHandle_def)

record route_dto =
  rd_name :: string
  rd_handle :: u16
  rd_metadata :: "string \<rightharpoonup> string"

section \<open>Peer filters\<close>

datatype PeerFilterType = MatchSceneHost | MatchPeers | MatchAllP2P

record PeerFilter =
  pf_type :: PeerFilterType
  pf_ids :: "string list"

definition matchSceneHost :: PeerFilter where
  "matchSceneHost = \<lparr>pf_type = MatchSceneHost, pf_ids = []\<rparr>"

definition matchAllP2P :: PeerFilter where
  "matchAllP2P = \<lparr>pf_type = MatchAllP2P, pf_ids = []\<rparr>"

definition matchPeers :: "string list \<Rightarrow> PeerFilter" where
  "matchPeers ids = \<lparr>pf_type = MatchPeers, pf_ids = ids\<rparr>"

definition pf_eq :: "PeerFilter \<Rightarrow> PeerFilter \<Rightarrow> bool" where
  "pf_eq a b \<longleftrightarrow> pf_type a = pf_type b \<and>
     list_all (\<lambda>i. List.member (pf_ids b) i) (pf_ids a) \<and>
     list_all (\<lambda>i. List.member (pf_ids a) i) (pf_ids b)"

text \<open>
  \<^verbatim>\<open>readFilter\<close>: the deserializers of a byte and of a vector of strings take a stream to a
  value, or throw. A byte that is no known type is read as \<^verbatim>\<open>MatchSceneHost\<close>.
\<close>

definition readFilter ::
  "('s \<Rightarrow> (byte \<times> 's) res) \<Rightarrow> ('s \<Rightarrow> (string list \<times> 's) res) \<Rightarrow> 's \<Rightarrow> (PeerFilter \<times> 's) res" where
  "readFilter de_byte de_ids s =
     bind_res (de_byte s) (\<lambda>(b, s1).
       if b = 1 then bind_res (de_ids s1) (\<lambda>(ids, s2). Inr (matchPeers ids, s2))
       else if b = 2 then Inr (matchAllP2P, s1)
       else Inr (matchSceneHost, s1))"

section \<open>Scene addresses\<close>

record scene_address =
  sa_clusterId :: string
  sa_app :: string
  sa_account :: string
  sa_sceneId :: string

definition toUri :: "scene_address \<Rightarrow> string" where
  "toUri a = ''scene:/'' @ sa_clusterId a @ ''/'' @ sa_account a @ ''/'' @ sa_app a @ ''/'' @ sa_sceneId a"

text \<open>
  The tokens that repeated \<^verbatim>\<open>std::getline(stream, token, '/')\<close> reads: a last token is read only
  when there is a character left for it.
\<close>

fun getline_tokens :: "char \<Rightarrow> string \<Rightarrow> string \<Rightarrow> string list" where
  "getline_tokens d acc [] = (if acc = [] then [] else [rev acc])"
| "getline_tokens d acc (c # cs) =
     (if c = d then rev acc # getline_tokens d [] cs else getline_tokens d (c # acc) cs)"

definition or_default :: "string \<Rightarrow> string \<Rightarrow> string" where
  "or_default x d = (if x = '''' then d else x)"

definition parse :: "string \<Rightarrow> string \<Rightarrow> string \<Rightarrow> string \<Rightarrow> scene_address" where
  "parse urn defaultClusterId defaultAccount defaultApp =
     (let a = (if take 6 urn \<noteq> ''scene:''
               then \<lparr>sa_clusterId = '''', sa_app = '''', sa_account = '''', sa_sceneId = urn\<rparr>
               else
                 (let ts = getline_tokens (CHR ''/'') [] urn; n = length ts in
                  \<lparr>sa_clusterId = (if n > 4 then ts ! (n - 4) else ''''),
                   sa_app = (if n > 2 then ts ! (n - 2) else ''''),
                   sa_account = (if n > 3 then ts ! (n - 3) else ''''),
                   sa_sceneId = ts ! (n - 1)\<rparr>))
      in a\<lparr>sa_clusterId := or_default (sa_clusterId a) defaultClusterId,
           sa_account := or_default (sa_account a) defaultAccount,
           sa_app := or_default (sa_app a) defaultApp\<rparr>)"

section \<open>Lemmas\<close>

lemma getline_tokens_last:
  "d \<notin> set x \<Longrightarrow> getline_tokens d acc x = (if acc = [] \<and> x = [] then [] else [rev acc @ x])"
  by (induction x arbitrary: acc) auto

lemma getline_tokens_cut:
  "d \<notin> set x \<Longrightarrow> getline_tokens d acc (x @ d # y) = (rev acc @ x) # getline_tokens d [] y"
  by (induction x arbitrary: acc) auto

lemma parse_scene_uri:
  assumes "ts = getline_tokens (CHR ''/'') [] (''scene:/'' @ rest)"
  shows "parse (''scene:/'' @ rest) c ac ap =
    (let n = length ts in
     \<lparr>sa_clusterId = or_default (if n > 4 then ts ! (n - 4) else '''') c,
      sa_app = or_default (if n > 2 then ts ! (n - 2) else '''') ap,
      sa_account = or_default (if n > 3 then ts ! (n - 3) else '''') ac,
      sa_sceneId = ts ! (n - 1)\<rparr>)"
  using assms by (simp add: parse_def Let_def)

definition slash_free :: "string \<Rightarrow> bool" where
  "slash_free s \<longleftrightarrow> CHR ''/'' \<notin> set s"

text \<open>
  Property C8. An address printed by \<^verbatim>\<open>toUri\<close> is parsed back to itself, whatever the defaults
  are, when its parts have no slash and none is empty; an empty cluster, account or
  application is filled with the default. The four forms the documentation lists are parsed
  as it says, and a string without the scheme is a scene id.
\<close>

theorem address_roundtrip:
  assumes "slash_free cl" "slash_free ac" "slash_free ap" "slash_free i" "i \<noteq> ''''"
  shows "parse (toUri \<lparr>sa_clusterId = cl, sa_app = ap, sa_account = ac, sa_sceneId = i\<rparr>) dc dac dap =
      \<lparr>sa_clusterId = or_default cl dc, sa_app = or_default ap dap,
       sa_account = or_default ac dac, sa_sceneId = i\<rparr> \<and>
    parse (''scene:/'' @ ac @ ''/'' @ ap @ ''/'' @ i) dc dac dap =
      \<lparr>sa_clusterId = dc, sa_app = or_default ap dap, sa_account = or_default ac dac, sa_sceneId = i\<rparr> \<and>
    parse (''scene:/'' @ ap @ ''/'' @ i) dc dac dap =
      \<lparr>sa_clusterId = dc, sa_app = or_default ap dap, sa_account = dac, sa_sceneId = i\<rparr> \<and>
    parse (''scene:/'' @ i) dc dac dap =
      \<lparr>sa_clusterId = dc, sa_app = dap, sa_account = dac, sa_sceneId = i\<rparr> \<and>
    (take 6 i \<noteq> ''scene:'' \<longrightarrow> parse i dc dac dap =
      \<lparr>sa_clusterId = dc, sa_app = dap, sa_account = dac, sa_sceneId = i\<rparr>)"
proof -
  note cut = getline_tokens_cut [of "CHR ''/''" _ "[]"] and last = getline_tokens_last [of "CHR ''/''" _ "[]"]
  note free = assms(1-4) [unfolded slash_free_def]
  have head: "getline_tokens (CHR ''/'') [] (''scene:/'' @ y) = ''scene:'' # getline_tokens (CHR ''/'') [] y" for y
    using cut [of "''scene:''" y] by simp
  have t1: "getline_tokens (CHR ''/'') [] i = [i]" using last [OF free(4)] assms(5) by simp
  have t2: "getline_tokens (CHR ''/'') [] (ap @ ''/'' @ i) = [ap, i]" using cut [OF free(3)] t1 by simp
  have t3: "getline_tokens (CHR ''/'') [] (ac @ ''/'' @ ap @ ''/'' @ i) = [ac, ap, i]"
    using cut [OF free(2)] t2 by simp
  have t4: "getline_tokens (CHR ''/'') [] (cl @ ''/'' @ ac @ ''/'' @ ap @ ''/'' @ i) = [cl, ac, ap, i]"
    using cut [OF free(1)] t3 by simp
  note p = parse_scene_uri [OF refl, unfolded head Let_def]
  have "parse (toUri \<lparr>sa_clusterId = cl, sa_app = ap, sa_account = ac, sa_sceneId = i\<rparr>) dc dac dap =
      \<lparr>sa_clusterId = or_default cl dc, sa_app = or_default ap dap,
       sa_account = or_default ac dac, sa_sceneId = i\<rparr>"
    using p [of "cl @ ''/'' @ ac @ ''/'' @ ap @ ''/'' @ i", unfolded t4] by (simp add: toUri_def)
  moreover have "parse (''scene:/'' @ ac @ ''/'' @ ap @ ''/'' @ i) dc dac dap =
      \<lparr>sa_clusterId = dc, sa_app = or_default ap dap, sa_account = or_default ac dac, sa_sceneId = i\<rparr>"
    using p [of "ac @ ''/'' @ ap @ ''/'' @ i", unfolded t3] by (simp add: or_default_def)
  moreover have "parse (''scene:/'' @ ap @ ''/'' @ i) dc dac dap =
      \<lparr>sa_clusterId = dc, sa_app = or_default ap dap, sa_account = dac, sa_sceneId = i\<rparr>"
    using p [of "ap @ ''/'' @ i", unfolded t2] by (simp add: or_default_def)
  moreover have "parse (''scene:/'' @ i) dc dac dap =
      \<lparr>sa_clusterId = dc, sa_app = dap, sa_account = dac, sa_sceneId = i\<rparr>"
    using p [of i, unfolded t1] by (simp add: or_default_def)
  ultimately show ?thesis by (simp add: parse_def or_default_def)
qed

text \<open>Peer filters compare their ids as sets.\<close>

lemma peer_filter_equality:
  "pf_eq a b \<longleftrightarrow> pf_type a = pf_type b \<and> set (pf_ids a) = set (pf_ids b)"
  by (auto simp: pf_eq_def list_all_iff)

section \<open>Witnesses\<close>

theorem address_roundtrip_witness:
  "parse (toUri \<lparr>sa_clusterId = ''c'', sa_app = ''game'', sa_account = ''me'', sa_sceneId = ''lobby''\<rparr>) ''d'' ''e'' ''f'' =
     \<lparr>sa_clusterId = ''c'', sa_app = ''game'', sa_account = ''me'', sa_sceneId = ''lobby''\<rparr>"
  using address_roundtrip [of "''c''" "''me''" "''game''" "''lobby''" "''d''" "''e''" "''f''"]
  by (simp add: slash_free_def or_default_def)

end
