(* ===== verification/Scenes.thy ===== *)
theory Scenes
  imports SceneTypes ChannelUids SystemRequests
begin

text \<open>
  Scenes: \<^verbatim>\<open>Scene.cpp\<close>, \<^verbatim>\<open>SceneDispatcher.cpp\<close>, \<^verbatim>\<open>ScenePeer.cpp\<close>, \<^verbatim>\<open>P2PScenePeer.cpp\<close>
  and the message of \<^verbatim>\<open>P2PConnectToSceneMessage.h\<close>. A scene holds its routes, the handlers
  the server's handles select, the peers connected to it, its connection state and the jobs
  it has posted to the action dispatcher, which run in the order they were posted. Iteration
  over an unordered map takes the order of its keys as an argument. A null pointer that is
  dereferenced, an index out of bounds and an iterator that is no longer valid end an
  operation with \<^const>\<open>None\<close>.
\<close>

section \<open>State\<close>

text \<open>The connections of a client, their channel stores and their tables of scene handles.\<close>

record net =
  nt_conns :: "nat \<Rightarrow> rnconn"
  nt_channels :: "nat \<Rightarrow> channel_info list"
  nt_handles :: "nat \<Rightarrow> nat option list"
  nt_aes :: aeswin

text \<open>RakNet's \<^verbatim>\<open>Send\<close>, the AES primitives with the nonce, the configuration and the clock.\<close>

record scene_env =
  se_rak :: "transmission \<Rightarrow> nat"
  se_bc :: bcrypt
  se_rnd :: "byte list"
  se_enabled :: bool
  se_t1 :: nat
  se_t2 :: nat

text \<open>\<^verbatim>\<open>ScenePeer\<close> (the host) and \<^verbatim>\<open>P2PScenePeer\<close>.\<close>

record scene_peer =
  sp_handle :: byte
  sp_routes :: "string \<rightharpoonup> route"
  sp_metadata :: "string \<rightharpoonup> string"
  sp_connection :: nat

definition ScenePeer :: "nat \<Rightarrow> byte \<Rightarrow> (string \<rightharpoonup> route) \<Rightarrow> scene_peer" where
  "ScenePeer conn h routes =
     \<lparr>sp_handle = h, sp_routes = routes, sp_metadata = Map.empty, sp_connection = conn\<rparr>"

record p2p_message =
  pm_sceneId :: string
  pm_sceneHandle :: byte
  pm_routes :: "route_dto list"
  pm_connectionMetadata :: "string \<rightharpoonup> string"
  pm_sceneMetadata :: "string \<rightharpoonup> string"

definition P2PScenePeer :: "nat \<Rightarrow> p2p_message \<Rightarrow> scene_peer" where
  "P2PScenePeer conn m =
     \<lparr>sp_handle = pm_sceneHandle m,
      sp_routes = fold (\<lambda>r. emplace (rd_name r) (Route (rd_name r) (rd_handle r) FromPeer (rd_metadata r)))
        (pm_routes m) Map.empty,
      sp_metadata = pm_sceneMetadata m, sp_connection = conn\<rparr>"

text \<open>
  What a scene posts to the action dispatcher: a change of state with the changes chained
  behind it, the two peer events (the first carries an iterator, here the key), and the
  handling of a packet.
\<close>

datatype scene_job =
    SetState "ConnectionState list"
  | RaiseConnected string
  | RaiseDisconnected scene_peer
  | HandleMessage packet

text \<open>What user code sees: events, state changes and the messages of the routes.\<close>

datatype scene_event =
    PacketReceived packet
  | Delivered nat scene_peer "byte list"
  | PeerConnected scene_peer
  | PeerDisconnected scene_peer

record scene =
  sc_client :: bool
  sc_peer :: nat
  sc_address :: scene_address
  sc_metadata :: "string \<rightharpoonup> string"
  sc_localRoutes :: "string \<rightharpoonup> route"
  sc_remoteRoutes :: "string \<rightharpoonup> route"
  sc_handlers :: "u16 \<rightharpoonup> (string \<times> nat) list"
  sc_subscribed :: "nat list"
  sc_host :: "scene_peer option"
  sc_connectedPeers :: "string \<rightharpoonup> scene_peer"
  sc_state :: ConnectionState
  sc_completed :: bool
  sc_published :: "ConnectionState list"
  sc_jobs :: "scene_job list"

record scene_infos =
  si_metadata :: "string \<rightharpoonup> string"
  si_routes :: "route_dto list"

definition Scene_Impl :: "nat \<Rightarrow> scene_address \<Rightarrow> scene_infos \<Rightarrow> scene" where
  "Scene_Impl peer address dto =
     \<lparr>sc_client = True, sc_peer = peer, sc_address = address, sc_metadata = si_metadata dto,
      sc_localRoutes = Map.empty,
      sc_remoteRoutes = fold (\<lambda>r m. m(rd_name r \<mapsto> Route (rd_name r) (rd_handle r) FromHost (rd_metadata r)))
        (si_routes dto) Map.empty,
      sc_handlers = Map.empty, sc_subscribed = [], sc_host = None, sc_connectedPeers = Map.empty,
      sc_state = conn_state Disconnected, sc_completed = False, sc_published = [], sc_jobs = []\<rparr>"

definition getHostMetadata :: "string \<Rightarrow> scene \<Rightarrow> string" where
  "getHostMetadata k sc = (case sc_metadata sc k of None \<Rightarrow> '''' | Some v \<Rightarrow> v)"

definition post_job :: "scene_job \<Rightarrow> scene \<Rightarrow> scene" where
  "post_job j sc = sc\<lparr>sc_jobs := sc_jobs sc @ [j]\<rparr>"

section \<open>Routes\<close>

text \<open>
  \<^verbatim>\<open>onMessage\<close> with a name makes the route; its observable registers a handler when it is
  subscribed, and takes it out of the route's list when the subscription ends. The table of
  handlers by handle is a copy, so a handler stays there, but its subscriber is silent.
\<close>

definition onMessage :: "string \<Rightarrow> MessageOriginFilter \<Rightarrow> (string \<rightharpoonup> string) \<Rightarrow> scene \<Rightarrow> unit res \<times> scene" where
  "onMessage n f meta sc =
     (if \<not> sc_client sc then (Inl (RuntimeError ''The client is deleted.''), sc)
      else if cs_state (sc_state sc) \<noteq> Disconnected \<and> cs_state (sc_state sc) \<noteq> Connecting
      then (Inl (RuntimeError ''A route cannot be added to a scene already connected.''), sc)
      else if n = [] \<or> n ! 0 = CHR ''@''
      then (Inl (InvalidArgument ''A route cannot be empty or start with the '@' character.''), sc)
      else if sc_localRoutes sc n \<noteq> None
      then (Inl (RuntimeError ''A route already exists for this route name.''), sc)
      else (Inr (), sc\<lparr>sc_localRoutes := (sc_localRoutes sc)(n \<mapsto> Route n 0 f meta)\<rparr>))"

definition subscribe_route :: "string \<Rightarrow> nat \<Rightarrow> scene \<Rightarrow> scene" where
  "subscribe_route n h sc =
     sc\<lparr>sc_localRoutes := (sc_localRoutes sc)(n := map_option (\<lambda>r. r\<lparr>rt_handlers := rt_handlers r @ [h]\<rparr>)
          (sc_localRoutes sc n)),
        sc_subscribed := sc_subscribed sc @ [h]\<rparr>"

definition unsubscribe_route :: "string \<Rightarrow> nat \<Rightarrow> scene \<Rightarrow> scene" where
  "unsubscribe_route n h sc =
     sc\<lparr>sc_localRoutes := (sc_localRoutes sc)(n := map_option (\<lambda>r. r\<lparr>rt_handlers := remove1 h (rt_handlers r)\<rparr>)
          (sc_localRoutes sc n)),
        sc_subscribed := filter (\<lambda>i. i \<noteq> h) (sc_subscribed sc)\<rparr>"

definition addRoute ::
  "string \<Rightarrow> nat \<Rightarrow> MessageOriginFilter \<Rightarrow> (string \<rightharpoonup> string) \<Rightarrow> scene \<Rightarrow> unit res \<times> scene" where
  "addRoute n h f meta sc =
     (case onMessage n f meta sc of (r, sc1) \<Rightarrow>
        (case r of Inl e \<Rightarrow> (Inl e, sc1) | Inr _ \<Rightarrow> (Inr (), subscribe_route n h sc1)))"

record connection_result =
  cr_sceneHandle :: byte
  cr_routeMappings :: "string \<rightharpoonup> u16"

text \<open>\<^verbatim>\<open>cr.RouteMappings[name]\<close> is 0 for a route the server does not know.\<close>

definition route_mapping :: "string \<Rightarrow> connection_result \<Rightarrow> u16" where
  "route_mapping n cr = (case cr_routeMappings cr n of None \<Rightarrow> 0 | Some h \<Rightarrow> h)"

definition map_route :: "connection_result \<Rightarrow> string \<Rightarrow> scene \<Rightarrow> scene" where
  "map_route cr n sc =
     (case sc_localRoutes sc n of
        None \<Rightarrow> sc
      | Some r \<Rightarrow>
          sc\<lparr>sc_localRoutes := (sc_localRoutes sc)(n \<mapsto> setHandle (route_mapping n cr) r),
             sc_handlers := (sc_handlers sc)(route_mapping n cr \<mapsto> map (Pair n) (rt_handlers r))\<rparr>)"

definition completeConnectionInitialization :: "string list \<Rightarrow> connection_result \<Rightarrow> scene \<Rightarrow> scene" where
  "completeConnectionInitialization order cr sc =
     fold (map_route cr) order
       (sc\<lparr>sc_host := Some (ScenePeer (sc_peer sc) (cr_sceneHandle cr) (sc_remoteRoutes sc))\<rparr>)"

section \<open>Sending\<close>

text \<open>
  The private \<^verbatim>\<open>send\<close> to one peer: scene handle, route handle, then the caller's bytes, on the
  channel of the identifier.
\<close>

definition channel_name :: "string \<Rightarrow> string \<Rightarrow> scene \<Rightarrow> string" where
  "channel_name ident n sc =
     (if ident = '''' then ''Scene_'' @ sa_sceneId (sc_address sc) @ ''_'' @ n else ident)"

definition scene_writer :: "byte \<Rightarrow> u16 \<Rightarrow> writer \<Rightarrow> writer" where
  "scene_writer sh rh w = Some (\<lambda>s. run_writer w (serialize rh (serialize sh s)))"

definition send_peer ::
  "scene_env \<Rightarrow> scene_peer \<Rightarrow> string \<Rightarrow> writer \<Rightarrow> nat \<Rightarrow> nat \<Rightarrow> string \<Rightarrow> scene \<Rightarrow> net \<Rightarrow>
   unit res \<times> net" where
  "send_peer env sp n w priority reliability ident sc net =
     (case sp_routes sp n of
        None \<Rightarrow> (Inl (InvalidArgument (''The route '' @ [CHR 0x27] @ n @ [CHR 0x27] @
          '' doesn't exist in the ScenePeer'')), net)
      | Some rt \<Rightarrow>
          (let k = sp_connection sp in
           case getChannelUid (channel_name ident n sc) (se_t1 env) (se_t2 env) (nt_channels net k) of (u, ch) \<Rightarrow>
             (let net1 = net\<lparr>nt_channels := (nt_channels net)(k := ch)\<rparr> in
              case u of
                Inl e \<Rightarrow> (Inl e, net1)
              | Inr uid \<Rightarrow>
                  (case conn_send (se_rak env) (se_bc env) (se_rnd env) (se_enabled env)
                      (scene_writer (sp_handle sp) (rt_handle rt) w) uid priority reliability False
                      (nt_conns net1 k) (nt_aes net1) of (r, c, a) \<Rightarrow>
                     (r, net1\<lparr>nt_conns := (nt_conns net1)(k := c), nt_aes := a\<rparr>)))))"

text \<open>The loops stop at the first exception.\<close>

fun send_peers ::
  "(scene_peer \<Rightarrow> net \<Rightarrow> unit res \<times> net) \<Rightarrow> scene_peer list \<Rightarrow> net \<Rightarrow> unit res \<times> net" where
  "send_peers f [] net = (Inr (), net)"
| "send_peers f (p # ps) net =
     (case f p net of (r, net1) \<Rightarrow> (case r of Inl e \<Rightarrow> (Inl e, net1) | Inr _ \<Rightarrow> send_peers f ps net1))"

fun send_ids ::
  "(scene_peer \<Rightarrow> net \<Rightarrow> unit res \<times> net) \<Rightarrow> (string \<rightharpoonup> scene_peer) \<Rightarrow> string list \<Rightarrow> net \<Rightarrow>
   unit res \<times> net" where
  "send_ids f peers [] net = (Inr (), net)"
| "send_ids f peers (i # is) net =
     (case peers i of
        None \<Rightarrow> (Inl (RuntimeError ''Peer not found''), net)
      | Some p \<Rightarrow>
          (case f p net of (r, net1) \<Rightarrow>
             (case r of Inl e \<Rightarrow> (Inl e, net1) | Inr _ \<Rightarrow> send_ids f peers is net1)))"

text \<open>\<^term>\<open>order\<close> lists the session ids of the connected peers in the map's order.\<close>

definition scene_send_filter ::
  "scene_env \<Rightarrow> string list \<Rightarrow> PeerFilter \<Rightarrow> string \<Rightarrow> writer \<Rightarrow> nat \<Rightarrow> nat \<Rightarrow> string \<Rightarrow> scene \<Rightarrow> net \<Rightarrow>
   (unit res \<times> net) option" where
  "scene_send_filter env order pf n w priority reliability ident sc net =
     (let f = (\<lambda>p. send_peer env p n w priority reliability ident sc) in
      if \<not> sc_client sc then Some (Inl (RuntimeError ''Client deleted''), net)
      else if cs_state (sc_state sc) \<noteq> Connected
      then Some (Inl (RuntimeError ''The scene is not connected''), net)
      else if n = [] then Some (Inl (InvalidArgument ''The Route name is invalid''), net)
      else (case pf_type pf of
          MatchSceneHost \<Rightarrow> map_option (\<lambda>p. f p net) (sc_host sc)
        | MatchAllP2P \<Rightarrow> Some (send_peers f (List.map_filter (sc_connectedPeers sc) order) net)
        | MatchPeers \<Rightarrow>
            if pf_ids pf = []
            then Some (Inl (InvalidArgument
              ''peerFilter: A MatchPeers filter needs to have at least one Peer Session Id''), net)
            else Some (send_ids f (sc_connectedPeers sc) (pf_ids pf) net)))"

definition scene_send ::
  "scene_env \<Rightarrow> string \<Rightarrow> writer \<Rightarrow> nat \<Rightarrow> nat \<Rightarrow> string \<Rightarrow> scene \<Rightarrow> net \<Rightarrow> (unit res \<times> net) option" where
  "scene_send env n w priority reliability ident sc net =
     scene_send_filter env [] matchSceneHost n w priority reliability ident sc net"

section \<open>Receiving\<close>

text \<open>
  A handler made by \<^verbatim>\<open>onMessage(route)\<close>: it looks up the origin of the packet, filters, and
  gives the subscriber a packet over the bytes that are left. The route it captures is shared
  with the map of local routes, where it is found by its name.
\<close>

definition route_handler ::
  "(nat \<Rightarrow> rnconn) \<Rightarrow> scene \<Rightarrow> packet \<Rightarrow> string \<times> nat \<Rightarrow> scene_event list option" where
  "route_handler conns sc p nh =
     (case (sc_host sc, sc_localRoutes sc (fst nh)) of
        (Some hp, Some rt) \<Rightarrow>
          (let fromHost = (c_id (conns (p_conn p)) = c_id (conns (sp_connection hp)));
               origin = (if fromHost then Some hp
                         else sc_connectedPeers sc (c_sessionId (conns (p_conn p)))) in
           case origin of
             None \<Rightarrow> Some []
           | Some o' \<Rightarrow>
               if filter_admits (rt_filter rt) (if fromHost then FromHost else FromPeer) \<and>
                  snd nh \<in> set (sc_subscribed sc)
               then Some [Delivered (snd nh) o' (p_rest p)] else Some [])
      | _ \<Rightarrow> None)"

fun run_handlers :: "('h \<Rightarrow> scene_event list option) \<Rightarrow> 'h list \<Rightarrow> scene_event list option" where
  "run_handlers f [] = Some []"
| "run_handlers f (h # hs) =
     (case f h of None \<Rightarrow> None | Some es \<Rightarrow> map_option ((@) es) (run_handlers f hs))"

text \<open>
  \<^verbatim>\<open>handleMessage\<close>. The handle is not initialised before it is read. The route is the first one
  in the order of the map of local routes that has the handle; the handlers come from the
  table.
\<close>

definition handleMessage ::
  "(nat \<Rightarrow> rnconn) \<Rightarrow> string list \<Rightarrow> u16 \<Rightarrow> packet \<Rightarrow> scene \<Rightarrow> scene_event list option" where
  "handleMessage conns order junk p sc =
     (case p_read junk p of (rh, p1) \<Rightarrow>
        (case sc_handlers sc rh of
           None \<Rightarrow> Some [PacketReceived p]
         | Some hs \<Rightarrow>
             (case find (\<lambda>r. rt_handle r = rh) (List.map_filter (sc_localRoutes sc) order) of
                None \<Rightarrow> None
              | Some rt \<Rightarrow>
                  (case sc_host sc of
                     None \<Rightarrow> None
                   | Some hp \<Rightarrow>
                       (let fromHost = (c_id (conns (p_conn p1)) = c_id (conns (sp_connection hp))) in
                        if fromHost \<and> \<not> filter_admits (rt_filter rt) FromHost then Some [PacketReceived p]
                        else if \<not> fromHost \<and> \<not> filter_admits (rt_filter rt) FromPeer
                        then Some [PacketReceived p]
                        else
                          (let p2 = set_meta ''routeId'' (rt_name rt) p1 in
                           map_option ((#) (PacketReceived p))
                             (run_handlers (route_handler conns sc p2) hs)))))))"

section \<open>Peers\<close>

definition peerConnected :: "nat \<Rightarrow> string \<Rightarrow> p2p_message \<Rightarrow> scene \<Rightarrow> scene_peer \<times> scene" where
  "peerConnected conn sessionId m sc =
     (case sc_connectedPeers sc sessionId of
        None \<Rightarrow>
          (let p = P2PScenePeer conn m in
           (p, sc\<lparr>sc_connectedPeers := (sc_connectedPeers sc)(sessionId \<mapsto> p)\<rparr>))
      | Some p \<Rightarrow> (p, sc))"

definition raisePeerConnected :: "string \<Rightarrow> scene \<Rightarrow> scene" where
  "raisePeerConnected sid sc =
     (if sc_connectedPeers sc sid = None then sc else post_job (RaiseConnected sid) sc)"

definition raisePeerDisconnected :: "string \<Rightarrow> scene \<Rightarrow> scene" where
  "raisePeerDisconnected sid sc =
     (case sc_connectedPeers sc sid of
        None \<Rightarrow> sc
      | Some p \<Rightarrow> post_job (RaiseDisconnected p)
          (sc\<lparr>sc_connectedPeers := (sc_connectedPeers sc)(sid := None)\<rparr>))"

section \<open>Connection state\<close>

definition setConnectionStateInternal :: "ConnectionState \<Rightarrow> scene \<Rightarrow> scene" where
  "setConnectionStateInternal s sc =
     (if \<not> cs_eq (sc_state sc) s \<and> \<not> sc_completed sc
      then sc\<lparr>sc_state := s, sc_completed := (cs_state s = Disconnected),
              sc_published := sc_published sc @ [s]\<rparr>
      else sc)"

definition scene_setConnectionState :: "ConnectionState \<Rightarrow> bool \<Rightarrow> scene \<Rightarrow> scene" where
  "scene_setConnectionState s async sc =
     (if async then post_job (SetState [s]) sc else setConnectionStateInternal s sc)"

text \<open>The scene's subscription to the state of the connection to the server.\<close>

definition host_state_changed :: "ConnectionState \<Rightarrow> scene \<Rightarrow> scene" where
  "host_state_changed s sc =
     (let k = cs_state (sc_state sc); because = (\<lambda>d. conn_state_because d (cs_reason s)) in
      if cs_state s = Disconnecting \<and> k \<noteq> Disconnecting \<and> k \<noteq> Disconnected
      then post_job (SetState [because Disconnecting]) sc
      else if cs_state s = Disconnected \<and> k \<noteq> Disconnected
      then post_job (SetState ((if k \<noteq> Disconnecting then [because Disconnecting] else []) @ [because Disconnected])) sc
      else sc)"

text \<open>
  One job of the dispatcher. A chain of state changes posts what follows when the change is
  done. The iterator of \<^const>\<open>RaiseConnected\<close> has to be valid still.
\<close>

definition run_job ::
  "(nat \<Rightarrow> rnconn) \<Rightarrow> string list \<Rightarrow> u16 \<Rightarrow> scene_job \<Rightarrow> scene \<Rightarrow> (scene_event list \<times> scene) option" where
  "run_job conns order junk j sc =
     (case j of
        SetState cs \<Rightarrow>
          (case cs of
             [] \<Rightarrow> Some ([], sc)
           | s # rest \<Rightarrow>
               (let sc1 = setConnectionStateInternal s sc in
                Some ([], if rest = [] then sc1 else post_job (SetState rest) sc1)))
      | RaiseConnected sid \<Rightarrow>
          (case sc_connectedPeers sc sid of None \<Rightarrow> None | Some p \<Rightarrow> Some ([PeerConnected p], sc))
      | RaiseDisconnected p \<Rightarrow> Some ([PeerDisconnected p], sc)
      | HandleMessage p \<Rightarrow> map_option (\<lambda>es. (es, sc)) (handleMessage conns order junk p sc))"

definition run_next ::
  "(nat \<Rightarrow> rnconn) \<Rightarrow> string list \<Rightarrow> u16 \<Rightarrow> scene \<Rightarrow> (scene_event list \<times> scene) option" where
  "run_next conns order junk sc =
     (case sc_jobs sc of
        [] \<Rightarrow> Some ([], sc)
      | j # js \<Rightarrow> run_job conns order junk j (sc\<lparr>sc_jobs := js\<rparr>))"

section \<open>The scene dispatcher\<close>

text \<open>
  The scenes of a client that are alive, and its connections. Tables of handles hold weak
  pointers: an entry locks when its scene is alive.
\<close>

record scenes_world =
  sw_net :: net
  sw_scenes :: "nat \<rightharpoonup> scene"

definition getSceneIndex :: "byte \<Rightarrow> byte" where
  "getSceneIndex h = h - ID_SCENES"

definition resize_handles :: "nat option list \<Rightarrow> byte \<Rightarrow> nat option list" where
  "resize_handles hs index =
     (if unat (of_nat (length hs) :: byte) < unat index + 1
      then (let n = min 150 (max 8 ((unat index + 1) * 2)) in take n (hs @ replicate n None))
      else hs)"

definition set_handles :: "nat \<Rightarrow> nat option list \<Rightarrow> scenes_world \<Rightarrow> scenes_world" where
  "set_handles k hs w = w\<lparr>sw_net := (sw_net w)\<lparr>nt_handles := (nt_handles (sw_net w))(k := hs)\<rparr>\<rparr>"

definition lock_scene :: "scenes_world \<Rightarrow> nat option \<Rightarrow> nat option" where
  "lock_scene w r = (case r of None \<Rightarrow> None | Some i \<Rightarrow> if sw_scenes w i = None then None else Some i)"

text \<open>\<^verbatim>\<open>addScene\<close> writes behind the end of the table when the index is 150 or more.\<close>

definition addScene :: "nat \<Rightarrow> nat \<Rightarrow> scenes_world \<Rightarrow> scenes_world option" where
  "addScene k i w =
     (case sw_scenes w i of
        None \<Rightarrow> Some w
      | Some sc \<Rightarrow>
          (case sc_host sc of
             None \<Rightarrow> None
           | Some hp \<Rightarrow>
               (let index = getSceneIndex (sp_handle hp);
                    hs = resize_handles (nt_handles (sw_net w) k) index in
                if unat index < length hs then Some (set_handles k (hs[unat index := Some i]) w) else None)))"

definition removeScene :: "nat \<Rightarrow> byte \<Rightarrow> scenes_world \<Rightarrow> scenes_world" where
  "removeScene k h w =
     (let index = unat (getSceneIndex h); hs = nt_handles (sw_net w) k in
      if index < length hs then set_handles k (hs[index := None]) w else w)"

definition getScene :: "nat \<Rightarrow> byte \<Rightarrow> scenes_world \<Rightarrow> nat option" where
  "getScene k h w =
     (let index = unat (getSceneIndex h); hs = nt_handles (sw_net w) k in
      if index < length hs then lock_scene w (hs ! index) else None)"

text \<open>The catch-all processor of scene messages.\<close>

definition handler_impl :: "scenes_world processor" where
  "handler_impl sceneHandle p w =
     (if sceneHandle < ID_SCENES then (Inr False, p, w)
      else
        (let index = unat sceneHandle - unat ID_SCENES; hs = nt_handles (sw_net w) (p_conn p) in
         if index < length hs then
           (case lock_scene w (hs ! index) of
              None \<Rightarrow> (Inr True, p, w)
            | Some i \<Rightarrow>
                (case sw_scenes w i of
                   None \<Rightarrow> (Inr True, p, w)
                 | Some sc \<Rightarrow>
                     (let p1 = set_meta ''scene'' (sa_sceneId (sc_address sc)) p in
                      (Inr True, p1,
                       w\<lparr>sw_scenes := (sw_scenes w)(i \<mapsto> post_job (HandleMessage p1) sc)\<rparr>))))
         else (Inr False, p, w)))"

definition registerSceneProcessor :: "scenes_world dispatcher \<Rightarrow> scenes_world dispatcher" where
  "registerSceneProcessor d = addCatchAllProcessor handler_impl d"

section \<open>Peer-to-peer scenes\<close>

text \<open>
  The loop both \<^verbatim>\<open>openP2PConnection\<close> and the handler of \<^verbatim>\<open>ID_CONNECT_TO_SCENE\<close> run to find a
  free entry of the connection's table; the handle is a byte, so the sum wraps.
\<close>

definition allocate_handle ::
  "nat \<Rightarrow> nat \<Rightarrow> scenes_world \<Rightarrow> byte res \<times> scenes_world" where
  "allocate_handle k i w =
     (let hs = nt_handles (sw_net w) k in
      case find (\<lambda>j. lock_scene w (hs ! j) = None) [0..<150] of
        None \<Rightarrow> (Inl (RuntimeError ''Failed to generate handle for scene.''), w)
      | Some j \<Rightarrow> (Inr (of_nat j + ID_SCENES), set_handles k (hs[j := Some i]) w))"

definition p2p_routes :: "string list \<Rightarrow> scene \<Rightarrow> route_dto list" where
  "p2p_routes order sc =
     map (\<lambda>r. \<lparr>rd_name = rt_name r, rd_handle = rt_handle r, rd_metadata = rt_metadata r\<rparr>)
       (filter (\<lambda>r. filter_admits (rt_filter r) FromPeer) (List.map_filter (sc_localRoutes sc) order))"

definition p2p_connect_message :: "string list \<Rightarrow> byte \<Rightarrow> rnconn \<Rightarrow> scene \<Rightarrow> p2p_message" where
  "p2p_connect_message order h conn sc =
     \<lparr>pm_sceneId = toUri (sc_address sc), pm_sceneHandle = h, pm_routes = p2p_routes order sc,
      pm_connectionMetadata = c_metadata conn, pm_sceneMetadata = sc_metadata sc\<rparr>"

text \<open>
  The two sides: what \<^verbatim>\<open>openP2PConnection\<close> sends over the connection, and what the other side
  does with it and answers. Both then call \<^verbatim>\<open>peerConnected\<close> with the message they got.
\<close>

definition p2p_offer :: "string list \<Rightarrow> nat \<Rightarrow> nat \<Rightarrow> scenes_world \<Rightarrow> (p2p_message res \<times> scenes_world) option" where
  "p2p_offer order k i w =
     (case allocate_handle k i w of (r, w1) \<Rightarrow>
        (case r of
           Inl e \<Rightarrow> Some (Inl e, w1)
         | Inr h \<Rightarrow>
             (case sw_scenes w1 i of
                None \<Rightarrow> None
              | Some sc \<Rightarrow> Some (Inr (p2p_connect_message order h (nt_conns (sw_net w1) k) sc), w1))))"

definition p2p_joined :: "nat \<Rightarrow> nat \<Rightarrow> p2p_message \<Rightarrow> scenes_world \<Rightarrow> scenes_world" where
  "p2p_joined k i m w =
     (case sw_scenes w i of
        None \<Rightarrow> w
      | Some sc \<Rightarrow>
          w\<lparr>sw_scenes := (sw_scenes w)(i \<mapsto>
              snd (peerConnected k (c_sessionId (nt_conns (sw_net w) k)) m sc))\<rparr>)"

definition p2p_accept ::
  "string list \<Rightarrow> nat \<Rightarrow> nat \<Rightarrow> p2p_message \<Rightarrow> scenes_world \<Rightarrow> (p2p_message res \<times> scenes_world) option" where
  "p2p_accept order k i m w =
     (case p2p_offer order k i w of
        None \<Rightarrow> None
      | Some (r, w1) \<Rightarrow> Some (r, case r of Inl e \<Rightarrow> w1 | Inr _ \<Rightarrow> p2p_joined k i m w1))"

section \<open>What a message of a scene looks like\<close>

lemma conn_send_plain:
  assumes "\<not> en \<or> conn_metadata ''type'' c = ''p2p''"
  shows "conn_send rak bc rnd en w ch pr rel d c a =
    conn_send rak bc rnd False w ch pr rel d c a"
  using assms by (auto simp: conn_send_def onSend_def)

lemma writes_scene:
  "writes w xs \<Longrightarrow> writes (scene_writer sh rh w) (word_bytes sh @ word_bytes rh @ xs)"
  using writes_response [of w xs sh rh] by (simp add: scene_writer_def response_writer_def)

lemma send_peer_wire:
  assumes "sp_routes sp n = Some rt" "writes w xs" "length xs < 1000000"
    and "\<And>t. se_rak env t \<noteq> 0" "c_peer (nt_conns net (sp_connection sp))"
    and "\<not> se_enabled env \<or> conn_metadata ''type'' (nt_conns net (sp_connection sp)) = ''p2p''"
    and "chan_wf now (nt_channels net (sp_connection sp))" "now < se_t1 env"
  obtains uid net' where "send_peer env sp n w pr rel ident sc net = (Inr (), net')"
    "c_wire (nt_conns net' (sp_connection sp)) = c_wire (nt_conns net (sp_connection sp)) @
       [\<lparr>t_data = word_bytes (sp_handle sp) @ word_bytes (rt_handle rt) @ xs, t_priority = pr,
         t_reliability = rel, t_channel = orderingChannel (int uid)\<rparr>]"
    "\<And>j. j \<noteq> sp_connection sp \<Longrightarrow> nt_conns net' j = nt_conns net j" "uid < 16"
    "nt_handles net' = nt_handles net"
proof -
  let ?k = "sp_connection sp"
  obtain uid ch where u: "getChannelUid (channel_name ident n sc) (se_t1 env) (se_t2 env) (nt_channels net ?k) = (Inr (int uid), ch)" "uid < 16"
    using getChannelUid_cases [OF assms(7,8)] by metis
  have len: "length (word_bytes (sp_handle sp) @ word_bytes (rt_handle rt) @ xs) < 1073741824"
    using assms(3) by simp
  obtain s where s: "run_writer (scene_writer (sp_handle sp) (rt_handle rt) w) obytestream0 = Inr s"
    "out_data s = word_bytes (sp_handle sp) @ word_bytes (rt_handle rt) @ xs"
    using writes_new [OF writes_scene [OF assms(2)] len] by metis
  let ?c = "nt_conns net ?k"
  let ?t = "\<lparr>t_data = word_bytes (sp_handle sp) @ word_bytes (rt_handle rt) @ xs, t_priority = pr,
         t_reliability = rel, t_channel = orderingChannel (int uid)\<rparr>"
  let ?net = "net\<lparr>nt_conns := (nt_conns net)(?k := ?c\<lparr>c_wire := c_wire ?c @ [?t]\<rparr>),
    nt_channels := (nt_channels net)(?k := ch)\<rparr>"
  have e: "send_peer env sp n w pr rel ident sc net = (Inr (), ?net)"
    by (simp add: send_peer_def assms(1) u(1) conn_send_plain [OF assms(6)] conn_send_clear s assms(4,5) Let_def)
  show ?thesis
    by (rule that [OF e _ _ u(2)]) simp_all
qed

section \<open>Routes and handles\<close>

text \<open>
  Local routes are stored under their names, each has its list in the table of handlers under
  its handle, and no two share a handle.
\<close>

definition routes_wf :: "scene \<Rightarrow> bool" where
  "routes_wf sc \<longleftrightarrow>
     (\<forall>n r. sc_localRoutes sc n = Some r \<longrightarrow> rt_name r = n \<and>
        sc_handlers sc (rt_handle r) = Some (map (Pair n) (rt_handlers r))) \<and>
     (\<forall>n r n' r'. sc_localRoutes sc n = Some r \<longrightarrow> sc_localRoutes sc n' = Some r' \<longrightarrow>
        rt_handle r = rt_handle r' \<longrightarrow> n = n')"

lemma map_route_other [simp]:
  "m \<noteq> n \<Longrightarrow> sc_localRoutes (map_route cr m sc) n = sc_localRoutes sc n"
  by (simp add: map_route_def split: option.splits)

lemma map_route_Some:
  "sc_localRoutes sc n = Some r \<Longrightarrow> sc_handlers (map_route cr n sc) =
     (sc_handlers sc)(route_mapping n cr \<mapsto> map (Pair n) (rt_handlers r))"
  by (simp add: map_route_def)

lemma map_route_fold:
  assumes "distinct order"
  shows "sc_localRoutes (fold (map_route cr) order sc) n =
    (if n \<in> set order then map_option (setHandle (route_mapping n cr)) (sc_localRoutes sc n)
     else sc_localRoutes sc n)"
  using assms
proof (induction order arbitrary: sc)
  case (Cons m ms)
  show ?case
  proof (cases "n = m")
    case True
    then show ?thesis
      using Cons by (auto simp: map_route_def split: option.splits)
  next
    case False
    then show ?thesis using Cons by simp
  qed
qed simp

lemma map_route_handlers:
  assumes "distinct order" "inj_on (\<lambda>n. route_mapping n cr) (set order)"
    and "n \<in> set order" "sc_localRoutes sc n = Some r"
  shows "sc_handlers (fold (map_route cr) order sc) (route_mapping n cr) = Some (map (Pair n) (rt_handlers r))"
  using assms
proof (induction order arbitrary: sc)
  case (Cons m ms)
  have keep: "h \<notin> (\<lambda>n. route_mapping n cr) ` set ms \<Longrightarrow>
      sc_handlers (fold (map_route cr) ms t) h = sc_handlers t h" for h t
    by (induction ms arbitrary: t) (auto simp: map_route_def split: option.splits)
  show ?case
  proof (cases "n = m")
    case True
    have "route_mapping m cr \<notin> (\<lambda>n. route_mapping n cr) ` set ms"
      using Cons.prems(1,2) by auto
    from keep [OF this, of "map_route cr m sc"] show ?thesis
      using Cons.prems(4) True by (simp add: map_route_Some)
  next
    case False
    then have n: "n \<in> set ms" using Cons.prems(3) by simp
    have i: "distinct ms" "inj_on (\<lambda>n. route_mapping n cr) (set ms)"
      using Cons.prems(1,2) by (auto simp: inj_on_def)
    show ?thesis using Cons.IH [OF i n, of "map_route cr m sc"] False Cons.prems(4) by simp
  qed
qed simp

text \<open>Distinct handles from the server establish the invariant.\<close>

lemma completion_routes_wf:
  assumes "distinct order" "set order = dom (sc_localRoutes sc)"
    and "inj_on (\<lambda>n. route_mapping n cr) (set order)"
    and "\<And>n r. sc_localRoutes sc n = Some r \<Longrightarrow> rt_name r = n"
  shows "routes_wf (completeConnectionInitialization order cr sc)"
proof -
  let ?init = "sc\<lparr>sc_host := Some (ScenePeer (sc_peer sc) (cr_sceneHandle cr) (sc_remoteRoutes sc))\<rparr>"
  let ?sc = "completeConnectionInitialization order cr sc"
  have local: "sc_localRoutes ?sc n = map_option (setHandle (route_mapping n cr)) (sc_localRoutes sc n)" for n
  proof -
    have "sc_localRoutes ?sc n = (if n \<in> set order then map_option (setHandle (route_mapping n cr)) (sc_localRoutes ?init n)
      else sc_localRoutes ?init n)"
      unfolding completeConnectionInitialization_def by (rule map_route_fold [OF assms(1)])
    then show ?thesis using assms(2) by (cases "sc_localRoutes sc n") auto
  qed
  have tab: "sc_handlers ?sc (route_mapping n cr) = Some (map (Pair n) (rt_handlers r))"
    if "sc_localRoutes sc n = Some r" for n r
    unfolding completeConnectionInitialization_def
    by (rule map_route_handlers [OF assms(1,3)]) (use that assms(2) in auto)
  show ?thesis
    unfolding routes_wf_def
  proof (intro conjI allI impI)
    fix n r
    assume "sc_localRoutes ?sc n = Some r"
    then obtain r0 where r: "sc_localRoutes sc n = Some r0" "r = setHandle (route_mapping n cr) r0"
      by (auto simp: local)
    then show "rt_name r = n" "sc_handlers ?sc (rt_handle r) = Some (map (Pair n) (rt_handlers r))"
      using assms(4) tab by simp_all
  next
    fix n r n' r'
    assume "sc_localRoutes ?sc n = Some r" "sc_localRoutes ?sc n' = Some r'" "rt_handle r = rt_handle r'"
    then have "route_mapping n cr = route_mapping n' cr" "n \<in> set order" "n' \<in> set order"
      using assms(2) by (auto simp: local)
    then show "n = n'" using assms(3) by (auto dest: inj_onD)
  qed
qed

section \<open>Delivery\<close>

text \<open>Whom a packet comes from, as the scene sees it.\<close>

definition origin_of :: "(nat \<Rightarrow> rnconn) \<Rightarrow> scene \<Rightarrow> nat \<Rightarrow> (MessageOriginFilter \<times> scene_peer) option" where
  "origin_of conns sc k =
     (case sc_host sc of
        None \<Rightarrow> None
      | Some hp \<Rightarrow>
          if c_id (conns k) = c_id (conns (sp_connection hp)) then Some (FromHost, hp)
          else map_option (Pair FromPeer) (sc_connectedPeers sc (c_sessionId (conns k))))"

lemma set_meta_sel [simp]:
  "p_rest (set_meta a b p) = p_rest p" "p_conn (set_meta a b p) = p_conn p" "p_ok (set_meta a b p) = p_ok p"
  by (simp_all add: set_meta_def p_rest_def p_ok_def)

lemma run_handlers_deliver:
  assumes "\<And>h. h \<in> set hs \<Longrightarrow> f h = Some (if P h then [g h] else [])"
  shows "run_handlers f hs = Some (map g (filter P hs))"
  using assms by (induction hs) auto

lemma find_route:
  assumes "routes_wf sc" "sc_localRoutes sc n = Some rt" "n \<in> set order"
  shows "find (\<lambda>r. rt_handle r = rt_handle rt) (List.map_filter (sc_localRoutes sc) order) = Some rt"
  using assms(3)
proof (induction order)
  case (Cons m ms)
  have "m = n" if "sc_localRoutes sc m = Some r" "rt_handle r = rt_handle rt" for r
    using assms(1,2) that unfolding routes_wf_def by blast
  then show ?case
    using Cons assms(2) by (cases "sc_localRoutes sc m") (auto simp: List.map_filter_simps)
qed simp

lemma handleMessage_delivers:
  assumes "routes_wf sc" "sc_localRoutes sc n = Some rt" "n \<in> set order"
    and "p_ok p" "p_rest p = word_bytes (rt_handle rt) @ xs"
    and "origin_of conns sc (p_conn p) = Some (side, sp)" "filter_admits (rt_filter rt) side"
  shows "handleMessage conns order junk p sc = Some (PacketReceived p #
    map (\<lambda>h. Delivered h sp xs) (filter (\<lambda>h. h \<in> set (sc_subscribed sc)) (rt_handlers rt)))"
proof -
  obtain hp where hp: "sc_host sc = Some hp" using assms(6) by (auto simp: origin_of_def split: option.splits)
  obtain p1 where p1: "p_read junk p = (rt_handle rt, p1)" "p_rest p1 = xs" "p_conn p1 = p_conn p"
    using p_read_word [OF assms(4,5), of junk] by auto
  have tab: "sc_handlers sc (rt_handle rt) = Some (map (Pair n) (rt_handlers rt))" "rt_name rt = n"
    using assms(1,2) by (simp_all add: routes_wf_def)
  have each: "route_handler conns sc (set_meta ''routeId'' n p1) nh =
      Some (if snd nh \<in> set (sc_subscribed sc) then [Delivered (snd nh) sp xs] else [])"
    if "fst nh = n" for nh
    using assms(6,7) by (auto simp: route_handler_def that hp assms(2) p1 origin_of_def split: if_splits option.splits)
  have "run_handlers (route_handler conns sc (set_meta ''routeId'' n p1)) (map (Pair n) (rt_handlers rt)) =
      Some (map (\<lambda>nh. Delivered (snd nh) sp xs)
        (filter (\<lambda>nh. snd nh \<in> set (sc_subscribed sc)) (map (Pair n) (rt_handlers rt))))"
    by (rule run_handlers_deliver) (use each in auto)
  then show ?thesis
    using assms(6,7)
    by (auto simp: handleMessage_def p1 tab find_route [OF assms(1-3)] hp origin_of_def filter_map comp_def
        split: if_splits option.splits)
qed

text \<open>
  A client whose dispatcher has the scene dispatcher as its only catch-all processor queues a
  message for the scene its first byte selects.
\<close>

lemma dispatch_to_scene:
  assumes "p_ok p" "p_rest p = word_bytes h @ rest" "ID_SCENES \<le> h"
    and "d_handlers d h = None" "d_defaults d = [handler_impl]" "0 < d_maxLayerCount d"
    and "unat h - unat ID_SCENES < length (nt_handles (sw_net w) (p_conn p))"
    and "nt_handles (sw_net w) (p_conn p) ! (unat h - unat ID_SCENES) = Some i" "sw_scenes w i = Some sc"
  obtains q where "dispatchImpl d p w = (Inr True, q,
      w\<lparr>sw_scenes := (sw_scenes w)(i \<mapsto> post_job (HandleMessage q) sc)\<rparr>)"
    "p_ok q" "p_rest q = rest" "p_conn q = p_conn p"
proof -
  obtain p1 where p1: "p_read (0 :: byte) p = (h, p1)" "p_ok p1" "p_rest p1 = rest" "p_conn p1 = p_conn p"
    using first_layer [OF assms(1,2)] by metis
  have layers: "dispatch_layers (d_maxLayerCount d) (d_handlers d) 0 p w = (Inr (False, h), p1, w)"
    using assms(4,6) p1(1) by (cases "d_maxLayerCount d") simp_all
  have hd: "handler_impl h p1 w = (Inr True, set_meta ''scene'' (sa_sceneId (sc_address sc)) p1,
      w\<lparr>sw_scenes := (sw_scenes w)(i \<mapsto>
          post_job (HandleMessage (set_meta ''scene'' (sa_sceneId (sc_address sc)) p1)) sc)\<rparr>)"
    using assms(3,7-9) by (simp add: handler_impl_def p1 lock_scene_def Let_def)
  show ?thesis
    by (rule that [of "set_meta ''scene'' (sa_sceneId (sc_address sc)) p1"])
      (simp_all add: dispatchImpl_def layers assms(5) hd p1)
qed

section \<open>The handshake between peers\<close>

lemma P2PScenePeer_sel [simp]:
  "sp_handle (P2PScenePeer k m) = pm_sceneHandle m" "sp_connection (P2PScenePeer k m) = k"
  by (simp_all add: P2PScenePeer_def)

lemma fold_emplace_routes:
  "fold (\<lambda>r. emplace (rd_name r) (f r)) rs m n =
     (case m n of Some x \<Rightarrow> Some x
      | None \<Rightarrow> map_option f (find (\<lambda>r. rd_name r = n) rs))"
  by (induction rs arbitrary: m) (auto simp: emplace_def split: option.splits)

text \<open>The peer learns exactly the local routes that accept peers, with their handles.\<close>

lemma p2p_routes_exchanged:
  assumes "routes_wf sc" "set order = dom (sc_localRoutes sc)"
    and "pm_routes m = p2p_routes order sc"
  shows "sp_routes (P2PScenePeer k m) n =
    (case sc_localRoutes sc n of
       None \<Rightarrow> None
     | Some r \<Rightarrow> if filter_admits (rt_filter r) FromPeer
         then Some (Route n (rt_handle r) FromPeer (rt_metadata r)) else None)"
proof -
  let ?dto = "\<lambda>r. \<lparr>rd_name = rt_name r, rd_handle = rt_handle r, rd_metadata = rt_metadata r\<rparr>"
  have names: "rt_name r = x" if "sc_localRoutes sc x = Some r" for x r
    using assms(1) that by (simp add: routes_wf_def)
  have "find (\<lambda>r. rd_name r = n) (map ?dto (filter (\<lambda>r. filter_admits (rt_filter r) FromPeer)
      (List.map_filter (sc_localRoutes sc) ord))) =
    (if n \<in> set ord then (case sc_localRoutes sc n of None \<Rightarrow> None
       | Some r \<Rightarrow> if filter_admits (rt_filter r) FromPeer then Some (?dto r) else None) else None)" for ord
  proof (induction ord)
    case (Cons x xs)
    show ?case
    proof (cases "sc_localRoutes sc x")
      case None
      then show ?thesis using Cons by (auto simp: List.map_filter_simps)
    next
      case (Some r)
      then show ?thesis using Cons names [OF Some] by (auto simp: List.map_filter_simps)
    qed
  qed simp
  then have "sp_routes (P2PScenePeer k m) n =
    map_option (\<lambda>r. Route (rd_name r) (rd_handle r) FromPeer (rd_metadata r))
      (if n \<in> set order then (case sc_localRoutes sc n of None \<Rightarrow> None
       | Some r \<Rightarrow> if filter_admits (rt_filter r) FromPeer then Some (?dto r) else None) else None)"
    using assms(3) by (simp add: P2PScenePeer_def fold_emplace_routes p2p_routes_def)
  then show ?thesis
    using assms(2) names by (cases "sc_localRoutes sc n") (auto simp: domIff)
qed

lemma allocate_handle_cases:
  assumes "allocate_handle k i w = (r, w1)"
  obtains (full) "r = Inl (RuntimeError ''Failed to generate handle for scene.'')" "w1 = w"
      "\<forall>j < 150. lock_scene w (nt_handles (sw_net w) k ! j) \<noteq> None"
  | (free) j where "j < 150" "r = Inr (of_nat j + ID_SCENES)"
      "w1 = set_handles k ((nt_handles (sw_net w) k)[j := Some i]) w"
      "lock_scene w (nt_handles (sw_net w) k ! j) = None"
      "\<forall>l < j. lock_scene w (nt_handles (sw_net w) k ! l) \<noteq> None"
proof -
  let ?P = "\<lambda>j. lock_scene w (nt_handles (sw_net w) k ! j) = None"
  show ?thesis
  proof (cases "find ?P [0..<150]")
    case None
    then have "\<forall>j < 150. \<not> ?P j" using find_None_iff [of ?P "[0..<150]"] by auto
    then show ?thesis using full assms None by (simp add: allocate_handle_def)
  next
    case (Some j)
    then have j: "j < 150" "?P j" "\<forall>l < j. \<not> ?P l"
      using find_Some_iff [of ?P "[0..<150]" j] by auto
    show ?thesis
      by (rule free [OF j(1) _ _ j(2)]) (use assms Some j(3) in \<open>auto simp: allocate_handle_def\<close>)
  qed
qed

lemma handle_small:
  "j < 115 \<Longrightarrow> unat (of_nat j + ID_SCENES :: byte) = j + 141 \<and> ID_SCENES \<le> (of_nat j + ID_SCENES :: byte)"
  by (simp add: ID_SCENES_def unat_of_nat unat_word_ariths word_le_nat_alt)

lemma handle_wrapped:
  assumes "115 \<le> j" "j < 150"
  shows "(of_nat j + ID_SCENES :: byte) < ID_SCENES"
proof -
  have "unat (of_nat j + ID_SCENES :: byte) = (j + 141) mod 256"
    by (simp add: ID_SCENES_def unat_of_nat unat_word_ariths mod_simps)
  also have "\<dots> = j - 115" using assms mod_if [of "j + 141" 256] by simp
  finally show ?thesis using assms by (simp add: word_less_nat_alt ID_SCENES_def)
qed

lemma set_handles_sel [simp]:
  "sw_scenes (set_handles k hs w) = sw_scenes w"
  "nt_conns (sw_net (set_handles k hs w)) = nt_conns (sw_net w)"
  "nt_handles (sw_net (set_handles k hs w)) k = hs"
  "lock_scene (set_handles k hs w) r = lock_scene w r"
  by (simp_all add: set_handles_def lock_scene_def split: option.splits)

text \<open>The accepting side: the answer carries the new handle and its routes, and the peer is known.\<close>

lemma p2p_accept_ok:
  assumes "p2p_accept order k i m w = Some (Inr m', w1)" "sw_scenes w i = Some sc"
    and "sc_connectedPeers sc (c_sessionId (nt_conns (sw_net w) k)) = None"
    and "lock_scene w (nt_handles (sw_net w) k ! j0) = None" "j0 < 115"
  obtains j where "j < 115" "pm_sceneHandle m' = of_nat j + ID_SCENES" "pm_routes m' = p2p_routes order sc"
    "nt_handles (sw_net w1) k = (nt_handles (sw_net w) k)[j := Some i]"
    "nt_conns (sw_net w1) = nt_conns (sw_net w)"
    "sw_scenes w1 i = Some (sc\<lparr>sc_connectedPeers :=
       (sc_connectedPeers sc)(c_sessionId (nt_conns (sw_net w) k) \<mapsto> P2PScenePeer k m)\<rparr>)"
proof -
  obtain r w2 where al: "allocate_handle k i w = (r, w2)" by fastforce
  from al show ?thesis
  proof (cases rule: allocate_handle_cases)
    case full
    have "j0 < 150" using assms(5) by simp
    then show ?thesis using full(3) assms(4) by blast
  next
    case (free j)
    have "j \<le> j0" using free(5) assms(4) not_less by blast
    then have j: "j < 115" using assms(5) by simp
    show ?thesis
      by (rule that [OF j])
        (use assms(1-3) in \<open>auto simp: p2p_accept_def p2p_offer_def al free(2,3) p2p_connect_message_def
           p2p_joined_def peerConnected_def Let_def\<close>)
  qed
qed

text \<open>
  Property C9. Peers of a scene reach each other: after the accepting side has answered an
  offer, a message the offering side sends to its new peer on one of the routes the answer
  named goes out as one packet, and when the accepting client dispatches that packet, its
  scene queues it and hands exactly the payload, once per subscription and in the order of
  registration, to the handlers of that route and to no other, with the sender as origin.
\<close>

theorem p2p_message_delivered:
  assumes "p2p_accept order k i m w = Some (Inr answer, w1)"
    and "length (nt_handles (sw_net w) k) = 150" "j0 < 115" "lock_scene w (nt_handles (sw_net w) k ! j0) = None"
    and "sw_scenes w i = Some sc" "routes_wf sc" "set order = dom (sc_localRoutes sc)"
    and "sc_localRoutes sc n = Some rt" "filter_admits (rt_filter rt) FromPeer"
    and "sc_host sc = Some hp" "c_id (nt_conns (sw_net w) k) \<noteq> c_id (nt_conns (sw_net w) (sp_connection hp))"
    and "sc_connectedPeers sc (c_sessionId (nt_conns (sw_net w) k)) = None"
    and "sc_client from" "cs_state (sc_state from) = Connected" "n \<noteq> []"
    and "sc_connectedPeers from sid = Some (P2PScenePeer l answer)"
    and "writes wr payload" "length payload < 1000000" "\<And>t. se_rak env t \<noteq> 0" "c_peer (nt_conns net l)"
    and "\<not> se_enabled env \<or> conn_metadata ''type'' (nt_conns net l) = ''p2p''"
    and "chan_wf now (nt_channels net l)" "now < se_t1 env"
    and "\<forall>h \<ge> ID_SCENES. d_handlers d h = None" "d_defaults d = [handler_impl]" "0 < d_maxLayerCount d"
  shows "\<exists>net' data q w2 sc2.
    scene_send_filter env ord (matchPeers [sid]) n wr pr rel ident from net = Some (Inr (), net') \<and>
    map t_data (c_wire (nt_conns net' l)) = map t_data (c_wire (nt_conns net l)) @ [data] \<and>
    dispatchImpl d (make_packet k data meta) w1 = (Inr True, q, w2) \<and>
    sw_scenes w2 i = Some sc2 \<and> sc_jobs sc2 = sc_jobs sc @ [HandleMessage q] \<and>
    handleMessage (nt_conns (sw_net w2)) order junk q sc2 = Some (PacketReceived q #
      map (\<lambda>h. Delivered h (P2PScenePeer k m) payload)
        (filter (\<lambda>h. h \<in> set (sc_subscribed sc)) (rt_handlers rt)))"
proof -
  obtain j where j: "j < 115" "pm_sceneHandle answer = of_nat j + ID_SCENES"
      "pm_routes answer = p2p_routes order sc"
      "nt_handles (sw_net w1) k = (nt_handles (sw_net w) k)[j := Some i]"
      "nt_conns (sw_net w1) = nt_conns (sw_net w)"
      "sw_scenes w1 i = Some (sc\<lparr>sc_connectedPeers :=
         (sc_connectedPeers sc)(c_sessionId (nt_conns (sw_net w) k) \<mapsto> P2PScenePeer k m)\<rparr>)"
    using p2p_accept_ok [OF assms(1,5,12,4,3)] .
  let ?sp = "P2PScenePeer l answer" and ?h = "of_nat j + ID_SCENES :: byte"
  let ?data = "word_bytes ?h @ word_bytes (rt_handle rt) @ payload"
  have rts: "sp_routes ?sp n = Some (Route n (rt_handle rt) FromPeer (rt_metadata rt))"
    using p2p_routes_exchanged [OF assms(6,7) j(3)] assms(8,9) by simp
  have rk: "se_rak env t \<noteq> 0" for t using assms(19) .
  obtain uid net' where snd': "send_peer env ?sp n wr pr rel ident from net = (Inr (), net')"
      "c_wire (nt_conns net' l) = c_wire (nt_conns net l) @
         [\<lparr>t_data = ?data, t_priority = pr, t_reliability = rel, t_channel = orderingChannel (int uid)\<rparr>]"
    using send_peer_wire [where ident = ident and sc = "from", OF rts assms(17,18) rk] assms(20-23) j(2)
    by (metis P2PScenePeer_sel Route_sel(2))
  have sent: "scene_send_filter env ord (matchPeers [sid]) n wr pr rel ident from net = Some (Inr (), net')"
    using assms(13-16) snd'(1) by (simp add: scene_send_filter_def matchPeers_def)
  have len: "length ?data < 2147483648" using assms(18) by simp
  let ?p = "make_packet k ?data meta"
  have p: "p_ok ?p" "p_rest ?p = ?data" "p_conn ?p = k"
    using make_packet_ok [OF len] by (simp_all add: make_packet_def)
  have hs: "unat ?h - unat ID_SCENES = j" "ID_SCENES \<le> ?h"
    using handle_small [OF j(1)] by (simp_all add: ID_SCENES_def)
  have slot: "unat ?h - unat ID_SCENES < length (nt_handles (sw_net w1) (p_conn ?p))"
    "nt_handles (sw_net w1) (p_conn ?p) ! (unat ?h - unat ID_SCENES) = Some i"
    using j(1,4) assms(2) by (simp_all only: p(3) hs length_list_update) simp_all
  have none: "d_handlers d ?h = None" using assms(24) hs(2) by blast
  obtain q where q: "dispatchImpl d ?p w1 = (Inr True, q,
      w1\<lparr>sw_scenes := (sw_scenes w1)(i \<mapsto> post_job (HandleMessage q) (sc\<lparr>sc_connectedPeers :=
         (sc_connectedPeers sc)(c_sessionId (nt_conns (sw_net w) k) \<mapsto> P2PScenePeer k m)\<rparr>))\<rparr>)"
      "p_ok q" "p_rest q = word_bytes (rt_handle rt) @ payload" "p_conn q = k"
    using dispatch_to_scene [OF p(1,2) hs(2) none assms(25,26) slot j(6)] p(3) by metis
  let ?sc2 = "post_job (HandleMessage q) (sc\<lparr>sc_connectedPeers :=
         (sc_connectedPeers sc)(c_sessionId (nt_conns (sw_net w) k) \<mapsto> P2PScenePeer k m)\<rparr>)"
  have wf2: "routes_wf ?sc2" "sc_localRoutes ?sc2 n = Some rt"
    using assms(6,8) by (simp_all add: routes_wf_def post_job_def)
  have org: "origin_of (nt_conns (sw_net w)) ?sc2 (p_conn q) = Some (FromPeer, P2PScenePeer k m)"
    using assms(10,11) q(4) by (simp add: origin_of_def post_job_def)
  have nin: "n \<in> set order" using assms(7,8) by blast
  note del = handleMessage_delivers [OF wf2 nin q(2,3) org assms(9), of junk]
  show ?thesis
    by (intro exI conjI, rule sent, simp add: snd'(2), rule q(1), simp, simp add: post_job_def)
      (use del j(5) in \<open>simp add: post_job_def\<close>)
qed

text \<open>
  The handles of peer-to-peer scenes wrap around: with the first 115 entries of a
  connection's table in use, the next scene gets a handle that is smaller than
  \<^verbatim>\<open>ID_SCENES\<close>, and the scene dispatcher refuses every message that carries it, although
  the entry it was allocated for holds the scene.
\<close>

theorem p2p_handle_wraps:
  assumes "\<forall>j < 115. lock_scene w (nt_handles (sw_net w) k ! j) \<noteq> None"
    and "allocate_handle k i w = (Inr h, w1)"
  shows "h < ID_SCENES \<and> handler_impl h p w1 = (Inr False, p, w1)"
  using assms(2)
proof (cases rule: allocate_handle_cases)
  case (free j)
  have "115 \<le> j" using free(4) assms(1) not_less by blast
  then have "h < ID_SCENES" using handle_wrapped [of j] free(1,2) by simp
  then show ?thesis by (simp add: handler_impl_def)
qed simp

section \<open>Connection state of a scene\<close>

text \<open>
  What the subscribers see is as for connections; on top of that a scene that was
  disconnected stays so.
\<close>

definition sc_wf :: "scene \<Rightarrow> bool" where
  "sc_wf sc \<longleftrightarrow>
     successively (\<lambda>a b. \<not> cs_eq a b) (sc_published sc) \<and>
     (\<forall>s \<in> set (butlast (sc_published sc)). cs_state s \<noteq> Disconnected) \<and>
     (if sc_published sc = [] then cs_state (sc_state sc) = Disconnected \<and> \<not> sc_completed sc
      else last (sc_published sc) = sc_state sc \<and> (sc_completed sc \<longleftrightarrow> cs_state (sc_state sc) = Disconnected))"

lemma sc_wf_frame:
  assumes "sc_state sc' = sc_state sc" "sc_completed sc' = sc_completed sc" "sc_published sc' = sc_published sc"
  shows "sc_wf sc' = sc_wf sc"
  using assms by (simp add: sc_wf_def)

lemma sc_wf_fields [simp]:
  "sc_wf (sc\<lparr>sc_localRoutes := r\<rparr>) = sc_wf sc" "sc_wf (sc\<lparr>sc_subscribed := l\<rparr>) = sc_wf sc"
  "sc_wf (sc\<lparr>sc_connectedPeers := c\<rparr>) = sc_wf sc" "sc_wf (sc\<lparr>sc_client := b\<rparr>) = sc_wf sc"
  "sc_wf (sc\<lparr>sc_jobs := js\<rparr>) = sc_wf sc"
  by (simp_all add: sc_wf_def)

lemma sc_wf_new: "sc_wf (Scene_Impl k a dto)"
  by (simp add: sc_wf_def Scene_Impl_def conn_state_def)

lemma sc_wf_set [inv_intros]: "sc_wf sc \<Longrightarrow> sc_wf (setConnectionStateInternal s sc)"
proof -
  assume wf: "sc_wf sc"
  show ?thesis
  proof (cases "\<not> cs_eq (sc_state sc) s \<and> \<not> sc_completed sc")
    case True
    have "\<forall>t \<in> set (sc_published sc). cs_state t \<noteq> Disconnected"
    proof (cases "sc_published sc = []")
      case False
      then have "set (sc_published sc) = insert (sc_state sc) (set (butlast (sc_published sc)))"
        using wf unfolding sc_wf_def by (metis append_butlast_last_id list.simps(15) rotate1.simps(2) set_rotate1)
      then show ?thesis using wf True False by (auto simp: sc_wf_def)
    qed simp
    then show ?thesis
      using wf True by (auto simp: setConnectionStateInternal_def sc_wf_def successively_snoc)
  next
    case False
    then have "setConnectionStateInternal s sc = sc" by (auto simp: setConnectionStateInternal_def)
    then show ?thesis using wf by simp
  qed
qed

lemma post_job_sel [simp]:
  "sc_state (post_job j sc) = sc_state sc" "sc_completed (post_job j sc) = sc_completed sc"
  "sc_published (post_job j sc) = sc_published sc" "sc_jobs (post_job j sc) = sc_jobs sc @ [j]"
  "sc_connectedPeers (post_job j sc) = sc_connectedPeers sc"
  by (simp_all add: post_job_def)

lemma sc_wf_post [simp]: "sc_wf (post_job j sc) = sc_wf sc"
  by (rule sc_wf_frame) simp_all

inductive scene_reach :: "scene \<Rightarrow> bool" where
  new: "scene_reach (Scene_Impl k a dto)"
| route: "scene_reach sc \<Longrightarrow> scene_reach (snd (addRoute n h f meta sc))"
| unsubscribe: "scene_reach sc \<Longrightarrow> scene_reach (unsubscribe_route n h sc)"
| complete: "scene_reach sc \<Longrightarrow> scene_reach (completeConnectionInitialization order cr sc)"
| state: "scene_reach sc \<Longrightarrow> scene_reach (scene_setConnectionState s async sc)"
| host: "scene_reach sc \<Longrightarrow> scene_reach (host_state_changed s sc)"
| peer: "scene_reach sc \<Longrightarrow> scene_reach (snd (peerConnected k sid m sc))"
| raised: "scene_reach sc \<Longrightarrow> scene_reach (raisePeerConnected sid sc)"
| lost: "scene_reach sc \<Longrightarrow> scene_reach (raisePeerDisconnected sid sc)"
| message: "scene_reach sc \<Longrightarrow> scene_reach (post_job (HandleMessage p) sc)"
| run: "scene_reach sc \<Longrightarrow> run_next conns order junk sc = Some (es, sc') \<Longrightarrow> scene_reach sc'"
| client: "scene_reach sc \<Longrightarrow> scene_reach (sc\<lparr>sc_client := False\<rparr>)"

lemma completion_frame [simp]:
  "sc_state (completeConnectionInitialization order cr sc) = sc_state sc"
  "sc_completed (completeConnectionInitialization order cr sc) = sc_completed sc"
  "sc_published (completeConnectionInitialization order cr sc) = sc_published sc"
proof -
  have "sc_state (fold (map_route cr) order t) = sc_state t \<and>
      sc_completed (fold (map_route cr) order t) = sc_completed t \<and>
      sc_published (fold (map_route cr) order t) = sc_published t" for t
    by (induction order arbitrary: t) (simp_all add: map_route_def split: option.splits)
  then show "sc_state (completeConnectionInitialization order cr sc) = sc_state sc"
    "sc_completed (completeConnectionInitialization order cr sc) = sc_completed sc"
    "sc_published (completeConnectionInitialization order cr sc) = sc_published sc"
    by (simp_all add: completeConnectionInitialization_def)
qed

lemma sc_wf_run:
  assumes "sc_wf sc" "run_job conns order junk j sc = Some (es, sc')"
  shows "sc_wf sc'"
proof (cases j)
  case (SetState cs)
  then show ?thesis
    using assms by (cases cs) (auto simp: run_job_def Let_def inv_intros split: if_splits)
next
  case (HandleMessage p)
  then show ?thesis using assms by (auto simp: run_job_def)
qed (use assms in \<open>auto simp: run_job_def split: option.splits\<close>)

lemma scene_reach_wf: "scene_reach sc \<Longrightarrow> sc_wf sc"
proof (induction rule: scene_reach.induct)
  case (run sc conns order junk es sc')
  show ?case
  proof (cases "sc_jobs sc")
    case Nil
    then show ?thesis using run by (simp add: run_next_def)
  next
    case (Cons j js)
    have "sc_wf (sc\<lparr>sc_jobs := js\<rparr>)" using run.IH by simp
    moreover have "run_job conns order junk j (sc\<lparr>sc_jobs := js\<rparr>) = Some (es, sc')"
      using run.hyps(2) Cons by (simp add: run_next_def)
    ultimately show ?thesis by (rule sc_wf_run)
  qed
next
  case (route sc n h f meta)
  then show ?case
    by (auto simp: addRoute_def onMessage_def subscribe_route_def split: sum.splits)
next
  case (complete sc order cr)
  then show ?case by (simp add: sc_wf_frame [of "completeConnectionInitialization order cr sc" sc])
qed (auto simp: sc_wf_new sc_wf_set unsubscribe_route_def scene_setConnectionState_def host_state_changed_def
  peerConnected_def raisePeerConnected_def raisePeerDisconnected_def Let_def split: option.splits)

text \<open>
  Property C10. The states a scene publishes never repeat and end with \<^verbatim>\<open>Disconnected\<close>, which
  occurs nowhere else; what was published last is the state the scene reports, and a scene
  that has been disconnected never changes its state again, whatever is called on it.
\<close>

theorem scene_states_published:
  assumes "scene_reach sc"
  shows "successively (\<lambda>a b. \<not> cs_eq a b) (sc_published sc) \<and>
    (\<forall>s \<in> set (butlast (sc_published sc)). cs_state s \<noteq> Disconnected) \<and>
    (sc_published sc \<noteq> [] \<longrightarrow> last (sc_published sc) = sc_state sc) \<and>
    (sc_published sc \<noteq> [] \<and> cs_state (sc_state sc) = Disconnected \<longrightarrow> setConnectionStateInternal s sc = sc)"
  using scene_reach_wf [OF assms]
  by (cases "sc_published sc = []") (simp_all add: sc_wf_def setConnectionStateInternal_def)

text \<open>Running the dispatcher \<^term>\<open>n\<close> times.\<close>

fun drain :: "(nat \<Rightarrow> rnconn) \<Rightarrow> string list \<Rightarrow> u16 \<Rightarrow> nat \<Rightarrow> scene \<Rightarrow> scene option" where
  "drain conns order junk 0 sc = Some sc"
| "drain conns order junk (Suc n) sc =
     (case run_next conns order junk sc of None \<Rightarrow> None | Some (_, sc1) \<Rightarrow> drain conns order junk n sc1)"

definition only_states :: "scene_job list \<Rightarrow> bool" where
  "only_states js \<longleftrightarrow> (\<forall>j \<in> set js. \<exists>cs. j = SetState cs)"

definition job_size :: "scene_job list \<Rightarrow> nat" where
  "job_size js = sum_list (map (\<lambda>j. case j of SetState cs \<Rightarrow> Suc (length cs) | _ \<Rightarrow> 1) js)"

lemma job_size_simps [simp]:
  "job_size (SetState cs # js) = Suc (length cs) + job_size js"
  "job_size (js @ [SetState cs]) = job_size js + Suc (length cs)"
  by (simp_all add: job_size_def)

definition will_disconnect :: "scene \<Rightarrow> bool" where
  "will_disconnect sc \<longleftrightarrow> sc_completed sc \<or>
     (\<exists>cs. SetState cs \<in> set (sc_jobs sc) \<and> cs \<noteq> [] \<and> cs_state (last cs) = Disconnected)"

lemma run_next_states:
  assumes "sc_wf sc" "only_states (sc_jobs sc)" "sc_jobs sc \<noteq> []" "will_disconnect sc" "sc_published sc \<noteq> []"
  obtains sc1 where "run_next conns order junk sc = Some ([], sc1)" "sc_wf sc1" "only_states (sc_jobs sc1)"
    "job_size (sc_jobs sc1) < job_size (sc_jobs sc)" "will_disconnect sc1" "sc_published sc1 \<noteq> []"
proof -
  obtain cs js where j: "sc_jobs sc = SetState cs # js"
    using assms(2,3) by (cases "sc_jobs sc") (auto simp: only_states_def)
  let ?sc = "sc\<lparr>sc_jobs := js\<rparr>"
  have os: "only_states js" using assms(2) j by (simp add: only_states_def)
  show ?thesis
  proof (cases cs)
    case Nil
    show ?thesis
      by (rule that [of ?sc])
        (use assms j Nil os in \<open>auto simp: run_next_def run_job_def will_disconnect_def\<close>)
  next
    case (Cons s rest)
    let ?set = "setConnectionStateInternal s ?sc"
    let ?sc1 = "if rest = [] then ?set else post_job (SetState rest) ?set"
    have jobs: "sc_jobs ?set = js" by (simp add: setConnectionStateInternal_def)
    have cmp: "sc_completed ?set" if "cs_state s = Disconnected"
    proof (cases "cs_eq (sc_state sc) s")
      case True
      then show ?thesis using assms(1,5) that by (simp add: setConnectionStateInternal_def sc_wf_def cs_eq_def)
    next
      case False
      then show ?thesis using that by (simp add: setConnectionStateInternal_def)
    qed
    have keep: "sc_completed sc \<Longrightarrow> sc_completed ?set" by (simp add: setConnectionStateInternal_def)
    have will: "will_disconnect ?sc1"
    proof (cases "sc_completed ?set")
      case True
      then show ?thesis by (simp add: will_disconnect_def)
    next
      case False
      then obtain cs' where cs': "SetState cs' \<in> set (sc_jobs sc)" "cs' \<noteq> []" "cs_state (last cs') = Disconnected"
        using assms(4) keep unfolding will_disconnect_def by blast
      then have "SetState cs' \<in> set js \<or> cs' = s # rest" using j Cons by auto
      then show ?thesis
        using cs'(2,3) cmp False jobs by (auto simp: will_disconnect_def split: if_splits)
    qed
    show ?thesis
    proof (rule that [of ?sc1])
      show "run_next conns order junk sc = Some ([], ?sc1)"
        using j Cons by (simp add: run_next_def run_job_def Let_def)
      show "sc_wf ?sc1" using assms(1) sc_wf_set [of ?sc s] by simp
      show "only_states (sc_jobs ?sc1)" using os by (simp add: only_states_def jobs)
      show "job_size (sc_jobs ?sc1) < job_size (sc_jobs sc)" using j Cons by (simp add: jobs)
      show "sc_published ?sc1 \<noteq> []" using assms(5) by (simp add: setConnectionStateInternal_def)
    qed (rule will)
  qed
qed

lemma drain_states:
  assumes "sc_wf sc" "only_states (sc_jobs sc)" "will_disconnect sc" "sc_published sc \<noteq> []"
  shows "\<exists>n sc'. drain conns order junk n sc = Some sc' \<and> sc_jobs sc' = [] \<and>
    cs_state (sc_state sc') = Disconnected \<and> sc_completed sc'"
  using assms
proof (induction "job_size (sc_jobs sc)" arbitrary: sc rule: less_induct)
  case less
  show ?case
  proof (cases "sc_jobs sc = []")
    case True
    then have "sc_completed sc" using less.prems(3) by (simp add: will_disconnect_def)
    then show ?thesis
      using True less.prems(1,4) by (intro exI [of _ 0] exI [of _ sc]) (simp add: sc_wf_def)
  next
    case False
    obtain sc1 where s: "run_next conns order junk sc = Some ([], sc1)" "sc_wf sc1" "only_states (sc_jobs sc1)"
      "job_size (sc_jobs sc1) < job_size (sc_jobs sc)" "will_disconnect sc1" "sc_published sc1 \<noteq> []"
      using run_next_states [OF less.prems(1,2) False less.prems(3,4)] .
    obtain n sc' where "drain conns order junk n sc1 = Some sc'" "sc_jobs sc' = []"
      "cs_state (sc_state sc') = Disconnected" "sc_completed sc'"
      using less.hyps [OF s(4,2,3,5,6)] by blast
    then show ?thesis using s(1) by (intro exI [of _ "Suc n"] exI [of _ sc']) simp
  qed
qed

text \<open>
  Losing the server disconnects the scene: when the connection to the host reports
  \<^verbatim>\<open>Disconnected\<close> and the scene is in any other state, then, whatever changes of state are
  queued already, the dispatcher runs out of jobs after finitely many, and the scene is
  disconnected for good.
\<close>

theorem host_loss_disconnects:
  assumes "scene_reach sc" "cs_state (sc_state sc) \<noteq> Disconnected" "only_states (sc_jobs sc)"
    and "cs_state s = Disconnected"
  shows "\<exists>n sc'. drain conns order junk n (host_state_changed s sc) = Some sc' \<and> sc_jobs sc' = [] \<and>
    cs_state (sc_state sc') = Disconnected \<and> sc_completed sc'"
proof (rule drain_states)
  have wf: "sc_wf sc" using scene_reach_wf [OF assms(1)] .
  then show "sc_wf (host_state_changed s sc)" by (simp add: host_state_changed_def Let_def)
  show "only_states (sc_jobs (host_state_changed s sc))"
    using assms(3) by (auto simp: host_state_changed_def only_states_def Let_def)
  show "will_disconnect (host_state_changed s sc)"
    using assms(2,4) by (auto simp: host_state_changed_def will_disconnect_def Let_def conn_state_because_def)
  show "sc_published (host_state_changed s sc) \<noteq> []"
    using wf assms(2) by (auto simp: host_state_changed_def sc_wf_def Let_def)
qed

text \<open>
  A peer that leaves before the dispatcher has announced it takes the announcement
  down with it: the job holds an iterator into the map of connected peers, which is erased,
  and running the job dereferences it.
\<close>

theorem peer_event_dangles:
  assumes "sc_connectedPeers sc sid = Some p" "sc_jobs sc = []"
  shows "run_next conns order junk (raisePeerConnected sid sc) =
      Some ([PeerConnected p], sc) \<and>
    run_next conns order junk (raisePeerDisconnected sid (raisePeerConnected sid sc)) = None"
  using assms
  by (simp add: raisePeerConnected_def raisePeerDisconnected_def run_next_def run_job_def post_job_def)

section \<open>Witnesses\<close>

definition demo_address :: scene_address where
  "demo_address = \<lparr>sa_clusterId = ''c'', sa_app = ''a'', sa_account = ''u'', sa_sceneId = ''s''\<rparr>"

definition demo_route :: route where
  "demo_route = \<lparr>rt_name = ''r'', rt_handle = 5, rt_filter = FromPeer, rt_metadata = Map.empty, rt_handlers = [7]\<rparr>"

definition demo_scene :: scene where
  "demo_scene = (Scene_Impl 0 demo_address \<lparr>si_metadata = Map.empty, si_routes = []\<rparr>)
     \<lparr>sc_localRoutes := [''r'' \<mapsto> demo_route], sc_handlers := [5 \<mapsto> [(''r'', 7)]], sc_subscribed := [7],
      sc_host := Some (ScenePeer 0 141 Map.empty)\<rparr>"

definition demo_net :: net where
  "demo_net = \<lparr>nt_conns = (\<lambda>k. (RakNetConnection (of_nat k) (of_nat k) ''k'' True)\<lparr>c_sessionId := ''x''\<rparr>),
     nt_channels = (\<lambda>_. ChannelUidStore 0), nt_handles = (\<lambda>_. replicate 150 None),
     nt_aes = \<lparr>aw_keys = Map.empty, aw_handles = Map.empty\<rparr>\<rparr>"

definition demo_world :: scenes_world where
  "demo_world = \<lparr>sw_net = demo_net, sw_scenes = [0 \<mapsto> demo_scene]\<rparr>"

definition demo_scene_env :: scene_env where
  "demo_scene_env = \<lparr>se_rak = (\<lambda>_. 1), se_bc = xor_bcrypt, se_rnd = [], se_enabled = False, se_t1 = 1, se_t2 = 1\<rparr>"

definition demo_offer :: p2p_message where
  "demo_offer = \<lparr>pm_sceneId = ''s'', pm_sceneHandle = 150, pm_routes = [], pm_connectionMetadata = Map.empty,
     pm_sceneMetadata = Map.empty\<rparr>"

definition demo_answer :: p2p_message where
  "demo_answer = p2p_connect_message [''r''] 141 (nt_conns demo_net 1) demo_scene"

definition demo_sender :: scene where
  "demo_sender = demo_scene\<lparr>sc_state := conn_state Connected,
     sc_connectedPeers := [''y'' \<mapsto> P2PScenePeer 1 demo_answer]\<rparr>"

lemma demo_scene_sel [simp]:
  "sc_localRoutes demo_scene = [''r'' \<mapsto> demo_route]" "sc_handlers demo_scene = [5 \<mapsto> [(''r'', 7)]]"
  "sc_subscribed demo_scene = [7]" "sc_host demo_scene = Some (ScenePeer 0 141 Map.empty)"
  "sc_connectedPeers demo_scene = Map.empty" "sc_jobs demo_scene = []" "sc_client demo_scene"
  by (simp_all add: demo_scene_def Scene_Impl_def)

lemma demo_route_sel [simp]:
  "rt_name demo_route = ''r''" "rt_handle demo_route = 5" "rt_filter demo_route = FromPeer"
  "rt_handlers demo_route = [7]"
  by (simp_all add: demo_route_def)

lemma demo_net_sel [simp]:
  "c_id (nt_conns demo_net k) = of_nat k" "c_sessionId (nt_conns demo_net k) = ''x''"
  "c_peer (nt_conns demo_net k)" "nt_channels demo_net k = ChannelUidStore 0"
  "nt_handles demo_net k = replicate 150 None" "c_wire (nt_conns demo_net k) = []"
  by (simp_all add: demo_net_def RakNetConnection_def)

lemma demo_world_sel [simp]: "sw_net demo_world = demo_net" "sw_scenes demo_world = [0 \<mapsto> demo_scene]"
  by (simp_all add: demo_world_def)

lemma demo_routes_wf: "routes_wf demo_scene"
  by (simp add: routes_wf_def)

lemma demo_accept:
  "p2p_accept [''r''] 1 0 demo_offer demo_world = Some (Inr demo_answer, snd (the (p2p_accept [''r''] 1 0 demo_offer demo_world)))"
proof -
  have "find (\<lambda>j. lock_scene demo_world (replicate 150 None ! j) = None) [0..<150] = Some 0"
    by (simp add: upt_rec [of 0 150] lock_scene_def)
  then have "allocate_handle 1 0 demo_world =
      (Inr (of_nat 0 + ID_SCENES), set_handles 1 ((replicate 150 None)[0 := Some 0]) demo_world)"
    unfolding allocate_handle_def Let_def demo_world_sel demo_net_sel by (simp only: option.case)
  then show ?thesis
    by (simp add: p2p_accept_def p2p_offer_def demo_answer_def ID_SCENES_def)
qed

theorem p2p_message_delivered_witness:
  "\<exists>net' data q w2 sc2.
    scene_send_filter demo_scene_env [] (matchPeers [''y'']) ''r'' (put_bytes [1, 2]) 1 2 '''' demo_sender demo_net =
      Some (Inr (), net') \<and>
    map t_data (c_wire (nt_conns net' 1)) = [data] \<and>
    dispatchImpl (registerSceneProcessor DefaultPacketDispatcher) (make_packet 1 data Map.empty)
      (snd (the (p2p_accept [''r''] 1 0 demo_offer demo_world))) = (Inr True, q, w2) \<and>
    sw_scenes w2 0 = Some sc2 \<and> sc_jobs sc2 = [HandleMessage q] \<and>
    handleMessage (nt_conns (sw_net w2)) [''r''] 0 q sc2 =
      Some [PacketReceived q, Delivered 7 (P2PScenePeer 1 demo_offer) [1, 2]]"
proof -
  have lk: "lock_scene demo_world (nt_handles (sw_net demo_world) 1 ! 0) = None" by (simp add: lock_scene_def)
  have snd': "sc_client demo_sender" "cs_state (sc_state demo_sender) = Connected"
    "sc_connectedPeers demo_sender ''y'' = Some (P2PScenePeer 1 demo_answer)"
    by (simp_all add: demo_sender_def conn_state_def)
  have env: "\<And>t. se_rak demo_scene_env t \<noteq> 0" "\<not> se_enabled demo_scene_env" "0 < se_t1 demo_scene_env"
    by (simp_all add: demo_scene_env_def)
  let ?d = "registerSceneProcessor DefaultPacketDispatcher"
  have d: "\<forall>h \<ge> ID_SCENES. d_handlers ?d h = None" "d_defaults ?d = [handler_impl]" "0 < d_maxLayerCount ?d"
    by (simp_all add: registerSceneProcessor_def addCatchAllProcessor_def DefaultPacketDispatcher_def)
  show ?thesis
    using p2p_message_delivered [where ?j0.0 = 0 and hp = "ScenePeer 0 141 Map.empty" and rt = demo_route and sc = demo_scene
        and n = "''r''" and order = "[''r'']" and now = 0 and env = demo_scene_env and d = ?d and wr = "put_bytes [1, 2]"
        and payload = "[1, 2]" and net = demo_net and l = 1 and ord = "[]" and pr = 1 and rel = 2 and ident = "''''"
        and meta = Map.empty and junk = 0,
        OF demo_accept _ _ lk _ demo_routes_wf _ _ _ _ _ _ snd'(1,2) _ snd'(3) writes_put _ env(1) _ _ _ env(3) d]
      env(2)
    by (simp add: ScenePeer_def chan_wf_new)
qed

definition demo_full :: scenes_world where
  "demo_full = set_handles 1 (replicate 115 (Some 0) @ replicate 35 None) demo_world"

theorem p2p_handle_wraps_witness:
  "case allocate_handle 1 0 demo_full of (r, w1) \<Rightarrow> (case r of Inl e \<Rightarrow> False
     | Inr h \<Rightarrow> h < ID_SCENES \<and> handler_impl h (make_packet 1 [1] Map.empty) w1 =
         (Inr False, make_packet 1 [1] Map.empty, w1))"
proof -
  have full: "\<forall>j < 115. lock_scene demo_full (nt_handles (sw_net demo_full) 1 ! j) \<noteq> None"
    by (simp add: demo_full_def lock_scene_def nth_append)
  obtain r w1 where al: "allocate_handle 1 0 demo_full = (r, w1)" by fastforce
  have free: "lock_scene demo_full (nt_handles (sw_net demo_full) 1 ! 115) = None"
    by (simp add: demo_full_def lock_scene_def nth_append)
  from al obtain j where "r = Inr (of_nat j + ID_SCENES)"
  proof (cases rule: allocate_handle_cases)
    case full
    have "(115 :: nat) < 150" by simp
    then show ?thesis using full(3) free by blast
  next
    case (free j)
    then show ?thesis using that by blast
  qed
  then show ?thesis using p2p_handle_wraps [OF full al [unfolded \<open>r = _\<close>]] al by simp
qed

theorem scene_states_published_witness:
  "sc_published (setConnectionStateInternal (conn_state Connected) (Scene_Impl 0 demo_address \<lparr>si_metadata = Map.empty, si_routes = []\<rparr>)) =
     [conn_state Connected] \<and>
   successively (\<lambda>a b. \<not> cs_eq a b) (sc_published (setConnectionStateInternal (conn_state Connected)
     (Scene_Impl 0 demo_address \<lparr>si_metadata = Map.empty, si_routes = []\<rparr>)))"
proof -
  let ?s = "Scene_Impl 0 demo_address \<lparr>si_metadata = Map.empty, si_routes = []\<rparr>"
  have "scene_reach (scene_setConnectionState (conn_state Connected) False ?s)"
    by (intro scene_reach.intros)
  from scene_states_published [OF this]
  show ?thesis
    by (simp add: scene_setConnectionState_def setConnectionStateInternal_def Scene_Impl_def cs_eq_def conn_state_def)
qed

theorem host_loss_disconnects_witness:
  "\<exists>n sc'. drain (nt_conns demo_net) [] 0 n (host_state_changed (conn_state Disconnected)
      (scene_setConnectionState (conn_state Connected) False
        (Scene_Impl 0 demo_address \<lparr>si_metadata = Map.empty, si_routes = []\<rparr>))) = Some sc' \<and>
    cs_state (sc_state sc') = Disconnected"
proof -
  let ?s = "scene_setConnectionState (conn_state Connected) False
    (Scene_Impl 0 demo_address \<lparr>si_metadata = Map.empty, si_routes = []\<rparr>)"
  have r: "scene_reach ?s" by (intro scene_reach.intros)
  have s: "cs_state (sc_state ?s) \<noteq> Disconnected" "only_states (sc_jobs ?s)"
    by (simp_all add: scene_setConnectionState_def setConnectionStateInternal_def Scene_Impl_def cs_eq_def
        conn_state_def only_states_def)
  show ?thesis
    using host_loss_disconnects [OF r s, of "conn_state Disconnected"] by (simp add: conn_state_def) blast
qed

theorem peer_event_dangles_witness:
  "run_next (nt_conns demo_net) [] 0 (raisePeerDisconnected ''y'' (raisePeerConnected ''y'' demo_sender)) = None"
  using peer_event_dangles [of demo_sender "''y''" "P2PScenePeer 1 demo_answer" "nt_conns demo_net" "[]" 0]
  by (simp add: demo_sender_def)

end
