(* ===== verification/RpcCore.thy ===== *)
theory RpcCore
  imports Scenes
begin

text \<open>
  Remote procedure calls: \<^verbatim>\<open>RPC/RpcService.cpp\<close>, \<^verbatim>\<open>RpcRequest.cpp\<close>,
  \<^verbatim>\<open>RpcRequestContext.h\<close>, \<^verbatim>\<open>RpcPlugin.cpp\<close> and \<^verbatim>\<open>Service.h\<close>. Requests live in a heap,
  the map of pending requests holds references into it; a request dies when it leaves the
  map. The subscriber of a call is an object of the reactive library, a parameter of the
  model; what the service relies on is the contract of an observer, \<open>rx_contract\<close>. The
  scene is the interface \<^verbatim>\<open>route_sender\<close>, interpreted on the scenes of this development.
\<close>

section \<open>The scene as an interface\<close>

text \<open>
  Sending on a route transmits an address, then what the writer wrote; a failed call transmits
  nothing.
\<close>

type_synonym 'c route_send = "string \<Rightarrow> writer \<Rightarrow> nat \<Rightarrow> nat \<Rightarrow> string \<Rightarrow> 'c \<Rightarrow> unit res \<times> 'c"

locale route_sender =
  fixes ok :: "'c \<Rightarrow> bool"
    and send :: "'c route_send"
    and sent :: "'c \<Rightarrow> byte list list"
    and addr :: "string \<Rightarrow> 'c \<Rightarrow> byte list"
  assumes send_ok: "ok c \<Longrightarrow> send n w pr rel ch c = (Inr (), c') \<Longrightarrow> writes w xs \<Longrightarrow> length xs < 1000000 \<Longrightarrow>
      sent c' = sent c @ [addr n c @ xs]"
    and send_fails: "ok c \<Longrightarrow> send n w pr rel ch c = (Inl e, c') \<Longrightarrow> sent c' = sent c"
    and send_keeps: "ok c \<Longrightarrow> send n w pr rel ch c = (r, c') \<Longrightarrow> ok c' \<and> addr m c' = addr m c"
begin

text \<open>Consecutive messages keep their order and their address.\<close>

lemma send_twice:
  assumes "ok c" "send n w pr rel ch c = (Inr (), c1)" "writes w xs" "length xs < 1000000"
    and "send m v pr' rel' ch' c1 = (Inr (), c2)" "writes v ys" "length ys < 1000000"
  shows "sent c2 = sent c @ [addr n c @ xs, addr m c @ ys]"
proof -
  have k: "ok c1" "addr m c1 = addr m c" using send_keeps [OF assms(1,2)] by simp_all
  show ?thesis using send_ok [OF assms(1-4)] send_ok [OF k(1) assms(5-7)] k(2) by simp
qed

end

text \<open>
  Sending to the host of a connected scene. A connected scene without a host object would
  dereference a null pointer; \<open>host_ok\<close> excludes it, and the value given here for that case
  is never used.
\<close>

definition host_send :: "scene_env \<Rightarrow> (scene \<times> net) route_send" where
  "host_send env n w pr rel ch c =
     (case scene_send env n w pr rel ch (fst c) (snd c) of
        None \<Rightarrow> (Inl (PointerDeleted ''host''), c)
      | Some (r, net1) \<Rightarrow> (r, (fst c, net1)))"

definition host_ok :: "scene_env \<Rightarrow> scene \<times> net \<Rightarrow> bool" where
  "host_ok env c \<longleftrightarrow> (\<exists>hp. sc_host (fst c) = Some hp \<and>
     (\<not> se_enabled env \<or> conn_metadata ''type'' (nt_conns (snd c) (sp_connection hp)) = ''p2p''))"

definition host_sent :: "scene \<times> net \<Rightarrow> byte list list" where
  "host_sent c = (case sc_host (fst c) of None \<Rightarrow> []
     | Some hp \<Rightarrow> map t_data (c_wire (nt_conns (snd c) (sp_connection hp))))"

definition host_addr :: "string \<Rightarrow> scene \<times> net \<Rightarrow> byte list" where
  "host_addr n c = (case sc_host (fst c) of None \<Rightarrow> []
     | Some hp \<Rightarrow> (case sp_routes hp n of None \<Rightarrow> []
        | Some r \<Rightarrow> word_bytes (sp_handle hp) @ word_bytes (rt_handle r)))"

lemma conn_send_frame:
  "conn_send rak bc rnd en w ch pr rel d c a = (r, c', a') \<Longrightarrow>
     c' = c \<or> (\<exists>t. c' = c\<lparr>c_wire := c_wire c @ [t]\<rparr>)"
  by (auto simp: conn_send_def Let_def split: sum.splits prod.splits if_splits)

lemma send_peer_frame:
  assumes "send_peer env sp n w pr rel ch sc net = (r, net')"
  shows "conn_metadata k (nt_conns net' j) = conn_metadata k (nt_conns net j)"
proof (cases "sp_routes sp n")
  case None
  then show ?thesis using assms by (simp add: send_peer_def)
next
  case (Some rt)
  let ?k = "sp_connection sp"
  obtain u chs where u: "getChannelUid (channel_name ch n sc) (se_t1 env) (se_t2 env) (nt_channels net ?k) = (u, chs)"
    by fastforce
  show ?thesis
  proof (cases u)
    case (Inl e)
    then show ?thesis using assms by (auto simp: send_peer_def Some u)
  next
    case (Inr uid)
    obtain r1 c1 a1 where s: "conn_send (se_rak env) (se_bc env) (se_rnd env) (se_enabled env)
        (scene_writer (sp_handle sp) (rt_handle rt) w) uid pr rel False (nt_conns net ?k) (nt_aes net) = (r1, c1, a1)"
      by (metis prod_cases3)
    have "conn_metadata k c1 = conn_metadata k (nt_conns net ?k)"
      using conn_send_frame [OF s] by (auto simp: conn_metadata_def)
    then show ?thesis using assms by (auto simp: send_peer_def Let_def Some u Inr s)
  qed
qed

lemma send_peer_sent:
  assumes "send_peer env sp n w pr rel ch sc net = (r, net')"
    and "\<not> se_enabled env \<or> conn_metadata ''type'' (nt_conns net (sp_connection sp)) = ''p2p''"
  shows "case r of Inl e \<Rightarrow> nt_conns net' (sp_connection sp) = nt_conns net (sp_connection sp)
    | Inr _ \<Rightarrow> \<exists>rt s t. sp_routes sp n = Some rt \<and>
        run_writer (scene_writer (sp_handle sp) (rt_handle rt) w) obytestream0 = Inr s \<and> t_data t = out_data s \<and>
        c_wire (nt_conns net' (sp_connection sp)) = c_wire (nt_conns net (sp_connection sp)) @ [t]"
  using assms(1)
  by (auto simp: send_peer_def Let_def conn_send_plain [OF assms(2)] conn_send_clear
      split: option.splits prod.splits sum.splits if_splits)

definition host_step :: "scene_env \<Rightarrow> string \<Rightarrow> writer \<Rightarrow> unit res \<Rightarrow> scene_peer \<Rightarrow> net \<Rightarrow> net \<Rightarrow> bool" where
  "host_step env n w r hp net net' \<longleftrightarrow>
     (case r of
        Inl e \<Rightarrow> nt_conns net' (sp_connection hp) = nt_conns net (sp_connection hp)
      | Inr _ \<Rightarrow> \<exists>rt s t. sp_routes hp n = Some rt \<and>
          run_writer (scene_writer (sp_handle hp) (rt_handle rt) w) obytestream0 = Inr s \<and> t_data t = out_data s \<and>
          c_wire (nt_conns net' (sp_connection hp)) = c_wire (nt_conns net (sp_connection hp)) @ [t])"

lemma host_send_sent:
  assumes "host_ok env c" "host_send env n w pr rel ch c = (r, c')"
  shows "\<exists>hp. sc_host (fst c) = Some hp \<and> fst c' = fst c \<and> host_ok env c' \<and> host_step env n w r hp (snd c) (snd c')"
proof -
  obtain hp where hp: "sc_host (fst c) = Some hp"
      "\<not> se_enabled env \<or> conn_metadata ''type'' (nt_conns (snd c) (sp_connection hp)) = ''p2p''"
    using assms(1) by (auto simp: host_ok_def)
  obtain r1 net1 where s: "send_peer env hp n w pr rel ch (fst c) (snd c) = (r1, net1)" by fastforce
  have cases: "(c' = c \<and> isl r) \<or> (r = r1 \<and> c' = (fst c, net1))"
    using assms(2) hp(1) s
    by (auto simp: host_send_def scene_send_def scene_send_filter_def matchSceneHost_def Let_def split: if_splits)
  then show ?thesis
  proof
    assume "c' = c \<and> isl r"
    then show ?thesis using hp(1) assms(1) by (cases r) (auto simp: host_step_def)
  next
    assume c': "r = r1 \<and> c' = (fst c, net1)"
    have "host_ok env c'" using c' hp send_peer_frame [OF s] by (simp add: host_ok_def)
    moreover have "host_step env n w r hp (snd c) (snd c')"
      using send_peer_sent [OF s hp(2)] c' by (simp add: host_step_def)
    ultimately show ?thesis using hp(1) c' by simp
  qed
qed

interpretation host: route_sender "host_ok env" "host_send env" host_sent host_addr
proof unfold_locales
  fix c n w pr rel ch c' xs
  assume a: "host_ok env c" "host_send env n w pr rel ch c = (Inr (), c')" "writes w xs" "length xs < 1000000"
  obtain hp where hp: "sc_host (fst c) = Some hp" "fst c' = fst c"
    "host_step env n w (Inr ()) hp (snd c) (snd c')"
    using host_send_sent [OF a(1,2)] by blast
  then obtain rt s t where h: "sc_host (fst c) = Some hp" "fst c' = fst c"
    "sp_routes hp n = Some rt"
    "run_writer (scene_writer (sp_handle hp) (rt_handle rt) w) obytestream0 = Inr s" "t_data t = out_data s"
    "c_wire (nt_conns (snd c') (sp_connection hp)) = c_wire (nt_conns (snd c) (sp_connection hp)) @ [t]"
    by (auto simp: host_step_def)
  have "length (word_bytes (sp_handle hp) @ word_bytes (rt_handle rt) @ xs) < 1073741824" using a(4) by simp
  then have "out_data s = word_bytes (sp_handle hp) @ word_bytes (rt_handle rt) @ xs"
    using writes_new [OF writes_scene [OF a(3)]] h(4) by (metis sum.inject(2))
  then show "host_sent c' = host_sent c @ [host_addr n c @ xs]"
    using h by (simp add: host_sent_def host_addr_def)
next
  fix c n w pr rel ch e c'
  assume a: "host_ok env c" "host_send env n w pr rel ch c = (Inl e, c')"
  obtain hp where "sc_host (fst c) = Some hp" "fst c' = fst c"
    "nt_conns (snd c') (sp_connection hp) = nt_conns (snd c) (sp_connection hp)"
    using host_send_sent [OF a] by (auto simp: host_step_def)
  then show "host_sent c' = host_sent c" by (simp add: host_sent_def)
next
  fix c n w pr rel ch r c' m
  assume a: "host_ok env c" "host_send env n w pr rel ch c = (r, c')"
  have "fst c' = fst c" "host_ok env c'" using host_send_sent [OF a] by blast+
  then show "host_ok env c' \<and> host_addr m c' = host_addr m c" by (simp add: host_addr_def)
qed

section \<open>Subscribers\<close>

text \<open>
  A subscriber of the reactive library: its three notifications, its end of subscription and
  the test for it. \<open>rx_contract\<close> is the documented contract of an observer: notifications
  arrive in order while it is subscribed, an error or a completion is the last one, and nothing
  arrives afterwards.
\<close>

record 'o rx =
  rx_next :: "packet \<Rightarrow> 'o \<Rightarrow> 'o"
  rx_error :: "storm_exn \<Rightarrow> 'o \<Rightarrow> 'o"
  rx_completed :: "'o \<Rightarrow> 'o"
  rx_unsubscribe :: "'o \<Rightarrow> 'o"
  rx_subscribed :: "'o \<Rightarrow> bool"

datatype notification = Next packet | Failure storm_exn | Completed

definition rx_contract :: "'o rx \<Rightarrow> ('o \<Rightarrow> notification list) \<Rightarrow> bool" where
  "rx_contract rx log \<longleftrightarrow>
     (\<forall>ob. rx_subscribed rx ob \<longrightarrow>
        (\<forall>p. log (rx_next rx p ob) = log ob @ [Next p] \<and> rx_subscribed rx (rx_next rx p ob)) \<and>
        (\<forall>e. log (rx_error rx e ob) = log ob @ [Failure e] \<and> \<not> rx_subscribed rx (rx_error rx e ob)) \<and>
        log (rx_completed rx ob) = log ob @ [Completed] \<and> \<not> rx_subscribed rx (rx_completed rx ob)) \<and>
     (\<forall>ob. log (rx_unsubscribe rx ob) = log ob \<and> \<not> rx_subscribed rx (rx_unsubscribe rx ob)) \<and>
     (\<forall>ob. \<not> rx_subscribed rx ob \<longrightarrow>
        (\<forall>p. rx_next rx p ob = ob) \<and> (\<forall>e. rx_error rx e ob = ob) \<and> rx_completed rx ob = ob)"

lemma rx_contractD:
  assumes "rx_contract rx log"
  shows "rx_subscribed rx ob \<Longrightarrow> log (rx_next rx p ob) = log ob @ [Next p]"
    "rx_subscribed rx ob \<Longrightarrow> rx_subscribed rx (rx_next rx p ob)"
    "rx_subscribed rx ob \<Longrightarrow> log (rx_error rx e ob) = log ob @ [Failure e]"
    "\<not> rx_subscribed rx (rx_error rx e ob)"
    "rx_subscribed rx ob \<Longrightarrow> log (rx_completed rx ob) = log ob @ [Completed]"
    "\<not> rx_subscribed rx (rx_completed rx ob)"
    "log (rx_unsubscribe rx ob) = log ob" "\<not> rx_subscribed rx (rx_unsubscribe rx ob)"
    "\<not> rx_subscribed rx ob \<Longrightarrow> rx_next rx p ob = ob"
    "\<not> rx_subscribed rx ob \<Longrightarrow> rx_error rx e ob = ob"
    "\<not> rx_subscribed rx ob \<Longrightarrow> rx_completed rx ob = ob"
  using assms unfolding rx_contract_def by metis+

text \<open>
  \<^verbatim>\<open>rpcImpl\<close> turns the notifications into a task: with a result type the first value
  completes it, without one the completion does; an error fails it.
\<close>

fun rpc_value_task :: "(packet \<Rightarrow> 'a) \<Rightarrow> notification list \<Rightarrow> 'a task \<Rightarrow> 'a task" where
  "rpc_value_task de [] t = t"
| "rpc_value_task de (Next p # ns) t = rpc_value_task de ns (tce_set (Done (de p)) t)"
| "rpc_value_task de (Failure e # ns) t = rpc_value_task de ns (tce_set (Failed e) t)"
| "rpc_value_task de (Completed # ns) t = rpc_value_task de ns t"

fun rpc_void_task :: "notification list \<Rightarrow> unit task \<Rightarrow> unit task" where
  "rpc_void_task [] t = t"
| "rpc_void_task (Next p # ns) t = rpc_void_task ns t"
| "rpc_void_task (Failure e # ns) t = rpc_void_task ns (tce_set (Failed e) t)"
| "rpc_void_task (Completed # ns) t = rpc_void_task ns (tce_set (Done ()) t)"

section \<open>The state of the service\<close>

text \<open>
  \<^verbatim>\<open>rq_waiting\<close> says that \<^verbatim>\<open>waitingForDataTce\<close> is set, \<^verbatim>\<open>rq_continuations\<close> counts the
  continuations of \<^verbatim>\<open>complete\<close> that have not run, \<^verbatim>\<open>rq_teardown\<close> that the function added to
  the subscriber has not run, \<^verbatim>\<open>rq_alive\<close> that the object exists.
\<close>

record 'o rpc_request =
  rq_id :: u16
  rq_observer :: 'o
  rq_waiting :: bool
  rq_hasCompleted :: bool
  rq_route :: string
  rq_continuations :: nat
  rq_teardown :: bool
  rq_alive :: bool

definition RpcRequest :: "u16 \<Rightarrow> 'o \<Rightarrow> string \<Rightarrow> 'o rpc_request" where
  "RpcRequest i ob r = \<lparr>rq_id = i, rq_observer = ob, rq_waiting = False, rq_hasCompleted = False,
     rq_route = r, rq_continuations = 0, rq_teardown = False, rq_alive = True\<rparr>"

record rpc_context =
  rx_id :: u16
  rx_ordered :: bool
  rx_msgSent :: bool
  rx_input :: packet

text \<open>
  \<^verbatim>\<open>rs_running\<close> maps the id of a running request to its cancellation source, here the
  reference of its context; \<^verbatim>\<open>rs_canceled\<close> lists the sources that were canceled.
\<close>

record ('o, 'c) rpc_service =
  rs_alive :: bool
  rs_requests :: "'o rpc_request list"
  rs_pending :: "u16 \<rightharpoonup> nat"
  rs_counter :: u16
  rs_contexts :: "rpc_context list"
  rs_running :: "u16 \<rightharpoonup> nat"
  rs_canceled :: "nat list"
  rs_scene :: 'c

definition RpcService :: "'c \<Rightarrow> ('o, 'c) rpc_service" where
  "RpcService c = \<lparr>rs_alive = True, rs_requests = [], rs_pending = Map.empty, rs_counter = 0,
     rs_contexts = [], rs_running = Map.empty, rs_canceled = [], rs_scene = c\<rparr>"

text \<open>What the service asks of the scene.\<close>

record 'c scene_api =
  sa_send :: "'c route_send"
  sa_remoteRoutes :: "'c \<Rightarrow> route list"
  sa_connected :: "'c \<Rightarrow> bool"

definition pluginName :: string where "pluginName = ''stormancer.plugins.rpc''"
definition rpc_version :: string where "rpc_version = ''1.1.0''"
definition nextRouteName :: string where "nextRouteName = ''stormancer.rpc.next''"
definition errorRouteName :: string where "errorRouteName = ''stormancer.rpc.error''"
definition completeRouteName :: string where "completeRouteName = ''stormancer.rpc.completed''"
definition cancellationRouteName :: string where "cancellationRouteName = ''stormancer.rpc.cancel''"

section \<open>The caller's side\<close>

definition upd_rpc ::
  "nat \<Rightarrow> ('o rpc_request \<Rightarrow> 'o rpc_request) \<Rightarrow> ('o, 'c) rpc_service \<Rightarrow> ('o, 'c) rpc_service" where
  "upd_rpc ref f rs = rs\<lparr>rs_requests := (rs_requests rs)[ref := f (rs_requests rs ! ref)]\<rparr>"

text \<open>\<^verbatim>\<open>~RpcRequest\<close>: a request that was not completed ends with an error.\<close>

definition RpcRequest_destructor :: "'o rx \<Rightarrow> 'o rpc_request \<Rightarrow> 'o rpc_request" where
  "RpcRequest_destructor rx q =
     (if \<not> rq_hasCompleted q
      then q\<lparr>rq_observer := rx_error rx TaskCanceled (rq_observer q), rq_hasCompleted := True, rq_alive := False\<rparr>
      else q\<lparr>rq_alive := False\<rparr>)"

definition eraseRequest :: "'o rx \<Rightarrow> u16 \<Rightarrow> ('o, 'c) rpc_service \<Rightarrow> ('o, 'c) rpc_service" where
  "eraseRequest rx i rs =
     (case rs_pending rs i of
        None \<Rightarrow> rs
      | Some ref \<Rightarrow> upd_rpc ref (RpcRequest_destructor rx) (rs\<lparr>rs_pending := (rs_pending rs)(i := None)\<rparr>))"

definition id_writer :: "u16 \<Rightarrow> writer \<Rightarrow> writer" where
  "id_writer i w = Some (\<lambda>s. run_writer w (serialize i s))"

text \<open>
  The function added to the subscriber: it runs once, when the subscription ends, and only
  while the request lives. An exception of the cancellation message is logged.
\<close>

definition run_teardown ::
  "'o rx \<Rightarrow> 'c scene_api \<Rightarrow> nat \<Rightarrow> ('o, 'c) rpc_service \<Rightarrow> ('o, 'c) rpc_service" where
  "run_teardown rx api ref rs =
     (let q = rs_requests rs ! ref in
      if rx_subscribed rx (rq_observer q) \<or> \<not> rq_teardown q \<or> \<not> rq_alive q then rs
      else
        (let rs1 = upd_rpc ref (\<lambda>q. q\<lparr>rq_teardown := False\<rparr>) rs;
             rs2 = (if \<not> rq_hasCompleted q \<and> rs_alive rs1 \<and> sa_connected api (rs_scene rs1)
                    then rs1\<lparr>rs_scene := snd (sa_send api cancellationRouteName (id_writer (rq_id q) None) 0 3
                           ''RPC_server'' (rs_scene rs1))\<rparr>
                    else rs1)
         in eraseRequest rx (rq_id q) rs2))"

definition notify ::
  "'o rx \<Rightarrow> 'c scene_api \<Rightarrow> ('o \<Rightarrow> 'o) \<Rightarrow> nat \<Rightarrow> ('o, 'c) rpc_service \<Rightarrow> ('o, 'c) rpc_service" where
  "notify rx api f ref rs =
     run_teardown rx api ref (upd_rpc ref (\<lambda>q. q\<lparr>rq_observer := f (rq_observer q)\<rparr>) rs)"

definition reserveId :: "('o, 'c) rpc_service \<Rightarrow> u16 res \<times> ('o, 'c) rpc_service" where
  "reserveId rs =
     (case reserve_loop 65536 (rs_counter rs) (\<lambda>i. rs_pending rs i \<noteq> None) of (r, counter) \<Rightarrow>
        (case r of
           None \<Rightarrow> (Inl (OverflowError ''Unable to create a new RPC request: Too many pending requests.''),
                    rs\<lparr>rs_counter := counter\<rparr>)
         | Some i \<Rightarrow> (Inr i, rs\<lparr>rs_counter := counter\<rparr>)))"

definition store_request :: "u16 \<Rightarrow> 'o rpc_request \<Rightarrow> ('o, 'c) rpc_service \<Rightarrow> nat \<times> ('o, 'c) rpc_service" where
  "store_request i q rs =
     (let ref = length (rs_requests rs) in
      (ref, rs\<lparr>rs_requests := rs_requests rs @ [q],
               rs_pending := emplace i ref (rs_pending rs)\<rparr>))"

definition quote_route :: "string \<Rightarrow> string" where
  "quote_route r = [CHR 0x27] @ r @ [CHR 0x27]"

text \<open>
  What runs when somebody subscribes to the observable of a call. The exception given to the
  subscriber when sending fails is a copy sliced to \<^verbatim>\<open>std::exception\<close>, whose message is the
  library's own.
\<close>

definition rpc_subscribe ::
  "'o rx \<Rightarrow> 'c scene_api \<Rightarrow> string \<Rightarrow> writer \<Rightarrow> nat \<Rightarrow> 'o \<Rightarrow> ('o, 'c) rpc_service \<Rightarrow>
   nat res \<times> ('o, 'c) rpc_service" where
  "rpc_subscribe rx api n w priority ob rs =
     (if \<not> rs_alive rs then (Inl (RuntimeError ''The scene is invalid''), rs)
      else
        (case find (\<lambda>r. rt_name r = n) (sa_remoteRoutes api (rs_scene rs)) of
           None \<Rightarrow> (Inl (RuntimeError (''The target route '' @ quote_route n @
                     '' does not exist on the remote host.'')), rs)
         | Some rt \<Rightarrow>
             (case rt_metadata rt pluginName of
                None \<Rightarrow> (Inl (RuntimeError (''The target remote route '' @ quote_route n @
                          '' is not an RPC route.'')), rs)
              | Some v \<Rightarrow>
                  if v \<noteq> rpc_version
                  then (Inl (RuntimeError (''The target remote route '' @ quote_route n @
                          '' does not support the plugin RPC version '' @ rpc_version)), rs)
                  else
                    (case reserveId rs of (r, rs1) \<Rightarrow>
                       (case r of
                          Inl e \<Rightarrow> (Inl e, rs1)
                        | Inr i \<Rightarrow>
                            (case store_request i (RpcRequest i ob n) rs1 of (ref, rs2) \<Rightarrow>
                               (case sa_send api n (id_writer i w) priority 3 ''RPC_server'' (rs_scene rs2) of
                                  (s, c) \<Rightarrow>
                                    (let rs3 = rs2\<lparr>rs_scene := c\<rparr> in
                                     (Inr ref,
                                      case s of
                                        Inl e \<Rightarrow> notify rx api (rx_error rx (RuntimeError ''std::exception'')) ref rs3
                                      | Inr _ \<Rightarrow> run_teardown rx api ref
                                          (upd_rpc ref (\<lambda>q. q\<lparr>rq_teardown := True\<rparr>) rs3))))))))))"

text \<open>The caller cancels: the token's callback unsubscribes.\<close>

definition rpc_unsubscribe ::
  "'o rx \<Rightarrow> 'c scene_api \<Rightarrow> nat \<Rightarrow> ('o, 'c) rpc_service \<Rightarrow> ('o, 'c) rpc_service" where
  "rpc_unsubscribe rx api ref rs =
     (if rx_subscribed rx (rq_observer (rs_requests rs ! ref))
      then notify rx api (rx_unsubscribe rx) ref rs else rs)"

definition pendingRequests :: "('o, 'c) rpc_service \<Rightarrow> u16" where
  "pendingRequests rs = of_nat (card (dom (rs_pending rs)))"

section \<open>Answers\<close>

text \<open>\<^verbatim>\<open>getPendingRequest\<close> reads the id; its variable is initialised with 0.\<close>

definition getPendingRequest ::
  "packet \<Rightarrow> ('o, 'c) rpc_service \<Rightarrow> nat option \<times> packet" where
  "getPendingRequest p rs = (case p_read (0 :: u16) p of (i, p1) \<Rightarrow> (rs_pending rs i, p1))"

definition rpc_next :: "'o rx \<Rightarrow> 'c scene_api \<Rightarrow> packet \<Rightarrow> ('o, 'c) rpc_service \<Rightarrow> ('o, 'c) rpc_service" where
  "rpc_next rx api p rs =
     (case getPendingRequest p rs of (r, p1) \<Rightarrow>
        (case r of
           None \<Rightarrow> rs
         | Some ref \<Rightarrow>
             upd_rpc ref (\<lambda>q. q\<lparr>rq_waiting := True\<rparr>) (notify rx api (rx_next rx p1) ref rs)))"

text \<open>
  \<^verbatim>\<open>error\<close>: \<^term>\<open>de\<close> is the deserializer of a string; when it throws, the request is marked as
  completed, but its subscriber is not told. \<^verbatim>\<open>msg.c_str()\<close> stops at the first NUL.
\<close>

definition rpc_error ::
  "'o rx \<Rightarrow> 'c scene_api \<Rightarrow> (byte list \<Rightarrow> string res) \<Rightarrow> packet \<Rightarrow> ('o, 'c) rpc_service \<Rightarrow>
   unit res \<times> ('o, 'c) rpc_service" where
  "rpc_error rx api de p rs =
     (case getPendingRequest p rs of (r, p1) \<Rightarrow>
        (case r of
           None \<Rightarrow> (Inr (), rs)
         | Some ref \<Rightarrow>
             (let rs1 = upd_rpc ref (\<lambda>q. q\<lparr>rq_hasCompleted := True\<rparr>) rs in
              case de (p_rest p1) of
                Inl e \<Rightarrow> (Inl e, rs1)
              | Inr msg \<Rightarrow>
                  (let msg1 = (if msg = '''' then ''RPC failed (An unknown error occured on the server)'' else msg)
                   in (Inr (), notify rx api
                        (rx_error rx (RuntimeError (takeWhile (\<lambda>ch. ch \<noteq> CHR 0x00) msg1))) ref rs1)))))"

definition rpc_complete :: "packet \<Rightarrow> ('o, 'c) rpc_service \<Rightarrow> ('o, 'c) rpc_service" where
  "rpc_complete p rs =
     (case p_read (0 :: byte) p of (b, p1) \<Rightarrow>
        (case getPendingRequest p1 rs of (r, p2) \<Rightarrow>
           (case r of
              None \<Rightarrow> rs
            | Some ref \<Rightarrow>
                upd_rpc ref (\<lambda>q. q\<lparr>rq_hasCompleted := True, rq_waiting := rq_waiting q \<or> b = 0,
                  rq_continuations := Suc (rq_continuations q)\<rparr>) rs)))"

text \<open>
  The continuation of \<^verbatim>\<open>waitingForDataTask\<close>, run by the task library once data has come; it
  holds a weak pointer to the request.
\<close>

definition run_continuation ::
  "'o rx \<Rightarrow> 'c scene_api \<Rightarrow> nat \<Rightarrow> ('o, 'c) rpc_service \<Rightarrow> ('o, 'c) rpc_service" where
  "run_continuation rx api ref rs =
     (let q = rs_requests rs ! ref in
      if rq_waiting q \<and> rq_continuations q > 0 then
        (let rs1 = upd_rpc ref (\<lambda>q. q\<lparr>rq_continuations := rq_continuations q - 1\<rparr>) rs in
         if rq_alive q then notify rx api (rx_completed rx) ref rs1 else rs1)
      else rs)"

section \<open>The callee's side\<close>

text \<open>
  The handler \<^verbatim>\<open>addProcedure\<close> puts on the scene: a request whose id is running already is
  dropped. The answer is the context the user's function is called with.
\<close>

definition on_procedure :: "bool \<Rightarrow> packet \<Rightarrow> ('o, 'c) rpc_service \<Rightarrow> nat option \<times> ('o, 'c) rpc_service" where
  "on_procedure ordered p rs =
     (case p_read (0 :: u16) p of (i, p1) \<Rightarrow>
        if rs_running rs i = None
        then (let x = length (rs_contexts rs) in
              (Some x, rs\<lparr>rs_contexts := rs_contexts rs @
                   [\<lparr>rx_id = i, rx_ordered = ordered, rx_msgSent = False, rx_input = p1\<rparr>],
                 rs_running := (rs_running rs)(i \<mapsto> x)\<rparr>))
        else (None, rs))"

definition context_route_send ::
  "'c scene_api \<Rightarrow> string \<Rightarrow> writer \<Rightarrow> nat \<Rightarrow> nat \<Rightarrow> ('o, 'c) rpc_service \<Rightarrow> unit res \<times> ('o, 'c) rpc_service" where
  "context_route_send api n w priority reliability rs =
     (if \<not> rs_alive rs then (Inl (RuntimeError ''The scene is invalid''), rs)
      else case sa_send api n w priority reliability ''RPC_client'' (rs_scene rs) of
        (r, c) \<Rightarrow> (r, rs\<lparr>rs_scene := c\<rparr>))"

definition sendValue ::
  "'c scene_api \<Rightarrow> writer \<Rightarrow> nat \<Rightarrow> nat \<Rightarrow> ('o, 'c) rpc_service \<Rightarrow> unit res \<times> ('o, 'c) rpc_service" where
  "sendValue api w priority x rs =
     (let ctx = rs_contexts rs ! x in
      case context_route_send api nextRouteName (id_writer (rx_id ctx) w) priority
          (if rx_ordered ctx then 3 else 2) rs of (r, rs1) \<Rightarrow>
        (r, case r of Inl e \<Rightarrow> rs1
            | Inr _ \<Rightarrow> rs1\<lparr>rs_contexts := (rs_contexts rs1)[x := ctx\<lparr>rx_msgSent := True\<rparr>]\<rparr>))"

definition sendError ::
  "'c scene_api \<Rightarrow> (string \<Rightarrow> byte list) \<Rightarrow> string \<Rightarrow> nat \<Rightarrow> ('o, 'c) rpc_service \<Rightarrow>
   unit res \<times> ('o, 'c) rpc_service" where
  "sendError api ser msg x rs =
     context_route_send api errorRouteName (id_writer (rx_id (rs_contexts rs ! x)) (put_bytes (ser msg))) 2 3 rs"

definition complete_writer :: "bool \<Rightarrow> u16 \<Rightarrow> writer" where
  "complete_writer msgSent i = Some (\<lambda>s. Inr (serialize i (serialize (if msgSent then 1 else 0 :: byte) s)))"

definition sendComplete ::
  "'c scene_api \<Rightarrow> nat \<Rightarrow> ('o, 'c) rpc_service \<Rightarrow> unit res \<times> ('o, 'c) rpc_service" where
  "sendComplete api x rs =
     (let ctx = rs_contexts rs ! x in
      context_route_send api completeRouteName (complete_writer (rx_msgSent ctx) (rx_id ctx)) 2 3 rs)"

text \<open>
  What follows the user's task. An exception, of the task or of \<^verbatim>\<open>sendComplete\<close>, is sent to the
  caller; exceptions of \<^verbatim>\<open>sendError\<close> are swallowed.
\<close>

definition procedure_done ::
  "'c scene_api \<Rightarrow> (string \<Rightarrow> byte list) \<Rightarrow> nat \<Rightarrow> unit res \<Rightarrow> ('o, 'c) rpc_service \<Rightarrow> ('o, 'c) rpc_service" where
  "procedure_done api ser x outcome rs =
     (let i = rx_id (rs_contexts rs ! x);
          (r, rs1) = (case outcome of
              Inl e \<Rightarrow> (Inl e, rs)
            | Inr _ \<Rightarrow>
                if rs_running rs i \<noteq> None
                then sendComplete api x (rs\<lparr>rs_running := (rs_running rs)(i := None)\<rparr>)
                else (Inr (), rs))
      in case r of Inr _ \<Rightarrow> rs1 | Inl e \<Rightarrow> snd (sendError api ser (what e) x rs1))"

definition rpc_cancel :: "packet \<Rightarrow> ('o, 'c) rpc_service \<Rightarrow> ('o, 'c) rpc_service" where
  "rpc_cancel p rs =
     (case p_read (0 :: u16) p of (i, _) \<Rightarrow>
        (case rs_running rs i of
           None \<Rightarrow> rs
         | Some x \<Rightarrow> rs\<lparr>rs_running := (rs_running rs)(i := None), rs_canceled := x # rs_canceled rs\<rparr>))"

text \<open>
  \<^verbatim>\<open>cancelAll\<close>: \<^term>\<open>running\<close> and \<^term>\<open>pending\<close> list the keys of the two maps in their order.
  The copy of the pending requests dies at the end.
\<close>

definition cancel_pending ::
  "'o rx \<Rightarrow> 'c scene_api \<Rightarrow> string \<Rightarrow> nat \<Rightarrow> ('o, 'c) rpc_service \<Rightarrow> ('o, 'c) rpc_service" where
  "cancel_pending rx api reason ref rs =
     (if rq_hasCompleted (rs_requests rs ! ref) then rs
      else notify rx api (rx_error rx (RuntimeError (takeWhile (\<lambda>ch. ch \<noteq> CHR 0x00) reason))) ref
             (upd_rpc ref (\<lambda>q. q\<lparr>rq_hasCompleted := True\<rparr>) rs))"

definition cancelAll ::
  "'o rx \<Rightarrow> 'c scene_api \<Rightarrow> u16 list \<Rightarrow> u16 list \<Rightarrow> string \<Rightarrow> ('o, 'c) rpc_service \<Rightarrow> ('o, 'c) rpc_service" where
  "cancelAll rx api running pending reason rs =
     (let rs1 = rs\<lparr>rs_canceled := rev (List.map_filter (rs_running rs) running) @ rs_canceled rs,
                   rs_running := Map.empty, rs_pending := Map.empty\<rparr>;
          refs = List.map_filter (rs_pending rs) pending;
          rs2 = fold (cancel_pending rx api reason) refs rs1
      in fold (\<lambda>ref. upd_rpc ref (RpcRequest_destructor rx)) refs rs2)"

section \<open>The plugin\<close>

text \<open>
  The plugin acts on scenes whose host announces the version of the protocol: it registers
  the service and four routes. \<^verbatim>\<open>sceneDisconnected\<close> resolves the service without that test;
  on other scenes the resolution throws.
\<close>

definition rpc_enabled :: "scene \<Rightarrow> bool" where
  "rpc_enabled sc \<longleftrightarrow> getHostMetadata pluginName sc = rpc_version"

fun add_routes :: "(string \<times> nat) list \<Rightarrow> scene \<Rightarrow> unit res \<times> scene" where
  "add_routes [] sc = (Inr (), sc)"
| "add_routes ((n, h) # rs) sc =
     (case addRoute n h FromHost Map.empty sc of (r, sc1) \<Rightarrow>
        (case r of Inl e \<Rightarrow> (Inl e, sc1) | Inr _ \<Rightarrow> add_routes rs sc1))"

definition sceneCreated :: "nat \<Rightarrow> scene \<Rightarrow> unit res \<times> scene" where
  "sceneCreated h sc =
     (if rpc_enabled sc
      then add_routes [(nextRouteName, h), (cancellationRouteName, h + 1), (errorRouteName, h + 2),
             (completeRouteName, h + 3)] sc
      else (Inr (), sc))"

definition sceneDisconnected ::
  "'o rx \<Rightarrow> 'c scene_api \<Rightarrow> u16 list \<Rightarrow> u16 list \<Rightarrow> scene \<Rightarrow> ('o, 'c) rpc_service \<Rightarrow>
   unit res \<times> ('o, 'c) rpc_service" where
  "sceneDisconnected rx api running pending sc rs =
     (if rpc_enabled sc then (Inr (), cancelAll rx api running pending ''Scene disconnected'' rs)
      else (Inl (DependencyResolution ''RpcService''), rs))"

text \<open>The messages of the four routes.\<close>

datatype rpc_route = NextRoute | CancelRoute | ErrorRoute | CompleteRoute

definition rpc_message ::
  "'o rx \<Rightarrow> 'c scene_api \<Rightarrow> (byte list \<Rightarrow> string res) \<Rightarrow> rpc_route \<Rightarrow> packet \<Rightarrow> ('o, 'c) rpc_service \<Rightarrow>
   ('o, 'c) rpc_service" where
  "rpc_message rx api de r p rs =
     (case r of NextRoute \<Rightarrow> rpc_next rx api p rs
      | CancelRoute \<Rightarrow> rpc_cancel p rs
      | ErrorRoute \<Rightarrow> snd (rpc_error rx api de p rs)
      | CompleteRoute \<Rightarrow> rpc_complete p rs)"

section \<open>The table of pending requests\<close>

definition rpc_reserve :: "'o \<times> string \<Rightarrow> ('o, 'c) rpc_service \<Rightarrow> (u16 \<times> ('o, 'c) rpc_service) option" where
  "rpc_reserve a rs =
     (case reserveId rs of (r, rs1) \<Rightarrow>
        (case r of Inl e \<Rightarrow> None
         | Inr i \<Rightarrow> Some (i, snd (store_request i (RpcRequest i (fst a) (snd a)) rs1))))"

lemma reserveId_cases:
  assumes "reserveId rs = (r, rs')"
  obtains (full) c where "r = Inl (OverflowError ''Unable to create a new RPC request: Too many pending requests.'')"
      "rs' = rs\<lparr>rs_counter := c\<rparr>" "\<forall>i. rs_pending rs i \<noteq> None"
  | (found) i where "r = Inr i" "rs_pending rs i = None" "rs' = rs\<lparr>rs_counter := i\<rparr>"
proof -
  obtain q c where rl: "reserve_loop 65536 (rs_counter rs) (\<lambda>i. rs_pending rs i \<noteq> None) = (q, c)"
    by fastforce
  show ?thesis
  proof (cases q)
    case None
    then show ?thesis
      using assms rl reserve_loop_full [of "rs_counter rs" "\<lambda>i. rs_pending rs i \<noteq> None"]
      by (intro full [of c]) (simp_all add: reserveId_def)
  next
    case (Some i)
    then show ?thesis
      using assms rl reserve_loop_Some [of 65536 "rs_counter rs" "\<lambda>i. rs_pending rs i \<noteq> None" i c]
      by (intro found [of i]) (simp_all add: reserveId_def)
  qed
qed

lemma upd_rpc_sel [simp]:
  "rs_pending (upd_rpc ref f rs) = rs_pending rs" "rs_alive (upd_rpc ref f rs) = rs_alive rs"
  "rs_scene (upd_rpc ref f rs) = rs_scene rs" "length (rs_requests (upd_rpc ref f rs)) = length (rs_requests rs)"
  "rs_running (upd_rpc ref f rs) = rs_running rs" "rs_contexts (upd_rpc ref f rs) = rs_contexts rs"
  "rs_canceled (upd_rpc ref f rs) = rs_canceled rs"
  "ref < length (rs_requests rs) \<Longrightarrow> rs_requests (upd_rpc ref f rs) ! ref = f (rs_requests rs ! ref)"
  "j \<noteq> ref \<Longrightarrow> rs_requests (upd_rpc ref f rs) ! j = rs_requests rs ! j"
  by (simp_all add: upd_rpc_def)

lemma eraseRequest_pending [simp]: "rs_pending (eraseRequest rx i rs) = (rs_pending rs)(i := None)"
  by (auto simp: eraseRequest_def split: option.splits)

interpretation rpcs: slot_table rs_pending rpc_reserve "eraseRequest rx"
proof unfold_locales
  fix a :: "'o \<times> string" and s s' :: "('o, 'c) rpc_service" and i
  assume "rpc_reserve a s = Some (i, s')"
  then obtain rs1 where r: "reserveId s = (Inr i, rs1)" "s' = snd (store_request i (RpcRequest i (fst a) (snd a)) rs1)"
    by (auto simp: rpc_reserve_def split: prod.splits sum.splits)
  from r(1) show "rs_pending s i = None" by (cases rule: reserveId_cases) simp_all
  from r show "i \<in> dom (rs_pending s')"
    by (simp add: store_request_def Let_def)
  fix j assume "j \<noteq> i"
  with r show "rs_pending s' j = rs_pending s j"
    by (cases rule: reserveId_cases) (simp_all add: store_request_def Let_def emplace_other)
next
  fix a :: "'o \<times> string" and s :: "('o, 'c) rpc_service"
  obtain r rs1 where r: "reserveId s = (r, rs1)" by fastforce
  from r show "rpc_reserve a s = None \<longleftrightarrow> dom (rs_pending s) = UNIV"
    by (cases rule: reserveId_cases) (auto simp: rpc_reserve_def r)
qed simp

section \<open>Invariant of the caller's side\<close>

text \<open>
  The map holds exactly the requests that live, each under its own id. A request whose
  teardown is registered has a subscribed subscriber: once the subscription has ended the
  request has left the map.
\<close>

definition keyed :: "('o, 'c) rpc_service \<Rightarrow> bool" where
  "keyed rs \<longleftrightarrow>
     (\<forall>i ref. rs_pending rs i = Some ref \<longrightarrow>
        ref < length (rs_requests rs) \<and> rq_id (rs_requests rs ! ref) = i \<and> rq_alive (rs_requests rs ! ref)) \<and>
     (\<forall>ref < length (rs_requests rs). rq_alive (rs_requests rs ! ref) \<longrightarrow>
        rs_pending rs (rq_id (rs_requests rs ! ref)) = Some ref)"

definition settled :: "'o rx \<Rightarrow> 'o rpc_request \<Rightarrow> bool" where
  "settled rx q \<longleftrightarrow> (rq_alive q \<longrightarrow> rq_teardown q \<longrightarrow> rx_subscribed rx (rq_observer q))"

definition rs_wf :: "'o rx \<Rightarrow> ('o, 'c) rpc_service \<Rightarrow> bool" where
  "rs_wf rx rs \<longleftrightarrow> keyed rs \<and> (\<forall>ref < length (rs_requests rs). settled rx (rs_requests rs ! ref))"

lemma keyedD:
  assumes "keyed rs"
  shows "rs_pending rs i = Some ref \<Longrightarrow> ref < length (rs_requests rs)"
    "rs_pending rs i = Some ref \<Longrightarrow> rq_id (rs_requests rs ! ref) = i"
    "rs_pending rs i = Some ref \<Longrightarrow> rq_alive (rs_requests rs ! ref)"
    "ref < length (rs_requests rs) \<Longrightarrow> rq_alive (rs_requests rs ! ref) \<Longrightarrow>
       rs_pending rs (rq_id (rs_requests rs ! ref)) = Some ref"
  using assms unfolding keyed_def by blast+

lemma keyed_upd:
  assumes "keyed rs" "rq_id (f (rs_requests rs ! ref)) = rq_id (rs_requests rs ! ref)"
    "rq_alive (f (rs_requests rs ! ref)) = rq_alive (rs_requests rs ! ref)"
  shows "keyed (upd_rpc ref f rs)"
proof -
  have "rq_id (rs_requests (upd_rpc ref f rs) ! j) = rq_id (rs_requests rs ! j)"
    "rq_alive (rs_requests (upd_rpc ref f rs) ! j) = rq_alive (rs_requests rs ! j)"
    if "j < length (rs_requests rs)" for j
    using assms(2,3) that by (cases "j = ref"; simp)+
  then show ?thesis using assms(1) unfolding keyed_def upd_rpc_sel by (metis (no_types, lifting))
qed

lemma keyed_frame:
  assumes "rs_pending rs' = rs_pending rs" "rs_requests rs' = rs_requests rs"
  shows "keyed rs' = keyed rs" "rs_wf rx rs' = rs_wf rx rs"
  using assms by (simp_all add: keyed_def rs_wf_def)

lemma destructor_sel [simp]:
  "rq_id (RpcRequest_destructor rx q) = rq_id q" "\<not> rq_alive (RpcRequest_destructor rx q)"
  "settled rx (RpcRequest_destructor rx q)"
  by (simp_all add: RpcRequest_destructor_def settled_def)

lemma keyed_erase:
  assumes "keyed rs"
  shows "keyed (eraseRequest rx i rs)"
proof (cases "rs_pending rs i")
  case None
  then show ?thesis using assms by (simp add: eraseRequest_def)
next
  case (Some ref)
  note k = keyedD [OF assms]
  let ?rs = "eraseRequest rx i rs"
  have rs: "?rs = upd_rpc ref (RpcRequest_destructor rx) (rs\<lparr>rs_pending := (rs_pending rs)(i := None)\<rparr>)"
    by (simp add: eraseRequest_def Some)
  have ref: "ref < length (rs_requests rs)" "rq_id (rs_requests rs ! ref) = i" using k(1,2) [OF Some] by simp_all
  have other: "rs_requests ?rs ! j = rs_requests rs ! j" if "j \<noteq> ref" for j using that by (simp add: rs)
  have dead: "\<not> rq_alive (rs_requests ?rs ! ref)" using ref(1) by (simp add: rs)
  show ?thesis
    unfolding keyed_def
  proof (intro conjI allI impI)
    fix j r
    assume "rs_pending ?rs j = Some r"
    then have j: "j \<noteq> i" "rs_pending rs j = Some r" by (auto split: if_splits)
    then have "r \<noteq> ref" using k(2) ref(2) by blast
    then show "r < length (rs_requests ?rs)" "rq_id (rs_requests ?rs ! r) = j" "rq_alive (rs_requests ?rs ! r)"
      using k(1-3) [OF j(2)] other by (simp_all add: rs)
  next
    fix r
    assume r: "r < length (rs_requests ?rs)" "rq_alive (rs_requests ?rs ! r)"
    then have "r \<noteq> ref" using dead by blast
    then have o: "rs_requests ?rs ! r = rs_requests rs ! r" using other by simp
    then have p: "rs_pending rs (rq_id (rs_requests rs ! r)) = Some r" using k(4) r by (simp add: rs)
    moreover have "rq_id (rs_requests rs ! r) \<noteq> i" using p Some \<open>r \<noteq> ref\<close> by auto
    ultimately show "rs_pending ?rs (rq_id (rs_requests ?rs ! r)) = Some r" using o by simp
  qed
qed

text \<open>Everything is settled but possibly one request, whose teardown is about to run.\<close>

definition rs_wf_but :: "'o rx \<Rightarrow> nat \<Rightarrow> ('o, 'c) rpc_service \<Rightarrow> bool" where
  "rs_wf_but rx r rs \<longleftrightarrow> keyed rs \<and> (\<forall>ref < length (rs_requests rs). ref \<noteq> r \<longrightarrow> settled rx (rs_requests rs ! ref))"

lemma rs_wf_but: "rs_wf rx rs \<Longrightarrow> rs_wf_but rx r rs"
  by (simp add: rs_wf_def rs_wf_but_def)

lemma rs_wf_but_upd:
  assumes "rs_wf_but rx r rs" "rq_id (f (rs_requests rs ! r)) = rq_id (rs_requests rs ! r)"
    "rq_alive (f (rs_requests rs ! r)) = rq_alive (rs_requests rs ! r)"
  shows "rs_wf_but rx r (upd_rpc r f rs)"
  using assms keyed_upd [of rs f r] by (simp add: rs_wf_but_def)

lemma rs_wf_but_settled:
  assumes "rs_wf_but rx r rs" "r < length (rs_requests rs) \<Longrightarrow> settled rx (rs_requests rs ! r)"
  shows "rs_wf rx rs"
  using assms unfolding rs_wf_def rs_wf_but_def by metis

lemma rs_wf_but_scene [simp]:
  "rs_wf_but rx r (rs\<lparr>rs_scene := c\<rparr>) = rs_wf_but rx r rs" "keyed (rs\<lparr>rs_scene := c\<rparr>) = keyed rs"
  by (simp_all add: rs_wf_but_def keyed_def)

lemma settled_erase:
  assumes "rs_wf_but rx r rs" "rs_pending rs i = Some r"
  shows "rs_wf rx (eraseRequest rx i rs)"
proof -
  have k: "keyed rs" using assms(1) by (simp add: rs_wf_but_def)
  have r: "r < length (rs_requests rs)" using keyedD(1) [OF k assms(2)] .
  have "settled rx (rs_requests (eraseRequest rx i rs) ! j)" if "j < length (rs_requests rs)" for j
    using assms that r by (cases "j = r") (simp_all add: eraseRequest_def rs_wf_but_def)
  moreover have "length (rs_requests (eraseRequest rx i rs)) = length (rs_requests rs)"
    by (simp add: eraseRequest_def assms(2))
  ultimately show ?thesis using keyed_erase [OF k] by (simp add: rs_wf_def)
qed

lemma run_teardown_wf:
  assumes "rs_wf_but rx r rs" "r < length (rs_requests rs)"
  shows "rs_wf rx (run_teardown rx api r rs)"
proof (cases "rx_subscribed rx (rq_observer (rs_requests rs ! r)) \<or> \<not> rq_teardown (rs_requests rs ! r) \<or>
    \<not> rq_alive (rs_requests rs ! r)")
  case True
  have "run_teardown rx api r rs = rs" using True by (auto simp: run_teardown_def Let_def)
  moreover have "settled rx (rs_requests rs ! r)" using True by (auto simp: settled_def)
  ultimately show ?thesis using rs_wf_but_settled [OF assms(1)] by simp
next
  case False
  let ?q = "rs_requests rs ! r"
  let ?rs1 = "upd_rpc r (\<lambda>q. q\<lparr>rq_teardown := False\<rparr>) rs"
  have b: "rs_wf_but rx r ?rs1" using rs_wf_but_upd [OF assms(1)] by simp
  have p: "rs_pending rs (rq_id ?q) = Some r"
    using assms False keyedD(4) by (auto simp: rs_wf_but_def)
  obtain c where t: "run_teardown rx api r rs = eraseRequest rx (rq_id ?q) (?rs1\<lparr>rs_scene := c\<rparr>)"
  proof (cases "\<not> rq_hasCompleted ?q \<and> rs_alive ?rs1 \<and> sa_connected api (rs_scene ?rs1)")
    case True
    then show ?thesis using that False by (simp add: run_teardown_def Let_def)
  next
    case f: False
    have same: "?rs1\<lparr>rs_scene := rs_scene rs\<rparr> = ?rs1" by (simp add: upd_rpc_def)
    show ?thesis by (rule that [of "rs_scene rs"]) (use False f in \<open>auto simp: run_teardown_def Let_def same\<close>)
  qed
  show ?thesis
    unfolding t by (rule settled_erase [of _ r]) (use b p in simp_all)
qed

lemma notify_wf [inv_intros]:
  assumes "rs_wf_but rx r rs" "r < length (rs_requests rs)"
  shows "rs_wf rx (notify rx api f r rs)"
  unfolding notify_def
  by (rule run_teardown_wf) (use assms in \<open>simp_all add: rs_wf_but_upd\<close>)

text \<open>A change that leaves id, life, teardown and subscription alone.\<close>

lemma rs_wf_upd:
  assumes "rs_wf rx rs" "\<And>q. rq_id (f q) = rq_id q" "\<And>q. rq_alive (f q) = rq_alive q"
    "\<And>q. rq_teardown (f q) = rq_teardown q" "\<And>q. rq_observer (f q) = rq_observer q"
  shows "rs_wf rx (upd_rpc r f rs)"
proof -
  have "keyed (upd_rpc r f rs)" using keyed_upd [of rs f r] assms(1-3) by (simp add: rs_wf_def)
  moreover have "settled rx (rs_requests (upd_rpc r f rs) ! j)" if "j < length (rs_requests rs)" for j
    using assms that by (cases "j = r") (simp_all add: rs_wf_def settled_def)
  ultimately show ?thesis by (simp add: rs_wf_def)
qed

lemma store_request_wf:
  assumes "rs_wf rx rs" "rs_pending rs i = None" "store_request i (RpcRequest i ob n) rs = (ref, rs')"
  shows "rs_wf rx rs'" "ref = length (rs_requests rs)" "length (rs_requests rs') = Suc ref"
    "rs_requests rs' ! ref = RpcRequest i ob n" "rs_pending rs' = (rs_pending rs)(i \<mapsto> ref)"
    "rs_scene rs' = rs_scene rs" "rs_alive rs' = rs_alive rs"
proof -
  have rs': "rs' = rs\<lparr>rs_requests := rs_requests rs @ [RpcRequest i ob n],
      rs_pending := (rs_pending rs)(i \<mapsto> length (rs_requests rs))\<rparr>" "ref = length (rs_requests rs)"
    using assms(2,3) by (auto simp: store_request_def Let_def)
  show "ref = length (rs_requests rs)" "length (rs_requests rs') = Suc ref"
    "rs_requests rs' ! ref = RpcRequest i ob n" "rs_pending rs' = (rs_pending rs)(i \<mapsto> ref)"
    "rs_scene rs' = rs_scene rs" "rs_alive rs' = rs_alive rs"
    using rs' by simp_all
  have k: "keyed rs" using assms(1) by (simp add: rs_wf_def)
  have "keyed rs'"
    unfolding keyed_def
  proof (intro conjI allI impI)
    fix j r
    assume j: "rs_pending rs' j = Some r"
    show "r < length (rs_requests rs')" "rq_id (rs_requests rs' ! r) = j" "rq_alive (rs_requests rs' ! r)"
      using j keyedD(1-3) [OF k, of j r] by (auto simp: rs' nth_append RpcRequest_def split: if_splits)
  next
    fix r
    assume r: "r < length (rs_requests rs')" "rq_alive (rs_requests rs' ! r)"
    show "rs_pending rs' (rq_id (rs_requests rs' ! r)) = Some r"
    proof (cases "r = ref")
      case True
      then show ?thesis by (simp add: rs' RpcRequest_def)
    next
      case False
      then have "r < length (rs_requests rs)" using r(1) rs' by simp
      then have "rs_pending rs (rq_id (rs_requests rs ! r)) = Some r" using r(2) keyedD(4) [OF k] rs' by (simp add: nth_append)
      then show ?thesis using assms(2) \<open>r < length (rs_requests rs)\<close> by (auto simp: rs' nth_append)
    qed
  qed
  then show "rs_wf rx rs'"
    using assms(1) by (auto simp: rs_wf_def rs' nth_append settled_def RpcRequest_def less_Suc_eq)
qed

lemma rs_wf_counter [simp]:
  "rs_wf rx (rs\<lparr>rs_counter := c\<rparr>) = rs_wf rx rs" "rs_wf rx (rs\<lparr>rs_scene := s\<rparr>) = rs_wf rx rs"
  by (simp_all add: rs_wf_def keyed_def)

lemma rpc_subscribe_cases:
  assumes "rpc_subscribe rx api n w pr ob rs = (r, rs')"
  obtains (refused) e c where "r = Inl e" "rs' = rs\<lparr>rs_counter := c\<rparr>"
  | (stored) i rs2 s c where "r = Inr (length (rs_requests rs))" "rs_pending rs i = None"
      "store_request i (RpcRequest i ob n) (rs\<lparr>rs_counter := i\<rparr>) = (length (rs_requests rs), rs2)"
      "sa_send api n (id_writer i w) pr 3 ''RPC_server'' (rs_scene rs) = (s, c)"
      "rs' = (case s of
          Inl e \<Rightarrow> notify rx api (rx_error rx (RuntimeError ''std::exception'')) (length (rs_requests rs)) (rs2\<lparr>rs_scene := c\<rparr>)
        | Inr _ \<Rightarrow> run_teardown rx api (length (rs_requests rs))
            (upd_rpc (length (rs_requests rs)) (\<lambda>q. q\<lparr>rq_teardown := True\<rparr>) (rs2\<lparr>rs_scene := c\<rparr>)))"
      "rs_alive rs" "fst (reserveId rs) = Inr i"
proof (cases "\<exists>rt v. rs_alive rs \<and> find (\<lambda>r. rt_name r = n) (sa_remoteRoutes api (rs_scene rs)) = Some rt \<and>
    rt_metadata rt pluginName = Some v \<and> v = rpc_version")
  case False
  have "rs = rs\<lparr>rs_counter := rs_counter rs\<rparr>" by simp
  then show ?thesis
    using refused [of _ "rs_counter rs"] False assms
    by (auto simp: rpc_subscribe_def split: if_splits option.splits)
next
  case True
  then obtain rt where g: "rs_alive rs" "find (\<lambda>r. rt_name r = n) (sa_remoteRoutes api (rs_scene rs)) = Some rt"
    "rt_metadata rt pluginName = Some rpc_version" by blast
  obtain r1 rs1 where ri: "reserveId rs = (r1, rs1)" by fastforce
  from ri show ?thesis
  proof (cases rule: reserveId_cases)
    case (full c)
    show ?thesis
      by (rule refused [of "OverflowError ''Unable to create a new RPC request: Too many pending requests.''" c])
        (use full assms g ri in \<open>simp_all add: rpc_subscribe_def\<close>)
  next
    case (found i)
    obtain ref rs2 where st: "store_request i (RpcRequest i ob n) rs1 = (ref, rs2)" by fastforce
    have ref: "ref = length (rs_requests rs)" "rs_scene rs2 = rs_scene rs"
      using st found(3) by (auto simp: store_request_def Let_def)
    obtain s c where se: "sa_send api n (id_writer i w) pr 3 ''RPC_server'' (rs_scene rs) = (s, c)" by fastforce
    show ?thesis
      by (rule stored [of i rs2 s c])
        (use assms g ri found st ref se in \<open>simp_all add: rpc_subscribe_def Let_def\<close>)
  qed
qed

lemma rpc_subscribe_wf [inv_intros]:
  assumes "rs_wf rx rs" "rpc_subscribe rx api n w pr ob rs = (r, rs')"
  shows "rs_wf rx rs'"
  using assms(2)
proof (cases rule: rpc_subscribe_cases)
  case (refused e c)
  then show ?thesis using assms(1) by simp
next
  case (stored i rs2 s c)
  note st = store_request_wf [where rx = rx, OF _ _ stored(3)]
  have wf2: "rs_wf rx rs2" and len: "length (rs_requests rs) < length (rs_requests rs2)"
    using st(1,3) assms(1) stored(2) by simp_all
  show ?thesis
  proof (cases s)
    case (Inl e)
    then show ?thesis using stored(5) notify_wf [of rx "length (rs_requests rs)" "rs2\<lparr>rs_scene := c\<rparr>"] wf2 len
      by (simp add: rs_wf_but)
  next
    case (Inr u)
    have b: "rs_wf_but rx (length (rs_requests rs))
        (upd_rpc (length (rs_requests rs)) (\<lambda>q. q\<lparr>rq_teardown := True\<rparr>) (rs2\<lparr>rs_scene := c\<rparr>))"
      by (rule rs_wf_but_upd) (use wf2 in \<open>simp_all add: rs_wf_but\<close>)
    show ?thesis using run_teardown_wf [OF b, of api] stored(5) Inr len by simp
  qed
qed

lemma getPendingRequest_found:
  assumes "getPendingRequest p rs = (Some ref, p1)" "rs_wf rx rs"
  shows "ref < length (rs_requests rs)" "rs_pending rs (rq_id (rs_requests rs ! ref)) = Some ref"
proof -
  obtain i where i: "rs_pending rs i = Some ref"
    using assms(1) by (auto simp: getPendingRequest_def split: prod.splits)
  have k: "keyed rs" using assms(2) by (simp add: rs_wf_def)
  show "ref < length (rs_requests rs)" "rs_pending rs (rq_id (rs_requests rs ! ref)) = Some ref"
    using keyedD(1,2) [OF k i] i by simp_all
qed

lemma rpc_next_wf [inv_intros]:
  assumes "rs_wf rx rs" shows "rs_wf rx (rpc_next rx api p rs)"
proof -
  obtain r p1 where g: "getPendingRequest p rs = (r, p1)" by fastforce
  show ?thesis
  proof (cases r)
    case None
    then show ?thesis using assms g by (simp add: rpc_next_def)
  next
    case (Some ref)
    have "rs_wf rx (notify rx api (rx_next rx p1) ref rs)"
      by (rule notify_wf) (use assms g Some getPendingRequest_found(1) in \<open>auto simp: rs_wf_but\<close>)
    then have "rs_wf rx (upd_rpc ref (\<lambda>q. q\<lparr>rq_waiting := True\<rparr>) (notify rx api (rx_next rx p1) ref rs))"
      by (rule rs_wf_upd) simp_all
    then show ?thesis using g Some by (simp add: rpc_next_def)
  qed
qed

lemma rpc_error_wf [inv_intros]:
  assumes "rs_wf rx rs" shows "rs_wf rx (snd (rpc_error rx api de p rs))"
proof -
  obtain r p1 where g: "getPendingRequest p rs = (r, p1)" by fastforce
  show ?thesis
  proof (cases r)
    case None
    then show ?thesis using assms g by (simp add: rpc_error_def)
  next
    case (Some ref)
    let ?rs1 = "upd_rpc ref (\<lambda>q. q\<lparr>rq_hasCompleted := True\<rparr>) rs"
    have wf1: "rs_wf rx ?rs1" by (rule rs_wf_upd [OF assms]) simp_all
    have "ref < length (rs_requests ?rs1)" using getPendingRequest_found(1) [of p rs ref p1 rx] assms g Some by simp
    from notify_wf [OF rs_wf_but [OF wf1] this] wf1 show ?thesis
      using g Some by (simp add: rpc_error_def Let_def split: sum.splits)
  qed
qed

lemma rpc_complete_wf [inv_intros]:
  assumes "rs_wf rx rs" shows "rs_wf rx (rpc_complete p rs)"
proof -
  have "rs_wf rx (upd_rpc ref (\<lambda>q. q\<lparr>rq_hasCompleted := True, rq_waiting := rq_waiting q \<or> b = 0,
      rq_continuations := Suc (rq_continuations q)\<rparr>) rs)" for ref and b :: byte
    by (rule rs_wf_upd [OF assms]) simp_all
  then show ?thesis using assms by (simp add: rpc_complete_def split: prod.splits option.splits)
qed

lemma run_continuation_wf [inv_intros]:
  assumes "rs_wf rx rs" "ref < length (rs_requests rs)"
  shows "rs_wf rx (run_continuation rx api ref rs)"
proof -
  let ?rs1 = "upd_rpc ref (\<lambda>q. q\<lparr>rq_continuations := rq_continuations q - 1\<rparr>) rs"
  have wf1: "rs_wf rx ?rs1" by (rule rs_wf_upd [OF assms(1)]) simp_all
  have "ref < length (rs_requests ?rs1)" using assms(2) by simp
  from notify_wf [OF rs_wf_but [OF wf1] this] wf1 show ?thesis
    using assms(1) by (simp add: run_continuation_def Let_def)
qed

lemma rpc_unsubscribe_wf [inv_intros]:
  assumes "rs_wf rx rs" "ref < length (rs_requests rs)"
  shows "rs_wf rx (rpc_unsubscribe rx api ref rs)"
  using assms(1) notify_wf [OF rs_wf_but [OF assms(1)] assms(2)] by (simp add: rpc_unsubscribe_def)

text \<open>The callee's operations leave the caller's side alone.\<close>

definition same_calls :: "('o, 'c) rpc_service \<Rightarrow> ('o, 'c) rpc_service \<Rightarrow> bool" where
  "same_calls rs rs' \<longleftrightarrow> rs_pending rs' = rs_pending rs \<and> rs_requests rs' = rs_requests rs"

lemma same_calls_wf: "same_calls rs rs' \<Longrightarrow> rs_wf rx rs \<Longrightarrow> rs_wf rx rs'"
  by (simp add: same_calls_def rs_wf_def keyed_def)

lemma callee_same_calls:
  "same_calls rs (snd (on_procedure b p rs))" "same_calls rs (snd (sendValue api w pr x rs))"
  "same_calls rs (procedure_done api ser x outcome rs)" "same_calls rs (rpc_cancel p rs)"
  "same_calls rs (snd (sendError api ser msg x rs))"
proof -
  have route: "same_calls rs (snd (context_route_send api n w pr rel rs))" for n w pr rel rs
    by (simp add: context_route_send_def same_calls_def split: prod.splits)
  then have comp: "same_calls rs (snd (sendComplete api x rs))" "same_calls rs (snd (sendError api ser msg x rs))" for x rs msg
    by (simp_all add: sendComplete_def sendError_def Let_def)
  show "same_calls rs (snd (sendError api ser msg x rs))" by (rule comp(2))
  show "same_calls rs (snd (on_procedure b p rs))"
    by (simp add: on_procedure_def same_calls_def Let_def split: prod.splits)
  show "same_calls rs (rpc_cancel p rs)"
    by (simp add: rpc_cancel_def same_calls_def split: prod.splits option.splits)
  show "same_calls rs (snd (sendValue api w pr x rs))"
    using route [of rs nextRouteName "id_writer (rx_id (rs_contexts rs ! x)) w" pr
        "if rx_ordered (rs_contexts rs ! x) then 3 else 2"]
    by (auto simp: sendValue_def Let_def same_calls_def split: prod.splits sum.splits)
  have drop: "same_calls (rs\<lparr>rs_running := m\<rparr>) t \<Longrightarrow> same_calls rs t" for m t
    by (simp add: same_calls_def)
  have trans: "same_calls rs t \<Longrightarrow> same_calls t u \<Longrightarrow> same_calls rs u" for t u
    by (simp add: same_calls_def)
  have refl: "same_calls rs rs" by (simp add: same_calls_def)
  show "same_calls rs (procedure_done api ser x outcome rs)"
  proof (cases outcome)
    case (Inl e)
    then show ?thesis using comp(2) [of rs "what e" x] by (simp add: procedure_done_def Let_def)
  next
    case (Inr u)
    let ?i = "rx_id (rs_contexts rs ! x)"
    obtain r rs1 where c: "sendComplete api x (rs\<lparr>rs_running := (rs_running rs)(?i := None)\<rparr>) = (r, rs1)" by fastforce
    have s1: "same_calls rs rs1" using comp(1) [of "rs\<lparr>rs_running := (rs_running rs)(?i := None)\<rparr>" x] c drop by auto
    have s2: "same_calls rs (snd (sendError api ser (what e) x rs1))" for e
      using trans [OF s1] comp(2) by blast
    show ?thesis
    proof (cases "rs_running rs ?i")
      case None
      then show ?thesis using Inr refl by (simp add: procedure_done_def Let_def)
    next
      case (Some y)
      then show ?thesis using Inr c s1 s2 by (cases r) (simp_all add: procedure_done_def Let_def)
    qed
  qed
qed

section \<open>Cancelling everything\<close>

lemma upd_rpc_fold:
  assumes "distinct refs" "\<forall>ref \<in> set refs. ref < length (rs_requests rs)"
  shows "length (rs_requests (fold (\<lambda>ref. upd_rpc ref f) refs rs)) = length (rs_requests rs) \<and>
    rs_pending (fold (\<lambda>ref. upd_rpc ref f) refs rs) = rs_pending rs \<and>
    rs_running (fold (\<lambda>ref. upd_rpc ref f) refs rs) = rs_running rs \<and>
    rs_canceled (fold (\<lambda>ref. upd_rpc ref f) refs rs) = rs_canceled rs \<and>
    (\<forall>j. rs_requests (fold (\<lambda>ref. upd_rpc ref f) refs rs) ! j =
       (if j \<in> set refs then f (rs_requests rs ! j) else rs_requests rs ! j))"
  using assms
proof (induction refs arbitrary: rs)
  case (Cons r refs)
  have "\<forall>ref \<in> set refs. ref < length (rs_requests (upd_rpc r f rs))" using Cons.prems(2) by simp
  from Cons.IH [OF _ this] Cons.prems
  have IH: "length (rs_requests (fold (\<lambda>ref. upd_rpc ref f) refs (upd_rpc r f rs))) = length (rs_requests rs) \<and>
    rs_pending (fold (\<lambda>ref. upd_rpc ref f) refs (upd_rpc r f rs)) = rs_pending rs \<and>
    rs_running (fold (\<lambda>ref. upd_rpc ref f) refs (upd_rpc r f rs)) = rs_running rs \<and>
    rs_canceled (fold (\<lambda>ref. upd_rpc ref f) refs (upd_rpc r f rs)) = rs_canceled rs \<and>
    (\<forall>j. rs_requests (fold (\<lambda>ref. upd_rpc ref f) refs (upd_rpc r f rs)) ! j =
       (if j \<in> set refs then f (rs_requests (upd_rpc r f rs) ! j) else rs_requests (upd_rpc r f rs) ! j))"
    by simp
  have r: "r < length (rs_requests rs)" "r \<notin> set refs" using Cons.prems by simp_all
  have at: "rs_requests (upd_rpc r f rs) ! j = (if j = r then f (rs_requests rs ! j) else rs_requests rs ! j)" for j
    using r(1) by (cases "j = r") simp_all
  show ?case using IH r(2) by (simp add: at)
qed simp

text \<open>What \<^verbatim>\<open>cancelAll\<close> does to one pending request.\<close>

definition canceled_request :: "'o rx \<Rightarrow> string \<Rightarrow> 'o rpc_request \<Rightarrow> 'o rpc_request" where
  "canceled_request rx reason q =
     (if rq_hasCompleted q then q
      else
        (let ob = rx_error rx (RuntimeError (takeWhile (\<lambda>ch. ch \<noteq> CHR 0x00) reason)) (rq_observer q) in
         q\<lparr>rq_hasCompleted := True, rq_observer := ob,
           rq_teardown := rq_teardown q \<and> (rx_subscribed rx ob \<or> \<not> rq_alive q)\<rparr>))"

lemma upd_rpc_twice [simp]: "upd_rpc r f (upd_rpc r g rs) = upd_rpc r (\<lambda>q. f (g q)) rs"
  by (cases "r < length (rs_requests rs)") (simp_all add: upd_rpc_def list_update_beyond)

lemma upd_rpc_cong: "f (rs_requests rs ! r) = g (rs_requests rs ! r) \<Longrightarrow> upd_rpc r f rs = upd_rpc r g rs"
  by (simp add: upd_rpc_def)

lemma cancel_pending_empty:
  assumes "rs_pending rs = Map.empty" "ref < length (rs_requests rs)"
  shows "cancel_pending rx api reason ref rs = upd_rpc ref (canceled_request rx reason) rs"
proof (cases "rq_hasCompleted (rs_requests rs ! ref)")
  case True
  have "upd_rpc ref (canceled_request rx reason) rs = upd_rpc ref id rs"
    by (rule upd_rpc_cong) (simp add: True canceled_request_def)
  also have "\<dots> = rs" by (simp add: upd_rpc_def)
  finally show ?thesis by (simp add: cancel_pending_def True)
next
  case False
  have none: "rs_pending (upd_rpc ref f rs) i = None" for f i using assms(1) by simp
  show ?thesis
    using False assms(2)
    by (auto simp: cancel_pending_def notify_def run_teardown_def Let_def eraseRequest_def assms(1)
        intro!: upd_rpc_cong simp: canceled_request_def)
qed

lemma cancel_pending_fold:
  assumes "rs_pending rs = Map.empty" "\<forall>ref \<in> set refs. ref < length (rs_requests rs)"
  shows "fold (cancel_pending rx api reason) refs rs = fold (\<lambda>ref. upd_rpc ref (canceled_request rx reason)) refs rs"
  using assms
proof (induction refs arbitrary: rs)
  case (Cons r refs)
  then show ?case by (simp add: cancel_pending_empty)
qed simp

lemma pending_refs:
  assumes "keyed rs" "distinct pending" "set pending = dom (rs_pending rs)"
  shows "distinct (List.map_filter (rs_pending rs) pending)"
    "set (List.map_filter (rs_pending rs) pending) = ran (rs_pending rs)"
    "\<forall>ref \<in> set (List.map_filter (rs_pending rs) pending). ref < length (rs_requests rs)"
proof -
  have "inj_on (\<lambda>i. the (rs_pending rs i)) (dom (rs_pending rs))"
  proof (rule inj_onI)
    fix i j assume "i \<in> dom (rs_pending rs)" "j \<in> dom (rs_pending rs)" "the (rs_pending rs i) = the (rs_pending rs j)"
    then obtain r where "rs_pending rs i = Some r" "rs_pending rs j = Some r" by (auto simp: domIff)
    then show "i = j" using keyedD(2) [OF assms(1)] by metis
  qed
  then show "distinct (List.map_filter (rs_pending rs) pending)"
    using assms(2,3) by (auto simp: List.map_filter_def distinct_map inj_on_def)
  show s: "set (List.map_filter (rs_pending rs) pending) = ran (rs_pending rs)"
    using assms(3) by (auto simp: List.map_filter_def ran_def image_iff) force
  show "\<forall>ref \<in> set (List.map_filter (rs_pending rs) pending). ref < length (rs_requests rs)"
    unfolding s using keyedD(1) [OF assms(1)] by (auto simp: ran_def)
qed

lemma cancelAll_effect:
  fixes rx :: "'o rx" and api :: "'c scene_api" and running pending :: "u16 list" and reason :: string
    and rs :: "('o, 'c) rpc_service"
  assumes "keyed rs" "distinct pending" "set pending = dom (rs_pending rs)"
  defines "rs' \<equiv> cancelAll rx api running pending reason rs"
  shows "length (rs_requests rs') = length (rs_requests rs)" "rs_pending rs' = Map.empty"
    "rs_running rs' = Map.empty"
    "rs_canceled rs' = rev (List.map_filter (rs_running rs) running) @ rs_canceled rs"
    "rs_pending rs i = Some ref \<Longrightarrow> rs_requests rs' ! ref =
       RpcRequest_destructor rx (canceled_request rx reason (rs_requests rs ! ref))"
    "ref \<notin> ran (rs_pending rs) \<Longrightarrow> rs_requests rs' ! ref = rs_requests rs ! ref"
proof -
  let ?refs = "List.map_filter (rs_pending rs) pending"
  let ?rs1 = "rs\<lparr>rs_canceled := rev (List.map_filter (rs_running rs) running) @ rs_canceled rs,
                   rs_running := Map.empty, rs_pending := Map.empty\<rparr>"
  let ?rs2 = "fold (\<lambda>ref. upd_rpc ref (canceled_request rx reason)) ?refs ?rs1"
  note r = pending_refs [OF assms(1-3)]
  have l1: "\<forall>ref \<in> set ?refs. ref < length (rs_requests ?rs1)" using r(3) by simp
  note f1 = upd_rpc_fold [OF r(1) l1, of "canceled_request rx reason"]
  then have l2: "\<forall>ref \<in> set ?refs. ref < length (rs_requests ?rs2)" using r(3) by simp
  note f2 = upd_rpc_fold [OF r(1) l2, of "RpcRequest_destructor rx"]
  have rs': "rs' = fold (\<lambda>ref. upd_rpc ref (RpcRequest_destructor rx)) ?refs ?rs2"
    unfolding rs'_def cancelAll_def Let_def using cancel_pending_fold [OF _ l1, of rx api reason] by simp
  show "length (rs_requests rs') = length (rs_requests rs)" "rs_pending rs' = Map.empty"
    "rs_running rs' = Map.empty"
    "rs_canceled rs' = rev (List.map_filter (rs_running rs) running) @ rs_canceled rs"
    using f1 f2 unfolding rs' by simp_all
  show "rs_requests rs' ! ref = RpcRequest_destructor rx (canceled_request rx reason (rs_requests rs ! ref))"
    if "rs_pending rs i = Some ref"
    using f1 f2 that r(2) unfolding rs' by (auto simp: ran_def)
  show "rs_requests rs' ! ref = rs_requests rs ! ref" if "ref \<notin> ran (rs_pending rs)"
    using f1 f2 that r(2) unfolding rs' by auto
qed

lemma cancelAll_dead:
  assumes "rs_wf rx rs" "distinct pending" "set pending = dom (rs_pending rs)" "ref < length (rs_requests rs)"
  shows "\<not> rq_alive (rs_requests (cancelAll rx api running pending reason rs) ! ref)"
proof -
  have k: "keyed rs" using assms(1) by (simp add: rs_wf_def)
  note c = cancelAll_effect [OF k assms(2,3), where rx = rx and api = api and running = running and reason = reason]
  show ?thesis
  proof (cases "ref \<in> ran (rs_pending rs)")
    case True
    then show ?thesis using c(5) by (auto simp: ran_def)
  next
    case False
    then show ?thesis using c(6) [OF False] keyedD(4) [OF k assms(4)] by (auto simp: ran_def)
  qed
qed

lemma cancelAll_wf [inv_intros]:
  assumes "rs_wf rx rs" "distinct pending" "set pending = dom (rs_pending rs)"
  shows "rs_wf rx (cancelAll rx api running pending reason rs)"
  using cancelAll_dead [OF assms] cancelAll_effect(1,2) [OF _ assms(2,3), of rx api] assms(1)
  by (simp add: rs_wf_def keyed_def settled_def)

section \<open>Which requests keep their teardown\<close>

text \<open>
  An operation may end the life of a request, but a request that lives on keeps the function
  added to its subscriber: only its run removes it, and that run erases the request.
\<close>

definition calls_keep :: "('o, 'c) rpc_service \<Rightarrow> ('o, 'c) rpc_service \<Rightarrow> bool" where
  "calls_keep rs rs' \<longleftrightarrow> length (rs_requests rs') = length (rs_requests rs) \<and>
     (\<forall>ref < length (rs_requests rs). rq_alive (rs_requests rs' ! ref) \<longrightarrow>
        rq_alive (rs_requests rs ! ref) \<and> rq_teardown (rs_requests rs' ! ref) = rq_teardown (rs_requests rs ! ref))"

lemma calls_keeps_refl [simp]: "calls_keep rs rs"
  by (simp add: calls_keep_def)

lemma calls_keeps_trans: "calls_keep rs rs1 \<Longrightarrow> calls_keep rs1 rs2 \<Longrightarrow> calls_keep rs rs2"
  by (simp add: calls_keep_def)

lemma calls_keeps_upd [intro]:
  assumes "\<And>q. rq_alive (f q) \<Longrightarrow> rq_alive q" "\<And>q. rq_teardown (f q) = rq_teardown q"
  shows "calls_keep rs (upd_rpc r f rs)"
proof -
  have "rq_alive (rs_requests (upd_rpc r f rs) ! j) \<longrightarrow> rq_alive (rs_requests rs ! j) \<and>
      rq_teardown (rs_requests (upd_rpc r f rs) ! j) = rq_teardown (rs_requests rs ! j)"
    if "j < length (rs_requests rs)" for j
    using assms that by (cases "j = r") auto
  then show ?thesis by (simp add: calls_keep_def)
qed

lemma calls_keeps_same: "same_calls rs rs' \<Longrightarrow> calls_keep rs rs'"
  by (simp add: calls_keep_def same_calls_def)

lemma run_teardown_keeps:
  assumes "keyed rs" "r < length (rs_requests rs)"
  shows "calls_keep rs (run_teardown rx api r rs)"
proof (cases "rx_subscribed rx (rq_observer (rs_requests rs ! r)) \<or> \<not> rq_teardown (rs_requests rs ! r) \<or>
    \<not> rq_alive (rs_requests rs ! r)")
  case True
  then have "run_teardown rx api r rs = rs" by (auto simp: run_teardown_def Let_def)
  then show ?thesis by simp
next
  case False
  then have p: "rs_pending rs (rq_id (rs_requests rs ! r)) = Some r" using keyedD(4) [OF assms] by simp
  let ?f = "\<lambda>q. RpcRequest_destructor rx (q\<lparr>rq_teardown := False\<rparr>)"
  have q: "rs_requests (run_teardown rx api r rs) = rs_requests (upd_rpc r ?f rs)"
    using False assms p by (auto simp: run_teardown_def Let_def eraseRequest_def upd_rpc_def)
  have "rq_alive (rs_requests (upd_rpc r ?f rs) ! j) \<longrightarrow> rq_alive (rs_requests rs ! j) \<and>
      rq_teardown (rs_requests (upd_rpc r ?f rs) ! j) = rq_teardown (rs_requests rs ! j)"
    if "j < length (rs_requests rs)" for j
    using that by (cases "j = r") simp_all
  then show ?thesis by (simp add: calls_keep_def q)
qed

lemma notify_keeps:
  assumes "keyed rs" "r < length (rs_requests rs)"
  shows "calls_keep rs (notify rx api f r rs)"
proof -
  let ?rs1 = "upd_rpc r (\<lambda>q. q\<lparr>rq_observer := f (rq_observer q)\<rparr>) rs"
  have "keyed ?rs1" by (rule keyed_upd [OF assms(1)]) simp_all
  then have "calls_keep ?rs1 (run_teardown rx api r ?rs1)" by (rule run_teardown_keeps) (use assms(2) in simp)
  moreover have "calls_keep rs ?rs1" by (rule calls_keeps_upd) simp_all
  ultimately show ?thesis unfolding notify_def using calls_keeps_trans by blast
qed

lemma rpc_message_keeps:
  assumes "rs_wf rx rs"
  shows "calls_keep rs (rpc_message rx api de r p rs)"
proof -
  have k: "keyed rs" using assms by (simp add: rs_wf_def)
  note found = getPendingRequest_found(1) [OF _ assms]
  have kw: "calls_keep rs (upd_rpc ref (\<lambda>q. q\<lparr>rq_waiting := True\<rparr>) rs1)" if "calls_keep rs rs1" for ref rs1
    by (rule calls_keeps_trans [OF that calls_keeps_upd]) simp_all
  have kc: "calls_keep rs (upd_rpc ref (\<lambda>q. q\<lparr>rq_hasCompleted := True\<rparr>) rs)"
    "keyed (upd_rpc ref (\<lambda>q. q\<lparr>rq_hasCompleted := True\<rparr>) rs)" for ref
    by (rule calls_keeps_upd; simp) (rule keyed_upd [OF k]; simp)
  have kd: "calls_keep rs (upd_rpc ref (\<lambda>q. q\<lparr>rq_hasCompleted := True, rq_waiting := rq_waiting q \<or> b = 0,
      rq_continuations := Suc (rq_continuations q)\<rparr>) rs)" for ref and b :: byte
    by (rule calls_keeps_upd) simp_all
  have "calls_keep rs (rpc_next rx api p rs)"
    using notify_keeps [OF k] found kw by (simp add: rpc_next_def split: prod.splits option.splits)
  moreover have "calls_keep rs (snd (rpc_error rx api de p rs))"
  proof -
    have n: "calls_keep rs (notify rx api f ref (upd_rpc ref (\<lambda>q. q\<lparr>rq_hasCompleted := True\<rparr>) rs))"
      if "ref < length (rs_requests rs)" for f ref
      by (rule calls_keeps_trans [OF kc(1) notify_keeps [OF kc(2)]]) (use that in simp)
    show ?thesis
      using n found kc(1) by (auto simp: rpc_error_def Let_def split: prod.splits option.splits sum.splits)
  qed
  moreover have "calls_keep rs (rpc_complete p rs)"
    using kd by (simp add: rpc_complete_def split: prod.splits option.splits)
  moreover have "calls_keep rs (rpc_cancel p rs)" by (rule calls_keeps_same [OF callee_same_calls(4)])
  ultimately show ?thesis by (cases r) (simp_all add: rpc_message_def)
qed

lemma run_continuation_keeps:
  assumes "rs_wf rx rs" "ref < length (rs_requests rs)"
  shows "calls_keep rs (run_continuation rx api ref rs)"
proof -
  let ?rs1 = "upd_rpc ref (\<lambda>q. q\<lparr>rq_continuations := rq_continuations q - 1\<rparr>) rs"
  have k1: "keyed ?rs1" by (rule keyed_upd) (use assms(1) in \<open>simp_all add: rs_wf_def\<close>)
  have "calls_keep rs ?rs1" by (rule calls_keeps_upd) simp_all
  with notify_keeps [OF k1] calls_keeps_trans show ?thesis
    using assms(2) by (simp add: run_continuation_def Let_def) blast
qed

lemma rpc_unsubscribe_keeps:
  assumes "rs_wf rx rs" "ref < length (rs_requests rs)"
  shows "calls_keep rs (rpc_unsubscribe rx api ref rs)"
  using notify_keeps [OF _ assms(2)] assms(1) by (simp add: rpc_unsubscribe_def rs_wf_def)

lemma cancelAll_keeps:
  assumes "rs_wf rx rs" "distinct pending" "set pending = dom (rs_pending rs)"
  shows "calls_keep rs (cancelAll rx api running pending reason rs)"
  using cancelAll_dead [OF assms] cancelAll_effect(1) [OF _ assms(2,3), of rx api] assms(1)
  by (simp add: calls_keep_def rs_wf_def)

section \<open>Reachable services\<close>

text \<open>
  The counter of ids is a static variable that all services share: other services may move it
  at any time, as the scene may change state or be destroyed. Beside the service the relation
  keeps the set of the requests whose message could not be sent: \<^verbatim>\<open>call_lost\<close> says whether
  the scene's \<^verbatim>\<open>send\<close> throws for the id a call reserves.
\<close>

definition call_lost ::
  "'c scene_api \<Rightarrow> string \<Rightarrow> writer \<Rightarrow> nat \<Rightarrow> nat res \<Rightarrow> ('o, 'c) rpc_service \<Rightarrow> nat set" where
  "call_lost api n w pr r rs =
     (case (r, fst (reserveId rs)) of
        (Inr ref, Inr i) \<Rightarrow>
          (if isl (fst (sa_send api n (id_writer i w) pr 3 ''RPC_server'' (rs_scene rs))) then {ref} else {})
      | _ \<Rightarrow> {})"

inductive rpc_reach :: "'o rx \<Rightarrow> nat set \<Rightarrow> ('o, 'c) rpc_service \<Rightarrow> bool" for rx where
  new: "rpc_reach rx {} (RpcService c)"
| call: "rpc_reach rx lost rs \<Longrightarrow> rpc_subscribe rx api n w pr ob rs = (r, rs') \<Longrightarrow>
    rpc_reach rx (lost \<union> call_lost api n w pr r rs) rs'"
| unsubscribe: "rpc_reach rx lost rs \<Longrightarrow> ref < length (rs_requests rs) \<Longrightarrow>
    rpc_reach rx lost (rpc_unsubscribe rx api ref rs)"
| message: "rpc_reach rx lost rs \<Longrightarrow> rpc_reach rx lost (rpc_message rx api de r p rs)"
| continuation: "rpc_reach rx lost rs \<Longrightarrow> ref < length (rs_requests rs) \<Longrightarrow>
    rpc_reach rx lost (run_continuation rx api ref rs)"
| cancel_all: "rpc_reach rx lost rs \<Longrightarrow> distinct pending \<Longrightarrow> set pending = dom (rs_pending rs) \<Longrightarrow>
    rpc_reach rx lost (cancelAll rx api running pending reason rs)"
| procedure: "rpc_reach rx lost rs \<Longrightarrow> rpc_reach rx lost (snd (on_procedure b p rs))"
| answer: "rpc_reach rx lost rs \<Longrightarrow> rpc_reach rx lost (snd (sendValue api w pr x rs))"
| finished: "rpc_reach rx lost rs \<Longrightarrow> rpc_reach rx lost (procedure_done api ser x outcome rs)"
| scene: "rpc_reach rx lost rs \<Longrightarrow> rpc_reach rx lost (rs\<lparr>rs_scene := c, rs_alive := b, rs_counter := i\<rparr>)"

lemma rpc_reach_wf: "rpc_reach rx lost rs \<Longrightarrow> rs_wf rx rs"
proof (induction rule: rpc_reach.induct)
  case (new c)
  then show ?case by (simp add: RpcService_def rs_wf_def keyed_def)
next
  case (call lost rs api n w pr ob r rs')
  show ?case by (rule rpc_subscribe_wf [OF call.IH call.hyps(2)])
next
  case (message lost rs api de r p)
  then show ?case
    using same_calls_wf [OF callee_same_calls(4)] by (cases r) (simp_all add: rpc_message_def inv_intros)
next
  case (procedure lost rs b p)
  then show ?case using same_calls_wf [OF callee_same_calls(1)] by blast
next
  case (answer lost rs api w pr x)
  then show ?case using same_calls_wf [OF callee_same_calls(2)] by blast
next
  case (finished lost rs api ser x outcome)
  then show ?case using same_calls_wf [OF callee_same_calls(3)] by blast
next
  case (scene lost rs c b i)
  then show ?case by (simp add: rs_wf_def keyed_def)
qed (simp_all add: inv_intros)

text \<open>A living request whose message went out still has its teardown.\<close>

definition armed :: "nat set \<Rightarrow> ('o, 'c) rpc_service \<Rightarrow> bool" where
  "armed lost rs \<longleftrightarrow> (\<forall>ref < length (rs_requests rs). ref \<notin> lost \<longrightarrow> rq_alive (rs_requests rs ! ref) \<longrightarrow>
     rq_teardown (rs_requests rs ! ref))"

lemma armed_keeps: "armed lost rs \<Longrightarrow> calls_keep rs rs' \<Longrightarrow> armed lost rs'"
  by (simp add: armed_def calls_keep_def)

lemma rpc_subscribe_armed:
  assumes "rs_wf rx rs" "armed lost rs" "rpc_subscribe rx api n w pr ob rs = (r, rs')"
  shows "armed (lost \<union> call_lost api n w pr r rs) rs'"
  using assms(3)
proof (cases rule: rpc_subscribe_cases)
  case (refused e c)
  then show ?thesis using assms(2) by (simp add: armed_def)
next
  case (stored i rs2 s c)
  let ?ref = "length (rs_requests rs)"
  note st = store_request_wf [where rx = rx, OF _ _ stored(3)]
  have wf2: "rs_wf rx rs2" "length (rs_requests rs2) = Suc ?ref"
    using st(1,3) assms(1) stored(2) by simp_all
  have old: "rs_requests rs2 ! j = rs_requests rs ! j" if "j < ?ref" for j
    using stored(2,3) that by (auto simp: store_request_def Let_def nth_append)
  have rq: "rs_requests rs2 ! ?ref = RpcRequest i ob n" using st(4) assms(1) stored(2) by simp
  show ?thesis
  proof (cases s)
    case (Inl e)
    have lost: "call_lost api n w pr r rs = {?ref}" using stored(1,4,7) Inl by (simp add: call_lost_def)
    have "armed (insert ?ref lost) (rs2\<lparr>rs_scene := c\<rparr>)"
      using assms(2) old wf2(2) by (auto simp: armed_def less_Suc_eq)
    moreover have "calls_keep (rs2\<lparr>rs_scene := c\<rparr>) rs'"
      using stored(5) Inl notify_keeps [of "rs2\<lparr>rs_scene := c\<rparr>" ?ref] wf2 by (simp add: rs_wf_def)
    ultimately show ?thesis using lost armed_keeps by simp
  next
    case (Inr u)
    have lost: "call_lost api n w pr r rs = {}" using stored(1,4,7) Inr by (simp add: call_lost_def)
    let ?rs3 = "upd_rpc ?ref (\<lambda>q. q\<lparr>rq_teardown := True\<rparr>) (rs2\<lparr>rs_scene := c\<rparr>)"
    have "keyed ?rs3" by (rule keyed_upd) (use wf2 in \<open>simp_all add: rs_wf_def\<close>)
    then have "calls_keep ?rs3 rs'" using stored(5) Inr run_teardown_keeps [of ?rs3 ?ref] wf2(2) by simp
    moreover have "armed lost ?rs3"
      using assms(2) old wf2(2) by (auto simp: armed_def less_Suc_eq)
    ultimately show ?thesis using lost armed_keeps by simp
  qed
qed

lemma rpc_reach_armed: "rpc_reach rx lost rs \<Longrightarrow> armed lost rs"
proof (induction rule: rpc_reach.induct)
  case (new c)
  then show ?case by (simp add: RpcService_def armed_def)
next
  case (call lost rs api n w pr ob r rs')
  show ?case by (rule rpc_subscribe_armed [OF rpc_reach_wf [OF call.hyps(1)] call.IH call.hyps(2)])
next
  case (unsubscribe lost rs ref api)
  then show ?case using rpc_unsubscribe_keeps [OF rpc_reach_wf] armed_keeps by blast
next
  case (message lost rs api de r p)
  then show ?case using rpc_message_keeps [OF rpc_reach_wf] armed_keeps by blast
next
  case (continuation lost rs ref api)
  then show ?case using run_continuation_keeps [OF rpc_reach_wf] armed_keeps by blast
next
  case (cancel_all lost rs pending api running reason)
  then show ?case using cancelAll_keeps [OF rpc_reach_wf] armed_keeps by blast
next
  case (procedure lost rs b p)
  then show ?case using calls_keeps_same [OF callee_same_calls(1)] armed_keeps by blast
next
  case (answer lost rs api w pr x)
  then show ?case using calls_keeps_same [OF callee_same_calls(2)] armed_keeps by blast
next
  case (finished lost rs api ser x outcome)
  then show ?case using calls_keeps_same [OF callee_same_calls(3)] armed_keeps by blast
next
  case (scene lost rs c b i)
  then show ?case by (simp add: armed_def)
qed

text \<open>
  Property C11. In every reachable state of the service the pending requests are exactly the
  request objects that exist, each in the map under its own id and under no other; and every
  pending request whose message went out has a subscriber that is still subscribed: as soon as
  it has got an error or the completion, or its task was cancelled, its id is free again. The
  set \<^term>\<open>lost\<close> holds the requests whose message could not be sent; they stay in the map.
\<close>

theorem rpc_pending_live:
  assumes "rpc_reach rx lost rs"
  shows "(\<forall>i ref. rs_pending rs i = Some ref \<longrightarrow> ref < length (rs_requests rs) \<and>
      rq_id (rs_requests rs ! ref) = i \<and> rq_alive (rs_requests rs ! ref) \<and>
      (ref \<notin> lost \<longrightarrow> rx_subscribed rx (rq_observer (rs_requests rs ! ref)))) \<and>
    (\<forall>ref < length (rs_requests rs). rq_alive (rs_requests rs ! ref) \<longrightarrow>
      rs_pending rs (rq_id (rs_requests rs ! ref)) = Some ref)"
proof -
  have k: "keyed rs" "\<And>ref. ref < length (rs_requests rs) \<Longrightarrow> settled rx (rs_requests rs ! ref)"
    using rpc_reach_wf [OF assms] by (simp_all add: rs_wf_def)
  show ?thesis
    using keyedD [OF k(1)] k(2) rpc_reach_armed [OF assms] unfolding armed_def settled_def by metis
qed

section \<open>Calls and answers\<close>

lemma id_writer_writes: "writes w xs \<Longrightarrow> writes (id_writer i w) (word_bytes i @ xs)"
  unfolding writes_def
proof (intro allI impI)
  fix s
  assume w: "\<forall>s. ostr_wf s \<longrightarrow> ogood s \<longrightarrow> length (out_data s) + length xs < 1073741824 \<longrightarrow>
      (\<exists>s'. run_writer w s = Inr s' \<and> ostr_wf s' \<and> ogood s' \<and> out_data s' = out_data s @ xs)"
    and s: "ostr_wf s" "ogood s" "length (out_data s) + length (word_bytes i @ xs) < 1073741824"
  have "length (out_data s) + LENGTH(16) div 8 < 1073741824" using s(3) by simp
  note s1 = serialize_data [OF s(1,2) this, of i]
  have "length (out_data (serialize i s)) + length xs < 1073741824" using s1(3) s(3) by simp
  then show "\<exists>s'. run_writer (id_writer i w) s = Inr s' \<and> ostr_wf s' \<and> ogood s' \<and>
      out_data s' = out_data s @ word_bytes i @ xs"
    using w s1 by (fastforce simp: id_writer_def run_writer_def [of "Some _"])
qed

lemma rpc_read_id:
  assumes "p_ok p" "p_rest p = word_bytes (i :: u16) @ xs"
  obtains p1 where "p_read (0 :: u16) p = (i, p1)" "p_ok p1" "p_rest p1 = xs"
  using p_read_word [OF assms, of 0] by auto

text \<open>
  A call reaches the procedure: when the call's message goes out it is the
  address of the route, the id of the new pending request and the arguments; and a service
  that receives these bytes after the address, with no request of that id running, calls the
  user's function on a context with that id whose input is exactly the arguments.
\<close>

theorem rpc_call_reaches_procedure:
  assumes "rx_subscribed rx ob" "sa_send api = host_send env" "host_ok env (rs_scene rs)"
    and "writes w args" "length args < 900000"
    and "rpc_subscribe rx api n w pr ob rs = (Inr ref, rs')" "rq_teardown (rs_requests rs' ! ref)"
  shows "\<exists>i. rs_pending rs i = None \<and> rs_pending rs' = (rs_pending rs)(i \<mapsto> ref) \<and>
    rs_requests rs' ! ref = (RpcRequest i ob n)\<lparr>rq_teardown := True\<rparr> \<and>
    host_sent (rs_scene rs') = host_sent (rs_scene rs) @ [host_addr n (rs_scene rs) @ word_bytes i @ args] \<and>
    (\<forall>p (srv :: ('o, 'c) rpc_service). p_ok p \<longrightarrow> p_rest p = word_bytes i @ args \<longrightarrow> rs_running srv i = None \<longrightarrow>
      (\<exists>p1. on_procedure b p srv = (Some (length (rs_contexts srv)),
          srv\<lparr>rs_contexts := rs_contexts srv @ [\<lparr>rx_id = i, rx_ordered = b, rx_msgSent = False, rx_input = p1\<rparr>],
              rs_running := (rs_running srv)(i \<mapsto> length (rs_contexts srv))\<rparr>) \<and> p_rest p1 = args))"
  using assms(6)
proof (cases rule: rpc_subscribe_cases)
  case (stored i rs2 s c)
  have ref: "ref = length (rs_requests rs)" using stored(1) by simp
  have st: "rs2 = rs\<lparr>rs_counter := i, rs_requests := rs_requests rs @ [RpcRequest i ob n],
      rs_pending := (rs_pending rs)(i \<mapsto> ref)\<rparr>"
    using stored(2,3) ref by (auto simp: store_request_def Let_def)
  have s: "s = Inr ()"
  proof (cases s)
    case (Inl e)
    have "rs' = upd_rpc ref (\<lambda>q. q\<lparr>rq_observer := rx_error rx (RuntimeError ''std::exception'') (rq_observer q)\<rparr>)
        (rs2\<lparr>rs_scene := c\<rparr>)"
      using stored(5) Inl by (simp add: ref notify_def run_teardown_def Let_def st RpcRequest_def upd_rpc_def)
    then show ?thesis using assms(7) by (simp add: st ref RpcRequest_def)
  qed simp
  have rs': "rs' = upd_rpc ref (\<lambda>q. q\<lparr>rq_teardown := True\<rparr>) (rs2\<lparr>rs_scene := c\<rparr>)"
    using stored(5) s assms(1) by (simp add: ref run_teardown_def Let_def st RpcRequest_def upd_rpc_def)
  have len: "length (word_bytes i @ args) < 1000000" using assms(5) by simp
  have snd': "host_sent c = host_sent (rs_scene rs) @ [host_addr n (rs_scene rs) @ word_bytes i @ args]"
    using host.send_ok [OF assms(3) _ id_writer_writes [OF assms(4)] len] stored(4) s assms(2) by metis
  have callee: "\<exists>p1. on_procedure b p srv = (Some (length (rs_contexts srv)),
          srv\<lparr>rs_contexts := rs_contexts srv @ [\<lparr>rx_id = i, rx_ordered = b, rx_msgSent = False, rx_input = p1\<rparr>],
              rs_running := (rs_running srv)(i \<mapsto> length (rs_contexts srv))\<rparr>) \<and> p_rest p1 = args"
    if p: "p_ok p" "p_rest p = word_bytes i @ args" and free: "rs_running srv i = None"
    for p and srv :: "('o, 'c) rpc_service"
  proof -
    obtain p1 where "p_read (0 :: u16) p = (i, p1)" "p_rest p1 = args" using rpc_read_id [OF p] by metis
    then show ?thesis using free by (intro exI [of _ p1]) (simp add: on_procedure_def Let_def)
  qed
  show ?thesis
    using stored(2) snd' callee by (intro exI [of _ i]) (simp add: rs' st ref)
qed simp

lemma getPendingRequest_id:
  assumes "p_ok p" "p_rest p = word_bytes i @ xs"
  obtains p1 where "getPendingRequest p rs = (rs_pending rs i, p1)" "p_rest p1 = xs"
proof -
  obtain p1 where "p_read (0 :: u16) p = (i, p1)" "p_rest p1 = xs" using rpc_read_id [OF assms] by metis
  then show ?thesis by (intro that [of p1]) (simp_all add: getPendingRequest_def)
qed

text \<open>
  A value the procedure sends reaches the caller it is meant for: its message is
  the address of the route of values, the id of the context's request and the value; and a
  caller that receives these bytes after the address hands exactly the value to the
  subscriber of its pending request with that id, once, and leaves every other request alone.
\<close>

theorem rpc_value_reaches_caller:
  assumes "sa_send api = host_send env" "host_ok env (rs_scene srv)" "writes w v" "length v < 900000"
    and "x < length (rs_contexts srv)" "rx_id (rs_contexts srv ! x) = i"
    and "sendValue api w pr x srv = (Inr (), srv')"
    and "rx_contract rx log" "rs_wf rx rs" "rs_pending rs i = Some ref"
    and "rx_subscribed rx (rq_observer (rs_requests rs ! ref))" "p_ok p" "p_rest p = word_bytes i @ v"
  shows "host_sent (rs_scene srv') = host_sent (rs_scene srv) @
      [host_addr nextRouteName (rs_scene srv) @ word_bytes i @ v] \<and>
    rx_msgSent (rs_contexts srv' ! x) \<and>
    (\<exists>p1. p_rest p1 = v \<and>
      log (rq_observer (rs_requests (rpc_next rx api' p rs) ! ref)) = log (rq_observer (rs_requests rs ! ref)) @ [Next p1]) \<and>
    (\<forall>j. j \<noteq> ref \<longrightarrow> rs_requests (rpc_next rx api' p rs) ! j = rs_requests rs ! j) \<and>
    rs_pending (rpc_next rx api' p rs) = rs_pending rs"
proof -
  have ref: "ref < length (rs_requests rs)" using assms(9,10) keyedD(1) unfolding rs_wf_def by blast
  obtain r c where s: "sa_send api nextRouteName (id_writer i w) pr (if rx_ordered (rs_contexts srv ! x) then 3 else 2)
      ''RPC_client'' (rs_scene srv) = (r, c)" by (metis surjective_pairing)
  have al: "rs_alive srv" and r: "r = Inr ()" and srv': "rs_scene srv' = c" "rx_msgSent (rs_contexts srv' ! x)"
    using assms(5-7) s by (auto simp: sendValue_def context_route_send_def Let_def split: if_splits sum.splits)
  have len: "length (word_bytes i @ v) < 1000000" using assms(4) by simp
  have sent: "host_sent c = host_sent (rs_scene srv) @ [host_addr nextRouteName (rs_scene srv) @ word_bytes i @ v]"
    using host.send_ok [OF assms(2) _ id_writer_writes [OF assms(3)] len] s r assms(1) by metis
  obtain p1 where g: "getPendingRequest p rs = (Some ref, p1)" "p_rest p1 = v"
    using getPendingRequest_id [OF assms(12,13), of rs] assms(10) by metis
  note rx = rx_contractD [OF assms(8)]
  have n: "notify rx api' (rx_next rx p1) ref rs =
      upd_rpc ref (\<lambda>q. q\<lparr>rq_observer := rx_next rx p1 (rq_observer q)\<rparr>) rs"
    using rx(2) [OF assms(11)] ref by (simp add: notify_def run_teardown_def Let_def)
  have res: "rpc_next rx api' p rs =
      upd_rpc ref (\<lambda>q. q\<lparr>rq_observer := rx_next rx p1 (rq_observer q), rq_waiting := True\<rparr>) rs"
    using g by (simp add: rpc_next_def n)
  show ?thesis using sent srv' g(2) ref rx(1) [OF assms(11)] by (simp add: res)
qed

end
