(* ===== verification/RpcCalls.thy ===== *)
theory RpcCalls
  imports RpcCore
begin

text \<open>
  What a remote call promises, end to end, over the operations of RpcCore: how a call ends on
  the caller's side (values, completion, error, cancellation), what stays behind when sending
  or the procedure fails, and the same statements at concrete services.
\<close>

section \<open>How a call ends\<close>

lemma rpc_next_live:
  assumes "rx_contract rx log" "getPendingRequest p rs = (Some ref, p1)" "ref < length (rs_requests rs)"
    "rx_subscribed rx (rq_observer (rs_requests rs ! ref))"
  shows "rpc_next rx api p rs =
    upd_rpc ref (\<lambda>q. q\<lparr>rq_observer := rx_next rx p1 (rq_observer q), rq_waiting := True\<rparr>) rs"
  using assms(2,3) rx_contractD(2) [OF assms(1,4)]
  by (simp add: rpc_next_def notify_def run_teardown_def Let_def)

lemma rpc_complete_live:
  assumes "p_ok p" "p_rest p = word_bytes (b :: byte) @ word_bytes i" "rs_pending rs i = Some ref"
  shows "rpc_complete p rs =
    upd_rpc ref (\<lambda>q. q\<lparr>rq_hasCompleted := True, rq_waiting := rq_waiting q \<or> b = 0,
      rq_continuations := Suc (rq_continuations q)\<rparr>) rs"
proof -
  obtain p1 where p1: "p_read (0 :: byte) p = (b, p1)" "p_ok p1" "p_rest p1 = word_bytes i @ []"
    using read_byte [OF assms(1,2)] by (metis append_Nil2)
  obtain p2 where "getPendingRequest p1 rs = (rs_pending rs i, p2)"
    using getPendingRequest_id [OF p1(2,3), of rs] by metis
  then show ?thesis using p1(1) assms(3) by (simp add: rpc_complete_def)
qed

lemma read_id_pending:
  assumes "p_ok p" "p_rest p = word_bytes i @ xs"
  obtains p1 where "\<And>s :: ('o, 'c) rpc_service. getPendingRequest p s = (rs_pending s i, p1)" "p_rest p1 = xs"
proof -
  obtain p1 where "p_read (0 :: u16) p = (i, p1)" "p_rest p1 = xs" using rpc_read_id [OF assms] by metis
  then show ?thesis by (intro that [of p1]) (simp_all add: getPendingRequest_def)
qed

text \<open>
  Property C12. The order in which a value and the completion of a call arrive does not matter.
  Messages can overtake each other; a completion that says that a value was sent waits for
  it. Whichever comes first, the service ends in the same state: the subscriber has got the
  value, then the completion, the id is free again and the destroyed request adds nothing; a
  task that waits for a value is done with it, a task without result is done.
\<close>

theorem rpc_completion_waits:
  assumes "rx_contract rx log" "ref < length (rs_requests rs)" "rs_pending rs i = Some ref"
    and "rs_requests rs ! ref = (RpcRequest i ob n)\<lparr>rq_teardown := True\<rparr>" "rx_subscribed rx ob" "log ob = []"
    and "p_ok p" "p_rest p = word_bytes i @ v" "p_ok q" "p_rest q = word_bytes (b :: byte) @ word_bytes i" "b \<noteq> 0"
  shows "let value_first = run_continuation rx api ref (rpc_complete q (rpc_next rx api p rs));
      completion_first = run_continuation rx api ref (rpc_next rx api p (run_continuation rx api ref (rpc_complete q rs)));
      notified = log (rq_observer (rs_requests value_first ! ref))
    in completion_first = value_first \<and> rs_pending value_first = (rs_pending rs)(i := None) \<and>
      rs_scene value_first = rs_scene rs \<and>
      (\<exists>p1. p_rest p1 = v \<and> notified = [Next p1, Completed] \<and> rpc_value_task de notified Pending = Done (de p1)) \<and>
      rpc_void_task notified Pending = Done ()"
proof -
  note rx = rx_contractD [OF assms(1)]
  let ?vf = "run_continuation rx api ref (rpc_complete q (rpc_next rx api p rs))"
  let ?cf = "run_continuation rx api ref (rpc_next rx api p (run_continuation rx api ref (rpc_complete q rs)))"
  let ?done = "\<lambda>q :: 'a rpc_request. q\<lparr>rq_hasCompleted := True, rq_waiting := rq_waiting q \<or> b = 0,
      rq_continuations := Suc (rq_continuations q)\<rparr>"
  obtain p1 where g: "getPendingRequest p s = (rs_pending s i, p1)" "p_rest p1 = v" for s :: "('a, 'b) rpc_service"
    using read_id_pending assms(7,8) by metis
  let ?next = "\<lambda>q :: 'a rpc_request. q\<lparr>rq_observer := rx_next rx p1 (rq_observer q), rq_waiting := True\<rparr>"
  have nx: "rpc_next rx api p s = upd_rpc ref ?next s"
    if "rs_pending s i = Some ref" "ref < length (rs_requests s)" "rx_subscribed rx (rq_observer (rs_requests s ! ref))"
    for s :: "('a, 'b) rpc_service"
    using rpc_next_live [OF assms(1) _ that(2,3)] g(1) that(1) by simp
  have cp: "rpc_complete q s = upd_rpc ref ?done s" if "rs_pending s i = Some ref" for s :: "('a, 'b) rpc_service"
    using rpc_complete_live [OF assms(9,10) that] .
  have n1: "rpc_next rx api p rs = upd_rpc ref ?next rs" using nx assms(2-5) by (simp add: RpcRequest_def)
  have v: "rpc_complete q (rpc_next rx api p rs) = upd_rpc ref (\<lambda>q. ?done (?next q)) rs"
    unfolding n1 using cp assms(3) by simp
  have c1: "run_continuation rx api ref (rpc_complete q rs) = upd_rpc ref ?done rs"
    using cp [OF assms(3)] assms(2,4,11) by (simp add: run_continuation_def RpcRequest_def)
  have c2: "rpc_next rx api p (upd_rpc ref ?done rs) = upd_rpc ref (\<lambda>q. ?next (?done q)) rs"
    using nx [of "upd_rpc ref ?done rs"] assms(2-5) by (simp add: RpcRequest_def)
  have same: "upd_rpc ref (\<lambda>q. ?next (?done q)) rs = upd_rpc ref (\<lambda>q. ?done (?next q)) rs"
    by (rule upd_rpc_cong) simp
  have eq: "?cf = ?vf"
    unfolding c1 c2 v same ..
  let ?ob = "rx_completed rx (rx_next rx p1 ob)"
  have sub: "rx_subscribed rx (rx_next rx p1 ob)" "\<not> rx_subscribed rx ?ob"
    using rx(2,6) assms(5) by simp_all
  have vf: "rs_pending ?vf = (rs_pending rs)(i := None) \<and> rs_scene ?vf = rs_scene rs \<and>
      rq_observer (rs_requests ?vf ! ref) = ?ob"
    using assms(2,4) sub assms(3)
    by (simp add: v run_continuation_def Let_def RpcRequest_def notify_def run_teardown_def
        eraseRequest_def RpcRequest_destructor_def)
  have lg: "log ?ob = [Next p1, Completed]" using rx(1,5) sub(1) assms(5,6) by simp
  show ?thesis
    unfolding Let_def using eq vf lg g(2) by (simp add: tce_set_def)
qed

section \<open>What stays behind\<close>

text \<open>Everything that can happen to the caller's side of a service, short of \<^verbatim>\<open>cancelAll\<close>.\<close>

datatype 'o call_event =
    Call string writer nat 'o
  | Message rpc_route packet
  | Continuation nat
  | Unsubscribe nat

definition rpc_event :: "'o rx \<Rightarrow> 'c scene_api \<Rightarrow> (byte list \<Rightarrow> string res) \<Rightarrow> 'o call_event \<Rightarrow>
    ('o, 'c) rpc_service \<Rightarrow> ('o, 'c) rpc_service" where
  "rpc_event rx api de ev rs =
     (case ev of
        Call n w pr ob \<Rightarrow> snd (rpc_subscribe rx api n w pr ob rs)
      | Message r p \<Rightarrow> rpc_message rx api de r p rs
      | Continuation ref \<Rightarrow> if ref < length (rs_requests rs) then run_continuation rx api ref rs else rs
      | Unsubscribe ref \<Rightarrow> if ref < length (rs_requests rs) then rpc_unsubscribe rx api ref rs else rs)"

lemma rpc_event_wf [inv_intros]: "rs_wf rx rs \<Longrightarrow> rs_wf rx (rpc_event rx api de ev rs)"
  by (auto simp: rpc_event_def rpc_message_def same_calls_wf [OF callee_same_calls(4)]
      rpc_subscribe_wf [OF _ surjective_pairing] inv_intros split: call_event.split rpc_route.split)

text \<open>A request whose teardown function was never added to its subscriber.\<close>

definition stuck :: "u16 \<Rightarrow> nat \<Rightarrow> ('o, 'c) rpc_service \<Rightarrow> bool" where
  "stuck i ref rs \<longleftrightarrow> rs_pending rs i = Some ref \<and> ref < length (rs_requests rs) \<and> \<not> rq_teardown (rs_requests rs ! ref)"

lemma stuckD:
  assumes "stuck i ref rs"
  shows "rs_pending rs i = Some ref" "ref < length (rs_requests rs)" "\<not> rq_teardown (rs_requests rs ! ref)"
  using assms by (simp_all add: stuck_def)

lemma stuck_upd:
  assumes "stuck i ref rs" "\<And>q. rq_teardown (f q) = rq_teardown q \<or> r \<noteq> ref"
  shows "stuck i ref (upd_rpc r f rs)"
  using assms by (cases "r = ref") (auto simp: stuck_def)

lemma stuck_erase:
  assumes "stuck i ref rs" "j \<noteq> i" "rs_pending rs j \<noteq> Some ref"
  shows "stuck i ref (eraseRequest rx j rs)"
proof (cases "rs_pending rs j")
  case (Some r)
  then have "r \<noteq> ref" using assms(3) by blast
  then show ?thesis
    using assms(1,2) Some by (auto simp: stuck_def eraseRequest_def)
qed (use assms in \<open>simp add: eraseRequest_def\<close>)

lemma stuck_teardown:
  assumes "stuck i ref rs" "keyed rs" "r < length (rs_requests rs)"
  shows "stuck i ref (run_teardown rx api r rs)"
proof (cases "rx_subscribed rx (rq_observer (rs_requests rs ! r)) \<or> \<not> rq_teardown (rs_requests rs ! r) \<or>
    \<not> rq_alive (rs_requests rs ! r)")
  case True
  then show ?thesis using assms(1) by (auto simp: run_teardown_def Let_def)
next
  case False
  let ?q = "rs_requests rs ! r"
  let ?rs1 = "upd_rpc r (\<lambda>q. q\<lparr>rq_teardown := False\<rparr>) rs"
  have r: "r \<noteq> ref" using False stuckD(3) [OF assms(1)] by blast
  have p: "rs_pending rs (rq_id ?q) = Some r" using keyedD(4) [OF assms(2,3)] False by blast
  then have i: "rq_id ?q \<noteq> i" using stuckD(1) [OF assms(1)] r by auto
  have st: "stuck i ref (?rs1\<lparr>rs_scene := c\<rparr>)" for c
    using stuck_upd [OF assms(1), of "\<lambda>q. q\<lparr>rq_teardown := False\<rparr>" r] r by (simp add: stuck_def)
  have st1: "stuck i ref ?rs1" using stuck_upd [OF assms(1)] r by simp
  have "stuck i ref (eraseRequest rx (rq_id ?q) (?rs1\<lparr>rs_scene := c\<rparr>))" for c
    by (rule stuck_erase [OF st i]) (use p r in simp)
  moreover have "stuck i ref (eraseRequest rx (rq_id ?q) ?rs1)"
    by (rule stuck_erase [OF st1 i]) (use p r in simp)
  ultimately show ?thesis using False by (simp add: run_teardown_def Let_def)
qed

lemma stuck_notify:
  assumes "stuck i ref rs" "keyed rs" "r < length (rs_requests rs)"
  shows "stuck i ref (notify rx api f r rs)"
  unfolding notify_def
proof (rule stuck_teardown)
  show "stuck i ref (upd_rpc r (\<lambda>q. q\<lparr>rq_observer := f (rq_observer q)\<rparr>) rs)" by (rule stuck_upd [OF assms(1)]) simp
  show "keyed (upd_rpc r (\<lambda>q. q\<lparr>rq_observer := f (rq_observer q)\<rparr>) rs)" by (rule keyed_upd [OF assms(2)]) simp_all
qed (use assms(3) in simp)

lemma stuck_frame:
  assumes "stuck i ref rs" "rs_pending rs' = rs_pending rs" "rs_requests rs' = rs_requests rs"
  shows "stuck i ref rs'"
  using assms by (simp add: stuck_def)

lemma stuck_subscribe:
  assumes "stuck i ref rs" "rs_wf rx rs" "rpc_subscribe rx api n w pr ob rs = (r, rs')"
  shows "stuck i ref rs'"
  using assms(3)
proof (cases rule: rpc_subscribe_cases)
  case (refused e c)
  show ?thesis unfolding refused(2) by (rule stuck_frame [OF assms(1)]) simp_all
next
  case (stored j rs2 s c)
  let ?r = "length (rs_requests rs)"
  note st = store_request_wf [where rx = rx, OF _ _ stored(3)]
  have wf2: "rs_wf rx rs2" and p2: "rs_pending rs2 = (rs_pending rs)(j \<mapsto> ?r)" and len: "?r < length (rs_requests rs2)"
    using st(1,3,5) assms(2) stored(2) by simp_all
  have "rs_requests rs2 ! ref = rs_requests rs ! ref"
    using stored(3) stuckD(2) [OF assms(1)] by (auto simp: store_request_def Let_def nth_append)
  then have s2: "stuck i ref (rs2\<lparr>rs_scene := c\<rparr>)"
    using stuckD [OF assms(1)] stored(2) p2 len by (auto simp: stuck_def)
  have k2: "keyed (rs2\<lparr>rs_scene := c\<rparr>)" using wf2 by (simp add: rs_wf_def)
  have ne: "?r \<noteq> ref" using stuckD(2) [OF assms(1)] by simp
  let ?u = "upd_rpc ?r (\<lambda>q. q\<lparr>rq_teardown := True\<rparr>) (rs2\<lparr>rs_scene := c\<rparr>)"
  have su: "stuck i ref ?u" by (rule stuck_upd [OF s2]) (simp add: ne)
  have ku: "keyed ?u" by (rule keyed_upd [OF k2]) simp_all
  show ?thesis
    using stuck_notify [OF s2 k2] stuck_teardown [OF su ku] len stored(5) by (cases s) simp_all
qed

lemma stuck_message:
  assumes "stuck i ref rs" "rs_wf rx rs"
  shows "stuck i ref (rpc_message rx api de r p rs)"
proof -
  have k: "keyed rs" using assms(2) by (simp add: rs_wf_def)
  have live: "r' < length (rs_requests rs)" if "getPendingRequest p rs = (Some r', p1)" for r' p p1
    using getPendingRequest_found(1) [OF that assms(2)] .
  have n: "stuck i ref (rpc_next rx api p rs)"
  proof (cases "getPendingRequest p rs")
    case (Pair o1 p1)
    show ?thesis
    proof (cases o1)
      case (Some r')
      have "stuck i ref (notify rx api (rx_next rx p1) r' rs)"
        using stuck_notify [OF assms(1) k] live Pair Some by blast
      then have "stuck i ref (upd_rpc r' (\<lambda>q. q\<lparr>rq_waiting := True\<rparr>) (notify rx api (rx_next rx p1) r' rs))"
        by (rule stuck_upd) simp
      then show ?thesis using Pair Some by (simp add: rpc_next_def)
    qed (use assms(1) Pair in \<open>simp add: rpc_next_def\<close>)
  qed
  have c: "stuck i ref (upd_rpc r' (\<lambda>q. q\<lparr>rq_hasCompleted := True, rq_waiting := rq_waiting q \<or> b = 0,
      rq_continuations := Suc (rq_continuations q)\<rparr>) rs)" for r' and b :: byte
    by (rule stuck_upd [OF assms(1)]) simp
  have h: "stuck i ref (upd_rpc r' (\<lambda>q. q\<lparr>rq_hasCompleted := True\<rparr>) rs)"
      "keyed (upd_rpc r' (\<lambda>q. q\<lparr>rq_hasCompleted := True\<rparr>) rs)" for r'
    using stuck_upd [OF assms(1)] keyed_upd [OF k] by simp_all
  have e: "stuck i ref (snd (rpc_error rx api de p rs))"
    using assms(1) h(1) stuck_notify [OF h] live
    by (auto simp: rpc_error_def Let_def split: prod.splits option.splits sum.splits)
  have "same_calls rs (rpc_cancel p rs)" by (rule callee_same_calls)
  then have d: "stuck i ref (rpc_cancel p rs)" by (intro stuck_frame [OF assms(1)]) (simp_all add: same_calls_def)
  show ?thesis
    using n c e d assms(1)
    by (cases r) (auto simp: rpc_message_def rpc_complete_def split: prod.splits option.splits)
qed

lemma stuck_event:
  assumes "stuck i ref rs" "rs_wf rx rs"
  shows "stuck i ref (rpc_event rx api de ev rs)"
proof -
  have k: "keyed rs" using assms(2) by (simp add: rs_wf_def)
  have c: "stuck i ref (upd_rpc r (\<lambda>q. q\<lparr>rq_continuations := rq_continuations q - 1\<rparr>) rs)"
      "keyed (upd_rpc r (\<lambda>q. q\<lparr>rq_continuations := rq_continuations q - 1\<rparr>) rs)" for r
    using stuck_upd [OF assms(1)] keyed_upd [OF k] by simp_all
  show ?thesis
    using assms(1) stuck_subscribe [OF assms surjective_pairing] stuck_message [OF assms] stuck_notify [OF assms(1) k]
      c(1) stuck_notify [OF c]
    by (cases ev) (simp_all add: rpc_event_def run_continuation_def rpc_unsubscribe_def Let_def)
qed

lemma stuck_events:
  "stuck i ref rs \<Longrightarrow> rs_wf rx rs \<Longrightarrow> stuck i ref (fold (rpc_event rx api de) evs rs)"
  by (induction evs arbitrary: rs) (simp_all add: stuck_event inv_intros)

text \<open>
  A call whose message could not be sent never gives its id back. The subscriber
  is told of the failure before the function that would erase the request has been added to
  it, so nothing is left to run that function: the request stays in the map, under whatever
  messages, calls, continuations and cancellations follow, although its subscription is over.
  (Only \<^verbatim>\<open>cancelAll\<close> empties the map.)
\<close>

theorem failed_call_leaks_id:
  assumes "rx_contract rx log" "rs_wf rx rs" "rx_subscribed rx ob"
    and "rpc_subscribe rx api n w pr ob rs = (Inr ref, rs')"
    and "\<And>i. \<exists>e. fst (sa_send api n (id_writer i w) pr 3 ''RPC_server'' (rs_scene rs)) = Inl e"
  shows "\<exists>i. rs_pending rs i = None \<and>
    log (rq_observer (rs_requests rs' ! ref)) = log ob @ [Failure (RuntimeError ''std::exception'')] \<and>
    \<not> rx_subscribed rx (rq_observer (rs_requests rs' ! ref)) \<and>
    (\<forall>de evs. rs_pending (fold (rpc_event rx api de) evs rs') i = Some ref)"
  using assms(4)
proof (cases rule: rpc_subscribe_cases)
  case (stored i rs2 s c)
  note st = store_request_wf [where rx = rx, OF _ _ stored(3)]
  have rs2: "rs_wf rx rs2" "rs_requests rs2 ! ref = RpcRequest i ob n" "ref < length (rs_requests rs2)"
      "rs_pending rs2 i = Some ref"
    using st(1,3,4,5) assms(2) stored(1,2) by simp_all
  obtain e where s: "s = Inl e" using assms(5) [of i] stored(4) by auto
  have rs': "rs' = upd_rpc ref (\<lambda>q. q\<lparr>rq_observer := rx_error rx (RuntimeError ''std::exception'') (rq_observer q)\<rparr>)
      (rs2\<lparr>rs_scene := c\<rparr>)"
    using stored(1,5) s rs2(2,3) by (simp add: notify_def run_teardown_def Let_def RpcRequest_def)
  have q: "rs_requests rs' ! ref = (RpcRequest i ob n)\<lparr>rq_observer := rx_error rx (RuntimeError ''std::exception'') ob\<rparr>"
    using rs2(2,3) by (simp add: rs' RpcRequest_def)
  have "stuck i ref rs'" using rs2(3,4) by (simp add: stuck_def q) (simp add: rs' RpcRequest_def)
  then have "rs_pending (fold (rpc_event rx api de) evs rs') i = Some ref" for de evs
    using stuckD(1) [OF stuck_events] rpc_subscribe_wf [OF assms(2,4)] by blast
  then show ?thesis using stored(2) q rx_contractD(3,4) [OF assms(1)] assms(3) by (auto simp: RpcRequest_def)
qed simp

text \<open>
  A procedure that fails blocks its id. When the user's task throws, the
  exception is sent to the caller but the id is not taken out of the running requests: the
  service drops every later request with that id without an answer. Only a cancellation of
  that id or \<^verbatim>\<open>cancelAll\<close> ends it. A procedure that succeeds frees the id before it sends the
  completion.
\<close>

theorem failed_procedure_blocks_id:
  assumes "p_ok p" "p_rest p = word_bytes i @ v" "rs_running rs i = None"
    and "on_procedure b p rs = (Some x, rs1)"
    and "p_ok q" "p_rest q = word_bytes i @ u"
  shows "on_procedure b q (procedure_done api ser x (Inl e) rs1) = (None, procedure_done api ser x (Inl e) rs1) \<and>
    rs_running (rpc_cancel q (procedure_done api ser x (Inl e) rs1)) i = None \<and>
    fst (on_procedure b q (procedure_done api ser x (Inr ()) rs1)) \<noteq> None"
proof -
  obtain p1 where p1: "p_read (0 :: u16) p = (i, p1)" using rpc_read_id [OF assms(1,2)] by metis
  obtain q1 where q1: "p_read (0 :: u16) q = (i, q1)" using rpc_read_id [OF assms(5,6)] by metis
  have rs1: "rs1 = rs\<lparr>rs_contexts := rs_contexts rs @
        [\<lparr>rx_id = i, rx_ordered = b, rx_msgSent = False, rx_input = p1\<rparr>], rs_running := (rs_running rs)(i \<mapsto> x)\<rparr>"
      "x = length (rs_contexts rs)"
    using assms(3,4) p1 by (auto simp: on_procedure_def Let_def)
  have err: "rs_running (snd (sendError api ser m y s)) = rs_running s" for m y and s :: "('a, 'b) rpc_service"
    by (simp add: sendError_def context_route_send_def Let_def split: prod.splits)
  have cmp: "rs_running (snd (sendComplete api y s)) = rs_running s" for y and s :: "('a, 'b) rpc_service"
    by (simp add: sendComplete_def context_route_send_def Let_def split: prod.splits)
  have f: "rs_running (procedure_done api ser x (Inl e) rs1) i = Some x"
    by (simp add: procedure_done_def Let_def err) (simp add: rs1)
  have "rs_running (procedure_done api ser x (Inr ()) rs1) i = None"
    using cmp [of x "rs1\<lparr>rs_running := (rs_running rs1)(i := None)\<rparr>"]
    by (auto simp: procedure_done_def rs1 Let_def err split: prod.splits sum.splits)
  then show ?thesis using f q1 by (simp add: on_procedure_def rpc_cancel_def Let_def)
qed

text \<open>
  Cancelling a call reaches the callee. Unsubscribing a call that is neither
  completed nor failed sends the route of cancellations with its id, frees the id and adds no
  notification beyond the error of the dying request, which the ended subscription ignores; a
  service that receives these bytes cancels the source of exactly that request, and the end
  of the user's task sends no completion.
\<close>

theorem unsubscribe_cancels_callee:
  assumes "rx_contract rx log" "rs_wf rx rs" "rs_pending rs i = Some ref"
    and "rq_teardown (rs_requests rs ! ref)" "\<not> rq_hasCompleted (rs_requests rs ! ref)" "rs_alive rs"
    and "sa_send api = host_send env" "host_ok env (rs_scene rs)" "sa_connected api (rs_scene rs)"
    and "rpc_unsubscribe rx api ref rs = rs'" "host_sent (rs_scene rs') \<noteq> host_sent (rs_scene rs)"
    and "p_ok p" "p_rest p = word_bytes i" "rs_running srv i = Some x" "rx_id (rs_contexts srv ! x) = i"
  shows "host_sent (rs_scene rs') = host_sent (rs_scene rs) @ [host_addr cancellationRouteName (rs_scene rs) @ word_bytes i] \<and>
    rs_pending rs' = (rs_pending rs)(i := None) \<and>
    log (rq_observer (rs_requests rs' ! ref)) = log (rq_observer (rs_requests rs ! ref)) \<and>
    rpc_cancel p srv = srv\<lparr>rs_running := (rs_running srv)(i := None), rs_canceled := x # rs_canceled srv\<rparr> \<and>
    procedure_done api ser x (Inr ()) (rpc_cancel p srv) = rpc_cancel p srv"
proof -
  have k: "keyed rs" using assms(2) by (simp add: rs_wf_def)
  let ?q = "rs_requests rs ! ref"
  have q: "ref < length (rs_requests rs)" "rq_id ?q = i" "rq_alive ?q" using keyedD(1-3) [OF k assms(3)] by simp_all
  have sub: "rx_subscribed rx (rq_observer ?q)"
    using assms(2,4) q by (simp add: rs_wf_def settled_def)
  note rx = rx_contractD [OF assms(1)]
  obtain r c where s: "host_send env cancellationRouteName (id_writer i None) 0 3 ''RPC_server'' (rs_scene rs) = (r, c)"
    by (metis surjective_pairing)
  have end_rs': "rs_scene rs' = c" "rs_pending rs' = (rs_pending rs)(i := None)"
      "rq_observer (rs_requests rs' ! ref) = rx_error rx TaskCanceled (rx_unsubscribe rx (rq_observer ?q))"
    using assms(3-10) q sub rx(8) s
    by (auto simp: rpc_unsubscribe_def notify_def run_teardown_def Let_def eraseRequest_def RpcRequest_destructor_def
        simp flip: assms(10))
  have r: "r = Inr ()"
  proof (cases r)
    case (Inl e)
    then show ?thesis using host.send_fails [OF assms(8)] s assms(11) end_rs'(1) by metis
  qed simp
  have w: "writes (id_writer i None) (word_bytes i @ [])" by (rule id_writer_writes) (rule writes_empty)
  have "host_sent c = host_sent (rs_scene rs) @ [host_addr cancellationRouteName (rs_scene rs) @ word_bytes i @ []]"
    by (rule host.send_ok [OF assms(8) _ w]) (use s r in simp_all)
  moreover obtain p1 where "p_read (0 :: u16) p = (i, p1)" using rpc_read_id [of p i "[]"] assms(12,13) by auto
  ultimately show ?thesis
    using end_rs' assms(14,15) rx(7,8,10) by (simp add: rpc_cancel_def procedure_done_def Let_def)
qed

text \<open>
  \<^verbatim>\<open>cancelAll\<close> ends every call: no request is pending or running afterwards,
  every running source has been cancelled, and no request object is left. Every subscriber of
  a pending call gets the reason as an error, once, unless the completion of its call had
  been announced before: that call ends with no notification at all.
\<close>

theorem cancelAll_ends_calls:
  assumes "rx_contract rx log" "rs_wf rx rs" "distinct pending" "set pending = dom (rs_pending rs)"
    and "set running = dom (rs_running rs)"
  shows "let rs' = cancelAll rx api running pending reason rs in
    rs_pending rs' = Map.empty \<and> rs_running rs' = Map.empty \<and>
    ran (rs_running rs) \<subseteq> set (rs_canceled rs') \<and>
    (\<forall>ref < length (rs_requests rs'). \<not> rq_alive (rs_requests rs' ! ref)) \<and>
    (\<forall>i ref. rs_pending rs i = Some ref \<longrightarrow>
       log (rq_observer (rs_requests rs' ! ref)) = log (rq_observer (rs_requests rs ! ref)) @
         (if \<not> rq_hasCompleted (rs_requests rs ! ref) \<and> rx_subscribed rx (rq_observer (rs_requests rs ! ref))
          then [Failure (RuntimeError (takeWhile (\<lambda>ch. ch \<noteq> CHR 0x00) reason))] else []))"
proof -
  have k: "keyed rs" using assms(2) by (simp add: rs_wf_def)
  note c = cancelAll_effect [OF k assms(3,4), where rx = rx and api = api and running = running and reason = reason]
  note wf = cancelAll_wf [OF assms(2-4), where api = api and running = running and reason = reason]
  note rx = rx_contractD [OF assms(1)]
  have can: "ran (rs_running rs) \<subseteq> set (rs_canceled (cancelAll rx api running pending reason rs))"
  proof
    fix x assume "x \<in> ran (rs_running rs)"
    then obtain i where i: "rs_running rs i = Some x" "i \<in> set running" using assms(5) by (auto simp: ran_def dom_def)
    then have "x \<in> set (List.map_filter (rs_running rs) running)" by (force simp: List.map_filter_def)
    then show "x \<in> set (rs_canceled (cancelAll rx api running pending reason rs))" by (simp add: c(4))
  qed
  have dead: "\<not> rq_alive (rs_requests (cancelAll rx api running pending reason rs) ! ref)"
    if "ref < length (rs_requests (cancelAll rx api running pending reason rs))" for ref
    using wf keyedD(4) [OF _ that] c(2) by (auto simp: rs_wf_def)
  have lg: "log (rq_observer (rs_requests (cancelAll rx api running pending reason rs) ! ref)) = log (rq_observer (rs_requests rs ! ref)) @
         (if \<not> rq_hasCompleted (rs_requests rs ! ref) \<and> rx_subscribed rx (rq_observer (rs_requests rs ! ref))
          then [Failure (RuntimeError (takeWhile (\<lambda>ch. ch \<noteq> CHR 0x00) reason))] else [])"
    if "rs_pending rs i = Some ref" for i ref
    using rx(3,10) by (auto simp: c(5) [OF that] RpcRequest_destructor_def canceled_request_def Let_def)
  show ?thesis unfolding Let_def using c(2,3) can dead lg by blast
qed

section \<open>Concrete services\<close>

text \<open>A subscriber that records what it is told, on a scene whose host has the procedure \<^verbatim>\<open>proc\<close>.\<close>

definition list_rx :: "(notification list \<times> bool) rx" where
  "list_rx = \<lparr>rx_next = (\<lambda>p ob. if snd ob then (fst ob @ [Next p], True) else ob),
     rx_error = (\<lambda>e ob. if snd ob then (fst ob @ [Failure e], False) else ob),
     rx_completed = (\<lambda>ob. if snd ob then (fst ob @ [Completed], False) else ob),
     rx_unsubscribe = (\<lambda>ob. (fst ob, False)), rx_subscribed = snd\<rparr>"

lemma list_rx_contract: "rx_contract list_rx fst"
  by (simp add: rx_contract_def list_rx_def)

lemma list_rx_sel [simp]: "rx_subscribed list_rx = snd" "rx_unsubscribe list_rx ob = (fst ob, False)"
  "snd ob \<Longrightarrow> rx_error list_rx e ob = (fst ob @ [Failure e], False)"
  "\<not> snd ob \<Longrightarrow> rx_error list_rx e ob = ob"
  by (simp_all add: list_rx_def)

definition demo_proc :: route where
  "demo_proc = \<lparr>rt_name = ''proc'', rt_handle = 40, rt_filter = FromHost,
     rt_metadata = [pluginName \<mapsto> rpc_version], rt_handlers = []\<rparr>"

definition demo_caller_scene :: scene where
  "demo_caller_scene = demo_scene\<lparr>sc_state := conn_state Connected,
     sc_host := Some (ScenePeer 0 141 (\<lambda>n. Some demo_proc))\<rparr>"

definition demo_api :: "(scene \<times> net) scene_api" where
  "demo_api = \<lparr>sa_send = host_send demo_scene_env, sa_remoteRoutes = (\<lambda>_. [demo_proc]), sa_connected = (\<lambda>_. True)\<rparr>"

definition demo_service :: "(notification list \<times> bool, scene \<times> net) rpc_service" where
  "demo_service = RpcService (demo_caller_scene, demo_net)"

lemma demo_caller_sel [simp]: "sc_client demo_caller_scene" "cs_state (sc_state demo_caller_scene) = Connected"
  "sc_host demo_caller_scene = Some (ScenePeer 0 141 (\<lambda>n. Some demo_proc))"
  by (simp_all add: demo_caller_scene_def demo_scene_def Scene_Impl_def conn_state_def)

lemma demo_api_sel [simp]: "sa_send demo_api = host_send demo_scene_env" "sa_remoteRoutes demo_api c = [demo_proc]"
  "sa_connected demo_api c"
  by (simp_all add: demo_api_def)

lemma demo_service_sel [simp]: "rs_alive demo_service" "rs_requests demo_service = []" "rs_pending demo_service = Map.empty"
  "rs_counter demo_service = 0" "rs_contexts demo_service = []" "rs_running demo_service = Map.empty"
  "rs_scene demo_service = (demo_caller_scene, demo_net)"
  by (simp_all add: demo_service_def RpcService_def)

lemma demo_host_ok: "host_ok demo_scene_env (demo_caller_scene, demo_net)"
  by (simp add: host_ok_def demo_scene_env_def)

lemma demo_service_wf: "rs_wf list_rx demo_service"
  unfolding demo_service_def by (rule rpc_reach_wf [OF rpc_reach.new])

lemma demo_host_send:
  assumes "n \<noteq> []" "writes w xs" "length xs < 1000000"
  obtains c where "host_send demo_scene_env n w pr rel ch (demo_caller_scene, demo_net) = (Inr (), c)"
    "host_sent c = [word_bytes (141 :: byte) @ word_bytes (40 :: u16) @ xs]"
proof -
  let ?sp = "ScenePeer 0 141 (\<lambda>n. Some demo_proc)"
  have c: "c_peer (nt_conns demo_net (sp_connection ?sp))" "chan_wf 0 (nt_channels demo_net (sp_connection ?sp))"
      "\<not> se_enabled demo_scene_env" "\<And>t. se_rak demo_scene_env t \<noteq> 0" "0 < se_t1 demo_scene_env"
    by (simp_all add: ScenePeer_def demo_scene_env_def chan_wf_new)
  obtain uid net' where s: "send_peer demo_scene_env ?sp n w pr rel ch demo_caller_scene demo_net = (Inr (), net')"
    by (rule send_peer_wire [where sp = ?sp and n = n and rt = demo_proc and env = demo_scene_env and net = demo_net and
        now = 0 and pr = pr and rel = rel and ident = ch and sc = demo_caller_scene, OF _ assms(2,3) c(4,1) _ c(2,5)])
      (simp_all add: ScenePeer_def c(3))
  have h: "host_send demo_scene_env n w pr rel ch (demo_caller_scene, demo_net) = (Inr (), (demo_caller_scene, net'))"
    using s assms(1) by (simp add: host_send_def scene_send_def scene_send_filter_def matchSceneHost_def)
  show ?thesis
    by (rule that [OF h]) (use host.send_ok [OF demo_host_ok h assms(2,3)] in
      \<open>simp add: host_sent_def host_addr_def ScenePeer_def demo_proc_def\<close>)
qed

definition demo_called :: "(notification list \<times> bool, scene \<times> net) rpc_service" where
  "demo_called = snd (rpc_subscribe list_rx demo_api ''proc'' (put_bytes [7]) 1 ([], True) demo_service)"

lemma demo_reserveId: "reserveId demo_service = (Inr 1, demo_service\<lparr>rs_counter := 1\<rparr>)"
  by (simp add: reserveId_def reserve_loop_first)

lemma demo_call:
  "rpc_subscribe list_rx demo_api ''proc'' (put_bytes [7]) 1 ([], True) demo_service = (Inr 0, demo_called)"
  "rs_requests demo_called = [(RpcRequest 1 ([], True) ''proc'')\<lparr>rq_teardown := True\<rparr>]"
  "rs_pending demo_called = [1 \<mapsto> 0]" "rs_alive demo_called" "rs_running demo_called = Map.empty"
  "rpc_reach list_rx {} demo_called"
proof -
  obtain c where c: "host_send demo_scene_env ''proc'' (id_writer 1 (put_bytes [7])) 1 3 ''RPC_server'' (demo_caller_scene, demo_net) =
      (Inr (), c)"
    using demo_host_send [OF _ id_writer_writes [OF writes_put, of 1 "[7]"], of "''proc''" 1 3 "''RPC_server''"] by fastforce
  from c have r: "rpc_subscribe list_rx demo_api ''proc'' (put_bytes [7]) 1 ([], True) demo_service =
      (Inr 0, demo_service\<lparr>rs_counter := 1, rs_requests := [(RpcRequest 1 ([], True) ''proc'')\<lparr>rq_teardown := True\<rparr>],
        rs_pending := [1 \<mapsto> 0], rs_scene := c\<rparr>)"
    by (simp add: rpc_subscribe_def demo_reserveId store_request_def Let_def run_teardown_def RpcRequest_def
        demo_proc_def upd_rpc_def)
  show "rpc_subscribe list_rx demo_api ''proc'' (put_bytes [7]) 1 ([], True) demo_service = (Inr 0, demo_called)"
    "rs_requests demo_called = [(RpcRequest 1 ([], True) ''proc'')\<lparr>rq_teardown := True\<rparr>]"
    "rs_pending demo_called = [1 \<mapsto> 0]" "rs_alive demo_called" "rs_running demo_called = Map.empty"
    using r by (simp_all add: demo_called_def)
  have "rpc_reach list_rx ({} \<union> call_lost demo_api ''proc'' (put_bytes [7]) 1 (Inr 0) demo_service) demo_called"
    by (rule rpc_reach.call [where ob = "([], True)"])
      (use rpc_reach.new [of list_rx "rs_scene demo_service"] r in \<open>simp_all add: demo_called_def demo_service_def RpcService_def\<close>)
  moreover have "call_lost demo_api ''proc'' (put_bytes [7]) 1 (Inr 0) demo_service = {}"
    using c by (simp add: call_lost_def demo_reserveId)
  ultimately show "rpc_reach list_rx {} demo_called" by simp
qed

theorem rpc_pending_live_witness:
  "rs_pending demo_called 1 = Some 0 \<and> rq_id (rs_requests demo_called ! 0) = 1 \<and>
   rx_subscribed list_rx (rq_observer (rs_requests demo_called ! 0))"
  using rpc_pending_live [OF demo_call(6)] by (simp add: demo_call RpcRequest_def)

theorem rpc_call_reaches_procedure_witness:
  "\<exists>p1. on_procedure True (make_packet 1 (word_bytes (1 :: u16) @ [7]) Map.empty) demo_service =
     (Some 0, demo_service\<lparr>rs_contexts := [\<lparr>rx_id = 1, rx_ordered = True, rx_msgSent = False, rx_input = p1\<rparr>],
        rs_running := [1 \<mapsto> 0]\<rparr>) \<and> p_rest p1 = [7]"
proof -
  let ?p = "make_packet 1 (word_bytes (1 :: u16) @ [7]) Map.empty"
  have p: "p_ok ?p" "p_rest ?p = word_bytes (1 :: u16) @ [7]"
    using make_packet_ok [of "word_bytes (1 :: u16) @ [7]" 1 Map.empty] by simp_all
  have t: "rq_teardown (rs_requests demo_called ! 0)" by (simp add: demo_call RpcRequest_def)
  obtain i where i: "rs_pending demo_called = (rs_pending demo_service)(i \<mapsto> 0)"
    and on: "\<forall>p (srv :: (notification list \<times> bool, scene \<times> net) rpc_service). p_ok p \<longrightarrow> p_rest p = word_bytes i @ [7] \<longrightarrow>
      rs_running srv i = None \<longrightarrow> (\<exists>p1. on_procedure True p srv = (Some (length (rs_contexts srv)),
          srv\<lparr>rs_contexts := rs_contexts srv @ [\<lparr>rx_id = i, rx_ordered = True, rx_msgSent = False, rx_input = p1\<rparr>],
              rs_running := (rs_running srv)(i \<mapsto> length (rs_contexts srv))\<rparr>) \<and> p_rest p1 = [7])"
    using rpc_call_reaches_procedure [where b = True and env = demo_scene_env and args = "[7]",
        OF _ demo_api_sel(1) _ writes_put _ demo_call(1) t] demo_host_ok by auto
  have "i = 1" using i(1) demo_call(3) by (simp add: fun_upd_eqD) (metis fun_upd_same fun_upd_other option.distinct(1))
  then show ?thesis using on [rule_format, OF p(1), of demo_service] p(2) by simp
qed

definition demo_served :: "(notification list \<times> bool, scene \<times> net) rpc_service" where
  "demo_served = demo_service\<lparr>rs_contexts := [\<lparr>rx_id = 1, rx_ordered = True, rx_msgSent = False, rx_input = make_packet 1 [7] Map.empty\<rparr>],
     rs_running := [1 \<mapsto> 0]\<rparr>"

definition demo_packet :: "byte list \<Rightarrow> packet" where
  "demo_packet xs = make_packet 1 xs Map.empty"

lemma demo_packet: "length xs < 2147483648 \<Longrightarrow> p_ok (demo_packet xs)" "length xs < 2147483648 \<Longrightarrow> p_rest (demo_packet xs) = xs"
  using make_packet_ok by (simp_all add: demo_packet_def)

lemma demo_called_wf: "rs_wf list_rx demo_called" "rs_wf list_rx (demo_called\<lparr>rs_scene := c\<rparr>)"
  using rpc_reach_wf [OF demo_call(6)] by simp_all

theorem rpc_value_reaches_caller_witness:
  "\<exists>srv' p1. sendValue demo_api (put_bytes [9]) 1 0 demo_served = (Inr (), srv') \<and>
    host_sent (rs_scene srv') = [host_addr nextRouteName (demo_caller_scene, demo_net) @ word_bytes (1 :: u16) @ [9]] \<and>
    p_rest p1 = [9] \<and>
    fst (rq_observer (rs_requests (rpc_next list_rx demo_api (demo_packet (word_bytes (1 :: u16) @ [9])) demo_called) ! 0)) = [Next p1]"
proof -
  obtain c where c: "host_send demo_scene_env nextRouteName (id_writer 1 (put_bytes [9])) 1 3 ''RPC_client'' (demo_caller_scene, demo_net) = (Inr (), c)"
    using demo_host_send [OF _ id_writer_writes [OF writes_put, of 1 "[9]"], of nextRouteName 1 3 "''RPC_client''"]
    by (fastforce simp: nextRouteName_def)
  define srv' where "srv' = snd (sendValue demo_api (put_bytes [9]) 1 0 demo_served)"
  have s: "sendValue demo_api (put_bytes [9]) 1 0 demo_served = (Inr (), srv')"
    using c by (simp add: srv'_def sendValue_def context_route_send_def demo_served_def Let_def)
  have h: "host_ok demo_scene_env (rs_scene demo_served)" "rs_scene demo_served = (demo_caller_scene, demo_net)"
      "rx_id (rs_contexts demo_served ! 0) = 1" "0 < length (rs_contexts demo_served)" "host_sent (demo_caller_scene, demo_net) = []"
    using demo_host_ok by (simp_all add: demo_served_def host_sent_def)
  have sub: "rx_subscribed list_rx (rq_observer (rs_requests demo_called ! 0))" "rq_observer (rs_requests demo_called ! 0) = ([], True)"
    by (simp_all add: demo_call RpcRequest_def)
  have len: "length ([9] :: byte list) < 900000" "length (word_bytes (1 :: u16) @ [9]) < 2147483648" by simp_all
  show ?thesis
    using rpc_value_reaches_caller [OF demo_api_sel(1) h(1) writes_put len(1) h(4,3) s list_rx_contract demo_called_wf(1) _ sub(1)
        demo_packet [OF len(2)], of demo_api] s h(2,5) sub(2)
    by (auto simp: demo_call(3))
qed

theorem rpc_completion_waits_witness:
  "\<exists>p1. fst (rq_observer (rs_requests (run_continuation list_rx demo_api 0 (rpc_next list_rx demo_api (demo_packet (word_bytes (1 :: u16) @ [9]))
      (run_continuation list_rx demo_api 0 (rpc_complete (demo_packet (word_bytes (1 :: byte) @ word_bytes (1 :: u16))) demo_called)))) ! 0)) =
    [Next p1, Completed] \<and> p_rest p1 = [9]"
proof -
  have len: "length (word_bytes (1 :: u16) @ [9]) < 2147483648" "length (word_bytes (1 :: byte) @ word_bytes (1 :: u16)) < 2147483648"
    by simp_all
  have q: "0 < length (rs_requests demo_called)" "rs_pending demo_called 1 = Some 0"
      "rs_requests demo_called ! 0 = (RpcRequest 1 ([], True) ''proc'')\<lparr>rq_teardown := True\<rparr>"
    by (simp_all add: demo_call)
  show ?thesis
    using rpc_completion_waits [OF list_rx_contract q _ _ demo_packet [OF len(1)] demo_packet [OF len(2)], of demo_api "\<lambda>_. ()"]
    by (auto simp: Let_def)
qed

theorem failed_call_leaks_id_witness:
  "\<exists>i rs'. rpc_subscribe list_rx demo_api ''proc'' None 1 ([], True) (demo_service\<lparr>rs_scene := (demo_scene, demo_net)\<rparr>) = (Inr 0, rs') \<and>
    (\<forall>de evs. rs_pending (fold (rpc_event list_rx demo_api de) evs rs') i = Some 0)"
proof -
  let ?rs = "demo_service\<lparr>rs_scene := (demo_scene, demo_net)\<rparr>"
  have f: "\<exists>e. host_send demo_scene_env ''proc'' w pr rel ch (demo_scene, demo_net) = (Inl e, (demo_scene, demo_net))" for w pr rel ch
    by (simp add: host_send_def scene_send_def scene_send_filter_def demo_scene_def Scene_Impl_def conn_state_def)
  then have s: "\<exists>e. fst (sa_send demo_api ''proc'' (id_writer i None) 1 3 ''RPC_server'' (rs_scene ?rs)) = Inl e" for i
    using f by (simp add: split_pairs) (metis fst_conv)
  have ri: "reserveId ?rs = (Inr 1, ?rs\<lparr>rs_counter := 1\<rparr>)" by (simp add: reserveId_def reserve_loop_first)
  have "fst (rpc_subscribe list_rx demo_api ''proc'' None 1 ([], True) ?rs) = Inr 0"
    by (simp add: rpc_subscribe_def ri store_request_def Let_def demo_proc_def split: prod.splits)
  then obtain rs' where c: "rpc_subscribe list_rx demo_api ''proc'' None 1 ([], True) ?rs = (Inr 0, rs')"
    by (metis prod.collapse)
  have "rs_wf list_rx ?rs" using demo_service_wf by simp
  from failed_call_leaks_id [OF list_rx_contract this _ c s] c show ?thesis by auto
qed

theorem failed_procedure_blocks_id_witness:
  "fst (on_procedure True (demo_packet (word_bytes (1 :: u16))) (procedure_done demo_api (\<lambda>_. []) 0 (Inl TaskCanceled)
     (snd (on_procedure True (demo_packet (word_bytes (1 :: u16))) demo_service)))) = None"
proof -
  let ?p = "demo_packet (word_bytes (1 :: u16))"
  have p: "p_ok ?p" "p_rest ?p = word_bytes (1 :: u16) @ []" using demo_packet [of "word_bytes (1 :: u16)"] by simp_all
  obtain p1 where "p_read (0 :: u16) ?p = (1, p1)" using rpc_read_id [OF p] by metis
  then have o: "on_procedure True ?p demo_service = (Some 0, snd (on_procedure True ?p demo_service))"
    by (simp add: on_procedure_def Let_def)
  show ?thesis using failed_procedure_blocks_id [OF p _ o p] by simp
qed

theorem unsubscribe_cancels_callee_witness:
  "host_sent (rs_scene (rpc_unsubscribe list_rx demo_api 0 (demo_called\<lparr>rs_scene := (demo_caller_scene, demo_net)\<rparr>))) =
     [host_addr cancellationRouteName (demo_caller_scene, demo_net) @ word_bytes (1 :: u16)]"
proof -
  let ?rs = "demo_called\<lparr>rs_scene := (demo_caller_scene, demo_net)\<rparr>"
  obtain c where c: "host_send demo_scene_env cancellationRouteName (id_writer 1 None) 0 3 ''RPC_server'' (demo_caller_scene, demo_net) = (Inr (), c)"
      "host_sent c = [word_bytes (141 :: byte) @ word_bytes (40 :: u16) @ word_bytes (1 :: u16) @ []]"
    by (rule demo_host_send [OF _ id_writer_writes [OF writes_empty, of 1], of cancellationRouteName 0 3 "''RPC_server''"])
      (simp_all add: cancellationRouteName_def)
  have sent: "host_sent (rs_scene (rpc_unsubscribe list_rx demo_api 0 ?rs)) \<noteq> host_sent (rs_scene ?rs)"
    using c by (simp add: rpc_unsubscribe_def notify_def run_teardown_def Let_def demo_call RpcRequest_def upd_rpc_def
        eraseRequest_def host_sent_def [of "(demo_caller_scene, demo_net)"])
  have p: "p_ok (demo_packet (word_bytes (1 :: u16)))" "p_rest (demo_packet (word_bytes (1 :: u16))) = word_bytes (1 :: u16)"
    using demo_packet [of "word_bytes (1 :: u16)"] by simp_all
  show ?thesis
    using unsubscribe_cancels_callee [OF list_rx_contract demo_called_wf(2) _ _ _ _ demo_api_sel(1) _ _ refl sent p, of demo_served 0]
      demo_host_ok
    by (simp add: demo_call RpcRequest_def demo_served_def host_sent_def [of "(demo_caller_scene, demo_net)"])
qed

theorem cancelAll_ends_calls_witness:
  "fst (rq_observer (rs_requests (cancelAll list_rx demo_api [] [1] ''bye'' demo_called) ! 0)) =
     [Failure (RuntimeError ''bye'')]"
  using cancelAll_ends_calls [OF list_rx_contract demo_called_wf(1), of "[1]" "[]" demo_api "''bye''"]
  by (simp add: Let_def demo_call RpcRequest_def)

end
