(* ===== verification/DependencyInjection.thy ===== *)
theory DependencyInjection
  imports Prelude
begin

text \<open>
  Dependency injection: \<^verbatim>\<open>DependencyInjection.h\<close> and \<^verbatim>\<open>DependencyInjection.cpp\<close>. Scopes and
  the objects that factories make live in heaps, numbered in the order of their creation, so
  that a parent has a smaller number than its children. A factory resolves its arguments in
  the scope it is given and then makes an object, hands out a given one or throws; nested
  resolution is recursive and need not end, hence the fuel of \<open>resolve_fuel\<close>. Registration ids
  are unbounded here (the code counts them in 64 bits).
\<close>

section \<open>Registrations\<close>

datatype DependencyLifetime =
  InstancePerRequest | InstancePerScope | InstancePerMatchingScope | SingleInstance

text \<open>
  A dependency of a constructor: one object of a type or all of them; the list of arguments is
  in the order in which they are evaluated.
\<close>

datatype argument = Single u64 | All u64

datatype made = Makes | Gives nat | Throws storm_exn

record registration =
  rg_id :: nat
  rg_types :: "u64 list"
  rg_lifetime :: DependencyLifetime
  rg_tag :: string
  rg_actualType :: u64
  rg_args :: "argument list"
  rg_result :: made

record container_builder =
  cb_counter :: nat
  cb_registrations :: "registration list"

definition ContainerBuilder :: "nat \<Rightarrow> container_builder" where
  "ContainerBuilder baseId = \<lparr>cb_counter = baseId, cb_registrations = []\<rparr>"

text \<open>
  \<^verbatim>\<open>registerDependency\<close>, with the settings that the calls on the handle make as a function
  on the new registration. An exception of such a call leaves the registration as it is.
\<close>

definition registerDependency ::
  "u64 \<Rightarrow> argument list \<Rightarrow> made \<Rightarrow> (registration \<Rightarrow> registration) \<Rightarrow> container_builder \<Rightarrow> container_builder" where
  "registerDependency ty args result settings cb =
     \<lparr>cb_counter = Suc (cb_counter cb),
      cb_registrations = cb_registrations cb @
        [settings \<lparr>rg_id = cb_counter cb, rg_types = [], rg_lifetime = InstancePerRequest, rg_tag = '''',
                   rg_actualType = ty, rg_args = args, rg_result = result\<rparr>]\<rparr>"

definition as_type :: "u64 \<Rightarrow> registration \<Rightarrow> registration" where
  "as_type ty rg = (if ty \<in> set (rg_types rg) then rg else rg\<lparr>rg_types := rg_types rg @ [ty]\<rparr>)"

definition asSelf :: "registration \<Rightarrow> registration" where
  "asSelf rg = as_type (rg_actualType rg) rg"

definition instancePerRequest :: "registration \<Rightarrow> registration" where
  "instancePerRequest rg = rg\<lparr>rg_lifetime := InstancePerRequest\<rparr>"

definition instancePerScope :: "registration \<Rightarrow> registration" where
  "instancePerScope rg = rg\<lparr>rg_lifetime := InstancePerScope\<rparr>"

definition singleInstance :: "registration \<Rightarrow> registration" where
  "singleInstance rg = rg\<lparr>rg_lifetime := SingleInstance\<rparr>"

definition instancePerMatchingScope :: "string \<Rightarrow> registration \<Rightarrow> registration res" where
  "instancePerMatchingScope tag rg =
     (if tag = [] then Inl (InvalidArgument ''scopeTag must not be empty'')
      else Inr (rg\<lparr>rg_lifetime := InstancePerMatchingScope, rg_tag := tag\<rparr>))"

definition registerInstance ::
  "u64 \<Rightarrow> nat \<Rightarrow> (registration \<Rightarrow> registration) \<Rightarrow> container_builder \<Rightarrow> container_builder" where
  "registerInstance ty ob settings cb = registerDependency ty [] (Gives ob) (\<lambda>rg. settings (singleInstance rg)) cb"

section \<open>Scopes\<close>

record di_scope =
  ds_registrations :: "u64 \<rightharpoonup> registration list"
  ds_instances :: "nat \<rightharpoonup> nat"
  ds_tag :: string
  ds_parent :: "nat option"
  ds_baseId :: nat
  ds_alive :: bool

record di_object =
  ob_type :: u64
  ob_args :: "nat list list"

record container =
  dc_scopes :: "di_scope list"
  dc_objects :: "di_object list"

definition types_of :: "registration \<Rightarrow> u64 list" where
  "types_of rg = (if rg_types rg = [] then [rg_actualType rg] else rg_types rg)"

definition add_registration :: "registration \<Rightarrow> u64 \<Rightarrow> (u64 \<rightharpoonup> registration list) \<Rightarrow> (u64 \<rightharpoonup> registration list)" where
  "add_registration rg ty m = m(ty \<mapsto> (case m ty of None \<Rightarrow> [] | Some rs \<Rightarrow> rs) @ [rg])"

definition buildRegistrations :: "registration list \<Rightarrow> (u64 \<rightharpoonup> registration list)" where
  "buildRegistrations rgs = fold (\<lambda>rg. fold (add_registration rg) (types_of rg)) rgs Map.empty"

definition DependencyScope ::
  "container_builder \<Rightarrow> string \<Rightarrow> nat option \<Rightarrow> container \<Rightarrow> nat \<times> container" where
  "DependencyScope cb tag parent c =
     (length (dc_scopes c),
      c\<lparr>dc_scopes := dc_scopes c @
         [\<lparr>ds_registrations = buildRegistrations (cb_registrations cb), ds_instances = Map.empty, ds_tag = tag,
           ds_parent = parent, ds_baseId = cb_counter cb, ds_alive = True\<rparr>]\<rparr>)"

definition build :: "container_builder \<Rightarrow> container \<Rightarrow> nat \<times> container" where
  "build cb c = DependencyScope cb '''' None c"

text \<open>
  A handle to a scope is empty when it was default-constructed. \<^term>\<open>f\<close> is the user's
  function on the builder of the child.
\<close>

definition beginLifetimeScope ::
  "nat option \<Rightarrow> string \<Rightarrow> (container_builder \<Rightarrow> container_builder) option \<Rightarrow> container \<Rightarrow> nat res \<times> container" where
  "beginLifetimeScope h tag f c =
     (case h of
        None \<Rightarrow> (Inl (DependencyResolution ''This DependencyScope is invalid because it was default-constructed.''), c)
      | Some s \<Rightarrow>
          (let cb = ContainerBuilder (ds_baseId (dc_scopes c ! s));
               cb1 = (case f of None \<Rightarrow> cb | Some g \<Rightarrow> g cb);
               (s1, c1) = DependencyScope cb1 tag (Some s) c
           in (Inr s1, c1)))"

definition upd_scope :: "nat \<Rightarrow> (di_scope \<Rightarrow> di_scope) \<Rightarrow> container \<Rightarrow> container" where
  "upd_scope s f c = c\<lparr>dc_scopes := (dc_scopes c)[s := f (dc_scopes c ! s)]\<rparr>"

definition store_instance :: "nat \<Rightarrow> nat \<Rightarrow> nat \<Rightarrow> container \<Rightarrow> container" where
  "store_instance s i ob = upd_scope s (\<lambda>d. d\<lparr>ds_instances := (ds_instances d)(i \<mapsto> ob)\<rparr>)"

text \<open>The end of a scope; its children hold it weakly.\<close>

definition destroy_scope :: "nat \<Rightarrow> container \<Rightarrow> container" where
  "destroy_scope s = upd_scope s (\<lambda>d. d\<lparr>ds_alive := False\<rparr>)"

section \<open>Resolution\<close>

definition tryLockParent :: "nat \<Rightarrow> container \<Rightarrow> nat option res" where
  "tryLockParent s c =
     (case ds_parent (dc_scopes c ! s) of
        None \<Rightarrow> Inr None
      | Some p \<Rightarrow> if ds_alive (dc_scopes c ! p) then Inr (Some p)
                  else Inl (DependencyResolution ''Parent scope was deleted''))"

text \<open>
  The walks up the tree of scopes end because a parent is older than its children; the guard
  \<open>p < s\<close> shows that to the termination proof.
\<close>

function findMatchingScope :: "string \<Rightarrow> container \<Rightarrow> nat \<Rightarrow> nat option res" where
  "findMatchingScope tag c s =
     (if tag = ds_tag (dc_scopes c ! s) then Inr (Some s)
      else (case tryLockParent s c of
              Inl e \<Rightarrow> Inl e
            | Inr parent \<Rightarrow>
                (case parent of
                   None \<Rightarrow> Inr None
                 | Some p \<Rightarrow> if p < s then findMatchingScope tag c p else Inr None)))"
  by pat_completeness auto
termination
  by (relation "measure (\<lambda>(tag, c, s). s)") auto

declare findMatchingScope.simps [simp del]

text \<open>
  Resolution is stated over \<^term>\<open>call\<close>, the resolution of the arguments of factories: of a
  type, single or all, in a scope. \<^const>\<open>None\<close> says that it does not return.
\<close>

type_synonym di_call = "nat \<Rightarrow> u64 \<Rightarrow> bool \<Rightarrow> container \<Rightarrow> (nat list res \<times> container) option"

fun run_args :: "di_call \<Rightarrow> nat \<Rightarrow> argument list \<Rightarrow> container \<Rightarrow> (nat list list res \<times> container) option" where
  "run_args call s [] c = Some (Inr [], c)"
| "run_args call s (a # as) c =
     (case (case a of Single ty \<Rightarrow> call s ty True c | All ty \<Rightarrow> call s ty False c) of
        None \<Rightarrow> None
      | Some (Inl e, c1) \<Rightarrow> Some (Inl e, c1)
      | Some (Inr os, c1) \<Rightarrow>
          (case run_args call s as c1 of
             None \<Rightarrow> None
           | Some (Inl e, c2) \<Rightarrow> Some (Inl e, c2)
           | Some (Inr oss, c2) \<Rightarrow> Some (Inr (os # oss), c2)))"

definition run_factory :: "di_call \<Rightarrow> registration \<Rightarrow> nat \<Rightarrow> container \<Rightarrow> (nat res \<times> container) option" where
  "run_factory call rg s c =
     (case run_args call s (rg_args rg) c of
        None \<Rightarrow> None
      | Some (Inl e, c1) \<Rightarrow> Some (Inl e, c1)
      | Some (Inr oss, c1) \<Rightarrow>
          Some (case rg_result rg of
             Makes \<Rightarrow> (Inr (length (dc_objects c1)),
                 c1\<lparr>dc_objects := dc_objects c1 @ [\<lparr>ob_type = rg_actualType rg, ob_args = oss\<rparr>]\<rparr>)
           | Gives ob \<Rightarrow> (Inr ob, c1)
           | Throws e \<Rightarrow> (Inl e, c1)))"

definition getInstanceForScope :: "di_call \<Rightarrow> registration \<Rightarrow> nat \<Rightarrow> container \<Rightarrow> (nat res \<times> container) option" where
  "getInstanceForScope call rg s c =
     (case ds_instances (dc_scopes c ! s) (rg_id rg) of
        Some ob \<Rightarrow> Some (Inr ob, c)
      | None \<Rightarrow>
          (case run_factory call rg s c of
             None \<Rightarrow> None
           | Some (Inl e, c1) \<Rightarrow> Some (Inl e, c1)
           | Some (Inr ob, c1) \<Rightarrow>
               Some (Inr ob, store_instance s (rg_id rg) ob c1)))"

definition instantiateRegistration ::
  "di_call \<Rightarrow> nat \<Rightarrow> registration \<Rightarrow> nat \<Rightarrow> bool \<Rightarrow> container \<Rightarrow> (nat option res \<times> container) option" where
  "instantiateRegistration call owner rg req throwOnNotFound c =
     (let some = map_option (map_prod (map_sum id Some) id) in
      case rg_lifetime rg of
        InstancePerRequest \<Rightarrow> some (run_factory call rg req c)
      | InstancePerScope \<Rightarrow> some (getInstanceForScope call rg req c)
      | InstancePerMatchingScope \<Rightarrow>
          (case findMatchingScope (rg_tag rg) c req of
             Inl e \<Rightarrow> Some (Inl e, c)
           | Inr (Some s) \<Rightarrow> some (getInstanceForScope call rg s c)
           | Inr None \<Rightarrow>
               if throwOnNotFound
               then Some (Inl (DependencyResolution
                 (''No matching scope found for dependency registered as InstancePerMatchingScope with tag '' @ rg_tag rg)), c)
               else Some (Inr None, c))
      | SingleInstance \<Rightarrow> some (getInstanceForScope call rg owner c))"

fun instantiate_all ::
  "di_call \<Rightarrow> nat \<Rightarrow> registration list \<Rightarrow> nat \<Rightarrow> container \<Rightarrow> (nat list res \<times> container) option" where
  "instantiate_all call owner [] req c = Some (Inr [], c)"
| "instantiate_all call owner (rg # rgs) req c =
     (case instantiateRegistration call owner rg req False c of
        None \<Rightarrow> None
      | Some (Inl e, c1) \<Rightarrow> Some (Inl e, c1)
      | Some (Inr ob, c1) \<Rightarrow>
          (case instantiate_all call owner rgs req c1 of
             None \<Rightarrow> None
           | Some (Inl e, c2) \<Rightarrow> Some (Inl e, c2)
           | Some (Inr obs, c2) \<Rightarrow> Some (Inr (case ob of None \<Rightarrow> obs | Some o1 \<Rightarrow> o1 # obs), c2)))"

function resolve_impl :: "di_call \<Rightarrow> nat \<Rightarrow> u64 \<Rightarrow> bool \<Rightarrow> container \<Rightarrow> nat \<Rightarrow> (nat list res \<times> container) option" where
  "resolve_impl call req ty single c s =
     (case tryLockParent s c of
        Inl e \<Rightarrow> Some (Inl e, c)
      | Inr parent \<Rightarrow>
          (case ds_registrations (dc_scopes c ! s) ty of
             None \<Rightarrow>
               (case parent of
                  None \<Rightarrow> Some (Inr [], c)
                | Some p \<Rightarrow> if p < s then resolve_impl call req ty single c p else Some (Inr [], c))
           | Some rgs \<Rightarrow>
               if single then
                 (case instantiateRegistration call s (last rgs) req True c of
                    None \<Rightarrow> None
                  | Some (Inl e, c1) \<Rightarrow> Some (Inl e, c1)
                  | Some (Inr ob, c1) \<Rightarrow> Some (Inr (case ob of None \<Rightarrow> [] | Some o1 \<Rightarrow> [o1]), c1))
               else
                 (case instantiate_all call s rgs req c of
                    None \<Rightarrow> None
                  | Some (Inl e, c1) \<Rightarrow> Some (Inl e, c1)
                  | Some (Inr obs, c1) \<Rightarrow>
                      (case parent of
                         None \<Rightarrow> Some (Inr obs, c1)
                       | Some p \<Rightarrow>
                           if p < s then
                             (case resolve_impl call req ty single c1 p of
                                None \<Rightarrow> None
                              | Some (Inl e, c2) \<Rightarrow> Some (Inl e, c2)
                              | Some (Inr obs2, c2) \<Rightarrow> Some (Inr (obs @ obs2), c2))
                           else Some (Inr obs, c1)))))"
  by pat_completeness auto
termination
  by (relation "measure (\<lambda>(call, req, ty, single, c, s). s)") auto

declare resolve_impl.simps [simp del]

definition resolve_in :: "di_call \<Rightarrow> di_call" where
  "resolve_in call s ty single c =
     (case resolve_impl call s ty single c s of
        None \<Rightarrow> None
      | Some (Inl e, c1) \<Rightarrow> Some (Inl e, c1)
      | Some (Inr obs, c1) \<Rightarrow>
          Some (if single then (case obs of [] \<Rightarrow> Inl (DependencyResolution ''Dependency not found'') | ob # _ \<Rightarrow> Inr [ob])
                else Inr obs, c1))"

primrec resolve_fuel :: "nat \<Rightarrow> di_call" where
  "resolve_fuel 0 = (\<lambda>s ty single c. None)"
| "resolve_fuel (Suc n) = resolve_in (resolve_fuel n)"

text \<open>\<^verbatim>\<open>resolve<T>()\<close> and \<^verbatim>\<open>resolveAll<T>()\<close> on a handle.\<close>

definition resolve :: "nat \<Rightarrow> nat option \<Rightarrow> u64 \<Rightarrow> container \<Rightarrow> (nat res \<times> container) option" where
  "resolve n h ty c =
     (case h of
        None \<Rightarrow> Some (Inl (DependencyResolution ''This DependencyScope is invalid because it was default-constructed.''), c)
      | Some s \<Rightarrow> map_option (map_prod (map_sum id hd) id) (resolve_fuel n s ty True c))"

definition resolveAll :: "nat \<Rightarrow> nat option \<Rightarrow> u64 \<Rightarrow> container \<Rightarrow> (nat list res \<times> container) option" where
  "resolveAll n h ty c =
     (case h of
        None \<Rightarrow> Some (Inl (DependencyResolution ''This DependencyScope is invalid because it was default-constructed.''), c)
      | Some s \<Rightarrow> resolve_fuel n s ty False c)"

section \<open>The tree of scopes\<close>

text \<open>\<open>above c a s\<close>: \<open>a\<close> is \<open>s\<close> or one of its ancestors.\<close>

inductive above :: "container \<Rightarrow> nat \<Rightarrow> nat \<Rightarrow> bool" for c where
  here: "above c s s"
| up: "ds_parent (dc_scopes c ! s) = Some p \<Longrightarrow> above c a p \<Longrightarrow> above c a s"

definition registered :: "container \<Rightarrow> nat \<Rightarrow> registration \<Rightarrow> bool" where
  "registered c a rg \<longleftrightarrow> (\<exists>ty rgs. ds_registrations (dc_scopes c ! a) ty = Some rgs \<and> rg \<in> set rgs)"

definition first_id :: "container \<Rightarrow> nat \<Rightarrow> nat" where
  "first_id c s = (case ds_parent (dc_scopes c ! s) of None \<Rightarrow> 0 | Some p \<Rightarrow> ds_baseId (dc_scopes c ! p))"

text \<open>
  A scope's parent is older, its registrations are filed under the types they serve, and their
  ids lie between the counter the scope started from, its parent's, and its own.
\<close>

definition scope_wf :: "container \<Rightarrow> nat \<Rightarrow> bool" where
  "scope_wf c s \<longleftrightarrow>
     (\<forall>p. ds_parent (dc_scopes c ! s) = Some p \<longrightarrow> p < s) \<and>
     first_id c s \<le> ds_baseId (dc_scopes c ! s) \<and>
     (\<forall>ty rgs. ds_registrations (dc_scopes c ! s) ty = Some rgs \<longrightarrow>
        rgs \<noteq> [] \<and> (\<forall>rg \<in> set rgs. ty \<in> set (types_of rg))) \<and>
     (\<forall>rg. registered c s rg \<longrightarrow> first_id c s \<le> rg_id rg \<and> rg_id rg < ds_baseId (dc_scopes c ! s)) \<and>
     (\<forall>rg rg'. registered c s rg \<longrightarrow> registered c s rg' \<longrightarrow> rg_id rg = rg_id rg' \<longrightarrow> rg = rg')"

definition di_wf :: "container \<Rightarrow> bool" where
  "di_wf c \<longleftrightarrow> (\<forall>s < length (dc_scopes c). scope_wf c s)"

lemma di_wfD:
  assumes "di_wf c" "s < length (dc_scopes c)"
  shows "ds_parent (dc_scopes c ! s) = Some p \<Longrightarrow> p < s"
    "first_id c s \<le> ds_baseId (dc_scopes c ! s)"
    "ds_registrations (dc_scopes c ! s) ty = Some rgs \<Longrightarrow> rgs \<noteq> []"
    "ds_registrations (dc_scopes c ! s) ty = Some rgs \<Longrightarrow> rg \<in> set rgs \<Longrightarrow> ty \<in> set (types_of rg)"
    "registered c s rg \<Longrightarrow> first_id c s \<le> rg_id rg \<and> rg_id rg < ds_baseId (dc_scopes c ! s)"
    "registered c s rg \<Longrightarrow> registered c s rg' \<Longrightarrow> rg_id rg = rg_id rg' \<Longrightarrow> rg = rg'"
  using assms unfolding di_wf_def scope_wf_def by blast+

lemma above_older: "above c a s \<Longrightarrow> di_wf c \<Longrightarrow> s < length (dc_scopes c) \<Longrightarrow> a \<le> s"
proof (induction rule: above.induct)
  case (up s p a)
  then show ?case using di_wfD(1) [OF up.prems up.hyps(1)] by simp
qed simp

lemma above_trans: "above c b s \<Longrightarrow> above c a b \<Longrightarrow> above c a s"
  by (induction rule: above.induct) (auto intro: above.up)

lemma above_linear: "above c a s \<Longrightarrow> above c b s \<Longrightarrow> above c a b \<or> above c b a"
proof (induction arbitrary: b rule: above.induct)
  case (here s)
  then show ?case by simp
next
  case (up s p a)
  from up.prems show ?case
  proof (cases rule: above.cases)
    case here
    then show ?thesis using up.hyps by (blast intro: above.up)
  next
    case (up q)
    then show ?thesis using \<open>ds_parent (dc_scopes c ! s) = Some p\<close> \<open>\<And>b. above c b p \<Longrightarrow> above c a b \<or> above c b a\<close> by simp
  qed
qed

lemma above_ids:
  "above c a s \<Longrightarrow> di_wf c \<Longrightarrow> s < length (dc_scopes c) \<Longrightarrow> a \<noteq> s \<Longrightarrow> ds_baseId (dc_scopes c ! a) \<le> first_id c s"
proof (induction rule: above.induct)
  case (up s p a)
  have p: "p < s" using di_wfD(1) [OF up.prems(1,2) up.hyps(1)] .
  have "ds_baseId (dc_scopes c ! a) \<le> ds_baseId (dc_scopes c ! p)"
  proof (cases "a = p")
    case False
    then have "ds_baseId (dc_scopes c ! a) \<le> first_id c p" using up.IH up.prems p by simp
    also have "\<dots> \<le> ds_baseId (dc_scopes c ! p)" using di_wfD(2) [OF up.prems(1)] p up.prems(2) by simp
    finally show ?thesis .
  qed simp
  then show ?case using up.hyps(1) by (simp add: first_id_def)
qed simp

text \<open>Ids are unique along a branch.\<close>

lemma branch_ids_unique:
  assumes "di_wf c" "s < length (dc_scopes c)" "above c a s" "above c b s"
    and "registered c a rg" "registered c b rg'" "rg_id rg = rg_id rg'"
  shows "a = b \<and> rg = rg'"
proof -
  have lt: "a < length (dc_scopes c)" "b < length (dc_scopes c)" using above_older assms(1-4) by fastforce+
  have ab: "a = b"
  proof (rule ccontr)
    assume ne: "a \<noteq> b"
    from above_linear [OF assms(3,4)] show False
    proof
      assume "above c a b"
      from above_ids [OF this assms(1) lt(2) ne] show False
        using di_wfD(5) [OF assms(1) lt(1) assms(5)] di_wfD(5) [OF assms(1) lt(2) assms(6)] assms(7) by simp
    next
      assume "above c b a"
      from above_ids [OF this assms(1) lt(1) ne [symmetric]] show False
        using di_wfD(5) [OF assms(1) lt(1) assms(5)] di_wfD(5) [OF assms(1) lt(2) assms(6)] assms(7) by simp
    qed
  qed
  then show ?thesis using di_wfD(6) [OF assms(1) lt(1) assms(5)] assms(6,7) by simp
qed

section \<open>What resolution keeps\<close>

definition same_scope :: "di_scope \<Rightarrow> di_scope \<Rightarrow> bool" where
  "same_scope d d' \<longleftrightarrow> ds_registrations d' = ds_registrations d \<and> ds_tag d' = ds_tag d \<and> ds_parent d' = ds_parent d \<and>
     ds_baseId d' = ds_baseId d \<and> ds_alive d' = ds_alive d \<and> ds_instances d \<subseteq>\<^sub>m ds_instances d'"

definition grows :: "container \<Rightarrow> container \<Rightarrow> bool" where
  "grows c c' \<longleftrightarrow> length (dc_scopes c') = length (dc_scopes c) \<and>
     (\<forall>s < length (dc_scopes c). same_scope (dc_scopes c ! s) (dc_scopes c' ! s)) \<and>
     (\<exists>obs. dc_objects c' = dc_objects c @ obs)"

lemma same_scope_refl [simp]: "same_scope d d"
  by (simp add: same_scope_def)

lemma same_scope_trans: "same_scope d d' \<Longrightarrow> same_scope d' d'' \<Longrightarrow> same_scope d d''"
  by (auto simp: same_scope_def intro: map_le_trans)

lemma grows_refl [simp]: "grows c c"
  by (simp add: grows_def)

lemma grows_trans: "grows c c' \<Longrightarrow> grows c' c'' \<Longrightarrow> grows c c''"
  unfolding grows_def by (auto intro: same_scope_trans)

lemma grows_length: "grows c c' \<Longrightarrow> length (dc_scopes c') = length (dc_scopes c)"
  by (simp add: grows_def)

lemma growsD:
  assumes "grows c c'" "s < length (dc_scopes c)"
  shows "ds_registrations (dc_scopes c' ! s) = ds_registrations (dc_scopes c ! s)"
    "ds_parent (dc_scopes c' ! s) = ds_parent (dc_scopes c ! s)"
    "ds_baseId (dc_scopes c' ! s) = ds_baseId (dc_scopes c ! s)"
    "ds_alive (dc_scopes c' ! s) = ds_alive (dc_scopes c ! s)"
    "ds_tag (dc_scopes c' ! s) = ds_tag (dc_scopes c ! s)"
    "ds_instances (dc_scopes c ! s) i = Some ob \<Longrightarrow> ds_instances (dc_scopes c' ! s) i = Some ob"
proof -
  have "same_scope (dc_scopes c ! s) (dc_scopes c' ! s)" using assms unfolding grows_def by blast
  then show "ds_registrations (dc_scopes c' ! s) = ds_registrations (dc_scopes c ! s)"
    "ds_parent (dc_scopes c' ! s) = ds_parent (dc_scopes c ! s)"
    "ds_baseId (dc_scopes c' ! s) = ds_baseId (dc_scopes c ! s)"
    "ds_alive (dc_scopes c' ! s) = ds_alive (dc_scopes c ! s)"
    "ds_tag (dc_scopes c' ! s) = ds_tag (dc_scopes c ! s)"
    "ds_instances (dc_scopes c ! s) i = Some ob \<Longrightarrow> ds_instances (dc_scopes c' ! s) i = Some ob"
    unfolding same_scope_def map_le_def by simp_all (metis domI)
qed

lemma grows_objects:
  assumes "grows c c'" "ob < length (dc_objects c)"
  shows "ob < length (dc_objects c')" "dc_objects c' ! ob = dc_objects c ! ob"
  using assms by (auto simp: grows_def nth_append)

lemma grows_registered: "grows c c' \<Longrightarrow> s < length (dc_scopes c) \<Longrightarrow> registered c' s rg = registered c s rg"
  by (simp add: registered_def growsD)

lemma grows_wf:
  assumes "grows c c'" "di_wf c"
  shows "di_wf c'"
proof -
  have "scope_wf c' s" if s: "s < length (dc_scopes c)" for s
  proof -
    have w: "scope_wf c s" using assms(2) s by (simp add: di_wf_def)
    have "first_id c' s = first_id c s"
      using growsD [OF assms(1)] s di_wfD(1) [OF assms(2) s] by (auto simp: first_id_def split: option.splits)
    then show ?thesis
      using w growsD(1-3) [OF assms(1) s] grows_registered [OF assms(1) s] unfolding scope_wf_def by simp
  qed
  then show ?thesis using grows_length [OF assms(1)] by (simp add: di_wf_def)
qed

lemma grows_above:
  assumes "grows c c'" "di_wf c"
  shows "above c a s \<Longrightarrow> s < length (dc_scopes c) \<Longrightarrow> above c' a s"
proof (induction rule: above.induct)
  case (up s p a)
  then show ?case using di_wfD(1) [OF assms(2) up.prems up.hyps(1)] growsD(2) [OF assms(1) up.prems]
    by (intro above.up [of c' s p a]) simp_all
qed (rule above.here)

lemma grows_new_object [simp]: "grows c (c\<lparr>dc_objects := dc_objects c @ obs\<rparr>)"
  by (simp add: grows_def)

lemma upd_scope_nth:
  "t < length (dc_scopes c) \<Longrightarrow> dc_scopes (upd_scope s f c) ! t = (if t = s then f (dc_scopes c ! s) else dc_scopes c ! t)"
  by (simp add: upd_scope_def)

lemma store_sel [simp]:
  "ds_parent (dc_scopes (store_instance s i ob c) ! t) = ds_parent (dc_scopes c ! t)"
  "ds_registrations (dc_scopes (store_instance s i ob c) ! t) = ds_registrations (dc_scopes c ! t)"
  "length (dc_scopes (store_instance s i ob c)) = length (dc_scopes c)"
  "dc_objects (store_instance s i ob c) = dc_objects c"
  by (cases "s < length (dc_scopes c)"; cases "t = s"; simp add: store_instance_def upd_scope_def list_update_beyond)+

lemma store_instances:
  "t < length (dc_scopes c) \<Longrightarrow> ds_instances (dc_scopes (store_instance s i ob c) ! t) =
     (if t = s then (ds_instances (dc_scopes c ! s))(i \<mapsto> ob) else ds_instances (dc_scopes c ! t))"
  "s < length (dc_scopes c) \<Longrightarrow> dc_scopes (store_instance s i ob c) ! s =
     (dc_scopes c ! s)\<lparr>ds_instances := (ds_instances (dc_scopes c ! s))(i \<mapsto> ob)\<rparr>"
  "t < length (dc_scopes c) \<Longrightarrow> t \<noteq> s \<Longrightarrow> dc_scopes (store_instance s i ob c) ! t = dc_scopes c ! t"
  by (simp_all add: store_instance_def upd_scope_nth)

text \<open>
  Nested resolution may have stored the same key meanwhile; what was there at the start stays.
\<close>

lemma grows_store:
  assumes "grows c c1" "ds_instances (dc_scopes c ! s) i = None"
  shows "grows c (store_instance s i ob c1)"
  unfolding grows_def
proof (intro conjI allI impI)
  show "length (dc_scopes (store_instance s i ob c1)) = length (dc_scopes c)" using grows_length [OF assms(1)] by simp
  show "\<exists>obs. dc_objects (store_instance s i ob c1) = dc_objects c @ obs" using assms(1) by (simp add: grows_def)
  fix t assume t: "t < length (dc_scopes c)"
  have st: "same_scope (dc_scopes c ! t) (dc_scopes c1 ! t)" using assms(1) t by (simp add: grows_def)
  show "same_scope (dc_scopes c ! t) (dc_scopes (store_instance s i ob c1) ! t)"
  proof (cases "t = s")
    case True
    have "ds_instances (dc_scopes c ! t) \<subseteq>\<^sub>m (ds_instances (dc_scopes c1 ! t))(i \<mapsto> ob)"
      using st assms(2) True by (auto simp: same_scope_def map_le_def)
    then show ?thesis using st t True grows_length [OF assms(1)] by (simp add: same_scope_def store_instances)
  next
    case False
    then show ?thesis using st t grows_length [OF assms(1)] by (simp add: store_instances)
  qed
qed

text \<open>
  An object serves a type in a scope when it is what a registration above that scope, filed
  under that type, makes.
\<close>

definition serves :: "container \<Rightarrow> nat \<Rightarrow> registration \<Rightarrow> nat \<Rightarrow> bool" where
  "serves c s rg ob \<longleftrightarrow> (\<exists>a. above c a s \<and> registered c a rg) \<and>
     ob < length (dc_objects c) \<and> ob_type (dc_objects c ! ob) = rg_actualType rg"

definition typed :: "container \<Rightarrow> bool" where
  "typed c \<longleftrightarrow>
     (\<forall>s < length (dc_scopes c). \<forall>i ob. ds_instances (dc_scopes c ! s) i = Some ob \<longrightarrow>
        (\<exists>rg. serves c s rg ob \<and> rg_id rg = i)) \<and>
     (\<forall>s < length (dc_scopes c). \<forall>rg. registered c s rg \<longrightarrow> rg_lifetime rg \<noteq> InstancePerMatchingScope \<and>
        (\<forall>ob. rg_result rg = Gives ob \<longrightarrow> ob < length (dc_objects c) \<and> ob_type (dc_objects c ! ob) = rg_actualType rg))"

lemma serves_grows:
  assumes "grows c c'" "di_wf c" "s < length (dc_scopes c)" "serves c s rg ob"
  shows "serves c' s rg ob"
proof -
  obtain a where a: "above c a s" "registered c a rg" using assms(4) by (auto simp: serves_def)
  have "a < length (dc_scopes c)" using above_older [OF a(1) assms(2,3)] assms(3) by simp
  then have "above c' a s" "registered c' a rg"
    using grows_above [OF assms(1,2) a(1) assms(3)] grows_registered [OF assms(1)] a(2) by simp_all
  then show ?thesis using assms(4) grows_objects [OF assms(1)] by (auto simp: serves_def)
qed

lemma typed_objects:
  assumes "di_wf c" "typed c"
  shows "typed (c\<lparr>dc_objects := dc_objects c @ obs\<rparr>)"
proof -
  let ?c = "c\<lparr>dc_objects := dc_objects c @ obs\<rparr>"
  have g: "grows c ?c" by simp
  have "\<exists>rg. serves ?c s rg ob \<and> rg_id rg = i"
    if "s < length (dc_scopes c)" "ds_instances (dc_scopes c ! s) i = Some ob" for s i ob
    using assms(2) that serves_grows [OF g assms(1)] unfolding typed_def by blast
  moreover have "rg_lifetime rg \<noteq> InstancePerMatchingScope \<and>
      (\<forall>ob. rg_result rg = Gives ob \<longrightarrow> ob < length (dc_objects ?c) \<and> ob_type (dc_objects ?c ! ob) = rg_actualType rg)"
    if "s < length (dc_scopes c)" "registered ?c s rg" for s rg
  proof -
    have "registered c s rg" using that grows_registered [OF g that(1)] by simp
    then have "rg_lifetime rg \<noteq> InstancePerMatchingScope"
      "\<And>ob. rg_result rg = Gives ob \<Longrightarrow> ob < length (dc_objects c) \<and> ob_type (dc_objects c ! ob) = rg_actualType rg"
      using assms(2) that(1) unfolding typed_def by blast+
    then show ?thesis by (auto simp: nth_append trans_less_add1)
  qed
  ultimately show ?thesis unfolding typed_def by simp
qed

lemma above_store [simp]: "above (store_instance s i ob c) a t = above c a t"
proof
  show "above (store_instance s i ob c) a t \<Longrightarrow> above c a t"
    by (induction rule: above.induct) (auto intro: above.intros)
  show "above c a t \<Longrightarrow> above (store_instance s i ob c) a t"
    by (induction rule: above.induct) (auto intro: above.intros)
qed

lemma serves_store [simp]: "serves (store_instance s i ob c) t rg ob' = serves c t rg ob'"
  by (simp add: serves_def registered_def)

lemma typed_store:
  assumes "typed c" "serves c s rg ob" "rg_id rg = i"
  shows "typed (store_instance s i ob c)"
proof -
  have "\<exists>rg. serves c t rg ob' \<and> rg_id rg = j"
    if t: "t < length (dc_scopes c)" "ds_instances (dc_scopes (store_instance s i ob c) ! t) j = Some ob'" for t j ob'
  proof (cases "t = s \<and> j = i")
    case True
    then show ?thesis using t assms(2,3) by (auto simp: store_instances)
  next
    case False
    then have "ds_instances (dc_scopes c ! t) j = Some ob'"
      using t by (auto simp: store_instances split: if_splits)
    then show ?thesis using assms(1) t(1) unfolding typed_def by blast
  qed
  then show ?thesis using assms(1) unfolding typed_def by (simp add: registered_def)
qed

text \<open>
  One induction proves both facts about resolution: containers only grow, and they stay
  typed if they are (\<open>T\<close>).
\<close>

definition di_inv :: "bool \<Rightarrow> container \<Rightarrow> bool" where
  "di_inv T c \<longleftrightarrow> di_wf c \<and> (T \<longrightarrow> typed c)"

definition keeps :: "bool \<Rightarrow> container \<Rightarrow> container \<Rightarrow> bool" where
  "keeps T c c' \<longleftrightarrow> grows c c' \<and> di_inv T c'"

definition call_keeps :: "bool \<Rightarrow> di_call \<Rightarrow> bool" where
  "call_keeps T call \<longleftrightarrow> (\<forall>s ty single c x c'. di_inv T c \<longrightarrow> s < length (dc_scopes c) \<longrightarrow>
     call s ty single c = Some (x, c') \<longrightarrow> keeps T c c')"

lemma keeps_refl: "di_inv T c \<Longrightarrow> keeps T c c"
  by (simp add: keeps_def)

lemma keeps_trans: "keeps T c c' \<Longrightarrow> keeps T c' c'' \<Longrightarrow> keeps T c c''"
  unfolding keeps_def using grows_trans by blast

lemma keepsD: "keeps T c c' \<Longrightarrow> grows c c'" "keeps T c c' \<Longrightarrow> di_inv T c'"
  "keeps T c c' \<Longrightarrow> length (dc_scopes c') = length (dc_scopes c)"
  by (simp_all add: keeps_def grows_length)

lemma run_args_keeps:
  assumes "call_keeps T call"
  shows "di_inv T c \<Longrightarrow> s < length (dc_scopes c) \<Longrightarrow> run_args call s as c = Some (x, c') \<Longrightarrow> keeps T c c'"
proof (induction as arbitrary: c x)
  case Nil
  then show ?case by (simp add: keeps_refl)
next
  case (Cons a as)
  let ?r = "case a of Single ty \<Rightarrow> call s ty True c | All ty \<Rightarrow> call s ty False c"
  have k: "keeps T c c1" if "?r = Some (y, c1)" for y c1
    using assms Cons.prems(1,2) that unfolding call_keeps_def by (cases a; simp; blast)
  obtain y c1 where r: "?r = Some (y, c1)" using Cons.prems(3) by (auto split: option.splits)
  show ?case
  proof (cases y)
    case (Inl e)
    then show ?thesis using Cons.prems(3) r k by simp
  next
    case (Inr os)
    obtain z c2 where s: "run_args call s as c1 = Some (z, c2)" using Cons.prems(3) r Inr by (auto split: option.splits)
    have c2: "c2 = c'" using Cons.prems(3) r Inr s by (auto split: sum.splits)
    then have "keeps T c1 c'"
      using Cons.IH [OF keepsD(2) [OF k [OF r]], of z] keepsD(3) [OF k [OF r]] Cons.prems(2) s by simp
    then show ?thesis using keeps_trans [OF k [OF r]] by blast
  qed
qed

lemma run_factory_keeps:
  assumes "call_keeps T call" "di_inv T c" "s < length (dc_scopes c)" "run_factory call rg s c = Some (x, c')"
    and "T \<Longrightarrow> above c a s \<and> registered c a rg"
  shows "keeps T c c' \<and> (T \<longrightarrow> (\<forall>ob. x = Inr ob \<longrightarrow> serves c' s rg ob))"
proof -
  obtain y c1 where r: "run_args call s (rg_args rg) c = Some (y, c1)"
    using assms(4) by (auto simp: run_factory_def split: option.splits)
  note k = run_args_keeps [OF assms(1-3) r]
  have up: "above c1 a s \<and> registered c1 a rg \<and> a < length (dc_scopes c1)" if T
  proof -
    have a: "a < length (dc_scopes c)" using above_older assms(2,3) assms(5) [OF that] by (fastforce simp: di_inv_def)
    then show ?thesis
      using grows_above [OF keepsD(1) [OF k]] grows_registered [OF keepsD(1) [OF k] a] assms(2,3) assms(5) [OF that] keepsD(3) [OF k]
      by (simp add: di_inv_def)
  qed
  show ?thesis
  proof (cases y)
    case (Inl e)
    then show ?thesis using assms(4) r k by (auto simp: run_factory_def)
  next
    case (Inr oss)
    show ?thesis
    proof (cases "rg_result rg")
      case Makes
      let ?c = "c1\<lparr>dc_objects := dc_objects c1 @ [\<lparr>ob_type = rg_actualType rg, ob_args = oss\<rparr>]\<rparr>"
      have c': "x = Inr (length (dc_objects c1))" "c' = ?c"
        using assms(4) r Inr Makes by (auto simp: run_factory_def)
      have g: "grows c1 ?c" by simp
      have "keeps T c1 ?c"
        using keepsD(2) [OF k] typed_objects grows_wf [OF g] g by (simp add: keeps_def di_inv_def)
      moreover have "above ?c a s \<and> registered ?c a rg" if T
        using grows_above [OF g] grows_registered [OF g, of a] up [OF that] keepsD(2,3) [OF k] assms(3)
        by (simp add: di_inv_def)
      ultimately show ?thesis using c' keeps_trans [OF k] by (auto simp: serves_def)
    next
      case (Gives ob)
      have c': "x = Inr ob" "c' = c1" using assms(4) r Inr Gives by (auto simp: run_factory_def)
      have "ob < length (dc_objects c1) \<and> ob_type (dc_objects c1 ! ob) = rg_actualType rg" if T
        using keepsD(2) [OF k] up [OF that] that Gives by (auto simp: di_inv_def typed_def)
      then show ?thesis using c' k up by (auto simp: serves_def)
    next
      case (Throws e)
      then show ?thesis using assms(4) r Inr k by (auto simp: run_factory_def)
    qed
  qed
qed

lemma getInstance_keeps:
  assumes "call_keeps T call" "di_inv T c" "s < length (dc_scopes c)" "getInstanceForScope call rg s c = Some (x, c')"
    and "T \<Longrightarrow> above c a s \<and> registered c a rg"
  shows "keeps T c c' \<and> (T \<longrightarrow> (\<forall>ob. x = Inr ob \<longrightarrow> serves c' s rg ob))"
proof (cases "ds_instances (dc_scopes c ! s) (rg_id rg)")
  case (Some ob)
  then have r: "x = Inr ob" "c' = c" using assms(4) by (auto simp: getInstanceForScope_def)
  have "serves c s rg ob" if T: T
  proof -
    obtain rg' where rg': "serves c s rg' ob" "rg_id rg' = rg_id rg"
      using assms(2,3) Some T unfolding di_inv_def typed_def by metis
    then obtain b where "above c b s" "registered c b rg'" by (auto simp: serves_def)
    then have "rg' = rg" using branch_ids_unique [of c s b a rg' rg] assms(2,3) assms(5) [OF T] rg'(2) by (simp add: di_inv_def)
    then show ?thesis using rg'(1) by simp
  qed
  then show ?thesis using r keeps_refl [OF assms(2)] by simp
next
  case None
  obtain y c1 where r: "run_factory call rg s c = Some (y, c1)"
    using assms(4) None by (auto simp: getInstanceForScope_def split: option.splits)
  note k = run_factory_keeps [OF assms(1-3) r assms(5)]
  show ?thesis
  proof (cases y)
    case (Inl e)
    then show ?thesis using assms(4) None r k by (simp add: getInstanceForScope_def)
  next
    case (Inr ob)
    let ?c = "store_instance s (rg_id rg) ob c1"
    have c': "x = Inr ob" "c' = ?c" using assms(4) None r Inr by (auto simp: getInstanceForScope_def)
    have g: "grows c ?c" using grows_store [OF keepsD(1) None] k by blast
    have "di_inv T ?c"
      using grows_wf [OF g] k Inr typed_store [of c1 s rg ob "rg_id rg"] assms(2)
      by (auto simp: di_inv_def keeps_def)
    then show ?thesis using c' g k Inr by (simp add: keeps_def)
  qed
qed

lemma serves_above: "serves c a rg ob \<Longrightarrow> above c a s \<Longrightarrow> serves c s rg ob"
  unfolding serves_def using above_trans by blast

lemma findMatchingScope_above:
  "findMatchingScope tag c s = Inr (Some m) \<Longrightarrow> above c m s \<and> ds_tag (dc_scopes c ! m) = tag"
proof (induction tag c s rule: findMatchingScope.induct)
  case (1 tag c s)
  show ?case
  proof (cases "tag = ds_tag (dc_scopes c ! s)")
    case True
    then have "findMatchingScope tag c s = Inr (Some s)" by (subst findMatchingScope.simps) simp
    then show ?thesis using "1.prems" True by (simp add: above.here)
  next
    case False
    then obtain p where p: "tryLockParent s c = Inr (Some p)" "p < s" "findMatchingScope tag c p = Inr (Some m)"
      using "1.prems" by (auto simp: findMatchingScope.simps [of tag c s] split: sum.splits option.splits if_splits)
    then have "ds_parent (dc_scopes c ! s) = Some p" by (auto simp: tryLockParent_def split: option.splits if_splits)
    then show ?thesis using "1.IH" [OF False p(1) refl p(2,3)] by (blast intro: above.up)
  qed
qed

lemma instantiate_keeps:
  assumes "call_keeps T call" "di_inv T c" "req < length (dc_scopes c)" "above c owner req" "registered c owner rg"
    and "instantiateRegistration call owner rg req th c = Some (x, c')"
  shows "keeps T c c' \<and> (T \<longrightarrow> (\<forall>ob. x = Inr (Some ob) \<longrightarrow> serves c' req rg ob))"
proof -
  have owner: "owner < length (dc_scopes c)" using above_older [OF assms(4)] assms(2,3) by (fastforce simp: di_inv_def)
  have up: "above c owner req \<and> registered c owner rg" "above c owner owner \<and> registered c owner rg"
    using assms(4,5) by (simp_all add: above.here)
  show ?thesis
  proof (cases "rg_lifetime rg")
    case InstancePerRequest
    then obtain y where y: "run_factory call rg req c = Some (y, c')" "x = map_sum id Some y"
      using assms(6) by (auto simp: instantiateRegistration_def)
    then show ?thesis using run_factory_keeps [OF assms(1-3) y(1) up(1)] by (cases y) auto
  next
    case InstancePerScope
    then obtain y where y: "getInstanceForScope call rg req c = Some (y, c')" "x = map_sum id Some y"
      using assms(6) by (auto simp: instantiateRegistration_def)
    then show ?thesis using getInstance_keeps [OF assms(1-3) y(1) up(1)] by (cases y) auto
  next
    case InstancePerMatchingScope
    then have T: "\<not> T" using assms(2) owner assms(5) by (auto simp: di_inv_def typed_def)
    show ?thesis
    proof (cases "\<exists>m. findMatchingScope (rg_tag rg) c req = Inr (Some m)")
      case True
      then obtain m where m: "findMatchingScope (rg_tag rg) c req = Inr (Some m)" by blast
      then obtain y where y: "getInstanceForScope call rg m c = Some (y, c')"
        using assms(6) InstancePerMatchingScope by (auto simp: instantiateRegistration_def)
      have "m < length (dc_scopes c)"
        using above_older findMatchingScope_above [OF m] assms(2,3) by (fastforce simp: di_inv_def)
      from getInstance_keeps [OF assms(1,2) this y] T show ?thesis by blast
    next
      case False
      then have "c' = c"
        using assms(6) InstancePerMatchingScope
        by (auto simp: instantiateRegistration_def split: sum.splits option.splits if_splits)
      then show ?thesis using keeps_refl [OF assms(2)] T by simp
    qed
  next
    case SingleInstance
    then obtain y where y: "getInstanceForScope call rg owner c = Some (y, c')" "x = map_sum id Some y"
      using assms(6) by (auto simp: instantiateRegistration_def)
    note k = getInstance_keeps [OF assms(1,2) owner y(1) up(2)]
    have "above c' owner req"
      using grows_above [OF keepsD(1) [OF conjunct1 [OF k]] _ assms(4,3)] assms(2) by (simp add: di_inv_def)
    then show ?thesis using k y(2) serves_above by (cases y) auto
  qed
qed

lemma instantiate_all_keeps:
  assumes "call_keeps T call"
  shows "di_inv T c \<Longrightarrow> req < length (dc_scopes c) \<Longrightarrow> above c owner req \<Longrightarrow> \<forall>rg \<in> set rgs. registered c owner rg \<Longrightarrow>
    instantiate_all call owner rgs req c = Some (x, c') \<Longrightarrow>
    keeps T c c' \<and> (T \<longrightarrow> (\<forall>obs. x = Inr obs \<longrightarrow> (\<forall>ob \<in> set obs. \<exists>rg \<in> set rgs. serves c' req rg ob)))"
proof (induction rgs arbitrary: c x)
  case Nil
  then show ?case by (auto simp: keeps_refl)
next
  case (Cons rg rgs)
  obtain y c1 where r: "instantiateRegistration call owner rg req False c = Some (y, c1)"
    using Cons.prems(5) by (auto split: option.splits)
  have "registered c owner rg" using Cons.prems(4) by simp
  note k = instantiate_keeps [OF assms Cons.prems(1-3) this r]
  show ?case
  proof (cases y)
    case (Inl e)
    then show ?thesis using Cons.prems(5) r k by auto
  next
    case (Inr ob)
    obtain z c2 where s: "instantiate_all call owner rgs req c1 = Some (z, c2)" using Cons.prems(5) r Inr by (auto split: option.splits)
    have c2: "c2 = c'" using Cons.prems(5) r Inr s by (auto split: sum.splits)
    note k1 = conjunct1 [OF k]
    have lt: "req < length (dc_scopes c1)" using keepsD(3) [OF k1] Cons.prems(2) by simp
    have owner: "owner < length (dc_scopes c)" using above_older [OF Cons.prems(3)] Cons.prems(1,2) by (fastforce simp: di_inv_def)
    have up: "above c1 owner req" "\<forall>rg \<in> set rgs. registered c1 owner rg"
      using grows_above [OF keepsD(1) [OF k1] _ Cons.prems(3,2)] grows_registered [OF keepsD(1) [OF k1] owner] Cons.prems(1,4)
      by (auto simp: di_inv_def)
    note IH = Cons.IH [OF keepsD(2) [OF k1] lt up s [unfolded c2]]
    have sv: "serves c' req rg o1" if "T" "ob = Some o1" for o1
      using serves_grows [OF keepsD(1) [OF conjunct1 [OF IH]] _ lt] k that Inr keepsD(2) [OF k1] by (simp add: di_inv_def)
    have x: "\<forall>obs. x = Inr obs \<longrightarrow> (\<exists>os. z = Inr os \<and> obs = (case ob of None \<Rightarrow> os | Some o1 \<Rightarrow> o1 # os))"
      using Cons.prems(5) r Inr s by (auto split: sum.splits)
    show ?thesis
      using IH sv keeps_trans [OF k1 conjunct1 [OF IH]] x by (cases ob) fastforce+
  qed
qed

text \<open>The objects that resolution finds serve the type asked for.\<close>

definition found :: "bool \<Rightarrow> container \<Rightarrow> nat \<Rightarrow> u64 \<Rightarrow> nat list res \<Rightarrow> bool" where
  "found T c req ty x \<longleftrightarrow> (T \<longrightarrow> (\<forall>obs. x = Inr obs \<longrightarrow> (\<forall>ob \<in> set obs. \<exists>rg. serves c req rg ob \<and> ty \<in> set (types_of rg))))"

lemma found_grows:
  assumes "keeps T c c'" "di_inv T c" "req < length (dc_scopes c)" "found T c req ty (Inr obs)"
  shows "found T c' req ty (Inr obs)"
  using assms(4) serves_grows [OF keepsD(1) [OF assms(1)] _ assms(3)] assms(2)
  unfolding found_def di_inv_def by blast

lemma resolve_impl_keeps:
  assumes "call_keeps T call"
  shows "di_inv T c \<Longrightarrow> req < length (dc_scopes c) \<Longrightarrow> above c s req \<Longrightarrow>
    resolve_impl call req ty single c s = Some (x, c') \<Longrightarrow> keeps T c c' \<and> found T c' req ty x"
proof (induction s arbitrary: c x c' rule: less_induct)
  case (less s)
  have s: "s < length (dc_scopes c)" using above_older [OF less.prems(3)] less.prems(1,2) by (fastforce simp: di_inv_def)
  have wf: "di_wf c" using less.prems(1) by (simp add: di_inv_def)
  show ?case
  proof (cases "tryLockParent s c")
    case (Inl e)
    then have "x = Inl e" "c' = c" using less.prems(4) by (simp_all add: resolve_impl.simps [of call req ty _ c s])
    then show ?thesis using keeps_refl [OF less.prems(1)] by (simp add: found_def)
  next
    case (Inr parent)
    have par: "ds_parent (dc_scopes c ! s) = Some p \<and> p < s \<and> above c p req" if "parent = Some p" for p
    proof -
      have p: "ds_parent (dc_scopes c ! s) = Some p"
        using Inr that by (auto simp: tryLockParent_def split: option.splits if_splits)
      then show ?thesis
        using di_wfD(1) [OF wf s p] above_trans [OF less.prems(3)] by (blast intro: above.intros)
    qed
    show ?thesis
    proof (cases "ds_registrations (dc_scopes c ! s) ty")
      case None
      show ?thesis
      proof (cases parent)
        case None
        then have "x = Inr []" "c' = c"
          using less.prems(4) Inr \<open>ds_registrations (dc_scopes c ! s) ty = None\<close>
          by (simp_all add: resolve_impl.simps [of call req ty _ c s])
        then show ?thesis using keeps_refl [OF less.prems(1)] by (simp add: found_def)
      next
        case (Some p)
        then have "resolve_impl call req ty single c p = Some (x, c')"
          using less.prems(4) Inr None par by (simp add: resolve_impl.simps [of call req ty _ c s])
        then show ?thesis using less.IH [of p c] less.prems(1,2) par [OF Some] by blast
      qed
    next
      case (Some rgs)
      have regs: "registered c s rg \<and> ty \<in> set (types_of rg)" if "rg \<in> set rgs" for rg
        using di_wfD(4) [OF wf s Some that] Some that by (auto simp: registered_def)
      have ne: "rgs \<noteq> []" using di_wfD(3) [OF wf s Some] .
      show ?thesis
      proof (cases single)
        case True
        obtain y c1 where r: "instantiateRegistration call s (last rgs) req True c = Some (y, c1)"
          using less.prems(4) Inr Some True
          by (auto simp: resolve_impl.simps [of call req ty _ c s] split: option.splits)
        have x: "c' = c1" "\<forall>obs. x = Inr obs \<longrightarrow> (\<exists>ob. y = Inr ob \<and> obs = (case ob of None \<Rightarrow> [] | Some o1 \<Rightarrow> [o1]))"
          using less.prems(4) Inr Some True r
          by (auto simp: resolve_impl.simps [of call req ty _ c s] split: sum.splits)
        have "registered c s (last rgs)" "ty \<in> set (types_of (last rgs))" using regs [OF last_in_set [OF ne]] by simp_all
        then show ?thesis
          using instantiate_keeps [OF assms less.prems(1-3) _ r] x
          unfolding found_def by (auto split: option.splits intro!: exI [of _ "last rgs"])
      next
        case False
        obtain y c1 where r: "instantiate_all call s rgs req c = Some (y, c1)"
          using less.prems(4) Inr Some False
          by (auto simp: resolve_impl.simps [of call req ty _ c s] split: option.splits)
        have k: "keeps T c c1 \<and> found T c1 req ty y"
          using instantiate_all_keeps [OF assms less.prems(1-3) _ r] regs unfolding found_def by blast
        show ?thesis
        proof (cases y)
          case (Inl e)
          then show ?thesis
            using less.prems(4) Inr Some False r k
            by (auto simp: resolve_impl.simps [of call req ty _ c s] found_def)
        next
          case obs: (Inr obs)
          show ?thesis
          proof (cases parent)
            case None
            then show ?thesis
              using less.prems(4) Inr Some False r k obs
              by (auto simp: resolve_impl.simps [of call req ty _ c s])
          next
            case p: (Some p)
            obtain z c2 where u: "resolve_impl call req ty single c1 p = Some (z, c2)"
              using less.prems(4) Inr Some False r obs p par [OF p]
              by (auto simp: resolve_impl.simps [of call req ty _ c s] split: option.splits)
            have x: "c' = c2" "\<forall>os. x = Inr os \<longrightarrow> (\<exists>os2. z = Inr os2 \<and> os = obs @ os2)"
              using less.prems(4) Inr Some False r obs p par [OF p] u
              by (auto simp: resolve_impl.simps [of call req ty _ c s] split: sum.splits)
            note k1 = conjunct1 [OF k]
            have req1: "req < length (dc_scopes c1)" using keepsD(3) [OF k1] less.prems(2) by simp
            have "above c1 p req" using grows_above [OF keepsD(1) [OF k1] wf] par [OF p] less.prems(2) by blast
            then have k2: "keeps T c1 c2 \<and> found T c2 req ty z"
              using less.IH [of p c1 z c2] par [OF p] keepsD(2) [OF k1] req1 u by blast
            have "found T c2 req ty (Inr obs)"
              using found_grows [OF conjunct1 [OF k2] keepsD(2) [OF k1] req1] k obs by blast
            then show ?thesis using x k2 keeps_trans [OF k1 conjunct1 [OF k2]] unfolding found_def by auto
          qed
        qed
      qed
    qed
  qed
qed

lemma resolve_in_keeps:
  assumes "call_keeps T call" "di_inv T c" "s < length (dc_scopes c)" "resolve_in call s ty single c = Some (x, c')"
  shows "keeps T c c' \<and> found T c' s ty x"
proof -
  obtain y where y: "resolve_impl call s ty single c s = Some (y, c')"
      "\<forall>obs. x = Inr obs \<longrightarrow> (\<exists>os. y = Inr os \<and> set obs \<subseteq> set os)"
    using assms(4) by (auto simp: resolve_in_def split: option.splits sum.splits if_splits list.splits)
  have "keeps T c c' \<and> found T c' s ty y" by (rule resolve_impl_keeps [OF assms(1-3) above.here y(1)])
  then show ?thesis using y(2) unfolding found_def by blast
qed

lemma resolve_fuel_calls: "call_keeps T (resolve_fuel n)"
proof (induction n)
  case (Suc n)
  then show ?case unfolding call_keeps_def using resolve_in_keeps [OF Suc.IH] by simp
qed (simp add: call_keeps_def)

lemma resolve_fuel_keeps:
  assumes "di_inv T c" "s < length (dc_scopes c)" "resolve_fuel n s ty single c = Some (x, c')"
  shows "keeps T c c' \<and> found T c' s ty x"
  using assms resolve_in_keeps [OF resolve_fuel_calls] by (cases n) simp_all

section \<open>Reachable containers\<close>

text \<open>What the calls on a handle may change of a registration.\<close>

definition fluent :: "(registration \<Rightarrow> registration) \<Rightarrow> bool" where
  "fluent f \<longleftrightarrow> (\<forall>rg. rg_id (f rg) = rg_id rg \<and> rg_actualType (f rg) = rg_actualType rg \<and> rg_result (f rg) = rg_result rg)"

lemma fluent_settings [simp]:
  "fluent id" "fluent (as_type ty)" "fluent asSelf" "fluent instancePerRequest" "fluent instancePerScope"
  "fluent singleInstance"
  by (auto simp: fluent_def as_type_def asSelf_def instancePerRequest_def instancePerScope_def singleInstance_def)

lemma fluent_comp: "fluent f \<Longrightarrow> fluent g \<Longrightarrow> fluent (\<lambda>rg. f (g rg))"
  by (simp add: fluent_def)

text \<open>
  A builder that was filled by \<^verbatim>\<open>registerDependency\<close>. With \<open>T\<close> the registrations are those of
  the typed theorem: no matching scopes, and objects that are handed out are of the type they
  are registered for.
\<close>

definition reg_ok :: "bool \<Rightarrow> container \<Rightarrow> registration \<Rightarrow> bool" where
  "reg_ok T c rg \<longleftrightarrow> (T \<longrightarrow> rg_lifetime rg \<noteq> InstancePerMatchingScope \<and>
     (\<forall>ob. rg_result rg = Gives ob \<longrightarrow> ob < length (dc_objects c) \<and> ob_type (dc_objects c ! ob) = rg_actualType rg))"

inductive built :: "nat \<Rightarrow> container_builder \<Rightarrow> bool" for base where
  new: "built base (ContainerBuilder base)"
| reg: "built base cb \<Longrightarrow> fluent settings \<Longrightarrow> built base (registerDependency ty args r settings cb)"

lemma built_ids: "built base cb \<Longrightarrow> map rg_id (cb_registrations cb) = [base..<cb_counter cb] \<and> base \<le> cb_counter cb"
  by (induction rule: built.induct) (simp_all add: ContainerBuilder_def registerDependency_def fluent_def)

lemma add_registration_types:
  "fold (add_registration rg) tys m ty = Some rgs \<Longrightarrow>
     \<exists>old. rgs = (case m ty of None \<Rightarrow> [] | Some rs \<Rightarrow> rs) @ old \<and> set old \<subseteq> {rg} \<and>
       (old \<noteq> [] \<longrightarrow> ty \<in> set tys) \<and> (old = [] \<longrightarrow> m ty = Some rgs)"
proof (induction tys arbitrary: m)
  case (Cons t tys)
  from Cons.IH [of "add_registration rg t m"] Cons.prems
  show ?case by (cases "t = ty") (auto simp: add_registration_def split: option.splits)
qed simp

lemma build_fold:
  "fold (\<lambda>rg. fold (add_registration rg) (types_of rg)) new m ty = Some rgs \<Longrightarrow>
     (\<And>ty rgs. m ty = Some rgs \<Longrightarrow> rgs \<noteq> [] \<and> (\<forall>rg \<in> set rgs. rg \<in> R \<and> ty \<in> set (types_of rg))) \<Longrightarrow> set new \<subseteq> R \<Longrightarrow>
     rgs \<noteq> [] \<and> (\<forall>rg \<in> set rgs. rg \<in> R \<and> ty \<in> set (types_of rg))"
proof (induction new arbitrary: m)
  case (Cons r new)
  have "rgs \<noteq> [] \<and> (\<forall>rg \<in> set rgs. rg \<in> R \<and> ty \<in> set (types_of rg))"
    if m: "fold (add_registration r) (types_of r) m ty = Some rgs" for ty rgs
  proof -
    obtain old where old: "rgs = (case m ty of None \<Rightarrow> [] | Some rs \<Rightarrow> rs) @ old" "set old \<subseteq> {r}"
      "old \<noteq> [] \<longrightarrow> ty \<in> set (types_of r)" "old = [] \<longrightarrow> m ty = Some rgs"
      using add_registration_types [OF m] by blast
    show ?thesis
    proof (cases "old = []")
      case True
      then show ?thesis using old(4) Cons.prems(2) by blast
    next
      case False
      then show ?thesis using old Cons.prems(2) [of ty] Cons.prems(3) by (fastforce split: option.splits)
    qed
  qed
  then show ?case using Cons.IH [of "fold (add_registration r) (types_of r) m"] Cons.prems(1,3) by simp
qed simp

lemma buildRegistrations_wf:
  assumes "buildRegistrations new ty = Some rgs"
  shows "rgs \<noteq> [] \<and> (\<forall>rg \<in> set rgs. rg \<in> set new \<and> ty \<in> set (types_of rg))"
  by (rule build_fold [OF assms [unfolded buildRegistrations_def], of "set new"]) simp_all

lemma new_scope_inv:
  assumes "di_inv T c" "built base cb" "\<forall>rg \<in> set (cb_registrations cb). reg_ok T c rg"
    and "case parent of None \<Rightarrow> base = 0 | Some p \<Rightarrow> p < length (dc_scopes c) \<and> base = ds_baseId (dc_scopes c ! p)"
  shows "di_inv T (snd (DependencyScope cb tag parent c))"
proof -
  let ?n = "length (dc_scopes c)"
  let ?c = "snd (DependencyScope cb tag parent c)"
  have old: "dc_scopes ?c ! s = dc_scopes c ! s" if "s < ?n" for s using that by (simp add: DependencyScope_def nth_append)
  have len: "length (dc_scopes ?c) = Suc ?n" "dc_objects ?c = dc_objects c" by (simp_all add: DependencyScope_def)
  have new: "ds_parent (dc_scopes ?c ! ?n) = parent" "ds_baseId (dc_scopes ?c ! ?n) = cb_counter cb"
    "ds_registrations (dc_scopes ?c ! ?n) = buildRegistrations (cb_registrations cb)"
    "ds_instances (dc_scopes ?c ! ?n) = Map.empty"
    by (simp_all add: DependencyScope_def)
  have wf: "di_wf c" using assms(1) by (simp add: di_inv_def)
  have reg_old: "registered ?c s rg = registered c s rg" if "s < ?n" for s rg using old [OF that] by (simp add: registered_def)
  have reg_new: "rg \<in> set (cb_registrations cb)" if "registered ?c ?n rg" for rg
    using that buildRegistrations_wf unfolding registered_def new(3) by blast
  have first_old: "first_id ?c s = first_id c s" if "s < ?n" for s
    using old [OF that] old di_wfD(1) [OF wf that] that by (auto simp: first_id_def split: option.splits)
  have first_new: "first_id ?c ?n = base"
    using assms(4) old new(1) by (auto simp: first_id_def split: option.splits)
  note ids = built_ids [OF assms(2)]
  have "scope_wf ?c s" if s: "s < Suc ?n" for s
  proof (cases "s < ?n")
    case True
    then have "scope_wf c s" using wf by (simp add: di_wf_def)
    then show ?thesis using old [OF True] reg_old [OF True] first_old [OF True] by (simp add: scope_wf_def)
  next
    case False
    then have [simp]: "s = ?n" using s by simp
    have id: "base \<le> rg_id rg \<and> rg_id rg < cb_counter cb" if "registered ?c ?n rg" for rg
    proof -
      have "rg_id rg \<in> set (map rg_id (cb_registrations cb))" using reg_new [OF that] by simp
      then show ?thesis using ids by simp
    qed
    have inj: "inj_on rg_id (set (cb_registrations cb))"
    proof -
      have "distinct (map rg_id (cb_registrations cb))" using ids by simp
      then show ?thesis by (simp add: distinct_map)
    qed
    show ?thesis
      unfolding scope_wf_def
    proof (intro conjI allI impI)
      show "ds_parent (dc_scopes ?c ! s) = Some p \<Longrightarrow> p < s" for p using assms(4) new(1) by simp
      show "first_id ?c s \<le> ds_baseId (dc_scopes ?c ! s)" using ids first_new new(2) by simp
      show "rgs \<noteq> []" if "ds_registrations (dc_scopes ?c ! s) ty = Some rgs" for ty rgs
        using that buildRegistrations_wf new(3) by fastforce
      show "\<forall>rg \<in> set rgs. ty \<in> set (types_of rg)" if "ds_registrations (dc_scopes ?c ! s) ty = Some rgs" for ty rgs
        using that buildRegistrations_wf new(3) by fastforce
      show "first_id ?c s \<le> rg_id rg" "rg_id rg < ds_baseId (dc_scopes ?c ! s)" if "registered ?c s rg" for rg
        using id that first_new new(2) by simp_all
      show "rg = rg'" if "registered ?c s rg" "registered ?c s rg'" "rg_id rg = rg_id rg'" for rg rg'
        using inj_onD [OF inj that(3)] reg_new that(1,2) by simp
    qed
  qed
  then have wf': "di_wf ?c" using len(1) by (simp add: di_wf_def)
  have up: "above ?c a s" if "above c a s" "s < ?n" for a s
    using that
  proof (induction rule: above.induct)
    case (up s p a)
    then show ?case using di_wfD(1) [OF wf up.prems up.hyps(1)] old [OF up.prems] by (intro above.up [of ?c s p a]) simp_all
  qed (rule above.here)
  have "typed ?c" if T
  proof -
    have t: "typed c" using assms(1) that by (simp add: di_inv_def)
    have "\<exists>rg. serves ?c s rg ob \<and> rg_id rg = i" if s: "s < Suc ?n" "ds_instances (dc_scopes ?c ! s) i = Some ob" for s i ob
    proof -
      have lt: "s < ?n" using s new(4) by (cases "s = ?n") auto
      then obtain rg where rg: "serves c s rg ob" "rg_id rg = i" using t s(2) old [OF lt] unfolding typed_def by metis
      then obtain a where a: "above c a s" "registered c a rg" by (auto simp: serves_def)
      have "a < ?n" using above_older [OF a(1) wf lt] lt by simp
      then show ?thesis using rg up [OF a(1) lt] reg_old a(2) len(2) by (auto simp: serves_def)
    qed
    moreover have "rg_lifetime rg \<noteq> InstancePerMatchingScope \<and>
        (\<forall>ob. rg_result rg = Gives ob \<longrightarrow> ob < length (dc_objects c) \<and> ob_type (dc_objects c ! ob) = rg_actualType rg)"
      if s: "s < Suc ?n" "registered ?c s rg" for s rg
    proof (cases "s < ?n")
      case True
      then show ?thesis using t s reg_old unfolding typed_def by blast
    next
      case False
      then have "s = ?n" using s by simp
      then show ?thesis using assms(3) reg_new s(2) \<open>T\<close> unfolding reg_ok_def by blast
    qed
    ultimately show ?thesis using len unfolding typed_def by simp
  qed
  then show ?thesis using wf' by (simp add: di_inv_def)
qed

lemma destroy_scope_inv:
  assumes "di_inv T c" shows "di_inv T (destroy_scope s c)"
proof -
  have sel: "ds_parent (dc_scopes (destroy_scope s c) ! t) = ds_parent (dc_scopes c ! t)"
    "ds_registrations (dc_scopes (destroy_scope s c) ! t) = ds_registrations (dc_scopes c ! t)"
    "ds_baseId (dc_scopes (destroy_scope s c) ! t) = ds_baseId (dc_scopes c ! t)"
    "ds_instances (dc_scopes (destroy_scope s c) ! t) = ds_instances (dc_scopes c ! t)"
    "length (dc_scopes (destroy_scope s c)) = length (dc_scopes c)" "dc_objects (destroy_scope s c) = dc_objects c" for t
    by (cases "s < length (dc_scopes c)"; cases "t = s"; simp add: destroy_scope_def upd_scope_def list_update_beyond)+
  have "above c a t \<Longrightarrow> above (destroy_scope s c) a t" for a t
    by (induction rule: above.induct) (auto simp: sel intro: above.intros)
  moreover have "above (destroy_scope s c) a t \<Longrightarrow> above c a t" for a t
    by (induction rule: above.induct) (auto simp: sel intro: above.intros)
  ultimately have "above (destroy_scope s c) = above c" by (simp add: fun_eq_iff) blast
  moreover have "registered (destroy_scope s c) = registered c" "first_id (destroy_scope s c) = first_id c"
    by (simp_all add: fun_eq_iff registered_def first_id_def sel split: option.split)
  ultimately show ?thesis
    using assms by (simp add: di_inv_def di_wf_def scope_wf_def typed_def serves_def sel)
qed

inductive di_reach :: "bool \<Rightarrow> container \<Rightarrow> bool" for T where
  empty: "di_reach T \<lparr>dc_scopes = [], dc_objects = []\<rparr>"
| object: "di_reach T c \<Longrightarrow> di_reach T (c\<lparr>dc_objects := dc_objects c @ [ob]\<rparr>)"
| root: "di_reach T c \<Longrightarrow> built 0 cb \<Longrightarrow> \<forall>rg \<in> set (cb_registrations cb). reg_ok T c rg \<Longrightarrow> di_reach T (snd (build cb c))"
| child: "di_reach T c \<Longrightarrow> s < length (dc_scopes c) \<Longrightarrow> built (ds_baseId (dc_scopes c ! s)) cb \<Longrightarrow>
    \<forall>rg \<in> set (cb_registrations cb). reg_ok T c rg \<Longrightarrow>
    di_reach T (snd (beginLifetimeScope (Some s) tag (Some (\<lambda>_. cb)) c))"
| resolution: "di_reach T c \<Longrightarrow> s < length (dc_scopes c) \<Longrightarrow> resolve_fuel n s ty single c = Some (x, c') \<Longrightarrow> di_reach T c'"
| destroy: "di_reach T c \<Longrightarrow> di_reach T (destroy_scope s c)"

lemma di_reach_inv: "di_reach T c \<Longrightarrow> di_inv T c"
proof (induction rule: di_reach.induct)
  case empty
  then show ?case by (simp add: di_inv_def di_wf_def typed_def)
next
  case (object c ob)
  have g: "grows c (c\<lparr>dc_objects := dc_objects c @ [ob]\<rparr>)" by simp
  then show ?case using object.IH grows_wf [OF g] typed_objects by (simp add: di_inv_def)
next
  case (root c cb)
  then show ?case unfolding build_def by (intro new_scope_inv) simp_all
next
  case (child c s cb tag)
  have "di_inv T (snd (DependencyScope cb tag (Some s) c))" by (rule new_scope_inv) (use child in simp_all)
  then show ?case by (simp add: beginLifetimeScope_def split: prod.splits) (simp add: DependencyScope_def)
next
  case (resolution c s n ty single x c')
  then show ?case using resolve_fuel_keeps keepsD(2) by blast
next
  case (destroy c s)
  then show ?case by (simp add: destroy_scope_inv)
qed

section \<open>The provider of a type\<close>

text \<open>What resolution should find: the last registration of the nearest scope that has one.\<close>

function provider :: "container \<Rightarrow> u64 \<Rightarrow> nat \<Rightarrow> (nat \<times> registration) option" where
  "provider c ty s =
     (case ds_registrations (dc_scopes c ! s) ty of
        Some rgs \<Rightarrow> Some (s, last rgs)
      | None \<Rightarrow> (case ds_parent (dc_scopes c ! s) of
            None \<Rightarrow> None
          | Some p \<Rightarrow> if p < s then provider c ty p else None))"
  by pat_completeness auto
termination
  by (relation "measure (\<lambda>(c, ty, s). s)") auto

declare provider.simps [simp del]

text \<open>All scopes from \<open>s\<close> to the root exist.\<close>

definition branch_alive :: "container \<Rightarrow> nat \<Rightarrow> bool" where
  "branch_alive c s \<longleftrightarrow> (\<forall>a. above c a s \<longrightarrow> (\<forall>p. ds_parent (dc_scopes c ! a) = Some p \<longrightarrow> ds_alive (dc_scopes c ! p)))"

lemma branch_alive_lock:
  assumes "branch_alive c s"
  shows "tryLockParent s c = Inr (ds_parent (dc_scopes c ! s))"
    "ds_parent (dc_scopes c ! s) = Some p \<Longrightarrow> branch_alive c p"
proof -
  show "tryLockParent s c = Inr (ds_parent (dc_scopes c ! s))"
    using assms above.here [of c s] by (auto simp: tryLockParent_def branch_alive_def split: option.splits)
  show "ds_parent (dc_scopes c ! s) = Some p \<Longrightarrow> branch_alive c p"
    using assms above.up [of c s p] unfolding branch_alive_def by blast
qed

lemma resolve_impl_single:
  "resolve_impl call req ty True c s = Some (x, c') \<Longrightarrow>
     (\<exists>e. x = Inl e \<and> c' = c) \<or>
     (case provider c ty s of None \<Rightarrow> x = Inr [] \<and> c' = c
      | Some (a, rg) \<Rightarrow> \<exists>y. instantiateRegistration call a rg req True c = Some (y, c') \<and>
          x = map_sum id (\<lambda>ob. case ob of None \<Rightarrow> [] | Some o1 \<Rightarrow> [o1]) y)"
proof (induction s arbitrary: x c' rule: less_induct)
  case (less s)
  show ?case
  proof (cases "tryLockParent s c")
    case (Inl e)
    then show ?thesis using less.prems by (auto simp: resolve_impl.simps [of call req ty _ c s])
  next
    case (Inr parent)
    have par: "ds_parent (dc_scopes c ! s) = parent"
      using Inr by (auto simp: tryLockParent_def split: option.splits if_splits)
    show ?thesis
    proof (cases "ds_registrations (dc_scopes c ! s) ty")
      case None
      show ?thesis
      proof (cases "\<exists>p. parent = Some p \<and> p < s")
        case True
        then obtain p where p: "parent = Some p" "p < s" by blast
        have "resolve_impl call req ty True c p = Some (x, c')"
          using less.prems Inr None p by (simp add: resolve_impl.simps [of call req ty _ c s])
        from less.IH [OF p(2) this] show ?thesis
          using None p par by (simp add: provider.simps [of c ty s])
      next
        case False
        then have "x = Inr [] \<and> c' = c"
          using less.prems Inr None
          by (auto simp: resolve_impl.simps [of call req ty _ c s] split: option.splits if_splits)
        then show ?thesis using None False par by (auto simp: provider.simps [of c ty s] split: option.splits)
      qed
    next
      case (Some rgs)
      then show ?thesis
        using less.prems Inr
        by (auto simp: resolve_impl.simps [of call req ty _ c s] provider.simps [of c ty s] split: option.splits sum.splits)
    qed
  qed
qed

lemma map_sum_Inr [simp]: "map_sum id f x = Inr y \<longleftrightarrow> (\<exists>z. x = Inr z \<and> f z = y)"
  by (cases x) auto

lemma instantiate_some:
  "instantiateRegistration call owner rg req True c = Some (Inr y, c') \<Longrightarrow> y \<noteq> None"
  by (auto simp: instantiateRegistration_def Let_def split: DependencyLifetime.splits sum.splits option.splits)

lemma resolve_provider:
  assumes "resolve (Suc n) (Some s) ty c = Some (Inr ob, c')"
  obtains a rg where "provider c ty s = Some (a, rg)"
    "instantiateRegistration (resolve_fuel n) a rg s True c = Some (Inr (Some ob), c')"
proof -
  obtain x c1 where r: "resolve_in (resolve_fuel n) s ty True c = Some (x, c1)"
    using assms by (auto simp: resolve_def)
  then have x: "x = Inr [ob] \<or> (\<exists>os. x = Inr os \<and> hd os = ob)" "c1 = c'"
    using assms by (auto simp: resolve_def)
  obtain y where y: "resolve_impl (resolve_fuel n) s ty True c s = Some (y, c1)"
    "x = (case y of Inl e \<Rightarrow> Inl e | Inr [] \<Rightarrow> Inl (DependencyResolution ''Dependency not found'') | Inr (o1 # _) \<Rightarrow> Inr [o1])"
    using r by (auto simp: resolve_in_def split: option.splits sum.splits list.splits)
  then obtain o1 os where o: "y = Inr (o1 # os)" "o1 = ob" using x(1) by (auto split: sum.splits list.splits)
  from resolve_impl_single [OF y(1)] o obtain a rg z where z: "provider c ty s = Some (a, rg)"
    "instantiateRegistration (resolve_fuel n) a rg s True c = Some (z, c1)"
    "y = map_sum id (\<lambda>ob. case ob of None \<Rightarrow> [] | Some o1 \<Rightarrow> [o1]) z"
    by (auto split: option.splits)
  then have "z = Inr (Some ob)" using o by (cases z) (auto split: option.splits)
  then show ?thesis using that z x(2) by simp
qed

lemma provider_wf:
  "provider c ty s = Some (a, rg) \<Longrightarrow> di_wf c \<Longrightarrow> s < length (dc_scopes c) \<Longrightarrow>
     above c a s \<and> registered c a rg \<and> ty \<in> set (types_of rg)"
proof (induction s rule: less_induct)
  case (less s)
  show ?case
  proof (cases "ds_registrations (dc_scopes c ! s) ty")
    case None
    then obtain p where p: "ds_parent (dc_scopes c ! s) = Some p" "p < s" "provider c ty p = Some (a, rg)"
      using less.prems(1) by (auto simp: provider.simps [of c ty s] split: option.splits if_splits)
    then show ?thesis using less.IH [OF p(2,3) less.prems(2)] less.prems(3) by (auto intro: above.up)
  next
    case (Some rgs)
    then have "a = s" "rg = last rgs" using less.prems(1) by (simp_all add: provider.simps [of c ty s])
    moreover have "last rgs \<in> set rgs" using di_wfD(3) [OF less.prems(2,3) Some] by simp
    ultimately show ?thesis
      using Some di_wfD(4) [OF less.prems(2,3) Some] by (auto simp: registered_def intro: above.here)
  qed
qed

section \<open>Properties\<close>

text \<open>
  Property C13. Resolution is type safe where no dependency is registered per matching scope:
  an object that \<^verbatim>\<open>resolve<T>()\<close> returns was made for, or handed out by, a registration of the
  scope or one of its ancestors that is filed under \<open>T\<close>, and it is of the type that was
  registered. The cached objects of scopes are found by registration ids alone; ids are
  unique along every branch of the tree, which is what makes the cast of the result safe.
\<close>

theorem resolution_type_safe:
  assumes "di_reach True c" "s < length (dc_scopes c)" "resolve n (Some s) ty c = Some (Inr ob, c')"
  shows "\<exists>a rg. above c' a s \<and> registered c' a rg \<and> ty \<in> set (types_of rg) \<and>
    ob < length (dc_objects c') \<and> ob_type (dc_objects c' ! ob) = rg_actualType rg"
proof -
  obtain m where n: "n = Suc m" using assms(3) by (cases n) (auto simp: resolve_def)
  obtain x where x: "resolve_fuel n s ty True c = Some (x, c')" "map_sum id hd x = Inr ob"
    using assms(3) by (auto simp: resolve_def)
  then obtain obs where obs: "x = Inr obs" "hd obs = ob" by (cases x) auto
  have "obs \<noteq> []" using x(1) obs n by (auto simp: resolve_in_def split: option.splits sum.splits list.splits)
  then have "ob \<in> set obs" using obs(2) by (cases obs) auto
  then show ?thesis
    using resolve_fuel_keeps [OF di_reach_inv [OF assms(1)] assms(2) x(1)] obs(1) unfolding found_def serves_def by blast
qed

text \<open>What later operations leave of a container.\<close>

definition later :: "container \<Rightarrow> container \<Rightarrow> bool" where
  "later c c' \<longleftrightarrow> length (dc_scopes c) \<le> length (dc_scopes c') \<and>
     (\<forall>s < length (dc_scopes c). ds_instances (dc_scopes c ! s) \<subseteq>\<^sub>m ds_instances (dc_scopes c' ! s))"

lemma later_operations:
  "later c (c\<lparr>dc_objects := obs\<rparr>)" "later c (snd (DependencyScope cb tag p c))" "later c (destroy_scope s c)"
  "di_inv T c \<Longrightarrow> s < length (dc_scopes c) \<Longrightarrow> resolve_fuel n s ty single c = Some (x, c') \<Longrightarrow> later c c'"
proof -
  show "later c (c\<lparr>dc_objects := obs\<rparr>)" "later c (snd (DependencyScope cb tag p c))"
    by (simp_all add: later_def DependencyScope_def nth_append)
  show "later c (destroy_scope s c)"
    by (cases "s < length (dc_scopes c)")
      (simp_all add: later_def destroy_scope_def upd_scope_def list_update_beyond nth_list_update)
  assume "di_inv T c" "s < length (dc_scopes c)" "resolve_fuel n s ty single c = Some (x, c')"
  from resolve_fuel_keeps [OF this] have g: "grows c c'" by (simp add: keeps_def)
  then show "later c c'" by (auto simp: later_def grows_def same_scope_def)
qed

text \<open>
  A single instance is shared: once a type with a \<^verbatim>\<open>singleInstance\<close> registration
  has been resolved, from whatever scope, every later resolution of it, from any scope whose
  nearest registration of the type is that one, returns the same object and leaves the
  container as it is; whatever was resolved, created or destroyed in between.
\<close>

theorem single_instance_shared:
  assumes "di_reach T c" "s < length (dc_scopes c)" "provider c ty s = Some (a, rg)" "rg_lifetime rg = SingleInstance"
    and "resolve n (Some s) ty c = Some (Inr ob, c1)"
    and "later c1 c2" "provider c2 ty' t = Some (a, rg)" "resolve m (Some t) ty' c2 = Some (Inr ob', c3)"
  shows "ob' = ob \<and> c3 = c2"
proof -
  obtain n' where n: "n = Suc n'" using assms(5) by (cases n) (auto simp: resolve_def)
  obtain m' where m: "m = Suc m'" using assms(8) by (cases m) (auto simp: resolve_def)
  have inv: "di_inv T c" using di_reach_inv [OF assms(1)] .
  have a: "a < length (dc_scopes c)"
    using provider_wf [OF assms(3) _ assms(2)] above_older [of c a s] inv assms(2) by (fastforce simp: di_inv_def)
  obtain a1 rg1 where r1: "provider c ty s = Some (a1, rg1)"
    "instantiateRegistration (resolve_fuel n') a1 rg1 s True c = Some (Inr (Some ob), c1)"
    using resolve_provider [OF assms(5) [unfolded n]] by metis
  then have g1: "getInstanceForScope (resolve_fuel n') rg a c = Some (Inr ob, c1)"
    using assms(3,4) by (auto simp: instantiateRegistration_def)
  have k: "grows c c1" using getInstance_keeps [OF resolve_fuel_calls _ a g1, of False] inv by (simp add: keeps_def di_inv_def)
  have st: "ds_instances (dc_scopes c1 ! a) (rg_id rg) = Some ob"
  proof (cases "ds_instances (dc_scopes c ! a) (rg_id rg)")
    case (Some o1)
    then show ?thesis using g1 growsD(6) [OF k a] by (auto simp: getInstanceForScope_def)
  next
    case None
    then obtain c0 where "c1 = store_instance a (rg_id rg) ob c0"
      using g1 by (auto simp: getInstanceForScope_def split: option.splits sum.splits)
    then show ?thesis using a grows_length [OF k] by (simp add: store_instances)
  qed
  then have st2: "ds_instances (dc_scopes c2 ! a) (rg_id rg) = Some ob"
    using assms(6) a grows_length [OF k] unfolding later_def map_le_def by (metis domI)
  obtain a2 rg2 where r2: "provider c2 ty' t = Some (a2, rg2)"
    "instantiateRegistration (resolve_fuel m') a2 rg2 t True c2 = Some (Inr (Some ob'), c3)"
    using resolve_provider [OF assms(8) [unfolded m]] by metis
  then show ?thesis using assms(4,7) st2 by (auto simp: instantiateRegistration_def getInstanceForScope_def)
qed

text \<open>Types ranked so that a factory only asks for what ranks below the types it is registered for.\<close>

definition arg_type :: "argument \<Rightarrow> u64" where
  "arg_type a = (case a of Single ty \<Rightarrow> ty | All ty \<Rightarrow> ty)"

definition ranked :: "(u64 \<Rightarrow> nat) \<Rightarrow> container \<Rightarrow> bool" where
  "ranked rank c \<longleftrightarrow> (\<forall>s < length (dc_scopes c). \<forall>rg. registered c s rg \<longrightarrow>
     (\<forall>ty \<in> set (types_of rg). \<forall>a \<in> set (rg_args rg). rank (arg_type a) < rank ty))"

definition call_total :: "(u64 \<Rightarrow> nat) \<Rightarrow> nat \<Rightarrow> di_call \<Rightarrow> bool" where
  "call_total rank k call \<longleftrightarrow> (\<forall>s ty single c. di_wf c \<longrightarrow> ranked rank c \<longrightarrow> s < length (dc_scopes c) \<longrightarrow> rank ty < k \<longrightarrow>
     call s ty single c \<noteq> None)"

lemma ranked_grows: "grows c c' \<Longrightarrow> ranked rank c \<Longrightarrow> ranked rank c'"
  using grows_registered grows_length unfolding ranked_def by (metis (no_types, lifting))

lemma run_args_total:
  assumes "call_keeps False call" "call_total rank k call"
  shows "di_wf c \<Longrightarrow> ranked rank c \<Longrightarrow> s < length (dc_scopes c) \<Longrightarrow> \<forall>a \<in> set as. rank (arg_type a) < k \<Longrightarrow>
    run_args call s as c \<noteq> None"
proof (induction as arbitrary: c)
  case (Cons a as)
  let ?r = "case a of Single ty \<Rightarrow> call s ty True c | All ty \<Rightarrow> call s ty False c"
  have "?r \<noteq> None" using assms(2) Cons.prems unfolding call_total_def by (cases a) (simp_all add: arg_type_def)
  then obtain x c1 where r: "?r = Some (x, c1)" by auto
  have k: "keeps False c c1"
    using assms(1) Cons.prems(1,3) r unfolding call_keeps_def by (cases a; simp add: di_inv_def; blast)
  have "run_args call s as c1 \<noteq> None"
    using Cons.IH [of c1] Cons.prems(2-4) keepsD [OF k] ranked_grows [OF keepsD(1) [OF k]] by (simp add: di_inv_def)
  then show ?case using r by (auto split: sum.splits)
qed simp

lemma instantiate_total:
  assumes "call_keeps False call" "call_total rank k call" "di_wf c" "ranked rank c" "req < length (dc_scopes c)"
    and "above c owner req" "\<forall>a \<in> set (rg_args rg). rank (arg_type a) < k"
  shows "instantiateRegistration call owner rg req th c \<noteq> None"
proof -
  have owner: "owner < length (dc_scopes c)" using above_older [OF assms(6,3,5)] assms(5) by simp
  have f: "run_factory call rg s c \<noteq> None" if "s < length (dc_scopes c)" for s
    using run_args_total [OF assms(1-4) that assms(7)] by (auto simp: run_factory_def split: sum.splits)
  then have g: "getInstanceForScope call rg s c \<noteq> None" if "s < length (dc_scopes c)" for s
    using that by (fastforce simp: getInstanceForScope_def split: option.splits sum.splits)
  have m: "m < length (dc_scopes c)" if "findMatchingScope (rg_tag rg) c req = Inr (Some m)" for m
    using findMatchingScope_above [OF that] above_older [of c m req] assms(3,5) by fastforce
  show ?thesis
    using f [OF assms(5)] g [OF assms(5)] g [OF owner] g [OF m]
    by (auto simp: instantiateRegistration_def Let_def split: DependencyLifetime.splits sum.splits option.splits)
qed

lemma instantiate_all_total:
  assumes "call_keeps False call" "call_total rank k call"
  shows "di_wf c \<Longrightarrow> ranked rank c \<Longrightarrow> req < length (dc_scopes c) \<Longrightarrow> above c owner req \<Longrightarrow>
    \<forall>rg \<in> set rgs. registered c owner rg \<and> (\<forall>a \<in> set (rg_args rg). rank (arg_type a) < k) \<Longrightarrow>
    instantiate_all call owner rgs req c \<noteq> None"
proof (induction rgs arbitrary: c)
  case (Cons rg rgs)
  have "instantiateRegistration call owner rg req False c \<noteq> None"
    by (rule instantiate_total [OF assms Cons.prems(1-4)]) (use Cons.prems(5) in simp)
  then obtain x c1 where r: "instantiateRegistration call owner rg req False c = Some (x, c1)" by auto
  have k: "keeps False c c1"
    using instantiate_keeps [OF assms(1) _ Cons.prems(3,4) _ r] Cons.prems(1,5) by (simp add: di_inv_def)
  have owner: "owner < length (dc_scopes c)" using above_older [OF Cons.prems(4,1,3)] Cons.prems(3) by simp
  have "instantiate_all call owner rgs req c1 \<noteq> None"
    using Cons.IH [of c1] Cons.prems keepsD [OF k] ranked_grows [OF keepsD(1) [OF k]]
      grows_above [OF keepsD(1) [OF k] Cons.prems(1,4,3)] grows_registered [OF keepsD(1) [OF k] owner]
    by (simp add: di_inv_def)
  then show ?case using r by (auto split: sum.splits)
qed simp

lemma resolve_impl_total:
  assumes "call_keeps False call" "call_total rank k call"
  shows "di_wf c \<Longrightarrow> ranked rank c \<Longrightarrow> req < length (dc_scopes c) \<Longrightarrow> above c s req \<Longrightarrow> rank ty \<le> k \<Longrightarrow>
    resolve_impl call req ty single c s \<noteq> None"
proof (induction s arbitrary: c rule: less_induct)
  case (less s)
  have s: "s < length (dc_scopes c)" using above_older [OF less.prems(4,1,3)] less.prems(3) by simp
  have rank: "\<forall>a \<in> set (rg_args rg). rank (arg_type a) < k" if "registered c s rg" "ty \<in> set (types_of rg)" for rg
    using less.prems(2,5) s that unfolding ranked_def by (meson less_le_trans)
  have up: "above c p req" if "ds_parent (dc_scopes c ! s) = Some p" for p
    using above_trans [OF less.prems(4)] that by (blast intro: above.intros)
  show ?case
  proof (cases "tryLockParent s c")
    case (Inl e)
    then show ?thesis by (simp add: resolve_impl.simps [of call req ty _ c s])
  next
    case (Inr parent)
    have par: "ds_parent (dc_scopes c ! s) = parent"
      using Inr by (auto simp: tryLockParent_def split: option.splits if_splits)
    show ?thesis
    proof (cases "ds_registrations (dc_scopes c ! s) ty")
      case None
      then show ?thesis
        using Inr less.IH less.prems(1-3,5) up par
        by (auto simp: resolve_impl.simps [of call req ty _ c s] split: option.splits)
    next
      case (Some rgs)
      have regs: "registered c s rg \<and> ty \<in> set (types_of rg)" if "rg \<in> set rgs" for rg
        using di_wfD(4) [OF less.prems(1) s Some that] Some that by (auto simp: registered_def)
      have ne: "last rgs \<in> set rgs" using di_wfD(3) [OF less.prems(1) s Some] by simp
      have one: "instantiateRegistration call s (last rgs) req True c \<noteq> None"
        by (rule instantiate_total [OF assms less.prems(1-4)]) (use rank regs [OF ne] in blast)
      have all: "instantiate_all call s rgs req c \<noteq> None"
        by (rule instantiate_all_total [OF assms less.prems(1-4)]) (use rank regs in blast)
      have rest: "resolve_impl call req ty single c1 p \<noteq> None"
        if "instantiate_all call s rgs req c = Some (x, c1)" "parent = Some p" "p < s" for x c1 p
      proof -
        have k: "keeps False c c1"
          using instantiate_all_keeps [OF assms(1) _ less.prems(3,4) _ that(1)] less.prems(1) regs by (simp add: di_inv_def)
        have "above c1 p req"
          using grows_above [OF keepsD(1) [OF k] less.prems(1) up less.prems(3)] par that(2) by simp
        then show ?thesis
          using less.IH [OF that(3), of c1] keepsD [OF k] ranked_grows [OF keepsD(1) [OF k] less.prems(2)] less.prems(3,5)
          by (simp add: di_inv_def)
      qed
      show ?thesis
      proof (cases single)
        case True
        then show ?thesis
          using Inr Some one by (auto simp: resolve_impl.simps [of call req ty _ c s] split: sum.splits)
      next
        case False
        obtain x c1 where r: "instantiate_all call s rgs req c = Some (x, c1)" using all by auto
        show ?thesis
          using Inr Some r False rest [OF r]
          by (auto simp: resolve_impl.simps [of call req ty _ c s] split: option.splits sum.splits)
      qed
    qed
  qed
qed

lemma resolve_fuel_total: "call_total rank n (resolve_fuel n)"
proof (induction n)
  case (Suc n)
  have "resolve_impl (resolve_fuel n) s ty single c s \<noteq> None"
    if "di_wf c" "ranked rank c" "s < length (dc_scopes c)" "rank ty < Suc n" for s ty single c
    using resolve_impl_total [OF resolve_fuel_calls Suc.IH that(1-3) above.here] that(4) by simp
  note t = this
  have "resolve_in (resolve_fuel n) s ty single c \<noteq> None"
    if "di_wf c" "ranked rank c" "s < length (dc_scopes c)" "rank ty < Suc n" for s ty single c
    using t [OF that, of single] by (cases "resolve_impl (resolve_fuel n) s ty single c s") (auto simp: resolve_in_def split: sum.splits)
  then show ?case by (simp add: call_total_def)
qed (simp add: call_total_def)

text \<open>
  Resolution ends when dependencies are not circular. If the types can be ranked
  so that everything a factory asks for ranks below the types it is registered for, then
  resolving a type returns, an object or an exception, as soon as the fuel exceeds the rank of
  the type.
\<close>

theorem acyclic_resolution_returns:
  assumes "di_reach T c" "s < length (dc_scopes c)" "ranked rank c" "rank ty < n"
  shows "\<exists>x c'. resolve n (Some s) ty c = Some (x, c') \<and> (\<exists>xs c''. resolveAll n (Some s) ty c = Some (xs, c''))"
proof -
  have "di_wf c" using di_reach_inv [OF assms(1)] by (simp add: di_inv_def)
  then have "resolve_fuel n s ty single c \<noteq> None" for single
    using resolve_fuel_total [of rank n] assms(2-4) unfolding call_total_def by blast
  then show ?thesis by (fastforce simp: resolve_def resolveAll_def)
qed

lemma provider_le: "provider c ty s = Some (a, rg) \<Longrightarrow> a \<le> s"
proof (induction s rule: less_induct)
  case (less s)
  show ?case
  proof (cases "ds_registrations (dc_scopes c ! s) ty")
    case None
    then obtain p where "p < s" "provider c ty p = Some (a, rg)"
      using less.prems by (auto simp: provider.simps [of c ty s] split: option.splits if_splits)
    then show ?thesis using less.IH by fastforce
  next
    case (Some rgs)
    then show ?thesis using less.prems by (simp add: provider.simps [of c ty s])
  qed
qed

lemma provider_local:
  "provider c ty s = Some (s, rg) \<Longrightarrow> \<exists>rgs. ds_registrations (dc_scopes c ! s) ty = Some rgs \<and> rg = last rgs"
  using provider_le [of c ty _ s rg]
  by (fastforce simp: provider.simps [of c ty s] split: option.splits if_splits)

text \<open>
  A circular dependency never returns: where the registrations of a set of types
  ask, first of all, for a type of the set again, and nothing of them has been cached, no
  amount of fuel resolves one of them. The library does not detect the cycle, the program
  recurses until its stack is exhausted.
\<close>

theorem circular_dependency_diverges:
  assumes "branch_alive c s" "ty \<in> tys"
    and "\<And>ty. ty \<in> tys \<Longrightarrow> \<exists>rg ty' as. provider c ty s = Some (s, rg) \<and> rg_args rg = Single ty' # as \<and> ty' \<in> tys \<and>
      rg_lifetime rg \<noteq> InstancePerMatchingScope \<and> ds_instances (dc_scopes c ! s) (rg_id rg) = None"
  shows "resolve n (Some s) ty c = None"
proof -
  have "resolve_fuel n s ty True c = None" if "ty \<in> tys" for ty
    using that
  proof (induction n arbitrary: ty)
    case (Suc n)
    obtain rg ty' as where rg: "provider c ty s = Some (s, rg)" "rg_args rg = Single ty' # as" "ty' \<in> tys"
      "rg_lifetime rg \<noteq> InstancePerMatchingScope" "ds_instances (dc_scopes c ! s) (rg_id rg) = None"
      using assms(3) [OF Suc.prems] by blast
    have f: "run_factory (resolve_fuel n) rg s c = None" using Suc.IH [OF rg(3)] rg(2) by (simp add: run_factory_def)
    then have i: "instantiateRegistration (resolve_fuel n) s rg s True c = None"
      using rg(4,5) by (cases "rg_lifetime rg") (simp_all add: instantiateRegistration_def getInstanceForScope_def)
    show ?case
      using provider_local [OF rg(1)] branch_alive_lock(1) [OF assms(1)] i
      by (auto simp: resolve_in_def resolve_impl.simps [of _ s ty _ c s])
  qed simp
  then show ?thesis using assms(2) by (simp add: resolve_def)
qed

text \<open>Scopes of the same shape have the same matching scopes.\<close>

lemma findMatchingScope_cong:
  assumes "di_wf c" "\<And>s. s < length (dc_scopes c) \<Longrightarrow> ds_tag (dc_scopes c' ! s) = ds_tag (dc_scopes c ! s) \<and>
      ds_parent (dc_scopes c' ! s) = ds_parent (dc_scopes c ! s) \<and> ds_alive (dc_scopes c' ! s) = ds_alive (dc_scopes c ! s)"
  shows "s < length (dc_scopes c) \<Longrightarrow> findMatchingScope t c' s = findMatchingScope t c s"
proof (induction s rule: less_induct)
  case (less s)
  show ?case
  proof (cases "ds_parent (dc_scopes c ! s)")
    case None
    then show ?thesis using assms(2) [OF less.prems]
      by (simp add: findMatchingScope.simps [of t _ s] tryLockParent_def)
  next
    case (Some p)
    then have p: "p < s" "p < length (dc_scopes c)" using di_wfD(1) [OF assms(1) less.prems] less.prems by fastforce+
    then show ?thesis using Some assms(2) [OF less.prems] assms(2) [OF p(2)] less.IH [OF p]
      by (simp add: findMatchingScope.simps [of t _ s] tryLockParent_def)
  qed
qed

lemma findMatchingScope_child:
  assumes "ds_tag (dc_scopes c ! s) \<noteq> t" "ds_parent (dc_scopes c ! s) = Some p" "ds_alive (dc_scopes c ! p)" "p < s"
  shows "findMatchingScope t c s = findMatchingScope t c p"
  using assms by (simp add: findMatchingScope.simps [of t c s] tryLockParent_def)

text \<open>A dependency without arguments, registered per matching scope.\<close>

definition matching :: "string \<Rightarrow> registration \<Rightarrow> registration" where
  "matching tag rg = (case instancePerMatchingScope tag rg of Inl _ \<Rightarrow> rg | Inr rg' \<Rightarrow> rg')"

definition matching_registration :: "u64 \<Rightarrow> string \<Rightarrow> nat \<Rightarrow> registration" where
  "matching_registration ty tag i = \<lparr>rg_id = i, rg_types = [], rg_lifetime = InstancePerMatchingScope, rg_tag = tag,
     rg_actualType = ty, rg_args = [], rg_result = Makes\<rparr>"

lemma matching_child:
  assumes "tag \<noteq> []" "beginLifetimeScope (Some p) tag' (Some (registerDependency ty [] Makes (matching tag))) c = (Inr a, c1)"
  shows "a = length (dc_scopes c)" "c1 = c\<lparr>dc_scopes := dc_scopes c @
      [\<lparr>ds_registrations = [ty \<mapsto> [matching_registration ty tag (ds_baseId (dc_scopes c ! p))]],
        ds_instances = Map.empty, ds_tag = tag', ds_parent = Some p, ds_baseId = Suc (ds_baseId (dc_scopes c ! p)),
        ds_alive = True\<rparr>]\<rparr>"
  using assms
  by (auto simp: beginLifetimeScope_def DependencyScope_def registerDependency_def ContainerBuilder_def matching_def
      instancePerMatchingScope_def matching_registration_def buildRegistrations_def add_registration_def types_of_def)

lemma resolve_matching:
  assumes "ds_registrations (dc_scopes c ! s) ty = Some [matching_registration ty tag i]"
    and "ds_parent (dc_scopes c ! s) = Some p" "ds_alive (dc_scopes c ! p)" "findMatchingScope tag c s = Inr (Some m)"
  shows "ds_instances (dc_scopes c ! m) i = Some ob \<Longrightarrow> resolve (Suc n) (Some s) ty c = Some (Inr ob, c)"
    "ds_instances (dc_scopes c ! m) i = None \<Longrightarrow> resolve (Suc n) (Some s) ty c =
       Some (Inr (length (dc_objects c)), store_instance m i (length (dc_objects c))
         (c\<lparr>dc_objects := dc_objects c @ [\<lparr>ob_type = ty, ob_args = []\<rparr>]\<rparr>))"
  using assms
  by (simp_all add: resolve_def resolve_in_def resolve_impl.simps [of _ s ty _ c s] tryLockParent_def
      instantiateRegistration_def getInstanceForScope_def run_factory_def matching_registration_def)

text \<open>
  Property C15. Matching scopes break the types: objects are cached in the matching scope under
  the registration's id, but every scope counts the ids of its registrations from its
  parent's counter. When two children of a scope each register one dependency per matching
  scope, with a tag of an ancestor, the child that resolves second gets the first child's
  object, whatever its type; and where the matching scope held no object under that number,
  this is an object of the first child's type.
\<close>

theorem matching_scope_confuses_types:
  assumes "di_reach T c" "p < length (dc_scopes c)" "ds_alive (dc_scopes c ! p)" "tag \<noteq> []" "tag1 \<noteq> tag" "tag2 \<noteq> tag"
    and "findMatchingScope tag c p = Inr (Some m)"
    and "beginLifetimeScope (Some p) tag1 (Some (registerDependency ty1 [] Makes (matching tag))) c = (Inr a, c1)"
    and "beginLifetimeScope (Some p) tag2 (Some (registerDependency ty2 [] Makes (matching tag))) c1 = (Inr b, c2)"
  shows "\<exists>ob c3. resolve (Suc n) (Some a) ty1 c2 = Some (Inr ob, c3) \<and> resolve (Suc k) (Some b) ty2 c3 = Some (Inr ob, c3) \<and>
    (ds_instances (dc_scopes c ! m) (ds_baseId (dc_scopes c ! p)) = None \<longrightarrow> ob_type (dc_objects c3 ! ob) = ty1)"
proof -
  let ?i = "ds_baseId (dc_scopes c ! p)"
  have wf: "di_wf c" using di_reach_inv [OF assms(1)] by (simp add: di_inv_def)
  note A = matching_child [OF assms(4,8)] and B = matching_child [OF assms(4,9)]
  have a: "a = length (dc_scopes c)" "b = Suc a" using A B by simp_all
  have m: "m < length (dc_scopes c)"
    using findMatchingScope_above [OF assms(7)] above_older [of c m p] wf assms(2) by fastforce
  have old: "dc_scopes c2 ! s = dc_scopes c ! s" if "s < length (dc_scopes c)" for s
    using that by (simp add: B(2)) (simp add: A(2) nth_append)
  have len: "length (dc_scopes c2) = Suc (Suc a)" using A B by simp
  have nodes: "dc_scopes c2 ! a = \<lparr>ds_registrations = [ty1 \<mapsto> [matching_registration ty1 tag ?i]],
      ds_instances = Map.empty, ds_tag = tag1, ds_parent = Some p, ds_baseId = Suc ?i, ds_alive = True\<rparr>"
    "dc_scopes c2 ! b = \<lparr>ds_registrations = [ty2 \<mapsto> [matching_registration ty2 tag ?i]],
      ds_instances = Map.empty, ds_tag = tag2, ds_parent = Some p, ds_baseId = Suc ?i, ds_alive = True\<rparr>"
    using assms(2) a by (simp_all add: B(2)) (simp_all add: A(2) nth_append)
  have "findMatchingScope tag c2 p = findMatchingScope tag c p"
    by (rule findMatchingScope_cong [OF wf _ assms(2)]) (use old in simp)
  then have fp: "findMatchingScope tag c2 p = Inr (Some m)" using assms(7) by simp
  have fa: "findMatchingScope tag c2 a = Inr (Some m)" "findMatchingScope tag c2 b = Inr (Some m)"
    using fp findMatchingScope_child [of c2 a tag p] findMatchingScope_child [of c2 b tag p] nodes old a assms(2,3,5,6)
    by simp_all
  have im: "ds_instances (dc_scopes c2 ! m) ?i = ds_instances (dc_scopes c ! m) ?i" using old m by simp
  have up: "ds_alive (dc_scopes c2 ! p)" using old assms(2,3) by simp
  have regs: "ds_registrations (dc_scopes c2 ! a) ty1 = Some [matching_registration ty1 tag ?i]"
    "ds_parent (dc_scopes c2 ! a) = Some p"
    "ds_registrations (dc_scopes c2 ! b) ty2 = Some [matching_registration ty2 tag ?i]"
    "ds_parent (dc_scopes c2 ! b) = Some p" "ds_tag (dc_scopes c2 ! b) = tag2"
    by (simp_all add: nodes)
  show ?thesis
  proof (cases "ds_instances (dc_scopes c ! m) ?i")
    case (Some ob)
    then have "ds_instances (dc_scopes c2 ! m) ?i = Some ob" using im by simp
    then have "resolve (Suc n) (Some a) ty1 c2 = Some (Inr ob, c2)" "resolve (Suc k) (Some b) ty2 c2 = Some (Inr ob, c2)"
      using resolve_matching(1) [OF regs(1,2) up fa(1)] resolve_matching(1) [OF regs(3,4) up fa(2)] by blast+
    then show ?thesis using Some by auto
  next
    case None
    let ?ob = "length (dc_objects c2)"
    define c3 where "c3 = store_instance m ?i ?ob (c2\<lparr>dc_objects := dc_objects c2 @ [\<lparr>ob_type = ty1, ob_args = []\<rparr>]\<rparr>)"
    have r: "resolve (Suc n) (Some a) ty1 c2 = Some (Inr ?ob, c3)"
      unfolding c3_def by (rule resolve_matching(2) [OF regs(1,2) up fa(1)]) (use im None in simp)
    have s3: "dc_scopes c3 ! s = (if s = m then (dc_scopes c2 ! m)\<lparr>ds_instances := (ds_instances (dc_scopes c2 ! m))(?i \<mapsto> ?ob)\<rparr>
        else dc_scopes c2 ! s)" if "s < length (dc_scopes c2)" for s
      using that by (simp add: c3_def store_instance_def upd_scope_nth)
    have lt: "p < length (dc_scopes c2)" "m < length (dc_scopes c2)" "b < length (dc_scopes c2)" "b \<noteq> m"
      using len a m assms(2) by simp_all
    have sel: "ds_registrations (dc_scopes c3 ! b) ty2 = Some [matching_registration ty2 tag ?i]"
      "ds_parent (dc_scopes c3 ! b) = Some p" "ds_tag (dc_scopes c3 ! b) = tag2" "ds_alive (dc_scopes c3 ! p)"
      "ds_instances (dc_scopes c3 ! m) ?i = Some ?ob"
      using s3 [OF lt(1)] s3 [OF lt(2)] s3 [OF lt(3)] lt(4) regs up by (cases "p = m"; simp)+
    have "findMatchingScope tag c3 p = findMatchingScope tag c p"
      by (rule findMatchingScope_cong [OF wf _ assms(2)]) (use s3 old len a in simp)
    then have fb: "findMatchingScope tag c3 b = Inr (Some m)"
      using findMatchingScope_child [of c3 b tag p] sel a assms(2,6,7) by simp
    have "resolve (Suc k) (Some b) ty2 c3 = Some (Inr ?ob, c3)"
      by (rule resolve_matching(1) [OF sel(1,2,4) fb sel(5)])
    moreover have "ob_type (dc_objects c3 ! ?ob) = ty1" by (simp add: c3_def)
    ultimately show ?thesis using r None by blast
  qed
qed

section \<open>Concrete containers\<close>

text \<open>
  A root with a single instance of type 1 and a type 2 that needs it, and a child without
  registrations; and a root tagged \<^verbatim>\<open>m\<close> whose two children register the types 1 and 2 per
  matching scope.
\<close>

definition demo_root :: container_builder where
  "demo_root = registerDependency 2 [Single 1] Makes id (registerDependency 1 [] Makes singleInstance (ContainerBuilder 0))"

definition demo_container :: container where
  "demo_container = snd (beginLifetimeScope (Some 0) '''' (Some (\<lambda>_. ContainerBuilder 2))
     (snd (build demo_root \<lparr>dc_scopes = [], dc_objects = []\<rparr>)))"

definition demo_tagged :: container where
  "demo_tagged = snd (beginLifetimeScope (Some 0) ''m'' (Some (\<lambda>_. ContainerBuilder 0))
     (snd (build (ContainerBuilder 0) \<lparr>dc_scopes = [], dc_objects = []\<rparr>)))"

definition demo_sibling :: "u64 \<Rightarrow> container \<Rightarrow> nat res \<times> container" where
  "demo_sibling ty = beginLifetimeScope (Some 1) '''' (Some (registerDependency ty [] Makes (matching ''m'')))"

definition demo_siblings :: container where
  "demo_siblings = snd (demo_sibling 2 (snd (demo_sibling 1 demo_tagged)))"

definition demo_cycle :: container where
  "demo_cycle = snd (build (registerDependency 1 [Single 1] Makes singleInstance (ContainerBuilder 0))
     \<lparr>dc_scopes = [], dc_objects = []\<rparr>)"

lemma demo_reg:
  "demo_root = \<lparr>cb_counter = 2, cb_registrations =
     [\<lparr>rg_id = 0, rg_types = [], rg_lifetime = SingleInstance, rg_tag = '''', rg_actualType = 1, rg_args = [], rg_result = Makes\<rparr>,
      \<lparr>rg_id = 1, rg_types = [], rg_lifetime = InstancePerRequest, rg_tag = '''', rg_actualType = 2, rg_args = [Single 1],
       rg_result = Makes\<rparr>]\<rparr>"
  by (simp add: demo_root_def registerDependency_def ContainerBuilder_def singleInstance_def)

lemma demo_built: "built 0 demo_root"
  unfolding demo_root_def by (intro built.intros) simp_all

lemma demo_reach: "di_reach T demo_container"
proof -
  have r: "di_reach T (snd (build demo_root \<lparr>dc_scopes = [], dc_objects = []\<rparr>))"
    by (intro di_reach.root di_reach.empty demo_built) (simp add: demo_reg reg_ok_def)
  have "ds_baseId (dc_scopes (snd (build demo_root \<lparr>dc_scopes = [], dc_objects = []\<rparr>)) ! 0) = 2"
    by (simp add: build_def DependencyScope_def demo_reg)
  then have "built (ds_baseId (dc_scopes (snd (build demo_root \<lparr>dc_scopes = [], dc_objects = []\<rparr>)) ! 0)) (ContainerBuilder 2)"
    by (simp add: built.new)
  then show ?thesis
    unfolding demo_container_def
    by (intro di_reach.child r) (simp_all add: build_def DependencyScope_def ContainerBuilder_def)
qed

lemma demo_scopes:
  "length (dc_scopes demo_container) = 2"
  "dc_scopes demo_container = [\<lparr>ds_registrations = buildRegistrations (cb_registrations demo_root), ds_instances = Map.empty,
      ds_tag = '''', ds_parent = None, ds_baseId = 2, ds_alive = True\<rparr>,
    \<lparr>ds_registrations = Map.empty, ds_instances = Map.empty, ds_tag = '''', ds_parent = Some 0, ds_baseId = 2, ds_alive = True\<rparr>]"
  by (simp_all add: demo_container_def beginLifetimeScope_def build_def DependencyScope_def ContainerBuilder_def
      buildRegistrations_def demo_reg)

lemma demo_registrations:
  "buildRegistrations (cb_registrations demo_root) =
     [1 \<mapsto> [cb_registrations demo_root ! 0], 2 \<mapsto> [cb_registrations demo_root ! 1]]"
  by (simp add: buildRegistrations_def demo_reg types_of_def add_registration_def)

lemma demo_first:
  "map_option (map_prod id dc_objects) (resolve 3 (Some 1) 2 demo_container) =
     Some (Inr 1, [\<lparr>ob_type = 1, ob_args = []\<rparr>, \<lparr>ob_type = 2, ob_args = [[0]]\<rparr>])"
  by code_simp

lemma demo_single:
  "map_option (map_prod id dc_objects) (resolve 3 (Some 1) 1 demo_container) = Some (Inr 0, [\<lparr>ob_type = 1, ob_args = []\<rparr>])"
  by code_simp

lemma demo_first_obtain:
  obtains c' where "resolve 3 (Some 1) 2 demo_container = Some (Inr 1, c')"
    "dc_objects c' = [\<lparr>ob_type = 1, ob_args = []\<rparr>, \<lparr>ob_type = 2, ob_args = [[0]]\<rparr>]"
  using demo_first by auto

theorem resolution_type_safe_witness:
  "\<exists>c' a rg. resolve 3 (Some 1) 2 demo_container = Some (Inr 1, c') \<and> registered c' a rg \<and> 2 \<in> set (types_of rg) \<and>
     ob_type (dc_objects c' ! 1) = 2 \<and> rg_actualType rg = 2"
proof -
  obtain c' where c': "resolve 3 (Some 1) 2 demo_container = Some (Inr 1, c')"
    "dc_objects c' = [\<lparr>ob_type = 1, ob_args = []\<rparr>, \<lparr>ob_type = 2, ob_args = [[0]]\<rparr>]"
    by (rule demo_first_obtain)
  have s: "1 < length (dc_scopes demo_container)" by (simp add: demo_scopes)
  from resolution_type_safe [OF demo_reach s c'(1)] c' show ?thesis by fastforce
qed

definition demo_shared :: container where
  "demo_shared = snd (the (resolve 3 (Some 1) 1 demo_container))"

theorem single_instance_shared_witness:
  "fst (the (resolve 3 (Some 1) 1 demo_container)) = Inr 0 \<and> fst (the (resolve 3 (Some 0) 1 demo_shared)) = Inr 0"
proof -
  let ?rg = "cb_registrations demo_root ! 0"
  have s: "1 < length (dc_scopes demo_container)" by (simp add: demo_scopes)
  have r1: "resolve 3 (Some 1) 1 demo_container = Some (Inr 0, demo_shared)"
    using demo_single by (auto simp: demo_shared_def)
  have p: "provider demo_container 1 1 = Some (0, ?rg)" "provider demo_shared 1 0 = Some (0, ?rg)"
    "rg_lifetime ?rg = SingleInstance" by code_simp+
  have "\<exists>ob. map_option fst (resolve 3 (Some 0) 1 demo_shared) = Some (Inr ob)" by (rule exI [of _ 0]) code_simp
  then obtain ob c3 where r2: "resolve 3 (Some 0) 1 demo_shared = Some (Inr ob, c3)" by auto
  have "later demo_shared demo_shared" by (simp add: later_def)
  from single_instance_shared [OF demo_reach s p(1,3) r1 this p(2) r2] show ?thesis using r1 r2 by simp
qed

theorem acyclic_resolution_returns_witness:
  "\<exists>x c'. resolve 2 (Some 1) 2 demo_container = Some (x, c')"
proof -
  let ?rank = "\<lambda>ty :: u64. if ty = 2 then 1 else 0 :: nat"
  have "rg \<in> set (cb_registrations demo_root)" if "registered demo_container s rg" "s < 2" for s rg
  proof -
    have "s = 0 \<or> s = 1" using that(2) by auto
    then show ?thesis
      using that(1) buildRegistrations_wf by (auto simp: registered_def demo_scopes(2))
  qed
  then have "ranked ?rank demo_container"
    unfolding ranked_def demo_scopes(1) by (fastforce simp: demo_reg types_of_def arg_type_def)
  moreover have "1 < length (dc_scopes demo_container)" by (simp add: demo_scopes)
  ultimately show ?thesis
    using acyclic_resolution_returns [OF demo_reach, of 1 ?rank 2 2] by auto
qed

theorem circular_dependency_diverges_witness: "resolve 10 (Some 0) 1 demo_cycle = None"
proof -
  let ?rg = "\<lparr>rg_id = 0, rg_types = [], rg_lifetime = SingleInstance, rg_tag = '''', rg_actualType = 1, rg_args = [Single 1],
     rg_result = Makes\<rparr>"
  have p: "provider demo_cycle 1 0 = Some (0, ?rg)" "ds_instances (dc_scopes demo_cycle ! 0) 0 = None"
    "ds_parent (dc_scopes demo_cycle ! 0) = None" by code_simp+
  have "a = 0" if "above demo_cycle a s" "s = 0" for a s
    using that p(3) by (induction rule: above.induct) simp_all
  then have "branch_alive demo_cycle 0" using p(3) by (metis branch_alive_def option.distinct(1))
  then show ?thesis
    by (rule circular_dependency_diverges [where tys = "{1}"]) (use p in auto)
qed

lemma demo_tagged_reach: "di_reach False demo_tagged"
proof -
  have r: "reg_ok False c rg" for c rg by (simp add: reg_ok_def)
  let ?c0 = "snd (build (ContainerBuilder 0) \<lparr>dc_scopes = [], dc_objects = []\<rparr>)"
  have base: "ds_baseId (dc_scopes ?c0 ! 0) = 0" "0 < length (dc_scopes ?c0)" by code_simp+
  have c0: "di_reach False ?c0" by (rule di_reach.root [OF di_reach.empty built.new]) (simp add: r)
  show ?thesis
    unfolding demo_tagged_def by (rule di_reach.child [OF c0 base(2)]) (simp_all add: r base(1) built.new)
qed

theorem matching_scope_confuses_types_witness:
  "\<exists>c3. resolve 1 (Some 2) 1 demo_siblings = Some (Inr 0, c3) \<and> resolve 1 (Some 3) 2 c3 = Some (Inr 0, c3) \<and>
     ob_type (dc_objects c3 ! 0) = 1"
proof -
  have f: "fst (demo_sibling 1 demo_tagged) = Inr 2" "fst (demo_sibling 2 (snd (demo_sibling 1 demo_tagged))) = Inr 3"
    by code_simp+
  have p: "1 < length (dc_scopes demo_tagged)" "ds_alive (dc_scopes demo_tagged ! 1)"
    "findMatchingScope ''m'' demo_tagged 1 = Inr (Some 1)"
    "ds_instances (dc_scopes demo_tagged ! 1) (ds_baseId (dc_scopes demo_tagged ! 1)) = None"
    "map_option fst (resolve 1 (Some 2) 1 demo_siblings) = Some (Inr 0)"
    by code_simp+
  have c1: "beginLifetimeScope (Some 1) '''' (Some (registerDependency 1 [] Makes (matching ''m''))) demo_tagged =
      (Inr 2, snd (demo_sibling 1 demo_tagged))"
    using f(1) by (simp add: demo_sibling_def prod_eq_iff)
  have c2: "beginLifetimeScope (Some 1) '''' (Some (registerDependency 2 [] Makes (matching ''m'')))
      (snd (demo_sibling 1 demo_tagged)) = (Inr 3, demo_siblings)"
    using f(2) by (simp add: demo_sibling_def demo_siblings_def prod_eq_iff)
  from matching_scope_confuses_types [OF demo_tagged_reach p(1,2) _ _ _ p(3) c1 c2, of 0 0] obtain ob c3
    where "resolve 1 (Some 2) 1 demo_siblings = Some (Inr ob, c3)" "resolve 1 (Some 3) 2 c3 = Some (Inr ob, c3)"
      "ob_type (dc_objects c3 ! ob) = 1"
    using p(4) by auto
  with p(5) show ?thesis by auto
qed

end
