(* ===== verification/Scheduling.thy ===== *)
theory Scheduling
  imports Prelude "HOL-Library.Sublist"
begin

text \<open>
  Where the client's code runs: the action dispatchers of \<^verbatim>\<open>IActionDispatcher.cpp\<close>, the timer
  thread of \<^verbatim>\<open>TimerThread.cpp\<close> as a step relation over its program counter, and the periodic
  work of \<^verbatim>\<open>DefaultScheduler.cpp\<close>. Actions are values with a given effect; the clock is an
  argument of every step that reads it.
\<close>

section \<open>Dispatchers\<close>

text \<open>
  \<^verbatim>\<open>MainThreadActionDispatcher\<close>. \<open>aq_tces\<close> are the completion events the dispatcher has made,
  the last one is \<^verbatim>\<open>_stopTce\<close>; a task returned by \<^verbatim>\<open>stop\<close> is the index of its event.
  \<open>aq_posted\<close> and \<open>aq_log\<close> record the actions that were accepted and those that were run.
\<close>

record 'a action_queue =
  aq_isRunning :: bool
  aq_stopRequested :: bool
  aq_actions :: "'a list"
  aq_tces :: "bool list"
  aq_posted :: "'a list"
  aq_log :: "'a list"

definition MainThreadActionDispatcher :: "bool \<Rightarrow> bool \<Rightarrow> 'a action_queue" where
  "MainThreadActionDispatcher running stopping =
     \<lparr>aq_isRunning = running, aq_stopRequested = stopping, aq_actions = [], aq_tces = [False], aq_posted = [], aq_log = []\<rparr>"

definition aq_start :: "'a action_queue \<Rightarrow> 'a action_queue" where
  "aq_start q = q\<lparr>aq_tces := aq_tces q @ [False], aq_isRunning := True, aq_stopRequested := False\<rparr>"

definition aq_stop :: "'a action_queue \<Rightarrow> nat \<times> 'a action_queue" where
  "aq_stop q = (length (aq_tces q) - 1, q\<lparr>aq_stopRequested := True, aq_actions := []\<rparr>)"

definition aq_post :: "'a \<Rightarrow> 'a action_queue \<Rightarrow> unit res \<times> 'a action_queue" where
  "aq_post a q =
     (if aq_isRunning q then (Inr (), q\<lparr>aq_actions := aq_actions q @ [a], aq_posted := aq_posted q @ [a]\<rparr>)
      else (Inl (LogicError ''Dispatcher isn't running''), q))"

text \<open>\<^verbatim>\<open>schedule\<close> posts the task with its parameter.\<close>

definition aq_schedule :: "('p \<Rightarrow> 'a) \<Rightarrow> 'p \<Rightarrow> 'a action_queue \<Rightarrow> unit res \<times> 'a action_queue" where
  "aq_schedule task param q = aq_post (task param) q"

text \<open>
  An action changes the user's state, posts further actions and may throw. \<^verbatim>\<open>update\<close> takes a list
  of readings, one for every turn of its loop: the actions that other threads have posted
  before the queue is examined, and whether the time is up at the end of the turn. \<^const>\<open>None\<close>
  says that the loop is still running when the readings are used up. Only \<^verbatim>\<open>post\<close> is called
  by other threads inside an \<^verbatim>\<open>update\<close>; their \<^verbatim>\<open>start\<close> and \<^verbatim>\<open>stop\<close> come before it or after it.
\<close>

type_synonym ('a, 'u) effect = "'a \<Rightarrow> 'u \<Rightarrow> 'u \<times> 'a list \<times> storm_exn option"

definition post_all :: "'a list \<Rightarrow> 'a action_queue \<Rightarrow> 'a action_queue" where
  "post_all as q = fold (\<lambda>a q. snd (aq_post a q)) as q"

definition finish_stop :: "'a action_queue \<Rightarrow> 'a action_queue" where
  "finish_stop q =
     (if aq_stopRequested q
      then q\<lparr>aq_isRunning := False, aq_tces := (aq_tces q)[length (aq_tces q) - 1 := True]\<rparr>
      else q)"

fun update_loop :: "('a, 'u) effect \<Rightarrow> ('a list \<times> bool) list \<Rightarrow> 'u \<Rightarrow> 'a action_queue \<Rightarrow>
    (unit res \<times> 'u \<times> 'a action_queue) option" where
  "update_loop exec [] u q = None"
| "update_loop exec ((others, late) # readings) u q =
     (let q0 = post_all others q in
      case aq_actions q0 of
        a # as \<Rightarrow>
          (case exec a u of (u1, posts, ex) \<Rightarrow>
             (let q1 = post_all posts (q0\<lparr>aq_actions := as, aq_log := aq_log q0 @ [a]\<rparr>) in
              case ex of
                Some e \<Rightarrow> Some (Inl e, u1, q1)
              | None \<Rightarrow> if late then Some (Inr (), u1, q1) else update_loop exec readings u1 q1))
      | [] \<Rightarrow>
          (let q1 = finish_stop q0 in
           if late \<or> \<not> aq_stopRequested q1 then Some (Inr (), u, q1)
           else update_loop exec readings u q1))"

definition update :: "('a, 'u) effect \<Rightarrow> ('a list \<times> bool) list \<Rightarrow> 'u \<Rightarrow> 'a action_queue \<Rightarrow>
    (unit res \<times> 'u \<times> 'a action_queue) option" where
  "update exec readings u q =
     (if \<not> aq_isRunning q then Some (Inr (), u, q) else update_loop exec readings u q)"

text \<open>\<^verbatim>\<open>SameThreadActionDispatcher\<close> runs an action where it is posted.\<close>

record same_thread =
  st_isRunning :: bool

definition same_start :: "same_thread \<Rightarrow> same_thread" where
  "same_start d = d\<lparr>st_isRunning := True\<rparr>"

definition same_stop :: "same_thread \<Rightarrow> unit task \<times> same_thread" where
  "same_stop d = (Done (), d\<lparr>st_isRunning := False\<rparr>)"

definition same_post :: "('u \<Rightarrow> unit res \<times> 'u) \<Rightarrow> same_thread \<Rightarrow> 'u \<Rightarrow> unit res \<times> 'u" where
  "same_post action d u =
     (if st_isRunning d then action u else (Inl (LogicError ''Dispatcher isn't running''), u))"

definition same_schedule :: "('p \<Rightarrow> 'u \<Rightarrow> unit res \<times> 'u) \<Rightarrow> 'p \<Rightarrow> same_thread \<Rightarrow> 'u \<Rightarrow> unit res \<times> 'u" where
  "same_schedule task param d u = task param u"

section \<open>Order of the actions\<close>

lemma post_all_Cons: "post_all (a # as) q = post_all as (snd (aq_post a q))"
  by (simp add: post_all_def)

lemma post_all_frame [simp]:
  "aq_log (post_all as q) = aq_log q" "aq_isRunning (post_all as q) = aq_isRunning q"
  "aq_stopRequested (post_all as q) = aq_stopRequested q" "aq_tces (post_all as q) = aq_tces q"
  by (induction as arbitrary: q) (simp_all add: post_all_Cons, simp_all add: post_all_def aq_post_def)

lemma post_all_actions:
  "aq_actions (post_all as q) = aq_actions q @ (if aq_isRunning q then as else [])"
  "aq_posted (post_all as q) = aq_posted q @ (if aq_isRunning q then as else [])"
  by (induction as arbitrary: q) (simp_all add: post_all_Cons, simp_all add: post_all_def aq_post_def)

lemma finish_stop_frame [simp]:
  "aq_actions (finish_stop q) = aq_actions q" "aq_log (finish_stop q) = aq_log q" "aq_posted (finish_stop q) = aq_posted q"
  "aq_stopRequested (finish_stop q) = aq_stopRequested q"
  by (simp_all add: finish_stop_def)

text \<open>Nothing is lost or reordered: what was accepted is what was run, then what waits.\<close>

definition in_order :: "'a action_queue \<Rightarrow> bool" where
  "in_order q \<longleftrightarrow> aq_posted q = aq_log q @ aq_actions q"

definition in_order_but :: "'a action_queue \<Rightarrow> bool" where
  "in_order_but q \<longleftrightarrow> (\<exists>ps. subseq (aq_log q) ps \<and> aq_posted q = ps @ aq_actions q)"

lemma in_order_butI: "in_order q \<Longrightarrow> in_order_but q"
  by (auto simp: in_order_def in_order_but_def)

lemma in_order_post_all:
  "in_order q \<Longrightarrow> in_order (post_all as q)" "in_order_but q \<Longrightarrow> in_order_but (post_all as q)"
  by (auto simp: in_order_def in_order_but_def post_all_actions)

lemma in_order_pop:
  assumes "aq_actions q = a # as"
  shows "in_order q \<Longrightarrow> in_order (q\<lparr>aq_actions := as, aq_log := aq_log q @ [a]\<rparr>)"
    "in_order_but q \<Longrightarrow> in_order_but (q\<lparr>aq_actions := as, aq_log := aq_log q @ [a]\<rparr>)"
proof -
  show "in_order q \<Longrightarrow> in_order (q\<lparr>aq_actions := as, aq_log := aq_log q @ [a]\<rparr>)"
    using assms by (simp add: in_order_def)
  assume "in_order_but q"
  then obtain ps where "subseq (aq_log q) ps" "aq_posted q = ps @ a # as" using assms by (auto simp: in_order_but_def)
  then have "subseq (aq_log q @ [a]) (ps @ [a])" "aq_posted q = (ps @ [a]) @ as" by (simp_all add: list_emb_append_mono)
  then show "in_order_but (q\<lparr>aq_actions := as, aq_log := aq_log q @ [a]\<rparr>)"
    unfolding in_order_but_def by (intro exI [of _ "ps @ [a]"]) simp
qed

lemma update_loop_order:
  "update_loop exec readings u q = Some (r, u', q') \<Longrightarrow>
     (in_order q \<longrightarrow> in_order q') \<and> (in_order_but q \<longrightarrow> in_order_but q') \<and> aq_stopRequested q' = aq_stopRequested q"
proof (induction exec readings u q rule: update_loop.induct)
  case (2 exec others late readings u q)
  let ?q0 = "post_all others q"
  show ?case
  proof (cases "aq_actions ?q0")
    case Nil
    have f: "in_order (finish_stop ?q0) = in_order ?q0" "in_order_but (finish_stop ?q0) = in_order_but ?q0"
      by (simp_all add: in_order_def in_order_but_def)
    show ?thesis
      using "2.IH"(1) [OF refl Nil refl] "2.prems" Nil f in_order_post_all [where q = q and as = others]
      by (auto simp: Let_def split: if_splits)
  next
    case (Cons a as)
    obtain u1 posts ex where e: "exec a u = (u1, posts, ex)" by (metis prod_cases3)
    let ?q1 = "post_all posts (?q0\<lparr>aq_actions := as, aq_log := aq_log ?q0 @ [a]\<rparr>)"
    have q1: "in_order q \<longrightarrow> in_order ?q1" "in_order_but q \<longrightarrow> in_order_but ?q1"
      using in_order_post_all in_order_pop [OF Cons] by blast+
    show ?thesis
      using "2.IH"(2) [OF refl Cons e [symmetric] refl refl] "2.prems" Cons e q1
      by (auto simp: Let_def split: option.splits if_splits)
  qed
qed simp

inductive aq_reach :: "('a, 'u) effect \<Rightarrow> bool \<Rightarrow> 'u \<Rightarrow> 'a action_queue \<Rightarrow> bool" for exec where
  new: "aq_reach exec False u (MainThreadActionDispatcher b False)"
| start: "aq_reach exec S u q \<Longrightarrow> aq_reach exec S u (aq_start q)"
| post: "aq_reach exec S u q \<Longrightarrow> aq_reach exec S u (snd (aq_post a q))"
| update: "aq_reach exec S u q \<Longrightarrow> update exec readings u q = Some (r, u', q') \<Longrightarrow> aq_reach exec S u' q'"
| stop: "aq_reach exec S u q \<Longrightarrow> aq_reach exec True u (snd (aq_stop q))"

text \<open>
  Property C16. The dispatcher runs actions in the order in which they were posted, each at most
  once: in every reachable state the actions run so far and those waiting are, in this order,
  among the accepted ones; and if \<^verbatim>\<open>stop\<close> was never called they are exactly the accepted ones,
  whichever threads posted them, whatever the actions post themselves and however often an
  action throws or time runs out.
\<close>

theorem actions_run_in_order:
  assumes "aq_reach exec stopped u q"
  shows "subseq (aq_log q @ aq_actions q) (aq_posted q) \<and> (\<not> stopped \<longrightarrow> aq_posted q = aq_log q @ aq_actions q)"
proof -
  have "in_order_but q \<and> (\<not> stopped \<longrightarrow> in_order q)"
    using assms
  proof (induction rule: aq_reach.induct)
    case (new u b)
    then show ?case by (simp add: in_order_def in_order_but_def MainThreadActionDispatcher_def)
  next
    case (start S u q)
    then show ?case by (simp add: in_order_def in_order_but_def aq_start_def)
  next
    case (post S u q a)
    have "snd (aq_post a q) = post_all [a] q" by (simp add: post_all_def)
    then show ?case using post.IH in_order_post_all [of q "[a]"] by simp
  next
    case (update S u q readings r u' q')
    then show ?case using update_loop_order [of exec readings u q r u' q'] by (auto simp: update_def split: if_splits)
  next
    case (stop S u q)
    then obtain ps where "subseq (aq_log q) ps" "aq_posted q = ps @ aq_actions q" by (auto simp: in_order_but_def)
    then have "subseq (aq_log q) (aq_posted q)" by (metis append.right_neutral list_emb_Nil list_emb_append_mono)
    then show ?case by (auto simp: aq_stop_def in_order_but_def)
  qed
  then show ?thesis
    by (auto simp: in_order_def in_order_but_def list_emb_append_mono)
qed

section \<open>The end of an update\<close>

text \<open>
  An update ends when the actions do not post forever: if every action has a
  weight that exceeds the weights of what it posts, and nothing throws, then \<^verbatim>\<open>update\<close> runs
  everything, posted actions included, within as many turns as the waiting actions weigh and
  one, and leaves the queue empty.
\<close>

theorem update_runs_everything:
  assumes "aq_isRunning q" "\<not> aq_stopRequested q"
    and "\<And>a u u' posts ex. exec a u = (u', posts, ex) \<Longrightarrow> ex = None \<and> sum_list (map weight posts) < (weight a :: nat)"
    and "sum_list (map weight (aq_actions q)) < n"
  shows "\<exists>u' q'. update exec (replicate n ([], False)) u q = Some (Inr (), u', q') \<and> aq_actions q' = []"
proof -
  have "\<exists>u' q'. update_loop exec (replicate n ([], False)) u q = Some (Inr (), u', q') \<and> aq_actions q' = []"
    using assms(1,2,4)
  proof (induction n arbitrary: u q)
    case (Suc n)
    show ?case
    proof (cases "aq_actions q")
      case Nil
      then show ?thesis using Suc.prems(2) by (simp add: Let_def post_all_def finish_stop_def)
    next
      case (Cons a as)
      obtain u1 posts ex where e: "exec a u = (u1, posts, ex)" by (metis prod_cases3)
      note w = assms(3) [OF e]
      let ?q1 = "post_all posts (q\<lparr>aq_actions := as, aq_log := aq_log q @ [a]\<rparr>)"
      have "sum_list (map weight (aq_actions ?q1)) < n"
        using w Suc.prems(1,3) Cons by (simp add: post_all_actions)
      then have "\<exists>u' q'. update_loop exec (replicate n ([], False)) u1 ?q1 = Some (Inr (), u', q') \<and> aq_actions q' = []"
        using Suc.prems(1,2) by (intro Suc.IH) simp_all
      moreover have "post_all [] q = q" by (simp add: post_all_def)
      ultimately show ?thesis using Cons e w by (simp add: Let_def)
    qed
  qed simp
  then show ?thesis using assms(1) by (simp add: update_def)
qed

text \<open>
  Stopping the dispatcher throws away the waiting actions, and the update that
  follows spins: \<^verbatim>\<open>_stopRequested\<close> keeps its loop going although the queue is empty, the dispatcher
  is stopped and the task of \<^verbatim>\<open>stop\<close> done since the first turn. It returns when its time is up and
  not before, whatever other threads post. (The comment in \<^verbatim>\<open>update\<close> speaks of waiting for the
  queue to be empty before stopping.)
\<close>

theorem stop_discards_and_spins:
  assumes "aq_isRunning q" "aq_tces q \<noteq> []"
    and "\<And>a u. snd (snd (exec a u)) = None"
  shows "((\<forall>r \<in> set readings. \<not> snd r) \<longrightarrow> update exec readings u (snd (aq_stop q)) = None) \<and>
    (\<exists>q'. update exec (replicate k ([], False) @ [([], True)]) u (snd (aq_stop q)) = Some (Inr (), u, q') \<and>
       \<not> aq_isRunning q' \<and> aq_tces q' ! fst (aq_stop q) \<and> aq_actions q' = [] \<and> aq_log q' = aq_log q)"
proof
  have "(\<forall>r \<in> set readings. \<not> snd r) \<Longrightarrow> update_loop exec readings u s = None" if "aq_stopRequested s" for s u
    using that
  proof (induction readings arbitrary: u s)
    case (Cons r readings)
    obtain others where r: "r = (others, False)" using Cons.prems(1) by (cases r) auto
    show ?case
    proof (cases "aq_actions (post_all others s)")
      case Nil
      then show ?thesis using Cons by (simp add: r Let_def)
    next
      case (Cons a as)
      obtain u1 posts where "exec a u = (u1, posts, None)" using assms(3) [of a u] by (metis prod.collapse)
      then show ?thesis using Cons Cons.IH Cons.prems by (simp add: r Let_def)
    qed
  qed simp
  then show "(\<forall>r \<in> set readings. \<not> snd r) \<longrightarrow> update exec readings u (snd (aq_stop q)) = None"
    using assms(1) by (simp add: update_def aq_stop_def)
next
  have p: "post_all [] s = s" for s :: "'a action_queue" by (simp add: post_all_def)
  have "\<exists>q'. update_loop exec (replicate k ([], False) @ [([], True)]) u s = Some (Inr (), u, q') \<and> \<not> aq_isRunning q' \<and>
      aq_tces q' ! (length (aq_tces s) - 1) \<and> aq_actions q' = [] \<and> aq_log q' = aq_log s"
    if "aq_stopRequested s" "aq_actions s = []" "aq_tces s \<noteq> []" for s
    using that
  proof (induction k arbitrary: s)
    case 0
    then show ?case by (simp add: Let_def p finish_stop_def)
  next
    case (Suc k)
    from Suc.IH [of "finish_stop s"] Suc.prems
    show ?case by (auto simp: Let_def p finish_stop_def)
  qed
  from this [of "snd (aq_stop q)"]
  show "\<exists>q'. update exec (replicate k ([], False) @ [([], True)]) u (snd (aq_stop q)) = Some (Inr (), u, q') \<and>
       \<not> aq_isRunning q' \<and> aq_tces q' ! fst (aq_stop q) \<and> aq_actions q' = [] \<and> aq_log q' = aq_log q"
    using assms(1,2) by (simp add: update_def aq_stop_def)
qed

section \<open>The timer thread\<close>

text \<open>
  \<^verbatim>\<open>TimerThread\<close>: its queue, ordered by time but not among equal times, hence a choice of the
  next entry; the program counter of \<^verbatim>\<open>_threadLoop\<close>; the time; what was started, with the time.
  \<open>Check\<close> is the condition of the loop, which is read without the mutex; \<open>Locked\<close> the body, which
  runs under it. A function is \<^const>\<open>None\<close> when it is empty.
\<close>

record 'a timer_entry =
  te_scheduledTime :: nat
  te_function :: "'a option"
  te_dispatcher :: "nat option"

datatype timer_pc = Check | Locked | Waiting | WaitingUntil nat | Exited | Undefined | Terminated

record 'a timer =
  tt_queue :: "'a timer_entry list"
  tt_stopRequested :: bool
  tt_pc :: timer_pc
  tt_now :: nat
  tt_started :: "(nat \<times> 'a timer_entry) list"

definition TimerThread :: "nat \<Rightarrow> 'a timer" where
  "TimerThread now = \<lparr>tt_queue = [], tt_stopRequested = False, tt_pc = Check, tt_now = now, tt_started = []\<rparr>"

definition notify_thread :: "'a timer \<Rightarrow> 'a timer" where
  "notify_thread t =
     (case tt_pc t of Waiting \<Rightarrow> t\<lparr>tt_pc := Check\<rparr> | WaitingUntil _ \<Rightarrow> t\<lparr>tt_pc := Check\<rparr> | _ \<Rightarrow> t)"

definition timer_schedule :: "'a option \<Rightarrow> nat \<Rightarrow> nat option \<Rightarrow> 'a timer \<Rightarrow> 'a timer" where
  "timer_schedule f when d t =
     (if tt_stopRequested t then t
      else
        (let earliest = (\<forall>e \<in> set (tt_queue t). when < te_scheduledTime e);
             t1 = t\<lparr>tt_queue := \<lparr>te_scheduledTime = when, te_function = f, te_dispatcher = d\<rparr> # tt_queue t\<rparr>
         in if earliest then notify_thread t1 else t1))"

definition timer_stop :: "bool \<Rightarrow> 'a timer \<Rightarrow> 'a timer" where
  "timer_stop immediate t =
     notify_thread (t\<lparr>tt_stopRequested := True, tt_queue := (if immediate then [] else tt_queue t)\<rparr>)"

definition loop_check :: "'a timer \<Rightarrow> 'a timer" where
  "loop_check t = t\<lparr>tt_pc := (if tt_stopRequested t \<and> tt_queue t = [] then Exited else Locked)\<rparr>"

text \<open>\<open>top\<close>: an entry that no other one precedes.\<close>

definition is_top :: "'a timer_entry \<Rightarrow> 'a timer \<Rightarrow> bool" where
  "is_top e t \<longleftrightarrow> e \<in> set (tt_queue t) \<and> (\<forall>e' \<in> set (tt_queue t). te_scheduledTime e \<le> te_scheduledTime e')"

text \<open>The body with the entry that \<^verbatim>\<open>top()\<close> gives; times are in milliseconds.\<close>

definition loop_body :: "'a timer_entry \<Rightarrow> 'a timer \<Rightarrow> 'a timer" where
  "loop_body e t =
     (if tt_queue t = [] then t\<lparr>tt_pc := (if tt_stopRequested t then Undefined else Waiting)\<rparr>
      else if te_scheduledTime e > tt_now t + 1 then t\<lparr>tt_pc := WaitingUntil (te_scheduledTime e)\<rparr>
      else
        (let t1 = t\<lparr>tt_queue := remove1 e (tt_queue t)\<rparr> in
         if te_function e \<noteq> None then t1\<lparr>tt_pc := Check, tt_started := tt_started t1 @ [(tt_now t1, e)]\<rparr>
         else if \<not> tt_stopRequested t1 then t1\<lparr>tt_pc := Terminated\<rparr>
         else t1\<lparr>tt_pc := Check\<rparr>))"

text \<open>
  The steps of the thread, of the others and of the clock. A wait may end at any time; a timed
  one has ended when its time has come.
\<close>

inductive timer_step :: "'a timer \<Rightarrow> 'a timer \<Rightarrow> bool" where
  tick: "tt_now t \<le> now \<Longrightarrow> timer_step t (t\<lparr>tt_now := now\<rparr>)"
| schedule: "timer_step t (timer_schedule f when d t)"
| stop: "timer_step t (timer_stop immediate t)"
| check: "tt_pc t = Check \<Longrightarrow> timer_step t (loop_check t)"
| body: "tt_pc t = Locked \<Longrightarrow> tt_queue t = [] \<or> is_top e t \<Longrightarrow> timer_step t (loop_body e t)"
| wake: "tt_pc t = Waiting \<or> (\<exists>u. tt_pc t = WaitingUntil u) \<Longrightarrow> timer_step t (t\<lparr>tt_pc := Check\<rparr>)"

inductive timer_reach :: "'a timer \<Rightarrow> bool" where
  new: "timer_reach (TimerThread now)"
| step: "timer_reach t \<Longrightarrow> timer_step t t' \<Longrightarrow> timer_reach t'"

lemma notify_thread_frame [simp]:
  "tt_queue (notify_thread t) = tt_queue t" "tt_started (notify_thread t) = tt_started t"
  "tt_stopRequested (notify_thread t) = tt_stopRequested t" "tt_now (notify_thread t) = tt_now t"
  "tt_pc (notify_thread t) \<noteq> Waiting" "tt_pc (notify_thread t) \<noteq> WaitingUntil u"
  by (simp_all add: notify_thread_def split: timer_pc.split)

lemma notify_thread_other: "tt_pc t \<notin> {Waiting} \<union> range WaitingUntil \<Longrightarrow> notify_thread t = t"
  by (auto simp: notify_thread_def split: timer_pc.splits)

text \<open>The thread sleeps only while nothing is due.\<close>

definition awake :: "'a timer \<Rightarrow> bool" where
  "awake t \<longleftrightarrow> (tt_pc t = Waiting \<longrightarrow> tt_queue t = [] \<and> \<not> tt_stopRequested t) \<and>
     (\<forall>u. tt_pc t = WaitingUntil u \<longrightarrow> tt_queue t \<noteq> [] \<and> \<not> (tt_stopRequested t \<and> tt_queue t = []) \<and>
        (\<forall>e \<in> set (tt_queue t). u \<le> te_scheduledTime e))"

definition punctual :: "'a timer \<Rightarrow> bool" where
  "punctual t \<longleftrightarrow> (\<forall>(now, e) \<in> set (tt_started t). te_scheduledTime e \<le> now + 1 \<and> now \<le> tt_now t) \<and>
     sorted (map fst (tt_started t))"

lemma timer_step_awake: "timer_step t t' \<Longrightarrow> awake t \<Longrightarrow> awake t'"
proof (induction rule: timer_step.induct)
  case (schedule t f w d)
  show ?case
  proof (cases "tt_stopRequested t \<or> (\<forall>e \<in> set (tt_queue t). w < te_scheduledTime e)")
    case True
    then show ?thesis using schedule by (auto simp: timer_schedule_def Let_def awake_def)
  next
    case False
    then obtain e where "e \<in> set (tt_queue t)" "te_scheduledTime e \<le> w" by (auto simp: not_less)
    moreover from this have "timer_schedule f w d t = t\<lparr>tt_queue :=
        \<lparr>te_scheduledTime = w, te_function = f, te_dispatcher = d\<rparr> # tt_queue t\<rparr>"
      using False by (auto simp: timer_schedule_def Let_def)
    ultimately show ?thesis using schedule by (cases "tt_pc t") (auto simp: awake_def intro: order_trans)
  qed
next
  case (stop t immediate)
  then show ?case by (simp add: timer_stop_def awake_def)
next
  case (body t e)
  then show ?case
    by (auto simp: loop_body_def awake_def is_top_def Let_def)
qed (auto simp: awake_def loop_check_def)

lemma timer_step_punctual: "timer_step t t' \<Longrightarrow> punctual t \<Longrightarrow> punctual t'"
proof (induction rule: timer_step.induct)
  case (body t e)
  have "punctual (t\<lparr>tt_started := tt_started t @ [(tt_now t, e)]\<rparr>)" if "te_scheduledTime e \<le> tt_now t + 1"
    using body.prems that by (auto simp: punctual_def sorted_append)
  then show ?case using body.prems by (auto simp: loop_body_def punctual_def Let_def)
qed (auto simp: punctual_def timer_schedule_def timer_stop_def loop_check_def Let_def)

lemma timer_started_cases:
  "timer_step t t' \<Longrightarrow> tt_started t' = tt_started t \<or>
     (\<exists>e. tt_started t' = tt_started t @ [(tt_now t, e)] \<and> is_top e t \<and> te_function e \<noteq> None \<and>
        tt_queue t' = remove1 e (tt_queue t))"
  by (induction rule: timer_step.induct)
    (auto simp: timer_schedule_def timer_stop_def loop_check_def loop_body_def Let_def)

text \<open>
  The timer thread neither oversleeps nor starts early. In every reachable state: it
  waits without a limit only while nothing is scheduled and no stop was requested; it waits
  with a limit only up to a time at which nothing scheduled is due yet, although \<^verbatim>\<open>schedule\<close> does
  not wake it for entries behind the first; and what it started was due, within one
  millisecond, and is in the order in which it was started.
\<close>

theorem timer_never_oversleeps:
  assumes "timer_reach t"
  shows "(tt_pc t = Waiting \<longrightarrow> tt_queue t = [] \<and> \<not> tt_stopRequested t) \<and>
    (\<forall>u. tt_pc t = WaitingUntil u \<longrightarrow> tt_queue t \<noteq> [] \<and> (\<forall>e \<in> set (tt_queue t). u \<le> te_scheduledTime e)) \<and>
    (\<forall>(now, e) \<in> set (tt_started t). te_scheduledTime e \<le> now + 1 \<and> now \<le> tt_now t) \<and> sorted (map fst (tt_started t))"
proof -
  have "awake t \<and> punctual t"
    using assms
  proof (induction rule: timer_reach.induct)
    case (new now)
    then show ?case by (simp add: awake_def punctual_def TimerThread_def)
  next
    case (step t t')
    then show ?case using timer_step_awake timer_step_punctual by blast
  qed
  then show ?thesis by (simp add: awake_def punctual_def)
qed

text \<open>
  The timer thread starts entries in the order of their times: whatever a step
  starts is due no later than everything that is left. After an immediate stop nothing is
  started any more, whatever is scheduled.
\<close>

theorem timer_starts_in_order:
  assumes "timer_reach t" "timer_step t t'" "tt_started t' \<noteq> tt_started t"
  shows "\<exists>e. tt_started t' = tt_started t @ [(tt_now t, e)] \<and> e \<in> set (tt_queue t) \<and> tt_queue t' = remove1 e (tt_queue t) \<and>
    (\<forall>e' \<in> set (tt_queue t'). te_scheduledTime e \<le> te_scheduledTime e') \<and>
    (\<forall>t2. timer_step\<^sup>*\<^sup>* (timer_stop True t') t2 \<longrightarrow> tt_started t2 = tt_started t')"
proof -
  obtain e where e: "tt_started t' = tt_started t @ [(tt_now t, e)]" "is_top e t" "tt_queue t' = remove1 e (tt_queue t)"
    using timer_started_cases [OF assms(2)] assms(3) by auto
  have "tt_queue t2 = [] \<and> tt_stopRequested t2 \<and> tt_started t2 = tt_started t'"
    if "timer_step\<^sup>*\<^sup>* (timer_stop True t') t2" for t2
    using that
  proof (induction rule: rtranclp_induct)
    case base
    then show ?case by (simp add: timer_stop_def)
  next
    case (step t1 t2)
    from step.hyps(2) step.IH show ?case
      by (induction rule: timer_step.induct)
        (auto simp: timer_schedule_def timer_stop_def loop_check_def loop_body_def)
  qed
  moreover have "\<forall>e' \<in> set (tt_queue t'). te_scheduledTime e \<le> te_scheduledTime e'"
    using e(2,3) set_remove1_subset [of e "tt_queue t"] by (auto simp: is_top_def)
  ultimately show ?thesis using e by (auto simp: is_top_def)
qed

text \<open>
  Stopping an idle timer can run into undefined behaviour: the thread reads its loop
  condition without the mutex, and between that and taking the mutex another thread may
  request the stop. The body then finds an empty queue and no reason to wait and calls
  \<^verbatim>\<open>top()\<close> on the empty queue. The state is reachable from every idle one.
\<close>

theorem timer_stop_race:
  assumes "timer_reach t" "tt_pc t = Check" "tt_queue t = []" "\<not> tt_stopRequested t"
  shows "timer_reach (loop_body e (timer_stop immediate (loop_check t))) \<and>
    tt_pc (loop_body e (timer_stop immediate (loop_check t))) = Undefined"
proof -
  let ?t1 = "loop_check t"
  let ?t2 = "timer_stop immediate ?t1"
  have t1: "tt_pc ?t1 = Locked" "tt_queue ?t1 = []" using assms(3,4) by (simp_all add: loop_check_def)
  then have t2: "tt_pc ?t2 = Locked" "tt_queue ?t2 = []" "tt_stopRequested ?t2"
    by (simp_all add: timer_stop_def notify_thread_def)
  have "timer_reach ?t2" using assms(1,2) by (blast intro: timer_reach.step timer_step.check timer_step.stop)
  moreover have "timer_step ?t2 (loop_body e ?t2)" using t2 by (intro timer_step.body) simp_all
  ultimately show ?thesis using t2 timer_reach.step by (fastforce simp: loop_body_def)
qed

section \<open>Periodic work\<close>

text \<open>
  \<^verbatim>\<open>DefaultScheduler\<close>: a periodic job with its cancellation token, delay and dispatcher. When it is
  run it works and schedules itself again, counting from the time its work ended, unless it
  was canceled or the timer is gone.
\<close>

record 'w job =
  jb_work :: 'w
  jb_token :: nat
  jb_delay :: nat
  jb_dispatcher :: "nat option"

definition schedulePeriodic :: "int \<Rightarrow> 'w \<Rightarrow> nat option \<Rightarrow> nat \<Rightarrow> nat \<Rightarrow> 'w job timer \<Rightarrow> unit res \<times> 'w job timer" where
  "schedulePeriodic delay work d token now t =
     (if delay \<le> 0 then (Inl (OutOfRange ''Scheduler periodic delay must be positive.''), t)
      else (Inr (), timer_schedule (Some \<lparr>jb_work = work, jb_token = token, jb_delay = nat delay, jb_dispatcher = d\<rparr>) now d t))"

definition periodicFunc :: "(nat \<Rightarrow> bool) \<Rightarrow> bool \<Rightarrow> nat \<Rightarrow> 'w job \<Rightarrow> 'w job timer \<Rightarrow> 'w list \<times> 'w job timer" where
  "periodicFunc canceled timerAlive now j t =
     (if \<not> canceled (jb_token j) then
        ([jb_work j], if timerAlive then timer_schedule (Some j) (now + jb_delay j) (jb_dispatcher j) t else t)
      else ([], t))"

lemma periodic_work_ends:
  "canceled (jb_token j) \<Longrightarrow> periodicFunc canceled alive now j t = ([], t)"
  by (simp add: periodicFunc_def)

section \<open>Concrete runs\<close>

text \<open>Actions that are numbers: an action posts the one below it.\<close>

definition demo_exec :: "(nat, nat) effect" where
  "demo_exec a u = (u + a, if a = 0 then [] else [a - 1], None)"

definition demo_queue :: "nat action_queue" where
  "demo_queue = snd (aq_post 2 (snd (aq_post 1 (aq_start (MainThreadActionDispatcher False False)))))"

lemma demo_queue_eq:
  "demo_queue = \<lparr>aq_isRunning = True, aq_stopRequested = False, aq_actions = [1, 2], aq_tces = [False, False],
     aq_posted = [1, 2], aq_log = []\<rparr>"
  by (simp add: demo_queue_def aq_post_def aq_start_def MainThreadActionDispatcher_def)

lemma demo_queue_reach: "aq_reach demo_exec False 0 demo_queue"
  unfolding demo_queue_def by (intro aq_reach.intros)

theorem actions_run_in_order_witness:
  "\<exists>u q. update demo_exec [([], False), ([7], True)] 0 demo_queue = Some (Inr (), u, q) \<and>
     aq_log q = [1, 2] \<and> aq_actions q = [0, 7, 1] \<and> aq_posted q = aq_log q @ aq_actions q"
proof -
  obtain u q where r: "update demo_exec [([], False), ([7], True)] 0 demo_queue = Some (Inr (), u, q)"
    "aq_log q = [1, 2]" "aq_actions q = [0, 7, 1]"
    by (simp add: update_def demo_queue_eq Let_def post_all_def aq_post_def demo_exec_def)
  show ?thesis using actions_run_in_order [OF aq_reach.update [OF demo_queue_reach r(1)]] r by auto
qed

theorem update_runs_everything_witness:
  "\<exists>u q. update demo_exec (replicate 8 ([], False)) 0 demo_queue = Some (Inr (), u, q) \<and> aq_actions q = []"
  by (rule update_runs_everything [where weight = "\<lambda>a. a + 1"])
    (auto simp: demo_queue_eq demo_exec_def split: if_splits)

theorem stop_discards_and_spins_witness:
  "update demo_exec (replicate 5 ([], False)) 0 (snd (aq_stop demo_queue)) = None \<and>
   (\<exists>q. update demo_exec [([], False), ([], True)] 0 (snd (aq_stop demo_queue)) = Some (Inr (), 0, q) \<and> aq_log q = [])"
proof -
  have q: "aq_isRunning demo_queue" "aq_tces demo_queue \<noteq> []" "aq_log demo_queue = []" by (simp_all add: demo_queue_eq)
  have e: "snd (snd (demo_exec a u)) = None" for a u by (simp add: demo_exec_def)
  show ?thesis
    using stop_discards_and_spins [where exec = demo_exec, OF q(1,2) e, where readings = "replicate 5 ([], False)" and u = 0 and k = 1] q(3) by auto
qed

definition demo_timer :: "nat timer" where
  "demo_timer = loop_check (timer_schedule (Some 5) 0 None (timer_schedule (Some 6) 9 None (TimerThread 0)))"

lemma demo_timer_reach: "timer_reach demo_timer"
proof -
  have "timer_reach (timer_schedule (Some 5) 0 None (timer_schedule (Some 6) 9 None (TimerThread 0)))"
    by (intro timer_reach.step [OF _ timer_step.schedule] timer_reach.new)
  moreover have "tt_pc (timer_schedule (Some 5) 0 None (timer_schedule (Some 6) 9 None (TimerThread 0))) = Check"
    by (simp add: timer_schedule_def TimerThread_def Let_def notify_thread_def)
  ultimately show ?thesis unfolding demo_timer_def by (blast intro: timer_reach.step timer_step.check)
qed

lemma demo_timer_eq:
  "demo_timer = \<lparr>tt_queue = [\<lparr>te_scheduledTime = 0, te_function = Some 5, te_dispatcher = None\<rparr>,
       \<lparr>te_scheduledTime = 9, te_function = Some 6, te_dispatcher = None\<rparr>], tt_stopRequested = False, tt_pc = Locked,
     tt_now = 0, tt_started = []\<rparr>"
  by (simp add: demo_timer_def loop_check_def timer_schedule_def TimerThread_def Let_def notify_thread_def)

definition demo_timer2 :: "nat timer" where
  "demo_timer2 = loop_body (hd (tt_queue demo_timer)) demo_timer"

lemma demo_timer2_step: "timer_step demo_timer demo_timer2"
  unfolding demo_timer2_def by (rule timer_step.body) (simp_all add: demo_timer_eq is_top_def)

lemma demo_timer2_started: "tt_started demo_timer2 = [(0, hd (tt_queue demo_timer))]"
  by (simp add: demo_timer2_def loop_body_def demo_timer_eq Let_def)

theorem timer_never_oversleeps_witness:
  "\<exists>now e. tt_started demo_timer2 = [(now, e)] \<and> te_scheduledTime e \<le> now + 1"
  using timer_never_oversleeps [OF timer_reach.step [OF demo_timer_reach demo_timer2_step]] demo_timer2_started by auto

theorem timer_starts_in_order_witness:
  "\<exists>e. tt_started demo_timer2 = [(0, e)] \<and> (\<forall>e' \<in> set (tt_queue demo_timer2). te_scheduledTime e \<le> te_scheduledTime e')"
proof -
  have "tt_started demo_timer2 \<noteq> tt_started demo_timer" "tt_started demo_timer = []" "tt_now demo_timer = 0"
    using demo_timer2_started by (simp_all add: demo_timer_eq)
  then show ?thesis using timer_starts_in_order [OF demo_timer_reach demo_timer2_step] by auto
qed

theorem timer_stop_race_witness:
  "tt_pc (loop_body (hd (tt_queue demo_timer)) (timer_stop True (loop_check (TimerThread 0)))) = Undefined"
proof -
  have t: "tt_pc (TimerThread 0 :: nat timer) = Check" "tt_queue (TimerThread 0 :: nat timer) = []"
    "\<not> tt_stopRequested (TimerThread 0 :: nat timer)" by (simp_all add: TimerThread_def)
  show ?thesis using timer_stop_race [OF timer_reach.new t] by blast
qed

end
