(* ===== verification/SyncClock.thy ===== *)
theory SyncClock
  imports Complex_Main "HOL-Library.Multiset" PacketDispatch Network
begin

text \<open>
  The clock synchronised with the server (\<^verbatim>\<open>SyncClock.cpp\<close>, \<^verbatim>\<open>Watch.cpp\<close>). A \<^verbatim>\<open>double\<close> is a
  real number, its NaN is \<^const>\<open>None\<close>; rounding is not modelled. The steady clock counts
  nanoseconds and is an argument of every operation that reads it.
\<close>

section \<open>The watch\<close>

record watch =
  wt_startTime :: nat
  wt_baseTime :: int

definition Watch :: "nat \<Rightarrow> watch" where
  "Watch now = \<lparr>wt_startTime = now, wt_baseTime = 0\<rparr>"

definition watch_reset :: "nat \<Rightarrow> watch \<Rightarrow> watch" where
  "watch_reset now w = w\<lparr>wt_startTime := now\<rparr>"

definition getElapsedTime :: "nat \<Rightarrow> watch \<Rightarrow> int" where
  "getElapsedTime now w = (int now - int (wt_startTime w)) div 1000000 + wt_baseTime w"

definition setBaseTime :: "int \<Rightarrow> nat \<Rightarrow> watch \<Rightarrow> watch" where
  "setBaseTime base now w = (watch_reset now w)\<lparr>wt_baseTime := base\<rparr>"

section \<open>Statistics of the pings\<close>

text \<open>
  A \<^verbatim>\<open>ClockValue\<close> is a pair of a latency and an offset. The functions are the parts of
  \<^verbatim>\<open>processResult\<close>: sorting, the element in the middle, average, variance and standard
  deviation of the latencies, and the average offset of the values below the limit.
\<close>

type_synonym clock_value = "real \<times> real"

definition median_latency :: "real list \<Rightarrow> real" where
  "median_latency ls = sort ls ! (length ls div 2)"

definition ping_avg :: "real list \<Rightarrow> real" where
  "ping_avg ls = sum_list (sort ls) / real (length ls)"

definition variance :: "real list \<Rightarrow> real" where
  "variance ls = sum_list (map (\<lambda>v. (v - ping_avg ls) * (v - ping_avg ls)) (sort ls)) / real (length ls)"

definition standard_deviation :: "real list \<Rightarrow> real" where
  "standard_deviation ls = sqrt (variance ls)"

definition latencyMax :: "clock_value list \<Rightarrow> real" where
  "latencyMax vs = median_latency (map fst vs) + standard_deviation (map fst vs)"

definition kept_values :: "clock_value list \<Rightarrow> clock_value list" where
  "kept_values vs = filter (\<lambda>v. fst v < latencyMax vs) vs"

text \<open>The division by the number of kept values, \<^verbatim>\<open>0.0 / 0\<close> when there is none.\<close>

definition offset_of :: "clock_value list \<Rightarrow> real option" where
  "offset_of vs =
     (if kept_values vs = [] then None
      else Some (sum_list (map snd (kept_values vs)) / real (length (kept_values vs))))"

section \<open>The clock\<close>

text \<open>
  \<open>sy_tokens\<close> says for every token source that \<^verbatim>\<open>start\<close> has made whether it was canceled; the
  periodic jobs hold the number of theirs, and \<^verbatim>\<open>_cancellationToken\<close> is the last one.
  \<open>sy_pings\<close> are the start times of the pings under way, held by their continuations.
\<close>

record sync_clock =
  sy_tokens :: "bool list"
  sy_values :: "clock_value list"
  sy_watch :: watch
  sy_isRunning :: bool
  sy_lastPingFinished :: bool
  sy_lastPing :: int
  sy_medianLatency :: real
  sy_standardDeviationLatency :: real
  sy_offset :: "real option"
  sy_pings :: "u64 list"

definition maxValues :: nat where
  "maxValues = 24"

definition SyncClock :: "nat \<Rightarrow> sync_clock" where
  "SyncClock now =
     \<lparr>sy_tokens = [], sy_values = [], sy_watch = watch_reset now (Watch now), sy_isRunning = False,
      sy_lastPingFinished = True, sy_lastPing = 0, sy_medianLatency = 0, sy_standardDeviationLatency = 0,
      sy_offset = Some 0, sy_pings = []\<rparr>"

definition sync_stop :: "sync_clock \<Rightarrow> unit res \<times> sync_clock" where
  "sync_stop y =
     (if sy_isRunning y then (Inr (), y\<lparr>sy_isRunning := False\<rparr>)
      else (Inl (RuntimeError ''SyncClock is not started''), y))"

text \<open>Canceling a source runs the callback that \<^verbatim>\<open>start\<close> has registered, which stops the clock.\<close>

definition cancel_source :: "nat \<Rightarrow> sync_clock \<Rightarrow> sync_clock" where
  "cancel_source g y =
     (if g < length (sy_tokens y) \<and> \<not> sy_tokens y ! g
      then snd (sync_stop (y\<lparr>sy_tokens := (sy_tokens y)[g := True]\<rparr>)) else y)"

text \<open>
  \<^verbatim>\<open>start\<close> with a connection that is alive or not, with or without a scheduler, and with the
  token it is given, canceled or not; the jobs it schedules are the steps \<open>interval_job\<close> and
  \<open>start_job\<close> below.
\<close>

definition sync_start :: "bool \<Rightarrow> bool \<Rightarrow> bool \<Rightarrow> sync_clock \<Rightarrow> unit res \<times> sync_clock" where
  "sync_start valid scheduler canceled y =
     (if sy_isRunning y then (Inr (), y)
      else
        (let y1 = y\<lparr>sy_isRunning := True\<rparr> in
         if \<not> valid then (Inl (RuntimeError ''The connection pointer is invalid''), y1)
         else if scheduler then
           (let y2 = y1\<lparr>sy_tokens := sy_tokens y1 @ [False]\<rparr> in
            (Inr (), if canceled then cancel_source (length (sy_tokens y1)) y2 else y2))
         else (Inr (), y1)))"

text \<open>The message of a ping.\<close>

definition ping_writer :: "u64 \<Rightarrow> writer" where
  "ping_writer timeStart = Some (\<lambda>s. Inr (serialize timeStart s))"

text \<open>
  \<^verbatim>\<open>syncClockImplAsync\<close>, with the readings of the clock for the reset of the watch and for the
  start time. The result is the message to be sent, if any.
\<close>

definition syncClockImplAsync :: "bool \<Rightarrow> nat \<Rightarrow> nat \<Rightarrow> sync_clock \<Rightarrow> writer option res \<times> sync_clock" where
  "syncClockImplAsync valid now1 now2 y =
     (if \<not> sy_isRunning y \<or> \<not> sy_lastPingFinished y then (Inr None, y)
      else
        (let y1 = y\<lparr>sy_lastPingFinished := False, sy_watch := watch_reset now1 (sy_watch y)\<rparr>;
             timeStart = word_of_int (getElapsedTime now2 (sy_watch y1)) in
         if \<not> valid then (Inl (RuntimeError ''Remote connection pointer is invalid.''), y1)
         else (Inr (Some (ping_writer timeStart)), y1\<lparr>sy_pings := sy_pings y1 @ [timeStart]\<rparr>)))"

definition push_value :: "clock_value \<Rightarrow> clock_value list \<Rightarrow> clock_value list" where
  "push_value v vs = (let vs1 = vs @ [v] in if length vs1 > maxValues then tl vs1 else vs1)"

definition processResult :: "u64 \<Rightarrow> u64 \<Rightarrow> nat \<Rightarrow> sync_clock \<Rightarrow> sync_clock" where
  "processResult timeStart timeServer now y =
     (let timeEnd = word_of_int (getElapsedTime now (sy_watch y)) :: u64;
          ping = ucast (timeEnd - timeStart) :: u16;
          latency = real (unat ping) / 2;
          offset = real (unat (timeServer - timeEnd)) + latency;
          values = push_value (latency, offset) (sy_values y)
      in y\<lparr>sy_lastPingFinished := True, sy_lastPing := int (unat ping), sy_values := values,
           sy_medianLatency := median_latency (map fst values),
           sy_standardDeviationLatency := standard_deviation (map fst values),
           sy_offset := offset_of values\<rparr>)"

text \<open>
  The continuation of a ping: \<^verbatim>\<open>garbage\<close> is the uninitialised \<^verbatim>\<open>timeServer\<close>, which keeps its value
  when the packet is too short. A ping that failed is only logged.
\<close>

definition on_ping_reply :: "u64 \<Rightarrow> u64 \<Rightarrow> packet \<Rightarrow> nat \<Rightarrow> sync_clock \<Rightarrow> sync_clock" where
  "on_ping_reply timeStart garbage p now y =
     processResult timeStart (fst (p_read garbage p)) now (y\<lparr>sy_pings := remove1 timeStart (sy_pings y)\<rparr>)"

definition on_ping_failed :: "u64 \<Rightarrow> sync_clock \<Rightarrow> sync_clock" where
  "on_ping_failed timeStart y = y\<lparr>sy_pings := remove1 timeStart (sy_pings y)\<rparr>"

text \<open>
  The two periodic jobs. Their runs are those of \<^verbatim>\<open>periodicFunc\<close>, which does nothing once the
  token is canceled. An exception they throw is swallowed by the timer and ends the job.
\<close>

definition interval_job :: "nat \<Rightarrow> bool \<Rightarrow> nat \<Rightarrow> nat \<Rightarrow> sync_clock \<Rightarrow> sync_clock" where
  "interval_job g valid now1 now2 y =
     (if sy_tokens y ! g then y else snd (syncClockImplAsync valid now1 now2 y))"

definition start_job :: "nat \<Rightarrow> bool \<Rightarrow> nat \<Rightarrow> nat \<Rightarrow> sync_clock \<Rightarrow> sync_clock" where
  "start_job g valid now1 now2 y =
     (if sy_tokens y ! g then y
      else if length (sy_values y) \<ge> maxValues then cancel_source g y
      else snd (syncClockImplAsync valid now1 now2 y))"

text \<open>
  \<^verbatim>\<open>clock\<close> truncates the sum towards zero; the cast of NaN, or of a number that does not fit, is
  undefined.
\<close>

definition to_int64 :: "real \<Rightarrow> int option" where
  "to_int64 x =
     (let n = (if x \<ge> 0 then \<lfloor>x\<rfloor> else \<lceil>x\<rceil>) in
      if - (2 ^ 63) \<le> n \<and> n < 2 ^ 63 then Some n else None)"

definition clock :: "nat \<Rightarrow> sync_clock \<Rightarrow> int option" where
  "clock now y = Option.bind (sy_offset y) (\<lambda>o'. to_int64 (real_of_int (getElapsedTime now (sy_watch y)) + o'))"

definition lastPing :: "sync_clock \<Rightarrow> int" where
  "lastPing y = sy_lastPing y"

section \<open>Averages\<close>

lemma sum_list_sort: "sum_list (sort ls) = sum_list (ls :: real list)"
  by (metis mset_sort sum_mset_sum_list)

lemma sum_list_nonneg_eq_0: "(\<And>x. x \<in> set xs \<Longrightarrow> 0 \<le> x) \<Longrightarrow> sum_list xs = (0 :: real) \<longleftrightarrow> (\<forall>x \<in> set xs. x = 0)"
  by (rule sum_list_nonneg_eq_0_iff)

lemma sum_list_const: "(\<And>x. x \<in> set xs \<Longrightarrow> x = c) \<Longrightarrow> sum_list xs = real (length xs) * c"
  by (induction xs) (auto simp: algebra_simps)

lemma ping_avg_const: "ls \<noteq> [] \<Longrightarrow> (\<And>x. x \<in> set ls \<Longrightarrow> x = c) \<Longrightarrow> ping_avg ls = c"
  using sum_list_const [of ls c] by (simp add: ping_avg_def sum_list_sort)

lemma variance_nonneg: "0 \<le> variance ls"
  unfolding variance_def by (intro divide_nonneg_nonneg sum_list_nonneg) auto

lemma variance_0_iff:
  assumes "ls \<noteq> []"
  shows "variance ls = 0 \<longleftrightarrow> (\<forall>x \<in> set ls. \<forall>y \<in> set ls. x = y)"
proof
  assume "variance ls = 0"
  then have "sum_list (map (\<lambda>v. (v - ping_avg ls) * (v - ping_avg ls)) (sort ls)) = 0"
    using assms by (simp add: variance_def)
  then have "\<forall>x \<in> set ls. (x - ping_avg ls) * (x - ping_avg ls) = 0"
    by (subst (asm) sum_list_nonneg_eq_0) auto
  then have "\<forall>x \<in> set ls. x = ping_avg ls" by simp
  then show "\<forall>x \<in> set ls. \<forall>y \<in> set ls. x = y" by metis
next
  assume a: "\<forall>x \<in> set ls. \<forall>y \<in> set ls. x = y"
  then have "ping_avg ls = hd ls" using assms by (intro ping_avg_const) auto
  then have "\<forall>x \<in> set (sort ls). (x - ping_avg ls) * (x - ping_avg ls) = 0" using a assms by auto
  then have "map (\<lambda>v. (v - ping_avg ls) * (v - ping_avg ls)) (sort ls) = map (\<lambda>_. 0) (sort ls)" by simp
  then show "variance ls = 0" unfolding variance_def by (simp only: sum_list_0)
qed

lemma median_in: "ls \<noteq> [] \<Longrightarrow> median_latency ls \<in> set ls"
  unfolding median_latency_def by (metis div_less_dividend length_greater_0_conv length_sort nth_mem one_less_numeral_iff semiring_norm(76) set_sort)

text \<open>Something is kept exactly when the latencies are not all the same.\<close>

lemma kept_values_Nil_iff:
  assumes "vs \<noteq> []"
  shows "kept_values vs = [] \<longleftrightarrow> (\<forall>v \<in> set vs. \<forall>w \<in> set vs. fst v = fst w)"
proof -
  let ?ls = "map fst vs"
  have m: "median_latency ?ls \<in> set ?ls" using assms by (intro median_in) simp
  have v: "variance ?ls = 0 \<longleftrightarrow> (\<forall>v \<in> set vs. \<forall>w \<in> set vs. fst v = fst w)"
    using variance_0_iff [of ?ls] assms by auto
  show ?thesis
  proof (cases "variance ?ls = 0")
    case True
    then have "latencyMax vs = median_latency ?ls" by (simp add: latencyMax_def standard_deviation_def)
    moreover obtain w where "w \<in> set vs" "median_latency ?ls = fst w" using m by auto
    then have "\<forall>v \<in> set vs. fst v = median_latency ?ls" using True v by metis
    ultimately have "kept_values vs = []" by (simp add: kept_values_def filter_empty_conv)
    then show ?thesis using True v by blast
  next
    case False
    then have "latencyMax vs > median_latency ?ls"
      using variance_nonneg [of ?ls] by (simp add: latencyMax_def standard_deviation_def)
    then have "kept_values vs \<noteq> []" using m by (force simp: kept_values_def filter_empty_conv)
    then show ?thesis using False v by blast
  qed
qed

lemma avg_between:
  assumes "xs \<noteq> []" "\<And>x. x \<in> set xs \<Longrightarrow> a \<le> x" "\<And>x. x \<in> set xs \<Longrightarrow> x \<le> b"
  shows "a \<le> sum_list xs / real (length xs)" "sum_list xs / real (length xs) \<le> (b :: real)"
proof -
  have "real (length xs) * a \<le> sum_list xs" "sum_list xs \<le> real (length xs) * b"
    using assms(2,3) by (induction xs) (auto simp: algebra_simps, fastforce+)
  then show "a \<le> sum_list xs / real (length xs)" "sum_list xs / real (length xs) \<le> b"
    using assms(1) by (simp_all add: field_simps)
qed

lemma offset_of_None_iff: "vs \<noteq> [] \<Longrightarrow> offset_of vs = None \<longleftrightarrow> (\<forall>v \<in> set vs. \<forall>w \<in> set vs. fst v = fst w)"
  using kept_values_Nil_iff [of vs] by (metis offset_of_def option.distinct(1))

lemma offset_of_between:
  assumes "offset_of vs = Some z"
  obtains v w where "v \<in> set vs" "w \<in> set vs" "snd v \<le> z" "z \<le> snd w"
proof -
  let ?os = "map snd (kept_values vs)"
  have k: "?os \<noteq> []" "z = sum_list ?os / real (length ?os)" using assms by (auto simp: offset_of_def split: if_splits)
  have "Min (set ?os) \<le> z" "z \<le> Max (set ?os)"
    unfolding k(2) using avg_between [OF k(1), of "Min (set ?os)" "Max (set ?os)"] by simp_all
  moreover have "Min (set ?os) \<in> set ?os" "Max (set ?os) \<in> set ?os" using k(1) by (auto intro!: Min_in Max_in simp del: set_map)
  ultimately show ?thesis using that by (auto simp: kept_values_def)
qed

section \<open>The life of the clock\<close>

inductive sync_step :: "sync_clock \<Rightarrow> sync_clock \<Rightarrow> bool" where
  start: "sync_step y (snd (sync_start valid scheduler canceled y))"
| cancel: "sync_step y (cancel_source g y)"
| interval: "g < length (sy_tokens y) \<Longrightarrow> sync_step y (interval_job g valid now1 now2 y)"
| startup: "g < length (sy_tokens y) \<Longrightarrow> sync_step y (start_job g valid now1 now2 y)"
| reply: "t \<in> set (sy_pings y) \<Longrightarrow> sync_step y (on_ping_reply t garbage p now y)"
| failure: "t \<in> set (sy_pings y) \<Longrightarrow> sync_step y (on_ping_failed t y)"

inductive sync_reach :: "sync_clock \<Rightarrow> bool" where
  new: "sync_reach (SyncClock now)"
| step: "sync_reach y \<Longrightarrow> sync_step y y' \<Longrightarrow> sync_reach y'"

text \<open>Only the source made last can be live, and only while the clock runs.\<close>

definition one_source :: "sync_clock \<Rightarrow> bool" where
  "one_source y \<longleftrightarrow> (\<forall>g < length (sy_tokens y). \<not> sy_tokens y ! g \<longrightarrow> g = length (sy_tokens y) - 1 \<and> sy_isRunning y)"

definition window_ok :: "sync_clock \<Rightarrow> bool" where
  "window_ok y \<longleftrightarrow> length (sy_values y) \<le> maxValues \<and>
     (\<forall>v \<in> set (sy_values y). 0 \<le> fst v \<and> fst v \<le> 65535 / 2 \<and> 0 \<le> snd v) \<and>
     sy_offset y = (if sy_values y = [] then Some 0 else offset_of (sy_values y))"

text \<open>At most one ping is under way, and none while the last one counts as finished.\<close>

definition one_ping :: "sync_clock \<Rightarrow> bool" where
  "one_ping y \<longleftrightarrow> (\<exists>t. sy_pings y = [] \<or> sy_pings y = [t] \<and> \<not> sy_lastPingFinished y)"

lemma push_value_length: "length vs \<le> maxValues \<Longrightarrow> length (push_value v vs) \<le> maxValues"
  by (simp add: push_value_def Let_def)

lemma push_value_not_Nil [simp]: "push_value v vs \<noteq> []"
  by (cases vs) (auto simp: push_value_def Let_def maxValues_def)

lemma push_value_set: "set (push_value v vs) \<subseteq> insert v (set vs)"
  by (cases vs) (auto simp: push_value_def Let_def)

lemma push_value_small: "length vs < maxValues \<Longrightarrow> push_value v vs = vs @ [v]"
  by (simp add: push_value_def Let_def)

lemma unsigned_real_nonneg [simp]: "0 \<le> (unsigned (w :: 'a::len word) :: real)"
  by (metis of_nat_0_le_iff of_nat_unat)

lemma processResult_window:
  assumes "window_ok y"
  shows "window_ok (processResult timeStart timeServer now y)"
proof -
  obtain l z where v: "sy_values (processResult timeStart timeServer now y) = push_value (l, z) (sy_values y)"
    "0 \<le> l" "l \<le> 65535 / 2" "0 \<le> z"
  proof
    let ?e = "word_of_int (getElapsedTime now (sy_watch y)) :: u64"
    let ?p = "ucast (?e - timeStart) :: u16"
    show "sy_values (processResult timeStart timeServer now y) =
        push_value (real (unat ?p) / 2, real (unat (timeServer - ?e)) + real (unat ?p) / 2) (sy_values y)"
      by (simp add: processResult_def Let_def)
    have "unat ?p < 2 ^ 16" using unsigned_less [of ?p] by simp
    then have "real (unat ?p) \<le> real 65535" unfolding of_nat_le_iff by simp
    then show "real (unat ?p) / 2 \<le> 65535 / 2" by simp
  qed simp_all
  have "sy_offset (processResult timeStart timeServer now y) = offset_of (sy_values (processResult timeStart timeServer now y))"
    by (simp add: processResult_def Let_def)
  then show ?thesis
    using v assms push_value_length [of "sy_values y" "(l, z)"] push_value_set [of "(l, z)" "sy_values y"]
    unfolding window_ok_def by (auto simp: v(1))
qed

lemma processResult_frame [simp]:
  "sy_tokens (processResult a b now y) = sy_tokens y" "sy_isRunning (processResult a b now y) = sy_isRunning y"
  "sy_pings (processResult a b now y) = sy_pings y" "sy_watch (processResult a b now y) = sy_watch y"
  "sy_lastPingFinished (processResult a b now y)"
  by (simp_all add: processResult_def Let_def)

lemma cancel_source_frame [simp]:
  "sy_values (cancel_source g y) = sy_values y" "sy_offset (cancel_source g y) = sy_offset y"
  "sy_pings (cancel_source g y) = sy_pings y" "sy_lastPingFinished (cancel_source g y) = sy_lastPingFinished y"
  "length (sy_tokens (cancel_source g y)) = length (sy_tokens y)"
  by (simp_all add: cancel_source_def sync_stop_def)

lemma cancel_source_one:
  assumes "one_source y"
  shows "one_source (cancel_source g y)"
proof -
  have "one_source (y\<lparr>sy_tokens := (sy_tokens y)[g := True], sy_isRunning := False\<rparr>)"
    if "g < length (sy_tokens y)" "\<not> sy_tokens y ! g"
    using assms that unfolding one_source_def by (auto simp: nth_list_update)
  then show ?thesis using assms by (auto simp: cancel_source_def sync_stop_def one_source_def)
qed

lemma cancel_source_stops:
  assumes "one_source y" "g < length (sy_tokens y)" "\<not> sy_tokens y ! g"
  shows "\<not> sy_isRunning (cancel_source g y)" "h < length (sy_tokens y) \<Longrightarrow> sy_tokens (cancel_source g y) ! h"
  using assms by (auto simp: cancel_source_def sync_stop_def one_source_def nth_list_update)

lemma syncClockImplAsync_frame [simp]:
  "sy_values (snd (syncClockImplAsync valid n1 n2 y)) = sy_values y"
  "sy_offset (snd (syncClockImplAsync valid n1 n2 y)) = sy_offset y"
  "sy_tokens (snd (syncClockImplAsync valid n1 n2 y)) = sy_tokens y"
  "sy_isRunning (snd (syncClockImplAsync valid n1 n2 y)) = sy_isRunning y"
  by (simp_all add: syncClockImplAsync_def Let_def)

lemma syncClockImplAsync_one_ping: "one_ping y \<Longrightarrow> one_ping (snd (syncClockImplAsync valid n1 n2 y))"
  by (auto simp: syncClockImplAsync_def one_ping_def Let_def)

lemma sync_start_frame [simp]:
  "sy_values (snd (sync_start v s c y)) = sy_values y" "sy_offset (snd (sync_start v s c y)) = sy_offset y"
  "sy_pings (snd (sync_start v s c y)) = sy_pings y" "sy_lastPingFinished (snd (sync_start v s c y)) = sy_lastPingFinished y"
  by (simp_all add: sync_start_def Let_def)

lemma sync_start_one:
  assumes "one_source y"
  shows "one_source (snd (sync_start v s c y))"
proof (cases "sy_isRunning y")
  case False
  then have "one_source (y\<lparr>sy_isRunning := True, sy_tokens := sy_tokens y @ [False]\<rparr>)" "one_source (y\<lparr>sy_isRunning := True\<rparr>)"
    using assms by (auto simp: one_source_def nth_append)
  then show ?thesis using False cancel_source_one by (simp add: sync_start_def Let_def)
qed (use assms in \<open>simp add: sync_start_def\<close>)

lemma sync_step_inv:
  "sync_step y y' \<Longrightarrow> one_source y \<and> window_ok y \<and> one_ping y \<Longrightarrow> one_source y' \<and> window_ok y' \<and> one_ping y'"
proof (induction rule: sync_step.induct)
  case (start y valid scheduler canceled)
  then show ?case using sync_start_one by (simp add: window_ok_def one_ping_def)
next
  case (cancel y g)
  then show ?case using cancel_source_one by (simp add: window_ok_def one_ping_def)
next
  case (interval g y valid now1 now2)
  then show ?case using syncClockImplAsync_one_ping by (simp add: interval_job_def window_ok_def one_source_def)
next
  case (startup g y valid now1 now2)
  have "one_ping (cancel_source g y)" "window_ok (cancel_source g y)" "window_ok (snd (syncClockImplAsync valid now1 now2 y))"
    "one_source (snd (syncClockImplAsync valid now1 now2 y))"
    using startup.prems by (simp_all add: one_ping_def window_ok_def one_source_def)
  then show ?case using startup.prems syncClockImplAsync_one_ping cancel_source_one by (simp add: start_job_def)
next
  case (reply t y garbage p now)
  have "one_source (y\<lparr>sy_pings := remove1 t (sy_pings y)\<rparr>)" "window_ok (y\<lparr>sy_pings := remove1 t (sy_pings y)\<rparr>)"
    "remove1 t (sy_pings y) = []"
    using reply by (auto simp: one_source_def window_ok_def one_ping_def)
  then show ?case using processResult_window by (simp add: on_ping_reply_def one_source_def one_ping_def)
next
  case (failure t y)
  then show ?case by (auto simp: on_ping_failed_def one_source_def window_ok_def one_ping_def)
qed

lemma sync_reach_inv: "sync_reach y \<Longrightarrow> one_source y \<and> window_ok y \<and> one_ping y"
proof (induction rule: sync_reach.induct)
  case (new now)
  then show ?case by (simp add: SyncClock_def one_source_def window_ok_def one_ping_def maxValues_def)
next
  case (step y y')
  then show ?case using sync_step_inv by blast
qed

text \<open>
  The statistics of the clock are well formed in every reachable state. The window
  holds at most 24 values, latencies are between 0 and half of 65535, and as soon as there is a
  value the offset is undefined exactly when all latencies of the window are the same: then none
  is below the limit, which is the median, and the average of nothing is \<^verbatim>\<open>0.0 / 0\<close>. Otherwise
  the offset lies between two offsets of the window.
\<close>

theorem offset_needs_jitter:
  assumes "sync_reach y" "sy_values y \<noteq> []"
  shows "length (sy_values y) \<le> 24 \<and> (\<forall>v \<in> set (sy_values y). 0 \<le> fst v \<and> fst v \<le> 65535 / 2) \<and>
    (sy_offset y = None \<longleftrightarrow> (\<forall>v \<in> set (sy_values y). \<forall>w \<in> set (sy_values y). fst v = fst w)) \<and>
    (sy_offset y = None \<longrightarrow> (\<forall>now. clock now y = None)) \<and>
    (\<forall>z. sy_offset y = Some z \<longrightarrow> (\<exists>v \<in> set (sy_values y). \<exists>w \<in> set (sy_values y). snd v \<le> z \<and> z \<le> snd w))"
proof -
  have w: "window_ok y" using sync_reach_inv assms(1) by blast
  then have z: "sy_offset y = offset_of (sy_values y)" using assms(2) by (simp add: window_ok_def)
  have "\<exists>v \<in> set (sy_values y). \<exists>w \<in> set (sy_values y). snd v \<le> z \<and> z \<le> snd w" if "sy_offset y = Some z" for z
    using that z offset_of_between by metis
  moreover have "clock now y = None" if "sy_offset y = None" for now using that by (simp add: clock_def)
  moreover have "length (sy_values y) \<le> 24" "\<forall>v \<in> set (sy_values y). 0 \<le> fst v \<and> fst v \<le> 65535 / 2"
    using w by (simp_all add: window_ok_def maxValues_def)
  ultimately show ?thesis
    using offset_of_None_iff [OF assms(2)] unfolding z by blast
qed

lemma full_window_start_job:
  "length (sy_values z) = maxValues \<Longrightarrow> sy_tokens z = ts @ [False] \<Longrightarrow> sy_isRunning z \<Longrightarrow>
     \<not> sy_isRunning (start_job (length ts) valid now1 now2 z)"
  by (simp add: start_job_def cancel_source_def sync_stop_def)

text \<open>
  The clock stops when its start-up is over. The job that pings often at the start
  shares its token source with the regular job and with the callback that stops the clock; when
  the window is full it cancels the source. From then on the clock is stopped and neither job
  does anything; and since the window is never emptied, a clock that is started again is stopped
  by the first run of its start-up job.
\<close>

theorem clock_stops_after_startup:
  assumes "sync_reach y" "g < length (sy_tokens y)" "\<not> sy_tokens y ! g" "length (sy_values y) = maxValues"
  shows "let y' = start_job g valid now1 now2 y;
             again = snd (sync_start True True False y')
         in sy_isRunning y \<and> \<not> sy_isRunning y' \<and> sy_offset y' = sy_offset y \<and>
            (\<forall>h v n1 n2. h < length (sy_tokens y') \<longrightarrow> interval_job h v n1 n2 y' = y' \<and> start_job h v n1 n2 y' = y') \<and>
            sy_isRunning again \<and> \<not> sy_isRunning (start_job (length (sy_tokens y')) valid now1 now2 again)"
proof -
  have o: "one_source y" using sync_reach_inv assms(1) by blast
  let ?y = "start_job g valid now1 now2 y"
  have e: "?y = cancel_source g y" using assms(3,4) by (simp add: start_job_def)
  have s: "\<not> sy_isRunning ?y" "\<And>h. h < length (sy_tokens ?y) \<Longrightarrow> sy_tokens ?y ! h"
    unfolding e using cancel_source_stops [OF o assms(2,3)] by simp_all
  let ?z = "snd (sync_start True True False ?y)"
  have z: "sy_tokens ?z = sy_tokens ?y @ [False]" "sy_values ?z = sy_values y" "sy_isRunning ?z"
    using s(1) by (simp_all add: sync_start_def Let_def e)
  have "\<not> sy_isRunning (start_job (length (sy_tokens ?y)) valid now1 now2 ?z)"
    by (rule full_window_start_job [OF _ z(1,3)]) (simp only: z(2) assms(4))
  moreover have "sy_isRunning y" using o assms(2,3) by (auto simp: one_source_def)
  moreover have "sy_offset ?y = sy_offset y" by (simp add: e)
  ultimately show ?thesis unfolding Let_def using s z(3) by (auto simp: interval_job_def start_job_def)
qed

text \<open>
  One failed ping is the last one. While a ping is under way no other is sent, and
  only its result allows the next; when it fails (no answer, no handler on the server, a
  canceled token) it is logged and nothing else: whatever happens to the clock afterwards, it
  sends no ping, and its offset and last ping stay as they are.
\<close>

theorem failed_ping_is_last:
  assumes "sync_reach y" "t \<in> set (sy_pings y)" "sync_step\<^sup>*\<^sup>* (on_ping_failed t y) y'"
  shows "sy_pings y' = [] \<and> sy_offset y' = sy_offset y \<and> sy_values y' = sy_values y \<and> lastPing y' = lastPing y \<and>
    fst (syncClockImplAsync valid now1 now2 y') = Inr None"
proof -
  have "sy_pings (on_ping_failed t y) = []" "\<not> sy_lastPingFinished (on_ping_failed t y)"
    using sync_reach_inv [OF assms(1)] assms(2) by (auto simp: one_ping_def on_ping_failed_def)
  with assms(3) have "sy_pings y' = [] \<and> \<not> sy_lastPingFinished y' \<and> sy_offset y' = sy_offset y \<and> sy_values y' = sy_values y \<and>
      sy_lastPing y' = sy_lastPing y"
  proof (induction rule: rtranclp_induct)
    case base
    then show ?case by (simp add: on_ping_failed_def)
  next
    case (step y1 y2)
    from step.hyps(2) step.IH [OF step.prems] show ?case
      by (induction rule: sync_step.induct)
        (auto simp: interval_job_def start_job_def syncClockImplAsync_def sync_start_def cancel_source_def sync_stop_def Let_def)
  qed
  then show ?thesis by (simp add: lastPing_def syncClockImplAsync_def)
qed

section \<open>Pings of a perfect server\<close>

text \<open>
  A ping at the time \<open>T\<close> (in milliseconds) whose answer takes \<open>p\<close>, half of it in either
  direction, from a server whose clock is ahead by \<open>C\<close>.
\<close>

definition ms :: "nat \<Rightarrow> nat" where
  "ms t = t * 1000000"

definition sync_round :: "nat \<Rightarrow> nat \<times> nat \<Rightarrow> sync_clock \<Rightarrow> sync_clock" where
  "sync_round C = (\<lambda>(T, p) y.
     on_ping_reply 0 0 (make_packet 0 (word_bytes (word_of_nat (C + T + p div 2) :: u64)) Map.empty) (ms (T + p))
       (snd (syncClockImplAsync True (ms T) (ms T) y)))"

definition fair_ping :: "nat \<Rightarrow> nat \<times> nat \<Rightarrow> bool" where
  "fair_ping C = (\<lambda>(T, p). even p \<and> p < 65536 \<and> p \<le> C + T \<and> C + T + p < 2 ^ 63)"

definition measured :: "nat \<Rightarrow> nat \<times> nat \<Rightarrow> clock_value" where
  "measured C = (\<lambda>(T, p). (real p / 2, real (C + T)))"

definition idle_clock :: "sync_clock \<Rightarrow> bool" where
  "idle_clock y \<longleftrightarrow> sy_isRunning y \<and> sy_lastPingFinished y \<and> sy_pings y = [] \<and> wt_baseTime (sy_watch y) = 0"

lemma read_server_time:
  "fst (p_read (old :: u64) (make_packet c (word_bytes (v :: u64)) m)) = v"
proof -
  have ok: "p_ok (make_packet c (word_bytes v) m)" "p_rest (make_packet c (word_bytes v) m) = word_bytes v @ []"
    using make_packet_ok [of "word_bytes v" c m] by simp_all
  show ?thesis by (rule p_read_word [OF ok, of old]) simp_all
qed

lemma elapsed_ms: "T \<le> t \<Longrightarrow> getElapsedTime (ms t) (watch_reset (ms T) w) = int (t - T) + wt_baseTime w"
proof -
  assume "T \<le> t"
  then have "int (ms t) - int (ms T) = int (t - T) * 1000000" by (simp add: ms_def of_nat_diff algebra_simps)
  then show ?thesis by (simp add: getElapsedTime_def watch_reset_def)
qed

lemma sync_round_step:
  assumes "idle_clock y" "fair_ping C (T, p)"
  shows "idle_clock (sync_round C (T, p) y)"
    "sy_values (sync_round C (T, p) y) = push_value (measured C (T, p)) (sy_values y)"
    "sy_offset (sync_round C (T, p) y) = offset_of (sy_values (sync_round C (T, p) y))"
    "sy_watch (sync_round C (T, p) y) = watch_reset (ms T) (sy_watch y)"
proof -
  let ?w = "watch_reset (ms T) (sy_watch y)"
  have base: "wt_baseTime (sy_watch y) = 0" "wt_baseTime ?w = 0" using assms(1) by (simp_all add: idle_clock_def watch_reset_def)
  let ?y1 = "snd (syncClockImplAsync True (ms T) (ms T) y)"
  have y1: "?y1 = y\<lparr>sy_lastPingFinished := False, sy_watch := ?w, sy_pings := [0]\<rparr>"
    using assms(1) base elapsed_ms [of T T "sy_watch y"] by (simp add: syncClockImplAsync_def idle_clock_def Let_def)
  obtain s :: u64 where s: "s = word_of_nat (C + T + p div 2)" by simp
  have r: "sync_round C (T, p) y =
      processResult 0 s (ms (T + p)) (y\<lparr>sy_lastPingFinished := False, sy_watch := ?w, sy_pings := []\<rparr>)"
    unfolding sync_round_def prod.case y1 on_ping_reply_def read_server_time s by simp
  have e: "getElapsedTime (ms (T + p)) ?w = int p" using elapsed_ms [of T "T + p"] base by simp
  have f: "p < 65536" "p \<le> C + T" "C + T + p < 2 ^ 63" "even p" using assms(2) by (auto simp: fair_ping_def)
  have ping: "unat (ucast (word_of_nat p :: u64) :: u16) = p"
    using f(1) by (simp add: unsigned_ucast_eq unsigned_of_nat take_bit_eq_mod)
  have "s - word_of_nat p = (word_of_nat (C + T + p div 2 - p) :: u64)"
    unfolding s using f(2) by (subst of_nat_diff) auto
  then have off: "unat (s - word_of_nat p) = C + T + p div 2 - p"
    using f(3) by (simp add: unsigned_of_nat take_bit_eq_mod)
  have m: "real (C + T + p div 2 - p) + real p / 2 = real (C + T)"
    using f(2,4) by (auto simp: of_nat_diff elim!: evenE)
  have w: "word_of_int (int p) = (word_of_nat p :: u64)" by simp
  show "sy_values (sync_round C (T, p) y) = push_value (measured C (T, p)) (sy_values y)"
    unfolding r processResult_def Let_def
    by (simp add: e del: of_nat_unat) (simp add: ping off m measured_def del: of_nat_unat)
  show "sy_offset (sync_round C (T, p) y) = offset_of (sy_values (sync_round C (T, p) y))"
    unfolding r by (simp add: processResult_def Let_def)
  show "sy_watch (sync_round C (T, p) y) = watch_reset (ms T) (sy_watch y)" unfolding r by simp
  show "idle_clock (sync_round C (T, p) y)" unfolding r using assms(1) base by (simp add: idle_clock_def)
qed

lemma sync_rounds:
  assumes "idle_clock y" "sy_values y = []" "\<forall>q \<in> set qs. fair_ping C q" "length qs \<le> maxValues" "qs \<noteq> []"
  shows "idle_clock (fold (sync_round C) qs y) \<and> sy_values (fold (sync_round C) qs y) = map (measured C) qs \<and>
    sy_offset (fold (sync_round C) qs y) = offset_of (map (measured C) qs) \<and>
    wt_startTime (sy_watch (fold (sync_round C) qs y)) = ms (fst (last qs))"
  using assms(3-5)
proof (induction qs rule: rev_induct)
  case (snoc q qs)
  obtain T p where q: "q = (T, p)" by fastforce
  let ?y = "fold (sync_round C) qs y"
  have y: "idle_clock ?y" "sy_values ?y = map (measured C) qs"
    using snoc assms(1,2) by (cases "qs = []"; simp)+
  have "fair_ping C (T, p)" "length (sy_values ?y) < maxValues" using snoc.prems q y(2) by simp_all
  then show ?case
    using sync_round_step [OF y(1)] push_value_small y(2) by (simp add: q watch_reset_def)
qed simp

lemma sum_list_age:
  "(\<Sum>q\<leftarrow>qs. real (C + fst q)) = real (length qs) * (real C + n) - (\<Sum>q\<leftarrow>qs. n - real (fst q))"
  by (induction qs) (simp_all add: algebra_simps)

lemma average_offset:
  assumes "ks \<noteq> []"
  shows "sum_list (map snd (map (measured C) ks)) / real (length (map (measured C) ks)) =
    real C + n - (\<Sum>(T, p)\<leftarrow>ks. n - real T) / real (length ks)"
proof -
  have "map snd (map (measured C) ks) = map (\<lambda>q. real (C + fst q)) ks" by (simp add: measured_def case_prod_beta)
  then have "sum_list (map snd (map (measured C) ks)) = real (length ks) * (real C + n) - (\<Sum>q\<leftarrow>ks. n - real (fst q))"
    by (simp only: sum_list_age)
  moreover have "(\<Sum>(T, p)\<leftarrow>ks. n - real T) = (\<Sum>q\<leftarrow>ks. n - real (fst q))"
    by (rule arg_cong [of _ _ sum_list], rule map_cong) auto
  ultimately show ?thesis using assms by (simp add: diff_divide_distrib)
qed

lemma started_clock:
  "idle_clock (snd (sync_start True True False (SyncClock 0)))" "sy_values (snd (sync_start True True False (SyncClock 0))) = []"
  by (simp_all add: sync_start_def SyncClock_def idle_clock_def Let_def watch_reset_def Watch_def)

text \<open>An average of ages lies between nothing and the whole time.\<close>

lemma average_bounds:
  assumes "\<And>x. x \<in> set xs \<Longrightarrow> 0 \<le> f x \<and> f x \<le> (n :: real)" "xs \<noteq> []"
  shows "0 \<le> sum_list (map f xs) / real (length xs)" "sum_list (map f xs) / real (length xs) \<le> n"
proof -
  have "0 \<le> sum_list (map f xs)" by (rule sum_list_nonneg) (use assms(1) in auto)
  then show "0 \<le> sum_list (map f xs) / real (length xs)" by simp
  have "sum_list (map f xs) \<le> sum_list (map (\<lambda>_. n) xs)" by (rule sum_list_mono) (use assms(1) in simp)
  also have "\<dots> = real (length xs) * n" by (simp add: sum_list_triv)
  finally show "sum_list (map f xs) / real (length xs) \<le> n" using assms(2) by (simp add: divide_le_eq mult.commute)
qed

text \<open>
  Property C17. The clock lags. Every ping resets the watch, but the offset is an average over
  the pings of the window, whose offsets were taken against the watch as it was then. With a
  perfect server and symmetric delays, after any pings (at most 24, at the times \<open>T\<close> with the
  delays \<open>p\<close>, none later than the last one) the clock is undefined if all delays were equal;
  otherwise it shows the server's time \<open>C + now\<close> less the average age of the pings that are
  kept, the time from each of them to the last one, truncated to a whole millisecond.
\<close>

theorem clock_lags:
  assumes "qs \<noteq> []" "length qs \<le> 24" "\<forall>q \<in> set qs. fair_ping C q" "fst (last qs) \<le> now"
    and "\<forall>q \<in> set qs. fst q \<le> fst (last qs)" "C + now < 2 ^ 63"
  shows "let y = fold (sync_round C) qs (snd (sync_start True True False (SyncClock 0)));
             kept = filter (\<lambda>(T, p). real p / 2 < latencyMax (map (measured C) qs)) qs
         in (kept = [] \<longleftrightarrow> (\<forall>q \<in> set qs. \<forall>q' \<in> set qs. snd q = snd q')) \<and>
            (kept = [] \<longrightarrow> clock (ms now) y = None) \<and>
            (kept \<noteq> [] \<longrightarrow> clock (ms now) y =
               Some \<lfloor>real (C + now) - (\<Sum>(T, p)\<leftarrow>kept. real (fst (last qs)) - real T) / real (length kept)\<rfloor>)"
proof -
  let ?y0 = "snd (sync_start True True False (SyncClock 0))"
  let ?y = "fold (sync_round C) qs ?y0"
  let ?vs = "map (measured C) qs"
  let ?kept = "filter (\<lambda>(T, p). real p / 2 < latencyMax ?vs) qs"
  let ?n = "real (fst (last qs))"
  have y: "idle_clock ?y" "sy_offset ?y = offset_of ?vs" "wt_startTime (sy_watch ?y) = ms (fst (last qs))"
    using sync_rounds [OF started_clock assms(3) assms(2) [folded maxValues_def] assms(1)] by simp_all
  have k: "kept_values ?vs = map (measured C) ?kept"
  proof -
    have "(\<lambda>v. fst v < latencyMax ?vs) \<circ> measured C = (\<lambda>(T, p). real p / 2 < latencyMax ?vs)"
      by (auto simp: measured_def fun_eq_iff)
    then show ?thesis unfolding kept_values_def filter_map by simp
  qed
  have e: "?kept = [] \<longleftrightarrow> (\<forall>q \<in> set qs. \<forall>q' \<in> set qs. snd q = snd q')"
    using kept_values_Nil_iff [of ?vs] assms(1) unfolding k by (simp add: measured_def case_prod_beta)
  have "clock (ms now) ?y = None" if "?kept = []"
    using y that k by (simp add: clock_def offset_of_def)
  moreover have "clock (ms now) ?y = Some \<lfloor>real (C + now) - (\<Sum>(T, p)\<leftarrow>?kept. ?n - real T) / real (length ?kept)\<rfloor>"
    if ne: "?kept \<noteq> []"
  proof -
    let ?lag = "(\<Sum>(T, p)\<leftarrow>?kept. ?n - real T) / real (length ?kept)"
    have o: "sy_offset ?y = Some (sum_list (map snd (map (measured C) ?kept)) / real (length (map (measured C) ?kept)))"
      using y ne by (simp add: offset_of_def k)
    have "getElapsedTime (ms now) (sy_watch ?y) = int now - int (fst (last qs))"
      using y assms(4) elapsed_ms [of "fst (last qs)" now "sy_watch ?y"]
      by (simp add: idle_clock_def getElapsedTime_def watch_reset_def of_nat_diff)
    then have z: "real_of_int (getElapsedTime (ms now) (sy_watch ?y)) +
        sum_list (map snd (map (measured C) ?kept)) / real (length (map (measured C) ?kept)) = real (C + now) - ?lag"
      unfolding average_offset [OF ne, of C ?n] by simp
    have "0 \<le> ?lag" "?lag \<le> ?n"
      by (rule average_bounds [where n = ?n]; use ne assms(5) in auto)+
    moreover have "?n \<le> real now" "real (C + now) < 2 ^ 63" using assms(4,6) by simp_all
    ultimately have "0 \<le> real (C + now) - ?lag" "real (C + now) - ?lag < 2 ^ 63" by simp_all
    then have "to_int64 (real (C + now) - ?lag) = Some \<lfloor>real (C + now) - ?lag\<rfloor>"
      by (simp add: to_int64_def Let_def floor_less_iff order_trans [of "- (2 ^ 63)" 0])
    then show ?thesis unfolding clock_def o z bind.bind_lunit by simp
  qed
  ultimately show ?thesis unfolding Let_def using e by blast
qed

section \<open>Concrete clocks\<close>

definition demo_clock :: "(nat \<times> nat) list \<Rightarrow> sync_clock" where
  "demo_clock qs = fold (sync_round 1000) qs (snd (sync_start True True False (SyncClock 0)))"

text \<open>Two pings, one second apart: the clock shows 2000 when the clock of the server shows 2500.\<close>

lemma two_latencies: "latencyMax (map (measured 1000) [(0, 2), (1000, 6)]) = 4"
proof -
  have v: "map fst (map (measured 1000) [(0, 2), (1000, 6)]) = [1, 3]" by (simp add: measured_def)
  show ?thesis
    unfolding latencyMax_def v by (simp add: median_latency_def standard_deviation_def variance_def ping_avg_def)
qed

theorem clock_lags_witness:
  "clock (ms 1500) (demo_clock [(0, 2), (1000, 6)]) = Some 2000"
proof -
  have f: "\<forall>q \<in> set [(0, 2), (1000, 6)]. fair_ping 1000 q" by (simp add: fair_ping_def)
  have k: "filter (\<lambda>(T, p). real p / 2 < 4) [(0, 2), (1000, 6)] = [(0 :: nat, 2), (1000, 6)]" by simp
  show ?thesis
    using clock_lags [OF _ _ f, of 1500] unfolding demo_clock_def Let_def two_latencies k by simp
qed

text \<open>One ping is enough for an undefined clock; a full window of them stops it.\<close>

lemma round_reach:
  assumes "sync_reach y" "sy_tokens y = [False]" "idle_clock y"
  shows "sync_reach (sync_round C (T, p) y)" "sy_tokens (sync_round C (T, p) y) = [False]"
proof -
  have e: "interval_job 0 True (ms T) (ms T) y = snd (syncClockImplAsync True (ms T) (ms T) y)"
    using assms(2) by (simp add: interval_job_def)
  have "wt_baseTime (watch_reset (ms T) (sy_watch y)) = 0" using assms(3) by (simp add: idle_clock_def watch_reset_def)
  then have t: "0 \<in> set (sy_pings (interval_job 0 True (ms T) (ms T) y))"
    unfolding e using assms(3) elapsed_ms [of T T "sy_watch y"] by (simp add: syncClockImplAsync_def idle_clock_def Let_def watch_reset_def)
  have "sync_reach (interval_job 0 True (ms T) (ms T) y)"
    using assms(1,2) by (intro sync_reach.step [OF _ sync_step.interval]) simp_all
  from sync_reach.step [OF this sync_step.reply [OF t]]
  show "sync_reach (sync_round C (T, p) y)" unfolding sync_round_def prod.case e .
  show "sy_tokens (sync_round C (T, p) y) = [False]"
    using assms(2) by (simp add: sync_round_def on_ping_reply_def)
qed

lemma rounds_reach:
  assumes "\<forall>q \<in> set qs. fair_ping 1000 q"
  shows "sync_reach (demo_clock qs) \<and> sy_tokens (demo_clock qs) = [False] \<and> idle_clock (demo_clock qs)"
  using assms
proof (induction qs rule: rev_induct)
  case Nil
  have "sync_reach (snd (sync_start True True False (SyncClock 0)))" by (rule sync_reach.step [OF sync_reach.new sync_step.start])
  then show ?case using started_clock by (simp add: demo_clock_def) (simp add: sync_start_def SyncClock_def Let_def)
next
  case (snoc q qs)
  obtain T p where q: "q = (T, p)" by fastforce
  then show ?case using snoc round_reach [of "demo_clock qs"] sync_round_step(1) [of "demo_clock qs" 1000 T p]
    by (simp add: demo_clock_def)
qed

lemma demo_values: "\<forall>q \<in> set qs. fair_ping 1000 q \<Longrightarrow> length qs \<le> maxValues \<Longrightarrow> qs \<noteq> [] \<Longrightarrow>
    sy_values (demo_clock qs) = map (measured 1000) qs"
  unfolding demo_clock_def using sync_rounds [OF started_clock] by blast

theorem offset_needs_jitter_witness: "clock (ms 5) (demo_clock [(0, 2)]) = None"
proof -
  have f: "\<forall>q \<in> set [(0 :: nat, 2 :: nat)]. fair_ping 1000 q" by (simp add: fair_ping_def)
  have v: "sy_values (demo_clock [(0, 2)]) = map (measured 1000) [(0, 2)]"
    by (rule demo_values [OF f]) (simp_all add: maxValues_def)
  have "sy_values (demo_clock [(0, 2)]) \<noteq> []"
    "\<forall>v \<in> set (sy_values (demo_clock [(0, 2)])). \<forall>w \<in> set (sy_values (demo_clock [(0, 2)])). fst v = fst w"
    unfolding v by simp_all
  then show ?thesis using offset_needs_jitter [of "demo_clock [(0, 2)]"] rounds_reach [OF f] by blast
qed

lemma full_clock:
  "sync_reach (demo_clock (replicate 24 (0, 2)))" "sy_tokens (demo_clock (replicate 24 (0, 2))) = [False]"
  "length (sy_values (demo_clock (replicate 24 (0, 2)))) = maxValues"
proof -
  have f: "\<forall>q \<in> set (replicate 24 (0 :: nat, 2 :: nat)). fair_ping 1000 q" by (simp add: fair_ping_def)
  show "sync_reach (demo_clock (replicate 24 (0, 2)))" "sy_tokens (demo_clock (replicate 24 (0, 2))) = [False]"
    using rounds_reach [OF f] by blast+
  have "length (replicate 24 (0 :: nat, 2 :: nat)) \<le> maxValues" "replicate 24 (0 :: nat, 2 :: nat) \<noteq> []"
    by (simp_all add: maxValues_def)
  from demo_values [OF f this] show "length (sy_values (demo_clock (replicate 24 (0, 2)))) = maxValues"
    by (simp only: length_map length_replicate maxValues_def)
qed

theorem clock_stops_after_startup_witness:
  "sy_isRunning (demo_clock (replicate 24 (0, 2))) \<and> \<not> sy_isRunning (start_job 0 True 9 9 (demo_clock (replicate 24 (0, 2))))"
proof -
  have "0 < length (sy_tokens (demo_clock (replicate 24 (0, 2))))" "\<not> sy_tokens (demo_clock (replicate 24 (0, 2))) ! 0"
    unfolding full_clock(2) by simp_all
  from clock_stops_after_startup [OF full_clock(1) this full_clock(3), of True 9 9] show ?thesis unfolding Let_def by blast
qed

definition demo_pinging :: sync_clock where
  "demo_pinging = interval_job 0 True 0 0 (demo_clock [])"

theorem failed_ping_is_last_witness:
  "sy_pings demo_pinging = [0] \<and>
   fst (syncClockImplAsync True 9 9 (interval_job 0 True 7 7 (on_ping_failed 0 demo_pinging))) = Inr None"
proof -
  have d: "demo_pinging = (SyncClock 0)\<lparr>sy_isRunning := True, sy_tokens := [False], sy_lastPingFinished := False, sy_pings := [0]\<rparr>"
    by (simp add: demo_pinging_def demo_clock_def interval_job_def sync_start_def SyncClock_def syncClockImplAsync_def
        Let_def watch_reset_def Watch_def getElapsedTime_def)
  have "sync_reach demo_pinging"
    unfolding demo_pinging_def using rounds_reach [of "[]"] by (intro sync_reach.step [OF _ sync_step.interval]) simp_all
  moreover have "sync_step (on_ping_failed 0 demo_pinging) (interval_job 0 True 7 7 (on_ping_failed 0 demo_pinging))"
    by (rule sync_step.interval) (simp add: d on_ping_failed_def)
  moreover have "sy_pings demo_pinging = [0]" by (simp add: d)
  ultimately show ?thesis using failed_ping_is_last [of demo_pinging 0, OF _ _ r_into_rtranclp] by simp
qed

end
