(* ===== verification/ApiClient.thy ===== *)
theory ApiClient
  imports Strings Prelude "HOL-Library.Multiset"
begin

text \<open>
  The HTTP API of the federation (\<^verbatim>\<open>ApiClient.cpp\<close>, \<^verbatim>\<open>TokenHandler.cpp\<close>): the choice of the
  endpoints, the fallback from one to the next, reading of federations and of tokens. The
  network, the JSON reader, base64 and msgpack are libraries: they are arguments.
\<close>

section \<open>Data\<close>

record cluster =
  cl_id :: string
  cl_endpoints :: "string list"
  cl_tags :: "string list"

record federation =
  fd_current :: cluster
  fd_clusters :: "cluster list"

record encryption_config =
  en_algorithm :: string
  en_mode :: string
  en_key :: string
  en_token :: string

record token_response =
  tr_token :: string
  tr_endpoints :: "string \<rightharpoonup> string list"
  tr_encryption :: encryption_config

text \<open>\<open>'d\<close> is the type of \<^verbatim>\<open>ConnectionData\<close>.\<close>

record 'd scene_endpoint =
  ep_token :: string
  ep_version :: int
  ep_tokenData :: 'd
  ep_getTokenResponse :: token_response

datatype selection_mode = FALLBACK | RANDOM

definition apos :: string where
  "apos = [CHR 0x27]"

definition getCluster :: "string \<Rightarrow> federation \<Rightarrow> cluster res" where
  "getCluster i f =
     (if cl_id (fd_current f) = i then Inr (fd_current f)
      else (case find (\<lambda>c. cl_id c = i) (fd_clusters f) of
          Some c \<Rightarrow> Inr c
        | None \<Rightarrow> Inl (RuntimeError (''Cluster '' @ apos @ i @ apos @ '' not found in federation.''))))"

section \<open>Libraries\<close>

text \<open>
  \<^verbatim>\<open>web::json\<close>: parsing, \<^verbatim>\<open>operator[]\<close>, \<^verbatim>\<open>as_string\<close>, \<^verbatim>\<open>as_array\<close>, \<^verbatim>\<open>as_object\<close>, each of which
  may throw; base64 and msgpack.
\<close>

record ('j, 'd) codecs =
  js_parse :: "string \<Rightarrow> 'j res"
  js_member :: "string \<Rightarrow> 'j \<Rightarrow> 'j res"
  js_string :: "'j \<Rightarrow> string res"
  js_array :: "'j \<Rightarrow> 'j list res"
  js_object :: "'j \<Rightarrow> (string \<times> 'j) list res"
  from_base64 :: "string \<Rightarrow> byte list res"
  unpack :: "byte list \<Rightarrow> 'd res"
  dataVersion :: "'d \<Rightarrow> int"

text \<open>
  A request that could not be sent, or a response with its status, its header \<^verbatim>\<open>x-version\<close> and its
  body, whose reading may fail. The network is a state that every request changes.
\<close>

datatype http_method = GET | POST

record http_request =
  rq_base :: string
  rq_method :: http_method
  rq_uri :: string

datatype http_outcome = Unreachable string | Response nat string "string res"

type_synonym 'n http_net = "http_request \<Rightarrow> 'n \<Rightarrow> http_outcome \<times> 'n"

fun map_res :: "('a \<Rightarrow> 'b res) \<Rightarrow> 'a list \<Rightarrow> 'b list res" where
  "map_res f [] = Inr []"
| "map_res f (x # xs) = bind_res (f x) (\<lambda>y. bind_res (map_res f xs) (\<lambda>ys. Inr (y # ys)))"

definition ensureSuccessStatusCode :: "nat \<Rightarrow> bool" where
  "ensureSuccessStatusCode c \<longleftrightarrow> 200 \<le> c \<and> c < 300"

section \<open>Reading\<close>

definition read_strings :: "('j, 'd) codecs \<Rightarrow> string \<Rightarrow> 'j \<Rightarrow> string list res" where
  "read_strings cd k j = bind_res (js_member cd k j) (\<lambda>a. bind_res (js_array cd a) (map_res (js_string cd)))"

definition read_string :: "('j, 'd) codecs \<Rightarrow> string \<Rightarrow> 'j \<Rightarrow> string res" where
  "read_string cd k j = bind_res (js_member cd k j) (js_string cd)"

definition read_cluster :: "('j, 'd) codecs \<Rightarrow> 'j \<Rightarrow> cluster res" where
  "read_cluster cd j =
     bind_res (read_string cd ''id'' j) (\<lambda>i.
     bind_res (read_strings cd ''endpoints'' j) (\<lambda>es.
     bind_res (read_strings cd ''tags'' j) (\<lambda>ts.
       Inr \<lparr>cl_id = i, cl_endpoints = es, cl_tags = ts\<rparr>)))"

definition readFederationFromJson :: "('j, 'd) codecs \<Rightarrow> string \<Rightarrow> federation res" where
  "readFederationFromJson cd str =
     bind_res (js_parse cd str) (\<lambda>j.
     bind_res (js_member cd ''clusters'' j) (\<lambda>a.
     bind_res (js_array cd a) (\<lambda>js.
     bind_res (map_res (read_cluster cd) js) (\<lambda>cs.
     bind_res (js_member cd ''current'' j) (\<lambda>cur.
     bind_res (read_cluster cd cur) (\<lambda>c.
       Inr \<lparr>fd_current = c, fd_clusters = cs\<rparr>))))))"

definition no_response :: token_response where
  "no_response = \<lparr>tr_token = '''', tr_endpoints = Map.empty,
     tr_encryption = \<lparr>en_algorithm = ''aes256'', en_mode = ''GCM'', en_key = '''', en_token = ''''\<rparr>\<rparr>"

text \<open>
  \<^verbatim>\<open>decodeToken\<close>: the part of the token before the first dash, decoded. \<^const>\<open>None\<close> is the access to an
  element that is not there.
\<close>

definition decodeToken :: "('j, 'd) codecs \<Rightarrow> string \<Rightarrow> 'd scene_endpoint res option" where
  "decodeToken cd token2 =
     (if token2 = [] then Some (Inl (InvalidArgument ''Empty token''))
      else
        (let token = stringTrim token2 (CHR 0x22) in
         case stringSplit token ''-'' of
           Some (dat # _) \<Rightarrow>
             Some (bind_res (from_base64 cd dat) (\<lambda>bytes. bind_res (unpack cd bytes) (\<lambda>d.
               Inr \<lparr>ep_token = token, ep_version = 1, ep_tokenData = d, ep_getTokenResponse = no_response\<rparr>)))
         | _ \<Rightarrow> None))"

definition read_endpoints :: "('j, 'd) codecs \<Rightarrow> 'j \<Rightarrow> (string \<rightharpoonup> string list) res" where
  "read_endpoints cd j =
     bind_res (js_member cd ''endpoints'' j) (\<lambda>eo.
     bind_res (js_object cd eo) (\<lambda>ts.
     bind_res (map_res (\<lambda>(t, a). bind_res (js_array cd a) (\<lambda>es. bind_res (map_res (js_string cd) es) (\<lambda>ss. Inr (t, ss)))) ts) (\<lambda>tss.
       Inr (fold (\<lambda>(t, ss) m.
          if ss = [] then m else m(t \<mapsto> (case m t of None \<Rightarrow> [] | Some old \<Rightarrow> old) @ ss)) tss Map.empty))))"

definition getSceneEndpointInfo :: "('j, 'd) codecs \<Rightarrow> string \<Rightarrow> 'd scene_endpoint res option" where
  "getSceneEndpointInfo cd token =
     (case
        bind_res (js_parse cd token) (\<lambda>j.
        bind_res (read_string cd ''token'' j) (\<lambda>tok.
        bind_res (js_member cd ''encryption'' j) (\<lambda>e.
        bind_res (read_string cd ''algorithm'' e) (\<lambda>alg.
        bind_res (read_string cd ''key'' e) (\<lambda>key.
        bind_res (read_string cd ''mode'' e) (\<lambda>mode.
        bind_res (read_string cd ''token'' e) (\<lambda>etok.
        bind_res (read_endpoints cd j) (\<lambda>eps.
          Inr \<lparr>tr_token = tok, tr_endpoints = eps,
               tr_encryption = \<lparr>en_algorithm = alg, en_mode = mode, en_key = key, en_token = etok\<rparr>\<rparr>))))))))
      of
        Inl x \<Rightarrow> Some (Inl x)
      | Inr tr \<Rightarrow>
          map_option (\<lambda>r. bind_res r (\<lambda>sep. Inr
             \<lparr>ep_token = tr_token tr, ep_version = dataVersion cd (ep_tokenData sep), ep_tokenData = ep_tokenData sep,
              ep_getTokenResponse = tr\<rparr>)) (decodeToken cd (tr_token tr)))"

section \<open>Requests\<close>

text \<open>
  \<^verbatim>\<open>std::rand\<close> is a stream of numbers, consumed from the index \<open>k\<close>. The loop that draws the
  endpoints in random order.
\<close>

lemma mod_length_less: "es \<noteq> [] \<Longrightarrow> \<not> length es \<le> n mod length es"
  by (simp add: not_le)

function random_order :: "(nat \<Rightarrow> nat) \<Rightarrow> nat \<Rightarrow> string list \<Rightarrow> string list" where
  "random_order rand k es =
     (if es = [] then []
      else (let i = rand k mod length es in es ! i # random_order rand (Suc k) (take i es @ drop (Suc i) es)))"
  by pat_completeness auto
termination
proof (relation "measure (\<lambda>(rand, k, es). length es)")
  fix rand :: "nat \<Rightarrow> nat" and k :: nat and es :: "string list" and i
  assume "es \<noteq> []" "i = rand k mod length es"
  then have "i < length es" by simp
  then show "((rand, Suc k, take i es @ drop (Suc i) es), (rand, k, es)) \<in> measure (\<lambda>(rand, k, es). length es)" by simp
qed simp

declare random_order.simps [simp del]

text \<open>
  What is logged for the caller when an endpoint fails. The endpoints are taken to be well-formed URIs
  (\<^verbatim>\<open>http_client\<close>'s constructor, which stands outside the \<^verbatim>\<open>try\<close>, throws for the others and ends the
  search), and nobody cancels.
\<close>

definition unreachable_error :: "string \<Rightarrow> string \<Rightarrow> string" where
  "unreachable_error base w = ''[Can't reach the server endpoint. '' @ base @ '':'' @ w @ '']''"

definition status_error :: "string \<Rightarrow> nat \<Rightarrow> string" where
  "status_error what_uri status =
     ''[HTTP request on '' @ apos @ what_uri @ apos @ '' returned status code '' @ digits status @ '':'' @ digits status @ '']''"

definition all_failed :: "string list \<Rightarrow> storm_exn" where
  "all_failed errors = RuntimeError (''Failed to connect to the configured server endpoints : '' @ concat errors)"

fun getFederationImpl ::
  "'n http_net \<Rightarrow> ('j, 'd) codecs \<Rightarrow> string list \<Rightarrow> string list \<Rightarrow> 'n \<Rightarrow> federation res \<times> 'n" where
  "getFederationImpl net cd [] errors n = (Inl (all_failed errors), n)"
| "getFederationImpl net cd (baseUri # endpoints) errors n =
     (case net \<lparr>rq_base = baseUri, rq_method = GET, rq_uri = ''/_federation''\<rparr> n of
        (Unreachable w, n1) \<Rightarrow> getFederationImpl net cd endpoints (errors @ [unreachable_error baseUri w]) n1
      | (Response status xVersion body, n1) \<Rightarrow>
          (case body of
             Inl e \<Rightarrow> (Inl e, n1)
           | Inr text \<Rightarrow>
               if ensureSuccessStatusCode status then (readFederationFromJson cd text, n1)
               else getFederationImpl net cd endpoints (errors @ [status_error (baseUri @ ''/_federation'') status]) n1))"

definition getFederation ::
  "selection_mode \<Rightarrow> 'n http_net \<Rightarrow> ('j, 'd) codecs \<Rightarrow> (nat \<Rightarrow> nat) \<Rightarrow> nat \<Rightarrow> string list \<Rightarrow> 'n \<Rightarrow> federation res \<times> 'n" where
  "getFederation mode net cd rand k endpoints n =
     (if endpoints = [] then (Inl (RuntimeError ''No server endpoints found in configuration.''), n)
      else (case mode of
          FALLBACK \<Rightarrow> getFederationImpl net cd endpoints [] n
        | RANDOM \<Rightarrow> getFederationImpl net cd (random_order rand k endpoints) [] n))"

definition read_scene_endpoint :: "('j, 'd) codecs \<Rightarrow> string \<Rightarrow> string \<Rightarrow> 'd scene_endpoint res option" where
  "read_scene_endpoint cd xVersion text =
     (if xVersion = ''2'' \<or> xVersion = ''3'' then getSceneEndpointInfo cd text else decodeToken cd text)"

fun getSceneEndpointImpl ::
  "'n http_net \<Rightarrow> ('j, 'd) codecs \<Rightarrow> string list \<Rightarrow> string list \<Rightarrow> string \<Rightarrow> string \<Rightarrow> string \<Rightarrow> 'n \<Rightarrow>
    'd scene_endpoint res option \<times> 'n" where
  "getSceneEndpointImpl net cd [] errors account app sceneId n = (Some (Inl (all_failed errors)), n)"
| "getSceneEndpointImpl net cd (baseUri # endpoints) errors account app sceneId n =
     (case net \<lparr>rq_base = baseUri, rq_method = POST,
                rq_uri = ''/'' @ account @ ''/'' @ app @ ''/scenes/'' @ sceneId @ ''/token''\<rparr> n of
        (Unreachable w, n1) \<Rightarrow>
          getSceneEndpointImpl net cd endpoints (errors @ [unreachable_error baseUri w]) account app sceneId n1
      | (Response status xVersion body, n1) \<Rightarrow>
          (case body of
             Inl e \<Rightarrow> (Some (Inl e), n1)
           | Inr text \<Rightarrow>
               if ensureSuccessStatusCode status then (read_scene_endpoint cd xVersion text, n1)
               else getSceneEndpointImpl net cd endpoints (errors @ [status_error baseUri status]) account app sceneId n1))"

definition getSceneEndpoint ::
  "selection_mode \<Rightarrow> 'n http_net \<Rightarrow> ('j, 'd) codecs \<Rightarrow> (nat \<Rightarrow> nat) \<Rightarrow> nat \<Rightarrow> string list \<Rightarrow> string \<Rightarrow> string \<Rightarrow> string \<Rightarrow> 'n \<Rightarrow>
    'd scene_endpoint res option \<times> 'n" where
  "getSceneEndpoint mode net cd rand k baseUris account app sceneId n =
     (if baseUris = [] then (Some (Inl (RuntimeError ''No server endpoints found in configuration.'')), n)
      else (case mode of
          FALLBACK \<Rightarrow> getSceneEndpointImpl net cd baseUris [] account app sceneId n
        | RANDOM \<Rightarrow> getSceneEndpointImpl net cd (random_order rand k baseUris) [] account app sceneId n))"

text \<open>
  \<^verbatim>\<open>requestWithRetries\<close>: the first endpoint, or a random one, is asked; only the status 200 is a
  success. \<^const>\<open>None\<close> is the dereference of the end of the list (or, in random mode, the division
  by its length), which happens when no endpoint is configured.
\<close>

definition retry_error :: "string \<Rightarrow> nat \<Rightarrow> string \<Rightarrow> string" where
  "retry_error base status body =
     ''An error occured while performing an http request to'' @ base @ '' status code : '' @ apos @ digits status @
     apos @ '', message : '' @ apos @ body"

definition retry_exception :: "string \<Rightarrow> string \<Rightarrow> string" where
  "retry_exception base w = ''An exception occured while performing an http request to'' @ base @ w"

text \<open>The error an outcome adds to the list, or the response.\<close>

definition retry_outcome :: "string \<Rightarrow> http_outcome \<Rightarrow> string + (nat \<times> string \<times> string res)" where
  "retry_outcome base r =
     (case r of
        Unreachable w \<Rightarrow> Inl (retry_exception base w)
      | Response status xVersion body \<Rightarrow>
          if status = 200 then Inr (status, xVersion, body)
          else (case body of
              Inl e \<Rightarrow> Inl (retry_exception base (what e))
            | Inr text \<Rightarrow> Inl (retry_error base status text)))"

function requestWithRetriesImpl ::
  "selection_mode \<Rightarrow> 'n http_net \<Rightarrow> (string \<Rightarrow> http_request) \<Rightarrow> (nat \<Rightarrow> nat) \<Rightarrow> nat \<Rightarrow> string list \<Rightarrow> string list \<Rightarrow> 'n \<Rightarrow>
    ((nat \<times> string \<times> string res) res \<times> 'n) option" where
  "requestWithRetriesImpl mode net factory rand k endpoints errors n =
     (if endpoints = [] then None
      else
        (let i = (if mode = RANDOM then rand k mod length endpoints else 0);
             base = endpoints ! i;
             rest = take i endpoints @ drop (Suc i) endpoints
         in case net (factory base) n of
              (r, n1) \<Rightarrow>
                (case retry_outcome base r of
                   Inr response \<Rightarrow> Some (Inr response, n1)
                 | Inl e \<Rightarrow>
                     if rest \<noteq> [] then requestWithRetriesImpl mode net factory rand (Suc k) rest (errors @ [e]) n1
                     else Some (Inl (RuntimeError (concat (map (\<lambda>e. e @ [CHR 0x0A]) (errors @ [e])))), n1))))"
  by pat_completeness auto
termination
  by (relation "measure (\<lambda>(mode, net, factory, rand, k, endpoints, errors, n). length endpoints)")
    (auto simp: min_def mod_length_less)

declare requestWithRetriesImpl.simps [simp del]

definition requestWithRetries ::
  "selection_mode \<Rightarrow> 'n http_net \<Rightarrow> (string \<Rightarrow> http_request) \<Rightarrow> (nat \<Rightarrow> nat) \<Rightarrow> nat \<Rightarrow> string list \<Rightarrow> 'n \<Rightarrow>
    ((nat \<times> string \<times> string res) res \<times> 'n) option" where
  "requestWithRetries mode net factory rand k configured n = requestWithRetriesImpl mode net factory rand k configured [] n"

text \<open>\<^verbatim>\<open>GetServerEndpoints\<close> drops the JSON it has got: \<^verbatim>\<open>ServerEndpoints\<close> has no members.\<close>

definition GetServerEndpoints ::
  "selection_mode \<Rightarrow> 'n http_net \<Rightarrow> ('j, 'd) codecs \<Rightarrow> string \<Rightarrow> string \<Rightarrow> (nat \<Rightarrow> nat) \<Rightarrow> nat \<Rightarrow> string list \<Rightarrow> 'n \<Rightarrow>
    (unit res \<times> 'n) option" where
  "GetServerEndpoints mode net cd account application rand k configured n =
     map_option (\<lambda>(r, n1). (bind_res r (\<lambda>(_, _, body). bind_res body (\<lambda>text. bind_res (js_parse cd text) (\<lambda>_. Inr ()))), n1))
       (requestWithRetries mode net
          (\<lambda>base. \<lparr>rq_base = base, rq_method = POST, rq_uri = ''/'' @ account @ ''/'' @ application @ ''/_endpoints''\<rparr>)
          rand k configured n)"

section \<open>The endpoints are asked in turn\<close>

lemma mset_take_nth_drop: "i < length xs \<Longrightarrow> add_mset (xs ! i) (mset (take i xs @ drop (Suc i) xs)) = mset xs"
  by (metis id_take_nth_drop mset.simps(2) mset_append union_mset_add_mset_right)

lemma random_order_Nil [simp]: "random_order rand k [] = []"
  by (subst random_order.simps) simp

lemma random_order_mset: "mset (random_order rand k es) = mset es"
proof (induction rand k es rule: random_order.induct)
  case (1 rand k es)
  show ?case
  proof (cases "es = []")
    case False
    let ?i = "rand k mod length es"
    have "?i < length es" using False by simp
    moreover have "mset (random_order rand (Suc k) (take ?i es @ drop (Suc ?i) es)) = mset (take ?i es @ drop (Suc ?i) es)"
      using "1.IH" False by simp
    ultimately show ?thesis
      using False mset_take_nth_drop [of ?i es] by (subst random_order.simps) (simp add: Let_def)
  qed (simp add: random_order.simps)
qed

text \<open>
  The abstract search: endpoints are asked in the given order until one gives an answer. An
  outcome is an error to be noted, or an answer.
\<close>

fun search_answer ::
  "(string \<Rightarrow> http_request) \<Rightarrow> (string \<Rightarrow> http_outcome \<Rightarrow> string + 'a) \<Rightarrow> 'n http_net \<Rightarrow> string list \<Rightarrow> 'n \<Rightarrow>
    string list \<times> (string \<times> 'a) option \<times> 'n" where
  "search_answer request judge net [] n = ([], None, n)"
| "search_answer request judge net (e # es) n =
     (case net (request e) n of
        (r, n1) \<Rightarrow>
          (case judge e r of
             Inr a \<Rightarrow> ([], Some (e, a), n1)
           | Inl err \<Rightarrow> (case search_answer request judge net es n1 of (errs, a, n2) \<Rightarrow> (err # errs, a, n2))))"

text \<open>What \<^verbatim>\<open>getFederation\<close> and \<^verbatim>\<open>getSceneEndpoint\<close> take for an answer: a success, or a body that cannot be read.\<close>

definition judge_response :: "(string \<Rightarrow> string) \<Rightarrow> string \<Rightarrow> http_outcome \<Rightarrow> string + (string \<times> string res)" where
  "judge_response shown e r =
     (case r of
        Unreachable w \<Rightarrow> Inl (unreachable_error e w)
      | Response status xVersion body \<Rightarrow>
          (case body of
             Inl x \<Rightarrow> Inr (xVersion, Inl x)
           | Inr text \<Rightarrow>
               if ensureSuccessStatusCode status then Inr (xVersion, Inr text) else Inl (status_error (shown e) status)))"

definition federation_request :: "string \<Rightarrow> http_request" where
  "federation_request e = \<lparr>rq_base = e, rq_method = GET, rq_uri = ''/_federation''\<rparr>"

definition endpoint_request :: "string \<Rightarrow> string \<Rightarrow> string \<Rightarrow> string \<Rightarrow> http_request" where
  "endpoint_request account app sceneId e =
     \<lparr>rq_base = e, rq_method = POST, rq_uri = ''/'' @ account @ ''/'' @ app @ ''/scenes/'' @ sceneId @ ''/token''\<rparr>"

definition judge_federation :: "string \<Rightarrow> http_outcome \<Rightarrow> string + (string \<times> string res)" where
  "judge_federation = judge_response (\<lambda>e. e @ ''/_federation'')"

lemma getFederationImpl_search:
  "getFederationImpl net cd es errors n =
     (case search_answer federation_request judge_federation net es n of
        (errs, Some (e, xv, body), n1) \<Rightarrow> (bind_res body (readFederationFromJson cd), n1)
      | (errs, None, n1) \<Rightarrow> (Inl (all_failed (errors @ errs)), n1))"
  by (induction es arbitrary: errors n)
    (auto simp: federation_request_def judge_federation_def judge_response_def
      split: prod.splits http_outcome.splits sum.splits option.splits)

lemma getSceneEndpointImpl_search:
  "getSceneEndpointImpl net cd es errors account app sceneId n =
     (case search_answer (endpoint_request account app sceneId) (judge_response id) net es n of
        (errs, Some (e, xv, Inl x), n1) \<Rightarrow> (Some (Inl x), n1)
      | (errs, Some (e, xv, Inr text), n1) \<Rightarrow> (read_scene_endpoint cd xv text, n1)
      | (errs, None, n1) \<Rightarrow> (Some (Inl (all_failed (errors @ errs))), n1))"
  by (induction es arbitrary: errors n)
    (auto simp: endpoint_request_def judge_response_def split: prod.splits http_outcome.splits sum.splits option.splits)

text \<open>Asking all endpoints of a list, with what each of them says.\<close>

fun ask_all :: "(string \<Rightarrow> http_request) \<Rightarrow> 'n http_net \<Rightarrow> string list \<Rightarrow> 'n \<Rightarrow> (string \<times> http_outcome) list \<times> 'n" where
  "ask_all request net [] n = ([], n)"
| "ask_all request net (e # es) n =
     (case net (request e) n of (r, n1) \<Rightarrow> (case ask_all request net es n1 of (os, n2) \<Rightarrow> ((e, r) # os, n2)))"

definition failures :: "(string \<Rightarrow> http_outcome \<Rightarrow> string + 'a) \<Rightarrow> (string \<times> http_outcome) list \<Rightarrow> string list" where
  "failures judge os = map (\<lambda>(e, r). projl (judge e r)) (takeWhile (\<lambda>(e, r). isl (judge e r)) os)"

lemma failures_simps [simp]:
  "failures judge [] = []"
  "failures judge ((e, r) # os) = (case judge e r of Inl x \<Rightarrow> x # failures judge os | Inr a \<Rightarrow> [])"
  by (simp_all add: failures_def split: sum.splits)

lemma ask_all_length [simp]: "length (fst (ask_all request net es n)) = length es"
  by (induction es arbitrary: n) (auto split: prod.splits, metis fst_conv)

lemma search_asks:
  "search_answer request judge net es n =
     (let os = fst (ask_all request net es n); k = length (failures judge os) in
      (failures judge os,
       if k < length es then Some (es ! k, projr (judge (es ! k) (snd (os ! k)))) else None,
       snd (ask_all request net (take (Suc k) es) n)))"
proof (induction es arbitrary: n)
  case Nil
  then show ?case by simp
next
  case (Cons e es)
  obtain r n1 where r: "net (request e) n = (r, n1)" by fastforce
  obtain os n2 where os: "ask_all request net es n1 = (os, n2)" by fastforce
  show ?case
    using Cons.IH [of n1] by (cases "judge e r") (auto simp: r os Let_def split: prod.splits)
qed

text \<open>
  The specification of the calls that go from endpoint to endpoint: for some order of the
  configured endpoints, which is the given one without random selection, the first endpoint
  that answers determines the result, the endpoints before it have failed, those behind it are
  not asked, and when all have failed the error lists what each of them said.
\<close>

definition first_answer ::
  "(string \<Rightarrow> http_request) \<Rightarrow> (string \<Rightarrow> http_outcome \<Rightarrow> string + 'a) \<Rightarrow> ('a \<Rightarrow> 'r) \<Rightarrow> (string list \<Rightarrow> 'r) \<Rightarrow> 'n http_net \<Rightarrow>
    selection_mode \<Rightarrow> string list \<Rightarrow> 'n \<Rightarrow> 'r \<times> 'n \<Rightarrow> bool" where
  "first_answer request judge result failed net mode es n x \<longleftrightarrow>
     (\<exists>order. mset order = mset es \<and> (mode = FALLBACK \<longrightarrow> order = es) \<and>
        (let said = fst (ask_all request net order n); k = length (failures judge said) in
         snd x = snd (ask_all request net (take (Suc k) order) n) \<and>
         fst x = (if k < length order then result (projr (judge (order ! k) (snd (said ! k)))) else failed (failures judge said))))"

lemma first_answerI:
  assumes "mset order = mset es" "mode = FALLBACK \<longrightarrow> order = es"
    "x = (case search_answer request judge net order n of
        (errs, Some (e, a), n1) \<Rightarrow> (result a, n1) | (errs, None, n1) \<Rightarrow> (failed errs, n1))"
  shows "first_answer request judge result failed net mode es n x"
  unfolding first_answer_def
  by (intro exI [of _ order]) (use assms in \<open>auto simp: search_asks Let_def split: prod.splits option.splits if_splits\<close>)

text \<open>
  Property C18. \<^verbatim>\<open>getFederation\<close> and \<^verbatim>\<open>getSceneEndpoint\<close> refine the search for the first answer. An
  endpoint has answered when it gave a status between 200 and 299 or a body that could not be
  read; the result is then read from that body, and an answer that cannot be parsed is an error
  although other endpoints are left.
\<close>

theorem endpoints_in_turn:
  assumes "es \<noteq> []"
  shows "first_answer federation_request judge_federation (\<lambda>(xv, body). bind_res body (readFederationFromJson cd))
      (\<lambda>errs. Inl (all_failed errs)) net mode es n (getFederation mode net cd rand k es n) \<and>
    first_answer (endpoint_request account app sceneId) (judge_response id)
      (\<lambda>(xv, body). case body of Inl x \<Rightarrow> Some (Inl x) | Inr text \<Rightarrow> read_scene_endpoint cd xv text)
      (\<lambda>errs. Some (Inl (all_failed errs))) net mode es n
      (getSceneEndpoint mode net cd rand k es account app sceneId n)"
proof -
  let ?order = "if mode = RANDOM then random_order rand k es else es"
  have o: "mset ?order = mset es" "mode = FALLBACK \<longrightarrow> ?order = es" by (simp_all add: random_order_mset)
  have "getFederation mode net cd rand k es n = getFederationImpl net cd ?order [] n"
    "getSceneEndpoint mode net cd rand k es account app sceneId n = getSceneEndpointImpl net cd ?order [] account app sceneId n"
    using assms by (cases mode; simp add: getFederation_def getSceneEndpoint_def)+
  then show ?thesis
    unfolding getFederationImpl_search getSceneEndpointImpl_search
    by (intro conjI first_answerI [OF o]) (auto split: prod.splits option.splits sum.splits)
qed

text \<open>
  \<^verbatim>\<open>requestWithRetries\<close> draws its endpoints one by one; in random mode that is the
  same as drawing the whole order first, with the same random numbers, and asking in that
  order, as \<^verbatim>\<open>getFederation\<close> does. Every configured endpoint is asked at most once, only the
  status 200 counts, and the error is the list of all failures, one per line. Without a
  configured endpoint it dereferences the end of an empty list.
\<close>

theorem retries_equal_search:
  "requestWithRetries mode net factory rand k configured n =
     (if configured = [] then None
      else Some (case search_answer factory retry_outcome net (if mode = RANDOM then random_order rand k configured else configured) n of
          (errs, Some (e, a), n1) \<Rightarrow> (Inr a, n1)
        | (errs, None, n1) \<Rightarrow> (Inl (RuntimeError (concat (map (\<lambda>e. e @ [CHR 0x0A]) errs))), n1)))"
proof -
  have "es \<noteq> [] \<Longrightarrow> requestWithRetriesImpl mode net factory rand k es errors n =
     Some (case search_answer factory retry_outcome net (if mode = RANDOM then random_order rand k es else es) n of
          (errs, Some (e, a), n1) \<Rightarrow> (Inr a, n1)
        | (errs, None, n1) \<Rightarrow> (Inl (RuntimeError (concat (map (\<lambda>e. e @ [CHR 0x0A]) (errors @ errs)))), n1))" for k es errors n
  proof (induction "length es" arbitrary: k es errors n)
    case (Suc m)
    define i where "i = (if mode = RANDOM then rand k mod length es else 0)"
    let ?rest = "take i es @ drop (Suc i) es"
    have i: "i < length es" using Suc.prems by (simp add: i_def)
    have l: "length ?rest = m" using i Suc.hyps(2) by simp
    obtain r n1 where r: "net (factory (es ! i)) n = (r, n1)" by fastforce
    have order: "(if mode = RANDOM then random_order rand k es else es) =
        es ! i # (if mode = RANDOM then random_order rand (Suc k) ?rest else ?rest)"
      using Suc.prems i by (subst random_order.simps) (auto simp: i_def Let_def Cons_nth_drop_Suc)
    have step: "requestWithRetriesImpl mode net factory rand k es errors n =
        (case retry_outcome (es ! i) r of
           Inr response \<Rightarrow> Some (Inr response, n1)
         | Inl e \<Rightarrow> if ?rest \<noteq> [] then requestWithRetriesImpl mode net factory rand (Suc k) ?rest (errors @ [e]) n1
             else Some (Inl (RuntimeError (concat (map (\<lambda>e. e @ [CHR 0x0A]) (errors @ [e])))), n1))"
      using Suc.prems by (subst requestWithRetriesImpl.simps) (simp add: i_def [symmetric] r Let_def)
    show ?case
    proof (cases "retry_outcome (es ! i) r")
      case (Inr a)
      then show ?thesis unfolding step order by (simp add: r)
    next
      case (Inl e)
      show ?thesis
      proof (cases "?rest = []")
        case True
        have "(if mode = RANDOM then random_order rand (Suc k) ?rest else ?rest) = []" unfolding True by simp
        then show ?thesis unfolding step order using True by (simp del: append_is_Nil_conv add: r Inl)
      next
        case False
        then show ?thesis
          unfolding step order using Suc.hyps(1) [OF l [symmetric] False, of "Suc k" "errors @ [e]" n1]
          by (simp add: r Inl split: prod.splits option.splits)
      qed
    qed
  qed simp
  note found = this
  show ?thesis
  proof (cases "configured = []")
    case True
    then show ?thesis by (simp add: requestWithRetries_def requestWithRetriesImpl.simps)
  next
    case False
    then show ?thesis unfolding requestWithRetries_def found [OF False] append_Nil by simp
  qed
qed

lemma trim_quotes:
  assumes "q \<notin> set t" "t \<noteq> []"
  shows "stringTrim t q = t" "stringTrim (q # t @ [q]) q = t"
proof -
  have "dropWhile (\<lambda>c. c = q) xs = xs" if "q \<notin> set xs" for xs using that by (cases xs) auto
  from this [of t] this [of "rev t"] have d: "dropWhile (\<lambda>c. c = q) t = t" "dropWhile (\<lambda>c. c = q) (rev t) = rev t"
    using assms(1) by simp_all
  have "\<exists>x \<in> set t. x \<noteq> q" using assms by (metis list.set_intros(1) neq_Nil_conv)
  then have "dropWhile (\<lambda>c. c = q) (t @ [q]) = t @ [q]" using d(1) by (simp add: dropWhile_append)
  with d show "stringTrim t q = t" "stringTrim (q # t @ [q]) q = t" by (simp_all add: stringTrim_def)
qed

lemma pieces_exist: "\<exists>ys. ys \<noteq> [] \<and> (\<forall>z \<in> set ys. c \<notin> set z) \<and> stringJoin ys [c] = s"
proof (induction s)
  case Nil
  show ?case by (rule exI [of _ "[[]]"]) (simp add: stringJoin_def)
next
  case (Cons a s)
  then obtain y ys where ys: "\<forall>z \<in> set (y # ys). c \<notin> set z" "stringJoin (y # ys) [c] = s" by (metis neq_Nil_conv)
  show ?case
  proof (cases "a = c")
    case True
    then show ?thesis using ys by (intro exI [of _ "[] # y # ys"]) (simp add: stringJoin_def)
  next
    case False
    then show ?thesis using ys by (intro exI [of _ "(a # y) # ys"]) (auto simp: stringJoin_def)
  qed
qed

lemma split_first: "c \<notin> set x \<Longrightarrow> \<exists>r. stringSplit (x @ [c] @ y) [c] = Some (x # r)"
proof -
  assume x: "c \<notin> set x"
  obtain ys where ys: "ys \<noteq> []" "\<forall>z \<in> set ys. c \<notin> set z" "stringJoin ys [c] = y" using pieces_exist [of c y] by blast
  then have "x @ [c] @ y = stringJoin (x # ys) [c]" by (cases ys) (simp_all add: stringJoin_def)
  then show ?thesis using split_loop_char [of "x # ys" c "[]" "[]"] x ys(2) by (simp add: stringSplit_def)
qed

text \<open>
  Decoding inverts the making of a token: a token is the base64 text of packed
  connection data, a dash and a signature; \<^verbatim>\<open>decodeToken\<close> gives back the data and the token,
  with or without quotes around it, provided that unpacking and base64 decoding invert their
  counterparts and base64 text contains no dash and no quote. No access is out of range for
  any token.
\<close>

theorem token_roundtrip:
  assumes "\<And>bs. from_base64 cd (base64_of bs) = Inr bs" "unpack cd (pack d) = Inr d"
    and "CHR ''-'' \<notin> set (base64_of (pack d))"
    and "CHR 0x22 \<notin> set (base64_of (pack d))" "CHR 0x22 \<notin> set signature"
  shows "let token = base64_of (pack d) @ ''-'' @ signature in
      map_option (map_sum id (\<lambda>s. (ep_token s, ep_tokenData s))) (decodeToken cd token) = Some (Inr (token, d)) \<and>
      decodeToken cd (CHR 0x22 # token @ [CHR 0x22]) = decodeToken cd token \<and> decodeToken cd any \<noteq> None"
proof -
  let ?t = "base64_of (pack d) @ ''-'' @ signature"
  have "CHR 0x22 \<notin> set ?t" "?t \<noteq> []" using assms(4,5) by auto
  note trim = trim_quotes [OF this]
  obtain r where r: "stringSplit ?t ''-'' = Some (base64_of (pack d) # r)" using split_first [OF assms(3)] by auto
  have "map_option (map_sum id (\<lambda>s. (ep_token s, ep_tokenData s))) (decodeToken cd ?t) = Some (Inr (?t, d)) \<and>
      decodeToken cd (CHR 0x22 # ?t @ [CHR 0x22]) = decodeToken cd ?t"
    unfolding Let_def decodeToken_def trim r using assms(1,2) by simp
  moreover obtain r where "stringSplit (stringTrim any (CHR 0x22)) ''-'' = Some r" "r \<noteq> []"
    using split_loop_join [of "''-''" 0 "stringTrim any (CHR 0x22)" "[]"] by (auto simp: stringSplit_def)
  then have "decodeToken cd any \<noteq> None" by (cases r) (auto simp: decodeToken_def Let_def)
  ultimately show ?thesis unfolding Let_def by blast
qed

section \<open>Concrete calls\<close>

text \<open>
  A network with three endpoints: the first cannot be reached, the second is overloaded, the
  third answers; it counts requests. JSON is read as its own text, tokens are packed as they are.
\<close>

definition demo_http :: "nat http_net" where
  "demo_http rq n =
     (if rq_base rq = ''a'' then Unreachable ''refused''
      else if rq_base rq = ''b'' then Response 503 ''3'' (Inr ''busy'')
      else Response 200 ''1'' (Inr ''data-sig''), n + 1)"

definition demo_codecs :: "(string, byte list) codecs" where
  "demo_codecs = \<lparr>js_parse = Inr, js_member = (\<lambda>k j. Inr (k @ j)), js_string = Inr, js_array = (\<lambda>j. Inr [j]),
     js_object = (\<lambda>j. Inr []), from_base64 = (\<lambda>s. Inr (map (\<lambda>c. word_of_nat (of_char c)) s)), unpack = Inr,
     dataVersion = (\<lambda>_. 3)\<rparr>"

theorem endpoints_in_turn_witness:
  "\<exists>order r. order = [''a'', ''b'', ''c''] \<and>
     fst (getFederation FALLBACK demo_http demo_codecs id 0 order 0) = Inr r \<and>
     snd (getFederation FALLBACK demo_http demo_codecs id 0 order 0) = 3 \<and>
     snd (getFederation FALLBACK demo_http demo_codecs id 0 order 0) = snd (ask_all federation_request demo_http order 0)"
proof -
  let ?es = "[''a'', ''b'', ''c'']"
  let ?x = "getFederation FALLBACK demo_http demo_codecs id 0 ?es 0"
  have "first_answer federation_request judge_federation (\<lambda>(xv, body). bind_res body (readFederationFromJson demo_codecs))
      (\<lambda>errs. Inl (all_failed errs)) demo_http FALLBACK ?es 0 ?x"
    using endpoints_in_turn [of ?es demo_codecs demo_http FALLBACK 0 id 0] by blast
  then show ?thesis
    by (auto simp: first_answer_def Let_def federation_request_def judge_federation_def judge_response_def demo_http_def
        ensureSuccessStatusCode_def readFederationFromJson_def read_cluster_def read_string_def read_strings_def demo_codecs_def)
qed

theorem token_roundtrip_witness:
  "map_option (map_sum id (\<lambda>s. (ep_token s, ep_tokenData s))) (decodeToken demo_codecs ''data-sig'') =
   Some (Inr (''data-sig'', [100, 97, 116, 97]))"
proof -
  let ?to = "map (\<lambda>b. char_of (unat b)) :: byte list \<Rightarrow> string"
  have "(word_of_nat (of_char (char_of (unat b))) :: byte) = b" for b :: byte
  proof -
    have "unat b < 256" using unsigned_less [of b, where ?'a = nat] by simp
    then show ?thesis by simp
  qed
  then have c: "from_base64 demo_codecs (?to bs) = Inr bs" "unpack demo_codecs (id bs) = Inr bs" for bs
    by (simp_all add: demo_codecs_def comp_def map_idI)
  have t: "?to (id [100, 97, 116, 97]) = ''data''" by (simp add: char_of_def bit_Suc_0_iff)
  show ?thesis
    using token_roundtrip [where cd = demo_codecs and base64_of = ?to and pack = id and d = "[100, 97, 116, 97]" and signature = "''sig''",
      OF c(1) c(2)] unfolding t Let_def by simp
qed

end
