(* ===== verification/Client.thy ===== *)
theory Client
  imports Scenes ApiClient
begin

text \<open>
  The scenes of a client (\<^verbatim>\<open>Client.cpp\<close>): its map from uris to connection attempts, the stages of
  an attempt up to the connected scene, the subscriptions that take a scene out of the map, and
  disconnection. The answers to requests are arguments of the steps.
\<close>

section \<open>State\<close>

text \<open>
  The continuations of \<^verbatim>\<open>getPublicScene\<close>, \<^verbatim>\<open>getSceneInternal\<close> and \<^verbatim>\<open>connectToScene\<close>, by what they wait
  for. \<open>Succeeded\<close> and \<open>Failing\<close> are the end of the factory's task; the continuation that the map
  of scenes holds comes after it.
\<close>

datatype stage =
    AwaitEndpoint
  | AwaitConnection
  | AwaitInfos nat
  | AwaitMetadata nat scene_infos
  | AwaitConnecting "(string \<times> route) list"
  | AwaitResult
  | AwaitConnected
  | Succeeded
  | Failing storm_exn
  | Finished
  | Failed_for storm_exn

text \<open>
  An attempt; its number is also the number of the scene it makes. The initializer is the list
  of routes it registers.
\<close>

record attempt =
  at_address :: scene_address
  at_routes :: "(string \<times> nat \<times> MessageOriginFilter \<times> (string \<rightharpoonup> string)) list"
  at_token :: string
  at_stage :: stage

record client_scene =
  ce_task :: nat
  ce_isPublic :: bool
  ce_subscription :: "nat option"

datatype client_request =
    EndpointRequest scene_address
  | ConnectionRequest string
  | SceneInfosRequest nat string
  | MetadataRequest nat
  | ConnectRequest nat string "(string \<times> route) list"
  | DisconnectRequest nat byte

datatype leaving = AwaitDisconnecting byte bool string | AwaitReply string | Left

text \<open>
  \<open>cw_subs\<close> are the subscriptions to the states of scenes: the scene, the uri the callback erases,
  and whether it is subscribed. \<open>cw_leaving\<close> are the disconnections of \<^verbatim>\<open>disconnect(scene)\<close>, and
  \<open>cw_doomed\<close> those that wait for an attempt to finish.
\<close>

record client =
  cw_world :: scenes_world
  cw_scenes :: "string \<rightharpoonup> client_scene"
  cw_attempts :: "attempt list"
  cw_subs :: "(nat \<times> string \<times> bool) list"
  cw_requests :: "client_request list"
  cw_leaving :: "(nat \<times> leaving) list"
  cw_doomed :: "(nat \<times> bool \<times> string) list"

definition Client :: "net \<Rightarrow> client" where
  "Client n = \<lparr>cw_world = \<lparr>sw_net = n, sw_scenes = Map.empty\<rparr>, cw_scenes = Map.empty, cw_attempts = [], cw_subs = [],
     cw_requests = [], cw_leaving = [], cw_doomed = []\<rparr>"

definition at_uri :: "attempt \<Rightarrow> string" where
  "at_uri a = toUri (at_address a)"

definition set_stage :: "nat \<Rightarrow> stage \<Rightarrow> client \<Rightarrow> client" where
  "set_stage a st c = c\<lparr>cw_attempts := (cw_attempts c)[a := (cw_attempts c ! a)\<lparr>at_stage := st\<rparr>]\<rparr>"

definition request :: "client_request \<Rightarrow> client \<Rightarrow> client" where
  "request q c = c\<lparr>cw_requests := cw_requests c @ [q]\<rparr>"

definition put_scene :: "nat \<Rightarrow> scene \<Rightarrow> client \<Rightarrow> client" where
  "put_scene i sc c = c\<lparr>cw_world := (cw_world c)\<lparr>sw_scenes := (sw_scenes (cw_world c))(i \<mapsto> sc)\<rparr>\<rparr>"

definition scene_of :: "client \<Rightarrow> nat \<Rightarrow> scene option" where
  "scene_of c i = sw_scenes (cw_world c) i"

section \<open>The map of scenes\<close>

text \<open>
  The copies of an entry share its subscription, and the destructor of \<^verbatim>\<open>ClientScene\<close> ends the
  subscription.
\<close>

definition end_subscription :: "nat option \<Rightarrow> client \<Rightarrow> client" where
  "end_subscription r c =
     (case r of
        None \<Rightarrow> c
      | Some s \<Rightarrow> c\<lparr>cw_subs := (cw_subs c)[s := (case cw_subs c ! s of (i, u, _) \<Rightarrow> (i, u, False))]\<rparr>)"

definition erase_entry :: "string \<Rightarrow> client \<Rightarrow> client" where
  "erase_entry u c =
     (case cw_scenes c u of
        None \<Rightarrow> c
      | Some e \<Rightarrow> end_subscription (ce_subscription e) (c\<lparr>cw_scenes := (cw_scenes c)(u := None)\<rparr>))"

text \<open>A state that a scene publishes: the callbacks, and the end of the subscriptions after \<^verbatim>\<open>Disconnected\<close>.\<close>

definition state_callback :: "nat \<Rightarrow> conn_kind \<Rightarrow> nat \<Rightarrow> client \<Rightarrow> client" where
  "state_callback i k s c =
     (case cw_subs c ! s of
        (j, u, live) \<Rightarrow> if live \<and> j = i \<and> (k = Disconnecting \<or> k = Disconnected) then erase_entry u c else c)"

definition publish_state :: "nat \<Rightarrow> client \<Rightarrow> ConnectionState \<Rightarrow> client" where
  "publish_state i c s =
     (let c1 = fold (state_callback i (cs_state s)) [0..<length (cw_subs c)] c in
      if cs_state s = Disconnected
      then c1\<lparr>cw_subs := map (\<lambda>(j, u, live). (j, u, live \<and> j \<noteq> i)) (cw_subs c1)\<rparr> else c1)"

text \<open>A scene that has changed, and what it has published on the way.\<close>

definition scene_changed :: "nat \<Rightarrow> scene \<Rightarrow> client \<Rightarrow> client" where
  "scene_changed i sc' c =
     (case scene_of c i of
        None \<Rightarrow> c
      | Some sc \<Rightarrow> foldl (publish_state i) (put_scene i sc' c) (drop (length (sc_published sc)) (sc_published sc')))"

definition run_scene_job :: "(nat \<Rightarrow> rnconn) \<Rightarrow> string list \<Rightarrow> u16 \<Rightarrow> nat \<Rightarrow> client \<Rightarrow> client option" where
  "run_scene_job conns order junk i c =
     (case scene_of c i of
        None \<Rightarrow> Some c
      | Some sc \<Rightarrow> map_option (\<lambda>(es, sc'). scene_changed i sc' c) (run_next conns order junk sc))"

definition host_changed :: "nat \<Rightarrow> ConnectionState \<Rightarrow> client \<Rightarrow> client" where
  "host_changed i s c =
     (case scene_of c i of None \<Rightarrow> c | Some sc \<Rightarrow> put_scene i (host_state_changed s sc) c)"

section \<open>Connecting\<close>

text \<open>
  \<^verbatim>\<open>connectToScene(address, isPublic, factory)\<close>: the task of the entry, or a new attempt. The
  factory of a public scene asks for the endpoint first; the one of a private scene has it in
  its token.
\<close>

definition connectToScene ::
  "scene_address \<Rightarrow> bool \<Rightarrow> string \<Rightarrow> (string \<times> nat \<times> MessageOriginFilter \<times> (string \<rightharpoonup> string)) list \<Rightarrow> client \<Rightarrow>
    nat \<times> client" where
  "connectToScene address isPublic token routes c =
     (case cw_scenes c (toUri address) of
        Some e \<Rightarrow> (ce_task e, c)
      | None \<Rightarrow>
          (let a = length (cw_attempts c);
               at = \<lparr>at_address = address, at_routes = routes, at_token = token,
                     at_stage = (if isPublic then AwaitEndpoint else AwaitConnection)\<rparr>;
               c1 = c\<lparr>cw_attempts := cw_attempts c @ [at],
                      cw_scenes := (cw_scenes c)(toUri address \<mapsto>
                        \<lparr>ce_task = a, ce_isPublic = isPublic, ce_subscription = None\<rparr>)\<rparr>
           in (a, request (if isPublic then EndpointRequest address else ConnectionRequest (sa_clusterId address)) c1)))"

text \<open>
  \<^verbatim>\<open>parseSceneUrl\<close> and \<^verbatim>\<open>connectToPublicScene\<close>, when the federation has come: a scene id is completed
  with the current cluster and the configured account and application.
\<close>

definition parseSceneUrl :: "string \<Rightarrow> string \<Rightarrow> string \<Rightarrow> federation \<Rightarrow> scene_address" where
  "parseSceneUrl url account app fed = parse url (cl_id (fd_current fed)) account app"

definition connectToPublicScene ::
  "string \<Rightarrow> string \<Rightarrow> string \<Rightarrow> (string \<times> nat \<times> MessageOriginFilter \<times> (string \<rightharpoonup> string)) list \<Rightarrow> federation res \<Rightarrow>
    client \<Rightarrow> nat res \<times> client" where
  "connectToPublicScene sceneId account app routes fed c =
     (case fed of
        Inl e \<Rightarrow> (Inl e, c)
      | Inr f \<Rightarrow>
          (case connectToScene (parseSceneUrl sceneId account app f) True '''' routes c of (a, c1) \<Rightarrow> (Inr a, c1)))"

definition on_endpoint :: "nat \<Rightarrow> string res \<Rightarrow> client \<Rightarrow> client" where
  "on_endpoint a r c =
     (case r of
        Inl e \<Rightarrow> set_stage a (Failing e) c
      | Inr token \<Rightarrow>
          (let at = cw_attempts c ! a in
           request (ConnectionRequest (sa_clusterId (at_address at)))
             (c\<lparr>cw_attempts := (cw_attempts c)[a := at\<lparr>at_token := token, at_stage := AwaitConnection\<rparr>]\<rparr>)))"

definition on_connection :: "nat \<Rightarrow> nat option res \<Rightarrow> client \<Rightarrow> client" where
  "on_connection a r c =
     (case r of
        Inl e \<Rightarrow> set_stage a (Failing e) c
      | Inr None \<Rightarrow> set_stage a (Failing (RuntimeError ''Connection not available'')) c
      | Inr (Some k) \<Rightarrow> request (SceneInfosRequest k (at_token (cw_attempts c ! a))) (set_stage a (AwaitInfos k) c))"

text \<open>The serializer the server has selected becomes metadata of the connection.\<close>

definition set_serializer :: "nat \<Rightarrow> string \<Rightarrow> client \<Rightarrow> client" where
  "set_serializer k v c =
     (let w = cw_world c; n = sw_net w in
      c\<lparr>cw_world := w\<lparr>sw_net := n\<lparr>nt_conns := (nt_conns n)(k := setMetadata ''serializer'' v (nt_conns n k))\<rparr>\<rparr>\<rparr>)"

definition on_infos :: "nat \<Rightarrow> nat \<Rightarrow> (string \<times> scene_infos) res \<Rightarrow> client \<Rightarrow> client" where
  "on_infos a k r c =
     (case r of
        Inl e \<Rightarrow> set_stage a (Failing e) c
      | Inr (serializer, infos) \<Rightarrow>
          request (MetadataRequest k) (set_stage a (AwaitMetadata k infos) (set_serializer k serializer c)))"

fun initializer_routes :: "(string \<times> nat \<times> MessageOriginFilter \<times> (string \<rightharpoonup> string)) list \<Rightarrow> scene \<Rightarrow> unit res \<times> scene" where
  "initializer_routes [] sc = (Inr (), sc)"
| "initializer_routes ((n, h, f, meta) # rs) sc =
     (case addRoute n h f meta sc of (Inl e, sc1) \<Rightarrow> (Inl e, sc1) | (Inr _, sc1) \<Rightarrow> initializer_routes rs sc1)"

text \<open>
  The scene is made, the initializer runs, and \<^verbatim>\<open>scene->connect\<close> calls the private
  \<^verbatim>\<open>connectToScene\<close>, which takes the routes in an order that the map of routes chooses and sets
  the state of the scene on the dispatcher.
\<close>

definition connect_scene :: "nat \<Rightarrow> string list \<Rightarrow> client \<Rightarrow> client" where
  "connect_scene a order c =
     (case scene_of c a of
        None \<Rightarrow> c
      | Some sc \<Rightarrow>
          if cs_state (sc_state sc) \<noteq> Disconnected
          then set_stage a (Failing (RuntimeError ''The scene is not in disconnected state.'')) c
          else set_stage a
            (AwaitConnecting (map (\<lambda>n. (n, the (sc_localRoutes sc n))) (filter (\<lambda>n. sc_localRoutes sc n \<noteq> None) order)))
            (put_scene a (scene_setConnectionState (conn_state Connecting) True sc) c))"

definition on_metadata :: "nat \<Rightarrow> nat \<Rightarrow> scene_infos \<Rightarrow> string list \<Rightarrow> unit res \<Rightarrow> client \<Rightarrow> client" where
  "on_metadata a k infos order r c =
     (case r of
        Inl e \<Rightarrow> set_stage a (Failing e) c
      | Inr _ \<Rightarrow>
          (let at = cw_attempts c ! a in
           case initializer_routes (at_routes at) (Scene_Impl k (at_address at) infos) of
             (Inl e, sc) \<Rightarrow> set_stage a (Failing e) (put_scene a sc c)
           | (Inr _, sc) \<Rightarrow> connect_scene a order (put_scene a sc c)))"

text \<open>A change of state that was posted is done when it has left the dispatcher.\<close>

definition job_done :: "ConnectionState \<Rightarrow> nat \<Rightarrow> client \<Rightarrow> bool" where
  "job_done s i c \<longleftrightarrow> (case scene_of c i of None \<Rightarrow> False | Some sc \<Rightarrow> SetState [s] \<notin> set (sc_jobs sc))"

text \<open>The scene is connecting: the request to connect, with the routes.\<close>

definition on_connecting :: "nat \<Rightarrow> (string \<times> route) list \<Rightarrow> client \<Rightarrow> client" where
  "on_connecting a routes c =
     (case scene_of c a of
        None \<Rightarrow> c
      | Some sc \<Rightarrow>
          request (ConnectRequest (sc_peer sc) (at_token (cw_attempts c ! a)) routes) (set_stage a AwaitResult c))"

definition on_connect_result :: "nat \<Rightarrow> string list \<Rightarrow> connection_result res \<Rightarrow> client \<Rightarrow> client option" where
  "on_connect_result a order r c =
     (case r of
        Inl e \<Rightarrow> Some (set_stage a (Failing e) c)
      | Inr cr \<Rightarrow>
          (case scene_of c a of
             None \<Rightarrow> None
           | Some sc \<Rightarrow>
               (let c1 = put_scene a (completeConnectionInitialization order cr sc) c in
                map_option
                  (\<lambda>w. let c2 = c1\<lparr>cw_world := w\<rparr> in
                     set_stage a AwaitConnected
                       (case scene_of c2 a of None \<Rightarrow> c2
                        | Some sc2 \<Rightarrow> put_scene a (scene_setConnectionState (conn_state Connected) True sc2) c2))
                  (addScene (sc_peer sc) a (cw_world c1)))))"

definition on_connected :: "nat \<Rightarrow> client \<Rightarrow> client" where
  "on_connected a c = set_stage a Succeeded c"

text \<open>A canceled token ends whatever the attempt waits for.\<close>

definition cancel_attempt :: "nat \<Rightarrow> client \<Rightarrow> client" where
  "cancel_attempt a c = set_stage a (Failing TaskCanceled) c"

section \<open>Disconnecting\<close>

text \<open>
  \<^verbatim>\<open>disconnect(scene)\<close>. The result is the task that is returned at once, or \<^const>\<open>None\<close> when the task
  is that of the disconnection. A connected scene has a host.
\<close>

definition disconnect_scene :: "nat \<Rightarrow> bool \<Rightarrow> string \<Rightarrow> client \<Rightarrow> unit res option \<times> client" where
  "disconnect_scene i byServer reason c =
     (case scene_of c i of
        None \<Rightarrow> (Some (Inr ()), c)
      | Some sc \<Rightarrow>
          (case cs_state (sc_state sc) of
             Connected \<Rightarrow>
               (case sc_host sc of
                  None \<Rightarrow> (None, c)
                | Some h \<Rightarrow>
                    (let c1 = erase_entry (toUri (sc_address sc)) c in
                     (None, put_scene i (scene_setConnectionState (conn_state_because Disconnecting reason) True sc)
                        (c1\<lparr>cw_leaving := cw_leaving c1 @ [(i, AwaitDisconnecting (sp_handle h) byServer reason)]\<rparr>))))
           | Disconnected \<Rightarrow> (Some (Inr ()), c)
           | _ \<Rightarrow> (Some (Inl (RuntimeError ''The scene is not in connected state'')), c)))"

text \<open>\<^verbatim>\<open>disconnect(connection, handle)\<close>, the disconnection that a message of the server asks for.\<close>

definition disconnect_handle :: "nat \<Rightarrow> byte \<Rightarrow> bool \<Rightarrow> string \<Rightarrow> client \<Rightarrow> unit res option \<times> client" where
  "disconnect_handle k h byServer reason c =
     (case getScene k h (cw_world c) of
        None \<Rightarrow> (Some (Inr ()), c)
      | Some i \<Rightarrow> disconnect_scene i byServer reason c)"

definition set_leaving :: "nat \<Rightarrow> nat \<times> leaving \<Rightarrow> client \<Rightarrow> client" where
  "set_leaving l x c = c\<lparr>cw_leaving := (cw_leaving c)[l := x]\<rparr>"

definition post_disconnected :: "nat \<Rightarrow> string \<Rightarrow> client \<Rightarrow> client" where
  "post_disconnected i reason c =
     (case scene_of c i of
        None \<Rightarrow> c
      | Some sc \<Rightarrow> put_scene i (scene_setConnectionState (conn_state_because Disconnected reason) True sc) c)"

text \<open>The scene is disconnecting; \<open>found\<close> says whether the repository has the connection of its host.\<close>

definition on_disconnecting :: "nat \<Rightarrow> bool \<Rightarrow> client \<Rightarrow> client" where
  "on_disconnecting l found c =
     (case cw_leaving c ! l of
        (i, AwaitDisconnecting h byServer reason) \<Rightarrow>
          (case scene_of c i of
             None \<Rightarrow> c
           | Some sc \<Rightarrow>
               if found then
                 (let c1 = c\<lparr>cw_world := removeScene (sc_peer sc) h (cw_world c)\<rparr> in
                  if \<not> byServer then request (DisconnectRequest (sc_peer sc) h) (set_leaving l (i, AwaitReply reason) c1)
                  else post_disconnected i reason (set_leaving l (i, Left) c1))
               else post_disconnected i reason (set_leaving l (i, Left) c))
      | _ \<Rightarrow> c)"

text \<open>The answer to the request, an error or the timeout of five seconds: the result is the same.\<close>

definition on_disconnect_reply :: "nat \<Rightarrow> client \<Rightarrow> client" where
  "on_disconnect_reply l c =
     (case cw_leaving c ! l of
        (i, AwaitReply reason) \<Rightarrow> post_disconnected i reason (set_leaving l (i, Left) c)
      | _ \<Rightarrow> c)"

section \<open>The end of an attempt\<close>

text \<open>
  The continuation on the task of the factory: it subscribes to the states of the scene, or
  erases the entry of the uri. A scene that has completed its states accepts no subscription.
\<close>

definition subscribe_entry :: "nat \<Rightarrow> string \<Rightarrow> client \<Rightarrow> client" where
  "subscribe_entry a u c =
     (case cw_scenes c u of
        None \<Rightarrow> c
      | Some e \<Rightarrow>
          c\<lparr>cw_subs := cw_subs c @ [(a, u, case scene_of c a of None \<Rightarrow> False | Some sc \<Rightarrow> \<not> sc_completed sc)],
            cw_scenes := (cw_scenes c)(u \<mapsto> e\<lparr>ce_subscription := Some (length (cw_subs c))\<rparr>)\<rparr>)"

definition finish_attempt :: "nat \<Rightarrow> client \<Rightarrow> client" where
  "finish_attempt a c =
     (case at_stage (cw_attempts c ! a) of
        Succeeded \<Rightarrow>
          fold (\<lambda>(_, byServer, reason) c. snd (disconnect_scene a byServer reason c)) (filter (\<lambda>d. fst d = a) (cw_doomed c))
            (set_stage a Finished (subscribe_entry a (at_uri (cw_attempts c ! a)) c))
      | Failing e \<Rightarrow> set_stage a (Failed_for e) (erase_entry (at_uri (cw_attempts c ! a)) c)
      | _ \<Rightarrow> c)"

section \<open>Queries\<close>

text \<open>\<^verbatim>\<open>getConnectedScene\<close>: the task of the entry under the string it is given, which is a uri.\<close>

definition getConnectedScene :: "string \<Rightarrow> client \<Rightarrow> nat option res" where
  "getConnectedScene sceneId c =
     (if sceneId = [] then Inl (RuntimeError ''SceneId is empty'') else Inr (map_option ce_task (cw_scenes c sceneId)))"

text \<open>
  The loops of \<^verbatim>\<open>getSceneIds\<close> and \<^verbatim>\<open>disconnectAllScenes\<close> copy the entries they visit; the destructor
  of a copy ends the subscription.
\<close>

definition visit_entries :: "string list \<Rightarrow> client \<Rightarrow> client" where
  "visit_entries us c =
     fold (\<lambda>u c. case cw_scenes c u of None \<Rightarrow> c | Some e \<Rightarrow> end_subscription (ce_subscription e) c) us c"

definition getSceneIds :: "string list \<Rightarrow> client \<Rightarrow> string list \<times> client" where
  "getSceneIds order c = (filter (\<lambda>u. cw_scenes c u \<noteq> None) order, visit_entries order c)"

definition disconnect_id :: "string \<Rightarrow> bool \<Rightarrow> string \<Rightarrow> client \<Rightarrow> client" where
  "disconnect_id u byServer reason c =
     (case cw_scenes c u of
        None \<Rightarrow> c
      | Some e \<Rightarrow>
          if at_stage (cw_attempts c ! ce_task e) = Finished then snd (disconnect_scene (ce_task e) byServer reason c)
          else c\<lparr>cw_doomed := cw_doomed c @ [(ce_task e, byServer, reason)]\<rparr>)"

definition disconnectAllScenes :: "string list \<Rightarrow> client \<Rightarrow> client" where
  "disconnectAllScenes order c = fold (\<lambda>u c. disconnect_id u False '''' c) order (visit_entries order c)"

section \<open>Steps\<close>

definition stage_of :: "client \<Rightarrow> nat \<Rightarrow> stage" where
  "stage_of c a = at_stage (cw_attempts c ! a)"

definition uri_of :: "client \<Rightarrow> nat \<Rightarrow> string" where
  "uri_of c a = at_uri (cw_attempts c ! a)"

fun over :: "stage \<Rightarrow> bool" where
  "over Finished = True" | "over (Failed_for _) = True" | "over _ = False"

fun failed_stage :: "stage \<Rightarrow> bool" where
  "failed_stage (Failed_for _) = True" | "failed_stage _ = False"

fun waiting :: "stage \<Rightarrow> bool" where
  "waiting Succeeded = False" | "waiting (Failing _) = False" | "waiting Finished = False" |
  "waiting (Failed_for _) = False" | "waiting _ = True"

text \<open>The entry of a finished attempt's uri, if there is one, is its own.\<close>

definition own_entry :: "nat \<Rightarrow> client \<Rightarrow> bool" where
  "own_entry i c \<longleftrightarrow> stage_of c i = Finished \<and> (\<forall>e. cw_scenes c (uri_of c i) = Some e \<longrightarrow> ce_task e = i)"

text \<open>
  The orderly steps of a client. What users and the other parts do to a scene outside its state
  is a step as well. In an orderly step a scene that is disconnected with its pointer, by its
  user or a message of the server, is one whose attempt is over and whose uri no other attempt
  has taken; \<^verbatim>\<open>client_run\<close> below adds the other disconnections, which the code allows.
\<close>

inductive client_step :: "client \<Rightarrow> client \<Rightarrow> bool" where
  connect: "client_step c (snd (connectToScene address isPublic token routes c))"
| endpoint: "a < length (cw_attempts c) \<Longrightarrow> stage_of c a = AwaitEndpoint \<Longrightarrow> client_step c (on_endpoint a r c)"
| connection: "a < length (cw_attempts c) \<Longrightarrow> stage_of c a = AwaitConnection \<Longrightarrow> client_step c (on_connection a r2 c)"
| infos: "a < length (cw_attempts c) \<Longrightarrow> stage_of c a = AwaitInfos k \<Longrightarrow> client_step c (on_infos a k r3 c)"
| metadata: "a < length (cw_attempts c) \<Longrightarrow> stage_of c a = AwaitMetadata k infos \<Longrightarrow>
    client_step c (on_metadata a k infos order r4 c)"
| connecting: "a < length (cw_attempts c) \<Longrightarrow> stage_of c a = AwaitConnecting rs \<Longrightarrow> job_done (conn_state Connecting) a c \<Longrightarrow>
    client_step c (on_connecting a rs c)"
| result: "a < length (cw_attempts c) \<Longrightarrow> stage_of c a = AwaitResult \<Longrightarrow> on_connect_result a order r5 c = Some c' \<Longrightarrow>
    client_step c c'"
| connected: "a < length (cw_attempts c) \<Longrightarrow> stage_of c a = AwaitConnected \<Longrightarrow> job_done (conn_state Connected) a c \<Longrightarrow>
    client_step c (on_connected a c)"
| cancel: "a < length (cw_attempts c) \<Longrightarrow> waiting (stage_of c a) \<Longrightarrow> client_step c (cancel_attempt a c)"
| finish: "a < length (cw_attempts c) \<Longrightarrow> client_step c (finish_attempt a c)"
| job: "run_scene_job conns order junk i c = Some c' \<Longrightarrow> client_step c c'"
| host: "client_step c (host_changed i s c)"
| disconnect: "client_step c (disconnect_id u byServer reason c)"
| leave: "own_entry i c \<Longrightarrow> client_step c (snd (disconnect_scene i byServer reason c))"
| disconnecting: "l < length (cw_leaving c) \<Longrightarrow> client_step c (on_disconnecting l found c)"
| reply: "l < length (cw_leaving c) \<Longrightarrow> client_step c (on_disconnect_reply l c)"
| visit: "client_step c (visit_entries us c)"
| scene: "scene_of c i = Some sc \<Longrightarrow> sc_state sc' = sc_state sc \<Longrightarrow> sc_completed sc' = sc_completed sc \<Longrightarrow>
    sc_published sc' = sc_published sc \<Longrightarrow> sc_address sc' = sc_address sc \<Longrightarrow> client_step c (put_scene i sc' c)"

inductive client_reach :: "client \<Rightarrow> bool" where
  new: "client_reach (Client n)"
| step: "client_reach c \<Longrightarrow> client_step c c' \<Longrightarrow> client_reach c'"



section \<open>The invariant of the map\<close>

text \<open>
  Entries belong to attempts of their uri that have not failed; an unfinished attempt is in the
  map, without a subscription; a live subscription is that of an entry whose scene is not over
  (scenes in \<open>X\<close> excepted, between their last state and the end of their subscriptions).
\<close>

definition entry_ok :: "client \<Rightarrow> string \<Rightarrow> client_scene \<Rightarrow> bool" where
  "entry_ok c u e \<longleftrightarrow>
     ce_task e < length (cw_attempts c) \<and> uri_of c (ce_task e) = u \<and> \<not> failed_stage (stage_of c (ce_task e)) \<and>
     (\<forall>s. ce_subscription e = Some s \<longrightarrow> s < length (cw_subs c) \<and> fst (cw_subs c ! s) = ce_task e \<and>
        fst (snd (cw_subs c ! s)) = u)"

definition entries_ok :: "client \<Rightarrow> bool" where
  "entries_ok c \<longleftrightarrow> (\<forall>u e. cw_scenes c u = Some e \<longrightarrow> entry_ok c u e)"

definition attempts_ok :: "client \<Rightarrow> bool" where
  "attempts_ok c \<longleftrightarrow>
     (\<forall>a < length (cw_attempts c). \<not> over (stage_of c a) \<longrightarrow>
        (\<exists>e. cw_scenes c (uri_of c a) = Some e \<and> ce_task e = a \<and> ce_subscription e = None))"

definition sub_ok :: "nat set \<Rightarrow> client \<Rightarrow> nat \<Rightarrow> nat \<Rightarrow> string \<Rightarrow> bool" where
  "sub_ok X c s i u \<longleftrightarrow>
     (\<exists>e. cw_scenes c u = Some e \<and> ce_task e = i \<and> ce_subscription e = Some s) \<and> stage_of c i = Finished \<and>
     (\<exists>sc. scene_of c i = Some sc \<and> (i \<notin> X \<longrightarrow> \<not> sc_completed sc))"

definition subs_ok :: "nat set \<Rightarrow> client \<Rightarrow> bool" where
  "subs_ok X c \<longleftrightarrow> (\<forall>s < length (cw_subs c). \<forall>i u. cw_subs c ! s = (i, u, True) \<longrightarrow> sub_ok X c s i u)"

definition scenes_ok :: "client \<Rightarrow> bool" where
  "scenes_ok c \<longleftrightarrow>
     (\<forall>i sc. scene_of c i = Some sc \<longrightarrow>
        i < length (cw_attempts c) \<and> sc_address sc = at_address (cw_attempts c ! i) \<and> sc_wf sc)"

definition client_wf :: "nat set \<Rightarrow> client \<Rightarrow> bool" where
  "client_wf X c \<longleftrightarrow> entries_ok c \<and> attempts_ok c \<and> subs_ok X c \<and> scenes_ok c"

lemma set_stage_sel [simp]:
  "cw_scenes (set_stage a st c) = cw_scenes c" "cw_subs (set_stage a st c) = cw_subs c"
  "cw_world (set_stage a st c) = cw_world c" "cw_leaving (set_stage a st c) = cw_leaving c"
  "cw_doomed (set_stage a st c) = cw_doomed c" "cw_requests (set_stage a st c) = cw_requests c"
  "length (cw_attempts (set_stage a st c)) = length (cw_attempts c)" "scene_of (set_stage a st c) = scene_of c"
  by (simp_all add: set_stage_def scene_of_def fun_eq_iff)

lemma set_stage_nth:
  "cw_attempts (set_stage a st c) ! b =
     (if b = a \<and> a < length (cw_attempts c) then (cw_attempts c ! a)\<lparr>at_stage := st\<rparr> else cw_attempts c ! b)"
  by (cases "a < length (cw_attempts c)") (simp_all add: set_stage_def nth_list_update list_update_beyond)

lemma set_stage_at:
  "uri_of (set_stage a st c) b = uri_of c b" "at_address (cw_attempts (set_stage a st c) ! b) = at_address (cw_attempts c ! b)"
  "at_token (cw_attempts (set_stage a st c) ! b) = at_token (cw_attempts c ! b)"
  "at_routes (cw_attempts (set_stage a st c) ! b) = at_routes (cw_attempts c ! b)"
  "a < length (cw_attempts c) \<Longrightarrow> stage_of (set_stage a st c) b = (if b = a then st else stage_of c b)"
  by (simp_all add: set_stage_nth uri_of_def at_uri_def stage_of_def)

lemma failed_over: "failed_stage st \<Longrightarrow> over st"
  by (cases st) simp_all

lemma request_sel [simp]:
  "cw_scenes (request q c) = cw_scenes c" "cw_subs (request q c) = cw_subs c" "cw_world (request q c) = cw_world c"
  "cw_attempts (request q c) = cw_attempts c" "cw_leaving (request q c) = cw_leaving c"
  "cw_doomed (request q c) = cw_doomed c" "scene_of (request q c) = scene_of c"
  "stage_of (request q c) = stage_of c" "uri_of (request q c) = uri_of c"
  "cw_requests (request q c) = cw_requests c @ [q]"
  by (simp_all add: request_def scene_of_def stage_of_def uri_of_def fun_eq_iff)

lemma put_scene_sel [simp]:
  "cw_scenes (put_scene i sc c) = cw_scenes c" "cw_subs (put_scene i sc c) = cw_subs c"
  "cw_attempts (put_scene i sc c) = cw_attempts c" "cw_leaving (put_scene i sc c) = cw_leaving c"
  "cw_doomed (put_scene i sc c) = cw_doomed c" "cw_requests (put_scene i sc c) = cw_requests c"
  "stage_of (put_scene i sc c) = stage_of c" "uri_of (put_scene i sc c) = uri_of c"
  "scene_of (put_scene i sc c) j = (if j = i then Some sc else scene_of c j)"
  by (simp_all add: put_scene_def scene_of_def stage_of_def uri_of_def fun_eq_iff)

text \<open>Steps that leave the map and the subscriptions alone and let attempts only go on.\<close>

lemma client_wf_mono:
  assumes "client_wf X c" "cw_scenes c' = cw_scenes c" "cw_subs c' = cw_subs c"
    and "length (cw_attempts c') = length (cw_attempts c)"
    and "\<And>a. a < length (cw_attempts c) \<Longrightarrow> at_address (cw_attempts c' ! a) = at_address (cw_attempts c ! a)"
    and "\<And>a. a < length (cw_attempts c) \<Longrightarrow> stage_of c' a = stage_of c a \<or> \<not> over (stage_of c a) \<and> \<not> over (stage_of c' a)"
    and "\<And>i sc. scene_of c' i = Some sc \<Longrightarrow>
      i < length (cw_attempts c) \<and> sc_address sc = at_address (cw_attempts c ! i) \<and> sc_wf sc"
    and "\<And>i sc. scene_of c i = Some sc \<Longrightarrow> i \<notin> X \<Longrightarrow> \<not> sc_completed sc \<Longrightarrow> stage_of c i = Finished \<Longrightarrow>
      \<exists>sc'. scene_of c' i = Some sc' \<and> \<not> sc_completed sc'"
    and "\<And>i. scene_of c i \<noteq> None \<Longrightarrow> scene_of c' i \<noteq> None"
  shows "client_wf X c'"
proof -
  have u: "uri_of c' a = uri_of c a" if "a < length (cw_attempts c)" for a
    using assms(5) [OF that] by (simp add: uri_of_def at_uri_def)
  have f: "failed_stage (stage_of c' a) \<longleftrightarrow> failed_stage (stage_of c a)" if "a < length (cw_attempts c)" for a
    using assms(6) [OF that] failed_over by metis
  have o: "over (stage_of c' a) \<longleftrightarrow> over (stage_of c a)" if "a < length (cw_attempts c)" for a
    using assms(6) [OF that] by metis
  have fin: "stage_of c' a = Finished" if "a < length (cw_attempts c)" "stage_of c a = Finished" for a
    using assms(6) [OF that(1)] that(2) by (metis over.simps(1))
  have w: "entries_ok c" "attempts_ok c" "subs_ok X c" "scenes_ok c" using assms(1) by (simp_all add: client_wf_def)
  have "entry_ok c' v e" if "cw_scenes c v = Some e" for v e
  proof -
    have "entry_ok c v e" using w(1) that by (simp add: entries_ok_def)
    then show ?thesis using u f by (simp add: entry_ok_def assms(3,4))
  qed
  then have "entries_ok c'" by (simp add: entries_ok_def assms(2))
  moreover have "attempts_ok c'" using w(2) u o by (simp add: attempts_ok_def assms(2,4))
  moreover have "subs_ok X c'"
    unfolding subs_ok_def assms(2,3)
  proof (intro allI impI)
    fix s i v assume s: "s < length (cw_subs c)" "cw_subs c ! s = (i, v, True)"
    then have "sub_ok X c s i v" using w(3) unfolding subs_ok_def by blast
    then obtain e sc where e: "cw_scenes c v = Some e" "ce_task e = i" "ce_subscription e = Some s" "stage_of c i = Finished"
      "scene_of c i = Some sc" "i \<notin> X \<longrightarrow> \<not> sc_completed sc" unfolding sub_ok_def by blast
    then have i: "i < length (cw_attempts c)" using w(4) unfolding scenes_ok_def by blast
    have "\<exists>sc'. scene_of c' i = Some sc' \<and> (i \<notin> X \<longrightarrow> \<not> sc_completed sc')"
      using assms(8) [OF e(5)] assms(9) [of i] e(4-6) by (cases "i \<in> X") auto
    then show "sub_ok X c' s i v"
      unfolding sub_ok_def assms(2) using e(1-4) fin [OF i] by blast
  qed
  moreover have "scenes_ok c'"
    unfolding scenes_ok_def
  proof (intro allI impI)
    fix i sc assume "scene_of c' i = Some sc"
    from assms(7) [OF this] assms(5) [of i]
    show "i < length (cw_attempts c') \<and> sc_address sc = at_address (cw_attempts c' ! i) \<and> sc_wf sc" by (simp add: assms(4))
  qed
  ultimately show ?thesis by (simp add: client_wf_def)
qed

lemma client_wfD:
  assumes "client_wf X c"
  shows "cw_scenes c u = Some e \<Longrightarrow> entry_ok c u e"
    and "a < length (cw_attempts c) \<Longrightarrow> \<not> over (stage_of c a) \<Longrightarrow>
      \<exists>e. cw_scenes c (uri_of c a) = Some e \<and> ce_task e = a \<and> ce_subscription e = None"
    and "s < length (cw_subs c) \<Longrightarrow> cw_subs c ! s = (i, u, True) \<Longrightarrow> sub_ok X c s i u"
    and "scene_of c i = Some sc \<Longrightarrow> i < length (cw_attempts c)"
    and "scene_of c i = Some sc \<Longrightarrow> sc_address sc = at_address (cw_attempts c ! i)"
    and "scene_of c i = Some sc \<Longrightarrow> sc_wf sc"
  using assms by (auto simp: client_wf_def entries_ok_def attempts_ok_def subs_ok_def scenes_ok_def)

lemma client_wfI:
  assumes "\<And>u e. cw_scenes c u = Some e \<Longrightarrow> entry_ok c u e"
    and "\<And>a. a < length (cw_attempts c) \<Longrightarrow> \<not> over (stage_of c a) \<Longrightarrow>
      \<exists>e. cw_scenes c (uri_of c a) = Some e \<and> ce_task e = a \<and> ce_subscription e = None"
    and "\<And>s i u. s < length (cw_subs c) \<Longrightarrow> cw_subs c ! s = (i, u, True) \<Longrightarrow> sub_ok X c s i u"
    and "\<And>i sc. scene_of c i = Some sc \<Longrightarrow> i < length (cw_attempts c) \<and> sc_address sc = at_address (cw_attempts c ! i) \<and> sc_wf sc"
  shows "client_wf X c"
  using assms by (auto simp: client_wf_def entries_ok_def attempts_ok_def subs_ok_def scenes_ok_def)

text \<open>Ending subscriptions, and erasing an entry whose attempt is over.\<close>

lemma upd_subs_sel [simp]:
  "scene_of (c\<lparr>cw_subs := S\<rparr>) = scene_of c" "stage_of (c\<lparr>cw_subs := S\<rparr>) = stage_of c" "uri_of (c\<lparr>cw_subs := S\<rparr>) = uri_of c"
  "scene_of (c\<lparr>cw_scenes := M\<rparr>) = scene_of c" "stage_of (c\<lparr>cw_scenes := M\<rparr>) = stage_of c" "uri_of (c\<lparr>cw_scenes := M\<rparr>) = uri_of c"
  "scene_of (c\<lparr>cw_leaving := L\<rparr>) = scene_of c" "stage_of (c\<lparr>cw_leaving := L\<rparr>) = stage_of c" "uri_of (c\<lparr>cw_leaving := L\<rparr>) = uri_of c"
  "scene_of (c\<lparr>cw_doomed := D\<rparr>) = scene_of c" "stage_of (c\<lparr>cw_doomed := D\<rparr>) = stage_of c" "uri_of (c\<lparr>cw_doomed := D\<rparr>) = uri_of c"
  by (simp_all add: scene_of_def stage_of_def uri_of_def fun_eq_iff)

lemma client_wf_subs:
  assumes "client_wf X c" "length S = length (cw_subs c)"
    and "\<And>s. s < length S \<Longrightarrow> fst (S ! s) = fst (cw_subs c ! s) \<and> fst (snd (S ! s)) = fst (snd (cw_subs c ! s))"
    and "\<And>s. s < length S \<Longrightarrow> snd (snd (S ! s)) \<Longrightarrow> snd (snd (cw_subs c ! s)) \<and> (fst (S ! s) \<notin> Y \<or> fst (S ! s) \<notin> X)"
    and "X \<subseteq> Y"
  shows "client_wf (X - Y) (c\<lparr>cw_subs := S\<rparr>)"
proof (rule client_wfI)
  fix u e assume "cw_scenes (c\<lparr>cw_subs := S\<rparr>) u = Some e"
  then have "entry_ok c u e" using client_wfD(1) [OF assms(1)] by simp
  then show "entry_ok (c\<lparr>cw_subs := S\<rparr>) u e" using assms(2,3) by (simp add: entry_ok_def)
next
  fix a assume "a < length (cw_attempts (c\<lparr>cw_subs := S\<rparr>))" "\<not> over (stage_of (c\<lparr>cw_subs := S\<rparr>) a)"
  then show "\<exists>e. cw_scenes (c\<lparr>cw_subs := S\<rparr>) (uri_of (c\<lparr>cw_subs := S\<rparr>) a) = Some e \<and> ce_task e = a \<and> ce_subscription e = None"
    using client_wfD(2) [OF assms(1)] by simp
next
  fix s i u assume s: "s < length (cw_subs (c\<lparr>cw_subs := S\<rparr>))" "cw_subs (c\<lparr>cw_subs := S\<rparr>) ! s = (i, u, True)"
  then have "cw_subs c ! s = (i, u, True)" "i \<notin> X"
    using assms(3) [of s] assms(4) [of s] assms(5) by (cases "cw_subs c ! s", auto)+
  then have "sub_ok X c s i u" using client_wfD(3) [OF assms(1)] s(1) assms(2) by simp
  then show "sub_ok (X - Y) (c\<lparr>cw_subs := S\<rparr>) s i u" using \<open>i \<notin> X\<close> by (simp add: sub_ok_def)
next
  fix i sc assume "scene_of (c\<lparr>cw_subs := S\<rparr>) i = Some sc"
  then show "i < length (cw_attempts (c\<lparr>cw_subs := S\<rparr>)) \<and> sc_address sc = at_address (cw_attempts (c\<lparr>cw_subs := S\<rparr>) ! i) \<and> sc_wf sc"
    using client_wfD(4-6) [OF assms(1)] by simp
qed

lemma end_subscription_sel [simp]:
  "cw_scenes (end_subscription r c) = cw_scenes c" "cw_attempts (end_subscription r c) = cw_attempts c"
  "cw_world (end_subscription r c) = cw_world c" "cw_leaving (end_subscription r c) = cw_leaving c"
  "cw_doomed (end_subscription r c) = cw_doomed c" "cw_requests (end_subscription r c) = cw_requests c"
  "length (cw_subs (end_subscription r c)) = length (cw_subs c)"
  "scene_of (end_subscription r c) = scene_of c" "stage_of (end_subscription r c) = stage_of c" "uri_of (end_subscription r c) = uri_of c"
  by (cases r; simp add: end_subscription_def)+

lemma end_subscription_nth:
  "s < length (cw_subs c) \<Longrightarrow> cw_subs (end_subscription r c) ! s =
     (fst (cw_subs c ! s), fst (snd (cw_subs c ! s)), snd (snd (cw_subs c ! s)) \<and> r \<noteq> Some s)"
  by (cases r; cases "r = Some s") (auto simp: end_subscription_def nth_list_update_neq split: prod.splits)

lemma end_subscription_wf: 
  assumes "client_wf X c"
  shows "client_wf X (end_subscription r c)"
proof -
  have e: "end_subscription r c = c\<lparr>cw_subs := cw_subs (end_subscription r c)\<rparr>" by (cases r) (simp_all add: end_subscription_def)
  have "client_wf X (c\<lparr>cw_subs := cw_subs (end_subscription r c)\<rparr>)"
  proof (rule client_wfI)
    fix u en assume "cw_scenes (c\<lparr>cw_subs := cw_subs (end_subscription r c)\<rparr>) u = Some en"
    then have "entry_ok c u en" using client_wfD(1) [OF assms] by simp
    then show "entry_ok (c\<lparr>cw_subs := cw_subs (end_subscription r c)\<rparr>) u en" by (simp add: entry_ok_def end_subscription_nth)
  next
    fix s i u assume "s < length (cw_subs (c\<lparr>cw_subs := cw_subs (end_subscription r c)\<rparr>))"
      "cw_subs (c\<lparr>cw_subs := cw_subs (end_subscription r c)\<rparr>) ! s = (i, u, True)"
    then have "s < length (cw_subs c)" "cw_subs c ! s = (i, u, True)"
      using end_subscription_nth [of s c r] by (simp_all, cases "cw_subs c ! s", auto)
    then have "sub_ok X c s i u" using client_wfD(3) [OF assms] by blast
    then show "sub_ok X (c\<lparr>cw_subs := cw_subs (end_subscription r c)\<rparr>) s i u" by (simp add: sub_ok_def)
  qed (use client_wfD(2,4-6) [OF assms] in auto)
  then show ?thesis using e by simp
qed

lemma erase_entry_sel [simp]:
  "cw_attempts (erase_entry u c) = cw_attempts c" "cw_world (erase_entry u c) = cw_world c"
  "cw_leaving (erase_entry u c) = cw_leaving c" "cw_doomed (erase_entry u c) = cw_doomed c"
  "cw_requests (erase_entry u c) = cw_requests c" "cw_scenes (erase_entry u c) = (cw_scenes c)(u := None)"
  "length (cw_subs (erase_entry u c)) = length (cw_subs c)"
  "scene_of (erase_entry u c) = scene_of c" "stage_of (erase_entry u c) = stage_of c" "uri_of (erase_entry u c) = uri_of c"
  by (cases "cw_scenes c u"; simp add: erase_entry_def fun_upd_idem)+

lemma erase_entry_nth:
  "s < length (cw_subs c) \<Longrightarrow> cw_subs (erase_entry u c) ! s =
     (fst (cw_subs c ! s), fst (snd (cw_subs c ! s)),
      snd (snd (cw_subs c ! s)) \<and> (case cw_scenes c u of None \<Rightarrow> True | Some e \<Rightarrow> ce_subscription e \<noteq> Some s))"
  by (cases "cw_scenes c u") (simp_all add: erase_entry_def end_subscription_nth)

text \<open>The attempt of the erased entry is over, or ends here.\<close>

lemma erase_wf:
  assumes "client_wf X c" "cw_scenes c u = Some e"
    and "c' = erase_entry u c \<and> over (stage_of c (ce_task e)) \<or>
      c' = set_stage (ce_task e) (Failed_for x) (erase_entry u c) \<and> \<not> over (stage_of c (ce_task e))"
  shows "client_wf X c'"
proof (rule client_wfI)
  let ?a = "ce_task e"
  have e: "?a < length (cw_attempts c)" "uri_of c ?a = u" using client_wfD(1) [OF assms(1,2)] by (simp_all add: entry_ok_def)
  have sel: "cw_scenes c' = (cw_scenes c)(u := None)" "cw_subs c' = cw_subs (erase_entry u c)"
    "length (cw_attempts c') = length (cw_attempts c)" "scene_of c' = scene_of c" "\<And>b. uri_of c' b = uri_of c b"
    "\<And>b. at_address (cw_attempts c' ! b) = at_address (cw_attempts c ! b)"
    "\<And>b. b \<noteq> ?a \<Longrightarrow> stage_of c' b = stage_of c b" "over (stage_of c' ?a)"
    "stage_of c ?a = Finished \<Longrightarrow> stage_of c' ?a = Finished"
    using assms(3) e(1) by (auto simp: set_stage_at)
  show "entry_ok c' v en" if v: "cw_scenes c' v = Some en" for v en
  proof -
    have ne: "v \<noteq> u" "cw_scenes c v = Some en" using v by (auto simp: sel split: if_splits)
    then have ok: "entry_ok c v en" using client_wfD(1) [OF assms(1)] by blast
    then have "ce_task en \<noteq> ?a" using ne e(2) by (auto simp: entry_ok_def)
    then show ?thesis using ok by (simp add: entry_ok_def sel erase_entry_nth)
  qed
  show "\<exists>e'. cw_scenes c' (uri_of c' a) = Some e' \<and> ce_task e' = a \<and> ce_subscription e' = None"
    if a: "a < length (cw_attempts c')" "\<not> over (stage_of c' a)" for a
  proof -
    have "a \<noteq> ?a" using a sel(8) by blast
    moreover from this obtain e' where e': "cw_scenes c (uri_of c a) = Some e'" "ce_task e' = a" "ce_subscription e' = None"
      using client_wfD(2) [OF assms(1)] a sel by auto
    ultimately have "uri_of c a \<noteq> u" using assms(2) by auto
    then show ?thesis using e' by (simp add: sel)
  qed
  show "sub_ok X c' s i v" if s: "s < length (cw_subs c')" "cw_subs c' ! s = (i, v, True)" for s i v
  proof -
    have sc: "s < length (cw_subs c)" "cw_subs c ! s = (i, v, True)" "ce_subscription e \<noteq> Some s"
      using s assms(2) erase_entry_nth [of s c u] by (auto simp: sel) (cases "cw_subs c ! s", auto)
    then have ok: "sub_ok X c s i v" using client_wfD(3) [OF assms(1)] by blast
    then have "v \<noteq> u" using assms(2) sc(3) by (auto simp: sub_ok_def)
    moreover have "stage_of c' i = Finished" using ok sel(7,9) by (cases "i = ?a") (auto simp: sub_ok_def)
    ultimately show ?thesis using ok by (simp add: sub_ok_def sel)
  qed
  show "i < length (cw_attempts c') \<and> sc_address sc = at_address (cw_attempts c' ! i) \<and> sc_wf sc"
    if "scene_of c' i = Some sc" for i sc
    using client_wfD(4-6) [OF assms(1)] that by (simp add: sel)
qed

section \<open>States of scenes\<close>

lemma state_callback_wf:
  assumes "client_wf X c" "s < length (cw_subs c)"
  shows "client_wf X (state_callback i k s c)" "length (cw_subs (state_callback i k s c)) = length (cw_subs c)"
    "scene_of (state_callback i k s c) = scene_of c" "cw_attempts (state_callback i k s c) = cw_attempts c"
proof -
  obtain j u live where s: "cw_subs c ! s = (j, u, live)" by (metis prod_cases3)
  show "client_wf X (state_callback i k s c)"
  proof (cases "live \<and> j = i \<and> (k = Disconnecting \<or> k = Disconnected)")
    case True
    then have "sub_ok X c s i u" using client_wfD(3) [OF assms, of i u] s by simp
    then obtain e where e: "cw_scenes c u = Some e" "ce_task e = i" "stage_of c i = Finished" by (auto simp: sub_ok_def)
    then have "client_wf X (erase_entry u c)" using erase_wf [OF assms(1) e(1)] by simp
    then show ?thesis using True by (simp add: state_callback_def s)
  qed (use assms in \<open>auto simp: state_callback_def s\<close>)
  show "length (cw_subs (state_callback i k s c)) = length (cw_subs c)"
    "scene_of (state_callback i k s c) = scene_of c" "cw_attempts (state_callback i k s c) = cw_attempts c"
    by (simp_all add: state_callback_def s)
qed

lemma state_callbacks_wf:
  assumes "client_wf X c" "\<forall>s \<in> set ss. s < length (cw_subs c)"
  shows "client_wf X (fold (state_callback i k) ss c)"
    "scene_of (fold (state_callback i k) ss c) = scene_of c" "cw_attempts (fold (state_callback i k) ss c) = cw_attempts c"
  using assms by (induction ss arbitrary: c) (simp_all add: state_callback_wf)

lemma publish_state_wf:
  assumes "client_wf X c" "X \<subseteq> {i}" "X \<noteq> {} \<Longrightarrow> cs_state s = Disconnected"
  shows "client_wf {} (publish_state i c s)"
    "scene_of (publish_state i c s) = scene_of c" "cw_attempts (publish_state i c s) = cw_attempts c"
proof -
  let ?c1 = "fold (state_callback i (cs_state s)) [0..<length (cw_subs c)] c"
  have c1: "client_wf X ?c1" "scene_of ?c1 = scene_of c" "cw_attempts ?c1 = cw_attempts c"
    using state_callbacks_wf [OF assms(1), of "[0..<length (cw_subs c)]"] by simp_all
  let ?S = "map (\<lambda>(j, u, live). (j, u, live \<and> j \<noteq> i)) (cw_subs ?c1)"
  have "client_wf (X - {i}) (?c1\<lparr>cw_subs := ?S\<rparr>)"
    by (rule client_wf_subs [OF c1(1)]) (use assms(2) in \<open>auto split: prod.splits\<close>)
  moreover have "X - {i} = {}" using assms(2) by blast
  ultimately show "client_wf {} (publish_state i c s)"
    using c1(1) assms(3) by (auto simp: publish_state_def Let_def)
  show "scene_of (publish_state i c s) = scene_of c" "cw_attempts (publish_state i c s) = cw_attempts c"
  proof -
    have "publish_state i c s = ?c1 \<or> publish_state i c s = ?c1\<lparr>cw_subs := ?S\<rparr>"
      unfolding publish_state_def Let_def by meson
    then show "scene_of (publish_state i c s) = scene_of c" "cw_attempts (publish_state i c s) = cw_attempts c"
      using c1(2,3) by auto
  qed
qed

text \<open>A scene publishes at most one state at a time, and completes with the last one.\<close>

definition moved :: "scene \<Rightarrow> scene \<Rightarrow> bool" where
  "moved sc sc' \<longleftrightarrow> sc_address sc' = sc_address sc \<and> sc_wf sc' \<and>
     (sc_published sc' = sc_published sc \<and> sc_completed sc' = sc_completed sc \<or>
      (\<exists>s. sc_published sc' = sc_published sc @ [s] \<and> \<not> sc_completed sc \<and> (sc_completed sc' \<longrightarrow> cs_state s = Disconnected)))"

lemma put_scene_wf:
  assumes "client_wf {} c" "scene_of c i = Some sc" "moved sc sc'"
  shows "client_wf (if sc_completed sc' then {i} else {}) (put_scene i sc' c)"
proof (rule client_wfI)
  fix u e assume "cw_scenes (put_scene i sc' c) u = Some e"
  then show "entry_ok (put_scene i sc' c) u e" using client_wfD(1) [OF assms(1)] by (simp add: entry_ok_def)
next
  fix s j u assume "s < length (cw_subs (put_scene i sc' c))" "cw_subs (put_scene i sc' c) ! s = (j, u, True)"
  then have "sub_ok {} c s j u" using client_wfD(3) [OF assms(1)] by simp
  then show "sub_ok (if sc_completed sc' then {i} else {}) (put_scene i sc' c) s j u" by (auto simp: sub_ok_def)
next
  fix j sc2 assume "scene_of (put_scene i sc' c) j = Some sc2"
  then show "j < length (cw_attempts (put_scene i sc' c)) \<and> sc_address sc2 = at_address (cw_attempts (put_scene i sc' c) ! j) \<and> sc_wf sc2"
    using client_wfD(4-6) [OF assms(1)] assms(2,3) by (cases "j = i") (auto simp: moved_def)
qed (use client_wfD(2) [OF assms(1)] in simp)

lemma scene_changed_wf:
  assumes "client_wf {} c" "scene_of c i = Some sc" "moved sc sc'"
  shows "client_wf {} (scene_changed i sc' c)" "cw_attempts (scene_changed i sc' c) = cw_attempts c"
    "scene_of (scene_changed i sc' c) = scene_of (put_scene i sc' c)"
proof -
  note put = put_scene_wf [OF assms]
  have "client_wf {} (scene_changed i sc' c) \<and> cw_attempts (scene_changed i sc' c) = cw_attempts c \<and>
      scene_of (scene_changed i sc' c) = scene_of (put_scene i sc' c)"
  proof (cases "sc_published sc' = sc_published sc \<and> sc_completed sc' = sc_completed sc")
    case True
    have "client_wf {} (put_scene i sc' c)"
    proof (rule client_wf_mono [OF assms(1)])
      fix j sc2 assume "scene_of (put_scene i sc' c) j = Some sc2"
      then show "j < length (cw_attempts c) \<and> sc_address sc2 = at_address (cw_attempts c ! j) \<and> sc_wf sc2"
        using client_wfD(4-6) [OF assms(1)] assms(2,3) by (cases "j = i") (auto simp: moved_def)
    qed (use True assms(2) in \<open>auto split: if_splits\<close>)
    then show ?thesis using True assms(2) by (simp add: scene_changed_def)
  next
    case False
    then obtain s where s: "sc_published sc' = sc_published sc @ [s]" "sc_completed sc' \<longrightarrow> cs_state s = Disconnected"
      using assms(3) by (auto simp: moved_def)
    then have e: "scene_changed i sc' c = publish_state i (put_scene i sc' c) s" using assms(2) by (simp add: scene_changed_def)
    show ?thesis unfolding e using publish_state_wf [OF put] s(2) by (auto split: if_splits)
  qed
  then show "client_wf {} (scene_changed i sc' c)" "cw_attempts (scene_changed i sc' c) = cw_attempts c"
    "scene_of (scene_changed i sc' c) = scene_of (put_scene i sc' c)" by blast+
qed

lemma quiet_moved: "moved sc (post_job j sc)" if "sc_wf sc"
  using that by (simp add: moved_def) (simp add: post_job_def)

lemma setConnectionStateInternal_moved:
  "sc_wf sc \<Longrightarrow> moved sc (setConnectionStateInternal s sc)"
  using sc_wf_set [of sc s] by (auto simp: moved_def setConnectionStateInternal_def)

lemma moved_post: "moved sc sc' \<Longrightarrow> moved sc (post_job j sc')"
  by (simp add: moved_def) (simp add: post_job_def)

lemma run_next_moved:
  assumes "sc_wf sc" "run_next conns order junk sc = Some (es, sc')"
  shows "moved sc sc'"
proof (cases "sc_jobs sc")
  case Nil
  then show ?thesis using assms by (simp add: run_next_def moved_def)
next
  case (Cons j js)
  let ?sc = "sc\<lparr>sc_jobs := js\<rparr>"
  have m: "moved sc t" if "moved ?sc t" for t using that by (simp add: moved_def)
  have wf: "sc_wf ?sc" using assms(1) by simp
  have r: "run_job conns order junk j ?sc = Some (es, sc')" using assms(2) Cons by (simp add: run_next_def)
  show ?thesis
  proof (cases j)
    case (SetState cs)
    show ?thesis
    proof (cases cs)
      case Nil
      then show ?thesis using r SetState wf by (intro m) (simp add: run_job_def moved_def)
    next
      case (Cons s rest)
      then show ?thesis
        using r SetState setConnectionStateInternal_moved [OF wf, of s]
        by (intro m) (auto simp: run_job_def Let_def moved_post split: if_splits)
    qed
  qed (use r wf in \<open>auto simp: run_job_def moved_def split: option.splits\<close>)
qed

section \<open>Every step keeps the map sound\<close>

lemma scenes_okD: "client_wf X c \<Longrightarrow> scene_of c i = Some sc \<Longrightarrow>
    i < length (cw_attempts c) \<and> sc_address sc = at_address (cw_attempts c ! i) \<and> sc_wf sc"
  using client_wfD(4-6) by blast

text \<open>An unfinished attempt goes on, and nothing else changes but its scene.\<close>

lemma attempt_step_wf:
  assumes "client_wf {} c" "a < length (cw_attempts c)" "\<not> over (stage_of c a)" "\<not> over (stage_of c' a)"
    and "cw_scenes c' = cw_scenes c" "cw_subs c' = cw_subs c" "length (cw_attempts c') = length (cw_attempts c)"
    and "\<And>b. at_address (cw_attempts c' ! b) = at_address (cw_attempts c ! b)"
    and "\<And>b. b \<noteq> a \<Longrightarrow> stage_of c' b = stage_of c b"
    and "\<And>b. b \<noteq> a \<Longrightarrow> scene_of c' b = scene_of c b"
    and "\<And>sc. scene_of c' a = Some sc \<Longrightarrow> sc_address sc = at_address (cw_attempts c ! a) \<and> sc_wf sc"
    and "scene_of c a \<noteq> None \<Longrightarrow> scene_of c' a \<noteq> None"
  shows "client_wf {} c'"
proof (rule client_wf_mono [OF assms(1,5,6,7)])
  fix b show "at_address (cw_attempts c' ! b) = at_address (cw_attempts c ! b)" by (rule assms(8))
  show "stage_of c' b = stage_of c b \<or> \<not> over (stage_of c b) \<and> \<not> over (stage_of c' b)"
    using assms(3,4,9) by (cases "b = a") auto
next
  fix i sc assume "scene_of c' i = Some sc"
  then show "i < length (cw_attempts c) \<and> sc_address sc = at_address (cw_attempts c ! i) \<and> sc_wf sc"
    using assms(2,10,11) scenes_okD [OF assms(1)] by (cases "i = a") auto
next
  fix i sc assume "scene_of c i = Some sc" "\<not> sc_completed sc" "stage_of c i = Finished"
  then show "\<exists>sc'. scene_of c' i = Some sc' \<and> \<not> sc_completed sc'"
    using assms(3,10) by (cases "i = a") auto
next
  fix i assume "scene_of c i \<noteq> None"
  then show "scene_of c' i \<noteq> None" using assms(10,12) by (cases "i = a") auto
qed

lemma set_stage_wf:
  assumes "client_wf {} c" "a < length (cw_attempts c)" "\<not> over (stage_of c a)" "\<not> over st"
  shows "client_wf {} (set_stage a st c)"
  using assms scenes_okD [OF assms(1)]
  by (intro attempt_step_wf [OF assms(1-3)]) (auto simp: set_stage_at)

lemma request_wf [simp]: "client_wf X (request q c) = client_wf X c"
  by (simp add: client_wf_def entries_ok_def entry_ok_def attempts_ok_def subs_ok_def sub_ok_def scenes_ok_def)

lemma upd_frame_wf [simp]:
  "client_wf X (c\<lparr>cw_leaving := L\<rparr>) = client_wf X c" "client_wf X (c\<lparr>cw_doomed := D\<rparr>) = client_wf X c"
  by (simp_all add: client_wf_def entries_ok_def entry_ok_def attempts_ok_def subs_ok_def sub_ok_def scenes_ok_def)

lemma world_wf:
  assumes "client_wf X c" "sw_scenes w = sw_scenes (cw_world c)"
  shows "client_wf X (c\<lparr>cw_world := w\<rparr>)"
proof -
  have "scene_of (c\<lparr>cw_world := w\<rparr>) = scene_of c" "stage_of (c\<lparr>cw_world := w\<rparr>) = stage_of c" "uri_of (c\<lparr>cw_world := w\<rparr>) = uri_of c"
    using assms(2) by (simp_all add: scene_of_def stage_of_def uri_of_def fun_eq_iff)
  then show ?thesis using assms(1)
    by (simp add: client_wf_def entries_ok_def entry_ok_def attempts_ok_def subs_ok_def sub_ok_def scenes_ok_def)
qed

lemma post_job_wf:
  assumes "client_wf {} c" "scene_of c i = Some sc"
  shows "client_wf {} (put_scene i (post_job j sc) c)"
proof -
  have "moved sc (post_job j sc)" using quiet_moved scenes_okD [OF assms] by blast
  from scene_changed_wf(1) [OF assms this] show ?thesis using assms(2) by (simp add: scene_changed_def)
qed

lemma connect_wf:
  assumes "client_wf {} c"
  shows "client_wf {} (snd (connectToScene address isPublic token routes c))"
proof (cases "cw_scenes c (toUri address)")
  case None
  let ?n = "length (cw_attempts c)"
  let ?at = "\<lparr>at_address = address, at_routes = routes, at_token = token,
      at_stage = (if isPublic then AwaitEndpoint else AwaitConnection)\<rparr>"
  let ?c = "c\<lparr>cw_attempts := cw_attempts c @ [?at],
      cw_scenes := (cw_scenes c)(toUri address \<mapsto> \<lparr>ce_task = ?n, ce_isPublic = isPublic, ce_subscription = None\<rparr>)\<rparr>"
  have old: "stage_of ?c a = stage_of c a" "uri_of ?c a = uri_of c a" if "a < ?n" for a
    using that by (simp_all add: stage_of_def uri_of_def nth_append)
  have new: "uri_of ?c ?n = toUri address" "\<not> over (stage_of ?c ?n)" "\<not> failed_stage (stage_of ?c ?n)"
    by (simp_all add: stage_of_def uri_of_def at_uri_def)
  have sc: "scene_of ?c = scene_of c" by (simp add: scene_of_def fun_eq_iff)
  have "client_wf {} ?c"
  proof (rule client_wfI)
    fix u e assume e: "cw_scenes ?c u = Some e"
    show "entry_ok ?c u e"
    proof (cases "u = toUri address")
      case True
      then have "e = \<lparr>ce_task = ?n, ce_isPublic = isPublic, ce_subscription = None\<rparr>" using e by simp
      then show ?thesis using new True by (simp add: entry_ok_def)
    next
      case False
      then have "entry_ok c u e" using e client_wfD(1) [OF assms] by simp
      then show ?thesis using old by (simp add: entry_ok_def)
    qed
  next
    fix a assume a: "a < length (cw_attempts ?c)" "\<not> over (stage_of ?c a)"
    show "\<exists>e. cw_scenes ?c (uri_of ?c a) = Some e \<and> ce_task e = a \<and> ce_subscription e = None"
    proof (cases "a = ?n")
      case True
      then show ?thesis using new by simp
    next
      case False
      then have "a < ?n" using a(1) by simp
      moreover from this obtain e where "cw_scenes c (uri_of c a) = Some e" "ce_task e = a" "ce_subscription e = None"
        using client_wfD(2) [OF assms] a(2) old by auto
      ultimately show ?thesis using None old by (auto simp del: fun_upd_apply simp: fun_upd_apply)
    qed
  next
    fix s i u assume "s < length (cw_subs ?c)" "cw_subs ?c ! s = (i, u, True)"
    then have ok: "sub_ok {} c s i u" using client_wfD(3) [OF assms] by simp
    then have "i < ?n" "u \<noteq> toUri address" using None scenes_okD [OF assms] by (auto simp: sub_ok_def)
    then show "sub_ok {} ?c s i u" using ok old sc by (simp add: sub_ok_def)
  next
    fix i sc2 assume "scene_of ?c i = Some sc2"
    then have "i < ?n \<and> sc_address sc2 = at_address (cw_attempts c ! i) \<and> sc_wf sc2" using scenes_okD [OF assms] sc by simp
    then show "i < length (cw_attempts ?c) \<and> sc_address sc2 = at_address (cw_attempts ?c ! i) \<and> sc_wf sc2"
      by (simp add: nth_append)
  qed
  then show ?thesis using None by (simp add: connectToScene_def Let_def)
qed (use assms in \<open>simp add: connectToScene_def\<close>)

lemma disconnect_scene_wf:
  assumes "client_wf {} c" "own_entry i c"
  shows "client_wf {} (snd (disconnect_scene i byServer reason c))" "own_entry i (snd (disconnect_scene i byServer reason c))"
proof -
  let ?u = "uri_of c i"
  have "client_wf {} (snd (disconnect_scene i byServer reason c)) \<and> own_entry i (snd (disconnect_scene i byServer reason c))"
  proof (cases "\<exists>sc h. scene_of c i = Some sc \<and> cs_state (sc_state sc) = Connected \<and> sc_host sc = Some h")
    case True
    then obtain sc h where sc: "scene_of c i = Some sc" "cs_state (sc_state sc) = Connected" "sc_host sc = Some h" by blast
    have u: "toUri (sc_address sc) = ?u" using scenes_okD [OF assms(1) sc(1)] by (simp add: uri_of_def at_uri_def)
    have w: "client_wf {} (erase_entry ?u c)"
    proof (cases "cw_scenes c ?u")
      case None
      then show ?thesis using assms(1) by (simp add: erase_entry_def)
    next
      case (Some e)
      then have "over (stage_of c (ce_task e))" using assms(2) by (simp add: own_entry_def)
      then show ?thesis using erase_wf [OF assms(1) Some] by blast
    qed
    then show ?thesis
      using sc u assms(2)
        post_job_wf [of "(erase_entry ?u c)\<lparr>cw_leaving := cw_leaving c @ [(i, AwaitDisconnecting (sp_handle h) byServer reason)]\<rparr>" i sc]
      by (simp add: disconnect_scene_def Let_def scene_setConnectionState_def own_entry_def)
  next
    case False
    then have "snd (disconnect_scene i byServer reason c) = c"
      by (auto simp: disconnect_scene_def split: option.splits conn_kind.splits)
    then show ?thesis using assms by simp
  qed
  then show "client_wf {} (snd (disconnect_scene i byServer reason c))" "own_entry i (snd (disconnect_scene i byServer reason c))"
    by blast+
qed

lemma disconnects_wf:
  assumes "client_wf {} c" "own_entry i c"
  shows "client_wf {} (fold (\<lambda>(_, byServer, reason) c. snd (disconnect_scene i byServer reason c)) ds c)"
  using assms by (induction ds arbitrary: c) (auto simp: disconnect_scene_wf split: prod.splits)

lemma disconnect_id_wf:
  assumes "client_wf {} c"
  shows "client_wf {} (disconnect_id u byServer reason c)"
proof (cases "cw_scenes c u")
  case (Some e)
  have "own_entry (ce_task e) c" if "stage_of c (ce_task e) = Finished"
    using client_wfD(1) [OF assms Some] Some that by (auto simp: own_entry_def entry_ok_def)
  then show ?thesis
    using assms Some disconnect_scene_wf(1) [OF assms] by (simp add: disconnect_id_def stage_of_def)
qed (use assms in \<open>simp add: disconnect_id_def\<close>)

lemma subscribe_wf:
  assumes "client_wf {} c" "a < length (cw_attempts c)" "\<not> over (stage_of c a)"
  shows "client_wf {} (set_stage a Finished (subscribe_entry a (uri_of c a) c))"
    "own_entry a (set_stage a Finished (subscribe_entry a (uri_of c a) c))"
proof -
  let ?u = "uri_of c a"
  obtain e where e: "cw_scenes c ?u = Some e" "ce_task e = a" "ce_subscription e = None"
    using client_wfD(2) [OF assms] by blast
  let ?live = "case scene_of c a of None \<Rightarrow> False | Some sc \<Rightarrow> \<not> sc_completed sc"
  let ?n = "length (cw_subs c)"
  define c' where "c' = set_stage a Finished (subscribe_entry a ?u c)"
  have sel: "cw_subs c' = cw_subs c @ [(a, ?u, ?live)]" "cw_scenes c' = (cw_scenes c)(?u \<mapsto> e\<lparr>ce_subscription := Some ?n\<rparr>)"
    "length (cw_attempts c') = length (cw_attempts c)" "scene_of c' = scene_of c" "\<And>b. uri_of c' b = uri_of c b"
    "\<And>b. at_address (cw_attempts c' ! b) = at_address (cw_attempts c ! b)"
    "\<And>b. b \<noteq> a \<Longrightarrow> stage_of c' b = stage_of c b" "stage_of c' a = Finished"
    using e(1) assms(2) by (auto simp: c'_def subscribe_entry_def set_stage_at)
  have "own_entry a c'" using e(2) sel by (simp add: own_entry_def)
  then show "own_entry a (set_stage a Finished (subscribe_entry a ?u c))" by (simp only: c'_def)
  have "client_wf {} c'"
  proof (rule client_wfI)
    fix v en assume v: "cw_scenes c' v = Some en"
    show "entry_ok c' v en"
    proof (cases "v = ?u")
      case True
      then have "en = e\<lparr>ce_subscription := Some ?n\<rparr>" using v sel(2) by simp
      then show ?thesis using e(2) assms(2) True by (simp add: entry_ok_def sel)
    next
      case False
      then have ok: "entry_ok c v en" using v sel(2) client_wfD(1) [OF assms(1)] by simp
      then have "ce_task en \<noteq> a" using False by (auto simp: entry_ok_def)
      then show ?thesis using ok by (auto simp: entry_ok_def sel nth_append)
    qed
  next
    fix b assume b: "b < length (cw_attempts c')" "\<not> over (stage_of c' b)"
    then have ne: "b \<noteq> a" using sel(8) by auto
    have "b < length (cw_attempts c)" "\<not> over (stage_of c b)"
      using b(1) b(2) unfolding sel(3) sel(7) [OF ne] by blast+
    from client_wfD(2) [OF assms(1) this]
    obtain e' where e': "cw_scenes c (uri_of c b) = Some e'" "ce_task e' = b" "ce_subscription e' = None" by blast
    then have "uri_of c b \<noteq> ?u" using e ne by (metis option.inject)
    then show "\<exists>e. cw_scenes c' (uri_of c' b) = Some e \<and> ce_task e = b \<and> ce_subscription e = None" using e' by (simp add: sel)
  next
    fix s i v assume s: "s < length (cw_subs c')" "cw_subs c' ! s = (i, v, True)"
    show "sub_ok {} c' s i v"
    proof (cases "s = ?n")
      case True
      then have "i = a" "v = ?u" "?live" using s(2) unfolding sel(1) True by auto
      then show ?thesis using e(2) sel True by (auto simp: sub_ok_def split: option.splits)
    next
      case False
      then have "s < ?n" "cw_subs c ! s = (i, v, True)" using s sel(1) by (simp_all add: nth_append)
      then have ok: "sub_ok {} c s i v" using client_wfD(3) [OF assms(1)] by blast
      then have "v \<noteq> ?u" "i \<noteq> a" using e assms(3) by (auto simp: sub_ok_def)
      then show ?thesis using ok sel by (simp add: sub_ok_def)
    qed
  next
    fix i sc assume "scene_of c' i = Some sc"
    then show "i < length (cw_attempts c') \<and> sc_address sc = at_address (cw_attempts c' ! i) \<and> sc_wf sc"
      using scenes_okD [OF assms(1)] sel by simp
  qed
then show "client_wf {} (set_stage a Finished (subscribe_entry a ?u c))" by (simp only: c'_def)
qed

lemma finish_wf:
  assumes "client_wf {} c" "a < length (cw_attempts c)"
  shows "client_wf {} (finish_attempt a c)"
proof (cases "stage_of c a")
  case Succeeded
  then have "\<not> over (stage_of c a)" by simp
  note s = subscribe_wf [OF assms this]
  have "finish_attempt a c = fold (\<lambda>(a', byServer, reason) c. snd (disconnect_scene a byServer reason c))
      (filter (\<lambda>d. fst d = a) (cw_doomed c)) (set_stage a Finished (subscribe_entry a (uri_of c a) c))"
    using Succeeded by (simp add: finish_attempt_def stage_of_def uri_of_def)
  then show ?thesis using disconnects_wf [OF s] by simp
next
  case (Failing x)
  then have "\<not> over (stage_of c a)" by simp
  from client_wfD(2) [OF assms this] obtain e where e: "cw_scenes c (uri_of c a) = Some e" "ce_task e = a" by blast
  have "finish_attempt a c = set_stage (ce_task e) (Failed_for x) (erase_entry (uri_of c a) c)"
    using Failing e(2) by (simp add: finish_attempt_def stage_of_def uri_of_def)
  then show ?thesis using erase_wf [OF assms(1) e(1)] Failing e(2) by simp
qed (use assms(1) in \<open>simp_all add: finish_attempt_def stage_of_def\<close>)

lemma initializer_frame:
  "initializer_routes rs sc = (r, sc') \<Longrightarrow> sc_state sc' = sc_state sc \<and> sc_completed sc' = sc_completed sc \<and>
     sc_published sc' = sc_published sc \<and> sc_address sc' = sc_address sc \<and> sc_peer sc' = sc_peer sc \<and>
     sc_jobs sc' = sc_jobs sc \<and> sc_host sc' = sc_host sc \<and> sc_client sc' = sc_client sc \<and>
     sc_remoteRoutes sc' = sc_remoteRoutes sc"
proof (induction rs sc arbitrary: r sc' rule: initializer_routes.induct)
  case (2 n h f meta rs sc)
  obtain r1 sc1 where a: "addRoute n h f meta sc = (r1, sc1)" by (cases "addRoute n h f meta sc")
  then have f: "sc_state sc1 = sc_state sc \<and> sc_completed sc1 = sc_completed sc \<and>
     sc_published sc1 = sc_published sc \<and> sc_address sc1 = sc_address sc \<and> sc_peer sc1 = sc_peer sc \<and>
     sc_jobs sc1 = sc_jobs sc \<and> sc_host sc1 = sc_host sc \<and> sc_client sc1 = sc_client sc \<and>
     sc_remoteRoutes sc1 = sc_remoteRoutes sc"
    by (auto simp: addRoute_def onMessage_def subscribe_route_def split: if_splits)
  show ?case
  proof (cases r1)
    case (Inr u)
    then have "initializer_routes rs sc1 = (r, sc')" using 2(2) a by simp
    from 2(1) [OF a [symmetric] Inr this] f show ?thesis by simp
  qed (use 2(2) a f in simp)
qed simp

lemma completion_address [simp]: "sc_address (completeConnectionInitialization order cr sc) = sc_address sc"
  "sc_jobs (completeConnectionInitialization order cr sc) = sc_jobs sc"
  "sc_peer (completeConnectionInitialization order cr sc) = sc_peer sc"
  "sc_host (completeConnectionInitialization order cr sc) = Some (ScenePeer (sc_peer sc) (cr_sceneHandle cr) (sc_remoteRoutes sc))"
proof -
  have "sc_address (fold (map_route cr) order t) = sc_address t \<and> sc_jobs (fold (map_route cr) order t) = sc_jobs t \<and>
      sc_peer (fold (map_route cr) order t) = sc_peer t \<and> sc_host (fold (map_route cr) order t) = sc_host t" for t
    by (induction order arbitrary: t) (simp_all add: map_route_def split: option.splits)
  then show "sc_address (completeConnectionInitialization order cr sc) = sc_address sc"
    "sc_jobs (completeConnectionInitialization order cr sc) = sc_jobs sc"
    "sc_peer (completeConnectionInitialization order cr sc) = sc_peer sc"
    "sc_host (completeConnectionInitialization order cr sc) = Some (ScenePeer (sc_peer sc) (cr_sceneHandle cr) (sc_remoteRoutes sc))"
    by (simp_all add: completeConnectionInitialization_def)
qed

lemma addScene_scenes: "addScene k i w = Some w' \<Longrightarrow> sw_scenes w' = sw_scenes w"
  by (auto simp: addScene_def Let_def split: option.splits if_splits)

lemma removeScene_scenes: "sw_scenes (removeScene k h w) = sw_scenes w"
  by (simp add: removeScene_def Let_def)

lemma put_stage_wf:
  assumes "client_wf {} c" "a < length (cw_attempts c)" "\<not> over (stage_of c a)" "\<not> over st"
    and "sc_address sc = at_address (cw_attempts c ! a)" "sc_wf sc"
  shows "client_wf {} (set_stage a st (put_scene a sc c))"
  using assms(2-6) by (intro attempt_step_wf [OF assms(1-3)]) (auto simp: set_stage_at)

lemma put_scene_frame_wf:
  assumes "client_wf {} c" "a < length (cw_attempts c)" "\<not> over (stage_of c a)"
    and "sc_address sc = at_address (cw_attempts c ! a)" "sc_wf sc"
  shows "client_wf {} (put_scene a sc c)"
  using assms(2-5) by (intro attempt_step_wf [OF assms(1-3)]) auto

lemma on_endpoint_wf:
  assumes "client_wf {} c" "a < length (cw_attempts c)" "\<not> over (stage_of c a)"
  shows "client_wf {} (on_endpoint a r c)"
proof (cases r)
  case (Inr t)
  let ?c = "c\<lparr>cw_attempts := (cw_attempts c)[a := (cw_attempts c ! a)\<lparr>at_token := t, at_stage := AwaitConnection\<rparr>]\<rparr>"
  have "client_wf {} ?c"
  proof (rule attempt_step_wf [OF assms])
    show "\<not> over (stage_of ?c a)" using assms(2) by (simp add: stage_of_def)
    show "at_address (cw_attempts ?c ! b) = at_address (cw_attempts c ! b)" for b
      using assms(2) by (cases "b = a") simp_all
    show "scene_of ?c b = scene_of c b" for b by (simp add: scene_of_def)
    show "sc_address sc = at_address (cw_attempts c ! a) \<and> sc_wf sc" if "scene_of ?c a = Some sc" for sc
      using that scenes_okD [OF assms(1), of a sc] by (simp add: scene_of_def)
    show "scene_of ?c a \<noteq> None" if "scene_of c a \<noteq> None" using that by (simp add: scene_of_def)
  qed (simp_all add: stage_of_def)
  then show ?thesis by (simp add: Inr on_endpoint_def Let_def)
qed (use set_stage_wf [OF assms] in \<open>simp add: on_endpoint_def\<close>)

lemma serializer_wf: "client_wf {} c \<Longrightarrow> client_wf {} (set_serializer k v c)"
  unfolding set_serializer_def Let_def by (rule world_wf) simp_all

lemma set_serializer_sel [simp]:
  "cw_attempts (set_serializer k v c) = cw_attempts c" "scene_of (set_serializer k v c) = scene_of c"
  "stage_of (set_serializer k v c) = stage_of c" "uri_of (set_serializer k v c) = uri_of c"
  "cw_scenes (set_serializer k v c) = cw_scenes c" "cw_subs (set_serializer k v c) = cw_subs c"
  "cw_requests (set_serializer k v c) = cw_requests c" "cw_doomed (set_serializer k v c) = cw_doomed c"
  by (simp_all add: set_serializer_def Let_def scene_of_def stage_of_def uri_of_def fun_eq_iff)

lemma on_metadata_wf:
  assumes "client_wf {} c" "a < length (cw_attempts c)" "\<not> over (stage_of c a)"
  shows "client_wf {} (on_metadata a k infos order r c)"
proof (cases r)
  case (Inr u)
  let ?at = "cw_attempts c ! a"
  obtain q sc where q: "initializer_routes (at_routes ?at) (Scene_Impl k (at_address ?at) infos) = (q, sc)" by fastforce
  have fr: "sc_address sc = at_address ?at" "sc_state sc = conn_state Disconnected" "\<not> sc_completed sc" "sc_published sc = []"
    using initializer_frame [OF q] by (simp_all add: Scene_Impl_def)
  then have sc: "sc_address sc = at_address ?at" "sc_wf sc" "cs_state (sc_state sc) = Disconnected"
    by (simp_all add: sc_wf_def conn_state_def)
  note p = put_scene_frame_wf [OF assms sc(1,2)]
  have "client_wf {} (connect_scene a order (put_scene a sc c))"
    using put_stage_wf [OF p, of a _ "scene_setConnectionState (conn_state Connecting) True sc"] assms(2,3) sc
    by (simp add: connect_scene_def scene_setConnectionState_def post_job_def)
  then show ?thesis using q Inr put_stage_wf [OF assms _ sc(1,2)] by (cases q) (simp_all add: on_metadata_def Let_def)
qed (use set_stage_wf [OF assms] in \<open>simp add: on_metadata_def\<close>)

lemma on_connect_result_wf:
  assumes "client_wf {} c" "a < length (cw_attempts c)" "\<not> over (stage_of c a)" "on_connect_result a order r c = Some c'"
  shows "client_wf {} c'"
proof (cases r)
  case (Inl e)
  then have "c' = set_stage a (Failing e) c" using assms(4) by (simp add: on_connect_result_def)
  then show ?thesis using set_stage_wf [OF assms(1-3)] by simp
next
  case (Inr cr)
  then obtain sc where sc: "scene_of c a = Some sc" using assms(4) by (auto simp: on_connect_result_def split: option.splits)
  let ?sc = "completeConnectionInitialization order cr sc"
  let ?c1 = "put_scene a ?sc c"
  obtain w where w: "addScene (sc_peer sc) a (cw_world ?c1) = Some w"
    and c': "c' = set_stage a AwaitConnected (put_scene a (scene_setConnectionState (conn_state Connected) True ?sc) (?c1\<lparr>cw_world := w\<rparr>))"
  proof (cases "addScene (sc_peer sc) a (cw_world ?c1)")
    case None
    then show ?thesis using assms(4) Inr sc by (simp add: on_connect_result_def Let_def)
  next
    case (Some w)
    have "scene_of (?c1\<lparr>cw_world := w\<rparr>) a = Some ?sc" using addScene_scenes [OF Some] by (simp add: scene_of_def put_scene_def)
    then show ?thesis using assms(4) Inr sc Some that [of w] by (simp add: on_connect_result_def Let_def)
  qed
  have ok: "sc_address sc = at_address (cw_attempts c ! a)" "sc_wf sc" using scenes_okD [OF assms(1) sc] by simp_all
  have wf: "sc_wf ?sc" using ok(2) sc_wf_frame [of ?sc sc] by simp
  have "client_wf {} (?c1\<lparr>cw_world := w\<rparr>)"
    using world_wf [OF put_scene_frame_wf [OF assms(1-3), of ?sc] addScene_scenes [OF w]] ok wf by simp
  then show ?thesis
    unfolding c' using assms(2,3) ok wf
    by (intro put_stage_wf) (simp_all add: scene_setConnectionState_def post_job_def stage_of_def put_scene_def)
qed

lemma set_leaving_sel [simp]:
  "scene_of (set_leaving l x c) = scene_of c" "client_wf X (set_leaving l x c) = client_wf X c"
  by (simp_all add: set_leaving_def)

lemma post_disconnected_wf:
  assumes "client_wf {} c"
  shows "client_wf {} (post_disconnected i reason c)"
  using assms post_job_wf [OF assms]
  by (auto simp: post_disconnected_def scene_setConnectionState_def split: option.splits)

lemma on_disconnecting_wf:
  assumes "client_wf {} c"
  shows "client_wf {} (on_disconnecting l found c)"
  using assms world_wf [OF assms removeScene_scenes]
  by (auto simp: on_disconnecting_def Let_def post_disconnected_wf split: prod.splits leaving.splits option.splits)

lemma on_disconnect_reply_wf:
  assumes "client_wf {} c"
  shows "client_wf {} (on_disconnect_reply l c)"
  using assms by (auto simp: on_disconnect_reply_def post_disconnected_wf split: prod.splits leaving.splits)

lemma visit_entries_wf:
  assumes "client_wf {} c"
  shows "client_wf {} (visit_entries us c)"
proof -
  have "client_wf {} (fold (\<lambda>u c. case cw_scenes c u of None \<Rightarrow> c | Some e \<Rightarrow> end_subscription (ce_subscription e) c) us c)"
    using assms by (induction us arbitrary: c) (auto simp: end_subscription_wf split: option.splits)
  then show ?thesis by (simp add: visit_entries_def)
qed

lemma host_changed_wf:
  assumes "client_wf {} c"
  shows "client_wf {} (host_changed i s c)"
  using assms post_job_wf [OF assms]
  by (auto simp: host_changed_def host_state_changed_def Let_def split: option.splits)
    (simp add: put_scene_def scene_of_def fun_upd_idem)+

lemma frame_scene_wf:
  assumes "client_wf {} c" "scene_of c i = Some sc" "sc_state sc' = sc_state sc" "sc_completed sc' = sc_completed sc"
    "sc_published sc' = sc_published sc" "sc_address sc' = sc_address sc"
  shows "client_wf {} (put_scene i sc' c)"
proof -
  have "sc_wf sc'" using scenes_okD [OF assms(1,2)] sc_wf_frame [OF assms(3-5)] by simp
  then have "moved sc sc'" using assms(4-6) by (simp add: moved_def)
  from scene_changed_wf(1) [OF assms(1,2) this] show ?thesis using assms(2,5) by (simp add: scene_changed_def)
qed

lemma run_scene_job_wf:
  assumes "client_wf {} c" "run_scene_job conns order junk i c = Some c'"
  shows "client_wf {} c'"
proof (cases "scene_of c i")
  case (Some sc)
  then obtain es sc' where "run_next conns order junk sc = Some (es, sc')" "c' = scene_changed i sc' c"
    using assms(2) by (auto simp: run_scene_job_def)
  then show ?thesis using scene_changed_wf(1) [OF assms(1) Some run_next_moved] scenes_okD [OF assms(1) Some] by blast
qed (use assms in \<open>simp add: run_scene_job_def\<close>)

lemma client_step_wf: "client_step c c' \<Longrightarrow> client_wf {} c \<Longrightarrow> client_wf {} c'"
proof (induction rule: client_step.induct)
  case (infos a c k r)
  then have o: "\<not> over (stage_of c a)" by simp
  show ?case
  proof (cases r)
    case (Inr x)
    obtain v i where "x = (v, i)" by (cases x)
    then show ?thesis
      using Inr infos o set_stage_wf [OF serializer_wf [OF infos(3)], of a] by (simp add: on_infos_def)
  qed (use infos o set_stage_wf in \<open>simp add: on_infos_def\<close>)
next
  case (connecting a c rs)
  then show ?case using set_stage_wf [of c a AwaitResult] by (simp add: on_connecting_def split: option.splits)
next
  case (connection a c r)
  then show ?case using set_stage_wf [of c a] by (auto simp: on_connection_def split: sum.splits option.splits)
next
  case (cancel a c)
  then have "\<not> over (stage_of c a)" by (cases "stage_of c a") simp_all
  then show ?case using cancel set_stage_wf by (simp add: cancel_attempt_def)
next
  case (leave i c byServer reason)
  then show ?case by (intro disconnect_scene_wf)
next
  case (result a c order r c')
  then show ?case using on_connect_result_wf [of c a order r c'] by simp
next
  case (job conns order junk i c c')
  then show ?case using run_scene_job_wf by blast
qed (simp_all add: connect_wf on_endpoint_wf on_metadata_wf on_connected_def set_stage_wf finish_wf host_changed_wf disconnect_id_wf on_disconnecting_wf on_disconnect_reply_wf visit_entries_wf frame_scene_wf)

lemma client_wf_new: "client_wf {} (Client n)"
  by (rule client_wfI) (simp_all add: Client_def scene_of_def)

lemma client_reach_wf: "client_reach c \<Longrightarrow> client_wf {} c"
  by (induction rule: client_reach.induct) (blast intro: client_wf_new client_step_wf)+

section \<open>A connection that succeeds\<close>

text \<open>
  All that happens to an attempt for a public scene when every answer comes and the dispatcher
  runs; \<open>order\<close> are the names of the routes as the map gives them.
\<close>

definition connection_run ::
  "(nat \<Rightarrow> rnconn) \<Rightarrow> u16 \<Rightarrow> scene_address \<Rightarrow> (string \<times> nat \<times> MessageOriginFilter \<times> (string \<rightharpoonup> string)) list \<Rightarrow>
    string \<Rightarrow> nat \<Rightarrow> string \<Rightarrow> scene_infos \<Rightarrow> string list \<Rightarrow> connection_result \<Rightarrow> client \<Rightarrow> client option" where
  "connection_run conns junk address routes token k serializer infos order cr c =
     (case connectToScene address True '''' routes c of (a, c1) \<Rightarrow>
        (let c2 = on_infos a k (Inr (serializer, infos)) (on_connection a (Inr (Some k)) (on_endpoint a (Inr token) c1)) in
         case run_scene_job conns order junk a (on_metadata a k infos order (Inr ()) c2) of
           None \<Rightarrow> None
         | Some c3 \<Rightarrow>
             (case stage_of c3 a of
                AwaitConnecting rs \<Rightarrow>
                  (case on_connect_result a order (Inr cr) (on_connecting a rs c3) of
                     None \<Rightarrow> None
                   | Some c4 \<Rightarrow>
                       (case run_scene_job conns order junk a c4 of
                          None \<Rightarrow> None
                        | Some c5 \<Rightarrow> Some (finish_attempt a (on_connected a c5))))
              | _ \<Rightarrow> None)))"

text \<open>The attempt \<open>a\<close> of a state: its record, the scene it has made and the requests so far.\<close>

definition at_view :: "nat \<Rightarrow> attempt \<Rightarrow> scene option \<Rightarrow> client_request list \<Rightarrow> client \<Rightarrow> bool" where
  "at_view a at sc qs c \<longleftrightarrow>
     client_reach c \<and> a < length (cw_attempts c) \<and> cw_attempts c ! a = at \<and> scene_of c a = sc \<and> cw_requests c = qs \<and> cw_doomed c = []"

lemma at_viewD:
  assumes "at_view a at sc qs c"
  shows "client_reach c" "a < length (cw_attempts c)" "cw_attempts c ! a = at" "scene_of c a = sc" "cw_requests c = qs"
    "stage_of c a = at_stage at" "uri_of c a = at_uri at" "cw_doomed c = []"
  using assms by (simp_all add: at_view_def stage_of_def uri_of_def)

lemma view_connect:
  assumes "client_reach c" "cw_scenes c (toUri address) = None" "cw_doomed c = []"
  shows "\<exists>c1. connectToScene address True '''' routes c = (length (cw_attempts c), c1) \<and>
    at_view (length (cw_attempts c)) \<lparr>at_address = address, at_routes = routes, at_token = '''', at_stage = AwaitEndpoint\<rparr> None
      (cw_requests c @ [EndpointRequest address]) c1"
proof -
  have "scene_of c (length (cw_attempts c)) = None"
    using scenes_okD [OF client_reach_wf [OF assms(1)]] by (cases "scene_of c (length (cw_attempts c))") auto
  moreover have "client_reach (snd (connectToScene address True '''' routes c))"
    by (rule client_reach.step [OF assms(1) client_step.connect])
  ultimately show ?thesis using assms(2,3) by (simp add: connectToScene_def Let_def at_view_def) (simp add: scene_of_def)
qed

lemma view_endpoint:
  assumes "at_view a at None qs c" "at_stage at = AwaitEndpoint"
  shows "at_view a (at\<lparr>at_token := token, at_stage := AwaitConnection\<rparr>) None
    (qs @ [ConnectionRequest (sa_clusterId (at_address at))]) (on_endpoint a (Inr token) c)"
proof -
  note v = at_viewD [OF assms(1)]
  have "client_reach (on_endpoint a (Inr token) c)"
    using client_reach.step [OF v(1) client_step.endpoint [OF v(2)]] v(6) assms(2) by simp
  then show ?thesis using v(2-5,8) by (simp add: at_view_def on_endpoint_def Let_def) (simp add: scene_of_def)
qed

lemma view_connection:
  assumes "at_view a at None qs c" "at_stage at = AwaitConnection"
  shows "at_view a (at\<lparr>at_stage := AwaitInfos k\<rparr>) None (qs @ [SceneInfosRequest k (at_token at)])
    (on_connection a (Inr (Some k)) c)"
proof -
  note v = at_viewD [OF assms(1)]
  have "client_reach (on_connection a (Inr (Some k)) c)"
    using client_reach.step [OF v(1) client_step.connection [OF v(2)]] v(6) assms(2) by simp
  then show ?thesis using v(2-5,8) by (simp add: at_view_def on_connection_def set_stage_nth)
qed

lemma view_infos:
  assumes "at_view a at None qs c" "at_stage at = AwaitInfos k"
  shows "at_view a (at\<lparr>at_stage := AwaitMetadata k infos\<rparr>) None (qs @ [MetadataRequest k])
    (on_infos a k (Inr (serializer, infos)) c)"
proof -
  note v = at_viewD [OF assms(1)]
  have "client_reach (on_infos a k (Inr (serializer, infos)) c)"
    using client_reach.step [OF v(1) client_step.infos [OF v(2)]] v(6) assms(2) by simp
  then show ?thesis using v(2-5,8) by (simp add: at_view_def on_infos_def set_stage_nth)
qed

lemma view_metadata:
  assumes "at_view a at None qs c" "at_stage at = AwaitMetadata k infos"
    and "initializer_routes (at_routes at) (Scene_Impl k (at_address at) infos) = (Inr (), sc)"
  shows "at_view a (at\<lparr>at_stage := AwaitConnecting (map (\<lambda>n. (n, the (sc_localRoutes sc n)))
        (filter (\<lambda>n. sc_localRoutes sc n \<noteq> None) order))\<rparr>)
      (Some (post_job (SetState [conn_state Connecting]) sc)) qs (on_metadata a k infos order (Inr ()) c)"
proof -
  note v = at_viewD [OF assms(1)]
  have st: "cs_state (sc_state sc) = Disconnected"
    using initializer_frame [OF assms(3)] by (simp add: Scene_Impl_def conn_state_def)
  have "client_reach (on_metadata a k infos order (Inr ()) c)"
    using client_reach.step [OF v(1) client_step.metadata [OF v(2)]] v(6) assms(2) by simp
  moreover have "on_metadata a k infos order (Inr ()) c = set_stage a (AwaitConnecting (map (\<lambda>n. (n, the (sc_localRoutes sc n)))
      (filter (\<lambda>n. sc_localRoutes sc n \<noteq> None) order)))
      (put_scene a (post_job (SetState [conn_state Connecting]) sc) (put_scene a sc c))"
    using assms(3) v(3) st by (simp add: on_metadata_def connect_scene_def scene_setConnectionState_def Let_def)
  ultimately show ?thesis using v(2-5,8) by (simp add: at_view_def set_stage_nth)
qed

lemma state_callback_frame:
  "cw_requests (state_callback i k s c) = cw_requests c" "cw_doomed (state_callback i k s c) = cw_doomed c"
  "cw_world (state_callback i k s c) = cw_world c" "cw_attempts (state_callback i k s c) = cw_attempts c"
  by (simp_all add: state_callback_def split: prod.splits)

lemma publish_state_frame:
  "cw_requests (publish_state i c s) = cw_requests c" "cw_doomed (publish_state i c s) = cw_doomed c"
  "cw_world (publish_state i c s) = cw_world c" "cw_attempts (publish_state i c s) = cw_attempts c"
proof -
  have "cw_requests (fold (state_callback i k) ss c) = cw_requests c \<and> cw_doomed (fold (state_callback i k) ss c) = cw_doomed c \<and>
      cw_world (fold (state_callback i k) ss c) = cw_world c \<and> cw_attempts (fold (state_callback i k) ss c) = cw_attempts c" for k ss
    by (induction ss arbitrary: c) (simp_all add: state_callback_frame)
  then show "cw_requests (publish_state i c s) = cw_requests c" "cw_doomed (publish_state i c s) = cw_doomed c"
    "cw_world (publish_state i c s) = cw_world c" "cw_attempts (publish_state i c s) = cw_attempts c"
    by (simp_all add: publish_state_def Let_def)
qed

lemma scene_changed_frame:
  assumes "scene_of c i = Some sc"
  shows "cw_requests (scene_changed i sc' c) = cw_requests c" "cw_doomed (scene_changed i sc' c) = cw_doomed c"
    "cw_world (scene_changed i sc' c) = cw_world (put_scene i sc' c)"
proof -
  have "cw_requests (foldl (publish_state i) d ss) = cw_requests d \<and> cw_doomed (foldl (publish_state i) d ss) = cw_doomed d \<and>
      cw_world (foldl (publish_state i) d ss) = cw_world d" for d ss
    by (induction ss arbitrary: d) (simp_all add: publish_state_frame)
  then show "cw_requests (scene_changed i sc' c) = cw_requests c" "cw_doomed (scene_changed i sc' c) = cw_doomed c"
    "cw_world (scene_changed i sc' c) = cw_world (put_scene i sc' c)"
    using assms by (simp_all add: scene_changed_def)
qed

text \<open>A change of state leaves the dispatcher.\<close>

definition stated :: "ConnectionState \<Rightarrow> scene \<Rightarrow> scene" where
  "stated s sc = sc\<lparr>sc_jobs := [], sc_state := s, sc_completed := (cs_state s = Disconnected),
     sc_published := sc_published sc @ [s]\<rparr>"

lemma stated_sel [simp]:
  "sc_jobs (stated s sc) = []" "sc_state (stated s sc) = s" "sc_completed (stated s sc) \<longleftrightarrow> cs_state s = Disconnected"
  "sc_published (stated s sc) = sc_published sc @ [s]" "sc_peer (stated s sc) = sc_peer sc" "sc_host (stated s sc) = sc_host sc"
  "sc_remoteRoutes (stated s sc) = sc_remoteRoutes sc" "sc_address (stated s sc) = sc_address sc"
  by (simp_all add: stated_def)

lemma run_state_job:
  assumes "scene_of c a = Some sc" "sc_jobs sc = [SetState [s]]" "\<not> cs_eq (sc_state sc) s" "\<not> sc_completed sc"
  shows "run_scene_job conns order junk a c = Some (scene_changed a (stated s sc) c)"
  using assms by (simp add: run_scene_job_def run_next_def run_job_def setConnectionStateInternal_def stated_def)

lemma view_job:
  assumes "at_view a at (Some sc) qs c" "sc_jobs sc = [SetState [s]]" "\<not> cs_eq (sc_state sc) s" "\<not> sc_completed sc"
  shows "\<exists>c'. run_scene_job conns order junk a c = Some c' \<and> at_view a at (Some (stated s sc)) qs c' \<and>
    cw_world c' = cw_world (put_scene a (stated s sc) c)"
proof -
  note v = at_viewD [OF assms(1)]
  note r = run_state_job [OF v(4) assms(2-4), of conns order junk]
  have wf: "client_wf {} c" by (rule client_reach_wf [OF v(1)])
  have "run_next conns order junk sc = Some ([], stated s sc)"
    using assms(2-4) by (simp add: run_next_def run_job_def setConnectionStateInternal_def stated_def)
  then have m: "moved sc (stated s sc)" using run_next_moved scenes_okD [OF wf v(4)] by blast
  have "client_reach (scene_changed a (stated s sc) c)" by (rule client_reach.step [OF v(1) client_step.job [OF r]])
  then show ?thesis
    using r v(2-5,8) scene_changed_wf(2,3) [OF wf v(4) m] scene_changed_frame [OF v(4)] by (simp add: at_view_def)
qed

lemma view_connecting:
  assumes "at_view a at (Some sc) qs c" "at_stage at = AwaitConnecting rs" "sc_jobs sc = []"
  shows "at_view a (at\<lparr>at_stage := AwaitResult\<rparr>) (Some sc) (qs @ [ConnectRequest (sc_peer sc) (at_token at) rs])
    (on_connecting a rs c)"
proof -
  note v = at_viewD [OF assms(1)]
  have "job_done (conn_state Connecting) a c" using v(4) assms(3) by (simp add: job_done_def)
  then have "client_reach (on_connecting a rs c)"
    using client_reach.step [OF v(1) client_step.connecting [OF v(2)]] v(6) assms(2) by simp
  then show ?thesis using v(2-5,8) by (simp add: at_view_def on_connecting_def set_stage_nth)
qed

lemma addScene_ok:
  assumes "sw_scenes w i = Some sc" "sc_host sc = Some hp" "unat (getSceneIndex (sp_handle hp)) < 150"
  shows "\<exists>w'. addScene k i w = Some w' \<and> getScene k (sp_handle hp) w' = Some i"
proof -
  let ?i = "getSceneIndex (sp_handle hp)"
  have "unat ?i < length (resize_handles (nt_handles (sw_net w) k) ?i)"
  proof (cases "unat (of_nat (length (nt_handles (sw_net w) k)) :: byte) < unat ?i + 1")
    case False
    moreover have "unat (of_nat (length (nt_handles (sw_net w) k)) :: byte) \<le> length (nt_handles (sw_net w) k)"
      by (simp add: unat_of_nat)
    ultimately show ?thesis by (simp add: resize_handles_def)
  qed (use assms(3) in \<open>simp add: resize_handles_def Let_def\<close>)
  then show ?thesis
    using assms(1,2) by (simp add: addScene_def Let_def getScene_def lock_scene_def set_handles_def)
qed

lemma view_result:
  assumes "at_view a at (Some sc) qs c" "at_stage at = AwaitResult" "unat (getSceneIndex (cr_sceneHandle cr)) < 150"
  shows "\<exists>c'. on_connect_result a order (Inr cr) c = Some c' \<and>
    at_view a (at\<lparr>at_stage := AwaitConnected\<rparr>)
      (Some (post_job (SetState [conn_state Connected]) (completeConnectionInitialization order cr sc))) qs c' \<and>
    getScene (sc_peer sc) (cr_sceneHandle cr) (cw_world c') = Some a"
proof -
  note v = at_viewD [OF assms(1)]
  let ?sc = "completeConnectionInitialization order cr sc"
  let ?w = "cw_world (put_scene a ?sc c)"
  have "sw_scenes ?w a = Some ?sc" by (simp add: put_scene_def)
  from addScene_ok [OF this, of "ScenePeer (sc_peer sc) (cr_sceneHandle cr) (sc_remoteRoutes sc)" "sc_peer sc"] assms(3)
  obtain w where w: "addScene (sc_peer sc) a ?w = Some w" "getScene (sc_peer sc) (cr_sceneHandle cr) w = Some a"
    by (auto simp: ScenePeer_def)
  have sw: "sw_scenes w = sw_scenes ?w" by (rule addScene_scenes [OF w(1)])
  let ?c2 = "(put_scene a ?sc c)\<lparr>cw_world := w\<rparr>"
  let ?c' = "set_stage a AwaitConnected (put_scene a (post_job (SetState [conn_state Connected]) ?sc) ?c2)"
  have sel: "scene_of ?c2 a = Some ?sc" "length (cw_attempts ?c2) = length (cw_attempts c)" "cw_attempts ?c2 = cw_attempts c"
    "cw_requests ?c2 = cw_requests c" "cw_doomed ?c2 = cw_doomed c" "cw_world ?c2 = w"
    using sw by (simp_all add: scene_of_def put_scene_def)
  have r: "on_connect_result a order (Inr cr) c = Some ?c'"
    using v(4) w(1) sel(1) by (simp add: on_connect_result_def Let_def scene_setConnectionState_def)
  have "client_reach ?c'"
    using client_reach.step [OF v(1) client_step.result [OF v(2) _ r]] v(6) assms(2) by simp
  moreover have "getScene (sc_peer sc) (cr_sceneHandle cr) (cw_world ?c') = Some a"
    using w(2) by (simp add: getScene_def Let_def lock_scene_def put_scene_def split: if_splits option.splits)
  ultimately show ?thesis
    using r v(2-5,8) sel by (simp add: at_view_def set_stage_nth)
qed

lemma view_finish:
  assumes "at_view a at (Some sc) qs c" "at_stage at = AwaitConnected" "sc_jobs sc = []" "\<not> sc_completed sc"
  shows "\<exists>c'. finish_attempt a (on_connected a c) = c' \<and> at_view a (at\<lparr>at_stage := Finished\<rparr>) (Some sc) qs c' \<and>
    cw_world c' = cw_world c \<and>
    (\<exists>e s. cw_scenes c' (at_uri at) = Some e \<and> ce_task e = a \<and> ce_subscription e = Some s \<and> cw_subs c' ! s = (a, at_uri at, True))"
proof -
  note v = at_viewD [OF assms(1)]
  have "job_done (conn_state Connected) a c" using v(4) assms(3) by (simp add: job_done_def)
  then have r1: "client_reach (on_connected a c)"
    using client_reach.step [OF v(1) client_step.connected [OF v(2)]] v(6) assms(2) by simp
  have v1: "at_view a (at\<lparr>at_stage := Succeeded\<rparr>) (Some sc) qs (on_connected a c)"
    using r1 v(2-5,8) by (simp add: at_view_def on_connected_def set_stage_nth)
  note v1 = at_viewD [OF v1]
  have "client_reach (finish_attempt a (on_connected a c))"
    by (rule client_reach.step [OF r1 client_step.finish [OF v1(2)]])
  moreover have f: "finish_attempt a (on_connected a c) =
      set_stage a Finished (subscribe_entry a (at_uri at) (on_connected a c))"
    using v1(3,8) by (simp add: finish_attempt_def at_uri_def)
  obtain e where e: "cw_scenes (on_connected a c) (at_uri at) = Some e" "ce_task e = a"
    using client_wfD(2) [OF client_reach_wf [OF r1] v1(2)] v1(6,7) by (auto simp: at_uri_def)
  ultimately show ?thesis
    using v(2,3,5,8) v1(4) assms(4) unfolding f
    by (simp add: at_view_def subscribe_entry_def set_stage_nth on_connected_def)
qed

lemma view_requests:
  fixes order :: "string list"
  assumes "client_reach c" "cw_scenes c (toUri address) = None" "cw_doomed c = []"
    and "initializer_routes routes (Scene_Impl k address infos) = (Inr (), sc)"
  defines "a \<equiv> length (cw_attempts c)"
  defines "rs \<equiv> map (\<lambda>n. (n, the (sc_localRoutes sc n))) (filter (\<lambda>n. sc_localRoutes sc n \<noteq> None) order)"
  shows "\<exists>c1. connectToScene address True '''' routes c = (a, c1) \<and>
    at_view a \<lparr>at_address = address, at_routes = routes, at_token = token, at_stage = AwaitConnecting rs\<rparr>
      (Some (post_job (SetState [conn_state Connecting]) sc))
      (cw_requests c @ [EndpointRequest address, ConnectionRequest (sa_clusterId address), SceneInfosRequest k token, MetadataRequest k])
      (on_metadata a k infos order (Inr ()) (on_infos a k (Inr (serializer, infos))
        (on_connection a (Inr (Some k)) (on_endpoint a (Inr token) c1))))"
proof -
  let ?at = "\<lambda>t st. \<lparr>at_address = address, at_routes = routes, at_token = t, at_stage = st\<rparr>"
  obtain c1 where c1: "connectToScene address True '''' routes c = (a, c1)"
    and v1: "at_view a (?at '''' AwaitEndpoint) None (cw_requests c @ [EndpointRequest address]) c1"
    using view_connect [OF assms(1-3)] unfolding a_def by blast
  have v2: "at_view a (?at token AwaitConnection) None
      (cw_requests c @ [EndpointRequest address, ConnectionRequest (sa_clusterId address)]) (on_endpoint a (Inr token) c1)"
    using view_endpoint [OF v1] by simp
  have v3: "at_view a (?at token (AwaitInfos k)) None
      (cw_requests c @ [EndpointRequest address, ConnectionRequest (sa_clusterId address), SceneInfosRequest k token])
      (on_connection a (Inr (Some k)) (on_endpoint a (Inr token) c1))"
    using view_connection [OF v2] by simp
  have v4: "at_view a (?at token (AwaitMetadata k infos)) None
      (cw_requests c @ [EndpointRequest address, ConnectionRequest (sa_clusterId address), SceneInfosRequest k token, MetadataRequest k])
      (on_infos a k (Inr (serializer, infos)) (on_connection a (Inr (Some k)) (on_endpoint a (Inr token) c1)))"
    using view_infos [OF v3, of k] by simp
  show ?thesis using c1 view_metadata [OF v4, of k infos sc order] assms(4) by (simp add: rs_def)
qed

lemma connection_succeeds:
  assumes "client_reach c" "cw_scenes c (toUri address) = None" "cw_doomed c = []"
    and "initializer_routes routes (Scene_Impl k address infos) = (Inr (), sc)"
    and "unat (getSceneIndex (cr_sceneHandle cr)) < 150"
  defines "a \<equiv> length (cw_attempts c)"
  shows "\<exists>c'. connection_run conns junk address routes token k serializer infos order cr c = Some c' \<and> client_reach c' \<and>
    cw_requests c' = cw_requests c @
      [EndpointRequest address, ConnectionRequest (sa_clusterId address), SceneInfosRequest k token, MetadataRequest k,
       ConnectRequest k token (map (\<lambda>n. (n, the (sc_localRoutes sc n))) (filter (\<lambda>n. sc_localRoutes sc n \<noteq> None) order))] \<and>
    (\<exists>sc'. scene_of c' a = Some sc' \<and> sc_state sc' = conn_state Connected \<and> sc_jobs sc' = [] \<and>
       sc_published sc' = [conn_state Connecting, conn_state Connected] \<and>
       sc_host sc' = Some (ScenePeer k (cr_sceneHandle cr) (sc_remoteRoutes sc))) \<and>
    getScene k (cr_sceneHandle cr) (cw_world c') = Some a \<and>
    (\<exists>e s. cw_scenes c' (toUri address) = Some e \<and> ce_task e = a \<and> ce_subscription e = Some s \<and>
       cw_subs c' ! s = (a, toUri address, True)) \<and> stage_of c' a = Finished"
proof -
  let ?rs = "map (\<lambda>n. (n, the (sc_localRoutes sc n))) (filter (\<lambda>n. sc_localRoutes sc n \<noteq> None) order)"
  let ?at = "\<lambda>st. \<lparr>at_address = address, at_routes = routes, at_token = token, at_stage = st\<rparr>"
  let ?qs = "cw_requests c @ [EndpointRequest address, ConnectionRequest (sa_clusterId address), SceneInfosRequest k token, MetadataRequest k]"
  let ?qs2 = "?qs @ [ConnectRequest k token ?rs]"
  let ?c2 = "\<lambda>c1. on_infos a k (Inr (serializer, infos)) (on_connection a (Inr (Some k)) (on_endpoint a (Inr token) c1))"
  have fr: "sc_state sc = conn_state Disconnected" "\<not> sc_completed sc" "sc_published sc = []" "sc_jobs sc = []" "sc_peer sc = k"
    using initializer_frame [OF assms(4)] by (simp_all add: Scene_Impl_def)
  obtain c1 where c1: "connectToScene address True '''' routes c = (a, c1)"
    and v5: "at_view a (?at (AwaitConnecting ?rs)) (Some (post_job (SetState [conn_state Connecting]) sc)) ?qs
      (on_metadata a k infos order (Inr ()) (?c2 c1))"
    using view_requests [OF assms(1-4), where order = order and token = token and serializer = serializer] unfolding a_def by blast
  let ?sc5 = "post_job (SetState [conn_state Connecting]) sc"
  obtain c3 where c3: "run_scene_job conns order junk a (on_metadata a k infos order (Inr ()) (?c2 c1)) = Some c3"
    and v6: "at_view a (?at (AwaitConnecting ?rs))
      (Some (stated (conn_state Connecting) ?sc5)) ?qs c3"
    using view_job [OF v5, of "conn_state Connecting" conns order junk] fr by (auto simp: conn_state_def cs_eq_def)
  have v7: "at_view a (?at AwaitResult) (Some (stated (conn_state Connecting) ?sc5)) ?qs2 (on_connecting a ?rs c3)"
    using view_connecting [OF v6] fr(5) by (simp add: post_job_def)
  obtain c4 where c4: "on_connect_result a order (Inr cr) (on_connecting a ?rs c3) = Some c4"
    and v8: "at_view a (?at AwaitConnected)
      (Some (post_job (SetState [conn_state Connected]) (completeConnectionInitialization order cr
        (stated (conn_state Connecting) ?sc5)))) ?qs2 c4"
    and g4: "getScene k (cr_sceneHandle cr) (cw_world c4) = Some a"
    using view_result [OF v7 _ assms(5), of order] fr(5) by (auto simp: post_job_def)
  let ?sc8 = "post_job (SetState [conn_state Connected]) (completeConnectionInitialization order cr (stated (conn_state Connecting) ?sc5))"
  obtain c5 where c5: "run_scene_job conns order junk a c4 = Some c5"
    and v9: "at_view a (?at AwaitConnected)
      (Some (stated (conn_state Connected) ?sc8)) ?qs2 c5"
    and w5: "cw_world c5 = cw_world (put_scene a (stated (conn_state Connected) ?sc8) c4)"
    using view_job [OF v8, of "conn_state Connected" conns order junk] by (auto simp: conn_state_def cs_eq_def)
  obtain c' where c': "finish_attempt a (on_connected a c5) = c'" and w': "cw_world c' = cw_world c5"
    and v': "at_view a (?at Finished)
      (Some (stated (conn_state Connected) ?sc8)) ?qs2 c'"
    and e': "\<exists>e s. cw_scenes c' (toUri address) = Some e \<and> ce_task e = a \<and> ce_subscription e = Some s \<and>
       cw_subs c' ! s = (a, toUri address, True)"
    using view_finish [OF v9] by (auto simp: conn_state_def at_uri_def)
  have "getScene k (cr_sceneHandle cr) (cw_world c') = Some a"
    using g4 unfolding w' w5 by (simp add: getScene_def Let_def lock_scene_def put_scene_def split: if_splits option.splits)
  moreover have "connection_run conns junk address routes token k serializer infos order cr c = Some c'"
    using c1 c3 at_viewD(6) [OF v6] c4 c5 c' by (simp add: connection_run_def Let_def)
  ultimately show ?thesis
    using at_viewD [OF v'] e' fr by (simp add: initializer_frame [OF assms(4)] post_job_def)
qed

text \<open>
  Property C20. When the map has no entry for an address and every answer comes, connecting to a public
  scene asks in turn for the endpoint, the connection, the information of the scene, the exchange
  of metadata and the connection to the scene with the token and the routes the initializer
  added, and ends with a connected scene that has its host and has published \<open>Connecting\<close> and
  \<open>Connected\<close>, that the dispatcher finds under the handle, and whose entry in the map is
  subscribed to its states.
\<close>

theorem scene_connects:
  assumes "client_reach c" "cw_scenes c (toUri address) = None" "cw_doomed c = []"
    and "initializer_routes routes (Scene_Impl k address infos) = (Inr (), sc)"
    and "unat (getSceneIndex (cr_sceneHandle cr)) < 150"
  defines "a \<equiv> length (cw_attempts c)"
  shows "\<exists>c'. connection_run conns junk address routes token k serializer infos order cr c = Some c' \<and> client_reach c' \<and>
    cw_requests c' = cw_requests c @
      [EndpointRequest address, ConnectionRequest (sa_clusterId address), SceneInfosRequest k token, MetadataRequest k,
       ConnectRequest k token (map (\<lambda>n. (n, the (sc_localRoutes sc n))) (filter (\<lambda>n. sc_localRoutes sc n \<noteq> None) order))] \<and>
    (\<exists>sc'. scene_of c' a = Some sc' \<and> sc_state sc' = conn_state Connected \<and> sc_jobs sc' = [] \<and>
       sc_published sc' = [conn_state Connecting, conn_state Connected] \<and>
       sc_host sc' = Some (ScenePeer k (cr_sceneHandle cr) (sc_remoteRoutes sc))) \<and>
    getScene k (cr_sceneHandle cr) (cw_world c') = Some a \<and>
    (\<exists>e s. cw_scenes c' (toUri address) = Some e \<and> ce_task e = a \<and> ce_subscription e = Some s \<and>
       cw_subs c' ! s = (a, toUri address, True)) \<and> stage_of c' a = Finished"
  unfolding a_def by (rule connection_succeeds [OF assms(1-5)])


text \<open>
  The entries of the map are sound: the attempt of an entry is one for the entry's uri
  and has not failed, and a subscription that is live belongs to an attempt that has finished
  and a scene that is not disconnected for good.
\<close>

theorem entries_sound:
  assumes "client_reach c" "cw_scenes c u = Some e"
  shows "ce_task e < length (cw_attempts c) \<and> uri_of c (ce_task e) = u \<and> \<not> failed_stage (stage_of c (ce_task e)) \<and>
    (\<forall>s. ce_subscription e = Some s \<and> snd (snd (cw_subs c ! s)) \<longrightarrow>
       stage_of c (ce_task e) = Finished \<and> (\<exists>sc. scene_of c (ce_task e) = Some sc \<and> \<not> sc_completed sc))"
proof -
  note wf = client_reach_wf [OF assms(1)]
  have ok: "entry_ok c u e" by (rule client_wfD(1) [OF wf assms(2)])
  moreover have "stage_of c (ce_task e) = Finished \<and> (\<exists>sc. scene_of c (ce_task e) = Some sc \<and> \<not> sc_completed sc)"
    if "ce_subscription e = Some s" "snd (snd (cw_subs c ! s))" for s
  proof -
    have "s < length (cw_subs c)" "cw_subs c ! s = (ce_task e, u, True)"
      using ok that by (cases "cw_subs c ! s"; auto simp: entry_ok_def)+
    from client_wfD(3) [OF wf this] show ?thesis by (auto simp: sub_ok_def)
  qed
  ultimately show ?thesis by (auto simp: entry_ok_def)
qed

section \<open>Scenes that leave the map\<close>

lemma state_callback_mono:
  assumes "cw_scenes c u = None"
  shows "cw_scenes (state_callback i k s c) u = None"
  using assms by (simp add: state_callback_def split: prod.splits)

lemma state_callback_keeps:
  assumes "client_wf X c" "t < length (cw_subs c)" "s < length (cw_subs c)" "cw_subs c ! s = (i, u, True)"
  shows "cw_scenes (state_callback i k t c) u = None \<or> cw_subs (state_callback i k t c) ! s = (i, u, True)"
proof -
  obtain j v live where t: "cw_subs c ! t = (j, v, live)" by (metis prod_cases3)
  show ?thesis
  proof (cases "live \<and> j = i \<and> (k = Disconnecting \<or> k = Disconnected) \<and> v \<noteq> u")
    case True
    have "ce_subscription e \<noteq> Some s" if "cw_scenes c v = Some e" for e
      using client_wfD(1) [OF assms(1) that] assms(4) True by (auto simp: entry_ok_def)
    then have "cw_subs (erase_entry v c) ! s = (i, u, True)"
      using erase_entry_nth [OF assms(3), of v] assms(4) by (simp split: option.splits)
    then show ?thesis using True by (simp add: state_callback_def t)
  qed (use assms(4) in \<open>auto simp: state_callback_def t\<close>)
qed

lemma callbacks_erase:
  assumes "client_wf X c" "\<forall>t \<in> set ts. t < length (cw_subs c)" "s \<in> set ts" "k = Disconnecting \<or> k = Disconnected"
    and "cw_scenes c u = None \<or> cw_subs c ! s = (i, u, True)"
  shows "cw_scenes (fold (state_callback i k) ts c) u = None"
proof -
  have none: "cw_scenes (fold (state_callback i k) ts c) u = None" if "cw_scenes c u = None" for ts c
    using that by (induction ts arbitrary: c) (simp_all add: state_callback_mono)
  show ?thesis
    using assms
  proof (induction ts arbitrary: c)
    case (Cons t ts)
    have t: "t < length (cw_subs c)" "s < length (cw_subs c)" using Cons.prems(2,3) by auto
    note w = state_callback_wf [OF Cons.prems(1) t(1), of i k]
    show ?case
    proof (cases "cw_scenes c u = None")
      case False
      then have s: "cw_subs c ! s = (i, u, True)" using Cons.prems(5) by auto
      show ?thesis
      proof (cases "s = t")
        case True
        then have "cw_scenes (state_callback i k t c) u = None" using s Cons.prems(4) by (auto simp: state_callback_def)
        then show ?thesis using none by simp
      next
        case False
        then have "s \<in> set ts" using Cons.prems(3) by simp
        from Cons.IH [OF w(1) _ this Cons.prems(4) state_callback_keeps [OF Cons.prems(1) t s]]
        show ?thesis using Cons.prems(2) w(2) by simp
      qed
    qed (use none state_callback_mono in simp)
  qed simp
qed

lemma publish_erases:
  assumes "client_wf X c" "s < length (cw_subs c)" "cw_subs c ! s = (i, u, True)"
    and "cs_state st = Disconnecting \<or> cs_state st = Disconnected"
  shows "cw_scenes (publish_state i c st) u = None"
proof -
  have "cw_scenes (fold (state_callback i (cs_state st)) [0..<length (cw_subs c)] c) u = None"
    by (rule callbacks_erase [OF assms(1) _ _ assms(4), where s = s]) (use assms(2,3) in auto)
  then show ?thesis by (auto simp: publish_state_def Let_def)
qed

lemma publish_mono: "cw_scenes c u = None \<Longrightarrow> cw_scenes (publish_state i c st) u = None"
proof -
  have "cw_scenes (fold (state_callback i k) ts c) u = None" if "cw_scenes c u = None" for k ts
    using that by (induction ts arbitrary: c) (simp_all add: state_callback_mono)
  then show ?thesis if "cw_scenes c u = None" using that by (simp add: publish_state_def Let_def)
qed

text \<open>A change of state of a scene that is connected, with a subscription: the entry goes with the first state.\<close>

lemma scene_changed_erases:
  assumes "client_reach c" "scene_of c i = Some sc" "moved sc sc'" "sc_published sc' = sc_published sc @ [st]"
    and "s < length (cw_subs c)" "cw_subs c ! s = (i, u, True)" "cs_state st = Disconnecting \<or> cs_state st = Disconnected"
  shows "cw_scenes (scene_changed i sc' c) u = None"
proof -
  have e: "scene_changed i sc' c = publish_state i (put_scene i sc' c) st" using assms(2,4) by (simp add: scene_changed_def)
  show ?thesis
    unfolding e by (rule publish_erases [OF put_scene_wf [OF client_reach_wf [OF assms(1)] assms(2,3)] _ _ assms(7), where s = s])
      (use assms(5,6) in simp_all)
qed

lemma completed_disconnected:
  assumes "client_wf X c" "scene_of c i = Some sc" "sc_completed sc"
  shows "cs_state (sc_state sc) = Disconnected"
  using client_wfD(6) [OF assms(1,2)] assms(3) by (auto simp: sc_wf_def split: if_splits)

text \<open>A connected scene whose host is lost: the two changes of state the dispatcher runs.\<close>

definition leaving_scene :: "string \<Rightarrow> scene \<Rightarrow> scene" where
  "leaving_scene r sc = post_job (SetState [conn_state_because Disconnected r]) (stated (conn_state_because Disconnecting r)
     (post_job (SetState [conn_state_because Disconnecting r, conn_state_because Disconnected r]) sc))"

definition left_scene :: "string \<Rightarrow> scene \<Rightarrow> scene" where
  "left_scene r sc = stated (conn_state_because Disconnected r) (leaving_scene r sc)"

lemma host_loss_run:
  assumes "client_reach c" "scene_of c i = Some sc" "cs_state (sc_state sc) = Connected" "sc_jobs sc = []"
  shows "\<exists>ch sch. host_changed i (conn_state_because Disconnected r) c = ch \<and> ch = put_scene i sch c \<and> client_reach ch \<and>
      moved sch (leaving_scene r sc) \<and> sc_published sch = sc_published sc \<and>
      run_scene_job conns order junk i ch = Some (scene_changed i (leaving_scene r sc) ch) \<and>
      client_reach (scene_changed i (leaving_scene r sc) ch) \<and>
      scene_of (scene_changed i (leaving_scene r sc) ch) i = Some (leaving_scene r sc) \<and>
      run_scene_job conns order junk i (scene_changed i (leaving_scene r sc) ch) =
        Some (scene_changed i (left_scene r sc) (scene_changed i (leaving_scene r sc) ch)) \<and>
      scene_of (scene_changed i (left_scene r sc) (scene_changed i (leaving_scene r sc) ch)) i = Some (left_scene r sc) \<and>
      moved (leaving_scene r sc) (left_scene r sc)"
proof -
  let ?because = "\<lambda>d. conn_state_because d r"
  have wf: "client_wf {} c" by (rule client_reach_wf [OF assms(1)])
  have nc: "\<not> sc_completed sc" using completed_disconnected [OF wf assms(2)] assms(3) by auto
  let ?sc = "post_job (SetState [?because Disconnecting, ?because Disconnected]) sc"
  let ?c = "put_scene i ?sc c"
  have h: "host_changed i (?because Disconnected) c = ?c"
    using assms(2,3) by (simp add: host_changed_def host_state_changed_def conn_state_because_def Let_def)
  have reach: "client_reach ?c" using client_reach.step [OF assms(1) client_step.host] unfolding h [symmetric] .
  let ?sc1 = "leaving_scene r sc"
  have st: "\<not> cs_eq (sc_state sc) (?because Disconnecting)" using assms(3) by (simp add: cs_eq_def conn_state_because_def)
  have n1: "run_next conns order junk ?sc = Some ([], ?sc1)"
    using assms(4) st nc by (simp add: run_next_def run_job_def setConnectionStateInternal_def stated_def conn_state_because_def
      post_job_def leaving_scene_def)
  have r1: "run_scene_job conns order junk i ?c = Some (scene_changed i ?sc1 ?c)" using n1 by (simp add: run_scene_job_def)
  have m1: "moved ?sc ?sc1" using run_next_moved n1 scenes_okD [OF wf assms(2)] by simp
  let ?c1 = "scene_changed i ?sc1 ?c"
  have sc1: "scene_of ?c1 i = Some ?sc1" using scene_changed_wf(3) [OF client_reach_wf [OF reach] _ m1] by simp
  have reach1: "client_reach ?c1" by (rule client_reach.step [OF reach client_step.job [OF r1]])
  have r2: "run_scene_job conns order junk i ?c1 = Some (scene_changed i (left_scene r sc) ?c1)"
    unfolding left_scene_def
    by (rule run_state_job [OF sc1]) (simp_all add: cs_eq_def conn_state_because_def leaving_scene_def)
  have "run_next conns order junk ?sc1 = Some ([], left_scene r sc)"
    by (simp add: run_next_def run_job_def setConnectionStateInternal_def stated_def conn_state_because_def cs_eq_def post_job_def
      leaving_scene_def left_scene_def)
  then have m2: "moved ?sc1 (left_scene r sc)"
    using run_next_moved scenes_okD [OF client_reach_wf [OF reach1] sc1] by blast
  have "scene_of (scene_changed i (left_scene r sc) ?c1) i = Some (left_scene r sc)"
    using scene_changed_wf(3) [OF client_reach_wf [OF reach1] sc1 m2] by simp
  then show ?thesis using h reach m1 r1 reach1 sc1 r2 m2 by (intro exI [of _ ?c] exI [of _ ?sc]) simp
qed

lemma left_published:
  "sc_published (leaving_scene r sc) = sc_published sc @ [conn_state_because Disconnecting r]"
  "sc_published (left_scene r sc) = sc_published (leaving_scene r sc) @ [conn_state_because Disconnected r]"
  "sc_completed (left_scene r sc)" "sc_state (left_scene r sc) = conn_state_because Disconnected r"
  by (simp_all add: leaving_scene_def left_scene_def conn_state_because_def)

text \<open>
  When the connection to the host is lost, a connected scene that the map has a live
  subscription for goes through \<open>Disconnecting\<close> to \<open>Disconnected\<close>; the first of the two takes its
  entry out of the map, so that connecting to the uri starts a new attempt.
\<close>

theorem host_loss_frees_uri:
  assumes "client_reach c" "cw_scenes c u = Some e" "ce_subscription e = Some s" "snd (snd (cw_subs c ! s))"
    and "scene_of c (ce_task e) = Some sc" "cs_state (sc_state sc) = Connected" "sc_jobs sc = []"
  shows "\<exists>c1 c2. run_scene_job conns order junk (ce_task e) (host_changed (ce_task e) (conn_state_because Disconnected r) c) = Some c1 \<and>
    run_scene_job conns order junk (ce_task e) c1 = Some c2 \<and> cw_scenes c1 u = None \<and>
    map_option sc_state (scene_of c2 (ce_task e)) = Some (conn_state_because Disconnected r) \<and>
    fst (connectToScene (at_address (cw_attempts c ! ce_task e)) isPublic token routes c2) = length (cw_attempts c2)"
proof -
  let ?i = "ce_task e"
  have ok: "entry_ok c u e" by (rule client_wfD(1) [OF client_reach_wf [OF assms(1)] assms(2)])
  then have s: "s < length (cw_subs c)" "cw_subs c ! s = (?i, u, True)" "toUri (at_address (cw_attempts c ! ?i)) = u"
    using assms(3,4) by (cases "cw_subs c ! s"; auto simp: entry_ok_def uri_of_def at_uri_def)+
  obtain ch sch where h: "host_changed ?i (conn_state_because Disconnected r) c = ch" "ch = put_scene ?i sch c" "client_reach ch"
    "moved sch (leaving_scene r sc)" "sc_published sch = sc_published sc"
    "run_scene_job conns order junk ?i ch = Some (scene_changed ?i (leaving_scene r sc) ch)"
    "scene_of (scene_changed ?i (leaving_scene r sc) ch) ?i = Some (leaving_scene r sc)"
    "run_scene_job conns order junk ?i (scene_changed ?i (leaving_scene r sc) ch) =
        Some (scene_changed ?i (left_scene r sc) (scene_changed ?i (leaving_scene r sc) ch))"
    "scene_of (scene_changed ?i (left_scene r sc) (scene_changed ?i (leaving_scene r sc) ch)) ?i = Some (left_scene r sc)"
    using host_loss_run [OF assms(1,5-7)] by blast
  have u1: "cw_scenes (scene_changed ?i (leaving_scene r sc) ch) u = None"
    by (rule scene_changed_erases [OF h(3) _ h(4), of _ "conn_state_because Disconnecting r" s])
      (use h(2,5) s left_published in \<open>simp_all add: conn_state_because_def\<close>)
  then have "cw_scenes (scene_changed ?i (left_scene r sc) (scene_changed ?i (leaving_scene r sc) ch)) u = None"
    using h(7) left_published by (simp add: scene_changed_def publish_mono)
  then show ?thesis using h(1,6,8,9) u1 s(3) left_published by (simp add: connectToScene_def Let_def)
qed

section \<open>Entries that stay\<close>

text \<open>An entry without a live subscription whose scene is over.\<close>

definition dead_entry :: "string \<Rightarrow> client_scene \<Rightarrow> client \<Rightarrow> bool" where
  "dead_entry u e c \<longleftrightarrow>
     cw_scenes c u = Some e \<and> (\<exists>s. ce_subscription e = Some s \<and> \<not> snd (snd (cw_subs c ! s))) \<and>
     stage_of c (ce_task e) = Finished \<and> (\<exists>sc. scene_of c (ce_task e) = Some sc \<and> sc_completed sc)"

lemma dead_frame:
  assumes "dead_entry u e c" "client_wf X c" "cw_scenes c' u = cw_scenes c u"
    and "\<And>s. s < length (cw_subs c) \<Longrightarrow> snd (snd (cw_subs c' ! s)) \<Longrightarrow> snd (snd (cw_subs c ! s))"
    and "stage_of c' (ce_task e) = stage_of c (ce_task e)"
    and "\<And>sc. scene_of c (ce_task e) = Some sc \<Longrightarrow> sc_completed sc \<Longrightarrow>
      \<exists>sc'. scene_of c' (ce_task e) = Some sc' \<and> sc_completed sc'"
  shows "dead_entry u e c'"
proof -
  obtain s sc where d: "cw_scenes c u = Some e" "ce_subscription e = Some s" "\<not> snd (snd (cw_subs c ! s))"
    "stage_of c (ce_task e) = Finished" "scene_of c (ce_task e) = Some sc" "sc_completed sc"
    using assms(1) unfolding dead_entry_def by blast
  have "s < length (cw_subs c)" using client_wfD(1) [OF assms(2) d(1)] d(2) by (simp add: entry_ok_def)
  then have "\<not> snd (snd (cw_subs c' ! s))" using assms(4) d(3) by blast
  then show ?thesis using d assms(3,5) assms(6) [OF d(5,6)] unfolding dead_entry_def by metis
qed

text \<open>A step of another, unfinished attempt.\<close>

definition attempt_only :: "nat \<Rightarrow> client \<Rightarrow> client \<Rightarrow> bool" where
  "attempt_only a c c' \<longleftrightarrow>
     cw_scenes c' = cw_scenes c \<and> cw_subs c' = cw_subs c \<and>
     (\<forall>b. b \<noteq> a \<longrightarrow> stage_of c' b = stage_of c b \<and> scene_of c' b = scene_of c b)"

lemma attempt_only_ops:
  assumes "a < length (cw_attempts c)"
  shows "attempt_only a c (set_stage a st c)" "attempt_only a c (set_stage a st (put_scene a sc c))"
    "attempt_only a c (on_endpoint a r c)" "attempt_only a c (on_connection a r2 c)" "attempt_only a c (on_infos a k r3 c)"
    "attempt_only a c (on_metadata a k infos order r4 c)" "attempt_only a c (on_connecting a rs c)"
proof -
  show 1: "attempt_only a c (set_stage a st c)" "attempt_only a c (set_stage a st (put_scene a sc c))" for st sc
    using assms by (simp_all add: attempt_only_def set_stage_at)
  show "attempt_only a c (on_endpoint a r c)"
    using 1 by (auto simp: on_endpoint_def Let_def attempt_only_def stage_of_def scene_of_def split: sum.splits)
  show "attempt_only a c (on_connection a r2 c)"
    using assms by (auto simp: on_connection_def attempt_only_def set_stage_at split: sum.splits option.splits)
  show "attempt_only a c (on_infos a k r3 c)"
    using assms by (auto simp: on_infos_def attempt_only_def set_stage_at split: sum.splits prod.splits)
  show "attempt_only a c (on_metadata a k infos order r4 c)"
    using assms by (auto simp: on_metadata_def connect_scene_def Let_def attempt_only_def set_stage_at split: sum.splits prod.splits)
  show "attempt_only a c (on_connecting a rs c)"
    using assms by (auto simp: on_connecting_def attempt_only_def set_stage_at split: option.splits)
qed

lemma attempt_only_result:
  assumes "a < length (cw_attempts c)" "on_connect_result a order r c = Some c'"
  shows "attempt_only a c c'"
proof (cases r)
  case (Inl e)
  then show ?thesis using assms attempt_only_ops(1) [OF assms(1)] by (auto simp: on_connect_result_def)
next
  case (Inr cr)
  then obtain sc where sc: "scene_of c a = Some sc" using assms(2) by (auto simp: on_connect_result_def split: option.splits)
  let ?c1 = "put_scene a (completeConnectionInitialization order cr sc) c"
  obtain w where w: "addScene (sc_peer sc) a (cw_world ?c1) = Some w"
    using assms(2) Inr sc by (cases "addScene (sc_peer sc) a (cw_world ?c1)") (auto simp: on_connect_result_def Let_def)
  note sw = addScene_scenes [OF w]
  have f: "scene_of (?c1\<lparr>cw_world := w\<rparr>) = scene_of ?c1" "stage_of (?c1\<lparr>cw_world := w\<rparr>) = stage_of c"
    using sw by (simp_all add: scene_of_def stage_of_def put_scene_def fun_eq_iff)
  have "c' = set_stage a AwaitConnected (put_scene a (scene_setConnectionState (conn_state Connected) True
      (completeConnectionInitialization order cr sc)) (?c1\<lparr>cw_world := w\<rparr>))"
    using assms(2) Inr sc w f by (simp add: on_connect_result_def Let_def)
  then show ?thesis using assms(1) f by (simp add: attempt_only_def set_stage_at)
qed

lemma attempt_only_dead:
  assumes "dead_entry u e c" "client_wf X c" "attempt_only a c c'" "\<not> over (stage_of c a)"
  shows "dead_entry u e c'"
proof -
  have "ce_task e \<noteq> a" using assms(1,4) unfolding dead_entry_def by (metis over.simps(1))
  then show ?thesis using assms(3) by (intro dead_frame [OF assms(1,2)]) (auto simp: attempt_only_def)
qed

lemma erase_other_dead:
  assumes "dead_entry u e c" "client_wf X c" "v \<noteq> u"
  shows "dead_entry u e (erase_entry v c)"
  using assms(3) by (intro dead_frame [OF assms(1,2)]) (auto simp: erase_entry_nth)

lemma end_subscription_dead:
  assumes "dead_entry u e c" "client_wf X c"
  shows "dead_entry u e (end_subscription r c)"
  by (rule dead_frame [OF assms]) (auto simp: end_subscription_nth)

lemma put_scene_dead:
  assumes "dead_entry u e c" "scene_of c i = Some sc" "sc_completed sc \<Longrightarrow> sc_completed sc'"
  shows "dead_entry u e (put_scene i sc' c)"
  using assms by (auto simp: dead_entry_def)

text \<open>A subscription that has ended takes nothing out of the map.\<close>

definition mute_entry :: "string \<Rightarrow> client_scene \<Rightarrow> client \<Rightarrow> bool" where
  "mute_entry u e c \<longleftrightarrow> cw_scenes c u = Some e \<and> (\<exists>s. ce_subscription e = Some s \<and> s < length (cw_subs c) \<and> \<not> snd (snd (cw_subs c ! s)))"

lemma state_callback_mute:
  assumes "mute_entry u e c" "client_wf X c" "s < length (cw_subs c)"
  shows "mute_entry u e (state_callback i k s c)"
proof -
  obtain j v live where s: "cw_subs c ! s = (j, v, live)" by (metis prod_cases3)
  have "v \<noteq> u" if "live"
  proof
    assume "v = u"
    with that s have "sub_ok X c s j u" using client_wfD(3) [OF assms(2,3)] by simp
    then have "ce_subscription e = Some s" using assms(1) by (auto simp: sub_ok_def mute_entry_def)
    then show False using assms(1) s that by (auto simp: mute_entry_def)
  qed
  then have "mute_entry u e (erase_entry v c)" if live using assms(1) that by (auto simp: mute_entry_def erase_entry_nth)
  then show ?thesis using assms(1) by (simp add: state_callback_def s)
qed

lemma publish_mute:
  assumes "mute_entry u e c" "client_wf X c"
  shows "mute_entry u e (publish_state i c st)"
proof -
  have cb: "mute_entry u e (fold (state_callback i k) ss c)" if "\<forall>s \<in> set ss. s < length (cw_subs c)" for k ss
    using that assms
  proof (induction ss arbitrary: c)
    case (Cons s ss)
    then show ?case
      using state_callback_mute [OF Cons.prems(2,3), of s i k] state_callback_wf(1,2) [OF Cons.prems(3), of s i k] by simp
  qed simp
  let ?c1 = "fold (state_callback i (cs_state st)) [0..<length (cw_subs c)] c"
  have "mute_entry u e ?c1" using cb by simp
  then show ?thesis by (auto simp: publish_state_def Let_def mute_entry_def split: prod.splits)
qed

lemma dead_mute:
  assumes "client_wf X c"
  shows "dead_entry u e c \<longleftrightarrow> mute_entry u e c \<and> stage_of c (ce_task e) = Finished \<and>
    (\<exists>sc. scene_of c (ce_task e) = Some sc \<and> sc_completed sc)"
  using client_wfD(1) [OF assms, of u e] by (auto simp: dead_entry_def mute_entry_def entry_ok_def)

lemma publish_dead:
  assumes "dead_entry u e c" "client_wf X c"
  shows "dead_entry u e (publish_state i c st)"
  using publish_mute [OF _ assms(2), of u e i st] assms(1) dead_mute [OF assms(2), of u e]
  by (auto simp: dead_entry_def mute_entry_def scene_of_def stage_of_def publish_state_frame)

lemma run_scene_job_dead:
  assumes "dead_entry u e c" "client_wf {} c" "run_scene_job conns order junk i c = Some c'"
  shows "dead_entry u e c'"
proof (cases "scene_of c i")
  case (Some sc)
  then obtain es sc' where r: "run_next conns order junk sc = Some (es, sc')" "c' = scene_changed i sc' c"
    using assms(3) by (auto simp: run_scene_job_def)
  have m: "moved sc sc'" by (rule run_next_moved [OF _ r(1)]) (use scenes_okD [OF assms(2) Some] in simp)
  have d: "dead_entry u e (put_scene i sc' c)"
    by (rule put_scene_dead [OF assms(1) Some]) (use m in \<open>auto simp: moved_def\<close>)
  show ?thesis
  proof (cases "sc_published sc' = sc_published sc")
    case False
    then obtain st where "sc_published sc' = sc_published sc @ [st]" using m by (auto simp: moved_def)
    then show ?thesis using publish_dead [OF d put_scene_wf [OF assms(2) Some m]] Some by (simp add: r(2) scene_changed_def)
  qed (use d Some in \<open>simp add: r(2) scene_changed_def\<close>)
qed (use assms in \<open>simp add: run_scene_job_def\<close>)

lemma disconnect_scene_dead:
  assumes "dead_entry u e c" "client_wf X c" "own_entry i c"
  shows "dead_entry u e (snd (disconnect_scene i byServer reason c))"
proof (cases "\<exists>sc h. scene_of c i = Some sc \<and> cs_state (sc_state sc) = Connected \<and> sc_host sc = Some h")
  case True
  then obtain sc h where sc: "scene_of c i = Some sc" "cs_state (sc_state sc) = Connected" "sc_host sc = Some h" by blast
  have uri: "toUri (sc_address sc) = uri_of c i" using client_wfD(5) [OF assms(2) sc(1)] by (simp add: uri_of_def at_uri_def)
  have "uri_of c i \<noteq> u"
  proof
    assume "uri_of c i = u"
    then have "ce_task e = i" using assms(1,3) unfolding dead_entry_def own_entry_def by metis
    then have "sc_completed sc" using assms(1) sc(1) unfolding dead_entry_def by auto
    then show False using completed_disconnected [OF assms(2) sc(1)] sc(2) by simp
  qed
  note d = erase_other_dead [OF assms(1,2) this]
  let ?c = "(erase_entry (uri_of c i) c)\<lparr>cw_leaving := cw_leaving c @ [(i, AwaitDisconnecting (sp_handle h) byServer reason)]\<rparr>"
  have "dead_entry u e ?c" using d by (simp add: dead_entry_def)
  from put_scene_dead [OF this, of i sc "scene_setConnectionState (conn_state_because Disconnecting reason) True sc"]
  show ?thesis using sc uri by (simp add: disconnect_scene_def Let_def scene_setConnectionState_def)
next
  case False
  then have "snd (disconnect_scene i byServer reason c) = c"
    by (auto simp: disconnect_scene_def split: option.splits conn_kind.splits)
  then show ?thesis using assms(1) by simp
qed

lemma disconnects_dead:
  assumes "dead_entry u e c" "client_wf {} c" "own_entry i c"
  shows "dead_entry u e (fold (\<lambda>(_, byServer, reason) c. snd (disconnect_scene i byServer reason c)) ds c)"
  using assms
proof (induction ds arbitrary: c)
  case (Cons d ds)
  then show ?case using disconnect_scene_dead disconnect_scene_wf by (simp split: prod.splits)
qed simp

lemma finish_dead:
  assumes "dead_entry u e c" "client_wf {} c" "a < length (cw_attempts c)"
  shows "dead_entry u e (finish_attempt a c)"
proof -
  have ne: "ce_task e \<noteq> a" "uri_of c a \<noteq> u" if o: "\<not> over (stage_of c a)"
  proof -
    show "ce_task e \<noteq> a" using assms(1) o unfolding dead_entry_def by (metis over.simps(1))
    then show "uri_of c a \<noteq> u" using client_wfD(2) [OF assms(2,3) o] assms(1) unfolding dead_entry_def by auto
  qed
  show ?thesis
  proof (cases "stage_of c a")
    case Succeeded
    then have o: "\<not> over (stage_of c a)" by simp
    have d: "dead_entry u e (set_stage a Finished (subscribe_entry a (uri_of c a) c))"
    proof (rule dead_frame [OF assms(1,2)])
      obtain en where en: "cw_scenes c (uri_of c a) = Some en" using client_wfD(2) [OF assms(2,3) o] by blast
      show "cw_scenes (set_stage a Finished (subscribe_entry a (uri_of c a) c)) u = cw_scenes c u"
        using ne [OF o] by (simp add: subscribe_entry_def split: option.splits)
      show "snd (snd (cw_subs c ! s))" if "s < length (cw_subs c)"
        "snd (snd (cw_subs (set_stage a Finished (subscribe_entry a (uri_of c a) c)) ! s))" for s
        using that en by (simp add: subscribe_entry_def nth_append)
      show "stage_of (set_stage a Finished (subscribe_entry a (uri_of c a) c)) (ce_task e) = stage_of c (ce_task e)"
        using ne [OF o] by (simp add: stage_of_def set_stage_nth subscribe_entry_def split: option.splits)
      have "scene_of (subscribe_entry a (uri_of c a) c) = scene_of c"
        by (simp add: subscribe_entry_def scene_of_def fun_eq_iff split: option.splits)
      then show "\<exists>sc'. scene_of (set_stage a Finished (subscribe_entry a (uri_of c a) c)) (ce_task e) = Some sc' \<and> sc_completed sc'"
        if "scene_of c (ce_task e) = Some sc" "sc_completed sc" for sc
        using that by simp
    qed
    have "finish_attempt a c = fold (\<lambda>(a', byServer, reason) c. snd (disconnect_scene a byServer reason c))
        (filter (\<lambda>d. fst d = a) (cw_doomed c)) (set_stage a Finished (subscribe_entry a (uri_of c a) c))"
      using Succeeded by (simp add: finish_attempt_def stage_of_def uri_of_def)
    then show ?thesis using disconnects_dead [OF d subscribe_wf [OF assms(2,3) o]] by simp
  next
    case (Failing x)
    then have o: "\<not> over (stage_of c a)" by simp
    have "dead_entry u e (set_stage a (Failed_for x) (erase_entry (uri_of c a) c))"
      using ne [OF o] assms(3) by (intro dead_frame [OF assms(1,2)]) (auto simp: erase_entry_nth set_stage_at)
    then show ?thesis using Failing by (simp add: finish_attempt_def stage_of_def uri_of_def)
  qed (use assms(1) in \<open>simp_all add: finish_attempt_def stage_of_def\<close>)
qed

lemma disconnect_id_dead:
  assumes "dead_entry u e c" "client_wf {} c"
  shows "dead_entry u e (disconnect_id v byServer reason c)"
proof (cases "cw_scenes c v")
  case (Some en)
  have "own_entry (ce_task en) c" if "stage_of c (ce_task en) = Finished"
    using client_wfD(1) [OF assms(2) Some] Some that by (auto simp: own_entry_def entry_ok_def)
  moreover have "dead_entry u e (c\<lparr>cw_doomed := D\<rparr>)" for D using assms(1) by (simp add: dead_entry_def)
  ultimately show ?thesis
    using disconnect_scene_dead [OF assms] assms(1) Some by (simp add: disconnect_id_def stage_of_def)
qed (use assms in \<open>simp add: disconnect_id_def\<close>)

lemma post_disconnected_dead:
  assumes "dead_entry u e c"
  shows "dead_entry u e (post_disconnected i reason c)"
  using assms put_scene_dead [OF assms]
  by (auto simp: post_disconnected_def scene_setConnectionState_def split: option.splits)

lemma dead_world:
  assumes "dead_entry u e c" "sw_scenes w = sw_scenes (cw_world c)"
  shows "dead_entry u e (c\<lparr>cw_world := w\<rparr>)"
  using assms by (simp add: dead_entry_def stage_of_def scene_of_def)

lemma dead_leaving [simp]:
  "dead_entry u e (set_leaving l x c) = dead_entry u e c" "dead_entry u e (request q c) = dead_entry u e c"
  by (simp_all add: dead_entry_def set_leaving_def)

lemma leaving_dead:
  assumes "dead_entry u e c"
  shows "dead_entry u e (on_disconnecting l found c)" "dead_entry u e (on_disconnect_reply l c)"
  using assms dead_world [OF assms removeScene_scenes]
  by (auto simp: on_disconnecting_def on_disconnect_reply_def Let_def post_disconnected_dead
      split: prod.splits leaving.splits option.splits)

lemma visit_dead:
  assumes "dead_entry u e c" "client_wf {} c"
  shows "dead_entry u e (visit_entries us c)"
proof -
  have "dead_entry u e (fold (\<lambda>u c. case cw_scenes c u of None \<Rightarrow> c | Some e \<Rightarrow> end_subscription (ce_subscription e) c) us c)"
    using assms by (induction us arbitrary: c) (auto simp: end_subscription_wf end_subscription_dead split: option.splits)
  then show ?thesis by (simp add: visit_entries_def)
qed

lemma host_changed_dead:
  assumes "dead_entry u e c"
  shows "dead_entry u e (host_changed i s c)"
  using assms by (auto simp: host_changed_def host_state_changed_def Let_def dead_entry_def split: option.splits)

lemma connect_dead:
  assumes "dead_entry u e c" "client_wf {} c"
  shows "dead_entry u e (snd (connectToScene address isPublic token routes c))"
proof (cases "cw_scenes c (toUri address)")
  case None
  then have "toUri address \<noteq> u" "ce_task e < length (cw_attempts c)"
    using assms(1) client_wfD(1) [OF assms(2), of u e] by (auto simp: dead_entry_def entry_ok_def)
  then show ?thesis
    using None assms(1) by (simp add: connectToScene_def Let_def dead_entry_def stage_of_def scene_of_def nth_append)
qed (use assms in \<open>simp add: connectToScene_def\<close>)

lemma client_step_dead: "client_step c c' \<Longrightarrow> client_wf {} c \<Longrightarrow> dead_entry u e c \<Longrightarrow> dead_entry u e c'"
proof (induction rule: client_step.induct)
  case (endpoint a c r)
  then show ?case using attempt_only_dead attempt_only_ops(3) by (metis over.simps(3))
next
  case (connection a c r)
  then show ?case using attempt_only_dead attempt_only_ops(4) by (metis over.simps(4))
next
  case (infos a c k r)
  then show ?case using attempt_only_dead [OF infos(4,3) attempt_only_ops(5)] by simp
next
  case (metadata a c k i order r)
  then show ?case using attempt_only_dead [OF metadata(4,3) attempt_only_ops(6)] by simp
next
  case (connecting a c rs)
  then show ?case using attempt_only_dead [OF connecting(5,4) attempt_only_ops(7)] by simp
next
  case (result a c order r c')
  then show ?case using attempt_only_dead [OF result(5,4) attempt_only_result [OF result(1,3)]] by simp
next
  case (connected a c)
  then show ?case using attempt_only_dead [OF connected(5,4) attempt_only_ops(1)] by (simp add: on_connected_def)
next
  case (cancel a c)
  then have "\<not> over (stage_of c a)" by (cases "stage_of c a") simp_all
  then show ?case using attempt_only_dead [OF cancel(4,3) attempt_only_ops(1)] cancel(1) by (simp add: cancel_attempt_def)
next
  case (job conns order junk i c c')
  then show ?case using run_scene_job_dead by blast
next
  case (scene c i sc sc')
  then show ?case using put_scene_dead by blast
next
  case (leave i c byServer reason)
  then show ?case using disconnect_scene_dead by blast
qed (simp_all add: connect_dead finish_dead host_changed_dead disconnect_id_dead leaving_dead visit_dead)

lemma client_steps_dead:
  assumes "client_step\<^sup>*\<^sup>* c c'" "client_reach c" "dead_entry u e c"
  shows "client_reach c' \<and> dead_entry u e c'"
  using assms(1)
proof (induction rule: rtranclp_induct)
  case (step d d')
  then show ?case using client_step_dead [OF step(2) client_reach_wf] client_reach.step by blast
qed (use assms in blast)

lemma visit_mutes:
  assumes "u \<in> set us" "cw_scenes c u = Some e" "ce_subscription e = Some s" "s < length (cw_subs c)"
  shows "mute_entry u e (visit_entries us c)"
proof -
  let ?f = "\<lambda>u c. case cw_scenes c u of None \<Rightarrow> c | Some e \<Rightarrow> end_subscription (ce_subscription e) c"
  have keep: "mute_entry u e (fold ?f us c)" if "mute_entry u e c" for us c
    using that
  proof (induction us arbitrary: c)
    case (Cons v us)
    have "mute_entry u e (end_subscription r c)" for r
      using Cons.prems by (auto simp: mute_entry_def end_subscription_nth)
    then show ?case using Cons by (simp split: option.splits)
  qed simp
  have "mute_entry u e (fold ?f us c)"
    using assms
  proof (induction us arbitrary: c)
    case (Cons v us)
    show ?case
    proof (cases "v = u")
      case True
      then have "mute_entry u e (?f v c)" using Cons.prems by (auto simp: mute_entry_def end_subscription_nth)
      then show ?thesis using keep by simp
    next
      case False
      then show ?thesis using Cons by (simp split: option.splits)
    qed
  qed simp
  then show ?thesis by (simp add: visit_entries_def)
qed

lemma visit_frame: "cw_world (visit_entries us c) = cw_world c \<and> cw_attempts (visit_entries us c) = cw_attempts c \<and>
    cw_scenes (visit_entries us c) = cw_scenes c"
proof -
  let ?f = "\<lambda>u c. case cw_scenes c u of None \<Rightarrow> c | Some e \<Rightarrow> end_subscription (ce_subscription e) c"
  have "cw_world (fold ?f us c) = cw_world c \<and> cw_attempts (fold ?f us c) = cw_attempts c \<and> cw_scenes (fold ?f us c) = cw_scenes c"
    by (induction us arbitrary: c) (simp_all split: option.splits)
  then show ?thesis by (simp add: visit_entries_def)
qed

lemma finished_entry:
  assumes "client_wf X c" "cw_scenes c u = Some e" "ce_subscription e = Some s"
  shows "stage_of c (ce_task e) = Finished"
proof -
  have ok: "entry_ok c u e" by (rule client_wfD(1) [OF assms(1,2)])
  then have "over (stage_of c (ce_task e))"
    using client_wfD(2) [OF assms(1), of "ce_task e"] assms(2,3) by (auto simp: entry_ok_def)
  then show ?thesis using ok by (cases "stage_of c (ce_task e)") (simp_all add: entry_ok_def)
qed

text \<open>
  Listing the scenes of a client ends the subscriptions of the entries it copies. When
  the host of such a scene is lost after that, its entry stays in the map for good: whatever the
  client does, connecting to the scene's address gives the attempt that has finished, with a
  scene that is disconnected.
\<close>

theorem listed_scene_never_reconnects:
  assumes "client_reach c" "cw_scenes c u = Some e" "ce_subscription e = Some s"
    and "scene_of c (ce_task e) = Some sc" "cs_state (sc_state sc) = Connected" "sc_jobs sc = []" "u \<in> set us"
  shows "\<exists>c1 c2. run_scene_job conns order junk (ce_task e)
        (host_changed (ce_task e) (conn_state_because Disconnected r) (snd (getSceneIds us c))) = Some c1 \<and>
    run_scene_job conns order junk (ce_task e) c1 = Some c2 \<and>
    (\<forall>c'. client_step\<^sup>*\<^sup>* c2 c' \<longrightarrow>
       connectToScene (at_address (cw_attempts c' ! ce_task e)) isPublic token routes c' = (ce_task e, c') \<and>
       uri_of c' (ce_task e) = u \<and> (\<exists>sc'. scene_of c' (ce_task e) = Some sc' \<and> cs_state (sc_state sc') = Disconnected))"
proof -
  let ?i = "ce_task e"
  let ?c = "snd (getSceneIds us c)"
  have c: "?c = visit_entries us c" by (simp add: getSceneIds_def)
  have reach: "client_reach ?c" unfolding c by (rule client_reach.step [OF assms(1) client_step.visit])
  have "s < length (cw_subs c)"
    using client_wfD(1) [OF client_reach_wf [OF assms(1)] assms(2)] assms(3) by (simp add: entry_ok_def)
  then have m: "mute_entry u e ?c" unfolding c by (rule visit_mutes [OF assms(7,2,3)])
  have "scene_of ?c ?i = Some sc" using assms(4) visit_frame unfolding c by (simp add: scene_of_def)
  from host_loss_run [OF reach this assms(5,6), of r conns order junk]
  obtain ch sch where h: "host_changed ?i (conn_state_because Disconnected r) ?c = ch" "ch = put_scene ?i sch ?c" "client_reach ch"
    "moved sch (leaving_scene r sc)" "sc_published sch = sc_published sc"
    "run_scene_job conns order junk ?i ch = Some (scene_changed ?i (leaving_scene r sc) ch)"
    "client_reach (scene_changed ?i (leaving_scene r sc) ch)"
    "scene_of (scene_changed ?i (leaving_scene r sc) ch) ?i = Some (leaving_scene r sc)"
    "run_scene_job conns order junk ?i (scene_changed ?i (leaving_scene r sc) ch) =
        Some (scene_changed ?i (left_scene r sc) (scene_changed ?i (leaving_scene r sc) ch))"
    "scene_of (scene_changed ?i (left_scene r sc) (scene_changed ?i (leaving_scene r sc) ch)) ?i = Some (left_scene r sc)"
    "moved (leaving_scene r sc) (left_scene r sc)" by blast
  let ?c1 = "scene_changed ?i (leaving_scene r sc) ch"
  let ?c2 = "scene_changed ?i (left_scene r sc) ?c1"
  have m2: "mute_entry u e (scene_changed ?i sc2 d)"
    if "mute_entry u e d" "client_reach d" "scene_of d ?i = Some sc1" "moved sc1 sc2" "sc_published sc2 = sc_published sc1 @ [st]"
    for d sc1 sc2 st
  proof -
    have "mute_entry u e (put_scene ?i sc2 d)" using that(1) by (simp add: mute_entry_def)
    from publish_mute [OF this put_scene_wf [OF client_reach_wf [OF that(2)] that(3,4)]]
    show ?thesis using that(3,5) by (simp add: scene_changed_def)
  qed
  have "mute_entry u e ch" using m h(2) by (simp add: mute_entry_def)
  from m2 [OF this h(3) _ h(4)] have m1: "mute_entry u e ?c1" using h(2,5) left_published by simp
  have mc2: "mute_entry u e ?c2" by (rule m2 [OF m1 h(7,8,11) left_published(2)])
  have reach2: "client_reach ?c2" by (rule client_reach.step [OF h(7) client_step.job [OF h(9)]])
  have "dead_entry u e ?c2"
    using mc2 h(10) left_published(3) finished_entry [OF client_reach_wf [OF reach2]] by (auto simp: dead_entry_def mute_entry_def)
  note d = client_steps_dead [OF _ reach2 this]
  have "connectToScene (at_address (cw_attempts c' ! ?i)) isPublic token routes c' = (?i, c') \<and>
       uri_of c' ?i = u \<and> (\<exists>sc'. scene_of c' ?i = Some sc' \<and> cs_state (sc_state sc') = Disconnected)"
    if "client_step\<^sup>*\<^sup>* ?c2 c'" for c'
  proof -
    have wf: "client_wf {} c'" and dead: "dead_entry u e c'" using d [OF that] client_reach_wf by blast+
    obtain sc' where sc': "cw_scenes c' u = Some e" "scene_of c' ?i = Some sc'" "sc_completed sc'"
      using dead unfolding dead_entry_def by blast
    then have "toUri (at_address (cw_attempts c' ! ?i)) = u" using client_wfD(1) [OF wf] by (auto simp: entry_ok_def uri_of_def at_uri_def)
    then show ?thesis using sc' completed_disconnected [OF wf sc'(2,3)] by (simp add: connectToScene_def uri_of_def at_uri_def)
  qed
  then show ?thesis using h(1,6,9) by blast
qed

text \<open>
  A scene that is disconnected twice before the dispatcher has run takes the second time
  the entry of the attempt that has begun in between: the next attempt to connect runs beside it.
\<close>

theorem late_disconnect_doubles:
  assumes "client_reach c" "scene_of c i = Some sc" "cs_state (sc_state sc) = Connected" "sc_host sc = Some h"
    and "connectToScene (sc_address sc) True '''' routes (snd (disconnect_scene i byServer reason c)) = (a, c2)"
    and "connectToScene (sc_address sc) True '''' routes (snd (disconnect_scene i byServer2 reason2 c2)) = (b, c4)"
  shows "a \<noteq> b \<and> stage_of c4 a = AwaitEndpoint \<and> stage_of c4 b = AwaitEndpoint \<and>
    uri_of c4 a = toUri (sc_address sc) \<and> uri_of c4 b = toUri (sc_address sc)"
proof -
  let ?address = "sc_address sc"
  have d: "cw_attempts (snd (disconnect_scene i b r d)) = cw_attempts d \<and>
      cw_scenes (snd (disconnect_scene i b r d)) (toUri ?address) = None \<and>
      (\<exists>sc'. scene_of (snd (disconnect_scene i b r d)) i = Some sc' \<and> cs_state (sc_state sc') = Connected \<and>
        sc_host sc' = Some h \<and> sc_address sc' = ?address)"
    if "scene_of d i = Some t" "cs_state (sc_state t) = Connected" "sc_host t = Some h" "sc_address t = ?address" for d b r t
    using that by (simp add: disconnect_scene_def Let_def scene_setConnectionState_def) (simp add: post_job_def)
  let ?c1 = "snd (disconnect_scene i byServer reason c)"
  let ?c3 = "snd (disconnect_scene i byServer2 reason2 c2)"
  let ?at = "\<lparr>at_address = ?address, at_routes = routes, at_token = '''', at_stage = AwaitEndpoint\<rparr>"
  obtain sc1 where c1: "cw_attempts ?c1 = cw_attempts c" "cw_scenes ?c1 (toUri ?address) = None" "scene_of ?c1 i = Some sc1"
    "cs_state (sc_state sc1) = Connected" "sc_host sc1 = Some h" "sc_address sc1 = ?address"
    using d [OF assms(2-4) refl] by blast
  have c2: "cw_attempts c2 = cw_attempts c @ [?at]" "scene_of c2 i = Some sc1" "a = length (cw_attempts c)"
    using assms(5) c1 by (auto simp: connectToScene_def Let_def scene_of_def)
  have c3: "cw_attempts ?c3 = cw_attempts c2" "cw_scenes ?c3 (toUri ?address) = None"
    using d [OF c2(2) c1(4-6)] by blast+
  show ?thesis
    using c2(1,3) c3 assms(6) by (auto simp: connectToScene_def Let_def stage_of_def uri_of_def at_uri_def nth_append)
qed

section \<open>A disconnection\<close>

text \<open>
  All that happens to a scene that is disconnected when the repository has its connection, the
  server answers, and the dispatcher runs.
\<close>

definition disconnection_run ::
  "(nat \<Rightarrow> rnconn) \<Rightarrow> string list \<Rightarrow> u16 \<Rightarrow> nat \<Rightarrow> bool \<Rightarrow> string \<Rightarrow> client \<Rightarrow> client option" where
  "disconnection_run conns order junk i byServer reason c =
     (let l = length (cw_leaving c) in
      case run_scene_job conns order junk i (snd (disconnect_scene i byServer reason c)) of
        None \<Rightarrow> None
      | Some c2 \<Rightarrow>
          (let c3 = on_disconnecting l True c2 in
           run_scene_job conns order junk i (if byServer then c3 else on_disconnect_reply l c3)))"

lemma publish_leaving: "cw_leaving (publish_state i c s) = cw_leaving c"
proof -
  have "cw_leaving (fold (state_callback i k) ss c) = cw_leaving c" for k ss
    by (induction ss arbitrary: c) (simp_all add: state_callback_def split: prod.splits)
  then show ?thesis by (simp add: publish_state_def Let_def)
qed

lemma job_run:
  assumes "client_reach c" "scene_of c i = Some sc" "sc_jobs sc = [SetState [s]]" "\<not> cs_eq (sc_state sc) s" "\<not> sc_completed sc"
  shows "\<exists>c'. run_scene_job conns order junk i c = Some c' \<and> client_reach c' \<and> scene_of c' i = Some (stated s sc) \<and>
    cw_world c' = cw_world (put_scene i (stated s sc) c) \<and> cw_requests c' = cw_requests c \<and> cw_leaving c' = cw_leaving c \<and>
    (cw_scenes c u = None \<longrightarrow> cw_scenes c' u = None)"
proof -
  have r: "run_scene_job conns order junk i c = Some (scene_changed i (stated s sc) c)" by (rule run_state_job [OF assms(2-5)])
  have e: "scene_changed i (stated s sc) c = publish_state i (put_scene i (stated s sc) c) s"
    using assms(2) by (simp add: scene_changed_def)
  have "run_next conns order junk sc = Some ([], stated s sc)"
    using assms(3-5) by (simp add: run_next_def run_job_def setConnectionStateInternal_def stated_def)
  then have m: "moved sc (stated s sc)" using run_next_moved scenes_okD [OF client_reach_wf [OF assms(1)] assms(2)] by blast
  show ?thesis
    using r client_reach.step [OF assms(1) client_step.job [OF r]] scene_changed_wf(3) [OF client_reach_wf [OF assms(1)] assms(2) m]
      publish_mono [of "put_scene i (stated s sc) c" u i s]
    by (simp add: e publish_leaving publish_state_frame)
qed

text \<open>
  Disconnecting a connected scene takes its entry out of the map at once; the scene goes
  through \<open>Disconnecting\<close> to \<open>Disconnected\<close> with the reason, a disconnection under its handle is
  ignored from then on, and the server is asked exactly when it has not disconnected the scene itself.
\<close>

theorem scene_disconnects:
  assumes "client_reach c" "own_entry i c" "scene_of c i = Some sc" "cs_state (sc_state sc) = Connected" "sc_host sc = Some h"
    and "sc_jobs sc = []"
  shows "\<exists>c' sc'. disconnection_run conns order junk i byServer reason c = Some c' \<and> client_reach c' \<and>
    cw_scenes c' (uri_of c i) = None \<and> scene_of c' i = Some sc' \<and>
    sc_published sc' = sc_published sc @ [conn_state_because Disconnecting reason, conn_state_because Disconnected reason] \<and>
    disconnect_handle (sc_peer sc) (sp_handle h) byServer2 reason2 c' = (Some (Inr ()), c') \<and>
    cw_requests c' = cw_requests c @ (if byServer then [] else [DisconnectRequest (sc_peer sc) (sp_handle h)])"
proof -
  let ?because = "\<lambda>d. conn_state_because d reason"
  let ?l = "length (cw_leaving c)"
  let ?u = "uri_of c i"
  note wf = client_reach_wf [OF assms(1)]
  have nc: "\<not> sc_completed sc" using completed_disconnected [OF wf assms(3)] assms(4) by auto
  let ?c1 = "snd (disconnect_scene i byServer reason c)"
  let ?sc1 = "post_job (SetState [?because Disconnecting]) sc"
  have "toUri (sc_address sc) = ?u" using client_wfD(5) [OF wf assms(3)] by (simp add: uri_of_def at_uri_def)
  then have c1: "scene_of ?c1 i = Some ?sc1" "cw_requests ?c1 = cw_requests c" "cw_scenes ?c1 ?u = None"
    "cw_leaving ?c1 = cw_leaving c @ [(i, AwaitDisconnecting (sp_handle h) byServer reason)]"
    using assms(3-5) by (simp_all add: disconnect_scene_def Let_def scene_setConnectionState_def)
  have r1: "client_reach ?c1" by (rule client_reach.step [OF assms(1) client_step.leave [OF assms(2)]])
  have "\<not> cs_eq (sc_state ?sc1) (?because Disconnecting)" using assms(4) by (simp add: cs_eq_def conn_state_because_def)
  moreover have "sc_jobs ?sc1 = [SetState [?because Disconnecting]]" "\<not> sc_completed ?sc1" using assms(6) nc by simp_all
  ultimately obtain c2 where c2: "run_scene_job conns order junk i ?c1 = Some c2" "client_reach c2"
    "scene_of c2 i = Some (stated (?because Disconnecting) ?sc1)" "cw_requests c2 = cw_requests c" "cw_scenes c2 ?u = None"
    "cw_leaving c2 = cw_leaving c @ [(i, AwaitDisconnecting (sp_handle h) byServer reason)]"
    using job_run [OF r1 c1(1), of "?because Disconnecting" conns order junk ?u] c1(3) unfolding c1(2,4) by blast
  let ?sc2 = "stated (?because Disconnecting) ?sc1"
  let ?w = "removeScene (sc_peer sc) (sp_handle h) (cw_world c2)"
  let ?c3 = "on_disconnecting ?l True c2"
  let ?c4 = "if byServer then ?c3 else on_disconnect_reply ?l ?c3"
  have gone: "getScene (sc_peer sc) (sp_handle h) w = None" if "nt_handles (sw_net w) = nt_handles (sw_net ?w)" for w
    using that by (simp add: getScene_def removeScene_def set_handles_def lock_scene_def Let_def)
  have sw: "sw_scenes ?w i = Some ?sc2" using c2(3) removeScene_scenes by (simp add: scene_of_def)
  have p: "sc_peer ?sc2 = sc_peer sc" by (simp add: post_job_def)
  have l: "?l < length (cw_leaving c2)" "cw_leaving c2 ! ?l = (i, AwaitDisconnecting (sp_handle h) byServer reason)"
    using c2(6) by simp_all
  have r3: "client_reach ?c3" by (rule client_reach.step [OF c2(2) client_step.disconnecting [OF l(1)]])
  have sel: "scene_of ?c4 i = Some (post_job (SetState [?because Disconnected]) ?sc2)" "cw_scenes ?c4 ?u = None"
    "cw_requests ?c4 = cw_requests c @ (if byServer then [] else [DisconnectRequest (sc_peer sc) (sp_handle h)])"
    "nt_handles (sw_net (cw_world ?c4)) = nt_handles (sw_net ?w)" "?l < length (cw_leaving ?c3)"
    using c2(3-5) l sw p
    by (simp_all add: on_disconnecting_def on_disconnect_reply_def post_disconnected_def set_leaving_def Let_def
        scene_setConnectionState_def put_scene_def request_def scene_of_def)
  have r4: "client_reach ?c4" using r3 client_reach.step [OF r3 client_step.reply [OF sel(5)]] by simp
  have "\<not> cs_eq (sc_state (post_job (SetState [?because Disconnected]) ?sc2)) (?because Disconnected)"
    by (simp add: cs_eq_def conn_state_because_def)
  moreover have "sc_jobs (post_job (SetState [?because Disconnected]) ?sc2) = [SetState [?because Disconnected]]"
    "\<not> sc_completed (post_job (SetState [?because Disconnected]) ?sc2)" by (simp_all add: conn_state_because_def)
  ultimately obtain c' where c': "run_scene_job conns order junk i ?c4 = Some c'" "client_reach c'"
    "scene_of c' i = Some (stated (?because Disconnected) (post_job (SetState [?because Disconnected]) ?sc2))"
    "cw_world c' = cw_world (put_scene i (stated (?because Disconnected) (post_job (SetState [?because Disconnected]) ?sc2)) ?c4)"
    "cw_requests c' = cw_requests ?c4" "cw_scenes c' ?u = None"
    using job_run [OF r4 sel(1), of "?because Disconnected" conns order junk ?u] sel(2) by blast
  have "getScene (sc_peer sc) (sp_handle h) (cw_world c') = None" using gone sel(4) by (simp add: c'(4) put_scene_def)
  moreover have "disconnection_run conns order junk i byServer reason c = Some c'"
    using c2(1) c'(1) by (simp add: disconnection_run_def Let_def)
  ultimately show ?thesis using c'(2,3,5,6) sel(3) by (simp add: disconnect_handle_def)
qed

section \<open>Witnesses\<close>




definition demo_infos :: scene_infos where
  "demo_infos = \<lparr>si_metadata = Map.empty, si_routes = []\<rparr>"

definition demo_result :: connection_result where
  "demo_result = \<lparr>cr_sceneHandle = 141, cr_routeMappings = [''r'' \<mapsto> 5]\<rparr>"

definition demo_client :: client where
  "demo_client = the (connection_run (nt_conns demo_net) 0 demo_address [(''r'', 7, FromPeer, Map.empty)] ''t'' 0 ''msgpack/map''
     demo_infos [''r''] demo_result (Client demo_net))"

definition demo_made :: scene where
  "demo_made = snd (initializer_routes [(''r'', 7, FromPeer, Map.empty)] (Scene_Impl 0 demo_address demo_infos))"

definition demo_added_route :: route where
  "demo_added_route = \<lparr>rt_name = ''r'', rt_handle = 0, rt_filter = FromPeer, rt_metadata = Map.empty, rt_handlers = [7]\<rparr>"

lemma demo_added:
  "initializer_routes [(''r'', 7, FromPeer, Map.empty)] (Scene_Impl 0 demo_address demo_infos) = (Inr (), demo_made)"
  "sc_localRoutes demo_made = [''r'' \<mapsto> demo_added_route]" "sc_remoteRoutes demo_made = Map.empty"
  by (simp_all add: demo_made_def demo_added_route_def addRoute_def onMessage_def subscribe_route_def Scene_Impl_def conn_state_def
    Route_def demo_infos_def)

lemma demo_start: "client_reach (Client demo_net)" "cw_scenes (Client demo_net) u = None" "cw_doomed (Client demo_net) = []"
  "unat (getSceneIndex (cr_sceneHandle demo_result)) < 150" "cw_attempts (Client demo_net) = []" "cw_requests (Client demo_net) = []"
  by (rule client_reach.new) (simp_all add: Client_def demo_result_def getSceneIndex_def ID_SCENES_def)

theorem scene_connects_witness:
  "\<exists>c'. connection_run (nt_conns demo_net) 0 demo_address [(''r'', 7, FromPeer, Map.empty)] ''t'' 0 ''msgpack/map''
      demo_infos [''r''] demo_result (Client demo_net) = Some c' \<and>
    cw_requests c' = [EndpointRequest demo_address, ConnectionRequest ''c'', SceneInfosRequest 0 ''t'', MetadataRequest 0,
      ConnectRequest 0 ''t'' [(''r'', demo_added_route)]] \<and>
    getScene 0 141 (cw_world c') = Some 0 \<and> stage_of c' 0 = Finished"
  using scene_connects [OF demo_start(1,2,3) demo_added(1) demo_start(4), of "nt_conns demo_net" 0 "''t''" "''msgpack/map''" "[''r'']"]
  by (auto simp: demo_added(2) demo_start(5,6) demo_result_def demo_address_def)

lemma demo_client:
  "client_reach demo_client"
  "\<exists>sc. scene_of demo_client 0 = Some sc \<and> cs_state (sc_state sc) = Connected \<and> sc_jobs sc = [] \<and>
     sc_host sc = Some (ScenePeer 0 141 Map.empty)"
  "\<exists>e s. cw_scenes demo_client (toUri demo_address) = Some e \<and> ce_task e = 0 \<and> ce_subscription e = Some s \<and>
     snd (snd (cw_subs demo_client ! s))"
proof -
  obtain c' where c': "demo_client = c'" and f: "client_reach c'"
    "\<exists>sc'. scene_of c' 0 = Some sc' \<and> sc_state sc' = conn_state Connected \<and> sc_jobs sc' = [] \<and>
       sc_host sc' = Some (ScenePeer 0 141 Map.empty)"
    "\<exists>e s. cw_scenes c' (toUri demo_address) = Some e \<and> ce_task e = 0 \<and> ce_subscription e = Some s \<and>
       cw_subs c' ! s = (0, toUri demo_address, True)"
    using connection_succeeds [OF demo_start(1,2,3) demo_added(1) demo_start(4), of "nt_conns demo_net" 0 "''t''" "''msgpack/map''" "[''r'']"]
    by (auto simp: demo_start(5) demo_client_def demo_result_def demo_added(3))
  show "client_reach demo_client" using c' f(1) by simp
  show "\<exists>sc. scene_of demo_client 0 = Some sc \<and> cs_state (sc_state sc) = Connected \<and> sc_jobs sc = [] \<and>
     sc_host sc = Some (ScenePeer 0 141 Map.empty)" unfolding c' using f(2) by (auto simp: conn_state_def)
  obtain e s where e: "cw_scenes c' (toUri demo_address) = Some e" "ce_task e = 0" "ce_subscription e = Some s"
    "cw_subs c' ! s = (0, toUri demo_address, True)" using f(3) by blast
  show "\<exists>e s. cw_scenes demo_client (toUri demo_address) = Some e \<and> ce_task e = 0 \<and> ce_subscription e = Some s \<and>
     snd (snd (cw_subs demo_client ! s))" unfolding c' using e by (intro exI [of _ e] exI [of _ s]) simp
qed

theorem entries_sound_witness:
  "\<exists>e sc. cw_scenes demo_client (toUri demo_address) = Some e \<and> uri_of demo_client (ce_task e) = toUri demo_address \<and>
     scene_of demo_client (ce_task e) = Some sc \<and> \<not> sc_completed sc"
proof -
  obtain e s where e: "cw_scenes demo_client (toUri demo_address) = Some e" "ce_subscription e = Some s"
    "snd (snd (cw_subs demo_client ! s))" using demo_client(3) by blast
  from entries_sound [OF demo_client(1) e(1)] e show ?thesis by blast
qed

theorem host_loss_frees_uri_witness:
  "\<exists>e c1 c2. cw_scenes demo_client (toUri demo_address) = Some e \<and>
     run_scene_job (nt_conns demo_net) [] 0 (ce_task e)
       (host_changed (ce_task e) (conn_state_because Disconnected ''lost'') demo_client) = Some c1 \<and>
     run_scene_job (nt_conns demo_net) [] 0 (ce_task e) c1 = Some c2 \<and> cw_scenes c1 (toUri demo_address) = None \<and>
     map_option sc_state (scene_of c2 (ce_task e)) = Some (conn_state_because Disconnected ''lost'')"
proof -
  obtain e s where e: "cw_scenes demo_client (toUri demo_address) = Some e" "ce_task e = 0" "ce_subscription e = Some s"
    "snd (snd (cw_subs demo_client ! s))" using demo_client(3) by blast
  obtain sc where sc: "scene_of demo_client (ce_task e) = Some sc" "cs_state (sc_state sc) = Connected" "sc_jobs sc = []"
    using demo_client(2) e(2) by auto
  from host_loss_frees_uri [OF demo_client(1) e(1,3,4) sc, of "nt_conns demo_net" "[]" 0 "''lost''"] e(1)
  show ?thesis by blast
qed

theorem listed_scene_never_reconnects_witness:
  "\<exists>c1 c2. run_scene_job (nt_conns demo_net) [] 0 0
      (host_changed 0 (conn_state_because Disconnected ''lost'') (snd (getSceneIds [toUri demo_address] demo_client))) = Some c1 \<and>
    run_scene_job (nt_conns demo_net) [] 0 0 c1 = Some c2 \<and>
    connectToScene (at_address (cw_attempts c2 ! 0)) True '''' [] c2 = (0, c2) \<and> uri_of c2 0 = toUri demo_address \<and>
    map_option (\<lambda>sc. cs_state (sc_state sc)) (scene_of c2 0) = Some Disconnected"
proof -
  obtain e s where e: "cw_scenes demo_client (toUri demo_address) = Some e" "ce_task e = 0" "ce_subscription e = Some s"
    using demo_client(3) by blast
  obtain sc where sc: "scene_of demo_client (ce_task e) = Some sc" "cs_state (sc_state sc) = Connected" "sc_jobs sc = []"
    using demo_client(2) e(2) by auto
  from listed_scene_never_reconnects [OF demo_client(1) e(1,3) sc, of "[toUri demo_address]" "nt_conns demo_net" "[]" 0 "''lost''" True "''''" "[]"]
  obtain c1 c2 where c: "run_scene_job (nt_conns demo_net) [] 0 0
      (host_changed 0 (conn_state_because Disconnected ''lost'') (snd (getSceneIds [toUri demo_address] demo_client))) = Some c1"
    "run_scene_job (nt_conns demo_net) [] 0 0 c1 = Some c2"
    "connectToScene (at_address (cw_attempts c2 ! 0)) True '''' [] c2 = (0, c2) \<and> uri_of c2 0 = toUri demo_address \<and>
      (\<exists>sc'. scene_of c2 0 = Some sc' \<and> cs_state (sc_state sc') = Disconnected)"
    unfolding e(2) by auto
  then show ?thesis by (intro exI [of _ c1] exI [of _ c2]) auto
qed

theorem scene_disconnects_witness:
  "\<exists>c' sc'. disconnection_run (nt_conns demo_net) [] 0 0 False ''bye'' demo_client = Some c' \<and>
     cw_scenes c' (toUri demo_address) = None \<and> scene_of c' 0 = Some sc' \<and> last (sc_published sc') = conn_state_because Disconnected ''bye'' \<and>
     cw_requests c' = cw_requests demo_client @ [DisconnectRequest (sc_peer (the (scene_of demo_client 0))) 141]"
proof -
  obtain e s where e: "cw_scenes demo_client (toUri demo_address) = Some e" "ce_task e = 0" "ce_subscription e = Some s"
    using demo_client(3) by blast
  note wf = client_reach_wf [OF demo_client(1)]
  have u: "uri_of demo_client 0 = toUri demo_address" using client_wfD(1) [OF wf e(1)] e(2) by (simp add: entry_ok_def)
  have own: "own_entry 0 demo_client" using finished_entry [OF wf e(1,3)] e(1,2) u by (simp add: own_entry_def)
  obtain sc where sc: "scene_of demo_client 0 = Some sc" "cs_state (sc_state sc) = Connected" "sc_host sc = Some (ScenePeer 0 141 Map.empty)"
    "sc_jobs sc = []" using demo_client(2) by blast
  from scene_disconnects [OF demo_client(1) own sc, of "nt_conns demo_net" "[]" 0 False "''bye''" True "''''"]
  show ?thesis by (auto simp: u sc(1) ScenePeer_def)
qed

theorem late_disconnect_doubles_witness:
  "\<exists>sc a b c2 c4. scene_of demo_client 0 = Some sc \<and>
     connectToScene (sc_address sc) True '''' [] (snd (disconnect_scene 0 False ''x'' demo_client)) = (a, c2) \<and>
     connectToScene (sc_address sc) True '''' [] (snd (disconnect_scene 0 True ''y'' c2)) = (b, c4) \<and>
     a \<noteq> b \<and> stage_of c4 a = AwaitEndpoint \<and> stage_of c4 b = AwaitEndpoint \<and> uri_of c4 a = uri_of c4 b"
proof -
  obtain sc where sc: "scene_of demo_client 0 = Some sc" "cs_state (sc_state sc) = Connected" "sc_host sc = Some (ScenePeer 0 141 Map.empty)"
    using demo_client(2) by blast
  obtain a c2 where a: "connectToScene (sc_address sc) True '''' [] (snd (disconnect_scene 0 False ''x'' demo_client)) = (a, c2)"
    by fastforce
  obtain b c4 where b: "connectToScene (sc_address sc) True '''' [] (snd (disconnect_scene 0 True ''y'' c2)) = (b, c4)"
    by fastforce
  show ?thesis using late_disconnect_doubles [OF demo_client(1) sc a b] sc(1) a b by auto
qed

end
