(* ===== verification/Tunnels.thy ===== *)
theory Tunnels
  imports Transport SystemRequests
begin

text \<open>
  Tunnels between the sockets of games (\<^verbatim>\<open>P2P/RakNet/P2PTunnels.cpp\<close>,
  \<^verbatim>\<open>P2P/RakNet/P2PTunnelClient.cpp\<close>, \<^verbatim>\<open>P2P/P2PService.cpp\<close>), the packets they arrive in
  (\<^verbatim>\<open>P2P/P2PPacketDispatcher.cpp\<close>) and the relay (\<^verbatim>\<open>P2P/RelayConnection.cpp\<close>). Binding a socket is an
  argument, the port it gets or the exception; \<^verbatim>\<open>conn\<close> is the connection the repository has for
  an id. Both ends of a tunnel are modelled by the same definitions.
\<close>

section \<open>State\<close>

record server_descriptor =
  sd_id :: string
  sd_hostName :: string
  sd_port :: u16

text \<open>\<^verbatim>\<open>tc_socket\<close> is the port the socket is bound to.\<close>

record tunnel_client =
  tc_peerId :: u64
  tc_serverId :: string
  tc_socket :: u16
  tc_handle :: byte
  tc_serverSide :: bool
  tc_hostPort :: u16

record tunnels =
  ts_servers :: "string \<rightharpoonup> server_descriptor"
  ts_tunnels :: "u64 \<times> byte \<rightharpoonup> tunnel_client"

text \<open>
  \<^verbatim>\<open>P2PTunnel\<close> with what its destructor does. Nobody sets the side of a client's tunnel, which is
  \<^const>\<open>None\<close>.
\<close>

datatype P2PTunnelSide = Host | ClientSide

datatype tunnel_release = DestroyServer string | DestroyTunnel u64 byte | NoRelease

record p2p_tunnel =
  tu_ip :: string
  tu_port :: u16
  tu_side :: "P2PTunnelSide option"
  tu_id :: string
  tu_onRelease :: tunnel_release

record open_tunnel_result =
  ot_useTunnel :: bool
  ot_endpoint :: string
  ot_handle :: byte

definition P2PTunnels :: tunnels where
  "P2PTunnels = \<lparr>ts_servers = Map.empty, ts_tunnels = Map.empty\<rparr>"

section \<open>Opening\<close>

definition createServer :: "u16 \<Rightarrow> string \<Rightarrow> tunnels \<Rightarrow> p2p_tunnel \<times> tunnels" where
  "createServer serverGamePort serverId t =
     (\<lparr>tu_ip = ''127.0.0.1'', tu_port = serverGamePort, tu_side = Some Host, tu_id = serverId,
       tu_onRelease = DestroyServer serverId\<rparr>,
      t\<lparr>ts_servers := (ts_servers t)(serverId \<mapsto>
          \<lparr>sd_id = serverId, sd_hostName = ''127.0.0.1'', sd_port = serverGamePort\<rparr>)\<rparr>)"

text \<open>The connection the request \<^verbatim>\<open>ID_P2P_OPEN_TUNNEL\<close> goes to.\<close>

definition openTunnel :: "(u64 \<Rightarrow> nat option) \<Rightarrow> u64 \<Rightarrow> nat res" where
  "openTunnel conn connectionId =
     (case conn connectionId of
        None \<Rightarrow> Inl (RuntimeError ''No p2p connection established to the target peer'')
      | Some k \<Rightarrow> Inr k)"

text \<open>\<^verbatim>\<open>std::stoi\<close>: blanks, a sign, digits; no digits and values that are no \<^verbatim>\<open>int\<close> throw.\<close>

definition stoi :: "string \<Rightarrow> int res" where
  "stoi s =
     (let cs = dropWhile is_blank s;
          ds = (if cs \<noteq> [] \<and> (hd cs = CHR ''-'' \<or> hd cs = CHR ''+'') then tl cs else cs) in
      if ds = [] \<or> \<not> is_digit (hd ds) then Inl (InvalidArgument ''stoi'')
      else if atoi s < - 2147483648 \<or> 2147483647 < atoi s then Inl (OutOfRange ''stoi'')
      else Inr (atoi s))"

text \<open>
  The continuation with the result: \<open>bind\<close> is the socket bound to \<^verbatim>\<open>tunnelPort\<close>. An endpoint
  without a colon is indexed out of bounds.
\<close>

definition tunnel_client_of :: "u64 \<Rightarrow> string \<Rightarrow> byte \<Rightarrow> u16 \<Rightarrow> tunnel_client" where
  "tunnel_client_of connectionId serverId h port =
     \<lparr>tc_peerId = connectionId, tc_serverId = serverId, tc_socket = port, tc_handle = h,
      tc_serverSide = False, tc_hostPort = 0\<rparr>"

definition on_open_result ::
  "u16 res \<Rightarrow> u64 \<Rightarrow> string \<Rightarrow> open_tunnel_result \<Rightarrow> tunnels \<Rightarrow> (p2p_tunnel res \<times> tunnels) option" where
  "on_open_result bind connectionId serverId r t =
     (if ot_useTunnel r then
        (case bind of
           Inl e \<Rightarrow> Some (Inl e, t)
         | Inr port \<Rightarrow>
             Some (Inr \<lparr>tu_ip = ''127.0.0.1'', tu_port = port, tu_side = None, tu_id = serverId,
                        tu_onRelease = DestroyTunnel connectionId (ot_handle r)\<rparr>,
                   t\<lparr>ts_tunnels := (ts_tunnels t)((connectionId, ot_handle r) \<mapsto>
                        tunnel_client_of connectionId serverId (ot_handle r) port)\<rparr>))
      else
        (case stringSplit (ot_endpoint r) '':'' of
           None \<Rightarrow> None
         | Some el \<Rightarrow>
             if length el < 2 then None
             else Some (map_sum id
                    (\<lambda>p. \<lparr>tu_ip = el ! 0, tu_port = word_of_int p, tu_side = None, tu_id = serverId,
                          tu_onRelease = NoRelease\<rparr>) (stoi (el ! 1)), t)))"

text \<open>
  \<^verbatim>\<open>addClient\<close>, on the side of the server: the first handle below 255 that is free for the peer.
\<close>

definition free_handle :: "u64 \<Rightarrow> tunnels \<Rightarrow> byte option" where
  "free_handle peer t = find (\<lambda>h. ts_tunnels t (peer, h) = None) (map of_nat [0..<255])"

definition addClient :: "u16 res \<Rightarrow> string \<Rightarrow> u64 \<Rightarrow> tunnels \<Rightarrow> byte res \<times> tunnels" where
  "addClient bind serverId clientPeerId t =
     (case ts_servers t serverId of
        None \<Rightarrow> (Inl (RuntimeError ''The server does not exist''), t)
      | Some sd \<Rightarrow>
          (case free_handle clientPeerId t of
             None \<Rightarrow> (Inl (RuntimeError
                 ''Unable to create tunnel handle : Too many tunnels opened between the peers.''), t)
           | Some h \<Rightarrow>
               (case bind of
                  Inl e \<Rightarrow> (Inl e, t)
                | Inr port \<Rightarrow>
                    (Inr h, t\<lparr>ts_tunnels := (ts_tunnels t)((clientPeerId, h) \<mapsto>
                       \<lparr>tc_peerId = clientPeerId, tc_serverId = serverId, tc_socket = port, tc_handle = h,
                        tc_serverSide = True, tc_hostPort = sd_port sd\<rparr>)\<rparr>))))"

text \<open>
  The service \<^verbatim>\<open>ID_P2P_OPEN_TUNNEL\<close>: a client with a public address hands it out instead. The
  handle of that result is never set.
\<close>

definition open_tunnel_service ::
  "string \<Rightarrow> string \<Rightarrow> byte \<Rightarrow> u16 res \<Rightarrow> string \<Rightarrow> u64 \<Rightarrow> tunnels \<Rightarrow> open_tunnel_result res \<times> tunnels" where
  "open_tunnel_service dedicatedServerEndpoint ip_port junk bind serverId peerId t =
     (if dedicatedServerEndpoint = '''' then
        (case addClient bind serverId peerId t of
           (Inl e, t1) \<Rightarrow> (Inl e, t1)
         | (Inr h, t1) \<Rightarrow> (Inr \<lparr>ot_useTunnel = True, ot_endpoint = '''', ot_handle = h\<rparr>, t1))
      else (Inr \<lparr>ot_useTunnel = False, ot_endpoint = ip_port, ot_handle = junk\<rparr>, t))"

definition getIp_Port :: "(u16 \<Rightarrow> string) \<Rightarrow> string \<Rightarrow> u16 \<Rightarrow> string" where
  "getIp_Port shw dedicatedServerEndpoint serverGamePort = dedicatedServerEndpoint @ '':'' @ shw serverGamePort"

section \<open>Closing\<close>

definition closeTunnel :: "byte \<Rightarrow> u64 \<Rightarrow> tunnels \<Rightarrow> tunnels" where
  "closeTunnel h peerId t = t\<lparr>ts_tunnels := (ts_tunnels t)((peerId, h) := None)\<rparr>"

text \<open>
  The results are the requests \<^verbatim>\<open>ID_P2P_CLOSE_TUNNEL\<close>: connection and handle. \<open>order\<close> is the order
  of the map; the map of servers is left as it is.
\<close>

definition hosted :: "string \<Rightarrow> tunnels \<Rightarrow> u64 \<times> byte \<Rightarrow> bool" where
  "hosted serverId t key \<longleftrightarrow>
     (case ts_tunnels t key of None \<Rightarrow> False | Some c \<Rightarrow> tc_serverId c = serverId \<and> tc_serverSide c)"

definition destroyServer ::
  "(u64 \<Rightarrow> nat option) \<Rightarrow> (u64 \<times> byte) list \<Rightarrow> string \<Rightarrow> tunnels \<Rightarrow> (nat \<times> byte) list \<times> tunnels" where
  "destroyServer conn order serverId t =
     (let items = filter (hosted serverId t) order in
      (concat (map (\<lambda>key. case conn (tc_peerId (the (ts_tunnels t key))) of None \<Rightarrow> [] | Some k \<Rightarrow> [(k, snd key)]) items),
       t\<lparr>ts_tunnels := fold (\<lambda>key m. m(key := None)) items (ts_tunnels t)\<rparr>))"

definition destroyTunnel :: "(u64 \<Rightarrow> nat option) \<Rightarrow> u64 \<Rightarrow> byte \<Rightarrow> tunnels \<Rightarrow> (nat \<times> byte) list \<times> tunnels" where
  "destroyTunnel conn peerId h t =
     (case ts_tunnels t (peerId, h) of
        None \<Rightarrow> ([], t)
      | Some c \<Rightarrow>
          (case conn (tc_peerId c) of None \<Rightarrow> [] | Some k \<Rightarrow> [(k, h)], t\<lparr>ts_tunnels := (ts_tunnels t)((peerId, h) := None)\<rparr>))"

definition release_tunnel ::
  "(u64 \<Rightarrow> nat option) \<Rightarrow> (u64 \<times> byte) list \<Rightarrow> p2p_tunnel \<Rightarrow> tunnels \<Rightarrow> (nat \<times> byte) list \<times> tunnels" where
  "release_tunnel conn order tu t =
     (case tu_onRelease tu of
        DestroyServer s \<Rightarrow> destroyServer conn order s t
      | DestroyTunnel p h \<Rightarrow> destroyTunnel conn p h t
      | NoRelease \<Rightarrow> ([], t))"

section \<open>Data\<close>

text \<open>
  A datagram for the socket of a tunnel. The ones that come from the socket's own port are
  ignored; the others go to the peer, and their port is where the answers go. The answer is
  the connection, the name of the channel and the writer. \<open>shw\<close> is \<^verbatim>\<open>operator<<\<close> of the id.
\<close>

definition tunnel_writer :: "byte \<Rightarrow> byte list \<Rightarrow> writer" where
  "tunnel_writer h data = Some (\<lambda>s. Inr (owrite data (serialize h (serialize ID_P2P_TUNNEL s))))"

definition onMsgReceived ::
  "(u64 \<Rightarrow> nat option) \<Rightarrow> (u64 \<Rightarrow> string) \<Rightarrow> u64 \<times> byte \<Rightarrow> u16 \<Rightarrow> byte list \<Rightarrow> tunnels \<Rightarrow>
    (nat \<times> string \<times> writer) option \<times> tunnels" where
  "onMsgReceived conn shw key port data t =
     (case ts_tunnels t key of
        None \<Rightarrow> (None, t)
      | Some c \<Rightarrow>
          (case conn (tc_peerId c) of
             None \<Rightarrow> (None, t)
           | Some k \<Rightarrow>
               (Some (k, ''P2PTunnels_'' @ shw (tc_peerId c), tunnel_writer (tc_handle c) data),
                t\<lparr>ts_tunnels := (ts_tunnels t)(key \<mapsto> if tc_hostPort c \<noteq> port then c\<lparr>tc_hostPort := port\<rparr> else c)\<rparr>)))"

definition OnRNS2Recv ::
  "(u64 \<Rightarrow> nat option) \<Rightarrow> (u64 \<Rightarrow> string) \<Rightarrow> u64 \<times> byte \<Rightarrow> u16 \<Rightarrow> byte list \<Rightarrow> tunnels \<Rightarrow>
    (nat \<times> string \<times> writer) option \<times> tunnels" where
  "OnRNS2Recv conn shw key port data t =
     (case ts_tunnels t key of
        None \<Rightarrow> (None, t)
      | Some c \<Rightarrow> if port \<noteq> tc_socket c then onMsgReceived conn shw key port data t else (None, t))"

text \<open>\<^verbatim>\<open>std::basic_istream::readsome\<close>: what is there, at most \<open>n\<close> bytes.\<close>

definition ireadsome :: "nat \<Rightarrow> istr \<Rightarrow> byte list \<times> istr" where
  "ireadsome n s =
     (if \<not> igood s then ([], s\<lparr>i_fail := True\<rparr>)
      else
        (let k = in_avail (ibuf s) in
         if k = -1 then ([], s\<lparr>i_eof := True\<rparr>)
         else if k = 0 then ([], s)
         else case xsgetn (min k (int n)) (ibuf s) of (xs, _, b) \<Rightarrow> (xs, s\<lparr>ibuf := b\<rparr>)))"

text \<open>
  \<^verbatim>\<open>receiveFrom\<close>: the handle, then at most 1464 bytes, which the tunnel's socket sends to the
  port of the game. The datagram is the socket, the port and the data.
\<close>

definition receiveFrom ::
  "byte \<Rightarrow> u64 \<Rightarrow> istr \<Rightarrow> tunnels \<Rightarrow> (u16 \<times> u16 \<times> byte list) option \<times> istr" where
  "receiveFrom junk i s t =
     (case iread 1 s of (hs, s1) \<Rightarrow>
        (case ireadsome 1464 s1 of (data, s2) \<Rightarrow>
           (case ts_tunnels t (i, if hs = [] then junk else hd hs) of
              None \<Rightarrow> (None, s2)
            | Some c \<Rightarrow> (Some (tc_socket c, tc_hostPort c, data), s2))))"

section \<open>Packets\<close>

text \<open>
  \<open>tw_ids\<close> are the ids of the connections, \<open>tw_conn\<close> finds them by id, \<open>tw_out\<close> are the datagrams
  the sockets have sent. \<open>unpack\<close> reads the id of a peer with msgpack.
\<close>

record tunnel_world =
  tw_tunnels :: tunnels
  tw_ids :: "nat \<Rightarrow> u64"
  tw_conn :: "u64 \<Rightarrow> nat option"
  tw_out :: "(u16 \<times> u16 \<times> byte list) list"

definition relay_processor :: "(istr \<Rightarrow> u64 res \<times> istr) \<Rightarrow> tunnel_world handler" where
  "relay_processor unpack p w =
     (case unpack (p_stream p) of
        (Inl e, s) \<Rightarrow> (Inl e, p\<lparr>p_stream := s\<rparr>, w)
      | (Inr peerId, s) \<Rightarrow>
          (case tw_conn w peerId of
             None \<Rightarrow> (Inl (RuntimeError ''ID_P2P_RELAY processor: Connection for peer Id was not found''), p\<lparr>p_stream := s\<rparr>, w)
           | Some k \<Rightarrow> (Inr False, p\<lparr>p_stream := s, p_conn := k\<rparr>, w)))"

definition tunnel_processor :: "byte \<Rightarrow> tunnel_world handler" where
  "tunnel_processor junk p w =
     (case receiveFrom junk (tw_ids w (p_conn p)) (p_stream p) (tw_tunnels w) of (d, s) \<Rightarrow>
        (Inr True, p\<lparr>p_stream := s\<rparr>, w\<lparr>tw_out := tw_out w @ (case d of None \<Rightarrow> [] | Some x \<Rightarrow> [x])\<rparr>))"

definition p2p_registerProcessor ::
  "(istr \<Rightarrow> u64 res \<times> istr) \<Rightarrow> byte \<Rightarrow> tunnel_world dispatcher \<Rightarrow> tunnel_world dispatcher res" where
  "p2p_registerProcessor unpack junk d =
     bind_res (addProcessor ID_P2P_RELAY (relay_processor unpack) d) (addProcessor ID_P2P_TUNNEL (tunnel_processor junk))"

text \<open>
  \<^verbatim>\<open>RelayConnection::send\<close>: what goes to the server. \<open>pack\<close> writes a value with msgpack; the
  session id is decoded from its base64 form.
\<close>

definition relay_writer ::
  "(byte list \<Rightarrow> byte list) \<Rightarrow> (byte \<Rightarrow> byte list) \<Rightarrow> byte list \<Rightarrow> byte \<Rightarrow> byte \<Rightarrow> writer \<Rightarrow> writer" where
  "relay_writer pack_bytes pack sessionId priority reliability w =
     Some (\<lambda>s. run_writer w (owrite (pack reliability) (owrite (pack priority) (owrite (pack_bytes sessionId)
       (serialize ID_P2P_RELAY s)))))"

section \<open>Handles\<close>

lemma find_None: "find P xs = None \<longleftrightarrow> (\<forall>x \<in> set xs. \<not> P x)"
  by (induction xs) auto

lemma find_in: "find P xs = Some x \<Longrightarrow> x \<in> set xs \<and> P x"
  by (induction xs) (auto split: if_splits)

lemma free_handle_Some:
  assumes "free_handle p t = Some h"
  shows "unat h < 255" "ts_tunnels t (p, h) = None"
proof -
  have "h \<in> set (map of_nat [0..<255])" "ts_tunnels t (p, h) = None"
    using find_in assms unfolding free_handle_def by fastforce+
  then show "unat h < 255" "ts_tunnels t (p, h) = None" by (auto simp: unat_of_nat)
qed

lemma free_handle_None: "free_handle p t = None \<longleftrightarrow> (\<forall>h. unat h < 255 \<longrightarrow> ts_tunnels t (p, h) \<noteq> None)"
proof -
  have "free_handle p t = None \<longleftrightarrow> (\<forall>n < 255. ts_tunnels t (p, of_nat n) \<noteq> None)"
    by (auto simp: free_handle_def find_None)
  also have "\<dots> \<longleftrightarrow> (\<forall>h. unat h < 255 \<longrightarrow> ts_tunnels t (p, h) \<noteq> None)"
  proof
    assume l: "\<forall>n < 255. ts_tunnels t (p, of_nat n) \<noteq> None"
    show "\<forall>h. unat h < 255 \<longrightarrow> ts_tunnels t (p, h) \<noteq> None"
    proof (intro allI impI)
      fix h :: byte assume "unat h < 255"
      then have "ts_tunnels t (p, of_nat (unat h)) \<noteq> None" using l by blast
      then show "ts_tunnels t (p, h) \<noteq> None" by simp
    qed
  next
    assume r: "\<forall>h. unat h < 255 \<longrightarrow> ts_tunnels t (p, h) \<noteq> None"
    show "\<forall>n < 255. ts_tunnels t (p, of_nat n) \<noteq> None"
    proof (intro allI impI)
      fix n :: nat assume "n < 255"
      then have "unat (of_nat n :: byte) < 255" by (simp add: unat_of_nat)
      then show "ts_tunnels t (p, of_nat n) \<noteq> None" using r by blast
    qed
  qed
  finally show ?thesis .
qed

lemma free_handle_0: "ts_tunnels t (p, 0) = None \<Longrightarrow> free_handle p t = Some 0"
  by (simp add: free_handle_def upt_conv_Cons)

text \<open>
  A client that is added to a registered server gets a handle below 255 that no tunnel
  with this peer had, and the tunnels there were stay as they are; it is refused exactly when
  all 255 handles are taken, and then nothing changes.
\<close>

theorem tunnel_handles_fresh:
  assumes "ts_servers t serverId = Some sd"
  shows "case addClient (Inr port) serverId peer t of
      (Inr h, t') \<Rightarrow> unat h < 255 \<and> ts_tunnels t (peer, h) = None \<and>
        t' = t\<lparr>ts_tunnels := (ts_tunnels t)((peer, h) \<mapsto>
          \<lparr>tc_peerId = peer, tc_serverId = serverId, tc_socket = port, tc_handle = h, tc_serverSide = True,
           tc_hostPort = sd_port sd\<rparr>)\<rparr>
    | (Inl _, t') \<Rightarrow> t' = t \<and> (\<forall>h. unat h < 255 \<longrightarrow> ts_tunnels t (peer, h) \<noteq> None)"
  using assms free_handle_Some [of peer t] free_handle_None [of peer t]
  by (cases "free_handle peer t") (simp_all add: addClient_def)

section \<open>Two peers\<close>

text \<open>
  Two peers with the ids \<open>a\<close> and \<open>b\<close> for each other, whose requests are answered before the next one
  is made. What one side closes it asks the other side to close.
\<close>

definition deliver_close :: "u64 \<Rightarrow> (nat \<times> byte) list \<Rightarrow> tunnels \<Rightarrow> tunnels" where
  "deliver_close peer reqs t = fold (\<lambda>r. closeTunnel (snd r) peer) reqs t"

text \<open>
  \<open>LA\<close> and \<open>LB\<close> are the handles that one side gave the other for nothing: the opener's socket
  could not be bound, or the answer did not come. Such a handle is forgotten when the other side
  uses it for a tunnel of its own or one side asks to close it.
\<close>

inductive tunnel_run :: "u64 \<Rightarrow> u64 \<Rightarrow> byte set \<Rightarrow> byte set \<Rightarrow> tunnels \<Rightarrow> tunnels \<Rightarrow> bool" where
  start: "tunnel_run a b {} {} P2PTunnels P2PTunnels"
| swap: "tunnel_run a b LA LB A B \<Longrightarrow> tunnel_run b a LB LA B A"
| server: "tunnel_run a b LA LB A B \<Longrightarrow> tunnel_run a b LA LB (snd (createServer port s A)) B"
| opened: "tunnel_run a b LA LB A B \<Longrightarrow> open_tunnel_service '''' ip junk (Inr q) s b A = (Inr r, A') \<Longrightarrow>
    on_open_result (Inr q2) a s r B = Some (Inr tu, B') \<Longrightarrow>
    tunnel_run a b (LA - {ot_handle r}) (LB - {ot_handle r}) A' B'"
| unbound: "tunnel_run a b LA LB A B \<Longrightarrow> open_tunnel_service '''' ip junk (Inr q) s b A = (Inr r, A') \<Longrightarrow>
    on_open_result (Inl e) a s r B = Some (Inl e, B') \<Longrightarrow> tunnel_run a b (insert (ot_handle r) LA) LB A' B'"
| unanswered: "tunnel_run a b LA LB A B \<Longrightarrow> open_tunnel_service '''' ip junk (Inr q) s b A = (Inr r, A') \<Longrightarrow>
    tunnel_run a b (insert (ot_handle r) LA) LB A' B"
| refused: "tunnel_run a b LA LB A B \<Longrightarrow> open_tunnel_service '''' ip junk q s b A = (Inl e, A') \<Longrightarrow> tunnel_run a b LA LB A' B"
| closed: "tunnel_run a b LA LB A B \<Longrightarrow> conn b = Some k \<Longrightarrow> destroyTunnel conn b h A = (reqs, A') \<Longrightarrow>
    tunnel_run a b (LA - snd ` set reqs) (LB - snd ` set reqs) A' (deliver_close a reqs B)"
| destroyed: "tunnel_run a b LA LB A B \<Longrightarrow> conn b = Some k \<Longrightarrow> set order = dom (ts_tunnels A) \<Longrightarrow>
    destroyServer conn order s A = (reqs, A') \<Longrightarrow>
    tunnel_run a b (LA - snd ` set reqs) (LB - snd ` set reqs) A' (deliver_close a reqs B)"
| data: "tunnel_run a b LA LB A B \<Longrightarrow> tunnel_run a b LA LB (snd (OnRNS2Recv conn shw key port d A)) B"

text \<open>Two peers without such handles.\<close>

definition tunnel_pair :: "u64 \<Rightarrow> u64 \<Rightarrow> tunnels \<Rightarrow> tunnels \<Rightarrow> bool" where
  "tunnel_pair a b A B \<longleftrightarrow> tunnel_run a b {} {} A B"

text \<open>
  Both ends of every tunnel are there, one on the side of the server, for the same server; of a
  handle given for nothing only the server's end is.
\<close>

definition two_ends :: "tunnel_client \<Rightarrow> tunnel_client \<Rightarrow> bool" where
  "two_ends c d \<longleftrightarrow> tc_serverSide c \<noteq> tc_serverSide d \<and> tc_serverId c = tc_serverId d"

definition ends_ok :: "bool \<Rightarrow> bool \<Rightarrow> tunnel_client option \<Rightarrow> tunnel_client option \<Rightarrow> bool" where
  "ends_ok la lb x y \<longleftrightarrow>
     (\<not> la \<and> \<not> lb \<longrightarrow> rel_option two_ends x y) \<and>
     (la \<longrightarrow> (\<exists>c. x = Some c \<and> tc_serverSide c) \<and> (\<not> lb \<longrightarrow> y = None)) \<and>
     (lb \<longrightarrow> (\<exists>d. y = Some d \<and> tc_serverSide d) \<and> (\<not> la \<longrightarrow> x = None))"

definition mirrored :: "u64 \<Rightarrow> u64 \<Rightarrow> byte set \<Rightarrow> byte set \<Rightarrow> tunnels \<Rightarrow> tunnels \<Rightarrow> bool" where
  "mirrored a b LA LB A B \<longleftrightarrow> (\<forall>h. ends_ok (h \<in> LA) (h \<in> LB) (ts_tunnels A (b, h)) (ts_tunnels B (a, h)))"

definition keyed_client :: "u64 \<Rightarrow> u64 \<Rightarrow> byte \<Rightarrow> tunnel_client \<Rightarrow> bool" where
  "keyed_client p q h c \<longleftrightarrow> q = p \<and> tc_peerId c = p \<and> tc_handle c = h"

definition keyed_by :: "u64 \<Rightarrow> tunnels \<Rightarrow> bool" where
  "keyed_by p t \<longleftrightarrow> (\<forall>q h. pred_option (keyed_client p q h) (ts_tunnels t (q, h)))"

lemma keyed_byD: "keyed_by p t \<Longrightarrow> ts_tunnels t (q, h) = Some c \<Longrightarrow> keyed_client p q h c"
  unfolding keyed_by_def by (metis option.pred_inject(2))

lemma keyed_by_upd: "keyed_by p t \<Longrightarrow> keyed_client p q h c \<Longrightarrow> keyed_by p (t\<lparr>ts_tunnels := (ts_tunnels t)((q, h) \<mapsto> c)\<rparr>)"
  by (simp add: keyed_by_def)

lemma keyed_by_sub:
  "keyed_by p t \<Longrightarrow> (\<And>x. ts_tunnels t' x = None \<or> ts_tunnels t' x = ts_tunnels t x) \<Longrightarrow> keyed_by p t'"
  unfolding keyed_by_def by (metis option.pred_inject(1))

lemma ends_ok_swap: "ends_ok la lb x y \<Longrightarrow> ends_ok lb la y x"
  by (cases x; cases y) (auto simp: ends_ok_def two_ends_def)

lemma mirrored_swap: "mirrored a b LA LB A B \<Longrightarrow> mirrored b a LB LA B A"
  unfolding mirrored_def using ends_ok_swap by blast

lemma deliver_close_nth:
  "ts_tunnels (deliver_close p reqs t) (i, h) = (if i = p \<and> h \<in> snd ` set reqs then None else ts_tunnels t (i, h))"
  by (induction reqs arbitrary: t) (auto simp: deliver_close_def closeTunnel_def)

lemma deliver_close_keyed: "keyed_by q t \<Longrightarrow> keyed_by q (deliver_close p reqs t)"
  by (erule keyed_by_sub) (metis deliver_close_nth prod.collapse)

lemma fold_erase: "fold (\<lambda>k m. m(k := None)) ks m x = (if x \<in> set ks then None else m x)"
  by (induction ks arbitrary: m) auto

lemma destroyServer_nth:
  "ts_tunnels (snd (destroyServer conn order s t)) x = (if x \<in> set order \<and> hosted s t x then None else ts_tunnels t x)"
  by (simp add: destroyServer_def Let_def fold_erase)

lemma destroyServer_requests:
  assumes "keyed_by p t" "conn p = Some k" "set order = dom (ts_tunnels t)"
  shows "set (fst (destroyServer conn order s t)) = {(k, h) | h. hosted s t (p, h)}"
proof -
  have key: "tc_peerId (the (ts_tunnels t x)) = p" "fst x = p" if "hosted s t x" for x
    using that keyed_byD [OF assms(1), of "fst x" "snd x"] by (auto simp: hosted_def keyed_client_def split: option.splits)
  have "set (fst (destroyServer conn order s t)) = (\<lambda>x. (k, snd x)) ` {x \<in> set order. hosted s t x}"
    using key assms(2) by (force simp: destroyServer_def Let_def)
  also have "\<dots> = {(k, h) | h. hosted s t (p, h)}"
  proof -
    have "x \<in> set order" if "hosted s t x" for x using that assms(3) by (auto simp: hosted_def split: option.splits)
    then show ?thesis using key(2) by force
  qed
  finally show ?thesis .
qed

definition hosted_client :: "u64 \<Rightarrow> string \<Rightarrow> u16 \<Rightarrow> byte \<Rightarrow> server_descriptor \<Rightarrow> tunnel_client" where
  "hosted_client p s port h sd =
     \<lparr>tc_peerId = p, tc_serverId = s, tc_socket = port, tc_handle = h, tc_serverSide = True, tc_hostPort = sd_port sd\<rparr>"

lemma addClient_Inr:
  assumes "addClient bind s p t = (Inr h, t')"
  shows "\<exists>port sd. bind = Inr port \<and> ts_servers t s = Some sd \<and> free_handle p t = Some h \<and>
    t' = t\<lparr>ts_tunnels := (ts_tunnels t)((p, h) \<mapsto> hosted_client p s port h sd)\<rparr>"
  using assms by (auto simp: addClient_def hosted_client_def split: option.splits sum.splits)

lemma open_tunnel_service_Inr:
  assumes "open_tunnel_service '''' ip junk bind s b A = (Inr r, A')"
  obtains h c where "r = \<lparr>ot_useTunnel = True, ot_endpoint = '''', ot_handle = h\<rparr>" "ts_tunnels A (b, h) = None"
    "A' = A\<lparr>ts_tunnels := (ts_tunnels A)((b, h) \<mapsto> c)\<rparr>" "tc_serverSide c" "tc_serverId c = s" "keyed_client b b h c"
proof -
  obtain h where h: "addClient bind s b A = (Inr h, A')" "r = \<lparr>ot_useTunnel = True, ot_endpoint = '''', ot_handle = h\<rparr>"
    using assms by (auto simp: open_tunnel_service_def split: prod.splits sum.splits)
  from addClient_Inr [OF h(1)] obtain port sd where "free_handle b A = Some h"
    "A' = A\<lparr>ts_tunnels := (ts_tunnels A)((b, h) \<mapsto> hosted_client b s port h sd)\<rparr>" by blast
  then show ?thesis
    using that [of h "hosted_client b s port h sd"] h(2) free_handle_Some [of b A h]
    by (simp add: hosted_client_def keyed_client_def)
qed

lemma opened_mirrored:
  assumes "mirrored a b LA LB A B" "open_tunnel_service '''' ip junk bind s b A = (Inr r, A')"
  shows "on_open_result (Inr q2) a s r B = Some (Inr tu, B') \<Longrightarrow>
      mirrored a b (LA - {ot_handle r}) (LB - {ot_handle r}) A' B'"
    "mirrored a b (insert (ot_handle r) LA) LB A' B"
proof -
  from assms(2) obtain h c where c: "r = \<lparr>ot_useTunnel = True, ot_endpoint = '''', ot_handle = h\<rparr>" "ts_tunnels A (b, h) = None"
    "A' = A\<lparr>ts_tunnels := (ts_tunnels A)((b, h) \<mapsto> c)\<rparr>" "tc_serverSide c" "tc_serverId c = s"
    by (rule open_tunnel_service_Inr)
  have m: "ends_ok (i \<in> LA) (i \<in> LB) (ts_tunnels A (b, i)) (ts_tunnels B (a, i))" for i
    using assms(1) by (simp add: mirrored_def)
  show "mirrored a b (LA - {ot_handle r}) (LB - {ot_handle r}) A' B'" if "on_open_result (Inr q2) a s r B = Some (Inr tu, B')"
  proof -
    have B': "B' = B\<lparr>ts_tunnels := (ts_tunnels B)((a, h) \<mapsto> tunnel_client_of a s h q2)\<rparr>"
      using that c(1) by (simp add: on_open_result_def)
    have "ends_ok (i \<in> LA - {h}) (i \<in> LB - {h}) (ts_tunnels A' (b, i)) (ts_tunnels B' (a, i))" for i
      using m [of i] c(4,5) by (cases "i = h") (simp_all add: c(3) B' ends_ok_def two_ends_def tunnel_client_of_def)
    then show ?thesis by (simp add: mirrored_def c(1))
  qed
  have "ends_ok (i \<in> insert h LA) (i \<in> LB) (ts_tunnels A' (b, i)) (ts_tunnels B (a, i))" for i
    using m [of i] c(2,4) by (cases "i = h") (auto simp: c(3) ends_ok_def)
  then show "mirrored a b (insert (ot_handle r) LA) LB A' B" by (simp add: mirrored_def c(1))
qed

lemma OnRNS2Recv_cases:
  "snd (OnRNS2Recv conn shw key port d t) = t \<or>
   (\<exists>c. ts_tunnels t key = Some c \<and> snd (OnRNS2Recv conn shw key port d t) = t\<lparr>ts_tunnels := (ts_tunnels t)(key \<mapsto> c\<lparr>tc_hostPort := port\<rparr>)\<rparr>)"
  by (auto simp: OnRNS2Recv_def onMsgReceived_def split: option.splits)

lemma keyed_by_steps:
  assumes "keyed_by p t"
  shows "keyed_by p (snd (createServer port s t))"
    "keyed_by p (snd (addClient bind s p t))"
    "keyed_by p (snd (destroyTunnel conn p h t))" "keyed_by p (snd (destroyServer conn order s t))"
    "keyed_by p (snd (OnRNS2Recv conn shw key port d t))"
proof -
  show "keyed_by p (snd (createServer port s t))" using assms by (simp add: createServer_def keyed_by_def)
  show "keyed_by p (snd (addClient bind s p t))"
    using assms by (auto simp: addClient_def keyed_client_def intro!: keyed_by_upd split: option.splits sum.splits)
  show "keyed_by p (snd (destroyTunnel conn p h t))" "keyed_by p (snd (destroyServer conn order s t))"
    by (rule keyed_by_sub [OF assms]; simp add: destroyTunnel_def destroyServer_nth split: option.splits)+
  show "keyed_by p (snd (OnRNS2Recv conn shw key port d t))"
  proof (cases "snd (OnRNS2Recv conn shw key port d t) = t")
    case False
    then obtain c where c: "ts_tunnels t key = Some c"
      "snd (OnRNS2Recv conn shw key port d t) = t\<lparr>ts_tunnels := (ts_tunnels t)(key \<mapsto> c\<lparr>tc_hostPort := port\<rparr>)\<rparr>"
      using OnRNS2Recv_cases by blast
    obtain q h where k: "key = (q, h)" by (cases key)
    have "keyed_client p q h (c\<lparr>tc_hostPort := port\<rparr>)" using keyed_byD [OF assms, of q h c] c(1) k by (simp add: keyed_client_def)
    from keyed_by_upd [OF assms this] show ?thesis using c(2) k by simp
  qed (use assms in simp)
qed

lemma data_mirrored:
  assumes "mirrored a b LA LB A B"
  shows "mirrored a b LA LB (snd (OnRNS2Recv conn shw key port d A)) B"
proof (cases "snd (OnRNS2Recv conn shw key port d A) = A")
  case False
  then obtain c where c: "ts_tunnels A key = Some c"
    "snd (OnRNS2Recv conn shw key port d A) = A\<lparr>ts_tunnels := (ts_tunnels A)(key \<mapsto> c\<lparr>tc_hostPort := port\<rparr>)\<rparr>"
    using OnRNS2Recv_cases by blast
  have "ends_ok (h \<in> LA) (h \<in> LB) (((ts_tunnels A)(key \<mapsto> c\<lparr>tc_hostPort := port\<rparr>)) (b, h)) (ts_tunnels B (a, h))" for h
    using assms [unfolded mirrored_def, rule_format, of h] c(1)
    by (cases "key = (b, h)"; cases "ts_tunnels B (a, h)") (auto simp: ends_ok_def two_ends_def)
  then show ?thesis unfolding c(2) by (simp add: mirrored_def)
qed (use assms in simp)

lemma closed_mirrored:
  assumes "mirrored a b LA LB A B" "\<And>h. ts_tunnels A' (b, h) = (if h \<in> snd ` set reqs then None else ts_tunnels A (b, h))"
  shows "mirrored a b (LA - snd ` set reqs) (LB - snd ` set reqs) A' (deliver_close a reqs B)"
  using assms(1) by (simp add: mirrored_def deliver_close_nth assms(2) ends_ok_def)

lemma tunnel_run_inv: "tunnel_run a b LA LB A B \<Longrightarrow> mirrored a b LA LB A B \<and> keyed_by b A \<and> keyed_by a B"
proof (induction rule: tunnel_run.induct)
  case (start a b)
  then show ?case by (simp add: mirrored_def ends_ok_def keyed_by_def P2PTunnels_def)
next
  case (swap a b LA LB A B)
  then show ?case using mirrored_swap by blast
next
  case (server a b LA LB A B port s)
  then show ?case using keyed_by_steps(1) by (auto simp: mirrored_def createServer_def)
next
  case (opened a b LA LB A B ip junk q s r A' q2 tu B')
  have "keyed_by b A'"
    using keyed_by_steps(2) [of b A "Inr q" s] opened by (auto simp: open_tunnel_service_def split: prod.splits sum.splits)
  moreover have "keyed_by a B'"
    using opened by (auto simp: on_open_result_def keyed_client_def tunnel_client_of_def intro!: keyed_by_upd split: if_splits option.splits)
  ultimately show ?case using opened_mirrored(1) opened by blast
next
  case (unbound a b LA LB A B ip junk q s r A' e B')
  have "keyed_by b A'"
    using keyed_by_steps(2) [of b A "Inr q" s] unbound by (auto simp: open_tunnel_service_def split: prod.splits sum.splits)
  moreover have "B' = B" using unbound(3) by (auto simp: on_open_result_def split: if_splits option.splits)
  ultimately show ?case using opened_mirrored(2) unbound by blast
next
  case (unanswered a b LA LB A B ip junk q s r A')
  have "keyed_by b A'"
    using keyed_by_steps(2) [of b A "Inr q" s] unanswered by (auto simp: open_tunnel_service_def split: prod.splits sum.splits)
  then show ?case using opened_mirrored(2) unanswered by blast
next
  case (refused a b LA LB A B ip junk q s e A')
  then have "A' = A" by (auto simp: open_tunnel_service_def addClient_def split: prod.splits sum.splits option.splits)
  then show ?case using refused by blast
next
  case (closed a b LA LB A B conn k h reqs A')
  then have A': "A' = snd (destroyTunnel conn b h A)" by simp
  have "ts_tunnels A' (b, i) = (if i \<in> snd ` set reqs then None else ts_tunnels A (b, i))" for i
    using closed(2-4) keyed_byD [of b A b h] by (cases "ts_tunnels A (b, h)") (auto simp: destroyTunnel_def keyed_client_def)
  with closed(4) have "mirrored a b (LA - snd ` set reqs) (LB - snd ` set reqs) A' (deliver_close a reqs B)"
    by (intro closed_mirrored) simp_all
  then show ?case using keyed_by_steps(3) deliver_close_keyed closed(4) by (simp add: A')
next
  case (destroyed a b LA LB A B conn k order s reqs A')
  then have A': "A' = snd (destroyServer conn order s A)" and reqs: "reqs = fst (destroyServer conn order s A)" by simp_all
  have dom: "x \<in> set order" if "hosted s A x" for x using that destroyed(3) by (auto simp: hosted_def split: option.splits)
  have hs: "h \<in> snd ` set reqs \<longleftrightarrow> hosted s A (b, h)" for h
    using destroyServer_requests [of b A conn k order s] destroyed(2,3,5) by (force simp: reqs)
  have "ts_tunnels A' (b, i) = (if i \<in> snd ` set reqs then None else ts_tunnels A (b, i))" for i
    using dom by (simp add: A' destroyServer_nth hs)
  with destroyed(5) have "mirrored a b (LA - snd ` set reqs) (LB - snd ` set reqs) A' (deliver_close a reqs B)"
    by (intro closed_mirrored) simp_all
  then show ?case using keyed_by_steps(4) deliver_close_keyed destroyed(5) by (simp add: A')
next
  case (data a b LA LB A B conn shw key port d)
  then show ?case using data_mirrored keyed_by_steps(5) by blast
qed

lemma tunnel_pair_inv:
  assumes "tunnel_pair a b A B"
  shows "rel_option two_ends (ts_tunnels A (b, h)) (ts_tunnels B (a, h))" "keyed_by b A" "keyed_by a B"
  using tunnel_run_inv [OF assms [unfolded tunnel_pair_def]] by (simp_all add: mirrored_def ends_ok_def)

text \<open>
  Property C21. As long as requests are handled one after the other, and what one side closes
  the other is told, the tables of two peers mirror each other. A handle is in use on both sides
  or on none, and when it is, exactly one of the two ends is on the side of the server and both
  are for the same server. The exceptions are exactly the handles given for nothing, when the
  opener's socket could not be bound or the answer was lost: of these only the end on the side of
  the server is there, until it is closed with its server or the other side uses the handle.
\<close>

theorem tunnels_mirrored:
  assumes "tunnel_run a b LA LB A B"
  shows "(h \<notin> LA \<union> LB \<longrightarrow> (ts_tunnels A (b, h) = None \<longleftrightarrow> ts_tunnels B (a, h) = None)) \<and>
    (h \<notin> LA \<union> LB \<longrightarrow> (\<forall>c d. ts_tunnels A (b, h) = Some c \<and> ts_tunnels B (a, h) = Some d \<longrightarrow>
       tc_serverSide c \<noteq> tc_serverSide d \<and> tc_serverId c = tc_serverId d)) \<and>
    (h \<in> LA \<longrightarrow> (\<exists>c. ts_tunnels A (b, h) = Some c \<and> tc_serverSide c) \<and> (h \<notin> LB \<longrightarrow> ts_tunnels B (a, h) = None)) \<and>
    (h \<in> LB \<longrightarrow> (\<exists>d. ts_tunnels B (a, h) = Some d \<and> tc_serverSide d) \<and> (h \<notin> LA \<longrightarrow> ts_tunnels A (b, h) = None)) \<and>
    (\<forall>c. ts_tunnels A (b, h) = Some c \<or> ts_tunnels B (a, h) = Some c \<longrightarrow> tc_handle c = h)"
proof -
  have i: "ends_ok (h \<in> LA) (h \<in> LB) (ts_tunnels A (b, h)) (ts_tunnels B (a, h))" "keyed_by b A" "keyed_by a B"
    using tunnel_run_inv [OF assms] by (simp_all add: mirrored_def)
  moreover have "tc_handle c = h" if "ts_tunnels A (b, h) = Some c \<or> ts_tunnels B (a, h) = Some c" for c
    using that keyed_byD [OF i(2)] keyed_byD [OF i(3)] by (auto simp: keyed_client_def)
  ultimately show ?thesis
    by (cases "ts_tunnels A (b, h)"; cases "ts_tunnels B (a, h)") (auto simp: ends_ok_def two_ends_def)
qed

text \<open>
  When two peers open tunnels to each other's servers at the same time, both choose the
  handle 0 for the other, and each answer replaces the tunnel its receiver has just made: no
  tunnel leads to either server, and what arrives at the handle goes to port 0.
\<close>

theorem crossed_opens_collide:
  assumes "\<And>h. ts_tunnels A (b, h) = None" "\<And>h. ts_tunnels B (a, h) = None"
    and "open_tunnel_service '''' ip junk (Inr q) s b A = (Inr r, A1)"
    and "open_tunnel_service '''' ip2 junk2 (Inr q2) s2 a B = (Inr r2, B1)"
    and "on_open_result (Inr p) a s r B1 = Some (Inr tu, B2)"
    and "on_open_result (Inr p2) b s2 r2 A1 = Some (Inr tu2, A2)"
  shows "ot_handle r = 0 \<and> ot_handle r2 = 0 \<and> \<not> hosted s A2 (b, h) \<and> \<not> hosted s2 B2 (a, h) \<and>
    map_option tc_hostPort (ts_tunnels A2 (b, 0)) = Some 0 \<and> map_option tc_hostPort (ts_tunnels B2 (a, 0)) = Some 0"
proof -
  have f: "free_handle b A = Some 0" "free_handle a B = Some 0" using free_handle_0 assms(1,2) by blast+
  have 1: "r = \<lparr>ot_useTunnel = True, ot_endpoint = '''', ot_handle = 0\<rparr>" "\<exists>c. ts_tunnels A1 = (ts_tunnels A)((b, 0) \<mapsto> c)"
    using assms(3) f(1) by (auto simp: open_tunnel_service_def addClient_def split: option.splits)
  have 2: "r2 = \<lparr>ot_useTunnel = True, ot_endpoint = '''', ot_handle = 0\<rparr>" "\<exists>c. ts_tunnels B1 = (ts_tunnels B)((a, 0) \<mapsto> c)"
    using assms(4) f(2) by (auto simp: open_tunnel_service_def addClient_def split: option.splits)
  have 3: "ts_tunnels B2 = (ts_tunnels B)((a, 0) \<mapsto> tunnel_client_of a s 0 p)"
    "ts_tunnels A2 = (ts_tunnels A)((b, 0) \<mapsto> tunnel_client_of b s2 0 p2)"
    using 1 2 assms(5,6) by (auto simp: on_open_result_def)
  show ?thesis using 1(1) 2(1) 3 assms(1,2) by (auto simp: hosted_def tunnel_client_of_def split: option.splits)
qed

text \<open>
  Destroying a server closes exactly the tunnels it hosts and asks every connected peer
  to close its end; but the server stays registered, so a peer that asks for it afterwards is
  given a tunnel to its port.
\<close>

theorem destroyed_server_accepts:
  assumes "keyed_by p t" "conn p = Some k" "set order = dom (ts_tunnels t)" "ts_servers t s = Some sd"
    and "unat h < 255" "ts_tunnels t (p, h) = None \<or> hosted s t (p, h)"
  shows "set (fst (destroyServer conn order s t)) = {(k, h) | h. hosted s t (p, h)} \<and>
    ts_tunnels (snd (destroyServer conn order s t)) = (\<lambda>x. if hosted s t x then None else ts_tunnels t x) \<and>
    (\<exists>h2 t2 c. addClient (Inr port) s p (snd (destroyServer conn order s t)) = (Inr h2, t2) \<and>
       ts_tunnels t2 (p, h2) = Some c \<and> tc_hostPort c = sd_port sd)"
proof -
  let ?t = "snd (destroyServer conn order s t)"
  have dom: "x \<in> set order" if "hosted s t x" for x using that assms(3) by (auto simp: hosted_def split: option.splits)
  then have e: "ts_tunnels ?t x = (if hosted s t x then None else ts_tunnels t x)" for x by (auto simp: destroyServer_nth)
  have "ts_tunnels ?t (p, h) = None" using assms(6) by (auto simp: e)
  then obtain h2 where "free_handle p ?t = Some h2" using free_handle_None [of p ?t] assms(5) by fastforce
  moreover have "ts_servers ?t s = Some sd" using assms(4) by (simp add: destroyServer_def Let_def)
  ultimately show ?thesis using destroyServer_requests [of p t conn k order s] assms(1-3) e by (auto simp: addClient_def fun_eq_iff)
qed

section \<open>Data through a tunnel\<close>

lemma ireadsome_all:
  assumes "istr_wf s" "igood s" "ireadsome n s = (xs, s')"
  shows "xs = take n (remaining s)"
proof -
  have a: "in_avail (ibuf s) = int (length (remaining s))"
    using assms(1) by (simp add: in_avail_wf istr_wf_def remaining_def)
  show ?thesis
  proof (cases "remaining s = []")
    case True
    then show ?thesis using assms(2,3) a by (simp add: ireadsome_def)
  next
    case False
    obtain ys k b where x: "xsgetn (min (int (length (remaining s))) (int n)) (ibuf s) = (ys, k, b)"
      by (cases "xsgetn (min (int (length (remaining s))) (int n)) (ibuf s)") auto
    have "ys = take (nat (min (int (length (remaining s))) (int n))) (remaining s)"
      using xsgetn_wf(1) [OF _ _ x] assms(1) by (simp add: istr_wf_def remaining_def)
    moreover have "xs = ys" using assms(2,3) a x False by (simp add: ireadsome_def Let_def)
    ultimately show ?thesis by (simp add: min_def split: if_splits)
  qed
qed

lemma tunnel_writer_data:
  assumes "length data < 1000000000"
  obtains s where "run_writer (tunnel_writer h data) obytestream0 = Inr s" "out_data s = ID_P2P_TUNNEL # h # data"
proof -
  let ?s1 = "serialize ID_P2P_TUNNEL obytestream0"
  have s1: "out_data ?s1 = [ID_P2P_TUNNEL]" "ostr_wf ?s1" "ogood ?s1"
    using owrite_data [OF ostr_wf_ctor(1,2), of "word_bytes ID_P2P_TUNNEL"] ostr_wf_ctor(2)
    by (simp_all add: serialize_def word_bytes_def)
  let ?s2 = "serialize h ?s1"
  have s2: "out_data ?s2 = [ID_P2P_TUNNEL, h]" "ostr_wf ?s2" "ogood ?s2"
    using owrite_data [OF s1(2,3), of "word_bytes h"] s1 by (simp_all add: serialize_def word_bytes_def)
  show ?thesis
    by (rule that [of "owrite data ?s2"])
      (use owrite_data [OF s2(2,3), of data] s2(1) assms in \<open>simp_all add: tunnel_writer_def run_writer_def\<close>)
qed

lemma receiveFrom_data:
  assumes "istr_wf s" "igood s" "remaining s = h # data" "ts_tunnels t (i, h) = Some c"
  shows "fst (receiveFrom junk i s t) = Some (tc_socket c, tc_hostPort c, take 1464 data)"
proof -
  obtain hs s1 where r: "iread 1 s = (hs, s1)" by fastforce
  note w = iread_wf [OF assms(1,2) _ r]
  obtain xs s2 where x: "ireadsome 1464 s1 = (xs, s2)" by fastforce
  have "hs = [h]" "remaining s1 = data" "istr_wf s1" "igood s1" using w assms(3) by simp_all
  then show ?thesis using ireadsome_all [OF _ _ x] r x assms(4) by (simp add: receiveFrom_def)
qed

lemma p2p_registered:
  assumes "p2p_registerProcessor unpack junk DefaultPacketDispatcher = Inr d"
  shows "d_handlers d = [ID_P2P_RELAY \<mapsto> relay_processor unpack, ID_P2P_TUNNEL \<mapsto> tunnel_processor junk]"
    "d_defaults d = []" "d_maxLayerCount d = 40"
  using assms by (auto simp: p2p_registerProcessor_def addProcessor_def DefaultPacketDispatcher_def message_ids split: if_splits)

lemma word_bytes_byte [simp]: "word_bytes (x :: byte) = [x]"
  by (simp add: word_bytes_def)

lemma dispatch_tunnel:
  assumes "d_handlers d ID_P2P_TUNNEL = Some (tunnel_processor junk)" "d_defaults d = []" "0 < d_maxLayerCount d"
    and "length data < 1000000000" "ts_tunnels (tw_tunnels w) (tw_ids w j, h) = Some c"
  shows "tw_out (snd (snd (dispatchImpl d (make_packet j (ID_P2P_TUNNEL # h # data) meta) w))) =
    tw_out w @ [(tc_socket c, tc_hostPort c, take 1464 data)]"
proof -
  let ?p = "make_packet j (ID_P2P_TUNNEL # h # data) meta"
  have "p_ok ?p" "p_rest ?p = word_bytes ID_P2P_TUNNEL @ h # data" "p_conn ?p = j"
    using make_packet_ok [of "ID_P2P_TUNNEL # h # data" j meta] assms(4) by (simp_all add: make_packet_def)
  from first_layer [OF this(1,2)] this(3) obtain p1 where p1: "p_read 0 ?p = (ID_P2P_TUNNEL, p1)" "p_ok p1" "p_rest p1 = h # data" "p_conn p1 = j"
    by metis
  obtain o1 s1 where r: "receiveFrom junk (tw_ids w j) (p_stream p1) (tw_tunnels w) = (o1, s1)" by fastforce
  have o1: "o1 = Some (tc_socket c, tc_hostPort c, take 1464 data)"
    using receiveFrom_data [OF _ _ _ assms(5), of "p_stream p1" data junk] p1(2,3) r by (simp add: p_ok_def p_rest_def)
  have "tunnel_processor junk p1 w = (Inr True, p1\<lparr>p_stream := s1\<rparr>, w\<lparr>tw_out := tw_out w @ [(tc_socket c, tc_hostPort c, take 1464 data)]\<rparr>)"
    using r o1 p1(4) by (simp add: tunnel_processor_def)
  from dispatchImpl_processed [OF p1(1) assms(1) this assms(3)] show ?thesis by (simp add: assms(2))
qed

text \<open>
  Property C22. A datagram that the game sends to its end of a tunnel arrives, cut to 1464 bytes, at the
  port that the peer's end serves, out of the socket of that end; it travels on the channel of
  the tunnels, and the port it came from is where the answers will go.
\<close>

theorem tunnel_delivers:
  assumes "tunnel_pair a b A B" "ts_tunnels B (a, h) = Some c" "conn a = Some k" "port \<noteq> tc_socket c"
    and "length data < 1000000000" "p2p_registerProcessor unpack junk DefaultPacketDispatcher = Inr d"
    and "tw_tunnels w = A" "tw_ids w j = b"
  shows "\<exists>wr B' s c'. OnRNS2Recv conn shw (a, h) port data B = (Some (k, ''P2PTunnels_'' @ shw a, wr), B') \<and>
    ts_tunnels B' (a, h) = Some (c\<lparr>tc_hostPort := port\<rparr>) \<and> run_writer wr obytestream0 = Inr s \<and>
    ts_tunnels A (b, h) = Some c' \<and>
    tw_out (snd (snd (dispatchImpl d (make_packet j (out_data s) meta) w))) =
      tw_out w @ [(tc_socket c', tc_hostPort c', take 1464 data)]"
proof -
  note inv = tunnel_pair_inv [OF assms(1)]
  from keyed_byD [OF inv(3) assms(2)] have c: "tc_peerId c = a" "tc_handle c = h" by (simp_all add: keyed_client_def)
  from inv(1) [of h] obtain c' where c': "ts_tunnels A (b, h) = Some c'" using assms(2) by (cases "ts_tunnels A (b, h)") auto
  obtain s where s: "run_writer (tunnel_writer h data) obytestream0 = Inr s" "out_data s = ID_P2P_TUNNEL # h # data"
    by (rule tunnel_writer_data [OF assms(5)])
  have "OnRNS2Recv conn shw (a, h) port data B = (Some (k, ''P2PTunnels_'' @ shw a, tunnel_writer h data),
      B\<lparr>ts_tunnels := (ts_tunnels B)((a, h) \<mapsto> c\<lparr>tc_hostPort := port\<rparr>)\<rparr>)"
    using assms(2-4) c by (auto simp: OnRNS2Recv_def onMsgReceived_def)
  moreover have "tw_out (snd (snd (dispatchImpl d (make_packet j (out_data s) meta) w))) =
      tw_out w @ [(tc_socket c', tc_hostPort c', take 1464 data)]"
    unfolding s(2) using p2p_registered [OF assms(6)] c' assms(7,8)
    by (intro dispatch_tunnel [OF _ _ _ assms(5)]) (simp_all add: message_ids)
  ultimately show ?thesis using s(1) c' by (intro exI [of _ "tunnel_writer h data"] exI [of _ "B\<lparr>ts_tunnels := (ts_tunnels B)((a, h) \<mapsto> c\<lparr>tc_hostPort := port\<rparr>)\<rparr>"] exI [of _ s] exI [of _ c']) simp
qed

text \<open>
  A relayed packet is dispatched as if the peer had sent it: the processor of the message
  inside runs on the bytes after the relay's header, with the peer's connection.
\<close>

theorem relayed_packet_dispatched:
  assumes "p2p_registerProcessor unpack junk DefaultPacketDispatcher = Inr d0" "addProcessor mt f d0 = Inr d"
    and "\<And>s. istr_wf s \<Longrightarrow> igood s \<Longrightarrow> remaining s = header @ mt # rest \<Longrightarrow>
      \<exists>s'. unpack s = (Inr peer, s') \<and> istr_wf s' \<and> igood s' \<and> remaining s' = mt # rest"
    and "tw_conn w peer = Some k" "length (header @ rest) < 1000000000"
  shows "\<exists>p. p_conn p = k \<and> p_rest p = rest \<and> p_ok p \<and> p_meta p = meta \<and>
    (\<forall>p' w'. f p w = (Inr True, p', w') \<longrightarrow>
       dispatchImpl d (make_packet j (ID_P2P_RELAY # header @ mt # rest) meta) w = (Inr True, p', w'))"
proof -
  have d: "d_handlers d = (d_handlers d0)(mt \<mapsto> f)" "d_defaults d = []" "d_maxLayerCount d = 40" "mt \<noteq> ID_P2P_RELAY"
    using assms(2) p2p_registered [OF assms(1)] by (auto simp: addProcessor_def split: if_splits)
  let ?p = "make_packet j (ID_P2P_RELAY # header @ mt # rest) meta"
  have "p_ok ?p" "p_rest ?p = word_bytes ID_P2P_RELAY @ header @ mt # rest" "p_meta ?p = meta"
    using make_packet_ok [of "ID_P2P_RELAY # header @ mt # rest" j meta] assms(5) by (simp_all add: make_packet_def)
  from first_layer [OF this(1,2)] this(3) obtain p1 where p1: "p_read 0 ?p = (ID_P2P_RELAY, p1)" "p_ok p1"
    "p_rest p1 = header @ mt # rest" "p_meta p1 = meta" by metis
  obtain s where s: "unpack (p_stream p1) = (Inr peer, s)" "istr_wf s" "igood s" "remaining s = mt # rest"
    using assms(3) p1(2,3) by (auto simp: p_ok_def p_rest_def)
  let ?p2 = "p1\<lparr>p_stream := s, p_conn := k\<rparr>"
  have r: "relay_processor unpack p1 w = (Inr False, ?p2, w)" using s(1) assms(4) by (simp add: relay_processor_def)
  have "p_ok ?p2" "p_rest ?p2 = word_bytes mt @ rest" using s by (simp_all add: p_ok_def p_rest_def)
  then obtain p3 where p3: "p_read ID_P2P_RELAY ?p2 = (mt, p3)" "p_ok p3" "p_rest p3 = rest" "p_conn p3 = k" "p_meta p3 = meta"
    using p_read_word [of ?p2 mt rest ID_P2P_RELAY] p1(4) by auto
  have h: "d_handlers d ID_P2P_RELAY = Some (relay_processor unpack)" "d_handlers d mt = Some f"
    using d(1,4) p2p_registered(1) [OF assms(1)] by (simp_all add: message_ids)
  have "dispatchImpl d ?p w = (Inr True, p', w')" if "f p3 w = (Inr True, p', w')" for p' w'
  proof -
    have l: "dispatch_layers 39 (d_handlers d) ID_P2P_RELAY ?p2 w = (Inr (True, mt), p', w')"
      by (rule dispatch_layers_processed [where H = "d_handlers d", OF p3(1) h(2) that]) simp
    have "dispatch_layers (Suc 39) (d_handlers d) 0 ?p w = (Inr (True, mt), p', w')"
      by (simp only: dispatch_layers.simps p1(1) prod.case h(1) option.case r sum.case if_False l)
    then show ?thesis by (simp add: dispatchImpl_def d)
  qed
  then show ?thesis using p3 by blast
qed


section \<open>Witnesses\<close>

text \<open>A host with one server and the peer that has opened a tunnel to it.\<close>

definition host0 :: tunnels where
  "host0 = \<lparr>ts_servers = [''s'' \<mapsto> \<lparr>sd_id = ''s'', sd_hostName = ''127.0.0.1'', sd_port = 7777\<rparr>],
    ts_tunnels = Map.empty\<rparr>"

definition host1 :: tunnels where
  "host1 = host0\<lparr>ts_tunnels := [(2, 0) \<mapsto>
     \<lparr>tc_peerId = 2, tc_serverId = ''s'', tc_socket = 5000, tc_handle = 0, tc_serverSide = True, tc_hostPort = 7777\<rparr>]\<rparr>"

definition peer1 :: tunnels where
  "peer1 = P2PTunnels\<lparr>ts_tunnels := [(1, 0) \<mapsto> tunnel_client_of 1 ''s'' 0 6000]\<rparr>"

lemma host0_serves: "open_tunnel_service '''' ip junk (Inr 5000) ''s'' 2 host0 =
    (Inr \<lparr>ot_useTunnel = True, ot_endpoint = '''', ot_handle = 0\<rparr>, host1)"
  using free_handle_0 [of host0 2]
  by (simp add: open_tunnel_service_def addClient_def host0_def host1_def)

text \<open>Two peers, one tunnel; and a second one whose opener could not bind its socket.\<close>

lemma pair_opened: "tunnel_pair 1 2 host1 peer1"
proof -
  have h: "host0 = snd (createServer 7777 ''s'' P2PTunnels)" by (simp add: host0_def createServer_def P2PTunnels_def)
  have "tunnel_run 1 2 {} {} host0 P2PTunnels" unfolding h by (rule tunnel_run.server [OF tunnel_run.start])
  from tunnel_run.opened [OF this host0_serves, of 6000] show ?thesis
    by (simp add: tunnel_pair_def on_open_result_def peer1_def P2PTunnels_def)
qed

definition host2 :: tunnels where
  "host2 = snd (addClient (Inr 5001) ''s'' 2 host1)"

lemma pair_unbound: "tunnel_run 1 2 {1} {} host2 peer1"
proof -
  have n: "map (of_nat :: nat \<Rightarrow> byte) [0..<255] = 0 # 1 # map of_nat [2..<255]" by (simp add: upt_conv_Cons)
  have f: "free_handle 2 host1 = Some 1" unfolding free_handle_def n by (simp add: host1_def host0_def)
  have o: "open_tunnel_service '''' ip junk (Inr 5001) ''s'' 2 host1 = (Inr \<lparr>ot_useTunnel = True, ot_endpoint = '''', ot_handle = 1\<rparr>, host2)"
    for ip junk
    using f by (simp add: open_tunnel_service_def addClient_def host2_def) (simp add: host1_def host0_def)
  from tunnel_run.unbound [OF pair_opened [unfolded tunnel_pair_def] o, of TaskCanceled] show ?thesis
    by (simp add: on_open_result_def)
qed

theorem tunnel_handles_fresh_witness:
  "case addClient (Inr 5001) ''s'' 2 host1 of
     (Inr h, t') \<Rightarrow> unat h < 255 \<and> ts_tunnels host1 (2, h) = None \<and> tc_hostPort (the (ts_tunnels t' (2, h))) = 7777
   | (Inl _, t') \<Rightarrow> False"
proof -
  obtain r t' where r: "addClient (Inr 5001) ''s'' 2 host1 = (r, t')" by fastforce
  have "ts_servers host1 ''s'' = Some \<lparr>sd_id = ''s'', sd_hostName = ''127.0.0.1'', sd_port = 7777\<rparr>"
    by (simp add: host1_def host0_def)
  note f = tunnel_handles_fresh [OF this, where port = 5001 and peer = 2]
  show ?thesis
  proof (cases r)
    case (Inl e)
    then have "ts_tunnels host1 (2, 1) \<noteq> None" using f r by (simp split: prod.splits)
    then show ?thesis by (simp add: host1_def)
  qed (use f r in simp)
qed

theorem tunnels_mirrored_witness:
  "\<exists>c d. ts_tunnels host2 (2, 0) = Some c \<and> ts_tunnels peer1 (1, 0) = Some d \<and> tc_serverSide c \<noteq> tc_serverSide d \<and>
     tc_serverId c = tc_serverId d \<and> ts_tunnels host2 (2, 1) \<noteq> None \<and> ts_tunnels peer1 (1, 1) = None"
proof -
  obtain d where d: "ts_tunnels peer1 (1, 0) = Some d" by (simp add: peer1_def)
  then obtain c where "ts_tunnels host2 (2, 0) = Some c" using tunnels_mirrored [OF pair_unbound, of 0] by auto
  then show ?thesis using d tunnels_mirrored [OF pair_unbound, of 0] tunnels_mirrored [OF pair_unbound, of 1] by auto
qed

theorem crossed_opens_collide_witness:
  "\<exists>A1 B1 r r2 A2 B2 tu tu2.
     open_tunnel_service '''' ip junk (Inr 5000) ''s'' 2 host0 = (Inr r, A1) \<and>
     open_tunnel_service '''' ip junk (Inr 5000) ''s'' 2 host0 = (Inr r2, B1) \<and>
     on_open_result (Inr 6000) 2 ''s'' r B1 = Some (Inr tu, B2) \<and>
     on_open_result (Inr 6000) 2 ''s'' r2 A1 = Some (Inr tu2, A2) \<and> \<not> hosted ''s'' A2 (2, 0) \<and> \<not> hosted ''s'' B2 (2, 0)"
proof -
  have e: "\<And>h. ts_tunnels host0 (2, h) = None" by (simp add: host0_def)
  note o = host0_serves [of ip junk]
  obtain tu t2 where u: "on_open_result (Inr 6000) 2 ''s'' \<lparr>ot_useTunnel = True, ot_endpoint = '''', ot_handle = 0\<rparr> host1 = Some (Inr tu, t2)"
    by (auto simp: on_open_result_def)
  from crossed_opens_collide [OF e e o o u u] show ?thesis using o u by blast
qed

theorem destroyed_server_accepts_witness:
  "set (fst (destroyServer [2 \<mapsto> 9] [(2, 0)] ''s'' host1)) = {(9, h) | h. hosted ''s'' host1 (2, h)} \<and>
   hosted ''s'' host1 (2, 0) \<and>
   (\<exists>h2 t2 c. addClient (Inr 5002) ''s'' 2 (snd (destroyServer [2 \<mapsto> 9] [(2, 0)] ''s'' host1)) = (Inr h2, t2) \<and>
     ts_tunnels t2 (2, h2) = Some c \<and> tc_hostPort c = 7777)"
proof -
  have "keyed_by 2 host1" using tunnel_pair_inv [OF pair_opened] by blast
  moreover have "set [(2, 0)] = dom (ts_tunnels host1)" by (auto simp: host1_def)
  moreover have "ts_servers host1 ''s'' = Some \<lparr>sd_id = ''s'', sd_hostName = ''127.0.0.1'', sd_port = 7777\<rparr>"
    by (simp add: host1_def host0_def)
  moreover have h: "hosted ''s'' host1 (2, 0)" by (simp add: hosted_def host1_def)
  ultimately show ?thesis
    using destroyed_server_accepts [of 2 host1 "[2 \<mapsto> 9]" 9 "[(2, 0)]" "''s''" _ 0 5002] by fastforce
qed

lemma p2p_registered_default [simp]:
  "p2p_registerProcessor unpack junk DefaultPacketDispatcher =
     Inr (DefaultPacketDispatcher\<lparr>d_handlers := [ID_P2P_RELAY \<mapsto> relay_processor unpack, ID_P2P_TUNNEL \<mapsto> tunnel_processor junk]\<rparr>)"
  by (simp add: p2p_registerProcessor_def addProcessor_def DefaultPacketDispatcher_def message_ids)

theorem tunnel_delivers_witness:
  "\<exists>wr B' s c'. OnRNS2Recv [1 \<mapsto> 4] (\<lambda>_. ''1'') (1, 0) 8888 [1, 2, 3] peer1 = (Some (4, ''P2PTunnels_1'', wr), B') \<and>
     run_writer wr obytestream0 = Inr s \<and> ts_tunnels host1 (2, 0) = Some c' \<and>
     tw_out (snd (snd (dispatchImpl
       (DefaultPacketDispatcher\<lparr>d_handlers := [ID_P2P_RELAY \<mapsto> relay_processor (\<lambda>s. (Inr 0, s)), ID_P2P_TUNNEL \<mapsto> tunnel_processor 0]\<rparr>)
       (make_packet 0 (out_data s) Map.empty)
       \<lparr>tw_tunnels = host1, tw_ids = \<lambda>_. 2, tw_conn = Map.empty, tw_out = []\<rparr>))) = [(5000, 7777, [1, 2, 3])]"
proof -
  let ?d = "DefaultPacketDispatcher\<lparr>d_handlers := [ID_P2P_RELAY \<mapsto> relay_processor (\<lambda>s. (Inr 0, s)), ID_P2P_TUNNEL \<mapsto> tunnel_processor 0]\<rparr>"
  let ?w = "\<lparr>tw_tunnels = host1, tw_ids = \<lambda>_. 2, tw_conn = Map.empty, tw_out = []\<rparr>"
  have c: "ts_tunnels peer1 (1, 0) = Some (tunnel_client_of 1 ''s'' 0 6000)" by (simp add: peer1_def)
  have p: "(8888 :: u16) \<noteq> tc_socket (tunnel_client_of 1 ''s'' 0 6000)" by (simp add: tunnel_client_of_def)
  have l: "length [1, 2, 3 :: byte] < 1000000000" by simp
  have k: "[1 \<mapsto> 4] 1 = Some 4" by simp
  have w: "tw_tunnels ?w = host1" "tw_ids ?w 0 = 2" by simp_all
  from tunnel_delivers [where shw = "\<lambda>_. ''1''" and meta = Map.empty and w = ?w and j = 0 and conn = "[1 \<mapsto> 4]", OF pair_opened c k p l p2p_registered_default [of "\<lambda>s. (Inr 0, s)" 0] w]
  obtain wr B' s c' where r: "OnRNS2Recv [1 \<mapsto> 4] (\<lambda>_. ''1'') (1, 0) 8888 [1, 2, 3] peer1 = (Some (4, ''P2PTunnels_'' @ ''1'', wr), B')"
    "run_writer wr obytestream0 = Inr s" "ts_tunnels host1 (2, 0) = Some c'"
    "tw_out (snd (snd (dispatchImpl ?d (make_packet 0 (out_data s) Map.empty) ?w))) =
      tw_out ?w @ [(tc_socket c', tc_hostPort c', take 1464 [1, 2, 3])]" by blast
  have "tc_socket c' = 5000" "tc_hostPort c' = 7777" using r(3) by (auto simp: host1_def)
  then show ?thesis using r(1-4) by auto
qed

definition read_peer :: "istr \<Rightarrow> u64 res \<times> istr" where
  "read_peer s = (case iread 1 s of (_, s1) \<Rightarrow> (Inr 7, s1))"

lemma read_peer_reads:
  assumes "istr_wf s" "igood s" "remaining s = [7] @ mt # rest"
  shows "\<exists>s'. read_peer s = (Inr 7, s') \<and> istr_wf s' \<and> igood s' \<and> remaining s' = mt # rest"
proof -
  obtain hs s1 where r: "iread 1 s = (hs, s1)" by fastforce
  show ?thesis using iread_wf [OF assms(1,2) _ r] assms(3) r by (simp add: read_peer_def)
qed

theorem relayed_packet_dispatched_witness:
  "\<exists>d p. addProcessor ID_SYSTEM_REQUEST (\<lambda>p w. (Inr True, p, w)) (DefaultPacketDispatcher\<lparr>d_handlers :=
       [ID_P2P_RELAY \<mapsto> relay_processor read_peer, ID_P2P_TUNNEL \<mapsto> tunnel_processor 0]\<rparr>) = Inr d \<and>
     p_conn p = 3 \<and> p_rest p = [1, 2] \<and>
     (\<exists>w. dispatchImpl d (make_packet 0 (ID_P2P_RELAY # [7] @ ID_SYSTEM_REQUEST # [1, 2]) Map.empty) w = (Inr True, p, w))"
proof -
  let ?w = "\<lparr>tw_tunnels = host1, tw_ids = \<lambda>_. 2, tw_conn = [7 \<mapsto> 3], tw_out = []\<rparr>"
  obtain d where d: "addProcessor ID_SYSTEM_REQUEST (\<lambda>p w. (Inr True, p, w)) (DefaultPacketDispatcher\<lparr>d_handlers :=
       [ID_P2P_RELAY \<mapsto> relay_processor read_peer, ID_P2P_TUNNEL \<mapsto> tunnel_processor 0]\<rparr>) = Inr d"
    by (simp add: addProcessor_def message_ids)
  have k: "tw_conn ?w 7 = Some 3" by simp
  have l: "length ([7] @ [1, 2 :: byte]) < 1000000000" by simp
  from relayed_packet_dispatched [OF p2p_registered_default d read_peer_reads k l, of Map.empty 0]
  show ?thesis using d by blast
qed

end
