(* ===== verification/P2PRequests.thy ===== *)
theory P2PRequests
  imports Transport
begin

text \<open>
  The requests by which the server makes two peers connect
  (\<^verbatim>\<open>P2P/P2PRequestModule.cpp\<close>, \<^verbatim>\<open>P2P/P2PService.cpp\<close>), over the transport with its repository of
  connections and the peer-to-peer sessions. Parameters are the decoded values; what a handler
  does is the list of its answers, its outcome and the new state. The subscriptions of sessions
  to the closing of connections make the parts call each other, so they are written out here.
\<close>

section \<open>State\<close>

text \<open>
  \<^verbatim>\<open>pw_subscription\<close> is \<^verbatim>\<open>onConnectionCloseSubscription\<close> of a session, the connection it subscribed
  to. \<^verbatim>\<open>pw_onClose\<close> are those subscribers of a connection's event, in order: the session and the
  connection to the server at that time. \<^verbatim>\<open>pw_relay\<close> tells which objects of the repository are
  relayed and through which connection. \<^verbatim>\<open>pw_waiters\<close> are the continuations of the tasks of
  \<^verbatim>\<open>addPendingConnection\<close>. \<^verbatim>\<open>pw_requests\<close> are the requests \<^verbatim>\<open>ID_P2P_CLOSE_SESSION\<close> that were sent.
\<close>

record p2p_world =
  pw_transport :: transport
  pw_sessions :: sessions
  pw_subscription :: "string \<rightharpoonup> nat"
  pw_onClose :: "nat \<Rightarrow> (string \<times> nat option) list"
  pw_relay :: "nat \<rightharpoonup> nat"
  pw_waiters :: "nat \<rightharpoonup> string \<times> string"
  pw_requests :: "(nat \<times> byte list) list"

text \<open>\<^verbatim>\<open>pe_alive\<close> tells which connections a weak pointer still finds.\<close>

record p2p_env =
  pe_to64 :: "byte list \<Rightarrow> string"
  pe_from64 :: "string \<Rightarrow> byte list"
  pe_alive :: "nat \<Rightarrow> bool"
  pe_rak :: "string \<Rightarrow> u16 \<Rightarrow> nat"
  pe_dedicatedServerEndpoint :: string
  pe_enableNatPunchthrough :: bool
  pe_clientSDKPort :: u16
  pe_show :: "u16 \<Rightarrow> string"

record EndpointCandidate =
  ec_address :: string
  ec_type :: int

record ConnectivityCandidate =
  cc_listeningPeer :: u64
  cc_clientPeer :: u64
  cc_listeningEndpointCandidate :: EndpointCandidate
  cc_clientEndpointCandidate :: EndpointCandidate
  cc_p2pSessionId :: "byte list"
  cc_id :: "byte list"
  cc_ping :: int
  cc_listeningPeerSessionId :: "byte list"
  cc_clientPeerSessionId :: "byte list"

record OpenRelayParameters =
  or_p2pSessionId :: "byte list"
  or_remotePeerId :: u64
  or_remotePeerAddress :: string

datatype p2p_reply = NoData | Endpoints "string list" | Latency int | Flag bool

type_synonym handled = "p2p_reply list \<times> unit res \<times> p2p_world"

abbreviation repo_of :: "p2p_world \<Rightarrow> repository" where
  "repo_of w \<equiv> tr_handler (pw_transport w)"

definition upd_repo :: "(repository \<Rightarrow> repository) \<Rightarrow> p2p_world \<Rightarrow> p2p_world" where
  "upd_repo f w = w\<lparr>pw_transport := (pw_transport w)\<lparr>tr_handler := f (repo_of w)\<rparr>\<rparr>"

definition upd_object :: "(rnconn \<Rightarrow> rnconn) \<Rightarrow> nat \<Rightarrow> p2p_world \<Rightarrow> p2p_world" where
  "upd_object f c = upd_repo (\<lambda>r. r\<lparr>cr_store := (cr_store r)[c := f (cr_store r ! c)]\<rparr>)"

text \<open>A relayed connection has the state of the one it runs through.\<close>

definition object_state :: "nat \<Rightarrow> p2p_world \<Rightarrow> conn_kind" where
  "object_state c w =
     cs_state (c_state (cr_store (repo_of w) ! (case pw_relay w c of None \<Rightarrow> c | Some k \<Rightarrow> k)))"

definition is_connected :: "nat option \<Rightarrow> p2p_world \<Rightarrow> bool" where
  "is_connected x w = (case x of None \<Rightarrow> False | Some c \<Rightarrow> object_state c w = Connected)"

section \<open>Closing\<close>

text \<open>Erasing a session destroys its subscription.\<close>

definition drop_session :: "string \<Rightarrow> p2p_world \<Rightarrow> p2p_world" where
  "drop_session i w =
     w\<lparr>pw_sessions := (pw_sessions w)(i := None),
       pw_subscription := (pw_subscription w)(i := None),
       pw_onClose := (case pw_subscription w i of None \<Rightarrow> pw_onClose w
         | Some c \<Rightarrow> (pw_onClose w)(c := filter (\<lambda>l. fst l \<noteq> i) (pw_onClose w c)))\<rparr>"

text \<open>
  The event: it runs over a copy of the list; an exception of a subscriber ends it. \<^const>\<open>None\<close> is a
  call that never returns.
\<close>

fun fire_listeners ::
  "(string \<times> nat option \<Rightarrow> p2p_world \<Rightarrow> (unit res \<times> p2p_world) option) \<Rightarrow> (string \<times> nat option) list \<Rightarrow>
    p2p_world \<Rightarrow> (unit res \<times> p2p_world) option" where
  "fire_listeners f [] w = Some (Inr (), w)"
| "fire_listeners f (l # ls) w =
     (case f l w of
        None \<Rightarrow> None
      | Some (Inl e, w1) \<Rightarrow> Some (Inl e, w1)
      | Some (Inr _, w1) \<Rightarrow> fire_listeners f ls w1)"

text \<open>
  \<^verbatim>\<open>IConnection::close\<close>: that of a relayed connection is empty. The subscription of the
  repository comes first, it was made when the connection was added.
\<close>

definition close_with ::
  "(string \<times> nat option \<Rightarrow> p2p_world \<Rightarrow> (unit res \<times> p2p_world) option) \<Rightarrow> string \<Rightarrow> nat \<Rightarrow> p2p_world \<Rightarrow>
    (unit res \<times> p2p_world) option" where
  "close_with f reason c w =
     (if pw_relay w c \<noteq> None \<or> \<not> (object_state c w = Connected \<or> object_state c w = Connecting) then Some (Inr (), w)
      else
        (let o0 = cr_store (repo_of w) ! c;
             w1 = upd_object (fire_onClose reason \<circ> setConnectionState (conn_state_because Disconnecting reason)) c w;
             w2 = (if subscribed c (repo_of w) then upd_repo (forget (c_id o0) (c_key o0)) w1 else w1)
         in case fire_listeners f (pw_onClose w c) w2 of
              None \<Rightarrow> None
            | Some (Inl e, w3) \<Rightarrow> Some (Inl e, w3)
            | Some (Inr _, w3) \<Rightarrow>
                Some (Inr (), upd_object (setConnectionState (conn_state_because Disconnected reason)) c w3)))"

text \<open>
  \<^verbatim>\<open>P2PSessions::closeSession\<close> holds the mutex of the sessions while it closes the connection. A
  subscriber that is called then locks the same mutex in the same thread, which is undefined and in
  practice never returns.
\<close>

definition session_close :: "string \<Rightarrow> p2p_world \<Rightarrow> (bool res \<times> p2p_world) option" where
  "session_close i w =
     (case pw_sessions w i of
        None \<Rightarrow> Some (Inr False, w)
      | Some s \<Rightarrow>
          (case getConnection_id (ps_remotePeerId s) (repo_of w) of
             Inl e \<Rightarrow> Some (Inl e, w)
           | Inr None \<Rightarrow> Some (Inr False, drop_session i w)
           | Inr (Some c) \<Rightarrow>
               map_option (\<lambda>(r, w'). (map_sum id (\<lambda>_. True) r, w'))
                 (close_with (\<lambda>_ _. None) '''' c (drop_session i w))))"

text \<open>The subscriber of \<^verbatim>\<open>registerConnectionOnCloseSession\<close>.\<close>

definition on_connection_closed ::
  "p2p_env \<Rightarrow> string \<times> nat option \<Rightarrow> p2p_world \<Rightarrow> (unit res \<times> p2p_world) option" where
  "on_connection_closed env l w =
     (case l of (i, host) \<Rightarrow>
        (let w1 = (case host of
                     None \<Rightarrow> w
                   | Some k \<Rightarrow>
                       if pe_alive env k then w\<lparr>pw_requests := pw_requests w @ [(k, pe_from64 env i)]\<rparr> else w)
         in map_option (\<lambda>(r, w'). (map_sum id (\<lambda>_. ()) r, w')) (session_close i w1)))"

definition connection_close :: "p2p_env \<Rightarrow> string \<Rightarrow> nat \<Rightarrow> p2p_world \<Rightarrow> (unit res \<times> p2p_world) option" where
  "connection_close env = close_with (on_connection_closed env)"

text \<open>
  \<^verbatim>\<open>onDisconnection\<close> of the transport, with the subscribers: the connection has left the
  repository before they run.
\<close>

definition connection_lost :: "p2p_env \<Rightarrow> u64 \<Rightarrow> string \<Rightarrow> p2p_world \<Rightarrow> (unit res \<times> p2p_world) option" where
  "connection_lost env guid reason w =
     (case removeConnection guid (pw_transport w) of (conn, t1) \<Rightarrow>
        (case conn of
           None \<Rightarrow> Some (Inr (), w\<lparr>pw_transport := t1\<rparr>)
         | Some c \<Rightarrow>
             (let o0 = cr_store (tr_handler t1) ! c;
                  reason' = (if c_closeReason o0 \<noteq> '''' then c_closeReason o0 else reason);
                  w1 = upd_object (fire_onClose reason') c (upd_repo (closeConnection c) (w\<lparr>pw_transport := t1\<rparr>))
              in case fire_listeners (on_connection_closed env) (pw_onClose w c) w1 of
                   None \<Rightarrow> None
                 | Some (Inl e, w2) \<Rightarrow> Some (Inl e, w2)
                 | Some (Inr _, w2) \<Rightarrow>
                     Some (Inr (), upd_object (setConnectionState (conn_state_because Disconnected reason')) c
                       (upd_object (setConnectionState (conn_state_because Disconnecting reason')) c w2)))))"

section \<open>Subscribing to the end of a connection\<close>

text \<open>\<^verbatim>\<open>parentId\<close> is the key of the connection to the server, looked up first.\<close>

definition registerConnectionOnCloseSession ::
  "nat \<Rightarrow> string \<Rightarrow> string \<Rightarrow> p2p_world \<Rightarrow> unit res \<times> p2p_world" where
  "registerConnectionOnCloseSession c i parentId w =
     (case getConnection_key parentId (repo_of w) of
        Inl e \<Rightarrow> (Inl e, w)
      | Inr host \<Rightarrow>
          if pw_sessions w i \<noteq> None \<and> pw_subscription w i = None
          then (Inr (), w\<lparr>pw_subscription := (pw_subscription w)(i \<mapsto> c),
                  pw_onClose := (pw_onClose w)(c := pw_onClose w c @ [(i, host)])\<rparr>)
          else (Inr (), w))"

definition set_session_state :: "string \<Rightarrow> P2PSessionState \<Rightarrow> p2p_world \<Rightarrow> p2p_world" where
  "set_session_state i st w = w\<lparr>pw_sessions := snd (updateSessionState i st (pw_sessions w))\<rparr>"

text \<open>The call of \<^verbatim>\<open>addPendingConnection\<close> with its continuation, and the continuation.\<close>

definition expect_connection :: "u64 \<Rightarrow> string \<Rightarrow> string \<Rightarrow> string \<Rightarrow> p2p_world \<Rightarrow> p2p_world" where
  "expect_connection peer sessionId i parentId w =
     (case addPendingConnection peer sessionId (repo_of w) of (t, r) \<Rightarrow>
        (upd_repo (\<lambda>_. r) w)\<lparr>pw_waiters := (pw_waiters w)(t \<mapsto> (i, parentId))\<rparr>)"

definition run_waiter :: "nat \<Rightarrow> p2p_world \<Rightarrow> p2p_world" where
  "run_waiter t w =
     (case pw_waiters w t of
        None \<Rightarrow> w
      | Some (i, parentId) \<Rightarrow>
          (let w0 = w\<lparr>pw_waiters := (pw_waiters w)(t := None)\<rparr> in
           case cr_waiting (repo_of w) ! t of
             Pending \<Rightarrow> w
           | Done c \<Rightarrow>
               snd (registerConnectionOnCloseSession c i parentId
                 (set_session_state i SessionConnected (upd_object (setMetadata ''type'' ''p2p'') c w0)))
           | _ \<Rightarrow> w0))"

section \<open>The services\<close>

text \<open>\<^verbatim>\<open>ID_P2P_GATHER_IP\<close>; \<open>available\<close> are the endpoints the transport knows.\<close>

definition gather_ip :: "p2p_env \<Rightarrow> string list \<Rightarrow> p2p_reply" where
  "gather_ip env available = Endpoints
     (if pe_dedicatedServerEndpoint env \<noteq> ''''
      then [pe_dedicatedServerEndpoint env @ '':'' @ pe_show env (pe_clientSDKPort env)]
      else if \<not> pe_enableNatPunchthrough env then [] else available)"

definition create_session :: "p2p_env \<Rightarrow> P2PSession \<Rightarrow> p2p_world \<Rightarrow> handled" where
  "create_session env s w =
     (case createSession (pe_to64 env (ps_sessionId s)) s (pw_sessions w) of
        (Inl e, _) \<Rightarrow> ([], Inl e, w)
      | (Inr _, ss) \<Rightarrow> ([NoData], Inr (), w\<lparr>pw_sessions := ss\<rparr>))"

definition close_session :: "p2p_env \<Rightarrow> byte list \<Rightarrow> p2p_world \<Rightarrow> handled option" where
  "close_session env sid w =
     map_option (\<lambda>(r, w'). case r of Inl e \<Rightarrow> ([], Inl e, w') | Inr _ \<Rightarrow> ([NoData], Inr (), w'))
       (session_close (pe_to64 env sid) w)"

text \<open>
  The tests of connectivity. \<open>latency\<close> is the outcome of \<^verbatim>\<open>sendPing\<close>. The host's test also says
  whether \<^verbatim>\<open>openNat\<close> is called, and for which address.
\<close>

definition connectivity_client :: "p2p_env \<Rightarrow> int res \<Rightarrow> ConnectivityCandidate \<Rightarrow> p2p_world \<Rightarrow> p2p_reply res" where
  "connectivity_client env latency cand w =
     (case getConnection_id (cc_listeningPeer cand) (repo_of w) of
        Inl e \<Rightarrow> Inl e
      | Inr x \<Rightarrow>
          if is_connected x w then Inr (Latency 0)
          else if \<not> pe_enableNatPunchthrough env then
            (if take 9 (ec_address (cc_listeningEndpointCandidate cand)) = ''127.0.0.1'' then Inr (Latency (-1))
             else Inr (Latency 1))
          else if pe_dedicatedServerEndpoint env \<noteq> '''' then Inr (Latency (-1))
          else map_sum id Latency latency)"

definition connectivity_host :: "p2p_env \<Rightarrow> ConnectivityCandidate \<Rightarrow> p2p_world \<Rightarrow> (p2p_reply \<times> string option) res" where
  "connectivity_host env cand w =
     (case getConnection_id (cc_clientPeer cand) (repo_of w) of
        Inl e \<Rightarrow> Inl e
      | Inr x \<Rightarrow>
          Inr (NoData,
            if \<not> is_connected x w \<and> pe_dedicatedServerEndpoint env = '''' \<and> pe_enableNatPunchthrough env
            then Some (ec_address (cc_clientEndpointCandidate cand)) else None))"

text \<open>
  \<^verbatim>\<open>ID_P2P_CONNECT_HOST\<close> and \<^verbatim>\<open>ID_P2P_CONNECT_CLIENT\<close>; \<open>key\<close> is the key of the connection the request
  came on. The client's one also starts a connection attempt, whose completion event is the
  first result; \<open>ct\<close> is a token that is never canceled.
\<close>

definition connect_host :: "p2p_env \<Rightarrow> string \<Rightarrow> ConnectivityCandidate \<Rightarrow> p2p_world \<Rightarrow> handled" where
  "connect_host env key cand w =
     (let i = pe_to64 env (cc_p2pSessionId cand);
          clientSessionId = pe_to64 env (cc_clientPeerSessionId cand) in
      case getConnection_id (cc_clientPeer cand) (repo_of w) of
        Inl e \<Rightarrow> ([], Inl e, w)
      | Inr x \<Rightarrow>
          if is_connected x w then
            (case registerConnectionOnCloseSession (the x) i key (set_session_state i SessionConnected w) of
               (r, w1) \<Rightarrow> ([NoData], r, w1))
          else ([NoData], Inr (), expect_connection (cc_clientPeer cand) clientSessionId i key w))"

definition connect_client ::
  "p2p_env \<Rightarrow> string \<Rightarrow> nat \<Rightarrow> ConnectivityCandidate \<Rightarrow> p2p_world \<Rightarrow> nat option \<times> handled" where
  "connect_client env key ct cand w =
     (let i = pe_to64 env (cc_p2pSessionId cand);
          clientSessionId = pe_to64 env (cc_listeningPeerSessionId cand) in
      case getConnection_id (cc_listeningPeer cand) (repo_of w) of
        Inl e \<Rightarrow> (None, [], Inl e, w)
      | Inr x \<Rightarrow>
          if is_connected x w then
            (case registerConnectionOnCloseSession (the x) i key (set_session_state i SessionConnected w) of
               (r, w1) \<Rightarrow> (None, [Flag True], r, w1))
          else
            (let w1 = expect_connection (cc_listeningPeer cand) clientSessionId i key w in
             case transport_connect (pe_rak env) (ec_address (cc_listeningEndpointCandidate cand)) i key ct (pw_transport w1) of
               (tce, t) \<Rightarrow> (Some tce, [], Inr (), w1\<lparr>pw_transport := t\<rparr>)))"

text \<open>
  The continuation with the outcome of the attempt: the log line reads the connection before
  the check for null.
\<close>

definition connect_client_done :: "nat option res \<Rightarrow> p2p_world \<Rightarrow> (p2p_reply list \<times> unit res) option" where
  "connect_client_done outcome w =
     (case outcome of
        Inl e \<Rightarrow> Some ([], Inl e)
      | Inr None \<Rightarrow> None
      | Inr (Some c) \<Rightarrow> Some ([Flag (is_connected (Some c) w)], Inr ()))"

text \<open>
  The relay. Only the id, the key, the session id and the metadata of the object are its own.
\<close>

definition relay_object :: "u64 \<Rightarrow> string \<Rightarrow> string \<Rightarrow> rnconn" where
  "relay_object peer p2pSessionId sessionId = (RakNetConnection 0 peer p2pSessionId False)\<lparr>c_sessionId := sessionId\<rparr>"

definition relay_open :: "p2p_env \<Rightarrow> nat \<Rightarrow> OpenRelayParameters \<Rightarrow> p2p_world \<Rightarrow> handled option" where
  "relay_open env k p w =
     (let i = pe_to64 env (or_p2pSessionId p) in
      case pw_sessions w i of
        None \<Rightarrow> Some ([], Inl (RuntimeError (''P2PSession not found ('' @ i @ '')'')), w)
      | Some s \<Rightarrow>
          (let c = length (cr_store (repo_of w));
               w1 = (upd_repo (\<lambda>r. r\<lparr>cr_store := cr_store r @ [relay_object (or_remotePeerId p) i (ps_remoteSessionId s)]\<rparr>) w)
                      \<lparr>pw_relay := (pw_relay w)(c \<mapsto> (case pw_relay w k of None \<Rightarrow> k | Some k' \<Rightarrow> k'))\<rparr>
           in case newConnection (Some c) (repo_of w1) of
                None \<Rightarrow> None
              | Some r \<Rightarrow> Some ([NoData], Inr (), set_session_state i SessionConnected (upd_repo (\<lambda>_. r) w1))))"

definition relay_close :: "u64 \<Rightarrow> p2p_world \<Rightarrow> handled" where
  "relay_close peerId w =
     (case getConnection_id peerId (repo_of w) of
        Inl e \<Rightarrow> ([], Inl e, w)
      | Inr None \<Rightarrow> ([NoData], Inr (), w)
      | Inr (Some c) \<Rightarrow> ([NoData], Inr (), upd_repo (closeConnection c) w))"

text \<open>\<^verbatim>\<open>P2PService::openP2PConnection\<close> with the server's answer, the id of the peer.\<close>

definition open_p2p_result :: "(u64 \<Rightarrow> string) \<Rightarrow> u64 \<Rightarrow> p2p_world \<Rightarrow> nat res" where
  "open_p2p_result shw peer w =
     (case getConnection_id peer (repo_of w) of
        Inl e \<Rightarrow> Inl e
      | Inr None \<Rightarrow> Inl (RuntimeError (''Failed to get P2P connection for peer '' @ shw peer))
      | Inr (Some c) \<Rightarrow> Inr c)"

text \<open>
  \<^verbatim>\<open>ID_CONNECTED_TO_SCENE\<close> and \<^verbatim>\<open>ID_DISCONNECT_FROM_SCENE\<close>: \<open>found\<close> is the outcome of
  \<^verbatim>\<open>getConnectedScene\<close>. The result is what is answered, the scene that is told, and the outcome. A
  disconnection is answered with the id of the scene and a reason in any case.
\<close>

definition connected_to_scene :: "nat option res \<Rightarrow> p2p_reply \<times> nat option \<times> unit res" where
  "connected_to_scene found = (NoData, case found of Inl _ \<Rightarrow> None | Inr x \<Rightarrow> x, map_sum id (\<lambda>_. ()) found)"

definition disconnect_from_scene :: "string \<Rightarrow> nat option res \<Rightarrow> (string \<times> string) \<times> nat option \<times> unit res" where
  "disconnect_from_scene sceneId found =
     ((sceneId, ''Requested by remote peer''), case found of Inl _ \<Rightarrow> None | Inr x \<Rightarrow> x, Inr ())"

section \<open>The invariant\<close>

lemma upd_repo_simps [simp]:
  "repo_of (upd_repo f w) = f (repo_of w)" "pw_sessions (upd_repo f w) = pw_sessions w"
  "pw_subscription (upd_repo f w) = pw_subscription w" "pw_onClose (upd_repo f w) = pw_onClose w"
  "pw_relay (upd_repo f w) = pw_relay w" "pw_waiters (upd_repo f w) = pw_waiters w"
  "pw_requests (upd_repo f w) = pw_requests w" "tr_connections (pw_transport (upd_repo f w)) = tr_connections (pw_transport w)"
  by (simp_all add: upd_repo_def)

lemma upd_object_simps [simp]:
  "repo_of (upd_object f c w) = (repo_of w)\<lparr>cr_store := (cr_store (repo_of w))[c := f (cr_store (repo_of w) ! c)]\<rparr>"
  "pw_sessions (upd_object f c w) = pw_sessions w"
  "pw_subscription (upd_object f c w) = pw_subscription w" "pw_onClose (upd_object f c w) = pw_onClose w"
  "pw_relay (upd_object f c w) = pw_relay w" "pw_waiters (upd_object f c w) = pw_waiters w"
  "pw_requests (upd_object f c w) = pw_requests w"
  by (simp_all add: upd_object_def)

lemma drop_session_simps [simp]:
  "repo_of (drop_session i w) = repo_of w" "pw_sessions (drop_session i w) = (pw_sessions w)(i := None)"
  "pw_subscription (drop_session i w) = (pw_subscription w)(i := None)"
  "pw_relay (drop_session i w) = pw_relay w" "pw_waiters (drop_session i w) = pw_waiters w"
  "pw_requests (drop_session i w) = pw_requests w"
  by (simp_all add: drop_session_def)

lemma set_session_state_simps [simp]:
  "pw_transport (set_session_state i st w) = pw_transport w"
  "pw_subscription (set_session_state i st w) = pw_subscription w" "pw_onClose (set_session_state i st w) = pw_onClose w"
  "pw_relay (set_session_state i st w) = pw_relay w" "pw_waiters (set_session_state i st w) = pw_waiters w"
  "pw_requests (set_session_state i st w) = pw_requests w"
  "pw_sessions (set_session_state i st w) j =
     (if j = i then map_option (ps_status_update (\<lambda>_. st)) (pw_sessions w i) else pw_sessions w j)"
  by (simp_all add: set_session_state_def updateSessionState_def split: option.splits)

text \<open>The repository: its invariant, and the connections tasks are done with exist.\<close>

definition waiting_done :: "repository \<Rightarrow> bool" where
  "waiting_done r \<longleftrightarrow> (\<forall>x \<in> set (cr_waiting r). \<forall>c. x = Done c \<longrightarrow> c < length (cr_store r))"

definition repo_ok :: "repository \<Rightarrow> bool" where
  "repo_ok r \<longleftrightarrow> maps_wf r \<and> waiting_wf r \<and> waiting_done r"

lemma repo_ok_append: "repo_ok r \<Longrightarrow> repo_ok (r\<lparr>cr_store := cr_store r @ [obj]\<rparr>)"
proof -
  assume "repo_ok r"
  then have "maps_wf (r\<lparr>cr_store := cr_store r @ [obj]\<rparr>)"
    by (fastforce simp: repo_ok_def maps_wf_def nth_append less_Suc_eq)
  then show ?thesis using \<open>repo_ok r\<close> by (auto simp: repo_ok_def waiting_done_def less_Suc_eq)
qed

lemma repo_ok_store:
  assumes "repo_ok r" "\<And>x. c_id (f x) = c_id x \<and> c_key (f x) = c_key x"
  shows "repo_ok (r\<lparr>cr_store := (cr_store r)[c := f (cr_store r ! c)]\<rparr>)"
proof (cases "c < length (cr_store r)")
  case True
  then show ?thesis using assms maps_wf_store [of r c "f (cr_store r ! c)"] by (simp add: repo_ok_def waiting_done_def)
next
  case False
  then have "(cr_store r)[c := f (cr_store r ! c)] = cr_store r" by (simp add: list_update_beyond)
  then show ?thesis using assms(1) by (simp only:) simp
qed

lemma repo_ok_forget: "repo_ok r \<Longrightarrow> repo_ok (forget i k r)"
  by (simp add: repo_ok_def forget_maps_wf waiting_done_def) (simp add: forget_def)

lemma repo_ok_register:
  assumes "repo_ok r" "c < length (cr_store r)"
  shows "repo_ok (register c r)"
proof -
  have "waiting_done (register c r)"
    using assms set_update_subset_insert [of "cr_waiting r"]
    by (fastforce simp: repo_ok_def waiting_done_def register_def newConnection_add Let_def split: option.splits)
  then show ?thesis using newConnection_wf [OF assms(2) newConnection_some] assms(1) by (simp add: repo_ok_def)
qed

lemma repo_ok_pending: "repo_ok r \<Longrightarrow> addPendingConnection i s r = (t, r') \<Longrightarrow> repo_ok r'"
  using pending_add_wf [of i s r t r'] by (auto simp: repo_ok_def waiting_done_def addPendingConnection_def Let_def split: if_splits)

lemma register_waiting: "length (cr_waiting (register c r)) = length (cr_waiting r)"
  by (simp add: register_def newConnection_add Let_def split: option.splits)

text \<open>
  The subscriptions: a session is in the event of the connection it has subscribed to, once,
  and in no other; a session that has subscribed exists.
\<close>

definition subs_wf :: "p2p_world \<Rightarrow> bool" where
  "subs_wf w \<longleftrightarrow>
     (\<forall>c. distinct (map fst (pw_onClose w c)) \<and>
        (\<forall>i. i \<in> fst ` set (pw_onClose w c) \<longleftrightarrow> pw_subscription w i = Some c)) \<and>
     (\<forall>i. pw_subscription w i \<noteq> None \<longrightarrow> pw_sessions w i \<noteq> None)"

definition p2p_wf :: "p2p_world \<Rightarrow> bool" where
  "p2p_wf w \<longleftrightarrow> repo_ok (repo_of w) \<and> subs_wf w \<and>
     (\<forall>i c. pw_subscription w i = Some c \<longrightarrow> c < length (cr_store (repo_of w))) \<and>
     (\<forall>c k. pw_relay w c = Some k \<longrightarrow> c < length (cr_store (repo_of w)) \<and> k < length (cr_store (repo_of w))) \<and>
     (\<forall>t. pw_waiters w t \<noteq> None \<longrightarrow> t < length (cr_waiting (repo_of w)))"

lemma p2p_wf_repo:
  assumes "p2p_wf w" "repo_ok (repo_of w')" "length (cr_store (repo_of w)) \<le> length (cr_store (repo_of w'))"
    and "length (cr_waiting (repo_of w)) \<le> length (cr_waiting (repo_of w'))"
    and "pw_sessions w' = pw_sessions w" "pw_subscription w' = pw_subscription w" "pw_onClose w' = pw_onClose w"
    and "pw_relay w' = pw_relay w" "pw_waiters w' = pw_waiters w"
  shows "p2p_wf w'"
proof -
  have "subs_wf w'" using assms(1,5-7) by (simp add: p2p_wf_def subs_wf_def)
  moreover have "c < length (cr_store (repo_of w'))" if "pw_subscription w' i = Some c" for i c
    using that assms(1,3,6) order_less_le_trans unfolding p2p_wf_def by metis
  moreover have "c < length (cr_store (repo_of w')) \<and> k < length (cr_store (repo_of w'))" if "pw_relay w' c = Some k" for c k
    using that assms(1,3,8) order_less_le_trans unfolding p2p_wf_def by metis
  moreover have "t < length (cr_waiting (repo_of w'))" if "pw_waiters w' t \<noteq> None" for t
    using that assms(1,4,9) order_less_le_trans unfolding p2p_wf_def by metis
  ultimately show ?thesis using assms(2) by (simp add: p2p_wf_def)
qed

lemma p2p_wf_ok: "p2p_wf w \<Longrightarrow> repo_ok (repo_of w)"
  by (simp add: p2p_wf_def)

lemma p2p_wf_object:
  "p2p_wf w \<Longrightarrow> (\<And>x. c_id (f x) = c_id x \<and> c_key (f x) = c_key x) \<Longrightarrow> p2p_wf (upd_object f c w)"
  by (rule p2p_wf_repo [of w]) (simp_all add: repo_ok_store p2p_wf_ok)

lemma p2p_wf_forget: "p2p_wf w \<Longrightarrow> p2p_wf (upd_repo (forget i k) w)"
  by (rule p2p_wf_repo [of w]) (simp_all add: repo_ok_forget p2p_wf_ok, simp_all add: forget_def)

lemma drop_session_onClose:
  assumes "subs_wf w"
  shows "pw_onClose (drop_session i w) c = filter (\<lambda>l. fst l \<noteq> i) (pw_onClose w c)"
proof (cases "pw_subscription w i = Some c")
  case False
  then have "i \<notin> fst ` set (pw_onClose w c)" using assms by (simp add: subs_wf_def)
  then have "filter (\<lambda>l. fst l \<noteq> i) (pw_onClose w c) = pw_onClose w c" by (force simp: filter_id_conv)
  then show ?thesis using False by (auto simp: drop_session_def split: option.splits)
qed (simp add: drop_session_def)

lemma fst_filter: "fst ` set (filter (\<lambda>l. fst l \<noteq> i) xs) = fst ` set xs - {i}"
  by force

lemma subs_wf_drop:
  assumes "subs_wf w"
  shows "subs_wf (drop_session i w)"
proof -
  have "j \<in> fst ` set (pw_onClose w c) - {i} \<longleftrightarrow> (if j = i then None else pw_subscription w j) = Some c" for j c
    using assms by (simp add: subs_wf_def)
  then show ?thesis
    using assms unfolding subs_wf_def drop_session_onClose [OF assms] fst_filter drop_session_simps
    by (simp add: distinct_map_filter fun_upd_apply)
qed

lemma p2p_wf_drop: "p2p_wf w \<Longrightarrow> p2p_wf (drop_session i w)"
  using subs_wf_drop [of w i] by (simp add: p2p_wf_def)

lemma fire_listeners_inv:
  assumes "\<And>l w r w'. P w \<Longrightarrow> f l w = Some (r, w') \<Longrightarrow> P w'" "P w" "fire_listeners f ls w = Some (r, w')"
  shows "P w'"
  using assms(2,3)
proof (induction ls arbitrary: w)
  case (Cons l ls)
  obtain x w1 where x: "f l w = Some (x, w1)" using Cons.prems(2) by (auto split: option.splits)
  have "P w1" using assms(1) Cons.prems(1) x by blast
  then show ?case using Cons x by (auto split: sum.splits)
qed simp

text \<open>The state in which the subscribers run, and the end of a closing.\<close>

definition open_object :: "nat \<Rightarrow> p2p_world \<Rightarrow> bool" where
  "open_object c w \<longleftrightarrow> pw_relay w c = None \<and> (object_state c w = Connected \<or> object_state c w = Connecting)"

definition closing :: "string \<Rightarrow> nat \<Rightarrow> p2p_world \<Rightarrow> p2p_world" where
  "closing reason c w =
     (let w1 = upd_object (fire_onClose reason \<circ> setConnectionState (conn_state_because Disconnecting reason)) c w in
      if subscribed c (repo_of w)
      then upd_repo (forget (c_id (cr_store (repo_of w) ! c)) (c_key (cr_store (repo_of w) ! c))) w1 else w1)"

lemma close_with_simps:
  "\<not> open_object c w \<Longrightarrow> close_with f reason c w = Some (Inr (), w)"
  "open_object c w \<Longrightarrow> close_with f reason c w =
     (case fire_listeners f (pw_onClose w c) (closing reason c w) of
        None \<Rightarrow> None
      | Some (Inl e, w3) \<Rightarrow> Some (Inl e, w3)
      | Some (Inr _, w3) \<Rightarrow> Some (Inr (), upd_object (setConnectionState (conn_state_because Disconnected reason)) c w3))"
  by (auto simp: close_with_def open_object_def closing_def Let_def)

lemma closing_wf: "p2p_wf w \<Longrightarrow> p2p_wf (closing reason c w)"
  using p2p_wf_object [of w "fire_onClose reason \<circ> setConnectionState (conn_state_because Disconnecting reason)" c]
  by (simp add: closing_def Let_def p2p_wf_forget fire_onClose_def)

lemma close_with_wf:
  assumes "\<And>l w r w'. p2p_wf w \<Longrightarrow> f l w = Some (r, w') \<Longrightarrow> p2p_wf w'" "p2p_wf w" "close_with f reason c w = Some (r, w')"
  shows "p2p_wf w'"
proof -
  have st: "p2p_wf (upd_object (setConnectionState x) c v)" if "p2p_wf v" for x v
    by (rule p2p_wf_object [OF that]) simp
  show ?thesis
  proof (cases "open_object c w")
    case True
    then obtain x w3 where fl: "fire_listeners f (pw_onClose w c) (closing reason c w) = Some (x, w3)"
      "w' = w3 \<or> w' = upd_object (setConnectionState (conn_state_because Disconnected reason)) c w3"
      using assms(3) by (auto simp: close_with_simps split: option.splits sum.splits)
    have "p2p_wf w3" by (rule fire_listeners_inv [where P = p2p_wf and f = f, OF _ closing_wf [OF assms(2)] fl(1)]) (use assms(1) in blast)
    then show ?thesis using fl(2) st by blast
  qed (use assms(2,3) in \<open>simp add: close_with_simps\<close>)
qed

lemma session_close_wf:
  assumes "p2p_wf w" "session_close i w = Some (r, w')"
  shows "p2p_wf w'"
  using assms p2p_wf_drop [OF assms(1), of i] close_with_wf [where f = "\<lambda>_ _. None" and w = "drop_session i w"]
  by (auto simp: session_close_def split: option.splits sum.splits)

lemma p2p_wf_requests [simp]: "p2p_wf (w\<lparr>pw_requests := q\<rparr>) = p2p_wf w"
  by (simp add: p2p_wf_def subs_wf_def)

lemma on_connection_closed_wf:
  assumes "p2p_wf w" "on_connection_closed env l w = Some (r, w')"
  shows "p2p_wf w'"
proof -
  obtain i host where l: "l = (i, host)" by (cases l)
  obtain q x where "session_close i (w\<lparr>pw_requests := q\<rparr>) = Some (x, w')"
  proof (cases "\<exists>k. host = Some k \<and> pe_alive env k")
    case False
    then have "\<exists>x. session_close i w = Some (x, w')"
      using assms(2) by (auto simp: on_connection_closed_def l split: option.splits)
    then show ?thesis using that [of "pw_requests w"] by auto
  qed (use assms(2) that in \<open>auto simp: on_connection_closed_def l\<close>)
  then show ?thesis using session_close_wf assms(1) p2p_wf_requests by blast
qed

lemma connection_close_wf: "p2p_wf w \<Longrightarrow> connection_close env reason c w = Some (r, w') \<Longrightarrow> p2p_wf w'"
  unfolding connection_close_def using close_with_wf on_connection_closed_wf by blast

lemma p2p_wf_transport:
  assumes "p2p_wf w" "tr_handler t = repo_of w"
  shows "p2p_wf (w\<lparr>pw_transport := t\<rparr>)"
  using assms by (simp add: p2p_wf_def subs_wf_def)

lemma connection_lost_wf:
  assumes "p2p_wf w" "connection_lost env guid reason w = Some (r, w')"
  shows "p2p_wf w'"
proof -
  obtain conn t1 where t1: "removeConnection guid (pw_transport w) = (conn, t1)" by fastforce
  then have "tr_handler t1 = repo_of w" by (auto simp: removeConnection_def split: option.splits)
  then have w0: "p2p_wf (w\<lparr>pw_transport := t1\<rparr>)" by (rule p2p_wf_transport [OF assms(1)])
  have w1: "p2p_wf (upd_object (fire_onClose x) c (upd_repo (closeConnection c) (w\<lparr>pw_transport := t1\<rparr>)))" for x c
    using p2p_wf_forget [OF w0] by (intro p2p_wf_object) (simp_all add: closeConnection_def upd_repo_def fire_onClose_def)
  have st: "p2p_wf (upd_object (setConnectionState x) c v)" if "p2p_wf v" for x v c
    by (rule p2p_wf_object [OF that]) simp
  show ?thesis
  proof (cases conn)
    case None
    then show ?thesis using assms(2) w0 by (simp add: connection_lost_def t1)
  next
    case (Some c)
    then obtain x q w2 where fl: "fire_listeners (on_connection_closed env) (pw_onClose w c)
        (upd_object (fire_onClose x) c (upd_repo (closeConnection c) (w\<lparr>pw_transport := t1\<rparr>))) = Some (q, w2)"
      "w' = w2 \<or> (\<exists>s s'. w' = upd_object (setConnectionState s) c (upd_object (setConnectionState s') c w2))"
      using assms(2) by (auto simp: connection_lost_def Let_def t1 split: option.splits sum.splits) blast+
    have "p2p_wf w2" by (rule fire_listeners_inv [where P = p2p_wf, OF on_connection_closed_wf w1 fl(1)])
    then show ?thesis using fl(2) st by blast
  qed
qed

lemma register_session_wf:
  assumes "p2p_wf w" "c < length (cr_store (repo_of w))"
  shows "p2p_wf (snd (registerConnectionOnCloseSession c i parentId w))"
proof (cases "pw_sessions w i \<noteq> None \<and> pw_subscription w i = None")
  case True
  have s: "subs_wf w" using assms(1) by (simp add: p2p_wf_def)
  have new: "i \<notin> fst ` set (pw_onClose w d)" for d using s True by (simp add: subs_wf_def)
  have "subs_wf (w\<lparr>pw_subscription := (pw_subscription w)(i \<mapsto> c),
      pw_onClose := (pw_onClose w)(c := pw_onClose w c @ [(i, h)])\<rparr>)" for h
    using s True new by (simp add: subs_wf_def)
  then show ?thesis using assms True
    by (auto simp: registerConnectionOnCloseSession_def p2p_wf_def split: sum.splits)
qed (use assms in \<open>auto simp: registerConnectionOnCloseSession_def split: sum.splits\<close>)

lemma set_session_state_wf [simp]: "p2p_wf (set_session_state i st w) = p2p_wf w"
proof -
  have "pw_sessions (set_session_state i st w) j = None \<longleftrightarrow> pw_sessions w j = None" for j by simp
  then show ?thesis by (simp only: p2p_wf_def subs_wf_def set_session_state_simps(1-6))
qed

lemma expect_connection_wf:
  assumes "p2p_wf w"
  shows "p2p_wf (expect_connection peer sessionId i key w)"
proof -
  obtain t r where a: "addPendingConnection peer sessionId (repo_of w) = (t, r)" by fastforce
  then have t: "t = length (cr_waiting (repo_of w))" "length (cr_waiting r) = Suc t" "cr_store r = cr_store (repo_of w)"
    by (auto simp: addPendingConnection_def Let_def)
  have "p2p_wf (upd_repo (\<lambda>_. r) w)"
    by (rule p2p_wf_repo [OF assms]) (use a t repo_ok_pending [OF p2p_wf_ok [OF assms]] in simp_all)
  then show ?thesis using a t by (simp add: expect_connection_def p2p_wf_def subs_wf_def)
qed

lemma start_request_handler [simp]: "tr_handler (start_request rak rq t) = tr_handler t"
  by (simp add: start_request_def Let_def split: option.splits)

lemma start_next_handler [simp]: "tr_handler (start_next rak t) = tr_handler t"
proof (induction rak t rule: start_next.induct)
  case (1 rak t)
  then show ?case by (subst start_next.simps) (auto split: list.splits)
qed

lemma transport_connect_handler: "transport_connect rak e i pid ct t = (n, t') \<Longrightarrow> tr_handler t' = tr_handler t"
  by (auto simp: transport_connect_def Let_def)

lemma onConnection_handler:
  assumes "onConnection g p k t = Some (c, t')"
  defines "r1 \<equiv> register c ((tr_handler t)\<lparr>cr_store := cr_store (tr_handler t) @ [RakNetConnection g p k True]\<rparr>)"
  shows "c = length (cr_store (tr_handler t))"
    "tr_handler t' = r1\<lparr>cr_store := (cr_store r1)[c :=
       setConnectionState (conn_state Connected) (setConnectionState (conn_state Connecting) (cr_store r1 ! c))]\<rparr>"
proof -
  have "tr_peer t" using assms(1) by (auto simp: onConnection_def createNewConnection_def newConnection_def split: if_splits)
  moreover then show c: "c = length (cr_store (tr_handler t))"
    using assms(1) by (simp add: onConnection_def createNewConnection_def newConnection_some Let_def)
  moreover have "length (cr_store (register c r)) = length (cr_store r)" for r by (simp add: register_fields)
  ultimately show "tr_handler t' = r1\<lparr>cr_store := (cr_store r1)[c :=
       setConnectionState (conn_state Connected) (setConnectionState (conn_state Connecting) (cr_store r1 ! c))]\<rparr>"
    using assms(1) unfolding r1_def
    by (auto simp: onConnection_def createNewConnection_def newConnection_some set_conn_state_def Let_def)
qed

lemma onConnection_wf:
  assumes "p2p_wf w" "onConnection g p k (pw_transport w) = Some (c, t)"
  shows "p2p_wf (w\<lparr>pw_transport := t\<rparr>)"
proof -
  let ?r = "(repo_of w)\<lparr>cr_store := cr_store (repo_of w) @ [RakNetConnection g p k True]\<rparr>"
  note h = onConnection_handler [OF assms(2)]
  have "repo_ok (register c ?r)" using repo_ok_register [OF repo_ok_append [OF p2p_wf_ok [OF assms(1)]]] h(1) by simp
  then have "repo_ok (tr_handler t)"
    unfolding h(2)
    by (rule repo_ok_store [where f = "\<lambda>x. setConnectionState (conn_state Connected) (setConnectionState (conn_state Connecting) x)"]) simp
  then show ?thesis
    by (intro p2p_wf_repo [OF assms(1)]) (simp_all, simp_all add: h(2) register_fields register_waiting)
qed

lemma relay_open_wf:
  assumes "p2p_wf w" "relay_open env k p w = Some (out, x, w')" "k < length (cr_store (repo_of w))"
  shows "p2p_wf w'"
proof (cases "pw_sessions w (pe_to64 env (or_p2pSessionId p))")
  case None
  then show ?thesis using assms by (simp add: relay_open_def)
next
  case (Some s)
  let ?c = "length (cr_store (repo_of w))" and ?i = "pe_to64 env (or_p2pSessionId p)"
  let ?r = "(repo_of w)\<lparr>cr_store := cr_store (repo_of w) @ [relay_object (or_remotePeerId p) ?i (ps_remoteSessionId s)]\<rparr>"
  let ?w1 = "upd_repo (\<lambda>_. register ?c ?r) w"
  have "repo_ok (register ?c ?r)" by (rule repo_ok_register [OF repo_ok_append [OF p2p_wf_ok [OF assms(1)]]]) simp
  then have w1: "p2p_wf ?w1"
    by (intro p2p_wf_repo [OF assms(1)]) (simp_all add: register_fields register_waiting)
  have "length (cr_store (repo_of ?w1)) = Suc ?c" by (simp add: register_fields)
  then have "p2p_wf (?w1\<lparr>pw_relay := (pw_relay w)(?c \<mapsto> k')\<rparr>)" if "k' < ?c" for k'
    using w1 that by (auto simp: p2p_wf_def subs_wf_def)
  moreover have "?w1\<lparr>pw_relay := q\<rparr> = upd_repo (\<lambda>_. register ?c ?r) (w\<lparr>pw_relay := q\<rparr>)" for q
    by (cases w) (simp add: upd_repo_def)
  ultimately have "p2p_wf (upd_repo (\<lambda>_. register ?c ?r) (w\<lparr>pw_relay := (pw_relay w)(?c \<mapsto> k')\<rparr>))" if "k' < ?c" for k' using that by simp
  moreover have "(case pw_relay w k of None \<Rightarrow> k | Some k' \<Rightarrow> k') < ?c"
    using assms(1,3) unfolding p2p_wf_def by (cases "pw_relay w k") auto
  ultimately show ?thesis using assms(2) Some by (auto simp: relay_open_def Let_def newConnection_some upd_repo_def)
qed

lemma run_waiter_wf:
  assumes "p2p_wf w"
  shows "p2p_wf (run_waiter t w)"
proof (cases "pw_waiters w t")
  case (Some x)
  obtain i key where x: "x = (i, key)" by (cases x)
  let ?w0 = "w\<lparr>pw_waiters := (pw_waiters w)(t := None)\<rparr>"
  have w0: "p2p_wf ?w0" using assms by (simp add: p2p_wf_def subs_wf_def)
  have t: "t < length (cr_waiting (repo_of w))" using assms Some by (simp add: p2p_wf_def)
  have "p2p_wf (snd (registerConnectionOnCloseSession c i key (set_session_state i st (upd_object (setMetadata k v) c ?w0))))"
    if "cr_waiting (repo_of w) ! t = Done c" for c st k v
  proof (rule register_session_wf)
    show "p2p_wf (set_session_state i st (upd_object (setMetadata k v) c ?w0))"
      using p2p_wf_object [OF w0, of "setMetadata k v" c] by (simp add: setMetadata_def)
    show "c < length (cr_store (repo_of (set_session_state i st (upd_object (setMetadata k v) c ?w0))))"
      using that t p2p_wf_ok [OF assms] nth_mem [OF t] by (simp add: repo_ok_def waiting_done_def)
  qed
  then show ?thesis using assms w0 by (auto simp: run_waiter_def Some x Let_def split: task.splits)
qed (use assms in \<open>simp add: run_waiter_def\<close>)

section \<open>Reachable states\<close>

definition p2p_start :: "transport \<Rightarrow> p2p_world" where
  "p2p_start t = \<lparr>pw_transport = t, pw_sessions = Map.empty, pw_subscription = Map.empty, pw_onClose = \<lambda>_. [],
     pw_relay = Map.empty, pw_waiters = Map.empty, pw_requests = []\<rparr>"

text \<open>\<open>transport\<close> is any operation of the transport that leaves the repository alone.\<close>

inductive p2p_reach :: "p2p_env \<Rightarrow> p2p_world \<Rightarrow> bool" for env where
  start: "tr_handler t = ConnectionsRepository \<Longrightarrow> p2p_reach env (p2p_start t)"
| transport: "p2p_reach env w \<Longrightarrow> tr_handler t = repo_of w \<Longrightarrow> p2p_reach env (w\<lparr>pw_transport := t\<rparr>)"
| connection: "p2p_reach env w \<Longrightarrow> onConnection g p k (pw_transport w) = Some (c, t) \<Longrightarrow> p2p_reach env (w\<lparr>pw_transport := t\<rparr>)"
| state: "p2p_reach env w \<Longrightarrow> p2p_reach env (upd_object (setConnectionState s) c w)"
| create: "p2p_reach env w \<Longrightarrow> create_session env s w = (out, x, w') \<Longrightarrow> p2p_reach env w'"
| close: "p2p_reach env w \<Longrightarrow> close_session env sid w = Some (out, x, w') \<Longrightarrow> p2p_reach env w'"
| host: "p2p_reach env w \<Longrightarrow> connect_host env key cand w = (out, x, w') \<Longrightarrow> p2p_reach env w'"
| client: "p2p_reach env w \<Longrightarrow> connect_client env key ct cand w = (tce, out, x, w') \<Longrightarrow> p2p_reach env w'"
| waiter: "p2p_reach env w \<Longrightarrow> p2p_reach env (run_waiter t w)"
| relay_open: "p2p_reach env w \<Longrightarrow> k < length (cr_store (repo_of w)) \<Longrightarrow> relay_open env k p w = Some (out, x, w') \<Longrightarrow>
    p2p_reach env w'"
| relay_close: "p2p_reach env w \<Longrightarrow> relay_close i w = (out, x, w') \<Longrightarrow> p2p_reach env w'"
| closed: "p2p_reach env w \<Longrightarrow> connection_close env reason c w = Some (r, w') \<Longrightarrow> p2p_reach env w'"
| lost: "p2p_reach env w \<Longrightarrow> connection_lost env guid reason w = Some (r, w') \<Longrightarrow> p2p_reach env w'"

lemma p2p_getConnection:
  assumes "p2p_wf w" "getConnection_id i (repo_of w) = Inr (Some c)"
  shows "c < length (cr_store (repo_of w))" "c_id (cr_store (repo_of w) ! c) = i"
  using repo.get_valid [of "repo_of w" i c] assms by (simp_all add: p2p_wf_def repo_ok_def)

lemma connected_session_wf:
  assumes "p2p_wf w" "getConnection_id i (repo_of w) = Inr (Some c)"
  shows "p2p_wf (snd (registerConnectionOnCloseSession c j key (set_session_state j st w)))"
  by (rule register_session_wf) (use assms p2p_getConnection(1) [OF assms] in simp_all)

lemma connect_host_wf:
  assumes "p2p_wf w" "connect_host env key cand w = (out, x, w')"
  shows "p2p_wf w'"
proof (cases "getConnection_id (cc_clientPeer cand) (repo_of w)")
  case (Inr y)
  show ?thesis
  proof (cases "is_connected y w")
    case True
    then obtain c where c: "y = Some c" by (auto simp: is_connected_def split: option.splits)
    show ?thesis
      using assms(2) connected_session_wf [OF assms(1), of "cc_clientPeer cand" c] Inr c True
      by (auto simp: connect_host_def Let_def split: prod.splits)
         (metis snd_conv)
  qed (use assms expect_connection_wf [OF assms(1)] Inr in \<open>auto simp: connect_host_def Let_def\<close>)
qed (use assms in \<open>simp add: connect_host_def\<close>)

lemma connect_client_wf:
  assumes "p2p_wf w" "connect_client env key ct cand w = (tce, out, x, w')"
  shows "p2p_wf w'"
proof (cases "getConnection_id (cc_listeningPeer cand) (repo_of w)")
  case (Inr y)
  show ?thesis
  proof (cases "is_connected y w")
    case True
    then obtain c where c: "y = Some c" by (auto simp: is_connected_def split: option.splits)
    show ?thesis
      using assms(2) connected_session_wf [OF assms(1), of "cc_listeningPeer cand" c] Inr c True
      by (auto simp: connect_client_def Let_def split: prod.splits)
         (metis snd_conv)
  next
    case False
    show ?thesis
      using assms(2) p2p_wf_transport [OF expect_connection_wf [OF assms(1)]] transport_connect_handler Inr False
      by (auto simp: connect_client_def Let_def split: prod.splits)
  qed
qed (use assms in \<open>simp add: connect_client_def\<close>)

lemma p2p_reach_wf: "p2p_reach env w \<Longrightarrow> p2p_wf w"
proof (induction rule: p2p_reach.induct)
  case (start t)
  then show ?case by (simp add: p2p_wf_def subs_wf_def p2p_start_def repo_ok_def repo_wf_new waiting_done_def)
    (simp add: ConnectionsRepository_def)
next
  case (transport w t)
  then show ?case by (simp add: p2p_wf_transport)
next
  case (connection w g p k c t)
  then show ?case by (simp add: onConnection_wf)
next
  case (state w s c)
  then show ?case by (simp add: p2p_wf_object)
next
  case (create w s out x w')
  have "p2p_wf (w\<lparr>pw_sessions := (pw_sessions w)(i \<mapsto> s)\<rparr>)" for i
    using create.IH by (simp add: p2p_wf_def subs_wf_def)
  then show ?case using create by (auto simp: create_session_def createSession_def split: if_splits)
next
  case (close w sid out x w')
  then obtain r w1 where r: "session_close (pe_to64 env sid) w = Some (r, w1)" by (auto simp: close_session_def)
  then have "w1 = w'" using close(2) by (cases r) (auto simp: close_session_def)
  then show ?case using session_close_wf close.IH r by blast
next
  case (host w key cand out x w')
  then show ?case using connect_host_wf by blast
next
  case (client w key ct cand tce out x w')
  then show ?case using connect_client_wf by blast
next
  case (waiter w t)
  then show ?case by (simp add: run_waiter_wf)
next
  case (relay_open w k p out x w')
  then show ?case using relay_open_wf by blast
next
  case (relay_close w i out x w')
  then show ?case using p2p_wf_forget by (auto simp: relay_close_def closeConnection_def upd_repo_def split: sum.splits option.splits)
next
  case (closed w reason c r w')
  then show ?case using connection_close_wf by blast
next
  case (lost w guid reason r w')
  then show ?case using connection_lost_wf by blast
qed

section \<open>Properties\<close>

text \<open>
  In every reachable state a session that has subscribed to the end of a connection
  exists and is called exactly once when that connection ends, and by no other connection.
\<close>

theorem subscriptions_sound:
  assumes "p2p_reach env w"
  shows "length (filter (\<lambda>l. fst l = i) (pw_onClose w c)) = (if pw_subscription w i = Some c then 1 else 0) \<and>
    (pw_subscription w i = Some c \<longrightarrow> pw_sessions w i \<noteq> None \<and> c < length (cr_store (repo_of w)))"
proof -
  have wf: "p2p_wf w" "subs_wf w" using p2p_reach_wf [OF assms] by (simp_all add: p2p_wf_def)
  have "length (filter (\<lambda>l. fst l = i) xs) = (if i \<in> fst ` set xs then 1 else 0)" if "distinct (map fst xs)" for xs :: "(string \<times> nat option) list"
    using that by (induction xs) auto
  then show ?thesis using wf by (simp add: subs_wf_def p2p_wf_def)
qed

lemma fire_deadlock: "fire_listeners (\<lambda>_ _. None) ls w = (if ls = [] then Some (Inr (), w) else None)"
  by (cases ls) simp_all

lemma filter_other: "filter (\<lambda>l. fst l \<noteq> i) xs = [] \<longleftrightarrow> (\<forall>j. j \<in> fst ` set xs \<longrightarrow> j = i)"
  by (auto simp: filter_empty_conv)

lemma open_drop [simp]: "open_object c (drop_session i w) = open_object c w"
  by (simp add: open_object_def object_state_def)

text \<open>
  Property C23. The request to close a session returns unless the session's connection is open and
  another session has subscribed to its end: then the call deadlocks on the mutex of the sessions. When
  it returns, the session and its subscription are gone, and the others are as they were.
\<close>

theorem closing_session_returns:
  assumes "p2p_reach env w" "pw_sessions w i = Some s"
  shows "(session_close i w = None \<longleftrightarrow>
      (\<exists>c j. getConnection_id (ps_remotePeerId s) (repo_of w) = Inr (Some c) \<and> open_object c w \<and> j \<noteq> i \<and>
         pw_subscription w j = Some c)) \<and>
    (\<forall>r w'. session_close i w = Some (r, w') \<longrightarrow>
       r = Inr (getConnection_id (ps_remotePeerId s) (repo_of w) \<noteq> Inr None) \<and> pw_requests w' = pw_requests w \<and>
       pw_sessions w' = (pw_sessions w)(i := None) \<and> pw_subscription w' = (pw_subscription w)(i := None))"
proof -
  have wf: "p2p_wf w" "subs_wf w" using p2p_reach_wf [OF assms(1)] by (simp_all add: p2p_wf_def)
  then have m: "maps_wf (repo_of w)" by (simp add: p2p_wf_def repo_ok_def)
  have sub: "j \<in> fst ` set (pw_onClose w c) \<longleftrightarrow> pw_subscription w j = Some c" for j c using wf(2) by (simp add: subs_wf_def)
  obtain x where x: "getConnection_id (ps_remotePeerId s) (repo_of w) = Inr x" using repo.get_total [OF m] by blast
  show ?thesis
  proof (cases x)
    case None
    then show ?thesis using assms(2) x by (simp add: session_close_def)
  next
    case (Some c)
    have l: "pw_onClose (drop_session i w) c = [] \<longleftrightarrow> (\<forall>j. pw_subscription w j = Some c \<longrightarrow> j = i)"
      unfolding drop_session_onClose [OF wf(2)] filter_other sub ..
    have "pw_sessions (closing reason c v) = pw_sessions v" "pw_subscription (closing reason c v) = pw_subscription v"
      "pw_requests (closing reason c v) = pw_requests v" for reason v by (simp_all add: closing_def Let_def)
    then show ?thesis using assms(2) x Some l
      by (cases "open_object c w") (auto simp: session_close_def close_with_simps fire_deadlock)
  qed
qed

text \<open>What a subscriber sends to the server.\<close>

definition close_request :: "p2p_env \<Rightarrow> string \<times> nat option \<Rightarrow> (nat \<times> byte list) list" where
  "close_request env l =
     (case snd l of None \<Rightarrow> [] | Some k \<Rightarrow> if pe_alive env k then [(k, pe_from64 env (fst l))] else [])"

lemma fire_closed:
  assumes "getConnection_id pid (repo_of v) = Inr None" "distinct (map fst ls)"
    and "\<And>j. j \<in> fst ` set ls \<Longrightarrow> \<exists>s. pw_sessions v j = Some s \<and> ps_remotePeerId s = pid"
  shows "\<exists>v'. fire_listeners (on_connection_closed env) ls v = Some (Inr (), v') \<and> pw_transport v' = pw_transport v \<and>
    pw_sessions v' = (\<lambda>j. if j \<in> fst ` set ls then None else pw_sessions v j) \<and>
    pw_subscription v' = (\<lambda>j. if j \<in> fst ` set ls then None else pw_subscription v j) \<and>
    pw_requests v' = pw_requests v @ concat (map (close_request env) ls)"
  using assms
proof (induction ls arbitrary: v)
  case (Cons l ls)
  obtain i h where l: "l = (i, h)" by (cases l)
  obtain s where s: "pw_sessions v i = Some s" "ps_remotePeerId s = pid" using Cons.prems(3) [of i] l by auto
  let ?v1 = "drop_session i (v\<lparr>pw_requests := pw_requests v @ close_request env l\<rparr>)"
  have f: "on_connection_closed env l v = Some (Inr (), ?v1)"
    using s Cons.prems(1) by (auto simp: on_connection_closed_def close_request_def session_close_def l split: option.splits)
  have "pw_transport ?v1 = pw_transport v" by (simp add: drop_session_def)
  moreover have "\<exists>s. pw_sessions ?v1 j = Some s \<and> ps_remotePeerId s = pid" if "j \<in> fst ` set ls" for j
    using that Cons.prems(2,3) l by (auto simp: image_iff)
  ultimately obtain v' where v': "fire_listeners (on_connection_closed env) ls ?v1 = Some (Inr (), v')" "pw_transport v' = pw_transport v"
    "pw_sessions v' = (\<lambda>j. if j \<in> fst ` set ls then None else pw_sessions ?v1 j)"
    "pw_subscription v' = (\<lambda>j. if j \<in> fst ` set ls then None else pw_subscription ?v1 j)"
    "pw_requests v' = pw_requests ?v1 @ concat (map (close_request env) ls)"
    using Cons.IH [of ?v1] Cons.prems(1,2) by auto
  have "fire_listeners (on_connection_closed env) (l # ls) v = Some (Inr (), v')" using f v'(1) by simp
  moreover have "(\<lambda>j. if j \<in> fst ` set ls then None else (m(i := None)) j) = (\<lambda>j. if j \<in> fst ` set (l # ls) then None else m j)"
    for m :: "string \<rightharpoonup> 'x" by (auto simp: l)
  moreover have "pw_requests v' = pw_requests v @ concat (map (close_request env) (l # ls))" using v'(5) by simp
  ultimately show ?case using v'(2-4) by (intro exI [of _ v']) (auto simp: l fun_eq_iff)
qed simp

lemma onClose_subscribed: "subs_wf w \<Longrightarrow> fst ` set (pw_onClose w c) = {j. pw_subscription w j = Some c}"
  by (auto simp: subs_wf_def)

lemma setConnectionState_disconnected [simp]:
  "cs_state (c_state (setConnectionState (conn_state_because Disconnected r) x)) = Disconnected"
  by (simp add: setConnectionState_def conn_state_because_def cs_eq_def Let_def)

lemma close_ends:
  assumes "p2p_wf w" "open_object c w" "getConnection_id pid (repo_of w) = Inr (Some c)"
    and "\<And>j s. pw_subscription w j = Some c \<Longrightarrow> pw_sessions w j = Some s \<Longrightarrow> ps_remotePeerId s = pid"
  shows "\<exists>w'. connection_close env reason c w = Some (Inr (), w') \<and>
    pw_sessions w' = (\<lambda>j. if pw_subscription w j = Some c then None else pw_sessions w j) \<and>
    pw_requests w' = pw_requests w @ concat (map (close_request env) (pw_onClose w c)) \<and>
    getConnection_id pid (repo_of w') = Inr None \<and> cs_state (c_state (cr_store (repo_of w') ! c)) = Disconnected"
proof -
  have wf: "p2p_wf w" "subs_wf w" using assms(1) by (simp_all add: p2p_wf_def)
  have c: "c < length (cr_store (repo_of w))" "c_id (cr_store (repo_of w) ! c) = pid" using p2p_getConnection [OF wf(1) assms(3)] by simp_all
  have "maps_wf (repo_of w)" using wf(1) by (simp add: p2p_wf_def repo_ok_def)
  then obtain t where "cr_connections (repo_of w) pid = Some t" "cr_tasks (repo_of w) ! t = Done c"
    using assms(3) getConnection_id_wf(2) by blast
  then have "subscribed c (repo_of w)" using c(2) by (simp add: subscribed_def)
  then have cl: "pw_sessions (closing reason c w) = pw_sessions w" "pw_requests (closing reason c w) = pw_requests w"
    "getConnection_id pid (repo_of (closing reason c w)) = Inr None"
    "length (cr_store (repo_of (closing reason c w))) = length (cr_store (repo_of w))"
    by (simp_all add: closing_def Let_def c(2) getConnection_id_def forget_def)
  have mem: "j \<in> fst ` set (pw_onClose w c) \<longleftrightarrow> pw_subscription w j = Some c" for j using onClose_subscribed [OF wf(2)] by blast
  have "pw_sessions w j \<noteq> None" if "pw_subscription w j = Some c" for j using wf(2) that unfolding subs_wf_def by blast
  then have "\<exists>s. pw_sessions w j = Some s \<and> ps_remotePeerId s = pid" if "j \<in> fst ` set (pw_onClose w c)" for j
    using that assms(4) [of j] unfolding mem by blast
  then have ex: "\<exists>s. pw_sessions (closing reason c w) j = Some s \<and> ps_remotePeerId s = pid" if "j \<in> fst ` set (pw_onClose w c)" for j
    using that unfolding cl(1) by blast
  have d: "distinct (map fst (pw_onClose w c))" using wf(2) by (simp add: subs_wf_def)
  from fire_closed [OF cl(3) d ex] obtain v' where v': "fire_listeners (on_connection_closed env) (pw_onClose w c) (closing reason c w) = Some (Inr (), v')"
    "pw_transport v' = pw_transport (closing reason c w)"
    "pw_sessions v' = (\<lambda>j. if j \<in> fst ` set (pw_onClose w c) then None else pw_sessions (closing reason c w) j)"
    "pw_requests v' = pw_requests (closing reason c w) @ concat (map (close_request env) (pw_onClose w c))"
    by blast
  note v' = v'(1,2) v'(3,4) [unfolded mem cl(1,2)]
  show ?thesis
    unfolding connection_close_def close_with_simps(2) [OF assms(2)] v'(1)
    using v'(2-4) cl(3,4) c(1) by simp
qed

text \<open>
  When an open connection is closed, every session that has subscribed to it ends, in the
  order of subscribing, whatever their number: it is erased, the server it came from is asked
  to close it, and the connection is no longer found.
\<close>

theorem closing_connection_ends_sessions:
  assumes "p2p_reach env w" "open_object c w" "getConnection_id pid (repo_of w) = Inr (Some c)"
    and "\<And>j s. pw_subscription w j = Some c \<Longrightarrow> pw_sessions w j = Some s \<Longrightarrow> ps_remotePeerId s = pid"
  shows "\<exists>w'. connection_close env reason c w = Some (Inr (), w') \<and>
    pw_sessions w' = (\<lambda>j. if pw_subscription w j = Some c then None else pw_sessions w j) \<and>
    pw_requests w' = pw_requests w @ concat (map (close_request env) (pw_onClose w c)) \<and>
    getConnection_id pid (repo_of w') = Inr None \<and> cs_state (c_state (cr_store (repo_of w') ! c)) = Disconnected"
  using assms(2-4) by (rule close_ends [OF p2p_reach_wf [OF assms(1)]])

subsection \<open>A session from beginning to end\<close>

lemma register_pending:
  assumes "c < length (cr_store r)" "cr_pendingP2P r (c_id (cr_store r ! c)) = Some (sid, u)" "u < length (cr_waiting r)"
  shows "cr_waiting (register c r) ! u = Done c" "c_sessionId (cr_store (register c r) ! c) = sid"
  using assms by (simp_all add: register_def newConnection_add Let_def)

lemma getConnection_key_store [simp]: "getConnection_key i (r\<lparr>cr_store := s\<rparr>) = getConnection_key i r"
  by (simp add: getConnection_key_def split: option.splits)

lemma getConnection_key_register:
  assumes "maps_wf r" "getConnection_key key r = Inr (Some k)"
  shows "getConnection_key key (register c r) = Inr (Some k)"
proof -
  obtain t where t: "cr_connectionsByKey r key = Some t" "task_connection (cr_tasks r ! t) = Inr (Some k)"
    using assms(2) by (auto simp: getConnection_key_def split: option.splits)
  have "t < length (cr_tasks r)" by (rule maps_wf_keyD [OF assms(1) t(1)])
  then show ?thesis
    using t by (auto simp: getConnection_key_def register_fields add_task_def Let_def emplace_def nth_append split: option.splits)
qed

lemma arrival:
  assumes "repo_ok (tr_handler t)" "getConnection_id pid (tr_handler t) = Inr None"
    and "cr_pendingP2P (tr_handler t) pid = Some (sid, u)" "u < length (cr_waiting (tr_handler t))"
    and "onConnection g pid ck t = Some (c, t')"
  shows "c = length (cr_store (tr_handler t))" "getConnection_id pid (tr_handler t') = Inr (Some c)"
    "length (cr_store (tr_handler t')) = Suc c" "cr_waiting (tr_handler t') ! u = Done c"
    "c_sessionId (cr_store (tr_handler t') ! c) = sid" "cs_state (c_state (cr_store (tr_handler t') ! c)) = Connected"
    "getConnection_key key (tr_handler t) = Inr (Some k) \<Longrightarrow> getConnection_key key (tr_handler t') = Inr (Some k)"
proof -
  let ?o = "RakNetConnection g pid ck True" let ?r = "(tr_handler t)\<lparr>cr_store := cr_store (tr_handler t) @ [?o]\<rparr>"
  note h = onConnection_handler [OF assms(5)]
  show c: "c = length (cr_store (tr_handler t))" by (rule h(1))
  have ok: "maps_wf ?r" using repo_ok_append [OF assms(1)] by (simp add: repo_ok_def)
  have cr: "c < length (cr_store ?r)" "c_id (cr_store ?r ! c) = pid" using c by simp_all
  show "length (cr_store (tr_handler t')) = Suc c" using c by (simp add: h(2) register_fields)
  show "getConnection_id pid (tr_handler t') = Inr (Some c)"
    using register_get [OF ok cr(1), of pid] assms(2) c by (simp add: h(2))
  have p: "cr_pendingP2P ?r (c_id (cr_store ?r ! c)) = Some (sid, u)" "u < length (cr_waiting ?r)" using assms(3,4) cr(2) by simp_all
  note rp = register_pending [OF cr(1) p]
  show "cr_waiting (tr_handler t') ! u = Done c" using rp(1) by (simp add: h(2))
  show "c_sessionId (cr_store (tr_handler t') ! c) = sid" using rp(2) c by (simp add: h(2) register_fields)
  have "cs_state (c_state (setConnectionState (conn_state Connected) (setConnectionState (conn_state Connecting) x))) = Connected" for x
    by (simp add: setConnectionState_def conn_state_def cs_eq_def Let_def)
  then show "cs_state (c_state (cr_store (tr_handler t') ! c)) = Connected" using c by (simp add: h(2) register_fields)
  assume "getConnection_key key (tr_handler t) = Inr (Some k)"
  then have "getConnection_key key ?r = Inr (Some k)" by simp
  from getConnection_key_register [OF ok this] show "getConnection_key key (tr_handler t') = Inr (Some k)"
    by (simp add: h(2))
qed

lemma expect_simps:
  assumes "cr_pendingP2P (repo_of w) pid = None"
  shows "cr_waiting (repo_of (expect_connection pid csid i key w)) = cr_waiting (repo_of w) @ [Pending]"
    "cr_pendingP2P (repo_of (expect_connection pid csid i key w)) = (cr_pendingP2P (repo_of w))(pid \<mapsto> (csid, length (cr_waiting (repo_of w))))"
    "cr_store (repo_of (expect_connection pid csid i key w)) = cr_store (repo_of w)"
    "getConnection_id pid (repo_of (expect_connection pid csid i key w)) = getConnection_id pid (repo_of w)"
    "getConnection_key key (repo_of (expect_connection pid csid i key w)) = getConnection_key key (repo_of w)"
    "pw_waiters (expect_connection pid csid i key w) = (pw_waiters w)(length (cr_waiting (repo_of w)) \<mapsto> (i, key))"
  using assms
  by (simp_all add: expect_connection_def addPendingConnection_def emplace_def getConnection_id_def getConnection_key_def Let_def split: option.splits)

lemma expect_frame [simp]:
  "pw_sessions (expect_connection pid csid i key w) = pw_sessions w"
  "pw_subscription (expect_connection pid csid i key w) = pw_subscription w"
  "pw_onClose (expect_connection pid csid i key w) = pw_onClose w"
  "pw_relay (expect_connection pid csid i key w) = pw_relay w"
  "pw_requests (expect_connection pid csid i key w) = pw_requests w"
  by (simp_all add: expect_connection_def split: prod.splits)

text \<open>
  A session waits for its peer, the peer arrives, the continuation runs: \<open>t2\<close> is the transport
  after anything that leaves the repository alone.
\<close>

lemma session_connected:
  assumes "p2p_wf w" "pw_sessions w i = Some s" "pw_subscription w i = None"
    and "getConnection_id pid (repo_of w) = Inr None" "cr_pendingP2P (repo_of w) pid = None"
    and "getConnection_key key (repo_of w) = Inr (Some k)"
    and "tr_handler t2 = repo_of (expect_connection pid csid i key w)" "onConnection g pid ck t2 = Some (c, t3)"
    and "tr_handler t4 = tr_handler t3"
    and "w3 = run_waiter (length (cr_waiting (repo_of w))) ((expect_connection pid csid i key w)\<lparr>pw_transport := t4\<rparr>)"
  shows "p2p_wf w3" "pw_sessions w3 = (pw_sessions w)(i \<mapsto> s\<lparr>ps_status := SessionConnected\<rparr>)"
    "pw_subscription w3 = (pw_subscription w)(i \<mapsto> c)" "pw_onClose w3 c = [(i, Some k)]" "open_object c w3"
    "object_state c w3 = Connected" "getConnection_id pid (repo_of w3) = Inr (Some c)"
    "c_sessionId (cr_store (repo_of w3) ! c) = csid" "conn_metadata ''type'' (cr_store (repo_of w3) ! c) = ''p2p''"
    "pw_requests w3 = pw_requests w" "tr_tces (pw_transport w3) = tr_tces t4"
    "getConnection_key key (repo_of w3) = Inr (Some k)"
proof -
  let ?w1 = "expect_connection pid csid i key w" and ?n = "length (cr_waiting (repo_of w))"
  let ?w2 = "?w1\<lparr>pw_transport := t4\<rparr>"
  note e = expect_simps [OF assms(5), where csid = csid and i = i and key = key]
  have w1: "p2p_wf ?w1" by (rule expect_connection_wf [OF assms(1)])
  have t2: "repo_ok (tr_handler t2)" "getConnection_id pid (tr_handler t2) = Inr None"
    "cr_pendingP2P (tr_handler t2) pid = Some (csid, ?n)" "?n < length (cr_waiting (tr_handler t2))"
    using p2p_wf_ok [OF w1] assms(4) by (simp_all add: assms(7) e)
  note a = arrival [OF t2 assms(8)]
  have w2: "p2p_wf ?w2"
  proof -
    have "p2p_wf (?w1\<lparr>pw_transport := t2\<rparr>)" by (rule p2p_wf_transport [OF w1 assms(7)])
    from onConnection_wf [OF this, of g pid ck c t3] have "p2p_wf (?w1\<lparr>pw_transport := t3\<rparr>)" using assms(8) by simp
    from p2p_wf_transport [OF this, of t4] assms(9) show ?thesis by simp
  qed
  have c: "c = length (cr_store (repo_of w))" using a(1) by (simp add: assms(7) e)
  have fresh: "pw_onClose w c = []" "pw_relay w c = None"
  proof -
    have "fst ` set (pw_onClose w c) = {}" using assms(1) c unfolding p2p_wf_def by (auto simp: onClose_subscribed)
    then show "pw_onClose w c = []" by simp
    show "pw_relay w c = None" using assms(1) c unfolding p2p_wf_def by (cases "pw_relay w c") auto
  qed
  have key: "getConnection_key key (tr_handler t4) = Inr (Some k)" using a(7) assms(6,7,9) e(5) by simp
  let ?v = "set_session_state i SessionConnected (upd_object (setMetadata ''type'' ''p2p'') c
      (?w2\<lparr>pw_waiters := (pw_waiters ?w2)(?n := None)\<rparr>))"
  have w3: "w3 = ?v\<lparr>pw_subscription := (pw_subscription w)(i \<mapsto> c), pw_onClose := (pw_onClose w)(c := [(i, Some k)])\<rparr>"
    using a(4) key fresh(1) assms(2,3)
    by (simp add: assms(10) run_waiter_def e(6) assms(9) registerConnectionOnCloseSession_def)
  show "p2p_wf w3" unfolding assms(10) by (rule run_waiter_wf [OF w2])
  show "pw_sessions w3 = (pw_sessions w)(i \<mapsto> s\<lparr>ps_status := SessionConnected\<rparr>)" using assms(2) by (auto simp: w3)
  show "pw_subscription w3 = (pw_subscription w)(i \<mapsto> c)" "pw_onClose w3 c = [(i, Some k)]" "pw_requests w3 = pw_requests w"
    by (simp_all add: w3)
  have lt: "c < length (cr_store (tr_handler t4))" using a(3) assms(9) by simp
  show st: "object_state c w3 = Connected"
    using a(6) lt assms(9) fresh(2) by (simp add: w3 object_state_def setMetadata_def)
  then show "open_object c w3" using fresh(2) by (simp add: open_object_def) (simp add: w3)
  show "getConnection_id pid (repo_of w3) = Inr (Some c)" using a(2) assms(9) by (simp add: w3)
  show "c_sessionId (cr_store (repo_of w3) ! c) = csid" using a(5) lt assms(9) by (simp add: w3 setMetadata_def)
  show "conn_metadata ''type'' (cr_store (repo_of w3) ! c) = ''p2p''" using lt by (simp add: w3 setMetadata_def conn_metadata_def)
  show "tr_tces (pw_transport w3) = tr_tces t4" by (simp add: w3 upd_object_def upd_repo_def)
  show "getConnection_key key (repo_of w3) = Inr (Some k)" using key by (simp add: w3)
qed

lemma transport_connect_first:
  "tr_pendingConnections t = [] \<Longrightarrow> transport_connect rak e i pid ct t =
    (length (tr_tces t), start_next rak (t\<lparr>tr_tces := tr_tces t @ [Pending],
       tr_pendingConnections := [\<lparr>cq_endpoint = e, cq_token = ct, cq_id = i, cq_parentId = pid, cq_tce = length (tr_tces t)\<rparr>]\<rparr>))"
  by (simp add: transport_connect_def Let_def)

lemma create_fresh:
  assumes "pw_sessions w (pe_to64 env (ps_sessionId s)) = None" "create_session env s w = (o1, x1, w1)"
  shows "x1 = Inr ()" "w1 = w\<lparr>pw_sessions := (pw_sessions w)(pe_to64 env (ps_sessionId s) \<mapsto> s)\<rparr>"
  using assms by (auto simp: create_session_def createSession_def)

lemma unsubscribed: "p2p_wf w \<Longrightarrow> pw_sessions w i = None \<Longrightarrow> pw_subscription w i = None"
  unfolding p2p_wf_def subs_wf_def by blast

text \<open>
  The host's side of a peer-to-peer connection: the session is created, the request to
  connect is answered at once and leaves the session waiting; when the peer arrives through the
  transport the session is connected, the peer's connection has the announced session id, and when it
  closes the session is erased and the server asked once, on the connection the request came
  on, to close exactly this session.
\<close>

theorem host_session_lifecycle:
  assumes "p2p_reach env w" "i = pe_to64 env (ps_sessionId s)" "pe_from64 env i = ps_sessionId s" "pw_sessions w i = None"
    and "cc_p2pSessionId cand = ps_sessionId s" "cc_clientPeer cand = ps_remotePeerId s"
    and "getConnection_id (ps_remotePeerId s) (repo_of w) = Inr None" "cr_pendingP2P (repo_of w) (ps_remotePeerId s) = None"
    and "getConnection_key key (repo_of w) = Inr (Some k)" "pe_alive env k"
    and "create_session env s w = (o1, x1, w1)" "connect_host env key cand w1 = (o2, x2, w2)"
    and "onConnection g (ps_remotePeerId s) ck (pw_transport w2) = Some (c, t)"
    and "w3 = run_waiter (length (cr_waiting (repo_of w))) (w2\<lparr>pw_transport := t\<rparr>)"
  shows "x1 = Inr () \<and> (o2, x2) = ([NoData], Inr ()) \<and> map_option ps_status (pw_sessions w3 i) = Some SessionConnected \<and>
    getConnection_id (ps_remotePeerId s) (repo_of w3) = Inr (Some c) \<and>
    c_sessionId (cr_store (repo_of w3) ! c) = pe_to64 env (cc_clientPeerSessionId cand) \<and>
    (\<exists>w4. connection_close env reason c w3 = Some (Inr (), w4) \<and> pw_sessions w4 i = None \<and>
       pw_requests w4 = pw_requests w @ [(k, ps_sessionId s)] \<and> getConnection_id (ps_remotePeerId s) (repo_of w4) = Inr None)"
proof -
  note wf = p2p_reach_wf [OF assms(1)]
  note cr = create_fresh [OF assms(4) [unfolded assms(2)] assms(11)]
  have w1: "w1 = w\<lparr>pw_sessions := (pw_sessions w)(i \<mapsto> s)\<rparr>" using cr(2) by (simp add: assms(2))
  have w1_wf: "p2p_wf w1" using wf by (simp add: w1 p2p_wf_def subs_wf_def)
  let ?e = "expect_connection (ps_remotePeerId s) (pe_to64 env (cc_clientPeerSessionId cand)) i key w1"
  have h: "o2 = [NoData]" "x2 = Inr ()" "w2 = ?e"
    using assms(2,5-7,12) by (auto simp: connect_host_def w1 is_connected_def)
  have "repo_of w1 = repo_of w" by (simp add: w1)
  note sc = session_connected [where w = w1 and i = i and s = s and ?t4.0 = t and ?t2.0 = "pw_transport w2" and k = k and key = key and c = c and ?w3.0 = w3
      and csid = "pe_to64 env (cc_clientPeerSessionId cand)" and pid = "ps_remotePeerId s", OF w1_wf]
  have p: "pw_sessions w1 i = Some s" "pw_subscription w1 i = None" using unsubscribed [OF wf assms(4)] by (simp_all add: w1)
  have q: "w3 = run_waiter (length (cr_waiting (repo_of w1))) (?e\<lparr>pw_transport := t\<rparr>)"
    "getConnection_id (ps_remotePeerId s) (repo_of w1) = Inr None" "cr_pendingP2P (repo_of w1) (ps_remotePeerId s) = None"
    "getConnection_key key (repo_of w1) = Inr (Some k)" "tr_handler (pw_transport w2) = repo_of ?e"
    using assms(7-9,14) \<open>repo_of w1 = repo_of w\<close> h(3) by simp_all
  note sc = sc [OF p q(2-5) assms(13) refl q(1)]
  have o: "ps_remotePeerId s' = ps_remotePeerId s" if j: "pw_subscription w3 j = Some c" "pw_sessions w3 j = Some s'" for j s'
  proof -
    have "j \<in> fst ` set (pw_onClose w3 c)" using j(1) sc(1) onClose_subscribed [of w3 c] by (auto simp: p2p_wf_def)
    then have "j = i" using sc(4) by simp
    then show ?thesis using j(2) sc(2) by auto
  qed
  have "\<exists>w4. connection_close env reason c w3 = Some (Inr (), w4) \<and>
    pw_sessions w4 = (\<lambda>j. if pw_subscription w3 j = Some c then None else pw_sessions w3 j) \<and>
    pw_requests w4 = pw_requests w3 @ concat (map (close_request env) (pw_onClose w3 c)) \<and>
    getConnection_id (ps_remotePeerId s) (repo_of w4) = Inr None \<and> cs_state (c_state (cr_store (repo_of w4) ! c)) = Disconnected"
    by (rule close_ends [OF sc(1,5,7)]) (use o in blast)
  then obtain w4 where w4: "connection_close env reason c w3 = Some (Inr (), w4)"
    "pw_sessions w4 = (\<lambda>j. if pw_subscription w3 j = Some c then None else pw_sessions w3 j)"
    "pw_requests w4 = pw_requests w3 @ concat (map (close_request env) (pw_onClose w3 c))"
    "getConnection_id (ps_remotePeerId s) (repo_of w4) = Inr None" by blast
  have "pw_requests w4 = pw_requests w @ [(k, ps_sessionId s)]" "pw_sessions w4 i = None"
    using w4(2,3) sc(3,4,10) assms(3,10) by (simp_all add: close_request_def w1)
  then show ?thesis using cr(1) h(1,2) sc(2,7,8) w4(1,4) by auto
qed

text \<open>
  The client's side: the request to connect asks RakNet once for the peer's endpoint, and the
  peer's answer to the advertisement completes everything: the attempt, the waiting session,
  which is connected with the announced session id, and the request, answered with true.
\<close>

theorem client_session_connects:
  assumes "p2p_reach env w" "i = pe_to64 env (ps_sessionId s)" "pw_sessions w i = None"
    and "cc_p2pSessionId cand = ps_sessionId s" "cc_listeningPeer cand = ps_remotePeerId s"
    and "getConnection_id (ps_remotePeerId s) (repo_of w) = Inr None" "cr_pendingP2P (repo_of w) (ps_remotePeerId s) = None"
    and "getConnection_key key (repo_of w) = Inr (Some k)"
    and "tr_pendingConnections (pw_transport w) = []" "tr_peer (pw_transport w)" "tr_active (pw_transport w)"
    and "\<not> tr_canceled (pw_transport w) ct" "pe_rak env = (\<lambda>_ _. 0)" "te_rak tenv = (\<lambda>_ _. 0)"
    and "ec_address (cc_listeningEndpointCandidate cand) = ip @ CHR '':'' # port"
    and "CHR '':'' \<notin> set ip" "CHR '':'' \<notin> set port" "ip \<noteq> []" "word_of_int (atoi port) \<noteq> (0 :: u16)"
    and "create_session env s w = (o1, x1, w1)" "connect_client env key ct cand w1 = (tce, o2, x2, w2)"
    and "te_de tenv (drop 1 (rk_data p)) = Inr infos" "\<not> pi_isRequest infos" "pi_parentConnectionId infos = ps_remotePeerId s"
  shows "tr_calls (pw_transport w2) = tr_calls (pw_transport w) @ [RakConnect ip (word_of_int (atoi port))] \<and> (o2, x2) = ([], Inr ()) \<and>
    (\<exists>n t c. tce = Some n \<and> on_advertise tenv p (pw_transport w2) = Some (Inr t) \<and> tr_tces t ! n = Done c \<and>
      (let w3 = run_waiter (length (cr_waiting (repo_of w))) (w2\<lparr>pw_transport := t\<rparr>) in
         connect_client_done (Inr (Some c)) w3 = Some ([Flag True], Inr ()) \<and>
         map_option ps_status (pw_sessions w3 i) = Some SessionConnected \<and> pw_subscription w3 i = Some c \<and>
         getConnection_id (ps_remotePeerId s) (repo_of w3) = Inr (Some c) \<and>
         c_sessionId (cr_store (repo_of w3) ! c) = pe_to64 env (cc_listeningPeerSessionId cand)))"
proof -
  note wf = p2p_reach_wf [OF assms(1)]
  note cr = create_fresh [OF assms(3) [unfolded assms(2)] assms(20)]
  have w1: "w1 = w\<lparr>pw_sessions := (pw_sessions w)(i \<mapsto> s)\<rparr>" using cr(2) by (simp add: assms(2))
  have w1_wf: "p2p_wf w1" using wf by (simp add: w1 p2p_wf_def subs_wf_def)
  let ?e = "expect_connection (ps_remotePeerId s) (pe_to64 env (cc_listeningPeerSessionId cand)) i key w1"
  let ?t = "pw_transport ?e" and ?rq = "\<lparr>cq_endpoint = ip @ CHR '':'' # port, cq_token = ct, cq_id = i, cq_parentId = key,
      cq_tce = length (tr_tces (pw_transport w))\<rparr>"
  have et: "tr_pendingConnections ?t = []" "tr_peer ?t" "tr_active ?t" "tr_canceled ?t = tr_canceled (pw_transport w)"
    "tr_tces ?t = tr_tces (pw_transport w)" "tr_calls ?t = tr_calls (pw_transport w)"
    using assms(9-11) by (simp_all add: expect_connection_def upd_repo_def w1 split: prod.splits)
  let ?begun = "?t\<lparr>tr_tces := tr_tces ?t @ [Pending], tr_pendingConnections := [?rq]\<rparr>"
  have sn: "start_next (pe_rak env) ?begun = start_request (pe_rak env) ?rq ?begun"
    using assms(12) et(4) by (subst start_next.simps) simp
  have sr: "start_request (pe_rak env) ?rq ?begun = tr_call (RakConnect ip (word_of_int (atoi port))) (?begun\<lparr>tr_port := word_of_int (atoi port)\<rparr>)"
    by (rule start_request_ok) (use assms(13,16-19) et in simp_all)
  let ?t2 = "tr_call (RakConnect ip (word_of_int (atoi port))) (?begun\<lparr>tr_port := word_of_int (atoi port)\<rparr>)"
  have tc: "transport_connect (pe_rak env) (ip @ CHR '':'' # port) i key ct ?t = (length (tr_tces (pw_transport w)), ?t2)"
  proof -
    have "transport_connect (pe_rak env) (ip @ CHR '':'' # port) i key ct ?t = (length (tr_tces (pw_transport w)), start_next (pe_rak env) ?begun)"
      using transport_connect_first [OF et(1)] unfolding et(5) .
    then show ?thesis unfolding sn sr .
  qed
  have h: "tce = Some (length (tr_tces (pw_transport w)))" "o2 = []" "x2 = Inr ()" "w2 = ?e\<lparr>pw_transport := ?t2\<rparr>"
    using assms(2,4-6,15,21) tc by (auto simp: connect_client_def w1 is_connected_def Let_def)
  let ?t3 = "?t2\<lparr>tr_pendingConnections := []\<rparr>"
  have p3: "tr_peer ?t3" "maps_wf (tr_handler ?t3)" "getConnection_id (ps_remotePeerId s) (tr_handler ?t3) = Inr None"
    using et(2) p2p_wf_ok [OF expect_connection_wf [OF w1_wf]] expect_simps(4) [of w1 "ps_remotePeerId s"] assms(6,7)
    by (simp_all add: repo_ok_def w1)
  obtain t4 where t4: "onConnection (rk_guid p) (ps_remotePeerId s) i ?t3 = Some (length (cr_store (tr_handler ?t3)), t4)"
    "tr_tces t4 = tr_tces ?t3" "tr_pendingConnections t4 = []"
    by (rule onConnection_effect [OF p3, of "rk_guid p" i], rule that) (assumption | simp)+
  let ?n = "length (tr_tces (pw_transport w))" and ?c = "length (cr_store (tr_handler ?t3))"
  let ?fin = "tr_set ?n (Done ?c) t4"
  have "start_next (te_rak tenv) ?fin = ?fin" using t4(3) by (subst start_next.simps) simp
  then have ad: "on_advertise tenv p (pw_transport w2) = Some (Inr ?fin)"
    using t4(1) assms(12,22-24) et(4) by (simp add: on_advertise_def h(4) onConnection_request_def Let_def)
  let ?w3 = "run_waiter (length (cr_waiting (repo_of w1))) (?e\<lparr>pw_transport := ?fin\<rparr>)"
  have p: "pw_sessions w1 i = Some s" "pw_subscription w1 i = None" using unsubscribed [OF wf assms(3)] by (simp_all add: w1)
  have "repo_of w1 = repo_of w" by (simp add: w1)
  then have q: "getConnection_id (ps_remotePeerId s) (repo_of w1) = Inr None" "cr_pendingP2P (repo_of w1) (ps_remotePeerId s) = None"
    "getConnection_key key (repo_of w1) = Inr (Some k)" "tr_handler ?t3 = repo_of ?e" "tr_handler ?fin = tr_handler t4"
    using assms(6-8) by simp_all
  note sc = session_connected [OF w1_wf p q(1-4) t4(1) q(5) refl]
  have dn: "tr_tces ?fin ! ?n = Done ?c" using t4(2) et(5) by (simp add: tce_set_def)
  have w3: "run_waiter (length (cr_waiting (repo_of w))) (w2\<lparr>pw_transport := ?fin\<rparr>) = ?w3"
    using \<open>repo_of w1 = repo_of w\<close> by (simp add: h(4))
  have "tr_calls (pw_transport w2) = tr_calls (pw_transport w) @ [RakConnect ip (word_of_int (atoi port))]"
    using et(6) by (simp add: h(4))
  moreover have "connect_client_done (Inr (Some ?c)) ?w3 = Some ([Flag True], Inr ())"
    using sc(6) by (simp add: connect_client_done_def is_connected_def)
  moreover have "map_option ps_status (pw_sessions ?w3 i) = Some SessionConnected" "pw_subscription ?w3 i = Some ?c"
    unfolding sc(2,3) by simp_all
  ultimately show ?thesis using h(1-3) ad dn sc(7,8) unfolding Let_def
    by (intro conjI exI [of _ ?n] exI [of _ ?fin] exI [of _ ?c]) (simp_all only: w3)
qed

text \<open>
  A second session that waits for the same peer is stranded: its request is answered like
  the first one's, but its task is canceled at once, so when the peer arrives only the first
  session is connected and the second one's continuation changes nothing.
\<close>

theorem second_session_stranded:
  assumes "p2p_reach env w" "getConnection_id pid (repo_of w) = Inr None" "cr_pendingP2P (repo_of w) pid = None"
    and "cc_clientPeer cand = pid" "cc_clientPeer cand2 = pid"
    and "connect_host env key cand w = (o1, x1, w1)" "connect_host env key2 cand2 w1 = (o2, x2, w2)"
    and "onConnection g pid ck (pw_transport w2) = Some (c, t)"
    and "n = length (cr_waiting (repo_of w))" "w3 = run_waiter n (w2\<lparr>pw_transport := t\<rparr>)"
  shows "(o2, x2) = (o1, x1) \<and> x1 = Inr () \<and> cr_waiting (repo_of w3) ! n = Done c \<and> cr_waiting (repo_of w3) ! Suc n = Canceled \<and>
    pw_sessions (run_waiter (Suc n) w3) = pw_sessions w3 \<and> pw_subscription (run_waiter (Suc n) w3) = pw_subscription w3"
proof -
  note wf = p2p_reach_wf [OF assms(1)]
  let ?e = "expect_connection pid (pe_to64 env (cc_clientPeerSessionId cand)) (pe_to64 env (cc_p2pSessionId cand)) key w"
  have h1: "o1 = [NoData]" "x1 = Inr ()" "w1 = ?e" using assms(2,4,6) by (auto simp: connect_host_def is_connected_def)
  note e = expect_simps [OF assms(3), of "pe_to64 env (cc_clientPeerSessionId cand)" "pe_to64 env (cc_p2pSessionId cand)" key]
  let ?f = "expect_connection pid (pe_to64 env (cc_clientPeerSessionId cand2)) (pe_to64 env (cc_p2pSessionId cand2)) key2 w1"
  have h2: "o2 = [NoData]" "x2 = Inr ()" "w2 = ?f" using assms(2,5,7) e(4) by (auto simp: connect_host_def is_connected_def h1(3))
  have f: "repo_of w2 = (repo_of w1)\<lparr>cr_waiting := cr_waiting (repo_of w) @ [Pending, Canceled]\<rparr>"
    using e(1,2) by (simp add: h2(3) h1(3) expect_connection_def [of _ _ _ _ "expect_connection _ _ _ _ _"] addPendingConnection_def emplace_def Let_def)
  have w2: "p2p_wf w2" unfolding h2(3) h1(3) by (intro expect_connection_wf wf)
  have g: "getConnection_id pid (repo_of w2) = Inr None" using e(4) assms(2) by (simp add: f h1(3) getConnection_id_def split: option.splits)
  have p: "cr_pendingP2P (repo_of w2) pid = Some (pe_to64 env (cc_clientPeerSessionId cand), n)" "n < length (cr_waiting (repo_of w2))"
    using e(2) by (simp_all add: f h1(3) assms(9))
  note a = arrival [OF p2p_wf_ok [OF w2] g p assms(8)]
  have "cr_waiting (tr_handler t) = (cr_waiting (repo_of w2))[n := Done c]"
    using onConnection_handler [OF assms(8)] p(1) by (simp add: register_def newConnection_add Let_def)
  then have wt: "cr_waiting (tr_handler t) ! Suc n = Canceled" by (simp add: f assms(9) nth_append)
  have "cr_waiting (repo_of (run_waiter u v)) = cr_waiting (repo_of v)" for u v
    by (auto simp: run_waiter_def Let_def registerConnectionOnCloseSession_def split: option.splits task.splits sum.splits)
  then have "cr_waiting (repo_of w3) = cr_waiting (tr_handler t)" by (simp add: assms(10))
  moreover from this wt have "pw_sessions (run_waiter (Suc n) w3) = pw_sessions w3 \<and> pw_subscription (run_waiter (Suc n) w3) = pw_subscription w3"
    by (auto simp: run_waiter_def Let_def split: option.splits)
  ultimately show ?thesis using h1(1,2) h2(1,2) a(4) wt by simp
qed

text \<open>
  A relay connects its session at once: the peer is found by its id, with the state of the
  connection to the server. But closing the session does not close the relay, whose \<^verbatim>\<open>close\<close> is
  empty: the peer is found until the server closes the relay.
\<close>

theorem relay_outlives_session:
  assumes "p2p_reach env w" "i = pe_to64 env (or_p2pSessionId p)" "pw_sessions w i = Some s"
    and "ps_remotePeerId s = or_remotePeerId p" "getConnection_id (or_remotePeerId p) (repo_of w) = Inr None"
    and "k < length (cr_store (repo_of w))"
  shows "\<exists>w1 w2 w3 c. relay_open env k p w = Some ([NoData], Inr (), w1) \<and>
    map_option ps_status (pw_sessions w1 i) = Some SessionConnected \<and>
    getConnection_id (or_remotePeerId p) (repo_of w1) = Inr (Some c) \<and> object_state c w1 = object_state k w \<and>
    session_close i w1 = Some (Inr True, w2) \<and> pw_sessions w2 i = None \<and>
    getConnection_id (or_remotePeerId p) (repo_of w2) = Inr (Some c) \<and>
    relay_close (or_remotePeerId p) w2 = ([NoData], Inr (), w3) \<and> getConnection_id (or_remotePeerId p) (repo_of w3) = Inr None"
proof -
  note wf = p2p_reach_wf [OF assms(1)]
  let ?c = "length (cr_store (repo_of w))" and ?id = "or_remotePeerId p"
  let ?r = "(repo_of w)\<lparr>cr_store := cr_store (repo_of w) @ [relay_object ?id i (ps_remoteSessionId s)]\<rparr>"
  obtain w1 where w1: "relay_open env k p w = Some ([NoData], Inr (), w1)" "repo_of w1 = register ?c ?r"
    "pw_relay w1 = (pw_relay w)(?c \<mapsto> (case pw_relay w k of None \<Rightarrow> k | Some k' \<Rightarrow> k'))"
    "pw_sessions w1 i = Some (s\<lparr>ps_status := SessionConnected\<rparr>)"
    using assms(3) by (simp add: relay_open_def Let_def newConnection_some assms(2) [symmetric])
  have wf1: "p2p_wf w1" by (rule relay_open_wf [OF wf w1(1) assms(6)])
  have ok: "maps_wf ?r" using repo_ok_append [OF p2p_wf_ok [OF wf]] by (simp add: repo_ok_def)
  have g: "getConnection_id ?id (repo_of w1) = Inr (Some ?c)"
    using register_get [OF ok, of ?c ?id] assms(5) by (simp add: w1(2) relay_object_def)
  have st: "object_state ?c w1 = object_state k w"
  proof -
    have lt: "(case pw_relay w k of None \<Rightarrow> k | Some k' \<Rightarrow> k') < length (cr_store (repo_of w))"
      using wf assms(6) unfolding p2p_wf_def by (cases "pw_relay w k") auto
    then show ?thesis
      by (simp add: object_state_def w1(2,3) register_store nth_append)
  qed
  have cl: "session_close i w1 = Some (Inr True, drop_session i w1)"
    using w1(3,4) g assms(4) by (simp add: session_close_def close_with_simps open_object_def)
  have "cr_store (repo_of w1) ! ?c = cr_store (repo_of (drop_session i w1)) ! ?c" by simp
  moreover have "c_id (cr_store (repo_of w1) ! ?c) = ?id" using p2p_getConnection(2) [OF wf1 g] .
  ultimately have "relay_close ?id (drop_session i w1) = ([NoData], Inr (), upd_repo (closeConnection ?c) (drop_session i w1))"
    "getConnection_id ?id (repo_of (upd_repo (closeConnection ?c) (drop_session i w1))) = Inr None"
    using g by (simp_all add: relay_close_def closeConnection_def forget_def getConnection_id_def)
  then show ?thesis using w1(1,4) g st cl by (intro exI conjI) (assumption | simp)+
qed

section \<open>Witnesses\<close>

definition demo_p2p_env :: p2p_env where
  "demo_p2p_env = \<lparr>pe_to64 = (\<lambda>bs. if bs = [65] then ''A'' else ''B''), pe_from64 = (\<lambda>s. if s = ''A'' then [65] else [66]),
     pe_alive = (\<lambda>_. True), pe_rak = (\<lambda>_ _. 0), pe_dedicatedServerEndpoint = '''', pe_enableNatPunchthrough = True,
     pe_clientSDKPort = 0, pe_show = (\<lambda>_. ''0'')\<rparr>"

text \<open>A client with a connection to the server.\<close>

definition demo_online :: p2p_world where
  "demo_online = p2p_start (snd (the (onConnection 9 1 ''k'' demo_transport)))"

definition demo_session :: "byte \<Rightarrow> P2PSession" where
  "demo_session b = \<lparr>ps_sessionId = [b], ps_remotePeerId = 5, ps_sceneId = '''', ps_remoteSessionId = ''r'',
     ps_owningSessionId = '''', ps_status = SessionConnecting\<rparr>"

definition demo_candidate :: "byte \<Rightarrow> ConnectivityCandidate" where
  "demo_candidate b = \<lparr>cc_listeningPeer = 5, cc_clientPeer = 5,
     cc_listeningEndpointCandidate = \<lparr>ec_address = ''h'' @ CHR '':'' # ''70'', ec_type = 0\<rparr>,
     cc_clientEndpointCandidate = \<lparr>ec_address = '''', ec_type = 0\<rparr>, cc_p2pSessionId = [b], cc_id = [], cc_ping = 0,
     cc_listeningPeerSessionId = [65], cc_clientPeerSessionId = [65]\<rparr>"

lemma demo_begin: "p2p_reach demo_p2p_env (p2p_start demo_transport)"
  by (rule p2p_reach.start) (simp add: demo_transport_def)

lemma onConnection_some: "tr_peer t \<Longrightarrow> \<exists>c t'. onConnection g p k t = Some (c, t')"
  by (simp add: onConnection_def createNewConnection_def newConnection_some Let_def)

lemma demo_online_reach: "p2p_reach demo_p2p_env demo_online"
proof -
  obtain c t where "onConnection 9 1 ''k'' (pw_transport (p2p_start demo_transport)) = Some (c, t)"
    using onConnection_some [of demo_transport 9 1 "''k''"] by (auto simp: p2p_start_def demo_transport_def)
  from p2p_reach.connection [OF demo_begin this] this show ?thesis by (simp add: demo_online_def p2p_start_def)
qed

lemma demo_online_facts:
  "pw_sessions demo_online = Map.empty" "getConnection_id 5 (repo_of demo_online) = Inr None"
  "cr_pendingP2P (repo_of demo_online) = Map.empty" "cr_waiting (repo_of demo_online) = []"
  "getConnection_key ''k'' (repo_of demo_online) = Inr (Some 0)" "length (cr_store (repo_of demo_online)) = 1"
  "tr_peer (pw_transport demo_online)" "tr_active (pw_transport demo_online)" "tr_pendingConnections (pw_transport demo_online) = []"
  "\<not> tr_canceled (pw_transport demo_online) 0"
  by (simp_all add: demo_online_def p2p_start_def demo_transport_def onConnection_def createNewConnection_def newConnection_def
      set_conn_state_def ConnectionsRepository_def getConnection_id_def getConnection_key_def emplace_def task_connection_def Let_def)

lemma connect_host_peer: "connect_host env key cand w = (out, x, w') \<Longrightarrow> tr_peer (pw_transport w') = tr_peer (pw_transport w)"
  by (auto simp: connect_host_def registerConnectionOnCloseSession_def expect_connection_def upd_repo_def Let_def
      split: sum.splits if_splits prod.splits)

lemma create_session_peer: "create_session env s w = (out, x, w') \<Longrightarrow> pw_transport w' = pw_transport w"
  by (auto simp: create_session_def split: sum.splits prod.splits)

lemma demo_keys [simp]:
  "pe_to64 demo_p2p_env [65] = ''A''" "pe_to64 demo_p2p_env [66] = ''B''" "pe_from64 demo_p2p_env ''A'' = [65]"
  "pe_from64 demo_p2p_env ''B'' = [66]" "pe_alive demo_p2p_env k"
  "ps_sessionId (demo_session b) = [b]" "ps_remotePeerId (demo_session b) = 5" "cc_p2pSessionId (demo_candidate b) = [b]"
  "cc_clientPeer (demo_candidate b) = 5" "cc_listeningPeer (demo_candidate b) = 5"
  by (simp_all add: demo_p2p_env_def demo_session_def demo_candidate_def)

lemma demo_host_run:
  obtains o1 x1 w1 o2 x2 w2 c t where "create_session demo_p2p_env (demo_session 65) demo_online = (o1, x1, w1)"
    "connect_host demo_p2p_env ''k'' (demo_candidate 65) w1 = (o2, x2, w2)" "onConnection 8 5 ''p'' (pw_transport w2) = Some (c, t)"
proof -
  obtain o1 x1 w1 where 1: "create_session demo_p2p_env (demo_session 65) demo_online = (o1, x1, w1)" by (metis prod_cases3)
  obtain o2 x2 w2 where 2: "connect_host demo_p2p_env ''k'' (demo_candidate 65) w1 = (o2, x2, w2)" by (metis prod_cases3)
  have "tr_peer (pw_transport w2)" using create_session_peer [OF 1] connect_host_peer [OF 2] demo_online_facts(7) by simp
  from onConnection_some [OF this] obtain c t where "onConnection 8 5 ''p'' (pw_transport w2) = Some (c, t)" by blast
  with 1 2 show ?thesis by (rule that)
qed

theorem host_session_lifecycle_witness:
  "\<exists>w3 w4 c. map_option ps_status (pw_sessions w3 ''A'') = Some SessionConnected \<and>
     connection_close demo_p2p_env '''' c w3 = Some (Inr (), w4) \<and> pw_sessions w4 ''A'' = None \<and>
     pw_requests w4 = pw_requests demo_online @ [(0, [65])]"
proof -
  obtain o1 x1 w1 o2 x2 w2 c t where r: "create_session demo_p2p_env (demo_session 65) demo_online = (o1, x1, w1)"
    "connect_host demo_p2p_env ''k'' (demo_candidate 65) w1 = (o2, x2, w2)" "onConnection 8 5 ''p'' (pw_transport w2) = Some (c, t)"
    by (rule demo_host_run)
  define w3 where "w3 = run_waiter (length (cr_waiting (repo_of demo_online))) (w2\<lparr>pw_transport := t\<rparr>)"
  have h: "''A'' = pe_to64 demo_p2p_env (ps_sessionId (demo_session 65))" "pe_from64 demo_p2p_env ''A'' = ps_sessionId (demo_session 65)"
    "pw_sessions demo_online ''A'' = None" "cc_p2pSessionId (demo_candidate 65) = ps_sessionId (demo_session 65)"
    "cc_clientPeer (demo_candidate 65) = ps_remotePeerId (demo_session 65)"
    "getConnection_id (ps_remotePeerId (demo_session 65)) (repo_of demo_online) = Inr None"
    "cr_pendingP2P (repo_of demo_online) (ps_remotePeerId (demo_session 65)) = None"
    "onConnection 8 (ps_remotePeerId (demo_session 65)) ''p'' (pw_transport w2) = Some (c, t)"
    using r(3) by (simp_all add: demo_online_facts)
  from host_session_lifecycle [OF demo_online_reach h(1-7) demo_online_facts(5) demo_keys(5) r(1,2) h(8) w3_def, of "''''"]
  show ?thesis by (metis demo_keys(6))
qed

theorem second_session_stranded_witness:
  "\<exists>w3. cr_waiting (repo_of w3) ! 1 = Canceled \<and> pw_sessions (run_waiter 1 w3) = pw_sessions w3"
proof -
  obtain o1 x1 w1 where 1: "connect_host demo_p2p_env ''k'' (demo_candidate 65) demo_online = (o1, x1, w1)" by (metis prod_cases3)
  obtain o2 x2 w2 where 2: "connect_host demo_p2p_env ''k'' (demo_candidate 66) w1 = (o2, x2, w2)" by (metis prod_cases3)
  have "tr_peer (pw_transport w2)" using connect_host_peer [OF 1] connect_host_peer [OF 2] demo_online_facts(7) by simp
  from onConnection_some [OF this] obtain c t where 3: "onConnection 8 5 ''p'' (pw_transport w2) = Some (c, t)" by blast
  have p: "cr_pendingP2P (repo_of demo_online) 5 = None" "0 = length (cr_waiting (repo_of demo_online))" by (simp_all add: demo_online_facts)
  from second_session_stranded [OF demo_online_reach demo_online_facts(2) p(1) demo_keys(9) demo_keys(9) 1 2 3 p(2) refl]
  show ?thesis by (metis One_nat_def)
qed

theorem relay_outlives_session_witness:
  "\<exists>w0 w1 w2 c. relay_open demo_p2p_env 0 \<lparr>or_p2pSessionId = [65], or_remotePeerId = 5, or_remotePeerAddress = ''''\<rparr> w0 =
       Some ([NoData], Inr (), w1) \<and> session_close ''A'' w1 = Some (Inr True, w2) \<and> getConnection_id 5 (repo_of w2) = Inr (Some c)"
proof -
  let ?p = "\<lparr>or_p2pSessionId = [65], or_remotePeerId = 5, or_remotePeerAddress = ''''\<rparr>"
  obtain o1 x1 w1 where r: "create_session demo_p2p_env (demo_session 65) demo_online = (o1, x1, w1)" by (metis prod_cases3)
  have w1: "w1 = demo_online\<lparr>pw_sessions := (pw_sessions demo_online)(''A'' \<mapsto> demo_session 65)\<rparr>"
    using create_fresh(2) [OF _ r] by (simp add: demo_online_facts)
  have h: "''A'' = pe_to64 demo_p2p_env (or_p2pSessionId ?p)" "pw_sessions w1 ''A'' = Some (demo_session 65)"
    "ps_remotePeerId (demo_session 65) = or_remotePeerId ?p" "getConnection_id (or_remotePeerId ?p) (repo_of w1) = Inr None"
    "0 < length (cr_store (repo_of w1))"
    by (simp_all add: w1 demo_online_facts)
  from relay_outlives_session [OF p2p_reach.create [OF demo_online_reach r] h] show ?thesis by auto
qed

theorem client_session_connects_witness:
  "\<exists>n t c w2. on_advertise (demo_tenv\<lparr>te_de := (\<lambda>_. Inr \<lparr>pi_parentConnectionId = 5, pi_parentId = '''', pi_id = '''', pi_isRequest = False\<rparr>)\<rparr>)
       \<lparr>rk_id = OtherRak, rk_guid = 8, rk_address = '''', rk_data = []\<rparr> (pw_transport w2) = Some (Inr t) \<and> tr_tces t ! n = Done c \<and>
     (let w3 = run_waiter 0 (w2\<lparr>pw_transport := t\<rparr>) in
        connect_client_done (Inr (Some c)) w3 = Some ([Flag True], Inr ()) \<and> pw_subscription w3 ''A'' = Some c)"
proof -
  let ?i = "\<lparr>pi_parentConnectionId = 5, pi_parentId = '''', pi_id = '''', pi_isRequest = False\<rparr>"
  let ?p = "\<lparr>rk_id = OtherRak, rk_guid = 8, rk_address = '''', rk_data = []\<rparr>" and ?te = "demo_tenv\<lparr>te_de := (\<lambda>_. Inr ?i)\<rparr>"
  obtain o1 x1 w1 where 1: "create_session demo_p2p_env (demo_session 65) demo_online = (o1, x1, w1)" by (metis prod_cases3)
  obtain tce o2 x2 w2 where 2: "connect_client demo_p2p_env ''k'' 0 (demo_candidate 65) w1 = (tce, o2, x2, w2)" by (metis prod_cases4)
  have h: "''A'' = pe_to64 demo_p2p_env (ps_sessionId (demo_session 65))" "pw_sessions demo_online ''A'' = None"
    "cc_p2pSessionId (demo_candidate 65) = ps_sessionId (demo_session 65)" "cc_listeningPeer (demo_candidate 65) = ps_remotePeerId (demo_session 65)"
    "getConnection_id (ps_remotePeerId (demo_session 65)) (repo_of demo_online) = Inr None"
    "cr_pendingP2P (repo_of demo_online) (ps_remotePeerId (demo_session 65)) = None"
    by (simp_all add: demo_online_facts)
  have e: "pe_rak demo_p2p_env = (\<lambda>_ _. 0)" "te_rak ?te = (\<lambda>_ _. 0)"
    "ec_address (cc_listeningEndpointCandidate (demo_candidate 65)) = ''h'' @ CHR '':'' # ''70''"
    "CHR '':'' \<notin> set ''h''" "CHR '':'' \<notin> set ''70''" "''h'' \<noteq> ''''" "word_of_int (atoi ''70'') \<noteq> (0 :: u16)"
    by (simp_all add: demo_p2p_env_def demo_tenv_def demo_candidate_def atoi_70)
  have a: "te_de ?te (drop 1 (rk_data ?p)) = Inr ?i" "\<not> pi_isRequest ?i" "pi_parentConnectionId ?i = ps_remotePeerId (demo_session 65)"
    by simp_all
  from client_session_connects [OF demo_online_reach h demo_online_facts(5,9,7,8,10) e 1 2 a] show ?thesis
    unfolding demo_online_facts(4) list.size Let_def by blast
qed

text \<open>Two sessions with the same peer, whose connection both have subscribed to.\<close>

lemma demo_two_sessions:
  obtains w c sA sB where "p2p_reach demo_p2p_env w" "open_object c w" "getConnection_id 5 (repo_of w) = Inr (Some c)"
    "pw_sessions w = [''A'' \<mapsto> sA, ''B'' \<mapsto> sB]" "ps_remotePeerId sA = 5" "ps_remotePeerId sB = 5"
    "pw_subscription w = [''A'' \<mapsto> c, ''B'' \<mapsto> c]" "pw_onClose w c = [(''A'', Some 0), (''B'', Some 0)]"
proof -
  obtain o1 x1 w1 o2 x2 w2 c t where r: "create_session demo_p2p_env (demo_session 65) demo_online = (o1, x1, w1)"
    "connect_host demo_p2p_env ''k'' (demo_candidate 65) w1 = (o2, x2, w2)" "onConnection 8 5 ''p'' (pw_transport w2) = Some (c, t)"
    by (rule demo_host_run)
  have w1: "w1 = demo_online\<lparr>pw_sessions := [''A'' \<mapsto> demo_session 65]\<rparr>"
    using create_fresh(2) [OF _ r(1)] by (simp add: demo_online_facts)
  have w1_reach: "p2p_reach demo_p2p_env w1" by (rule p2p_reach.create [OF demo_online_reach r(1)])
  let ?e = "expect_connection 5 ''A'' ''A'' ''k'' w1"
  have w2: "w2 = ?e" using r(2) by (simp add: connect_host_def w1 demo_online_facts is_connected_def) (simp add: demo_candidate_def)
  let ?w3 = "run_waiter 0 (?e\<lparr>pw_transport := t\<rparr>)"
  have sub: "pw_subscription demo_online = Map.empty" by (simp add: demo_online_def p2p_start_def)
  have g: "pw_sessions w1 ''A'' = Some (demo_session 65)" "pw_subscription w1 ''A'' = None" "getConnection_id 5 (repo_of w1) = Inr None"
    "cr_pendingP2P (repo_of w1) 5 = None" "getConnection_key ''k'' (repo_of w1) = Inr (Some 0)"
    "?w3 = run_waiter (length (cr_waiting (repo_of w1))) (?e\<lparr>pw_transport := t\<rparr>)"
    by (simp_all add: w1 demo_online_facts sub)
  note sc = session_connected [OF p2p_reach_wf [OF w1_reach] g(1-5) refl r(3) [unfolded w2] refl g(6)]
  have w3: "p2p_reach demo_p2p_env ?w3"
    using p2p_reach.host [OF w1_reach r(2)] r(3) by (intro p2p_reach.waiter p2p_reach.connection) (simp_all add: w2)
  obtain o4 x4 w4 where 4: "create_session demo_p2p_env (demo_session 66) ?w3 = (o4, x4, w4)" by (metis prod_cases3)
  have w4: "w4 = ?w3\<lparr>pw_sessions := (pw_sessions ?w3)(''B'' \<mapsto> demo_session 66)\<rparr>"
    using create_fresh(2) [OF _ 4] by (simp add: sc(2)) (simp add: w1)
  obtain o5 x5 w5 where 5: "connect_host demo_p2p_env ''k'' (demo_candidate 66) w4 = (o5, x5, w5)" by (metis prod_cases3)
  have st: "object_state c v = object_state c ?w3" if "pw_transport v = pw_transport ?w3" "pw_relay v = pw_relay ?w3" for v
    using that by (simp add: object_state_def)
  have con: "is_connected (Some c) w4" using sc(6) st [of w4] by (simp add: is_connected_def w4)
  have w5: "w5 = snd (registerConnectionOnCloseSession c ''B'' ''k'' (set_session_state ''B'' SessionConnected w4))"
    using 5 con sc(7) by (simp add: connect_host_def w4 Let_def split: prod.splits)
  have f: "pw_sessions w5 = [''A'' \<mapsto> demo_session 65\<lparr>ps_status := SessionConnected\<rparr>, ''B'' \<mapsto> demo_session 66\<lparr>ps_status := SessionConnected\<rparr>]"
    "pw_subscription w5 = [''A'' \<mapsto> c, ''B'' \<mapsto> c]" "pw_onClose w5 c = [(''A'', Some 0), (''B'', Some 0)]"
    "pw_transport w5 = pw_transport ?w3" "pw_relay w5 = pw_relay ?w3"
    using sc(2,3,4,12) by (auto simp: w5 w4 registerConnectionOnCloseSession_def w1 sub)
  have "open_object c w5" using sc(5) st [OF f(4,5)] by (simp add: open_object_def f(5))
  moreover have "getConnection_id 5 (repo_of w5) = Inr (Some c)" using sc(7) by (simp add: f(4))
  ultimately show ?thesis
    by (intro that [OF p2p_reach.host [OF p2p_reach.create [OF w3 4] 5] _ _ f(1) _ _ f(2,3)]) simp_all
qed

theorem subscriptions_sound_witness:
  "\<exists>(w :: p2p_world) c. length (filter (\<lambda>l. fst l = ''A'') (pw_onClose w c)) = 1 \<and> pw_subscription w ''A'' = Some c \<and> pw_sessions w ''A'' \<noteq> None"
proof -
  obtain w c sA sB where w: "p2p_reach demo_p2p_env w" "pw_subscription w = [''A'' \<mapsto> c, ''B'' \<mapsto> c]"
    by (rule demo_two_sessions)
  have "pw_subscription w ''A'' = Some c" by (simp add: w(2))
  then have "length (filter (\<lambda>l. fst l = ''A'') (pw_onClose w c)) = 1 \<and> pw_sessions w ''A'' \<noteq> None"
    using subscriptions_sound [OF w(1), of "''A''" c] by simp
  then show ?thesis using \<open>pw_subscription w ''A'' = Some c\<close> by blast
qed

theorem closing_session_returns_witness:
  "\<exists>w c. pw_subscription w ''A'' = Some c \<and> session_close ''A'' w = None \<and> session_close ''A'' (drop_session ''B'' w) \<noteq> None"
proof -
  obtain w c sA sB where w: "p2p_reach demo_p2p_env w" "open_object c w" "getConnection_id 5 (repo_of w) = Inr (Some c)"
    "pw_sessions w = [''A'' \<mapsto> sA, ''B'' \<mapsto> sB]" "ps_remotePeerId sA = 5" "pw_subscription w = [''A'' \<mapsto> c, ''B'' \<mapsto> c]"
    "pw_onClose w c = [(''A'', Some 0), (''B'', Some 0)]"
    by (rule demo_two_sessions)
  have s: "pw_sessions w ''A'' = Some sA" "pw_subscription w ''A'' = Some c" "pw_subscription w ''B'' = Some c" by (simp_all add: w(4,6))
  have "''B'' \<noteq> ''A''" by simp
  then have "session_close ''A'' w = None"
    using closing_session_returns [OF w(1) s(1)] s(3) w(2,3,5) by metis
  moreover have "session_close ''A'' (drop_session ''B'' w) \<noteq> None"
    using w(2-7) by (simp add: session_close_def close_with_simps) (simp add: drop_session_def)
  ultimately show ?thesis using s(2) by blast
qed

theorem closing_connection_ends_sessions_witness:
  "\<exists>w c w'. connection_close demo_p2p_env '''' c w = Some (Inr (), w') \<and> pw_sessions w ''B'' \<noteq> None \<and>
     pw_sessions w' ''A'' = None \<and> pw_sessions w' ''B'' = None \<and> pw_requests w' = pw_requests w @ [(0, [65]), (0, [66])]"
proof -
  obtain w c sA sB where w: "p2p_reach demo_p2p_env w" "open_object c w" "getConnection_id 5 (repo_of w) = Inr (Some c)"
    "pw_sessions w = [''A'' \<mapsto> sA, ''B'' \<mapsto> sB]" "ps_remotePeerId sA = 5" "ps_remotePeerId sB = 5"
    "pw_subscription w = [''A'' \<mapsto> c, ''B'' \<mapsto> c]" "pw_onClose w c = [(''A'', Some 0), (''B'', Some 0)]"
    by (rule demo_two_sessions)
  have p: "ps_remotePeerId s = 5" if "pw_subscription w j = Some c" "pw_sessions w j = Some s" for j s
    using that w(4-6) by (auto split: if_splits)
  have "\<exists>w'. connection_close demo_p2p_env '''' c w = Some (Inr (), w') \<and>
    pw_sessions w' = (\<lambda>j. if pw_subscription w j = Some c then None else pw_sessions w j) \<and>
    pw_requests w' = pw_requests w @ concat (map (close_request demo_p2p_env) (pw_onClose w c)) \<and>
    getConnection_id 5 (repo_of w') = Inr None \<and> cs_state (c_state (cr_store (repo_of w') ! c)) = Disconnected"
    by (rule closing_connection_ends_sessions [OF w(1-3)]) (use p in blast)
  then obtain w' where w': "connection_close demo_p2p_env '''' c w = Some (Inr (), w')"
    "pw_sessions w' = (\<lambda>j. if pw_subscription w j = Some c then None else pw_sessions w j)"
    "pw_requests w' = pw_requests w @ concat (map (close_request demo_p2p_env) (pw_onClose w c))" by blast
  have "pw_requests w' = pw_requests w @ [(0, [65]), (0, [66])]" using w'(3) by (simp add: w(8) close_request_def)
  moreover have "pw_sessions w' ''A'' = None" "pw_sessions w' ''B'' = None" "pw_sessions w ''B'' \<noteq> None" using w'(2) by (simp_all add: w(4,7))
  ultimately show ?thesis using w'(1) by blast
qed

end
