(* ===== verification/Serialization.thy ===== *)
theory Serialization
  imports ByteStreams
begin

text \<open>
  The serializer (\<^verbatim>\<open>include/public/stormancer/Serializer.h\<close>, \<^verbatim>\<open>src/Serializer.cpp\<close>): a
  sequence of values packed one after the other on an output stream, and read back from an
  input stream that may hold more than the values, which is left on the first byte after
  them. MessagePack itself is third-party code: the bytes it writes for a value
  (\<open>pack\<close>, one list per call of \<^verbatim>\<open>write\<close>), the object it finds at the front of a buffer with
  the number of bytes taken (\<open>unpack\<close>, \<^const>\<open>None\<close> for the exception of a short or
  malformed buffer) and the conversion to a C++ type (\<open>conv\<close>, \<^const>\<open>None\<close> for
  \<^verbatim>\<open>type_error\<close>) are arguments of the definitions.
\<close>

section \<open>Stream positions\<close>

text \<open>
  \<^verbatim>\<open>tellg\<close> and \<^verbatim>\<open>seekg(pos)\<close> of the base class: the sentry fails on a stream that is not
  good, and \<^verbatim>\<open>seekg\<close> clears \<^verbatim>\<open>eofbit\<close> before it.
\<close>

definition itellg :: "istr \<Rightarrow> int \<times> istr" where
  "itellg s =
     (let s1 = (if igood s then s else s\<lparr>i_fail := True\<rparr>) in
      if i_fail s1 \<or> i_bad s1 then (-1, s1)
      else case seekoff 0 SeekCur True False (ibuf s1) of (r, b) \<Rightarrow> (r, s1\<lparr>ibuf := b\<rparr>))"

definition iseekg :: "int \<Rightarrow> istr \<Rightarrow> istr" where
  "iseekg pos s =
     (let s1 = s\<lparr>i_eof := False\<rparr>; s2 = (if igood s1 then s1 else s1\<lparr>i_fail := True\<rparr>) in
      if i_fail s2 \<or> i_bad s2 then s2
      else case seekpos pos True False (ibuf s2) of
        (r, b) \<Rightarrow> if r = -1 then s2\<lparr>ibuf := b, i_fail := True\<rparr> else s2\<lparr>ibuf := b\<rparr>)"

section \<open>The serializer\<close>

definition serialize_values :: "('v \<Rightarrow> byte list list) \<Rightarrow> 'v list \<Rightarrow> ostr \<Rightarrow> ostr" where
  "serialize_values pack vs = fold (\<lambda>v. fold owrite (pack v)) vs"

text \<open>\<^verbatim>\<open>deserialize(data, dataSize, value, readOffset)\<close>: the value and the advanced offset.\<close>

definition deserialize_data ::
  "(byte list \<Rightarrow> ('o \<times> nat) option) \<Rightarrow> ('t \<Rightarrow> 'o \<Rightarrow> 'v option) \<Rightarrow> 't \<Rightarrow> byte list \<Rightarrow> nat \<Rightarrow> ('v \<times> nat) option" where
  "deserialize_data unpack conv t data off =
     (case unpack data of
        None \<Rightarrow> None
      | Some (ob, n) \<Rightarrow> map_option (\<lambda>v. (v, off + n)) (conv t ob))"

text \<open>The variadic recursion, one type of the parameter pack at a time.\<close>

fun UnstackAndDeserialize ::
  "(byte list \<Rightarrow> ('o \<times> nat) option) \<Rightarrow> ('t \<Rightarrow> 'o \<Rightarrow> 'v option) \<Rightarrow> byte list \<Rightarrow> nat \<Rightarrow> 't list \<Rightarrow> ('v list \<times> nat) option" where
  "UnstackAndDeserialize unpack conv data off [] = Some ([], off)"
| "UnstackAndDeserialize unpack conv data off (t # ts) =
     (case deserialize_data unpack conv t (drop off data) off of
        None \<Rightarrow> None
      | Some (v, off') \<Rightarrow>
          map_option (apfst ((#) v)) (UnstackAndDeserialize unpack conv data off' ts))"

text \<open>
  \<^verbatim>\<open>deserialize(stream, args...)\<close>: \<^const>\<open>None\<close> in the first component is the exception,
  which leaves the stream where the buffer was taken from it.
\<close>

definition deserialize_args ::
  "(byte list \<Rightarrow> ('o \<times> nat) option) \<Rightarrow> ('t \<Rightarrow> 'o \<Rightarrow> 'v option) \<Rightarrow> 't list \<Rightarrow> istr \<Rightarrow> 'v list option \<times> istr" where
  "deserialize_args unpack conv ts s =
     (case itellg s of (g, s1) \<Rightarrow>
      case read_vector [] s1 of (buffer, s2) \<Rightarrow>
        (case UnstackAndDeserialize unpack conv buffer 0 ts of
           None \<Rightarrow> (None, s2)
         | Some (vs, readOffset) \<Rightarrow> (Some vs, iseekg (g + int readOffset) s2)))"

definition deserializeOne ::
  "(byte list \<Rightarrow> ('o \<times> nat) option) \<Rightarrow> ('t \<Rightarrow> 'o \<Rightarrow> 'v option) \<Rightarrow> 't \<Rightarrow> istr \<Rightarrow> 'v option \<times> istr" where
  "deserializeOne unpack conv t s =
     (case deserialize_args unpack conv [t] s of (r, s') \<Rightarrow> (map_option hd r, s'))"

text \<open>
  What the documentation of MessagePack promises: a packed value is not empty, and the
  object found at the front of a buffer that starts with it converts back to the value and
  takes exactly its bytes.
\<close>

definition msgpack_ok ::
  "('v \<Rightarrow> byte list list) \<Rightarrow> (byte list \<Rightarrow> ('o \<times> nat) option) \<Rightarrow> ('t \<Rightarrow> 'o \<Rightarrow> 'v option) \<Rightarrow> ('t \<Rightarrow> 'v \<Rightarrow> bool) \<Rightarrow> bool" where
  "msgpack_ok pack unpack conv typed \<longleftrightarrow>
     (\<forall>t v rest. typed t v \<longrightarrow> concat (pack v) \<noteq> [] \<and>
        (\<exists>ob. unpack (concat (pack v) @ rest) = Some (ob, length (concat (pack v))) \<and> conv t ob = Some v))"

definition packed :: "('v \<Rightarrow> byte list list) \<Rightarrow> 'v list \<Rightarrow> byte list" where
  "packed pack vs = concat (map (concat \<circ> pack) vs)"

section \<open>Positions on a well-formed stream\<close>

lemma itellg_at:
  assumes "bsb_at (ibuf s) m g e p" "igood s"
  shows "itellg s = (g, s\<lparr>ibuf := setg (Some 0) (Some g) (Some e) (ibuf s)\<rparr>)"
    "bsb_at (setg (Some 0) (Some g) (Some e) (ibuf s)) m g e p"
proof -
  have le: "0 \<le> g + 0" "g + 0 \<le> e" using assms(1) by (simp_all add: bsb_at_def)
  note c = seekoff_cur_at [OF assms(1) le]
  show "itellg s = (g, s\<lparr>ibuf := setg (Some 0) (Some g) (Some e) (ibuf s)\<rparr>)"
    using c(1) assms(2) by (simp add: itellg_def igood_def)
  show "bsb_at (setg (Some 0) (Some g) (Some e) (ibuf s)) m g e p" using c(2) by simp
qed

lemma seekpos_at:
  assumes "bsb_at b m g e p" "0 \<le> q" "q \<le> e"
  shows "seekpos q True False b = (q, setg (Some 0) (Some q) (Some e) b)"
    "bsb_at (setg (Some 0) (Some q) (Some e) b) m q e p"
  using assms
  by (simp_all add: seekpos_def setgIfValid_def bsb_at_def) (simp add: setg_def)

lemma iseekg_at:
  assumes "bsb_at (ibuf s) m g e p" "igood s" "0 \<le> q" "q \<le> e"
  shows "bsb_at (ibuf (iseekg q s)) m q e p" "igood (iseekg q s)"
  using seekpos_at [OF assms(1,3,4)] assms(2,3) by (simp_all add: iseekg_def igood_def)

text \<open>Taking everything that is left off a good stream keeps its memory and its end.\<close>

lemma read_vector_at:
  assumes "bsb_at (ibuf s) m g e p" "igood s"
  shows "\<exists>s'. read_vector [] s = (remaining s, s') \<and> bsb_at (ibuf s') m e e p \<and> igood s'"
proof (cases "g = e")
  case True
  then have "remaining s = []" using assms(1) by (simp add: remaining_def unread_at)
  moreover have "in_avail (ibuf s) = 0"
    using True in_avail_wf [OF bsb_wf_at [OF assms(1)]] length_unread_at [OF assms(1)] by simp
  ultimately show ?thesis using assms True by (simp add: read_vector_def)
next
  case False
  have le: "0 \<le> g" "g \<le> e" "e \<le> int (length m)" using assms(1) by (simp_all add: bsb_at_def)
  have a: "in_avail (ibuf s) = e - g"
    using in_avail_wf [OF bsb_wf_at [OF assms(1)]] length_unread_at [OF assms(1)] by simp
  have n: "0 \<le> e - g" using le by simp
  note x = xsgetn_at [OF assms(1) n]
  have u: "take (nat (e - g)) (drop (nat g) m) = remaining s"
    using unread_at [OF assms(1)] by (simp add: remaining_def)
  have len: "length (remaining s) = nat (e - g)"
    using length_unread_at [OF assms(1)] by (simp add: remaining_def)
  have r: "iread (e - g) s = (remaining s, s\<lparr>ibuf := setg (Some 0) (Some e) (Some e) (ibuf s)\<rparr>)"
    using x(1) assms(2) u by (simp add: iread_def)
  have "overwrite 0 (remaining s) (replicate (nat (e - g)) 0) = remaining s"
    by (rule overwrite_all) (simp add: len)
  then have "read_vector [] s = (remaining s, s\<lparr>ibuf := setg (Some 0) (Some e) (Some e) (ibuf s)\<rparr>)"
    using False le r by (simp add: read_vector_def a Let_def)
  then show ?thesis using x(2) assms(2) by (simp add: igood_def)
qed

section \<open>Packing and unpacking a sequence\<close>

lemma packed_simps [simp]:
  "packed pack [] = []" "packed pack (v # vs) = concat (pack v) @ packed pack vs"
  by (simp_all add: packed_def)

lemma owrites_append:
  "ostr_wf s \<Longrightarrow> ogood s \<Longrightarrow> length (obytes s) + length (concat cs) < 1073741824 \<Longrightarrow>
   ostr_wf (fold owrite cs s) \<and> ogood (fold owrite cs s) \<and> obytes (fold owrite cs s) = obytes s @ concat cs"
proof (induction cs arbitrary: s)
  case (Cons c cs)
  have l: "length (obytes s) + length c < 1073741824" using Cons.prems(3) by simp
  note w = owrite_append [OF Cons.prems(1,2) l]
  show ?case using Cons.IH [OF w(1,2)] Cons.prems(3) w(3) by simp
qed simp

lemma serialize_values_append:
  "ostr_wf s \<Longrightarrow> ogood s \<Longrightarrow> length (obytes s) + length (packed pack vs) < 1073741824 \<Longrightarrow>
   ostr_wf (serialize_values pack vs s) \<and> ogood (serialize_values pack vs s) \<and>
   obytes (serialize_values pack vs s) = obytes s @ packed pack vs"
proof (induction vs arbitrary: s)
  case (Cons v vs)
  have l: "length (obytes s) + length (concat (pack v)) < 1073741824" using Cons.prems(3) by simp
  note w = owrites_append [OF Cons.prems(1,2) l]
  show ?case using Cons.IH [of "fold owrite (pack v) s"] Cons.prems(3) w
    by (simp add: serialize_values_def)
qed (simp add: serialize_values_def)

lemma unstack_packed:
  assumes "msgpack_ok pack unpack conv typed"
  shows "list_all2 typed ts vs \<Longrightarrow> drop off data = packed pack vs @ rest \<Longrightarrow>
    UnstackAndDeserialize unpack conv data off ts = Some (vs, off + length (packed pack vs))"
proof (induction ts vs arbitrary: off rule: list_all2_induct)
  case (Cons t ts v vs)
  obtain ob where ob: "unpack (concat (pack v) @ (packed pack vs @ rest)) = Some (ob, length (concat (pack v)))"
      "conv t ob = Some v"
    using assms Cons.hyps(1) unfolding msgpack_ok_def by blast
  have d: "drop off data = concat (pack v) @ (packed pack vs @ rest)" using Cons.prems by simp
  have one: "deserialize_data unpack conv t (drop off data) off = Some (v, off + length (concat (pack v)))"
    unfolding d by (simp only: deserialize_data_def ob option.case prod.case option.map)
  have "drop (off + length (concat (pack v))) data = packed pack vs @ rest"
    using arg_cong [OF d, of "drop (length (concat (pack v)))"] by (simp add: add.commute del: length_concat)
  from Cons.IH [OF this] show ?case using one by (simp add: add.assoc del: length_concat)
qed simp

section \<open>Properties\<close>

text \<open>
  A sequence of values written by \<^verbatim>\<open>serialize(stream, args...)\<close> is read back by
  \<^verbatim>\<open>deserialize(stream, args...)\<close> with the same types, whatever follows it on the stream:
  the values come back, nothing after them is consumed and the stream stays good. So the
  payload a message carries behind its serialized arguments is still there for the caller.
\<close>

theorem serializer_roundtrip:
  assumes "msgpack_ok pack unpack conv typed" "list_all2 typed ts vs" "vs \<noteq> []"
    and "length (packed pack vs @ rest) < 1073741824"
  shows "\<exists>s. deserialize_args unpack conv ts
      (ibytestream_of (Some (obytes (serialize_values pack vs obytestream0) @ rest))) = (Some vs, s) \<and>
    remaining s = rest \<and> igood s"
proof -
  let ?d = "packed pack vs @ rest"
  let ?s = "ibytestream_of (Some ?d)"
  have o: "obytes (serialize_values pack vs obytestream0) = packed pack vs"
    using serialize_values_append [OF ostr_wf_ctor(1,2), of pack vs] assms(4) by (simp add: ostr_wf_ctor(3))
  have l: "length ?d < 2147483648" using assms(4) by linarith
  note i = ibytestream_of_wf [OF l]
  obtain t ts1 v vs1 where vs: "vs = v # vs1" "ts = t # ts1" "typed t v"
    using assms(2,3) by (cases vs) (auto simp: list_all2_Cons2)
  have ne: "?d \<noteq> []" using assms(1) vs by (auto simp: msgpack_ok_def simp del: concat_eq_Nil_conv)
  then obtain m g e p where at: "bsb_at (ibuf ?s) m g e p"
    using i(1,3) by (auto simp: istr_wf_def remaining_def bsb_wf_def)
  note t = itellg_at [OF at i(2)]
  define s1 where "s1 = ?s\<lparr>ibuf := setg (Some 0) (Some g) (Some e) (ibuf ?s)\<rparr>"
  have s1: "bsb_at (ibuf s1) m g e p" "igood s1" using t(2) i(2) by (simp_all add: s1_def igood_def)
  have r1: "remaining s1 = ?d"
    using unread_at [OF s1(1)] unread_at [OF at] i(3) by (simp add: remaining_def)
  obtain s2 where s2: "read_vector [] s1 = (?d, s2)" "bsb_at (ibuf s2) m e e p" "igood s2"
    using read_vector_at [OF s1] r1 by auto
  have u: "UnstackAndDeserialize unpack conv ?d 0 ts = Some (vs, length (packed pack vs))"
    using unstack_packed [OF assms(1,2), of 0 ?d rest] by simp
  have le: "0 \<le> g" "g \<le> e" using at by (simp_all add: bsb_at_def)
  have len: "int (length ?d) = e - g" using length_unread_at [OF s1(1)] r1 by (simp add: remaining_def)
  let ?q = "g + int (length (packed pack vs))"
  have q: "0 \<le> ?q" "?q \<le> e" using le len by simp_all
  note k = iseekg_at [OF s2(2,3) q]
  have "remaining (iseekg ?q s2) = drop (length (packed pack vs)) (remaining s1)"
    unfolding remaining_def unread_at [OF k(1)] unread_at [OF s1(1)] using le
    by (simp add: drop_take nat_int_add add.commute nat_minus_as_int diff_diff_eq)
  then have "remaining (iseekg ?q s2) = rest" by (simp add: r1)
  moreover have "deserialize_args unpack conv ts ?s = (Some vs, iseekg ?q s2)"
    using t(1) s2(1) u by (simp add: deserialize_args_def s1_def)
  ultimately show ?thesis unfolding o using k(2) by blast
qed

text \<open>
  A deserialization that throws has consumed the stream: the buffer was taken before the
  values were looked at and the position is not restored, so nothing is left to read for
  whoever catches the exception.
\<close>

theorem failed_deserialization_exhausts:
  assumes "bsb_at (ibuf s) m g e p" "igood s" "deserialize_args unpack conv ts s = (None, s')"
  shows "remaining s' = [] \<and> igood s'"
proof -
  note t = itellg_at [OF assms(1,2)]
  define s1 where "s1 = s\<lparr>ibuf := setg (Some 0) (Some g) (Some e) (ibuf s)\<rparr>"
  have s1: "bsb_at (ibuf s1) m g e p" "igood s1" using t(2) assms(2) by (simp_all add: s1_def igood_def)
  obtain s2 where s2: "read_vector [] s1 = (remaining s1, s2)" "bsb_at (ibuf s2) m e e p" "igood s2"
    using read_vector_at [OF s1] by blast
  have "s' = s2"
    using assms(3) t(1) s2(1) by (simp add: deserialize_args_def s1_def split: option.splits prod.splits)
  then show ?thesis using s2(2,3) by (simp add: remaining_def unread_at)
qed

text \<open>An argument list that does not fit an empty buffer always throws.\<close>

lemma deserialize_args_empty:
  assumes "unpack [] = None" "remaining s = []" "istr_wf s"
  shows "fst (deserialize_args unpack conv (t # ts) s) = None"
proof -
  obtain g s1 where g: "itellg s = (g, s1)" by fastforce
  have "in_avail (ibuf s1) = 0"
  proof -
    consider "ibuf s1 = ibuf s" | r where "seekoff 0 SeekCur True False (ibuf s) = (r, ibuf s1)"
      using g by (auto simp: itellg_def Let_def split: if_splits prod.splits)
    moreover have "in_avail (ibuf s) = 0"
      using in_avail_wf assms(2,3) by (simp add: istr_wf_def remaining_def)
    moreover have "in_avail b' = 0" if "seekoff 0 SeekCur True False (ibuf s) = (r, b')" for r b'
    proof -
      consider "bsb_empty (ibuf s)" | m g e p where "bsb_at (ibuf s) m g e p"
        using assms(3) by (auto simp: istr_wf_def bsb_wf_def)
      then show ?thesis
      proof cases
        case 1
        then have "b' = ibuf s" using that by (simp add: seekoff_def seekoff_in_def bsb_empty_def)
        then show ?thesis using calculation(2) by simp
      next
        case 2
        then have le: "0 \<le> g + 0" "g + 0 \<le> e" by (simp_all add: bsb_at_def)
        note c = seekoff_cur_at [OF 2 le]
        have at: "bsb_at b' m g e p" using c that by simp
        have "unread b' = unread (ibuf s)" using unread_at [OF 2] unread_at [OF at] by simp
        then show ?thesis
          using in_avail_wf [OF bsb_wf_at [OF at]] assms(2) by (simp add: remaining_def)
      qed
    qed
    ultimately show ?thesis by metis
  qed
  then have "read_vector [] s1 = ([], s1)" by (simp add: read_vector_def)
  then show ?thesis using g assms(1) by (simp add: deserialize_args_def deserialize_data_def)
qed

section \<open>Witnesses\<close>

text \<open>The one-byte integers of MessagePack: the values below 128 are their own encoding.\<close>

definition pack_fixint :: "byte \<Rightarrow> byte list list" where "pack_fixint v = [[v]]"

fun unpack_fixint :: "byte list \<Rightarrow> (byte \<times> nat) option" where
  "unpack_fixint [] = None"
| "unpack_fixint (b # bs) = (if b < 128 then Some (b, 1) else None)"

definition conv_fixint :: "unit \<Rightarrow> byte \<Rightarrow> byte option" where "conv_fixint t b = Some b"

definition fixint :: "unit \<Rightarrow> byte \<Rightarrow> bool" where "fixint t b \<longleftrightarrow> b < 128"

lemma msgpack_ok_fixint: "msgpack_ok pack_fixint unpack_fixint conv_fixint fixint"
  by (simp add: msgpack_ok_def pack_fixint_def conv_fixint_def fixint_def)

text \<open>And its short strings: a length byte from \<^verbatim>\<open>0xa0\<close> on, then the characters.\<close>

definition pack_fixstr :: "string \<Rightarrow> byte list list" where
  "pack_fixstr x = [[of_nat (160 + length x)], map (\<lambda>c. of_nat (of_char c)) x]"

definition unpack_fixstr :: "byte list \<Rightarrow> (string \<times> nat) option" where
  "unpack_fixstr bs =
     (case bs of
        [] \<Rightarrow> None
      | b # rest \<Rightarrow>
          (let n = unat b - 160 in
           if 160 \<le> unat b \<and> unat b < 192 \<and> n \<le> length rest
           then Some (map (\<lambda>w. char_of (unat w)) (take n rest), Suc n) else None))"

lemma char_of_byte [simp]: "char_of (unat (of_nat (of_char c) :: byte)) = c"
  by (simp add: unat_of_nat char_of_mod_256)

lemma unpack_pack_fixstr:
  assumes "length x < 32"
  shows "unpack_fixstr (concat (pack_fixstr x) @ rest) = Some (x, length (concat (pack_fixstr x)))"
proof -
  have "unat (of_nat (160 + length x) :: byte) = 160 + length x"
    using assms by (simp only: unat_of_nat) (simp add: take_bit_nat_eq_self)
  then show ?thesis using assms
    by (simp add: unpack_fixstr_def pack_fixstr_def comp_def Let_def del: of_nat_add)
qed

lemma msgpack_ok_fixstr: "msgpack_ok pack_fixstr unpack_fixstr (\<lambda>t x. Some x) (\<lambda>t x. length x < 32)"
  unfolding msgpack_ok_def by (auto simp: unpack_pack_fixstr) (simp add: pack_fixstr_def)

theorem serializer_roundtrip_witness:
  "\<exists>s. deserialize_args unpack_fixint conv_fixint [(), ()]
      (ibytestream_of (Some (obytes (serialize_values pack_fixint [7, 12] obytestream0) @ [200]))) =
      (Some [7, 12], s) \<and> remaining s = [200] \<and> igood s"
  by (rule serializer_roundtrip [OF msgpack_ok_fixint])
    (simp_all add: fixint_def packed_def pack_fixint_def)

theorem failed_deserialization_exhausts_witness:
  "remaining (snd (deserialize_args unpack_fixint conv_fixint [(), ()]
     (ibytestream_of (Some [7, 200])))) = []"
proof -
  have l: "length [7, 200 :: byte] < 2147483648" by simp
  note i = ibytestream_of_wf [OF l]
  let ?s = "ibytestream_of (Some [7, 200])"
  obtain m g e p where at: "bsb_at (ibuf ?s) m g e p"
    using i(1,3) by (auto simp: istr_wf_def remaining_def bsb_wf_def)
  obtain r s' where d: "deserialize_args unpack_fixint conv_fixint [(), ()] ?s = (r, s')" by fastforce
  obtain s2 where "read_vector [] (snd (itellg ?s)) = ([7, 200], s2)"
    using read_vector_at [of "snd (itellg ?s)" m g e p] itellg_at [OF at i(2)] i(2,3)
      unread_at [OF at] unread_at [OF itellg_at(2) [OF at i(2)]]
    by (auto simp: remaining_def igood_def)
  then have "r = None"
    using d by (auto simp: deserialize_args_def deserialize_data_def conv_fixint_def split: prod.splits)
  then show ?thesis using failed_deserialization_exhausts [OF at i(2) d [unfolded \<open>r = None\<close>]] d by simp
qed

end
