(* ===== verification/GameFinders.thy ===== *)
theory GameFinders
  imports Serialization
begin

text \<open>
  The game finder plugin (\<^verbatim>\<open>Plugins/private/GameFinder\<close>). \<^verbatim>\<open>GameFinderService\<close> lives in the
  scene of one game finder: the status of the current search, moved by the calls of the
  game and by the updates of the server. \<^verbatim>\<open>GameFinder_Impl\<close> is the client side registry: the
  connection attempts by game finder name and the find-game requests in flight. The calls
  are taken to run one at a time: most hold \<^verbatim>\<open>_lock\<close> and the callbacks are dispatched, but
  \<^verbatim>\<open>getPendingFindGameStatus\<close> reads the requests without the lock. A run of the plugin is a
  sequence of the steps of \<open>finder_step\<close>.
\<close>

section \<open>The service of a game finder scene\<close>

text \<open>
  \<^verbatim>\<open>enum class GameFinderStatus\<close>; a status byte of the server is cast to it without a check,
  so any other value may appear as well.
\<close>

datatype finder_status =
  Idle | Searching | CandidateFound | WaitingPlayersReady | Success | FinderFailed | FinderCanceled
  | Loading | Unnamed nat

definition status_of_byte :: "byte \<Rightarrow> finder_status" where
  "status_of_byte b =
     (if b = 0 then Searching else if b = 1 then CandidateFound else if b = 2 then WaitingPlayersReady
      else if b = 3 then Success else if b = 4 then FinderFailed else if b = 5 then FinderCanceled
      else if b = 6 then Loading else Unnamed (unat b))"

text \<open>What the service does besides changing its state, in order.\<close>

datatype finder_event =
  StatusUpdated finder_status | GameFound string | FindGameRequestFailed string
  | FinderRpc string | FinderSend string

record finder_service =
  fs_state :: finder_status
  fs_cancelled :: bool
  fs_events :: "finder_event list"

definition GameFinderService :: finder_service where
  "GameFinderService = \<lparr>fs_state = Idle, fs_cancelled = False, fs_events = []\<rparr>"

definition finder_emit :: "finder_event \<Rightarrow> finder_service \<Rightarrow> finder_service" where
  "finder_emit ev fs = fs\<lparr>fs_events := fs_events fs @ [ev]\<rparr>"

definition set_status :: "finder_status \<Rightarrow> finder_service \<Rightarrow> finder_service" where
  "set_status st fs = finder_emit (StatusUpdated st) (fs\<lparr>fs_state := st\<rparr>)"

text \<open>
  The handler of \<^verbatim>\<open>gamefinder.update\<close>. \<^term>\<open>junk\<close> is what the uninitialised byte variable
  holds when the packet is empty. The second component tells that an exception left the
  handler. The two payloads are the response of a found game (its connection token) and the
  reason of a failure.
\<close>

datatype finder_arg = ResponseDto | ReasonString

definition handle_update ::
  "(byte list \<Rightarrow> ('o \<times> nat) option) \<Rightarrow> (finder_arg \<Rightarrow> 'o \<Rightarrow> string option) \<Rightarrow> byte \<Rightarrow> istr \<Rightarrow>
   finder_service \<Rightarrow> finder_service \<times> bool" where
  "handle_update unpack conv junk s fs =
     (case iread 1 s of (bs, s1) \<Rightarrow>
      let st = status_of_byte (case bs of [] \<Rightarrow> junk | b # _ \<Rightarrow> b);
          fs1 = set_status st fs
      in case st of
           Success \<Rightarrow>
             (case fst (deserializeOne unpack conv ResponseDto s1) of
                None \<Rightarrow> (fs1, True)
              | Some token \<Rightarrow> (set_status Idle (finder_emit (GameFound token) fs1), False))
         | FinderCanceled \<Rightarrow> (set_status Idle fs1, False)
         | FinderFailed \<Rightarrow>
             (case (if igood s1 then fst (deserializeOne unpack conv ReasonString s1) else Some '''') of
                None \<Rightarrow> (fs1, True)
              | Some reason \<Rightarrow> (set_status Idle (finder_emit (FindGameRequestFailed reason) fs1), False))
         | _ \<Rightarrow> (fs1, False))"

text \<open>
  \<^verbatim>\<open>findGameInternal\<close> up to the remote call, and its continuation: the call only resets the
  status when it fails.
\<close>

definition service_findGame :: "finder_service \<Rightarrow> unit res \<times> finder_service" where
  "service_findGame fs =
     (if fs_state fs \<noteq> Idle then (Inl (RuntimeError ''Already finding a game !''), fs)
      else (Inr (), finder_emit (FinderRpc ''gamefinder.find'')
              (fs\<lparr>fs_state := Searching, fs_cancelled := False\<rparr>)))"

text \<open>The request's payload: the provider, then whatever the caller writes.\<close>

definition find_payload :: "(string \<Rightarrow> byte list list) \<Rightarrow> string \<Rightarrow> (ostr \<Rightarrow> ostr) \<Rightarrow> ostr \<Rightarrow> ostr" where
  "find_payload pack provider streamWriter s = streamWriter (serialize_values pack [provider] s)"

definition find_rpc_done :: "unit res \<Rightarrow> finder_service \<Rightarrow> finder_service" where
  "find_rpc_done r fs =
     (case r of
        Inr _ \<Rightarrow> fs
      | Inl _ \<Rightarrow> if fs_state fs \<noteq> Idle then set_status Idle fs else fs)"

definition service_cancel :: "finder_service \<Rightarrow> finder_service" where
  "service_cancel fs =
     (if fs_state fs \<noteq> Idle then finder_emit (FinderSend ''gamefinder.cancel'') (fs\<lparr>fs_cancelled := True\<rparr>)
      else fs)"

definition service_resolve :: "finder_service \<Rightarrow> finder_service" where
  "service_resolve fs = finder_emit (FinderSend ''gamefinder.ready.resolve'') fs"

definition onSceneDisconnecting :: "finder_service \<Rightarrow> finder_service" where
  "onSceneDisconnecting fs =
     (if fs_state fs \<noteq> Idle \<and> fs_state fs \<noteq> FinderCanceled \<and> fs_state fs \<noteq> FinderFailed \<and>
         fs_state fs \<noteq> Success
      then set_status FinderFailed fs else fs)"

subsection \<open>The ready check\<close>

record ready_request =
  rr_members :: "(string \<times> int) list"
  rr_gameId :: string
  rr_timeout :: int
  rr_ready :: int
  rr_total :: int

text \<open>
  The conversion of the message to the public type, and the handler of
  \<^verbatim>\<open>gamefinder.ready.update\<close>, which counts the members that are ready (\<^verbatim>\<open>Readiness::Ready\<close> is 1).
\<close>

definition to_ready_request :: "(string \<times> int) list \<Rightarrow> string \<Rightarrow> int \<Rightarrow> ready_request" where
  "to_ready_request ms game tmo =
     \<lparr>rr_members = ms, rr_gameId = game, rr_timeout = tmo, rr_ready = 0, rr_total = int (length ms)\<rparr>"

definition handle_ready_update :: "(string \<times> int) list \<Rightarrow> string \<Rightarrow> int \<Rightarrow> ready_request" where
  "handle_ready_update ms game tmo =
     foldl (\<lambda>r m. if snd m = 1 then r\<lparr>rr_ready := rr_ready r + 1\<rparr> else r)
       ((to_ready_request ms game tmo)\<lparr>rr_ready := 0\<rparr>) ms"

section \<open>The registry of game finders\<close>

text \<open>
  A connection attempt is the task that \<^verbatim>\<open>connectToGameFinderImpl\<close> returns, with the name it
  was made for. \<open>at_leave\<close> says that \<^verbatim>\<open>disconnectFromGameFinder\<close> waits for it to disconnect its
  scene, \<open>at_live\<close> that its container, and so its subscription, still exists. A pending request
  keeps its cancellation flag and what it has come to: waiting for attempt \<^term>\<open>n\<close>, or
  calling the service of the scene of attempt \<^term>\<open>n\<close>, whose container its token then holds.
\<close>

record finder_attempt =
  at_name :: string
  at_task :: "nat task"
  at_leave :: bool
  at_live :: bool

datatype find_phase = Waiting nat | Calling nat

record find_request =
  fr_cancelled :: bool
  fr_phase :: find_phase

record finder_api =
  ga_users :: bool
  ga_attempts :: "finder_attempt list"
  ga_finders :: "string \<rightharpoonup> nat"
  ga_requests :: "string \<rightharpoonup> find_request"
  ga_services :: "nat \<Rightarrow> finder_service"
  ga_leaving :: "nat list"

definition GameFinder_Impl :: finder_api where
  "GameFinder_Impl = \<lparr>ga_users = True, ga_attempts = [], ga_finders = Map.empty,
     ga_requests = Map.empty, ga_services = (\<lambda>_. GameFinderService), ga_leaving = []\<rparr>"

definition map_attempt :: "nat \<Rightarrow> (finder_attempt \<Rightarrow> finder_attempt) \<Rightarrow> finder_api \<Rightarrow> finder_api" where
  "map_attempt n f g = g\<lparr>ga_attempts := (ga_attempts g)[n := f (ga_attempts g ! n)]\<rparr>"

definition map_service :: "nat \<Rightarrow> (finder_service \<Rightarrow> finder_service) \<Rightarrow> finder_api \<Rightarrow> finder_api" where
  "map_service sc f g = g\<lparr>ga_services := (ga_services g)(sc := f (ga_services g sc))\<rparr>"

text \<open>\<^verbatim>\<open>scene->disconnect()\<close> is a call of the scene, recorded with its scene.\<close>

definition scene_disconnect :: "nat \<Rightarrow> finder_api \<Rightarrow> finder_api" where
  "scene_disconnect sc g = g\<lparr>ga_leaving := ga_leaving g @ [sc]\<rparr>"

text \<open>
  The end of an attempt: the container with its subscriptions, or the failure, which takes
  the name out of the map.
\<close>

definition connect_failure :: "string \<Rightarrow> storm_exn \<Rightarrow> storm_exn" where
  "connect_failure name e =
     RuntimeError (''Failed to connect to game finder. sceneName='' @ name @ '' reason='' @ what e)"

definition connection_done :: "nat \<Rightarrow> nat res \<Rightarrow> finder_api \<Rightarrow> finder_api" where
  "connection_done n r g =
     (let name = at_name (ga_attempts g ! n) in
      case r of
        Inr sc \<Rightarrow>
          (let g1 = map_attempt n (\<lambda>a. a\<lparr>at_task := Done sc, at_live := True\<rparr>) g in
           if at_leave (ga_attempts g ! n) then scene_disconnect sc g1 else g1)
      | Inl e \<Rightarrow>
          (map_attempt n (\<lambda>a. a\<lparr>at_task := Failed (connect_failure name e)\<rparr>) g)
             \<lparr>ga_finders := (ga_finders g)(name := None)\<rparr>)"

text \<open>
  \<^verbatim>\<open>connectToGameFinderImpl\<close>. Its continuations may run before it returns; \<^term>\<open>now\<close> is the
  outcome in that case.
\<close>

definition connectToGameFinderImpl :: "nat res option \<Rightarrow> string \<Rightarrow> finder_api \<Rightarrow> nat \<times> finder_api" where
  "connectToGameFinderImpl now name g =
     (let n = length (ga_attempts g);
          new = (\<lambda>t. g\<lparr>ga_attempts := ga_attempts g @
                   [\<lparr>at_name = name, at_task = t, at_leave = False, at_live = False\<rparr>]\<rparr>) in
      if \<not> ga_users g then (n, new (Failed (RuntimeError ''Users service destroyed.'')))
      else case now of
             None \<Rightarrow> (n, new Pending)
           | Some r \<Rightarrow> (n, connection_done n r (new Pending)))"

definition getGameFinderContainer :: "nat res option \<Rightarrow> string \<Rightarrow> finder_api \<Rightarrow> nat \<times> finder_api" where
  "getGameFinderContainer now name g =
     (case ga_finders g name of
        Some n \<Rightarrow> (n, g)
      | None \<Rightarrow>
          (case connectToGameFinderImpl now name g of (n, g1) \<Rightarrow>
             (n, g1\<lparr>ga_finders := emplace name n (ga_finders g1)\<rparr>)))"

definition connectToGameFinder :: "nat res option \<Rightarrow> string \<Rightarrow> finder_api \<Rightarrow> finder_api" where
  "connectToGameFinder now name g = snd (getGameFinderContainer now name g)"

definition disconnectFromGameFinder :: "string \<Rightarrow> finder_api \<Rightarrow> finder_api" where
  "disconnectFromGameFinder name g =
     (case ga_finders g name of
        None \<Rightarrow> g
      | Some n \<Rightarrow>
          (let g1 = g\<lparr>ga_finders := (ga_finders g)(name := None)\<rparr> in
           case at_task (ga_attempts g ! n) of
             Done sc \<Rightarrow> scene_disconnect sc g1
           | Pending \<Rightarrow> map_attempt n (\<lambda>a. a\<lparr>at_leave := True\<rparr>) g1
           | _ \<Rightarrow> g1))"

text \<open>The subscription to the connection state of the scene of attempt \<^term>\<open>n\<close>.\<close>

definition scene_disconnecting :: "nat \<Rightarrow> finder_api \<Rightarrow> finder_api" where
  "scene_disconnecting n g =
     g\<lparr>ga_finders := (ga_finders g)(at_name (ga_attempts g ! n) := None)\<rparr>"

text \<open>
  The other subscriptions of a container pass the events of the service on, with the name of
  the game finder.
\<close>

datatype api_event =
  ApiGameFound string string | ApiStateChanged string finder_status | ApiFindGameFailed string string

fun forward_event :: "string \<Rightarrow> finder_event \<Rightarrow> api_event list" where
  "forward_event name (GameFound r) = [ApiGameFound name r]"
| "forward_event name (StatusUpdated s) = [ApiStateChanged name s]"
| "forward_event name (FindGameRequestFailed reason) = [ApiFindGameFailed name reason]"
| "forward_event name _ = []"

subsection \<open>Finding a game\<close>

text \<open>
  The continuation that runs on the container: it gives up if the request was canceled
  while the connection was made. The result is \<^const>\<open>None\<close> while the remote call runs.
\<close>

definition find_on_container :: "string \<Rightarrow> nat \<Rightarrow> finder_api \<Rightarrow> unit res option \<times> finder_api" where
  "find_on_container name n g =
     (case (ga_requests g name, at_task (ga_attempts g ! n)) of
        (Some q, Done sc) \<Rightarrow>
          if fr_cancelled q then (Some (Inl TaskCanceled), g)
          else (case service_findGame (ga_services g sc) of
                  (Inl e, fs) \<Rightarrow> (Some (Inl e), g)
                | (Inr _, fs) \<Rightarrow>
                    (None, (map_service sc (\<lambda>_. fs) g)
                       \<lparr>ga_requests := (ga_requests g)(name \<mapsto> q\<lparr>fr_phase := Calling n\<rparr>)\<rparr>))
      | (Some q, Failed e) \<Rightarrow> (Some (Inl e), g)
      | _ \<Rightarrow> (Some (Inl TaskCanceled), g))"

text \<open>The last continuation forgets the request, whatever its outcome.\<close>

definition find_finished :: "string \<Rightarrow> finder_api \<Rightarrow> finder_api" where
  "find_finished name g = g\<lparr>ga_requests := (ga_requests g)(name := None)\<rparr>"

definition findGame :: "nat res option \<Rightarrow> string \<Rightarrow> finder_api \<Rightarrow> unit res \<times> finder_api" where
  "findGame now name g =
     (case ga_requests g name of
        Some _ \<Rightarrow>
          (Inl (RuntimeError (''A findGame request is already running for GameFinder '' @ [CHR 39] @ name @ [CHR 39])), g)
      | None \<Rightarrow>
          (case getGameFinderContainer now name g of (n, g1) \<Rightarrow>
             (Inr (), g1\<lparr>ga_requests := (ga_requests g1)(name \<mapsto> \<lparr>fr_cancelled = False, fr_phase = Waiting n\<rparr>)\<rparr>)))"

text \<open>
  \<^verbatim>\<open>cancel\<close>: canceling the token runs the callback registered on it, which cancels the
  service; a token is canceled once.
\<close>

definition cancel_find :: "string \<Rightarrow> finder_api \<Rightarrow> finder_api" where
  "cancel_find name g =
     (case ga_requests g name of
        None \<Rightarrow> g
      | Some q \<Rightarrow>
          if fr_cancelled q then g
          else (let g1 = g\<lparr>ga_requests := (ga_requests g)(name \<mapsto> q\<lparr>fr_cancelled := True\<rparr>)\<rparr> in
                case fr_phase q of
                  Waiting _ \<Rightarrow> g1
                | Calling n \<Rightarrow>
                    (case at_task (ga_attempts g ! n) of
                       Done sc \<Rightarrow> map_service sc service_cancel g1
                     | _ \<Rightarrow> g1)))"

text \<open>
  \<^verbatim>\<open>getPendingFindGameStatus\<close> for one entry of the map; \<^verbatim>\<open>task.get()\<close> throws what a failed
  attempt holds, and with it the whole call.
\<close>

definition entry_status :: "nat \<Rightarrow> finder_api \<Rightarrow> finder_status res" where
  "entry_status n g =
     (case at_task (ga_attempts g ! n) of
        Done sc \<Rightarrow> Inr (fs_state (ga_services g sc))
      | Pending \<Rightarrow> Inr Loading
      | Failed e \<Rightarrow> Inl e
      | Canceled \<Rightarrow> Inl TaskCanceled)"

fun getPendingFindGameStatus :: "string list \<Rightarrow> finder_api \<Rightarrow> (string \<times> finder_status) list res" where
  "getPendingFindGameStatus [] g = Inr []"
| "getPendingFindGameStatus (name # names) g =
     (case ga_finders g name of
        None \<Rightarrow> getPendingFindGameStatus names g
      | Some n \<Rightarrow>
          bind_res (entry_status n g) (\<lambda>st.
            bind_res (getPendingFindGameStatus names g) (\<lambda>rest. Inr ((name, st) # rest))))"

subsection \<open>Runs\<close>

text \<open>The continuation on the container, with the erasure when it ended the request.\<close>

definition find_continue :: "string \<Rightarrow> nat \<Rightarrow> finder_api \<Rightarrow> finder_api" where
  "find_continue name n g =
     (case find_on_container name n g of
        (None, g1) \<Rightarrow> g1
      | (Some _, g1) \<Rightarrow> find_finished name g1)"

text \<open>
  The steps of a client whose users service is alive and whose connections are made
  asynchronously: calls of the game, ends of attempts, events of scenes, the destruction of
  a container that neither the map nor a running request holds, and updates of the server.
\<close>

inductive finder_step ::
  "(byte list \<Rightarrow> ('o \<times> nat) option) \<Rightarrow> (finder_arg \<Rightarrow> 'o \<Rightarrow> string option) \<Rightarrow> finder_api \<Rightarrow> finder_api \<Rightarrow> bool"
  for unpack conv where
  connect: "finder_step unpack conv g (connectToGameFinder None name g)"
| connected: "n < length (ga_attempts g) \<Longrightarrow> at_task (ga_attempts g ! n) = Pending \<Longrightarrow>
    finder_step unpack conv g (connection_done n r g)"
| leave: "finder_step unpack conv g (disconnectFromGameFinder name g)"
| disconnecting: "n < length (ga_attempts g) \<Longrightarrow> at_live (ga_attempts g ! n) \<Longrightarrow>
    finder_step unpack conv g (scene_disconnecting n g)"
| released: "n < length (ga_attempts g) \<Longrightarrow> n \<notin> ran (ga_finders g) \<Longrightarrow>
    (\<And>name q. ga_requests g name = Some q \<Longrightarrow> fr_phase q \<noteq> Calling n) \<Longrightarrow>
    finder_step unpack conv g (map_attempt n (\<lambda>a. a\<lparr>at_live := False\<rparr>) g)"
| find: "finder_step unpack conv g (snd (findGame None name g))"
| container: "ga_requests g name = Some q \<Longrightarrow> fr_phase q = Waiting n \<Longrightarrow>
    is_done (at_task (ga_attempts g ! n)) \<Longrightarrow> finder_step unpack conv g (find_continue name n g)"
| found: "ga_requests g name = Some q \<Longrightarrow> fr_phase q = Calling n \<Longrightarrow>
    at_task (ga_attempts g ! n) = Done sc \<Longrightarrow>
    finder_step unpack conv g (find_finished name (map_service sc (find_rpc_done r) g))"
| cancel: "finder_step unpack conv g (cancel_find name g)"
| update: "finder_step unpack conv g
    (map_service sc (\<lambda>fs. fst (handle_update unpack conv junk s fs)) g)"

definition finder_run ::
  "(byte list \<Rightarrow> ('o \<times> nat) option) \<Rightarrow> (finder_arg \<Rightarrow> 'o \<Rightarrow> string option) \<Rightarrow> finder_api \<Rightarrow> finder_api \<Rightarrow> bool" where
  "finder_run unpack conv = (finder_step unpack conv)\<^sup>*\<^sup>*"

text \<open>
  What the registry keeps: an entry points to an attempt made for its name that has not
  failed, a request to an attempt for its name, which has succeeded once the request calls
  the service.
\<close>

definition finder_entry_ok :: "finder_api \<Rightarrow> string \<Rightarrow> nat \<Rightarrow> bool" where
  "finder_entry_ok g name n \<longleftrightarrow> n < length (ga_attempts g) \<and> at_name (ga_attempts g ! n) = name \<and>
     (case at_task (ga_attempts g ! n) of Pending \<Rightarrow> True | Done _ \<Rightarrow> True | _ \<Rightarrow> False)"

definition request_ok :: "finder_api \<Rightarrow> string \<Rightarrow> find_request \<Rightarrow> bool" where
  "request_ok g name q \<longleftrightarrow>
     (case fr_phase q of
        Waiting n \<Rightarrow> n < length (ga_attempts g) \<and> at_name (ga_attempts g ! n) = name
      | Calling n \<Rightarrow> n < length (ga_attempts g) \<and> at_name (ga_attempts g ! n) = name \<and>
          (\<exists>sc. at_task (ga_attempts g ! n) = Done sc))"

definition finder_inv :: "finder_api \<Rightarrow> bool" where
  "finder_inv g \<longleftrightarrow> ga_users g \<and>
     (\<forall>name n. ga_finders g name = Some n \<longrightarrow> finder_entry_ok g name n) \<and>
     (\<forall>name q. ga_requests g name = Some q \<longrightarrow> request_ok g name q)"

section \<open>The invariant\<close>

lemma map_attempt_simps [simp]:
  "ga_users (map_attempt n f g) = ga_users g" "ga_finders (map_attempt n f g) = ga_finders g"
  "ga_requests (map_attempt n f g) = ga_requests g" "ga_services (map_attempt n f g) = ga_services g"
  "length (ga_attempts (map_attempt n f g)) = length (ga_attempts g)"
  "ga_leaving (map_attempt n f g) = ga_leaving g"
  by (simp_all add: map_attempt_def)

lemma map_attempt_nth:
  "m < length (ga_attempts g) \<Longrightarrow>
   ga_attempts (map_attempt n f g) ! m = (if m = n then f (ga_attempts g ! n) else ga_attempts g ! m)"
  by (auto simp: map_attempt_def)

lemma map_service_simps [simp]:
  "ga_users (map_service sc f g) = ga_users g" "ga_finders (map_service sc f g) = ga_finders g"
  "ga_requests (map_service sc f g) = ga_requests g" "ga_attempts (map_service sc f g) = ga_attempts g"
  "ga_leaving (map_service sc f g) = ga_leaving g"
  by (simp_all add: map_service_def)

lemma scene_disconnect_simps [simp]:
  "ga_users (scene_disconnect sc g) = ga_users g" "ga_finders (scene_disconnect sc g) = ga_finders g"
  "ga_requests (scene_disconnect sc g) = ga_requests g"
  "ga_attempts (scene_disconnect sc g) = ga_attempts g"
  "ga_services (scene_disconnect sc g) = ga_services g"
  "ga_leaving (scene_disconnect sc g) = ga_leaving g @ [sc]"
  by (simp_all add: scene_disconnect_def)

lemma finder_invD:
  assumes "finder_inv g"
  shows "ga_users g" "ga_finders g name = Some n \<Longrightarrow> finder_entry_ok g name n"
    "ga_requests g name = Some q \<Longrightarrow> request_ok g name q"
  using assms by (auto simp: finder_inv_def)

lemma finder_inv_ctor: "finder_inv GameFinder_Impl"
  by (simp add: finder_inv_def GameFinder_Impl_def)

text \<open>
  Most steps only take entries and requests away or change other parts of the state.
\<close>

lemma finder_inv_sub:
  assumes "finder_inv g" "ga_users g' = ga_users g"
    and "\<And>name n. ga_finders g' name = Some n \<Longrightarrow> ga_finders g name = Some n"
    and "\<And>name q. ga_requests g' name = Some q \<Longrightarrow> ga_requests g name = Some q"
    and "length (ga_attempts g) = length (ga_attempts g')"
    and "\<And>m. m < length (ga_attempts g) \<Longrightarrow> at_name (ga_attempts g' ! m) = at_name (ga_attempts g ! m)"
    and "\<And>m. m < length (ga_attempts g) \<Longrightarrow> at_task (ga_attempts g' ! m) = at_task (ga_attempts g ! m)"
  shows "finder_inv g'"
  unfolding finder_inv_def
proof (intro conjI allI impI)
  show "ga_users g'" using assms(1,2) by (simp add: finder_inv_def)
  show "finder_entry_ok g' name n" if "ga_finders g' name = Some n" for name n
    using finder_invD(2) [OF assms(1) assms(3) [OF that]] assms(5-7) by (simp add: finder_entry_ok_def)
  show "request_ok g' name q" if "ga_requests g' name = Some q" for name q
    using finder_invD(3) [OF assms(1) assms(4) [OF that]] assms(5-7)
    by (auto simp: request_ok_def split: find_phase.splits)
qed

lemma finder_inv_connection_done:
  assumes inv: "finder_inv g" and n: "n < length (ga_attempts g)" "at_task (ga_attempts g ! n) = Pending"
  shows "finder_inv (connection_done n r g)"
proof -
  let ?g = "connection_done n r g" and ?nm = "at_name (ga_attempts g ! n)"
  have a: "length (ga_attempts ?g) = length (ga_attempts g)"
      "\<And>m. m < length (ga_attempts g) \<Longrightarrow> at_name (ga_attempts ?g ! m) = at_name (ga_attempts g ! m)"
      "\<And>m. m < length (ga_attempts g) \<Longrightarrow> m \<noteq> n \<Longrightarrow> at_task (ga_attempts ?g ! m) = at_task (ga_attempts g ! m)"
      "ga_requests ?g = ga_requests g" "ga_users ?g = ga_users g"
    by (auto simp: connection_done_def Let_def map_attempt_nth split: sum.splits)
  have e: "finder_entry_ok ?g name k" if "ga_finders ?g name = Some k" for name k
  proof -
    have g: "ga_finders g name = Some k" "isl r \<longrightarrow> name \<noteq> ?nm"
      using that by (auto simp: connection_done_def Let_def split: sum.splits if_splits)
    note ok = finder_invD(2) [OF inv g(1)]
    show ?thesis
    proof (cases "k = n")
      case True
      then obtain sc where "r = Inr sc" using g(2) ok by (cases r) (auto simp: finder_entry_ok_def)
      then have "at_task (ga_attempts ?g ! n) = Done sc"
        using n by (simp add: connection_done_def Let_def map_attempt_nth)
      then show ?thesis using ok True a(1,2) by (simp add: finder_entry_ok_def)
    next
      case False
      then show ?thesis using ok a by (simp add: finder_entry_ok_def)
    qed
  qed
  have q: "request_ok ?g name q" if "ga_requests ?g name = Some q" for name q
  proof -
    have ok: "request_ok g name q" using that a(4) finder_invD(3) [OF inv] by simp
    then have "k \<noteq> n" if "fr_phase q = Calling k" for k
      using that n(2) by (auto simp: request_ok_def)
    then show ?thesis using ok a(1-3) by (auto simp: request_ok_def split: find_phase.splits)
  qed
  show ?thesis using e q a(5) finder_invD(1) [OF inv] by (simp add: finder_inv_def)
qed

lemma finder_inv_get_container:
  assumes inv: "finder_inv g" and g: "getGameFinderContainer None name g = (n, g')"
  shows "finder_inv g' \<and> n < length (ga_attempts g') \<and> at_name (ga_attempts g' ! n) = name \<and>
    ga_requests g' = ga_requests g"
proof (cases "ga_finders g name")
  case (Some m)
  then have "n = m" "g' = g" using g by (simp_all add: getGameFinderContainer_def)
  then show ?thesis using inv finder_invD(2) [OF inv Some] by (simp add: finder_entry_ok_def)
next
  case None
  let ?a = "\<lparr>at_name = name, at_task = Pending, at_leave = False, at_live = False\<rparr>"
  have g': "n = length (ga_attempts g)"
      "g' = g\<lparr>ga_attempts := ga_attempts g @ [?a], ga_finders := (ga_finders g)(name \<mapsto> n)\<rparr>"
    using g None finder_invD(1) [OF inv]
    by (auto simp: getGameFinderContainer_def connectToGameFinderImpl_def Let_def)
  have e: "finder_entry_ok g' nm k" if "ga_finders g' nm = Some k" for nm k
  proof (cases "nm = name")
    case True
    then show ?thesis using that g' by (simp add: finder_entry_ok_def nth_append)
  next
    case False
    then have "finder_entry_ok g nm k" using that g' finder_invD(2) [OF inv] by simp
    then show ?thesis using g' by (simp add: finder_entry_ok_def nth_append)
  qed
  have q: "request_ok g' nm q" if "ga_requests g' nm = Some q" for nm q
  proof -
    have "request_ok g nm q" using that g' finder_invD(3) [OF inv] by simp
    then show ?thesis using g' by (auto simp: request_ok_def nth_append split: find_phase.splits)
  qed
  show ?thesis
    using e q g' finder_invD(1) [OF inv] by (simp add: finder_inv_def nth_append)
qed

lemma ok_requests [simp]:
  "finder_entry_ok (g\<lparr>ga_requests := rs\<rparr>) name n = finder_entry_ok g name n"
  "request_ok (g\<lparr>ga_requests := rs\<rparr>) name q = request_ok g name q"
  by (simp_all add: finder_entry_ok_def request_ok_def split: find_phase.splits)

lemma finder_inv_request:
  assumes "finder_inv g" "request_ok g name q"
  shows "finder_inv (g\<lparr>ga_requests := (ga_requests g)(name \<mapsto> q)\<rparr>)"
  using assms by (simp add: finder_inv_def)

lemma finder_inv_finished: "finder_inv g \<Longrightarrow> finder_inv (find_finished name g)"
  by (erule finder_inv_sub) (auto simp: find_finished_def split: if_splits)

lemma finder_inv_service: "finder_inv g \<Longrightarrow> finder_inv (map_service sc f g)"
  by (erule finder_inv_sub) simp_all

lemma find_on_container_state:
  assumes "find_on_container name n g = (r, g')"
  shows "g' = g \<or> (\<exists>q sc fs. ga_requests g name = Some q \<and> at_task (ga_attempts g ! n) = Done sc \<and>
    g' = (map_service sc (\<lambda>_. fs) g)\<lparr>ga_requests := (ga_requests g)(name \<mapsto> q\<lparr>fr_phase := Calling n\<rparr>)\<rparr>)"
  using assms
  by (auto simp: find_on_container_def split: option.splits task.splits if_splits sum.splits prod.splits)

lemma finder_inv_find_continue:
  assumes inv: "finder_inv g" and q: "ga_requests g name = Some q" "fr_phase q = Waiting n"
  shows "finder_inv (find_continue name n g)"
proof -
  obtain r g' where c: "find_on_container name n g = (r, g')" by fastforce
  have w: "n < length (ga_attempts g)" "at_name (ga_attempts g ! n) = name"
    using finder_invD(3) [OF inv q(1)] q(2) by (simp_all add: request_ok_def)
  have "finder_inv g'"
    using find_on_container_state [OF c]
  proof (elim disjE exE conjE)
    fix q' sc fs
    assume a: "at_task (ga_attempts g ! n) = Done sc"
      "g' = (map_service sc (\<lambda>_. fs) g)\<lparr>ga_requests := (ga_requests g)(name \<mapsto> q'\<lparr>fr_phase := Calling n\<rparr>)\<rparr>"
    have "request_ok (map_service sc (\<lambda>_. fs) g) name (q'\<lparr>fr_phase := Calling n\<rparr>)"
      using w a(1) by (simp add: request_ok_def)
    from finder_inv_request [OF finder_inv_service [OF inv] this] show "finder_inv g'"
      using a(2) by simp
  qed (simp add: inv)
  then show ?thesis
    using c finder_inv_finished by (simp add: find_continue_def split: option.splits)
qed

lemma finder_inv_findGame:
  assumes inv: "finder_inv g"
  shows "finder_inv (snd (findGame None name g))"
proof (cases "ga_requests g name")
  case None
  obtain n g' where c: "getGameFinderContainer None name g = (n, g')" by fastforce
  note i = finder_inv_get_container [OF inv c]
  then have "request_ok g' name \<lparr>fr_cancelled = False, fr_phase = Waiting n\<rparr>"
    by (simp add: request_ok_def)
  from finder_inv_request [OF conjunct1 [OF i] this] show ?thesis
    using None c by (simp add: findGame_def)
qed (simp add: findGame_def inv)

lemma finder_inv_cancel:
  assumes inv: "finder_inv g"
  shows "finder_inv (cancel_find name g)"
proof (cases "ga_requests g name")
  case (Some q)
  have "request_ok g name (q\<lparr>fr_cancelled := True\<rparr>)"
    using finder_invD(3) [OF inv Some] by (simp add: request_ok_def)
  from finder_inv_request [OF inv this] show ?thesis
    using Some inv finder_inv_service
    by (auto simp: cancel_find_def Let_def split: find_phase.splits task.splits)
qed (simp add: cancel_find_def inv)

lemma finder_inv_step:
  assumes "finder_step unpack conv g g'" "finder_inv g"
  shows "finder_inv g'"
  using assms
proof (cases rule: finder_step.cases)
  case (connect name)
  then show ?thesis
    using finder_inv_get_container [OF assms(2), of name] by (simp add: connectToGameFinder_def split: prod.splits)
      (metis prod.collapse)
next
  case (connected n r)
  then show ?thesis using finder_inv_connection_done [OF assms(2)] by simp
next
  case (leave name)
  show ?thesis unfolding leave
    by (rule finder_inv_sub [OF assms(2)])
      (auto simp: disconnectFromGameFinder_def Let_def map_attempt_nth split: option.splits task.splits if_splits)
next
  case (disconnecting n)
  show ?thesis unfolding disconnecting(1)
    by (rule finder_inv_sub [OF assms(2)]) (auto simp: scene_disconnecting_def split: if_splits)
next
  case (released n)
  show ?thesis unfolding released(1)
    by (rule finder_inv_sub [OF assms(2)]) (auto simp: map_attempt_nth)
next
  case (find name)
  then show ?thesis using finder_inv_findGame [OF assms(2)] by simp
next
  case (container name q n)
  then show ?thesis using finder_inv_find_continue [OF assms(2)] by simp
next
  case (found name q n sc r)
  then show ?thesis using finder_inv_finished finder_inv_service [OF assms(2)] by simp
next
  case (cancel name)
  then show ?thesis using finder_inv_cancel [OF assms(2)] by simp
next
  case (update sc junk s)
  then show ?thesis using finder_inv_service [OF assms(2)] by simp
qed

lemma finder_inv_run: "finder_run unpack conv g g' \<Longrightarrow> finder_inv g \<Longrightarrow> finder_inv g'"
  unfolding finder_run_def by (induction rule: rtranclp_induct) (auto intro: finder_inv_step)

section \<open>Properties\<close>

lemma statuses_inv:
  assumes "finder_inv g"
  shows "\<exists>xs. getPendingFindGameStatus names g = Inr xs"
proof (induction names)
  case (Cons name names)
  show ?case
  proof (cases "ga_finders g name")
    case (Some n)
    then have "\<exists>st. entry_status n g = Inr st"
      using finder_invD(2) [OF assms Some] by (auto simp: finder_entry_ok_def entry_status_def split: task.splits)
    then show ?thesis using Cons Some by auto
  qed (use Cons in simp)
qed simp

text \<open>
  Property C24. As long as connections are made asynchronously, no entry of the registry is
  dead, whatever calls, failures, scene events and updates a run is made of: an entry stands for an
  attempt made under its name which is pending or connected, so that
  \<^verbatim>\<open>getPendingFindGameStatus\<close>, whose \<^verbatim>\<open>task.get()\<close> rethrows the error of a failed attempt,
  never throws; and a request that calls a service does so in a scene that was reached under
  the name of the request.
\<close>

theorem registry_sound:
  assumes "finder_run unpack conv GameFinder_Impl g"
  shows "(\<forall>name n. ga_finders g name = Some n \<longrightarrow> finder_entry_ok g name n) \<and>
    (\<forall>name q. ga_requests g name = Some q \<longrightarrow> request_ok g name q) \<and>
    (\<exists>xs. getPendingFindGameStatus names g = Inr xs)"
proof -
  have "finder_inv g" by (rule finder_inv_run [OF assms finder_inv_ctor])
  then show ?thesis using statuses_inv unfolding finder_inv_def by blast
qed

text \<open>
  The entry of a connection that fails before \<^verbatim>\<open>connectToGameFinderImpl\<close> returns is made after
  the failure handler has erased it. The failed task stays in the registry: asking for the
  status throws, every later connection or search under that name is given the old failure,
  and no new attempt is ever made.
\<close>

theorem synchronous_failure_sticks:
  fixes e :: storm_exn
  assumes "ga_users g" "ga_finders g name = None"
  defines "g' \<equiv> connectToGameFinder (Some (Inl e)) name g"
  shows "getPendingFindGameStatus [name] g' = Inl (connect_failure name e) \<and>
    (\<forall>now. connectToGameFinder now name g' = g')"
proof -
  let ?n = "length (ga_attempts g)"
  have g': "ga_finders g' name = Some ?n"
      "at_task (ga_attempts g' ! ?n) = Failed (connect_failure name e)"
    using assms
    by (simp_all add: connectToGameFinder_def getGameFinderContainer_def connectToGameFinderImpl_def
        connection_done_def Let_def map_attempt_def)
  then have "connectToGameFinder now name g' = g'" for now
    by (simp add: connectToGameFinder_def getGameFinderContainer_def)
  then show ?thesis using g' by (simp add: entry_status_def)
qed

text \<open>
  An attempt that was left behind still acts on the registry by its name: when it
  fails, the entry of the newer attempt for the same game finder is erased although that
  attempt is pending or connected. From then on leaving that game finder does nothing (its
  scene is not disconnected) and connecting to it makes one more attempt.
\<close>

theorem stale_failure_unregisters:
  fixes e :: storm_exn
  assumes "finder_run unpack conv GameFinder_Impl g"
    and "ga_finders g name = Some n" "m < length (ga_attempts g)" "m \<noteq> n"
    and "at_name (ga_attempts g ! m) = name" "at_task (ga_attempts g ! m) = Pending"
  defines "g' \<equiv> connection_done m (Inl e) g"
  shows "finder_run unpack conv GameFinder_Impl g' \<and>
    ga_attempts g' ! n = ga_attempts g ! n \<and>
    (case at_task (ga_attempts g' ! n) of Pending \<Rightarrow> True | Done _ \<Rightarrow> True | _ \<Rightarrow> False) \<and>
    disconnectFromGameFinder name g' = g' \<and>
    length (ga_attempts (connectToGameFinder None name g')) = Suc (length (ga_attempts g))"
proof -
  have inv: "finder_inv g" by (rule finder_inv_run [OF assms(1) finder_inv_ctor])
  have ok: "finder_entry_ok g name n" by (rule finder_invD(2) [OF inv assms(2)])
  have run: "finder_run unpack conv GameFinder_Impl g'"
    using assms(1) finder_step.connected [OF assms(3,6)] unfolding finder_run_def g'_def
    by (rule rtranclp.rtrancl_into_rtrancl)
  have n: "ga_attempts g' ! n = ga_attempts g ! n"
    using ok assms(4) by (simp add: g'_def connection_done_def Let_def map_attempt_nth finder_entry_ok_def)
  have none: "ga_finders g' name = None"
    using assms(5) by (simp add: g'_def connection_done_def Let_def)
  have l: "length (ga_attempts g') = length (ga_attempts g)" "ga_users g'"
    using finder_invD(1) [OF inv] by (simp_all add: g'_def connection_done_def Let_def)
  show ?thesis
    using run n none l ok
    by (simp add: disconnectFromGameFinder_def connectToGameFinder_def getGameFinderContainer_def
        connectToGameFinderImpl_def Let_def finder_entry_ok_def)
qed

text \<open>
  At most one search runs under a name: while a request is in flight a second one
  is refused and changes nothing; the request ends, and the name becomes free again, when the
  attempt it waits for fails, when it was canceled before the connection was made, when the
  service refuses the search, and when the remote call of the search ends with any outcome.
\<close>

theorem findGame_exclusive:
  assumes "finder_run unpack conv GameFinder_Impl g" "ga_requests g name = Some q"
  shows "(\<exists>e. findGame now name g = (Inl e, g)) \<and>
    (case fr_phase q of
       Waiting n \<Rightarrow> is_done (at_task (ga_attempts g ! n)) \<longrightarrow>
         ga_requests (find_continue name n g) name = None \<or>
         (\<exists>sc. at_task (ga_attempts g ! n) = Done sc \<and> \<not> fr_cancelled q \<and>
            fs_state (ga_services g sc) = Idle \<and>
            fs_state (ga_services (find_continue name n g) sc) = Searching \<and>
            ga_requests (find_continue name n g) name = Some (q\<lparr>fr_phase := Calling n\<rparr>))
     | Calling n \<Rightarrow> \<exists>sc. at_task (ga_attempts g ! n) = Done sc \<and>
         finder_step unpack conv g (find_finished name (map_service sc (find_rpc_done r) g)) \<and>
         ga_requests (find_finished name (map_service sc (find_rpc_done r) g)) name = None)"
proof -
  have inv: "finder_inv g" by (rule finder_inv_run [OF assms(1) finder_inv_ctor])
  note ok = finder_invD(3) [OF inv assms(2)]
  show ?thesis
  proof (cases "fr_phase q")
    case (Waiting n)
    have "ga_requests (find_continue name n g) name = None \<or>
      (\<exists>sc. at_task (ga_attempts g ! n) = Done sc \<and> \<not> fr_cancelled q \<and>
         fs_state (ga_services g sc) = Idle \<and>
         fs_state (ga_services (find_continue name n g) sc) = Searching \<and>
         ga_requests (find_continue name n g) name = Some (q\<lparr>fr_phase := Calling n\<rparr>))"
      using assms(2)
      by (auto simp: find_continue_def find_on_container_def find_finished_def service_findGame_def
          finder_emit_def map_service_def split: task.splits)
    then show ?thesis using Waiting assms(2) by (simp add: findGame_def)
  next
    case (Calling n)
    then obtain sc where sc: "at_task (ga_attempts g ! n) = Done sc"
      using ok by (auto simp: request_ok_def)
    then show ?thesis
      using Calling assms(2) finder_step.found [OF assms(2) Calling sc]
      by (auto simp: findGame_def find_finished_def)
  qed
qed

text \<open>
  The three updates that end a search: subscribers see the final status, then the
  payload, then \<^const>\<open>Idle\<close>, and the service is ready for the next search.
\<close>

definition final_update :: "finder_status \<Rightarrow> string \<Rightarrow> finder_event list" where
  "final_update st x =
     StatusUpdated st # (case st of Success \<Rightarrow> [GameFound x] | FinderFailed \<Rightarrow> [FindGameRequestFailed x] | _ \<Rightarrow> []) @
     [StatusUpdated Idle]"

lemma iread_first:
  assumes "istr_wf s" "igood s" "remaining s = b # rest"
  obtains s1 where "iread 1 s = ([b], s1)" "istr_wf s1" "igood s1" "remaining s1 = rest"
proof -
  obtain bs s1 where r: "iread 1 s = (bs, s1)" by fastforce
  note w = iread_wf [OF assms(1,2) _ r]
  then show ?thesis using that r assms(3) by simp
qed

lemma deserializeOne_packed:
  assumes "msgpack_ok pack unpack conv typed" "typed t x" "istr_wf s" "igood s"
    and "remaining s = concat (pack x) @ rest"
  shows "fst (deserializeOne unpack conv t s) = Some x"
proof -
  obtain ob where ob: "concat (pack x) \<noteq> []" "unpack (remaining s) = Some (ob, length (concat (pack x)))" "conv t ob = Some x"
    using assms(1,2) unfolding assms(5) msgpack_ok_def by blast
  have "remaining s \<noteq> []" using ob(1) assms(5) by (metis append_is_Nil_conv)
  then obtain m g e p where at: "bsb_at (ibuf s) m g e p"
    using assms(3) by (auto simp: istr_wf_def remaining_def bsb_wf_def)
  note t = itellg_at [OF at assms(4)]
  let ?s1 = "s\<lparr>ibuf := setg (Some 0) (Some g) (Some e) (ibuf s)\<rparr>"
  have s1: "bsb_at (ibuf ?s1) m g e p" "igood ?s1" using t(2) assms(4) by (simp_all add: igood_def)
  have "remaining ?s1 = remaining s"
    using unread_at [OF s1(1)] unread_at [OF at] by (simp add: remaining_def)
  then obtain s2 where "read_vector [] ?s1 = (remaining s, s2)" using read_vector_at [OF s1] by auto
  then show ?thesis
    using t(1) ob by (simp add: deserializeOne_def deserialize_args_def deserialize_data_def)
qed

text \<open>
  The update that ends a search leaves the service idle: for a found game or a
  failure whose payload is what the server packed, and for a cancellation, the subscribers
  see the final status, the payload and \<^const>\<open>Idle\<close> in this order, no exception leaves the
  handler, and the next search is accepted.
\<close>

theorem final_update_idles:
  assumes "msgpack_ok pack unpack conv typed" "istr_wf s" "igood s" "remaining s = b # rest"
    and "status_of_byte b = Success \<and> typed ResponseDto x \<and> rest = concat (pack x) @ tl1 \<or>
      status_of_byte b = FinderFailed \<and> typed ReasonString x \<and> rest = concat (pack x) @ tl1 \<or>
      status_of_byte b = FinderCanceled"
    and "handle_update unpack conv junk s fs = (fs', threw)"
  shows "\<not> threw \<and> fs_state fs' = Idle \<and>
    fs_events fs' = fs_events fs @ final_update (status_of_byte b) x \<and>
    (\<exists>fs2. service_findGame fs' = (Inr (), fs2) \<and> fs_state fs2 = Searching)"
proof -
  obtain s1 where r: "iread 1 s = ([b], s1)" "istr_wf s1" "igood s1" "remaining s1 = rest"
    by (rule iread_first [OF assms(2-4)])
  have pl: "fst (deserializeOne unpack conv t s1) = Some x" if "typed t x" "rest = concat (pack x) @ tl1" for t
    using deserializeOne_packed [OF assms(1) that(1) r(2,3)] r(4) that(2) by simp
  show ?thesis
    using assms(5,6) r(1,3) pl
    by (auto simp: handle_update_def set_status_def finder_emit_def final_update_def service_findGame_def)
qed

lemma forwarded_final_update:
  "concat (map (forward_event name) (final_update st x)) =
     ApiStateChanged name st #
     (case st of Success \<Rightarrow> [ApiGameFound name x] | FinderFailed \<Rightarrow> [ApiFindGameFailed name x] | _ \<Rightarrow> []) @
     [ApiStateChanged name Idle]"
  by (cases st) (simp_all add: final_update_def)

text \<open>
  The handler means to accept a failure without a reason, but it asks
  \<^verbatim>\<open>packet->stream.good()\<close>, which is still true after the status byte, the last one, was read. The
  deserialization of the missing string throws: the failure is never announced and the
  service stays in the failed state, in which it refuses every search.
\<close>

theorem bare_failure_update_throws:
  assumes "istr_wf s" "igood s" "remaining s = [b]" "status_of_byte b = FinderFailed" "unpack [] = None"
    and "handle_update unpack conv junk s fs = (fs', threw)"
  shows "threw \<and> fs_state fs' = FinderFailed \<and> fs_events fs' = fs_events fs @ [StatusUpdated FinderFailed] \<and>
    (\<exists>e. service_findGame fs' = (Inl e, fs'))"
proof -
  obtain s1 where r: "iread 1 s = ([b], s1)" "istr_wf s1" "igood s1" "remaining s1 = []"
    by (rule iread_first [OF assms(1-3)])
  have "fst (deserialize_args unpack conv [ReasonString] s1) = None"
    by (rule deserialize_args_empty [where unpack = unpack, OF assms(5) r(4,2)])
  then have "fst (deserializeOne unpack conv ReasonString s1) = None"
    by (cases "deserialize_args unpack conv [ReasonString] s1") (simp add: deserializeOne_def)
  then show ?thesis
    using assms(4,6) r(1,3) by (auto simp: handle_update_def set_status_def finder_emit_def service_findGame_def)
qed

text \<open>
  The failure of a remote call is not matched with the search it belongs to: after a search
  was canceled and another one started, the failure of the first call ends the second
  search, and a third one is accepted while the second still runs on the server.
\<close>

theorem stale_rpc_ends_new_search:
  assumes "fs_state fs = Idle"
  defines "fs1 \<equiv> snd (service_findGame fs)"
    and "again \<equiv> \<lambda>f. snd (service_findGame (set_status Idle (set_status FinderCanceled f)))"
  shows "fs_state (again fs1) = Searching \<and>
    fs_state (find_rpc_done (Inl e) (again fs1)) = Idle \<and>
    fst (service_findGame (find_rpc_done (Inl e) (again fs1))) = Inr ()"
  using assms
  by (simp add: service_findGame_def set_status_def finder_emit_def find_rpc_done_def)

lemma ready_count:
  "rr_ready (foldl (\<lambda>r m. if snd m = 1 then r\<lparr>rr_ready := rr_ready r + 1\<rparr> else r) r ms) =
     rr_ready r + int (length (filter (\<lambda>m. snd m = 1) ms)) \<and>
   rr_total (foldl (\<lambda>r m. if snd m = 1 then r\<lparr>rr_ready := rr_ready r + 1\<rparr> else r) r ms) = rr_total r"
  by (induction ms arbitrary: r) auto

lemma ready_update_counts:
  "0 \<le> rr_ready (handle_ready_update ms game tmo) \<and>
   rr_ready (handle_ready_update ms game tmo) \<le> rr_total (handle_ready_update ms game tmo)"
  using length_filter_le [of "\<lambda>m. snd m = 1" ms]
  by (simp add: handle_ready_update_def ready_count to_ready_request_def)

section \<open>Witnesses\<close>

lemma finder_run_step:
  "finder_run unpack conv g g1 \<Longrightarrow> finder_step unpack conv g1 g2 \<Longrightarrow> finder_run unpack conv g g2"
  unfolding finder_run_def by (rule rtranclp.rtrancl_into_rtrancl)

lemma finder_run_refl: "finder_run unpack conv g g"
  by (simp add: finder_run_def)

lemmas finder_run_intros = finder_run_step [OF finder_run_refl] finder_run_step [OF finder_run_step [OF finder_run_refl]]
  finder_run_step [OF finder_run_step [OF finder_run_step [OF finder_run_refl]]]

lemmas finder_eval = GameFinder_Impl_def connectToGameFinder_def getGameFinderContainer_def
  connectToGameFinderImpl_def disconnectFromGameFinder_def connection_done_def findGame_def
  map_attempt_def Let_def

theorem registry_sound_witness:
  "\<exists>xs. getPendingFindGameStatus [''a'', ''b''] (snd (findGame None ''b'' (connectToGameFinder None ''a'' GameFinder_Impl))) = Inr xs"
proof -
  have "finder_run unpack_fixstr (\<lambda>t x. Some x) GameFinder_Impl
      (snd (findGame None ''b'' (connectToGameFinder None ''a'' GameFinder_Impl)))"
    by (rule finder_run_intros(2) [OF finder_step.connect finder_step.find])
  from registry_sound [OF this] show ?thesis by blast
qed

theorem synchronous_failure_sticks_witness:
  "getPendingFindGameStatus [''a''] (connectToGameFinder (Some (Inl (RuntimeError ''down''))) ''a'' GameFinder_Impl) =
     Inl (connect_failure ''a'' (RuntimeError ''down''))"
  using synchronous_failure_sticks [of GameFinder_Impl "''a''" "RuntimeError ''down''"]
  by (simp add: GameFinder_Impl_def)

theorem stale_failure_unregisters_witness:
  "disconnectFromGameFinder ''a'' (connection_done 0 (Inl (RuntimeError ''down''))
     (connectToGameFinder None ''a'' (disconnectFromGameFinder ''a'' (connectToGameFinder None ''a'' GameFinder_Impl)))) =
   connection_done 0 (Inl (RuntimeError ''down''))
     (connectToGameFinder None ''a'' (disconnectFromGameFinder ''a'' (connectToGameFinder None ''a'' GameFinder_Impl)))"
proof -
  let ?g = "connectToGameFinder None ''a'' (disconnectFromGameFinder ''a'' (connectToGameFinder None ''a'' GameFinder_Impl))"
  have run: "finder_run unpack_fixstr (\<lambda>t x. Some x) GameFinder_Impl ?g"
    by (rule finder_run_intros(3) [OF finder_step.connect finder_step.leave finder_step.connect])
  have g: "ga_finders ?g ''a'' = Some 1" "0 < length (ga_attempts ?g)" "(0 :: nat) \<noteq> 1"
      "at_name (ga_attempts ?g ! 0) = ''a''" "at_task (ga_attempts ?g ! 0) = Pending"
    by (simp_all add: finder_eval)
  show ?thesis using stale_failure_unregisters [OF run g] by blast
qed

theorem findGame_exclusive_witness:
  "\<exists>e. findGame None ''a'' (snd (findGame None ''a'' GameFinder_Impl)) = (Inl e, snd (findGame None ''a'' GameFinder_Impl))"
proof -
  have run: "finder_run unpack_fixstr (\<lambda>t x. Some x) GameFinder_Impl (snd (findGame None ''a'' GameFinder_Impl))"
    by (rule finder_run_intros(1) [OF finder_step.find])
  have "ga_requests (snd (findGame None ''a'' GameFinder_Impl)) ''a'' = Some \<lparr>fr_cancelled = False, fr_phase = Waiting 0\<rparr>"
    by (simp add: finder_eval)
  from findGame_exclusive [OF run this] show ?thesis by blast
qed

theorem final_update_idles_witness:
  "fs_events (fst (handle_update unpack_fixstr (\<lambda>t x. Some x) 0
     (ibytestream_of (Some [4, 162, 110, 111])) GameFinderService)) =
   [StatusUpdated FinderFailed, FindGameRequestFailed ''no'', StatusUpdated Idle]"
proof -
  have l: "length [4, 162, 110, 111 :: byte] < 2147483648" by simp
  note i = ibytestream_of_wf [OF l]
  have st: "status_of_byte 4 = FinderFailed" by (simp add: status_of_byte_def)
  have p: "[162, 110, 111] = concat (pack_fixstr ''no'') @ []"
    by (simp add: pack_fixstr_def)
  obtain fs' threw where h: "handle_update unpack_fixstr (\<lambda>t x. Some x) 0
     (ibytestream_of (Some [4, 162, 110, 111])) GameFinderService = (fs', threw)" by fastforce
  from final_update_idles [OF msgpack_ok_fixstr i _ h] p st show ?thesis
    using h by (simp add: final_update_def GameFinderService_def)
qed

theorem bare_failure_update_throws_witness:
  "case handle_update unpack_fixstr (\<lambda>t x. Some x) 0 (ibytestream_of (Some [4])) GameFinderService of
     (fs, threw) \<Rightarrow> threw \<and> fs_state fs = FinderFailed \<and> fs_events fs = [StatusUpdated FinderFailed]"
proof -
  have l: "length [4 :: byte] < 2147483648" by simp
  have st: "status_of_byte 4 = FinderFailed" by (simp add: status_of_byte_def)
  have u: "unpack_fixstr [] = None" by (simp add: unpack_fixstr_def)
  obtain fs' threw where h: "handle_update unpack_fixstr (\<lambda>t x. Some x) 0
     (ibytestream_of (Some [4])) GameFinderService = (fs', threw)" by fastforce
  from bare_failure_update_throws [OF ibytestream_of_wf [OF l] st u h] show ?thesis
    using h by (simp add: GameFinderService_def)
qed

theorem stale_rpc_ends_new_search_witness:
  "fs_state (find_rpc_done (Inl (RuntimeError ''lost'')) (snd (service_findGame (set_status Idle
     (set_status FinderCanceled (snd (service_findGame GameFinderService))))))) = Idle"
  using stale_rpc_ends_new_search [of GameFinderService "RuntimeError ''lost''"]
  by (simp add: GameFinderService_def)

end
