(* ===== verification/PartyState.thy ===== *)
theory PartyState
  imports GameFinders
begin

text \<open>
  The party of the local player (\<^verbatim>\<open>PartyService\<close> in \<^verbatim>\<open>Plugins/public/Party/Party.hpp\<close>): the copy
  of the party's state that is kept in step with the server by numbered updates and requests
  for the whole state, the chain of tasks that connects to the game finder of the party, and
  the status of the player, which is only announced as ready behind that chain. A received
  message is a handler on the state of the service; the calls and events it makes are
  appended to \<open>pt_out\<close>.
\<close>

section \<open>Data\<close>

datatype party_error =
  UnspecifiedError | InvalidInvitation | AlreadyInParty | NotInParty | PartyNotReady | SettingsOutdated

text \<open>\<^verbatim>\<open>PartyError::Str\<close> and \<^verbatim>\<open>PartyError::fromString\<close>.\<close>

fun error_string :: "party_error \<Rightarrow> string" where
  "error_string InvalidInvitation = ''party.invalidInvitation''"
| "error_string AlreadyInParty = ''party.alreadyInParty''"
| "error_string NotInParty = ''party.notInParty''"
| "error_string PartyNotReady = ''party.partyNotReady''"
| "error_string SettingsOutdated = ''party.settingsOutdated''"
| "error_string UnspecifiedError = ''''"

definition fromString :: "string \<Rightarrow> party_error" where
  "fromString error =
     (if error = error_string AlreadyInParty then AlreadyInParty
      else if error = error_string InvalidInvitation then InvalidInvitation
      else if error = error_string NotInParty then NotInParty
      else if error = error_string PartyNotReady then PartyNotReady
      else if error = error_string SettingsOutdated then SettingsOutdated
      else UnspecifiedError)"

lemma fromString_error_string [simp]: "fromString (error_string e) = e"
  by (cases e) (simp_all add: fromString_def)

definition party_failure :: "party_error \<Rightarrow> storm_exn" where
  "party_failure e = RuntimeError (error_string e)"

datatype party_user_status = NotReady | Ready

datatype left_reason = Left | Kicked

text \<open>\<^verbatim>\<open>isLeader\<close> is not transmitted: a received user has its default, \<^const>\<open>False\<close>.\<close>

record party_user =
  userId :: string
  partyUserStatus :: party_user_status
  userData :: string
  isLeader :: bool

record party_settings =
  gameFinderName :: string
  customData :: string
  settingsVersionNumber :: int

record party_state =
  ps_settings :: party_settings
  ps_leaderId :: string
  ps_members :: "party_user list"
  ps_version :: int

definition empty_party :: party_state where
  "empty_party = \<lparr>ps_settings = \<lparr>gameFinderName = [], customData = [], settingsVersionNumber = 0\<rparr>,
     ps_leaderId = [], ps_members = [], ps_version = 0\<rparr>"

text \<open>
  The calls and the events of the service. The calls of the scene and of the game finder are
  asynchronous; their outcome is an input of a later step.
\<close>

datatype party_out =
  Rpc string | RpcStatus party_user_status int | RpcArg string string
  | FinderConnect string | FinderDisconnect string | SceneDisconnect
  | UpdatedMembers "party_user list" | UpdatedSettings party_settings
  | JoinedParty | LeftParty left_reason

text \<open>
  A link of the chain \<^verbatim>\<open>_gameFinderConnectionTask\<close>: two continuations with a token, the first
  of which connects to a game finder and the second looks at the outcome. The links run one
  after the other; \<open>pt_results\<close> holds the outcomes of those that have ended, \<open>pt_phase\<close> what the next
  one has come to.
\<close>

record gf_link =
  ln_name :: string
  ln_cancelled :: bool

datatype link_phase = NotStarted | ConnectingTo | FirstDone "unit task"

record party_service =
  pt_state :: party_state
  pt_finder :: string
  pt_scene :: bool
  pt_links :: "gf_link list"
  pt_results :: "unit task list"
  pt_phase :: link_phase
  pt_received :: bool
  pt_pending :: bool
  pt_out :: "party_out list"

definition PartyService :: party_service where
  "PartyService = \<lparr>pt_state = empty_party, pt_finder = [], pt_scene = True, pt_links = [],
     pt_results = [], pt_phase = NotStarted, pt_received = False, pt_pending = False, pt_out = []\<rparr>"

definition p_emit :: "party_out \<Rightarrow> party_service \<Rightarrow> party_service" where
  "p_emit ev p = p\<lparr>pt_out := pt_out p @ [ev]\<rparr>"

section \<open>The handlers\<close>

definition set_state :: "(party_state \<Rightarrow> party_state) \<Rightarrow> party_service \<Rightarrow> party_service" where
  "set_state f p = p\<lparr>pt_state := f (pt_state p)\<rparr>"

text \<open>
  \<^verbatim>\<open>syncPartyState\<close> asks for the whole state unless it has asked already; the call's failure
  (or cancellation) withdraws the flag, its success leaves it to the response.
\<close>

definition syncPartyState :: "party_service \<Rightarrow> party_service" where
  "syncPartyState p =
     (if pt_pending p then p else p_emit (Rpc ''party.getpartystate'') (p\<lparr>pt_pending := True\<rparr>))"

definition sync_done :: "unit task \<Rightarrow> party_service \<Rightarrow> party_service" where
  "sync_done r p = (case r of Done _ \<Rightarrow> p | _ \<Rightarrow> p\<lparr>pt_pending := False\<rparr>)"

definition checkVersionNumber :: "int \<Rightarrow> party_service \<Rightarrow> bool \<times> party_service" where
  "checkVersionNumber versionNumber p =
     (if ps_version (pt_state p) > 0 \<and> versionNumber = ps_version (pt_state p) + 1
      then (True, set_state (\<lambda>s. s\<lparr>ps_version := versionNumber\<rparr>) p)
      else (False, syncPartyState p))"

text \<open>The change of the first element that satisfies a condition, as \<^verbatim>\<open>find_if\<close> finds it.\<close>

fun update_first :: "('a \<Rightarrow> bool) \<Rightarrow> ('a \<Rightarrow> 'a) \<Rightarrow> 'a list \<Rightarrow> 'a list" where
  "update_first P f [] = []"
| "update_first P f (x # xs) = (if P x then f x # xs else x # update_first P f xs)"

fun erase_first :: "('a \<Rightarrow> bool) \<Rightarrow> 'a list \<Rightarrow> 'a list" where
  "erase_first P [] = []"
| "erase_first P (x # xs) = (if P x then xs else x # erase_first P xs)"

definition map_members :: "(party_user list \<Rightarrow> party_user list) \<Rightarrow> party_service \<Rightarrow> party_service" where
  "map_members f = set_state (\<lambda>s. s\<lparr>ps_members := f (ps_members s)\<rparr>)"

definition updateLeader :: "party_service \<Rightarrow> party_service" where
  "updateLeader p =
     map_members (\<lambda>us. update_first (\<lambda>u. ps_leaderId (pt_state p) = userId u) (\<lambda>u. u\<lparr>isLeader := True\<rparr>)
       (update_first isLeader (\<lambda>u. u\<lparr>isLeader := False\<rparr>) us)) p"

text \<open>
  \<^verbatim>\<open>updateGameFinder\<close>: canceling the source of the last link cancels its token; the new link is
  appended to the chain.
\<close>

definition cancel_last :: "gf_link list \<Rightarrow> gf_link list" where
  "cancel_last ls = (if ls = [] then [] else butlast ls @ [(last ls)\<lparr>ln_cancelled := True\<rparr>])"

definition updateGameFinder :: "party_service \<Rightarrow> party_service" where
  "updateGameFinder p =
     (let name = gameFinderName (ps_settings (pt_state p)) in
      if pt_finder p = name then p
      else (let p1 = (p_emit (FinderDisconnect (pt_finder p)) (p\<lparr>pt_links := cancel_last (pt_links p)\<rparr>))
                       \<lparr>pt_finder := name\<rparr> in
            if name = [] then p1
            else p1\<lparr>pt_links := pt_links p1 @ [\<lparr>ln_name = name, ln_cancelled = False\<rparr>]\<rparr>))"

definition announce_members :: "party_service \<Rightarrow> party_service" where
  "announce_members p = p_emit (UpdatedMembers (ps_members (pt_state p))) p"

definition announce_settings :: "party_service \<Rightarrow> party_service" where
  "announce_settings p = p_emit (UpdatedSettings (ps_settings (pt_state p))) p"

definition handlePartyStateResponse :: "party_state \<Rightarrow> party_service \<Rightarrow> party_service" where
  "handlePartyStateResponse st p =
     (let p1 = updateGameFinder (updateLeader (set_state (\<lambda>_. st) p));
          p2 = p1\<lparr>pt_received := True, pt_pending := False\<rparr>
      in announce_members (announce_settings p2))"

definition handleSettingsUpdate :: "int \<Rightarrow> party_settings \<Rightarrow> party_service \<Rightarrow> party_service" where
  "handleSettingsUpdate n settings p =
     (case checkVersionNumber n p of
        (False, p1) \<Rightarrow> p1
      | (True, p1) \<Rightarrow>
          announce_settings (updateGameFinder (set_state (\<lambda>s. s\<lparr>ps_settings := settings\<rparr>) p1)))"

definition handleUserDataUpdate :: "int \<Rightarrow> string \<Rightarrow> string \<Rightarrow> party_service \<Rightarrow> party_service" where
  "handleUserDataUpdate n user data p =
     (case checkVersionNumber n p of
        (False, p1) \<Rightarrow> p1
      | (True, p1) \<Rightarrow>
          if \<exists>u\<in>set (ps_members (pt_state p1)). user = userId u
          then announce_members (map_members (update_first (\<lambda>u. user = userId u) (\<lambda>u. u\<lparr>userData := data\<rparr>)) p1)
          else p1)"

definition set_statuses :: "(string \<times> party_user_status) list \<Rightarrow> party_user list \<Rightarrow> party_user list" where
  "set_statuses = fold (\<lambda>(user, st). update_first (\<lambda>u. user = userId u) (\<lambda>u. u\<lparr>partyUserStatus := st\<rparr>))"

definition handleMemberStatusUpdate ::
  "int \<Rightarrow> (string \<times> party_user_status) list \<Rightarrow> party_service \<Rightarrow> party_service" where
  "handleMemberStatusUpdate n updates p =
     (case checkVersionNumber n p of
        (False, p1) \<Rightarrow> p1
      | (True, p1) \<Rightarrow> announce_members (map_members (set_statuses updates) p1))"

definition handleMemberConnected :: "int \<Rightarrow> party_user \<Rightarrow> party_service \<Rightarrow> party_service" where
  "handleMemberConnected n member p =
     (case checkVersionNumber n p of
        (False, p1) \<Rightarrow> p1
      | (True, p1) \<Rightarrow> announce_members (map_members (\<lambda>us. us @ [member]) p1))"

definition handleMemberDisconnected :: "int \<Rightarrow> string \<Rightarrow> party_service \<Rightarrow> party_service" where
  "handleMemberDisconnected n user p =
     (case checkVersionNumber n p of
        (False, p1) \<Rightarrow> p1
      | (True, p1) \<Rightarrow>
          if \<exists>u\<in>set (ps_members (pt_state p1)). user = userId u
          then announce_members (map_members (erase_first (\<lambda>u. user = userId u)) p1)
          else p1)"

definition handleLeaderChanged :: "int \<Rightarrow> string \<Rightarrow> party_service \<Rightarrow> party_service" where
  "handleLeaderChanged n leader p =
     (case checkVersionNumber n p of
        (False, p1) \<Rightarrow> p1
      | (True, p1) \<Rightarrow>
          if ps_leaderId (pt_state p1) \<noteq> leader
          then announce_members (updateLeader (set_state (\<lambda>s. s\<lparr>ps_leaderId := leader\<rparr>) p1))
          else p1)"

text \<open>The updates of the server by procedure, and \<^verbatim>\<open>initialize\<close>, which registers the handlers.\<close>

datatype party_update =
    SettingsUpdated party_settings
  | MemberDataUpdated string string
  | MemberStatusUpdated "(string \<times> party_user_status) list"
  | MemberConnected party_user
  | MemberDisconnected string left_reason
  | LeaderChanged string

fun procedure :: "party_update \<Rightarrow> int \<Rightarrow> party_service \<Rightarrow> party_service" where
  "procedure (SettingsUpdated s) n = handleSettingsUpdate n s"
| "procedure (MemberDataUpdated user data) n = handleUserDataUpdate n user data"
| "procedure (MemberStatusUpdated us) n = handleMemberStatusUpdate n us"
| "procedure (MemberConnected u) n = handleMemberConnected n u"
| "procedure (MemberDisconnected user r) n = handleMemberDisconnected n user"
| "procedure (LeaderChanged user) n = handleLeaderChanged n user"

text \<open>
  A handler whose message cannot be read after the version number: the exception leaves it
  behind \<^verbatim>\<open>checkVersionNumber\<close>.
\<close>

definition unreadable_update :: "int \<Rightarrow> party_service \<Rightarrow> party_service" where
  "unreadable_update n p = snd (checkVersionNumber n p)"

text \<open>The subscription of \<^verbatim>\<open>initialize\<close> to the connection state of the scene.\<close>

definition scene_connected :: "party_service \<Rightarrow> party_service" where
  "scene_connected p = p_emit JoinedParty p"

definition scene_left :: "string \<Rightarrow> party_service \<Rightarrow> party_service" where
  "scene_left reason p =
     p_emit (LeftParty (if reason = ''party.kicked'' then Kicked else Left))
       (p_emit (FinderDisconnect (gameFinderName (ps_settings (pt_state p)))) p)"

section \<open>The chain of game finder connections\<close>

text \<open>The outcome of what the next link continues: the link before it, or the finished first task.\<close>

definition prior :: "nat \<Rightarrow> party_service \<Rightarrow> unit task" where
  "prior k p = (if k = 0 then Done () else pt_results p ! (k - 1))"

definition next_link :: "party_service \<Rightarrow> gf_link option" where
  "next_link p = (if length (pt_results p) < length (pt_links p)
     then Some (pt_links p ! length (pt_results p)) else None)"

text \<open>
  A continuation whose token was canceled does not run; it is canceled, or it takes over
  the exception of the task it continues.
\<close>

definition canceled_after :: "unit task \<Rightarrow> unit task" where
  "canceled_after t = (case t of Failed e \<Rightarrow> Failed e | _ \<Rightarrow> Canceled)"

text \<open>The first continuation: \<^verbatim>\<open>task.wait()\<close> throws the error of the link before, not its cancellation.\<close>

definition link_start :: "party_service \<Rightarrow> party_service" where
  "link_start p =
     (case next_link p of
        None \<Rightarrow> p
      | Some l \<Rightarrow>
          if pt_phase p \<noteq> NotStarted then p
          else let before = prior (length (pt_results p)) p in
               if ln_cancelled l then p\<lparr>pt_phase := FirstDone (canceled_after before)\<rparr>
               else (case before of
                       Failed e \<Rightarrow> p\<lparr>pt_phase := FirstDone (Failed e)\<rparr>
                     | _ \<Rightarrow> p_emit (FinderConnect (ln_name l)) (p\<lparr>pt_phase := ConnectingTo\<rparr>)))"

definition link_connected :: "unit task \<Rightarrow> party_service \<Rightarrow> party_service" where
  "link_connected r p = (if pt_phase p = ConnectingTo then p\<lparr>pt_phase := FirstDone r\<rparr> else p)"

text \<open>The second continuation: an error makes the player leave the party.\<close>

definition leave_scene :: "party_service \<Rightarrow> party_service" where
  "leave_scene p = (if pt_scene p then (p_emit SceneDisconnect p)\<lparr>pt_scene := False\<rparr> else p)"

definition link_finish :: "party_service \<Rightarrow> party_service" where
  "link_finish p =
     (case (next_link p, pt_phase p) of
        (Some l, FirstDone t) \<Rightarrow>
          (let (r, p1) =
             (if ln_cancelled l then (canceled_after t, p)
              else case t of Failed e \<Rightarrow> (Failed e, leave_scene p) | _ \<Rightarrow> (Done (), p))
           in p1\<lparr>pt_results := pt_results p1 @ [r], pt_phase := NotStarted\<rparr>)
      | _ \<Rightarrow> p)"

section \<open>The status of the local player\<close>

datatype status_call = NoChange | Refused storm_exn | Sent | Queued nat party_user_status int

definition updatePlayerStatus :: "string \<Rightarrow> party_user_status \<Rightarrow> party_service \<Rightarrow> status_call \<times> party_service" where
  "updatePlayerStatus me newStatus p =
     (let st = pt_state p in
      if \<not> (\<exists>u\<in>set (ps_members st). userId u = me \<and> partyUserStatus u \<noteq> newStatus) then (NoChange, p)
      else if gameFinderName (ps_settings st) = [] then (Refused (party_failure PartyNotReady), p)
      else let v = settingsVersionNumber (ps_settings st) in
           if newStatus = NotReady then (Sent, p_emit (RpcStatus newStatus v) p)
           else (Queued (length (pt_links p)) newStatus v, p))"

text \<open>
  The continuation behind the first \<^term>\<open>k\<close> links, once they have ended (\<open>k \<le> length
  (pt_results p)\<close>): it compares the version of the settings with the one of the call.
\<close>

definition status_continue :: "nat \<Rightarrow> party_user_status \<Rightarrow> int \<Rightarrow> party_service \<Rightarrow> status_call \<times> party_service" where
  "status_continue k st v p =
     (case prior k p of
        Failed e \<Rightarrow> (Refused e, p)
      | _ \<Rightarrow> if v \<noteq> settingsVersionNumber (ps_settings (pt_state p))
             then (Refused (party_failure SettingsOutdated), p)
             else (Sent, p_emit (RpcStatus st v) p))"

text \<open>The calls that only forward to the server.\<close>

definition updatePlayerData :: "string \<Rightarrow> party_service \<Rightarrow> party_service" where
  "updatePlayerData data = p_emit (RpcArg ''party.updatepartyuserdata'' data)"

definition promoteLeader :: "string \<Rightarrow> party_service \<Rightarrow> party_service" where
  "promoteLeader playerId = p_emit (RpcArg ''party.promoteleader'' playerId)"

definition kickPlayer :: "string \<Rightarrow> party_service \<Rightarrow> party_service" where
  "kickPlayer playerId = p_emit (RpcArg ''party.kickplayer'' playerId)"

section \<open>The server and its messages\<close>

text \<open>
  What the updates mean on the server, which numbers the states of the party: \<^term>\<open>S v\<close> is
  the state with version \<^term>\<open>v\<close>, \<^term>\<open>U v\<close> the update that leads to it. Users are known by
  their ids. That a user who joins is not the leader yet is what the client relies on when it
  marks the leader.
\<close>

definition on_user :: "string \<Rightarrow> (party_user \<Rightarrow> party_user) \<Rightarrow> party_user list \<Rightarrow> party_user list" where
  "on_user user f = map (\<lambda>u. if userId u = user then f u else u)"

fun meaning :: "party_update \<Rightarrow> party_state \<Rightarrow> party_state" where
  "meaning (SettingsUpdated t) s = s\<lparr>ps_settings := t\<rparr>"
| "meaning (MemberDataUpdated user data) s =
     s\<lparr>ps_members := on_user user (\<lambda>u. u\<lparr>userData := data\<rparr>) (ps_members s)\<rparr>"
| "meaning (MemberStatusUpdated us) s =
     s\<lparr>ps_members := fold (\<lambda>(user, st). on_user user (\<lambda>u. u\<lparr>partyUserStatus := st\<rparr>)) us (ps_members s)\<rparr>"
| "meaning (MemberConnected u) s = s\<lparr>ps_members := ps_members s @ [u]\<rparr>"
| "meaning (MemberDisconnected user r) s =
     s\<lparr>ps_members := filter (\<lambda>u. userId u \<noteq> user) (ps_members s)\<rparr>"
| "meaning (LeaderChanged user) s = s\<lparr>ps_leaderId := user\<rparr>"

definition state_ok :: "party_state \<Rightarrow> bool" where
  "state_ok s \<longleftrightarrow> distinct (map userId (ps_members s)) \<and> (\<forall>u\<in>set (ps_members s). \<not> isLeader u)"

fun joins_as_leader :: "party_update \<Rightarrow> party_state \<Rightarrow> bool" where
  "joins_as_leader (MemberConnected u) s \<longleftrightarrow> userId u = ps_leaderId s"
| "joins_as_leader _ s \<longleftrightarrow> False"

definition server_ok :: "(nat \<Rightarrow> party_state) \<Rightarrow> (nat \<Rightarrow> party_update) \<Rightarrow> bool" where
  "server_ok S U \<longleftrightarrow>
     (\<forall>v. ps_version (S v) = int v \<and> state_ok (S v) \<and> \<not> joins_as_leader (U (Suc v)) (S v) \<and>
        S (Suc v) = (meaning (U (Suc v)) (S v))\<lparr>ps_version := int (Suc v)\<rparr>)"

text \<open>The state of the server as the client shows it, with the leader marked.\<close>

definition view :: "party_state \<Rightarrow> party_state" where
  "view s = s\<lparr>ps_members := map (\<lambda>u. u\<lparr>isLeader := (userId u = ps_leaderId s)\<rparr>) (ps_members s)\<rparr>"

text \<open>
  The messages reach the client in any order, any number of times or never; the tasks of the
  chain and the calls of the game run in between.
\<close>

inductive party_step ::
  "(nat \<Rightarrow> party_state) \<Rightarrow> (nat \<Rightarrow> party_update) \<Rightarrow> party_service \<Rightarrow> party_service \<Rightarrow> bool" for S U where
  response: "0 < v \<Longrightarrow> party_step S U p (handlePartyStateResponse (S v) p)"
| updated: "0 < v \<Longrightarrow> party_step S U p (procedure (U v) (int v) p)"
| synced: "party_step S U p (sync_done r p)"
| start: "party_step S U p (link_start p)"
| connected: "party_step S U p (link_connected r p)"
| finish: "party_step S U p (link_finish p)"
| status: "party_step S U p (snd (updatePlayerStatus me st p))"
| status_continued: "k \<le> length (pt_results p) \<Longrightarrow> party_step S U p (snd (status_continue k st n p))"
| data: "party_step S U p (updatePlayerData data p)"
| promote: "party_step S U p (promoteLeader user p)"
| kick: "party_step S U p (kickPlayer user p)"
| joined: "party_step S U p (scene_connected p)"

definition party_run ::
  "(nat \<Rightarrow> party_state) \<Rightarrow> (nat \<Rightarrow> party_update) \<Rightarrow> party_service \<Rightarrow> party_service \<Rightarrow> bool" where
  "party_run S U = (party_step S U)\<^sup>*\<^sup>*"

section \<open>Lists of users\<close>

lemma update_first_cong:
  "(\<And>x. x \<in> set xs \<Longrightarrow> P x = Q x) \<Longrightarrow> update_first P f xs = update_first Q f xs"
  by (induction xs) auto

lemma update_first_key:
  "distinct (map userId us) \<Longrightarrow> update_first (\<lambda>u. user = userId u) f us = on_user user f us"
proof (induction us)
  case (Cons u us)
  have "on_user user f us = us" if "user = userId u"
    using Cons.prems that by (auto simp: on_user_def image_iff intro!: map_idI)
  then show ?case using Cons by (auto simp: on_user_def)
qed (simp add: on_user_def)

lemma erase_first_key:
  "distinct (map userId us) \<Longrightarrow> erase_first (\<lambda>u. user = userId u) us = filter (\<lambda>u. userId u \<noteq> user) us"
proof (induction us)
  case (Cons u us)
  have "filter (\<lambda>v. userId v \<noteq> user) us = us" if "user = userId u"
    using Cons.prems that by (auto simp: image_iff intro!: filter_True)
  then show ?case using Cons by auto
qed simp

lemma userIds_on_user:
  "(\<And>u. userId (f u) = userId u) \<Longrightarrow> map userId (on_user user f us) = map userId us"
  by (simp add: on_user_def comp_def if_distrib [of userId])

definition mark :: "string \<Rightarrow> party_user list \<Rightarrow> party_user list" where
  "mark leader = map (\<lambda>u. u\<lparr>isLeader := (userId u = leader)\<rparr>)"

lemma view_mark: "view s = s\<lparr>ps_members := mark (ps_leaderId s) (ps_members s)\<rparr>"
  by (simp add: view_def mark_def)

lemma userIds_mark [simp]: "map userId (mark l us) = map userId us"
  by (simp add: mark_def comp_def)

lemma mark_in: "(\<exists>u\<in>set (mark l us). user = userId u) \<longleftrightarrow> (\<exists>u\<in>set us. user = userId u)"
  by (simp add: mark_def)

lemma on_user_mark:
  assumes "\<And>u b. f (u\<lparr>isLeader := b\<rparr>) = (f u)\<lparr>isLeader := b\<rparr>" "\<And>u. userId (f u) = userId u"
  shows "on_user user f (mark l us) = mark l (on_user user f us)"
  using assms by (simp add: on_user_def mark_def)

lemma on_user_absent: "\<not> (\<exists>u\<in>set us. user = userId u) \<Longrightarrow> on_user user f us = us"
  by (auto simp: on_user_def intro!: map_idI)

lemma filter_mark: "filter (\<lambda>u. userId u \<noteq> user) (mark l us) = mark l (filter (\<lambda>u. userId u \<noteq> user) us)"
  by (simp add: mark_def filter_map comp_def)

lemma filter_absent: "\<not> (\<exists>u\<in>set us. user = userId u) \<Longrightarrow> filter (\<lambda>u. userId u \<noteq> user) us = us"
  by (auto intro!: filter_True)

lemma set_statuses_mark:
  "distinct (map userId us) \<Longrightarrow> set_statuses ups (mark l us) =
     mark l (fold (\<lambda>(user, st). on_user user (\<lambda>u. u\<lparr>partyUserStatus := st\<rparr>)) ups us)"
proof (induction ups arbitrary: us)
  case (Cons x ups)
  obtain user st where x: "x = (user, st)" by fastforce
  have d: "distinct (map userId (on_user user (\<lambda>u. u\<lparr>partyUserStatus := st\<rparr>) us))"
    using Cons.prems by (simp add: userIds_on_user)
  have "update_first (\<lambda>u. user = userId u) (\<lambda>u. u\<lparr>partyUserStatus := st\<rparr>) (mark l us) =
      mark l (on_user user (\<lambda>u. u\<lparr>partyUserStatus := st\<rparr>) us)"
    using Cons.prems by (simp add: update_first_key on_user_mark)
  then show ?case using Cons.IH [OF d] x by (simp add: set_statuses_def)
qed (simp add: set_statuses_def)

text \<open>Marking a leader, whoever was marked before.\<close>

lemma leader_marked:
  assumes "distinct (map userId us)"
  shows "update_first (\<lambda>u. l = userId u) (\<lambda>u. u\<lparr>isLeader := True\<rparr>)
      (update_first isLeader (\<lambda>u. u\<lparr>isLeader := False\<rparr>) (mark l' us)) = mark l us"
proof -
  have "update_first isLeader (\<lambda>u. u\<lparr>isLeader := False\<rparr>) (mark l' us) =
      update_first (\<lambda>u. l' = userId u) (\<lambda>u. u\<lparr>isLeader := False\<rparr>) (mark l' us)"
    by (rule update_first_cong) (auto simp: mark_def)
  also have "\<dots> = on_user l' (\<lambda>u. u\<lparr>isLeader := False\<rparr>) (mark l' us)"
    using assms by (simp add: update_first_key)
  also have "\<dots> = map (\<lambda>u. u\<lparr>isLeader := False\<rparr>) us"
    by (auto simp: on_user_def mark_def)
  finally have "update_first isLeader (\<lambda>u. u\<lparr>isLeader := False\<rparr>) (mark l' us) = map (\<lambda>u. u\<lparr>isLeader := False\<rparr>) us" .
  moreover have "update_first (\<lambda>u. l = userId u) (\<lambda>u. u\<lparr>isLeader := True\<rparr>) (map (\<lambda>u. u\<lparr>isLeader := False\<rparr>) us) =
      on_user l (\<lambda>u. u\<lparr>isLeader := True\<rparr>) (map (\<lambda>u. u\<lparr>isLeader := False\<rparr>) us)"
    by (rule update_first_key) (use assms in \<open>simp add: comp_def\<close>)
  moreover have "on_user l (\<lambda>u. u\<lparr>isLeader := True\<rparr>) (map (\<lambda>u. u\<lparr>isLeader := False\<rparr>) us) = mark l us"
    by (auto simp: on_user_def mark_def)
  ultimately show ?thesis by simp
qed

lemma unmarked:
  assumes "\<forall>u\<in>set us. \<not> isLeader u"
  shows "update_first isLeader f us = us"
  using assms by (induction us) auto

lemma first_leader_marked:
  assumes "distinct (map userId us)" "\<forall>u\<in>set us. \<not> isLeader u"
  shows "update_first (\<lambda>u. l = userId u) (\<lambda>u. u\<lparr>isLeader := True\<rparr>)
      (update_first isLeader (\<lambda>u. u\<lparr>isLeader := False\<rparr>) us) = mark l us"
proof -
  have "u = u\<lparr>isLeader := False\<rparr>" if "u \<in> set us" for u using assms(2) that by (cases u) auto
  then show ?thesis
    using assms by (auto simp: unmarked update_first_key on_user_def mark_def)
qed

section \<open>What the operations keep\<close>

lemma p_emit_simps [simp]:
  "pt_state (p_emit ev p) = pt_state p" "pt_finder (p_emit ev p) = pt_finder p"
  "pt_scene (p_emit ev p) = pt_scene p" "pt_links (p_emit ev p) = pt_links p"
  "pt_results (p_emit ev p) = pt_results p" "pt_phase (p_emit ev p) = pt_phase p"
  "pt_received (p_emit ev p) = pt_received p" "pt_pending (p_emit ev p) = pt_pending p"
  "pt_out (p_emit ev p) = pt_out p @ [ev]"
  by (simp_all add: p_emit_def)

lemma set_state_simps [simp]:
  "pt_state (set_state f p) = f (pt_state p)" "pt_finder (set_state f p) = pt_finder p"
  "pt_scene (set_state f p) = pt_scene p" "pt_links (set_state f p) = pt_links p"
  "pt_results (set_state f p) = pt_results p" "pt_phase (set_state f p) = pt_phase p"
  "pt_received (set_state f p) = pt_received p" "pt_pending (set_state f p) = pt_pending p"
  "pt_out (set_state f p) = pt_out p"
  by (simp_all add: set_state_def)

lemma map_members_simps [simp]:
  "pt_state (map_members f p) = (pt_state p)\<lparr>ps_members := f (ps_members (pt_state p))\<rparr>"
  "pt_finder (map_members f p) = pt_finder p"
  "pt_scene (map_members f p) = pt_scene p" "pt_links (map_members f p) = pt_links p"
  "pt_results (map_members f p) = pt_results p" "pt_phase (map_members f p) = pt_phase p"
  "pt_received (map_members f p) = pt_received p" "pt_pending (map_members f p) = pt_pending p"
  "pt_out (map_members f p) = pt_out p"
  by (simp_all add: map_members_def)

lemma announce_simps [simp]:
  "pt_state (announce_members p) = pt_state p" "pt_state (announce_settings p) = pt_state p"
  "pt_pending (announce_members p) = pt_pending p" "pt_pending (announce_settings p) = pt_pending p"
  by (simp_all add: announce_members_def announce_settings_def)

lemma updateGameFinder_state [simp]:
  "pt_state (updateGameFinder p) = pt_state p" "pt_pending (updateGameFinder p) = pt_pending p"
  by (simp_all add: updateGameFinder_def Let_def)

lemma syncPartyState_state [simp]:
  "pt_state (syncPartyState p) = pt_state p" "pt_pending (syncPartyState p)"
  by (simp_all add: syncPartyState_def)

lemma check_accepts:
  assumes "pt_state p = view s" "ps_version s = int v" "0 < v"
  shows "checkVersionNumber (int (Suc v)) p = (True, set_state (\<lambda>s. s\<lparr>ps_version := int (Suc v)\<rparr>) p)"
  using assms by (simp add: checkVersionNumber_def view_def)

lemma check_rejects:
  assumes "\<not> (ps_version (pt_state p) > 0 \<and> n = ps_version (pt_state p) + 1)"
  shows "checkVersionNumber n p = (False, syncPartyState p)"
  using assms by (auto simp: checkVersionNumber_def)

lemma procedure_rejects:
  assumes "\<not> (ps_version (pt_state p) > 0 \<and> n = ps_version (pt_state p) + 1)"
  shows "procedure u n p = syncPartyState p"
  using check_rejects [OF assms]
  by (cases u) (simp_all add: handleSettingsUpdate_def handleUserDataUpdate_def
      handleMemberStatusUpdate_def handleMemberConnected_def handleMemberDisconnected_def
      handleLeaderChanged_def)

text \<open>The next update takes the shown state to the next state of the server.\<close>

lemma procedure_next:
  assumes p: "pt_state p = view s" and s: "ps_version s = int v" "0 < v" "state_ok s"
    and u: "\<not> joins_as_leader u s" "\<And>m. u = MemberConnected m \<Longrightarrow> \<not> isLeader m"
  shows "pt_state (procedure u (int (Suc v)) p) = view ((meaning u s)\<lparr>ps_version := int (Suc v)\<rparr>)"
proof -
  note c = check_accepts [OF p s(1,2)]
  have d: "distinct (map userId (ps_members s))" using s(3) by (simp add: state_ok_def)
  note eq = p c [unfolded of_nat_Suc] view_mark d update_first_key erase_first_key mark_in
  show ?thesis
  proof (cases u)
    case (SettingsUpdated t)
    then show ?thesis by (simp add: eq handleSettingsUpdate_def)
  next
    case (MemberDataUpdated user data)
    then show ?thesis
      by (auto simp: eq handleUserDataUpdate_def on_user_mark on_user_absent)
  next
    case (MemberStatusUpdated ups)
    then show ?thesis by (simp add: eq handleMemberStatusUpdate_def set_statuses_mark)
  next
    case (MemberConnected m)
    have "m = m\<lparr>isLeader := (userId m = ps_leaderId s)\<rparr>"
      using u MemberConnected by (cases m) auto
    then show ?thesis using MemberConnected
      by (simp add: eq handleMemberConnected_def) (simp add: mark_def)
  next
    case (MemberDisconnected user r)
    then show ?thesis
      by (auto simp: eq handleMemberDisconnected_def filter_mark filter_absent)
  next
    case (LeaderChanged l)
    then show ?thesis
      by (simp add: eq handleLeaderChanged_def updateLeader_def leader_marked)
  qed
qed

lemma server_okD:
  assumes "server_ok S U"
  shows "ps_version (S v) = int v" "state_ok (S v)" "\<not> joins_as_leader (U (Suc v)) (S v)"
    "S (Suc v) = (meaning (U (Suc v)) (S v))\<lparr>ps_version := int (Suc v)\<rparr>"
  using assms unfolding server_ok_def by blast+

lemma server_connects_unmarked:
  assumes "server_ok S U" "U (Suc v) = MemberConnected m"
  shows "\<not> isLeader m"
  using server_okD(2) [OF assms(1), of "Suc v"] server_okD(4) [OF assms(1), of v] assms(2)
  by (simp add: state_ok_def)

lemma procedure_replicates:
  assumes "server_ok S U" "pt_state p = view (S v)" "0 < v"
  shows "pt_state (procedure (U (Suc v)) (int (Suc v)) p) = view (S (Suc v))"
  using procedure_next [OF assms(2) server_okD(1) [OF assms(1)] assms(3) server_okD(2,3) [OF assms(1)]
      server_connects_unmarked [OF assms(1)]] server_okD(4) [OF assms(1), of v]
  by simp

lemma response_state:
  assumes "state_ok s"
  shows "pt_state (handlePartyStateResponse s p) = view s"
  using assms first_leader_marked [of "ps_members s" "ps_leaderId s"]
  by (simp add: handlePartyStateResponse_def Let_def updateLeader_def view_mark state_ok_def)

lemma other_steps_state [simp]:
  "pt_state (sync_done r p) = pt_state p" "pt_state (link_start p) = pt_state p"
  "pt_state (link_connected t p) = pt_state p" "pt_state (link_finish p) = pt_state p"
  "pt_state (snd (updatePlayerStatus me st p)) = pt_state p"
  "pt_state (snd (status_continue k st n p)) = pt_state p"
  "pt_state (updatePlayerData data p) = pt_state p" "pt_state (promoteLeader user p) = pt_state p"
  "pt_state (kickPlayer user p) = pt_state p" "pt_state (scene_connected p) = pt_state p"
  by (auto simp: sync_done_def link_start_def link_connected_def link_finish_def leave_scene_def
      updatePlayerStatus_def status_continue_def updatePlayerData_def promoteLeader_def
      kickPlayer_def scene_connected_def Let_def split: task.splits option.splits link_phase.splits)

text \<open>The state of the client: nothing received yet, or the view of some state of the server.\<close>

definition replica :: "(nat \<Rightarrow> party_state) \<Rightarrow> party_service \<Rightarrow> bool" where
  "replica S p \<longleftrightarrow> pt_state p = empty_party \<or> (\<exists>v>0. pt_state p = view (S v))"

lemma replica_step:
  assumes ok: "server_ok S U" and r: "replica S p" and s: "party_step S U p p'"
  shows "replica S p'"
  using s
proof cases
  case (response v)
  then show ?thesis using response_state [OF server_okD(2) [OF ok]] by (auto simp: replica_def)
next
  case (updated v)
  show ?thesis
  proof (cases "ps_version (pt_state p) > 0 \<and> int v = ps_version (pt_state p) + 1")
    case False
    then show ?thesis using r procedure_rejects [OF False] updated by (simp add: replica_def)
  next
    case True
    then obtain w where w: "0 < w" "pt_state p = view (S w)"
      using r by (auto simp: replica_def empty_party_def)
    then have "int v = int w + 1" using True server_okD(1) [OF ok] by (simp add: view_def)
    then have "v = Suc w" by linarith
    then show ?thesis
      using procedure_replicates [OF ok w(2,1)] updated(1) by (auto simp: replica_def)
  qed
qed (use r in \<open>simp_all add: replica_def\<close>)

lemma replica_run:
  assumes "server_ok S U" "party_run S U p p'" "replica S p"
  shows "replica S p'"
  using assms(2,3) unfolding party_run_def
  by (induction rule: rtranclp_induct) (auto intro: replica_step [OF assms(1)])

section \<open>The chain follows the settings\<close>

fun is_finder :: "party_out \<Rightarrow> bool" where
  "is_finder (FinderConnect n) = True"
| "is_finder (FinderDisconnect n) = True"
| "is_finder _ = False"

definition last_finder :: "party_service \<Rightarrow> party_out option" where
  "last_finder p = (case filter is_finder (rev (pt_out p)) of [] \<Rightarrow> None | ev # _ \<Rightarrow> Some ev)"

lemma last_finder_emit [simp]:
  "last_finder (p_emit ev p) = (if is_finder ev then Some ev else last_finder p)"
  by (simp add: last_finder_def)

lemma last_finder_same: "pt_out p = pt_out p' \<Longrightarrow> last_finder p = last_finder p'"
  by (simp add: last_finder_def)

text \<open>
  Only the last link may still have its token, and it has it as long as its name is the one
  in use; once it has connected, that connection is the last thing the game finders were
  asked for, and if it failed the player has left.
\<close>

definition asked :: "party_service \<Rightarrow> bool" where
  "asked p \<longleftrightarrow> last_finder p = Some (FinderConnect (pt_finder p))"

definition link_ok :: "party_service \<Rightarrow> bool" where
  "link_ok p \<longleftrightarrow>
     (length (pt_results p) = length (pt_links p) \<longrightarrow>
        (case last (pt_results p) of Failed e \<Rightarrow> \<not> pt_scene p | _ \<Rightarrow> asked p)) \<and>
     (Suc (length (pt_results p)) = length (pt_links p) \<longrightarrow>
        (case pt_phase p of
           NotStarted \<Rightarrow> True
         | ConnectingTo \<Rightarrow> asked p
         | FirstDone t \<Rightarrow> (case t of Failed e \<Rightarrow> True | _ \<Rightarrow> asked p)))"

definition chain_ok :: "party_service \<Rightarrow> bool" where
  "chain_ok p \<longleftrightarrow>
     length (pt_results p) \<le> length (pt_links p) \<and>
     (pt_phase p \<noteq> NotStarted \<longrightarrow> length (pt_results p) < length (pt_links p)) \<and>
     (\<forall>l\<in>set (butlast (pt_links p)). ln_cancelled l) \<and>
     (pt_links p \<noteq> [] \<longrightarrow> ln_cancelled (last (pt_links p)) = (pt_finder p = [])) \<and>
     (pt_finder p \<noteq> [] \<longrightarrow>
        pt_links p \<noteq> [] \<and> ln_name (last (pt_links p)) = pt_finder p \<and> link_ok p)"

lemma chain_ok_frame:
  assumes "pt_links p' = pt_links p" "pt_results p' = pt_results p" "pt_phase p' = pt_phase p"
    "pt_finder p' = pt_finder p" "pt_scene p' = pt_scene p" "last_finder p' = last_finder p"
  shows "chain_ok p' = chain_ok p"
proof -
  have "asked p' = asked p" using assms(4,6) by (simp add: asked_def)
  then show ?thesis unfolding chain_ok_def link_ok_def assms by (simp only:)
qed

lemma chain_ok_ctor: "chain_ok PartyService"
  by (simp add: chain_ok_def PartyService_def)

lemma chain_ok_updateGameFinder:
  assumes "chain_ok p"
  shows "chain_ok (updateGameFinder p)"
proof (cases "pt_finder p = gameFinderName (ps_settings (pt_state p))")
  case True
  then show ?thesis using assms by (simp add: updateGameFinder_def)
next
  case False
  have c: "\<forall>l\<in>set (cancel_last (pt_links p)). ln_cancelled l"
    using assms by (auto simp: cancel_last_def chain_ok_def)
  have l: "length (cancel_last (pt_links p)) = length (pt_links p)" by (simp add: cancel_last_def)
  have ne: "cancel_last (pt_links p) = [] \<longleftrightarrow> pt_links p = []" by (simp add: cancel_last_def)
  have r: "length (pt_results p) \<le> length (pt_links p)"
      "pt_phase p \<noteq> NotStarted \<Longrightarrow> length (pt_results p) < length (pt_links p)"
    using assms by (simp_all add: chain_ok_def)
  show ?thesis
  proof (cases "gameFinderName (ps_settings (pt_state p)) = []")
    case True
    have "ln_cancelled (last (cancel_last (pt_links p)))" if "pt_links p \<noteq> []"
      using c ne that last_in_set by blast
    moreover have "\<forall>l\<in>set (butlast (cancel_last (pt_links p))). ln_cancelled l"
      using c in_set_butlastD by fast
    ultimately show ?thesis
      using False True r l ne by (simp add: updateGameFinder_def Let_def chain_ok_def)
  next
    case False
    then show ?thesis
      using \<open>pt_finder p \<noteq> _\<close> r l c
      by (auto simp: updateGameFinder_def Let_def chain_ok_def link_ok_def split: link_phase.splits)
  qed
qed

text \<open>The next link, if it has its token, is the last one, with the name in use.\<close>

lemma next_live_link:
  assumes "chain_ok p" "next_link p = Some l" "\<not> ln_cancelled l"
  shows "Suc (length (pt_results p)) = length (pt_links p)" "l = last (pt_links p)"
    "pt_finder p \<noteq> []" "ln_name l = pt_finder p"
proof -
  have n: "length (pt_results p) < length (pt_links p)" "l = pt_links p ! length (pt_results p)"
    using assms(2) by (auto simp: next_link_def split: if_splits)
  show s: "Suc (length (pt_results p)) = length (pt_links p)"
  proof (rule ccontr)
    assume "Suc (length (pt_results p)) \<noteq> length (pt_links p)"
    then have i: "length (pt_results p) < length (butlast (pt_links p))" using n(1) by simp
    then have "butlast (pt_links p) ! length (pt_results p) = l" using n(2) by (simp add: nth_butlast)
    then have "l \<in> set (butlast (pt_links p))" using i nth_mem by metis
    then show False using assms(1,3) by (simp add: chain_ok_def)
  qed
  have ne: "pt_links p \<noteq> []" using n(1) by auto
  show last: "l = last (pt_links p)"
    using n(2) s ne by (simp add: last_conv_nth flip: s)
  show fnd: "pt_finder p \<noteq> []" using assms(1,3) ne last by (auto simp: chain_ok_def)
  show "ln_name l = pt_finder p" using assms(1) fnd last by (simp add: chain_ok_def)
qed

lemma next_link_bound: "next_link p = Some l \<Longrightarrow> length (pt_results p) < length (pt_links p)"
  by (auto simp: next_link_def split: if_splits)

text \<open>A canceled link that is the next one and the last one has no successor in use.\<close>

lemma next_dead_link:
  assumes "chain_ok p" "next_link p = Some l" "ln_cancelled l" "pt_finder p \<noteq> []"
  shows "Suc (length (pt_results p)) < length (pt_links p)"
proof (rule ccontr)
  assume a: "\<not> ?thesis"
  have n: "length (pt_results p) < length (pt_links p)" "l = pt_links p ! length (pt_results p)"
    using assms(2) by (auto simp: next_link_def split: if_splits)
  then have "length (pt_results p) = length (pt_links p) - 1" using a by simp
  moreover have "pt_links p \<noteq> []" using n(1) by auto
  ultimately have "l = last (pt_links p)" using n(2) by (simp add: last_conv_nth)
  then show False using assms(1,3,4) \<open>pt_links p \<noteq> []\<close> by (auto simp: chain_ok_def)
qed

lemma chain_ok_link_start:
  assumes "chain_ok p"
  shows "chain_ok (link_start p)"
proof (cases "next_link p")
  case (Some l)
  note b = next_link_bound [OF Some]
  show ?thesis
  proof (cases "pt_phase p = NotStarted")
    case True
    show ?thesis
    proof (cases "ln_cancelled l")
      case dead: True
      then show ?thesis
        using assms b True Some next_dead_link [OF assms Some dead]
        by (auto simp: link_start_def chain_ok_def link_ok_def Let_def)
    next
      case False
      note n = next_live_link [OF assms Some False]
      show ?thesis
        using assms b True Some False n
        by (auto simp: link_start_def chain_ok_def link_ok_def asked_def Let_def split: task.splits)
    qed
  qed (use assms Some in \<open>simp add: link_start_def\<close>)
qed (use assms in \<open>simp add: link_start_def\<close>)

lemma chain_ok_link_connected:
  assumes "chain_ok p"
  shows "chain_ok (link_connected t p)"
  using assms
  by (auto simp: link_connected_def chain_ok_def link_ok_def asked_def last_finder_def split: task.splits)

lemma chain_ok_link_finish:
  assumes "chain_ok p"
  shows "chain_ok (link_finish p)"
proof (cases "next_link p")
  case (Some l)
  note b = next_link_bound [OF Some]
  show ?thesis
  proof (cases "\<exists>t. pt_phase p = FirstDone t")
    case True
    then obtain t where t: "pt_phase p = FirstDone t" by blast
    show ?thesis
    proof (cases "ln_cancelled l")
      case dead: True
      show ?thesis
        using assms b t Some dead next_dead_link [OF assms Some dead]
        by (auto simp: link_finish_def chain_ok_def link_ok_def)
    next
      case False
      note n = next_live_link [OF assms Some False]
      have "asked p" if "\<nexists>e. t = Failed e"
        using assms n t that by (cases t) (auto simp: chain_ok_def link_ok_def)
      then show ?thesis
        using assms b t Some False n
        by (cases t) (auto simp: link_finish_def leave_scene_def chain_ok_def link_ok_def asked_def last_finder_def)
    qed
  qed (use assms Some in \<open>auto simp: link_finish_def split: link_phase.splits\<close>)
qed (use assms in \<open>simp add: link_finish_def\<close>)

lemma chain_ok_emit [simp]: "\<not> is_finder ev \<Longrightarrow> chain_ok (p_emit ev p) = chain_ok p"
  by (rule chain_ok_frame) simp_all

lemma chain_ok_set_state [simp]: "chain_ok (set_state f p) = chain_ok p"
  by (rule chain_ok_frame) (simp_all add: last_finder_same [of "set_state f p" p])

lemma chain_ok_map_members [simp]: "chain_ok (map_members f p) = chain_ok p"
  by (simp add: map_members_def)

lemma chain_ok_announce [simp]:
  "chain_ok (announce_members p) = chain_ok p" "chain_ok (announce_settings p) = chain_ok p"
  by (simp_all add: announce_members_def announce_settings_def)

lemma chain_ok_flags [simp]:
  "chain_ok (p\<lparr>pt_received := a\<rparr>) = chain_ok p" "chain_ok (p\<lparr>pt_pending := b\<rparr>) = chain_ok p"
  by (rule chain_ok_frame; simp add: last_finder_def)+

lemma chain_ok_sync [simp]: "chain_ok (syncPartyState p) = chain_ok p"
  by (simp add: syncPartyState_def)

lemma chain_ok_check: "checkVersionNumber n p = (b, p1) \<Longrightarrow> chain_ok p1 = chain_ok p"
  by (auto simp: checkVersionNumber_def split: if_splits)

text \<open>The name in use is that of the settings.\<close>

definition party_inv :: "party_service \<Rightarrow> bool" where
  "party_inv p \<longleftrightarrow> chain_ok p \<and> pt_finder p = gameFinderName (ps_settings (pt_state p))"

lemma party_inv_ctor: "party_inv PartyService"
  by (simp add: party_inv_def chain_ok_ctor) (simp add: PartyService_def empty_party_def)

lemma updateGameFinder_name: "pt_finder (updateGameFinder p) = gameFinderName (ps_settings (pt_state p))"
  by (simp add: updateGameFinder_def Let_def)

lemma announce_finder [simp]:
  "pt_finder (announce_members p) = pt_finder p" "pt_finder (announce_settings p) = pt_finder p"
  by (simp_all add: announce_members_def announce_settings_def)

lemma party_inv_frame:
  "chain_ok p' = chain_ok p \<Longrightarrow> pt_finder p' = pt_finder p \<Longrightarrow>
   ps_settings (pt_state p') = ps_settings (pt_state p) \<Longrightarrow> party_inv p' = party_inv p"
  by (simp add: party_inv_def)

lemma check_keeps:
  assumes "checkVersionNumber n p = (b, p1)" "party_inv p"
  shows "party_inv p1"
  using assms chain_ok_check [OF assms(1)]
  by (auto simp: checkVersionNumber_def party_inv_def syncPartyState_def split: if_splits)

lemma party_inv_procedure:
  assumes "party_inv p"
  shows "party_inv (procedure u n p)"
proof -
  obtain b p1 where c: "checkVersionNumber n p = (b, p1)" by fastforce
  have p1: "party_inv p1" "chain_ok p1" "pt_finder p1 = gameFinderName (ps_settings (pt_state p1))"
    using check_keeps [OF c assms] by (simp_all add: party_inv_def)
  show ?thesis
  proof (cases u)
    case (SettingsUpdated t)
    then show ?thesis using c p1
      by (simp add: handleSettingsUpdate_def party_inv_def chain_ok_updateGameFinder updateGameFinder_name split: bool.split)
  qed (use c p1 in \<open>simp_all add: handleUserDataUpdate_def handleMemberStatusUpdate_def
      handleMemberConnected_def handleMemberDisconnected_def handleLeaderChanged_def updateLeader_def
      party_inv_def split: bool.split\<close>)
qed

lemma party_inv_response:
  assumes "party_inv p"
  shows "party_inv (handlePartyStateResponse st p)"
  using assms
  by (simp add: handlePartyStateResponse_def Let_def updateLeader_def party_inv_def
      chain_ok_updateGameFinder updateGameFinder_name)

lemma link_steps_finder:
  "pt_finder (link_start p) = pt_finder p" "pt_finder (link_connected t p) = pt_finder p"
  "pt_finder (link_finish p) = pt_finder p"
  by (auto simp: link_start_def link_connected_def link_finish_def leave_scene_def Let_def
      split: task.splits option.splits link_phase.splits)

lemma party_inv_step:
  assumes "party_inv p" "party_step S U p p'"
  shows "party_inv p'"
  using assms(2)
proof cases
  case (response v)
  then show ?thesis using party_inv_response [OF assms(1)] by simp
next
  case (updated v)
  then show ?thesis using party_inv_procedure [OF assms(1)] by simp
next
  case start
  then show ?thesis
    using assms(1) chain_ok_link_start link_steps_finder by (simp add: party_inv_def)
next
  case (connected r)
  then show ?thesis
    using assms(1) chain_ok_link_connected link_steps_finder by (simp add: party_inv_def)
next
  case finish
  then show ?thesis
    using assms(1) chain_ok_link_finish link_steps_finder by (simp add: party_inv_def)
qed (use assms(1) in \<open>auto simp: party_inv_def sync_done_def updatePlayerStatus_def
    status_continue_def updatePlayerData_def promoteLeader_def kickPlayer_def scene_connected_def Let_def
    split: task.splits\<close>)

lemma party_inv_run:
  assumes "party_run S U p p'" "party_inv p"
  shows "party_inv p'"
  using assms unfolding party_run_def
  by (induction rule: rtranclp_induct) (auto intro: party_inv_step)

section \<open>Properties\<close>

text \<open>
  Property C25. The client's copy of the party refines the server's: whatever updates and
  state responses arrive, in any order, repeatedly or not at all, and whatever calls and
  tasks run in between, the state shown is either the empty one, before anything was
  received, or exactly one of the numbered states of the server, with its leader (if a
  member) and nobody else marked as the leader.
\<close>

theorem party_replicates:
  assumes "server_ok S U" "party_run S U PartyService p"
  shows "pt_state p = empty_party \<or>
    (\<exists>v>0. ps_version (pt_state p) = int v \<and> pt_state p = view (S v))"
proof -
  have "replica S PartyService" by (simp add: replica_def PartyService_def)
  from replica_run [OF assms this] show ?thesis
    using server_okD(1) [OF assms(1)] by (auto simp: replica_def view_def)
qed

lemma procedure_accepts_silently:
  assumes "0 < ps_version (pt_state p)" "n = ps_version (pt_state p) + 1"
  shows "filter (\<lambda>ev. ev = Rpc ''party.getpartystate'') (pt_out (procedure u n p)) =
      filter (\<lambda>ev. ev = Rpc ''party.getpartystate'') (pt_out p) \<and>
    pt_pending (procedure u n p) = pt_pending p"
proof -
  have "checkVersionNumber n p = (True, set_state (\<lambda>s. s\<lparr>ps_version := n\<rparr>) p)"
    using assms by (simp add: checkVersionNumber_def)
  then show ?thesis
    by (cases u) (simp_all add: handleSettingsUpdate_def handleUserDataUpdate_def
        handleMemberStatusUpdate_def handleMemberConnected_def handleMemberDisconnected_def
        handleLeaderChanged_def updateLeader_def updateGameFinder_def announce_members_def
        announce_settings_def Let_def)
qed

text \<open>
  Property C26. A response followed by the next updates in order brings the client to the newest
  state of the server, whatever it showed before, and no further request for the whole state
  is sent on the way.
\<close>

theorem party_catches_up:
  fixes p :: party_service and k :: nat
  assumes "server_ok S U" "0 < v"
  defines "p1 \<equiv> handlePartyStateResponse (S v) p"
  defines "p2 \<equiv> fold (\<lambda>i. procedure (U i) (int i)) [Suc v..<Suc (v + k)] p1"
  shows "pt_state p2 = view (S (v + k)) \<and> \<not> pt_pending p2 \<and>
    filter (\<lambda>ev. ev = Rpc ''party.getpartystate'') (pt_out p2) =
    filter (\<lambda>ev. ev = Rpc ''party.getpartystate'') (pt_out p)"
  unfolding p2_def
proof (induction k)
  case 0
  have "filter (\<lambda>ev. ev = Rpc ''party.getpartystate'') (pt_out p1) =
      filter (\<lambda>ev. ev = Rpc ''party.getpartystate'') (pt_out p)" "\<not> pt_pending p1"
    by (simp_all add: p1_def handlePartyStateResponse_def Let_def announce_members_def
        announce_settings_def updateGameFinder_def updateLeader_def)
  then show ?case using response_state [OF server_okD(2) [OF assms(1)]] by (simp add: p1_def)
next
  case (Suc k)
  define q where "q = fold (\<lambda>i. procedure (U i) (int i)) [Suc v..<Suc (v + k)] p1"
  note IH = Suc.IH [folded q_def]
  have st: "pt_state q = view (S (v + k))" using IH by blast
  have ver: "0 < ps_version (pt_state q)" "int (Suc (v + k)) = ps_version (pt_state q) + 1"
    using st server_okD(1) [OF assms(1)] assms(2) by (simp_all add: view_def)
  have pos: "0 < v + k" using assms(2) by simp
  have "fold (\<lambda>i. procedure (U i) (int i)) [Suc v..<Suc (v + Suc k)] p1 =
      procedure (U (Suc (v + k))) (int (Suc (v + k))) q"
    unfolding q_def add_Suc_right by (simp del: of_nat_Suc add: upt_Suc_append)
  then show ?case
    using procedure_accepts_silently [OF ver, of "U (Suc (v + k))"] IH
      procedure_replicates [OF assms(1) st pos] by (simp only: add_Suc_right simp_thms)
qed

text \<open>
  A missing, repeated or late update changes nothing that is shown and makes the client ask
  for the whole state once; it asks again only after the request has failed or the state
  has come.
\<close>

theorem gap_resyncs:
  assumes "\<not> (ps_version (pt_state p) > 0 \<and> n = ps_version (pt_state p) + 1)"
  shows "pt_state (procedure u n p) = pt_state p \<and> pt_pending (procedure u n p) \<and>
    pt_out (procedure u n p) = pt_out p @ (if pt_pending p then [] else [Rpc ''party.getpartystate'']) \<and>
    \<not> pt_pending (sync_done (Failed e) (procedure u n p)) \<and>
    \<not> pt_pending (handlePartyStateResponse st (procedure u n p))"
  by (simp add: procedure_rejects [OF assms] sync_done_def handlePartyStateResponse_def Let_def)
    (simp add: syncPartyState_def)

text \<open>
  An update whose contents cannot be read has already advanced the version when
  the exception leaves the handler. The update is lost for good: the following ones are
  accepted as if nothing had happened, and no request for the whole state is made.
\<close>

theorem unreadable_update_lost:
  assumes "server_ok S U" "0 < v" "pt_state p = view (S v)"
    and "U (Suc v) = SettingsUpdated t" "t \<noteq> ps_settings (S v)" "U (Suc (Suc v)) = LeaderChanged l"
  defines "p' \<equiv> procedure (U (Suc (Suc v))) (int (Suc (Suc v))) (unreadable_update (int (Suc v)) p)"
  shows "ps_version (pt_state p') = int (Suc (Suc v)) \<and>
    ps_settings (pt_state p') = ps_settings (S v) \<and>
    pt_state p' \<noteq> view (S (Suc (Suc v))) \<and> pt_pending p' = pt_pending p"
proof -
  have ver: "ps_version (pt_state p) = int v" "ps_settings (pt_state p) = ps_settings (S v)"
    using assms(3) server_okD(1) [OF assms(1)] by (simp_all add: view_def)
  have S: "ps_settings (S (Suc (Suc v))) = t"
    using server_okD(4) [OF assms(1), of v] server_okD(4) [OF assms(1), of "Suc v"] assms(4,6) by simp
  have u: "unreadable_update (int (Suc v)) p = set_state (\<lambda>s. s\<lparr>ps_version := int (Suc v)\<rparr>) p"
    using assms(2) ver(1) by (simp add: unreadable_update_def checkVersionNumber_def)
  have p': "ps_version (pt_state p') = int (Suc (Suc v))" "ps_settings (pt_state p') = ps_settings (S v)"
      "pt_pending p' = pt_pending p"
    unfolding p'_def u using assms(6) ver(2)
    by (simp_all add: handleLeaderChanged_def checkVersionNumber_def updateLeader_def)
  moreover have "ps_settings (view (S (Suc (Suc v)))) = t" using S by (simp add: view_def)
  ultimately show ?thesis using assms(5) by auto
qed

text \<open>
  Property C27. The chain of game finder connections follows the settings: in every reachable
  state the name in use is that of the settings, and when all links have ended, either the
  connection to the named game finder is the last thing that was asked of the game finders,
  or it failed and the player was disconnected from the party. A ready status that waited
  for the whole chain is sent only in the first case, with the version of the settings the
  player has seen.
\<close>

theorem game_finder_followed:
  assumes "party_run S U PartyService p"
    and "length (pt_results p) = length (pt_links p)" "gameFinderName (ps_settings (pt_state p)) \<noteq> []"
  shows "pt_finder p = gameFinderName (ps_settings (pt_state p)) \<and>
    (last_finder p = Some (FinderConnect (gameFinderName (ps_settings (pt_state p)))) \<or>
     \<not> pt_scene p \<and> (\<exists>e. fst (status_continue (length (pt_links p)) st n p) = Refused e)) \<and>
    (fst (status_continue (length (pt_links p)) st n p) = Sent \<longrightarrow>
       last_finder p = Some (FinderConnect (gameFinderName (ps_settings (pt_state p)))) \<and>
       n = settingsVersionNumber (ps_settings (pt_state p)))"
proof -
  have inv: "chain_ok p" "pt_finder p = gameFinderName (ps_settings (pt_state p))"
    using party_inv_run [OF assms(1) party_inv_ctor] by (simp_all add: party_inv_def)
  have l: "pt_links p \<noteq> []" "case last (pt_results p) of Failed e \<Rightarrow> \<not> pt_scene p | _ \<Rightarrow> asked p"
    using inv assms(2,3) by (auto simp: chain_ok_def link_ok_def)
  have "pt_results p \<noteq> []" using l(1) assms(2) by auto
  then have "prior (length (pt_links p)) p = last (pt_results p)"
    using l(1) by (simp add: prior_def last_conv_nth flip: assms(2))
  then show ?thesis
    using inv(2) l(2)
    by (cases "last (pt_results p)") (auto simp: status_continue_def asked_def)
qed

text \<open>
  The failure of a connection that was given up hits its successor. When the
  settings name another game finder while a connection is being made, the failure of the old
  one passes through its canceled link; the new link gives up without connecting and
  disconnects the player from the party.
\<close>

theorem abandoned_failure_leaves_party:
  fixes e :: storm_exn
  assumes "chain_ok p" "pt_phase p = ConnectingTo" "pt_finder p \<noteq> []"
    and "Suc (length (pt_results p)) = length (pt_links p)" "pt_scene p"
    and "gameFinderName (ps_settings (pt_state p)) \<noteq> pt_finder p" "gameFinderName (ps_settings (pt_state p)) \<noteq> []"
  defines "p1 \<equiv> updateGameFinder p"
  defines "p2 \<equiv> link_finish (link_start (link_finish (link_connected (Failed e) p1)))"
  shows "pt_out p2 = pt_out p @ [FinderDisconnect (pt_finder p), SceneDisconnect] \<and> \<not> pt_scene p2 \<and>
    length (pt_results p2) = length (pt_links p2) \<and> last (pt_results p2) = Failed e"
proof -
  let ?name = "gameFinderName (ps_settings (pt_state p))"
  have ne: "pt_links p \<noteq> []" using assms(4) by auto
  have k: "length (pt_results p) = length (butlast (pt_links p))" using assms(4) by simp
  have l1: "pt_links p1 = cancel_last (pt_links p) @ [\<lparr>ln_name = ?name, ln_cancelled = False\<rparr>]"
      "pt_results p1 = pt_results p" "pt_phase p1 = ConnectingTo" "pt_scene p1"
      "pt_out p1 = pt_out p @ [FinderDisconnect (pt_finder p)]"
    using assms(2,5,6,7) by (simp_all add: p1_def updateGameFinder_def Let_def)
  have n1: "pt_links p1 ! length (pt_results p) = (last (pt_links p))\<lparr>ln_cancelled := True\<rparr>"
    using ne k by (simp add: l1(1) cancel_last_def nth_append)
  have len: "length (pt_links p1) = Suc (Suc (length (pt_results p)))"
    using assms(4) by (simp add: l1(1) cancel_last_def)
  have n2: "pt_links p1 ! Suc (length (pt_results p)) = \<lparr>ln_name = ?name, ln_cancelled = False\<rparr>"
    using ne k by (simp add: l1(1) cancel_last_def nth_append)
  define q where "q = link_finish (link_connected (Failed e) p1)"
  have q: "pt_links q = pt_links p1" "pt_results q = pt_results p @ [Failed e]" "pt_phase q = NotStarted"
      "pt_scene q" "pt_out q = pt_out p1"
    using l1 n1 len
    by (simp_all add: q_def link_connected_def link_finish_def next_link_def canceled_after_def)
  have nq: "next_link q = Some \<lparr>ln_name = ?name, ln_cancelled = False\<rparr>"
    using q len n2 by (simp add: next_link_def)
  have pr: "prior (length (pt_results q)) q = Failed e" using q by (simp add: prior_def)
  have s: "link_start q = q\<lparr>pt_phase := FirstDone (Failed e)\<rparr>"
    using nq pr q(3) by (simp add: link_start_def)
  have "next_link (link_start q) = next_link q" by (simp add: s next_link_def)
  moreover have "p2 = link_finish (link_start q)" by (simp only: p2_def q_def)
  ultimately have "p2 = (leave_scene (link_start q))\<lparr>pt_results := pt_results q @ [Failed e], pt_phase := NotStarted\<rparr>"
    using nq by (simp add: link_finish_def s leave_scene_def)
  then show ?thesis
    using q l1(5) len by (simp add: s leave_scene_def)
qed

section \<open>Witnesses\<close>

text \<open>A server on which a party of one changes its game finder with the second update.\<close>

definition demo_settings :: "string \<Rightarrow> int \<Rightarrow> party_settings" where
  "demo_settings finder n = \<lparr>gameFinderName = finder, customData = ''{}'', settingsVersionNumber = n\<rparr>"

definition demo_S :: "nat \<Rightarrow> party_state" where
  "demo_S v = \<lparr>ps_settings = (if v < 2 then demo_settings ''a'' 1 else demo_settings ''b'' 2), ps_leaderId = ''u'',
     ps_members = [\<lparr>userId = ''u'', partyUserStatus = NotReady, userData = [], isLeader = False\<rparr>],
     ps_version = int v\<rparr>"

definition demo_U :: "nat \<Rightarrow> party_update" where
  "demo_U v = (if v = 2 then SettingsUpdated (demo_settings ''b'' 2) else LeaderChanged ''u'')"

lemma demo_party_server: "server_ok demo_S demo_U"
  by (auto simp: server_ok_def demo_S_def demo_U_def state_ok_def demo_settings_def)

lemma party_run_step: "party_run S U p p1 \<Longrightarrow> party_step S U p1 p2 \<Longrightarrow> party_run S U p p2"
  unfolding party_run_def by (rule rtranclp.rtrancl_into_rtrancl)

lemma party_run_refl: "party_run S U p p"
  by (simp add: party_run_def)

lemmas party_eval = handlePartyStateResponse_def updateLeader_def updateGameFinder_def cancel_last_def
  announce_members_def announce_settings_def link_start_def link_connected_def link_finish_def
  next_link_def prior_def PartyService_def empty_party_def demo_S_def demo_settings_def Let_def

definition demo_joined :: party_service where
  "demo_joined = handlePartyStateResponse (demo_S 1) PartyService"

lemma demo_joined_run: "party_run demo_S demo_U PartyService demo_joined"
  unfolding demo_joined_def by (rule party_run_step [OF party_run_refl party_step.response]) simp

theorem party_replicates_witness:
  "\<exists>v. ps_version (pt_state demo_joined) = int v \<and> pt_state demo_joined = view (demo_S v)"
proof -
  have "pt_state demo_joined \<noteq> empty_party"
    by (simp add: demo_joined_def party_eval)
  then show ?thesis using party_replicates [OF demo_party_server demo_joined_run] by blast
qed

theorem party_catches_up_witness:
  "pt_state (procedure (demo_U 2) 2 (handlePartyStateResponse (demo_S 1) PartyService)) = view (demo_S 2)"
  using party_catches_up [OF demo_party_server, of 1 1 PartyService] by (simp add: numeral_2_eq_2)

theorem gap_resyncs_witness:
  "pt_pending (procedure (LeaderChanged ''u'') 3 PartyService)"
  using gap_resyncs [of PartyService 3 "LeaderChanged ''u''"]
  by (simp add: PartyService_def empty_party_def)

theorem unreadable_update_lost_witness:
  "ps_settings (pt_state (procedure (demo_U 3) 3 (unreadable_update 2 demo_joined))) = demo_settings ''a'' 1"
proof -
  have s: "pt_state demo_joined = view (demo_S 1)"
    unfolding demo_joined_def by (rule response_state [OF server_okD(2) [OF demo_party_server]])
  have u: "demo_U (Suc 1) = SettingsUpdated (demo_settings ''b'' 2)" "demo_U (Suc (Suc 1)) = LeaderChanged ''u''"
      "demo_settings ''b'' 2 \<noteq> ps_settings (demo_S 1)"
    by (simp_all add: demo_U_def demo_S_def demo_settings_def)
  from unreadable_update_lost [OF demo_party_server _ s u(1,3,2)] show ?thesis
    by (simp add: numeral_3_eq_3 demo_S_def)
qed

definition demo_found :: party_service where
  "demo_found = link_finish (link_connected (Done ()) (link_start demo_joined))"

theorem game_finder_followed_witness:
  "last_finder demo_found = Some (FinderConnect ''a'')"
proof -
  have run: "party_run demo_S demo_U PartyService demo_found"
    unfolding demo_found_def
    by (rule party_run_step [OF party_run_step [OF party_run_step [OF demo_joined_run party_step.start]
        party_step.connected] party_step.finish])
  have "length (pt_results demo_found) = length (pt_links demo_found)" "pt_scene demo_found"
      "gameFinderName (ps_settings (pt_state demo_found)) = ''a''"
    by (simp_all add: demo_found_def demo_joined_def party_eval)
  with game_finder_followed [OF run] show ?thesis by simp
qed

definition demo_switching :: party_service where
  "demo_switching = \<lparr>pt_state = demo_S 2, pt_finder = ''a'', pt_scene = True,
     pt_links = [\<lparr>ln_name = ''a'', ln_cancelled = False\<rparr>], pt_results = [], pt_phase = ConnectingTo,
     pt_received = True, pt_pending = False, pt_out = [FinderConnect ''a'']\<rparr>"

theorem abandoned_failure_leaves_party_witness:
  "pt_out (link_finish (link_start (link_finish (link_connected (Failed (RuntimeError ''down''))
     (updateGameFinder demo_switching))))) = [FinderConnect ''a'', FinderDisconnect ''a'', SceneDisconnect]"
proof -
  have "chain_ok demo_switching" "pt_phase demo_switching = ConnectingTo" "pt_finder demo_switching \<noteq> []"
      "Suc (length (pt_results demo_switching)) = length (pt_links demo_switching)" "pt_scene demo_switching"
      "gameFinderName (ps_settings (pt_state demo_switching)) \<noteq> pt_finder demo_switching"
      "gameFinderName (ps_settings (pt_state demo_switching)) \<noteq> []"
    by (simp_all add: chain_ok_def link_ok_def asked_def last_finder_def demo_switching_def demo_S_def demo_settings_def)
  from abandoned_failure_leaves_party [OF this, of "RuntimeError ''down''"] show ?thesis
    by (simp add: demo_switching_def)
qed

end
