(* ===== verification/Parties.thy ===== *)
theory Parties
  imports PartyState
begin

text \<open>
  The party API of the client (\<^verbatim>\<open>PartyContainer\<close>, \<^verbatim>\<open>PartyManagementService\<close> and \<^verbatim>\<open>Party_Impl\<close> in
  \<^verbatim>\<open>Plugins/public/Party/Party.hpp\<close>): invitations sent and received, the task that stands for the
  current party, joining and leaving, and the calls that are passed on to the service of the
  party. Continuations that the code posts to the dispatcher or runs behind a task are
  operations of their own.
\<close>

section \<open>Invitations sent\<close>

text \<open>
  A container keeps the cancellation source of every invitation request by recipient; the
  sources are numbered, \<open>pc_canceled\<close> lists those that were canceled.
\<close>

record party_container =
  pc_requests :: "string \<rightharpoonup> nat"
  pc_canceled :: "nat list"

definition PartyContainer :: party_container where
  "PartyContainer = \<lparr>pc_requests = Map.empty, pc_canceled = []\<rparr>"

definition registerInvitationRequest :: "string \<Rightarrow> nat \<Rightarrow> party_container \<Rightarrow> unit res \<times> party_container" where
  "registerInvitationRequest recipientId cts c =
     (case pc_requests c recipientId of
        None \<Rightarrow> (Inr (), c\<lparr>pc_requests := (pc_requests c)(recipientId \<mapsto> cts)\<rparr>)
      | Some _ \<Rightarrow>
          (Inl (RuntimeError (''Could not send a party invitation as there is already one for '' @ recipientId)), c))"

definition closeInvitationRequest :: "string \<Rightarrow> party_container \<Rightarrow> unit res \<times> party_container" where
  "closeInvitationRequest recipientId c =
     (case pc_requests c recipientId of
        Some cts \<Rightarrow>
          (Inr (), c\<lparr>pc_canceled := pc_canceled c @ [cts], pc_requests := (pc_requests c)(recipientId := None)\<rparr>)
      | None \<Rightarrow>
          (Inl (RuntimeError (''Could not cancel a party invitation as there none pending for '' @ recipientId)), c))"

text \<open>The destructor cancels what is left, in the order \<^term>\<open>order\<close> of the hash table.\<close>

definition container_destroyed :: "string list \<Rightarrow> party_container \<Rightarrow> party_container" where
  "container_destroyed order c = c\<lparr>pc_canceled := pc_canceled c @ List.map_filter (pc_requests c) order\<rparr>"

text \<open>
  \<^verbatim>\<open>invitePlayer\<close> behind the party task, and the continuation of the request it sends, which runs
  on a value only.
\<close>

definition invite_request_done :: "string \<Rightarrow> unit task \<Rightarrow> party_container \<Rightarrow> unit task \<times> party_container" where
  "invite_request_done recipient r c =
     (case r of
        Done _ \<Rightarrow>
          (case closeInvitationRequest recipient c of
             (Inl e, c1) \<Rightarrow> (Failed e, c1)
           | (Inr _, c1) \<Rightarrow> (Done (), c1))
      | _ \<Rightarrow> (r, c))"

text \<open>The callback on the caller's cancellation token.\<close>

definition invite_canceled :: "string \<Rightarrow> party_container \<Rightarrow> unit res \<times> party_container" where
  "invite_canceled recipient c = closeInvitationRequest recipient c"

section \<open>The state of the API\<close>

text \<open>
  \<open>im_party\<close> is the pointer \<^verbatim>\<open>_party\<close>, \<open>im_joins\<close> the tasks it may point to, with the scene of the
  party as their value. A received invitation has a completion event, \<open>im_answered\<close> tells which
  are set; \<open>im_jobs\<close> are the senders whose cancellation waits in the dispatcher.
\<close>

datatype impl_event =
  JoinedPartyEv | LeftPartyEv left_reason | MembersEv "party_user list" | SettingsEv string string
  | InvitationReceived string string | InvitationCanceled string | LeaveScene nat | OnLeaving nat

record party_impl =
  im_party :: "nat option"
  im_joins :: "nat task list"
  im_leaving :: "nat list"
  im_invitations :: "string \<rightharpoonup> string \<times> nat"
  im_answered :: "bool list"
  im_jobs :: "string list"
  im_out :: "impl_event list"

definition Party_Impl :: party_impl where
  "Party_Impl = \<lparr>im_party = None, im_joins = [], im_leaving = [], im_invitations = Map.empty,
     im_answered = [], im_jobs = [], im_out = []\<rparr>"

definition im_emit :: "impl_event \<Rightarrow> party_impl \<Rightarrow> party_impl" where
  "im_emit ev im = im\<lparr>im_out := im_out im @ [ev]\<rparr>"

section \<open>Invitations received\<close>

text \<open>The handler of \<^verbatim>\<open>party.invite\<close>; an older invitation of the sender is answered and replaced.\<close>

definition invitationHandler :: "string \<Rightarrow> string \<Rightarrow> party_impl \<Rightarrow> party_impl" where
  "invitationHandler senderId sceneId im =
     (let i = length (im_answered im);
          im1 = im\<lparr>im_answered := im_answered im @ [False]\<rparr>;
          im2 = (case im_invitations im1 senderId of
                   None \<Rightarrow> im1
                 | Some (sc, j) \<Rightarrow>
                     im_emit (InvitationCanceled senderId)
                       (im1\<lparr>im_answered := (im_answered im1)[j := True],
                            im_invitations := (im_invitations im1)(senderId := None)\<rparr>));
          im3 = im2\<lparr>im_invitations := (im_invitations im2)(senderId \<mapsto> (sceneId, i))\<rparr>
      in im_emit (InvitationReceived senderId sceneId) im3)"

text \<open>The cancellation of a request by its sender, and the job it posts.\<close>

definition invitation_canceled :: "string \<Rightarrow> party_impl \<Rightarrow> party_impl" where
  "invitation_canceled senderId im = im\<lparr>im_jobs := im_jobs im @ [senderId]\<rparr>"

definition run_cancellation :: "party_impl \<Rightarrow> party_impl" where
  "run_cancellation im =
     (case im_jobs im of
        [] \<Rightarrow> im
      | senderId # jobs \<Rightarrow>
          im_emit (InvitationCanceled senderId)
            (im\<lparr>im_jobs := jobs, im_invitations := (im_invitations im)(senderId := None)\<rparr>))"

text \<open>
  Accepting an invitation answers it; then the scene token is asked for and the party joined.
\<close>

definition joinParty_invitation :: "string \<Rightarrow> party_impl \<Rightarrow> unit res \<times> party_impl" where
  "joinParty_invitation user im =
     (case im_invitations im user of
        None \<Rightarrow> (Inl (party_failure InvalidInvitation), im)
      | Some (sc, j) \<Rightarrow>
          (Inr (), im\<lparr>im_answered := (im_answered im)[j := True],
                      im_invitations := (im_invitations im)(user := None)\<rparr>))"

definition getPendingInvitations :: "string list \<Rightarrow> party_impl \<Rightarrow> (string \<times> string) list" where
  "getPendingInvitations order im =
     List.map_filter (\<lambda>user. map_option (\<lambda>(sc, j). (user, sc)) (im_invitations im user)) order"

section \<open>Joining and leaving\<close>

text \<open>
  \<^verbatim>\<open>joinParty(token)\<close> builds the chain of continuations first and stores the task in \<^verbatim>\<open>_party\<close>
  last. On the thread of the dispatcher nothing comes in between; the continuation of
  \<^verbatim>\<open>createParty\<close> calls it from another thread.
\<close>

definition join_begin :: "party_impl \<Rightarrow> nat res \<times> party_impl" where
  "join_begin im =
     (case im_party im of
        Some _ \<Rightarrow> (Inl (party_failure AlreadyInParty), im)
      | None \<Rightarrow> (Inr (length (im_joins im)), im\<lparr>im_joins := im_joins im @ [Pending]\<rparr>))"

definition join_assign :: "nat \<Rightarrow> party_impl \<Rightarrow> party_impl" where
  "join_assign n im = im\<lparr>im_party := Some n\<rparr>"

definition joinParty :: "party_impl \<Rightarrow> unit res \<times> party_impl" where
  "joinParty im =
     (case join_begin im of
        (Inl e, im1) \<Rightarrow> (Inl e, im1)
      | (Inr n, im1) \<Rightarrow> (Inr (), join_assign n im1))"

text \<open>
  \<^verbatim>\<open>createParty\<close> up to the remote call, and its continuation: the token of the new party's scene
  or the error of the call.
\<close>

definition createParty :: "bool \<Rightarrow> party_impl \<Rightarrow> unit res" where
  "createParty users_alive im =
     (if im_party im \<noteq> None then Inl (party_failure AlreadyInParty)
      else if \<not> users_alive then Inl (RuntimeError ''destroyed'')
      else Inr ())"

definition createParty_continue :: "string res \<Rightarrow> party_impl \<Rightarrow> unit res \<times> party_impl" where
  "createParty_continue r im =
     (case r of
        Inl e \<Rightarrow> (Inl e, im)
      | Inr token \<Rightarrow> joinParty im)"

text \<open>
  The event handlers that take part in joining run one after the other, the next one only if
  the one before succeeded; those that take part in leaving all run. The result is how many
  were called, and what the chain came to.
\<close>

fun joining_handlers :: "unit res list \<Rightarrow> nat \<times> unit res" where
  "joining_handlers [] = (0, Inr ())"
| "joining_handlers (Inr _ # hs) = apfst Suc (joining_handlers hs)"
| "joining_handlers (Inl e # hs) = (1, Inl e)"

fun leaving_handlers :: "unit res list \<Rightarrow> nat \<times> unit res" where
  "leaving_handlers [] = (0, Inr ())"
| "leaving_handlers (_ # hs) = apfst Suc (leaving_handlers hs)"

text \<open>
  The end of a join: the scene with the outcome of the handlers, or an error. A handler that
  fails disconnects the scene; every error clears \<^verbatim>\<open>_party\<close>. A success runs what
  \<^verbatim>\<open>leaveParty\<close> has put behind the task.
\<close>

definition leave_scene_of :: "nat \<Rightarrow> party_impl \<Rightarrow> party_impl" where
  "leave_scene_of sc im = im_emit (LeaveScene sc) (im\<lparr>im_party := None\<rparr>)"

definition join_done :: "nat \<Rightarrow> nat res \<Rightarrow> unit res list \<Rightarrow> party_impl \<Rightarrow> party_impl" where
  "join_done n r hs im =
     (case r of
        Inl e \<Rightarrow> im\<lparr>im_joins := (im_joins im)[n := Failed e], im_party := None\<rparr>
      | Inr sc \<Rightarrow>
          (case snd (joining_handlers hs) of
             Inl e \<Rightarrow>
               im_emit (LeaveScene sc) (im\<lparr>im_joins := (im_joins im)[n := Failed e], im_party := None\<rparr>)
           | Inr _ \<Rightarrow>
               (let im1 = im\<lparr>im_joins := (im_joins im)[n := Done sc]\<rparr> in
                ((leave_scene_of sc ^^ length (filter ((=) n) (im_leaving im1))) im1)
                  \<lparr>im_leaving := filter ((\<noteq>) n) (im_leaving im1)\<rparr>)))"

definition leaveParty :: "party_impl \<Rightarrow> party_impl" where
  "leaveParty im =
     (case im_party im of
        None \<Rightarrow> im
      | Some n \<Rightarrow>
          (case im_joins im ! n of
             Done sc \<Rightarrow> leave_scene_of sc im
           | Pending \<Rightarrow> im\<lparr>im_leaving := im_leaving im @ [n]\<rparr>
           | _ \<Rightarrow> im))"

definition isInParty :: "party_impl \<Rightarrow> bool" where
  "isInParty im \<longleftrightarrow> (case im_party im of None \<Rightarrow> False | Some n \<Rightarrow> is_done (im_joins im ! n))"

text \<open>The scene of the current party, as the getters obtain it: \<^verbatim>\<open>_party->get()\<close> rethrows.\<close>

definition current_party :: "party_impl \<Rightarrow> nat res" where
  "current_party im =
     (if \<not> isInParty im then Inl (party_failure NotInParty)
      else case im_joins im ! the (im_party im) of
             Done sc \<Rightarrow> Inr sc
           | Failed e \<Rightarrow> Inl e
           | _ \<Rightarrow> Inl TaskCanceled)"

definition getPartyMembers :: "(nat \<Rightarrow> party_service) \<Rightarrow> party_impl \<Rightarrow> party_user list res" where
  "getPartyMembers svc im = bind_res (current_party im) (\<lambda>sc. Inr (ps_members (pt_state (svc sc))))"

definition getPartySettings :: "(nat \<Rightarrow> party_service) \<Rightarrow> party_impl \<Rightarrow> (string \<times> string) res" where
  "getPartySettings svc im = bind_res (current_party im) (\<lambda>sc.
     let s = ps_settings (pt_state (svc sc)) in Inr (gameFinderName s, customData s))"

definition getPartyLeaderId :: "(nat \<Rightarrow> party_service) \<Rightarrow> party_impl \<Rightarrow> string res" where
  "getPartyLeaderId svc im = bind_res (current_party im) (\<lambda>sc. Inr (ps_leaderId (pt_state (svc sc))))"

definition party_isLeader :: "string \<Rightarrow> (nat \<Rightarrow> party_service) \<Rightarrow> party_impl \<Rightarrow> bool res" where
  "party_isLeader me svc im = bind_res (current_party im) (\<lambda>sc. Inr (ps_leaderId (pt_state (svc sc)) = me))"

text \<open>The continuation behind a successful join.\<close>

definition announce_join :: "(nat \<Rightarrow> party_service) \<Rightarrow> party_impl \<Rightarrow> unit res \<times> party_impl" where
  "announce_join svc im =
     (let im1 = im_emit JoinedPartyEv im in
      case getPartyMembers svc im1 of
        Inl e \<Rightarrow> (Inl e, im1)
      | Inr us \<Rightarrow>
          (let im2 = im_emit (MembersEv us) im1 in
           case getPartySettings svc im2 of
             Inl e \<Rightarrow> (Inl e, im2)
           | Inr (g, d) \<Rightarrow> (Inr (), im_emit (SettingsEv g d) im2)))"

text \<open>
  The subscriptions of a container to the events of its service, which exist as long as the
  container does.
\<close>

definition on_left_party :: "nat \<Rightarrow> unit res list \<Rightarrow> left_reason \<Rightarrow> party_impl \<Rightarrow> party_impl" where
  "on_left_party sc hs reason im =
     (let im1 = ((im_emit (OnLeaving sc)) ^^ fst (leaving_handlers hs)) im in
      if isInParty im1 then im_emit (LeftPartyEv reason) (im1\<lparr>im_party := None\<rparr>) else im1)"

definition on_members :: "party_user list \<Rightarrow> party_impl \<Rightarrow> party_impl" where
  "on_members us im = (if isInParty im then im_emit (MembersEv us) im else im)"

definition on_settings :: "party_settings \<Rightarrow> party_impl \<Rightarrow> party_impl" where
  "on_settings s im = (if isInParty im then im_emit (SettingsEv (gameFinderName s) (customData s)) im else im)"

section \<open>Calls passed on to the service\<close>

text \<open>
  The continuation of \<^verbatim>\<open>Party_Impl::updatePlayerStatus\<close> does not return the task of the service.
\<close>

definition party_updatePlayerStatus ::
  "string \<Rightarrow> party_user_status \<Rightarrow> (nat \<Rightarrow> party_service) \<Rightarrow> party_impl \<Rightarrow> unit res \<times> (nat \<Rightarrow> party_service)" where
  "party_updatePlayerStatus me st svc im =
     (case current_party im of
        Inl e \<Rightarrow> (Inl e, svc)
      | Inr sc \<Rightarrow> (Inr (), svc(sc := snd (updatePlayerStatus me st (svc sc)))))"

text \<open>The settings that are sent: the game finder and the custom data, which is never empty.\<close>

definition party_updatePartySettings :: "string \<Rightarrow> string \<Rightarrow> party_impl \<Rightarrow> (nat \<times> string \<times> string) res" where
  "party_updatePartySettings finder data im =
     bind_res (current_party im) (\<lambda>sc. Inr (sc, finder, if data = [] then ''{}'' else data))"

text \<open>The calls that change nothing but forward.\<close>

definition party_forward :: "(party_service \<Rightarrow> party_service) \<Rightarrow> (nat \<Rightarrow> party_service) \<Rightarrow> party_impl \<Rightarrow>
    unit res \<times> (nat \<Rightarrow> party_service)" where
  "party_forward f svc im =
     (case current_party im of
        Inl e \<Rightarrow> (Inl e, svc)
      | Inr sc \<Rightarrow> (Inr (), svc(sc := f (svc sc))))"

definition party_updatePlayerData ::
  "string \<Rightarrow> (nat \<Rightarrow> party_service) \<Rightarrow> party_impl \<Rightarrow> unit res \<times> (nat \<Rightarrow> party_service)" where
  "party_updatePlayerData data = party_forward (updatePlayerData data)"

definition party_promoteLeader ::
  "string \<Rightarrow> (nat \<Rightarrow> party_service) \<Rightarrow> party_impl \<Rightarrow> unit res \<times> (nat \<Rightarrow> party_service)" where
  "party_promoteLeader user = party_forward (promoteLeader user)"

definition party_kickPlayer ::
  "string \<Rightarrow> (nat \<Rightarrow> party_service) \<Rightarrow> party_impl \<Rightarrow> unit res \<times> (nat \<Rightarrow> party_service)" where
  "party_kickPlayer user = party_forward (kickPlayer user)"

section \<open>Runs\<close>

text \<open>
  The steps of a client on which nothing comes between the parts of \<^const>\<open>joinParty\<close>, with
  the calls of the game, the ends of joins, the events of services and the invitations.
\<close>

inductive impl_step :: "party_impl \<Rightarrow> party_impl \<Rightarrow> bool" where
  join: "impl_step im (snd (joinParty im))"
| created: "impl_step im (snd (createParty_continue r im))"
| joined: "n < length (im_joins im) \<Longrightarrow> im_joins im ! n = Pending \<Longrightarrow> impl_step im (join_done n r hs im)"
| announced: "impl_step im (snd (announce_join svc im))"
| leave: "impl_step im (leaveParty im)"
| left: "impl_step im (on_left_party sc hs reason im)"
| members: "impl_step im (on_members us im)"
| settings: "impl_step im (on_settings s im)"
| invited: "impl_step im (invitationHandler sender scene im)"
| canceled: "impl_step im (invitation_canceled sender im)"
| cancellation: "impl_step im (run_cancellation im)"
| accepted: "impl_step im (snd (joinParty_invitation user im))"

definition impl_run :: "party_impl \<Rightarrow> party_impl \<Rightarrow> bool" where
  "impl_run = impl_step\<^sup>*\<^sup>*"

definition party_entry_ok :: "party_impl \<Rightarrow> bool" where
  "party_entry_ok im \<longleftrightarrow>
     (case im_party im of
        None \<Rightarrow> True
      | Some n \<Rightarrow> n < length (im_joins im) \<and>
          (case im_joins im ! n of Pending \<Rightarrow> True | Done _ \<Rightarrow> True | _ \<Rightarrow> False))"

lemma im_emit_simps [simp]:
  "im_party (im_emit ev im) = im_party im" "im_joins (im_emit ev im) = im_joins im"
  "im_leaving (im_emit ev im) = im_leaving im" "im_invitations (im_emit ev im) = im_invitations im"
  "im_answered (im_emit ev im) = im_answered im" "im_jobs (im_emit ev im) = im_jobs im"
  "im_out (im_emit ev im) = im_out im @ [ev]"
  by (simp_all add: im_emit_def)

lemma im_emits_simps [simp]:
  "im_party ((im_emit ev ^^ k) im) = im_party im" "im_joins ((im_emit ev ^^ k) im) = im_joins im"
  "im_invitations ((im_emit ev ^^ k) im) = im_invitations im"
  "im_answered ((im_emit ev ^^ k) im) = im_answered im"
  "im_out ((im_emit ev ^^ k) im) = im_out im @ replicate k ev"
  by (induction k) (simp_all add: replicate_append_same)

lemma isInParty_emit [simp]:
  "isInParty (im_emit ev im) = isInParty im" "isInParty ((im_emit ev ^^ k) im) = isInParty im"
  unfolding isInParty_def im_emit_simps im_emits_simps by (rule refl)+

lemma leave_scenes [simp]:
  "im_joins ((leave_scene_of sc ^^ k) im) = im_joins im"
  "im_party ((leave_scene_of sc ^^ k) im) = (if k = 0 then im_party im else None)"
  by (induction k) (simp_all add: leave_scene_of_def)

lemma leaving_handlers_all [simp]: "fst (leaving_handlers hs) = length hs"
  by (induction hs rule: leaving_handlers.induct) simp_all

lemma joining_handlers_stop:
  "fst (joining_handlers hs) = length (takeWhile (\<lambda>h. \<not> isl h) hs) + (if list_ex isl hs then 1 else 0)"
  by (induction hs rule: joining_handlers.induct) simp_all

lemma entry_ok_frame:
  assumes "im_party im' = im_party im" "im_joins im' = im_joins im"
  shows "party_entry_ok im' = party_entry_ok im"
  unfolding party_entry_ok_def assms by (rule refl)

lemma entry_ok_emit [simp]: "party_entry_ok (im_emit ev im) = party_entry_ok im"
  by (rule entry_ok_frame) simp_all

lemma entry_ok_emits [simp]: "party_entry_ok ((im_emit ev ^^ k) im) = party_entry_ok im"
  by (rule entry_ok_frame) simp_all

lemma entry_ok_jobs [simp]: "party_entry_ok (im\<lparr>im_jobs := js\<rparr>) = party_entry_ok im"
  by (rule entry_ok_frame) simp_all

lemma entry_ok_none [simp]: "im_party im = None \<Longrightarrow> party_entry_ok im"
  by (simp add: party_entry_ok_def)

lemma entry_ok_join: "party_entry_ok im \<Longrightarrow> party_entry_ok (snd (joinParty im))"
  by (auto simp: joinParty_def join_begin_def join_assign_def party_entry_ok_def nth_append split: option.splits)

lemma entry_ok_done:
  assumes "party_entry_ok im" "n < length (im_joins im)" "im_joins im ! n = Pending"
  shows "party_entry_ok (join_done n r hs im)"
proof -
  have "party_entry_ok (im\<lparr>im_joins := (im_joins im)[n := Done sc]\<rparr>)" for sc
    using assms by (auto simp: party_entry_ok_def nth_list_update split: option.splits)
  moreover have "party_entry_ok (p\<lparr>im_leaving := l\<rparr>) = party_entry_ok p" for p l
    by (rule entry_ok_frame) simp_all
  moreover have "party_entry_ok ((leave_scene_of sc ^^ k) p)" if "party_entry_ok p" for k p sc
    using that by (cases k) (simp_all add: leave_scene_of_def)
  ultimately show ?thesis
    by (auto simp: join_done_def Let_def split: sum.split)
qed

lemma entry_ok_step:
  assumes "impl_step im im'" "party_entry_ok im"
  shows "party_entry_ok im'"
  using assms(1)
proof cases
  case join
  then show ?thesis using entry_ok_join [OF assms(2)] by simp
next
  case (created r)
  then show ?thesis using entry_ok_join [OF assms(2)] assms(2)
    by (simp add: createParty_continue_def split: sum.split)
next
  case (joined n r hs)
  then show ?thesis using entry_ok_done [OF assms(2)] by simp
next
  case (announced svc)
  show ?thesis unfolding announced
    using assms(2) by (auto simp: announce_join_def Let_def split: sum.split)
next
  case leave
  then show ?thesis using assms(2)
    by (auto simp: leaveParty_def leave_scene_of_def party_entry_ok_def split: option.splits task.splits)
next
  case (left sc hs reason)
  then show ?thesis using assms(2) by (simp add: on_left_party_def Let_def)
next
  case (invited sender scene)
  have "im_party im' = im_party im" "im_joins im' = im_joins im"
    unfolding invited by (auto simp: invitationHandler_def Let_def split: option.splits)
  from entry_ok_frame [OF this] show ?thesis using assms(2) by simp
next
  case cancellation
  have "im_party im' = im_party im" "im_joins im' = im_joins im"
    unfolding cancellation by (auto simp: run_cancellation_def split: list.splits)
  from entry_ok_frame [OF this] show ?thesis using assms(2) by simp
next
  case (accepted user)
  have "im_party im' = im_party im" "im_joins im' = im_joins im"
    unfolding accepted by (auto simp: joinParty_invitation_def split: option.splits)
  from entry_ok_frame [OF this] show ?thesis using assms(2) by simp
qed (use assms(2) in \<open>simp_all add: on_members_def on_settings_def invitation_canceled_def\<close>)

lemma entry_ok_run: "impl_run im im' \<Longrightarrow> party_entry_ok im \<Longrightarrow> party_entry_ok im'"
  unfolding impl_run_def by (induction rule: rtranclp_induct) (auto intro: entry_ok_step)

section \<open>Properties\<close>

text \<open>
  Property C28. When \<^verbatim>\<open>isInParty()\<close> says so, the getters do not throw, and the members they return are
  those of some state of the server (or none, before the first response): in every state a
  client reaches when no other thread comes between the parts of \<^verbatim>\<open>joinParty\<close>, the party task is
  pending or has a value, and the service of its scene replicates the server.
\<close>

theorem members_from_server:
  assumes "impl_run Party_Impl im" "server_ok S U" "\<And>sc. party_run S U PartyService (svc sc)"
  shows "isInParty im \<longleftrightarrow> (\<exists>sc us. current_party im = Inr sc \<and> getPartyMembers svc im = Inr us \<and>
    (us = [] \<or> (\<exists>v. 0 < v \<and> us = ps_members (view (S v)))))"
proof
  assume i: "isInParty im"
  have "party_entry_ok im" by (rule entry_ok_run [OF assms(1)]) (simp add: Party_Impl_def)
  then obtain sc where sc: "current_party im = Inr sc"
    using i by (auto simp: current_party_def isInParty_def party_entry_ok_def is_done_def split: option.splits task.splits)
  have "replica S (svc sc)"
    by (rule replica_run [OF assms(2,3)]) (simp add: replica_def PartyService_def)
  then have "ps_members (pt_state (svc sc)) = [] \<or>
      (\<exists>v. 0 < v \<and> ps_members (pt_state (svc sc)) = ps_members (view (S v)))"
    by (auto simp: replica_def empty_party_def)
  then show "\<exists>sc us. current_party im = Inr sc \<and> getPartyMembers svc im = Inr us \<and>
    (us = [] \<or> (\<exists>v. 0 < v \<and> us = ps_members (view (S v))))"
    using sc by (simp add: getPartyMembers_def)
qed (auto simp: current_party_def split: if_splits)

text \<open>What the game can do without a join that is still to end.\<close>

inductive api_call :: "party_impl \<Rightarrow> party_impl \<Rightarrow> bool" where
  "api_call im (snd (joinParty im))"
| "api_call im (snd (createParty_continue r im))"
| "api_call im (leaveParty im)"
| "api_call im (snd (joinParty_invitation user im))"
| "api_call im (snd (announce_join svc im))"

text \<open>
  When the continuation of \<^verbatim>\<open>createParty\<close> is overtaken by the failure of its own
  join, the failed task is stored in \<^verbatim>\<open>_party\<close> after it was cleared. From then on the client
  claims to be in a party, every getter throws the error of the join, and no call of the game
  (joining, creating, leaving, accepting an invitation) ever changes that.
\<close>

theorem late_assignment_strands:
  fixes e :: storm_exn and hs :: "unit res list"
  assumes "im_party im = None"
  defines "im1 \<equiv> join_assign (length (im_joins im))
      (join_done (length (im_joins im)) (Inl e) hs (snd (join_begin im)))"
  assumes "api_call\<^sup>*\<^sup>* im1 im'"
  shows "isInParty im' \<and> current_party im' = Inl e \<and>
    fst (joinParty im') = Inl (party_failure AlreadyInParty) \<and> leaveParty im' = im'"
proof -
  let ?n = "length (im_joins im)"
  define stuck where "stuck = (\<lambda>p :: party_impl. im_party p = Some ?n \<and> im_joins p ! ?n = Failed e)"
  have s1: "stuck im1"
    using assms(1) by (simp add: stuck_def im1_def join_assign_def join_done_def join_begin_def)
  have st: "stuck b" if "api_call a b" "stuck a" for a b
    using that
    by cases (auto simp: stuck_def joinParty_def createParty_continue_def join_begin_def leaveParty_def
        joinParty_invitation_def announce_join_def Let_def split: sum.splits option.splits)
  from assms(3) have "stuck im'"
    by (induction rule: rtranclp_induct) (use s1 st in blast)+
  then show ?thesis
    by (simp add: stuck_def isInParty_def is_done_def current_party_def joinParty_def join_begin_def leaveParty_def)
qed

text \<open>
  A player who leaves the party is never told: \<^verbatim>\<open>leaveParty\<close> clears \<^verbatim>\<open>_party\<close> before the
  scene disconnects, so when its service reports the end the API is not in a party any more
  and raises no event. A player who is kicked, or loses the connection, gets the event
  once with the reason.
\<close>

theorem voluntary_leave_silent:
  assumes "im_party im = Some n" "im_joins im ! n = Done sc"
  shows "im_out (on_left_party sc hs r (leaveParty im)) =
      im_out im @ [LeaveScene sc] @ replicate (length hs) (OnLeaving sc) \<and>
    im_out (on_left_party sc hs r im) =
      im_out im @ replicate (length hs) (OnLeaving sc) @ [LeftPartyEv r] \<and>
    im_party (on_left_party sc hs r im) = None"
  using assms
  by (simp add: leaveParty_def leave_scene_of_def on_left_party_def Let_def isInParty_def is_done_def)

text \<open>Steps that concern the received invitations.\<close>

inductive inbox_step :: "party_impl \<Rightarrow> party_impl \<Rightarrow> bool" where
  "inbox_step im (invitationHandler sender scene im)"
| "inbox_step im (invitation_canceled sender im)"
| "inbox_step im (run_cancellation im)"
| "inbox_step im (snd (joinParty_invitation user im))"

definition inbox_ok :: "party_impl \<Rightarrow> bool" where
  "inbox_ok im \<longleftrightarrow>
     (\<forall>s sc j. im_invitations im s = Some (sc, j) \<longrightarrow> j < length (im_answered im) \<and> \<not> im_answered im ! j) \<and>
     (\<forall>s t sc sd j. im_invitations im s = Some (sc, j) \<longrightarrow> im_invitations im t = Some (sd, j) \<longrightarrow> s = t)"

lemma inbox_ok_ctor: "inbox_ok Party_Impl"
  by (simp add: inbox_ok_def Party_Impl_def)

lemma inbox_okD:
  assumes "inbox_ok im" "im_invitations im s = Some (sc, j)"
  shows "j < length (im_answered im)" "\<not> im_answered im ! j"
    "im_invitations im t = Some (sd, j) \<Longrightarrow> t = s"
  using assms unfolding inbox_ok_def by blast+

text \<open>Answering an invitation takes its entry away.\<close>

lemma inbox_ok_answer:
  assumes "inbox_ok im" "im_invitations im s = Some (sc, j)"
  shows "inbox_ok (im\<lparr>im_answered := (im_answered im)[j := True],
    im_invitations := (im_invitations im)(s := None)\<rparr>)"
  unfolding inbox_ok_def
proof (intro conjI allI impI)
  fix t sd k
  assume "im_invitations (im\<lparr>im_answered := (im_answered im)[j := True],
    im_invitations := (im_invitations im)(s := None)\<rparr>) t = Some (sd, k)"
  then have t: "t \<noteq> s" "im_invitations im t = Some (sd, k)" by (simp_all split: if_splits)
  then have "k \<noteq> j" using inbox_okD(3) [OF assms] by blast
  then show "k < length (im_answered (im\<lparr>im_answered := (im_answered im)[j := True],
      im_invitations := (im_invitations im)(s := None)\<rparr>))"
    "\<not> im_answered (im\<lparr>im_answered := (im_answered im)[j := True],
      im_invitations := (im_invitations im)(s := None)\<rparr>) ! k"
    using inbox_okD(1,2) [OF assms(1) t(2)] by simp_all
qed (use assms(1) in \<open>auto simp: inbox_ok_def split: if_splits\<close>)

lemma inbox_ok_invite:
  assumes "inbox_ok im" "im_invitations im s = None"
  shows "inbox_ok (im\<lparr>im_answered := im_answered im @ [False],
    im_invitations := (im_invitations im)(s \<mapsto> (sc, length (im_answered im)))\<rparr>)"
  using assms unfolding inbox_ok_def
  by (auto simp: nth_append less_Suc_eq split: if_splits dest: less_imp_neq)

lemma inbox_ok_frame:
  assumes "im_invitations im' = im_invitations im" "im_answered im' = im_answered im"
  shows "inbox_ok im' = inbox_ok im"
  unfolding inbox_ok_def assms by (rule refl)

lemma inbox_ok_jobs [simp]: "inbox_ok (im\<lparr>im_jobs := js\<rparr>) = inbox_ok im"
  by (rule inbox_ok_frame) simp_all

lemma inbox_ok_emit [simp]: "inbox_ok (im_emit ev im) = inbox_ok im"
  by (rule inbox_ok_frame) simp_all

lemma inbox_run_step: "inbox_step\<^sup>*\<^sup>* a b \<Longrightarrow> inbox_step b c \<Longrightarrow> inbox_step\<^sup>*\<^sup>* a c"
  by (rule rtranclp.rtrancl_into_rtrancl)

lemma impl_run_step: "impl_run a b \<Longrightarrow> impl_step b c \<Longrightarrow> impl_run a c"
  unfolding impl_run_def by (rule rtranclp.rtrancl_into_rtrancl)

lemma impl_run_refl: "impl_run a a"
  by (simp add: impl_run_def)

lemma invitationHandler_cases:
  obtains (fresh) "im_invitations im s = None"
      "invitationHandler s sc im = im_emit (InvitationReceived s sc)
         (im\<lparr>im_answered := im_answered im @ [False],
             im_invitations := (im_invitations im)(s \<mapsto> (sc, length (im_answered im)))\<rparr>)"
  | (again) sd j where "im_invitations im s = Some (sd, j)"
      "invitationHandler s sc im = im_emit (InvitationReceived s sc)
         ((im_emit (InvitationCanceled s) (im\<lparr>im_answered := (im_answered im @ [False])[j := True],
             im_invitations := (im_invitations im)(s := None)\<rparr>))
           \<lparr>im_invitations := (im_invitations im)(s \<mapsto> (sc, length (im_answered im)))\<rparr>)"
proof (cases "im_invitations im s")
  case None
  then show ?thesis by (rule fresh) (simp add: None invitationHandler_def Let_def)
next
  case (Some e)
  obtain sd j where e: "e = (sd, j)" by fastforce
  show ?thesis
    by (rule again [of sd j]) (simp_all add: Some e invitationHandler_def Let_def)
qed

lemma inbox_ok_handler:
  assumes "inbox_ok im"
  shows "inbox_ok (invitationHandler s sc im)"
proof (cases rule: invitationHandler_cases [of im s sc])
  case fresh
  then show ?thesis using inbox_ok_invite [OF assms] by simp
next
  case (again sd j)
  note j = inbox_okD [OF assms again(1)]
  let ?im = "im\<lparr>im_answered := (im_answered im)[j := True], im_invitations := (im_invitations im)(s := None)\<rparr>"
  let ?new = "?im\<lparr>im_answered := im_answered ?im @ [False],
      im_invitations := (im_invitations ?im)(s \<mapsto> (sc, length (im_answered ?im)))\<rparr>"
  have "inbox_ok ?new"
    by (rule inbox_ok_invite [OF inbox_ok_answer [OF assms again(1)]]) simp
  moreover have "inbox_ok (invitationHandler s sc im) = inbox_ok ?new"
    unfolding again(2) using j(1) by (intro inbox_ok_frame) (simp_all add: list_update_append1)
  ultimately show ?thesis by simp
qed

lemma inbox_ok_step:
  assumes "inbox_step im im'" "inbox_ok im"
  shows "inbox_ok im'"
  using assms(1)
proof cases
  case (1 sender scene)
  then show ?thesis using inbox_ok_handler [OF assms(2)] by simp
next
  case (2 sender)
  then show ?thesis using assms(2) by (simp add: invitation_canceled_def)
next
  case 3
  have "inbox_ok (im\<lparr>im_jobs := js, im_invitations := (im_invitations im)(s := None)\<rparr>)" for s js
    using assms(2) unfolding inbox_ok_def by (simp split: if_splits)
  then show ?thesis using 3 assms(2) by (simp add: run_cancellation_def split: list.split)
next
  case (4 user)
  then show ?thesis using assms(2) inbox_ok_answer [OF assms(2)]
    by (auto simp: joinParty_invitation_def split: option.split)
qed

text \<open>
  Every invitation that can be listed can be answered: accepting it sets exactly its own
  completion event, and each event belongs to the invitation of one sender.
\<close>

theorem listed_invitation_answered:
  assumes "inbox_step\<^sup>*\<^sup>* Party_Impl im" "im_invitations im s = Some (sc, j)"
  shows "\<not> im_answered im ! j \<and> fst (joinParty_invitation s im) = Inr () \<and>
    im_answered (snd (joinParty_invitation s im)) = (im_answered im)[j := True] \<and>
    im_invitations (snd (joinParty_invitation s im)) s = None"
proof -
  have "inbox_ok im"
    using assms(1) by (induction rule: rtranclp_induct) (auto intro: inbox_ok_ctor inbox_ok_step)
  then show ?thesis using assms(2) inbox_okD(2) by (simp add: joinParty_invitation_def)
qed

text \<open>An event that no entry refers to any more is never set.\<close>

definition orphaned :: "nat \<Rightarrow> party_impl \<Rightarrow> bool" where
  "orphaned j im \<longleftrightarrow> j < length (im_answered im) \<and> \<not> im_answered im ! j \<and>
     (\<forall>s sc. im_invitations im s \<noteq> Some (sc, j))"

lemma orphaned_step:
  assumes "inbox_step im im'" "orphaned j im"
  shows "orphaned j im'"
  using assms(1)
proof cases
  case (1 sender scene)
  show ?thesis unfolding 1
  proof (cases rule: invitationHandler_cases [of im sender scene])
    case fresh
    then show "orphaned j (invitationHandler sender scene im)"
      using assms(2) by (auto simp: orphaned_def nth_append)
  next
    case (again sd k)
    moreover have "k \<noteq> j" using assms(2) again(1) by (auto simp: orphaned_def)
    ultimately show "orphaned j (invitationHandler sender scene im)"
      using assms(2) by (auto simp: orphaned_def nth_append)
  qed
next
  case (2 sender)
  then show ?thesis using assms(2) by (simp add: orphaned_def invitation_canceled_def)
next
  case 3
  then show ?thesis using assms(2) by (auto simp: orphaned_def run_cancellation_def split: list.split)
next
  case (4 user)
  show ?thesis
  proof (cases "im_invitations im user")
    case None
    then show ?thesis using 4 assms(2) by (simp add: joinParty_invitation_def)
  next
    case (Some e)
    obtain sd k where e: "e = (sd, k)" by fastforce
    then have "k \<noteq> j" using Some assms(2) by (auto simp: orphaned_def)
    then show ?thesis using 4 assms(2) Some e by (auto simp: orphaned_def joinParty_invitation_def)
  qed
qed

text \<open>
  A canceled invitation takes a newer one with it. The cancellation of the first is
  run by sender, so if the sender invites again before the dispatcher runs it, the second
  invitation disappears: it cannot be accepted, and its request is never answered, whatever
  happens afterwards.
\<close>

theorem reinvitation_lost:
  fixes scene :: string
  assumes "inbox_step\<^sup>*\<^sup>* Party_Impl im" "im_jobs im = s # jobs"
  defines "im1 \<equiv> run_cancellation (invitationHandler s scene im)"
  assumes "inbox_step\<^sup>*\<^sup>* im1 im'"
  shows "im_invitations im1 s = None \<and> fst (joinParty_invitation s im1) = Inl (party_failure InvalidInvitation) \<and>
    \<not> im_answered im' ! length (im_answered im)"
proof -
  let ?j = "length (im_answered im)" and ?h = "invitationHandler s scene im"
  have ok: "inbox_ok im"
    using assms(1) by (induction rule: rtranclp_induct) (auto intro: inbox_ok_ctor inbox_ok_step)
  have h: "im_jobs ?h = s # jobs" "im_invitations ?h = (im_invitations im)(s \<mapsto> (scene, ?j))"
      "length (im_answered ?h) = Suc ?j"
    using assms(2) by (cases rule: invitationHandler_cases [of im s scene]; simp)+
  have "\<not> im_answered ?h ! ?j"
    using inbox_okD(1) [OF ok]
    by (cases rule: invitationHandler_cases [of im s scene]) (auto simp: nth_append list_update_append1)
  moreover have i1: "im_invitations im1 = (im_invitations im)(s := None)" "im_answered im1 = im_answered ?h"
    using h by (simp_all add: im1_def run_cancellation_def)
  moreover have "im_invitations im t \<noteq> Some (sc, ?j)" for t sc
    using inbox_okD(1) [OF ok, of t sc ?j] by auto
  ultimately have orph: "orphaned ?j im1" using h(3) by (auto simp: orphaned_def)
  from assms(4) have "orphaned ?j im'"
    by (induction rule: rtranclp_induct) (use orph orphaned_step in blast)+
  then show ?thesis using i1 by (simp add: orphaned_def joinParty_invitation_def)
qed

text \<open>
  An invitation that could not be delivered blocks its recipient: only the success of
  the request and the caller's own cancellation free the entry, so after a failure every later
  invitation of the same player is refused. After a success the name is free, the source was
  canceled, and a late cancellation by the caller throws.
\<close>

theorem failed_invitation_blocks:
  assumes "registerInvitationRequest r cts c = (Inr (), c1)"
  shows "invite_request_done r (Failed e) c1 = (Failed e, c1) \<and>
    (\<exists>e'. registerInvitationRequest r cts' c1 = (Inl e', c1)) \<and>
    (\<exists>c2. invite_request_done r (Done ()) c1 = (Done (), c2) \<and> pc_canceled c2 = pc_canceled c @ [cts] \<and>
       fst (registerInvitationRequest r cts' c2) = Inr () \<and> (\<exists>e'. invite_canceled r c2 = (Inl e', c2)))"
  using assms
  by (auto simp: registerInvitationRequest_def invite_request_done_def closeInvitationRequest_def
      invite_canceled_def split: option.splits)

text \<open>
  The status call of the API reports success even when the service refuses the
  change because the party has no game finder yet; the service's task is dropped.
\<close>

theorem status_failure_dropped:
  assumes "current_party im = Inr sc" "u \<in> set (ps_members (pt_state (svc sc)))" "userId u = me"
    "partyUserStatus u \<noteq> st" "gameFinderName (ps_settings (pt_state (svc sc))) = []"
  shows "fst (updatePlayerStatus me st (svc sc)) = Refused (party_failure PartyNotReady) \<and>
    party_updatePlayerStatus me st svc im = (Inr (), svc)"
proof -
  have "updatePlayerStatus me st (svc sc) = (Refused (party_failure PartyNotReady), svc sc)"
    using assms(2-5) by (auto simp: updatePlayerStatus_def Let_def)
  then show ?thesis using assms(1) by (simp add: party_updatePlayerStatus_def)
qed

section \<open>Witnesses\<close>

theorem members_from_server_witness:
  "getPartyMembers (\<lambda>_. PartyService) (join_done 0 (Inr 7) [Inr ()] (snd (joinParty Party_Impl))) = Inr []"
proof -
  let ?im = "join_done 0 (Inr 7) [Inr ()] (snd (joinParty Party_Impl))"
  have run: "impl_run Party_Impl ?im"
    by (rule impl_run_step [OF impl_run_step [OF impl_run_refl impl_step.join] impl_step.joined])
      (simp_all add: joinParty_def join_begin_def join_assign_def Party_Impl_def)
  have "isInParty ?im"
    by (simp add: isInParty_def is_done_def join_done_def joinParty_def join_begin_def join_assign_def
        Party_Impl_def Let_def)
  with members_from_server [OF run demo_party_server party_run_refl] have "\<exists>sc. current_party ?im = Inr sc" by blast
  then show ?thesis by (auto simp: getPartyMembers_def PartyService_def empty_party_def)
qed

theorem late_assignment_strands_witness:
  "isInParty (leaveParty (join_assign 0 (join_done 0 (Inl (RuntimeError ''full'')) [] (snd (join_begin Party_Impl)))))"
proof -
  let ?im = "join_assign 0 (join_done 0 (Inl (RuntimeError ''full'')) [] (snd (join_begin Party_Impl)))"
  have n: "im_party Party_Impl = None" "length (im_joins Party_Impl) = 0" by (simp_all add: Party_Impl_def)
  have "api_call\<^sup>*\<^sup>* ?im (leaveParty ?im)" by (rule r_into_rtranclp) (rule api_call.intros(3))
  from late_assignment_strands [OF n(1), unfolded n(2), OF this] show ?thesis by blast
qed

theorem voluntary_leave_silent_witness:
  "im_out (on_left_party 7 [Inr ()] Left (leaveParty (Party_Impl\<lparr>im_party := Some 0, im_joins := [Done 7]\<rparr>))) =
     [LeaveScene 7, OnLeaving 7]"
  using voluntary_leave_silent [of "Party_Impl\<lparr>im_party := Some 0, im_joins := [Done 7]\<rparr>" 0 7 "[Inr ()]" Left]
  by (simp add: Party_Impl_def)

theorem listed_invitation_answered_witness:
  "im_answered (snd (joinParty_invitation ''bob'' (invitationHandler ''bob'' ''s1'' Party_Impl))) = [True]"
proof -
  have run: "inbox_step\<^sup>*\<^sup>* Party_Impl (invitationHandler ''bob'' ''s1'' Party_Impl)"
    by (rule r_into_rtranclp) (rule inbox_step.intros(1))
  have "im_invitations (invitationHandler ''bob'' ''s1'' Party_Impl) ''bob'' = Some (''s1'', 0)"
      "im_answered (invitationHandler ''bob'' ''s1'' Party_Impl) = [False]"
    by (simp_all add: invitationHandler_def Party_Impl_def)
  with listed_invitation_answered [OF run this(1)] show ?thesis by simp
qed

theorem reinvitation_lost_witness:
  "fst (joinParty_invitation ''bob'' (run_cancellation (invitationHandler ''bob'' ''s2''
     (invitation_canceled ''bob'' (invitationHandler ''bob'' ''s1'' Party_Impl))))) =
   Inl (party_failure InvalidInvitation)"
proof -
  let ?im = "invitation_canceled ''bob'' (invitationHandler ''bob'' ''s1'' Party_Impl)"
  have run: "inbox_step\<^sup>*\<^sup>* Party_Impl ?im"
    by (rule inbox_run_step [OF inbox_run_step [OF rtranclp.rtrancl_refl inbox_step.intros(1)] inbox_step.intros(2)])
  have "im_jobs ?im = [''bob'']"
    by (simp add: invitation_canceled_def invitationHandler_def Party_Impl_def)
  from reinvitation_lost [OF run this rtranclp.rtrancl_refl] show ?thesis by blast
qed

theorem failed_invitation_blocks_witness:
  "\<exists>e. fst (registerInvitationRequest ''bob'' 2 (snd (invite_request_done ''bob'' (Failed TaskCanceled)
     (snd (registerInvitationRequest ''bob'' 1 PartyContainer))))) = Inl e"
proof -
  have "registerInvitationRequest ''bob'' 1 PartyContainer =
      (Inr (), snd (registerInvitationRequest ''bob'' 1 PartyContainer))"
    by (simp add: registerInvitationRequest_def PartyContainer_def)
  from failed_invitation_blocks [OF this, of TaskCanceled 2] show ?thesis by auto
qed

theorem status_failure_dropped_witness:
  "fst (party_updatePlayerStatus ''u'' Ready (\<lambda>_. set_state (\<lambda>_. (demo_S 1)\<lparr>ps_settings := demo_settings [] 1\<rparr>) PartyService)
     (Party_Impl\<lparr>im_party := Some 0, im_joins := [Done 7]\<rparr>)) = Inr ()"
proof -
  have "current_party (Party_Impl\<lparr>im_party := Some 0, im_joins := [Done 7]\<rparr>) = Inr 7"
    by (simp add: current_party_def isInParty_def is_done_def)
  from status_failure_dropped [OF this,
      of "\<lparr>userId = ''u'', partyUserStatus = NotReady, userData = [], isLeader = False\<rparr>"
        "\<lambda>_. set_state (\<lambda>_. (demo_S 1)\<lparr>ps_settings := demo_settings [] 1\<rparr>) PartyService" "''u''" Ready]
  show ?thesis by (simp add: demo_S_def demo_settings_def)
qed

end
