(* ===== verification/Users.thy ===== *)
theory Users
  imports Network Scenes
begin

text \<open>
  Authentication (\<^verbatim>\<open>Plugins/public/Users/Users.hpp\<close>): the state of the connection of the user to
  the game, the attempts to log in with their retries, the callers that wait for the
  authenticated scene, logging out, the requests that go through the scene and the handlers of
  credentials. Continuations and the answers of the server are operations of their own; a run
  of the API is a list of such actions. Code of the game that runs inside the events of the API
  and calls it again is not modelled, nor is an API that is destroyed during a call.
\<close>

section \<open>Data\<close>

datatype game_state =
    GDisconnected
  | GConnecting
  | GAuthenticated
  | GDisconnecting
  | GAuthenticating
  | GReconnecting

fun game_state_int :: "game_state \<Rightarrow> int" where
  "game_state_int GDisconnected = 0"
| "game_state_int GConnecting = 1"
| "game_state_int GAuthenticated = 2"
| "game_state_int GDisconnecting = 3"
| "game_state_int GAuthenticating = 4"
| "game_state_int GReconnecting = 5"

record game_connection_state =
  gs_state :: game_state
  gs_reason :: string

definition GameConnectionState :: "game_state \<Rightarrow> game_connection_state" where
  "GameConnectionState s = \<lparr>gs_state = s, gs_reason = ''''\<rparr>"

text \<open>The comparison operators look at the state alone.\<close>

definition same_game_state :: "game_connection_state \<Rightarrow> game_connection_state \<Rightarrow> bool" where
  "same_game_state a b \<longleftrightarrow> gs_state a = gs_state b"

record login_result =
  lr_errorMsg :: string
  lr_success :: bool
  lr_userId :: string
  lr_username :: string

record auth_parameters =
  ap_type :: string
  ap_parameters :: "string \<rightharpoonup> string"

record platform_user =
  pu_type :: string
  pu_id :: string

definition same_platform_user :: "platform_user \<Rightarrow> platform_user \<Rightarrow> bool" where
  "same_platform_user a b \<longleftrightarrow> pu_type a = pu_type b \<and> pu_id a = pu_id b"

definition platform_user_toString :: "platform_user \<Rightarrow> string" where
  "platform_user_toString p = ''['' @ pu_type p @ '']'' @ pu_id p"

definition credentials_message :: "string \<Rightarrow> string \<Rightarrow> string" where
  "credentials_message message inner = message @ '' [Inner exception message: '' @ inner @ '']''"

text \<open>
  What a caller of \<^verbatim>\<open>getAuthenticationScene\<close> does with the scene: a request of the API, the
  route and the arguments it sends over it.
\<close>

datatype user_request =
    SceneConnectionToken string string
  | SceneForService string string
  | PrivateScene string
  | PrivateSceneByToken string
  | UserFromBearerToken string
  | BearerToken
  | UserIdByPseudo string
  | AuthenticationStatus
  | AuthenticationMetadata
  | Authenticate auth_parameters
  | SetupProvider auth_parameters
  | UnlinkProvider string
  | RequestToUser string string "string list"
  | RegisterNewUser string "string \<rightharpoonup> string"

datatype user_arguments = Texts "string list" | Parameters auth_parameters

fun request_rpc :: "user_request \<Rightarrow> (string \<times> user_arguments) option" where
  "request_rpc (SceneConnectionToken serviceType serviceName) =
     Some (''Locator.GetSceneConnectionToken'', Texts [serviceType, serviceName])"
| "request_rpc (SceneForService serviceType serviceName) =
     Some (''Locator.GetSceneConnectionToken'', Texts [serviceType, serviceName])"
| "request_rpc (PrivateScene sceneId) = Some (''sceneauthorization.gettoken'', Texts [sceneId])"
| "request_rpc (PrivateSceneByToken token) = None"
| "request_rpc (UserFromBearerToken token) = Some (''sceneauthorization.getuserfrombearertoken'', Texts [token])"
| "request_rpc BearerToken = Some (''sceneauthorization.getbearertoken'', Texts [])"
| "request_rpc (UserIdByPseudo pseudo) = Some (''users.getuseridbypseudo'', Texts [pseudo])"
| "request_rpc AuthenticationStatus = Some (''Authentication.GetStatus'', Texts [])"
| "request_rpc AuthenticationMetadata = Some (''Authentication.GetMetadata'', Texts [])"
| "request_rpc (Authenticate p) = Some (''Authentication.Login'', Parameters p)"
| "request_rpc (SetupProvider p) = Some (''Authentication.Register'', Parameters p)"
| "request_rpc (UnlinkProvider t) = Some (''Authentication.Unlink'', Texts [t])"
| "request_rpc (RequestToUser userId operation arguments) = Some (''sendRequest'', Texts (userId # operation # arguments))"
| "request_rpc (RegisterNewUser t data) = Some (''Authentication.Register'', Parameters \<lparr>ap_type = t, ap_parameters = data\<rparr>)"

datatype auth_use =
    WaitLogin
  | WaitLogout bool
  | WaitReconnect
  | WaitRequest user_request
  | WaitNobody

datatype auth_source = Refused storm_exn | Immediate | Attempt nat

text \<open>
  A login attempt is the task \<^verbatim>\<open>loginImpl\<close> returns, with the retries behind it: where it stands,
  with the retry counter and, once there is one, the scene of the authenticator.
\<close>

datatype login_stage =
    ConnectingScene nat
  | RetrievingCredentials nat nat
  | LoggingIn nat nat
  | Delayed nat
  | LoginDone nat
  | LoginFailed storm_exn

fun stage_pending :: "login_stage \<Rightarrow> bool" where
  "stage_pending (LoginDone _) = False"
| "stage_pending (LoginFailed _) = False"
| "stage_pending _ = True"

text \<open>
  The API. \<^verbatim>\<open>_authTask\<close> is the number of an attempt; \<open>us_waiters\<close> are the continuations on the
  attempts; the rest after the handlers is what reaches the outside: the events of
  \<^verbatim>\<open>connectionStateChanged\<close>, the calls of \<^verbatim>\<open>IClient::disconnect\<close>, the scenes that were told to
  disconnect (with what to do afterwards), the requests sent, the scenes asked of the client and
  the answers given.
\<close>

record users_api =
  us_autoReconnect :: bool
  us_userId :: string
  us_username :: string
  us_client :: bool
  us_client_scenes :: bool
  us_state :: game_connection_state
  us_authTask :: "nat option"
  us_attempts :: "login_stage list"
  us_waiters :: "(auth_source \<times> auth_use) list"
  us_localUser :: "platform_user option"
  us_handlers :: bool
  us_operations :: "string \<rightharpoonup> nat"
  us_events :: "game_connection_state list"
  us_client_disconnects :: nat
  us_leaving :: "(nat \<times> bool) list"
  us_logins :: "(nat \<times> auth_parameters) list"
  us_rpcs :: "(user_request \<times> nat \<times> string \<times> user_arguments) list"
  us_private :: "(user_request \<times> string) list"
  us_answers :: "(auth_use \<times> string res) list"

text \<open>\<open>handlers\<close> says that a handler of credentials or the callback is present.\<close>

definition UsersApi :: "bool \<Rightarrow> users_api" where
  "UsersApi handlers =
     \<lparr>us_autoReconnect = True, us_userId = '''', us_username = '''', us_client = True, us_client_scenes = False,
      us_state = GameConnectionState GDisconnected, us_authTask = None, us_attempts = [], us_waiters = [],
      us_localUser = None, us_handlers = handlers, us_operations = Map.empty, us_events = [],
      us_client_disconnects = 0, us_leaving = [], us_logins = [], us_rpcs = [], us_private = [], us_answers = []\<rparr>"

section \<open>The state of the connection and the attempts to log in\<close>

definition fatal_reason :: "string \<Rightarrow> bool" where
  "fatal_reason r \<longleftrightarrow>
     r = ''User connected elsewhere'' \<or> r = ''Authentication failed'' \<or> r = ''auth.login.new_connection''"

definition enter_state :: "game_connection_state \<Rightarrow> users_api \<Rightarrow> users_api" where
  "enter_state s u = u\<lparr>us_state := s, us_events := us_events u @ [s]\<rparr>"

definition wait_for :: "auth_source \<Rightarrow> auth_use \<Rightarrow> users_api \<Rightarrow> users_api" where
  "wait_for src use u = u\<lparr>us_waiters := us_waiters u @ [(src, use)]\<rparr>"

definition no_handler_error :: storm_exn where
  "no_handler_error = RuntimeError (''No IAuthenticationEventHandler are present, and 'getCredentialsCallback' is not set. At least one IAuthenticationEventHandler should be available in the client's DependencyScope, or 'getCredentialsCallback' should be set.'')"

definition not_logged_error :: storm_exn where
  "not_logged_error = RuntimeError ''Authenticator disconnected. Call login before using the UsersApi.''"

fun users_rank :: "(game_connection_state \<times> users_api + bool \<times> users_api) + (auth_use \<times> users_api + nat \<times> users_api) \<Rightarrow> nat" where
  "users_rank (Inl (Inl (s, u))) =
     (case gs_state s of
        GDisconnected \<Rightarrow> if fatal_reason (gs_reason s) \<or> us_autoReconnect u then 6 else 1
      | GReconnecting \<Rightarrow> 4
      | _ \<Rightarrow> 0)"
| "users_rank (Inl (Inr (b, u))) = 5"
| "users_rank (Inr (Inl (x, u))) = 3"
| "users_rank (Inr (Inr (r, u))) = 2"

text \<open>
  \<^verbatim>\<open>setConnectionState\<close>, \<^verbatim>\<open>logout\<close>, \<^verbatim>\<open>getAuthenticationScene\<close> and \<^verbatim>\<open>loginImpl\<close> call each other: a lost
  connection starts a new attempt, and a fatal reason disconnects the client, whose plugins log
  the user out. The task that \<^verbatim>\<open>loginImpl\<close> returns is stored only once the call has returned.
\<close>

function (sequential) setUserConnectionState :: "game_connection_state \<Rightarrow> users_api \<Rightarrow> users_api"
  and users_logout :: "bool \<Rightarrow> users_api \<Rightarrow> users_api"
  and getAuthenticationScene :: "auth_use \<Rightarrow> users_api \<Rightarrow> users_api"
  and loginImpl :: "nat \<Rightarrow> users_api \<Rightarrow> login_stage \<times> users_api"
where
  "setUserConnectionState s u =
     (if same_game_state (us_state u) s then u
      else if gs_state s = GDisconnected then
        (let u1 = u\<lparr>us_authTask := None\<rparr>;
             u2 = (if fatal_reason (gs_reason s)
                   then (if us_client u
                         then (if us_client_scenes u
                               then users_logout False (u1\<lparr>us_autoReconnect := False, us_client_disconnects := Suc (us_client_disconnects u)\<rparr>)
                               else u1\<lparr>us_autoReconnect := False, us_client_disconnects := Suc (us_client_disconnects u)\<rparr>)
                         else u1\<lparr>us_autoReconnect := False\<rparr>)
                   else u1)
         in if \<not> fatal_reason (gs_reason s) \<and> us_autoReconnect u \<and> us_client u
            then setUserConnectionState (GameConnectionState GReconnecting) u1
            else enter_state s u2)
      else if gs_state s = GReconnecting then getAuthenticationScene WaitReconnect (enter_state s u)
      else enter_state s u)"
| "users_logout relogin u =
     (if gs_state (us_state u) \<noteq> GDisconnected \<and> gs_state (us_state u) \<noteq> GDisconnecting
      then getAuthenticationScene (WaitLogout relogin)
             (setUserConnectionState (GameConnectionState GDisconnecting) (u\<lparr>us_autoReconnect := False\<rparr>))
      else wait_for Immediate (WaitLogout relogin) (u\<lparr>us_autoReconnect := False\<rparr>))"
| "getAuthenticationScene use u =
     (if \<not> us_client u then wait_for (Refused (RuntimeError ''Client is invalid.'')) use u
      else
        (case us_authTask u of
           Some n \<Rightarrow> wait_for (Attempt n) use u
         | None \<Rightarrow>
             if \<not> us_autoReconnect u then wait_for (Refused not_logged_error) use u
             else (let (st, u1) = loginImpl 0 u; n = length (us_attempts u1)
                   in wait_for (Attempt n) use (u1\<lparr>us_attempts := us_attempts u1 @ [st], us_authTask := Some n\<rparr>))))"
| "loginImpl retry u =
     (let u1 = setUserConnectionState (GameConnectionState GConnecting) u
      in if \<not> us_handlers u1
         then (LoginFailed no_handler_error,
               setUserConnectionState (GameConnectionState GDisconnected) (u1\<lparr>us_autoReconnect := False\<rparr>))
         else if \<not> us_client u1
         then (LoginFailed (RuntimeError ''Client destroyed.''),
               setUserConnectionState (GameConnectionState GDisconnected) (u1\<lparr>us_autoReconnect := False\<rparr>))
         else (ConnectingScene retry, u1\<lparr>us_client_scenes := True\<rparr>))"
  by pat_completeness auto

termination
  by (relation "measure users_rank") (auto simp: GameConnectionState_def fatal_reason_def)

declare setUserConnectionState.simps [simp del] users_logout.simps [simp del]
  getAuthenticationScene.simps [simp del] loginImpl.simps [simp del]

definition set_login_stage :: "nat \<Rightarrow> login_stage \<Rightarrow> users_api \<Rightarrow> users_api" where
  "set_login_stage n st u = u\<lparr>us_attempts := (us_attempts u)[n := st]\<rparr>"

definition login_stage_of :: "nat \<Rightarrow> users_api \<Rightarrow> login_stage option" where
  "login_stage_of n u = (if n < length (us_attempts u) then Some (us_attempts u ! n) else None)"

definition RETRY_COUNTER_MAX :: nat where
  "RETRY_COUNTER_MAX = 100"

text \<open>The delay before attempt \<^term>\<open>retry\<close>, in milliseconds.\<close>

definition reconnect_delay :: "nat \<Rightarrow> nat" where
  "reconnect_delay retry = (if retry * 1000 > 5000 then 5000 else retry * 1000)"

definition reconnect :: "nat \<Rightarrow> nat \<Rightarrow> users_api \<Rightarrow> users_api" where
  "reconnect n retry u = set_login_stage n (Delayed retry) (setUserConnectionState (GameConnectionState GReconnecting) u)"

text \<open>The delay of attempt \<^term>\<open>n\<close> is over.\<close>

definition delay_elapsed :: "nat \<Rightarrow> users_api \<Rightarrow> users_api" where
  "delay_elapsed n u =
     (case login_stage_of n u of
        Some (Delayed retry) \<Rightarrow> (let (st, u1) = loginImpl retry u in set_login_stage n st u1)
      | _ \<Rightarrow> u)"

text \<open>The last continuation of an attempt, on an exception.\<close>

definition attempt_failed :: "nat \<Rightarrow> nat \<Rightarrow> storm_exn \<Rightarrow> users_api \<Rightarrow> users_api" where
  "attempt_failed n retry ex u =
     (if us_autoReconnect u \<and> gs_state (us_state u) \<noteq> GDisconnected
      then reconnect n (min (retry + 1) RETRY_COUNTER_MAX) u
      else set_login_stage n (LoginFailed ex) u)"

text \<open>The scene of the authenticator is connected, or could not be.\<close>

definition authenticator_connected :: "nat \<Rightarrow> nat res \<Rightarrow> users_api \<Rightarrow> users_api" where
  "authenticator_connected n r u =
     (case login_stage_of n u of
        Some (ConnectingScene retry) \<Rightarrow>
          (case r of
             Inl ex \<Rightarrow> attempt_failed n retry ex u
           | Inr scene \<Rightarrow>
               if \<not> us_autoReconnect u
               then attempt_failed n retry (RuntimeError ''Auto recconnection is disable please login before'') u
               else set_login_stage n (RetrievingCredentials retry scene) u)
      | _ \<Rightarrow> u)"

text \<open>The handlers of credentials are done; the request to log in is sent over the scene.\<close>

definition credentials_retrieved :: "nat \<Rightarrow> auth_parameters res \<Rightarrow> users_api \<Rightarrow> users_api" where
  "credentials_retrieved n r u =
     (case login_stage_of n u of
        Some (RetrievingCredentials retry scene) \<Rightarrow>
          (case r of
             Inl ex \<Rightarrow>
               attempt_failed n retry
                 (RuntimeError (credentials_message ''An exception was thrown by an IAuthenticationEventHandler::retrieveCredentials() call'' (what ex)))
                 (u\<lparr>us_autoReconnect := False\<rparr>)
           | Inr ctx \<Rightarrow> set_login_stage n (LoggingIn retry scene) (u\<lparr>us_logins := us_logins u @ [(scene, ctx)]\<rparr>))
      | _ \<Rightarrow> u)"

text \<open>The server has answered the request to log in.\<close>

definition login_answered :: "nat \<Rightarrow> login_result res \<Rightarrow> users_api \<Rightarrow> users_api" where
  "login_answered n r u =
     (case login_stage_of n u of
        Some (LoggingIn retry scene) \<Rightarrow>
          (case r of
             Inl ex \<Rightarrow> attempt_failed n retry ex u
           | Inr result \<Rightarrow>
               if \<not> lr_success result
               then attempt_failed n retry (RuntimeError (''Login failed : '' @ lr_errorMsg result))
                      (setUserConnectionState (GameConnectionState GDisconnected) (u\<lparr>us_autoReconnect := False\<rparr>))
               else set_login_stage n (LoginDone scene)
                      (setUserConnectionState (GameConnectionState GAuthenticated)
                        (u\<lparr>us_userId := lr_userId result, us_username := lr_username result\<rparr>)))
      | _ \<Rightarrow> u)"

text \<open>
  The subscription to the state of the scene of the authenticator. A scene that is connecting
  only fires the event.
\<close>

definition authenticator_state :: "ConnectionState \<Rightarrow> users_api \<Rightarrow> users_api" where
  "authenticator_state s u =
     (case cs_state s of
        Disconnecting \<Rightarrow> setUserConnectionState (GameConnectionState GDisconnecting) u
      | Disconnected \<Rightarrow> setUserConnectionState \<lparr>gs_state = GDisconnected, gs_reason = cs_reason s\<rparr> u
      | Connecting \<Rightarrow> u\<lparr>us_events := us_events u @ [GameConnectionState GConnecting]\<rparr>
      | Connected \<Rightarrow> u)"

section \<open>The calls of the API\<close>

definition users_login :: "users_api \<Rightarrow> users_api" where
  "users_login u = getAuthenticationScene WaitLogin (u\<lparr>us_autoReconnect := True\<rparr>)"

definition users_request :: "user_request \<Rightarrow> users_api \<Rightarrow> users_api" where
  "users_request q u = getAuthenticationScene (WaitRequest q) u"

definition setCurrentLocalUser :: "platform_user option \<Rightarrow> users_api \<Rightarrow> users_api" where
  "setCurrentLocalUser user u =
     (case user of
        None \<Rightarrow> users_logout False (u\<lparr>us_localUser := None\<rparr>)
      | Some p \<Rightarrow>
          if gs_state (us_state u) = GDisconnected \<or> gs_state (us_state u) = GDisconnecting
          then u\<lparr>us_localUser := Some p\<rparr>
          else
            (case us_localUser u of
               Some q \<Rightarrow> if same_platform_user q p then u else users_logout True (u\<lparr>us_localUser := Some p\<rparr>)
             | None \<Rightarrow> users_logout True (u\<lparr>us_localUser := Some p\<rparr>)))"

definition getCurrentLocalUser :: "users_api \<Rightarrow> platform_user option" where
  "getCurrentLocalUser u = us_localUser u"

definition connectionState :: "users_api \<Rightarrow> game_connection_state" where
  "connectionState u = us_state u"

definition clientDisconnecting :: "users_api \<Rightarrow> users_api" where
  "clientDisconnecting u = users_logout False u"

definition answer_user :: "auth_use \<Rightarrow> string res \<Rightarrow> users_api \<Rightarrow> users_api" where
  "answer_user use r u = u\<lparr>us_answers := us_answers u @ [(use, r)]\<rparr>"

text \<open>Logging out is over; \<^verbatim>\<open>setCurrentLocalUser\<close> logs in again.\<close>

definition logout_done :: "bool \<Rightarrow> users_api \<Rightarrow> users_api" where
  "logout_done relogin u = (if relogin then users_login u else answer_user (WaitLogout False) (Inr '''') u)"

text \<open>The client is asked for the private scene of a token.\<close>

definition private_scene :: "user_request \<Rightarrow> string \<Rightarrow> users_api \<Rightarrow> users_api" where
  "private_scene q token u =
     (if us_client u then u\<lparr>us_private := us_private u @ [(q, token)]\<rparr>
      else answer_user (WaitRequest q) (Inl (RuntimeError ''Client is invalid.'')) u)"

text \<open>A request has the scene of the authenticator.\<close>

definition request_ready :: "user_request \<Rightarrow> nat \<Rightarrow> users_api \<Rightarrow> users_api" where
  "request_ready q scene u =
     (case request_rpc q of
        Some (route, args) \<Rightarrow> u\<lparr>us_rpcs := us_rpcs u @ [(q, scene, route, args)]\<rparr>
      | None \<Rightarrow> (case q of PrivateSceneByToken token \<Rightarrow> private_scene q token u | _ \<Rightarrow> u))"

text \<open>
  The answer of the server to the request at \<^term>\<open>i\<close>; \<^verbatim>\<open>authenticate\<close> asks for the status then,
  whatever the login result says.
\<close>

definition request_answered :: "nat \<Rightarrow> string res \<Rightarrow> users_api \<Rightarrow> users_api" where
  "request_answered i r u =
     (if i < length (us_rpcs u)
      then (let q = fst (us_rpcs u ! i);
                u1 = u\<lparr>us_rpcs := take i (us_rpcs u) @ drop (Suc i) (us_rpcs u)\<rparr>
            in case r of
                 Inl ex \<Rightarrow> answer_user (WaitRequest q) (Inl ex) u1
               | Inr v \<Rightarrow>
                   (case q of
                      SceneForService _ _ \<Rightarrow> private_scene q v u1
                    | PrivateScene _ \<Rightarrow> private_scene q v u1
                    | Authenticate _ \<Rightarrow> getAuthenticationScene (WaitRequest AuthenticationStatus) u1
                    | _ \<Rightarrow> answer_user (WaitRequest q) (Inr v) u1))
      else u)"

text \<open>What a caller does with the scene, or with the exception it gets instead.\<close>

definition deliver :: "auth_use \<Rightarrow> nat res \<Rightarrow> users_api \<Rightarrow> users_api" where
  "deliver use r u =
     (case use of
        WaitNobody \<Rightarrow> u
      | WaitReconnect \<Rightarrow> u
      | WaitLogin \<Rightarrow> answer_user use (case r of Inl ex \<Rightarrow> Inl ex | Inr _ \<Rightarrow> Inr '''') u
      | WaitLogout relogin \<Rightarrow>
          (case r of
             Inl ex \<Rightarrow> logout_done relogin u
           | Inr scene \<Rightarrow> u\<lparr>us_leaving := us_leaving u @ [(scene, relogin)]\<rparr>)
      | WaitRequest q \<Rightarrow> (case r of Inl ex \<Rightarrow> answer_user use (Inl ex) u | Inr scene \<Rightarrow> request_ready q scene u))"

definition drop_waiter :: "nat \<Rightarrow> users_api \<Rightarrow> users_api" where
  "drop_waiter i u = u\<lparr>us_waiters := take i (us_waiters u) @ drop (Suc i) (us_waiters u)\<rparr>"

text \<open>
  The continuation at \<^term>\<open>i\<close> runs, when its task has ended; one that finds an exception in the
  task of an attempt resets \<^verbatim>\<open>_authTask\<close>.
\<close>

definition users_waiter :: "nat \<Rightarrow> users_api \<Rightarrow> users_api" where
  "users_waiter i u =
     (if i < length (us_waiters u)
      then (case us_waiters u ! i of
              (Refused ex, use) \<Rightarrow> deliver use (Inl ex) (drop_waiter i u)
            | (Immediate, WaitLogout relogin) \<Rightarrow> logout_done relogin (drop_waiter i u)
            | (Immediate, _) \<Rightarrow> drop_waiter i u
            | (Attempt n, use) \<Rightarrow>
                (case login_stage_of n u of
                   Some (LoginDone scene) \<Rightarrow> deliver use (Inr scene) (drop_waiter i u)
                 | Some (LoginFailed ex) \<Rightarrow> deliver use (Inl ex) ((drop_waiter i u)\<lparr>us_authTask := None\<rparr>)
                 | _ \<Rightarrow> u))
      else u)"

text \<open>
  The cancellation token of a request for a scene completes the caller's task; the continuation
  on the attempt stays.
\<close>

fun cancelable_use :: "auth_use \<Rightarrow> bool" where
  "cancelable_use (WaitRequest (SceneConnectionToken _ _)) = True"
| "cancelable_use (WaitRequest (SceneForService _ _)) = True"
| "cancelable_use _ = False"

definition cancel_waiter :: "nat \<Rightarrow> users_api \<Rightarrow> users_api" where
  "cancel_waiter i u =
     (if i < length (us_waiters u)
      then (case us_waiters u ! i of
              (Attempt n, use) \<Rightarrow>
                if cancelable_use use
                then answer_user use (Inl TaskCanceled) (u\<lparr>us_waiters := (us_waiters u)[i := (Attempt n, WaitNobody)]\<rparr>)
                else u
            | _ \<Rightarrow> u)
      else u)"

text \<open>The scene has been told to disconnect; how that ends makes no difference.\<close>

definition authenticator_left :: "nat \<Rightarrow> users_api \<Rightarrow> users_api" where
  "authenticator_left i u =
     (if i < length (us_leaving u)
      then logout_done (snd (us_leaving u ! i))
             (u\<lparr>us_leaving := take i (us_leaving u) @ drop (Suc i) (us_leaving u)\<rparr>)
      else u)"

section \<open>Credentials, renewals and operations\<close>

text \<open>
  A handler gets the shared parameters and the local user, leaves parameters behind and may
  throw. The handlers run one after the other on the same parameters. The result of the callback
  is that of the task it returns; a callback that throws instead ends the continuation with the
  scene, before the \<^verbatim>\<open>catch\<close> that switches the reconnection off, as the action \<open>SceneOf n (Inl ex)\<close>
  does.
\<close>

type_synonym credentials_handler =
  "auth_parameters \<Rightarrow> platform_user option \<Rightarrow> auth_parameters \<times> storm_exn option"

fun run_credentials :: "credentials_handler list \<Rightarrow> platform_user option \<Rightarrow> auth_parameters \<Rightarrow> auth_parameters res" where
  "run_credentials [] user p = Inr p"
| "run_credentials (h # hs) user p =
     (case h p user of
        (_, Some ex) \<Rightarrow> Inl ex
      | (p1, None) \<Rightarrow> run_credentials hs user p1)"

definition runCredentialsEventHandlers ::
  "auth_parameters res option \<Rightarrow> credentials_handler list \<Rightarrow> platform_user option \<Rightarrow> auth_parameters res" where
  "runCredentialsEventHandlers getCredentialsCallback hs user =
     (case getCredentialsCallback of
        None \<Rightarrow> run_credentials hs user \<lparr>ap_type = '''', ap_parameters = Map.empty\<rparr>
      | Some r \<Rightarrow> bind_res r (run_credentials hs user))"

text \<open>The renewal handlers fill the parameters of the response; the default one leaves them alone.\<close>

type_synonym renewal_handler =
  "string \<Rightarrow> (string \<rightharpoonup> string) \<Rightarrow> (string \<rightharpoonup> string) \<times> storm_exn option"

definition default_renewal :: renewal_handler where
  "default_renewal provider r = (r, None)"

fun run_renewals :: "renewal_handler list \<Rightarrow> string \<Rightarrow> (string \<rightharpoonup> string) \<Rightarrow> (string \<rightharpoonup> string) res" where
  "run_renewals [] provider r = Inr r"
| "run_renewals (h # hs) provider r =
     (case h provider r of
        (_, Some ex) \<Rightarrow> Inl ex
      | (r1, None) \<Rightarrow> run_renewals hs provider r1)"

definition runCredentialsRenewalHandlers :: "renewal_handler list \<Rightarrow> string \<Rightarrow> (string \<rightharpoonup> string) res" where
  "runCredentialsRenewalHandlers hs provider = run_renewals hs provider Map.empty"

text \<open>The procedure \<^verbatim>\<open>users.renewCredentials\<close>: the value sent, if any; an exception is only logged.\<close>

definition renewCredentials_procedure :: "bool \<Rightarrow> renewal_handler list \<Rightarrow> string \<Rightarrow> (string \<rightharpoonup> string) option" where
  "renewCredentials_procedure alive hs provider =
     (if \<not> alive then None
      else (case runCredentialsRenewalHandlers hs provider of Inl ex \<Rightarrow> None | Inr r \<Rightarrow> Some r))"

definition setOperationHandler :: "string \<Rightarrow> nat \<Rightarrow> users_api \<Rightarrow> users_api" where
  "setOperationHandler operation handler u = u\<lparr>us_operations := (us_operations u)(operation \<mapsto> handler)\<rparr>"

text \<open>
  The procedure \<^verbatim>\<open>sendRequest\<close>: the input is the origin and the operation read from the stream,
  the result the handler to call with them.
\<close>

definition sendRequest_procedure ::
  "(string \<times> string) res \<Rightarrow> users_api option \<Rightarrow> (nat \<times> string \<times> string) res" where
  "sendRequest_procedure input that =
     bind_res input (\<lambda>(originId, operation).
       (case that of
          None \<Rightarrow> Inl (RuntimeError ''UsersApi destroyed'')
        | Some u \<Rightarrow>
            (case us_operations u operation of
               None \<Rightarrow> Inl (RuntimeError ''operation.notfound'')
             | Some h \<Rightarrow> Inr (h, originId, operation))))"

section \<open>Runs\<close>

text \<open>What can happen to the API, one action at a time.\<close>

datatype users_action =
    CallLogin
  | CallLogout
  | CallSetUser "platform_user option"
  | CallRequest user_request
  | CallSetOperation string nat
  | ClientLeaves
  | ClientScenes bool
  | ClientGone
  | SceneStates ConnectionState
  | SceneOf nat "nat res"
  | CredentialsOf nat "auth_parameters res"
  | LoginReply nat "login_result res"
  | DelayOver nat
  | RunWaiter nat
  | CancelWaiter nat
  | RpcReply nat "string res"
  | SceneLeft nat

fun users_act :: "users_action \<Rightarrow> users_api \<Rightarrow> users_api" where
  "users_act CallLogin u = users_login u"
| "users_act CallLogout u = users_logout False u"
| "users_act (CallSetUser p) u = setCurrentLocalUser p u"
| "users_act (CallRequest q) u = users_request q u"
| "users_act (CallSetOperation op h) u = setOperationHandler op h u"
| "users_act ClientLeaves u = clientDisconnecting u"
| "users_act (ClientScenes b) u = u\<lparr>us_client_scenes := b\<rparr>"
| "users_act ClientGone u = u\<lparr>us_client := False\<rparr>"
| "users_act (SceneStates s) u = authenticator_state s u"
| "users_act (SceneOf n r) u = authenticator_connected n r u"
| "users_act (CredentialsOf n r) u = credentials_retrieved n r u"
| "users_act (LoginReply n r) u = login_answered n r u"
| "users_act (DelayOver n) u = delay_elapsed n u"
| "users_act (RunWaiter i) u = users_waiter i u"
| "users_act (CancelWaiter i) u = cancel_waiter i u"
| "users_act (RpcReply i r) u = request_answered i r u"
| "users_act (SceneLeft i) u = authenticator_left i u"

definition users_run :: "users_action list \<Rightarrow> users_api \<Rightarrow> users_api" where
  "users_run acts u = fold users_act acts u"

lemma users_run_simps [simp]:
  "users_run [] u = u"
  "users_run (a # acts) u = users_run acts (users_act a u)"
  by (simp_all add: users_run_def)

lemma users_run_append: "users_run (xs @ ys) u = users_run ys (users_run xs u)"
  by (simp add: users_run_def)

section \<open>What the operations come down to\<close>

lemma same_game_state_iff: "same_game_state (us_state u) s \<longleftrightarrow> gs_state (us_state u) = gs_state s"
  by (simp add: same_game_state_def)

lemma gs_GameConnectionState [simp]:
  "gs_state (GameConnectionState s) = s" "gs_reason (GameConnectionState s) = ''''"
  by (simp_all add: GameConnectionState_def)

lemma not_fatal_empty [simp]: "\<not> fatal_reason ''''"
  by (simp add: fatal_reason_def)

lemma setUserConnectionState_plain:
  assumes "gs_state s \<noteq> GDisconnected" and "gs_state s \<noteq> GReconnecting"
  shows "setUserConnectionState s u = (if gs_state (us_state u) = gs_state s then u else enter_state s u)"
  using assms by (simp add: setUserConnectionState.simps [of s u] same_game_state_iff)

lemma setUserConnectionState_off:
  assumes "gs_state s = GDisconnected" and "\<not> fatal_reason (gs_reason s)" and "\<not> us_autoReconnect u"
  shows "setUserConnectionState s u =
           (if gs_state (us_state u) = GDisconnected then u else enter_state s (u\<lparr>us_authTask := None\<rparr>))"
  using assms by (simp add: setUserConnectionState.simps [of s u] same_game_state_iff)

definition connecting :: "users_api \<Rightarrow> users_api" where
  "connecting u = (if gs_state (us_state u) = GConnecting then u else enter_state (GameConnectionState GConnecting) u)"

definition given_up :: "users_api \<Rightarrow> users_api" where
  "given_up u = enter_state (GameConnectionState GDisconnected) (u\<lparr>us_autoReconnect := False, us_authTask := None\<rparr>)"

lemma connecting_sel [simp]:
  "gs_state (us_state (connecting u)) = GConnecting"
  "us_handlers (connecting u) = us_handlers u" "us_client (connecting u) = us_client u"
  "us_attempts (connecting u) = us_attempts u" "us_waiters (connecting u) = us_waiters u"
  "us_authTask (connecting u) = us_authTask u" "us_autoReconnect (connecting u) = us_autoReconnect u"
  by (simp_all add: connecting_def enter_state_def)

lemma given_up_sel [simp]:
  "us_state (given_up u) = GameConnectionState GDisconnected"
  "us_attempts (given_up u) = us_attempts u" "us_waiters (given_up u) = us_waiters u"
  "us_authTask (given_up u) = None" "us_autoReconnect (given_up u) = False"
  by (simp_all add: given_up_def enter_state_def)

lemma loginImpl_eq:
  "loginImpl retry u =
     (if \<not> us_handlers u then (LoginFailed no_handler_error, given_up (connecting u))
      else if \<not> us_client u then (LoginFailed (RuntimeError ''Client destroyed.''), given_up (connecting u))
      else (ConnectingScene retry, (connecting u)\<lparr>us_client_scenes := True\<rparr>))"
proof -
  have c: "setUserConnectionState (GameConnectionState GConnecting) u = connecting u"
    by (simp add: setUserConnectionState_plain connecting_def)
  have "setUserConnectionState (GameConnectionState GDisconnected) ((connecting u)\<lparr>us_autoReconnect := False\<rparr>)
      = given_up (connecting u)"
    by (simp add: setUserConnectionState_off given_up_def)
  then show ?thesis
    by (simp add: loginImpl.simps [of retry u] c Let_def)
qed

lemma getAuthenticationScene_cases:
  obtains (refused) ex where "getAuthenticationScene use u = wait_for (Refused ex) use u"
      and "\<not> us_client u \<or> \<not> us_autoReconnect u \<and> us_authTask u = None"
    | (shared) n where "us_client u" and "us_authTask u = Some n"
      and "getAuthenticationScene use u = wait_for (Attempt n) use u"
    | (attempt) st u1 where "us_client u" and "us_authTask u = None" and "us_autoReconnect u"
      and "loginImpl 0 u = (st, u1)"
      and "getAuthenticationScene use u =
             wait_for (Attempt (length (us_attempts u))) use
               (u1\<lparr>us_attempts := us_attempts u @ [st], us_authTask := Some (length (us_attempts u))\<rparr>)"
proof (cases "us_client u")
  case False
  then show ?thesis
    by (intro refused) (simp_all add: getAuthenticationScene.simps [of use u])
next
  case c: True
  show ?thesis
  proof (cases "us_authTask u")
    case (Some n)
    then show ?thesis
      using c by (intro shared) (simp_all add: getAuthenticationScene.simps [of use u])
  next
    case None
    show ?thesis
    proof (cases "us_autoReconnect u")
      case False
      then show ?thesis
        using c None by (intro refused) (simp_all add: getAuthenticationScene.simps [of use u])
    next
      case True
      obtain st u1 where l: "loginImpl 0 u = (st, u1)"
        by (cases "loginImpl 0 u")
      then have "us_attempts u1 = us_attempts u"
        by (auto simp: loginImpl_eq split: if_splits)
      then show ?thesis
        using c None True l by (intro attempt) (simp_all add: getAuthenticationScene.simps [of use u] Let_def)
    qed
  qed
qed

text \<open>
  A predicate that the basic updates keep is kept by the four operations that call each other.
\<close>

locale users_frame =
  fixes P :: "users_api \<Rightarrow> bool"
  assumes entered: "P u \<Longrightarrow> P (enter_state s u)"
    and forgotten: "P u \<Longrightarrow> P (u\<lparr>us_authTask := None\<rparr>)"
    and stopped: "P u \<Longrightarrow> P (u\<lparr>us_autoReconnect := False\<rparr>)"
    and client_told: "P u \<Longrightarrow> P (u\<lparr>us_client_disconnects := k\<rparr>)"
    and immediate: "P u \<Longrightarrow> P (wait_for Immediate use u)"
    and authenticated: "P u \<Longrightarrow> P (getAuthenticationScene use u)"
begin

lemma logged_out: "P u \<Longrightarrow> P (users_logout b u)"
  by (subst users_logout.simps) (simp add: setUserConnectionState_plain entered stopped immediate authenticated)

lemma reconnecting: "P u \<Longrightarrow> P (setUserConnectionState (GameConnectionState GReconnecting) u)"
  by (subst setUserConnectionState.simps) (simp add: entered authenticated)

lemma stopped_forgotten: "P u \<Longrightarrow> P (u\<lparr>us_authTask := None, us_autoReconnect := False\<rparr>)"
  using stopped [OF forgotten] by simp

lemma stopped_told: "P u \<Longrightarrow> P (u\<lparr>us_authTask := None, us_autoReconnect := False, us_client_disconnects := k\<rparr>)"
  using client_told [OF stopped_forgotten] by simp

lemma state_set: "P u \<Longrightarrow> P (setUserConnectionState s u)"
  by (subst setUserConnectionState.simps)
    (simp add: Let_def entered forgotten reconnecting logged_out stopped_forgotten stopped_told authenticated)

end

text \<open>What an attempt looks like at any time, and who takes care of it.\<close>

fun stage_ok :: "login_stage \<Rightarrow> bool" where
  "stage_ok (ConnectingScene r) \<longleftrightarrow> r \<le> RETRY_COUNTER_MAX"
| "stage_ok (RetrievingCredentials r _) \<longleftrightarrow> r \<le> RETRY_COUNTER_MAX"
| "stage_ok (LoggingIn r _) \<longleftrightarrow> r \<le> RETRY_COUNTER_MAX"
| "stage_ok (Delayed r) \<longleftrightarrow> 0 < r \<and> r \<le> RETRY_COUNTER_MAX"
| "stage_ok _ \<longleftrightarrow> True"

definition users_sound :: "users_api \<Rightarrow> bool" where
  "users_sound u \<longleftrightarrow>
     (\<forall>n. us_authTask u = Some n \<longrightarrow>
        n < length (us_attempts u)
        \<and> ((\<exists>sc. us_attempts u ! n = LoginDone sc) \<or> (\<exists>use. (Attempt n, use) \<in> set (us_waiters u))))
     \<and> (\<forall>n use. (Attempt n, use) \<in> set (us_waiters u) \<longrightarrow> n < length (us_attempts u))
     \<and> list_all stage_ok (us_attempts u)"

lemma sound_cong:
  assumes "us_authTask v = us_authTask u" "us_attempts v = us_attempts u" "us_waiters v = us_waiters u"
  shows "users_sound v = users_sound u"
  by (simp add: users_sound_def assms)

lemma sound_forget: "users_sound u \<Longrightarrow> users_sound (u\<lparr>us_authTask := None\<rparr>)"
  by (simp add: users_sound_def)

lemma sound_wait:
  assumes "users_sound u" and "\<And>n. src = Attempt n \<Longrightarrow> n < length (us_attempts u)"
  shows "users_sound (wait_for src use u)"
  using assms by (auto simp: users_sound_def wait_for_def)

lemma loginImpl_facts:
  assumes "loginImpl r u = (st, u1)"
  shows "us_attempts u1 = us_attempts u" "us_waiters u1 = us_waiters u"
    and "us_authTask u1 = us_authTask u \<or> us_authTask u1 = None"
    and "st = ConnectingScene r \<or> (\<exists>ex. st = LoginFailed ex)"
    and "gs_state (us_state u1) = GConnecting \<or> gs_state (us_state u1) = GDisconnected"
  using assms by (auto simp: loginImpl_eq split: if_splits)

lemma sound_authenticate: "users_sound u \<Longrightarrow> users_sound (getAuthenticationScene use u)"
proof (cases rule: getAuthenticationScene_cases [of use u])
  case (attempt st u1)
  note l = loginImpl_facts [OF attempt(4)]
  moreover have "stage_ok st"
    using l(4) by (auto simp: RETRY_COUNTER_MAX_def)
  moreover assume "users_sound u"
  ultimately show ?thesis
    by (auto simp: attempt(5) users_sound_def wait_for_def nth_append less_Suc_eq)
qed (auto simp: users_sound_def wait_for_def)

interpretation sound: users_frame users_sound
proof
  show "users_sound (enter_state s u)" if "users_sound u" for s u
    using that by (simp add: users_sound_def enter_state_def)
  show "users_sound (u\<lparr>us_authTask := None\<rparr>)" if "users_sound u" for u
    by (rule sound_forget [OF that])
  show "users_sound (u\<lparr>us_autoReconnect := False\<rparr>)" if "users_sound u" for u
    using that by (simp add: users_sound_def)
  show "users_sound (u\<lparr>us_client_disconnects := k\<rparr>)" if "users_sound u" for u k
    using that by (simp add: users_sound_def)
  show "users_sound (wait_for Immediate use u)" if "users_sound u" for use u
    by (rule sound_wait [OF that]) simp
qed (rule sound_authenticate)

lemma grown_authenticate:
  "\<exists>ys. us_attempts (getAuthenticationScene use u) = us_attempts u @ ys"
  by (cases rule: getAuthenticationScene_cases [of use u]) (simp_all add: wait_for_def)

definition grown_from :: "login_stage list \<Rightarrow> users_api \<Rightarrow> bool" where
  "grown_from xs u \<longleftrightarrow> (\<exists>ys. us_attempts u = xs @ ys)"

interpretation grown: users_frame "grown_from xs" for xs
proof
  show "grown_from xs (getAuthenticationScene use u)" if "grown_from xs u" for use u
    using that grown_authenticate [of use u] by (auto simp: grown_from_def)
qed (simp_all add: grown_from_def enter_state_def wait_for_def)

lemma attempts_kept:
  assumes "n < length (us_attempts u)"
  shows "us_attempts (setUserConnectionState s u) ! n = us_attempts u ! n"
    and "n < length (us_attempts (setUserConnectionState s u))"
proof -
  obtain ys where "us_attempts (setUserConnectionState s u) = us_attempts u @ ys"
    using grown.state_set [of "us_attempts u" u s] by (auto simp: grown_from_def)
  then show "us_attempts (setUserConnectionState s u) ! n = us_attempts u ! n"
    and "n < length (us_attempts (setUserConnectionState s u))"
    using assms by (simp_all add: nth_append)
qed

text \<open>Every action keeps \<^const>\<open>users_sound\<close>.\<close>

lemma sound_stage:
  assumes "users_sound u" and "stage_ok st" and "login_stage_of n u = Some st0" and "\<And>sc. st0 \<noteq> LoginDone sc"
  shows "users_sound (set_login_stage n st u)"
  using assms by (auto simp: users_sound_def set_login_stage_def login_stage_of_def nth_list_update list_all_length split: if_splits)

lemma login_stage_of_set_state [simp]:
  "login_stage_of n u = Some st \<Longrightarrow> login_stage_of n (setUserConnectionState s u) = Some st"
  using attempts_kept [of n u s] by (auto simp: login_stage_of_def split: if_splits)

lemma sound_reconnect:
  assumes "users_sound u" and "login_stage_of n u = Some st0" and "\<And>sc. st0 \<noteq> LoginDone sc"
    and "0 < r" and "r \<le> RETRY_COUNTER_MAX"
  shows "users_sound (reconnect n r u)"
  unfolding reconnect_def
  by (rule sound_stage [OF sound.state_set [OF assms(1)] _ login_stage_of_set_state [OF assms(2)] assms(3)])
    (simp add: assms)

lemma sound_failed:
  assumes "users_sound u" and "login_stage_of n u = Some st0" and "\<And>sc. st0 \<noteq> LoginDone sc"
  shows "users_sound (attempt_failed n r ex u)"
  using sound_reconnect [OF assms, of "min (Suc r) RETRY_COUNTER_MAX"] sound_stage [OF assms(1) _ assms(2,3)]
  by (simp add: attempt_failed_def RETRY_COUNTER_MAX_def)

lemma login_stage_of_ok: "users_sound u \<Longrightarrow> login_stage_of n u = Some st \<Longrightarrow> stage_ok st"
  by (auto simp: users_sound_def login_stage_of_def list_all_length split: if_splits)

lemma sound_connected: "users_sound u \<Longrightarrow> users_sound (authenticator_connected n r u)"
  using login_stage_of_ok [of u n]
  by (auto simp: authenticator_connected_def intro: sound_failed sound_stage
      split: option.split login_stage.split sum.split)

lemma sound_stop: "users_sound u \<Longrightarrow> users_sound (u\<lparr>us_autoReconnect := b\<rparr>)"
  by (simp add: users_sound_def)

lemma login_stage_of_cong [simp]:
  "login_stage_of n (u\<lparr>us_autoReconnect := b\<rparr>) = login_stage_of n u"
  "login_stage_of n (u\<lparr>us_logins := l\<rparr>) = login_stage_of n u"
  "login_stage_of n (u\<lparr>us_userId := i, us_username := m\<rparr>) = login_stage_of n u"
  by (simp_all add: login_stage_of_def)

lemma sound_credentials: "users_sound u \<Longrightarrow> users_sound (credentials_retrieved n r u)"
proof -
  assume u: "users_sound u"
  have l: "users_sound (u\<lparr>us_logins := k\<rparr>)" for k
    using u by (simp add: users_sound_def)
  show ?thesis
    using login_stage_of_ok [OF u, of n] u
    by (auto simp: credentials_retrieved_def intro!: sound_failed sound_stage l sound_stop
        split: option.split login_stage.split sum.split)
qed

lemma sound_answered: "users_sound u \<Longrightarrow> users_sound (login_answered n r u)"
proof -
  assume u: "users_sound u"
  have i: "users_sound (u\<lparr>us_userId := a, us_username := b\<rparr>)" for a b
    using u by (simp add: users_sound_def)
  have d: "login_stage_of n (setUserConnectionState s (u\<lparr>us_autoReconnect := False\<rparr>)) = Some (LoggingIn r sc)"
    "login_stage_of n (setUserConnectionState s (u\<lparr>us_userId := a, us_username := b\<rparr>)) = Some (LoggingIn r sc)"
    if "login_stage_of n u = Some (LoggingIn r sc)" for s r sc a b
    using that by (auto intro: login_stage_of_set_state)
  show ?thesis
    using login_stage_of_ok [OF u, of n] u
    by (auto simp: login_answered_def
        intro: sound_failed sound_stop sound.state_set d sound_stage [OF sound.state_set [OF i] _ d(2)]
        split: option.split login_stage.split sum.split)
qed

lemma sound_delay: "users_sound u \<Longrightarrow> users_sound (delay_elapsed n u)"
proof (cases "login_stage_of n u")
  case (Some st)
  assume u: "users_sound u"
  show ?thesis
  proof (cases "\<exists>r. st = Delayed r")
    case True
    then obtain r where r: "login_stage_of n u = Some (Delayed r)"
      using Some by auto
    obtain st1 u1 where l: "loginImpl r u = (st1, u1)"
      by (cases "loginImpl r u")
    note f = loginImpl_facts [OF l]
    have "users_sound u1"
      using u f by (auto simp: users_sound_def)
    moreover have "stage_ok st1"
      using f(4) login_stage_of_ok [OF u r] by auto
    moreover have "login_stage_of n u1 = Some (Delayed r)"
      using r f(1) by (simp add: login_stage_of_def split: if_splits)
    ultimately have "users_sound (set_login_stage n st1 u1)"
      by (auto intro: sound_stage)
    then show ?thesis
      by (simp add: delay_elapsed_def r l)
  next
    case False
    with Some u show ?thesis
      by (cases st) (auto simp: delay_elapsed_def)
  qed
qed (simp add: delay_elapsed_def)

lemma sound_login: "users_sound u \<Longrightarrow> users_sound (users_login u)"
  by (simp add: users_login_def sound_authenticate sound_stop)

lemma sound_answer: "users_sound u \<Longrightarrow> users_sound (answer_user use r u)"
  by (simp add: users_sound_def answer_user_def)

lemma sound_logout_done: "users_sound u \<Longrightarrow> users_sound (logout_done b u)"
  by (simp add: logout_done_def sound_login sound_answer)

lemma sound_private: "users_sound u \<Longrightarrow> users_sound (private_scene q t u)"
  by (simp add: private_scene_def sound_answer) (simp add: users_sound_def)

lemma sound_ready: "users_sound u \<Longrightarrow> users_sound (request_ready q sc u)"
proof -
  assume u: "users_sound u"
  have "users_sound (u\<lparr>us_rpcs := l\<rparr>)" for l
    using u by (simp add: users_sound_def)
  then show ?thesis
    using u by (auto simp: request_ready_def sound_private split: option.split user_request.split)
qed

lemma sound_deliver: "users_sound u \<Longrightarrow> users_sound (deliver use r u)"
  by (auto simp: deliver_def sound_answer sound_logout_done sound_ready split: auth_use.split sum.split)
    (simp add: users_sound_def)

lemma set_without:
  assumes "i < length xs" and "x \<in> set xs" and "x \<noteq> xs ! i"
  shows "x \<in> set (take i xs @ drop (Suc i) xs)"
proof -
  have "set xs = set (take i xs @ xs ! i # drop (Suc i) xs)"
    using assms(1) by (simp add: id_take_nth_drop [symmetric])
  then show ?thesis
    using assms by auto
qed

lemma set_without_subset: "set (take i xs @ drop j xs) \<subseteq> set xs"
  by (auto dest: in_set_takeD in_set_dropD)

lemma sound_waitersI:
  assumes "users_sound u" and "set (us_waiters v) \<subseteq> set (us_waiters u)" and "us_attempts v = us_attempts u"
    and "\<And>n. us_authTask v = Some n \<Longrightarrow>
       us_authTask u = Some n
       \<and> ((\<exists>sc. us_attempts u ! n = LoginDone sc) \<or> (\<exists>use. (Attempt n, use) \<in> set (us_waiters v)))"
  shows "users_sound v"
  using assms unfolding users_sound_def by (metis subsetD)

lemma sound_drop:
  assumes "users_sound u" and "i < length (us_waiters u)"
    and "\<And>n use. us_waiters u ! i = (Attempt n, use) \<Longrightarrow> us_authTask u = Some n \<Longrightarrow> \<exists>sc. us_attempts u ! n = LoginDone sc"
  shows "users_sound (drop_waiter i u)"
proof -
  have w: "us_waiters (drop_waiter i u) = take i (us_waiters u) @ drop (Suc i) (us_waiters u)"
    by (simp add: drop_waiter_def)
  have "\<exists>use. (Attempt n, use) \<in> set (us_waiters (drop_waiter i u))"
    if n: "us_authTask u = Some n" and d: "\<nexists>sc. us_attempts u ! n = LoginDone sc" for n
  proof -
    obtain use where use: "(Attempt n, use) \<in> set (us_waiters u)"
      using assms(1) n d by (auto simp: users_sound_def)
    then show ?thesis
      using set_without [OF assms(2) use] assms(3) n d w by metis
  qed
  then show ?thesis
    by (intro sound_waitersI [OF assms(1)])
      (auto simp: drop_waiter_def dest: in_set_takeD in_set_dropD)
qed

lemma sound_drop_forget:
  assumes "users_sound u"
  shows "users_sound ((drop_waiter i u)\<lparr>us_authTask := None\<rparr>)"
  by (rule sound_waitersI [OF assms]) (auto simp: drop_waiter_def dest: in_set_takeD in_set_dropD)

lemma sound_users_waiter: "users_sound u \<Longrightarrow> users_sound (users_waiter i u)"
proof (cases "i < length (us_waiters u)")
  case True
  assume u: "users_sound u"
  obtain src use where w: "us_waiters u ! i = (src, use)"
    by (cases "us_waiters u ! i")
  have plain: "users_sound (drop_waiter i u)" if "\<And>n. src \<noteq> Attempt n"
    using sound_drop [OF u True] that w by auto
  show ?thesis
  proof (cases src)
    case (Attempt n)
    show ?thesis
    proof (cases "login_stage_of n u")
      case None
      then show ?thesis
        using True w Attempt u by (simp add: users_waiter_def)
    next
      case (Some st)
      then have at: "us_attempts u ! n = st"
        by (auto simp: login_stage_of_def split: if_splits)
      then have "users_sound (drop_waiter i u)" if "st = LoginDone sc" for sc
        using sound_drop [OF u True] that w Attempt by auto
      then show ?thesis
        using True w Attempt Some u sound_drop_forget [OF u, of i]
        by (cases st) (simp_all add: users_waiter_def sound_deliver)
    qed
  next
    case Refused
    then show ?thesis
      using True w plain by (simp add: users_waiter_def sound_deliver)
  next
    case Immediate
    then show ?thesis
      using True w plain by (cases use) (simp_all add: users_waiter_def sound_logout_done)
  qed
qed (simp add: users_waiter_def)

lemma sound_cancel: "users_sound u \<Longrightarrow> users_sound (cancel_waiter i u)"
proof (cases "i < length (us_waiters u) \<and> (\<exists>n use. us_waiters u ! i = (Attempt n, use) \<and> cancelable_use use)")
  case True
  assume u: "users_sound u"
  from True obtain n use where w: "us_waiters u ! i = (Attempt n, use)" and c: "cancelable_use use"
    and i: "i < length (us_waiters u)" by auto
  let ?ws = "(us_waiters u)[i := (Attempt n, WaitNobody)]"
  have sub: "m < length (us_attempts u)" if "(Attempt m, x) \<in> set ?ws" for m x
  proof -
    have "(Attempt m, x) = (Attempt n, WaitNobody) \<or> (Attempt m, x) \<in> set (us_waiters u)"
      using that set_update_subset_insert [of "us_waiters u" i "(Attempt n, WaitNobody)"] by auto
    then show ?thesis
      using u w i nth_mem [OF i] by (auto simp: users_sound_def)
  qed
  have sup: "\<exists>x. (Attempt m, x) \<in> set ?ws" if m: "(Attempt m, x) \<in> set (us_waiters u)" for m x
  proof (cases "m = n")
    case True
    then show ?thesis
      using set_update_memI [OF i, of "(Attempt n, WaitNobody)"] by auto
  next
    case False
    obtain j where "j < length (us_waiters u)" "us_waiters u ! j = (Attempt m, x)"
      using m by (auto simp: in_set_conv_nth)
    moreover from this have "j \<noteq> i"
      using False w by auto
    ultimately have "j < length ?ws" "?ws ! j = (Attempt m, x)"
      by simp_all
    then show ?thesis
      by (metis nth_mem)
  qed
  have "users_sound (u\<lparr>us_waiters := ?ws\<rparr>)"
    using u sub sup by (auto simp: users_sound_def)
  then show ?thesis
    using w c i by (simp add: cancel_waiter_def sound_answer)
next
  case False
  assume "users_sound u"
  then show ?thesis
    using False by (auto simp: cancel_waiter_def split: prod.split auth_source.split)
qed

lemma sound_act: "users_sound u \<Longrightarrow> users_sound (users_act a u)"
proof (cases a)
  case (CallSetUser p)
  assume "users_sound u"
  then have "users_sound (u\<lparr>us_localUser := l\<rparr>)" for l
    by (simp add: users_sound_def)
  then show ?thesis
    using CallSetUser \<open>users_sound u\<close>
    by (auto simp: setCurrentLocalUser_def sound.logged_out split: option.split)
next
  case (RpcReply i r)
  assume "users_sound u"
  then have "users_sound (u\<lparr>us_rpcs := l\<rparr>)" for l
    by (simp add: users_sound_def)
  then show ?thesis
    using RpcReply \<open>users_sound u\<close>
    by (auto simp: request_answered_def Let_def sound_answer sound_private sound_authenticate
        split: sum.split user_request.split)
next
  case (SceneLeft i)
  assume "users_sound u"
  then have "users_sound (u\<lparr>us_leaving := l\<rparr>)" for l
    by (simp add: users_sound_def)
  then show ?thesis
    using SceneLeft \<open>users_sound u\<close> by (simp add: authenticator_left_def sound_logout_done)
next
  case (SceneStates s)
  assume "users_sound u"
  moreover have "users_sound (u\<lparr>us_events := l\<rparr>)" for l
    using calculation by (simp add: users_sound_def)
  ultimately show ?thesis
    using SceneStates by (auto simp: authenticator_state_def sound.state_set split: conn_kind.split)
next
  case (CallSetOperation op h)
  assume "users_sound u"
  then show ?thesis
    using CallSetOperation by (simp add: setOperationHandler_def users_sound_def)
next
  case (ClientScenes b)
  assume "users_sound u"
  then show ?thesis
    using ClientScenes by (simp add: users_sound_def)
next
  case ClientGone
  assume "users_sound u"
  then show ?thesis
    using ClientGone by (simp add: users_sound_def)
qed (simp_all add: sound_login sound.logged_out users_request_def sound_authenticate clientDisconnecting_def
    sound_connected sound_credentials sound_answered sound_delay sound_users_waiter sound_cancel)

locale users_invariant =
  fixes P :: "users_api \<Rightarrow> bool"
  assumes kept: "P u \<Longrightarrow> P (users_act a u)"
begin

lemma run: "P u \<Longrightarrow> P (users_run acts u)"
  by (induction acts arbitrary: u) (simp_all add: kept)

end

interpretation sound_runs: users_invariant users_sound
  by unfold_locales (rule sound_act)

lemma sound_start: "users_sound (UsersApi h)"
  by (simp add: users_sound_def UsersApi_def)

section \<open>Who is reconnecting\<close>

text \<open>
  \<^term>\<open>no_more_reconnecting u v\<close>: the step from \<^term>\<open>u\<close> to \<^term>\<open>v\<close> neither starts to reconnect nor ends a
  delay.
\<close>

definition no_more_reconnecting :: "users_api \<Rightarrow> users_api \<Rightarrow> bool" where
  "no_more_reconnecting u v \<longleftrightarrow>
     (gs_state (us_state v) = GReconnecting \<longrightarrow> gs_state (us_state u) = GReconnecting)
     \<and> (\<forall>r. Delayed r \<in> set (us_attempts u) \<longrightarrow> Delayed r \<in> set (us_attempts v))"

definition retry_scheduled :: "users_api \<Rightarrow> bool" where
  "retry_scheduled u \<longleftrightarrow> (gs_state (us_state u) = GReconnecting \<longrightarrow> (\<exists>r. Delayed r \<in> set (us_attempts u)))"

lemma nmr_scheduled: "no_more_reconnecting u v \<Longrightarrow> retry_scheduled u \<Longrightarrow> retry_scheduled v"
  by (auto simp: no_more_reconnecting_def retry_scheduled_def)

lemma nmr_trans: "no_more_reconnecting u v \<Longrightarrow> no_more_reconnecting v w \<Longrightarrow> no_more_reconnecting u w"
  by (auto simp: no_more_reconnecting_def)

lemma nmr_same:
  "us_state v = us_state u \<Longrightarrow> us_attempts v = us_attempts u \<Longrightarrow> no_more_reconnecting u v"
  by (simp add: no_more_reconnecting_def)

lemma nmr_enter: "gs_state s \<noteq> GReconnecting \<Longrightarrow> no_more_reconnecting u (enter_state s u)"
  by (simp add: no_more_reconnecting_def enter_state_def)

lemma nmr_authenticate: "no_more_reconnecting u (getAuthenticationScene use u)"
proof (cases rule: getAuthenticationScene_cases [of use u])
  case (attempt st u1)
  show ?thesis
    using loginImpl_facts [OF attempt(4)] by (auto simp: attempt(5) no_more_reconnecting_def wait_for_def)
qed (simp_all add: no_more_reconnecting_def wait_for_def)

lemma nmr_logout: "no_more_reconnecting u (users_logout b u)"
proof (cases "gs_state (us_state u) \<noteq> GDisconnected \<and> gs_state (us_state u) \<noteq> GDisconnecting")
  case True
  have "users_logout b u = getAuthenticationScene (WaitLogout b)
      (enter_state (GameConnectionState GDisconnecting) (u\<lparr>us_autoReconnect := False\<rparr>))"
    by (subst users_logout.simps) (use True in \<open>simp add: setUserConnectionState_plain\<close>)
  moreover have "no_more_reconnecting u (enter_state (GameConnectionState GDisconnecting) (u\<lparr>us_autoReconnect := False\<rparr>))"
    by (simp add: no_more_reconnecting_def enter_state_def)
  ultimately show ?thesis
    using nmr_trans nmr_authenticate by metis
next
  case False
  then show ?thesis
    by (subst users_logout.simps) (auto simp: no_more_reconnecting_def wait_for_def)
qed

text \<open>A lost connection starts an attempt at once, so the state is \<^const>\<open>GReconnecting\<close> in between only.\<close>

lemma reconnect_now:
  assumes "us_client u" and "us_autoReconnect u" and "us_authTask u = None"
    and "gs_state (us_state u) \<noteq> GReconnecting"
  shows "gs_state (us_state (setUserConnectionState (GameConnectionState GReconnecting) u)) \<noteq> GReconnecting"
proof -
  let ?e = "enter_state (GameConnectionState GReconnecting) u"
  have s: "setUserConnectionState (GameConnectionState GReconnecting) u = getAuthenticationScene WaitReconnect ?e"
    by (subst setUserConnectionState.simps) (simp add: same_game_state_iff assms)
  show ?thesis
  proof (cases rule: getAuthenticationScene_cases [of WaitReconnect ?e])
    case (attempt st u1)
    then show ?thesis
      using loginImpl_facts [OF attempt(4)] s by (auto simp: wait_for_def)
  qed (use assms in \<open>auto simp: enter_state_def\<close>)
qed

lemma delayed_kept: "Delayed r \<in> set (us_attempts u) \<Longrightarrow> Delayed r \<in> set (us_attempts (setUserConnectionState s u))"
  using grown.state_set [of "us_attempts u" u s] by (auto simp: grown_from_def)

lemma nmr_state:
  assumes "gs_state s \<noteq> GReconnecting"
  shows "no_more_reconnecting u (setUserConnectionState s u)"
proof (cases "gs_state (us_state u) = gs_state s")
  case True
  then show ?thesis
    by (subst setUserConnectionState.simps) (simp add: same_game_state_iff no_more_reconnecting_def)
next
  case False
  have "gs_state (us_state u) = GReconnecting"
    if r: "gs_state (us_state (setUserConnectionState s u)) = GReconnecting"
  proof (rule ccontr)
    assume n: "gs_state (us_state u) \<noteq> GReconnecting"
    show False
      using r
      by (subst (asm) setUserConnectionState.simps)
        (use False n assms reconnect_now [of "u\<lparr>us_authTask := None\<rparr>"] in
          \<open>auto simp: same_game_state_iff Let_def enter_state_def split: if_splits\<close>)
  qed
  then show ?thesis
    by (simp add: no_more_reconnecting_def delayed_kept)
qed

lemma nmr_stage:
  assumes "login_stage_of n u = Some st0" and "\<And>r. st0 \<noteq> Delayed r"
  shows "no_more_reconnecting u (set_login_stage n st u)"
proof -
  have "Delayed r \<in> set ((us_attempts u)[n := st])" if "Delayed r \<in> set (us_attempts u)" for r
  proof -
    obtain j where j: "j < length (us_attempts u)" "us_attempts u ! j = Delayed r"
      using \<open>Delayed r \<in> set (us_attempts u)\<close> by (auto simp: in_set_conv_nth)
    then have "j \<noteq> n"
      using assms(1) assms(2) [of r] by (auto simp: login_stage_of_def)
    then have "(us_attempts u)[n := st] ! j = Delayed r" "j < length ((us_attempts u)[n := st])"
      using j by simp_all
    then show ?thesis
      by (metis nth_mem)
  qed
  then show ?thesis
    by (simp add: no_more_reconnecting_def set_login_stage_def)
qed

lemma scheduled_failed:
  assumes "retry_scheduled u" and "login_stage_of n u = Some st0" and "\<And>r. st0 \<noteq> Delayed r"
  shows "retry_scheduled (attempt_failed n r ex u)"
proof (cases "us_autoReconnect u \<and> gs_state (us_state u) \<noteq> GDisconnected")
  case True
  have "n < length (us_attempts (setUserConnectionState (GameConnectionState GReconnecting) u))"
    using assms(2) attempts_kept(2) [of n u] by (auto simp: login_stage_of_def split: if_splits)
  then show ?thesis
    using True by (auto simp: attempt_failed_def reconnect_def set_login_stage_def retry_scheduled_def
        intro: set_update_memI)
next
  case False
  then show ?thesis
    using nmr_scheduled [OF nmr_stage [OF assms(2,3)] assms(1)] by (auto simp: attempt_failed_def)
qed

lemma scheduled_connected: "retry_scheduled u \<Longrightarrow> retry_scheduled (authenticator_connected n r u)"
  by (auto simp: authenticator_connected_def
      intro: scheduled_failed nmr_scheduled [OF nmr_stage] split: option.split login_stage.split sum.split)

lemma scheduled_credentials: "retry_scheduled u \<Longrightarrow> retry_scheduled (credentials_retrieved n r u)"
proof -
  assume u: "retry_scheduled u"
  have "retry_scheduled (u\<lparr>us_logins := l\<rparr>)" "retry_scheduled (u\<lparr>us_autoReconnect := False\<rparr>)" for l
    using u by (simp_all add: retry_scheduled_def)
  then show ?thesis
    using u by (auto simp: credentials_retrieved_def intro!: scheduled_failed nmr_scheduled [OF nmr_stage]
        split: option.split login_stage.split sum.split)
qed

lemma scheduled_answered: "retry_scheduled u \<Longrightarrow> retry_scheduled (login_answered n r u)"
proof -
  assume u: "retry_scheduled u"
  have a: "retry_scheduled (u\<lparr>us_autoReconnect := False\<rparr>)" "retry_scheduled (u\<lparr>us_userId := i, us_username := m\<rparr>)" for i m
    using u by (simp_all add: retry_scheduled_def)
  have d: "login_stage_of n (setUserConnectionState s (u\<lparr>us_autoReconnect := False\<rparr>)) = Some (LoggingIn r sc)"
    "login_stage_of n (setUserConnectionState s (u\<lparr>us_userId := i, us_username := m\<rparr>)) = Some (LoggingIn r sc)"
    if "login_stage_of n u = Some (LoggingIn r sc)" for s r sc i m
    using that by (auto intro: login_stage_of_set_state)
  have "retry_scheduled (setUserConnectionState (GameConnectionState GDisconnected) (u\<lparr>us_autoReconnect := False\<rparr>))"
    "retry_scheduled (setUserConnectionState (GameConnectionState GAuthenticated) (u\<lparr>us_userId := i, us_username := m\<rparr>))" for i m
    by (rule nmr_scheduled [OF nmr_state a(1)], simp) (rule nmr_scheduled [OF nmr_state a(2)], simp)
  then show ?thesis
    using u by (auto simp: login_answered_def
        intro: scheduled_failed [OF _ d(1)] scheduled_failed nmr_scheduled [OF nmr_stage [OF d(2)]]
        split: option.split login_stage.split sum.split)
qed

lemma scheduled_delay: "retry_scheduled u \<Longrightarrow> retry_scheduled (delay_elapsed n u)"
proof (cases "\<exists>r. login_stage_of n u = Some (Delayed r)")
  case True
  then obtain r where r: "login_stage_of n u = Some (Delayed r)" by auto
  obtain st1 u1 where l: "loginImpl r u = (st1, u1)"
    by (cases "loginImpl r u")
  show ?thesis
    using loginImpl_facts(5) [OF l] by (auto simp: delay_elapsed_def r l retry_scheduled_def set_login_stage_def)
next
  case False
  assume "retry_scheduled u"
  with False show ?thesis
    by (auto simp: delay_elapsed_def split: option.split login_stage.split)
qed

lemma nmr_login: "no_more_reconnecting u (users_login u)"
  using nmr_trans [OF nmr_same nmr_authenticate] by (simp add: users_login_def)

lemma nmr_answer: "no_more_reconnecting u (answer_user use r u)"
  by (rule nmr_same) (simp_all add: answer_user_def)

lemma nmr_logout_done: "no_more_reconnecting u (logout_done b u)"
  by (simp add: logout_done_def nmr_login nmr_answer)

lemma nmr_private: "no_more_reconnecting u (private_scene q t u)"
  by (simp add: private_scene_def nmr_answer nmr_same)

lemma nmr_deliver: "no_more_reconnecting u (deliver use r u)"
  by (auto simp: deliver_def request_ready_def nmr_answer nmr_logout_done nmr_private nmr_same
      split: auth_use.split sum.split option.split user_request.split)

lemma nmr_users_waiter: "no_more_reconnecting u (users_waiter i u)"
proof -
  have d: "no_more_reconnecting u (deliver use r (drop_waiter i u))"
    "no_more_reconnecting u (deliver use r ((drop_waiter i u)\<lparr>us_authTask := None\<rparr>))"
    "no_more_reconnecting u (logout_done b (drop_waiter i u))"
    "no_more_reconnecting u (drop_waiter i u)" "no_more_reconnecting u u" for use r b
    by (rule nmr_trans [OF nmr_same nmr_deliver] nmr_trans [OF nmr_same nmr_logout_done] nmr_same;
        simp add: drop_waiter_def)+
  show ?thesis
    by (simp add: users_waiter_def d split: prod.split auth_source.split auth_use.split option.split login_stage.split)
qed

lemma scheduled_act: "retry_scheduled u \<Longrightarrow> retry_scheduled (users_act a u)"
proof (cases a)
  case (CallSetUser p)
  have "no_more_reconnecting u (users_logout b (u\<lparr>us_localUser := l\<rparr>))" for b l
    by (rule nmr_trans [OF nmr_same nmr_logout]) simp_all
  then have "no_more_reconnecting u (users_act a u)"
    using CallSetUser by (auto simp: setCurrentLocalUser_def nmr_same split: option.split)
  then show "retry_scheduled u \<Longrightarrow> ?thesis"
    by (rule nmr_scheduled)
next
  case (RpcReply i r)
  have t: "no_more_reconnecting u (answer_user x y (u\<lparr>us_rpcs := l\<rparr>))"
    "no_more_reconnecting u (private_scene q t (u\<lparr>us_rpcs := l\<rparr>))"
    "no_more_reconnecting u (getAuthenticationScene x (u\<lparr>us_rpcs := l\<rparr>))" for x y q t l
    by (rule nmr_trans [OF nmr_same nmr_answer] nmr_trans [OF nmr_same nmr_private]
          nmr_trans [OF nmr_same nmr_authenticate]; simp)+
  have "no_more_reconnecting u (users_act a u)"
    using RpcReply by (auto simp: request_answered_def Let_def t nmr_same split: sum.split user_request.split)
  then show "retry_scheduled u \<Longrightarrow> ?thesis"
    by (rule nmr_scheduled)
next
  case (SceneLeft i)
  have "no_more_reconnecting u (logout_done b (u\<lparr>us_leaving := l\<rparr>))" for b l
    by (rule nmr_trans [OF nmr_same nmr_logout_done]) simp_all
  then have "no_more_reconnecting u (users_act a u)"
    using SceneLeft by (simp add: authenticator_left_def nmr_same)
  then show "retry_scheduled u \<Longrightarrow> ?thesis"
    by (rule nmr_scheduled)
next
  case (SceneStates s)
  have "no_more_reconnecting u (users_act a u)"
    using SceneStates by (auto simp: authenticator_state_def nmr_state nmr_same split: conn_kind.split)
  then show "retry_scheduled u \<Longrightarrow> ?thesis"
    by (rule nmr_scheduled)
next
  case (CancelWaiter i)
  have "no_more_reconnecting u (answer_user use r (u\<lparr>us_waiters := l\<rparr>))" for use r l
    by (rule nmr_trans [OF nmr_same nmr_answer]) simp_all
  then have "no_more_reconnecting u (users_act a u)"
    using CancelWaiter by (auto simp: cancel_waiter_def nmr_same split: prod.split auth_source.split)
  then show "retry_scheduled u \<Longrightarrow> ?thesis"
    by (rule nmr_scheduled)
qed (auto intro: scheduled_connected scheduled_credentials scheduled_answered scheduled_delay
    nmr_scheduled [OF nmr_login] nmr_scheduled [OF nmr_logout] nmr_scheduled [OF nmr_authenticate]
    nmr_scheduled [OF nmr_users_waiter] nmr_scheduled [OF nmr_same]
    simp: users_request_def clientDisconnecting_def setOperationHandler_def)

interpretation scheduled_runs: users_invariant retry_scheduled
  by unfold_locales (rule scheduled_act)

text \<open>
  Property C29. Whatever the game, the server and the network do: while the API says that it is
  reconnecting, the next attempt is scheduled, after a delay of one to five seconds.
\<close>

theorem reconnecting_is_scheduled:
  assumes "gs_state (connectionState (users_run acts (UsersApi handlers))) = GReconnecting"
  shows "\<exists>n r. login_stage_of n (users_run acts (UsersApi handlers)) = Some (Delayed r)
           \<and> 1000 \<le> reconnect_delay r \<and> reconnect_delay r \<le> 5000"
proof -
  let ?u = "users_run acts (UsersApi handlers)"
  have "retry_scheduled (UsersApi handlers)"
    by (simp add: retry_scheduled_def UsersApi_def)
  from scheduled_runs.run [OF this] obtain r where r: "Delayed r \<in> set (us_attempts ?u)"
    using assms by (auto simp: retry_scheduled_def connectionState_def)
  then obtain n where "n < length (us_attempts ?u)" "us_attempts ?u ! n = Delayed r"
    by (auto simp: in_set_conv_nth)
  then have n: "login_stage_of n ?u = Some (Delayed r)"
    by (simp add: login_stage_of_def)
  have "0 < r"
    using login_stage_of_ok [OF sound_runs.run [OF sound_start] n] by simp
  then show ?thesis
    using n by (intro exI [of _ n] exI [of _ r]) (simp add: reconnect_delay_def)
qed

lemma reconnecting_is_scheduled_witness:
  "\<exists>n r. login_stage_of n (users_run [CallLogin, SceneOf 0 (Inl TaskCanceled)] (UsersApi True)) = Some (Delayed r)
     \<and> 1000 \<le> reconnect_delay r \<and> reconnect_delay r \<le> 5000"
  by (rule reconnecting_is_scheduled)
    (simp add: users_login_def UsersApi_def getAuthenticationScene.simps loginImpl_eq wait_for_def connecting_def
      enter_state_def authenticator_connected_def login_stage_of_def attempt_failed_def reconnect_def set_login_stage_def
      setUserConnectionState.simps same_game_state_def connectionState_def)

text \<open>A failed attempt is forgotten when one of its continuations runs, which is still to come.\<close>

lemma failed_attempt_reclaimed:
  assumes "users_sound u" and "us_authTask u = Some n" and "login_stage_of n u = Some (LoginFailed ex)"
  shows "\<exists>i < length (us_waiters u). us_authTask (users_waiter i u) \<noteq> Some n"
proof -
  have n: "n < length (us_attempts u)" "us_attempts u ! n = LoginFailed ex"
    using assms(3) by (auto simp: login_stage_of_def split: if_splits)
  then obtain use where "(Attempt n, use) \<in> set (us_waiters u)"
    using assms(1,2) by (auto simp: users_sound_def)
  then obtain i where i: "i < length (us_waiters u)" "us_waiters u ! i = (Attempt n, use)"
    by (auto simp: in_set_conv_nth)
  let ?v = "(drop_waiter i u)\<lparr>us_authTask := None\<rparr>"
  have "us_authTask (users_login ?v) \<noteq> Some n"
    unfolding users_login_def
  proof (cases rule: getAuthenticationScene_cases [of WaitLogin "?v\<lparr>us_autoReconnect := True\<rparr>"])
    case (attempt st u1)
    then show "us_authTask (getAuthenticationScene WaitLogin (?v\<lparr>us_autoReconnect := True\<rparr>)) \<noteq> Some n"
      using n(1) by (simp add: wait_for_def drop_waiter_def)
  qed (simp_all add: wait_for_def)
  then have "us_authTask (deliver use (Inl ex) ?v) \<noteq> Some n"
    by (cases use) (simp_all add: deliver_def answer_user_def logout_done_def)
  moreover have "users_waiter i u = deliver use (Inl ex) ?v"
    using i assms(3) by (simp add: users_waiter_def)
  ultimately show ?thesis
    using i(1) by (intro exI [of _ i]) simp
qed

section \<open>Logging in through failures\<close>

text \<open>
  The first login is under way: attempt 0 connects to the scene with counter \<^term>\<open>r\<close>, and the caller
  of \<^verbatim>\<open>login\<close> is the first that waits.
\<close>

definition first_login :: "nat \<Rightarrow> users_api \<Rightarrow> bool" where
  "first_login r u \<longleftrightarrow>
     us_client u \<and> us_handlers u \<and> us_autoReconnect u \<and> gs_state (us_state u) = GConnecting
     \<and> us_authTask u = Some 0 \<and> us_attempts u = [ConnectingScene r] \<and> us_answers u = []
     \<and> (\<exists>ws. us_waiters u = (Attempt 0, WaitLogin) # ws)"

text \<open>A round that fails: the scene is refused, or the request to log in is.\<close>

fun failed_round :: "nat \<Rightarrow> auth_parameters \<Rightarrow> storm_exn + storm_exn \<Rightarrow> users_action list" where
  "failed_round sc p (Inl e) = [SceneOf 0 (Inl e), DelayOver 0]"
| "failed_round sc p (Inr e) = [SceneOf 0 (Inr sc), CredentialsOf 0 (Inr p), LoginReply 0 (Inl e), DelayOver 0]"

lemma reconnecting_shared:
  assumes "us_client u" and "us_authTask u = Some n" and "gs_state (us_state u) \<noteq> GReconnecting"
  shows "setUserConnectionState (GameConnectionState GReconnecting) u =
           wait_for (Attempt n) WaitReconnect (enter_state (GameConnectionState GReconnecting) u)"
  using assms
  by (subst setUserConnectionState.simps) (simp add: same_game_state_iff getAuthenticationScene.simps enter_state_def)

lemma first_login_failed:
  assumes "us_client u" "us_handlers u" "us_autoReconnect u" "gs_state (us_state u) = GConnecting"
    and "us_authTask u = Some 0" "us_attempts u = [st]" "us_answers u = []" "us_waiters u = (Attempt 0, WaitLogin) # ws"
  shows "first_login (min (Suc r) RETRY_COUNTER_MAX) (delay_elapsed 0 (attempt_failed 0 r e u))"
  using assms
  by (simp add: attempt_failed_def reconnect_def reconnecting_shared delay_elapsed_def login_stage_of_def set_login_stage_def
      wait_for_def enter_state_def loginImpl_eq connecting_def first_login_def)

lemma first_login_round:
  assumes "first_login r u"
  shows "first_login (min (Suc r) RETRY_COUNTER_MAX) (users_run (failed_round sc p f) u)"
proof (cases f)
  case (Inl e)
  then show ?thesis
    using assms first_login_failed [of u _ _ r e]
    by (auto simp: authenticator_connected_def login_stage_of_def first_login_def)
next
  case (Inr e)
  obtain ws where u: "us_client u" "us_handlers u" "us_autoReconnect u" "gs_state (us_state u) = GConnecting"
      "us_authTask u = Some 0" "us_attempts u = [ConnectingScene r]" "us_answers u = []"
      "us_waiters u = (Attempt 0, WaitLogin) # ws"
    using assms by (auto simp: first_login_def)
  let ?v = "u\<lparr>us_logins := us_logins u @ [(sc, p)], us_attempts := [LoggingIn r sc]\<rparr>"
  have "users_run [SceneOf 0 (Inr sc), CredentialsOf 0 (Inr p), LoginReply 0 (Inl e), DelayOver 0] u
      = delay_elapsed 0 (attempt_failed 0 r e ?v)"
    using u by (simp add: authenticator_connected_def credentials_retrieved_def login_answered_def
        login_stage_of_def set_login_stage_def)
  then show ?thesis
    using Inr first_login_failed [of ?v "LoggingIn r sc" ws r e] u by simp
qed

lemma first_login_rounds:
  "first_login r u \<Longrightarrow> \<exists>r'. first_login r' (users_run (concat (map (failed_round sc p) fs)) u)"
proof (induction fs arbitrary: r u)
  case Nil
  then show ?case by auto
next
  case (Cons f fs)
  show ?case
    using Cons.IH [OF first_login_round [OF Cons.prems, of sc p f]] by (simp add: users_run_append)
qed

lemma first_login_start: "first_login 0 (users_act CallLogin (UsersApi True))"
  by (simp add: users_login_def UsersApi_def getAuthenticationScene.simps loginImpl_eq first_login_def
      wait_for_def connecting_def enter_state_def)

lemma first_login_success:
  assumes "first_login r u" and "lr_success result"
  shows "let v = users_run [SceneOf 0 (Inr sc), CredentialsOf 0 (Inr p), LoginReply 0 (Inr result), RunWaiter 0] u
         in gs_state (us_state v) = GAuthenticated \<and> us_userId v = lr_userId result
            \<and> us_username v = lr_username result \<and> us_attempts v = [LoginDone sc] \<and> us_authTask v = Some 0
            \<and> us_answers v = [(WaitLogin, Inr '''')]"
  using assms
  by (auto simp: first_login_def authenticator_connected_def credentials_retrieved_def login_answered_def
      login_stage_of_def set_login_stage_def setUserConnectionState_plain enter_state_def users_waiter_def drop_waiter_def
      deliver_def answer_user_def)

text \<open>
  Property C30. A login gets through any number of refused scenes and failed login requests: when a
  round succeeds in the end, the caller of \<^verbatim>\<open>login\<close> is answered, the user is the one the server named, and
  it was the same single attempt all the time.
\<close>

theorem login_survives_failures:
  assumes "lr_success result"
    and "v = users_run (CallLogin # concat (map (failed_round sc p) fs)
           @ [SceneOf 0 (Inr sc), CredentialsOf 0 (Inr p), LoginReply 0 (Inr result), RunWaiter 0]) (UsersApi True)"
  shows "gs_state (connectionState v) = GAuthenticated \<and> us_userId v = lr_userId result
    \<and> us_username v = lr_username result \<and> us_attempts v = [LoginDone sc]
    \<and> us_answers v = [(WaitLogin, Inr '''')]"
proof -
  obtain r where r: "first_login r (users_run (concat (map (failed_round sc p) fs)) (users_act CallLogin (UsersApi True)))"
    using first_login_rounds [OF first_login_start] by blast
  have v: "v = users_run [SceneOf 0 (Inr sc), CredentialsOf 0 (Inr p), LoginReply 0 (Inr result), RunWaiter 0]
      (users_run (concat (map (failed_round sc p) fs)) (users_act CallLogin (UsersApi True)))"
    using assms(2) by (simp only: users_run_simps users_run_append)
  note s = first_login_success [OF r assms(1), of sc p, folded v, unfolded Let_def]
  show ?thesis
    using s by (simp_all add: connectionState_def)
qed

lemma login_survives_failures_witness:
  "us_userId (users_run (CallLogin # concat (map (failed_round 3 \<lparr>ap_type = ''steam'', ap_parameters = Map.empty\<rparr>)
        [Inl TaskCanceled, Inr TaskCanceled])
      @ [SceneOf 0 (Inr 3), CredentialsOf 0 (Inr \<lparr>ap_type = ''steam'', ap_parameters = Map.empty\<rparr>),
         LoginReply 0 (Inr \<lparr>lr_errorMsg = '''', lr_success = True, lr_userId = ''u1'', lr_username = ''bob''\<rparr>),
         RunWaiter 0]) (UsersApi True)) = ''u1''"
  by (simp only: login_survives_failures [OF _ refl, THEN conjunct2, THEN conjunct1] login_result.simps)

section \<open>Users thrown out\<close>

text \<open>The API of a user that is out, with the attempts \<^term>\<open>xs\<close> over.\<close>

definition user_out :: "login_stage list \<Rightarrow> (nat \<times> auth_parameters) list \<Rightarrow> users_api \<Rightarrow> bool" where
  "user_out xs ls u \<longleftrightarrow>
     \<not> us_autoReconnect u \<and> us_authTask u = None \<and> us_attempts u = xs \<and> us_logins u = ls
     \<and> list_all (\<lambda>st. \<not> stage_pending st) xs
     \<and> (gs_state (us_state u) = GDisconnected \<or> gs_state (us_state u) = GDisconnecting)
     \<and> (\<forall>src. (src, WaitLogout True) \<notin> set (us_waiters u)) \<and> (\<forall>sc. (sc, True) \<notin> set (us_leaving u))"

lemma out_authenticate:
  assumes "user_out xs ls u" and "use \<noteq> WaitLogout True"
  shows "user_out xs ls (getAuthenticationScene use u)"
  using assms by (cases rule: getAuthenticationScene_cases [of use u]) (auto simp: user_out_def wait_for_def)

lemma out_logout: "user_out xs ls u \<Longrightarrow> user_out xs ls (users_logout False u)"
proof -
  assume o: "user_out xs ls u"
  define u1 where "u1 = u\<lparr>us_autoReconnect := False\<rparr>"
  have o1: "user_out xs ls u1" "user_out xs ls (enter_state (GameConnectionState GDisconnecting) u1)"
    using o by (auto simp: user_out_def u1_def enter_state_def)
  have "user_out xs ls (wait_for Immediate (WaitLogout False) u1)"
    using o1(1) by (auto simp: user_out_def wait_for_def)
  then show ?thesis
    using out_authenticate [OF o1(2), of "WaitLogout False"] o1
    by (subst users_logout.simps) (simp add: setUserConnectionState_plain u1_def)
qed

lemma out_disconnected:
  assumes "user_out xs ls u" and "gs_state s = GDisconnected"
  shows "user_out xs ls (setUserConnectionState s u)"
proof -
  define u1 where "u1 = u\<lparr>us_authTask := None\<rparr>"
  define u2 where "u2 = u1\<lparr>us_autoReconnect := False, us_client_disconnects := Suc (us_client_disconnects u)\<rparr>"
  have o: "user_out xs ls u1" "user_out xs ls u2" "user_out xs ls (u1\<lparr>us_autoReconnect := False\<rparr>)"
    using assms(1) by (auto simp: user_out_def u1_def u2_def)
  have e: "user_out xs ls (enter_state s v)" if "user_out xs ls v" for v
    using that assms(2) by (auto simp: user_out_def enter_state_def)
  have "\<not> us_autoReconnect u"
    using assms(1) by (simp add: user_out_def)
  then show ?thesis
    using assms o e out_logout [OF o(2)]
    by (subst setUserConnectionState.simps) (simp add: u1_def u2_def Let_def)
qed

lemma out_stage: "user_out xs ls u \<Longrightarrow> login_stage_of n u = Some st \<Longrightarrow> \<not> stage_pending st"
  by (auto simp: user_out_def login_stage_of_def list_all_length split: if_splits)

lemma out_answer: "user_out xs ls u \<Longrightarrow> user_out xs ls (answer_user use r u)"
  by (auto simp: user_out_def answer_user_def)

lemma out_private: "user_out xs ls u \<Longrightarrow> user_out xs ls (private_scene q t u)"
  by (simp add: private_scene_def out_answer) (auto simp: user_out_def)

lemma out_deliver: "user_out xs ls u \<Longrightarrow> use \<noteq> WaitLogout True \<Longrightarrow> user_out xs ls (deliver use r u)"
proof -
  assume o: "user_out xs ls u" and n: "use \<noteq> WaitLogout True"
  have "user_out xs ls (u\<lparr>us_rpcs := l\<rparr>)" "user_out xs ls (u\<lparr>us_leaving := us_leaving u @ [(sc, False)]\<rparr>)" for l sc
    using o by (auto simp: user_out_def)
  then show ?thesis
    using o n by (auto simp: deliver_def request_ready_def logout_done_def out_answer out_private
        split: auth_use.split sum.split option.split user_request.split)
qed

lemma out_drop: "user_out xs ls u \<Longrightarrow> user_out xs ls (drop_waiter i u)"
  by (auto simp: user_out_def drop_waiter_def dest: in_set_takeD in_set_dropD)

lemma out_users_waiter: "user_out xs ls u \<Longrightarrow> user_out xs ls (users_waiter i u)"
proof (cases "i < length (us_waiters u)")
  case True
  assume o: "user_out xs ls u"
  obtain src use where w: "us_waiters u ! i = (src, use)"
    by (cases "us_waiters u ! i")
  have n: "use \<noteq> WaitLogout True"
    using nth_mem [OF True] o w by (auto simp: user_out_def)
  have f: "(drop_waiter i u)\<lparr>us_authTask := None\<rparr> = drop_waiter i u"
    using o by (simp add: user_out_def drop_waiter_def)
  have l: "user_out xs ls (logout_done False (drop_waiter i u))"
    using out_drop [OF o] by (simp add: logout_done_def out_answer)
  show ?thesis
  proof (cases src)
    case (Attempt m)
    show ?thesis
      using True w n o out_deliver [OF out_drop [OF o] n] Attempt
      by (auto simp: users_waiter_def f split: option.split login_stage.split)
  next
    case Refused
    then show ?thesis
      using True w n o out_deliver [OF out_drop [OF o] n] by (simp add: users_waiter_def)
  next
    case Immediate
    have "use = WaitLogout b \<Longrightarrow> b = False" for b
      using n by auto
    then show ?thesis
      using True w l out_drop [OF o] Immediate by (cases use) (auto simp: users_waiter_def)
  qed
qed (simp add: users_waiter_def)

lemma out_act:
  assumes "user_out xs ls u" and "a \<noteq> CallLogin"
  shows "user_out xs ls (users_act a u)"
proof (cases a)
  case (CallSetUser p)
  have "user_out xs ls (u\<lparr>us_localUser := l\<rparr>)" for l
    using assms(1) by (simp add: user_out_def)
  moreover have "gs_state (us_state u) = GDisconnected \<or> gs_state (us_state u) = GDisconnecting"
    using assms(1) by (simp add: user_out_def)
  ultimately show ?thesis
    using CallSetUser assms(1) by (auto simp: setCurrentLocalUser_def out_logout split: option.split)
next
  case (RpcReply i r)
  have "user_out xs ls (u\<lparr>us_rpcs := l\<rparr>)" for l
    using assms(1) by (simp add: user_out_def)
  then show ?thesis
    using RpcReply assms(1)
    by (auto simp: request_answered_def Let_def out_answer out_private out_authenticate
        split: sum.split user_request.split)
next
  case (SceneLeft i)
  have "user_out xs ls (u\<lparr>us_leaving := take i (us_leaving u) @ drop (Suc i) (us_leaving u)\<rparr>)"
    using assms(1) by (auto simp: user_out_def dest: in_set_takeD in_set_dropD)
  moreover have "\<not> snd (us_leaving u ! i)" if "i < length (us_leaving u)"
    using nth_mem [OF that] assms(1) unfolding user_out_def by (metis prod.collapse)
  ultimately show ?thesis
    using SceneLeft assms(1) by (simp add: authenticator_left_def logout_done_def out_answer)
next
  case (SceneStates s)
  have "user_out xs ls (u\<lparr>us_events := l\<rparr>)" for l
    using assms(1) by (simp add: user_out_def)
  moreover have "user_out xs ls (setUserConnectionState (GameConnectionState GDisconnecting) u)"
    using assms(1) by (auto simp: setUserConnectionState_plain user_out_def enter_state_def)
  ultimately show ?thesis
    using SceneStates assms(1) by (auto simp: authenticator_state_def out_disconnected split: conn_kind.split)
next
  case (CancelWaiter i)
  have "user_out xs ls (u\<lparr>us_waiters := (us_waiters u)[i := (x, WaitNobody)]\<rparr>)" for x
    using assms(1) set_update_subset_insert [of "us_waiters u" i "(x, WaitNobody)"]
    by (auto simp: user_out_def)
  then show ?thesis
    using CancelWaiter assms(1) by (auto simp: cancel_waiter_def out_answer split: prod.split auth_source.split)
next
  case (SceneOf n r)
  then show ?thesis
    using assms(1) out_stage [OF assms(1), of n]
    by (auto simp: authenticator_connected_def split: option.split login_stage.split)
next
  case (CredentialsOf n r)
  then show ?thesis
    using assms(1) out_stage [OF assms(1), of n]
    by (auto simp: credentials_retrieved_def split: option.split login_stage.split)
next
  case (LoginReply n r)
  then show ?thesis
    using assms(1) out_stage [OF assms(1), of n]
    by (auto simp: login_answered_def split: option.split login_stage.split)
next
  case (DelayOver n)
  then show ?thesis
    using assms(1) out_stage [OF assms(1), of n]
    by (auto simp: delay_elapsed_def split: option.split login_stage.split)
next
  case (CallSetOperation op h)
  then show ?thesis
    using assms(1) by (simp add: user_out_def setOperationHandler_def)
next
  case (ClientScenes b)
  then show ?thesis
    using assms(1) by (simp add: user_out_def)
next
  case ClientGone
  then show ?thesis
    using assms(1) by (simp add: user_out_def)
qed (use assms in \<open>simp_all add: out_logout users_request_def out_authenticate clientDisconnecting_def out_users_waiter\<close>)

lemma out_run: "user_out xs ls u \<Longrightarrow> CallLogin \<notin> set acts \<Longrightarrow> user_out xs ls (users_run acts u)"
proof (induction acts arbitrary: u)
  case (Cons a acts)
  have "user_out xs ls (users_act a u)"
    using Cons.prems by (intro out_act) auto
  with Cons show ?case by simp
qed simp

lemma out_enters:
  assumes "fatal_reason (cs_reason s)" and "cs_state s = Disconnected" and "gs_state (us_state u) \<noteq> GDisconnected"
    and "list_all (\<lambda>st. \<not> stage_pending st) (us_attempts u)"
    and "\<forall>src. (src, WaitLogout True) \<notin> set (us_waiters u)" and "\<forall>sc. (sc, True) \<notin> set (us_leaving u)"
  shows "user_out (us_attempts u) (us_logins u) (authenticator_state s u)"
proof -
  define u2 where "u2 = u\<lparr>us_authTask := None, us_autoReconnect := False, us_client_disconnects := Suc (us_client_disconnects u)\<rparr>"
  define d where "d = \<lparr>gs_state = GDisconnected, gs_reason = cs_reason s\<rparr>"
  have o: "user_out (us_attempts u) (us_logins u) (enter_state d (u2\<lparr>us_client_disconnects := k\<rparr>))" for k
    using assms by (auto simp: user_out_def u2_def enter_state_def d_def)
  have same: "u2\<lparr>us_autoReconnect := False\<rparr> = u2"
    by (simp add: u2_def)
  have off: "\<not> us_autoReconnect u2" "us_authTask u2 = None"
    by (simp_all add: u2_def)
  have l: "user_out (us_attempts u) (us_logins u) (enter_state d (users_logout False u2))"
  proof (cases "gs_state (us_state u2) \<noteq> GDisconnected \<and> gs_state (us_state u2) \<noteq> GDisconnecting")
    case True
    let ?e = "enter_state (GameConnectionState GDisconnecting) u2"
    have e: "users_logout False u2 = getAuthenticationScene (WaitLogout False) ?e"
      by (subst users_logout.simps) (use True in \<open>simp add: setUserConnectionState_plain same\<close>)
    have "user_out (us_attempts u) (us_logins u) ?e"
      using assms by (auto simp: user_out_def u2_def enter_state_def)
    from out_authenticate [OF this, of "WaitLogout False"] show ?thesis
      by (auto simp: e user_out_def enter_state_def d_def)
  next
    case False
    then have "users_logout False u2 = wait_for Immediate (WaitLogout False) u2"
      by (subst users_logout.simps) (auto simp: same)
    then show ?thesis
      using assms by (auto simp: user_out_def u2_def enter_state_def d_def wait_for_def)
  qed
  have m: "user_out (us_attempts u) (us_logins u) (enter_state d (u\<lparr>us_authTask := None, us_autoReconnect := False\<rparr>))"
    using assms by (auto simp: user_out_def enter_state_def d_def)
  have "setUserConnectionState d u =
      enter_state d
        (if us_client u then (if us_client_scenes u then users_logout False u2 else u2)
         else u\<lparr>us_authTask := None, us_autoReconnect := False\<rparr>)"
    by (subst setUserConnectionState.simps)
      (use assms(1,3) in \<open>simp add: same_game_state_iff Let_def u2_def d_def\<close>)
  then have "user_out (us_attempts u) (us_logins u) (setUserConnectionState d u)"
    using l m o [of "us_client_disconnects u2"] by (simp add: u2_def)
  then show ?thesis
    by (simp add: authenticator_state_def assms(2) d_def)
qed

text \<open>
  Property C31. A user the server throws out stays out: once the scene of the authenticator is lost
  because the user connected elsewhere, authentication failed or there is a new connection, and
  provided that no attempt is under way and no change of user is being carried out (no logout
  that logs in again waits or is asked of the scene), nothing but a call of \<^verbatim>\<open>login\<close> starts an
  attempt or sends credentials again, and the state never goes back to connected.
\<close>

theorem thrown_out_stays_out:
  assumes "cs_reason s \<in> {''User connected elsewhere'', ''Authentication failed'', ''auth.login.new_connection''}"
    and "cs_state s = Disconnected" and "gs_state (connectionState u) \<noteq> GDisconnected"
    and "list_all (\<lambda>st. \<not> stage_pending st) (us_attempts u)"
    and "\<forall>src. (src, WaitLogout True) \<notin> set (us_waiters u)" and "\<forall>sc. (sc, True) \<notin> set (us_leaving u)"
    and "CallLogin \<notin> set acts"
    and "v = users_run acts (users_act (SceneStates s) u)"
  shows "us_attempts v = us_attempts u \<and> us_logins v = us_logins u \<and> us_authTask v = None
    \<and> (gs_state (connectionState v) = GDisconnected \<or> gs_state (connectionState v) = GDisconnecting)"
proof -
  have "fatal_reason (cs_reason s)" using assms(1) by (auto simp: fatal_reason_def)
  then have "user_out (us_attempts u) (us_logins u) v"
    using out_run [OF out_enters [OF _ assms(2) _ assms(4-6)] assms(7)] assms(3,8)
    by (simp add: connectionState_def)
  then show ?thesis
    by (simp_all add: user_out_def connectionState_def)
qed

lemma thrown_out_stays_out_witness:
  "us_attempts (users_run [CallRequest BearerToken, RunWaiter 0, CallSetUser None]
     (users_act (SceneStates \<lparr>cs_state = Disconnected, cs_reason = ''User connected elsewhere''\<rparr>)
       ((UsersApi True)\<lparr>us_state := GameConnectionState GAuthenticated, us_attempts := [LoginDone 3], us_authTask := Some 0\<rparr>)))
   = [LoginDone 3]"
  by (subst thrown_out_stays_out [OF _ _ _ _ _ _ _ refl, THEN conjunct1])
    (simp_all add: UsersApi_def connectionState_def)

text \<open>
  The premise on attempts is needed: an attempt that waits for its credentials when the server
  throws the user out is not told; it makes the request to log in, with the credentials, when it
  has them.
\<close>

lemma thrown_out_login_goes_on:
  assumes "cs_reason s \<in> {''User connected elsewhere'', ''Authentication failed'', ''auth.login.new_connection''}"
    and "cs_state s = Disconnected"
    and "u = users_run [CallLogin, SceneOf 0 (Inr sc), SceneStates s] (UsersApi True)"
  shows "gs_state (connectionState u) = GDisconnected \<and> us_logins u = []"
    "us_logins (users_run [CredentialsOf 0 (Inr p)] u) = [(sc, p)]"
proof -
  define u1 where "u1 = users_run [CallLogin, SceneOf 0 (Inr sc)] (UsersApi True)"
  have 1: "us_attempts u1 = [RetrievingCredentials 0 sc]" "us_logins u1 = []" "us_client u1" "us_client_scenes u1"
    "gs_state (us_state u1) = GConnecting"
    by (simp_all add: u1_def users_login_def getAuthenticationScene.simps loginImpl.simps setUserConnectionState_plain Let_def
        UsersApi_def enter_state_def wait_for_def authenticator_connected_def login_stage_of_def set_login_stage_def)
  have f: "fatal_reason (cs_reason s)" using assms(1) by (auto simp: fatal_reason_def)
  have u: "u = setUserConnectionState \<lparr>gs_state = GDisconnected, gs_reason = cs_reason s\<rparr> u1"
    using assms(2,3) by (simp add: u1_def authenticator_state_def)
  have 2: "us_attempts u = [RetrievingCredentials 0 sc]" "us_logins u = []" "gs_state (us_state u) = GDisconnected"
    using 1 f by (simp_all add: u setUserConnectionState.simps [of "\<lparr>gs_state = GDisconnected, gs_reason = cs_reason s\<rparr>"]
        same_game_state_iff Let_def users_logout.simps setUserConnectionState_plain getAuthenticationScene.simps
        enter_state_def wait_for_def)
  then show "gs_state (connectionState u) = GDisconnected \<and> us_logins u = []"
    "us_logins (users_run [CredentialsOf 0 (Inr p)] u) = [(sc, p)]"
    by (simp_all add: connectionState_def credentials_retrieved_def login_stage_of_def set_login_stage_def)
qed

section \<open>Calls that cross an attempt\<close>

text \<open>
  Property C32. Logging out while an attempt waits for its next try does not stop it: when the delay
  is over the API connects to the scene of the authenticator again and says it is connecting; the
  attempt then fails because the user has logged out, the caller of \<^verbatim>\<open>logout\<close> is told that all is well, and
  the state stays at connecting with nobody told to leave the scene.
\<close>

theorem logout_during_retry_reconnects:
  assumes "login_stage_of n u = Some (Delayed r)" and "us_authTask u = Some n" and "us_client u" and "us_handlers u"
    and "gs_state (connectionState u) = GReconnecting"
    and "v = users_run [CallLogout, DelayOver n, SceneOf n (Inr sc), RunWaiter (length (us_waiters u))] u"
  shows "gs_state (connectionState v) = GConnecting
    \<and> us_events v = us_events u @ [GameConnectionState GDisconnecting, GameConnectionState GConnecting]
    \<and> us_answers v = us_answers u @ [(WaitLogout False, Inr '''')]
    \<and> us_leaving v = us_leaving u \<and> us_waiters v = us_waiters u"
proof -
  define u1 where "u1 = wait_for (Attempt n) (WaitLogout False)
    (enter_state (GameConnectionState GDisconnecting) (u\<lparr>us_autoReconnect := False\<rparr>))"
  define u2 where "u2 = set_login_stage n (ConnectingScene r)
    ((enter_state (GameConnectionState GConnecting) u1)\<lparr>us_client_scenes := True\<rparr>)"
  define u3 where "u3 = set_login_stage n (LoginFailed (RuntimeError ''Auto recconnection is disable please login before'')) u2"
  have 1: "users_act CallLogout u = u1"
    using assms(2,3,5)
    by (simp add: users_logout.simps connectionState_def setUserConnectionState_plain getAuthenticationScene.simps
        enter_state_def u1_def)
  have n: "n < length (us_attempts u)" "us_attempts u ! n = Delayed r"
    using assms(1) by (auto simp: login_stage_of_def split: if_splits)
  have 2: "users_act (DelayOver n) u1 = u2"
    using n assms(3,4)
    by (simp add: u1_def u2_def delay_elapsed_def login_stage_of_def loginImpl_eq connecting_def wait_for_def enter_state_def)
  have 3: "users_act (SceneOf n (Inr sc)) u2 = u3"
    using n by (simp add: u1_def u2_def u3_def authenticator_connected_def attempt_failed_def login_stage_of_def
        set_login_stage_def wait_for_def enter_state_def)
  have "v = users_act (RunWaiter (length (us_waiters u))) u3"
    by (simp only: assms(6) users_run_simps 1 2 3)
  then have v: "v = answer_user (WaitLogout False) (Inr '''')
      ((drop_waiter (length (us_waiters u)) u3)\<lparr>us_authTask := None\<rparr>)"
    using n by (simp add: users_waiter_def u1_def u2_def u3_def login_stage_of_def set_login_stage_def wait_for_def enter_state_def
        deliver_def logout_done_def)
  show ?thesis
    by (simp_all add: v connectionState_def answer_user_def drop_waiter_def u1_def u2_def u3_def set_login_stage_def
        wait_for_def enter_state_def)
qed

lemma logout_during_retry_reconnects_witness:
  "gs_state (connectionState (users_run [CallLogout, DelayOver 0, SceneOf 0 (Inr 3), RunWaiter 1]
     ((UsersApi True)\<lparr>us_state := GameConnectionState GReconnecting, us_attempts := [Delayed 1], us_authTask := Some 0,
        us_waiters := [(Attempt 0, WaitLogin)]\<rparr>))) = GConnecting"
proof -
  define u where "u = (UsersApi True)\<lparr>us_state := GameConnectionState GReconnecting, us_attempts := [Delayed 1],
    us_authTask := Some 0, us_waiters := [(Attempt 0, WaitLogin)]\<rparr>"
  have "gs_state (connectionState (users_run [CallLogout, DelayOver 0, SceneOf 0 (Inr 3), RunWaiter (length (us_waiters u))] u))
      = GConnecting"
    by (rule logout_during_retry_reconnects [where r = 1 and sc = 3 and n = 0 and u = u, THEN conjunct1])
      (simp_all add: u_def UsersApi_def login_stage_of_def connectionState_def)
  then show ?thesis
    by (simp add: u_def)
qed

text \<open>
  A scene that is lost while its login request is under way starts a second attempt; when the
  request then fails, the first attempt is tried again too.
\<close>

lemma lost_scene_doubles_login:
  assumes "login_stage_of n u = Some (LoggingIn r sc)" and "us_client u" and "us_handlers u" and "us_autoReconnect u"
    and "gs_state (us_state u) = GConnecting" and "\<not> fatal_reason why" and "m = length (us_attempts u)"
    and "v = users_run [SceneStates \<lparr>cs_state = Disconnected, cs_reason = why\<rparr>, LoginReply n (Inl ex)] u"
  shows "login_stage_of n v = Some (Delayed (min (Suc r) RETRY_COUNTER_MAX))" and "login_stage_of m v = Some (ConnectingScene 0)"
    and "n \<noteq> m"
proof -
  let ?e = "enter_state (GameConnectionState GReconnecting) (u\<lparr>us_authTask := None\<rparr>)"
  define u1 where "u1 = wait_for (Attempt m) WaitReconnect
    ((connecting ?e)\<lparr>us_client_scenes := True, us_attempts := us_attempts u @ [ConnectingScene 0], us_authTask := Some m\<rparr>)"
  have g: "getAuthenticationScene WaitReconnect ?e = u1"
    using assms(2-4) by (simp add: getAuthenticationScene.simps enter_state_def loginImpl_eq Let_def u1_def assms(7))
  have "setUserConnectionState (GameConnectionState GReconnecting) (u\<lparr>us_authTask := None\<rparr>) = u1"
    using assms(5) g by (subst setUserConnectionState.simps) (simp add: same_game_state_iff)
  then have "setUserConnectionState \<lparr>gs_state = GDisconnected, gs_reason = why\<rparr> u = u1"
    using assms(2,4,5,6) by (subst setUserConnectionState.simps) (simp add: same_game_state_iff Let_def)
  then have 1: "users_act (SceneStates \<lparr>cs_state = Disconnected, cs_reason = why\<rparr>) u = u1"
    by (simp add: authenticator_state_def)
  have n: "n < length (us_attempts u)" "us_attempts u ! n = LoggingIn r sc"
    using assms(1) by (auto simp: login_stage_of_def split: if_splits)
  have a: "us_attempts u1 = us_attempts u @ [ConnectingScene 0]" "us_authTask u1 = Some m" "us_client u1"
    "us_autoReconnect u1" "gs_state (us_state u1) = GConnecting"
    using assms(2,4) by (simp_all add: u1_def wait_for_def enter_state_def connecting_def)
  have "v = reconnect n (min (Suc r) RETRY_COUNTER_MAX) u1"
    using n a by (simp only: assms(8) users_run_simps 1)
      (simp add: login_answered_def login_stage_of_def nth_append attempt_failed_def)
  then have "us_attempts v = (us_attempts u @ [ConnectingScene 0])[n := Delayed (min (Suc r) RETRY_COUNTER_MAX)]"
    using a by (simp add: reconnect_def reconnecting_shared set_login_stage_def wait_for_def enter_state_def)
  then show "login_stage_of n v = Some (Delayed (min (Suc r) RETRY_COUNTER_MAX))" "login_stage_of m v = Some (ConnectingScene 0)"
    "n \<noteq> m"
    using n by (simp_all add: login_stage_of_def assms(7) nth_append)
qed

text \<open>
  The continuation of an old attempt that failed forgets the current one, which goes on behind
  the back of the API.
\<close>

lemma stale_continuation_drops_attempt:
  assumes "i < length (us_waiters u)" and "us_waiters u ! i = (Attempt n, WaitReconnect)"
    and "login_stage_of n u = Some (LoginFailed ex)" and "us_authTask u = Some m" and "login_stage_of m u = Some st" and "m \<noteq> n"
  shows "us_authTask (users_waiter i u) = None" and "login_stage_of m (users_waiter i u) = Some st"
proof -
  have v: "users_waiter i u = (drop_waiter i u)\<lparr>us_authTask := None\<rparr>"
    using assms by (simp add: users_waiter_def deliver_def)
  show "us_authTask (users_waiter i u) = None" "login_stage_of m (users_waiter i u) = Some st"
    using assms(5) by (simp_all add: v drop_waiter_def login_stage_of_def split: if_splits)
qed

text \<open>A login request that succeeds after the user has logged out makes the user authenticated again.\<close>

lemma login_reply_after_logout:
  assumes "login_stage_of n u = Some (LoggingIn r sc)" and "us_authTask u = Some n" and "us_client u"
    and "gs_state (us_state u) = GConnecting" and "lr_success result"
    and "v = users_run [CallLogout, LoginReply n (Inr result)] u"
  shows "gs_state (us_state v) = GAuthenticated" and "\<not> us_autoReconnect v"
    and "us_events v = us_events u @ [GameConnectionState GDisconnecting, GameConnectionState GAuthenticated]"
proof -
  define u1 where "u1 = wait_for (Attempt n) (WaitLogout False)
    (enter_state (GameConnectionState GDisconnecting) (u\<lparr>us_autoReconnect := False\<rparr>))"
  have 1: "users_act CallLogout u = u1"
    using assms(2-4) by (simp add: users_logout.simps setUserConnectionState_plain getAuthenticationScene.simps
        enter_state_def u1_def)
  have v: "v = set_login_stage n (LoginDone sc) (enter_state (GameConnectionState GAuthenticated)
      (u1\<lparr>us_userId := lr_userId result, us_username := lr_username result\<rparr>))"
    using assms(1,5) by (simp only: assms(6) users_run_simps 1)
      (simp add: login_answered_def login_stage_of_def setUserConnectionState_plain u1_def wait_for_def enter_state_def
        split: if_splits)
  show "gs_state (us_state v) = GAuthenticated" "\<not> us_autoReconnect v"
    "us_events v = us_events u @ [GameConnectionState GDisconnecting, GameConnectionState GAuthenticated]"
    by (simp_all add: v u1_def wait_for_def enter_state_def set_login_stage_def)
qed

text \<open>
  A handler of credentials that throws ends the attempt, but the state stays at connecting; after a
  logout it stays at disconnecting.
\<close>

lemma failed_credentials_keep_connecting:
  assumes "login_stage_of n u = Some (RetrievingCredentials r sc)" and "gs_state (us_state u) = GConnecting"
    and "v = credentials_retrieved n (Inl ex) u"
  shows "gs_state (us_state v) = GConnecting" and "\<not> us_autoReconnect v" and "\<exists>e. login_stage_of n v = Some (LoginFailed e)"
    and "us_authTask v = None \<Longrightarrow> gs_state (us_state (users_logout False v)) = GDisconnecting"
    and "us_authTask v = None \<Longrightarrow> us_leaving (users_logout False v) = us_leaving u"
proof -
  have n: "n < length (us_attempts u)"
    using assms(1) by (auto simp: login_stage_of_def split: if_splits)
  obtain e where e: "v = set_login_stage n (LoginFailed e) (u\<lparr>us_autoReconnect := False\<rparr>)"
    using assms(1) by (simp add: assms(3) credentials_retrieved_def attempt_failed_def)
  show "gs_state (us_state v) = GConnecting" "\<not> us_autoReconnect v" "\<exists>e. login_stage_of n v = Some (LoginFailed e)"
    using assms(2) n by (simp_all add: e set_login_stage_def login_stage_of_def)
  assume "us_authTask v = None"
  then show "gs_state (us_state (users_logout False v)) = GDisconnecting"
    and "us_leaving (users_logout False v) = us_leaving u"
    using assms(2) by (simp_all add: e users_logout.simps setUserConnectionState_plain enter_state_def set_login_stage_def
        getAuthenticationScene.simps wait_for_def)
qed

section \<open>Handlers\<close>

text \<open>Handlers run in order, each on what the one before left behind, up to the first exception.\<close>

lemma run_credentials_append:
  "run_credentials (hs @ hs') user p = bind_res (run_credentials hs user p) (run_credentials hs' user)"
  by (induction hs arbitrary: p) (auto split: prod.split option.split)

lemma handler_error_wins:
  assumes "run_credentials hs user p = Inr q" and "h q user = (q', Some ex)"
  shows "run_credentials (hs @ h # hs') user p = Inl ex"
  using assms by (simp add: run_credentials_append)

lemma callback_error_skips_handlers: "runCredentialsEventHandlers (Some (Inl ex)) hs user = Inl ex"
  by (simp add: runCredentialsEventHandlers_def)

lemma default_renewals_empty: "runCredentialsRenewalHandlers (replicate k default_renewal) provider = Inr Map.empty"
proof -
  have "run_renewals (replicate k default_renewal) provider r = Inr r" for r
    by (induction k) (simp_all add: default_renewal_def)
  then show ?thesis by (simp add: runCredentialsRenewalHandlers_def)
qed

lemma operation_dispatched:
  "sendRequest_procedure (Inr (origin, op)) (Some (setOperationHandler op h u)) = Inr (h, origin, op)"
  "op' \<noteq> op \<Longrightarrow> us_operations u op' = None \<Longrightarrow>
     sendRequest_procedure (Inr (origin, op')) (Some (setOperationHandler op h u)) = Inl (RuntimeError ''operation.notfound'')"
  by (simp_all add: sendRequest_procedure_def setOperationHandler_def)

text \<open>Authenticating a second time asks for the status even when the server refuses the credentials.\<close>

lemma authenticate_ignores_refusal:
  assumes "us_rpcs u = [(Authenticate p, sc, route, args)]" and "us_client u" and "us_authTask u = Some n"
  shows "us_waiters (request_answered 0 (Inr refused) u) = us_waiters u @ [(Attempt n, WaitRequest AuthenticationStatus)]"
    and "us_answers (request_answered 0 (Inr refused) u) = us_answers u"
  using assms by (simp_all add: request_answered_def getAuthenticationScene.simps wait_for_def)

end
