(* ===== verification/ServiceScenes.thy ===== *)
theory ServiceScenes
  imports Users
begin

text \<open>
  The base class of the APIs of the plugins (\<^verbatim>\<open>Plugins/public/Users/ClientAPI.hpp\<close>): it asks for the
  scene of a service once, keeps the task, and forgets it when the scene is lost or could not be
  had.
\<close>

datatype service_task = ServicePending | ServiceReady nat | ServiceFailed storm_exn

text \<open>
  \<^verbatim>\<open>_scene\<close> is the number of a task in \<open>ca_tasks\<close>; \<open>ca_watched\<close> is the scene whose state the API is
  subscribed to; \<open>ca_waiters\<close> are the callers of \<^verbatim>\<open>getService\<close>. \<open>ca_cleanups\<close> and \<open>ca_initialized\<close> list
  the scenes the two callbacks ran on.
\<close>

record client_api =
  ca_users :: bool
  ca_scene :: "nat option"
  ca_tasks :: "service_task list"
  ca_watched :: "nat option"
  ca_waiters :: "nat list"
  ca_cleanups :: "nat option list"
  ca_initialized :: "nat list"
  ca_answers :: "nat res list"

definition ClientAPI :: client_api where
  "ClientAPI = \<lparr>ca_users = True, ca_scene = None, ca_tasks = [], ca_watched = None, ca_waiters = [],
     ca_cleanups = [], ca_initialized = [], ca_answers = []\<rparr>"

definition getService :: "client_api \<Rightarrow> client_api" where
  "getService c =
     (if \<not> ca_users c then c\<lparr>ca_answers := ca_answers c @ [Inl (RuntimeError ''destroyed'')]\<rparr>
      else
        (case ca_scene c of
           Some n \<Rightarrow> c\<lparr>ca_waiters := ca_waiters c @ [n]\<rparr>
         | None \<Rightarrow>
             c\<lparr>ca_tasks := ca_tasks c @ [ServicePending], ca_scene := Some (length (ca_tasks c)),
               ca_waiters := ca_waiters c @ [length (ca_tasks c)]\<rparr>))"

text \<open>The three places that forget the scene run the cleanup, stop watching and reset \<^verbatim>\<open>_scene\<close>.\<close>

definition forget_scene :: "nat option \<Rightarrow> client_api \<Rightarrow> client_api" where
  "forget_scene sc c = c\<lparr>ca_cleanups := ca_cleanups c @ [sc], ca_watched := None, ca_scene := None\<rparr>"

text \<open>
  \<^verbatim>\<open>getSceneForService\<close> has ended with a scene, whose state is \<^term>\<open>k\<close> by now, or with an exception.
\<close>

definition service_scene_ready :: "nat \<Rightarrow> (nat \<times> conn_kind) res \<Rightarrow> client_api \<Rightarrow> client_api" where
  "service_scene_ready n r c =
     (if n < length (ca_tasks c) \<and> ca_tasks c ! n = ServicePending
      then (case r of
              Inr (sc, k) \<Rightarrow>
                (let c1 = c\<lparr>ca_watched := Some sc\<rparr>;
                     c2 = (if k = Disconnected \<or> k = Disconnecting then forget_scene (Some sc) c1 else c1)
                 in c2\<lparr>ca_tasks := (ca_tasks c)[n := ServiceReady sc]\<rparr>)
            | Inl ex \<Rightarrow> (forget_scene None c)\<lparr>ca_tasks := (ca_tasks c)[n := ServiceFailed ex]\<rparr>)
      else c)"

definition service_scene_state :: "nat \<Rightarrow> conn_kind \<Rightarrow> client_api \<Rightarrow> client_api" where
  "service_scene_state sc k c =
     (if ca_watched c = Some sc \<and> (k = Disconnected \<or> k = Disconnecting) then forget_scene (Some sc) c else c)"

text \<open>The continuation of a caller.\<close>

definition service_waiter :: "nat \<Rightarrow> client_api \<Rightarrow> client_api" where
  "service_waiter i c =
     (if i < length (ca_waiters c)
      then (let c1 = c\<lparr>ca_waiters := take i (ca_waiters c) @ drop (Suc i) (ca_waiters c)\<rparr>
            in case ca_tasks c ! (ca_waiters c ! i) of
                 ServicePending \<Rightarrow> c
               | ServiceReady sc \<Rightarrow> c1\<lparr>ca_initialized := ca_initialized c @ [sc], ca_answers := ca_answers c @ [Inr sc]\<rparr>
               | ServiceFailed ex \<Rightarrow> c1\<lparr>ca_answers := ca_answers c @ [Inl ex]\<rparr>)
      else c)"

datatype service_action =
    GetService
  | ServiceScene nat "(nat \<times> conn_kind) res"
  | ServiceState nat conn_kind
  | ServiceWaiter nat
  | UsersGone

fun service_act :: "service_action \<Rightarrow> client_api \<Rightarrow> client_api" where
  "service_act GetService c = getService c"
| "service_act (ServiceScene n r) c = service_scene_ready n r c"
| "service_act (ServiceState sc k) c = service_scene_state sc k c"
| "service_act (ServiceWaiter i) c = service_waiter i c"
| "service_act UsersGone c = c\<lparr>ca_users := False\<rparr>"

definition service_run :: "service_action list \<Rightarrow> client_api \<Rightarrow> client_api" where
  "service_run acts c = fold service_act acts c"

lemma service_run_simps [simp]:
  "service_run [] c = c" "service_run (a # acts) c = service_run acts (service_act a c)"
  by (simp_all add: service_run_def)

text \<open>
  The task that is kept is the only one that can still be pending, never a failed one, and a scene
  that is kept is watched.
\<close>

fun task_kept :: "nat option \<Rightarrow> service_task \<Rightarrow> bool" where
  "task_kept w ServicePending \<longleftrightarrow> w = None"
| "task_kept w (ServiceReady sc) \<longleftrightarrow> w = Some sc"
| "task_kept w (ServiceFailed _) \<longleftrightarrow> False"

definition cache_sound :: "nat option \<Rightarrow> service_task list \<Rightarrow> nat option \<Rightarrow> bool" where
  "cache_sound kept ts w \<longleftrightarrow>
     (\<forall>n < length ts. ts ! n = ServicePending \<longrightarrow> kept = Some n)
     \<and> (case kept of None \<Rightarrow> w = None | Some n \<Rightarrow> n < length ts \<and> task_kept w (ts ! n))"

definition service_sound :: "client_api \<Rightarrow> bool" where
  "service_sound c \<longleftrightarrow> cache_sound (ca_scene c) (ca_tasks c) (ca_watched c)"

lemma cache_asks: "cache_sound None ts w \<Longrightarrow> cache_sound (Some (length ts)) (ts @ [ServicePending]) w"
  by (auto simp: cache_sound_def nth_append less_Suc_eq)

lemma cache_pending: "cache_sound kept ts w \<Longrightarrow> n < length ts \<Longrightarrow> ts ! n = ServicePending \<Longrightarrow> kept = Some n"
  by (simp add: cache_sound_def)

lemma cache_ended:
  assumes "cache_sound (Some n) ts w" and "t \<noteq> ServicePending"
  shows "cache_sound None (ts[n := t]) None"
  using assms by (auto simp: cache_sound_def nth_list_update)

lemma cache_ready: "cache_sound (Some n) ts w \<Longrightarrow> cache_sound (Some n) (ts[n := ServiceReady sc]) (Some sc)"
  by (auto simp: cache_sound_def nth_list_update)

lemma cache_lost:
  assumes "cache_sound kept ts (Some sc)"
  shows "cache_sound None ts None"
proof -
  obtain n where n: "kept = Some n" "task_kept (Some sc) (ts ! n)"
    using assms by (auto simp: cache_sound_def split: option.splits)
  then have "ts ! n \<noteq> ServicePending"
    by auto
  then show ?thesis
    using assms n(1) by (auto simp: cache_sound_def)
qed

lemma sound_getService: "service_sound c \<Longrightarrow> service_sound (getService c)"
  by (cases "ca_scene c") (simp_all add: service_sound_def getService_def cache_asks)

lemma sound_service_ready: "service_sound c \<Longrightarrow> service_sound (service_scene_ready n r c)"
proof (cases "n < length (ca_tasks c) \<and> ca_tasks c ! n = ServicePending")
  case True
  assume c: "service_sound c"
  then have s: "ca_scene c = Some n"
    using True cache_pending by (auto simp: service_sound_def)
  then have "cache_sound (Some n) (ca_tasks c) (ca_watched c)"
    using c by (simp add: service_sound_def)
  note k = cache_ended [OF this] cache_ready [OF this]
  show ?thesis
  proof (cases r)
    case (Inl ex)
    then show ?thesis
      using True k(1) by (simp add: service_scene_ready_def forget_scene_def service_sound_def)
  next
    case (Inr q)
    then show ?thesis
      using True k s by (cases q) (simp add: service_scene_ready_def forget_scene_def service_sound_def Let_def)
  qed
qed (auto simp: service_scene_ready_def)

lemma sound_service_state: "service_sound c \<Longrightarrow> service_sound (service_scene_state sc k c)"
  using cache_lost [of "ca_scene c" "ca_tasks c" sc]
  by (auto simp: service_sound_def service_scene_state_def forget_scene_def)

lemma service_waiter_frame:
  "ca_scene (service_waiter i c) = ca_scene c" "ca_tasks (service_waiter i c) = ca_tasks c"
  "ca_watched (service_waiter i c) = ca_watched c"
  by (simp_all add: service_waiter_def Let_def split: service_task.split)

lemma sound_service_waiter: "service_sound c \<Longrightarrow> service_sound (service_waiter i c)"
  by (simp add: service_sound_def service_waiter_frame)

lemma sound_service_act: "service_sound c \<Longrightarrow> service_sound (service_act a c)"
proof (cases a)
  case UsersGone
  assume "service_sound c"
  then show ?thesis
    using UsersGone by (simp add: service_sound_def)
qed (simp_all add: sound_getService sound_service_ready sound_service_state sound_service_waiter)

lemma sound_service_run: "service_sound c \<Longrightarrow> service_sound (service_run acts c)"
  by (induction acts arbitrary: c) (simp_all add: sound_service_act)

lemma sound_service_start: "service_sound ClientAPI"
  by (simp add: service_sound_def cache_sound_def ClientAPI_def)

text \<open>
  Whatever happened before, a service that was lost or could not be had is asked for again,
  and one that is there or on its way is not: \<^verbatim>\<open>getService\<close> starts a request exactly when no task is
  kept, the kept task has not failed, and the scene of a kept task that has ended is watched.
\<close>

theorem service_asked_once:
  assumes "c = service_run acts ClientAPI" and "ca_users c"
  shows "length (ca_tasks (getService c)) = (if ca_scene c = None then Suc (length (ca_tasks c)) else length (ca_tasks c))
    \<and> (case ca_scene c of
          Some n \<Rightarrow> ca_tasks c ! n = ServicePending \<or> (\<exists>sc. ca_tasks c ! n = ServiceReady sc \<and> ca_watched c = Some sc)
        | None \<Rightarrow> ServicePending \<notin> set (ca_tasks c))"
proof -
  have s: "service_sound c"
    unfolding assms(1) by (rule sound_service_run [OF sound_service_start])
  have "length (ca_tasks (getService c)) = (if ca_scene c = None then Suc (length (ca_tasks c)) else length (ca_tasks c))"
    using assms(2) by (simp add: getService_def split: option.split)
  moreover have "ca_tasks c ! n = ServicePending \<or> (\<exists>sc. ca_tasks c ! n = ServiceReady sc \<and> ca_watched c = Some sc)"
    if "ca_scene c = Some n" for n
    using s that by (cases "ca_tasks c ! n") (simp_all add: service_sound_def cache_sound_def)
  moreover have "ServicePending \<notin> set (ca_tasks c)" if "ca_scene c = None"
    using s that by (auto simp: service_sound_def cache_sound_def in_set_conv_nth)
  ultimately show ?thesis
    by (simp split: option.split)
qed

lemma service_asked_once_witness:
  "length (ca_tasks (getService (service_run [GetService, ServiceScene 0 (Inr (4, Connected)), ServiceState 4 Disconnecting] ClientAPI))) = 2"
  by (subst service_asked_once [OF refl, THEN conjunct1])
    (simp_all add: ClientAPI_def getService_def service_scene_ready_def service_scene_state_def forget_scene_def)

text \<open>
  A scene that is lost before the task ends is cleaned up first; the initializer of the waiting
  caller runs on it afterwards, and the caller is given its service.
\<close>

lemma lost_scene_initialized:
  assumes "c = service_run [GetService, ServiceScene 0 (Inr (sc, Disconnected)), ServiceWaiter 0] ClientAPI"
  shows "ca_cleanups c = [Some sc]" and "ca_initialized c = [sc]" and "ca_answers c = [Inr sc]" and "ca_scene c = None"
  by (simp_all add: assms ClientAPI_def getService_def service_scene_ready_def forget_scene_def service_waiter_def)

end
