(* ===== verification/GameSessions.thy ===== *)
theory GameSessions
  imports Prelude
begin

text \<open>
  Game sessions (\<^verbatim>\<open>Plugins/public/GameSession/Gamesessions.hpp\<close>): the service of a session's scene, with
  its players and its role among the peers, and the API with the container of the current session
  and the tasks that connect to it. A container is alive as long as it is the current one, since
  everything else refers to it weakly; its destructor cancels what is under way and ends its
  subscriptions. Continuations are operations of their own.
\<close>

section \<open>The service of a scene\<close>

datatype p2p_role = RoleHost | RoleClient

text \<open>The status is cast from the integer of the message, whatever it is.\<close>

definition player_ready :: int where
  "player_ready = 2"

record session_player =
  sp_playerId :: string
  sp_status :: int
  sp_isHost :: bool

record player_update =
  up_userId :: string
  up_status :: int
  up_data :: string
  up_isHost :: bool

record session_service =
  sv_receivedP2PToken :: bool
  sv_serverReady :: bool
  sv_role :: p2p_role
  sv_tunnel :: "nat option"
  sv_users :: "session_player list"
  sv_disconnected :: bool

definition GameSessionService :: session_service where
  "GameSessionService = \<lparr>sv_receivedP2PToken = False, sv_serverReady = False, sv_role = RoleClient, sv_tunnel = None,
     sv_users = [], sv_disconnected = False\<rparr>"

text \<open>The route \<^verbatim>\<open>player.update\<close>: the entry of the player is replaced where it stands, or appended.\<close>

definition update_player :: "player_update \<Rightarrow> session_player" where
  "update_player m = \<lparr>sp_playerId = up_userId m, sp_status = up_status m, sp_isHost = up_isHost m\<rparr>"

fun put_player :: "session_player \<Rightarrow> session_player list \<Rightarrow> session_player list" where
  "put_player p [] = [p]"
| "put_player p (q # qs) = (if sp_playerId q = sp_playerId p then p # qs else q # put_player p qs)"

definition service_update :: "player_update \<Rightarrow> session_service \<Rightarrow> session_service" where
  "service_update m s = s\<lparr>sv_users := put_player (update_player m) (sv_users s)\<rparr>"

definition getConnectedPlayers :: "session_service \<Rightarrow> session_player list" where
  "getConnectedPlayers s = sv_users s"

definition service_disconnecting :: "session_service \<Rightarrow> session_service" where
  "service_disconnecting s = s\<lparr>sv_tunnel := None, sv_users := [], sv_disconnected := True\<rparr>"

section \<open>The sessions of the client\<close>

record session_parameters =
  gp_isHost :: bool
  gp_endpoint :: string

text \<open>The task for the scene, which includes the connection to the host, and the call behind it.\<close>

datatype session_stage =
    NoTask
  | ConnectingPrivate
  | RequestingToken nat
  | OpeningConnection nat
  | OpeningTunnel nat nat
  | SessionScene nat
  | SessionFailed storm_exn

datatype session_call =
    WaitScene
  | WaitRole
  | WaitHost session_parameters
  | Leaving storm_exn
  | CallDone session_parameters
  | CallFailed storm_exn

record session_container =
  gc_mapName :: string
  gc_sceneId :: string
  gc_openTunnel :: bool
  gc_stage :: session_stage
  gc_call :: session_call
  gc_subscribed :: "nat option"
  gc_p2pHost :: "nat option"
  gc_ready :: "session_parameters option"
  gc_hostReady :: bool

datatype session_event =
    RoleReceived session_parameters
  | TunnelOpened session_parameters
  | AllPlayersReady
  | PlayerChanged session_player string
  | DisconnectingFromScene nat

text \<open>
  \<open>gs_leaves\<close> are the disconnections that wait for the task of a container, with the call that is
  behind; \<open>gs_disconnects\<close> are the scenes told to disconnect, \<open>gs_sent\<close> what goes to the server.
\<close>

record game_sessions =
  gs_current :: "nat option"
  gs_containers :: "session_container list"
  gs_services :: "nat \<Rightarrow> session_service"
  gs_events :: "session_event list"
  gs_leaves :: "(nat \<times> (nat \<times> storm_exn) option) list"
  gs_disconnects :: "nat list"
  gs_sent :: "(nat \<times> string \<times> string) list"

definition GameSession_Impl :: game_sessions where
  "GameSession_Impl = \<lparr>gs_current = None, gs_containers = [], gs_services = (\<lambda>_. GameSessionService), gs_events = [],
     gs_leaves = [], gs_disconnects = [], gs_sent = []\<rparr>"

definition upd_container :: "nat \<Rightarrow> (session_container \<Rightarrow> session_container) \<Rightarrow> game_sessions \<Rightarrow> game_sessions" where
  "upd_container n f w = w\<lparr>gs_containers := (gs_containers w)[n := f (gs_containers w ! n)]\<rparr>"

definition set_session_stage :: "nat \<Rightarrow> session_stage \<Rightarrow> game_sessions \<Rightarrow> game_sessions" where
  "set_session_stage n st = upd_container n (\<lambda>c. c\<lparr>gc_stage := st\<rparr>)"

definition set_call :: "nat \<Rightarrow> session_call \<Rightarrow> game_sessions \<Rightarrow> game_sessions" where
  "set_call n k = upd_container n (\<lambda>c. c\<lparr>gc_call := k\<rparr>)"

definition upd_service :: "nat \<Rightarrow> (session_service \<Rightarrow> session_service) \<Rightarrow> game_sessions \<Rightarrow> game_sessions" where
  "upd_service sc f w = w\<lparr>gs_services := (gs_services w)(sc := f (gs_services w sc))\<rparr>"

definition raise_session_event :: "session_event \<Rightarrow> game_sessions \<Rightarrow> game_sessions" where
  "raise_session_event e w = w\<lparr>gs_events := gs_events w @ [e]\<rparr>"

text \<open>The container that gets the events of a scene's service: the current one, if it has subscribed.\<close>

definition listener :: "nat \<Rightarrow> game_sessions \<Rightarrow> nat option" where
  "listener sc w =
     (case gs_current w of
        None \<Rightarrow> None
      | Some n \<Rightarrow> if gc_subscribed (gs_containers w ! n) = Some sc then Some n else None)"

text \<open>The completion event of the session takes the first value only.\<close>

definition session_ready :: "nat \<Rightarrow> session_parameters \<Rightarrow> game_sessions \<Rightarrow> game_sessions" where
  "session_ready n p =
     upd_container n (\<lambda>c. c\<lparr>gc_ready := (case gc_ready c of None \<Rightarrow> Some p | Some q \<Rightarrow> Some q)\<rparr>)"

definition role_received :: "nat \<Rightarrow> p2p_role \<Rightarrow> game_sessions \<Rightarrow> game_sessions" where
  "role_received sc role w =
     (case listener sc w of
        None \<Rightarrow> w
      | Some n \<Rightarrow>
          (let c = gs_containers w ! n;
               p = \<lparr>gp_isHost = (role = RoleHost), gp_endpoint = gc_mapName c\<rparr>
           in if role = RoleHost \<or> role = RoleClient \<and> \<not> gc_openTunnel c
              then session_ready n p (raise_session_event (RoleReceived p) w) else w))"

definition tunnel_event :: "nat \<Rightarrow> string \<times> string \<Rightarrow> game_sessions \<Rightarrow> game_sessions" where
  "tunnel_event sc tunnel w =
     (case listener sc w of
        None \<Rightarrow> w
      | Some n \<Rightarrow>
          (let p = \<lparr>gp_isHost = False, gp_endpoint = fst tunnel @ '':'' @ snd tunnel\<rparr>
           in if gc_openTunnel (gs_containers w ! n)
              then session_ready n p (raise_session_event (TunnelOpened p) w) else w))"

text \<open>The route \<^verbatim>\<open>player.update\<close> and the subscription to it; \<^verbatim>\<open>players.allReady\<close>.\<close>

definition on_player_update :: "nat \<Rightarrow> player_update \<Rightarrow> game_sessions \<Rightarrow> game_sessions" where
  "on_player_update sc m w =
     (let w1 = upd_service sc (service_update m) w; p = update_player m in
      case listener sc w of
        None \<Rightarrow> w1
      | Some n \<Rightarrow>
          (let w2 = raise_session_event (PlayerChanged p (up_data m)) w1
           in if sp_isHost p \<and> sp_status p = player_ready
              then upd_container n (\<lambda>c. c\<lparr>gc_hostReady := True\<rparr>) w2 else w2))"

definition on_all_ready :: "nat \<Rightarrow> game_sessions \<Rightarrow> game_sessions" where
  "on_all_ready sc w = (case listener sc w of None \<Rightarrow> w | Some n \<Rightarrow> raise_session_event AllPlayersReady w)"

section \<open>Connecting\<close>

text \<open>
  \<^verbatim>\<open>connectToGameSession\<close>: the new container replaces the current one before the token is decoded,
  which may throw.
\<close>

definition connectToGameSession ::
  "string \<Rightarrow> string res \<Rightarrow> string \<Rightarrow> bool \<Rightarrow> game_sessions \<Rightarrow> nat res \<times> game_sessions" where
  "connectToGameSession token decoded mapName openTunnel w =
     (if token = '''' then (Inl (RuntimeError ''Empty connection token''), w)
      else
        (let n = length (gs_containers w);
             c = \<lparr>gc_mapName = mapName, gc_sceneId = '''', gc_openTunnel = openTunnel, gc_stage = NoTask,
                  gc_call = WaitScene, gc_subscribed = None, gc_p2pHost = None, gc_ready = None, gc_hostReady = False\<rparr>
         in case decoded of
              Inl ex \<Rightarrow> (Inl ex, w\<lparr>gs_containers := gs_containers w @ [c\<lparr>gc_call := CallFailed ex\<rparr>], gs_current := Some n\<rparr>)
            | Inr sceneId \<Rightarrow>
                (Inr n, w\<lparr>gs_containers := gs_containers w @ [c\<lparr>gc_sceneId := sceneId, gc_stage := ConnectingPrivate\<rparr>],
                          gs_current := Some n\<rparr>)))"

text \<open>The callback of the cancellation token that was given to \<^verbatim>\<open>connectToGameSession\<close>.\<close>

definition cancel_session :: "game_sessions \<Rightarrow> game_sessions" where
  "cancel_session w = w\<lparr>gs_current := None\<rparr>"

definition alive :: "nat \<Rightarrow> game_sessions \<Rightarrow> bool" where
  "alive n w \<longleftrightarrow> gs_current w = Some n"

text \<open>
  The private scene has come. The initializer runs only when the scene was made for this
  connection (\<^term>\<open>made\<close>); a scene that was there already is returned as it is.
\<close>

definition session_scene :: "nat \<Rightarrow> bool \<Rightarrow> nat res \<Rightarrow> game_sessions \<Rightarrow> game_sessions" where
  "session_scene n made r w =
     (case gc_stage (gs_containers w ! n) of
        ConnectingPrivate \<Rightarrow>
          (if \<not> alive n w then set_session_stage n (SessionFailed TaskCanceled) w
           else case r of
                  Inl ex \<Rightarrow> set_session_stage n (SessionFailed ex) w
                | Inr sc \<Rightarrow>
                    (let w1 = (if made then upd_container n (\<lambda>c. c\<lparr>gc_subscribed := Some sc\<rparr>) w else w)
                     in set_session_stage n (RequestingToken sc)
                          (w1\<lparr>gs_sent := gs_sent w1 @ [(sc, ''GameSession.GetP2PToken'', '''')]\<rparr>)))
      | _ \<Rightarrow> w)"

text \<open>The end of the task for the scene: the host's peer is kept if the container is still there.\<close>

definition session_peer :: "nat \<Rightarrow> nat \<Rightarrow> nat option \<Rightarrow> game_sessions \<Rightarrow> game_sessions" where
  "session_peer n sc peer w =
     (if alive n w then upd_container n (\<lambda>c. c\<lparr>gc_p2pHost := peer, gc_stage := SessionScene sc\<rparr>) w
      else set_session_stage n (SessionFailed TaskCanceled) w)"

text \<open>
  \<^verbatim>\<open>initializeP2P\<close>, up to the connection to the host. \<open>server\<close> is the tunnel server that
  \<^verbatim>\<open>registerP2PServer\<close> returns.
\<close>

definition initializeP2P :: "nat \<Rightarrow> nat \<Rightarrow> string \<Rightarrow> nat \<Rightarrow> game_sessions \<Rightarrow> game_sessions" where
  "initializeP2P n sc p2pToken server w =
     (if sv_receivedP2PToken (gs_services w sc) then session_peer n sc None w
      else
        (let w1 = upd_service sc (\<lambda>s. s\<lparr>sv_receivedP2PToken := True, sv_serverReady := True\<rparr>) w
         in if p2pToken = ''''
            then (let w2 = role_received sc RoleHost (upd_service sc (\<lambda>s. s\<lparr>sv_role := RoleHost\<rparr>) w1);
                      w3 = (if gc_openTunnel (gs_containers w ! n)
                            then upd_service sc (\<lambda>s. s\<lparr>sv_tunnel := Some server\<rparr>) w2 else w2)
                  in session_peer n sc None w3)
            else set_session_stage n (OpeningConnection sc) w1))"

definition p2p_token_received :: "nat \<Rightarrow> string res \<Rightarrow> nat \<Rightarrow> game_sessions \<Rightarrow> game_sessions" where
  "p2p_token_received n r server w =
     (case gc_stage (gs_containers w ! n) of
        RequestingToken sc \<Rightarrow>
          (if \<not> alive n w then set_session_stage n (SessionFailed TaskCanceled) w
           else case r of
                  Inl ex \<Rightarrow> set_session_stage n (SessionFailed (RuntimeError ''Cannot get p2pToken'')) w
                | Inr token \<Rightarrow> initializeP2P n sc token server w)
      | _ \<Rightarrow> w)"

definition connection_opened :: "nat \<Rightarrow> nat res \<Rightarrow> game_sessions \<Rightarrow> game_sessions" where
  "connection_opened n r w =
     (case gc_stage (gs_containers w ! n) of
        OpeningConnection sc \<Rightarrow>
          (if \<not> alive n w then set_session_stage n (SessionFailed TaskCanceled) w
           else case r of
                  Inl ex \<Rightarrow> set_session_stage n (SessionFailed ex) w
                | Inr peer \<Rightarrow>
                    (let w1 = role_received sc RoleClient (upd_service sc (\<lambda>s. s\<lparr>sv_role := RoleClient\<rparr>) w)
                     in if gc_openTunnel (gs_containers w ! n) then set_session_stage n (OpeningTunnel sc peer) w1
                        else session_peer n sc (Some peer) w1))
      | _ \<Rightarrow> w)"

definition tunnel_opened :: "nat \<Rightarrow> (nat \<times> string \<times> string) res \<Rightarrow> game_sessions \<Rightarrow> game_sessions" where
  "tunnel_opened n r w =
     (case gc_stage (gs_containers w ! n) of
        OpeningTunnel sc peer \<Rightarrow>
          (if \<not> alive n w then set_session_stage n (SessionFailed TaskCanceled) w
           else case r of
                  Inl ex \<Rightarrow> set_session_stage n (SessionFailed ex) w
                | Inr (t, address) \<Rightarrow>
                    session_peer n sc (Some peer)
                      (tunnel_event sc address (upd_service sc (\<lambda>s. s\<lparr>sv_tunnel := Some t\<rparr>) w)))
      | _ \<Rightarrow> w)"

section \<open>Leaving, and the call that connects\<close>

text \<open>
  \<^verbatim>\<open>disconnectFromGameSession\<close> waits for the task of the current container. A call that has failed
  does the same before it passes its exception on.
\<close>

definition no_task_error :: storm_exn where
  "no_task_error = LogicError ''then() cannot be called on a default constructed task.''"

definition disconnectFromGameSession :: "(nat \<times> storm_exn) option \<Rightarrow> game_sessions \<Rightarrow> unit res option \<times> game_sessions" where
  "disconnectFromGameSession behind w =
     (case gs_current w of
        None \<Rightarrow> (Some (Inr ()), w)
      | Some m \<Rightarrow>
          if gc_stage (gs_containers w ! m) = NoTask then (Some (Inl no_task_error), w)
          else (None, w\<lparr>gs_leaves := gs_leaves w @ [(m, behind)]\<rparr>))"

definition call_failed :: "nat \<Rightarrow> storm_exn \<Rightarrow> game_sessions \<Rightarrow> game_sessions" where
  "call_failed n ex w =
     (case disconnectFromGameSession (Some (n, ex)) w of
        (Some (Inr _), w1) \<Rightarrow> set_call n (CallFailed ex) w1
      | (Some (Inl ex1), w1) \<Rightarrow> set_call n (CallFailed ex1) w1
      | (None, w1) \<Rightarrow> set_call n (Leaving ex) w1)"

definition finish_leave :: "(nat \<times> storm_exn) option \<Rightarrow> game_sessions \<Rightarrow> game_sessions" where
  "finish_leave behind w = (case behind of None \<Rightarrow> w | Some (n, ex) \<Rightarrow> set_call n (CallFailed ex) w)"

definition run_leave :: "nat \<Rightarrow> game_sessions \<Rightarrow> game_sessions" where
  "run_leave i w =
     (if i < length (gs_leaves w)
      then (let (m, behind) = gs_leaves w ! i;
                w1 = w\<lparr>gs_leaves := take i (gs_leaves w) @ drop (Suc i) (gs_leaves w)\<rparr>
            in case gc_stage (gs_containers w ! m) of
                 SessionScene sc \<Rightarrow> finish_leave behind (w1\<lparr>gs_disconnects := gs_disconnects w @ [sc]\<rparr>)
               | SessionFailed _ \<Rightarrow> finish_leave behind w1
               | _ \<Rightarrow> w)
      else w)"

text \<open>
  The continuations of the call: the scene, the role, and for a client the host. What waits for a
  container that is gone is canceled.
\<close>

definition run_call :: "nat \<Rightarrow> game_sessions \<Rightarrow> game_sessions" where
  "run_call n w =
     (let c = gs_containers w ! n in
      case gc_call c of
        WaitScene \<Rightarrow>
          (case gc_stage c of
             SessionScene sc \<Rightarrow> if alive n w then set_call n WaitRole w else call_failed n TaskCanceled w
           | SessionFailed ex \<Rightarrow> call_failed n ex w
           | _ \<Rightarrow> if alive n w then w else call_failed n TaskCanceled w)
      | WaitRole \<Rightarrow>
          (if \<not> alive n w then call_failed n TaskCanceled w
           else case gc_ready c of
                  None \<Rightarrow> w
                | Some p \<Rightarrow> set_call n (if gp_isHost p then CallDone p else WaitHost p) w)
      | WaitHost p \<Rightarrow>
          (if \<not> alive n w then call_failed n TaskCanceled w
           else if gc_hostReady c then set_call n (CallDone p) w else w)
      | _ \<Rightarrow> w)"

text \<open>The plugin: a session's scene is disconnecting.\<close>

definition sceneDisconnecting :: "nat \<Rightarrow> game_sessions \<Rightarrow> game_sessions" where
  "sceneDisconnecting sc w = upd_service sc service_disconnecting (raise_session_event (DisconnectingFromScene sc) w)"

section \<open>Queries\<close>

definition is_done_error :: storm_exn where
  "is_done_error = LogicError ''is_done() cannot be called on a default constructed task.''"

definition session_scene_of :: "game_sessions \<Rightarrow> nat option res" where
  "session_scene_of w =
     (case gs_current w of
        None \<Rightarrow> Inr None
      | Some n \<Rightarrow>
          (case gc_stage (gs_containers w ! n) of
             SessionScene sc \<Rightarrow> Inr (Some sc)
           | SessionFailed ex \<Rightarrow> Inl ex
           | NoTask \<Rightarrow> Inl is_done_error
           | _ \<Rightarrow> Inr None))"

definition getSessionHost :: "game_sessions \<Rightarrow> nat option res" where
  "getSessionHost w =
     (case gs_current w of
        None \<Rightarrow> Inr None
      | Some n \<Rightarrow>
          (case gc_stage (gs_containers w ! n) of
             SessionScene sc \<Rightarrow> Inr (gc_p2pHost (gs_containers w ! n))
           | SessionFailed ex \<Rightarrow> Inr (gc_p2pHost (gs_containers w ! n))
           | NoTask \<Rightarrow> Inl is_done_error
           | _ \<Rightarrow> Inr None))"

definition isSessionHost :: "game_sessions \<Rightarrow> bool res" where
  "isSessionHost w =
     bind_res (session_scene_of w) (\<lambda>s.
       case s of None \<Rightarrow> Inr False | Some sc \<Rightarrow> Inr (sv_role (gs_services w sc) = RoleHost))"

text \<open>
  \<^verbatim>\<open>setPlayerReady\<close>, \<^verbatim>\<open>postResult\<close> and \<^verbatim>\<open>getUserFromBearerToken\<close> once the task of the current session has
  ended; \<^const>\<open>None\<close> while it has not.
\<close>

definition with_session :: "string \<Rightarrow> string \<Rightarrow> game_sessions \<Rightarrow> unit res option \<times> game_sessions" where
  "with_session route data w =
     (case gs_current w of
        None \<Rightarrow> (Some (Inl (RuntimeError ''Not connected to any game session'')), w)
      | Some n \<Rightarrow>
          (case gc_stage (gs_containers w ! n) of
             SessionScene sc \<Rightarrow> (Some (Inr ()), w\<lparr>gs_sent := gs_sent w @ [(sc, route, data)]\<rparr>)
           | SessionFailed ex \<Rightarrow> (Some (Inl ex), w)
           | NoTask \<Rightarrow> (Some (Inl no_task_error), w)
           | _ \<Rightarrow> (None, w)))"

definition setPlayerReady :: "string \<Rightarrow> game_sessions \<Rightarrow> unit res option \<times> game_sessions" where
  "setPlayerReady data = with_session ''player.ready'' data"

definition postResult :: "string \<Rightarrow> game_sessions \<Rightarrow> unit res option \<times> game_sessions" where
  "postResult result = with_session ''gamesession.postresults'' result"

definition session_bearer :: "string \<Rightarrow> game_sessions \<Rightarrow> unit res option \<times> game_sessions" where
  "session_bearer token = with_session ''GameSession.GetUserFromBearerToken'' token"

section \<open>Runs\<close>

datatype session_action =
    ConnectSession string "string res" string bool
  | CancelSession
  | PrivateSceneOf nat bool "nat res"
  | P2PTokenOf nat "string res" nat
  | ConnectionOf nat "nat res"
  | TunnelOf nat "(nat \<times> string \<times> string) res"
  | RunCall nat
  | LeaveSession
  | RunLeave nat
  | PlayerUpdate nat player_update
  | AllReady nat
  | SceneDisconnecting nat
  | PlayerReady string
  | PostResult string
  | SessionBearer string

fun session_act :: "session_action \<Rightarrow> game_sessions \<Rightarrow> game_sessions" where
  "session_act (ConnectSession token decoded mapName openTunnel) w = snd (connectToGameSession token decoded mapName openTunnel w)"
| "session_act CancelSession w = cancel_session w"
| "session_act (PrivateSceneOf n made r) w = session_scene n made r w"
| "session_act (P2PTokenOf n r server) w = p2p_token_received n r server w"
| "session_act (ConnectionOf n r) w = connection_opened n r w"
| "session_act (TunnelOf n r) w = tunnel_opened n r w"
| "session_act (RunCall n) w = run_call n w"
| "session_act LeaveSession w = snd (disconnectFromGameSession None w)"
| "session_act (RunLeave i) w = run_leave i w"
| "session_act (PlayerUpdate sc m) w = on_player_update sc m w"
| "session_act (AllReady sc) w = on_all_ready sc w"
| "session_act (SceneDisconnecting sc) w = sceneDisconnecting sc w"
| "session_act (PlayerReady data) w = snd (setPlayerReady data w)"
| "session_act (PostResult r) w = snd (postResult r w)"
| "session_act (SessionBearer t) w = snd (session_bearer t w)"

definition session_run :: "session_action list \<Rightarrow> game_sessions \<Rightarrow> game_sessions" where
  "session_run acts w = fold session_act acts w"

lemma session_run_simps [simp]:
  "session_run [] w = w" "session_run (a # acts) w = session_run acts (session_act a w)"
  by (simp_all add: session_run_def)

section \<open>The players\<close>

definition player_table :: "session_player list \<Rightarrow> string \<rightharpoonup> session_player" where
  "player_table ps = map_of (map (\<lambda>p. (sp_playerId p, p)) ps)"

lemma player_table_Cons: "player_table (p # ps) = (player_table ps)(sp_playerId p \<mapsto> p)"
  by (simp add: player_table_def)

lemma player_table_put: "player_table (put_player p ps) = (player_table ps)(sp_playerId p \<mapsto> p)"
proof (induction ps)
  case (Cons q qs)
  show ?case
  proof (cases "sp_playerId q = sp_playerId p")
    case True
    then show ?thesis
      by (simp add: player_table_Cons fun_eq_iff)
  next
    case False
    then show ?thesis
      using Cons.IH by (simp add: player_table_Cons fun_eq_iff)
  qed
qed (simp add: player_table_def)

lemma put_player_ids: "set (map sp_playerId (put_player p ps)) = insert (sp_playerId p) (set (map sp_playerId ps))"
  by (induction ps) auto

lemma put_player_distinct: "distinct (map sp_playerId ps) \<Longrightarrow> distinct (map sp_playerId (put_player p ps))"
proof (induction ps)
  case (Cons q qs)
  then show ?case
    using put_player_ids [of p qs] by auto
qed simp

text \<open>The table as the list of updates defines it: the last one of a player counts.\<close>

definition updates_table :: "player_update list \<Rightarrow> string \<rightharpoonup> session_player" where
  "updates_table ms = map_of (rev (map (\<lambda>m. (up_userId m, update_player m)) ms))"

lemma updates_refine:
  "player_table (sv_users (fold service_update ms s)) = player_table (sv_users s) ++ updates_table ms"
proof (induction ms arbitrary: s)
  case (Cons m ms)
  have "player_table (sv_users (service_update m s)) = (player_table (sv_users s))(up_userId m \<mapsto> update_player m)"
    by (simp add: service_update_def player_table_put update_player_def)
  then show ?case
    by (simp add: Cons.IH updates_table_def map_add_upd_left [symmetric] map_add_assoc [symmetric])
      (simp add: map_add_def fun_eq_iff split: option.split)
qed (simp add: updates_table_def)

lemma updates_distinct:
  "distinct (map sp_playerId (sv_users s)) \<Longrightarrow> distinct (map sp_playerId (sv_users (fold service_update ms s)))"
  by (induction ms arbitrary: s) (simp_all add: service_update_def put_player_distinct)

text \<open>
  The players of a session are a table: after any updates no player is listed twice, and
  the entry of each is the last update that named it, as if the updates had gone into a map.
\<close>

lemma players_refine_table:
  "distinct (map sp_playerId (getConnectedPlayers (fold service_update ms GameSessionService)))
   \<and> player_table (getConnectedPlayers (fold service_update ms GameSessionService)) = updates_table ms"
proof -
  have "sv_users GameSessionService = []"
    by (simp add: GameSessionService_def)
  then show ?thesis
    using updates_refine [of ms GameSessionService] updates_distinct [of GameSessionService ms]
    by (simp add: getConnectedPlayers_def player_table_def)
qed

section \<open>Who may call itself connected\<close>

fun call_ok :: "session_call \<Rightarrow> session_parameters option \<Rightarrow> bool \<Rightarrow> bool" where
  "call_ok (CallDone p) ready hostReady \<longleftrightarrow> ready = Some p \<and> (gp_isHost p \<or> hostReady)"
| "call_ok (WaitHost p) ready hostReady \<longleftrightarrow> ready = Some p \<and> \<not> gp_isHost p"
| "call_ok _ ready hostReady \<longleftrightarrow> True"

fun ready_ok :: "session_parameters option \<Rightarrow> nat option \<Rightarrow> string \<Rightarrow> bool" where
  "ready_ok None subscribed mapName \<longleftrightarrow> True"
| "ready_ok (Some p) subscribed mapName \<longleftrightarrow> subscribed \<noteq> None \<and> (gp_isHost p \<longrightarrow> gp_endpoint p = mapName)"

definition container_sound :: "session_container \<Rightarrow> bool" where
  "container_sound c \<longleftrightarrow>
     call_ok (gc_call c) (gc_ready c) (gc_hostReady c) \<and> ready_ok (gc_ready c) (gc_subscribed c) (gc_mapName c)"

lemma call_ok_ready: "call_ok k None h \<Longrightarrow> call_ok k (Some p) h"
  by (cases k) auto

lemma call_ok_host: "call_ok k r h \<Longrightarrow> call_ok k r True"
  by (cases k) auto

definition sessions_sound :: "game_sessions \<Rightarrow> bool" where
  "sessions_sound w \<longleftrightarrow> list_all container_sound (gs_containers w)"

lemma sound_container: "sessions_sound w \<Longrightarrow> n < length (gs_containers w) \<Longrightarrow> container_sound (gs_containers w ! n)"
  by (simp add: sessions_sound_def list_all_length)

lemma sound_upd:
  assumes "sessions_sound w"
    and "n < length (gs_containers w) \<Longrightarrow> container_sound (gs_containers w ! n) \<Longrightarrow> container_sound (f (gs_containers w ! n))"
  shows "sessions_sound (upd_container n f w)"
proof (cases "n < length (gs_containers w)")
  case True
  then show ?thesis
    using assms by (auto simp: sessions_sound_def upd_container_def list_all_length nth_list_update)
next
  case False
  then show ?thesis
    using assms(1) by (simp add: sessions_sound_def upd_container_def list_update_beyond not_less)
qed

lemma sound_keep [simp]:
  "sessions_sound (w\<lparr>gs_sent := a\<rparr>) = sessions_sound w" "sessions_sound (w\<lparr>gs_events := b\<rparr>) = sessions_sound w"
  "sessions_sound (w\<lparr>gs_leaves := l\<rparr>) = sessions_sound w" "sessions_sound (w\<lparr>gs_disconnects := d\<rparr>) = sessions_sound w"
  "sessions_sound (w\<lparr>gs_current := k\<rparr>) = sessions_sound w" "sessions_sound (upd_service sc g w) = sessions_sound w"
  "sessions_sound (raise_session_event e w) = sessions_sound w"
  by (simp_all add: sessions_sound_def upd_service_def raise_session_event_def)

lemma sound_session_stage: "sessions_sound w \<Longrightarrow> sessions_sound (set_session_stage n st w)"
  unfolding set_session_stage_def by (rule sound_upd) (auto simp: container_sound_def)

lemma sound_call_end:
  "sessions_sound w \<Longrightarrow> k = WaitRole \<or> (\<exists>ex. k = Leaving ex \<or> k = CallFailed ex) \<Longrightarrow> sessions_sound (set_call n k w)"
  unfolding set_call_def by (rule sound_upd) (auto simp: container_sound_def)

lemma listener_subscribed: "listener sc w = Some n \<Longrightarrow> gc_subscribed (gs_containers w ! n) = Some sc"
  by (auto simp: listener_def split: option.splits if_splits)

lemma sound_session_ready:
  assumes "sessions_sound w" and "gc_subscribed (gs_containers w ! n) \<noteq> None"
    and "gp_isHost p \<Longrightarrow> gp_endpoint p = gc_mapName (gs_containers w ! n)"
  shows "sessions_sound (session_ready n p w)"
  unfolding session_ready_def
  by (rule sound_upd [OF assms(1)])
    (use assms(2,3) in \<open>auto simp: container_sound_def call_ok_ready split: option.split\<close>)

lemma sound_role: "sessions_sound w \<Longrightarrow> sessions_sound (role_received sc role w)"
proof (cases "listener sc w")
  case (Some n)
  assume w: "sessions_sound w"
  have "gc_subscribed (gs_containers (raise_session_event e w) ! n) \<noteq> None" for e
    using listener_subscribed [OF Some] by (simp add: raise_session_event_def)
  then show ?thesis
    using w Some by (auto simp: role_received_def Let_def raise_session_event_def intro!: sound_session_ready)
qed (simp add: role_received_def)

lemma sound_tunnel: "sessions_sound w \<Longrightarrow> sessions_sound (tunnel_event sc t w)"
proof (cases "listener sc w")
  case (Some n)
  assume w: "sessions_sound w"
  have "gc_subscribed (gs_containers (raise_session_event e w) ! n) \<noteq> None" for e
    using listener_subscribed [OF Some] by (simp add: raise_session_event_def)
  then show ?thesis
    using w Some by (auto simp: tunnel_event_def Let_def raise_session_event_def intro!: sound_session_ready)
qed (simp add: tunnel_event_def)

lemma sound_update: "sessions_sound w \<Longrightarrow> sessions_sound (on_player_update sc m w)"
proof -
  assume w: "sessions_sound w"
  have "sessions_sound (upd_container n (\<lambda>c. c\<lparr>gc_hostReady := True\<rparr>) v)" if "sessions_sound v" for n v
    by (rule sound_upd [OF that]) (auto simp: container_sound_def intro: call_ok_host)
  then show ?thesis
    using w by (simp add: on_player_update_def Let_def split: option.split)
qed

lemma sound_connect: "sessions_sound w \<Longrightarrow> sessions_sound (snd (connectToGameSession t d m o' w))"
  by (cases d) (auto simp: connectToGameSession_def Let_def sessions_sound_def container_sound_def)

lemma sound_scene: "sessions_sound w \<Longrightarrow> sessions_sound (session_scene n made r w)"
proof -
  assume w: "sessions_sound w"
  have s: "ready_ok a b m \<Longrightarrow> ready_ok a (Some sc) m" for a b m and sc :: nat
    by (cases a) auto
  have "sessions_sound (upd_container n (\<lambda>c. c\<lparr>gc_subscribed := Some sc\<rparr>) w)" for sc
    by (rule sound_upd [OF w]) (auto simp: container_sound_def intro: s)
  then show ?thesis
    using w by (auto simp: session_scene_def Let_def sound_session_stage split: session_stage.split sum.split)
qed

lemma sound_peer: "sessions_sound w \<Longrightarrow> sessions_sound (session_peer n sc peer w)"
proof -
  assume w: "sessions_sound w"
  have "sessions_sound (upd_container n (\<lambda>c. c\<lparr>gc_p2pHost := peer, gc_stage := SessionScene sc\<rparr>) w)"
    by (rule sound_upd [OF w]) (simp add: container_sound_def)
  then show ?thesis
    using w by (simp add: session_peer_def sound_session_stage)
qed

lemma sound_initialize: "sessions_sound w \<Longrightarrow> sessions_sound (initializeP2P n sc t srv w)"
  by (simp add: initializeP2P_def Let_def sound_peer sound_session_stage sound_role)

lemma sound_token: "sessions_sound w \<Longrightarrow> sessions_sound (p2p_token_received n r srv w)"
  by (auto simp: p2p_token_received_def sound_session_stage sound_initialize split: session_stage.split sum.split)

lemma sound_opened: "sessions_sound w \<Longrightarrow> sessions_sound (connection_opened n r w)"
  by (auto simp: connection_opened_def Let_def sound_session_stage sound_peer sound_role split: session_stage.split sum.split)

lemma sound_tunnel_opened: "sessions_sound w \<Longrightarrow> sessions_sound (tunnel_opened n r w)"
  by (auto simp: tunnel_opened_def sound_session_stage sound_peer sound_tunnel split: session_stage.split sum.split)

lemma sound_disconnect: "sessions_sound w \<Longrightarrow> sessions_sound (snd (disconnectFromGameSession b w))"
  by (simp add: disconnectFromGameSession_def split: option.split)

lemma sound_call_failed: "sessions_sound w \<Longrightarrow> sessions_sound (call_failed n ex w)"
  using sound_disconnect [of w "Some (n, ex)"]
  by (auto simp: call_failed_def sound_call_end split: prod.split option.split sum.split)

lemma sound_leave: "sessions_sound w \<Longrightarrow> sessions_sound (run_leave i w)"
  by (auto simp: run_leave_def finish_leave_def Let_def sound_call_end
      split: prod.split option.split session_stage.split)

lemma sound_run_call: "sessions_sound w \<Longrightarrow> sessions_sound (run_call n w)"
proof -
  assume w: "sessions_sound w"
  have ends: "sessions_sound (set_call n (if gp_isHost p then CallDone p else WaitHost p) w)"
    if "gc_ready (gs_containers w ! n) = Some p" for p
    unfolding set_call_def by (rule sound_upd [OF w]) (use that in \<open>auto simp: container_sound_def\<close>)
  have host: "sessions_sound (set_call n (CallDone p) w)"
    if "gc_call (gs_containers w ! n) = WaitHost p" "gc_hostReady (gs_containers w ! n)" for p
    unfolding set_call_def by (rule sound_upd [OF w]) (use that in \<open>auto simp: container_sound_def\<close>)
  show ?thesis
    using w ends host
    by (auto simp: run_call_def Let_def sound_call_end sound_call_failed
        split: session_call.split session_stage.split option.split)
qed

lemma sound_with: "sessions_sound w \<Longrightarrow> sessions_sound (snd (with_session route data w))"
  by (auto simp: with_session_def split: option.split session_stage.split)

lemma sessions_sound_act: "sessions_sound w \<Longrightarrow> sessions_sound (session_act a w)"
  by (cases a) (simp_all add: sound_connect cancel_session_def sound_scene sound_token sound_opened sound_tunnel_opened
      sound_run_call sound_disconnect sound_leave sound_update on_all_ready_def sceneDisconnecting_def
      setPlayerReady_def postResult_def session_bearer_def sound_with split: option.split)

lemma sessions_sound_run: "sessions_sound w \<Longrightarrow> sessions_sound (session_run acts w)"
  by (induction acts arbitrary: w) (simp_all add: sessions_sound_act)

lemma sessions_sound_start: "sessions_sound GameSession_Impl"
  by (simp add: sessions_sound_def GameSession_Impl_def)

text \<open>Nothing but an update of a host that is ready, in the container's own scene, sets the flag of the host.\<close>

definition host_flags :: "game_sessions \<Rightarrow> bool list" where
  "host_flags w = map gc_hostReady (gs_containers w)"

lemma flags_upd: "(\<And>c. gc_hostReady (f c) = gc_hostReady c) \<Longrightarrow> host_flags (upd_container n f w) = host_flags w"
  by (cases "n < length (gs_containers w)")
    (auto simp: host_flags_def upd_container_def list_eq_iff_nth_eq nth_list_update list_update_beyond)

lemma flags_keep [simp]:
  "host_flags (w\<lparr>gs_sent := a\<rparr>) = host_flags w" "host_flags (w\<lparr>gs_events := b\<rparr>) = host_flags w"
  "host_flags (w\<lparr>gs_leaves := l\<rparr>) = host_flags w" "host_flags (w\<lparr>gs_disconnects := d\<rparr>) = host_flags w"
  "host_flags (w\<lparr>gs_current := k\<rparr>) = host_flags w" "host_flags (upd_service sc g w) = host_flags w"
  "host_flags (raise_session_event e w) = host_flags w" "host_flags (set_call n call w) = host_flags w"
  "host_flags (set_session_stage n st w) = host_flags w" "host_flags (session_ready n p w) = host_flags w"
  by (simp_all add: flags_upd set_call_def set_session_stage_def session_ready_def)
    (simp_all add: host_flags_def upd_service_def raise_session_event_def)

lemma flags_events [simp]:
  "host_flags (role_received sc role w) = host_flags w" "host_flags (tunnel_event sc t w) = host_flags w"
  "host_flags (session_peer n sc peer w) = host_flags w"
  by (simp_all add: role_received_def tunnel_event_def session_peer_def Let_def flags_upd split: option.split)

lemma flags_call_failed [simp]: "host_flags (call_failed n ex w) = host_flags w"
  by (auto simp: call_failed_def disconnectFromGameSession_def split: prod.split option.split sum.split)

lemma flags_steps [simp]:
  "host_flags (session_scene n made r w) = host_flags w" "host_flags (p2p_token_received n r' server w) = host_flags w"
  "host_flags (connection_opened n r w) = host_flags w" "host_flags (tunnel_opened n q w) = host_flags w"
  "host_flags (run_call n w) = host_flags w" "host_flags (run_leave i w) = host_flags w"
  "host_flags (snd (disconnectFromGameSession b w)) = host_flags w" "host_flags (snd (with_session route data w)) = host_flags w"
  by (simp_all add: session_scene_def p2p_token_received_def initializeP2P_def connection_opened_def tunnel_opened_def
      run_call_def run_leave_def finish_leave_def disconnectFromGameSession_def with_session_def flags_upd Let_def
      split: session_stage.split session_call.split sum.split option.split prod.split)

lemma flags_act:
  assumes "n < length (host_flags (session_act a w))" and "host_flags (session_act a w) ! n"
  shows "n < length (host_flags w) \<and> host_flags w ! n
    \<or> (\<exists>sc m. a = PlayerUpdate sc m \<and> up_isHost m \<and> up_status m = player_ready \<and> listener sc w = Some n)"
proof (cases a)
  case (PlayerUpdate sc m)
  show ?thesis
  proof (cases "\<exists>k. listener sc w = Some k \<and> up_isHost m \<and> up_status m = player_ready")
    case True
    then obtain k where k: "listener sc w = Some k" "up_isHost m" "up_status m = player_ready" by blast
    then have "host_flags (session_act a w) = (host_flags w)[k := True]"
      by (simp add: PlayerUpdate on_player_update_def Let_def update_player_def upd_container_def host_flags_def map_update
          raise_session_event_def upd_service_def)
    then show ?thesis using assms k PlayerUpdate by (cases "n = k") auto
  next
    case False
    then have "host_flags (session_act a w) = host_flags w"
      by (auto simp: PlayerUpdate on_player_update_def Let_def update_player_def split: option.split)
    then show ?thesis using assms by simp
  qed
next
  case (ConnectSession token decoded mapName openTunnel)
  then show ?thesis
    using assms by (cases decoded) (auto simp: connectToGameSession_def Let_def host_flags_def nth_append split: if_splits)
next
  case (AllReady sc)
  then show ?thesis using assms by (simp add: on_all_ready_def split: option.splits)
qed (use assms in \<open>simp_all add: cancel_session_def sceneDisconnecting_def setPlayerReady_def postResult_def session_bearer_def\<close>)

lemma host_ready_origin:
  assumes "n < length (gs_containers (session_run acts GameSession_Impl))"
    and "gc_hostReady (gs_containers (session_run acts GameSession_Impl) ! n)"
  shows "\<exists>before sc m after. acts = before @ PlayerUpdate sc m # after \<and> up_isHost m \<and> up_status m = player_ready \<and>
    listener sc (session_run before GameSession_Impl) = Some n"
  using assms
proof (induction acts rule: rev_induct)
  case Nil
  then show ?case by (simp add: GameSession_Impl_def)
next
  case (snoc a acts)
  let ?w = "session_run acts GameSession_Impl"
  have r: "session_run (acts @ [a]) GameSession_Impl = session_act a ?w" by (simp add: session_run_def)
  from flags_act [of n a ?w] snoc.prems
  consider "n < length (gs_containers ?w)" "gc_hostReady (gs_containers ?w ! n)"
    | sc m where "a = PlayerUpdate sc m" "up_isHost m" "up_status m = player_ready" "listener sc ?w = Some n"
    unfolding r by (auto simp: host_flags_def)
  then show ?case
  proof cases
    case 1
    from snoc.IH [OF this] obtain before sc m after where "acts = before @ PlayerUpdate sc m # after"
      "up_isHost m" "up_status m = player_ready" "listener sc (session_run before GameSession_Impl) = Some n" by blast
    then show ?thesis by (intro exI [of _ before] exI [of _ sc] exI [of _ m] exI [of _ "after @ [a]"]) simp
  next
    case 2
    then show ?thesis by (intro exI [of _ acts] exI [of _ sc] exI [of _ m] exI [of _ "[]"]) simp
  qed
qed

text \<open>
  Property C33. In every run: a call that has connected to a session did so with the parameters of its own
  events, as the host with its map, or as a client. A client's call has connected only after the
  scene that its container was subscribed to, while the container was the current one, had
  brought an update saying that a player who is the host is ready; a call whose scene had been made
  by an earlier one never gets that far.
\<close>

theorem connected_means_ready:
  assumes "w = session_run acts GameSession_Impl" and "n < length (gs_containers w)"
    and "gc_call (gs_containers w ! n) = CallDone p"
  shows "gc_ready (gs_containers w ! n) = Some p \<and> gc_subscribed (gs_containers w ! n) \<noteq> None
    \<and> (if gp_isHost p then gp_endpoint p = gc_mapName (gs_containers w ! n)
       else \<exists>before sc m after. acts = before @ PlayerUpdate sc m # after \<and> up_isHost m \<and> up_status m = player_ready
         \<and> gs_current (session_run before GameSession_Impl) = Some n
         \<and> gc_subscribed (gs_containers (session_run before GameSession_Impl) ! n) = Some sc)"
proof -
  have s: "container_sound (gs_containers w ! n)"
    using sessions_sound_run [OF sessions_sound_start, of acts] assms(1,2) by (simp add: sound_container)
  have "\<exists>before sc m after. acts = before @ PlayerUpdate sc m # after \<and> up_isHost m \<and> up_status m = player_ready
      \<and> gs_current (session_run before GameSession_Impl) = Some n
      \<and> gc_subscribed (gs_containers (session_run before GameSession_Impl) ! n) = Some sc" if "\<not> gp_isHost p"
  proof -
    have "gc_hostReady (gs_containers w ! n)" using s assms(3) that by (auto simp: container_sound_def)
    then obtain before sc m after where h: "acts = before @ PlayerUpdate sc m # after" "up_isHost m"
      "up_status m = player_ready" "listener sc (session_run before GameSession_Impl) = Some n"
      using host_ready_origin assms(1,2) by blast
    moreover have "gs_current (session_run before GameSession_Impl) = Some n"
      using h(4) by (auto simp: listener_def split: option.splits if_splits)
    ultimately show ?thesis using listener_subscribed by blast
  qed
  then show ?thesis
    using s assms(3) by (auto simp: container_sound_def)
qed

lemma connected_means_ready_witness:
  "gc_subscribed (gs_containers (session_run
     [ConnectSession ''t'' (Inr ''s'') ''map'' True, PrivateSceneOf 0 True (Inr 5), P2PTokenOf 0 (Inr '''') 9, RunCall 0, RunCall 0]
     GameSession_Impl) ! 0) \<noteq> None"
  by (rule connected_means_ready [OF refl, where p = "\<lparr>gp_isHost = True, gp_endpoint = ''map''\<rparr>", THEN conjunct2, THEN conjunct1])
    (simp_all add: GameSession_Impl_def connectToGameSession_def session_scene_def alive_def upd_container_def
      set_session_stage_def p2p_token_received_def initializeP2P_def Let_def upd_service_def GameSessionService_def
      role_received_def listener_def session_ready_def raise_session_event_def session_peer_def run_call_def set_call_def)

section \<open>A session from the call to the parameters\<close>

lemmas session_defs = connectToGameSession_def session_scene_def alive_def upd_container_def set_session_stage_def
  p2p_token_received_def initializeP2P_def upd_service_def role_received_def listener_def session_ready_def
  raise_session_event_def session_peer_def run_call_def set_call_def connection_opened_def tunnel_opened_def
  tunnel_event_def on_player_update_def update_player_def

text \<open>The host's path from the scene to the end of the call, on the current container \<^term>\<open>m\<close>.\<close>

lemma host_path:
  fixes c :: session_container
  defines "p \<equiv> \<lparr>gp_isHost = True, gp_endpoint = gc_mapName c\<rparr>"
  assumes "gs_current u = Some m" and "m < length (gs_containers u)" and "gs_containers u ! m = c"
    and "gc_stage c = ConnectingPrivate" and "gc_call c = WaitScene" and "gc_ready c = None"
    and "\<not> sv_receivedP2PToken (gs_services u sc)"
    and "v = session_run [PrivateSceneOf m True (Inr sc), P2PTokenOf m (Inr '''') server, RunCall m, RunCall m] u"
  shows "gs_containers v = (gs_containers u)[m := c\<lparr>gc_subscribed := Some sc, gc_ready := Some p,
      gc_p2pHost := None, gc_stage := SessionScene sc, gc_call := CallDone p\<rparr>]"
    and "gs_current v = Some m" and "gs_leaves v = gs_leaves u" and "gs_disconnects v = gs_disconnects u"
    and "sv_role (gs_services v sc) = RoleHost"
proof -
  define u1 where "u1 = session_act (PrivateSceneOf m True (Inr sc)) u"
  define u2 where "u2 = session_act (P2PTokenOf m (Inr '''') server) u1"
  have 1: "gs_containers u1 = (gs_containers u)[m := c\<lparr>gc_subscribed := Some sc, gc_stage := RequestingToken sc\<rparr>]"
    "gs_current u1 = Some m" "gs_leaves u1 = gs_leaves u" "gs_disconnects u1 = gs_disconnects u" "gs_services u1 = gs_services u"
    using assms(2-5) by (simp_all add: u1_def session_defs Let_def)
  have 2: "gs_containers u2 = (gs_containers u)[m := c\<lparr>gc_subscribed := Some sc, gc_ready := Some p,
        gc_p2pHost := None, gc_stage := SessionScene sc\<rparr>]
    \<and> gs_current u2 = Some m \<and> gs_leaves u2 = gs_leaves u \<and> gs_disconnects u2 = gs_disconnects u
    \<and> sv_role (gs_services u2 sc) = RoleHost"
    using 1 assms(2-8) by (cases "gc_openTunnel c") (simp_all add: u2_def session_defs Let_def p_def)
  have v: "v = session_act (RunCall m) (session_act (RunCall m) u2)"
    by (simp add: assms(9) u1_def u2_def)
  show "gs_containers v = (gs_containers u)[m := c\<lparr>gc_subscribed := Some sc, gc_ready := Some p,
      gc_p2pHost := None, gc_stage := SessionScene sc, gc_call := CallDone p\<rparr>]"
    "gs_current v = Some m" "gs_leaves v = gs_leaves u" "gs_disconnects v = gs_disconnects u"
    "sv_role (gs_services v sc) = RoleHost"
    using 2 assms(3,6) by (simp_all add: v run_call_def set_call_def upd_container_def alive_def Let_def p_def)
qed

text \<open>The host is ready at once, with its map as the endpoint.\<close>

lemma host_session_ready:
  assumes "token \<noteq> ''''" and "n = length (gs_containers w)" and "\<not> sv_receivedP2PToken (gs_services w sc)"
    and "v = session_run [ConnectSession token (Inr sceneId) mapName openTunnel, PrivateSceneOf n True (Inr sc),
          P2PTokenOf n (Inr '''') server, RunCall n, RunCall n] w"
  shows "gc_call (gs_containers v ! n) = CallDone \<lparr>gp_isHost = True, gp_endpoint = mapName\<rparr>"
    and "isSessionHost v = Inr True" and "session_scene_of v = Inr (Some sc)"
proof -
  define u where "u = session_act (ConnectSession token (Inr sceneId) mapName openTunnel) w"
  have u: "gs_current u = Some n" "n < length (gs_containers u)" "gc_stage (gs_containers u ! n) = ConnectingPrivate"
    "gc_call (gs_containers u ! n) = WaitScene" "gc_ready (gs_containers u ! n) = None"
    "gs_services u = gs_services w" "gc_mapName (gs_containers u ! n) = mapName"
    using assms(1,2) by (simp_all add: u_def connectToGameSession_def Let_def)
  have v: "v = session_run [PrivateSceneOf n True (Inr sc), P2PTokenOf n (Inr '''') server, RunCall n, RunCall n] u"
    by (simp add: assms(4) u_def)
  have "\<not> sv_receivedP2PToken (gs_services u sc)"
    using assms(3) u(6) by simp
  note h = host_path [OF u(1,2) refl u(3-5) this v]
  show "gc_call (gs_containers v ! n) = CallDone \<lparr>gp_isHost = True, gp_endpoint = mapName\<rparr>"
    "isSessionHost v = Inr True" "session_scene_of v = Inr (Some sc)"
    using h u by (simp_all add: isSessionHost_def session_scene_of_def)
qed

text \<open>
  Property C34. A client that opens a tunnel gets the address of the tunnel, but only once the host of the
  session is ready: whatever updates of players come in its scene or others, that all players
  are ready, and however often the continuations of the call run, the call waits; with the first
  update of its scene that says that the host is ready, it returns the address.
\<close>

theorem client_session_ready:
  assumes "token \<noteq> ''''" and "p2pToken \<noteq> ''''" and "n = length (gs_containers w)"
    and "\<not> sv_receivedP2PToken (gs_services w sc)" and "up_isHost m" and "up_status m = player_ready"
    and "\<forall>a \<in> set waiting. a = RunCall n \<or> (\<exists>s. a = AllReady s) \<or>
      (\<exists>s m'. a = PlayerUpdate s m' \<and> (s \<noteq> sc \<or> \<not> up_isHost m' \<or> up_status m' \<noteq> player_ready))"
    and "v = session_run ([ConnectSession token (Inr sceneId) mapName True, PrivateSceneOf n True (Inr sc),
          P2PTokenOf n (Inr p2pToken) server, ConnectionOf n (Inr peer), TunnelOf n (Inr (t, ip, port)), RunCall n, RunCall n]
          @ waiting) w"
  shows "gc_call (gs_containers v ! n) = WaitHost \<lparr>gp_isHost = False, gp_endpoint = ip @ '':'' @ port\<rparr>
    \<and> gc_call (gs_containers (session_run [PlayerUpdate sc m, RunCall n] v) ! n)
        = CallDone \<lparr>gp_isHost = False, gp_endpoint = ip @ '':'' @ port\<rparr>
    \<and> getSessionHost v = Inr (Some peer) \<and> isSessionHost v = Inr False"
proof -
  define u where "u = session_run [ConnectSession token (Inr sceneId) mapName True, PrivateSceneOf n True (Inr sc),
      P2PTokenOf n (Inr p2pToken) server, ConnectionOf n (Inr peer), TunnelOf n (Inr (t, ip, port)), RunCall n, RunCall n] w"
  have u: "gc_call (gs_containers u ! n) = WaitHost \<lparr>gp_isHost = False, gp_endpoint = ip @ '':'' @ port\<rparr>"
    "gs_current u = Some n" "gc_stage (gs_containers u ! n) = SessionScene sc" "gc_subscribed (gs_containers u ! n) = Some sc"
    "gc_p2pHost (gs_containers u ! n) = Some peer" "\<not> gc_hostReady (gs_containers u ! n)"
    "sv_role (gs_services u sc) = RoleClient" "n < length (gs_containers u)"
    using assms(1-4) by (simp_all add: u_def session_defs Let_def)
  have act: "gs_containers (session_act a x) = gs_containers u \<and> gs_current (session_act a x) = Some n \<and>
      sv_role (gs_services (session_act a x) sc) = RoleClient"
    if "a \<in> set waiting" "gs_containers x = gs_containers u" "gs_current x = Some n" "sv_role (gs_services x sc) = RoleClient" for a x
    using assms(7) [rule_format, OF that(1)] that(2-4) u(1,4,6)
    by (auto simp: run_call_def alive_def on_all_ready_def on_player_update_def listener_def raise_session_event_def
        upd_service_def service_update_def update_player_def Let_def)
  have "gs_containers (session_run acts x) = gs_containers u \<and> gs_current (session_run acts x) = Some n \<and>
      sv_role (gs_services (session_run acts x) sc) = RoleClient"
    if "set acts \<subseteq> set waiting" "gs_containers x = gs_containers u" "gs_current x = Some n" "sv_role (gs_services x sc) = RoleClient"
    for acts x
    using that by (induction acts arbitrary: x) (simp_all add: act)
  moreover have "v = session_run waiting u" by (simp add: assms(8) u_def session_run_def)
  ultimately have v: "gs_containers v = gs_containers u" "gs_current v = Some n" "sv_role (gs_services v sc) = RoleClient"
    using u(2,7) by simp_all
  have "gc_call (gs_containers (session_run [PlayerUpdate sc m, RunCall n] v) ! n)
      = CallDone \<lparr>gp_isHost = False, gp_endpoint = ip @ '':'' @ port\<rparr>"
    using u v assms(5,6) by (simp add: session_defs Let_def)
  then show ?thesis
    using u v by (simp add: getSessionHost_def isSessionHost_def session_scene_of_def)
qed

lemma client_session_ready_witness:
  "gc_call (gs_containers (session_run ([ConnectSession ''t'' (Inr ''s'') ''map'' True, PrivateSceneOf 0 True (Inr 5),
      P2PTokenOf 0 (Inr ''p2p'') 9, ConnectionOf 0 (Inr 7), TunnelOf 0 (Inr (3, ''127.0.0.1'', ''4000'')), RunCall 0, RunCall 0]
      @ [PlayerUpdate 5 \<lparr>up_userId = ''g'', up_status = player_ready, up_data = '''', up_isHost = False\<rparr>, RunCall 0])
      GameSession_Impl) ! 0)
   = WaitHost \<lparr>gp_isHost = False, gp_endpoint = ''127.0.0.1'' @ '':'' @ ''4000''\<rparr>"
  by (rule client_session_ready [where m = "\<lparr>up_userId = ''h'', up_status = player_ready, up_data = '''', up_isHost = True\<rparr>",
        OF _ _ _ _ _ _ _ refl, THEN conjunct1])
    (simp_all add: GameSession_Impl_def GameSessionService_def)

section \<open>Sessions that cross\<close>

text \<open>
  Property C35. A call to connect that is replaced by a newer one takes the newer one down: its
  container is gone, so it fails as canceled, and on the way out it disconnects from the current
  session, which is the new one, as soon as that is connected.
\<close>

theorem replaced_call_leaves_new_session:
  assumes "n < length (gs_containers w)"
    and "gc_call (gs_containers w ! n) = WaitRole
      \<or> gc_call (gs_containers w ! n) = WaitScene \<and> gc_stage (gs_containers w ! n) = ConnectingPrivate"
    and "token \<noteq> ''''" and "m = length (gs_containers w)" and "\<not> sv_receivedP2PToken (gs_services w sc)"
    and "v = session_run [ConnectSession token (Inr sceneId) mapName openTunnel, RunCall n,
          PrivateSceneOf m True (Inr sc), P2PTokenOf m (Inr '''') server, RunCall m, RunCall m,
          RunLeave (length (gs_leaves w))] w"
  shows "gc_call (gs_containers v ! m) = CallDone \<lparr>gp_isHost = True, gp_endpoint = mapName\<rparr>
    \<and> gc_call (gs_containers v ! n) = CallFailed TaskCanceled
    \<and> gs_disconnects v = gs_disconnects w @ [sc]"
proof -
  define c where "c = gs_containers w ! n"
  define u where "u = session_run [ConnectSession token (Inr sceneId) mapName openTunnel, RunCall n] w"
  have k: "gc_call c = WaitRole \<or> gc_call c = WaitScene \<and> gc_stage c = ConnectingPrivate"
    using assms(2) by (simp add: c_def)
  have nm: "n \<noteq> m"
    using assms(1,4) by simp
  have u: "gs_current u = Some m" "length (gs_containers u) = Suc m"
    "gc_stage (gs_containers u ! m) = ConnectingPrivate" "gc_call (gs_containers u ! m) = WaitScene"
    "gc_ready (gs_containers u ! m) = None" "gc_mapName (gs_containers u ! m) = mapName"
    "gc_openTunnel (gs_containers u ! m) = openTunnel"
    "gs_services u = gs_services w" "gs_disconnects u = gs_disconnects w"
    "gs_leaves u = gs_leaves w @ [(m, Some (n, TaskCanceled))]"
    using assms(1,3,4) k nm
    by (auto simp: u_def session_defs Let_def call_failed_def disconnectFromGameSession_def nth_append c_def)
  have un: "gc_call (gs_containers u ! n) = Leaving TaskCanceled"
    using assms(1,3,4) k nm
    by (auto simp: u_def session_defs Let_def call_failed_def disconnectFromGameSession_def nth_append c_def)
  define x where "x = session_run [PrivateSceneOf m True (Inr sc), P2PTokenOf m (Inr '''') server, RunCall m, RunCall m] u"
  have "m < length (gs_containers u)" "\<not> sv_receivedP2PToken (gs_services u sc)"
    using u assms(5) by simp_all
  note h = host_path [OF u(1) this(1) refl u(3-5) this(2) x_def]
  have v: "v = session_act (RunLeave (length (gs_leaves w))) x"
    by (simp add: assms(6) u_def x_def)
  show ?thesis
    using h u nm assms(1,4)
    by (simp add: v run_leave_def finish_leave_def set_call_def upd_container_def)
qed

lemma replaced_call_leaves_new_session_witness:
  "gs_disconnects (session_run [ConnectSession ''b'' (Inr ''s2'') ''map'' False, RunCall 0, PrivateSceneOf 1 True (Inr 6),
      P2PTokenOf 1 (Inr '''') 9, RunCall 1, RunCall 1, RunLeave 0]
     (session_run [ConnectSession ''a'' (Inr ''s1'') ''map'' False] GameSession_Impl)) = [6]"
proof -
  define w where "w = session_run [ConnectSession ''a'' (Inr ''s1'') ''map'' False] GameSession_Impl"
  have w: "length (gs_containers w) = 1" "gs_leaves w = []" "gs_disconnects w = []" "gs_services w = (\<lambda>_. GameSessionService)"
    "gc_call (gs_containers w ! 0) = WaitScene" "gc_stage (gs_containers w ! 0) = ConnectingPrivate"
    by (simp_all add: w_def connectToGameSession_def GameSession_Impl_def)
  have "gs_disconnects (session_run [ConnectSession ''b'' (Inr ''s2'') ''map'' False, RunCall 0, PrivateSceneOf 1 True (Inr 6),
      P2PTokenOf 1 (Inr '''') 9, RunCall 1, RunCall 1, RunLeave (length (gs_leaves w))] w) = gs_disconnects w @ [6]"
    by (rule replaced_call_leaves_new_session [where n = 0 and m = 1 and sc = 6 and w = w, OF _ _ _ _ _ refl, THEN conjunct2, THEN conjunct2])
      (simp_all add: w GameSessionService_def)
  then show ?thesis
    by (simp only: w list.size append.simps) (simp only: w_def)
qed

text \<open>The plugin calls the event instead of the function that resets the session, which nobody calls.\<close>

lemma disconnected_session_kept:
  "gs_current (sceneDisconnecting sc w) = gs_current w"
  "session_scene_of (sceneDisconnecting sc w) = session_scene_of w"
  "isSessionHost (sceneDisconnecting sc w) = isSessionHost w"
proof -
  show c: "gs_current (sceneDisconnecting sc w) = gs_current w"
    by (simp add: sceneDisconnecting_def upd_service_def raise_session_event_def)
  have x: "gs_containers (sceneDisconnecting sc w) = gs_containers w"
    by (simp add: sceneDisconnecting_def upd_service_def raise_session_event_def)
  show s: "session_scene_of (sceneDisconnecting sc w) = session_scene_of w"
    unfolding session_scene_of_def c x by (rule refl)
  have "sv_role (gs_services (sceneDisconnecting sc w) x) = sv_role (gs_services w x)" for x
    by (simp add: sceneDisconnecting_def upd_service_def raise_session_event_def service_disconnecting_def)
  then show "isSessionHost (sceneDisconnecting sc w) = isSessionHost w"
    by (simp only: isSessionHost_def s)
qed

text \<open>The token of an old call resets whatever session is current.\<close>

lemma old_token_cancels_new_session:
  assumes "token \<noteq> ''''" and "m = length (gs_containers w)"
    and "v = session_run [ConnectSession token (Inr sceneId) mapName openTunnel, CancelSession, RunCall m] w"
  shows "gs_current v = None" and "gc_call (gs_containers v ! m) = CallFailed TaskCanceled"
  using assms by (simp_all add: session_defs Let_def cancel_session_def call_failed_def disconnectFromGameSession_def)

text \<open>A token that cannot be decoded leaves a container without a task behind, on which everything throws.\<close>

lemma bad_token_blocks:
  assumes "token \<noteq> ''''" and "w1 = snd (connectToGameSession token (Inl ex) mapName openTunnel w)"
  shows "fst (disconnectFromGameSession None w1) = Some (Inl no_task_error)" and "session_scene_of w1 = Inl is_done_error"
    and "getSessionHost w1 = Inl is_done_error" and "fst (setPlayerReady data w1) = Some (Inl no_task_error)"
  using assms by (simp_all add: connectToGameSession_def Let_def disconnectFromGameSession_def session_scene_of_def
      getSessionHost_def setPlayerReady_def with_session_def)

text \<open>
  A second call for a scene that is connected already: its initializer does not run and the token of
  the host is ignored, so the call waits for its role.
\<close>

lemma reused_scene_waits:
  assumes "token \<noteq> ''''" and "n = length (gs_containers w)" and "sv_receivedP2PToken (gs_services w sc)"
    and "v = session_run ([ConnectSession token (Inr sceneId) mapName openTunnel, PrivateSceneOf n False (Inr sc),
          P2PTokenOf n (Inr p2pToken) server, RunCall n] @ replicate k (RunCall n)) w"
  shows "gc_call (gs_containers v ! n) = WaitRole" and "session_scene_of v = Inr (Some sc)"
proof -
  define u where "u = session_run [ConnectSession token (Inr sceneId) mapName openTunnel, PrivateSceneOf n False (Inr sc),
      P2PTokenOf n (Inr p2pToken) server, RunCall n] w"
  have u: "gc_call (gs_containers u ! n) = WaitRole" "gs_current u = Some n"
    "gc_ready (gs_containers u ! n) = None" "gc_stage (gs_containers u ! n) = SessionScene sc"
    using assms(1-3) by (simp_all add: u_def session_defs Let_def)
  have "session_act (RunCall n) u = u"
    using u by (simp add: run_call_def Let_def alive_def)
  then have "session_run (replicate k (RunCall n)) u = u"
    by (induction k) simp_all
  then have "v = u"
    by (simp add: assms(4) u_def session_run_def)
  then show "gc_call (gs_containers v ! n) = WaitRole" "session_scene_of v = Inr (Some sc)"
    using u by (simp_all add: session_scene_of_def)
qed

end
