(* ===== verification/SceneLifecycle.thy ===== *)
theory SceneLifecycle
  imports Network
begin

text \<open>
  Connecting and disconnecting a scene (\<^verbatim>\<open>Scene_Impl::connect\<close> and \<^verbatim>\<open>disconnect\<close> in \<^verbatim>\<open>Scene.cpp\<close>): the two
  tasks a scene keeps, the peers it leaves first, and the continuations. The state of the scene
  is moved by the client (theory Client), here by the action \<open>StateMoved\<close>; the end of the client's
  own tasks is an argument.
\<close>

section \<open>State\<close>

text \<open>
  Where the task of the disconnection stands. \<open>AwaitItself\<close> is a task whose last continuation has
  returned the task itself.
\<close>

datatype disconnection =
    NotAsked
  | AwaitPeers
  | AwaitHost
  | AwaitConnection
  | AwaitItself
  | DisconnectionDone "unit res"

text \<open>
  \<open>sl_connectTask\<close> is \<^const>\<open>None\<close> while the task is default-constructed; \<open>sl_connects\<close> and
  \<open>sl_disconnects\<close> count the calls of \<^verbatim>\<open>Client::connectToScene\<close> and \<^verbatim>\<open>Client::disconnect\<close>;
  \<open>sl_leaving\<close> are the peers that were told to disconnect and have not done so.
\<close>

record scene_life =
  sl_state :: conn_kind
  sl_client :: bool
  sl_connectTask :: "unit task option"
  sl_connects :: nat
  sl_requested :: bool
  sl_canceled :: bool
  sl_disconnection :: disconnection
  sl_disconnects :: nat
  sl_peers :: "string list"
  sl_leaving :: "string list"
  sl_peerFailed :: bool

definition new_scene_life :: scene_life where
  "new_scene_life = \<lparr>sl_state = Disconnected, sl_client = True, sl_connectTask = None, sl_connects = 0, sl_requested = False,
     sl_canceled = False, sl_disconnection = NotAsked, sl_disconnects = 0, sl_peers = [], sl_leaving = [], sl_peerFailed = False\<rparr>"

section \<open>Operations\<close>

definition life_connect :: "scene_life \<Rightarrow> unit task option \<times> scene_life" where
  "life_connect s =
     (let s1 = (if sl_state s = Disconnected
                then (if sl_client s then s\<lparr>sl_connectTask := Some Pending, sl_connects := Suc (sl_connects s)\<rparr>
                      else s\<lparr>sl_connectTask := Some (Failed (RuntimeError ''Client is deleted.''))\<rparr>)
                else if sl_state s = Disconnecting
                then s\<lparr>sl_connectTask := Some (Failed (RuntimeError ''Scene is disconnecting.''))\<rparr>
                else s)
      in (sl_connectTask s1, s1))"

text \<open>\<^verbatim>\<open>connectToScene\<close> of the client has ended.\<close>

definition connect_ended :: "unit task \<Rightarrow> scene_life \<Rightarrow> scene_life" where
  "connect_ended r s = (if sl_connectTask s = Some Pending then s\<lparr>sl_connectTask := Some r\<rparr> else s)"

text \<open>
  \<^verbatim>\<open>disconnectAllPeers\<close> tells every peer; without peers its task is done. The caller's token is one that
  nobody cancels.
\<close>

definition life_disconnect :: "scene_life \<Rightarrow> disconnection \<times> scene_life" where
  "life_disconnect s =
     (let s1 = (if sl_requested s then s
                else s\<lparr>sl_requested := True, sl_disconnection := AwaitPeers, sl_leaving := sl_peers s\<rparr>)
      in (sl_disconnection s1, s1))"

text \<open>
  A peer has disconnected, or could not: \<^verbatim>\<open>when_all\<close> ends at the first exception, after which the
  table of peers is cleared.
\<close>

definition peer_left :: "string \<Rightarrow> unit res \<Rightarrow> scene_life \<Rightarrow> scene_life" where
  "peer_left p r s =
     (if p \<in> set (sl_leaving s)
      then (case r of
              Inr _ \<Rightarrow> s\<lparr>sl_leaving := remove1 p (sl_leaving s), sl_peers := remove1 p (sl_peers s)\<rparr>
            | Inl _ \<Rightarrow> s\<lparr>sl_leaving := remove1 p (sl_leaving s), sl_peerFailed := True\<rparr>)
      else s)"

text \<open>
  A scene that the client connects without \<^verbatim>\<open>connect\<close> has no task to wait for: \<^verbatim>\<open>then\<close> throws, and the task of
  the disconnection fails. The task waited for is the current one of the scene; a connection begun
  again before the first has ended, which the code would not wait for, is not told apart.
\<close>

definition no_connection_error :: storm_exn where
  "no_connection_error = LogicError ''then() cannot be called on a default constructed task.''"

definition disconnectFromHost :: "scene_life \<Rightarrow> scene_life" where
  "disconnectFromHost s =
     (case sl_state s of
        Connected \<Rightarrow>
          if sl_client s then s\<lparr>sl_disconnection := AwaitHost, sl_disconnects := Suc (sl_disconnects s)\<rparr>
          else s\<lparr>sl_disconnection := DisconnectionDone (Inr ())\<rparr>
      | Connecting \<Rightarrow> s\<lparr>sl_canceled := True, sl_disconnection :=
            (if sl_connectTask s = None then DisconnectionDone (Inl no_connection_error) else AwaitConnection)\<rparr>
      | _ \<Rightarrow> s\<lparr>sl_disconnection := DisconnectionDone (Inr ())\<rparr>)"

definition peers_left :: "scene_life \<Rightarrow> scene_life" where
  "peers_left s =
     (if sl_disconnection s = AwaitPeers \<and> (sl_leaving s = [] \<or> sl_peerFailed s)
      then disconnectFromHost (if sl_peerFailed s then s\<lparr>sl_peers := []\<rparr> else s)
      else s)"

text \<open>The end of the client's disconnection: the last continuation hides a cancellation.\<close>

definition host_left :: "unit res \<Rightarrow> scene_life \<Rightarrow> scene_life" where
  "host_left r s =
     (if sl_disconnection s = AwaitHost
      then s\<lparr>sl_disconnection := DisconnectionDone (if r = Inl TaskCanceled then Inr () else r)\<rparr>
      else s)"

text \<open>
  The continuation on the task of the connection that \<^verbatim>\<open>disconnectFromHost\<close> leaves: after a success it
  returns \<^verbatim>\<open>scene->disconnect()\<close>, which is the task this continuation belongs to.
\<close>

definition connection_awaited :: "scene_life \<Rightarrow> scene_life" where
  "connection_awaited s =
     (if sl_disconnection s = AwaitConnection
      then (case sl_connectTask s of
              Some (Done _) \<Rightarrow>
                (case life_disconnect s of
                   (DisconnectionDone r, s1) \<Rightarrow> s1\<lparr>sl_disconnection := DisconnectionDone r\<rparr>
                 | (_, s1) \<Rightarrow> s1\<lparr>sl_disconnection := AwaitItself\<rparr>)
            | Some (Failed _) \<Rightarrow> s\<lparr>sl_disconnection := DisconnectionDone (Inr ())\<rparr>
            | Some Canceled \<Rightarrow> s\<lparr>sl_disconnection := DisconnectionDone (Inr ())\<rparr>
            | _ \<Rightarrow> s)
      else s)"

datatype life_action =
    CallConnect
  | ConnectEnded "unit task"
  | CallDisconnect
  | PeerJoined string
  | PeerLeft string "unit res"
  | PeersLeft
  | HostLeft "unit res"
  | ConnectionAwaited
  | StateMoved conn_kind
  | ClientDeleted

fun life_act :: "life_action \<Rightarrow> scene_life \<Rightarrow> scene_life" where
  "life_act CallConnect s = snd (life_connect s)"
| "life_act (ConnectEnded r) s = connect_ended r s"
| "life_act CallDisconnect s = snd (life_disconnect s)"
| "life_act (PeerJoined p) s = s\<lparr>sl_peers := sl_peers s @ [p]\<rparr>"
| "life_act (PeerLeft p r) s = peer_left p r s"
| "life_act PeersLeft s = peers_left s"
| "life_act (HostLeft r) s = host_left r s"
| "life_act ConnectionAwaited s = connection_awaited s"
| "life_act (StateMoved k) s = s\<lparr>sl_state := k\<rparr>"
| "life_act ClientDeleted s = s\<lparr>sl_client := False\<rparr>"

definition life_run :: "life_action list \<Rightarrow> scene_life \<Rightarrow> scene_life" where
  "life_run acts s = fold life_act acts s"

lemma life_run_simps [simp]:
  "life_run [] s = s" "life_run (a # acts) s = life_run acts (life_act a s)"
  by (simp_all add: life_run_def)

section \<open>What a disconnection can come to\<close>

text \<open>How far a disconnection has come; it never goes back.\<close>

fun disconnection_rank :: "disconnection \<Rightarrow> nat" where
  "disconnection_rank NotAsked = 0"
| "disconnection_rank AwaitPeers = 1"
| "disconnection_rank AwaitConnection = 2"
| "disconnection_rank AwaitHost = 3"
| "disconnection_rank AwaitItself = 4"
| "disconnection_rank (DisconnectionDone _) = 5"

definition life_sound :: "scene_life \<Rightarrow> bool" where
  "life_sound s \<longleftrightarrow>
     (sl_requested s \<longleftrightarrow> sl_disconnection s \<noteq> NotAsked)
     \<and> (sl_disconnection s = AwaitHost \<longrightarrow> sl_disconnects s = 1)
     \<and> (sl_disconnection s \<in> {NotAsked, AwaitPeers, AwaitConnection, AwaitItself} \<longrightarrow> sl_disconnects s = 0)
     \<and> sl_disconnects s \<le> 1"

lemma connect_frame:
  "sl_requested (snd (life_connect s)) = sl_requested s"
  "sl_disconnection (snd (life_connect s)) = sl_disconnection s"
  "sl_disconnects (snd (life_connect s)) = sl_disconnects s"
  "sl_canceled (snd (life_connect s)) = sl_canceled s"
  by (simp_all add: life_connect_def Let_def)

lemma peer_left_frame:
  "sl_requested (peer_left p r s) = sl_requested s" "sl_disconnection (peer_left p r s) = sl_disconnection s"
  "sl_disconnects (peer_left p r s) = sl_disconnects s" "sl_canceled (peer_left p r s) = sl_canceled s"
  by (simp_all add: peer_left_def split: sum.split)

lemma disconnect_host_cases:
  "sl_requested (disconnectFromHost s) = sl_requested s"
  "sl_disconnects (disconnectFromHost s) = (if sl_state s = Connected \<and> sl_client s then Suc (sl_disconnects s) else sl_disconnects s)"
  "sl_disconnection (disconnectFromHost s) =
     (if sl_state s = Connected \<and> sl_client s then AwaitHost
      else if sl_state s = Connecting
      then (if sl_connectTask s = None then DisconnectionDone (Inl no_connection_error) else AwaitConnection)
      else DisconnectionDone (Inr ()))"
  by (simp_all add: disconnectFromHost_def split: conn_kind.split)

lemma awaited_again:
  assumes "life_sound s" and "sl_disconnection s = AwaitConnection"
  shows "connection_awaited s =
    (case sl_connectTask s of
       Some (Done _) \<Rightarrow> s\<lparr>sl_disconnection := AwaitItself\<rparr>
     | Some (Failed _) \<Rightarrow> s\<lparr>sl_disconnection := DisconnectionDone (Inr ())\<rparr>
     | Some Canceled \<Rightarrow> s\<lparr>sl_disconnection := DisconnectionDone (Inr ())\<rparr>
     | _ \<Rightarrow> s)"
proof -
  have "sl_requested s"
    using assms by (simp add: life_sound_def)
  then have "life_disconnect s = (AwaitConnection, s)"
    using assms(2) by (simp add: life_disconnect_def)
  then show ?thesis
    by (simp add: connection_awaited_def assms(2) split: option.split task.split)
qed

lemma life_sound_act:
  assumes "life_sound s"
  shows "life_sound (life_act a s)"
proof (cases a)
  case PeersLeft
  have "life_sound (disconnectFromHost v)"
    if "sl_requested v" "sl_disconnects v = 0" for v
    using that by (auto simp: life_sound_def disconnect_host_cases)
  moreover have "sl_requested s \<and> sl_disconnects s = 0" if "sl_disconnection s = AwaitPeers"
    using that assms by (simp add: life_sound_def)
  ultimately show ?thesis
    using PeersLeft assms by (simp add: peers_left_def)
next
  case ConnectionAwaited
  show ?thesis
  proof (cases "sl_disconnection s = AwaitConnection")
    case True
    then show ?thesis
      using ConnectionAwaited assms awaited_again [OF assms True]
      by (auto simp: life_sound_def split: option.split task.split)
  next
    case False
    then show ?thesis
      using ConnectionAwaited assms by (simp add: connection_awaited_def)
  qed
qed (use assms in \<open>auto simp: life_sound_def connect_frame connect_ended_def life_disconnect_def Let_def
    peer_left_frame host_left_def\<close>)

lemma life_sound_run: "life_sound s \<Longrightarrow> life_sound (life_run acts s)"
  by (induction acts arbitrary: s) (simp_all add: life_sound_act)

lemma life_sound_start: "life_sound new_scene_life"
  by (simp add: life_sound_def new_scene_life_def)

lemma stuck_act: "sl_disconnection s = AwaitItself \<Longrightarrow> sl_requested s \<Longrightarrow>
    sl_disconnection (life_act a s) = AwaitItself \<and> sl_requested (life_act a s)
    \<and> sl_disconnects (life_act a s) = sl_disconnects s"
  by (cases a) (auto simp: connect_frame connect_ended_def life_disconnect_def Let_def peer_left_frame
      peers_left_def host_left_def connection_awaited_def)

lemma stuck_run: "sl_disconnection s = AwaitItself \<Longrightarrow> sl_requested s \<Longrightarrow>
    sl_disconnection (life_run acts s) = AwaitItself \<and> sl_disconnects (life_run acts s) = sl_disconnects s"
  by (induction acts arbitrary: s) (simp_all add: stuck_act)

lemma done_act: "sl_disconnection s = DisconnectionDone r \<Longrightarrow> sl_requested s \<Longrightarrow>
    sl_disconnection (life_act a s) = DisconnectionDone r \<and> sl_requested (life_act a s)
    \<and> sl_disconnects (life_act a s) = sl_disconnects s"
  by (cases a) (auto simp: connect_frame connect_ended_def life_disconnect_def Let_def peer_left_frame
      peers_left_def host_left_def connection_awaited_def)

lemma done_run: "sl_disconnection s = DisconnectionDone r \<Longrightarrow> sl_requested s \<Longrightarrow>
    sl_disconnection (life_run acts s) = DisconnectionDone r \<and> sl_disconnects (life_run acts s) = sl_disconnects s"
  by (induction acts arbitrary: s) (simp_all add: done_act)

text \<open>
  Property C36. In its whole life a scene asks the client to disconnect it at most once, and only when it
  was connected at that moment: a connection made after a first disconnection is never given up by
  \<^verbatim>\<open>disconnect\<close>, whose task has ended already.
\<close>

theorem disconnects_once:
  assumes "s = life_run acts new_scene_life" and "sl_disconnection s = DisconnectionDone r"
  shows "sl_disconnects s \<le> 1
    \<and> sl_disconnects (life_run (later @ [CallDisconnect]) s) = sl_disconnects s
    \<and> fst (life_disconnect (life_run later s)) = DisconnectionDone r"
proof -
  have s: "life_sound s"
    unfolding assms(1) by (rule life_sound_run [OF life_sound_start])
  then have q: "sl_requested s"
    using assms(2) by (simp add: life_sound_def)
  have l: "sl_disconnection (life_run later s) = DisconnectionDone r"
    using done_run [OF assms(2) q] by simp
  then have "sl_requested (life_run later s)"
    using life_sound_run [OF s, of later] by (simp add: life_sound_def)
  then show ?thesis
    using s l done_run [OF assms(2) q, of "later @ [CallDisconnect]"]
    by (simp add: life_sound_def life_disconnect_def)
qed

lemma disconnects_once_witness:
  "fst (life_disconnect (life_run [StateMoved Connecting, StateMoved Connected]
     (life_run [CallDisconnect, PeersLeft] new_scene_life))) = DisconnectionDone (Inr ())"
  by (rule disconnects_once [OF refl, THEN conjunct2, THEN conjunct2])
    (simp add: new_scene_life_def life_disconnect_def peers_left_def disconnectFromHost_def)

text \<open>
  Property C37. A disconnection that is asked for while the scene is connecting, and that the connection
  outruns, never ends: its task waits for itself, and whatever happens afterwards the client is never asked
  to disconnect the scene.
\<close>

theorem late_disconnection_waits_for_itself:
  assumes "sl_state s = Connecting" and "sl_connectTask s = Some Pending" and "\<not> sl_requested s"
    and "sl_disconnection s = NotAsked" and "sl_peers s = []"
    and "v = life_run ([CallDisconnect, PeersLeft, StateMoved Connected, ConnectEnded (Done ()), ConnectionAwaited] @ later) s"
  shows "sl_disconnection v = AwaitItself \<and> sl_disconnects v = sl_disconnects s"
proof -
  define u where "u = life_run [CallDisconnect, PeersLeft, StateMoved Connected, ConnectEnded (Done ()), ConnectionAwaited] s"
  have "sl_disconnection u = AwaitItself" "sl_requested u" "sl_disconnects u = sl_disconnects s"
    using assms(1-5)
    by (simp_all add: u_def life_disconnect_def peers_left_def disconnectFromHost_def connect_ended_def connection_awaited_def)
  then show ?thesis
    using stuck_run [of u later] by (simp add: assms(6) u_def life_run_def)
qed

lemma late_disconnection_waits_for_itself_witness:
  "sl_disconnection (life_run ([CallDisconnect, PeersLeft, StateMoved Connected, ConnectEnded (Done ()), ConnectionAwaited]
      @ [CallDisconnect, HostLeft (Inr ())]) (life_run [CallConnect, StateMoved Connecting] new_scene_life)) = AwaitItself"
  by (rule late_disconnection_waits_for_itself [OF _ _ _ _ _ refl, THEN conjunct1])
    (simp_all add: new_scene_life_def life_connect_def)

text \<open>The source of the cancellation is never renewed: a scene that was disconnected while connecting connects canceled.\<close>

lemma canceled_act: "sl_canceled s \<Longrightarrow> sl_canceled (life_act a s)"
  by (cases a) (auto simp: connect_frame connect_ended_def life_disconnect_def Let_def peer_left_frame peers_left_def
      disconnectFromHost_def host_left_def connection_awaited_def split: conn_kind.split option.split task.split disconnection.split)

lemma cancellation_stays: "sl_canceled s \<Longrightarrow> sl_canceled (life_run acts s)"
  by (induction acts arbitrary: s) (simp_all add: canceled_act)

text \<open>Two calls of \<^verbatim>\<open>connect\<close> before the state has moved ask the client twice; the first task is lost.\<close>

lemma connects_twice:
  assumes "sl_state s = Disconnected" and "sl_client s"
  shows "sl_connects (life_run [CallConnect, CallConnect] s) = Suc (Suc (sl_connects s))"
  using assms by (simp add: life_connect_def)

end
