(* ===== verification/ServerSession.thy ===== *)
theory ServerSession
  imports Prelude
begin

text \<open>
  The session of a client with a server (\<^verbatim>\<open>ensureConnectedToServer\<close>, \<^verbatim>\<open>requestSessionToken\<close> and the metadata
  of \<^verbatim>\<open>Client.cpp\<close>): choosing an endpoint, the chain of continuations that sets up a new connection, and
  the session token, which all connections share. Connections are numbered; what they are asked
  for is the list \<open>ln_sent\<close> of their link.
\<close>

section \<open>State\<close>

text \<open>What a connection sends while it is set up: \<^verbatim>\<open>ID_JOIN_SESSION\<close> comes with or without a token.\<close>

datatype link_message =
    SetTimeout nat
  | PeerMetadata "string \<rightharpoonup> string"
  | JoinSession "string option"

datatype link_stage =
    LinkConnecting
  | LinkTimeout nat
  | LinkMetadata nat
  | LinkJoining nat nat
  | LinkUp nat
  | LinkFailed storm_exn

record server_endpoint =
  se_endpoints :: "string \<rightharpoonup> string list"
  se_encryptionToken :: string
  se_encryptionKey :: "byte list res"

record server_link =
  ln_id :: string
  ln_endpoint :: server_endpoint
  ln_stage :: link_stage
  ln_sent :: "link_message list"

record server_session =
  ss_sessionToken :: string
  ss_metadata :: "string \<rightharpoonup> string"
  ss_serverTimeout :: nat
  ss_encryptionEnabled :: bool
  ss_synchronisedClock :: bool
  ss_forceEndpoint :: string
  ss_keys :: "u64 \<rightharpoonup> byte list"
  ss_connMetadata :: "nat \<Rightarrow> string \<rightharpoonup> string"
  ss_links :: "server_link list"
  ss_connecting :: "(string \<times> string) list"
  ss_clock :: "nat option"

definition new_server_session :: server_session where
  "new_server_session = \<lparr>ss_sessionToken = '''', ss_metadata = Map.empty, ss_serverTimeout = 10000, ss_encryptionEnabled = False,
     ss_synchronisedClock = True, ss_forceEndpoint = '''', ss_keys = Map.empty, ss_connMetadata = (\<lambda>_. Map.empty),
     ss_links = [], ss_connecting = [], ss_clock = None\<rparr>"

definition upd_link :: "nat \<Rightarrow> (server_link \<Rightarrow> server_link) \<Rightarrow> server_session \<Rightarrow> server_session" where
  "upd_link l f s = s\<lparr>ss_links := (ss_links s)[l := f (ss_links s ! l)]\<rparr>"

definition link_failed :: "nat \<Rightarrow> storm_exn \<Rightarrow> server_session \<Rightarrow> server_session" where
  "link_failed l ex = upd_link l (\<lambda>k. k\<lparr>ln_stage := LinkFailed ex\<rparr>)"

text \<open>The next stage of a link, with the message that is sent on the way.\<close>

definition link_sends :: "nat \<Rightarrow> link_stage \<Rightarrow> link_message \<Rightarrow> server_session \<Rightarrow> server_session" where
  "link_sends l st m = upd_link l (\<lambda>k. k\<lparr>ln_stage := st, ln_sent := ln_sent k @ [m]\<rparr>)"

section \<open>Connecting to a server\<close>

definition setMedatata :: "string \<Rightarrow> string \<Rightarrow> server_session \<Rightarrow> server_session" where
  "setMedatata key v s = s\<lparr>ss_metadata := (ss_metadata s)(key \<mapsto> v)\<rparr>"

text \<open>
  One of the endpoints of the transport, by a random number; without any the remainder by zero is
  undefined. The configuration may override it.
\<close>

definition no_transport_error :: "string \<Rightarrow> storm_exn" where
  "no_transport_error transport =
     RuntimeError (''No transport of type '' @ [CHR 0x27] @ transport @ [CHR 0x27] @ '' available on this server'')"

definition choose_endpoint :: "string \<Rightarrow> nat \<Rightarrow> server_endpoint \<Rightarrow> server_session \<Rightarrow> string res option" where
  "choose_endpoint transport rand sep s =
     (case se_endpoints sep transport of
        None \<Rightarrow> Some (Inl (no_transport_error transport))
      | Some es \<Rightarrow>
          if es = [] then None
          else Some (Inr (if ss_forceEndpoint s \<noteq> '''' then ss_forceEndpoint s else es ! (rand mod length es))))"

text \<open>
  The factory that \<^verbatim>\<open>ensureConnectedToServer\<close> hands to the repository of connections; what it throws
  at once is wrapped. The repository calls it only when it has no connection or attempt for the
  cluster (\<^verbatim>\<open>getConnection\<close> of theory Connections), and the client's repository and transport are there.
\<close>

definition ensureConnectedToServer ::
  "string \<Rightarrow> server_endpoint \<Rightarrow> string \<Rightarrow> nat \<Rightarrow> server_session \<Rightarrow> (nat res \<times> server_session) option" where
  "ensureConnectedToServer clusterId sep transport rand s =
     map_option
       (\<lambda>r. case r of
          Inl ex \<Rightarrow> (Inl (RuntimeError (''Failed to establish connection with '' @ clusterId @ '' : '' @ what ex)), s)
        | Inr url \<Rightarrow>
            (Inr (length (ss_links s)),
             s\<lparr>ss_links := ss_links s @ [\<lparr>ln_id = clusterId, ln_endpoint = sep, ln_stage = LinkConnecting, ln_sent = []\<rparr>],
               ss_connecting := ss_connecting s @ [(url, clusterId)]\<rparr>))
       (choose_endpoint transport rand sep s)"

text \<open>The size of the key in the message of the exception is left out.\<close>

definition key_size_error :: storm_exn where
  "key_size_error = RuntimeError ''Unexpected key size.''"

text \<open>
  The transport is connected with connection \<^term>\<open>c\<close> and id \<^term>\<open>cid\<close>: metadata, key, and the request for the
  timeout. A key that the store has already is not replaced.
\<close>

definition set_conn_metadata :: "nat \<Rightarrow> (string \<rightharpoonup> string) \<Rightarrow> server_session \<Rightarrow> server_session" where
  "set_conn_metadata c m s = s\<lparr>ss_connMetadata := (ss_connMetadata s)(c := m)\<rparr>"

definition transport_connected :: "nat \<Rightarrow> (nat \<times> u64) res \<Rightarrow> server_session \<Rightarrow> server_session" where
  "transport_connected l r s =
     (if l < length (ss_links s) \<and> ln_stage (ss_links s ! l) = LinkConnecting
      then (case r of
              Inl ex \<Rightarrow> link_failed l ex s
            | Inr (c, cid) \<Rightarrow>
                (let sep = ln_endpoint (ss_links s ! l);
                     md = (ss_metadata s)(''type'' \<mapsto> ''server'')
                 in if ss_encryptionEnabled s
                    then (let s1 = set_conn_metadata c (md(''encryption'' \<mapsto> se_encryptionToken sep)) s
                          in case se_encryptionKey sep of
                               Inl ex \<Rightarrow> link_failed l ex s1
                             | Inr key \<Rightarrow>
                                 if length key \<noteq> 256 div 8 then link_failed l key_size_error s1
                                 else link_sends l (LinkTimeout c) (SetTimeout (ss_serverTimeout s))
                                        (s1\<lparr>ss_keys := emplace cid key (ss_keys s1)\<rparr>))
                    else link_sends l (LinkTimeout c) (SetTimeout (ss_serverTimeout s)) (set_conn_metadata c md s)))
      else s)"

definition timeout_set :: "nat \<Rightarrow> unit res \<Rightarrow> server_session \<Rightarrow> server_session" where
  "timeout_set l r s =
     (if l < length (ss_links s)
      then (case ln_stage (ss_links s ! l) of
              LinkTimeout c \<Rightarrow>
                (case r of Inl ex \<Rightarrow> link_failed l ex s
                 | Inr _ \<Rightarrow> link_sends l (LinkMetadata c) (PeerMetadata (ss_connMetadata s c)) s)
            | _ \<Rightarrow> s)
      else s)"

definition requestSessionToken :: "nat \<Rightarrow> nat \<Rightarrow> nat \<Rightarrow> server_session \<Rightarrow> server_session" where
  "requestSessionToken l c numRetries s =
     link_sends l (LinkJoining c numRetries)
       (JoinSession (if ss_sessionToken s = '''' then None else Some (ss_sessionToken s))) s"

definition metadata_updated :: "nat \<Rightarrow> unit res \<Rightarrow> server_session \<Rightarrow> server_session" where
  "metadata_updated l r s =
     (if l < length (ss_links s)
      then (case ln_stage (ss_links s ! l) of
              LinkMetadata c \<Rightarrow> (case r of Inl ex \<Rightarrow> link_failed l ex s | Inr _ \<Rightarrow> requestSessionToken l c 1 s)
            | _ \<Rightarrow> s)
      else s)"

text \<open>The last continuation starts the clock, if it is wanted.\<close>

definition link_up :: "nat \<Rightarrow> nat \<Rightarrow> server_session \<Rightarrow> server_session" where
  "link_up l c s =
     (let s1 = upd_link l (\<lambda>k. k\<lparr>ln_stage := LinkUp c\<rparr>) s
      in if ss_synchronisedClock s then s1\<lparr>ss_clock := Some c\<rparr> else s1)"

text \<open>The answer to \<^verbatim>\<open>ID_JOIN_SESSION\<close>.\<close>

definition session_token :: "nat \<Rightarrow> string res \<Rightarrow> server_session \<Rightarrow> server_session" where
  "session_token l r s =
     (if l < length (ss_links s)
      then (case ln_stage (ss_links s ! l) of
              LinkJoining c numRetries \<Rightarrow>
                (case r of
                   Inr serverToken \<Rightarrow>
                     link_up l c (if ss_sessionToken s = '''' then s\<lparr>ss_sessionToken := serverToken\<rparr> else s)
                 | Inl ex \<Rightarrow>
                     (let s1 = s\<lparr>ss_sessionToken := ''''\<rparr>
                      in if numRetries > 0 then requestSessionToken l c (numRetries - 1) s1 else link_failed l ex s1))
            | _ \<Rightarrow> s)
      else s)"

definition setServerTimeout :: "nat \<Rightarrow> server_session \<Rightarrow> server_session" where
  "setServerTimeout t s = s\<lparr>ss_serverTimeout := t\<rparr>"

section \<open>Runs\<close>

datatype session_step =
    SetMetadata string string
  | EnsureConnected string server_endpoint string nat
  | TransportConnected nat "(nat \<times> u64) res"
  | TimeoutSet nat "unit res"
  | MetadataUpdated nat "unit res"
  | TokenAnswer nat "string res"
  | ServerTimeout nat

fun session_do :: "session_step \<Rightarrow> server_session \<Rightarrow> server_session" where
  "session_do (SetMetadata k v) s = setMedatata k v s"
| "session_do (EnsureConnected i sep t r) s = (case ensureConnectedToServer i sep t r s of None \<Rightarrow> s | Some (_, s1) \<Rightarrow> s1)"
| "session_do (TransportConnected l r) s = transport_connected l r s"
| "session_do (TimeoutSet l r) s = timeout_set l r s"
| "session_do (MetadataUpdated l r) s = metadata_updated l r s"
| "session_do (TokenAnswer l r) s = session_token l r s"
| "session_do (ServerTimeout t) s = setServerTimeout t s"

definition session_steps :: "session_step list \<Rightarrow> server_session \<Rightarrow> server_session" where
  "session_steps acts s = fold session_do acts s"

lemma session_steps_simps [simp]:
  "session_steps [] s = s" "session_steps (a # acts) s = session_steps acts (session_do a s)"
  by (simp_all add: session_steps_def)

section \<open>The protocol of a link\<close>

text \<open>
  What a link has sent at each stage: the timeout, the metadata of a server connection, then one
  request to join, and a second one, without a token, only after the first was refused.
\<close>

fun server_metadata :: "link_message \<Rightarrow> bool" where
  "server_metadata (PeerMetadata md) \<longleftrightarrow> md ''type'' = Some ''server''"
| "server_metadata _ \<longleftrightarrow> False"

definition opening_sent :: "link_message list \<Rightarrow> bool" where
  "opening_sent ms \<longleftrightarrow> (\<exists>t m. ms = [SetTimeout t, m] \<and> server_metadata m)"

definition joined_once :: "link_message list \<Rightarrow> bool" where
  "joined_once ms \<longleftrightarrow> (\<exists>os x. ms = os @ [JoinSession x] \<and> opening_sent os)"

definition joined_twice :: "link_message list \<Rightarrow> bool" where
  "joined_twice ms \<longleftrightarrow> (\<exists>os x. ms = os @ [JoinSession x, JoinSession None] \<and> opening_sent os)"

fun stage_sent :: "link_stage \<Rightarrow> link_message list \<Rightarrow> bool" where
  "stage_sent LinkConnecting ms \<longleftrightarrow> ms = []"
| "stage_sent (LinkTimeout c) ms \<longleftrightarrow> (\<exists>t. ms = [SetTimeout t])"
| "stage_sent (LinkMetadata c) ms \<longleftrightarrow> opening_sent ms"
| "stage_sent (LinkJoining c r) ms \<longleftrightarrow> r = 1 \<and> joined_once ms \<or> r = 0 \<and> joined_twice ms"
| "stage_sent (LinkUp c) ms \<longleftrightarrow> joined_once ms \<or> joined_twice ms"
| "stage_sent (LinkFailed ex) ms \<longleftrightarrow> True"

text \<open>The connection whose metadata are still to be sent is marked as one of a server.\<close>

fun stage_typed :: "(nat \<Rightarrow> string \<rightharpoonup> string) \<Rightarrow> link_stage \<Rightarrow> bool" where
  "stage_typed md (LinkTimeout c) \<longleftrightarrow> md c ''type'' = Some ''server''"
| "stage_typed md _ \<longleftrightarrow> True"

definition links_sound :: "server_session \<Rightarrow> bool" where
  "links_sound s \<longleftrightarrow>
     (\<forall>k \<in> set (ss_links s). stage_sent (ln_stage k) (ln_sent k) \<and> stage_typed (ss_connMetadata s) (ln_stage k))"

lemma links_soundD:
  assumes "links_sound s" and "l < length (ss_links s)"
  shows "stage_sent (ln_stage (ss_links s ! l)) (ln_sent (ss_links s ! l))"
    and "stage_typed (ss_connMetadata s) (ln_stage (ss_links s ! l))"
  using assms nth_mem by (auto simp: links_sound_def)

lemma links_sound_upd:
  assumes "links_sound s" and "stage_sent (ln_stage (f (ss_links s ! l))) (ln_sent (f (ss_links s ! l)))"
    and "stage_typed (ss_connMetadata s) (ln_stage (f (ss_links s ! l)))"
  shows "links_sound (upd_link l f s)"
proof -
  have "k \<in> insert (f (ss_links s ! l)) (set (ss_links s))"
    if "k \<in> set ((ss_links s)[l := f (ss_links s ! l)])" for k
    using that set_update_subset_insert by fastforce
  then show ?thesis
    using assms unfolding links_sound_def upd_link_def by fastforce
qed

lemma links_sound_failed: "links_sound s \<Longrightarrow> links_sound (link_failed l ex s)"
  unfolding link_failed_def by (rule links_sound_upd) simp_all

lemma links_sound_sends:
  assumes "links_sound s" and "stage_sent st (ln_sent (ss_links s ! l) @ [m])" and "stage_typed (ss_connMetadata s) st"
  shows "links_sound (link_sends l st m s)"
  unfolding link_sends_def by (rule links_sound_upd [OF assms(1)]) (simp_all add: assms)

lemma links_sound_keep [simp]:
  "links_sound (s\<lparr>ss_sessionToken := t\<rparr>) = links_sound s" "links_sound (s\<lparr>ss_keys := k\<rparr>) = links_sound s"
  "links_sound (s\<lparr>ss_clock := c\<rparr>) = links_sound s" "links_sound (s\<lparr>ss_metadata := m\<rparr>) = links_sound s"
  "links_sound (s\<lparr>ss_serverTimeout := i\<rparr>) = links_sound s"
  by (simp_all add: links_sound_def)

lemma links_sound_metadata:
  assumes "links_sound s" and "m ''type'' = Some ''server''"
  shows "links_sound (set_conn_metadata c m s)"
proof -
  have "stage_typed ((ss_connMetadata s)(c := m)) st" if "stage_typed (ss_connMetadata s) st" for st
    using that assms(2) by (cases st) simp_all
  then show ?thesis
    using assms(1) by (auto simp: links_sound_def set_conn_metadata_def)
qed

lemma links_sound_transport: "links_sound s \<Longrightarrow> links_sound (transport_connected l r s)"
proof (cases "l < length (ss_links s) \<and> ln_stage (ss_links s ! l) = LinkConnecting")
  case True
  assume s: "links_sound s"
  have e: "ln_sent (ss_links s ! l) = []"
    using links_soundD(1) [OF s, of l] True by simp
  have m: "links_sound (set_conn_metadata c ((ss_metadata s)(''type'' \<mapsto> ''server'')) s)"
    "links_sound (set_conn_metadata c ((ss_metadata s)(''type'' \<mapsto> ''server'', ''encryption'' \<mapsto> t)) s)" for c t
    by (rule links_sound_metadata [OF s]; simp)+
  have t: "links_sound (link_sends l (LinkTimeout c) (SetTimeout i) v)"
    if "links_sound v" "ss_links v = ss_links s" "ss_connMetadata v c ''type'' = Some ''server''" for c i v
    by (rule links_sound_sends [OF that(1)]) (simp_all add: that e)
  show ?thesis
    using True s m by (auto simp: transport_connected_def Let_def links_sound_failed set_conn_metadata_def
        intro!: t links_sound_failed split: sum.split)
qed (auto simp: transport_connected_def)

lemma links_sound_timeout: "links_sound s \<Longrightarrow> links_sound (timeout_set l r s)"
  using links_soundD [of s l]
  by (auto simp: timeout_set_def links_sound_failed opening_sent_def intro!: links_sound_sends split: link_stage.split sum.split)

lemma links_sound_metadata_updated: "links_sound s \<Longrightarrow> links_sound (metadata_updated l r s)"
  using links_soundD [of s l]
  by (auto simp: metadata_updated_def requestSessionToken_def links_sound_failed joined_once_def
      intro!: links_sound_sends split: link_stage.split sum.split)

lemma links_sound_up:
  assumes "links_sound s" and "l < length (ss_links s)" and "ln_stage (ss_links s ! l) = LinkJoining c n"
  shows "links_sound (link_up l c s)"
proof -
  have "links_sound (upd_link l (\<lambda>k. k\<lparr>ln_stage := LinkUp c\<rparr>) s)"
    by (rule links_sound_upd [OF assms(1)]) (use links_soundD(1) [OF assms(1,2)] assms(3) in auto)
  then show ?thesis
    by (simp add: link_up_def Let_def)
qed

lemma links_sound_token: "links_sound s \<Longrightarrow> links_sound (session_token l r s)"
proof (cases "l < length (ss_links s) \<and> (\<exists>c n. ln_stage (ss_links s ! l) = LinkJoining c n)")
  case True
  assume s: "links_sound s"
  from True obtain c n where l: "l < length (ss_links s)" and j: "ln_stage (ss_links s ! l) = LinkJoining c n" by blast
  have st: "n = 1 \<and> joined_once (ln_sent (ss_links s ! l)) \<or> n = 0 \<and> joined_twice (ln_sent (ss_links s ! l))"
    using links_soundD(1) [OF s l] j by simp
  show ?thesis
  proof (cases r)
    case (Inl ex)
    have "joined_twice (ln_sent (ss_links s ! l) @ [JoinSession None])" if "n > 0"
      using st that by (auto simp: joined_once_def joined_twice_def)
    then have "links_sound (requestSessionToken l c (n - 1) (s\<lparr>ss_sessionToken := ''''\<rparr>))" if "n > 0"
      unfolding requestSessionToken_def using st s that by (intro links_sound_sends) auto
    then show ?thesis
      using Inl l j s by (simp add: session_token_def Let_def links_sound_failed)
  next
    case (Inr t)
    have "links_sound (link_up l c (s\<lparr>ss_sessionToken := t\<rparr>))"
      by (rule links_sound_up) (use s l j in simp_all)
    then show ?thesis
      using Inr l j s links_sound_up [OF s l j] by (simp add: session_token_def)
  qed
next
  case False
  assume "links_sound s"
  with False show ?thesis
    by (auto simp: session_token_def split: link_stage.split)
qed

lemma links_sound_ensure: "links_sound s \<Longrightarrow> links_sound (session_do (EnsureConnected i sep t r) s)"
  by (auto simp: ensureConnectedToServer_def links_sound_def split: option.split sum.splits)

lemma links_sound_do: "links_sound s \<Longrightarrow> links_sound (session_do a s)"
  by (cases a) (simp_all add: setMedatata_def links_sound_ensure links_sound_transport links_sound_timeout
      links_sound_metadata_updated links_sound_token setServerTimeout_def del: session_do.simps(2))

lemma links_sound_steps: "links_sound s \<Longrightarrow> links_sound (session_steps acts s)"
  by (induction acts arbitrary: s) (simp_all add: links_sound_do)

text \<open>
  Property C40. However connections, answers and failures interleave, a server connection that is up was set
  up in order: its timeout, then its metadata, which say that it is one to a server, then one request to
  join the session, and at most one more, which carries no token.
\<close>

theorem link_protocol:
  assumes "s = session_steps acts new_server_session" and "l < length (ss_links s)" and "ln_stage (ss_links s ! l) = LinkUp c"
  shows "\<exists>t md x. md ''type'' = Some ''server''
    \<and> (ln_sent (ss_links s ! l) = [SetTimeout t, PeerMetadata md, JoinSession x]
       \<or> ln_sent (ss_links s ! l) = [SetTimeout t, PeerMetadata md, JoinSession x, JoinSession None])"
proof -
  have "links_sound new_server_session"
    by (simp add: links_sound_def new_server_session_def)
  then have "links_sound s"
    unfolding assms(1) by (rule links_sound_steps)
  then have j: "joined_once (ln_sent (ss_links s ! l)) \<or> joined_twice (ln_sent (ss_links s ! l))"
    using links_soundD(1) [OF _ assms(2)] assms(3) by fastforce
  have o: "\<exists>t md. os = [SetTimeout t, PeerMetadata md] \<and> md ''type'' = Some ''server''" if os: "opening_sent os" for os
  proof -
    obtain t m where "os = [SetTimeout t, m]" "server_metadata m"
      using os by (auto simp: opening_sent_def)
    then show ?thesis by (cases m) auto
  qed
  from j show ?thesis
    unfolding joined_once_def joined_twice_def using o by fastforce
qed

lemma link_protocol_witness:
  "\<exists>t md x. md ''type'' = Some ''server''
    \<and> (ln_sent (ss_links (session_steps [EnsureConnected ''c'' \<lparr>se_endpoints = [''raknet'' \<mapsto> [''h:1'']],
          se_encryptionToken = '''', se_encryptionKey = Inr []\<rparr> ''raknet'' 7, TransportConnected 0 (Inr (3, 9)),
          TimeoutSet 0 (Inr ()), MetadataUpdated 0 (Inr ()), TokenAnswer 0 (Inl TaskCanceled), TokenAnswer 0 (Inr ''t'')]
        new_server_session) ! 0) = [SetTimeout t, PeerMetadata md, JoinSession x]
     \<or> ln_sent (ss_links (session_steps [EnsureConnected ''c'' \<lparr>se_endpoints = [''raknet'' \<mapsto> [''h:1'']],
          se_encryptionToken = '''', se_encryptionKey = Inr []\<rparr> ''raknet'' 7, TransportConnected 0 (Inr (3, 9)),
          TimeoutSet 0 (Inr ()), MetadataUpdated 0 (Inr ()), TokenAnswer 0 (Inl TaskCanceled), TokenAnswer 0 (Inr ''t'')]
        new_server_session) ! 0) = [SetTimeout t, PeerMetadata md, JoinSession x, JoinSession None])"
  by (rule link_protocol [OF refl, where c = 3])
    (simp_all add: new_server_session_def ensureConnectedToServer_def choose_endpoint_def transport_connected_def Let_def
      set_conn_metadata_def link_sends_def upd_link_def timeout_set_def metadata_updated_def requestSessionToken_def
      session_token_def link_up_def)

text \<open>
  A session that the server does not know any more is given up for a new one; a token that is still
  good is kept, whatever the server answers.
\<close>

lemma refused_session_renewed:
  assumes "l < length (ss_links s)" and "ln_stage (ss_links s ! l) = LinkJoining c 1"
    and "v = session_steps [TokenAnswer l (Inl ex), TokenAnswer l (Inr t)] s"
  shows "ss_sessionToken v = t" and "ln_stage (ss_links v ! l) = LinkUp c"
    and "ln_sent (ss_links v ! l) = ln_sent (ss_links s ! l) @ [JoinSession None]"
  using assms by (simp_all add: session_token_def requestSessionToken_def link_sends_def upd_link_def link_up_def Let_def)

lemma session_kept:
  assumes "l < length (ss_links s)" and "ln_stage (ss_links s ! l) = LinkJoining c n" and "ss_sessionToken s \<noteq> ''''"
  shows "ss_sessionToken (session_token l (Inr t) s) = ss_sessionToken s"
    and "ln_stage (ss_links (session_token l (Inr t) s) ! l) = LinkUp c"
  using assms by (simp_all add: session_token_def link_up_def upd_link_def Let_def)

text \<open>A server that refuses the token takes it away from all other connections of the client too.\<close>

lemma refusal_forgets_session:
  assumes "l < length (ss_links s)" and "ln_stage (ss_links s ! l) = LinkJoining c n"
  shows "ss_sessionToken (session_token l (Inl ex) s) = ''''"
  using assms by (simp add: session_token_def requestSessionToken_def link_sends_def upd_link_def link_failed_def Let_def)

text \<open>
  A second connection to a server with the same id keeps the key of the first: the server expects
  the one it has just sent.
\<close>

lemma second_key_ignored:
  assumes "l < length (ss_links s)" and "ln_stage (ss_links s ! l) = LinkConnecting" and "ss_encryptionEnabled s"
    and "se_encryptionKey (ln_endpoint (ss_links s ! l)) = Inr key" and "length key = 32" and "ss_keys s cid = Some old"
  shows "ss_keys (transport_connected l (Inr (c, cid)) s) cid = Some old"
    and "ln_stage (ss_links (transport_connected l (Inr (c, cid)) s) ! l) = LinkTimeout c"
  using assms by (simp_all add: transport_connected_def Let_def link_sends_def upd_link_def set_conn_metadata_def)

text \<open>A new key is stored under the id of the connection, and one of the wrong size ends the link.\<close>

lemma key_stored:
  assumes "l < length (ss_links s)" and "ln_stage (ss_links s ! l) = LinkConnecting" and "ss_encryptionEnabled s"
    and "se_encryptionKey (ln_endpoint (ss_links s ! l)) = Inr key" and "ss_keys s cid = None"
  shows "length key = 32 \<Longrightarrow> ss_keys (transport_connected l (Inr (c, cid)) s) cid = Some key"
    and "length key \<noteq> 32 \<Longrightarrow> ss_keys (transport_connected l (Inr (c, cid)) s) = ss_keys s"
    and "length key \<noteq> 32 \<Longrightarrow> ln_stage (ss_links (transport_connected l (Inr (c, cid)) s) ! l) = LinkFailed key_size_error"
  using assms by (simp_all add: transport_connected_def Let_def link_sends_def link_failed_def upd_link_def set_conn_metadata_def)

text \<open>The forced endpoint counts only for servers that list one of their own.\<close>

lemma forced_endpoint:
  assumes "se_endpoints sep t = Some es" and "es \<noteq> []" and "ss_forceEndpoint s \<noteq> ''''"
  shows "choose_endpoint t r sep s = Some (Inr (ss_forceEndpoint s))"
    and "ss_forceEndpoint s' = '''' \<Longrightarrow> \<exists>u \<in> set es. choose_endpoint t r sep s' = Some (Inr u)"
  using assms by (simp_all add: choose_endpoint_def)

end
