(* ===== verification/Friends.thy ===== *)
theory Friends
  imports Prelude
begin

text \<open>
  The list of friends (\<^verbatim>\<open>Plugins/public/Friends/Friends.hpp\<close>). The service keeps a map from items to shared
  objects, which events and the results of \<^verbatim>\<open>friends()\<close> point to as well, so the objects live in a
  store and the map holds their numbers; a null pointer is \<^const>\<open>None\<close>. The lemmas relate the map to
  the list that the notifications of the server describe.
\<close>

section \<open>Data\<close>

record friend =
  fd_userId :: string
  fd_details :: string
  fd_lastConnected :: u64
  fd_status :: int
  fd_tags :: "string list"

record friend_update =
  fu_itemId :: string
  fu_operation :: string
  fu_data :: friend

datatype friend_operation = FriendAdd | FriendRemove | FriendUpdate

datatype friend_list_status = FriendsOnline | FriendsInvisible | FriendsAway

fun friend_list_status_int :: "friend_list_status \<Rightarrow> int" where
  "friend_list_status_int FriendsOnline = 0"
| "friend_list_status_int FriendsInvisible = 1"
| "friend_list_status_int FriendsAway = 2"

text \<open>\<open>fs_events\<close> are the calls of \<^verbatim>\<open>friendListChanged\<close>, with the object they carry.\<close>

record friends_service =
  fs_store :: "friend list"
  fs_friends :: "string \<rightharpoonup> nat option"
  fs_events :: "(friend_operation \<times> nat) list"

definition FriendsService :: friends_service where
  "FriendsService = \<lparr>fs_store = [], fs_friends = Map.empty, fs_events = []\<rparr>"

section \<open>Notifications\<close>

text \<open>\<^verbatim>\<open>friends[itemId]\<close> inserts a null pointer for a missing item.\<close>

definition friend_at :: "string \<Rightarrow> friends_service \<Rightarrow> nat option \<times> friends_service" where
  "friend_at i s =
     (case fs_friends s i of
        Some p \<Rightarrow> (p, s)
      | None \<Rightarrow> (None, s\<lparr>fs_friends := (fs_friends s)(i \<mapsto> None)\<rparr>))"

definition friend_event :: "friend_operation \<Rightarrow> nat \<Rightarrow> friends_service \<Rightarrow> friends_service" where
  "friend_event op p s = s\<lparr>fs_events := fs_events s @ [(op, p)]\<rparr>"

definition set_friend :: "nat \<Rightarrow> (friend \<Rightarrow> friend) \<Rightarrow> friends_service \<Rightarrow> friends_service" where
  "set_friend p f s = s\<lparr>fs_store := (fs_store s)[p := f (fs_store s ! p)]\<rparr>"

definition onFriendAdd :: "friend_update \<Rightarrow> friends_service \<Rightarrow> friends_service" where
  "onFriendAdd u s =
     (let p = length (fs_store s)
      in friend_event FriendAdd p
           (s\<lparr>fs_store := fs_store s @ [fu_data u], fs_friends := (fs_friends s)(fu_itemId u \<mapsto> Some p)\<rparr>))"

definition copy_update :: "friend \<Rightarrow> friend \<Rightarrow> friend" where
  "copy_update d f = f\<lparr>fd_status := fd_status d, fd_details := fd_details d, fd_lastConnected := fd_lastConnected d,
     fd_userId := fd_userId d\<rparr>"

definition onFriendUpdate :: "friend_update \<Rightarrow> friends_service \<Rightarrow> friends_service" where
  "onFriendUpdate u s =
     (case friend_at (fu_itemId u) s of
        (None, s1) \<Rightarrow> s1
      | (Some p, s1) \<Rightarrow> friend_event FriendUpdate p (set_friend p (copy_update (fu_data u)) s1))"

definition onFriendUpdateStatus :: "friend_update \<Rightarrow> friends_service \<Rightarrow> friends_service" where
  "onFriendUpdateStatus u s =
     (case friend_at (fu_itemId u) s of
        (None, s1) \<Rightarrow> s1
      | (Some p, s1) \<Rightarrow> friend_event FriendUpdate p (set_friend p (\<lambda>f. f\<lparr>fd_status := fd_status (fu_data u)\<rparr>) s1))"

text \<open>The event of a removal says that the friend was added.\<close>

definition onFriendRemove :: "friend_update \<Rightarrow> friends_service \<Rightarrow> friends_service" where
  "onFriendRemove u s =
     (case friend_at (fu_itemId u) s of
        (None, s1) \<Rightarrow> s1
      | (Some p, s1) \<Rightarrow> friend_event FriendAdd p (s1\<lparr>fs_friends := (fs_friends s1)(fu_itemId u := None)\<rparr>))"

definition onFriendNotification :: "friend_update \<Rightarrow> friends_service \<Rightarrow> friends_service" where
  "onFriendNotification u s =
     (if fu_operation u = ''remove'' then onFriendRemove u s
      else if fu_operation u = ''update'' then onFriendUpdate u s
      else if fu_operation u = ''add'' then onFriendAdd u s
      else if fu_operation u = ''update.status'' then onFriendUpdateStatus u s
      else s)"

section \<open>Requests and the API\<close>

datatype friend_request =
    InviteFriend string
  | AnswerInvitation string bool
  | RemoveFriend string
  | SetStatus friend_list_status string

fun friend_route :: "friend_request \<Rightarrow> string" where
  "friend_route (InviteFriend _) = ''friends.invitefriend''"
| "friend_route (AnswerInvitation _ _) = ''friends.acceptfriendinvitation''"
| "friend_route (RemoveFriend _) = ''friends.removefriend''"
| "friend_route (SetStatus _ _) = ''friends.setstatus''"

text \<open>The service sends the request while its scene exists.\<close>

definition service_request :: "bool \<Rightarrow> friend_request \<Rightarrow> (string \<times> friend_request) res" where
  "service_request scene q = (if scene then Inr (friend_route q, q) else Inl (RuntimeError ''scene deleted''))"

text \<open>
  \<^verbatim>\<open>friends()\<close> copies the map, not the objects; handlers may change the copy. Looking at an entry
  dereferences it.
\<close>

definition friends_of :: "((string \<rightharpoonup> nat option) \<Rightarrow> (string \<rightharpoonup> nat option)) list \<Rightarrow> friends_service \<Rightarrow> (string \<rightharpoonup> nat option)" where
  "friends_of handlers s = fold (\<lambda>h m. h m) handlers (fs_friends s)"

definition look_at :: "friends_service \<Rightarrow> (string \<rightharpoonup> nat option) \<Rightarrow> string \<Rightarrow> friend option option" where
  "look_at s m i = map_option (map_option (\<lambda>p. fs_store s ! p)) (m i)"

text \<open>
  The API follows the events of the service between the initialisation and the clean-up of the scene it
  has cached; \<open>fa_events\<close> are the calls of its own \<^verbatim>\<open>friendListChanged\<close>.
\<close>

record friends_api =
  fa_service :: friends_service
  fa_subscribed :: bool
  fa_events :: "(friend_operation \<times> nat) list"

definition friends_initializer :: "friends_service \<Rightarrow> friends_api \<Rightarrow> friends_api" where
  "friends_initializer s a = a\<lparr>fa_service := s, fa_subscribed := True\<rparr>"

definition friends_cleanup :: "friends_api \<Rightarrow> friends_api" where
  "friends_cleanup a = a\<lparr>fa_subscribed := False\<rparr>"

definition api_notified :: "friend_update \<Rightarrow> friends_api \<Rightarrow> friends_api" where
  "api_notified u a =
     (let s = onFriendNotification u (fa_service a);
          new = drop (length (fs_events (fa_service a))) (fs_events s)
      in a\<lparr>fa_service := s, fa_events := fa_events a @ (if fa_subscribed a then new else [])\<rparr>)"

section \<open>The list the server describes\<close>

text \<open>
  The list as the notifications mean it: an addition or an update brings the friend as it is now, where an
  update of a friend that is not in the list says nothing; a status replaces the status alone.
\<close>

definition serve_update :: "friend_update \<Rightarrow> (string \<rightharpoonup> friend) \<Rightarrow> (string \<rightharpoonup> friend)" where
  "serve_update u m =
     (let i = fu_itemId u; d = fu_data u; op = fu_operation u in
      if op = ''add'' \<or> op = ''update'' \<and> i \<in> dom m then m(i \<mapsto> d)
      else if op = ''remove'' then m |` (- {i})
      else if op = ''update.status'' \<and> i \<in> dom m
      then m(i \<mapsto> \<lparr>fd_userId = fd_userId (the (m i)), fd_details = fd_details (the (m i)),
                 fd_lastConnected = fd_lastConnected (the (m i)), fd_status = fd_status d, fd_tags = fd_tags (the (m i))\<rparr>)
      else m)"

definition server_list :: "friend_update list \<Rightarrow> (string \<rightharpoonup> friend)" where
  "server_list us = fold serve_update us Map.empty"

text \<open>The addition that brought an item last.\<close>

definition last_add :: "friend_update list \<Rightarrow> string \<Rightarrow> friend_update option" where
  "last_add us i = find (\<lambda>u. fu_operation u = ''add'' \<and> fu_itemId u = i) (rev us)"

text \<open>What a notification does to the friends the client sees, whose tags stay.\<close>

definition apply_update :: "friend_update \<Rightarrow> (string \<rightharpoonup> friend) \<Rightarrow> (string \<rightharpoonup> friend)" where
  "apply_update u m =
     (if fu_operation u = ''remove'' then m(fu_itemId u := None)
      else if fu_operation u = ''update'' then m(fu_itemId u := map_option (copy_update (fu_data u)) (m (fu_itemId u)))
      else if fu_operation u = ''add'' then m(fu_itemId u \<mapsto> fu_data u)
      else if fu_operation u = ''update.status''
      then m(fu_itemId u := map_option (\<lambda>f. f\<lparr>fd_status := fd_status (fu_data u)\<rparr>) (m (fu_itemId u)))
      else m)"

definition live_friends :: "friends_service \<Rightarrow> (string \<rightharpoonup> friend)" where
  "live_friends s i = Option.bind (fs_friends s i) (map_option (\<lambda>p. fs_store s ! p))"

text \<open>Every pointer of the map leads to an object, and no two items share one.\<close>

definition friends_sound :: "friends_service \<Rightarrow> bool" where
  "friends_sound s \<longleftrightarrow>
     (\<forall>i p. fs_friends s i = Some (Some p) \<longrightarrow> p < length (fs_store s))
     \<and> (\<forall>i j p. fs_friends s i = Some (Some p) \<longrightarrow> fs_friends s j = Some (Some p) \<longrightarrow> i = j)"

lemma friend_at_cases:
  obtains (null) s1 where "friend_at i s = (None, s1)" and "live_friends s i = None"
      and "s1 = s\<lparr>fs_friends := (fs_friends s)(i \<mapsto> None)\<rparr>"
    | (there) p where "friend_at i s = (Some p, s)" and "fs_friends s i = Some (Some p)"
      and "live_friends s i = Some (fs_store s ! p)"
proof (cases "fs_friends s i")
  case None
  then show ?thesis
    by (intro null) (simp_all add: friend_at_def live_friends_def)
next
  case (Some q)
  show ?thesis
  proof (cases q)
    case None
    have "s\<lparr>fs_friends := (fs_friends s)(i \<mapsto> None)\<rparr> = s"
      using Some None by (simp add: fun_upd_idem)
    then show ?thesis
      using Some None by (intro null) (simp_all add: friend_at_def live_friends_def)
  next
    case (Some p)
    with \<open>fs_friends s i = Some q\<close> show ?thesis
      by (intro there) (simp_all add: friend_at_def live_friends_def)
  qed
qed

lemma null_keeps:
  assumes "friends_sound s" and "live_friends s i = None"
  shows "friends_sound (s\<lparr>fs_friends := (fs_friends s)(i \<mapsto> None)\<rparr>)"
    and "live_friends (s\<lparr>fs_friends := (fs_friends s)(i \<mapsto> None)\<rparr>) = live_friends s"
proof -
  show "friends_sound (s\<lparr>fs_friends := (fs_friends s)(i \<mapsto> None)\<rparr>)"
    using assms(1) by (auto simp: friends_sound_def)
  show "live_friends (s\<lparr>fs_friends := (fs_friends s)(i \<mapsto> None)\<rparr>) = live_friends s"
    using assms(2) by (auto simp: live_friends_def fun_eq_iff)
qed

lemma set_keeps:
  assumes "friends_sound s" and "fs_friends s i = Some (Some p)"
  shows "friends_sound (friend_event op p (set_friend p f s))"
    and "live_friends (friend_event op p (set_friend p f s)) = (live_friends s)(i \<mapsto> f (fs_store s ! p))"
proof -
  show "friends_sound (friend_event op p (set_friend p f s))"
    using assms(1) by (auto simp: friends_sound_def friend_event_def set_friend_def)
  have p: "p < length (fs_store s)"
    using assms by (auto simp: friends_sound_def)
  have "live_friends (friend_event op p (set_friend p f s)) j = ((live_friends s)(i \<mapsto> f (fs_store s ! p))) j" for j
  proof (cases "j = i")
    case True
    then show ?thesis
      using assms(2) p by (simp add: live_friends_def friend_event_def set_friend_def)
  next
    case False
    have "q \<noteq> p" if "fs_friends s j = Some (Some q)" for q
      using assms that False unfolding friends_sound_def by blast
    then have "map_option (\<lambda>q. (fs_store s)[p := f (fs_store s ! p)] ! q) x = map_option (\<lambda>q. fs_store s ! q) x"
      if "fs_friends s j = Some x" for x
      using that by (cases x) auto
    then show ?thesis
      using False by (cases "fs_friends s j") (simp_all add: live_friends_def friend_event_def set_friend_def)
  qed
  then show "live_friends (friend_event op p (set_friend p f s)) = (live_friends s)(i \<mapsto> f (fs_store s ! p))"
    by (rule ext)
qed

lemma update_step:
  assumes "friends_sound s"
    and "g = (\<lambda>s. case friend_at i s of (None, s1) \<Rightarrow> s1 | (Some p, s1) \<Rightarrow> friend_event FriendUpdate p (set_friend p f s1))"
  shows "friends_sound (g s)" and "live_friends (g s) = (live_friends s)(i := map_option f (live_friends s i))"
proof -
  have "friends_sound (g s) \<and> live_friends (g s) = (live_friends s)(i := map_option f (live_friends s i))"
  proof (cases rule: friend_at_cases [of i s])
    case (null s1)
    then show ?thesis
      using null_keeps [OF assms(1), of i] by (simp add: assms(2) fun_upd_idem)
  next
    case (there p)
    then show ?thesis
      using set_keeps [OF assms(1) there(2), of FriendUpdate f] by (simp add: assms(2))
  qed
  then show "friends_sound (g s)" "live_friends (g s) = (live_friends s)(i := map_option f (live_friends s i))"
    by simp_all
qed

lemma remove_step:
  assumes "friends_sound s"
  shows "friends_sound (onFriendRemove u s)" and "live_friends (onFriendRemove u s) = (live_friends s)(fu_itemId u := None)"
proof -
  have "friends_sound (onFriendRemove u s) \<and> live_friends (onFriendRemove u s) = (live_friends s)(fu_itemId u := None)"
  proof (cases rule: friend_at_cases [of "fu_itemId u" s])
    case (null s1)
    then show ?thesis
      using null_keeps [OF assms, of "fu_itemId u"] by (simp add: onFriendRemove_def fun_upd_idem)
  next
    case (there p)
    have "friends_sound (onFriendRemove u s)"
      using assms there(1) by (auto simp: onFriendRemove_def friends_sound_def friend_event_def)
    moreover have "live_friends (onFriendRemove u s) = (live_friends s)(fu_itemId u := None)"
      using there(1) by (simp add: onFriendRemove_def live_friends_def friend_event_def fun_eq_iff)
    ultimately show ?thesis ..
  qed
  then show "friends_sound (onFriendRemove u s)" "live_friends (onFriendRemove u s) = (live_friends s)(fu_itemId u := None)"
    by simp_all
qed

lemma add_step:
  assumes "friends_sound s"
  shows "friends_sound (onFriendAdd u s)" and "live_friends (onFriendAdd u s) = (live_friends s)(fu_itemId u \<mapsto> fu_data u)"
proof -
  have b: "p < length (fs_store s)" if "fs_friends s i = Some (Some p)" for i p
    using assms that by (auto simp: friends_sound_def)
  have n: "fs_friends s i \<noteq> Some (Some (length (fs_store s)))" for i
    using b by blast
  show "friends_sound (onFriendAdd u s)"
    using assms n by (auto simp: onFriendAdd_def Let_def friends_sound_def friend_event_def less_Suc_eq)
  have "map_option (\<lambda>p. (fs_store s @ [fu_data u]) ! p) x = map_option (\<lambda>p. fs_store s ! p) x"
    if "fs_friends s j = Some x" for j x
    using b [of j] that by (cases x) (simp_all add: nth_append)
  then have "live_friends (onFriendAdd u s) j = ((live_friends s)(fu_itemId u \<mapsto> fu_data u)) j" for j
    by (cases "fs_friends s j") (simp_all add: onFriendAdd_def Let_def live_friends_def friend_event_def)
  then show "live_friends (onFriendAdd u s) = (live_friends s)(fu_itemId u \<mapsto> fu_data u)"
    by (rule ext)
qed

lemma notification_step:
  assumes "friends_sound s"
  shows "friends_sound (onFriendNotification u s)" and "live_friends (onFriendNotification u s) = apply_update u (live_friends s)"
  using remove_step [OF assms, of u] add_step [OF assms, of u]
    update_step [OF assms, where g = "onFriendUpdate u" and i = "fu_itemId u" and f = "copy_update (fu_data u)"]
    update_step [OF assms, where g = "onFriendUpdateStatus u" and i = "fu_itemId u"
      and f = "\<lambda>f. f\<lparr>fd_status := fd_status (fu_data u)\<rparr>"] assms
  by (simp_all add: onFriendNotification_def apply_update_def onFriendUpdate_def [abs_def] onFriendUpdateStatus_def [abs_def])

lemma notifications_step:
  "friends_sound s \<Longrightarrow> friends_sound (fold onFriendNotification us s)
     \<and> live_friends (fold onFriendNotification us s) = fold apply_update us (live_friends s)"
  by (induction us arbitrary: s) (simp_all add: notification_step)

definition same_shown :: "(string \<rightharpoonup> friend) \<Rightarrow> (string \<rightharpoonup> friend) \<Rightarrow> bool" where
  "same_shown m l \<longleftrightarrow>
     (\<forall>i. rel_option (\<lambda>f g. fd_userId f = fd_userId g \<and> fd_details f = fd_details g \<and>
        fd_lastConnected f = fd_lastConnected g \<and> fd_status f = fd_status g) (m i) (l i))"

lemma apply_update_at:
  "fu_itemId u \<noteq> i \<Longrightarrow> apply_update u m i = m i"
  "fu_itemId u = i \<Longrightarrow> apply_update u m i =
     (if fu_operation u = ''remove'' then None
      else if fu_operation u = ''update'' then map_option (copy_update (fu_data u)) (m i)
      else if fu_operation u = ''add'' then Some (fu_data u)
      else if fu_operation u = ''update.status'' then map_option (\<lambda>f. f\<lparr>fd_status := fd_status (fu_data u)\<rparr>) (m i)
      else m i)"
  by (simp_all add: apply_update_def)

lemma serve_update_at:
  "fu_itemId u \<noteq> i \<Longrightarrow> serve_update u m i = m i"
  "fu_itemId u = i \<Longrightarrow> serve_update u m i =
     (if fu_operation u = ''remove'' then None
      else if fu_operation u = ''update'' then map_option (\<lambda>_. fu_data u) (m i)
      else if fu_operation u = ''add'' then Some (fu_data u)
      else if fu_operation u = ''update.status'' then map_option (\<lambda>f. f\<lparr>fd_status := fd_status (fu_data u)\<rparr>) (m i)
      else m i)"
  by (cases "m i"; simp add: serve_update_def Let_def domIff)+

lemma shown_step:
  assumes "same_shown m l"
  shows "same_shown (apply_update u m) (serve_update u l)"
  unfolding same_shown_def
proof
  fix i
  let ?r = "rel_option (\<lambda>f g. fd_userId f = fd_userId g \<and> fd_details f = fd_details g \<and>
      fd_lastConnected f = fd_lastConnected g \<and> fd_status f = fd_status g)"
  have r: "?r (m i) (l i)" using assms by (simp add: same_shown_def)
  show "?r (apply_update u m i) (serve_update u l i)"
  proof (cases "fu_itemId u = i")
    case True
    then show ?thesis
      unfolding apply_update_at(2) [OF True] serve_update_at(2) [OF True]
      using r by (cases "m i"; cases "l i") (simp_all add: copy_update_def)
  qed (use r in \<open>simp add: apply_update_at(1) serve_update_at(1)\<close>)
qed

lemma shown_run: "same_shown (fold apply_update us Map.empty) (server_list us)"
proof -
  have "same_shown (fold apply_update us m) (fold serve_update us l)" if "same_shown m l" for m l
    using that by (induction us arbitrary: m l) (simp_all add: shown_step)
  then show ?thesis by (simp add: server_list_def same_shown_def)
qed

lemma tags_run:
  "fold apply_update us Map.empty i = Some f \<Longrightarrow> \<exists>u. last_add us i = Some u \<and> fd_tags f = fd_tags (fu_data u)"
proof (induction us arbitrary: f rule: rev_induct)
  case (snoc u us)
  let ?m = "fold apply_update us Map.empty"
  have l: "last_add (us @ [u]) i = (if fu_operation u = ''add'' \<and> fu_itemId u = i then Some u else last_add us i)"
    by (simp add: last_add_def)
  show ?case
  proof (cases "fu_itemId u = i \<and> fu_operation u = ''add''")
    case True
    then show ?thesis using snoc.prems l by (simp add: apply_update_def)
  next
    case False
    have "apply_update u ?m i = Some f" using snoc.prems by simp
    then have "\<exists>g. ?m i = Some g \<and> fd_tags f = fd_tags g"
      using False by (cases "fu_itemId u = i") (auto simp: apply_update_at copy_update_def split: if_splits)
    then show ?thesis using snoc.IH l False by auto
  qed
qed simp

text \<open>
  Property C39. The friends a client sees follow the list that the server describes: after any
  notifications, of known and unknown items and in any order, the entries that are not null are
  those of the list, with the user, details, time and status the list has; each is an object of
  its own. The tags are the exception: they are those of the addition that brought the item last,
  whatever the updates since then said.
\<close>

theorem friends_refine_list:
  assumes "s = fold onFriendNotification us FriendsService"
  shows "(\<forall>i. map_option (\<lambda>f. (fd_userId f, fd_details f, fd_lastConnected f, fd_status f)) (live_friends s i) =
       map_option (\<lambda>f. (fd_userId f, fd_details f, fd_lastConnected f, fd_status f)) (server_list us i))
   \<and> (\<forall>i f. live_friends s i = Some f \<longrightarrow> (\<exists>u. last_add us i = Some u \<and> fd_tags f = fd_tags (fu_data u)))
   \<and> (\<forall>i p. fs_friends s i = Some (Some p) \<longrightarrow> p < length (fs_store s))
   \<and> (\<forall>i j p. fs_friends s i = Some (Some p) \<and> fs_friends s j = Some (Some p) \<longrightarrow> i = j)"
proof -
  have "friends_sound FriendsService" "live_friends FriendsService = Map.empty"
    by (simp_all add: friends_sound_def FriendsService_def live_friends_def fun_eq_iff)
  then have r: "live_friends s = fold apply_update us Map.empty" "friends_sound s"
    using notifications_step [of FriendsService us] by (simp_all add: assms)
  have "map_option (\<lambda>f. (fd_userId f, fd_details f, fd_lastConnected f, fd_status f)) (live_friends s i) =
      map_option (\<lambda>f. (fd_userId f, fd_details f, fd_lastConnected f, fd_status f)) (server_list us i)" for i
    using shown_run [of us, unfolded same_shown_def, rule_format, of i]
    by (cases "live_friends s i"; cases "server_list us i") (simp_all add: r(1))
  moreover have "\<exists>u. last_add us i = Some u \<and> fd_tags f = fd_tags (fu_data u)" if "live_friends s i = Some f" for i f
    using tags_run that by (simp add: r(1))
  ultimately show ?thesis using r(2) unfolding friends_sound_def by blast
qed

definition demo_friend :: "string \<Rightarrow> string \<Rightarrow> int \<Rightarrow> string list \<Rightarrow> friend_update" where
  "demo_friend op details status tags = \<lparr>fu_itemId = ''i'', fu_operation = op,
     fu_data = \<lparr>fd_userId = ''u'', fd_details = details, fd_lastConnected = 0, fd_status = status, fd_tags = tags\<rparr>\<rparr>"

lemma friends_refine_list_witness:
  "map_option fd_details (live_friends (fold onFriendNotification [demo_friend ''add'' ''a'' 0 [''x''],
      demo_friend ''update'' ''b'' 1 [''y''], demo_friend ''update.status'' ''c'' 2 [''z'']] FriendsService) ''i'') = Some ''b'' \<and>
   map_option fd_status (live_friends (fold onFriendNotification [demo_friend ''add'' ''a'' 0 [''x''],
      demo_friend ''update'' ''b'' 1 [''y''], demo_friend ''update.status'' ''c'' 2 [''z'']] FriendsService) ''i'') = Some 2 \<and>
   map_option fd_tags (live_friends (fold onFriendNotification [demo_friend ''add'' ''a'' 0 [''x''],
      demo_friend ''update'' ''b'' 1 [''y''], demo_friend ''update.status'' ''c'' 2 [''z'']] FriendsService) ''i'') = Some [''x'']"
proof -
  let ?us = "[demo_friend ''add'' ''a'' 0 [''x''], demo_friend ''update'' ''b'' 1 [''y''], demo_friend ''update.status'' ''c'' 2 [''z'']]"
  define s where "s = fold onFriendNotification ?us FriendsService"
  have l: "server_list ?us ''i'' = Some \<lparr>fd_userId = ''u'', fd_details = ''b'', fd_lastConnected = 0, fd_status = 2, fd_tags = [''y'']\<rparr>"
    "last_add ?us ''i'' = Some (demo_friend ''add'' ''a'' 0 [''x''])"
    by (simp_all add: server_list_def serve_update_def last_add_def demo_friend_def)
  note th = friends_refine_list [OF s_def]
  obtain f where f: "live_friends s ''i'' = Some f" "fd_details f = ''b''" "fd_status f = 2"
    using th [THEN conjunct1, rule_format, of "''i''"] l(1) by auto
  moreover have "fd_tags f = [''x'']"
    using th [THEN conjunct2, THEN conjunct1, rule_format, OF f(1)] l(2) by (auto simp: demo_friend_def)
  ultimately show ?thesis by (simp add: s_def)
qed

text \<open>
  An update or a removal of an item the client does not have leaves a null entry in the map, which
  \<^verbatim>\<open>friends()\<close> returns.
\<close>

lemma unknown_friend_null:
  assumes "fs_friends s (fu_itemId u) = None" and "fu_operation u \<in> {''remove'', ''update'', ''update.status''}"
  shows "friends_of [] (onFriendNotification u s) (fu_itemId u) = Some None"
    and "look_at (onFriendNotification u s) (friends_of [] (onFriendNotification u s)) (fu_itemId u) = Some None"
    and "fs_events (onFriendNotification u s) = fs_events s"
  using assms by (auto simp: onFriendNotification_def onFriendRemove_def onFriendUpdate_def onFriendUpdateStatus_def
      friend_at_def friends_of_def look_at_def)

lemma removal_says_added:
  assumes "fs_friends s (fu_itemId u) = Some (Some p)" and "fu_operation u = ''remove''"
  shows "fs_events (onFriendNotification u s) = fs_events s @ [(FriendAdd, p)]"
    and "fs_friends (onFriendNotification u s) (fu_itemId u) = None"
  using assms by (simp_all add: onFriendNotification_def onFriendRemove_def friend_at_def friend_event_def)

lemma no_removal_events:
  "list_all (\<lambda>e. fst e \<noteq> FriendRemove) (fs_events s) \<Longrightarrow>
     list_all (\<lambda>e. fst e \<noteq> FriendRemove) (fs_events (onFriendNotification u s))"
  by (cases rule: friend_at_cases [of "fu_itemId u" s])
    (auto simp: onFriendNotification_def onFriendRemove_def onFriendUpdate_def onFriendUpdateStatus_def onFriendAdd_def
      Let_def friend_event_def set_friend_def)

text \<open>While it is subscribed, the API raises what the service raises, in order; after the clean-up, nothing.\<close>

lemma notification_events:
  "\<exists>new. fs_events (onFriendNotification u s) = fs_events s @ new"
  by (cases rule: friend_at_cases [of "fu_itemId u" s])
    (auto simp: onFriendNotification_def onFriendRemove_def onFriendUpdate_def onFriendUpdateStatus_def onFriendAdd_def
      Let_def friend_event_def set_friend_def)

lemma api_follows_service:
  assumes "fa_subscribed a" and "fa_events a = old @ fs_events (fa_service a)"
  shows "fa_events (fold api_notified us a) = old @ fs_events (fa_service (fold api_notified us a))"
  using assms
proof (induction us arbitrary: a)
  case (Cons u us)
  obtain new where "fs_events (onFriendNotification u (fa_service a)) = fs_events (fa_service a) @ new"
    using notification_events by blast
  then show ?case
    using Cons.prems Cons.IH [of "api_notified u a"] by (simp add: api_notified_def Let_def)
qed simp

lemma no_events_after_cleanup: "fa_events (fold api_notified us (friends_cleanup a)) = fa_events a"
proof -
  have "\<not> fa_subscribed b \<Longrightarrow> fa_events (fold api_notified us b) = fa_events b" for b
    by (induction us arbitrary: b) (simp_all add: api_notified_def Let_def)
  then show ?thesis
    by (simp add: friends_cleanup_def)
qed

text \<open>The map that \<^verbatim>\<open>friends()\<close> has returned changes with later notifications: it points to the same objects.\<close>

lemma returned_friends_change:
  assumes "friends_sound s" and "fs_friends s (fu_itemId u) = Some (Some p)" and "fu_operation u = ''update.status''"
  shows "look_at (onFriendNotification u s) (friends_of [] s) (fu_itemId u)
    = Some (Some ((fs_store s ! p)\<lparr>fd_status := fd_status (fu_data u)\<rparr>))"
  using assms by (auto simp: onFriendNotification_def onFriendUpdateStatus_def friend_at_def friend_event_def set_friend_def
      look_at_def friends_of_def friends_sound_def)

text \<open>An update does not bring new tags.\<close>

lemma update_keeps_tags: "fd_tags (copy_update d f) = fd_tags f"
  by (simp add: copy_update_def)

end
