(* ===== verification/Pings.thy ===== *)
theory Pings
  imports Prelude
begin

text \<open>
  Pinging an address (\<^verbatim>\<open>sendPing\<close> with retries and the answer to a ping in
  \<^verbatim>\<open>RakNet/RakNetTransport.cpp\<close>; the queue of the packets that go out is in Transport). Calls are
  numbered; the map from addresses to pending pings holds the number of the call whose completion
  event it has.
\<close>

section \<open>State\<close>

text \<open>
  \<open>pg_sent\<close> are the results of the packets of a call, \<open>pg_event\<close> is the completion event, \<open>pg_answer\<close>
  what the caller got.
\<close>

record ping_call =
  pg_address :: string
  pg_sent :: "bool option list"
  pg_event :: "int option"
  pg_answer :: "int option"

record pings =
  pp_pending :: "string \<rightharpoonup> nat"
  pp_calls :: "ping_call list"

definition no_pings :: pings where
  "no_pings = \<lparr>pp_pending = Map.empty, pp_calls = []\<rparr>"

definition upd_ping :: "nat \<Rightarrow> (ping_call \<Rightarrow> ping_call) \<Rightarrow> pings \<Rightarrow> pings" where
  "upd_ping n f w = w\<lparr>pp_calls := (pp_calls w)[n := f (pp_calls w ! n)]\<rparr>"

text \<open>Setting a completion event a second time does nothing.\<close>

definition set_ping_event :: "int \<Rightarrow> ping_call \<Rightarrow> ping_call" where
  "set_ping_event v c = c\<lparr>pg_event := (case pg_event c of None \<Rightarrow> Some v | Some x \<Rightarrow> Some x)\<rparr>"

section \<open>Operations\<close>

text \<open>\<^verbatim>\<open>sendPing\<close> with \<^term>\<open>nb\<close> packets, the one at \<^term>\<open>i\<close> after \<^term>\<open>300 * i\<close> milliseconds.\<close>

definition sendPing :: "string \<Rightarrow> nat \<Rightarrow> pings \<Rightarrow> nat \<times> pings" where
  "sendPing address nb w =
     (let n = length (pp_calls w)
      in (n, \<lparr>pp_pending = emplace address n (pp_pending w),
              pp_calls = pp_calls w @ [\<lparr>pg_address = address, pg_sent = replicate nb None,
                  pg_event = (if nb = 0 then Some (- 1) else None), pg_answer = None\<rparr>]\<rparr>))"

definition sendPing_default :: "string \<Rightarrow> pings \<Rightarrow> nat \<times> pings" where
  "sendPing_default address w = sendPing address 2 w"

definition ping_delay :: "nat \<Rightarrow> nat" where
  "ping_delay i = 300 * i"

definition ping_timeout_ms :: nat where
  "ping_timeout_ms = 1500"

text \<open>Packet \<^term>\<open>i\<close> has gone out or not; when none of them has, the event is set to -1.\<close>

definition packet_sent :: "nat \<Rightarrow> nat \<Rightarrow> bool \<Rightarrow> pings \<Rightarrow> pings" where
  "packet_sent n i ok w =
     (if n < length (pp_calls w) \<and> i < length (pg_sent (pp_calls w ! n)) \<and> pg_sent (pp_calls w ! n) ! i = None
      then upd_ping n
             (\<lambda>c. let c1 = c\<lparr>pg_sent := (pg_sent c)[i := Some ok]\<rparr>
                  in if list_all (\<lambda>r. r = Some False) (pg_sent c1) then set_ping_event (- 1) c1 else c1) w
      else w)"

text \<open>A pong from an address, with the time of its way.\<close>

definition pong :: "string \<Rightarrow> int \<Rightarrow> pings \<Rightarrow> pings" where
  "pong address ms w =
     (case pp_pending w address of None \<Rightarrow> w | Some n \<Rightarrow> upd_ping n (set_ping_event ms) w)"

text \<open>
  The end of a call, by its event or by the timeout: the entry of its address is erased, whosever it is,
  and a canceled event means -1.
\<close>

definition ping_ended :: "nat \<Rightarrow> bool \<Rightarrow> pings \<Rightarrow> pings" where
  "ping_ended n timeout w =
     (if n < length (pp_calls w) \<and> pg_answer (pp_calls w ! n) = None
      then (case pg_event (pp_calls w ! n) of
              Some v \<Rightarrow>
                upd_ping n (\<lambda>c. c\<lparr>pg_answer := Some v\<rparr>)
                  (w\<lparr>pp_pending := (pp_pending w)(pg_address (pp_calls w ! n) := None)\<rparr>)
            | None \<Rightarrow>
                if timeout
                then upd_ping n (\<lambda>c. c\<lparr>pg_answer := Some (- 1)\<rparr>)
                       (w\<lparr>pp_pending := (pp_pending w)(pg_address (pp_calls w ! n) := None)\<rparr>)
                else w)
      else w)"

datatype ping_action =
    SendPing string nat
  | PacketSent nat nat bool
  | Pong string int
  | PingEnded nat bool

fun ping_act :: "ping_action \<Rightarrow> pings \<Rightarrow> pings" where
  "ping_act (SendPing a nb) w = snd (sendPing a nb w)"
| "ping_act (PacketSent n i ok) w = packet_sent n i ok w"
| "ping_act (Pong a ms) w = pong a ms w"
| "ping_act (PingEnded n t) w = ping_ended n t w"

definition ping_run :: "ping_action list \<Rightarrow> pings \<Rightarrow> pings" where
  "ping_run acts w = fold ping_act acts w"

lemma ping_run_simps [simp]:
  "ping_run [] w = w" "ping_run (a # acts) w = ping_run acts (ping_act a w)"
  by (simp_all add: ping_run_def)

section \<open>One ping\<close>

lemma ping_answered:
  assumes "pp_pending w a = None" and "n = length (pp_calls w)" and "0 < nb"
    and "v = ping_run [SendPing a nb, PacketSent n 0 True, Pong a ms, Pong a ms', PingEnded n False] w"
  shows "pg_answer (pp_calls v ! n) = Some ms" and "pp_pending v a = None"
  using assms by (cases nb; simp add: sendPing_def Let_def packet_sent_def upd_ping_def pong_def set_ping_event_def ping_ended_def)+

lemma unreachable_address:
  assumes "n = length (pp_calls w)"
    and "v = ping_run [SendPing a 2, PacketSent n 0 False, PacketSent n 1 False, PingEnded n False] w"
  shows "pg_answer (pp_calls v ! n) = Some (- 1)"
  using assms
  by (simp add: sendPing_def Let_def packet_sent_def upd_ping_def set_ping_event_def ping_ended_def numeral_2_eq_2)

text \<open>A call ends at the timeout at the latest.\<close>

lemma ping_ends:
  assumes "n < length (pp_calls w)"
  shows "pg_answer (pp_calls (ping_ended n True w) ! n) \<noteq> None"
  using assms by (auto simp: ping_ended_def upd_ping_def split: option.split)

section \<open>Two pings\<close>

text \<open>A call that the map does not know can be answered with -1 only.\<close>

definition unlisted :: "nat \<Rightarrow> pings \<Rightarrow> bool" where
  "unlisted m w \<longleftrightarrow>
     m < length (pp_calls w) \<and> (\<forall>a. pp_pending w a \<noteq> Some m)
     \<and> pg_event (pp_calls w ! m) \<in> {None, Some (- 1)} \<and> pg_answer (pp_calls w ! m) \<in> {None, Some (- 1)}"

lemma unlisted_upd:
  assumes "unlisted m w" and "n = m \<Longrightarrow> pg_event (f (pp_calls w ! m)) \<in> {None, Some (- 1)} \<and> pg_answer (f (pp_calls w ! m)) \<in> {None, Some (- 1)}"
  shows "unlisted m (upd_ping n f w)"
  using assms by (cases "n = m") (auto simp: unlisted_def upd_ping_def)

lemma unlisted_erase: "unlisted m w \<Longrightarrow> unlisted m (w\<lparr>pp_pending := (pp_pending w)(a := None)\<rparr>)"
  by (auto simp: unlisted_def)

lemma unlisted_send: "unlisted m w \<Longrightarrow> unlisted m (snd (sendPing a nb w))"
  by (auto simp: unlisted_def sendPing_def Let_def nth_append emplace_def split: option.split)

lemma unlisted_packet: "unlisted m w \<Longrightarrow> unlisted m (packet_sent n i ok w)"
proof (cases "n < length (pp_calls w) \<and> i < length (pg_sent (pp_calls w ! n)) \<and> pg_sent (pp_calls w ! n) ! i = None")
  case True
  assume u: "unlisted m w"
  have "unlisted m (upd_ping n (\<lambda>c. let c1 = c\<lparr>pg_sent := (pg_sent c)[i := Some ok]\<rparr>
      in if list_all (\<lambda>r. r = Some False) (pg_sent c1) then set_ping_event (- 1) c1 else c1) w)"
    by (rule unlisted_upd [OF u]) (use u in \<open>auto simp: unlisted_def Let_def set_ping_event_def split: option.split\<close>)
  then show ?thesis
    using True by (simp add: packet_sent_def)
qed (auto simp: packet_sent_def)

lemma unlisted_pong: "unlisted m w \<Longrightarrow> unlisted m (pong a ms w)"
proof (cases "pp_pending w a")
  case (Some n)
  assume u: "unlisted m w"
  then have "n \<noteq> m"
    using Some by (auto simp: unlisted_def)
  then show ?thesis
    using Some unlisted_upd [OF u] by (simp add: pong_def)
qed (simp add: pong_def)

lemma unlisted_ended: "unlisted m w \<Longrightarrow> unlisted m (ping_ended n t w)"
proof (cases "n < length (pp_calls w) \<and> pg_answer (pp_calls w ! n) = None")
  case True
  assume u: "unlisted m w"
  let ?e = "w\<lparr>pp_pending := (pp_pending w)(pg_address (pp_calls w ! n) := None)\<rparr>"
  have e: "unlisted m ?e"
    by (rule unlisted_erase [OF u])
  have a: "unlisted m (upd_ping n (\<lambda>c. c\<lparr>pg_answer := Some v\<rparr>) ?e)"
    if "pg_event (pp_calls w ! n) = Some v \<or> v = - 1" for v
    by (rule unlisted_upd [OF e]) (use that u in \<open>auto simp: unlisted_def\<close>)
  show ?thesis
    using True a u by (auto simp: ping_ended_def split: option.split)
qed (auto simp: ping_ended_def)

lemma unlisted_run: "unlisted m w \<Longrightarrow> unlisted m (ping_run acts w)"
proof (induction acts arbitrary: w)
  case (Cons b acts)
  have "unlisted m (ping_act b w)"
    using Cons.prems by (cases b) (simp_all add: unlisted_send unlisted_packet unlisted_pong unlisted_ended)
  then show ?case
    using Cons.IH by simp
qed simp

text \<open>
  A ping to an address that is being pinged already fails whatever the network does: its
  completion event is not in the map, so no pong reaches it, and its caller gets -1 if anything.
\<close>

lemma second_ping_fails:
  assumes "pp_pending w a = Some k" and "k < length (pp_calls w)" and "m = length (pp_calls w)"
    and "\<forall>b. pp_pending w b \<noteq> Some m"
    and "v = ping_run (SendPing a nb # acts) w"
  shows "pg_answer (pp_calls v ! m) = None \<or> pg_answer (pp_calls v ! m) = Some (- 1)"
proof -
  have "unlisted m (snd (sendPing a nb w))"
    using assms(1-4) by (auto simp: unlisted_def sendPing_def Let_def)
  then have "unlisted m v"
    unfolding assms(5) using unlisted_run [of m "ping_act (SendPing a nb) w" acts] by simp
  then show ?thesis
    by (auto simp: unlisted_def)
qed

lemma second_ping_example:
  "pg_answer (pp_calls (ping_run (SendPing ''h:1'' 2 # [PacketSent 1 0 True, Pong ''h:1'' 20, PingEnded 0 False, PingEnded 1 True])
      (ping_run [SendPing ''h:1'' 2] no_pings)) ! 1) = None
   \<or> pg_answer (pp_calls (ping_run (SendPing ''h:1'' 2 # [PacketSent 1 0 True, Pong ''h:1'' 20, PingEnded 0 False, PingEnded 1 True])
      (ping_run [SendPing ''h:1'' 2] no_pings)) ! 1) = Some (- 1)"
  by (rule second_ping_fails [OF _ _ _ _ refl, where k = 0]) (simp_all add: sendPing_def no_pings_def)

end
