(* ===== verification/Events.thy ===== *)
theory Events
  imports Prelude
begin

text \<open>
  Events, actions and subscriptions (\<^verbatim>\<open>Event.h\<close>, \<^verbatim>\<open>Action.h\<close>, \<^verbatim>\<open>Subscription.cpp\<close>). An event or action
  object holds a shared list of functions, and its copies share that list; a subscription erases its
  node from the list when it is released. Lists, nodes, objects and subscriptions are numbered.
  Functions are numbers too, and a program of actions says what a function does when it is called,
  which may be anything a program can do with events, calling them included.
\<close>

section \<open>State\<close>

datatype event_object = Holds nat | MovedFrom | Destroyed

text \<open>
  \<open>ev_lists\<close> are the shared lists of nodes, each with its function. A subscription is the list and the node
  its callback erases, nothing when the callback has been reset. Erasing a node that is not in its list
  any more, or a node of a list that no object holds any more, is undefined, and so is the use of an
  object that holds no list; the flags \<open>ev_bad_erase\<close> and \<open>ev_bad_use\<close> say that this has happened.
  \<open>ev_log\<close> are the calls. What the destructors of the state a function has captured do is not modelled.
\<close>

record events =
  ev_lists :: "(nat \<times> nat) list list"
  ev_next :: nat
  ev_objects :: "event_object list"
  ev_subs :: "(nat \<times> nat) option list"
  ev_bad_erase :: bool
  ev_bad_use :: bool
  ev_log :: "nat list"

definition no_events :: events where
  "no_events = \<lparr>ev_lists = [], ev_next = 0, ev_objects = [], ev_subs = [], ev_bad_erase = False, ev_bad_use = False,
     ev_log = []\<rparr>"

definition list_of :: "nat \<Rightarrow> events \<Rightarrow> nat option" where
  "list_of e w =
     (if e < length (ev_objects w) then (case ev_objects w ! e of Holds c \<Rightarrow> Some c | MovedFrom \<Rightarrow> None | Destroyed \<Rightarrow> None)
      else None)"

text \<open>A shared list lives as long as an object holds it.\<close>

definition list_alive :: "nat \<Rightarrow> events \<Rightarrow> bool" where
  "list_alive c w \<longleftrightarrow> Holds c \<in> set (ev_objects w)"

definition nodes_of :: "nat \<Rightarrow> events \<Rightarrow> (nat \<times> nat) list" where
  "nodes_of c w = ev_lists w ! c"

definition set_nodes :: "nat \<Rightarrow> (nat \<times> nat) list \<Rightarrow> events \<Rightarrow> events" where
  "set_nodes c ns w = w\<lparr>ev_lists := (ev_lists w)[c := ns]\<rparr>"

definition bad_use :: "events \<Rightarrow> events" where
  "bad_use w = w\<lparr>ev_bad_use := True\<rparr>"

definition with_list :: "nat \<Rightarrow> (nat \<Rightarrow> events \<Rightarrow> events) \<Rightarrow> events \<Rightarrow> events" where
  "with_list e f w = (case list_of e w of None \<Rightarrow> bad_use w | Some c \<Rightarrow> f c w)"

lemma list_of_frame [simp]:
  "list_of e (w\<lparr>ev_lists := x\<rparr>) = list_of e w" "list_of e (w\<lparr>ev_next := k\<rparr>) = list_of e w"
  "list_of e (w\<lparr>ev_subs := y\<rparr>) = list_of e w" "list_of e (set_nodes c ns w) = list_of e w"
  by (simp_all add: list_of_def set_nodes_def)

lemma with_list_Some [simp]: "list_of e w = Some c \<Longrightarrow> with_list e f w = f c w"
  and with_list_None [simp]: "list_of e w = None \<Longrightarrow> with_list e f w = bad_use w"
  by (simp_all add: with_list_def)

section \<open>Objects\<close>

definition new_event :: "events \<Rightarrow> nat \<times> events" where
  "new_event w =
     (length (ev_objects w),
      w\<lparr>ev_lists := ev_lists w @ [[]], ev_objects := ev_objects w @ [Holds (length (ev_lists w))]\<rparr>)"

text \<open>The copy holds the same list; a moved object is left without one.\<close>

definition copy_event :: "nat \<Rightarrow> events \<Rightarrow> events" where
  "copy_event e w = with_list e (\<lambda>c w. w\<lparr>ev_objects := ev_objects w @ [Holds c]\<rparr>) w"

definition move_event :: "nat \<Rightarrow> events \<Rightarrow> events" where
  "move_event e w = with_list e (\<lambda>c w. w\<lparr>ev_objects := (ev_objects w)[e := MovedFrom] @ [Holds c]\<rparr>) w"

definition assign_event :: "nat \<Rightarrow> nat \<Rightarrow> events \<Rightarrow> events" where
  "assign_event e other w =
     (if e < length (ev_objects w) \<and> ev_objects w ! e \<noteq> Destroyed
      then with_list other (\<lambda>c w. w\<lparr>ev_objects := (ev_objects w)[e := Holds c]\<rparr>) w
      else bad_use w)"

definition destroy_event :: "nat \<Rightarrow> events \<Rightarrow> events" where
  "destroy_event e w =
     (if e < length (ev_objects w) \<and> ev_objects w ! e \<noteq> Destroyed
      then w\<lparr>ev_objects := (ev_objects w)[e := Destroyed]\<rparr> else bad_use w)"

section \<open>Events\<close>

definition subscribe :: "nat \<Rightarrow> nat \<Rightarrow> events \<Rightarrow> events" where
  "subscribe e f w =
     with_list e
       (\<lambda>c w. (set_nodes c (nodes_of c w @ [(ev_next w, f)]) w)
           \<lparr>ev_next := Suc (ev_next w), ev_subs := ev_subs w @ [Some (c, ev_next w)]\<rparr>) w"

definition hasSubscribers :: "nat \<Rightarrow> events \<Rightarrow> bool" where
  "hasSubscribers e w = (case list_of e w of None \<Rightarrow> False | Some c \<Rightarrow> 0 < length (nodes_of c w))"

text \<open>The erasure by an iterator: its list must be there, and the node in it.\<close>

definition erase_node :: "nat \<Rightarrow> nat \<Rightarrow> events \<Rightarrow> events" where
  "erase_node c k w =
     (if list_alive c w \<and> k \<in> fst ` set (nodes_of c w) then set_nodes c (filter (\<lambda>n. fst n \<noteq> k) (nodes_of c w)) w
      else w\<lparr>ev_bad_erase := True\<rparr>)"

text \<open>
  \<^verbatim>\<open>Subscription_impl::unsubscribe\<close>, also what the destructor does: the callback erases the node if the list
  is alive, then it is reset.
\<close>

definition unsubscribe :: "nat \<Rightarrow> events \<Rightarrow> events" where
  "unsubscribe n w =
     (if n < length (ev_subs w)
      then (case ev_subs w ! n of
              None \<Rightarrow> w
            | Some (c, k) \<Rightarrow> (if list_alive c w then erase_node c k w else w)\<lparr>ev_subs := (ev_subs w)[n := None]\<rparr>)
      else bad_use w)"

section \<open>Actions\<close>

definition new_action :: "nat \<Rightarrow> events \<Rightarrow> events" where
  "new_action f w =
     w\<lparr>ev_lists := ev_lists w @ [[(ev_next w, f)]], ev_next := Suc (ev_next w),
       ev_objects := ev_objects w @ [Holds (length (ev_lists w))]\<rparr>"

text \<open>The assignment of a function clears the shared list.\<close>

definition action_assign :: "nat \<Rightarrow> nat \<Rightarrow> events \<Rightarrow> events" where
  "action_assign e f w =
     with_list e (\<lambda>c w. (set_nodes c [(ev_next w, f)] w)\<lparr>ev_next := Suc (ev_next w)\<rparr>) w"

definition action_push_back :: "nat \<Rightarrow> nat \<Rightarrow> events \<Rightarrow> events" where
  "action_push_back e f w =
     with_list e (\<lambda>c w. (set_nodes c (nodes_of c w @ [(ev_next w, f)]) w)\<lparr>ev_next := Suc (ev_next w)\<rparr>) w"

definition action_push_front :: "nat \<Rightarrow> nat \<Rightarrow> events \<Rightarrow> events" where
  "action_push_front e f w =
     with_list e (\<lambda>c w. (set_nodes c ((ev_next w, f) # nodes_of c w) w)\<lparr>ev_next := Suc (ev_next w)\<rparr>) w"

definition action_erase :: "nat \<Rightarrow> nat \<Rightarrow> events \<Rightarrow> events" where
  "action_erase e k w = with_list e (\<lambda>c. erase_node c k) w"

definition action_clear :: "nat \<Rightarrow> events \<Rightarrow> events" where
  "action_clear e w = with_list e (\<lambda>c. set_nodes c []) w"

definition action_size :: "nat \<Rightarrow> events \<Rightarrow> nat" where
  "action_size e w = (case list_of e w of None \<Rightarrow> 0 | Some c \<Rightarrow> length (nodes_of c w))"

section \<open>Programs\<close>

text \<open>What code does with events; \<open>Raise\<close> throws.\<close>

datatype event_act =
    NewEvent
  | CopyEvent nat
  | MoveEvent nat
  | AssignEvent nat nat
  | DestroyEvent nat
  | Subscribe nat nat
  | Unsubscribe nat
  | Trigger nat
  | Raise storm_exn

text \<open>
  The call of an event calls the functions of a copy of its list, until one throws. \<open>depth\<close> bounds the
  nesting of calls, as the stack does; a call beyond it ends the program, for which an exception stands.
\<close>

fun event_step :: "(nat \<Rightarrow> events \<Rightarrow> storm_exn option \<times> events) \<Rightarrow> event_act \<Rightarrow> events \<Rightarrow> storm_exn option \<times> events" where
  "event_step call NewEvent w = (None, snd (new_event w))"
| "event_step call (CopyEvent e) w = (None, copy_event e w)"
| "event_step call (MoveEvent e) w = (None, move_event e w)"
| "event_step call (AssignEvent e e') w = (None, assign_event e e' w)"
| "event_step call (DestroyEvent e) w = (None, destroy_event e w)"
| "event_step call (Subscribe e f) w = (None, subscribe e f w)"
| "event_step call (Unsubscribe n) w = (None, unsubscribe n w)"
| "event_step call (Trigger e) w = call e w"
| "event_step call (Raise x) w = (Some x, w)"

fun each :: "('a \<Rightarrow> 's \<Rightarrow> storm_exn option \<times> 's) \<Rightarrow> 'a list \<Rightarrow> 's \<Rightarrow> storm_exn option \<times> 's" where
  "each f [] w = (None, w)"
| "each f (x # xs) w = (case f x w of (None, w') \<Rightarrow> each f xs w' | (Some ex, w') \<Rightarrow> (Some ex, w'))"

definition call_functions ::
    "(nat \<Rightarrow> events \<Rightarrow> storm_exn option \<times> events) \<Rightarrow> nat \<Rightarrow> events \<Rightarrow> storm_exn option \<times> events" where
  "call_functions body e w =
     (case list_of e w of
        None \<Rightarrow> (None, bad_use w)
      | Some c \<Rightarrow> each (\<lambda>n w. body (snd n) (w\<lparr>ev_log := ev_log w @ [snd n]\<rparr>)) (nodes_of c w) w)"

fun trigger :: "(nat \<Rightarrow> event_act list) \<Rightarrow> nat \<Rightarrow> nat \<Rightarrow> events \<Rightarrow> storm_exn option \<times> events" where
  "trigger scripts 0 e w = (Some (RuntimeError ''stack overflow''), w)"
| "trigger scripts (Suc depth) e w =
     call_functions (\<lambda>f. each (event_step (trigger scripts depth)) (scripts f)) e w"

definition event_run :: "(nat \<Rightarrow> event_act list) \<Rightarrow> nat \<Rightarrow> event_act list \<Rightarrow> events \<Rightarrow> storm_exn option \<times> events" where
  "event_run scripts depth = each (event_step (trigger scripts depth))"

section \<open>Subscriptions and nodes\<close>

text \<open>An invariant of the actions is one of runs.\<close>

lemma each_keeps:
  assumes "\<And>x w. x \<in> set xs \<Longrightarrow> P w \<Longrightarrow> P (snd (f x w))" and "P w"
  shows "P (snd (each f xs w))"
  using assms
proof (induction xs arbitrary: w)
  case (Cons x xs)
  have 1: "P (snd (f x w))"
    using Cons.prems by simp
  show ?case
  proof (cases "f x w")
    case (Pair ex w')
    then show ?thesis
      using 1 Cons.IH [of w'] Cons.prems(1) by (cases ex) simp_all
  qed
qed simp

lemma trigger_keeps:
  assumes "\<And>a call w. (\<And>e w. P w \<Longrightarrow> P (snd (call e w))) \<Longrightarrow> P w \<Longrightarrow> P (snd (event_step call a w))"
    and "\<And>w. P w \<Longrightarrow> P (bad_use w)" and "\<And>w f. P w \<Longrightarrow> P (w\<lparr>ev_log := ev_log w @ [f]\<rparr>)"
  shows "P w \<Longrightarrow> P (snd (trigger scripts depth e w))"
proof (induction depth arbitrary: e w)
  case (Suc depth)
  have body: "P (snd (each (event_step (trigger scripts depth)) acts v))" if "P v" for acts v
    by (rule each_keeps [where P = P, OF _ that]) (use assms(1) Suc.IH in blast)
  have "P (snd (each (\<lambda>n w. each (event_step (trigger scripts depth)) (scripts (snd n)) (w\<lparr>ev_log := ev_log w @ [snd n]\<rparr>)) ns w))"
    for ns :: "(nat \<times> nat) list"
    by (rule each_keeps [where P = P, OF _ Suc.prems]) (rule body, rule assms(3))
  then show ?case
    using Suc.prems assms(2) by (simp add: call_functions_def split: option.split)
qed simp

definition slots_of :: "nat \<Rightarrow> (nat \<times> nat) option list \<Rightarrow> nat list" where
  "slots_of c subs = map snd (filter (\<lambda>p. fst p = c) (List.map_filter id subs))"

lemma slots_of_simps [simp]:
  "slots_of c [] = []" "slots_of c (None # xs) = slots_of c xs"
  "slots_of c (Some p # xs) = (if fst p = c then [snd p] else []) @ slots_of c xs"
  "slots_of c (xs @ ys) = slots_of c xs @ slots_of c ys"
  by (simp_all add: slots_of_def map_filter_def)

lemma slots_of_set: "k \<in> set (slots_of c xs) \<longleftrightarrow> Some (c, k) \<in> set xs"
  by (induction xs rule: list.induct) (auto simp: slots_of_def map_filter_def, force)

lemma filter_map_fst: "map fst (filter (\<lambda>n. fst n \<noteq> k) ns) = filter (\<lambda>j. j \<noteq> k) (map fst ns)"
  by (induction ns) simp_all

text \<open>
  The nodes of a shared list that some object holds are those of the subscriptions to it that have not
  been released, in the order of subscription.
\<close>

definition events_ok :: "events \<Rightarrow> bool" where
  "events_ok w \<longleftrightarrow>
     \<not> ev_bad_erase w
     \<and> (\<forall>c. list_alive c w \<longrightarrow> c < length (ev_lists w) \<and> map fst (nodes_of c w) = slots_of c (ev_subs w))
     \<and> (\<forall>c k. Some (c, k) \<in> set (ev_subs w) \<longrightarrow> c < length (ev_lists w) \<and> k < ev_next w)
     \<and> distinct (map snd (List.map_filter id (ev_subs w)))"

lemma events_ok_same:
  assumes "events_ok w" and "ev_lists v = ev_lists w" "ev_subs v = ev_subs w" "ev_next v = ev_next w"
    and "ev_bad_erase v = ev_bad_erase w" and "\<And>c. list_alive c v \<Longrightarrow> list_alive c w"
  shows "events_ok v"
  using assms by (simp add: events_ok_def nodes_of_def)

lemma list_of_alive: "list_of e w = Some c \<Longrightarrow> list_alive c w"
  by (auto simp: list_of_def list_alive_def split: if_splits event_object.splits) (metis nth_mem)

lemma list_alive_nodes [simp]:
  "list_alive c (set_nodes c' ns w) = list_alive c w" "list_alive c (w\<lparr>ev_next := k\<rparr>) = list_alive c w"
  by (simp_all add: list_alive_def set_nodes_def)

lemma with_list_keeps:
  assumes "events_ok w" and "\<And>c. list_of e w = Some c \<Longrightarrow> list_alive c w \<Longrightarrow> events_ok (f c w)"
  shows "events_ok (with_list e f w)"
proof (cases "list_of e w")
  case None
  then show ?thesis
    using events_ok_same [OF assms(1), of "bad_use w"] by (simp add: bad_use_def list_alive_def)
next
  case (Some c)
  then show ?thesis
    using assms(2) list_of_alive by simp
qed

lemma bad_use_keeps: "events_ok w \<Longrightarrow> events_ok (bad_use w)"
  by (erule events_ok_same) (simp_all add: bad_use_def list_alive_def)

lemma log_keeps: "events_ok w \<Longrightarrow> events_ok (w\<lparr>ev_log := l\<rparr>)"
  by (erule events_ok_same) (simp_all add: list_alive_def)

lemma new_event_keeps:
  assumes "events_ok w"
  shows "events_ok (snd (new_event w))"
proof -
  have "k \<notin> set (slots_of (length (ev_lists w)) (ev_subs w))" for k
    using assms by (auto simp: events_ok_def slots_of_set)
  then have "slots_of (length (ev_lists w)) (ev_subs w) = []"
    using hd_in_set by blast
  then show ?thesis
    using assms by (auto simp: events_ok_def new_event_def list_alive_def nodes_of_def nth_append less_Suc_eq)
qed

lemma objects_keep:
  assumes "events_ok w" and "\<And>c. Holds c \<in> set os \<Longrightarrow> list_alive c w"
  shows "events_ok (w\<lparr>ev_objects := os\<rparr>)"
  by (rule events_ok_same [OF assms(1)]) (simp_all add: list_alive_def assms(2) [unfolded list_alive_def])

lemma object_steps_keep:
  assumes "events_ok w"
  shows "events_ok (copy_event e w)" "events_ok (move_event e w)" "events_ok (assign_event e e' w)" "events_ok (destroy_event e w)"
proof -
  show "events_ok (copy_event e w)"
    unfolding copy_event_def
    by (rule with_list_keeps [OF assms], rule objects_keep [OF assms]) (auto simp: list_alive_def)
  show "events_ok (move_event e w)"
    unfolding move_event_def
    by (rule with_list_keeps [OF assms], rule objects_keep [OF assms])
      (auto simp: list_alive_def dest!: set_update_subset_insert [THEN subsetD])
  have "events_ok (with_list e' (\<lambda>c w. w\<lparr>ev_objects := (ev_objects w)[e := Holds c]\<rparr>) w)"
    by (rule with_list_keeps [OF assms], rule objects_keep [OF assms])
      (auto simp: list_alive_def dest!: set_update_subset_insert [THEN subsetD])
  then show "events_ok (assign_event e e' w)"
    using bad_use_keeps [OF assms] by (simp add: assign_event_def)
  have "events_ok (w\<lparr>ev_objects := (ev_objects w)[e := Destroyed]\<rparr>)"
    by (rule objects_keep [OF assms]) (auto simp: list_alive_def dest!: set_update_subset_insert [THEN subsetD])
  then show "events_ok (destroy_event e w)"
    using bad_use_keeps [OF assms] by (simp add: destroy_event_def)
qed

lemma subscribe_keeps:
  assumes "events_ok w"
  shows "events_ok (subscribe e f w)"
  unfolding subscribe_def
proof (rule with_list_keeps [OF assms])
  fix c
  assume "list_of e w = Some c" and a: "list_alive c w"
  have c: "c < length (ev_lists w)"
    using assms a by (simp add: events_ok_def)
  have n: "Some (c', ev_next w) \<notin> set (ev_subs w)" for c'
    using assms by (auto simp: events_ok_def)
  show "events_ok ((set_nodes c (nodes_of c w @ [(ev_next w, f)]) w)
      \<lparr>ev_next := Suc (ev_next w), ev_subs := ev_subs w @ [Some (c, ev_next w)]\<rparr>)"
    using assms c n
    by (auto simp: events_ok_def set_nodes_def nodes_of_def list_alive_def nth_list_update less_Suc_eq map_filter_def)
qed

lemma unsubscribe_keeps:
  assumes "events_ok w"
  shows "events_ok (unsubscribe n w)"
proof (cases "n < length (ev_subs w) \<and> ev_subs w ! n \<noteq> None")
  case False
  then show ?thesis
    using assms bad_use_keeps [OF assms] by (cases "n < length (ev_subs w)"; cases "ev_subs w ! n") (simp_all add: unsubscribe_def)
next
  case True
  then obtain c k where p: "ev_subs w ! n = Some (c, k)"
    by (metis option.exhaust surj_pair)
  define xs ys where "xs = take n (ev_subs w)" and "ys = drop (Suc n) (ev_subs w)"
  have s: "ev_subs w = xs @ Some (c, k) # ys" and s': "(ev_subs w)[n := None] = xs @ None # ys"
    using True p id_take_nth_drop [of n "ev_subs w"] by (simp_all add: xs_def ys_def upd_conv_take_nth_drop)
  have dd: "distinct (map snd (List.map_filter id xs) @ k # map snd (List.map_filter id ys))"
    using assms by (simp add: events_ok_def s map_filter_def)
  have d: "k \<notin> set (slots_of c xs)" "k \<notin> set (slots_of c ys)"
    using dd by (auto simp: slots_of_def)
  have sl: "slots_of c (xs @ None # ys) = filter (\<lambda>j. j \<noteq> k) (slots_of c (ev_subs w))"
  proof -
    have f: "k \<notin> set js \<Longrightarrow> filter (\<lambda>j. j \<noteq> k) js = js" for js :: "nat list"
      by (induction js) auto
    show ?thesis
      using f [OF d(1)] f [OF d(2)] by (simp add: s)
  qed
  have sl': "slots_of c' (xs @ None # ys) = slots_of c' (ev_subs w)" if "c' \<noteq> c" for c'
    using that by (simp add: s)
  have b: "Some (c', k') \<in> set (ev_subs w)" if "Some (c', k') \<in> set (xs @ None # ys)" for c' k'
    using that by (auto simp: s)
  have ds: "distinct (map snd (List.map_filter id (xs @ None # ys)))"
    using assms by (auto simp: events_ok_def s map_filter_def)
  have bnd: "c' < length (ev_lists w) \<and> k' < ev_next w" if "Some (c', k') \<in> set (xs @ None # ys)" for c' k'
    using b [OF that] assms by (simp add: events_ok_def)
  have old: "c' < length (ev_lists w) \<and> map fst (nodes_of c' w) = slots_of c' (ev_subs w)" if "list_alive c' w" for c'
    using assms that by (simp add: events_ok_def)
  have main: "events_ok v"
    if "ev_subs v = xs @ None # ys" "\<And>c'. list_alive c' v = list_alive c' w" "length (ev_lists v) = length (ev_lists w)"
      "ev_next v = ev_next w" "\<not> ev_bad_erase v"
      "\<And>c'. list_alive c' w \<Longrightarrow> map fst (nodes_of c' v) = slots_of c' (xs @ None # ys)" for v
    unfolding events_ok_def that(1-4) using that(5,6) bnd old ds by blast
  show ?thesis
  proof (cases "list_alive c w")
    case False
    then have "unsubscribe n w = w\<lparr>ev_subs := xs @ None # ys\<rparr>"
      using True p s' by (simp add: unsubscribe_def)
    moreover have "events_ok (w\<lparr>ev_subs := xs @ None # ys\<rparr>)"
    proof (rule main)
      show "map fst (nodes_of c' (w\<lparr>ev_subs := xs @ None # ys\<rparr>)) = slots_of c' (xs @ None # ys)" if "list_alive c' w" for c'
        using old [OF that] sl' [of c'] that False by (cases "c' = c") (simp_all add: nodes_of_def)
    qed (use assms in \<open>simp_all add: list_alive_def events_ok_def\<close>)
    ultimately show ?thesis
      by simp
  next
    case al: True
    have nodes: "map fst (nodes_of c w) = slots_of c (ev_subs w)" and c: "c < length (ev_lists w)"
      using assms al by (simp_all add: events_ok_def)
    have "k \<in> fst ` set (nodes_of c w)"
      using nodes by (metis list.set_map slots_of_set s in_set_conv_decomp)
    then have "unsubscribe n w = (set_nodes c (filter (\<lambda>n. fst n \<noteq> k) (nodes_of c w)) w)\<lparr>ev_subs := xs @ None # ys\<rparr>"
      using True p s' al by (simp add: unsubscribe_def erase_node_def set_nodes_def)
    moreover have "events_ok ((set_nodes c (filter (\<lambda>n. fst n \<noteq> k) (nodes_of c w)) w)\<lparr>ev_subs := xs @ None # ys\<rparr>)"
    proof (rule main)
      show "map fst (nodes_of c' ((set_nodes c (filter (\<lambda>n. fst n \<noteq> k) (nodes_of c w)) w)\<lparr>ev_subs := xs @ None # ys\<rparr>))
        = slots_of c' (xs @ None # ys)" if "list_alive c' w" for c'
      proof (cases "c' = c")
        case True
        have "map fst (filter (\<lambda>n. fst n \<noteq> k) (nodes_of c w)) = filter (\<lambda>j. j \<noteq> k) (slots_of c (ev_subs w))"
          by (simp only: filter_map_fst nodes)
        then show ?thesis
          using True c sl by (simp add: nodes_of_def set_nodes_def)
      next
        case False
        then show ?thesis
          using old [OF that] sl' [OF False] by (simp add: nodes_of_def set_nodes_def)
      qed
    qed (use assms in \<open>simp_all add: list_alive_def events_ok_def set_nodes_def\<close>)
    ultimately show ?thesis
      by simp
  qed
qed

lemma event_step_keeps:
  "(\<And>e w. events_ok w \<Longrightarrow> events_ok (snd (call e w))) \<Longrightarrow> events_ok w \<Longrightarrow> events_ok (snd (event_step call a w))"
  by (cases a) (simp_all add: new_event_keeps object_steps_keep subscribe_keeps unsubscribe_keeps)

lemma event_run_keeps: "events_ok w \<Longrightarrow> events_ok (snd (event_run scripts depth acts w))"
  unfolding event_run_def
  by (rule each_keeps [where P = events_ok])
    (blast intro: event_step_keeps trigger_keeps [where P = events_ok] bad_use_keeps log_keeps)+

text \<open>
  Property C38. Subscriptions are safe whatever the functions do when they are called, subscribing,
  releasing, copying, destroying, throwing and calling events again included: a subscription never
  erases a node twice, nor one of a list that no event holds any more, and the list of a living event
  are the functions of exactly the subscriptions that have not been released, in their order.
\<close>

theorem subscriptions_safe:
  assumes "w = snd (event_run scripts depth acts no_events)"
  shows "\<not> ev_bad_erase w
    \<and> (\<forall>e c. list_of e w = Some c \<longrightarrow> map fst (nodes_of c w) = slots_of c (ev_subs w) \<and> distinct (map fst (nodes_of c w)))"
proof -
  have "events_ok no_events"
    by (simp add: events_ok_def no_events_def list_alive_def map_filter_def)
  then have ok: "events_ok w"
    unfolding assms by (rule event_run_keeps)
  have "distinct (slots_of c (ev_subs w))" for c
    using ok by (auto simp: events_ok_def slots_of_def distinct_map inj_on_def)
  then show ?thesis
    using ok list_of_alive by (auto simp: events_ok_def)
qed

definition demo_events :: events where
  "demo_events =
     snd (event_run (\<lambda>f. if f = 7 then [Unsubscribe 0, Subscribe 0 8, DestroyEvent 0] else []) 5
       [NewEvent, CopyEvent 0, Subscribe 1 7, Subscribe 0 8, NewEvent, Subscribe 2 9, Trigger 1, Unsubscribe 0, Unsubscribe 1,
        DestroyEvent 2, Unsubscribe 2] no_events)"

lemma subscriptions_safe_witness:
  "\<not> ev_bad_erase demo_events \<and> map fst (nodes_of 0 demo_events) = slots_of 0 (ev_subs demo_events) \<and>
   \<not> list_alive 1 demo_events \<and> ev_subs demo_events = [None, None, None, Some (0, 3)]"
proof -
  have "list_of 1 demo_events = Some 0" "\<not> list_alive 1 demo_events" "ev_subs demo_events = [None, None, None, Some (0, 3)]"
    by (simp_all add: demo_events_def event_run_def call_functions_def new_event_def copy_event_def destroy_event_def subscribe_def
        unsubscribe_def with_list_def list_of_def nodes_of_def set_nodes_def erase_node_def list_alive_def no_events_def
        numeral_eq_Suc)
  then show ?thesis
    using subscriptions_safe [OF demo_events_def] by blast
qed

section \<open>Calls\<close>

fun calls_nothing :: "event_act \<Rightarrow> bool" where
  "calls_nothing (Trigger _) = False"
| "calls_nothing (Raise _) = False"
| "calls_nothing _ = True"

lemma with_list_log: "(\<And>c w. ev_log (f c w) = ev_log w) \<Longrightarrow> ev_log (with_list e f w) = ev_log w"
  by (simp add: bad_use_def with_list_def split: option.split)

lemma quiet_step: "calls_nothing a \<Longrightarrow> \<exists>v. event_step call a w = (None, v) \<and> ev_log v = ev_log w"
  by (cases a)
    (auto simp: new_event_def copy_event_def move_event_def assign_event_def destroy_event_def subscribe_def unsubscribe_def
      erase_node_def set_nodes_def bad_use_def with_list_def split: option.split)

lemma quiet_steps:
  "list_all calls_nothing acts \<Longrightarrow> \<exists>v. each (event_step call) acts w = (None, v) \<and> ev_log v = ev_log w"
proof (induction acts arbitrary: w)
  case (Cons a acts)
  obtain v where v: "event_step call a w = (None, v)" "ev_log v = ev_log w"
    using Cons.prems quiet_step by (metis list.pred_inject(2))
  then show ?case
    using Cons.prems Cons.IH [of v] by auto
qed simp

text \<open>
  A call calls the functions that are in the list when it begins, each once and in order, whatever these
  functions do to subscriptions: one that has been released by an earlier function of the same call is
  called all the same, and a new one is not.
\<close>

lemma call_is_of_snapshot:
  assumes "list_of e w = Some c" and "\<And>f. list_all calls_nothing (scripts f)"
  shows "\<exists>v. trigger scripts (Suc d) e w = (None, v) \<and> ev_log v = ev_log w @ map snd (nodes_of c w)"
proof -
  let ?f = "\<lambda>n w. each (event_step (trigger scripts d)) (scripts (snd n)) (w\<lparr>ev_log := ev_log w @ [snd n]\<rparr>)"
  have "\<exists>v. each ?f ns w = (None, v) \<and> ev_log v = ev_log w @ map snd ns" for ns :: "(nat \<times> nat) list" and w
  proof (induction ns arbitrary: w)
    case (Cons n ns)
    obtain v where "?f n w = (None, v)" "ev_log v = ev_log w @ [snd n]"
      using quiet_steps [OF assms(2), of "trigger scripts d" "snd n" "w\<lparr>ev_log := ev_log w @ [snd n]\<rparr>"] by auto
    then show ?case
      using Cons.IH [of v] by auto
  qed simp
  then show ?thesis
    using assms(1) by (simp add: call_functions_def)
qed

text \<open>The first function releases the subscription of the second, which is called nevertheless.\<close>

lemma released_still_called:
  "let (r, w) = event_run (\<lambda>f. if f = 1 then [Unsubscribe 1] else []) 1 [NewEvent, Subscribe 0 1, Subscribe 0 2, Trigger 0] no_events
   in r = None \<and> ev_log w = [1, 2] \<and> ev_subs w ! 1 = None"
  by (simp add: event_run_def call_functions_def new_event_def subscribe_def unsubscribe_def with_list_def list_of_def nodes_of_def
      set_nodes_def erase_node_def list_alive_def no_events_def numeral_2_eq_2)

text \<open>A function that throws keeps those behind it from being called.\<close>

lemma raise_stops_call:
  "let (r, w) = event_run (\<lambda>f. if f = 1 then [Raise TaskCanceled] else []) 1 [NewEvent, Subscribe 0 1, Subscribe 0 2, Trigger 0] no_events
   in r = Some TaskCanceled \<and> ev_log w = [1]"
  by (simp add: event_run_def call_functions_def new_event_def subscribe_def with_list_def list_of_def nodes_of_def
      set_nodes_def no_events_def numeral_2_eq_2)

lemma hasSubscribers_iff:
  assumes "events_ok w" and "list_of e w = Some c"
  shows "hasSubscribers e w \<longleftrightarrow> slots_of c (ev_subs w) \<noteq> []"
proof -
  have "map fst (nodes_of c w) = slots_of c (ev_subs w)"
    using assms list_of_alive by (simp add: events_ok_def)
  then have "slots_of c (ev_subs w) = [] \<longleftrightarrow> nodes_of c w = []"
    by (metis map_is_Nil_conv)
  then show ?thesis
    using assms(2) by (simp add: hasSubscribers_def)
qed

text \<open>A moved event cannot be used any more: it holds no list, and calling it dereferences a null pointer.\<close>

lemma moved_event_dead:
  assumes "list_of e w = Some c"
  shows "list_of e (move_event e w) = None" and "ev_bad_use (subscribe e f (move_event e w))"
    and "ev_bad_use (snd (call_functions body e (move_event e w)))"
proof -
  have "e < length (ev_objects w)"
    using assms by (auto simp: list_of_def split: if_splits)
  then show n: "list_of e (move_event e w) = None"
    using assms by (simp add: move_event_def list_of_def nth_append)
  show "ev_bad_use (subscribe e f (move_event e w))" "ev_bad_use (snd (call_functions body e (move_event e w)))"
    using n by (simp_all add: subscribe_def call_functions_def bad_use_def)
qed

section \<open>Actions and their iterators\<close>

text \<open>Assigning a function to an action leaves it as the only one of all its copies.\<close>

lemma assignment_clears_copies:
  assumes "list_of a w = Some c" and "list_of b w = Some c" and "c < length (ev_lists w)"
  shows "list_of b (action_assign a f w) = Some c" and "map snd (nodes_of c (action_assign a f w)) = [f]"
    and "action_size b (action_assign a f w) = 1"
  using assms by (simp_all add: action_assign_def action_size_def set_nodes_def nodes_of_def)

text \<open>
  Unlike a subscription, the iterator that \<^verbatim>\<open>push_back\<close> returned says nothing of whether its node is still
  there: erasing it after \<^verbatim>\<open>clear\<close> is undefined.
\<close>

lemma iterator_outlives_clear:
  assumes "list_of a w = Some c" and "c < length (ev_lists w)"
  shows "ev_bad_erase (action_erase a (ev_next w) (action_clear a (action_push_back a f w)))"
  using assms by (simp add: action_erase_def action_clear_def action_push_back_def set_nodes_def nodes_of_def erase_node_def)

lemma push_and_erase:
  assumes "list_of a w = Some c" and "c < length (ev_lists w)" and "\<forall>k \<in> fst ` set (nodes_of c w). k < ev_next w"
  shows "nodes_of c (action_erase a (ev_next w) (action_push_front a f w)) = nodes_of c w"
    and "ev_bad_erase (action_erase a (ev_next w) (action_push_front a f w)) = ev_bad_erase w"
proof -
  have "filter (\<lambda>n. fst n \<noteq> ev_next w) (nodes_of c w) = nodes_of c w"
    using assms(3) by (auto simp: filter_id_conv)
  then show "nodes_of c (action_erase a (ev_next w) (action_push_front a f w)) = nodes_of c w"
      "ev_bad_erase (action_erase a (ev_next w) (action_push_front a f w)) = ev_bad_erase w"
    using assms(1,2) list_of_alive [OF assms(1)]
    by (simp_all add: action_erase_def action_push_front_def set_nodes_def nodes_of_def erase_node_def list_alive_def)
qed

end
