(* ===== verification/ClientContainer.thy ===== *)
theory ClientContainer
  imports DependencyInjection
begin

text \<open>
  The container of a client (\<^verbatim>\<open>ClientContainerConfigurator.cpp\<close>, the defaults of \<^verbatim>\<open>Configuration.cpp\<close>): what
  is registered, and what the factories and constructors ask for. The lemmas show that the registrations
  are closed and not circular, so that every service can be made in any order.
\<close>

section \<open>Registrations\<close>

text \<open>The types of the container. Their ids stand for the hashes of \<^verbatim>\<open>ctti\<close>, which need only be distinct.\<close>

datatype service =
    T_Client | T_IClient | T_KeyStore | T_Configuration | T_ILogger | T_TokenHandler | T_ITokenHandler | T_ApiClient
  | T_Serializer | T_IScheduler | T_ITransport | T_IActionDispatcher | T_P2PPacketDispatcher | T_SceneDispatcher
  | T_SyncClock | T_RequestProcessor | T_PacketTransformProcessor | T_IPacketDispatcher | T_AESPacketTransform | T_IAES
  | T_ConnectionsRepository | T_IConnectionManager | T_P2PSessions | T_P2PTunnels | T_P2PService | T_P2PRequestModule

fun service_id :: "service \<Rightarrow> u64" where
  "service_id T_Client = 1"
| "service_id T_IClient = 2"
| "service_id T_KeyStore = 3"
| "service_id T_Configuration = 4"
| "service_id T_ILogger = 5"
| "service_id T_TokenHandler = 6"
| "service_id T_ITokenHandler = 7"
| "service_id T_ApiClient = 8"
| "service_id T_Serializer = 9"
| "service_id T_IScheduler = 10"
| "service_id T_ITransport = 11"
| "service_id T_IActionDispatcher = 12"
| "service_id T_P2PPacketDispatcher = 13"
| "service_id T_SceneDispatcher = 14"
| "service_id T_SyncClock = 15"
| "service_id T_RequestProcessor = 16"
| "service_id T_PacketTransformProcessor = 17"
| "service_id T_IPacketDispatcher = 18"
| "service_id T_AESPacketTransform = 19"
| "service_id T_IAES = 20"
| "service_id T_ConnectionsRepository = 21"
| "service_id T_IConnectionManager = 22"
| "service_id T_P2PSessions = 23"
| "service_id T_P2PTunnels = 24"
| "service_id T_P2PService = 25"
| "service_id T_P2PRequestModule = 26"

lemma service_id_eq [simp]: "service_id a = service_id b \<longleftrightarrow> a = b"
proof -
  have "a = b" if "service_id a = service_id b"
    using that by (cases a; cases b; simp)
  then show ?thesis
    by blast
qed

declare service_id.simps [simp del]

text \<open>
  The objects that exist before: the client and what its configuration holds. The action dispatcher and
  the scheduler stand for any implementation of their interface.
\<close>

definition given_objects :: "di_object list" where
  "given_objects = map (\<lambda>t. \<lparr>ob_type = service_id t, ob_args = []\<rparr>)
     [T_Client, T_Configuration, T_ILogger, T_IScheduler, T_IActionDispatcher]"

definition needs :: "service list \<Rightarrow> argument list" where
  "needs ts = map (\<lambda>t. Single (service_id t)) ts"

text \<open>The factory of the transport, \<^verbatim>\<open>_defaultTransportFactory\<close> with the constructor of \<^verbatim>\<open>RakNetTransport\<close>.\<close>

definition transport_factory :: "argument list" where
  "transport_factory = needs [T_ILogger, T_IScheduler]"

text \<open>The factory of the dispatcher: the default \<^verbatim>\<open>_dispatcher\<close> of the configuration, then its processors.\<close>

definition dispatcher_factory :: "argument list" where
  "dispatcher_factory =
     needs [T_Configuration, T_ILogger, T_RequestProcessor, T_SceneDispatcher, T_P2PPacketDispatcher, T_PacketTransformProcessor]"

text \<open>The clock begins a child scope of its own besides, which has no registrations.\<close>

definition clock_factory :: "argument list" where
  "clock_factory = needs [T_Configuration, T_ILogger]"

definition register_service ::
    "service \<Rightarrow> argument list \<Rightarrow> (registration \<Rightarrow> registration) \<Rightarrow> container_builder \<Rightarrow> container_builder" where
  "register_service t args settings cb = registerDependency (service_id t) args Makes settings cb"

definition ConfigureContainer :: "container_builder \<Rightarrow> container_builder" where
  "ConfigureContainer cb =
     fold (\<lambda>f. f)
      [registerDependency (service_id T_Client) [] (Gives 0)
         (\<lambda>rg. instancePerRequest (asSelf (as_type (service_id T_IClient) rg))),
       register_service T_KeyStore [] singleInstance,
       registerInstance (service_id T_Configuration) 1 id,
       registerInstance (service_id T_ILogger) 2 id,
       register_service T_TokenHandler (needs [T_ILogger]) (as_type (service_id T_ITokenHandler)),
       register_service T_ApiClient (needs [T_ILogger, T_Configuration, T_ITokenHandler]) singleInstance,
       register_service T_Serializer [] singleInstance,
       registerInstance (service_id T_IScheduler) 3 id,
       register_service T_ITransport transport_factory singleInstance,
       registerInstance (service_id T_IActionDispatcher) 4 id,
       register_service T_P2PPacketDispatcher (needs [T_P2PTunnels, T_IConnectionManager, T_ILogger, T_Serializer]) singleInstance,
       register_service T_SceneDispatcher (needs [T_IActionDispatcher, T_ILogger]) singleInstance,
       register_service T_SyncClock clock_factory singleInstance,
       register_service T_RequestProcessor (needs [T_ILogger]) singleInstance,
       register_service T_PacketTransformProcessor (needs [T_AESPacketTransform]) singleInstance,
       register_service T_IPacketDispatcher dispatcher_factory singleInstance,
       register_service T_AESPacketTransform (needs [T_IAES, T_Configuration]) id,
       register_service T_IAES (needs [T_KeyStore]) singleInstance,
       register_service T_ConnectionsRepository (needs [T_ILogger])
         (\<lambda>rg. singleInstance (as_type (service_id T_IConnectionManager) rg)),
       register_service T_P2PSessions (needs [T_IConnectionManager]) singleInstance,
       register_service T_P2PTunnels (needs [T_RequestProcessor, T_IConnectionManager, T_Serializer, T_Configuration, T_ILogger])
         singleInstance,
       register_service T_P2PService (needs [T_IConnectionManager, T_RequestProcessor, T_ITransport, T_Serializer, T_P2PTunnels])
         singleInstance,
       register_service T_P2PRequestModule
         (needs [T_ITransport, T_IConnectionManager, T_P2PSessions, T_Serializer, T_P2PTunnels, T_ILogger, T_Configuration,
            T_RequestProcessor, T_Client]) singleInstance] cb"

definition client_builder :: container_builder where
  "client_builder = ConfigureContainer (ContainerBuilder 0)"

definition client_container :: container where
  "client_container = snd (build client_builder \<lparr>dc_scopes = [], dc_objects = given_objects\<rparr>)"

section \<open>Closed registrations\<close>

text \<open>
  Registrations are closed when every factory asks for single objects of registered types and does not
  throw. Resolution in a root scope then does not fail: it runs out of fuel or makes an object.
\<close>

definition closed :: "(u64 \<rightharpoonup> registration list) \<Rightarrow> bool" where
  "closed regs \<longleftrightarrow>
     (\<forall>ty rgs. regs ty = Some rgs \<longrightarrow> rgs \<noteq> [] \<and>
        (\<forall>rg \<in> set rgs. rg_lifetime rg \<noteq> InstancePerMatchingScope \<and> (\<forall>e. rg_result rg \<noteq> Throws e)
           \<and> (\<forall>a \<in> set (rg_args rg). \<exists>t. a = Single t \<and> regs t \<noteq> None)))"

definition root_of :: "(u64 \<rightharpoonup> registration list) \<Rightarrow> container \<Rightarrow> bool" where
  "root_of regs c \<longleftrightarrow>
     0 < length (dc_scopes c) \<and> ds_registrations (dc_scopes c ! 0) = regs \<and> ds_parent (dc_scopes c ! 0) = None"

definition call_closed :: "(u64 \<rightharpoonup> registration list) \<Rightarrow> di_call \<Rightarrow> bool" where
  "call_closed regs call \<longleftrightarrow>
     (\<forall>ty c r c'. root_of regs c \<longrightarrow> regs ty \<noteq> None \<longrightarrow> call 0 ty True c = Some (r, c') \<longrightarrow>
        root_of regs c' \<and> (\<exists>ob. r = Inr [ob]))"

lemma root_of_store: "root_of regs c \<Longrightarrow> root_of regs (store_instance s i ob c)"
  by (cases "s = 0") (simp_all add: root_of_def store_instance_def upd_scope_def)

lemma root_of_objects: "root_of regs c \<Longrightarrow> root_of regs (c\<lparr>dc_objects := obs\<rparr>)"
  by (simp add: root_of_def)

lemma run_args_ok:
  assumes "call_closed regs call"
  shows "root_of regs c \<Longrightarrow> \<forall>a \<in> set as. \<exists>t. a = Single t \<and> regs t \<noteq> None \<Longrightarrow> run_args call 0 as c = Some (r, c') \<Longrightarrow>
    root_of regs c' \<and> (\<exists>oss. r = Inr oss)"
proof (induction as arbitrary: c r c')
  case (Cons a as)
  obtain t where t: "a = Single t" "regs t \<noteq> None"
    using Cons.prems(2) by auto
  obtain x c1 where x: "call 0 t True c = Some (x, c1)"
    using Cons.prems(3) t(1) by (cases "call 0 t True c") auto
  then obtain ob where ob: "x = Inr [ob]" "root_of regs c1"
    using assms Cons.prems(1) t(2) unfolding call_closed_def by blast
  obtain y c2 where y: "run_args call 0 as c1 = Some (y, c2)"
    using Cons.prems(3) t(1) x ob(1) by (cases "run_args call 0 as c1") auto
  then have "root_of regs c2 \<and> (\<exists>oss. y = Inr oss)"
    using Cons.IH [OF ob(2)] Cons.prems(2) by simp
  then show ?case
    using Cons.prems(3) t(1) x ob(1) y by auto
qed auto

lemma run_factory_ok:
  assumes "call_closed regs call" "root_of regs c" "\<forall>a \<in> set (rg_args rg). \<exists>t. a = Single t \<and> regs t \<noteq> None"
    and "\<forall>e. rg_result rg \<noteq> Throws e" "run_factory call rg 0 c = Some (r, c')"
  shows "root_of regs c' \<and> (\<exists>ob. r = Inr ob)"
proof -
  obtain x c1 where x: "run_args call 0 (rg_args rg) c = Some (x, c1)"
    using assms(5) by (cases "run_args call 0 (rg_args rg) c") (auto simp: run_factory_def)
  then obtain oss where oss: "x = Inr oss" "root_of regs c1"
    using run_args_ok [OF assms(1-3)] by blast
  show ?thesis
    using assms(4,5) x oss by (cases "rg_result rg") (auto simp: run_factory_def root_of_objects)
qed

lemma instance_ok:
  assumes "call_closed regs call" "root_of regs c" "\<forall>a \<in> set (rg_args rg). \<exists>t. a = Single t \<and> regs t \<noteq> None"
    and "\<forall>e. rg_result rg \<noteq> Throws e" "getInstanceForScope call rg 0 c = Some (r, c')"
  shows "root_of regs c' \<and> (\<exists>ob. r = Inr ob)"
proof (cases "ds_instances (dc_scopes c ! 0) (rg_id rg)")
  case None
  then obtain x c1 where x: "run_factory call rg 0 c = Some (x, c1)"
    using assms(5) by (cases "run_factory call rg 0 c") (auto simp: getInstanceForScope_def)
  then obtain ob where "x = Inr ob" "root_of regs c1"
    using run_factory_ok [OF assms(1-4)] by blast
  then show ?thesis
    using assms(5) None x by (auto simp: getInstanceForScope_def root_of_store)
next
  case (Some ob)
  then show ?thesis
    using assms(2,5) by (auto simp: getInstanceForScope_def)
qed

lemma registration_ok:
  assumes "call_closed regs call" "root_of regs c" "closed regs" "regs ty = Some rgs" "rg \<in> set rgs"
    and "instantiateRegistration call 0 rg 0 True c = Some (r, c')"
  shows "root_of regs c' \<and> (\<exists>ob. r = Inr (Some ob))"
proof -
  have rg: "rg_lifetime rg \<noteq> InstancePerMatchingScope" "\<forall>e. rg_result rg \<noteq> Throws e"
      "\<forall>a \<in> set (rg_args rg). \<exists>t. a = Single t \<and> regs t \<noteq> None"
    using assms(3-5) unfolding closed_def by blast+
  note f = run_factory_ok [OF assms(1,2) rg(3,2)] and i = instance_ok [OF assms(1,2) rg(3,2)]
  show ?thesis
    using assms(6) rg(1) f i by (cases "rg_lifetime rg") (fastforce simp: instantiateRegistration_def)+
qed

lemma closed_call_closes:
  assumes "closed regs"
  shows "call_closed regs (resolve_fuel n)"
proof (induction n)
  case (Suc n)
  have "root_of regs c' \<and> (\<exists>ob. r = Inr [ob])"
    if c: "root_of regs c" and ty: "regs ty \<noteq> None" and r: "resolve_in (resolve_fuel n) 0 ty True c = Some (r, c')" for ty c r c'
  proof -
    obtain rgs where rgs: "regs ty = Some rgs"
      using ty by blast
    have ne: "last rgs \<in> set rgs"
      using assms rgs by (simp add: closed_def)
    have d: "ds_registrations (dc_scopes c ! 0) ty = Some rgs" "tryLockParent 0 c = Inr None"
      using c rgs by (simp_all add: root_of_def tryLockParent_def)
    obtain x c1 where x: "instantiateRegistration (resolve_fuel n) 0 (last rgs) 0 True c = Some (x, c1)"
      using r d by (cases "instantiateRegistration (resolve_fuel n) 0 (last rgs) 0 True c")
        (auto simp: resolve_in_def resolve_impl.simps [of _ 0 ty True c 0])
    then obtain ob where "x = Inr (Some ob)" "root_of regs c1"
      using registration_ok [OF Suc.IH c assms rgs ne] by blast
    then show ?thesis
      using r d x by (auto simp: resolve_in_def resolve_impl.simps [of _ 0 ty True c 0])
  qed
  then show ?case
    by (simp add: call_closed_def)
qed (simp add: call_closed_def)

section \<open>The container of a client is closed and not circular\<close>

lemma registrations_filed: "rg \<in> set rgs \<Longrightarrow> ty \<in> set (types_of rg) \<Longrightarrow> buildRegistrations rgs ty \<noteq> None"
proof -
  have one: "dom (fold (add_registration rg) tys m) = dom m \<union> set tys" for rg tys m
    by (induction tys arbitrary: m) (auto simp: add_registration_def)
  have "dom (fold (\<lambda>rg. fold (add_registration rg) (types_of rg)) rgs m) = dom m \<union> (\<Union>rg \<in> set rgs. set (types_of rg))" for m
    by (induction rgs arbitrary: m) (auto simp: one)
  then have "dom (buildRegistrations rgs) = (\<Union>rg \<in> set rgs. set (types_of rg))"
    by (simp add: buildRegistrations_def)
  then show "rg \<in> set rgs \<Longrightarrow> ty \<in> set (types_of rg) \<Longrightarrow> buildRegistrations rgs ty \<noteq> None"
    by blast
qed

text \<open>The same as \<^const>\<open>closed\<close> on the list of registrations, where it can be evaluated.\<close>

fun single_of :: "registration list \<Rightarrow> argument \<Rightarrow> bool" where
  "single_of rgs (Single t) = list_ex (\<lambda>rg. t \<in> set (types_of rg)) rgs"
| "single_of rgs (All t) = False"

fun never_throws :: "made \<Rightarrow> bool" where
  "never_throws (Throws e) = False"
| "never_throws Makes = True"
| "never_throws (Gives ob) = True"

definition closed_list :: "registration list \<Rightarrow> bool" where
  "closed_list rgs =
     list_all (\<lambda>rg. rg_lifetime rg \<noteq> InstancePerMatchingScope \<and> never_throws (rg_result rg)
       \<and> list_all (single_of rgs) (rg_args rg)) rgs"

lemma closed_list_closed:
  assumes "closed_list rgs"
  shows "closed (buildRegistrations rgs)"
proof -
  have single: "\<exists>t. a = Single t \<and> buildRegistrations rgs t \<noteq> None" if "single_of rgs a" for a
    using that registrations_filed by (cases a) (fastforce simp: list_ex_iff)+
  have rg: "rg_lifetime rg \<noteq> InstancePerMatchingScope \<and> (\<forall>e. rg_result rg \<noteq> Throws e)
      \<and> (\<forall>a \<in> set (rg_args rg). \<exists>t. a = Single t \<and> buildRegistrations rgs t \<noteq> None)" if "rg \<in> set rgs" for rg
    using assms that single unfolding closed_list_def list_all_iff by (metis never_throws.simps(1))
  show ?thesis
    unfolding closed_def using rg buildRegistrations_wf by blast
qed

lemmas client_defs =
  client_builder_def ConfigureContainer_def ContainerBuilder_def register_service_def registerInstance_def registerDependency_def
  as_type_def asSelf_def instancePerRequest_def singleInstance_def types_of_def needs_def transport_factory_def
  dispatcher_factory_def clock_factory_def

lemma client_closed: "closed (buildRegistrations (cb_registrations client_builder))"
  by (rule closed_list_closed) (simp add: closed_list_def client_defs)

definition service_rank :: "u64 \<Rightarrow> nat" where
  "service_rank ty =
     (if ty \<in> set (map service_id [T_IPacketDispatcher]) then 4
      else if ty \<in> set (map service_id [T_PacketTransformProcessor, T_P2PPacketDispatcher, T_P2PService, T_P2PRequestModule]) then 3
      else if ty \<in> set (map service_id [T_AESPacketTransform, T_ApiClient, T_P2PSessions, T_P2PTunnels]) then 2
      else if ty \<in> set (map service_id [T_IAES, T_TokenHandler, T_ITokenHandler, T_RequestProcessor, T_ConnectionsRepository,
        T_IConnectionManager, T_ITransport, T_SceneDispatcher, T_SyncClock]) then 1 else 0)"

lemma service_rank_less: "service_rank ty < 5"
  by (simp add: service_rank_def)

lemma client_ranks:
  "list_all (\<lambda>rg. list_all (\<lambda>ty. list_all (\<lambda>a. service_rank (arg_type a) < service_rank ty) (rg_args rg)) (types_of rg))
     (cb_registrations client_builder)"
  by (simp add: client_defs service_rank_def arg_type_def)

lemma client_scope:
  "dc_scopes client_container = [\<lparr>ds_registrations = buildRegistrations (cb_registrations client_builder),
     ds_instances = Map.empty, ds_tag = [], ds_parent = None, ds_baseId = cb_counter client_builder, ds_alive = True\<rparr>]"
  "dc_objects client_container = given_objects"
  by (simp_all add: client_container_def build_def DependencyScope_def)

lemma client_ranked: "ranked service_rank client_container"
proof -
  have "rg \<in> set (cb_registrations client_builder)" if "registered client_container 0 rg" for rg
    using that buildRegistrations_wf by (auto simp: registered_def client_scope)
  then show ?thesis
    using client_ranks unfolding ranked_def list_all_iff by (simp add: client_scope) blast
qed

lemma client_root: "root_of (buildRegistrations (cb_registrations client_builder)) client_container"
  by (simp add: root_of_def client_scope)

lemma client_built: "built 0 client_builder"
  unfolding client_builder_def ConfigureContainer_def register_service_def registerInstance_def
  by (simp only: fold.simps o_apply id_apply list.map, intro built.intros)
    (simp_all add: fluent_def as_type_def asSelf_def instancePerRequest_def singleInstance_def)

lemma objects_reach: "di_reach T \<lparr>dc_scopes = [], dc_objects = obs\<rparr>"
proof (induction obs rule: rev_induct)
  case Nil
  show ?case by (rule di_reach.empty)
next
  case (snoc ob obs)
  then show ?case using di_reach.object [OF snoc, of ob] by simp
qed

fun gives_ok :: "di_object list \<Rightarrow> u64 \<Rightarrow> made \<Rightarrow> bool" where
  "gives_ok obs ty (Gives ob) = (ob < length obs \<and> ob_type (obs ! ob) = ty)"
| "gives_ok obs ty Makes = True"
| "gives_ok obs ty (Throws e) = True"

lemma client_gives:
  "list_all (\<lambda>rg. rg_lifetime rg \<noteq> InstancePerMatchingScope \<and> gives_ok given_objects (rg_actualType rg) (rg_result rg))
     (cb_registrations client_builder)"
  by (simp add: client_defs given_objects_def)

lemma client_container_reach: "di_reach True client_container"
  unfolding client_container_def
proof (rule di_reach.root [OF objects_reach client_built], rule ballI)
  fix rg
  assume "rg \<in> set (cb_registrations client_builder)"
  then show "reg_ok True \<lparr>dc_scopes = [], dc_objects = given_objects\<rparr> rg"
    using client_gives by (auto simp: reg_ok_def list_all_iff)
qed

section \<open>Resolving services\<close>

text \<open>The container after any services have been resolved.\<close>

definition resolve_each :: "nat \<Rightarrow> service list \<Rightarrow> container \<Rightarrow> container" where
  "resolve_each n ts c =
     fold (\<lambda>t c. case resolve n (Some 0) (service_id t) c of None \<Rightarrow> c | Some (r, c') \<Rightarrow> c') ts c"

definition client_inv :: "container \<Rightarrow> bool" where
  "client_inv c \<longleftrightarrow>
     di_reach True c \<and> root_of (buildRegistrations (cb_registrations client_builder)) c \<and> ranked service_rank c"

lemma client_inv_start: "client_inv client_container"
  by (simp add: client_inv_def client_container_reach client_root client_ranked)

lemma resolve_fuelD:
  "resolve n (Some s) ty c = Some (r, c') \<Longrightarrow> \<exists>x. resolve_fuel n s ty True c = Some (x, c')"
  by (auto simp: resolve_def)

lemma client_inv_resolve:
  assumes "client_inv c" "resolve n (Some 0) ty c = Some (r, c')"
  shows "client_inv c'" and "later c c'"
proof -
  obtain x where x: "resolve_fuel n 0 ty True c = Some (x, c')"
    using resolve_fuelD [OF assms(2)] by blast
  have r: "di_reach True c" and s: "0 < length (dc_scopes c)"
    using assms(1) by (simp_all add: client_inv_def root_of_def)
  have g: "grows c c'"
    using resolve_fuel_keeps [OF di_reach_inv [OF r] s x] by (simp add: keeps_def)
  then have "same_scope (dc_scopes c ! 0) (dc_scopes c' ! 0)" "length (dc_scopes c) = length (dc_scopes c')"
    using s by (auto simp: grows_def)
  then show "client_inv c'"
    using assms(1) di_reach.resolution [OF r s x] ranked_grows [OF g] by (auto simp: client_inv_def root_of_def same_scope_def)
  show "later c c'"
    by (rule later_operations(4) [OF di_reach_inv [OF r] s x])
qed

lemma later_trans: "later a b \<Longrightarrow> later b c \<Longrightarrow> later a c"
  unfolding later_def by (meson le_trans less_le_trans map_le_trans)

lemma resolve_each_keeps:
  "client_inv c \<Longrightarrow> client_inv (resolve_each n ts c) \<and> later c (resolve_each n ts c)"
proof (induction ts arbitrary: c)
  case Nil
  then show ?case by (simp add: resolve_each_def later_def)
next
  case (Cons t ts)
  define d where "d = (case resolve n (Some 0) (service_id t) c of None \<Rightarrow> c | Some (r, c') \<Rightarrow> c')"
  have "client_inv d \<and> later c d"
  proof (cases "resolve n (Some 0) (service_id t) c")
    case None
    then show ?thesis using Cons.prems by (simp add: d_def later_def)
  next
    case (Some p)
    then show ?thesis using client_inv_resolve [OF Cons.prems, of n "service_id t"] by (cases p) (simp add: d_def)
  qed
  moreover have "resolve_each n (t # ts) c = resolve_each n ts d"
    by (simp add: resolve_each_def d_def)
  ultimately show ?case
    using Cons.IH later_trans by metis
qed

text \<open>
  Two classes are offered by their interface only, and an interface is served by the class it was
  registered for.
\<close>

definition offered :: "service \<Rightarrow> bool" where
  "offered t \<longleftrightarrow> t \<noteq> T_TokenHandler \<and> t \<noteq> T_ConnectionsRepository"

fun made_as :: "service \<Rightarrow> service" where
  "made_as T_IClient = T_Client"
| "made_as T_ITokenHandler = T_TokenHandler"
| "made_as T_IConnectionManager = T_ConnectionsRepository"
| "made_as t = t"

definition shared_service :: "service \<Rightarrow> bool" where
  "shared_service t \<longleftrightarrow> offered t \<and> t \<notin> {T_Client, T_IClient, T_ITokenHandler, T_AESPacketTransform}"

definition all_services :: "service list" where
  "all_services = [T_Client, T_IClient, T_KeyStore, T_Configuration, T_ILogger, T_TokenHandler, T_ITokenHandler, T_ApiClient,
     T_Serializer, T_IScheduler, T_ITransport, T_IActionDispatcher, T_P2PPacketDispatcher, T_SceneDispatcher, T_SyncClock,
     T_RequestProcessor, T_PacketTransformProcessor, T_IPacketDispatcher, T_AESPacketTransform, T_IAES, T_ConnectionsRepository,
     T_IConnectionManager, T_P2PSessions, T_P2PTunnels, T_P2PService, T_P2PRequestModule]"

lemma all_services_listed: "t \<in> set all_services"
  by (cases t) (simp_all add: all_services_def)

lemma client_table:
  "list_all (\<lambda>t. offered t \<longrightarrow> list_ex (\<lambda>rg. service_id t \<in> set (types_of rg)) (cb_registrations client_builder)) all_services"
  "list_all (\<lambda>t. list_all (\<lambda>rg. service_id t \<in> set (types_of rg) \<longrightarrow>
      rg_actualType rg = service_id (made_as t) \<and> (shared_service t \<longrightarrow> rg_lifetime rg = SingleInstance))
     (cb_registrations client_builder)) all_services"
  by (simp_all add: client_defs all_services_def offered_def shared_service_def)

lemma client_entry:
  "rg \<in> set (cb_registrations client_builder) \<Longrightarrow> service_id t \<in> set (types_of rg) \<Longrightarrow>
     rg_actualType rg = service_id (made_as t) \<and> (shared_service t \<longrightarrow> rg_lifetime rg = SingleInstance)"
  using client_table(2) all_services_listed unfolding list_all_iff by blast

text \<open>
  Property C14. The container of a client is complete: whatever services have been resolved before, every
  service of the client resolves, without running in a circle and without an exception, to an object of
  the class that was registered for it.
\<close>

theorem client_services_resolve:
  assumes "c = resolve_each m ts client_container" and "offered t" and "5 \<le> n"
  shows "\<exists>ob c'. resolve n (Some 0) (service_id t) c = Some (Inr ob, c') \<and> ob < length (dc_objects c')
    \<and> ob_type (dc_objects c' ! ob) = service_id (made_as t)"
proof -
  let ?regs = "buildRegistrations (cb_registrations client_builder)"
  have inv: "client_inv c"
    using resolve_each_keeps [OF client_inv_start] assms(1) by blast
  then have reach: "di_reach True c" and root: "root_of ?regs c" and rank: "ranked service_rank c"
    by (simp_all add: client_inv_def)
  have s: "0 < length (dc_scopes c)"
    using root by (simp add: root_of_def)
  have "service_rank (service_id t) < n"
    using service_rank_less assms(3) by (rule less_le_trans)
  then obtain r c' where r: "resolve n (Some 0) (service_id t) c = Some (r, c')"
    using acyclic_resolution_returns [OF reach s rank] by blast
  then obtain x where x: "resolve_fuel n 0 (service_id t) True c = Some (x, c')" "r = map_sum id hd x"
    by (auto simp: resolve_def)
  obtain rg where "rg \<in> set (cb_registrations client_builder)" "service_id t \<in> set (types_of rg)"
    using client_table(1) all_services_listed assms(2) unfolding list_all_iff list_ex_iff by blast
  then have "?regs (service_id t) \<noteq> None"
    by (rule registrations_filed)
  then obtain ob where xob: "x = Inr [ob]"
    using closed_call_closes [OF client_closed] root x(1) unfolding call_closed_def by blast
  then have ob: "resolve n (Some 0) (service_id t) c = Some (Inr ob, c')"
    using r x(2) by simp
  obtain a rg where a: "above c' a 0" "registered c' a rg" "service_id t \<in> set (types_of rg)" "ob < length (dc_objects c')"
      "ob_type (dc_objects c' ! ob) = rg_actualType rg"
    using resolve_fuel_keeps [OF di_reach_inv [OF reach] s x(1)] xob unfolding found_def serves_def by auto
  have root': "root_of ?regs c'"
    using client_inv_resolve(1) [OF inv ob] by (simp add: client_inv_def)
  from a(1) have "a = 0"
  proof (cases rule: above.cases)
    case (up p)
    then show ?thesis using root' by (simp add: root_of_def)
  qed simp
  then have "rg \<in> set (cb_registrations client_builder)"
    using a(2) root' buildRegistrations_wf by (auto simp: registered_def root_of_def)
  then show ?thesis
    using client_entry a(3-5) ob by metis
qed

theorem client_services_resolve_witness:
  "\<exists>ob c'. resolve 5 (Some 0) (service_id T_IPacketDispatcher) (resolve_each 5 [T_P2PRequestModule, T_IConnectionManager] client_container)
      = Some (Inr ob, c') \<and> ob < length (dc_objects c') \<and> ob_type (dc_objects c' ! ob) = service_id (made_as T_IPacketDispatcher)"
  by (rule client_services_resolve [OF refl]) (simp_all add: offered_def)

text \<open>The shared services exist once: all who ask for one, before or after others have been made, get the same object.\<close>

lemma client_services_shared:
  assumes "client_inv c" and "shared_service t"
    and "resolve n (Some 0) (service_id t) c = Some (Inr ob, c1)"
    and "resolve m (Some 0) (service_id t) (resolve_each k ts c1) = Some (Inr ob', c2)"
  shows "ob' = ob"
proof -
  let ?regs = "buildRegistrations (cb_registrations client_builder)"
  obtain rg where "rg \<in> set (cb_registrations client_builder)" "service_id t \<in> set (types_of rg)"
    using client_table(1) all_services_listed assms(2) unfolding list_all_iff list_ex_iff shared_service_def by blast
  then obtain rgs where rgs: "?regs (service_id t) = Some rgs"
    using registrations_filed by blast
  then have "last rgs \<in> set rgs"
    using buildRegistrations_wf by simp
  then have life: "rg_lifetime (last rgs) = SingleInstance"
    using buildRegistrations_wf [OF rgs] client_entry assms(2) by blast
  have prov: "provider d (service_id t) 0 = Some (0, last rgs)" if "client_inv d" for d
    using that rgs by (simp add: client_inv_def root_of_def provider.simps [of d _ 0])
  have inv1: "client_inv c1"
    by (rule client_inv_resolve(1) [OF assms(1,3)])
  have inv2: "client_inv (resolve_each k ts c1)" and l: "later c1 (resolve_each k ts c1)"
    using resolve_each_keeps [OF inv1] by simp_all
  have "di_reach True c" "0 < length (dc_scopes c)"
    using assms(1) by (simp_all add: client_inv_def root_of_def)
  then show ?thesis
    using single_instance_shared [OF _ _ prov [OF assms(1)] life assms(3) l prov [OF inv2] assms(4)] by blast
qed

text \<open>
  Three services are made anew for everyone who asks, the token handler and the encryption of packets
  among them, and the classes behind two interfaces cannot be resolved by their own names.
\<close>

lemma repository_by_interface:
  "map_option fst (resolve 5 (Some 0) (service_id T_ConnectionsRepository) client_container)
     = Some (Inl (DependencyResolution ''Dependency not found''))"
proof -
  have "\<not> list_ex (\<lambda>rg. service_id T_ConnectionsRepository \<in> set (types_of rg)) (cb_registrations client_builder)"
    by (simp add: client_defs)
  then have "buildRegistrations (cb_registrations client_builder) (service_id T_ConnectionsRepository) = None"
    using buildRegistrations_wf [of "cb_registrations client_builder" "service_id T_ConnectionsRepository"]
    by (cases "buildRegistrations (cb_registrations client_builder) (service_id T_ConnectionsRepository)")
      (fastforce simp: list_ex_iff neq_Nil_conv)+
  then show ?thesis
    by (simp add: resolve_def numeral_eq_Suc resolve_in_def resolve_impl.simps [of _ 0] tryLockParent_def client_scope)
qed

end
