(* ===== verification/ClientLife.thy ===== *)
theory ClientLife
  imports Client Connections Events Scheduling
begin

text \<open>
  The life of a client (\<^verbatim>\<open>Client.cpp\<close>): its initialisation with the hooks of plugins, connecting to a
  private scene, the calls that go to all connections, disconnection and the destructor. The map of
  scenes and the attempts are those of Client, the connections those of Connections.
\<close>

section \<open>Initialisation\<close>

text \<open>The steps of \<^verbatim>\<open>initialize\<close>; plugins are numbered.\<close>

datatype init_step =
    RegisterClientDependencies nat
  | BuildContainer
  | RegisterModules
  | HookPackets
  | StartTransport u16 u16
  | TransportStarted nat
  | ClientCreated nat
  | SetMetadata
  | StartDispatcher
  | SetInitialized

record client_life =
  li_initialized :: bool
  li_steps :: "init_step list"
  li_metadata :: "string \<rightharpoonup> string"

definition new_client_life :: client_life where
  "new_client_life = \<lparr>li_initialized = False, li_steps = [], li_metadata = Map.empty\<rparr>"

definition client_metadata :: "string \<Rightarrow> string \<Rightarrow> string \<Rightarrow> (string \<rightharpoonup> string) \<Rightarrow> (string \<rightharpoonup> string)" where
  "client_metadata transport version platform m =
     m(''serializers'' \<mapsto> ''msgpack/array'', ''transport'' \<mapsto> transport, ''version'' \<mapsto> version, ''platform'' \<mapsto> platform,
       ''protocol'' \<mapsto> ''3'')"

definition init_steps :: "nat \<Rightarrow> u16 \<Rightarrow> u16 \<Rightarrow> init_step list" where
  "init_steps plugins port maxPeers =
     map RegisterClientDependencies [0..<plugins] @ [BuildContainer, RegisterModules, HookPackets, StartTransport port (maxPeers + 1)]
     @ map TransportStarted [0..<plugins] @ map ClientCreated [0..<plugins]
     @ [SetMetadata, StartDispatcher, SetInitialized, StartDispatcher]"

fun step_effect :: "((string \<rightharpoonup> string) \<Rightarrow> (string \<rightharpoonup> string)) \<Rightarrow> init_step \<Rightarrow> client_life \<Rightarrow> client_life" where
  "step_effect meta SetMetadata w = w\<lparr>li_metadata := meta (li_metadata w)\<rparr>"
| "step_effect meta SetInitialized w = w\<lparr>li_initialized := True\<rparr>"
| "step_effect meta _ w = w"

text \<open>\<^term>\<open>fails\<close> says which step throws, in the code of a plugin, the container or the transport.\<close>

definition init_do ::
    "((string \<rightharpoonup> string) \<Rightarrow> (string \<rightharpoonup> string)) \<Rightarrow> (init_step \<Rightarrow> storm_exn option) \<Rightarrow> init_step \<Rightarrow> client_life \<Rightarrow>
      storm_exn option \<times> client_life" where
  "init_do meta fails s w =
     (case fails s of Some e \<Rightarrow> (Some e, w) | None \<Rightarrow> (None, step_effect meta s (w\<lparr>li_steps := li_steps w @ [s]\<rparr>)))"

definition client_initialize ::
    "((string \<rightharpoonup> string) \<Rightarrow> (string \<rightharpoonup> string)) \<Rightarrow> (init_step \<Rightarrow> storm_exn option) \<Rightarrow> nat \<Rightarrow> u16 \<Rightarrow> u16 \<Rightarrow> client_life \<Rightarrow>
      storm_exn option \<times> client_life" where
  "client_initialize meta fails plugins port maxPeers w =
     (if li_initialized w then (None, w) else each (init_do meta fails) (init_steps plugins port maxPeers) w)"

lemma each_init:
  "\<forall>s \<in> set ss. fails s = None \<Longrightarrow> \<exists>v. each (init_do meta fails) ss w = (None, v) \<and> li_steps v = li_steps w @ ss
     \<and> (li_initialized v \<longleftrightarrow> li_initialized w \<or> SetInitialized \<in> set ss)"
proof (induction ss arbitrary: w)
  case (Cons s ss)
  let ?v = "step_effect meta s (w\<lparr>li_steps := li_steps w @ [s]\<rparr>)"
  have s: "init_do meta fails s w = (None, ?v)"
    using Cons.prems by (simp add: init_do_def)
  have v: "li_steps ?v = li_steps w @ [s]" "li_initialized ?v \<longleftrightarrow> li_initialized w \<or> s = SetInitialized"
    by (cases s; simp)+
  show ?case
    using Cons.IH [of ?v] Cons.prems s v by auto
qed simp

text \<open>
  However often it is called, the client is initialised once: every plugin is asked for its
  dependencies before the container is built, is told of the transport after it has started, and all
  of them see the client when the transport runs.
\<close>

lemma initialized_once:
  assumes "\<forall>s. fails s = None" and "0 < n"
  shows "\<exists>v. ((\<lambda>w. snd (client_initialize meta fails plugins port maxPeers w)) ^^ n) new_client_life = v
    \<and> li_initialized v \<and> li_steps v = init_steps plugins port maxPeers"
proof -
  let ?i = "\<lambda>w. snd (client_initialize meta fails plugins port maxPeers w)"
  obtain v where v: "each (init_do meta fails) (init_steps plugins port maxPeers) new_client_life = (None, v)"
      "li_steps v = init_steps plugins port maxPeers" "li_initialized v"
    using each_init [of "init_steps plugins port maxPeers" fails meta new_client_life] assms(1)
    by (auto simp: init_steps_def new_client_life_def)
  have i: "?i new_client_life = v"
    using v(1) by (simp add: client_initialize_def new_client_life_def)
  have idle: "(?i ^^ k) v = v" for k
    using v(3) by (induction k) (simp_all add: client_initialize_def)
  obtain m where "n = Suc m"
    using assms(2) by (cases n) simp_all
  then have "(?i ^^ n) new_client_life = v"
    using i idle [of m] by (simp add: funpow_Suc_right del: funpow.simps)
  then show ?thesis
    using v by simp
qed

text \<open>A failure leaves the client uninitialised, and the hooks that have run already run again at the next call.\<close>

lemma failed_start_repeats:
  assumes "fails (StartTransport port (maxPeers + 1)) = Some e" and "\<forall>s. s \<noteq> StartTransport port (maxPeers + 1) \<longrightarrow> fails s = None"
    and "client_initialize meta fails plugins port maxPeers new_client_life = (r, v)"
  shows "r = Some e" and "\<not> li_initialized v" and "HookPackets \<in> set (li_steps v)"
proof -
  let ?pre = "map RegisterClientDependencies [0..<plugins] @ [BuildContainer, RegisterModules, HookPackets]"
  obtain u where u: "each (init_do meta fails) ?pre new_client_life = (None, u)" "li_steps u = ?pre" "\<not> li_initialized u"
    using each_init [of ?pre fails meta new_client_life] assms(2) by (auto simp: new_client_life_def)
  have app: "each f (xs @ ys) w = (case each f xs w of (None, w') \<Rightarrow> each f ys w' | (Some ex, w') \<Rightarrow> (Some ex, w'))"
    for f :: "init_step \<Rightarrow> client_life \<Rightarrow> storm_exn option \<times> client_life" and xs ys w
    by (induction xs arbitrary: w) (auto split: prod.split option.split)
  have split: "init_steps plugins port maxPeers = ?pre @ StartTransport port (maxPeers + 1) #
      (map TransportStarted [0..<plugins] @ map ClientCreated [0..<plugins]
       @ [SetMetadata, StartDispatcher, SetInitialized, StartDispatcher])"
    by (simp add: init_steps_def)
  have "client_initialize meta fails plugins port maxPeers new_client_life = (Some e, u)"
    using u(1) assms(1) unfolding client_initialize_def split app by (simp add: new_client_life_def init_do_def)
  then show "r = Some e" "\<not> li_initialized v" "HookPackets \<in> set (li_steps v)"
    using assms(3) u(2,3) by simp_all
qed

text \<open>The greatest number of peers wraps around to none.\<close>

lemma max_peers_wrap: "StartTransport port 0 \<in> set (init_steps plugins port 65535)"
  by (simp add: init_steps_def)

section \<open>Private scenes\<close>

text \<open>A token is a JSON object or the older form.\<close>

definition token_endpoint :: "('j, 'd) codecs \<Rightarrow> string \<Rightarrow> 'd scene_endpoint res option" where
  "token_endpoint cd token = (if take 1 token = ''{'' then getSceneEndpointInfo cd token else decodeToken cd token)"

text \<open>
  The token is read before the task is made, so a bad one is an exception of the call; then the scene id
  in it becomes an address as for a public scene. \<^term>\<open>sceneIdOf\<close> is the field of the data of the token.
\<close>

definition connectToPrivateScene ::
    "('j, 'd) codecs \<Rightarrow> ('d \<Rightarrow> string) \<Rightarrow> string \<Rightarrow> string \<Rightarrow> string \<Rightarrow>
      (string \<times> nat \<times> MessageOriginFilter \<times> (string \<rightharpoonup> string)) list \<Rightarrow> federation res \<Rightarrow> client \<Rightarrow> (nat res \<times> client) option" where
  "connectToPrivateScene cd sceneIdOf token account app routes fed c =
     map_option (\<lambda>r. case r of
        Inl e \<Rightarrow> (Inl e, c)
      | Inr sep \<Rightarrow>
          (case fed of
             Inl e \<Rightarrow> (Inl e, c)
           | Inr f \<Rightarrow>
               (case connectToScene (parseSceneUrl (sceneIdOf (ep_tokenData sep)) account app f) False (ep_token sep) routes c of
                  (a, c1) \<Rightarrow> (Inr a, c1)))) (token_endpoint cd token)"

text \<open>An empty token is refused by its reader; the check of \<^verbatim>\<open>getPrivateScene\<close> for it comes too late.\<close>

lemma empty_token_refused:
  "connectToPrivateScene cd sceneIdOf '''' account app routes fed c = Some (Inl (InvalidArgument ''Empty token''), c)"
  by (simp add: connectToPrivateScene_def token_endpoint_def decodeToken_def)

text \<open>
  The address of a private scene is made from its id alone: two scenes of that id in different
  applications share the entry, and the second caller gets the scene of the first.
\<close>

lemma private_scene_by_id:
  assumes "token_endpoint cd token = Some (Inr sep)" and "token_endpoint cd token' = Some (Inr sep')"
    and "sceneIdOf (ep_tokenData sep) = sceneIdOf (ep_tokenData sep')" and "fed = Inr f"
    and "connectToPrivateScene cd sceneIdOf token account app routes fed c = Some (Inr a, c1)"
  shows "connectToPrivateScene cd sceneIdOf token' account app routes' fed c1 = Some (Inr a, c1)"
  using assms by (auto simp: connectToPrivateScene_def connectToScene_def request_def Let_def split: option.splits)

section \<open>Calls for all connections\<close>

text \<open>
  \<^verbatim>\<open>setServerTimeout\<close> of the client reaches every connection of the repository; \<^term>\<open>ids\<close> is the order of the
  hash table. A connection that is not made yet is waited for, one that has failed makes the result fail.
\<close>

fun timeout_each :: "(int \<Rightarrow> string) \<Rightarrow> int \<Rightarrow> nat task list \<Rightarrow> repository \<Rightarrow> repository" where
  "timeout_each shw ms [] r = r"
| "timeout_each shw ms (t # ts) r =
     timeout_each shw ms ts
       (case t of
          Done c \<Rightarrow> r\<lparr>cr_store := (cr_store r)[c := snd (conn_setTimeout shw ms (cr_store r ! c))]\<rparr>
        | _ \<Rightarrow> r)"

definition connections_setTimeout :: "(int \<Rightarrow> string) \<Rightarrow> int \<Rightarrow> u64 list \<Rightarrow> repository \<Rightarrow> repository" where
  "connections_setTimeout shw ms ids r = timeout_each shw ms (map (\<lambda>i. cr_tasks r ! the (cr_connections r i)) ids) r"

lemma timeout_each_maps:
  "cr_connections (timeout_each shw ms ts r) = cr_connections r" "cr_tasks (timeout_each shw ms ts r) = cr_tasks r"
  "length (cr_store (timeout_each shw ms ts r)) = length (cr_store r)"
  by (induction ts arbitrary: r) (simp_all split: task.split)

text \<open>A timeout that does not fit into 32 bits changes no connection.\<close>

lemma bad_timeout_ignored:
  assumes "ms < 0 \<or> 2 ^ 32 \<le> ms"
  shows "connections_setTimeout shw ms ids r = r"
proof -
  have "snd (conn_setTimeout shw ms c) = c" for c
    using assms by (auto simp: conn_setTimeout_def)
  then have "timeout_each shw ms ts r = r" for ts
    by (induction ts arbitrary: r) (simp_all split: task.split)
  then show ?thesis
    by (simp add: connections_setTimeout_def)
qed

text \<open>
  \<^verbatim>\<open>disconnect\<close> does nothing for a client without scenes; otherwise it disconnects the scenes, \<^term>\<open>order\<close> being
  the uris of the map, and when all have ended, in whatever way, it closes the connections.
\<close>

definition client_disconnect :: "string list \<Rightarrow> client \<Rightarrow> bool \<times> client" where
  "client_disconnect order c =
     (if list_all (\<lambda>u. cw_scenes c u = None) order then (False, c) else (True, disconnectAllScenes order c))"

definition client_disconnected :: "bool \<Rightarrow> u64 list \<Rightarrow> repository \<Rightarrow> repository" where
  "client_disconnected begun ids r =
     (if begun then closeAllConnections ids ''Client disconnection requested by user'' r else r)"

text \<open>Without scenes the connections stay open.\<close>

lemma idle_client_keeps_connections:
  assumes "cw_scenes c = Map.empty" and "client_disconnect order c = (begun, c1)"
  shows "client_disconnected begun ids r = r"
  using assms by (simp add: client_disconnect_def client_disconnected_def list_all_iff)

section \<open>Messages and events\<close>

text \<open>A packet of the transport goes to the plugins, then to the dispatcher.\<close>

datatype 'p packet_visit = PluginSees nat 'p | Dispatched 'p

definition transport_packetReceived :: "nat \<Rightarrow> 'p \<Rightarrow> 'p packet_visit list" where
  "transport_packetReceived plugins p = map (\<lambda>i. PluginSees i p) [0..<plugins] @ [Dispatched p]"

text \<open>An event is posted even when the dispatcher does not run; the first result says that this is logged.\<close>

definition dispatchEvent :: "'a \<Rightarrow> 'a action_queue \<Rightarrow> bool \<times> unit res \<times> 'a action_queue" where
  "dispatchEvent ev q = (\<not> aq_isRunning q, aq_post ev q)"

lemma event_without_dispatcher:
  "\<not> aq_isRunning q \<Longrightarrow> dispatchEvent ev q = (True, Inl (LogicError ''Dispatcher isn't running''), q)"
  by (simp add: dispatchEvent_def aq_post_def)

text \<open>\<^verbatim>\<open>pingCluster\<close> pings the first endpoint; \<^const>\<open>None\<close> is the first of no endpoints.\<close>

definition pingCluster :: "string \<Rightarrow> federation res \<Rightarrow> string res option" where
  "pingCluster i fed =
     (case bind_res fed (getCluster i) of
        Inl e \<Rightarrow> Some (Inl e)
      | Inr c \<Rightarrow> (case cl_endpoints c of [] \<Rightarrow> None | e # es \<Rightarrow> Some (Inr e)))"

lemma empty_cluster_pinged:
  "cl_id (fd_current f) = i \<Longrightarrow> cl_endpoints (fd_current f) = [] \<Longrightarrow> pingCluster i (Inr f) = None"
  by (simp add: pingCluster_def getCluster_def)

section \<open>The destructor\<close>

text \<open>
  The scenes of the map whose task has ended are disconnected at once, on the thread of the destructor. The
  callbacks on their states hold the client weakly and find none, so that the map stays as it is
  during the loop.
\<close>

definition destroy_scene :: "nat \<Rightarrow> client \<Rightarrow> client" where
  "destroy_scene i c =
     (case scene_of c i of
        None \<Rightarrow> c
      | Some sc \<Rightarrow>
          if cs_state (sc_state sc) \<noteq> Disconnected
          then put_scene i (scene_setConnectionState (conn_state Disconnected) False
                 (scene_setConnectionState (conn_state Disconnecting) False sc)) c
          else c)"

definition destroy_entry :: "string \<Rightarrow> client \<Rightarrow> client" where
  "destroy_entry u c =
     (case cw_scenes c u of
        None \<Rightarrow> c
      | Some e \<Rightarrow> if stage_of c (ce_task e) = Finished then destroy_scene (ce_task e) c else c)"

definition destroy_client :: "string list \<Rightarrow> client \<Rightarrow> client" where
  "destroy_client order c = (fold destroy_entry order c)\<lparr>cw_scenes := Map.empty\<rparr>"

lemma destroy_entry_frame:
  "cw_scenes (destroy_entry u c) = cw_scenes c" "cw_attempts (destroy_entry u c) = cw_attempts c"
  by (simp_all add: destroy_entry_def destroy_scene_def put_scene_def split: option.split)

lemma destroyed_scene:
  assumes "scene_of c i = Some sc" and "sc_wf sc"
  shows "\<exists>sc'. scene_of (destroy_scene i c) i = Some sc' \<and> sc_wf sc' \<and> cs_state (sc_state sc') = Disconnected"
proof (cases "cs_state (sc_state sc) = Disconnected")
  case False
  then have n: "\<not> sc_completed sc"
    using assms(2) by (auto simp: sc_wf_def split: if_splits)
  let ?d = "setConnectionStateInternal (conn_state Disconnected) (setConnectionStateInternal (conn_state Disconnecting) sc)"
  have "sc_wf ?d"
    using assms(2) by (intro sc_wf_set)
  moreover have "cs_state (sc_state ?d) = Disconnected"
    using False n by (simp add: setConnectionStateInternal_def cs_eq_def conn_state_def)
  ultimately have "cs_state (sc_state ?d) = Disconnected" "sc_wf ?d"
    by simp_all
  then show ?thesis
    using assms(1) False by (simp add: destroy_scene_def scene_setConnectionState_def put_scene_def scene_of_def)
qed (use assms in \<open>simp add: destroy_scene_def\<close>)

lemma destroy_scene_other: "j \<noteq> i \<Longrightarrow> scene_of (destroy_scene i c) j = scene_of c j"
  by (simp add: destroy_scene_def put_scene_def scene_of_def split: option.split)

lemma destroy_scene_same:
  assumes "scene_of c i = Some sc" and "cs_state (sc_state sc) = Disconnected"
  shows "destroy_scene i c = c"
  using assms by (simp add: destroy_scene_def)

text \<open>Afterwards every scene that was in the map, connected or on its way, is disconnected.\<close>

lemma destruction_disconnects:
  assumes "cw_scenes c u = Some e" and "stage_of c (ce_task e) = Finished" and "scene_of c (ce_task e) = Some sc"
    and "\<forall>i sc. scene_of c i = Some sc \<longrightarrow> sc_wf sc" and "u \<in> set order"
  shows "\<exists>sc'. scene_of (destroy_client order c) (ce_task e) = Some sc' \<and> cs_state (sc_state sc') = Disconnected"
proof -
  let ?i = "ce_task e"
  have keep: "\<exists>sc'. scene_of (destroy_entry v d) ?i = Some sc' \<and> sc_wf sc' \<and>
      (cs_state (sc_state s) = Disconnected \<or> v = u \<longrightarrow> cs_state (sc_state sc') = Disconnected)"
    if s: "scene_of d ?i = Some s" "sc_wf s" and d: "cw_scenes d = cw_scenes c" "cw_attempts d = cw_attempts c" for v d s
  proof (cases "\<exists>e'. cw_scenes d v = Some e' \<and> stage_of d (ce_task e') = Finished")
    case True
    then obtain e' where e': "cw_scenes d v = Some e'" "stage_of d (ce_task e') = Finished"
      by blast
    then have de: "destroy_entry v d = destroy_scene (ce_task e') d"
      by (simp add: destroy_entry_def)
    show ?thesis
    proof (cases "ce_task e' = ?i")
      case True
      then show ?thesis
        using destroyed_scene [OF s] de by fastforce
    next
      case False
      then show ?thesis
        using destroy_scene_other [of ?i "ce_task e'" d] de s e'(1) d(1) assms(1) by auto
    qed
  next
    case False
    then have "destroy_entry v d = d"
      by (simp add: destroy_entry_def split: option.split)
    moreover have "v \<noteq> u"
      using False assms(1,2) d by (auto simp: stage_of_def)
    ultimately show ?thesis
      using s by simp
  qed
  have "\<exists>sc'. scene_of (fold destroy_entry vs d) ?i = Some sc' \<and> sc_wf sc' \<and>
      (cs_state (sc_state s) = Disconnected \<or> u \<in> set vs \<longrightarrow> cs_state (sc_state sc') = Disconnected)"
    if "scene_of d ?i = Some s" "sc_wf s" "cw_scenes d = cw_scenes c" "cw_attempts d = cw_attempts c" for vs d s
    using that
  proof (induction vs arbitrary: d s)
    case (Cons v vs)
    obtain s' where s': "scene_of (destroy_entry v d) ?i = Some s'" "sc_wf s'"
        "cs_state (sc_state s) = Disconnected \<or> v = u \<longrightarrow> cs_state (sc_state s') = Disconnected"
      using keep [OF Cons.prems] by blast
    have "cw_scenes (destroy_entry v d) = cw_scenes c" "cw_attempts (destroy_entry v d) = cw_attempts c"
      using Cons.prems(3,4) by (simp_all add: destroy_entry_frame)
    then show ?case
      using Cons.IH [OF s'(1,2)] s'(3) by auto
  qed simp
  then obtain sc' where "scene_of (fold destroy_entry order c) ?i = Some sc'" "cs_state (sc_state sc') = Disconnected"
    using assms(3-5) by blast
  then show ?thesis
    by (simp add: destroy_client_def scene_of_def)
qed

end
