(* ===== verification/TransportStart.thy ===== *)
theory TransportStart
  imports Transport
begin

text \<open>
  Starting the transport (\<^verbatim>\<open>start\<close> and \<^verbatim>\<open>initialize\<close> of \<^verbatim>\<open>RakNet/RakNetTransport.cpp\<close>) and its periodic
  job. RakNet's answer to the start of a peer is an argument, 0 for success.
\<close>

section \<open>Operations\<close>

text \<open>\<^term>\<open>result\<close> is the answer of \<^verbatim>\<open>Startup\<close> and \<^term>\<open>shw\<close> the decimal form of numbers.\<close>

definition peer_failure :: "(nat \<Rightarrow> string) \<Rightarrow> nat \<Rightarrow> string" where
  "peer_failure shw result = ''RakNet peer startup failed (RakNet::StartupResult == '' @ shw result @ '')''"

definition transport_initialize :: "(nat \<Rightarrow> string) \<Rightarrow> nat \<Rightarrow> transport \<Rightarrow> unit res \<times> transport" where
  "transport_initialize shw result t =
     (if result \<noteq> 0
      then (Inl (RuntimeError (''Failed to initialize the RakNet peer ('' @ peer_failure shw result @ '')'')), t\<lparr>tr_peer := True\<rparr>)
      else (Inr (), t\<lparr>tr_peer := True, tr_active := True\<rparr>))"

text \<open>
  The boolean says whether the periodic job has been scheduled, and the token of the client watched. \<^term>\<open>handler\<close>
  says that there is a connection manager.
\<close>

definition transport_start ::
    "(nat \<Rightarrow> string) \<Rightarrow> bool \<Rightarrow> u16 \<Rightarrow> nat \<Rightarrow> transport \<Rightarrow> unit res \<times> bool \<times> transport" where
  "transport_start shw handler maxConnections result t =
     (if tr_isRunning t then (Inr (), False, t)
      else
        (let t1 = t\<lparr>tr_isRunning := True\<rparr> in
         if \<not> handler \<and> 0 < maxConnections then (Inl (InvalidArgument ''Handler is null for server.''), False, t1)
         else (case transport_initialize shw result t1 of
                 (Inl e, t2) \<Rightarrow> (Inl e, False, t2)
               | (Inr u, t2) \<Rightarrow> (Inr (), True, t2))))"

text \<open>The periodic job runs the transport while it is started; a canceled token stops it.\<close>

definition transport_tick :: "(transport \<Rightarrow> transport) \<Rightarrow> transport \<Rightarrow> transport" where
  "transport_tick run t = (if tr_isRunning t then run t else t)"

definition transport_canceled :: "u64 list \<Rightarrow> transport \<Rightarrow> unit res \<times> transport" where
  "transport_canceled guids t = transport_stop guids t"

section \<open>Starting and stopping\<close>

lemma start_succeeds:
  assumes "\<not> tr_isRunning t" and "handler"
  shows "transport_start shw handler maxConnections 0 t = (Inr (), True, t\<lparr>tr_isRunning := True, tr_peer := True, tr_active := True\<rparr>)"
  using assms by (simp add: transport_start_def transport_initialize_def)

text \<open>A transport that runs is not started a second time.\<close>

lemma start_twice:
  assumes "transport_start shw handler mc result t = (r, b, t1)"
  shows "transport_start shw handler' mc' result' t1 = (Inr (), False, t1)"
  using assms
  by (auto simp: transport_start_def transport_initialize_def Let_def split: if_splits)

text \<open>
  So a start that has failed is never made good: the next one returns without an error and without
  scheduling the job.
\<close>

lemma failed_start_sticks:
  assumes "transport_start shw True mc result t = (Inl e, b, t1)" and "\<not> tr_active t"
  shows "transport_start shw True mc 0 t1 = (Inr (), False, t1)" and "\<not> tr_active t1"
proof -
  show "transport_start shw True mc 0 t1 = (Inr (), False, t1)"
    by (rule start_twice [OF assms(1)])
  show "\<not> tr_active t1"
    using assms by (auto simp: transport_start_def transport_initialize_def Let_def split: if_splits)
qed

text \<open>Its connections fail.\<close>

lemma start_request_inactive:
  assumes "\<not> tr_active t"
  shows "\<not> tr_active (start_request rak rq t) \<and> tr_calls (start_request rak rq t) = tr_calls t"
  using assms by (auto simp: start_request_def Let_def tr_set_def)

lemma failed_start_never_connects:
  assumes "transport_start shw True mc result t = (Inl e, b, t1)" and "\<not> tr_active t"
  shows "tr_calls (start_next rak t1) = tr_calls t1"
proof -
  have "\<not> tr_active s \<Longrightarrow> tr_calls (start_next rak s) = tr_calls s \<and> \<not> tr_active (start_next rak s)" for s
  proof (induction "length (tr_pendingConnections s)" arbitrary: s rule: less_induct)
    case less
    show ?case
    proof (cases "tr_pendingConnections s")
      case Nil
      then show ?thesis
        using less.prems by (simp add: start_next.simps [of rak s])
    next
      case (Cons rq rest)
      let ?s = "s\<lparr>tr_pendingConnections := rest\<rparr>"
      have "tr_calls (start_next rak ?s) = tr_calls ?s \<and> \<not> tr_active (start_next rak ?s)"
        using less.hyps [of ?s] less.prems Cons by simp
      then show ?thesis
        using Cons less.prems start_request_inactive by (auto simp: start_next.simps [of rak s])
    qed
  qed
  then show ?thesis
    using failed_start_sticks(2) [OF assms] by blast
qed

text \<open>After a stop the job finds nothing to do, and the transport can be started again.\<close>

lemma onDisconnection_running: "tr_isRunning (onDisconnection g reason t) = tr_isRunning t"
  by (auto simp: onDisconnection_def removeConnection_def set_conn_state_def Let_def split: option.split)

lemma stopped_transport_idle:
  assumes "transport_canceled guids t = (r, t1)"
  shows "transport_tick run t1 = t1"
proof -
  have "tr_isRunning (fold (\<lambda>g. onDisconnection g reason) gs s) = tr_isRunning s" for gs s reason
    by (induction gs arbitrary: s) (simp_all add: onDisconnection_running)
  then have "\<not> tr_isRunning t1"
    using assms by (auto simp: transport_canceled_def transport_stop_def Let_def tr_call_def split: if_splits)
  then show ?thesis
    by (simp add: transport_tick_def)
qed

end
