(* ===== verification/TunnelService.thy ===== *)
theory TunnelService
  imports Prelude
begin

text \<open>
  The plugin for tunnels between two players (\<^verbatim>\<open>Plugins/public/Tunnels/Tunnels.hpp\<close>). A call asks the server
  whether the other side is ready, again after a delay when it is not, then opens a tunnel to the peer.
  Peers and tunnels are numbered; calls are numbered state machines.
\<close>

section \<open>State\<close>

datatype tunnel_call =
    WaitPeer
  | WaitAnswer nat
  | RetryDelay
  | OpeningTunnel nat
  | TunnelOpened nat
  | TunnelFailed storm_exn

text \<open>
  \<open>tv_peer\<close> is what the completion event of the peer was set to, \<open>tv_subscribed\<close> the subscription to the peers
  of the scene, \<open>tv_tunnel\<close> the tunnel the service is the server of.
\<close>

record tunnel_service =
  tv_peer :: "nat option"
  tv_subscribed :: bool
  tv_tunnel :: "nat option"
  tv_calls :: "tunnel_call list"

definition TunnelsService :: tunnel_service where
  "TunnelsService = \<lparr>tv_peer = None, tv_subscribed = False, tv_tunnel = None, tv_calls = []\<rparr>"

definition tunnels_initialize :: "tunnel_service \<Rightarrow> tunnel_service" where
  "tunnels_initialize v = v\<lparr>tv_subscribed := True\<rparr>"

section \<open>Calls\<close>

definition begin_call :: "nat option \<Rightarrow> tunnel_call" where
  "begin_call peer = (case peer of None \<Rightarrow> WaitPeer | Some p \<Rightarrow> WaitAnswer p)"

definition service_openTunnel :: "tunnel_service \<Rightarrow> nat \<times> tunnel_service" where
  "service_openTunnel v = (length (tv_calls v), v\<lparr>tv_calls := tv_calls v @ [begin_call (tv_peer v)]\<rparr>)"

fun peer_known :: "nat \<Rightarrow> tunnel_call \<Rightarrow> tunnel_call" where
  "peer_known p WaitPeer = WaitAnswer p"
| "peer_known p k = k"

text \<open>The first peer ends the subscription and sets the event.\<close>

definition tunnel_peer_connected :: "nat \<Rightarrow> tunnel_service \<Rightarrow> tunnel_service" where
  "tunnel_peer_connected p v =
     (if tv_subscribed v
      then v\<lparr>tv_subscribed := False, tv_peer := Some p, tv_calls := map (peer_known p) (tv_calls v)\<rparr> else v)"

text \<open>The answer to \<^verbatim>\<open>Tunnels.OpenP2PTunnel\<close>; \<^term>\<open>there\<close> says that the peer still exists.\<close>

fun on_tunnel_answer :: "bool res \<Rightarrow> bool \<Rightarrow> tunnel_call \<Rightarrow> tunnel_call" where
  "on_tunnel_answer (Inl e) there (WaitAnswer p) = TunnelFailed e"
| "on_tunnel_answer (Inr opened) there (WaitAnswer p) =
     (if \<not> opened then RetryDelay else if \<not> there then TunnelFailed (PointerDeleted ''peer destroyed'') else OpeningTunnel p)"
| "on_tunnel_answer r there k = k"

fun on_tunnel_delay :: "nat option \<Rightarrow> tunnel_call \<Rightarrow> tunnel_call" where
  "on_tunnel_delay peer RetryDelay = begin_call peer"
| "on_tunnel_delay peer k = k"

fun on_tunnel_opened :: "nat res \<Rightarrow> tunnel_call \<Rightarrow> tunnel_call" where
  "on_tunnel_opened (Inl e) (OpeningTunnel p) = TunnelFailed e"
| "on_tunnel_opened (Inr t) (OpeningTunnel p) = TunnelOpened t"
| "on_tunnel_opened r k = k"

definition upd_tunnel_call :: "nat \<Rightarrow> (tunnel_call \<Rightarrow> tunnel_call) \<Rightarrow> tunnel_service \<Rightarrow> tunnel_service" where
  "upd_tunnel_call n f v = v\<lparr>tv_calls := (tv_calls v)[n := f (tv_calls v ! n)]\<rparr>"

text \<open>The procedure \<^verbatim>\<open>Tunnels.OpenTunnel\<close> registers a server; the tunnel it replaces is released.\<close>

definition tunnel_requested :: "bool \<Rightarrow> nat \<Rightarrow> tunnel_service \<Rightarrow> unit res \<times> tunnel_service" where
  "tunnel_requested scene t v =
     (if scene then (Inr (), v\<lparr>tv_tunnel := Some t\<rparr>) else (Inl (PointerDeleted ''Scene destroyed''), v))"

definition service_onDisconnecting :: "tunnel_service \<Rightarrow> tunnel_service" where
  "service_onDisconnecting v = v\<lparr>tv_tunnel := None\<rparr>"

section \<open>The API\<close>

text \<open>The services of scenes are numbered; the API keeps the current one.\<close>

record tunnels_api =
  tw_services :: "tunnel_service list"
  tw_current :: "nat option"

definition api_openTunnel :: "tunnels_api \<Rightarrow> nat res \<times> tunnels_api" where
  "api_openTunnel w =
     (case tw_current w of
        None \<Rightarrow> (Inl (RuntimeError ''No connected to game session implementing bfg.tunnels''), w)
      | Some s \<Rightarrow>
          (case service_openTunnel (tw_services w ! s) of
             (n, v) \<Rightarrow> (Inr n, w\<lparr>tw_services := (tw_services w)[s := v]\<rparr>)))"

definition api_onConnecting :: "nat \<Rightarrow> tunnels_api \<Rightarrow> tunnels_api" where
  "api_onConnecting s w = w\<lparr>tw_current := Some s\<rparr>"

text \<open>The service that disconnects is not looked at.\<close>

definition api_onDisconnecting :: "nat \<Rightarrow> tunnels_api \<Rightarrow> tunnels_api" where
  "api_onDisconnecting s w =
     (case tw_current w of
        None \<Rightarrow> w
      | Some k \<Rightarrow> w\<lparr>tw_services := (tw_services w)[k := service_onDisconnecting (tw_services w ! k)], tw_current := None\<rparr>)"

section \<open>What calls do\<close>

datatype tunnel_action =
    CallOpen
  | PeerConnected nat
  | Answered nat "bool res" bool
  | DelayOver nat
  | OpenEnded nat "nat res"
  | TunnelRequested bool nat
  | ServiceDisconnecting

fun tunnel_act :: "tunnel_action \<Rightarrow> tunnel_service \<Rightarrow> tunnel_service" where
  "tunnel_act CallOpen v = snd (service_openTunnel v)"
| "tunnel_act (PeerConnected p) v = tunnel_peer_connected p v"
| "tunnel_act (Answered n r there) v = upd_tunnel_call n (on_tunnel_answer r there) v"
| "tunnel_act (DelayOver n) v = upd_tunnel_call n (on_tunnel_delay (tv_peer v)) v"
| "tunnel_act (OpenEnded n r) v = upd_tunnel_call n (on_tunnel_opened r) v"
| "tunnel_act (TunnelRequested scene t) v = snd (tunnel_requested scene t v)"
| "tunnel_act ServiceDisconnecting v = service_onDisconnecting v"

text \<open>Calls wait for the peer as long as there is none, and deal with that one peer afterwards.\<close>

fun call_fits :: "nat option \<Rightarrow> tunnel_call \<Rightarrow> bool" where
  "call_fits peer WaitPeer = (peer = None)"
| "call_fits peer (WaitAnswer p) = (peer = Some p)"
| "call_fits peer (OpeningTunnel p) = (peer = Some p)"
| "call_fits peer RetryDelay = (peer \<noteq> None)"
| "call_fits peer (TunnelOpened t) = (peer \<noteq> None)"
| "call_fits peer (TunnelFailed e) = (peer \<noteq> None)"

definition tunnels_sound :: "tunnel_service \<Rightarrow> bool" where
  "tunnels_sound v \<longleftrightarrow> list_all (call_fits (tv_peer v)) (tv_calls v) \<and> (tv_subscribed v \<longrightarrow> tv_peer v = None)"

lemma fits_begin: "call_fits peer (begin_call peer)"
  by (cases peer) (simp_all add: begin_call_def)

lemma fits_steps:
  assumes "call_fits peer k"
  shows "call_fits peer (on_tunnel_answer r there k)" "call_fits peer (on_tunnel_delay peer k)" "call_fits peer (on_tunnel_opened r' k)"
  using assms fits_begin by (cases k; cases r; cases r'; auto)+

lemma fits_peer: "call_fits None k \<Longrightarrow> call_fits (Some p) (peer_known p k)"
  by (cases k) simp_all

lemma upd_sound:
  assumes "tunnels_sound v" and "\<And>k. call_fits (tv_peer v) k \<Longrightarrow> call_fits (tv_peer v) (f k)"
  shows "tunnels_sound (upd_tunnel_call n f v)"
proof (cases "n < length (tv_calls v)")
  case True
  then show ?thesis
    using assms by (auto simp: tunnels_sound_def upd_tunnel_call_def list_all_iff dest!: set_update_subset_insert [THEN subsetD])
next
  case False
  then show ?thesis
    using assms(1) by (simp add: upd_tunnel_call_def list_update_beyond)
qed

lemma act_sound: "tunnels_sound v \<Longrightarrow> tunnels_sound (tunnel_act a v)"
proof (cases a)
  case (PeerConnected p)
  assume "tunnels_sound v"
  then show ?thesis
    using fits_peer by (auto simp: PeerConnected tunnels_sound_def tunnel_peer_connected_def list_all_iff)
next
  case CallOpen
  assume "tunnels_sound v"
  then show ?thesis
    using fits_begin by (simp add: CallOpen tunnels_sound_def service_openTunnel_def)
qed (simp_all add: upd_sound fits_steps, simp_all add: tunnel_requested_def service_onDisconnecting_def tunnels_sound_def)

lemma run_sound: "tunnels_sound v \<Longrightarrow> tunnels_sound (fold tunnel_act acts v)"
  by (induction acts arbitrary: v) (simp_all add: act_sound)

lemma peer_stays:
  assumes "tunnels_sound v" and "tv_peer v = Some p"
  shows "tv_peer (fold tunnel_act acts v) = Some p"
  using assms
proof (induction acts arbitrary: v)
  case (Cons a acts)
  have "tv_peer (tunnel_act a v) = Some p"
    using Cons.prems
    by (cases a) (auto simp: tunnels_sound_def service_openTunnel_def tunnel_peer_connected_def upd_tunnel_call_def
        tunnel_requested_def service_onDisconnecting_def)
  then show ?case
    using Cons.IH act_sound Cons.prems(1) by simp
qed simp

text \<open>
  Every tunnel is opened to the first peer that connected, whatever peers come and go later: when that
  peer has left, every further call fails.
\<close>

lemma tunnels_to_first_peer:
  assumes "v = fold tunnel_act (PeerConnected p # acts) (tunnels_initialize TunnelsService)"
    and "n < length (tv_calls v)" and "tv_calls v ! n = OpeningTunnel q"
  shows "q = p"
proof -
  let ?v = "tunnel_act (PeerConnected p) (tunnels_initialize TunnelsService)"
  have s: "tunnels_sound ?v" "tv_peer ?v = Some p"
    by (simp_all add: tunnels_sound_def tunnel_peer_connected_def tunnels_initialize_def TunnelsService_def)
  then have "tv_peer v = Some p" "tunnels_sound v"
    using peer_stays [OF s] run_sound [OF s(1)] assms(1) by simp_all
  then have "call_fits (Some p) (tv_calls v ! n)"
    using assms(2) by (simp add: tunnels_sound_def list_all_length)
  then show ?thesis
    using assms(3) by simp
qed

text \<open>A server that never agrees keeps a call asking without end.\<close>

lemma refused_call_never_ends:
  assumes "n < length (tv_calls v)" and "tv_calls v ! n = WaitAnswer p" and "tv_peer v = Some p"
  shows "tv_calls (((\<lambda>v. tunnel_act (DelayOver n) (tunnel_act (Answered n (Inr False) there) v)) ^^ k) v) ! n = WaitAnswer p"
proof -
  have "tv_calls (((\<lambda>v. tunnel_act (DelayOver n) (tunnel_act (Answered n (Inr False) there) v)) ^^ k) v) ! n = WaitAnswer p
     \<and> n < length (tv_calls (((\<lambda>v. tunnel_act (DelayOver n) (tunnel_act (Answered n (Inr False) there) v)) ^^ k) v))
     \<and> tv_peer (((\<lambda>v. tunnel_act (DelayOver n) (tunnel_act (Answered n (Inr False) there) v)) ^^ k) v) = Some p"
    using assms by (induction k) (auto simp: upd_tunnel_call_def begin_call_def)
  then show ?thesis
    by blast
qed

text \<open>A session that disconnects late takes the tunnels of the next one with it.\<close>

lemma late_disconnection_takes_next:
  assumes "a \<noteq> b" and "api_onDisconnecting a (api_onConnecting b w) = w'" and "b < length (tw_services w)"
  shows "tw_current w' = None" and "tv_tunnel (tw_services w' ! b) = None"
  using assms(2,3)
  by (auto simp: api_onDisconnecting_def api_onConnecting_def service_onDisconnecting_def)

end
