(* ===== verification/Spec2Isabelle.thy ===== *)
theory Spec2Isabelle
  imports Prelude ByteStreamBuf ByteStreams PacketDispatch Network IdPool SystemRequests Connections
    Strings Transport ChannelUids SceneTypes Scenes RpcCore RpcCalls DependencyInjection Scheduling SyncClock ApiClient Client Tunnels P2PRequests Serialization GameFinders PartyState Parties Users ServiceScenes
    GameSessions SceneLifecycle ServerSession Friends Pings Events ClientContainer ClientLife
    TransportStart TunnelService
begin

text \<open>
  A verification library of the Stormancer C++ client. Paths are below
  \<^verbatim>\<open>stormancer/stormancer-sources\<close>, in \<^verbatim>\<open>src\<close> or \<^verbatim>\<open>include\<close>, or start with \<^verbatim>\<open>Plugins\<close>.

  \<^bold>\<open>The program.\<close> A client asks the HTTP API of a federation where a scene lives, connects to that
  server through RakNet, exchanges system requests with it, and connects to scenes, whose named
  routes carry messages between the client, the scene's host and other peers. Remote procedure
  calls run on two routes of a scene; peers reach each other directly, by a relay, or by tunnels
  for the sockets of a game. Bytes come up from the transport as packets, which a dispatcher
  hands to processors by the id in front; what goes down is written to a growing stream, perhaps
  encrypted, and sent on a channel of the connection. Continuations of tasks and jobs of an
  action dispatcher change the state of scenes; everything is made by a container of dependencies.

  \<^bold>\<open>Theories, from the bottom up.\<close>

  \<^item> Prelude: machine types, the exceptions of the SDK as \<^typ>\<open>storm_exn\<close>, results as
    \<^typ>\<open>'a res\<close>, tasks as \<^typ>\<open>'a task\<close>, \<^verbatim>\<open>emplace\<close> on maps.
  \<^item> ByteStreamBuf, ByteStreams: \<^verbatim>\<open>Streams/\<close>. A buffer is a record of its block, mode and pointers;
    an access out of the block sets a fault flag. Writing appends, reading consumes, messages of
    typed fields round-trip, an owned block is freed.
  \<^item> Serialization: \<^verbatim>\<open>Serializer.h\<close>. Values packed in order come back with what follows them on the stream.
  \<^item> PacketDispatch: packets, message ids, \<^verbatim>\<open>DefaultPacketDispatcher.cpp\<close>. A handler is a function on
    a packet and the state \<^typ>\<open>'w\<close> of the rest of the client.
  \<^item> Network: \<^verbatim>\<open>ConnectionState.cpp\<close>, \<^verbatim>\<open>AES/\<close>, \<^verbatim>\<open>Windows/AES/\<close>, \<^verbatim>\<open>RakNet/RakNetConnection.cpp\<close>.
    \<^typ>\<open>rnconn\<close> is a connection with the messages it has put on the wire.
  \<^item> IdPool, SystemRequests: \<^verbatim>\<open>RequestProcessor.cpp\<close>, \<^verbatim>\<open>SystemRequest.cpp\<close>, \<^verbatim>\<open>RequestContext.cpp\<close>.
    A request reaches the handler with its parameter, an answer completes its request, ids of
    pending requests are distinct.
  \<^item> Connections: \<^verbatim>\<open>P2P/ConnectionsRepository.cpp\<close>, \<^verbatim>\<open>P2P/P2PSessions.cpp\<close>.
  \<^item> Strings, ChannelUids: \<^verbatim>\<open>Utilities/StringUtilities.cpp\<close>, \<^verbatim>\<open>ChannelUidStore.cpp\<close>.
  \<^item> Transport: \<^verbatim>\<open>RakNet/RakNetTransport.cpp\<close>, the queue of connection attempts and the reactions to
    RakNet's packets.
  \<^item> SceneTypes, Scenes: \<^verbatim>\<open>Route.cpp\<close>, \<^verbatim>\<open>PeerFilter.cpp\<close>, scene addresses, \<^verbatim>\<open>Scene.cpp\<close>,
    \<^verbatim>\<open>ScenePeer.cpp\<close>, \<^verbatim>\<open>P2P/P2PScenePeer.cpp\<close>, \<^verbatim>\<open>SceneDispatcher.cpp\<close>. A scene posts jobs; running them
    is a function on its state. A message crosses from one peer's route to the other's handlers.
  \<^item> RpcCore, RpcCalls: \<^verbatim>\<open>RPC/\<close>. Calls, answers, completion, cancellation on both sides; the
    reachable states carry the set of the calls whose message could not be sent.
  \<^item> DependencyInjection: \<^verbatim>\<open>DependencyInjection.h\<close>, \<^verbatim>\<open>DependencyInjection.cpp\<close>.
  \<^item> ClientContainer: \<^verbatim>\<open>ClientContainerConfigurator.cpp\<close>. The registrations of a client are closed and
    not circular; the id of a type is a number of its own.
  \<^item> Scheduling: \<^verbatim>\<open>IActionDispatcher.cpp\<close>, \<^verbatim>\<open>TimerThread.cpp\<close>, \<^verbatim>\<open>DefaultScheduler.cpp\<close>. The timer thread is
    a step relation, since its statements interleave with the calls of other threads.
  \<^item> SyncClock: \<^verbatim>\<open>SyncClock.cpp\<close>, \<^verbatim>\<open>Watch.cpp\<close>, over real numbers with an undefined value.
  \<^item> ApiClient: \<^verbatim>\<open>ApiClient.cpp\<close>, \<^verbatim>\<open>TokenHandler.cpp\<close>. The search through the endpoints refines the
    search for the first answer in a list.
  \<^item> Client: the map of scenes of \<^verbatim>\<open>Client.cpp\<close>. An attempt to connect is a state machine whose
    transitions are the continuations of the code; \<^verbatim>\<open>client_step\<close> interleaves them with the jobs of
    scenes, losses of connections, cancellations and the calls of users, and \<^verbatim>\<open>client_run\<close> adds the
    disconnections that take the entry of another attempt.
  \<^item> P2PRequests: \<^verbatim>\<open>P2P/P2PRequestModule.cpp\<close>, \<^verbatim>\<open>P2P/P2PService.cpp\<close>, over the transport, the repository and
    the sessions, which call each other through the subscriptions to the end of connections.
  \<^item> Tunnels: \<^verbatim>\<open>P2P/RakNet/P2PTunnels.cpp\<close>, \<^verbatim>\<open>P2P/P2PPacketDispatcher.cpp\<close>,
    \<^verbatim>\<open>P2P/RelayConnection.cpp\<close>. Two peers exchange requests in turn and their tables mirror each other,
    but for the handles given to an opener that got no end of its own;
    a datagram crosses from one game's socket to the other's.
  \<^item> GameFinders: \<^verbatim>\<open>Plugins/private/GameFinder\<close>. The status of a search, moved by the game and by
    updates of the server, and the registry of connection attempts and searches by name.
  \<^item> PartyState, Parties: \<^verbatim>\<open>Plugins/public/Party/Party.hpp\<close>. The copy of a party refines the numbered
    states of the server; the chain of connections to game finders follows the settings; joining,
    leaving and invitations.
  \<^item> Users, ServiceScenes: \<^verbatim>\<open>Plugins/public/Users\<close>. The state of the user's connection, moved by four functions
    that call each other; attempts to log in as numbered state machines; runs of the API as lists of
    actions, over which invariants are lifted once. The cached scene of a service.
  \<^item> GameSessions: \<^verbatim>\<open>Plugins/public/GameSession\<close>. Containers of sessions by number, of which only the
    current one is alive, with the task for the scene and the call behind it as state machines.
  \<^item> SceneLifecycle: the tasks of connecting and disconnecting of \<^verbatim>\<open>Scene.cpp\<close>, beside Scenes, which has
    the state they move.
  \<^item> ServerSession: \<^verbatim>\<open>ensureConnectedToServer\<close> and the session token of \<^verbatim>\<open>Client.cpp\<close>, beside Client,
    which waits for the connection.
  \<^item> ClientLife: initialisation, private scenes, the calls for all connections and the destructor of
    \<^verbatim>\<open>Client.cpp\<close>, beside Client.
  \<^item> TransportStart: \<^verbatim>\<open>start\<close> and \<^verbatim>\<open>initialize\<close> of \<^verbatim>\<open>RakNetTransport.cpp\<close>, beside Transport.
  \<^item> TunnelService: \<^verbatim>\<open>Plugins/public/Tunnels\<close>. Calls for a tunnel between two players.
  \<^item> Friends: \<^verbatim>\<open>Plugins/public/Friends\<close>. The map of shared objects refines the list of the server,
    which is defined beside the code, but for the tags.
  \<^item> Events: \<^verbatim>\<open>Event.h\<close>, \<^verbatim>\<open>Action.h\<close>, \<^verbatim>\<open>Subscription.cpp\<close>. Objects that share lists of functions; the
    programs the functions run are lists of actions, with the depth of nested calls as fuel.
  \<^item> Pings: \<^verbatim>\<open>sendPing\<close> of \<^verbatim>\<open>RakNetTransport.cpp\<close>, beside Transport, which has the queue of its packets.

  \<^bold>\<open>Conventions.\<close> Operations are functions that return the changed state; \<^const>\<open>Inl\<close> is an exception.
  Undefined behaviour of C++ (a dereferenced null pointer, an index out of bounds) is \<^const>\<open>None\<close> or a
  fault flag. Objects that are shared live in lists or maps and are named by their index. Outside
  code is an argument: RakNet's \<^verbatim>\<open>Send\<close>, BCrypt, HTTP, JSON, base64 and msgpack, subscribers of the
  reactive library, clocks, the random engine, and the order of iteration over a hash table. The
  outcome of a task that other code finishes is an argument of the continuation's definition.

  \<^bold>\<open>Interfaces.\<close> \<^verbatim>\<open>fixed_codec\<close> (typed fields of streams), \<^verbatim>\<open>connection\<close> (a send that transmits what was
  written), \<^verbatim>\<open>slot_table\<close> (reserving and releasing ids; both the request processor and the RPC service
  interpret it), \<^verbatim>\<open>connection_manager\<close> (what sessions ask of the repository), \<^verbatim>\<open>route_sender\<close> (what the
  RPC service asks of a scene), \<^verbatim>\<open>users_frame\<close> and \<^verbatim>\<open>users_invariant\<close> (predicates that the updates and the
  actions of the users' API keep).

  \<^bold>\<open>Lemmas.\<close> Each theory has an invariant with one preservation lemma per operation, equations for
  every branch of an operation, then the properties, then a concrete state at which each property
  that has hypotheses is applied.

  \<^bold>\<open>Bounds.\<close> Streams are correct up to $2^{30}$ written and $2^{31}$ read bytes, the width of \<^verbatim>\<open>int\<close>. The
  search for a request id makes 65536 rounds, one for every 16-bit id, so it fails only when all
  are taken. A packet runs through at most 40 layers, as \<^verbatim>\<open>_maxLayerCount\<close> says. Tables of scene handles
  have at most 150 entries, stores of channels 16. Resolution of dependencies has fuel; a rank of the
  types bounds it, one more than the rank is enough, and without a rank no fuel is. \<^verbatim>\<open>update\<close> consumes
  a list of readings of the clock; it ends when the actions do not post forever. The
  window of the clock has 24 values.

  \<^bold>\<open>Not modelled.\<close> msgpack and the other vendored libraries, logging, stack traces and
  device identifiers contain no logic of the SDK or only output. The sockets of RakNet are
  parameters. The other plugins under \<^verbatim>\<open>Plugins\<close> are services on top of scenes and calls. Threads are
  interleavings of whole operations, except for the timer thread; memory orders are not modelled.
\<close>

end
